(* ===== verification/Anjay_Prelude.thy ===== *)
theory Anjay_Prelude
  imports Main "HOL-Library.Word" "HOL-Library.Monad_Syntax"
begin

text \<open>
  Generic vocabulary of the development: bytes and byte memory, the way C failures are
  represented, big-endian integers and the bit-field macros of
  \<open>avs_coap_parse_utils.h\<close>.

  A C function that reads or writes memory, or that contains an \<open>assert\<close>, is modelled by a
  function into \<open>'a option\<close>. The value \<open>None\<close> stands for a run that the C code does not
  define or refuses: an access outside the modelled memory region, a failed \<open>assert\<close>, or a
  loop that never returns. A theorem that a call equals \<open>Some r\<close> therefore says at the same
  time that the call returns, that every access is in bounds, that every assertion holds, and
  what the result is. Error codes that the C function returns are ordinary values inside
  \<open>Some\<close>.
\<close>

unbundle bit_operations_syntax

section \<open>Types and failures\<close>

type_synonym byte = "8 word"
type_synonym u16 = "16 word"
type_synonym u32 = "32 word"
type_synonym bytes = "byte list"

text \<open>
  The values of \<open>avs_error_t\<close> that the modelled code returns: \<open>AVS_OK\<close>, the errno
  category, the end-of-file condition and the CoAP category.
\<close>

datatype avs_error = AVS_OK | AVS_ENOMEM | AVS_EINVAL | AVS_ERANGE | AVS_ENOENT
  | AVS_EMSGSIZE | AVS_EBADF | AVS_ENOTSUP | AVS_EOF
  | AVS_COAP_ERR_MESSAGE_TOO_BIG | AVS_COAP_ERR_MALFORMED_MESSAGE
  | AVS_COAP_ERR_MALFORMED_OPTIONS | AVS_COAP_ERR_ASSERT_FAILED
  | AVS_COAP_ERR_TIMEOUT | AVS_COAP_ERR_TIME_INVALID | AVS_COAP_ERR_PRNG_FAIL
  | AVS_COAP_ERR_UDP_RESET_RECEIVED | AVS_COAP_ERR_TRUNCATED_MESSAGE_RECEIVED
  | AVS_ETIMEDOUT | AVS_EIO | AVS_EBADMSG | AVS_EOVERFLOW

text \<open>Facts about reads and writes of memory, and the arithmetic of machine words.\<close>

named_theorems mem_simps
named_theorems word_facts

definition c_assert :: "bool \<Rightarrow> unit option" where
  "c_assert P = (if P then Some () else None)"

text \<open>
  Unsigned subtraction: on \<open>uint32_t\<close> it wraps around; a \<open>size_t\<close> subtraction that would
  wrap yields a length no object has, so the model treats it as undefined.
\<close>

definition u32_sub :: "nat \<Rightarrow> nat \<Rightarrow> nat" where
  "u32_sub a b = (a + 2 ^ 32 - b) mod 2 ^ 32"

definition size_minus :: "nat \<Rightarrow> nat \<Rightarrow> nat option" where
  "size_minus a b = (if b \<le> a then Some (a - b) else None)"

lemma u32_sub_le [simp]:
  assumes "b \<le> a" and "a < 2 ^ 32"
  shows "u32_sub a b = a - b"
proof -
  have "a + 2 ^ 32 - b = (a - b) + 2 ^ 32" using assms by simp
  with assms show ?thesis by (simp only: u32_sub_def mod_add_self2) simp
qed

lemma size_minus_le [simp]: "b \<le> a \<Longrightarrow> size_minus a b = Some (a - b)"
  by (simp add: size_minus_def)

lemma c_assert_bind_True [simp]: "P \<Longrightarrow> Option.bind (c_assert P) f = f ()"
  by (simp add: c_assert_def)

lemma c_assert_bind_eq_Some [simp]:
  "Option.bind (c_assert P) f = Some r \<longleftrightarrow> P \<and> f () = Some r"
  by (simp add: c_assert_def)

section \<open>Memory regions\<close>

text \<open>
  A region of memory is a list of bytes and a pointer into it is an offset. Every access
  checks that it stays inside the region.
\<close>

definition rd8 :: "bytes \<Rightarrow> nat \<Rightarrow> byte option" where
  "rd8 m p = (if p < length m then Some (m ! p) else None)"

definition rd_bytes :: "bytes \<Rightarrow> nat \<Rightarrow> nat \<Rightarrow> bytes option" where
  "rd_bytes m p n = (if p + n \<le> length m then Some (take n (drop p m)) else None)"

definition wr8 :: "bytes \<Rightarrow> nat \<Rightarrow> byte \<Rightarrow> bytes option" where
  "wr8 m p b = (if p < length m then Some (m[p := b]) else None)"

definition wr_bytes :: "bytes \<Rightarrow> nat \<Rightarrow> bytes \<Rightarrow> bytes option" where
  "wr_bytes m p bs =
     (if p + length bs \<le> length m then Some (take p m @ bs @ drop (p + length bs) m) else None)"

text \<open>The C library function: the source is read completely before the destination is written.\<close>

definition memmove :: "bytes \<Rightarrow> nat \<Rightarrow> nat \<Rightarrow> nat \<Rightarrow> bytes option" where
  "memmove m dst src n = do { bs \<leftarrow> rd_bytes m src n; wr_bytes m dst bs }"

lemma rd8_append [mem_simps]:
  "length xs = p \<Longrightarrow> rd8 (xs @ b # ys) p = Some b"
  by (auto simp: rd8_def)

lemma rd8_append_off [mem_simps]:
  "rd8 (xs @ ys) (length xs + i) = rd8 ys i"
  by (simp add: rd8_def nth_append)

lemma rd8_Some_iff: "rd8 m p = Some b \<longleftrightarrow> p < length m \<and> m ! p = b"
  by (simp add: rd8_def)

lemma rd_bytes_append [mem_simps]:
  "length xs = p \<Longrightarrow> length ys = n \<Longrightarrow> rd_bytes (xs @ ys @ zs) p n = Some ys"
  by (auto simp: rd_bytes_def)

lemma rd_bytes_append_end [mem_simps]:
  "length xs = p \<Longrightarrow> length ys = n \<Longrightarrow> rd_bytes (xs @ ys) p n = Some ys"
  by (auto simp: rd_bytes_def)

lemma wr8_append [mem_simps]:
  "length xs = p \<Longrightarrow> wr8 (xs @ b # ys) p c = Some (xs @ c # ys)"
  by (auto simp: wr8_def)

lemma wr_bytes_append [mem_simps]:
  "length xs = p \<Longrightarrow> length ys = length bs \<Longrightarrow>
   wr_bytes (xs @ ys @ zs) p bs = Some (xs @ bs @ zs)"
  by (auto simp: wr_bytes_def)

lemma wr_bytes_append_end [mem_simps]:
  "length xs = p \<Longrightarrow> length ys = length bs \<Longrightarrow>
   wr_bytes (xs @ ys) p bs = Some (xs @ bs)"
  by (auto simp: wr_bytes_def)

lemma memmove_down:
  assumes "length pre = dst" "length gap = g" "src = dst + g" "length body = n"
  shows "memmove (pre @ gap @ body @ post) dst src n
         = Some (pre @ body @ drop n (gap @ body) @ post)"
  using assms by (auto simp: memmove_def rd_bytes_def wr_bytes_def)

lemma memmove_up:
  assumes "length pre = src" "length body = n" "g \<le> length post"
  shows "\<exists>gap. length gap = g \<and>
     memmove (pre @ body @ post) (src + g) src n = Some (pre @ gap @ body @ drop g post)"
proof (intro exI conjI)
  show "length (take g (body @ post)) = g" using assms by simp
  show "memmove (pre @ body @ post) (src + g) src n = Some (pre @ take g (body @ post) @ body @ drop g post)"
    using assms by (auto simp: memmove_def rd_bytes_def wr_bytes_def)
qed

lemma wr_bytes_length: "wr_bytes m p bs = Some m' \<Longrightarrow> length m' = length m"
  by (auto simp: wr_bytes_def split: if_splits)

lemma memmove_length: "memmove m d s n = Some m' \<Longrightarrow> length m' = length m"
  by (auto simp: memmove_def bind_eq_Some_conv dest: wr_bytes_length)

section \<open>Bit fields and big-endian integers\<close>

text \<open>\<open>_AVS_FIELD_GET\<close> and \<open>_AVS_FIELD_SET\<close>.\<close>

definition field_get :: "byte \<Rightarrow> byte \<Rightarrow> nat \<Rightarrow> byte" where
  "field_get f msk sh = drop_bit sh (f AND msk)"

definition field_set :: "byte \<Rightarrow> byte \<Rightarrow> nat \<Rightarrow> byte \<Rightarrow> byte" where
  "field_set f msk sh v = (f AND NOT msk) OR (push_bit sh v AND msk)"

text \<open>\<open>extract_u16\<close>: two bytes in network order.\<close>

definition extract_u16 :: "bytes \<Rightarrow> nat \<Rightarrow> nat option" where
  "extract_u16 m p = do {
     hi \<leftarrow> rd8 m p;
     lo \<leftarrow> rd8 m (p + 1);
     Some (256 * unat hi + unat lo) }"

text \<open>The conversion of an integer to \<open>uint8_t\<close>, which keeps the low eight bits.\<close>

definition byte_of :: "nat \<Rightarrow> byte" where
  "byte_of n = word_of_nat n"

text \<open>\<open>avs_convert_be16\<close> of a 16-bit value, as the two bytes it occupies in memory.\<close>

definition be16 :: "nat \<Rightarrow> bytes" where
  "be16 n = [byte_of (n div 256), byte_of n]"

lemma unat_byte_of [simp]: "unat (byte_of n) = n mod 256"
  by (simp add: byte_of_def unat_of_nat)

lemma byte_of_unat [simp]: "byte_of (unat b) = b"
  by (simp add: byte_of_def)

lemma byte_lt_256 [simp]: "unat (b :: byte) < 256"
  using unsigned_less [of b] by simp

lemma byte_not_ge_256 [simp]: "256 \<le> unat (b :: byte) \<longleftrightarrow> False"
  using unsigned_less [of b] by (simp add: not_le)

lemma byte_le_255 [simp]: "unat (b :: byte) \<le> 255"
  using byte_lt_256 [of b] by linarith

lemma byte_eqI: "unat a = unat b \<Longrightarrow> a = (b :: byte)"
  by (rule unsigned_word_eqI)

text \<open>A fact about one byte can be checked on all 256 of them.\<close>

lemma byte_cases_nat:
  assumes "\<forall>n \<in> set [0..<256]. P (word_of_nat n :: byte)"
  shows "P b"
proof -
  have "unat b \<in> set [0..<256]" by simp
  with assms have "P (word_of_nat (unat b))" by blast
  then show ?thesis by simp
qed

lemma length_be16 [simp]: "length (be16 n) = 2"
  by (simp add: be16_def)

lemma extract_u16_be16 [mem_simps]:
  "n < 65536 \<Longrightarrow> length pre = p \<Longrightarrow> extract_u16 (pre @ be16 n @ post) p = Some n"
  by (auto simp: extract_u16_def be16_def rd8_def nth_append)

lemma extract_u16_lt: "extract_u16 m p = Some n \<Longrightarrow> n < 65536"
  using byte_le_255 [of "m ! p"] byte_le_255 [of "m ! (p + 1)"]
  by (auto simp: extract_u16_def rd8_def bind_eq_Some_conv simp del: byte_le_255 split: if_splits)

subsection \<open>Integers as bytes\<close>

text \<open>The bytes of an unsigned integer in memory, least significant first, and in network order.\<close>

definition le_bytes :: "nat \<Rightarrow> nat \<Rightarrow> bytes" where
  "le_bytes k v = map (\<lambda>i. byte_of (v div 256 ^ i)) [0..<k]"

definition be_bytes :: "nat \<Rightarrow> nat \<Rightarrow> bytes" where
  "be_bytes k v = rev (le_bytes k v)"

text \<open>The value of a byte string in network order.\<close>

definition be_nat :: "bytes \<Rightarrow> nat" where
  "be_nat bs = foldl (\<lambda>v b. 256 * v + unat b) 0 bs"

lemma be_nat_Nil [simp]: "be_nat [] = 0"
  by (simp add: be_nat_def)

lemma be_nat_snoc [simp]: "be_nat (bs @ [b]) = 256 * be_nat bs + unat b"
  by (simp add: be_nat_def)

lemma be_nat_less: "be_nat bs < 256 ^ length bs"
proof (induction bs rule: rev_induct)
  case (snoc b bs)
  have "256 * be_nat bs + unat b < 256 * (be_nat bs + 1)" by simp
  also have "\<dots> \<le> 256 * 256 ^ length bs" using snoc by (intro mult_left_mono) auto
  finally show ?case by simp
qed simp

lemma be_nat_Cons: "be_nat (b # bs) = unat b * 256 ^ length bs + be_nat bs"
  by (induction bs rule: rev_induct) (simp_all add: be_nat_def algebra_simps)

lemma be_nat_strip: "be_nat (dropWhile (\<lambda>b. b = 0) bs) = be_nat bs"
  by (induction bs) (simp_all add: be_nat_Cons)

lemma be_nat_rev_le: "be_nat (rev (le_bytes k v)) = v mod 256 ^ k"
proof (induction k)
  case (Suc k)
  have "be_nat (rev (le_bytes (Suc k) v)) = (v div 256 ^ k mod 256) * 256 ^ k + v mod 256 ^ k"
    using Suc by (simp add: le_bytes_def be_nat_Cons)
  also have "\<dots> = v mod 256 ^ Suc k"
    using mod_mult2_eq [of v "256 ^ k" 256] by (simp add: mult.commute)
  finally show ?case .
qed (simp add: le_bytes_def)

lemma length_le_bytes [simp]: "length (le_bytes k v) = k"
  by (simp add: le_bytes_def)

lemma length_be_bytes [simp]: "length (be_bytes k v) = k"
  by (simp add: be_bytes_def)

lemma be_nat_be_bytes [simp]: "be_nat (be_bytes k v) = v mod 256 ^ k"
  by (simp add: be_bytes_def be_nat_rev_le)

lemma be_bytes_0 [simp]: "be_bytes 0 v = []"
  by (simp add: be_bytes_def le_bytes_def)

lemma be_bytes_Suc: "be_bytes (Suc k) v = byte_of (v div 256 ^ k) # be_bytes k v"
  by (simp add: be_bytes_def le_bytes_def)

text \<open>The low bytes of a longer representation are the shorter one.\<close>

lemma drop_be_bytes: "drop n (be_bytes (n + k) v) = be_bytes k v"
  by (induction n) (simp_all add: be_bytes_Suc)

text \<open>\<open>avs_is_power_of_2\<close>.\<close>

definition is_power_of_2 :: "nat \<Rightarrow> bool" where
  "is_power_of_2 value \<longleftrightarrow> value > 0 \<and> value AND (value - 1) = 0"

subsection \<open>Masks and four-bit fields\<close>

lemma unat_and_mask: "unat (b AND mask n :: 'a::len word) = unat b mod 2 ^ n"
  unfolding take_bit_eq_mask [symmetric] unsigned_take_bit_eq by (rule take_bit_eq_mod)

lemma unat_drop_bit_div: "unat (drop_bit n b :: 'a::len word) = unat b div 2 ^ n"
  unfolding unat_drop_bit_eq by (rule drop_bit_eq_div)

lemma unat_and_not_mask: "unat (b AND NOT (mask n) :: 'a::len word) = 2 ^ n * (unat b div 2 ^ n)"
proof -
  have eq: "b AND NOT (mask n) = push_bit n (drop_bit n b)"
    by (rule bit_word_eqI) (auto simp: bit_simps)
  have "unat (push_bit n (drop_bit n b)) = take_bit LENGTH('a) (2 ^ n * (unat b div 2 ^ n))"
    by (simp add: unsigned_push_bit_eq unat_drop_bit_div mult.commute)
      (simp add: push_bit_eq_mult mult.commute)
  also have "\<dots> = 2 ^ n * (unat b div 2 ^ n)"
    using order_le_less_trans [OF times_div_less_eq_dividend [of "2 ^ n" "unat b"] unsigned_less [of b]]
    by (rule take_bit_nat_eq_self)
  finally show ?thesis by (simp add: eq)
qed

lemma u8_and_15: "unat (b AND 15 :: byte) = unat b mod 16"
  using unat_and_mask[of b 4] by (simp add: mask_numeral)

lemma u8_240_not_mask: "(240 :: byte) = NOT (mask 4)"
  by (simp add: mask_numeral)

lemma u8_and_240: "unat (b AND 240 :: byte) = 16 * (unat b div 16)"
  unfolding u8_240_not_mask unat_and_not_mask by simp

lemma unat_or_disjoint: "a AND b = 0 \<Longrightarrow> unat (a OR b) = unat a + unat (b::'a::len word)"
  by (metis disjunctive_add_eq_or unsigned_or_eq unsigned_and_eq unsigned_0)

lemma field_get_hi4: "unat (field_get b 0xF0 4) = unat b div 16"
  unfolding field_get_def unat_drop_bit_div u8_and_240 by simp

lemma field_get_lo4: "unat (field_get b 0x0F 0) = unat b mod 16"
  by (simp add: field_get_def u8_and_15)

lemma unat_and_not_and: "unat ((f AND NOT m) OR (v AND m)) = unat (f AND NOT m) + unat (v AND m)"
   for f :: "'a :: len word"
proof (rule unat_or_disjoint)
  show "(f AND NOT m) AND (v AND m) = 0"
    by (rule bit_word_eqI) (auto simp: bit_simps)
qed

lemma field_set_hi4: "unat (field_set f 0xF0 4 v) = 16 * (unat v mod 16) + unat f mod 16"
proof -
  have "unat (push_bit 4 v AND 0xF0) = 16 * (unat (push_bit 4 v) div 16)" by (rule u8_and_240)
  also have "unat (push_bit 4 v) = (unat v * 2 ^ 4) mod 2 ^ 8"
    unfolding unsigned_push_bit_eq unfolding push_bit_eq_mult take_bit_eq_mod by simp
  also have "unat v * 2 ^ 4 mod 2 ^ 8 div 16 = unat v mod 16" using mod_mult_mult2 [of "unat v" 16 16] by simp
  finally have "unat (push_bit 4 v AND 0xF0) = 16 * (unat v mod 16)" .
  moreover have n240: "NOT (240 :: byte) = 15" by simp
  have "unat (f AND NOT 240) = unat f mod 16" unfolding n240 by (rule u8_and_15)
  ultimately show ?thesis by (simp only: field_set_def unat_and_not_and)
qed

lemma field_set_lo4: "unat (field_set f 0x0F 0 v) = 16 * (unat f div 16) + unat v mod 16"
proof -
  have n15: "NOT (15 :: byte) = 240" by simp
  have "unat (f AND NOT 15) = 16 * (unat f div 16)" unfolding n15 by (rule u8_and_240)
  moreover have "push_bit 0 v = v" by simp
  ultimately show ?thesis by (simp only: field_set_def unat_and_not_and u8_and_15)
qed

section \<open>Positions in lists\<close>

text \<open>The position at which a loop over a list stops.\<close>

primrec find_pos :: "('a \<Rightarrow> bool) \<Rightarrow> 'a list \<Rightarrow> nat option" where
  "find_pos P [] = None"
| "find_pos P (x # xs) = (if P x then Some 0 else map_option Suc (find_pos P xs))"

lemma find_pos_None: "find_pos P xs = None \<longleftrightarrow> (\<forall>x \<in> set xs. \<not> P x)"
  by (induction xs) auto

lemma find_pos_Some:
  "find_pos P xs = Some n \<longleftrightarrow> n < length xs \<and> P (xs ! n) \<and> (\<forall>x \<in> set (take n xs). \<not> P x)"
proof (induction xs arbitrary: n)
  case (Cons x xs)
  then show ?case by (cases n) auto
qed simp

end
