(* ===== verification/Anjay_Notify.thy ===== *)
theory Anjay_Notify
  imports Anjay_Prelude
begin

text \<open>
  The queues of data model changes (\<open>core/anjay_notify.c\<close>): for each changed Object, whether its set
  of Instances changed, which Instances are known to be new, and which Resources changed. The three
  levels of lists are kept sorted without duplicates. The theory models the operations on a queue and
  the scheduling of its delivery; the delivery itself (observations, server connections) is left out.

  The outcomes of memory allocations are a list that is consumed from the front: \<open>Some a\<close> for a new
  element at address \<open>a\<close>, \<open>None\<close> (or an exhausted list) when memory is used up.
\<close>

section \<open>Allocation and sorted lists\<close>

type_synonym allocs = "nat option list"

definition alloc_next :: "allocs \<Rightarrow> nat option \<times> allocs" where
  "alloc_next al = (case al of [] \<Rightarrow> (None, []) | a # al \<Rightarrow> (a, al))"

text \<open>What is left after allocations, and that one of them failed on the way.\<close>

definition taken :: "allocs \<Rightarrow> allocs \<Rightarrow> bool" where
  "taken al al' \<longleftrightarrow> (\<exists>xs. al = xs @ al')"

definition used_up :: "allocs \<Rightarrow> allocs \<Rightarrow> bool" where
  "used_up al al' \<longleftrightarrow> (\<exists>xs. al = xs @ al' \<and> (al' = [] \<or> None \<in> set xs))"

lemma taken_refl [simp]: "taken al al"
  by (simp add: taken_def)

lemma taken_trans: "taken al al1 \<Longrightarrow> taken al1 al2 \<Longrightarrow> taken al al2"
  by (auto simp: taken_def)

lemma used_up_taken: "used_up al al' \<Longrightarrow> taken al al'"
  by (auto simp: used_up_def taken_def)

lemma taken_used_up: "taken al al1 \<Longrightarrow> used_up al1 al2 \<Longrightarrow> used_up al al2"
  unfolding taken_def used_up_def by (metis Un_iff append.assoc set_append)

lemma used_up_taken_trans: "used_up al al1 \<Longrightarrow> taken al1 al2 \<Longrightarrow> used_up al al2"
  unfolding taken_def used_up_def by (metis Un_iff append.assoc append_is_Nil_conv set_append)

lemma not_used_up: "None \<notin> set al \<Longrightarrow> al' \<noteq> [] \<Longrightarrow> \<not> used_up al al'"
  by (auto simp: used_up_def)

lemma taken_drop: "taken al (drop n al)"
  unfolding taken_def by (metis append_take_drop_id)

lemma used_up_drop: "drop n al = [] \<or> None \<in> set (take n al) \<Longrightarrow> used_up al (drop n al)"
  unfolding used_up_def by (metis append_take_drop_id)

lemma alloc_next_cases:
  obtains al' where "alloc_next al = (None, al')" "used_up al al'"
  | p al' where "alloc_next al = (Some p, al')" "taken al al'" "al = Some p # al'"
proof (cases al)
  case Nil
  show thesis by (rule that(1) [of "[]"]) (simp_all add: alloc_next_def used_up_def Nil)
next
  case (Cons a al1)
  show thesis
  proof (cases a)
    case None
    show thesis
      by (rule that(1) [of al1]) (use used_up_drop [of 1 al] in \<open>simp_all add: alloc_next_def Cons None\<close>)
  next
    case (Some p)
    show thesis
      by (rule that(2) [of p al1]) (use taken_drop [of al 1] in \<open>simp_all add: alloc_next_def Cons Some\<close>)
  qed
qed

text \<open>The order of the keys of a list, strict, so that there are no duplicates.\<close>

definition ascending :: "('a \<Rightarrow> 'k :: order) \<Rightarrow> 'a list \<Rightarrow> bool" where
  "ascending key xs \<longleftrightarrow> sorted_wrt (\<lambda>x y. key x < key y) xs"

lemma ascending_Nil [simp]: "ascending key []"
  by (simp add: ascending_def)

lemma ascending_Cons [simp]:
  "ascending key (x # xs) \<longleftrightarrow> (\<forall>y \<in> set xs. key x < key y) \<and> ascending key xs"
  by (simp add: ascending_def)

lemma ascending_append:
  "ascending key (xs @ ys) \<longleftrightarrow>
   ascending key xs \<and> ascending key ys \<and> (\<forall>x \<in> set xs. \<forall>y \<in> set ys. key x < key y)"
  by (simp add: ascending_def sorted_wrt_append)

lemma ascending_map: "ascending key (map f xs) \<longleftrightarrow> ascending (key \<circ> f) xs"
  by (simp add: ascending_def sorted_wrt_map)

lemma ascending_distinct: "ascending key xs \<Longrightarrow> distinct (map key xs)"
  by (induction xs) auto

lemma ascending_key_inj:
  "ascending key xs \<Longrightarrow> x \<in> set xs \<Longrightarrow> y \<in> set xs \<Longrightarrow> key x = key y \<Longrightarrow> x = y"
  by (metis ascending_distinct distinct_map inj_onD)

lemma ascending_filter: "ascending key xs \<Longrightarrow> ascending key (filter P xs)"
  by (induction xs) auto

section \<open>The queue\<close>

record object_entry =
  oe_oid :: nat
  oe_instance_set_changed :: bool
  oe_known_added_iids :: "nat list"
  oe_resources_changed :: "(nat \<times> nat) list"

type_synonym notify_queue = "object_entry list"

definition new_object_entry :: "nat \<Rightarrow> object_entry" where
  "new_object_entry oid =
     \<lparr>oe_oid = oid, oe_instance_set_changed = False, oe_known_added_iids = [], oe_resources_changed = []\<rparr>"

text \<open>
  \<open>find_or_create_object_entry\<close> returns a pointer into the list: the entry with what is in front of it
  and what follows it.
\<close>

fun find_or_create_object_entry ::
    "notify_queue \<Rightarrow> nat \<Rightarrow> allocs \<Rightarrow> (notify_queue \<times> object_entry \<times> notify_queue) option \<times> allocs" where
  "find_or_create_object_entry [] oid al =
     (case alloc_next al of
        (None, al) \<Rightarrow> (None, al)
      | (Some _, al) \<Rightarrow> (Some ([], new_object_entry oid, []), al))"
| "find_or_create_object_entry (e # es) oid al =
     (if oe_oid e = oid then (Some ([], e, es), al)
      else if oid < oe_oid e then
        (case alloc_next al of
           (None, al) \<Rightarrow> (None, al)
         | (Some _, al) \<Rightarrow> (Some ([], new_object_entry oid, e # es), al))
      else (case find_or_create_object_entry es oid al of
              (None, al) \<Rightarrow> (None, al)
            | (Some (before, x, after), al) \<Rightarrow> (Some (e # before, x, after), al)))"

fun add_entry_to_iid_set :: "nat list \<Rightarrow> nat \<Rightarrow> allocs \<Rightarrow> int \<times> nat list \<times> allocs" where
  "add_entry_to_iid_set [] iid al =
     (case alloc_next al of (None, al) \<Rightarrow> (- 1, [], al) | (Some _, al) \<Rightarrow> (0, [iid], al))"
| "add_entry_to_iid_set (i # is) iid al =
     (if i = iid then (0, i # is, al)
      else if iid < i then
        (case alloc_next al of (None, al) \<Rightarrow> (- 1, i # is, al) | (Some _, al) \<Rightarrow> (0, iid # i # is, al))
      else (case add_entry_to_iid_set is iid al of (r, is, al) \<Rightarrow> (r, i # is, al)))"

fun remove_entry_from_iid_set :: "nat list \<Rightarrow> nat \<Rightarrow> nat list" where
  "remove_entry_from_iid_set [] iid = []"
| "remove_entry_from_iid_set (i # is) iid =
     (if iid \<le> i then (if i = iid then is else i # is) else i # remove_entry_from_iid_set is iid)"

definition delete_notify_queue_object_entry_if_empty ::
    "notify_queue \<Rightarrow> object_entry \<Rightarrow> notify_queue \<Rightarrow> notify_queue option" where
  "delete_notify_queue_object_entry_if_empty before e after =
     (if oe_instance_set_changed e \<or> oe_resources_changed e \<noteq> [] then Some (before @ e # after)
      else do {
        c_assert (oe_known_added_iids e = []);
        Some (before @ after) })"

definition notify_queue_instance_created ::
    "notify_queue \<Rightarrow> nat \<Rightarrow> nat \<Rightarrow> allocs \<Rightarrow> (int \<times> notify_queue \<times> allocs) option" where
  "notify_queue_instance_created q oid iid al =
     (case find_or_create_object_entry q oid al of
        (None, al) \<Rightarrow> Some (- 1, q, al)
      | (Some (before, e, after), al) \<Rightarrow>
          (case add_entry_to_iid_set (oe_known_added_iids e) iid al of (r, added, al) \<Rightarrow>
             if r \<noteq> 0 then do {
               q \<leftarrow> delete_notify_queue_object_entry_if_empty before e after;
               Some (- 1, q, al) }
             else Some (0, before @ e\<lparr>oe_known_added_iids := added, oe_instance_set_changed := True\<rparr> # after, al)))"

definition notify_queue_instance_removed ::
    "notify_queue \<Rightarrow> nat \<Rightarrow> nat \<Rightarrow> allocs \<Rightarrow> int \<times> notify_queue \<times> allocs" where
  "notify_queue_instance_removed q oid iid al =
     (case find_or_create_object_entry q oid al of
        (None, al) \<Rightarrow> (- 1, q, al)
      | (Some (before, e, after), al) \<Rightarrow>
          (0, before @ e\<lparr>oe_known_added_iids := remove_entry_from_iid_set (oe_known_added_iids e) iid,
                         oe_instance_set_changed := True\<rparr> # after, al))"

definition notify_queue_instance_set_unknown_change ::
    "notify_queue \<Rightarrow> nat \<Rightarrow> allocs \<Rightarrow> int \<times> notify_queue \<times> allocs" where
  "notify_queue_instance_set_unknown_change q oid al =
     (case find_or_create_object_entry q oid al of
        (None, al) \<Rightarrow> (- 1, q, al)
      | (Some (before, e, after), al) \<Rightarrow> (0, before @ e\<lparr>oe_instance_set_changed := True\<rparr> # after, al))"

definition compare_resource_entries :: "nat \<times> nat \<Rightarrow> nat \<times> nat \<Rightarrow> int" where
  "compare_resource_entries left right =
     (let result = int (fst left) - int (fst right)
      in if result = 0 then int (snd left) - int (snd right) else result)"

text \<open>The loop of \<open>_anjay_notify_queue_resource_change\<close> over the changed Resources of one Object.\<close>

fun add_resource_entry :: "(nat \<times> nat) list \<Rightarrow> nat \<times> nat \<Rightarrow> allocs \<Rightarrow> int \<times> (nat \<times> nat) list \<times> allocs" where
  "add_resource_entry [] new al =
     (case alloc_next al of (None, al) \<Rightarrow> (- 1, [], al) | (Some _, al) \<Rightarrow> (0, [new], al))"
| "add_resource_entry (x # xs) new al =
     (if compare_resource_entries x new = 0 then (0, x # xs, al)
      else if compare_resource_entries x new > 0 then
        (case alloc_next al of (None, al) \<Rightarrow> (- 1, x # xs, al) | (Some _, al) \<Rightarrow> (0, new # x # xs, al))
      else (case add_resource_entry xs new al of (r, xs, al) \<Rightarrow> (r, x # xs, al)))"

definition notify_queue_resource_change ::
    "notify_queue \<Rightarrow> nat \<Rightarrow> nat \<Rightarrow> nat \<Rightarrow> allocs \<Rightarrow> int \<times> notify_queue \<times> allocs" where
  "notify_queue_resource_change q oid iid rid al =
     (case find_or_create_object_entry q oid al of
        (None, al) \<Rightarrow> (- 1, q, al)
      | (Some (before, e, after), al) \<Rightarrow>
          (case add_resource_entry (oe_resources_changed e) (iid, rid) al of (r, res, al) \<Rightarrow>
             if r \<noteq> 0 then
               (- 1, if \<not> oe_instance_set_changed e \<and> oe_resources_changed e = [] then before @ after
                     else before @ e # after, al)
             else (0, before @ e\<lparr>oe_resources_changed := res\<rparr> # after, al)))"

section \<open>Scheduled notifications\<close>

text \<open>
  The queue in \<open>anjay->scheduled_notify\<close> and whether its job is scheduled. The result of
  \<open>AVS_SCHED_NOW\<close> is an argument.
\<close>

record scheduled_notify =
  sn_queue :: notify_queue
  sn_handle :: bool

definition reschedule_notify :: "scheduled_notify \<Rightarrow> int \<Rightarrow> int \<times> scheduled_notify" where
  "reschedule_notify sn sched_result =
     (if sn_handle sn then (0, sn)
      else (sched_result, if sched_result = 0 then sn\<lparr>sn_handle := True\<rparr> else sn))"

definition notify_instance_created ::
    "scheduled_notify \<Rightarrow> nat \<Rightarrow> nat \<Rightarrow> allocs \<Rightarrow> int \<Rightarrow> (int \<times> scheduled_notify \<times> allocs) option" where
  "notify_instance_created sn oid iid al sched_result = do {
     (r, q, al) \<leftarrow> notify_queue_instance_created (sn_queue sn) oid iid al;
     let sn = sn\<lparr>sn_queue := q\<rparr>;
     if r \<noteq> 0 then Some (r, sn, al)
     else (case reschedule_notify sn sched_result of (r, sn) \<Rightarrow> Some (r, sn, al)) }"

definition notify_changed ::
    "scheduled_notify \<Rightarrow> nat \<Rightarrow> nat \<Rightarrow> nat \<Rightarrow> allocs \<Rightarrow> int \<Rightarrow> int \<times> scheduled_notify \<times> allocs" where
  "notify_changed sn oid iid rid al sched_result =
     (case notify_queue_resource_change (sn_queue sn) oid iid rid al of (r, q, al) \<Rightarrow>
        let sn = sn\<lparr>sn_queue := q\<rparr> in
        if r \<noteq> 0 then (r, sn, al)
        else (case reschedule_notify sn sched_result of (r, sn) \<Rightarrow> (r, sn, al)))"

definition notify_instances_changed ::
    "scheduled_notify \<Rightarrow> nat \<Rightarrow> allocs \<Rightarrow> int \<Rightarrow> int \<times> scheduled_notify \<times> allocs" where
  "notify_instances_changed sn oid al sched_result =
     (case notify_queue_instance_set_unknown_change (sn_queue sn) oid al of (r, q, al) \<Rightarrow>
        let sn = sn\<lparr>sn_queue := q\<rparr> in
        if r \<noteq> 0 then (r, sn, al)
        else (case reschedule_notify sn sched_result of (r, sn) \<Rightarrow> (r, sn, al)))"

section \<open>Correctness\<close>

text \<open>A well-formed queue: sorted at each level, without empty entries.\<close>

definition entry_ok :: "object_entry \<Rightarrow> bool" where
  "entry_ok e \<longleftrightarrow> (oe_instance_set_changed e \<or> oe_resources_changed e \<noteq> []) \<and>
     (oe_known_added_iids e \<noteq> [] \<longrightarrow> oe_instance_set_changed e) \<and>
     ascending (\<lambda>i. i) (oe_known_added_iids e) \<and>
     sorted_wrt (\<lambda>x y. compare_resource_entries x y < 0) (oe_resources_changed e)"

definition queue_ok :: "notify_queue \<Rightarrow> bool" where
  "queue_ok q \<longleftrightarrow> ascending oe_oid q \<and> (\<forall>e \<in> set q. entry_ok e)"

text \<open>The changes a queue stands for.\<close>

definition changed_sets :: "notify_queue \<Rightarrow> nat set" where
  "changed_sets q = {oe_oid e | e. e \<in> set q \<and> oe_instance_set_changed e}"

definition added_instances :: "notify_queue \<Rightarrow> (nat \<times> nat) set" where
  "added_instances q = {(oe_oid e, iid) | e iid. e \<in> set q \<and> iid \<in> set (oe_known_added_iids e)}"

definition changed_resources :: "notify_queue \<Rightarrow> (nat \<times> nat \<times> nat) set" where
  "changed_resources q = {(oe_oid e, iid, rid) | e iid rid. e \<in> set q \<and> (iid, rid) \<in> set (oe_resources_changed e)}"

lemmas queue_changes = changed_sets_def added_instances_def changed_resources_def

lemma find_or_create_split:
  assumes "ascending oe_oid q" and "find_or_create_object_entry q oid al = (Some (before, e, after), al')"
  shows "oe_oid e = oid \<and> (\<forall>x \<in> set before. oe_oid x < oid) \<and> (\<forall>x \<in> set after. oid < oe_oid x) \<and>
    (q = before @ e # after \<or> q = before @ after \<and> e = new_object_entry oid)"
  using assms
proof (induction q arbitrary: before)
  case Nil
  then show ?case by (auto simp: new_object_entry_def split: prod.splits option.splits)
next
  case (Cons x xs)
  consider "oe_oid x = oid" | "oid < oe_oid x" | "oe_oid x < oid" by linarith
  then show ?case
  proof cases
    case 1
    with Cons.prems show ?thesis by auto
  next
    case 2
    with Cons.prems show ?thesis by (fastforce simp: new_object_entry_def split: prod.splits option.splits)
  next
    case 3
    with Cons.prems(2) obtain b where b: "before = x # b"
        and f: "find_or_create_object_entry xs oid al = (Some (b, e, after), al')"
      by (auto split: prod.splits option.splits)
    from Cons.IH [OF _ f] Cons.prems(1) 3 b show ?thesis by auto
  qed
qed

text \<open>Whether the entry was in the queue or is new, the entries around it are those of the queue.\<close>

lemma find_or_create_ok:
  assumes "queue_ok q" and "find_or_create_object_entry q oid al = (Some (before, e, after), al')"
  shows "oe_oid e = oid" and "queue_ok (before @ after)" and "ascending oe_oid (before @ e # after)"
    and "q = before @ e # after \<and> entry_ok e \<or> q = before @ after \<and> e = new_object_entry oid"
    and "ascending (\<lambda>i. i) (oe_known_added_iids e)"
    and "sorted_wrt (\<lambda>x y. compare_resource_entries x y < 0) (oe_resources_changed e)"
proof -
  have asc: "ascending oe_oid q" using assms(1) by (simp add: queue_ok_def)
  note sp = find_or_create_split [OF asc assms(2)]
  then show oid: "oe_oid e = oid" by simp
  show "ascending oe_oid (before @ e # after)"
    using sp asc by (auto simp: ascending_append)
  show "queue_ok (before @ after)"
    using sp assms(1) by (auto simp: queue_ok_def ascending_append)
  show src: "q = before @ e # after \<and> entry_ok e \<or> q = before @ after \<and> e = new_object_entry oid"
    using sp assms(1) by (auto simp: queue_ok_def)
  then show "ascending (\<lambda>i. i) (oe_known_added_iids e)"
    and "sorted_wrt (\<lambda>x y. compare_resource_entries x y < 0) (oe_resources_changed e)"
    by (auto simp: entry_ok_def new_object_entry_def)
qed

lemma add_entry_to_iid_set_correct:
  assumes "ascending (\<lambda>i. i) is" and "add_entry_to_iid_set is iid al = (r, is', al')"
  shows "r = 0 \<and> set is' = insert iid (set is) \<and> ascending (\<lambda>i. i) is' \<or> r = - 1 \<and> is' = is"
  using assms
  by (induction "is" iid al arbitrary: is' rule: add_entry_to_iid_set.induct)
    (fastforce split: prod.splits option.splits if_splits)+

lemma remove_entry_from_iid_set_correct:
  "ascending (\<lambda>i. i) is \<Longrightarrow>
   set (remove_entry_from_iid_set is iid) = set is - {iid} \<and> ascending (\<lambda>i. i) (remove_entry_from_iid_set is iid)"
  by (induction "is") auto

lemma compare_resource_entries_simps:
  "compare_resource_entries x y = 0 \<longleftrightarrow> x = y"
  "compare_resource_entries x y > 0 \<longleftrightarrow> compare_resource_entries y x < 0"
  by (auto simp: compare_resource_entries_def Let_def prod_eq_iff)

lemma compare_resource_entries_trans:
  "compare_resource_entries x y < 0 \<Longrightarrow> compare_resource_entries y z < 0 \<Longrightarrow> compare_resource_entries x z < 0"
  by (auto simp: compare_resource_entries_def Let_def split: if_splits)

lemma compare_resource_entries_total:
  "compare_resource_entries x y \<noteq> 0 \<Longrightarrow> \<not> compare_resource_entries x y > 0 \<Longrightarrow> compare_resource_entries x y < 0"
  by linarith

lemma add_resource_entry_correct:
  assumes "sorted_wrt (\<lambda>x y. compare_resource_entries x y < 0) xs" and "add_resource_entry xs new al = (r, xs', al')"
  shows "r = 0 \<and> set xs' = insert new (set xs) \<and> sorted_wrt (\<lambda>x y. compare_resource_entries x y < 0) xs'
    \<or> r = - 1 \<and> xs' = xs"
  using assms
proof (induction xs new al arbitrary: xs' rule: add_resource_entry.induct)
  case (1 new al)
  then show ?case by (auto split: prod.splits option.splits)
next
  case (2 x xs new al)
  consider "x = new" | "compare_resource_entries new x < 0" | "compare_resource_entries x new < 0"
    using compare_resource_entries_total compare_resource_entries_simps by metis
  then show ?case
  proof cases
    case 1
    with 2(3) have "r = 0" "xs' = x # xs" by (auto simp: compare_resource_entries_simps)
    with 1 2(2) show ?thesis by auto
  next
    case (2)
    note lt = this
    then have ne: "x \<noteq> new" using compare_resource_entries_simps(1) [of x x] by auto
    have all: "\<forall>y \<in> set xs. compare_resource_entries new y < 0"
      using "2.prems"(1) lt compare_resource_entries_trans by fastforce
    show ?thesis
      using "2.prems" lt ne all by (auto simp: compare_resource_entries_simps split: prod.splits option.splits)
  next
    case 3
    then have "x \<noteq> new" "\<not> compare_resource_entries new x < 0"
      using compare_resource_entries_simps [of x new] compare_resource_entries_simps(1) [of x x] by auto
    with 2(3) obtain ys where ys: "add_resource_entry xs new al = (r, ys, al')" "xs' = x # ys"
      by (auto simp: compare_resource_entries_simps split: prod.splits)
    have "r = 0 \<and> set ys = insert new (set xs) \<and> sorted_wrt (\<lambda>x y. compare_resource_entries x y < 0) ys
        \<or> r = - 1 \<and> ys = xs"
      using 2(1) [of ys] 2(2) ys(1) \<open>x \<noteq> new\<close> \<open>\<not> compare_resource_entries new x < 0\<close>
      by (simp add: compare_resource_entries_simps)
    with ys(2) 2(2) 3 show ?thesis by auto
  qed
qed

text \<open>An entry that takes the place of one with the same Object keeps the queue well-formed.\<close>

lemma queue_ok_entry:
  assumes "queue_ok (before @ after)" and "ascending oe_oid (before @ e # after)"
    and "entry_ok e'" and "oe_oid e' = oe_oid e"
  shows "queue_ok (before @ e' # after)"
  using assms by (auto simp: queue_ok_def ascending_append)

lemma queue_changes_mid:
  "changed_sets (before @ e # after) =
     changed_sets (before @ after) \<union> (if oe_instance_set_changed e then {oe_oid e} else {})"
  "added_instances (before @ e # after) =
     added_instances (before @ after) \<union> Pair (oe_oid e) ` set (oe_known_added_iids e)"
  "changed_resources (before @ e # after) =
     changed_resources (before @ after) \<union> Pair (oe_oid e) ` set (oe_resources_changed e)"
  by (auto simp: queue_changes)

lemma added_instances_other:
  assumes "ascending oe_oid (before @ e # after)"
  shows "(oe_oid e, iid) \<notin> added_instances (before @ after)"
  using assms by (auto simp: added_instances_def ascending_append)

lemma find_or_create_changes:
  assumes "queue_ok q" and "find_or_create_object_entry q oid al = (Some (before, e, after), al')"
  shows "changed_sets q = changed_sets (before @ after) \<union> (if oe_instance_set_changed e then {oid} else {})"
    and "added_instances q = added_instances (before @ after) \<union> Pair oid ` set (oe_known_added_iids e)"
    and "changed_resources q = changed_resources (before @ after) \<union> Pair oid ` set (oe_resources_changed e)"
    and "(oid, iid) \<notin> added_instances (before @ after)"
  using find_or_create_ok(4) [OF assms] find_or_create_ok(1) [OF assms]
    added_instances_other [OF find_or_create_ok(3) [OF assms], of iid]
  by (elim disjE conjE; simp add: queue_changes_mid; simp add: new_object_entry_def)+

lemmas new_entry_simps = new_object_entry_def entry_ok_def

lemma find_or_create_exhaust:
  obtains al1 where "find_or_create_object_entry q oid al = (None, al1)"
  | before e after al1 where "find_or_create_object_entry q oid al = (Some (before, e, after), al1)"
  by (cases "find_or_create_object_entry q oid al") (metis option.exhaust prod.exhaust)

lemma notify_queue_instance_created_correct:
  assumes q: "queue_ok q"
  shows "\<exists>r q' al'. notify_queue_instance_created q oid iid al = Some (r, q', al') \<and>
    (r = 0 \<and> queue_ok q' \<and> changed_sets q' = insert oid (changed_sets q) \<and>
       added_instances q' = insert (oid, iid) (added_instances q) \<and> changed_resources q' = changed_resources q \<or>
     r = - 1 \<and> q' = q)"
proof (cases rule: find_or_create_exhaust [of q oid al])
  case (1 al1)
  then show ?thesis by (simp add: notify_queue_instance_created_def)
next
  case (2 before e after al1)
  note fc = 2
  note ok = find_or_create_ok [OF q fc] and ch = find_or_create_changes [OF q fc]
  obtain r added al2 where ad: "add_entry_to_iid_set (oe_known_added_iids e) iid al1 = (r, added, al2)"
    by (cases "add_entry_to_iid_set (oe_known_added_iids e) iid al1") auto
  from add_entry_to_iid_set_correct [OF ok(5) ad] show ?thesis
  proof
    assume ins: "r = 0 \<and> set added = insert iid (set (oe_known_added_iids e)) \<and> ascending (\<lambda>i. i) added"
    let ?e = "e\<lparr>oe_known_added_iids := added, oe_instance_set_changed := True\<rparr>"
    let ?q = "before @ ?e # after"
    have run: "notify_queue_instance_created q oid iid al = Some (0, ?q, al2)"
      using fc ad ins by (simp add: notify_queue_instance_created_def)
    have "queue_ok ?q"
      by (rule queue_ok_entry [OF ok(2,3)]) (use ins ok(6) in \<open>simp_all add: entry_ok_def\<close>)
    moreover have "changed_sets ?q = insert oid (changed_sets q)"
      "added_instances ?q = insert (oid, iid) (added_instances q)" "changed_resources ?q = changed_resources q"
      using ins by (auto simp: queue_changes_mid ch ok(1))
    ultimately show ?thesis using run by blast
  next
    assume "r = - 1 \<and> added = oe_known_added_iids e"
    with fc ad ok(4) show ?thesis
      by (auto simp: notify_queue_instance_created_def delete_notify_queue_object_entry_if_empty_def
            new_object_entry_def entry_ok_def)
  qed
qed

lemma notify_queue_instance_removed_correct:
  assumes q: "queue_ok q" and run: "notify_queue_instance_removed q oid iid al = (r, q', al')"
  shows "r = 0 \<and> queue_ok q' \<and> changed_sets q' = insert oid (changed_sets q) \<and>
       added_instances q' = added_instances q - {(oid, iid)} \<and> changed_resources q' = changed_resources q \<or>
     r = - 1 \<and> q' = q"
proof (cases rule: find_or_create_exhaust [of q oid al])
  case (1 al1)
  with run show ?thesis by (simp add: notify_queue_instance_removed_def)
next
  case (2 before e after al1)
  note fc = 2
  note ok = find_or_create_ok [OF q fc] and ch = find_or_create_changes [OF q fc]
  let ?e = "e\<lparr>oe_known_added_iids := remove_entry_from_iid_set (oe_known_added_iids e) iid,
    oe_instance_set_changed := True\<rparr>"
  have res: "r = 0" "q' = before @ ?e # after"
    using run fc by (simp_all add: notify_queue_instance_removed_def)
  note rem = remove_entry_from_iid_set_correct [OF ok(5), of iid]
  have "queue_ok q'"
    unfolding res(2) by (rule queue_ok_entry [OF ok(2,3)]) (use rem ok(6) in \<open>simp_all add: entry_ok_def\<close>)
  moreover have "changed_sets q' = insert oid (changed_sets q)" "changed_resources q' = changed_resources q"
    by (auto simp: res(2) queue_changes_mid ch ok(1))
  moreover have "added_instances q' = added_instances q - {(oid, iid)}"
    using rem ch(4) by (auto simp: res(2) queue_changes_mid ch(2) ok(1))
  ultimately show ?thesis using res(1) by blast
qed

lemma notify_queue_instance_set_unknown_change_correct:
  assumes q: "queue_ok q" and run: "notify_queue_instance_set_unknown_change q oid al = (r, q', al')"
  shows "r = 0 \<and> queue_ok q' \<and> changed_sets q' = insert oid (changed_sets q) \<and>
       added_instances q' = added_instances q \<and> changed_resources q' = changed_resources q \<or>
     r = - 1 \<and> q' = q"
proof (cases rule: find_or_create_exhaust [of q oid al])
  case (1 al1)
  with run show ?thesis by (simp add: notify_queue_instance_set_unknown_change_def)
next
  case (2 before e after al1)
  note fc = 2
  note ok = find_or_create_ok [OF q fc] and ch = find_or_create_changes [OF q fc]
  let ?e = "e\<lparr>oe_instance_set_changed := True\<rparr>"
  have res: "r = 0" "q' = before @ ?e # after"
    using run fc by (simp_all add: notify_queue_instance_set_unknown_change_def)
  have "queue_ok q'"
    unfolding res(2) by (rule queue_ok_entry [OF ok(2,3)]) (use ok(5,6) in \<open>simp_all add: entry_ok_def\<close>)
  moreover have "changed_sets q' = insert oid (changed_sets q)" "changed_resources q' = changed_resources q"
      "added_instances q' = added_instances q"
    by (auto simp: res(2) queue_changes_mid ch ok(1))
  ultimately show ?thesis using res(1) by blast
qed

lemma notify_queue_resource_change_correct:
  assumes q: "queue_ok q" and run: "notify_queue_resource_change q oid iid rid al = (r, q', al')"
  shows "r = 0 \<and> queue_ok q' \<and> changed_sets q' = changed_sets q \<and> added_instances q' = added_instances q \<and>
       changed_resources q' = insert (oid, iid, rid) (changed_resources q) \<or>
     r = - 1 \<and> q' = q"
proof (cases rule: find_or_create_exhaust [of q oid al])
  case (1 al1)
  with run show ?thesis by (simp add: notify_queue_resource_change_def)
next
  case (2 before e after al1)
  note fc = 2
  note ok = find_or_create_ok [OF q fc] and ch = find_or_create_changes [OF q fc]
  obtain r1 res al2 where ad: "add_resource_entry (oe_resources_changed e) (iid, rid) al1 = (r1, res, al2)"
    by (cases "add_resource_entry (oe_resources_changed e) (iid, rid) al1") auto
  from add_resource_entry_correct [OF ok(6) ad] show ?thesis
  proof
    assume ins: "r1 = 0 \<and> set res = insert (iid, rid) (set (oe_resources_changed e)) \<and>
      sorted_wrt (\<lambda>x y. compare_resource_entries x y < 0) res"
    let ?e = "e\<lparr>oe_resources_changed := res\<rparr>"
    have eq: "r = 0" "q' = before @ ?e # after"
      using run fc ad ins by (simp_all add: notify_queue_resource_change_def)
    have "res \<noteq> []" using ins by auto
    then have "queue_ok q'"
      unfolding eq(2) by (intro queue_ok_entry [OF ok(2,3)]) (use ins ok(4,5) in \<open>auto simp: entry_ok_def new_object_entry_def\<close>)
    moreover have "changed_sets q' = changed_sets q" "added_instances q' = added_instances q"
      by (auto simp: eq(2) queue_changes_mid ch ok(1))
    moreover have "changed_resources q' = insert (oid, iid, rid) (changed_resources q)"
      using ins by (auto simp: eq(2) queue_changes_mid ch ok(1))
    ultimately show ?thesis using eq(1) by blast
  next
    assume "r1 = - 1 \<and> res = oe_resources_changed e"
    with run fc ad ok(4) show ?thesis
      by (auto simp: notify_queue_resource_change_def new_object_entry_def entry_ok_def split: if_splits)
  qed
qed

text \<open>An operation on a queue fails only when memory runs out.\<close>

lemma find_or_create_allocs:
  "find_or_create_object_entry q oid al = (res, al') \<Longrightarrow>
   taken al al' \<and> (res = None \<longrightarrow> used_up al al')"
proof (induction q arbitrary: res)
  case Nil
  then show ?case by (cases rule: alloc_next_cases [of al]) (auto intro: used_up_taken)
next
  case (Cons e es)
  consider "oe_oid e = oid" | "oe_oid e \<noteq> oid" "oid < oe_oid e" | "oe_oid e \<noteq> oid" "\<not> oid < oe_oid e" by blast
  then show ?case
  proof cases
    case 1
    with Cons.prems show ?thesis by auto
  next
    case 2
    then show ?thesis using Cons.prems
      by (cases rule: alloc_next_cases [of al]) (auto intro: used_up_taken)
  next
    case 3
    obtain r where "find_or_create_object_entry es oid al = (r, al')"
      using 3 Cons.prems by (auto split: prod.splits option.splits)
    with Cons.IH [OF this] 3 Cons.prems show ?thesis by (auto split: option.splits prod.splits)
  qed
qed

lemma add_entry_to_iid_set_allocs:
  "add_entry_to_iid_set is iid al = (r, is', al') \<Longrightarrow> taken al al' \<and> (r \<noteq> 0 \<longrightarrow> used_up al al')"
proof (induction "is" arbitrary: is')
  case Nil
  then show ?case by (cases rule: alloc_next_cases [of al]) (auto intro: used_up_taken)
next
  case (Cons i "is")
  consider "i = iid" | "i \<noteq> iid" "iid < i" | "i \<noteq> iid" "\<not> iid < i" by blast
  then show ?case
  proof cases
    case 2
    then show ?thesis using Cons.prems
      by (cases rule: alloc_next_cases [of al]) (auto intro: used_up_taken)
  qed (use Cons in \<open>auto split: prod.splits\<close>)
qed

lemma notify_queue_instance_created_allocs:
  assumes "notify_queue_instance_created q oid iid al = Some (r, q', al')"
  shows "taken al al' \<and> (r \<noteq> 0 \<longrightarrow> used_up al al')"
proof (cases rule: find_or_create_exhaust [of q oid al])
  case (1 al1)
  with assms find_or_create_allocs [OF 1] show ?thesis by (auto simp: notify_queue_instance_created_def)
next
  case (2 before e after al1)
  obtain r1 added al2 where ad: "add_entry_to_iid_set (oe_known_added_iids e) iid al1 = (r1, added, al2)"
    by (cases "add_entry_to_iid_set (oe_known_added_iids e) iid al1") auto
  have "al' = al2" "r \<noteq> 0 \<longrightarrow> r1 \<noteq> 0"
    using assms 2 ad by (auto simp: notify_queue_instance_created_def bind_eq_Some_conv split: if_splits)
  with find_or_create_allocs [OF 2] add_entry_to_iid_set_allocs [OF ad] show ?thesis
    by (auto intro: taken_trans taken_used_up)
qed

lemma notify_queue_unknown_change_allocs:
  assumes "notify_queue_instance_set_unknown_change q oid al = (r, q', al')"
  shows "taken al al' \<and> (r \<noteq> 0 \<longrightarrow> used_up al al')"
  by (cases rule: find_or_create_exhaust [of q oid al])
    (use assms find_or_create_allocs in \<open>fastforce simp: notify_queue_instance_set_unknown_change_def\<close>)+

lemma notify_queue_instance_removed_allocs:
  assumes "notify_queue_instance_removed q oid iid al = (r, q', al')"
  shows "taken al al' \<and> (r \<noteq> 0 \<longrightarrow> used_up al al')"
  by (cases rule: find_or_create_exhaust [of q oid al])
    (use assms find_or_create_allocs in \<open>fastforce simp: notify_queue_instance_removed_def\<close>)+

lemma add_resource_entry_allocs:
  "add_resource_entry xs new al = (r, xs', al') \<Longrightarrow> taken al al' \<and> (r \<noteq> 0 \<longrightarrow> used_up al al')"
proof (induction xs arbitrary: xs')
  case Nil
  then show ?case by (cases rule: alloc_next_cases [of al]) (auto intro: used_up_taken)
next
  case (Cons x xs)
  consider "compare_resource_entries x new = 0" | "compare_resource_entries x new > 0"
    | "compare_resource_entries x new < 0" by linarith
  then show ?case
  proof cases
    case 2
    then show ?thesis using Cons.prems
      by (cases rule: alloc_next_cases [of al]) (auto intro: used_up_taken)
  qed (use Cons in \<open>auto split: prod.splits\<close>)
qed

lemma notify_queue_resource_change_allocs:
  assumes "notify_queue_resource_change q oid iid rid al = (r, q', al')"
  shows "taken al al' \<and> (r \<noteq> 0 \<longrightarrow> used_up al al')"
proof (cases rule: find_or_create_exhaust [of q oid al])
  case (1 al1)
  with assms find_or_create_allocs [OF 1] show ?thesis by (auto simp: notify_queue_resource_change_def)
next
  case (2 before e after al1)
  obtain r1 res al2 where ad: "add_resource_entry (oe_resources_changed e) (iid, rid) al1 = (r1, res, al2)"
    by (cases "add_resource_entry (oe_resources_changed e) (iid, rid) al1") auto
  have "al' = al2" "r \<noteq> 0 \<longrightarrow> r1 \<noteq> 0"
    using assms 2 ad by (auto simp: notify_queue_resource_change_def split: if_splits)
  with find_or_create_allocs [OF 2] add_resource_entry_allocs [OF ad] show ?thesis
    by (auto intro: taken_trans taken_used_up)
qed

end
