(* ===== verification/Dm_Objects.thy ===== *)
theory Dm_Objects
  imports Anjay_Notify
begin

text \<open>
  The data model layer between Anjay and the Objects (\<open>core/anjay_dm_core.c\<close>,
  \<open>core/dm/anjay_dm_handlers.c\<close>, \<open>core/dm/anjay_query.c\<close>, parts of \<open>core/dm/anjay_dm_read.c\<close> and
  \<open>core/dm/anjay_dm_create.c\<close>). An Object is a table of handlers over a state \<open>'s\<close> of the device. The
  handlers are written by users of the library, or they are those of \<open>Ac_Object\<close>.

  A handler that enumerates returns the numbers it emits instead of calling the library back for each of
  them, so it is assumed to fix them before the first one is processed. A handler that is \<open>None\<close> is
  implemented neither by the Object nor by an overlay module. \<open>do_resource_read\<close> returns its result and
  the 64-bit integer that it left in a buffer of eight bytes, when it filled that buffer exactly.
\<close>

section \<open>Constants\<close>

abbreviation (input) ANJAY_ID_INVALID :: nat where "ANJAY_ID_INVALID \<equiv> 65535"
abbreviation (input) ANJAY_SSID_ANY :: nat where "ANJAY_SSID_ANY \<equiv> 0"
abbreviation (input) ANJAY_SSID_BOOTSTRAP :: nat where "ANJAY_SSID_BOOTSTRAP \<equiv> 65535"
abbreviation (input) OID_SECURITY :: nat where "OID_SECURITY \<equiv> 0"
abbreviation (input) OID_SERVER :: nat where "OID_SERVER \<equiv> 1"
abbreviation (input) OID_ACCESS_CONTROL :: nat where "OID_ACCESS_CONTROL \<equiv> 2"
abbreviation (input) RID_AC_OID :: nat where "RID_AC_OID \<equiv> 0"
abbreviation (input) RID_AC_OIID :: nat where "RID_AC_OIID \<equiv> 1"
abbreviation (input) RID_AC_ACL :: nat where "RID_AC_ACL \<equiv> 2"
abbreviation (input) RID_AC_OWNER :: nat where "RID_AC_OWNER \<equiv> 3"

abbreviation (input) ANJAY_ERR_BAD_REQUEST :: int where "ANJAY_ERR_BAD_REQUEST \<equiv> - 128"
abbreviation (input) ANJAY_ERR_NOT_FOUND :: int where "ANJAY_ERR_NOT_FOUND \<equiv> - 132"
abbreviation (input) ANJAY_ERR_METHOD_NOT_ALLOWED :: int where "ANJAY_ERR_METHOD_NOT_ALLOWED \<equiv> - 133"
abbreviation (input) ANJAY_ERR_INTERNAL :: int where "ANJAY_ERR_INTERNAL \<equiv> - 160"

abbreviation (input) ANJAY_FOREACH_BREAK :: int where "ANJAY_FOREACH_BREAK \<equiv> - 2147483648"
abbreviation (input) ANJAY_FOREACH_CONTINUE :: int where "ANJAY_FOREACH_CONTINUE \<equiv> 0"
abbreviation (input) ANJAY_OUTCTXERR_METHOD_NOT_IMPLEMENTED :: int
  where "ANJAY_OUTCTXERR_METHOD_NOT_IMPLEMENTED \<equiv> - 3297"

abbreviation (input) RES_R :: int where "RES_R \<equiv> 0"
abbreviation (input) RES_W :: int where "RES_W \<equiv> 1"
abbreviation (input) RES_RW :: int where "RES_RW \<equiv> 2"
abbreviation (input) RES_RM :: int where "RES_RM \<equiv> 3"
abbreviation (input) RES_WM :: int where "RES_WM \<equiv> 4"
abbreviation (input) RES_RWM :: int where "RES_RWM \<equiv> 5"
abbreviation (input) RES_E :: int where "RES_E \<equiv> 6"
abbreviation (input) RES_BS_RW :: int where "RES_BS_RW \<equiv> 7"
abbreviation (input) RES_ABSENT :: int where "RES_ABSENT \<equiv> 0"
abbreviation (input) RES_PRESENT :: int where "RES_PRESENT \<equiv> 1"

section \<open>Objects\<close>

definition res_kind_valid :: "int \<Rightarrow> bool" where
  "res_kind_valid k \<longleftrightarrow> k = RES_R \<or> k = RES_W \<or> k = RES_RW \<or> k = RES_RM \<or> k = RES_WM \<or> k = RES_RWM \<or>
     k = RES_E \<or> k = RES_BS_RW"

definition res_kind_single_readable :: "int \<Rightarrow> bool" where
  "res_kind_single_readable k \<longleftrightarrow> k = RES_R \<or> k = RES_RW"

definition res_kind_readable :: "int \<Rightarrow> bool" where
  "res_kind_readable k \<longleftrightarrow> k = RES_R \<or> k = RES_RW \<or> k = RES_RM \<or> k = RES_RWM"

definition res_kind_multiple :: "int \<Rightarrow> bool" where
  "res_kind_multiple k \<longleftrightarrow> k = RES_RM \<or> k = RES_WM \<or> k = RES_RWM"

definition presence_valid :: "int \<Rightarrow> bool" where
  "presence_valid p \<longleftrightarrow> p = RES_ABSENT \<or> p = RES_PRESENT"

record 's dm_object =
  do_oid :: nat
  do_list_instances :: "('s \<Rightarrow> (int \<times> nat list \<times> 's) option) option"
  do_list_resources :: "('s \<Rightarrow> nat \<Rightarrow> (int \<times> (nat \<times> int \<times> int) list \<times> 's) option) option"
  do_list_resource_instances :: "('s \<Rightarrow> nat \<Rightarrow> nat \<Rightarrow> (int \<times> nat list \<times> 's) option) option"
  do_resource_read :: "('s \<Rightarrow> nat \<Rightarrow> nat \<Rightarrow> nat \<Rightarrow> (int \<times> int option \<times> 's) option) option"

fun find_object_by_oid :: "'s dm_object list \<Rightarrow> nat \<Rightarrow> 's dm_object option" where
  "find_object_by_oid [] oid = None"
| "find_object_by_oid (ob # obs) oid = (if do_oid ob = oid then Some ob else find_object_by_oid obs oid)"

section \<open>Enumerating\<close>

text \<open>
  A callback gets the number, its own data and the state. \<open>emit_loop\<close> is \<open>foreach_instance_emit\<close> and
  \<open>foreach_resource_instance_emit\<close>, called for each number in turn; it carries the number emitted last
  and the result so far.
\<close>

type_synonym ('a, 's) id_callback = "nat \<Rightarrow> 'a \<Rightarrow> 's \<Rightarrow> (int \<times> 'a \<times> 's) option"

fun emit_loop :: "('a, 's) id_callback \<Rightarrow> nat list \<Rightarrow> int \<Rightarrow> int \<Rightarrow> 'a \<Rightarrow> 's \<Rightarrow> (int \<times> 'a \<times> 's) option" where
  "emit_loop h [] prev result a s = Some (result, a, s)"
| "emit_loop h (i # is) prev result a s =
     (if result \<noteq> 0 then emit_loop h is prev result a s
      else if i = ANJAY_ID_INVALID then emit_loop h is prev ANJAY_ERR_INTERNAL a s
      else if int i \<le> prev then emit_loop h is prev ANJAY_ERR_INTERNAL a s
      else do {
        (r, a, s) \<leftarrow> h i a s;
        emit_loop h is (int i) r a s })"

definition foreach_result :: "int \<Rightarrow> int \<Rightarrow> int" where
  "foreach_result handler_result ctx_result =
     (if handler_result < 0 then handler_result
      else if ctx_result = ANJAY_FOREACH_BREAK then 0 else ctx_result)"

definition dm_foreach_instance ::
    "'s dm_object option \<Rightarrow> ('a, 's) id_callback \<Rightarrow> 'a \<Rightarrow> 's \<Rightarrow> (int \<times> 'a \<times> 's) option" where
  "dm_foreach_instance obj h a s =
     (case obj of
        None \<Rightarrow> Some (- 1, a, s)
      | Some obj \<Rightarrow>
          (case do_list_instances obj of
             None \<Rightarrow> Some (ANJAY_ERR_METHOD_NOT_ALLOWED, a, s)
           | Some list \<Rightarrow> do {
               (r, ids, s) \<leftarrow> list s;
               (cr, a, s) \<leftarrow> emit_loop h ids (- 1) 0 a s;
               Some (foreach_result r cr, a, s) }))"

definition dm_foreach_resource_instance ::
    "'s dm_object option \<Rightarrow> nat \<Rightarrow> nat \<Rightarrow> ('a, 's) id_callback \<Rightarrow> 'a \<Rightarrow> 's \<Rightarrow> (int \<times> 'a \<times> 's) option" where
  "dm_foreach_resource_instance obj iid rid h a s =
     (case obj of
        None \<Rightarrow> Some (- 1, a, s)
      | Some obj \<Rightarrow>
          (case do_list_resource_instances obj of
             None \<Rightarrow> Some (ANJAY_ERR_METHOD_NOT_ALLOWED, a, s)
           | Some list \<Rightarrow> do {
               (r, ids, s) \<leftarrow> list s iid rid;
               (cr, a, s) \<leftarrow> emit_loop h ids (- 1) 0 a s;
               Some (foreach_result r cr, a, s) }))"

type_synonym ('a, 's) res_callback = "nat \<Rightarrow> int \<Rightarrow> int \<Rightarrow> 'a \<Rightarrow> 's \<Rightarrow> (int \<times> 'a \<times> 's) option"

text \<open>\<open>anjay_dm_emit_res\<close> for each Resource in turn.\<close>

fun emit_res_loop ::
    "('a, 's) res_callback \<Rightarrow> (nat \<times> int \<times> int) list \<Rightarrow> int \<Rightarrow> int \<Rightarrow> 'a \<Rightarrow> 's \<Rightarrow> (int \<times> 'a \<times> 's) option" where
  "emit_res_loop h [] prev result a s = Some (result, a, s)"
| "emit_res_loop h ((rid, kind, presence) # xs) prev result a s =
     (if result \<noteq> 0 then emit_res_loop h xs prev result a s
      else if rid = ANJAY_ID_INVALID then emit_res_loop h xs prev ANJAY_ERR_INTERNAL a s
      else if int rid \<le> prev then emit_res_loop h xs prev ANJAY_ERR_INTERNAL a s
      else if \<not> res_kind_valid kind then emit_res_loop h xs (int rid) ANJAY_ERR_INTERNAL a s
      else if \<not> presence_valid presence then emit_res_loop h xs (int rid) ANJAY_ERR_INTERNAL a s
      else do {
        (r, a, s) \<leftarrow> h rid kind presence a s;
        emit_res_loop h xs (int rid) r a s })"

definition dm_foreach_resource ::
    "'s dm_object option \<Rightarrow> nat \<Rightarrow> ('a, 's) res_callback \<Rightarrow> 'a \<Rightarrow> 's \<Rightarrow> (int \<times> 'a \<times> 's) option" where
  "dm_foreach_resource obj iid h a s =
     (case obj of
        None \<Rightarrow> Some (- 1, a, s)
      | Some obj \<Rightarrow>
          (case do_list_resources obj of
             None \<Rightarrow> Some (ANJAY_ERR_METHOD_NOT_ALLOWED, a, s)
           | Some list \<Rightarrow> do {
               (r, xs, s) \<leftarrow> list s iid;
               (cr, a, s) \<leftarrow> emit_res_loop h xs (- 1) 0 a s;
               Some (foreach_result r cr, a, s) }))"

section \<open>Queries\<close>

text \<open>\<open>instance_present_clb\<close> and \<open>_anjay_dm_instance_present\<close>.\<close>

definition instance_present_clb :: "nat \<Rightarrow> (bool, 's) id_callback" where
  "instance_present_clb wanted iid found s =
     (if wanted \<le> iid then Some (ANJAY_FOREACH_BREAK, iid = wanted, s) else Some (ANJAY_FOREACH_CONTINUE, found, s))"

definition dm_instance_present :: "'s dm_object option \<Rightarrow> nat \<Rightarrow> 's \<Rightarrow> (int \<times> 's) option" where
  "dm_instance_present obj iid s = do {
     (r, found, s) \<leftarrow> dm_foreach_instance obj (instance_present_clb iid) False s;
     Some (if r < 0 then r else if found then 1 else 0, s) }"

text \<open>
  \<open>query_dm_instance\<close> and \<open>_anjay_dm_get_sorted_instance_list\<close>: the list so far, and the results of the
  allocations.
\<close>

definition query_dm_instance :: "(nat list \<times> allocs, 's) id_callback" where
  "query_dm_instance iid = (\<lambda>(xs, al) s.
     case alloc_next al of
       (None, al) \<Rightarrow> Some (- 1, (xs, al), s)
     | (Some _, al) \<Rightarrow> Some (0, (xs @ [iid], al), s))"

definition dm_get_sorted_instance_list ::
    "'s dm_object option \<Rightarrow> allocs \<Rightarrow> 's \<Rightarrow> (int \<times> nat list \<times> allocs \<times> 's) option" where
  "dm_get_sorted_instance_list obj al s = do {
     (r, (xs, al), s) \<leftarrow> dm_foreach_instance obj query_dm_instance ([], al) s;
     Some (r, if r \<noteq> 0 then [] else xs, al, s) }"

definition kind_and_presence_clb :: "nat \<Rightarrow> (int \<times> int, 's) res_callback" where
  "kind_and_presence_clb wanted rid kind presence a s =
     (if wanted \<le> rid then Some (ANJAY_FOREACH_BREAK, if rid = wanted then (kind, presence) else a, s)
      else Some (ANJAY_FOREACH_CONTINUE, a, s))"

definition dm_resource_kind_and_presence ::
    "'s dm_object option \<Rightarrow> nat \<Rightarrow> nat \<Rightarrow> 's \<Rightarrow> ((int + int \<times> int) \<times> 's) option" where
  "dm_resource_kind_and_presence obj iid rid s = do {
     (r, (kind, presence), s) \<leftarrow> dm_foreach_resource obj iid (kind_and_presence_clb rid) (- 1, RES_ABSENT) s;
     Some (if r \<noteq> 0 then Inl r
           else if \<not> res_kind_valid kind then Inl ANJAY_ERR_NOT_FOUND
           else Inr (kind, presence), s) }"

definition dm_verify_resource_present ::
    "'s dm_object option \<Rightarrow> nat \<Rightarrow> nat \<Rightarrow> 's \<Rightarrow> ((int + int) \<times> 's) option" where
  "dm_verify_resource_present obj iid rid s = do {
     (r, s) \<leftarrow> dm_resource_kind_and_presence obj iid rid s;
     Some (case r of
             Inl e \<Rightarrow> Inl e
           | Inr (kind, presence) \<Rightarrow> if presence = RES_ABSENT then Inl ANJAY_ERR_NOT_FOUND else Inr kind, s) }"

definition dm_call_resource_read ::
    "'s dm_object \<Rightarrow> nat \<Rightarrow> nat \<Rightarrow> nat \<Rightarrow> 's \<Rightarrow> (int \<times> int option \<times> 's) option" where
  "dm_call_resource_read obj iid rid riid s =
     (case do_resource_read obj of
        None \<Rightarrow> Some (ANJAY_ERR_METHOD_NOT_ALLOWED, None, s)
      | Some rd \<Rightarrow> rd s iid rid riid)"

text \<open>
  \<open>_anjay_dm_read_resource_i64\<close>: the read goes into a buffer of eight bytes, whose output context has no
  operation for aggregates, so a multiple-instance Resource is an error. The result is an error or the
  value.
\<close>

definition dm_read_resource_i64 ::
    "'s dm_object list \<Rightarrow> nat \<Rightarrow> nat \<Rightarrow> nat \<Rightarrow> 's \<Rightarrow> ((int + int) \<times> 's) option" where
  "dm_read_resource_i64 objs oid iid rid s =
     (case find_object_by_oid objs oid of
        None \<Rightarrow> Some (Inl (- 1), s)
      | Some obj \<Rightarrow> do {
          (k, s) \<leftarrow> dm_verify_resource_present (Some obj) iid rid s;
          case k of
            Inl e \<Rightarrow> Some (Inl e, s)
          | Inr kind \<Rightarrow>
              if res_kind_multiple kind then Some (Inl ANJAY_OUTCTXERR_METHOD_NOT_IMPLEMENTED, s)
              else do {
                (r, v, s) \<leftarrow> dm_call_resource_read obj iid rid ANJAY_ID_INVALID s;
                Some (if r \<noteq> 0 then Inl r else case v of None \<Rightarrow> Inl 1 | Some v \<Rightarrow> Inr v, s) } })"

abbreviation (input) RID_SERVER_SSID :: nat where "RID_SERVER_SSID \<equiv> 0"

definition find_server_iid_handler :: "'s dm_object list \<Rightarrow> nat \<Rightarrow> (nat, 's) id_callback" where
  "find_server_iid_handler objs ssid iid out_iid s = do {
     (v, s) \<leftarrow> dm_read_resource_i64 objs OID_SERVER iid RID_SERVER_SSID s;
     Some (case v of
             Inl e \<Rightarrow> (- 1, out_iid, s)
           | Inr v \<Rightarrow> if v = int ssid then (ANJAY_FOREACH_BREAK, iid, s) else (0, out_iid, s)) }"

definition find_server_iid :: "'s dm_object list \<Rightarrow> nat \<Rightarrow> 's \<Rightarrow> (nat option \<times> 's) option" where
  "find_server_iid objs ssid s =
     (if ssid = ANJAY_SSID_ANY \<or> ssid = ANJAY_SSID_BOOTSTRAP then Some (None, s)
      else do {
        (r, out, s) \<leftarrow> dm_foreach_instance (find_object_by_oid objs OID_SERVER)
          (find_server_iid_handler objs ssid) ANJAY_ID_INVALID s;
        Some (if r \<noteq> 0 \<or> out = ANJAY_ID_INVALID then None else Some out, s) })"

definition dm_ssid_exists :: "'s dm_object list \<Rightarrow> nat \<Rightarrow> 's \<Rightarrow> (bool \<times> 's) option" where
  "dm_ssid_exists objs ssid s = do {
     c_assert (ssid \<noteq> ANJAY_SSID_BOOTSTRAP);
     (iid, s) \<leftarrow> find_server_iid objs ssid s;
     Some (iid \<noteq> None, s) }"

text \<open>\<open>_anjay_dm_select_free_iid\<close>; the counter is a \<open>uint16_t\<close>.\<close>

definition dm_create_select_iid_clb :: "(nat, 's) id_callback" where
  "dm_create_select_iid_clb iid new s =
     (if iid = new then Some (ANJAY_FOREACH_CONTINUE, (new + 1) mod 65536, s) else Some (ANJAY_FOREACH_BREAK, new, s))"

definition dm_select_free_iid :: "'s dm_object option \<Rightarrow> 's \<Rightarrow> ((int + nat) \<times> 's) option" where
  "dm_select_free_iid obj s = do {
     (r, new, s) \<leftarrow> dm_foreach_instance obj dm_create_select_iid_clb 0 s;
     Some (if r = 0 \<and> new = ANJAY_ID_INVALID then Inl ANJAY_ERR_BAD_REQUEST
           else if r \<noteq> 0 then Inl r else Inr new, s) }"

section \<open>Enumerations of Objects that keep their contract\<close>

text \<open>
  The contract of \<open>list_instances\<close> and \<open>list_resource_instances\<close>: the numbers are emitted in strictly
  ascending order.
\<close>

definition ids_ok :: "nat list \<Rightarrow> bool" where
  "ids_ok ids \<longleftrightarrow> ascending (\<lambda>i. i) ids \<and> (\<forall>i \<in> set ids. i < ANJAY_ID_INVALID)"

text \<open>What a callback that does not depend on the state makes of a list of numbers.\<close>

fun emit_fold :: "(nat \<Rightarrow> 'a \<Rightarrow> int \<times> 'a) \<Rightarrow> nat list \<Rightarrow> 'a \<Rightarrow> int \<times> 'a" where
  "emit_fold g [] a = (0, a)"
| "emit_fold g (i # is) a = (case g i a of (r, a) \<Rightarrow> if r \<noteq> 0 then (r, a) else emit_fold g is a)"

lemma emit_loop_stop: "r \<noteq> 0 \<Longrightarrow> emit_loop h is prev r a s = Some (r, a, s)"
  by (induction "is") auto

text \<open>
  \<open>P\<close> holds of all states that count as equal to the first one: reading an Object may change what can
  not be observed.
\<close>

lemma emit_loop_fold:
  assumes "ids_ok ids" and "\<forall>i \<in> set ids. prev < int i" and "P s" and "Q a"
    and "\<And>i a s. i \<in> set ids \<Longrightarrow> P s \<Longrightarrow> Q a \<Longrightarrow>
      \<exists>s'. h i a s = Some (fst (g i a), snd (g i a), s') \<and> P s' \<and> (fst (g i a) = 0 \<longrightarrow> Q (snd (g i a)))"
  shows "\<exists>s'. emit_loop h ids prev 0 a s = Some (fst (emit_fold g ids a), snd (emit_fold g ids a), s') \<and> P s'"
  using assms
proof (induction ids arbitrary: prev a s)
  case (Cons i "is")
  obtain s' where s': "h i a s = Some (fst (g i a), snd (g i a), s')" "P s'" "fst (g i a) = 0 \<longrightarrow> Q (snd (g i a))"
    using Cons.prems(3-5) by (meson list.set_intros(1))
  have i: "i \<noteq> ANJAY_ID_INVALID" "\<not> int i \<le> prev" using Cons.prems(1,2) by (auto simp: ids_ok_def)
  show ?case
  proof (cases "fst (g i a) = 0")
    case True
    have "ids_ok is" "\<forall>j \<in> set is. int i < int j" using Cons.prems(1) by (auto simp: ids_ok_def)
    from Cons.IH [OF this s'(2), of "snd (g i a)"] Cons.prems(5) s'(3) True obtain s'' where
      "emit_loop h is (int i) 0 (snd (g i a)) s' =
        Some (fst (emit_fold g is (snd (g i a))), snd (emit_fold g is (snd (g i a))), s'')" "P s''"
      by (meson list.set_intros(2))
    with i s'(1) True show ?thesis by (cases "g i a") simp
  next
    case False
    with i s' show ?thesis by (cases "g i a") (simp add: emit_loop_stop)
  qed
qed simp

text \<open>An Object whose instances are the given ones in every state that satisfies \<open>P\<close>.\<close>

definition lists_instances :: "'s dm_object \<Rightarrow> ('s \<Rightarrow> bool) \<Rightarrow> nat list \<Rightarrow> bool" where
  "lists_instances obj P ids \<longleftrightarrow> ids_ok ids \<and>
     (\<exists>l. do_list_instances obj = Some l \<and> (\<forall>s. P s \<longrightarrow> (\<exists>s'. l s = Some (0, ids, s') \<and> P s')))"

lemma dm_foreach_instance_inv:
  assumes "lists_instances obj P ids" and "P s" and "Q a"
    and "\<And>i a s. i \<in> set ids \<Longrightarrow> P s \<Longrightarrow> Q a \<Longrightarrow>
      \<exists>s'. h i a s = Some (fst (g i a), snd (g i a), s') \<and> P s' \<and> (fst (g i a) = 0 \<longrightarrow> Q (snd (g i a)))"
  shows "\<exists>s'. dm_foreach_instance (Some obj) h a s =
    Some (foreach_result 0 (fst (emit_fold g ids a)), snd (emit_fold g ids a), s') \<and> P s'"
proof -
  obtain l s1 where l: "do_list_instances obj = Some l" "l s = Some (0, ids, s1)" "P s1" and ids: "ids_ok ids"
    using assms(1,2) by (auto simp: lists_instances_def)
  have "\<forall>i \<in> set ids. (- 1 :: int) < int i" by simp
  from emit_loop_fold [of ids "- 1" P s1 Q a h g, OF ids this l(3)] assms(3,4) obtain s' where
    "emit_loop h ids (- 1) 0 a s1 = Some (fst (emit_fold g ids a), snd (emit_fold g ids a), s')" "P s'"
    by blast
  with l show ?thesis by (simp add: dm_foreach_instance_def)
qed

lemma dm_foreach_instance_fold:
  assumes "lists_instances obj P ids" and "P s"
    and "\<And>i a s. i \<in> set ids \<Longrightarrow> P s \<Longrightarrow> \<exists>s'. h i a s = Some (fst (g i a), snd (g i a), s') \<and> P s'"
  shows "\<exists>s'. dm_foreach_instance (Some obj) h a s =
    Some (foreach_result 0 (fst (emit_fold g ids a)), snd (emit_fold g ids a), s') \<and> P s'"
  using dm_foreach_instance_inv [OF assms(1,2), of "\<lambda>_. True" a h g] assms(3) by blast

lemma emit_fold_find:
  "emit_fold (\<lambda>i a. if Q i then (ANJAY_FOREACH_BREAK, f i) else (0, a)) ids a =
    (case find Q ids of None \<Rightarrow> (0, a) | Some i \<Rightarrow> (ANJAY_FOREACH_BREAK, f i))"
  by (induction ids) auto

lemma dm_instance_present_correct:
  assumes "lists_instances obj P ids" and "P s"
  shows "\<exists>s'. dm_instance_present (Some obj) iid s = Some (if iid \<in> set ids then 1 else 0, s') \<and> P s'"
proof -
  let ?g = "\<lambda>i a. if iid \<le> i then (ANJAY_FOREACH_BREAK, i = iid) else (0 :: int, a)"
  have "\<exists>s'. instance_present_clb iid i a s = Some (fst (?g i a), snd (?g i a), s') \<and> P s'" if "P s" for i a s
    using that by (simp add: instance_present_clb_def)
  from dm_foreach_instance_fold [OF assms, of "instance_present_clb iid" ?g False] this obtain s' where
    s': "dm_foreach_instance (Some obj) (instance_present_clb iid) False s =
      Some (foreach_result 0 (fst (emit_fold ?g ids False)), snd (emit_fold ?g ids False), s')" "P s'"
    by blast
  have asc: "ascending (\<lambda>i. i) ids" using assms(1) by (simp add: lists_instances_def ids_ok_def)
  then have "snd (emit_fold ?g ids False) = (iid \<in> set ids)" and "fst (emit_fold ?g ids False) \<in> {0, ANJAY_FOREACH_BREAK}"
    by (induction ids) auto
  with s' show ?thesis by (auto simp: dm_instance_present_def foreach_result_def)
qed

text \<open>Memory: what an enumeration consumes of the allocations, and when it runs out.\<close>

lemma dm_get_sorted_instance_list_correct:
  assumes "lists_instances obj P ids" and "P s"
  shows "\<exists>r xs al' s'. dm_get_sorted_instance_list (Some obj) al s = Some (r, xs, al', s') \<and> P s' \<and>
    (r = 0 \<and> xs = ids \<and> taken al al' \<or> r \<noteq> 0 \<and> used_up al al')"
proof -
  let ?g = "\<lambda>i (xs, al). case alloc_next al of (None, al) \<Rightarrow> (- 1 :: int, (xs, al)) | (Some p, al) \<Rightarrow> (0, (xs @ [i], al))"
  have clb: "\<exists>s'. query_dm_instance i a s = Some (fst (?g i a), snd (?g i a), s') \<and> P s'" if "P s" for i a s
    using that by (auto simp: query_dm_instance_def split: prod.splits option.splits)
  have fold: "case emit_fold ?g is (ys, al) of (r, (xs, al')) \<Rightarrow>
     r = 0 \<and> xs = ys @ is \<and> al' = drop (length is) al \<and> length is \<le> length al \<and> None \<notin> set (take (length is) al) \<or>
     r = - 1 \<and> (\<exists>n. al' = drop n al \<and> (al' = [] \<or> None \<in> set (take n al)))" for "is" ys al
  proof (induction "is" arbitrary: ys al)
    case (Cons i "is")
    show ?case
    proof (cases al)
      case Nil
      then show ?thesis by (simp add: alloc_next_def)
    next
      case al: (Cons m al1)
      show ?thesis
      proof (cases m)
        case None
        with al show ?thesis by (auto simp: alloc_next_def intro!: exI [of _ 1])
      next
        case (Some p)
        from Cons.IH [of "ys @ [i]" al1] show ?thesis
          using al Some by (fastforce simp: alloc_next_def split: prod.splits intro: exI [of _ "Suc n" for n])
      qed
    qed
  qed simp
  obtain s' where s': "dm_foreach_instance (Some obj) query_dm_instance ([], al) s =
      Some (foreach_result 0 (fst (emit_fold ?g ids ([], al))), snd (emit_fold ?g ids ([], al)), s')" "P s'"
    using dm_foreach_instance_fold [OF assms, of query_dm_instance ?g "([], al)"] clb by blast
  obtain r xs al' where e: "emit_fold ?g ids ([], al) = (r, xs, al')" by (cases "emit_fold ?g ids ([], al)") auto
  have cases:
    "r = 0 \<and> xs = ids \<and> al' = drop (length ids) al \<and> length ids \<le> length al \<and> None \<notin> set (take (length ids) al) \<or>
     r = - 1 \<and> (\<exists>n. al' = drop n al \<and> (al' = [] \<or> None \<in> set (take n al)))"
    using fold [of "[]" ids al] unfolding e by simp
  have run: "dm_get_sorted_instance_list (Some obj) al s =
      Some (foreach_result 0 r, if foreach_result 0 r \<noteq> 0 then [] else xs, al', s')"
    using s'(1) e by (simp add: dm_get_sorted_instance_list_def)
  from cases show ?thesis
  proof
    assume "r = 0 \<and> xs = ids \<and> al' = drop (length ids) al \<and> length ids \<le> length al \<and> None \<notin> set (take (length ids) al)"
    with run s'(2) show ?thesis by (simp add: foreach_result_def taken_drop)
  next
    assume "r = - 1 \<and> (\<exists>n. al' = drop n al \<and> (al' = [] \<or> None \<in> set (take n al)))"
    then have "r = - 1" "used_up al al'" by (metis used_up_drop)+
    with run s'(2) show ?thesis by (simp add: foreach_result_def)
  qed
qed

end
