(* ===== verification/Acl_Ref.thy ===== *)
theory Acl_Ref
  imports Dm_Objects
begin

text \<open>
  The check of the targets of Access Control instances (\<open>_anjay_acl_ref_validate_inst_ref\<close> in
  \<open>core/anjay_access_utils.c\<close>). A validation context holds, for each Object met so far, the Instance IDs
  that may still be referred to; each accepted reference uses one up.
\<close>

record acl_ref_object_info =
  ri_oid :: nat
  ri_allowed_iids :: "nat list"

type_synonym acl_ref_ctx = "acl_ref_object_info list"

text \<open>The result \<open>None\<close> inside is the \<open>NULL\<close> of the C function.\<close>

definition create_allowed_iids_set ::
    "'s dm_object \<Rightarrow> allocs \<Rightarrow> 's \<Rightarrow> (nat list option \<times> allocs \<times> 's) option" where
  "create_allowed_iids_set obj al s = do {
     (r, xs, al, s) \<leftarrow> dm_get_sorted_instance_list (Some obj) al s;
     if r \<noteq> 0 then Some (None, al, s)
     else (case alloc_next al of
             (None, al) \<Rightarrow> Some (None, al, s)
           | (Some _, al) \<Rightarrow> Some (Some (xs @ [ANJAY_ID_INVALID]), al, s)) }"

text \<open>
  A new entry for an Object: the allocation of the entry, then the list of its instances.
  \<open>get_or_create_validation_object_info\<close> returns a pointer into the context: the entry with what is in
  front of it and what follows it.
\<close>

definition new_validation_object_info ::
    "'s dm_object \<Rightarrow> allocs \<Rightarrow> 's \<Rightarrow> (acl_ref_object_info option \<times> allocs \<times> 's) option" where
  "new_validation_object_info obj al s =
     (case alloc_next al of
        (None, al) \<Rightarrow> Some (None, al, s)
      | (Some _, al) \<Rightarrow> do {
          (allowed, al, s) \<leftarrow> create_allowed_iids_set obj al s;
          Some (map_option (\<lambda>xs. \<lparr>ri_oid = do_oid obj, ri_allowed_iids = xs\<rparr>) allowed, al, s) })"

fun get_or_create_validation_object_info ::
    "'s dm_object \<Rightarrow> acl_ref_ctx \<Rightarrow> allocs \<Rightarrow> 's \<Rightarrow>
     ((acl_ref_ctx \<times> acl_ref_object_info \<times> acl_ref_ctx) option \<times> allocs \<times> 's) option" where
  "get_or_create_validation_object_info obj [] al s = do {
     (e, al, s) \<leftarrow> new_validation_object_info obj al s;
     Some (map_option (\<lambda>e. ([], e, [])) e, al, s) }"
| "get_or_create_validation_object_info obj (x # xs) al s =
     (if ri_oid x = do_oid obj then Some (Some ([], x, xs), al, s)
      else if do_oid obj < ri_oid x then do {
        (e, al, s) \<leftarrow> new_validation_object_info obj al s;
        Some (map_option (\<lambda>e. ([], e, x # xs)) e, al, s) }
      else do {
        (r, al, s) \<leftarrow> get_or_create_validation_object_info obj xs al s;
        Some (map_option (\<lambda>(before, e, after). (x # before, e, after)) r, al, s) })"

text \<open>The loop over the allowed IDs: \<open>None\<close> when the wanted one is not there, else the list without it.\<close>

fun take_allowed_iid :: "nat list \<Rightarrow> nat \<Rightarrow> nat list option" where
  "take_allowed_iid [] iid = None"
| "take_allowed_iid (i # is) iid =
     (if i < iid then map_option (Cons i) (take_allowed_iid is iid)
      else if i \<noteq> iid then None
      else Some is)"

definition acl_ref_validate_inst_ref ::
    "'s dm_object list \<Rightarrow> acl_ref_ctx \<Rightarrow> nat \<Rightarrow> nat \<Rightarrow> allocs \<Rightarrow> 's \<Rightarrow> (int \<times> acl_ref_ctx \<times> allocs \<times> 's) option" where
  "acl_ref_validate_inst_ref objs ctx oid iid al s =
     (case find_object_by_oid objs oid of
        None \<Rightarrow> Some (- 1, ctx, al, s)
      | Some obj \<Rightarrow> do {
          (info, al, s) \<leftarrow> get_or_create_validation_object_info obj ctx al s;
          case info of
            None \<Rightarrow> Some (- 1, ctx, al, s)
          | Some (before, e, after) \<Rightarrow>
              (case take_allowed_iid (ri_allowed_iids e) iid of
                 None \<Rightarrow> Some (- 1, before @ e # after, al, s)
               | Some iids \<Rightarrow> Some (0, before @ e\<lparr>ri_allowed_iids := iids\<rparr> # after, al, s)) })"

end
