(* ===== verification/Ac_Object.thy ===== *)
theory Ac_Object
  imports Acl_Ref
begin

text \<open>
  The Access Control object (\<open>modules/access_control\<close>): its state and its handlers. Every instance
  names a target, an owner and a list of access masks by server. The list of instances is sorted by
  Instance ID, an access list by Short Server ID.

  \<open>last_accessed_instance\<close> caches a pointer into the list of instances. Instances hence carry the
  address of their list element, and reading through a pointer that belongs to no instance of the
  current list is \<open>None\<close>. Deleted elements are not compared by address again, so addresses can be
  reused. The results of allocations are lists as in \<open>Anjay_Notify\<close>. What the handlers need of other
  Objects is the parameter \<open>objects_view\<close>.
\<close>

section \<open>Constants and state\<close>

definition ACCESS_MASK_READ :: nat where "ACCESS_MASK_READ = 1"
definition ACCESS_MASK_WRITE :: nat where "ACCESS_MASK_WRITE = 2"
definition ACCESS_MASK_EXECUTE :: nat where "ACCESS_MASK_EXECUTE = 4"
definition ACCESS_MASK_DELETE :: nat where "ACCESS_MASK_DELETE = 8"
definition ACCESS_MASK_CREATE :: nat where "ACCESS_MASK_CREATE = 16"
definition ACCESS_MASK_FULL :: nat where "ACCESS_MASK_FULL = 31"
definition ACCESS_MASK_NONE :: nat where "ACCESS_MASK_NONE = 0"

lemmas access_masks = ACCESS_MASK_READ_def ACCESS_MASK_WRITE_def ACCESS_MASK_EXECUTE_def
  ACCESS_MASK_DELETE_def ACCESS_MASK_CREATE_def ACCESS_MASK_FULL_def ACCESS_MASK_NONE_def

text \<open>\<open>ANJAY_ACCESS_MASK_FULL & ~ANJAY_ACCESS_MASK_CREATE\<close>.\<close>

definition access_mask_instance :: nat where
  "access_mask_instance = ACCESS_MASK_FULL - ACCESS_MASK_CREATE"

record acl_entry =
  ae_mask :: nat
  ae_ssid :: nat

record acl_target =
  at_oid :: nat
  at_iid :: int

record ac_instance =
  ai_addr :: nat
  ai_iid :: nat
  ai_target :: acl_target
  ai_owner :: nat
  ai_has_acl :: bool
  ai_acl :: "acl_entry list"

record ac_state =
  as_instances :: "ac_instance list"
  as_modified_since_persist :: bool

record access_control =
  ac_current :: ac_state
  ac_saved_state :: ac_state
  ac_in_transaction :: bool
  ac_last_accessed :: "nat option"
  ac_needs_validation :: bool

definition cleared_state :: ac_state where
  "cleared_state = \<lparr>as_instances = [], as_modified_since_persist = False\<rparr>"

text \<open>\<open>anjay_access_control_install\<close> allocates the object with zeros.\<close>

definition ac_installed :: access_control where
  "ac_installed = \<lparr>ac_current = cleared_state, ac_saved_state = cleared_state, ac_in_transaction = False,
     ac_last_accessed = None, ac_needs_validation = False\<rparr>"

definition mark_modified :: "access_control \<Rightarrow> access_control" where
  "mark_modified ac = ac\<lparr>ac_current := (ac_current ac)\<lparr>as_modified_since_persist := True\<rparr>\<rparr>"

definition clear_modified :: "access_control \<Rightarrow> access_control" where
  "clear_modified ac = ac\<lparr>ac_current := (ac_current ac)\<lparr>as_modified_since_persist := False\<rparr>\<rparr>"

abbreviation instances :: "access_control \<Rightarrow> ac_instance list" where
  "instances ac \<equiv> as_instances (ac_current ac)"

definition set_instances :: "access_control \<Rightarrow> ac_instance list \<Rightarrow> access_control" where
  "set_instances ac insts = ac\<lparr>ac_current := (ac_current ac)\<lparr>as_instances := insts\<rparr>\<rparr>"

text \<open>Reading and writing through a pointer to an instance.\<close>

fun inst_at :: "ac_instance list \<Rightarrow> nat \<Rightarrow> ac_instance option" where
  "inst_at [] p = None"
| "inst_at (i # is) p = (if ai_addr i = p then Some i else inst_at is p)"

fun inst_update :: "ac_instance list \<Rightarrow> nat \<Rightarrow> (ac_instance \<Rightarrow> ac_instance) \<Rightarrow> ac_instance list" where
  "inst_update [] p f = []"
| "inst_update (i # is) p f = (if ai_addr i = p then f i # is else i # inst_update is p f)"

definition update_instance :: "access_control \<Rightarrow> nat \<Rightarrow> (ac_instance \<Rightarrow> ac_instance) \<Rightarrow> access_control" where
  "update_instance ac p f = set_instances ac (inst_update (instances ac) p f)"

definition target_oid_valid :: "int \<Rightarrow> bool" where
  "target_oid_valid oid \<longleftrightarrow> oid \<ge> 1 \<and> oid \<noteq> int OID_ACCESS_CONTROL \<and> oid < 65535"

definition target_iid_valid :: "int \<Rightarrow> bool" where
  "target_iid_valid iid \<longleftrightarrow> iid = iid mod 65536"

section \<open>Finding an instance\<close>

fun find_iid_loop :: "nat \<Rightarrow> ac_instance list \<Rightarrow> nat option" where
  "find_iid_loop iid [] = None"
| "find_iid_loop iid (it # its) =
     (if iid \<le> ai_iid it then (if ai_iid it = iid then Some (ai_addr it) else None) else find_iid_loop iid its)"

definition find_instance :: "access_control \<Rightarrow> nat \<Rightarrow> (nat option \<times> access_control) option" where
  "find_instance ac iid = do {
     hit \<leftarrow> (case ac_last_accessed ac of
              None \<Rightarrow> Some False
            | Some p \<Rightarrow> do { i \<leftarrow> inst_at (instances ac) p; Some (ai_iid i = iid) });
     let ac = (if hit then ac else ac\<lparr>ac_last_accessed := find_iid_loop iid (instances ac)\<rparr>);
     Some (ac_last_accessed ac, ac) }"

definition ac_list_instances :: "access_control \<Rightarrow> int \<times> nat list" where
  "ac_list_instances ac = (0, map ai_iid (instances ac))"

definition ac_instance_reset :: "access_control \<Rightarrow> nat \<Rightarrow> (int \<times> access_control) option" where
  "ac_instance_reset ac iid = do {
     (p, ac) \<leftarrow> find_instance ac iid;
     case p of
       None \<Rightarrow> Some (ANJAY_ERR_NOT_FOUND, ac)
     | Some p \<Rightarrow> do {
         let ac = update_instance ac p (\<lambda>i. i\<lparr>ai_acl := [], ai_has_acl := False, ai_owner := 0\<rparr>);
         Some (0, mark_modified (ac\<lparr>ac_needs_validation := True\<rparr>)) } }"

section \<open>Adding and removing instances\<close>

text \<open>
  \<open>_anjay_notify_queue_instance_created\<close> when the caller passed a queue. The loop of
  \<open>add_instances_without_iids\<close> returns the instances from the insertion pointer on, and the instances
  not yet moved.
\<close>

definition notify_created_opt ::
    "notify_queue option \<Rightarrow> nat \<Rightarrow> allocs \<Rightarrow> (int \<times> notify_queue option \<times> allocs) option" where
  "notify_created_opt q iid al =
     (case q of
        None \<Rightarrow> Some (0, None, al)
      | Some q \<Rightarrow> do {
          (r, q, al) \<leftarrow> notify_queue_instance_created q OID_ACCESS_CONTROL iid al;
          Some (r, Some q, al) })"

function add_without_iids_loop ::
    "ac_instance list \<Rightarrow> ac_instance list \<Rightarrow> nat \<Rightarrow> notify_queue option \<Rightarrow> allocs \<Rightarrow>
     (int \<times> ac_instance list \<times> ac_instance list \<times> notify_queue option \<times> allocs) option" where
  "add_without_iids_loop insts to_move proposed q al =
     (case to_move of
        [] \<Rightarrow> Some (0, insts, [], q, al)
      | new # rest_to_move \<Rightarrow>
          if \<not> proposed < ANJAY_ID_INVALID then Some (- 1, insts, to_move, q, al)
          else do {
            c_assert (ai_iid new = ANJAY_ID_INVALID);
            (r, insts, to_move, q, al) \<leftarrow>
              (if insts = [] \<or> proposed < ai_iid (hd insts) then do {
                 (r, q, al) \<leftarrow> notify_created_opt q proposed al;
                 if r \<noteq> 0 then Some (r, insts, to_move, q, al)
                 else Some (0, new\<lparr>ai_iid := proposed\<rparr> # insts, rest_to_move, q, al) }
               else Some (0, insts, to_move, q, al));
            if r \<noteq> 0 then Some (r, insts, to_move, q, al)
            else do {
              c_assert (insts \<noteq> [] \<and> proposed = ai_iid (hd insts));
              (r, tail, to_move, q, al) \<leftarrow> add_without_iids_loop (tl insts) to_move (proposed + 1) q al;
              Some (r, hd insts # tail, to_move, q, al) } })"
  by pat_completeness auto
termination by (relation "measure (\<lambda>(insts, to_move, proposed, q, al). 65535 - proposed)") auto

text \<open>
  The loop of \<open>_anjay_access_control_add_instance\<close>: \<open>None\<close> when the Instance ID is taken, otherwise
  the instances in front of the insertion pointer and those behind it.
\<close>

fun insertion_point :: "nat \<Rightarrow> ac_instance list \<Rightarrow> (ac_instance list \<times> ac_instance list) option" where
  "insertion_point iid [] = Some ([], [])"
| "insertion_point iid (i # is) =
     (if ai_iid i = iid then None
      else if iid < ai_iid i then Some ([], i # is)
      else (case insertion_point iid is of None \<Rightarrow> None | Some (before, after) \<Rightarrow> Some (i # before, after)))"

definition ac_add_instance ::
    "access_control \<Rightarrow> ac_instance \<Rightarrow> notify_queue option \<Rightarrow> allocs \<Rightarrow>
     (int \<times> access_control \<times> notify_queue option \<times> allocs) option" where
  "ac_add_instance ac inst q al =
     (if ai_iid inst = ANJAY_ID_INVALID then do {
        (r, insts, to_move, q, al) \<leftarrow> add_without_iids_loop (instances ac) [inst] 0 q al;
        Some (r, set_instances ac insts, q, al) }
      else (case insertion_point (ai_iid inst) (instances ac) of
              None \<Rightarrow> Some (- 1, ac, q, al)
            | Some (before, after) \<Rightarrow> do {
                (r, q, al) \<leftarrow> notify_created_opt q (ai_iid inst) al;
                Some (r, if r = 0 then set_instances ac (before @ inst # after) else ac, q, al) }))"

definition ac_instance_create ::
    "access_control \<Rightarrow> nat \<Rightarrow> allocs \<Rightarrow> (int \<times> access_control \<times> allocs) option" where
  "ac_instance_create ac iid al =
     (case alloc_next al of
        (None, al) \<Rightarrow> Some (ANJAY_ERR_INTERNAL, ac, al)
      | (Some p, al) \<Rightarrow> do {
          let new = \<lparr>ai_addr = p, ai_iid = iid, ai_target = \<lparr>at_oid = 0, at_iid = - 1\<rparr>,
                     ai_owner = ANJAY_SSID_BOOTSTRAP, ai_has_acl = False, ai_acl = []\<rparr>;
          (r, ac, q, al) \<leftarrow> ac_add_instance ac new None al;
          Some (r, mark_modified (ac\<lparr>ac_needs_validation := True\<rparr>), al) })"

text \<open>
  The loop of \<open>ac_instance_remove\<close> returns the deleted element and the other instances. The pointer
  to the last accessed instance is followed for each instance that has the wanted Instance ID.
\<close>

fun remove_iid_loop :: "nat \<Rightarrow> ac_instance list \<Rightarrow> (ac_instance \<times> ac_instance list) option" where
  "remove_iid_loop iid [] = None"
| "remove_iid_loop iid (i # is) =
     (if ai_iid i = iid then Some (i, is)
      else if iid < ai_iid i then None
      else (case remove_iid_loop iid is of None \<Rightarrow> None | Some (x, is) \<Rightarrow> Some (x, i # is)))"

definition ac_instance_remove :: "access_control \<Rightarrow> nat \<Rightarrow> (int \<times> access_control) option" where
  "ac_instance_remove ac iid =
     (case remove_iid_loop iid (instances ac) of
        None \<Rightarrow> Some (ANJAY_ERR_NOT_FOUND, ac)
      | Some (_, insts) \<Rightarrow> do {
          forget \<leftarrow> (case ac_last_accessed ac of
                      None \<Rightarrow> Some False
                    | Some p \<Rightarrow> do { i \<leftarrow> inst_at (instances ac) p; Some (ai_iid i = iid) });
          let ac = (if forget then ac\<lparr>ac_last_accessed := None\<rparr> else ac);
          Some (0, mark_modified (set_instances ac insts)) })"

section \<open>Resources\<close>

text \<open>
  \<open>ac_list_resources\<close> emits a kind and a presence for each Resource. A read ends with the value that is
  given to \<open>anjay_ret_i32\<close>, or with an error; asking for any other Resource is a failed assertion.
\<close>

definition ac_list_resources ::
    "access_control \<Rightarrow> nat \<Rightarrow> (int \<times> (nat \<times> int \<times> int) list \<times> access_control) option" where
  "ac_list_resources ac iid = do {
     (p, ac) \<leftarrow> find_instance ac iid;
     has_acl \<leftarrow> (case p of None \<Rightarrow> Some False | Some p \<Rightarrow> do { i \<leftarrow> inst_at (instances ac) p; Some (ai_has_acl i) });
     Some (0, [(RID_AC_OID, RES_R, RES_PRESENT), (RID_AC_OIID, RES_R, RES_PRESENT),
               (RID_AC_ACL, RES_RWM, if has_acl then RES_PRESENT else RES_ABSENT),
               (RID_AC_OWNER, RES_RW, RES_PRESENT)], ac) }"

fun find_acl_entry :: "acl_entry list \<Rightarrow> nat \<Rightarrow> acl_entry option" where
  "find_acl_entry [] ssid = None"
| "find_acl_entry (e # es) ssid =
     (if ssid \<le> ae_ssid e then (if ae_ssid e = ssid then Some e else None) else find_acl_entry es ssid)"

definition ac_resource_read ::
    "access_control \<Rightarrow> nat \<Rightarrow> nat \<Rightarrow> nat \<Rightarrow> ((int + int) \<times> access_control) option" where
  "ac_resource_read ac iid rid riid = do {
     (p, ac) \<leftarrow> find_instance ac iid;
     case p of
       None \<Rightarrow> Some (Inl ANJAY_ERR_NOT_FOUND, ac)
     | Some p \<Rightarrow> do {
         inst \<leftarrow> inst_at (instances ac) p;
         if rid = RID_AC_OID then do {
           c_assert (riid = ANJAY_ID_INVALID);
           Some (Inr (int (at_oid (ai_target inst))), ac) }
         else if rid = RID_AC_OIID then do {
           c_assert (riid = ANJAY_ID_INVALID);
           Some (Inr (at_iid (ai_target inst)), ac) }
         else if rid = RID_AC_ACL then
           (case find_acl_entry (ai_acl inst) riid of
              None \<Rightarrow> Some (Inl ANJAY_ERR_NOT_FOUND, ac)
            | Some e \<Rightarrow> Some (Inr (int (ae_mask e)), ac))
         else if rid = RID_AC_OWNER then do {
           c_assert (riid = ANJAY_ID_INVALID);
           Some (Inr (int (ai_owner inst)), ac) }
         else None } }"

text \<open>
  An input context for integers: the \<open>integer\<close> operation of its table, if it has one, yields an error
  or a value.
\<close>

type_synonym input_ctx = "(int + int) option"

definition get_i64 :: "input_ctx \<Rightarrow> int + int" where
  "get_i64 ctx = (case ctx of None \<Rightarrow> Inl (- 1) | Some r \<Rightarrow> r)"

definition get_i32 :: "input_ctx \<Rightarrow> int + int" where
  "get_i32 ctx =
     (case get_i64 ctx of
        Inl e \<Rightarrow> Inl e
      | Inr v \<Rightarrow> if v < - 2147483648 \<or> v > 2147483647 then Inl ANJAY_ERR_BAD_REQUEST else Inr v)"

text \<open>The loop and the insertion of \<open>write_to_acl_array\<close>; a mask is converted to \<open>uint16_t\<close>.\<close>

fun write_acl_entry :: "acl_entry list \<Rightarrow> nat \<Rightarrow> nat \<Rightarrow> allocs \<Rightarrow> int \<times> acl_entry list \<times> allocs" where
  "write_acl_entry [] ssid msk al =
     (case alloc_next al of
        (None, al) \<Rightarrow> (ANJAY_ERR_INTERNAL, [], al)
      | (Some _, al) \<Rightarrow> (0, [\<lparr>ae_mask = msk, ae_ssid = ssid\<rparr>], al))"
| "write_acl_entry (e # es) ssid msk al =
     (if ssid \<le> ae_ssid e then
        if ae_ssid e = ssid then (0, e\<lparr>ae_mask := msk\<rparr> # es, al)
        else (case alloc_next al of
                (None, al) \<Rightarrow> (ANJAY_ERR_INTERNAL, e # es, al)
              | (Some _, al) \<Rightarrow> (0, \<lparr>ae_mask = msk, ae_ssid = ssid\<rparr> # e # es, al))
      else (case write_acl_entry es ssid msk al of (r, es, al) \<Rightarrow> (r, e # es, al)))"

definition write_to_acl_array ::
    "acl_entry list \<Rightarrow> nat \<Rightarrow> input_ctx \<Rightarrow> allocs \<Rightarrow> int \<times> acl_entry list \<times> allocs" where
  "write_to_acl_array acl ssid ctx al =
     (case get_i32 ctx of
        Inl _ \<Rightarrow> (ANJAY_ERR_INTERNAL, acl, al)
      | Inr msk \<Rightarrow> write_acl_entry acl ssid (nat (msk mod 65536)) al)"

definition touch_instance :: "access_control \<Rightarrow> nat \<Rightarrow> (ac_instance \<Rightarrow> ac_instance) \<Rightarrow> access_control" where
  "touch_instance ac p f = mark_modified ((update_instance ac p f)\<lparr>ac_needs_validation := True\<rparr>)"

definition ac_resource_write ::
    "access_control \<Rightarrow> nat \<Rightarrow> nat \<Rightarrow> nat \<Rightarrow> input_ctx \<Rightarrow> allocs \<Rightarrow> (int \<times> access_control \<times> allocs) option" where
  "ac_resource_write ac iid rid riid ctx al = do {
     (p, ac) \<leftarrow> find_instance ac iid;
     case p of
       None \<Rightarrow> Some (ANJAY_ERR_NOT_FOUND, ac, al)
     | Some p \<Rightarrow> do {
         inst \<leftarrow> inst_at (instances ac) p;
         if rid = RID_AC_OID then do {
           c_assert (riid = ANJAY_ID_INVALID);
           case get_i32 ctx of
             Inl e \<Rightarrow> Some (e, ac, al)
           | Inr oid \<Rightarrow>
               if \<not> target_oid_valid oid then Some (ANJAY_ERR_BAD_REQUEST, ac, al)
               else Some (0, touch_instance ac p (\<lambda>i. i\<lparr>ai_target := (ai_target i)\<lparr>at_oid := nat oid\<rparr>\<rparr>), al) }
         else if rid = RID_AC_OIID then do {
           c_assert (riid = ANJAY_ID_INVALID);
           case get_i32 ctx of
             Inl e \<Rightarrow> Some (e, ac, al)
           | Inr oiid \<Rightarrow>
               if oiid < 0 \<or> oiid > 65535 then Some (ANJAY_ERR_BAD_REQUEST, ac, al)
               else Some (0, touch_instance ac p (\<lambda>i. i\<lparr>ai_target := (ai_target i)\<lparr>at_iid := oiid\<rparr>\<rparr>), al) }
         else if rid = RID_AC_ACL then
           (case write_to_acl_array (ai_acl inst) riid ctx al of (r, acl, al) \<Rightarrow>
              if r \<noteq> 0 then Some (r, ac, al)
              else Some (0, touch_instance ac p (\<lambda>i. i\<lparr>ai_acl := acl, ai_has_acl := True\<rparr>), al))
         else if rid = RID_AC_OWNER then do {
           c_assert (riid = ANJAY_ID_INVALID);
           case get_i32 ctx of
             Inl e \<Rightarrow> Some (e, ac, al)
           | Inr ssid \<Rightarrow>
               if ssid \<le> 0 \<or> ssid > int ANJAY_SSID_BOOTSTRAP then Some (ANJAY_ERR_BAD_REQUEST, ac, al)
               else Some (0, touch_instance ac p (\<lambda>i. i\<lparr>ai_owner := nat ssid\<rparr>), al) }
         else None } }"

definition ac_resource_reset :: "access_control \<Rightarrow> nat \<Rightarrow> nat \<Rightarrow> (int \<times> access_control) option" where
  "ac_resource_reset ac iid rid = do {
     (p, ac) \<leftarrow> find_instance ac iid;
     case p of
       None \<Rightarrow> Some (ANJAY_ERR_NOT_FOUND, ac)
     | Some p \<Rightarrow> do {
         c_assert (rid = RID_AC_ACL);
         Some (0, touch_instance ac p (\<lambda>i. i\<lparr>ai_acl := [], ai_has_acl := True\<rparr>)) } }"

definition ac_list_resource_instances ::
    "access_control \<Rightarrow> nat \<Rightarrow> nat \<Rightarrow> (int \<times> nat list \<times> access_control) option" where
  "ac_list_resource_instances ac iid rid = do {
     (p, ac) \<leftarrow> find_instance ac iid;
     case p of
       None \<Rightarrow> Some (ANJAY_ERR_NOT_FOUND, [], ac)
     | Some p \<Rightarrow> do {
         inst \<leftarrow> inst_at (instances ac) p;
         c_assert (rid = RID_AC_ACL);
         Some (0, map ae_ssid (ai_acl inst), ac) } }"

section \<open>Transactions\<close>

text \<open>\<open>_anjay_access_control_clone_state\<close>: the copy, or \<open>None\<close> when memory ran out.\<close>

fun clone_acl :: "acl_entry list \<Rightarrow> allocs \<Rightarrow> acl_entry list option \<times> allocs" where
  "clone_acl [] al = (Some [], al)"
| "clone_acl (e # es) al =
     (case alloc_next al of
        (None, al) \<Rightarrow> (None, al)
      | (Some _, al) \<Rightarrow> (case clone_acl es al of (r, al) \<Rightarrow> (map_option (Cons e) r, al)))"

fun clone_instances :: "ac_instance list \<Rightarrow> allocs \<Rightarrow> ac_instance list option \<times> allocs" where
  "clone_instances [] al = (Some [], al)"
| "clone_instances (i # is) al =
     (case alloc_next al of
        (None, al) \<Rightarrow> (None, al)
      | (Some p, al) \<Rightarrow>
          (case clone_acl (ai_acl i) al of
             (None, al) \<Rightarrow> (None, al)
           | (Some acl, al) \<Rightarrow>
               (case clone_instances is al of
                  (r, al) \<Rightarrow> (map_option (Cons (i\<lparr>ai_addr := p, ai_acl := acl\<rparr>)) r, al))))"

definition clone_state :: "ac_state \<Rightarrow> ac_state \<Rightarrow> allocs \<Rightarrow> (int \<times> ac_state \<times> allocs) option" where
  "clone_state dest src al = do {
     c_assert (as_instances dest = []);
     Some (case clone_instances (as_instances src) al of
             (None, al) \<Rightarrow> (- 1, cleared_state, al)
           | (Some insts, al) \<Rightarrow>
               (0, \<lparr>as_instances = insts, as_modified_since_persist = as_modified_since_persist src\<rparr>, al)) }"

definition ac_transaction_begin :: "access_control \<Rightarrow> allocs \<Rightarrow> (int \<times> access_control \<times> allocs) option" where
  "ac_transaction_begin ac al = do {
     c_assert (\<not> ac_in_transaction ac);
     (r, saved, al) \<leftarrow> clone_state (ac_saved_state ac) (ac_current ac) al;
     let ac = ac\<lparr>ac_saved_state := saved\<rparr>;
     if r \<noteq> 0 then Some (ANJAY_ERR_INTERNAL, ac, al)
     else Some (0, ac\<lparr>ac_in_transaction := True\<rparr>, al) }"

text \<open>
  \<open>ssids_used\<close> is a red-black tree; here it is the list of its elements. They are checked from the
  first to the last one added, the order of the tree makes no difference to the outcome.
\<close>

definition add_ssid :: "nat list \<Rightarrow> nat \<Rightarrow> allocs \<Rightarrow> int \<times> nat list \<times> allocs" where
  "add_ssid used ssid al =
     (if ssid \<in> set used then (0, used, al)
      else case alloc_next al of (None, al) \<Rightarrow> (- 1, used, al) | (Some _, al) \<Rightarrow> (0, used @ [ssid], al))"

fun add_acl_ssids :: "nat list \<Rightarrow> acl_entry list \<Rightarrow> allocs \<Rightarrow> int \<times> nat list \<times> allocs" where
  "add_acl_ssids used [] al = (0, used, al)"
| "add_acl_ssids used (e # es) al =
     (case add_ssid used (ae_ssid e) al of (r, used, al) \<Rightarrow>
        if r \<noteq> 0 then (r, used, al) else add_acl_ssids used es al)"

definition validate_ssid :: "'s dm_object list \<Rightarrow> nat \<Rightarrow> 's \<Rightarrow> (int \<times> 's) option" where
  "validate_ssid objs ssid s =
     (if ssid = ANJAY_SSID_BOOTSTRAP then Some (- 1, s)
      else if ssid = ANJAY_SSID_ANY then Some (0, s)
      else do {
        (ex, s) \<leftarrow> dm_ssid_exists objs ssid s;
        Some (if ex then 0 else - 1, s) })"

text \<open>The loop over the instances: the SSIDs used, or \<open>None\<close> when the validation failed.\<close>

fun validate_instances ::
    "'s dm_object list \<Rightarrow> ac_instance list \<Rightarrow> acl_ref_ctx \<Rightarrow> nat list \<Rightarrow> allocs \<Rightarrow> 's \<Rightarrow>
     (nat list option \<times> allocs \<times> 's) option" where
  "validate_instances objs [] ctx used al s = Some (Some used, al, s)"
| "validate_instances objs (i # is) ctx used al s =
     (if \<not> target_oid_valid (int (at_oid (ai_target i))) \<or> \<not> target_iid_valid (at_iid (ai_target i)) then
        Some (None, al, s)
      else do {
        (r, ctx, al, s) \<leftarrow>
          acl_ref_validate_inst_ref objs ctx (at_oid (ai_target i)) (nat (at_iid (ai_target i) mod 65536)) al s;
        if r \<noteq> 0 then Some (None, al, s)
        else
          (case (if ai_owner i \<noteq> ANJAY_SSID_BOOTSTRAP then add_ssid used (ai_owner i) al else (0, used, al)) of
             (r, used, al) \<Rightarrow>
               if r \<noteq> 0 then Some (None, al, s)
               else (case add_acl_ssids used (ai_acl i) al of (r, used, al) \<Rightarrow>
                       if r \<noteq> 0 then Some (None, al, s)
                       else validate_instances objs is ctx used al s)) })"

fun validate_ssids :: "'s dm_object list \<Rightarrow> nat list \<Rightarrow> 's \<Rightarrow> (bool \<times> 's) option" where
  "validate_ssids objs [] s = Some (True, s)"
| "validate_ssids objs (x # xs) s = do {
     (r, s) \<leftarrow> validate_ssid objs x s;
     if r \<noteq> 0 then Some (False, s) else validate_ssids objs xs s }"

definition ac_transaction_validate ::
    "'s dm_object list \<Rightarrow> access_control \<Rightarrow> allocs \<Rightarrow> 's \<Rightarrow> (int \<times> access_control \<times> allocs \<times> 's) option" where
  "ac_transaction_validate objs ac al s = do {
     c_assert (ac_in_transaction ac);
     if \<not> ac_needs_validation ac then Some (0, ac, al, s)
     else (case alloc_next al of
             (None, al) \<Rightarrow> Some (0, ac, al, s)
           | (Some _, al) \<Rightarrow> do {
               (used, al, s) \<leftarrow> validate_instances objs (instances ac) [] [] al s;
               case used of
                 None \<Rightarrow> Some (ANJAY_ERR_BAD_REQUEST, ac, al, s)
               | Some used \<Rightarrow> do {
                   (ok, s) \<leftarrow> validate_ssids objs used s;
                   if \<not> ok then Some (ANJAY_ERR_BAD_REQUEST, ac, al, s)
                   else Some (0, ac\<lparr>ac_needs_validation := False\<rparr>, al, s) } }) }"

definition ac_transaction_commit :: "access_control \<Rightarrow> (int \<times> access_control) option" where
  "ac_transaction_commit ac = do {
     c_assert (ac_in_transaction ac);
     Some (0, ac\<lparr>ac_saved_state := cleared_state, ac_needs_validation := False, ac_in_transaction := False\<rparr>) }"

definition ac_transaction_rollback :: "access_control \<Rightarrow> (int \<times> access_control) option" where
  "ac_transaction_rollback ac = do {
     c_assert (ac_in_transaction ac);
     Some (0, ac\<lparr>ac_current := ac_saved_state ac, ac_saved_state := cleared_state, ac_needs_validation := False,
                 ac_in_transaction := False, ac_last_accessed := None\<rparr>) }"

section \<open>The interface of the module\<close>

text \<open>
  \<open>anjay_mod_access_control.c\<close> and the rest of the handlers file. The state of the notifications and the
  results of \<open>AVS_SCHED_NOW\<close> are passed along; the module is taken to be installed.
\<close>

definition create_missing_ac_instance :: "nat \<Rightarrow> acl_target \<Rightarrow> allocs \<Rightarrow> ac_instance option \<times> allocs" where
  "create_missing_ac_instance owner target al =
     (case alloc_next al of
        (None, al) \<Rightarrow> (None, al)
      | (Some p, al) \<Rightarrow>
          (let inst = \<lparr>ai_addr = p, ai_iid = ANJAY_ID_INVALID, ai_target = target, ai_owner = owner,
                       ai_has_acl = True, ai_acl = []\<rparr>
           in if owner \<noteq> ANJAY_SSID_BOOTSTRAP \<and> at_iid target \<noteq> int ANJAY_ID_INVALID then
                (case alloc_next al of
                   (None, al) \<Rightarrow> (None, al)
                 | (Some _, al) \<Rightarrow>
                     (Some (inst\<lparr>ai_acl := [\<lparr>ae_mask = access_mask_instance, ae_ssid = owner\<rparr>]\<rparr>), al))
              else (Some inst, al)))"

fun find_target_loop :: "ac_instance list \<Rightarrow> nat \<Rightarrow> nat \<Rightarrow> ac_instance option" where
  "find_target_loop [] oid iid = None"
| "find_target_loop (i # is) oid iid =
     (if at_oid (ai_target i) = oid \<and> at_iid (ai_target i) = int iid then Some i else find_target_loop is oid iid)"

definition find_ac_instance :: "access_control \<Rightarrow> nat \<Rightarrow> nat \<Rightarrow> ac_instance option" where
  "find_ac_instance ac oid iid = find_target_loop (instances ac) oid iid"

definition target_instance_reachable :: "'s dm_object list \<Rightarrow> nat \<Rightarrow> nat \<Rightarrow> 's \<Rightarrow> (bool \<times> 's) option" where
  "target_instance_reachable objs oid iid s =
     (if \<not> target_oid_valid (int oid) \<or> \<not> target_iid_valid (int iid) then Some (False, s)
      else (case find_object_by_oid objs oid of
              None \<Rightarrow> Some (False, s)
            | Some obj \<Rightarrow>
                if iid = ANJAY_ID_INVALID then Some (True, s)
                else do {
                  (r, s) \<leftarrow> dm_instance_present (Some obj) iid s;
                  Some (r > 0, s) }))"

text \<open>The insertion pointer into an access list: the entries in front of it and those from it on.\<close>

fun acl_insert_ptr :: "acl_entry list \<Rightarrow> nat \<Rightarrow> acl_entry list \<times> acl_entry list" where
  "acl_insert_ptr [] ssid = ([], [])"
| "acl_insert_ptr (e # es) ssid =
     (if ssid \<le> ae_ssid e then ([], e # es) else (case acl_insert_ptr es ssid of (before, after) \<Rightarrow> (e # before, after)))"

definition set_acl_in_instance ::
    "'s dm_object list \<Rightarrow> ac_instance \<Rightarrow> nat \<Rightarrow> nat \<Rightarrow> allocs \<Rightarrow> 's \<Rightarrow> (int \<times> ac_instance \<times> allocs \<times> 's) option" where
  "set_acl_in_instance objs inst ssid access_mask al s =
     (case acl_insert_ptr (ai_acl inst) ssid of (before, after) \<Rightarrow>
        if after = [] \<or> ae_ssid (hd after) \<noteq> ssid then do {
          (r, s) \<leftarrow> validate_ssid objs ssid s;
          if r \<noteq> 0 then Some (- 1, inst, al, s)
          else (case alloc_next al of
                  (None, al) \<Rightarrow> Some (- 1, inst, al, s)
                | (Some _, al) \<Rightarrow>
                    Some (0, inst\<lparr>ai_acl := before @ \<lparr>ae_mask = access_mask, ae_ssid = ssid\<rparr> # after,
                                  ai_has_acl := True\<rparr>, al, s)) }
        else Some (0, inst\<lparr>ai_acl := before @ (hd after)\<lparr>ae_mask := access_mask\<rparr> # tl after\<rparr>, al, s))"

text \<open>
  \<open>set_acl\<close> works on the state of the module, the scheduled notifications, the allocations and the
  other Objects. \<open>sched1\<close> and \<open>sched2\<close> are the results of scheduling the two notifications.
\<close>

type_synonym 's module_env = "access_control \<times> scheduled_notify \<times> allocs \<times> 's"

definition set_acl ::
    "'s dm_object list \<Rightarrow> nat \<Rightarrow> nat \<Rightarrow> nat \<Rightarrow> nat \<Rightarrow> int \<Rightarrow> int \<Rightarrow> 's module_env \<Rightarrow> (int \<times> 's module_env) option" where
  "set_acl objs oid iid ssid access_mask sched1 sched2 = (\<lambda>(ac, sn, al, s).
     case find_ac_instance ac oid iid of
       Some inst \<Rightarrow> do {
         (r, inst', al, s) \<leftarrow> set_acl_in_instance objs inst ssid access_mask al s;
         let ac = update_instance ac (ai_addr inst) (\<lambda>_. inst');
         Some (r, if r = 0 then mark_modified ac else ac, sn, al, s) }
     | None \<Rightarrow> do {
         (reachable, s) \<leftarrow> target_instance_reachable objs oid iid s;
         if \<not> reachable then Some (- 1, ac, sn, al, s)
         else (case create_missing_ac_instance ANJAY_SSID_BOOTSTRAP \<lparr>at_oid = oid, at_iid = int iid\<rparr> al of
                 (None, al) \<Rightarrow> Some (- 1, ac, sn, al, s)
               | (Some inst, al) \<Rightarrow> do {
                   (r, inst, al, s) \<leftarrow> set_acl_in_instance objs inst ssid access_mask al s;
                   if r \<noteq> 0 then Some (r, ac, sn, al, s)
                   else (case notify_instances_changed sn OID_ACCESS_CONTROL al sched1 of
                     (r, sn, al) \<Rightarrow>
                       if r \<noteq> 0 then Some (r, ac, sn, al, s)
                       else do {
                         (r, ac, q, al) \<leftarrow> ac_add_instance ac inst (Some []) al;
                         if r \<noteq> 0 then Some (r, ac, sn, al, s)
                         else do {
                           dm_changes \<leftarrow> q;
                           c_assert (length dm_changes = 1);
                           c_assert (length (oe_known_added_iids (hd dm_changes)) = 1);
                           c_assert (oe_resources_changed (hd dm_changes) = []);
                           let ac = mark_modified ac;
                           (_, sn, al) \<leftarrow> notify_instance_created sn (oe_oid (hd dm_changes))
                             (hd (oe_known_added_iids (hd dm_changes))) al sched2;
                           Some (0, ac, sn, al, s) } }) }) })"

definition anjay_access_control_set_acl ::
    "'s dm_object list \<Rightarrow> nat \<Rightarrow> nat \<Rightarrow> nat \<Rightarrow> nat \<Rightarrow> int \<Rightarrow> int \<Rightarrow> 's module_env \<Rightarrow> (int \<times> 's module_env) option" where
  "anjay_access_control_set_acl objs oid iid ssid access_mask sched1 sched2 env =
     (if ssid = ANJAY_SSID_BOOTSTRAP then Some (- 1, env)
      else if access_mask AND ACCESS_MASK_FULL \<noteq> access_mask then Some (- 1, env)
      else if iid \<noteq> ANJAY_ID_INVALID \<and> access_mask AND ACCESS_MASK_CREATE \<noteq> 0 then Some (- 1, env)
      else if iid = ANJAY_ID_INVALID \<and> access_mask AND ACCESS_MASK_CREATE \<noteq> access_mask then Some (- 1, env)
      else set_acl objs oid iid ssid access_mask sched1 sched2 env)"

definition anjay_access_control_purge ::
    "int \<Rightarrow> access_control \<times> scheduled_notify \<times> allocs \<Rightarrow> access_control \<times> scheduled_notify \<times> allocs" where
  "anjay_access_control_purge sched = (\<lambda>(ac, sn, al).
     let ac = mark_modified (ac\<lparr>ac_current := cleared_state\<rparr>);
         ac = ac\<lparr>ac_last_accessed := None, ac_needs_validation := False\<rparr>
     in case notify_instances_changed sn OID_ACCESS_CONTROL al sched of (_, sn, al) \<Rightarrow> (ac, sn, al))"

definition anjay_access_control_is_modified :: "access_control \<Rightarrow> bool" where
  "anjay_access_control_is_modified ac =
     (if ac_in_transaction ac then as_modified_since_persist (ac_saved_state ac)
      else as_modified_since_persist (ac_current ac))"

end
