(* ===== verification/Ac_Object_Ok.thy ===== *)
theory Ac_Object_Ok
  imports Ac_Object
begin

text \<open>
  The invariant of the Access Control object, and the result of each handler in terms of the lookup of
  an instance by its ID.
\<close>

section \<open>The invariant\<close>

definition acl_ok :: "acl_entry list \<Rightarrow> bool" where
  "acl_ok acl \<longleftrightarrow> ascending ae_ssid acl \<and> (\<forall>e \<in> set acl. ae_mask e < 65536 \<and> ae_ssid e < ANJAY_ID_INVALID)"

definition inst_ok :: "ac_instance \<Rightarrow> bool" where
  "inst_ok i \<longleftrightarrow> ai_iid i < ANJAY_ID_INVALID \<and> at_oid (ai_target i) < 65536 \<and>
     - 1 \<le> at_iid (ai_target i) \<and> at_iid (ai_target i) < 65536 \<and> ai_owner i < 65536 \<and>
     (ai_acl i \<noteq> [] \<longrightarrow> ai_has_acl i) \<and> acl_ok (ai_acl i)"

definition insts_ok :: "ac_instance list \<Rightarrow> bool" where
  "insts_ok is \<longleftrightarrow> ascending ai_iid is \<and> distinct (map ai_addr is) \<and> (\<forall>i \<in> set is. inst_ok i)"

definition ac_ok :: "access_control \<Rightarrow> bool" where
  "ac_ok ac \<longleftrightarrow> insts_ok (instances ac) \<and> insts_ok (as_instances (ac_saved_state ac)) \<and>
     (\<forall>p. ac_last_accessed ac = Some p \<longrightarrow> p \<in> ai_addr ` set (instances ac)) \<and>
     (\<not> ac_in_transaction ac \<longrightarrow> ac_saved_state ac = cleared_state)"

lemma ac_okD:
  assumes "ac_ok ac"
  shows "insts_ok (instances ac)" and "insts_ok (as_instances (ac_saved_state ac))"
    and "ac_last_accessed ac = Some p \<Longrightarrow> p \<in> ai_addr ` set (instances ac)"
    and "\<not> ac_in_transaction ac \<Longrightarrow> ac_saved_state ac = cleared_state"
  using assms by (simp_all add: ac_ok_def)

lemma insts_okD:
  assumes "insts_ok is"
  shows "ascending ai_iid is" and "distinct (map ai_addr is)" and "i \<in> set is \<Longrightarrow> inst_ok i"
  using assms by (simp_all add: insts_ok_def)

lemma insts_ok_Cons:
  "insts_ok (i # is) \<longleftrightarrow> inst_ok i \<and> (\<forall>j \<in> set is. ai_iid i < ai_iid j \<and> ai_addr j \<noteq> ai_addr i) \<and> insts_ok is"
  by (auto simp: insts_ok_def image_iff; metis)

lemma insts_ok_Nil [simp]: "insts_ok []"
  by (simp add: insts_ok_def)

lemma cleared_insts [simp]: "as_instances cleared_state = []"
  by (simp add: cleared_state_def)

section \<open>Lookup by Instance ID\<close>

definition inst_lookup :: "ac_instance list \<Rightarrow> nat \<Rightarrow> ac_instance option" where
  "inst_lookup is iid = find (\<lambda>i. ai_iid i = iid) is"

definition inst_set :: "ac_instance list \<Rightarrow> nat \<Rightarrow> (ac_instance \<Rightarrow> ac_instance) \<Rightarrow> ac_instance list" where
  "inst_set is iid f = map (\<lambda>i. if ai_iid i = iid then f i else i) is"

definition cached :: "access_control \<Rightarrow> nat \<Rightarrow> access_control" where
  "cached ac iid = ac\<lparr>ac_last_accessed := map_option ai_addr (inst_lookup (instances ac) iid)\<rparr>"

lemma inst_lookup_Nil [simp]: "inst_lookup [] iid = None"
  by (simp add: inst_lookup_def)

lemma inst_lookup_Cons [simp]:
  "inst_lookup (i # is) iid = (if ai_iid i = iid then Some i else inst_lookup is iid)"
  by (simp add: inst_lookup_def)

lemma inst_lookup_Some: "inst_lookup is iid = Some i \<Longrightarrow> i \<in> set is \<and> ai_iid i = iid"
  by (induction "is") (auto split: if_splits)

lemma inst_lookup_None: "inst_lookup is iid = None \<longleftrightarrow> iid \<notin> ai_iid ` set is"
  by (induction "is") auto

lemma inst_lookup_mem:
  assumes "insts_ok is" and "i \<in> set is"
  shows "inst_lookup is (ai_iid i) = Some i"
  using assms by (induction "is") (auto simp: insts_ok_Cons)

lemma find_iid_loop_lookup: "insts_ok is \<Longrightarrow> find_iid_loop iid is = map_option ai_addr (inst_lookup is iid)"
proof (induction "is")
  case (Cons i "is")
  have "iid \<le> ai_iid i \<Longrightarrow> ai_iid i \<noteq> iid \<Longrightarrow> inst_lookup is iid = None"
    using Cons.prems by (force simp: insts_ok_Cons inst_lookup_None)
  with Cons show ?case by (auto simp: insts_ok_Cons)
qed simp

lemma inst_at_lookup:
  assumes "insts_ok is" and "inst_lookup is iid = Some i"
  shows "inst_at is (ai_addr i) = Some i"
  using assms by (induction "is") (auto simp: insts_ok_Cons dest: inst_lookup_Some split: if_splits)

lemma inst_at_mem:
  assumes "insts_ok is" and "p \<in> ai_addr ` set is"
  shows "\<exists>i. inst_at is p = Some i \<and> inst_lookup is (ai_iid i) = Some i \<and> ai_addr i = p"
  using assms
proof (induction "is")
  case (Cons i "is")
  show ?case
  proof (cases "ai_addr i = p")
    case False
    with Cons obtain j where j: "inst_at is p = Some j" "inst_lookup is (ai_iid j) = Some j" "ai_addr j = p"
      by (auto simp: insts_ok_Cons)
    with Cons.prems(1) have "ai_iid i \<noteq> ai_iid j" by (auto simp: insts_ok_Cons dest: inst_lookup_Some)
    with j False show ?thesis by auto
  qed simp
qed simp

lemma inst_update_lookup:
  assumes "insts_ok is" and "inst_lookup is iid = Some i"
  shows "inst_update is (ai_addr i) f = inst_set is iid f"
  using assms
proof (induction "is")
  case (Cons j "is")
  show ?case
  proof (cases "ai_iid j = iid")
    case True
    with Cons.prems have "i = j" and "\<forall>k \<in> set is. ai_iid k \<noteq> iid" by (auto simp: insts_ok_Cons)
    then have "map (\<lambda>i. if ai_iid i = iid then f i else i) is = is" by (auto intro: map_idI)
    with True \<open>i = j\<close> show ?thesis by (simp add: inst_set_def)
  next
    case False
    with Cons.prems have "i \<in> set is" by (auto dest: inst_lookup_Some)
    with Cons False show ?thesis by (auto simp: insts_ok_Cons inst_set_def)
  qed
qed simp

lemma insts_ok_set:
  assumes ok: "insts_ok is"
    and f: "\<And>i. inst_ok i \<Longrightarrow> inst_ok (f i)" "\<And>i. ai_iid (f i) = ai_iid i" "\<And>i. ai_addr (f i) = ai_addr i"
  shows "insts_ok (inst_set is iid f)"
proof -
  have "map ai_addr (inst_set is iid f) = map ai_addr is" "map ai_iid (inst_set is iid f) = map ai_iid is"
    by (simp_all add: inst_set_def f)
  moreover have "\<forall>i \<in> set (inst_set is iid f). inst_ok i"
    using insts_okD(3) [OF ok] f(1) by (auto simp: inst_set_def)
  moreover have asc: "ascending ai_iid js \<longleftrightarrow> ascending (\<lambda>i. i) (map ai_iid js)" for js
    by (simp add: ascending_map o_def)
  have "ascending ai_iid (inst_set is iid f)"
    using insts_okD(1) [OF ok] by (simp add: asc calculation(2) del: ascending_map)
  ultimately show ?thesis using ok by (simp add: insts_ok_def)
qed

lemma inst_set_addrs:
  assumes "\<And>i. ai_addr (f i) = ai_addr i"
  shows "ai_addr ` set (inst_set is iid f) = ai_addr ` set is"
proof -
  have "map ai_addr (inst_set is iid f) = map ai_addr is" by (simp add: inst_set_def assms)
  then show ?thesis by (metis list.set_map)
qed

lemma inst_lookup_set:
  assumes "\<And>i. ai_iid (f i) = ai_iid i"
  shows "inst_lookup (inst_set is iid f) j = (if j = iid then map_option f (inst_lookup is iid) else inst_lookup is j)"
  using assms by (induction "is") (auto simp: inst_set_def)

section \<open>Handlers\<close>

lemma find_instance_eq:
  assumes ok: "ac_ok ac"
  shows "find_instance ac iid = Some (map_option ai_addr (inst_lookup (instances ac) iid), cached ac iid)"
proof (cases "ac_last_accessed ac")
  case None
  then show ?thesis
    using find_iid_loop_lookup [OF ac_okD(1) [OF ok]] by (simp add: find_instance_def cached_def)
next
  case (Some p)
  with inst_at_mem [OF ac_okD(1) [OF ok] ac_okD(3) [OF ok Some]] obtain i where
    "inst_at (instances ac) p = Some i" "inst_lookup (instances ac) (ai_iid i) = Some i" "ai_addr i = p"
    by blast
  with Some show ?thesis
    using find_iid_loop_lookup [OF ac_okD(1) [OF ok]] by (auto simp: find_instance_def cached_def)
qed

lemma cached_simps [simp]:
  "ac_current (cached ac iid) = ac_current ac" "ac_saved_state (cached ac iid) = ac_saved_state ac"
  "ac_in_transaction (cached ac iid) = ac_in_transaction ac"
  "ac_needs_validation (cached ac iid) = ac_needs_validation ac"
  by (simp_all add: cached_def)

lemma ac_ok_cached:
  assumes "ac_ok ac"
  shows "ac_ok (cached ac iid)"
  using assms by (auto simp: ac_ok_def cached_def dest!: inst_lookup_Some)

text \<open>A change of one instance that keeps its ID and address, through the pointer found before.\<close>

lemma update_instance_eq:
  assumes "ac_ok ac" and "inst_lookup (instances ac) iid = Some i"
  shows "update_instance (cached ac iid) (ai_addr i) f = set_instances (cached ac iid) (inst_set (instances ac) iid f)"
  using inst_update_lookup [OF ac_okD(1) [OF assms(1)] assms(2)] by (simp add: update_instance_def)

lemma set_instances_simps [simp]:
  "instances (set_instances ac insts) = insts" "ac_saved_state (set_instances ac insts) = ac_saved_state ac"
  "ac_in_transaction (set_instances ac insts) = ac_in_transaction ac"
  "ac_last_accessed (set_instances ac insts) = ac_last_accessed ac"
  "ac_needs_validation (set_instances ac insts) = ac_needs_validation ac"
  "instances (mark_modified ac) = instances ac" "ac_saved_state (mark_modified ac) = ac_saved_state ac"
  "ac_in_transaction (mark_modified ac) = ac_in_transaction ac"
  "ac_last_accessed (mark_modified ac) = ac_last_accessed ac"
  "ac_needs_validation (mark_modified ac) = ac_needs_validation ac"
  by (simp_all add: set_instances_def mark_modified_def)

lemma ac_ok_change:
  assumes ok: "ac_ok ac" and look: "inst_lookup (instances ac) iid = Some i"
    and f: "\<And>i. inst_ok i \<Longrightarrow> inst_ok (f i)" "\<And>i. ai_iid (f i) = ai_iid i" "\<And>i. ai_addr (f i) = ai_addr i"
  shows "ac_ok (touch_instance (cached ac iid) (ai_addr i) f)"
proof -
  have "insts_ok (inst_set (instances ac) iid f)" using insts_ok_set [OF ac_okD(1) [OF ok] f] .
  moreover have "touch_instance (cached ac iid) (ai_addr i) f =
      mark_modified ((set_instances (cached ac iid) (inst_set (instances ac) iid f))\<lparr>ac_needs_validation := True\<rparr>)"
    by (simp add: touch_instance_def update_instance_eq [OF ok look])
  moreover have "ai_addr ` set (inst_set (instances ac) iid f) = ai_addr ` set (instances ac)"
    by (rule inst_set_addrs) (rule f(3))
  ultimately show ?thesis
    using ac_ok_cached [OF ok, of iid] by (simp add: ac_ok_def mark_modified_def set_instances_def)
qed

text \<open>The state after a change of one instance.\<close>

definition touched :: "access_control \<Rightarrow> nat \<Rightarrow> (ac_instance \<Rightarrow> ac_instance) \<Rightarrow> access_control" where
  "touched ac iid f =
     mark_modified ((set_instances (cached ac iid) (inst_set (instances ac) iid f))\<lparr>ac_needs_validation := True\<rparr>)"

lemma touch_instance_eq:
  assumes "ac_ok ac" and "inst_lookup (instances ac) iid = Some i"
  shows "touch_instance (cached ac iid) (ai_addr i) f = touched ac iid f"
  by (simp add: touch_instance_def touched_def update_instance_eq [OF assms])

lemma touched_simps [simp]:
  "instances (touched ac iid f) = inst_set (instances ac) iid f"
  "ac_saved_state (touched ac iid f) = ac_saved_state ac"
  "ac_in_transaction (touched ac iid f) = ac_in_transaction ac"
  "ac_needs_validation (touched ac iid f)"
  by (simp_all add: touched_def set_instances_def mark_modified_def)

lemma ac_ok_touched:
  assumes "ac_ok ac" and "inst_lookup (instances ac) iid = Some i"
    and "\<And>i. inst_ok i \<Longrightarrow> inst_ok (f i)" "\<And>i. ai_iid (f i) = ai_iid i" "\<And>i. ai_addr (f i) = ai_addr i"
  shows "ac_ok (touched ac iid f)"
  using ac_ok_change [OF assms] touch_instance_eq [OF assms(1,2)] by simp

lemma ac_instance_reset_eq:
  assumes ok: "ac_ok ac"
  shows "ac_instance_reset ac iid =
    Some (case inst_lookup (instances ac) iid of
            None \<Rightarrow> (ANJAY_ERR_NOT_FOUND, cached ac iid)
          | Some i \<Rightarrow> (0, touched ac iid (\<lambda>i. i\<lparr>ai_acl := [], ai_has_acl := False, ai_owner := 0\<rparr>)))"
  by (cases "inst_lookup (instances ac) iid")
    (simp_all add: ac_instance_reset_def find_instance_eq [OF ok] touched_def update_instance_eq [OF ok])

lemma ac_list_resources_eq:
  assumes ok: "ac_ok ac"
  shows "ac_list_resources ac iid =
    Some (0, [(RID_AC_OID, RES_R, RES_PRESENT), (RID_AC_OIID, RES_R, RES_PRESENT),
              (RID_AC_ACL, RES_RWM,
               if (case inst_lookup (instances ac) iid of None \<Rightarrow> False | Some i \<Rightarrow> ai_has_acl i) then RES_PRESENT
               else RES_ABSENT),
              (RID_AC_OWNER, RES_RW, RES_PRESENT)], cached ac iid)"
  by (cases "inst_lookup (instances ac) iid")
    (simp_all add: ac_list_resources_def find_instance_eq [OF ok] inst_at_lookup [OF ac_okD(1) [OF ok]])

text \<open>Entries of an access list by server.\<close>

definition acl_mask :: "acl_entry list \<Rightarrow> nat \<Rightarrow> nat option" where
  "acl_mask acl ssid = map_of (map (\<lambda>e. (ae_ssid e, ae_mask e)) acl) ssid"

lemma acl_mask_simps [simp]:
  "acl_mask [] ssid = None"
  "acl_mask (e # es) ssid = (if ae_ssid e = ssid then Some (ae_mask e) else acl_mask es ssid)"
  by (simp_all add: acl_mask_def)

lemma acl_mask_None: "acl_mask acl ssid = None \<longleftrightarrow> ssid \<notin> ae_ssid ` set acl"
  by (induction acl) auto

lemma find_acl_entry_mask:
  "ascending ae_ssid acl \<Longrightarrow> map_option ae_mask (find_acl_entry acl ssid) = acl_mask acl ssid"
proof (induction acl)
  case (Cons e es)
  have "ssid \<le> ae_ssid e \<Longrightarrow> ae_ssid e \<noteq> ssid \<Longrightarrow> acl_mask es ssid = None"
    using Cons.prems by (force simp: acl_mask_None)
  with Cons show ?case by auto
qed simp

lemma ac_resource_read_eq:
  assumes ok: "ac_ok ac"
    and rid: "rid \<in> {RID_AC_OID, RID_AC_OIID, RID_AC_OWNER} \<and> riid = ANJAY_ID_INVALID \<or> rid = RID_AC_ACL"
  shows "ac_resource_read ac iid rid riid =
    Some (case inst_lookup (instances ac) iid of
            None \<Rightarrow> Inl ANJAY_ERR_NOT_FOUND
          | Some i \<Rightarrow>
              if rid = RID_AC_OID then Inr (int (at_oid (ai_target i)))
              else if rid = RID_AC_OIID then Inr (at_iid (ai_target i))
              else if rid = RID_AC_OWNER then Inr (int (ai_owner i))
              else (case acl_mask (ai_acl i) riid of None \<Rightarrow> Inl ANJAY_ERR_NOT_FOUND | Some m \<Rightarrow> Inr (int m)),
          cached ac iid)"
proof (cases "inst_lookup (instances ac) iid")
  case None
  then show ?thesis by (simp add: ac_resource_read_def find_instance_eq [OF ok])
next
  case (Some i)
  then have "inst_ok i" using insts_okD(3) [OF ac_okD(1) [OF ok]] inst_lookup_Some by blast
  then have "ascending ae_ssid (ai_acl i)" by (simp add: inst_ok_def acl_ok_def)
  note m = find_acl_entry_mask [OF this, of riid]
  show ?thesis
  proof (cases "rid = RID_AC_ACL")
    case True
    with Some show ?thesis
      by (cases "find_acl_entry (ai_acl i) riid")
        (simp_all add: ac_resource_read_def find_instance_eq [OF ok] inst_at_lookup [OF ac_okD(1) [OF ok] Some]
          m [symmetric])
  next
    case False
    with rid have "riid = ANJAY_ID_INVALID" "rid = RID_AC_OID \<or> rid = RID_AC_OIID \<or> rid = RID_AC_OWNER"
      by auto
    with Some show ?thesis
      by (elim disjE) (simp_all add: ac_resource_read_def find_instance_eq [OF ok] inst_at_lookup [OF ac_okD(1) [OF ok] Some])
  qed
qed

lemma write_acl_entry_correct:
  assumes "acl_ok acl" "write_acl_entry acl ssid msk al = (r, acl', al')" "msk < 65536" "ssid < ANJAY_ID_INVALID"
  shows "r = 0 \<and> acl_ok acl' \<and> acl' \<noteq> [] \<and> acl_mask acl' = (acl_mask acl)(ssid \<mapsto> msk) \<or>
    r = ANJAY_ERR_INTERNAL \<and> acl' = acl"
  using assms
proof (induction acl arbitrary: acl')
  case Nil
  then show ?case
    by (fastforce simp: acl_ok_def fun_eq_iff split: prod.splits option.splits)
next
  case (Cons e es)
  have es: "acl_ok es" and gt: "\<forall>x \<in> set es. ae_ssid e < ae_ssid x"
    and e: "ae_mask e < 65536" "ae_ssid e < ANJAY_ID_INVALID"
    using Cons.prems(1) by (auto simp: acl_ok_def)
  show ?case
  proof (cases "ssid \<le> ae_ssid e")
    case True
    have less: "ae_ssid e \<noteq> ssid \<Longrightarrow> \<forall>x \<in> set es. ssid < ae_ssid x" using True gt by auto
    show ?thesis
      using Cons.prems True less e by (auto simp: acl_ok_def fun_eq_iff split: prod.splits option.splits if_splits)
  next
    case False
    with Cons.prems(2) obtain ys where ys: "write_acl_entry es ssid msk al = (r, ys, al')" "acl' = e # ys"
      by (auto split: prod.splits)
    from Cons.IH [OF es ys(1) Cons.prems(3,4)] show ?thesis
    proof
      assume a: "r = 0 \<and> acl_ok ys \<and> ys \<noteq> [] \<and> acl_mask ys = (acl_mask es)(ssid \<mapsto> msk)"
      have "x \<in> set ys \<Longrightarrow> ae_ssid e < ae_ssid x" for x
      proof -
        assume "x \<in> set ys"
        then have "acl_mask ys (ae_ssid x) \<noteq> None" by (auto simp: acl_mask_None)
        with a have "ae_ssid x = ssid \<or> acl_mask es (ae_ssid x) \<noteq> None" by (auto split: if_splits)
        with False gt show "ae_ssid e < ae_ssid x" by (auto simp: acl_mask_None)
      qed
      with a ys(2) e False show ?thesis by (auto simp: acl_ok_def fun_eq_iff)
    next
      assume "r = ANJAY_ERR_INTERNAL \<and> ys = es"
      with ys(2) show ?thesis by simp
    qed
  qed
qed

text \<open>
  The effect of a successful write on one instance, as a function of the value that was read, and the
  values that are refused.
\<close>

definition write_value_ok :: "nat \<Rightarrow> int \<Rightarrow> bool" where
  "write_value_ok rid v \<longleftrightarrow>
     (if rid = RID_AC_OID then target_oid_valid v
      else if rid = RID_AC_OIID then 0 \<le> v \<and> v \<le> 65535
      else if rid = RID_AC_OWNER then 0 < v \<and> v \<le> 65535
      else True)"

definition write_single :: "nat \<Rightarrow> int \<Rightarrow> ac_instance \<Rightarrow> ac_instance" where
  "write_single rid v i =
     (if rid = RID_AC_OID then i\<lparr>ai_target := (ai_target i)\<lparr>at_oid := nat v\<rparr>\<rparr>
      else if rid = RID_AC_OIID then i\<lparr>ai_target := (ai_target i)\<lparr>at_iid := v\<rparr>\<rparr>
      else i\<lparr>ai_owner := nat v\<rparr>)"

lemma write_single_keeps [simp]:
  "ai_iid (write_single rid v i) = ai_iid i" "ai_addr (write_single rid v i) = ai_addr i"
  by (simp_all add: write_single_def)

lemma inst_ok_write_single:
  "inst_ok i \<Longrightarrow> write_value_ok rid v \<Longrightarrow> rid \<in> {RID_AC_OID, RID_AC_OIID, RID_AC_OWNER} \<Longrightarrow>
   inst_ok (write_single rid v i)"
  by (auto simp: inst_ok_def write_single_def write_value_ok_def target_oid_valid_def)

lemma ac_resource_write_single:
  assumes ok: "ac_ok ac" and rid: "rid \<in> {RID_AC_OID, RID_AC_OIID, RID_AC_OWNER}"
  shows "ac_resource_write ac iid rid ANJAY_ID_INVALID ctx al =
    Some (case inst_lookup (instances ac) iid of
            None \<Rightarrow> (ANJAY_ERR_NOT_FOUND, cached ac iid, al)
          | Some i \<Rightarrow>
              (case get_i32 ctx of
                 Inl e \<Rightarrow> (e, cached ac iid, al)
               | Inr v \<Rightarrow> if write_value_ok rid v then (0, touched ac iid (write_single rid v), al)
                          else (ANJAY_ERR_BAD_REQUEST, cached ac iid, al)))"
proof (cases "inst_lookup (instances ac) iid")
  case None
  then show ?thesis by (simp add: ac_resource_write_def find_instance_eq [OF ok])
next
  case (Some i)
  note base = ac_resource_write_def find_instance_eq [OF ok] inst_at_lookup [OF ac_okD(1) [OF ok] Some]
    touch_instance_eq [OF ok Some]
  have fs: "write_single RID_AC_OID v = (\<lambda>i. i\<lparr>ai_target := (ai_target i)\<lparr>at_oid := nat v\<rparr>\<rparr>)"
    "write_single RID_AC_OIID v = (\<lambda>i. i\<lparr>ai_target := (ai_target i)\<lparr>at_iid := v\<rparr>\<rparr>)"
    "write_single RID_AC_OWNER v = (\<lambda>i. i\<lparr>ai_owner := nat v\<rparr>)" for v
    by (simp_all add: write_single_def fun_eq_iff)
  from rid show ?thesis
    using Some by (elim insertE; cases "get_i32 ctx") (simp_all add: base write_value_ok_def fs fs(2) [simplified] not_le not_less)
qed

lemma ac_resource_write_acl:
  assumes ok: "ac_ok ac" and riid: "riid < ANJAY_ID_INVALID"
  shows "\<exists>r ac' al'. ac_resource_write ac iid RID_AC_ACL riid ctx al = Some (r, ac', al') \<and>
    (r = 0 \<and> (\<exists>i v acl. inst_lookup (instances ac) iid = Some i \<and> get_i32 ctx = Inr v \<and> acl_ok acl \<and> acl \<noteq> [] \<and>
        acl_mask acl = (acl_mask (ai_acl i))(riid \<mapsto> nat (v mod 65536)) \<and>
        ac' = touched ac iid (\<lambda>i. i\<lparr>ai_acl := acl, ai_has_acl := True\<rparr>)) \<or>
     r \<noteq> 0 \<and> ac' = cached ac iid)"
proof (cases "inst_lookup (instances ac) iid")
  case None
  then show ?thesis by (simp add: ac_resource_write_def find_instance_eq [OF ok])
next
  case (Some i)
  note base = ac_resource_write_def find_instance_eq [OF ok] inst_at_lookup [OF ac_okD(1) [OF ok] Some]
    touch_instance_eq [OF ok Some] write_to_acl_array_def
  have i: "acl_ok (ai_acl i)"
    using insts_okD(3) [OF ac_okD(1) [OF ok]] inst_lookup_Some [OF Some] by (auto simp: inst_ok_def)
  show ?thesis
  proof (cases "get_i32 ctx")
    case (Inl e)
    with Some show ?thesis by (simp add: base)
  next
    case (Inr v)
    obtain r acl al' where w: "write_acl_entry (ai_acl i) riid (nat (v mod 65536)) al = (r, acl, al')"
      by (cases "write_acl_entry (ai_acl i) riid (nat (v mod 65536)) al") auto
    have "nat (v mod 65536) < 65536" by (simp add: nat_less_iff)
    note wc = write_acl_entry_correct [OF i w this riid]
    show ?thesis
    proof (cases "r = 0")
      case True
      with wc have acl: "acl_ok acl" "acl \<noteq> []" "acl_mask acl = (acl_mask (ai_acl i))(riid \<mapsto> nat (v mod 65536))"
        by auto
      have "ac_resource_write ac iid RID_AC_ACL riid ctx al =
          Some (0, touched ac iid (\<lambda>i. i\<lparr>ai_acl := acl, ai_has_acl := True\<rparr>), al')"
        using Some Inr w True by (simp add: base)
      with Some Inr acl show ?thesis by blast
    next
      case False
      with Some Inr w show ?thesis by (simp add: base)
    qed
  qed
qed

lemma ac_resource_reset_eq:
  assumes ok: "ac_ok ac"
  shows "ac_resource_reset ac iid RID_AC_ACL =
    Some (case inst_lookup (instances ac) iid of
            None \<Rightarrow> (ANJAY_ERR_NOT_FOUND, cached ac iid)
          | Some i \<Rightarrow> (0, touched ac iid (\<lambda>i. i\<lparr>ai_acl := [], ai_has_acl := True\<rparr>)))"
  by (cases "inst_lookup (instances ac) iid")
    (simp_all add: ac_resource_reset_def find_instance_eq [OF ok] touch_instance_eq [OF ok])

lemma ac_list_resource_instances_eq:
  assumes ok: "ac_ok ac"
  shows "ac_list_resource_instances ac iid RID_AC_ACL =
    Some (case inst_lookup (instances ac) iid of
            None \<Rightarrow> (ANJAY_ERR_NOT_FOUND, [], cached ac iid)
          | Some i \<Rightarrow> (0, map ae_ssid (ai_acl i), cached ac iid))"
  by (cases "inst_lookup (instances ac) iid")
    (simp_all add: ac_list_resource_instances_def find_instance_eq [OF ok] inst_at_lookup [OF ac_okD(1) [OF ok]])

section \<open>Adding instances\<close>

text \<open>The least ID from \<open>p\<close> on that is free, and the insertion at the place of an ID.\<close>

fun free_iid :: "nat \<Rightarrow> ac_instance list \<Rightarrow> nat" where
  "free_iid p [] = p"
| "free_iid p (i # is) = (if p < ai_iid i then p else free_iid (p + 1) is)"

fun insert_inst :: "ac_instance \<Rightarrow> ac_instance list \<Rightarrow> ac_instance list" where
  "insert_inst x [] = [x]"
| "insert_inst x (i # is) = (if ai_iid x < ai_iid i then x # i # is else i # insert_inst x is)"

lemma set_insert_inst [simp]: "set (insert_inst x is) = insert x (set is)"
  by (induction "is") auto

lemma insert_inst_lookup:
  assumes "insts_ok is" and "ai_iid x \<notin> ai_iid ` set is"
  shows "inst_lookup (insert_inst x is) j = (if j = ai_iid x then Some x else inst_lookup is j)"
  using assms by (induction "is") (auto simp: insts_ok_Cons)

lemma insts_ok_insert:
  assumes "insts_ok is" and "ai_iid x \<notin> ai_iid ` set is" and "ai_addr x \<notin> ai_addr ` set is" and "inst_ok x"
  shows "insts_ok (insert_inst x is)"
  using assms
proof (induction "is")
  case (Cons i "is")
  have i: "inst_ok i" "\<forall>j \<in> set is. ai_iid i < ai_iid j \<and> ai_addr j \<noteq> ai_addr i" "insts_ok is"
    using Cons.prems(1) by (simp_all add: insts_ok_Cons)
  have ne: "ai_iid x \<noteq> ai_iid i" "ai_addr x \<noteq> ai_addr i" using Cons.prems by auto
  show ?case
  proof (cases "ai_iid x < ai_iid i")
    case True
    then have "\<forall>j \<in> set is. ai_iid x < ai_iid j" using i(2) by force
    moreover have "\<forall>j \<in> set is. ai_addr j \<noteq> ai_addr x"
      using Cons.prems(3) by (metis image_eqI list.set_intros(2))
    ultimately show ?thesis using True i ne Cons.prems(4) by (auto simp: insts_ok_Cons)
  next
    case False
    have "insts_ok (insert_inst x is)" using Cons.IH i(3) Cons.prems by simp
    with False ne i show ?thesis by (auto simp: insts_ok_Cons)
  qed
qed (simp add: insts_ok_Cons)

lemma free_iid_least:
  assumes "insts_ok is" and "\<forall>i \<in> set is. p \<le> ai_iid i"
  shows "p \<le> free_iid p is \<and> free_iid p is \<notin> ai_iid ` set is \<and>
    (\<forall>j. p \<le> j \<longrightarrow> j < free_iid p is \<longrightarrow> j \<in> ai_iid ` set is)"
  using assms
proof (induction "is" arbitrary: p)
  case (Cons i "is")
  show ?case
  proof (cases "p < ai_iid i")
    case True
    with Cons.prems show ?thesis by (auto simp: insts_ok_Cons)
  next
    case False
    with Cons.prems have p: "p = ai_iid i" by auto
    with Cons.prems have "\<forall>j \<in> set is. p + 1 \<le> ai_iid j" by (auto simp: insts_ok_Cons)
    with Cons.IH [of "p + 1"] Cons.prems have
      "p + 1 \<le> free_iid (p + 1) is \<and> free_iid (p + 1) is \<notin> ai_iid ` set is \<and>
       (\<forall>j. p + 1 \<le> j \<longrightarrow> j < free_iid (p + 1) is \<longrightarrow> j \<in> ai_iid ` set is)"
      by (simp add: insts_ok_Cons)
    with False p show ?thesis by (auto simp: Suc_le_eq)
  qed
qed simp

declare add_without_iids_loop.simps [simp del]

lemma add_loop_done: "add_without_iids_loop insts [] p q al = Some (0, insts, [], q, al)"
  by (simp add: add_without_iids_loop.simps)

lemma add_without_iids_loop_correct:
  assumes "insts_ok is" and "\<forall>i \<in> set is. p \<le> ai_iid i" and "ai_iid new = ANJAY_ID_INVALID" and "p \<le> ANJAY_ID_INVALID"
  shows "add_without_iids_loop is [new] p q al =
    (let n = free_iid p is in
       if n = ANJAY_ID_INVALID then Some (- 1, is, [new], q, al)
       else do {
         (r, q, al) \<leftarrow> notify_created_opt q n al;
         if r \<noteq> 0 then Some (r, is, [new], q, al)
         else Some (0, insert_inst (new\<lparr>ai_iid := n\<rparr>) is, [], q, al) })"
  using assms
proof (induction "is" arbitrary: p)
  case Nil
  then show ?case
    by (subst add_without_iids_loop.simps)
      (auto simp: Let_def add_loop_done intro!: Option.bind_cong)
next
  case (Cons i "is")
  show ?case
  proof (cases "p < ai_iid i")
    case True
    with Cons.prems have "p < ANJAY_ID_INVALID" by (auto simp: insts_ok_Cons inst_ok_def)
    with True Cons.prems show ?thesis
      by (subst add_without_iids_loop.simps) (auto simp: Let_def add_loop_done intro!: Option.bind_cong)
  next
    case False
    with Cons.prems have p: "p = ai_iid i" by auto
    with Cons.prems have lt: "p < ANJAY_ID_INVALID" and ge: "\<forall>j \<in> set is. p + 1 \<le> ai_iid j"
      and ok: "insts_ok is"
      by (auto simp: insts_ok_Cons inst_ok_def)
    have le: "p + 1 \<le> ANJAY_ID_INVALID" using lt by simp
    note ih = Cons.IH [OF ok ge Cons.prems(3) le]
    have least: "p + 1 \<le> free_iid (p + 1) is" using free_iid_least [OF ok ge] by simp
    have step: "add_without_iids_loop (i # is) [new] p q al = do {
        (r, tail, to_move, q, al) \<leftarrow> add_without_iids_loop is [new] (p + 1) q al;
        Some (r, i # tail, to_move, q, al) }"
      using p lt Cons.prems(3) by (subst add_without_iids_loop.simps) simp
    have free: "free_iid p (i # is) = free_iid (p + 1) is" using p by simp
    have ins: "insert_inst (new\<lparr>ai_iid := free_iid (p + 1) is\<rparr>) (i # is) =
        i # insert_inst (new\<lparr>ai_iid := free_iid (p + 1) is\<rparr>) is"
      using least p by simp
    show ?thesis
    proof (cases "free_iid (p + 1) is = ANJAY_ID_INVALID")
      case True
      then show ?thesis by (simp only: step ih free) simp
    next
      case False
      then show ?thesis
        by (simp only: step ih free Let_def if_False ins)
          (cases "notify_created_opt q (free_iid (p + 1) is) al"; simp split: prod.splits)
    qed
  qed
qed

lemma insertion_point_insert:
  assumes "insts_ok is"
  shows "insertion_point iid is = None \<longleftrightarrow> iid \<in> ai_iid ` set is"
    and "insertion_point iid is = Some (before, after) \<Longrightarrow> ai_iid x = iid \<Longrightarrow> before @ x # after = insert_inst x is"
proof -
  show "insertion_point iid is = None \<longleftrightarrow> iid \<in> ai_iid ` set is"
    using assms by (induction "is") (auto simp: insts_ok_Cons split: option.splits)
  show "insertion_point iid is = Some (before, after) \<Longrightarrow> ai_iid x = iid \<Longrightarrow> before @ x # after = insert_inst x is"
    using assms
  proof (induction "is" arbitrary: before)
    case (Cons i "is")
    then show ?case by (cases "ai_iid i = iid \<or> iid < ai_iid i") (auto simp: insts_ok_Cons split: option.splits prod.splits)
  qed simp
qed

text \<open>
  \<open>ac_add_instance\<close>: the ID that is used, and the result. Without a free ID, with a taken one, or when
  the change cannot be queued, nothing is added.
\<close>

definition chosen_iid :: "ac_instance list \<Rightarrow> ac_instance \<Rightarrow> nat" where
  "chosen_iid is new = (if ai_iid new = ANJAY_ID_INVALID then free_iid 0 is else ai_iid new)"

lemma ac_add_instance_eq:
  assumes ok: "insts_ok (instances ac)"
  shows "ac_add_instance ac new q al =
    (let n = chosen_iid (instances ac) new in
       if n = ANJAY_ID_INVALID \<or> n \<in> ai_iid ` set (instances ac) then Some (- 1, ac, q, al)
       else do {
         (r, q, al) \<leftarrow> notify_created_opt q n al;
         Some (if r \<noteq> 0 then (r, ac, q, al)
               else (0, set_instances ac (insert_inst (new\<lparr>ai_iid := n\<rparr>) (instances ac)), q, al)) })"
proof (cases "ai_iid new = ANJAY_ID_INVALID")
  case True
  have free: "free_iid 0 (instances ac) \<notin> ai_iid ` set (instances ac)"
    using free_iid_least [OF ok, of 0] by simp
  have same: "set_instances ac (instances ac) = ac" by (simp add: set_instances_def)
  show ?thesis
    using True free add_without_iids_loop_correct [OF ok, of 0 new q al]
    by (cases "notify_created_opt q (free_iid 0 (instances ac)) al")
      (auto simp: ac_add_instance_def chosen_iid_def Let_def same split: prod.splits)
next
  case False
  show ?thesis
  proof (cases "insertion_point (ai_iid new) (instances ac)")
    case None
    with False show ?thesis
      using insertion_point_insert(1) [OF ok, of "ai_iid new"] by (simp add: ac_add_instance_def chosen_iid_def Let_def)
  next
    case (Some t)
    obtain before after where t: "t = (before, after)" by (cases t)
    have "new\<lparr>ai_iid := ai_iid new\<rparr> = new" by simp
    with False Some t show ?thesis
      using insertion_point_insert [OF ok, of "ai_iid new"]
      by (cases "notify_created_opt q (ai_iid new) al")
        (auto simp: ac_add_instance_def chosen_iid_def Let_def split: prod.splits)
  qed
qed

lemma ac_ok_add:
  assumes ok: "ac_ok ac" and n: "n < ANJAY_ID_INVALID" "n \<notin> ai_iid ` set (instances ac)"
    and new: "ai_addr new \<notin> ai_addr ` set (instances ac)" "inst_ok (new\<lparr>ai_iid := n\<rparr>)"
  shows "ac_ok (set_instances ac (insert_inst (new\<lparr>ai_iid := n\<rparr>) (instances ac)))"
proof -
  have "insts_ok (insert_inst (new\<lparr>ai_iid := n\<rparr>) (instances ac))"
    using n new by (intro insts_ok_insert [OF ac_okD(1) [OF ok]]) simp_all
  with ok show ?thesis by (auto simp: ac_ok_def)
qed

text \<open>\<open>ac_instance_create\<close> with the ID of an instance that is not there yet.\<close>

definition blank_instance :: "nat \<Rightarrow> nat \<Rightarrow> ac_instance" where
  "blank_instance p iid = \<lparr>ai_addr = p, ai_iid = iid, ai_target = \<lparr>at_oid = 0, at_iid = - 1\<rparr>,
     ai_owner = ANJAY_SSID_BOOTSTRAP, ai_has_acl = False, ai_acl = []\<rparr>"

lemma ac_instance_create_eq:
  assumes ok: "ac_ok ac" and iid: "iid < ANJAY_ID_INVALID"
  shows "ac_instance_create ac iid al =
    Some (case alloc_next al of
            (None, al) \<Rightarrow> (ANJAY_ERR_INTERNAL, ac, al)
          | (Some p, al) \<Rightarrow>
              if iid \<in> ai_iid ` set (instances ac) then (- 1, mark_modified (ac\<lparr>ac_needs_validation := True\<rparr>), al)
              else (0, mark_modified ((set_instances ac (insert_inst (blank_instance p iid) (instances ac)))
                         \<lparr>ac_needs_validation := True\<rparr>), al))"
proof (cases "fst (alloc_next al)")
  case None
  then show ?thesis by (cases "alloc_next al") (simp add: ac_instance_create_def)
next
  case (Some p)
  then obtain al' where al: "alloc_next al = (Some p, al')" by (cases "alloc_next al") simp
  have blank: "ai_iid (blank_instance p iid) = iid" "ac_instance.ai_iid_update (\<lambda>_. iid) (blank_instance p iid) = blank_instance p iid"
    by (simp_all add: blank_instance_def)
  with al iid show ?thesis
    by (simp add: blank ac_instance_create_def blank_instance_def [symmetric] ac_add_instance_eq [OF ac_okD(1) [OF ok]]
        chosen_iid_def notify_created_opt_def Let_def)
qed

lemma inst_ok_blank: "iid < ANJAY_ID_INVALID \<Longrightarrow> inst_ok (blank_instance p iid)"
  by (simp add: inst_ok_def blank_instance_def acl_ok_def)

section \<open>Removing an instance\<close>

lemma remove_iid_loop_filter:
  assumes "insts_ok is"
  shows "map_option snd (remove_iid_loop iid is) =
    (if iid \<in> ai_iid ` set is then Some (filter (\<lambda>i. ai_iid i \<noteq> iid) is) else None)"
  using assms
proof (induction "is")
  case (Cons i "is")
  show ?case
  proof (cases "ai_iid i = iid")
    case True
    then have "filter (\<lambda>i. ai_iid i \<noteq> iid) is = is"
      using Cons.prems by (auto simp: insts_ok_Cons filter_id_conv)
    with True show ?thesis by simp
  next
    case False
    have "iid < ai_iid i \<Longrightarrow> iid \<notin> ai_iid ` set is" using Cons.prems by (force simp: insts_ok_Cons)
    with False Cons show ?thesis
      by (cases "iid \<in> ai_iid ` set is")
        (auto simp: insts_ok_Cons split: option.splits prod.splits)
  qed
qed simp

lemma insts_ok_filter: "insts_ok is \<Longrightarrow> insts_ok (filter P is)"
  by (induction "is") (auto simp: insts_ok_Cons)

lemma inst_lookup_filter:
  "inst_lookup (filter (\<lambda>i. ai_iid i \<noteq> iid) is) j = (if j = iid then None else inst_lookup is j)"
  by (induction "is") auto

lemma ac_instance_remove_correct:
  assumes ok: "ac_ok ac"
  shows "\<exists>ac'. ac_instance_remove ac iid =
      Some (if iid \<in> ai_iid ` set (instances ac) then 0 else ANJAY_ERR_NOT_FOUND, ac') \<and>
    ac_ok ac' \<and> ac_saved_state ac' = ac_saved_state ac \<and> ac_in_transaction ac' = ac_in_transaction ac \<and>
    ac_needs_validation ac' = ac_needs_validation ac \<and>
    instances ac' = filter (\<lambda>i. ai_iid i \<noteq> iid) (instances ac)"
proof (cases "remove_iid_loop iid (instances ac)")
  case None
  then have "iid \<notin> ai_iid ` set (instances ac)"
    using remove_iid_loop_filter [OF ac_okD(1) [OF ok], of iid] by (auto split: if_splits)
  moreover from this have "filter (\<lambda>i. ai_iid i \<noteq> iid) (instances ac) = instances ac"
    by (auto simp: filter_id_conv)
  ultimately show ?thesis using None ok by (simp add: ac_instance_remove_def)
next
  case (Some t)
  obtain x rest where t: "t = (x, rest)" by (cases t)
  have rest: "rest = filter (\<lambda>i. ai_iid i \<noteq> iid) (instances ac)" and mem: "iid \<in> ai_iid ` set (instances ac)"
    using remove_iid_loop_filter [OF ac_okD(1) [OF ok], of iid] Some t by (auto split: if_splits)
  have insts: "insts_ok rest" using insts_ok_filter [OF ac_okD(1) [OF ok]] rest by simp
  show ?thesis
  proof (cases "ac_last_accessed ac")
    case None
    with Some t insts ok mem rest show ?thesis by (simp add: ac_instance_remove_def ac_ok_def)
  next
    case (Some p)
    with inst_at_mem [OF ac_okD(1) [OF ok] ac_okD(3) [OF ok Some]] obtain i where
      i: "inst_at (instances ac) p = Some i" "inst_lookup (instances ac) (ai_iid i) = Some i" "ai_addr i = p"
      by blast
    then have "ai_iid i \<noteq> iid \<Longrightarrow> p \<in> ai_addr ` set rest"
      using inst_lookup_Some [OF i(2)] by (auto simp: rest)
    with \<open>remove_iid_loop iid (instances ac) = Some t\<close> t Some i(1) insts ok mem rest show ?thesis
      by (auto simp: ac_instance_remove_def ac_ok_def)
  qed
qed

end
