(* ===== verification/Ac_Validate.thy ===== *)
theory Ac_Validate
  imports Ac_Object_Ok
begin

text \<open>
  Transactions on the Access Control object: what the validation accepts, what a rollback restores, and
  the cloning of the state. The other Objects are assumed to keep the contract of their handlers.
\<close>

section \<open>The other Objects\<close>

text \<open>
  \<open>ids oid\<close> are the instances of the Object, in every state that satisfies \<open>P\<close>, and \<open>ssid_of\<close> is the
  Short Server ID of an instance of the Server object.
\<close>

definition data_model ::
    "'s dm_object list \<Rightarrow> ('s \<Rightarrow> bool) \<Rightarrow> (nat \<Rightarrow> nat list) \<Rightarrow> (nat \<Rightarrow> int) \<Rightarrow> bool" where
  "data_model objs P ids ssid_of \<longleftrightarrow>
     (\<forall>ob \<in> set objs. lists_instances ob P (ids (do_oid ob))) \<and>
     (\<forall>iid \<in> set (ids OID_SERVER). \<forall>s. P s \<longrightarrow>
        (\<exists>s'. dm_read_resource_i64 objs OID_SERVER iid RID_SERVER_SSID s = Some (Inr (ssid_of iid), s') \<and> P s'))"

definition registered :: "'s dm_object list \<Rightarrow> nat \<Rightarrow> bool" where
  "registered objs oid \<longleftrightarrow> find_object_by_oid objs oid \<noteq> None"

definition server_known :: "'s dm_object list \<Rightarrow> (nat \<Rightarrow> nat list) \<Rightarrow> (nat \<Rightarrow> int) \<Rightarrow> nat \<Rightarrow> bool" where
  "server_known objs ids ssid_of ssid \<longleftrightarrow>
     registered objs OID_SERVER \<and> (\<exists>iid \<in> set (ids OID_SERVER). ssid_of iid = int ssid)"

lemma find_object_by_oid_Some:
  "find_object_by_oid objs oid = Some ob \<Longrightarrow> ob \<in> set objs \<and> do_oid ob = oid"
  by (induction objs) (auto split: if_splits)

lemma data_model_lists:
  assumes "data_model objs P ids ssid_of" and "find_object_by_oid objs oid = Some ob"
  shows "lists_instances ob P (ids oid)"
  using assms find_object_by_oid_Some by (fastforce simp: data_model_def)

lemma dm_ssid_exists_correct:
  assumes dm: "data_model objs P ids ssid_of" and P: "P s" and ssid: "ssid \<noteq> ANJAY_SSID_BOOTSTRAP"
  shows "\<exists>s'. dm_ssid_exists objs ssid s = Some (ssid \<noteq> ANJAY_SSID_ANY \<and> server_known objs ids ssid_of ssid, s') \<and> P s'"
proof (cases "ssid = ANJAY_SSID_ANY")
  case True
  with P show ?thesis by (simp add: dm_ssid_exists_def find_server_iid_def)
next
  case ne: False
  show ?thesis
  proof (cases "find_object_by_oid objs OID_SERVER")
    case None
    with P ne ssid show ?thesis
      by (simp add: dm_ssid_exists_def find_server_iid_def dm_foreach_instance_def server_known_def registered_def)
  next
    case (Some ob)
    note li = data_model_lists [OF dm Some]
    let ?g = "\<lambda>i a. if ssid_of i = int ssid then (ANJAY_FOREACH_BREAK, i) else (0 :: int, a :: nat)"
    have "\<exists>s'. find_server_iid_handler objs ssid i a s = Some (fst (?g i a), snd (?g i a), s') \<and> P s'"
      if i: "i \<in> set (ids OID_SERVER)" and s: "P s" for i a s
    proof -
      obtain s' where "dm_read_resource_i64 objs OID_SERVER i RID_SERVER_SSID s = Some (Inr (ssid_of i), s')" "P s'"
        using dm i s unfolding data_model_def by blast
      then show ?thesis by (simp add: find_server_iid_handler_def)
    qed
    from dm_foreach_instance_fold [OF li P, of "find_server_iid_handler objs ssid" ?g ANJAY_ID_INVALID] this
    obtain s' where s': "dm_foreach_instance (Some ob) (find_server_iid_handler objs ssid) ANJAY_ID_INVALID s =
        Some (foreach_result 0 (fst (emit_fold ?g (ids OID_SERVER) ANJAY_ID_INVALID)),
              snd (emit_fold ?g (ids OID_SERVER) ANJAY_ID_INVALID), s')" "P s'"
      by blast
    have lt: "i \<in> set (ids OID_SERVER) \<Longrightarrow> i \<noteq> ANJAY_ID_INVALID" for i
      using li by (auto simp: lists_instances_def ids_ok_def)
    show ?thesis
    proof (cases "find (\<lambda>i. ssid_of i = int ssid) (ids OID_SERVER)")
      case None
      then have "\<not> server_known objs ids ssid_of ssid" by (auto simp: server_known_def find_None_iff)
      with None s' Some ne ssid show ?thesis
        by (simp add: dm_ssid_exists_def find_server_iid_def emit_fold_find foreach_result_def)
    next
      case (Some i)
      then have "i \<in> set (ids OID_SERVER)" "ssid_of i = int ssid" by (auto simp: find_Some_iff)
      with lt \<open>find_object_by_oid objs OID_SERVER = Some ob\<close> have "server_known objs ids ssid_of ssid" "i \<noteq> ANJAY_ID_INVALID"
        by (auto simp: server_known_def registered_def)
      with Some s' \<open>find_object_by_oid objs OID_SERVER = Some ob\<close> ne ssid show ?thesis
        by (simp add: dm_ssid_exists_def find_server_iid_def emit_fold_find foreach_result_def)
    qed
  qed
qed

section \<open>References to instances\<close>

text \<open>
  A reference is good when the Object is registered and the instance exists, or is 65535. \<open>U\<close> are the
  references that were accepted before.
\<close>

definition ref_good :: "'s dm_object list \<Rightarrow> (nat \<Rightarrow> nat list) \<Rightarrow> nat \<times> nat \<Rightarrow> bool" where
  "ref_good objs ids r \<longleftrightarrow> registered objs (fst r) \<and> (snd r \<in> set (ids (fst r)) \<or> snd r = ANJAY_ID_INVALID)"

definition ref_ctx_inv :: "(nat \<Rightarrow> nat list) \<Rightarrow> acl_ref_ctx \<Rightarrow> (nat \<times> nat) set \<Rightarrow> bool" where
  "ref_ctx_inv ids ctx U \<longleftrightarrow> ascending ri_oid ctx \<and>
     (\<forall>e \<in> set ctx. ri_allowed_iids e = filter (\<lambda>i. (ri_oid e, i) \<notin> U) (ids (ri_oid e) @ [ANJAY_ID_INVALID])) \<and>
     (\<forall>r \<in> U. fst r \<in> ri_oid ` set ctx)"

lemma take_allowed_iid_correct:
  "ascending (\<lambda>i. i) xs \<Longrightarrow> take_allowed_iid xs iid = (if iid \<in> set xs then Some (filter (\<lambda>i. i \<noteq> iid) xs) else None)"
proof (induction xs)
  case (Cons i xs)
  have "i = iid \<Longrightarrow> filter (\<lambda>i. i \<noteq> iid) xs = xs" using Cons.prems by (auto simp: filter_id_conv)
  with Cons show ?case by auto
qed simp

lemma new_validation_object_info_correct:
  assumes "lists_instances ob P is" and "P s"
  shows "\<exists>e al' s'. new_validation_object_info ob al s = Some (e, al', s') \<and> P s' \<and>
    (e = Some \<lparr>ri_oid = do_oid ob, ri_allowed_iids = is @ [ANJAY_ID_INVALID]\<rparr> \<and> taken al al' \<or> e = None \<and> used_up al al')"
proof (cases rule: alloc_next_cases [of al])
  case (1 al1)
  with assms(2) show ?thesis by (simp add: new_validation_object_info_def)
next
  case (2 p al1)
  obtain r xs al2 s' where l: "dm_get_sorted_instance_list (Some ob) al1 s = Some (r, xs, al2, s')" "P s'"
    "r = 0 \<and> xs = is \<and> taken al1 al2 \<or> r \<noteq> 0 \<and> used_up al1 al2"
    using dm_get_sorted_instance_list_correct [OF assms, of al1] by blast
  from l(3) show ?thesis
  proof
    assume a: "r = 0 \<and> xs = is \<and> taken al1 al2"
    show ?thesis
    proof (cases rule: alloc_next_cases [of al2])
      case (1 al3)
      with a l 2 show ?thesis
        by (auto simp: new_validation_object_info_def create_allowed_iids_set_def intro: taken_used_up taken_trans)
    next
      case (2 p al3)
      with a l \<open>alloc_next al = _\<close> \<open>taken al al1\<close> show ?thesis
        by (auto simp: new_validation_object_info_def create_allowed_iids_set_def intro: taken_trans)
    qed
  next
    assume "r \<noteq> 0 \<and> used_up al1 al2"
    with l 2 show ?thesis
      by (auto simp: new_validation_object_info_def create_allowed_iids_set_def intro: taken_used_up)
  qed
qed

text \<open>The context around the entry of an Object, which is there afterwards unless memory ran out.\<close>

lemma get_or_create_validation_object_info_correct:
  assumes "lists_instances ob P (ids (do_oid ob))" and "P s" and "ref_ctx_inv ids ctx U"
  shows "\<exists>res al' s'. get_or_create_validation_object_info ob ctx al s = Some (res, al', s') \<and> P s' \<and>
    ((\<exists>before e after. res = Some (before, e, after) \<and> ri_oid e = do_oid ob \<and> taken al al' \<and>
        (\<forall>x \<in> set before. ri_oid x < do_oid ob) \<and> (\<forall>x \<in> set after. do_oid ob < ri_oid x) \<and>
        (ctx = before @ e # after \<or>
         ctx = before @ after \<and> ri_allowed_iids e = ids (do_oid ob) @ [ANJAY_ID_INVALID])) \<or>
     res = None \<and> used_up al al')"
proof -
  have asc: "ascending ri_oid ctx" using assms(3) by (simp add: ref_ctx_inv_def)
  have new: "\<exists>e al' s'. new_validation_object_info ob al s = Some (e, al', s') \<and> P s' \<and>
      (e = Some \<lparr>ri_oid = do_oid ob, ri_allowed_iids = ids (do_oid ob) @ [ANJAY_ID_INVALID]\<rparr> \<and> taken al al' \<or>
       e = None \<and> used_up al al')" for al
    by (rule new_validation_object_info_correct [OF assms(1,2)])
  from asc show ?thesis
  proof (induction ctx)
    case Nil
    show ?case using new [of al] by auto
  next
    case (Cons x xs)
    consider "ri_oid x = do_oid ob" | "do_oid ob < ri_oid x" | "ri_oid x < do_oid ob" by linarith
    then show ?case
    proof cases
      case 1
      with Cons.prems assms(2) show ?thesis by auto
    next
      case 2
      with Cons.prems have "\<forall>y \<in> set (x # xs). do_oid ob < ri_oid y" by auto
      with 2 new [of al] show ?thesis by auto
    next
      case 3
      with Cons show ?thesis by fastforce
    qed
  qed
qed

lemma find_object_oid: "find_object_by_oid objs oid = Some ob \<Longrightarrow> do_oid ob = oid"
  by (simp add: find_object_by_oid_Some)

lemma acl_ref_validate_inst_ref_correct:
  assumes dm: "data_model objs P ids ssid_of" and P: "P s" and inv: "ref_ctx_inv ids ctx U"
  shows "\<exists>r ctx' al' s'. acl_ref_validate_inst_ref objs ctx oid iid al s = Some (r, ctx', al', s') \<and> P s' \<and> taken al al' \<and>
    (r = 0 \<and> ref_good objs ids (oid, iid) \<and> (oid, iid) \<notin> U \<and> ref_ctx_inv ids ctx' (insert (oid, iid) U) \<or>
     r \<noteq> 0 \<and> (\<not> ref_good objs ids (oid, iid) \<or> (oid, iid) \<in> U \<or> used_up al al'))"
proof (cases "find_object_by_oid objs oid")
  case None
  with P show ?thesis by (simp add: acl_ref_validate_inst_ref_def ref_good_def registered_def)
next
  case (Some ob)
  have oid: "do_oid ob = oid" using find_object_oid [OF Some] .
  have li: "lists_instances ob P (ids (do_oid ob))" using data_model_lists [OF dm Some] oid by simp
  have reg: "registered objs oid" using Some by (simp add: registered_def)
  obtain res al' s' where g: "get_or_create_validation_object_info ob ctx al s = Some (res, al', s')" "P s'"
    and cases: "(\<exists>before e after. res = Some (before, e, after) \<and> ri_oid e = do_oid ob \<and> taken al al' \<and>
        (\<forall>x \<in> set before. ri_oid x < do_oid ob) \<and> (\<forall>x \<in> set after. do_oid ob < ri_oid x) \<and>
        (ctx = before @ e # after \<or>
         ctx = before @ after \<and> ri_allowed_iids e = ids (do_oid ob) @ [ANJAY_ID_INVALID])) \<or>
     res = None \<and> used_up al al'"
    using get_or_create_validation_object_info_correct [OF li P inv, of al] by blast
  from cases show ?thesis
  proof
    assume "res = None \<and> used_up al al'"
    with g Some show ?thesis by (auto simp: acl_ref_validate_inst_ref_def intro: used_up_taken)
  next
    assume "\<exists>before e after. res = Some (before, e, after) \<and> ri_oid e = do_oid ob \<and> taken al al' \<and>
        (\<forall>x \<in> set before. ri_oid x < do_oid ob) \<and> (\<forall>x \<in> set after. do_oid ob < ri_oid x) \<and>
        (ctx = before @ e # after \<or>
         ctx = before @ after \<and> ri_allowed_iids e = ids (do_oid ob) @ [ANJAY_ID_INVALID])"
    then obtain before e after where res: "res = Some (before, e, after)" and e: "ri_oid e = oid" and tk: "taken al al'"
      and lt: "\<forall>x \<in> set before. ri_oid x < oid" "\<forall>x \<in> set after. oid < ri_oid x"
      and src: "ctx = before @ e # after \<or> ctx = before @ after \<and> ri_allowed_iids e = ids oid @ [ANJAY_ID_INVALID]"
      unfolding oid by blast
    let ?all = "ids oid @ [ANJAY_ID_INVALID]"
    have allowed: "ri_allowed_iids e = filter (\<lambda>i. (oid, i) \<notin> U) ?all"
      using src
    proof
      assume "ctx = before @ e # after"
      with inv e show ?thesis by (simp add: ref_ctx_inv_def)
    next
      assume a: "ctx = before @ after \<and> ri_allowed_iids e = ?all"
      have "(oid, i) \<notin> U" for i
      proof
        assume "(oid, i) \<in> U"
        with inv have "oid \<in> ri_oid ` set ctx" by (force simp: ref_ctx_inv_def)
        with a lt show False by auto
      qed
      with a show ?thesis by simp
    qed
    have asc_all: "ascending (\<lambda>i. i) ?all"
      using li oid by (auto simp: lists_instances_def ids_ok_def ascending_append)
    then have asc: "ascending (\<lambda>i. i) (ri_allowed_iids e)" unfolding allowed by (rule ascending_filter)
    have mem: "iid \<in> set (ri_allowed_iids e) \<longleftrightarrow> ref_good objs ids (oid, iid) \<and> (oid, iid) \<notin> U"
      unfolding allowed using reg by (auto simp: ref_good_def)
    show ?thesis
    proof (cases "iid \<in> set (ri_allowed_iids e)")
      case False
      with take_allowed_iid_correct [OF asc, of iid] mem g res Some tk show ?thesis
        by (auto simp: acl_ref_validate_inst_ref_def)
    next
      case True
      let ?e = "e\<lparr>ri_allowed_iids := filter (\<lambda>i. i \<noteq> iid) (ri_allowed_iids e)\<rparr>"
      have run: "acl_ref_validate_inst_ref objs ctx oid iid al s = Some (0, before @ ?e # after, al', s')"
        using take_allowed_iid_correct [OF asc, of iid] True g res Some by (simp add: acl_ref_validate_inst_ref_def)
      have asc_ctx: "ascending ri_oid (before @ ?e # after)"
        using src inv lt e by (auto simp: ref_ctx_inv_def ascending_append)
      have ents: "ri_allowed_iids x = filter (\<lambda>i. (ri_oid x, i) \<notin> insert (oid, iid) U) (ids (ri_oid x) @ [ANJAY_ID_INVALID])"
        if "x \<in> set (before @ ?e # after)" for x
      proof (cases "x \<in> set before \<union> set after")
        case True
        then have "x \<in> set ctx" "ri_oid x \<noteq> oid" using src lt by auto
        with inv show ?thesis by (simp add: ref_ctx_inv_def)
      next
        case False
        with that have "x = ?e" by auto
        with e show ?thesis by (auto simp: allowed conj_commute intro!: filter_cong)
      qed
      have cover: "fst r \<in> ri_oid ` set (before @ ?e # after)" if "r \<in> insert (oid, iid) U" for r
        using that inv src e by (auto simp: ref_ctx_inv_def)
      have "ref_ctx_inv ids (before @ ?e # after) (insert (oid, iid) U)"
        unfolding ref_ctx_inv_def using asc_ctx ents cover by blast
      with run g(2) tk mem True show ?thesis by blast
    qed
  qed
qed

section \<open>Validation\<close>

definition target_of :: "ac_instance \<Rightarrow> nat \<times> nat" where
  "target_of i = (at_oid (ai_target i), nat (at_iid (ai_target i)))"

definition target_good :: "'s dm_object list \<Rightarrow> (nat \<Rightarrow> nat list) \<Rightarrow> ac_instance \<Rightarrow> bool" where
  "target_good objs ids i \<longleftrightarrow> target_oid_valid (int (at_oid (ai_target i))) \<and>
     0 \<le> at_iid (ai_target i) \<and> at_iid (ai_target i) < 65536 \<and> ref_good objs ids (target_of i)"

text \<open>The servers that an instance names; the Bootstrap Server as an owner is not one of them.\<close>

definition ssids_named :: "ac_instance \<Rightarrow> nat set" where
  "ssids_named i = (if ai_owner i = ANJAY_SSID_BOOTSTRAP then {} else {ai_owner i}) \<union> ae_ssid ` set (ai_acl i)"

lemma target_iid_valid_range: "target_iid_valid iid \<longleftrightarrow> 0 \<le> iid \<and> iid < 65536"
proof
  assume "target_iid_valid iid"
  then have "iid = iid mod 65536" by (simp add: target_iid_valid_def)
  moreover have "0 \<le> iid mod 65536" "iid mod 65536 < 65536" by simp_all
  ultimately show "0 \<le> iid \<and> iid < 65536" by simp
qed (simp add: target_iid_valid_def)

lemma add_ssid_correct:
  assumes "add_ssid used x al = (r, used', al')"
  shows "taken al al' \<and> (r = 0 \<and> set used' = insert x (set used) \<or> r \<noteq> 0 \<and> used_up al al')"
  using assms
  by (cases rule: alloc_next_cases [of al]) (auto simp: add_ssid_def used_up_taken split: if_splits)

lemma add_acl_ssids_correct:
  assumes "add_acl_ssids used acl al = (r, used', al')"
  shows "taken al al' \<and> (r = 0 \<and> set used' = set used \<union> ae_ssid ` set acl \<or> r \<noteq> 0 \<and> used_up al al')"
  using assms
proof (induction acl arbitrary: used al)
  case (Cons e es)
  obtain r1 u1 al1 where a: "add_ssid used (ae_ssid e) al = (r1, u1, al1)" by (cases "add_ssid used (ae_ssid e) al") auto
  note c = add_ssid_correct [OF a]
  show ?case
  proof (cases "r1 = 0")
    case True
    with Cons.prems a have "add_acl_ssids u1 es al1 = (r, used', al')" by simp
    from Cons.IH [OF this] c True show ?thesis by (auto intro: taken_trans taken_used_up)
  next
    case False
    with Cons.prems a c show ?thesis by auto
  qed
qed simp

definition targets_new :: "'s dm_object list \<Rightarrow> (nat \<Rightarrow> nat list) \<Rightarrow> (nat \<times> nat) set \<Rightarrow> ac_instance list \<Rightarrow> bool" where
  "targets_new objs ids U is \<longleftrightarrow>
     (\<forall>i \<in> set is. target_good objs ids i \<and> target_of i \<notin> U) \<and> distinct (map target_of is)"

lemma targets_new_Cons:
  "targets_new objs ids U (i # is) \<longleftrightarrow>
   target_good objs ids i \<and> target_of i \<notin> U \<and> targets_new objs ids (insert (target_of i) U) is"
  by (auto simp: targets_new_def image_iff)

lemma validate_instances_correct:
  assumes dm: "data_model objs P ids ssid_of"
  shows "P s \<Longrightarrow> ref_ctx_inv ids ctx U \<Longrightarrow>
    \<exists>res al' s'. validate_instances objs is ctx used al s = Some (res, al', s') \<and> P s' \<and> taken al al' \<and>
      ((\<exists>used'. res = Some used' \<and> targets_new objs ids U is \<and> set used' = set used \<union> (\<Union>i \<in> set is. ssids_named i)) \<or>
       res = None \<and> (\<not> targets_new objs ids U is \<or> used_up al al'))"
proof (induction "is" arbitrary: s ctx U used al)
  case Nil
  then show ?case by (simp add: targets_new_def)
next
  case (Cons i "is")
  let ?oid = "at_oid (ai_target i)" and ?iid = "at_iid (ai_target i)"
  show ?case
  proof (cases "target_oid_valid (int ?oid) \<and> target_iid_valid ?iid")
    case False
    then have "\<not> target_good objs ids i" by (auto simp: target_good_def target_iid_valid_range)
    with False Cons.prems show ?thesis by (auto simp: targets_new_Cons)
  next
    case valid: True
    then have mod: "nat (?iid mod 65536) = nat ?iid" and range: "0 \<le> ?iid" "?iid < 65536"
      by (auto simp: target_iid_valid_range)
    have good: "target_good objs ids i \<longleftrightarrow> ref_good objs ids (target_of i)"
      using valid by (auto simp: target_good_def target_iid_valid_range)
    obtain r ctx' al1 s1 where ref: "acl_ref_validate_inst_ref objs ctx ?oid (nat ?iid) al s = Some (r, ctx', al1, s1)"
        "P s1" "taken al al1"
      and cases: "r = 0 \<and> ref_good objs ids (target_of i) \<and> target_of i \<notin> U \<and> ref_ctx_inv ids ctx' (insert (target_of i) U) \<or>
        r \<noteq> 0 \<and> (\<not> ref_good objs ids (target_of i) \<or> target_of i \<in> U \<or> used_up al al1)"
      using acl_ref_validate_inst_ref_correct [OF dm Cons.prems, of ?oid "nat ?iid" al] unfolding target_of_def by blast
    show ?thesis
    proof (cases "r = 0")
      case False
      with cases good ref valid mod show ?thesis by (auto simp: targets_new_Cons)
    next
      case True
      with cases have c: "ref_good objs ids (target_of i)" "target_of i \<notin> U" "ref_ctx_inv ids ctx' (insert (target_of i) U)"
        by auto
      obtain r2 u2 al2 where o: "(if ai_owner i \<noteq> ANJAY_SSID_BOOTSTRAP then add_ssid used (ai_owner i) al1 else (0, used, al1)) = (r2, u2, al2)"
        by (metis prod_cases3)
      have oc: "taken al1 al2 \<and> (r2 = 0 \<and> set u2 = set used \<union> (if ai_owner i = ANJAY_SSID_BOOTSTRAP then {} else {ai_owner i}) \<or>
          r2 \<noteq> 0 \<and> used_up al1 al2)"
        using o add_ssid_correct [of used "ai_owner i" al1 r2 u2 al2] by (auto split: if_splits)
      obtain r3 u3 al3 where l: "add_acl_ssids u2 (ai_acl i) al2 = (r3, u3, al3)" by (metis prod_cases3)
      note lc = add_acl_ssids_correct [OF l]
      show ?thesis
      proof (cases "r2 = 0 \<and> r3 = 0")
        case False
        then have "used_up al (if r2 \<noteq> 0 then al2 else al3)"
          using oc lc ref(3) by (auto intro: taken_used_up taken_trans)
        with False o l ref valid mod True show ?thesis by (auto intro: used_up_taken)
      next
        case ok: True
        obtain res al' s' where rest: "validate_instances objs is ctx' u3 al3 s1 = Some (res, al', s')" "P s'" "taken al3 al'"
          and rc: "(\<exists>used'. res = Some used' \<and> targets_new objs ids (insert (target_of i) U) is \<and>
              set used' = set u3 \<union> (\<Union>i \<in> set is. ssids_named i)) \<or>
            res = None \<and> (\<not> targets_new objs ids (insert (target_of i) U) is \<or> used_up al3 al')"
          using Cons.IH [OF ref(2) c(3), of u3 al3] by blast
        have tk: "taken al al3"
          by (rule taken_trans [OF ref(3)], rule taken_trans [of al1 al2]) (use oc lc in simp_all)
        have run: "validate_instances objs (i # is) ctx used al s = Some (res, al', s')"
          using valid mod ref True o l ok rest by simp
        have u3: "set u3 = set used \<union> ssids_named i" using oc lc ok by (auto simp: ssids_named_def)
        have tn: "targets_new objs ids U (i # is) \<longleftrightarrow> targets_new objs ids (insert (target_of i) U) is"
          using c good by (simp add: targets_new_Cons)
        have "taken al al'" using taken_trans [OF tk rest(3)] .
        have up: "used_up al3 al' \<Longrightarrow> used_up al al'" using taken_used_up [OF tk] .
        have un: "(\<Union>j \<in> set (i # is). ssids_named j) = ssids_named i \<union> (\<Union>j \<in> set is. ssids_named j)" by simp
        have "(\<exists>used'. res = Some used' \<and> targets_new objs ids U (i # is) \<and>
              set used' = set used \<union> (\<Union>j \<in> set (i # is). ssids_named j)) \<or>
            res = None \<and> (\<not> targets_new objs ids U (i # is) \<or> used_up al al')"
          using rc up unfolding tn un u3 Un_assoc by blast
        with run rest(2) \<open>taken al al'\<close> show ?thesis by blast
      qed
    qed
  qed
qed

definition ssid_valid :: "'s dm_object list \<Rightarrow> (nat \<Rightarrow> nat list) \<Rightarrow> (nat \<Rightarrow> int) \<Rightarrow> nat \<Rightarrow> bool" where
  "ssid_valid objs ids ssid_of ssid \<longleftrightarrow>
     ssid \<noteq> ANJAY_SSID_BOOTSTRAP \<and> (ssid = ANJAY_SSID_ANY \<or> server_known objs ids ssid_of ssid)"

lemma validate_ssid_correct:
  assumes "data_model objs P ids ssid_of" and "P s"
  shows "\<exists>s'. validate_ssid objs ssid s = Some (if ssid_valid objs ids ssid_of ssid then 0 else - 1, s') \<and> P s'"
proof (cases "ssid = ANJAY_SSID_BOOTSTRAP \<or> ssid = ANJAY_SSID_ANY")
  case True
  with assms(2) show ?thesis by (auto simp: validate_ssid_def ssid_valid_def)
next
  case False
  with dm_ssid_exists_correct [OF assms, of ssid] obtain s' where
    "dm_ssid_exists objs ssid s = Some (server_known objs ids ssid_of ssid, s')" "P s'" by auto
  with False show ?thesis by (simp add: validate_ssid_def ssid_valid_def)
qed

lemma validate_ssids_correct:
  assumes dm: "data_model objs P ids ssid_of"
  shows "P s \<Longrightarrow> \<exists>s'. validate_ssids objs xs s = Some (\<forall>x \<in> set xs. ssid_valid objs ids ssid_of x, s') \<and> P s'"
proof (induction xs arbitrary: s)
  case (Cons x xs)
  obtain s1 where s1: "validate_ssid objs x s = Some (if ssid_valid objs ids ssid_of x then 0 else - 1, s1)" "P s1"
    using validate_ssid_correct [OF dm Cons.prems] by blast
  with Cons.IH [OF s1(2)] show ?case by (cases "ssid_valid objs ids ssid_of x") auto
qed simp

text \<open>
  The instances that the validation accepts: their targets exist and are all different, and every server
  they name exists or is the default one.
\<close>

definition insts_valid ::
    "'s dm_object list \<Rightarrow> (nat \<Rightarrow> nat list) \<Rightarrow> (nat \<Rightarrow> int) \<Rightarrow> ac_instance list \<Rightarrow> bool" where
  "insts_valid objs ids ssid_of is \<longleftrightarrow>
     (\<forall>i \<in> set is. target_good objs ids i) \<and> distinct (map target_of is) \<and>
     (\<forall>i \<in> set is. \<forall>ssid \<in> ssids_named i. ssid_valid objs ids ssid_of ssid)"

lemma ac_transaction_validate_correct:
  assumes dm: "data_model objs P ids ssid_of" and P: "P s"
    and ac: "ac_in_transaction ac" "ac_needs_validation ac"
  shows "\<exists>r ac' al' s'. ac_transaction_validate objs ac al s = Some (r, ac', al', s') \<and> P s' \<and>
    (r = 0 \<and> insts_valid objs ids ssid_of (instances ac) \<and> ac' = ac\<lparr>ac_needs_validation := False\<rparr> \<or>
     r = ANJAY_ERR_BAD_REQUEST \<and> (\<not> insts_valid objs ids ssid_of (instances ac) \<or> used_up al al') \<and> ac' = ac \<or>
     r = 0 \<and> fst (alloc_next al) = None \<and> ac' = ac)"
proof (cases rule: alloc_next_cases [of al])
  case (1 al1)
  with ac P show ?thesis by (simp add: ac_transaction_validate_def)
next
  case (2 p al1)
  have "ref_ctx_inv ids [] {}" by (simp add: ref_ctx_inv_def)
  from validate_instances_correct [OF dm P this, of "instances ac" "[]" al1] obtain res al' s' where
    v: "validate_instances objs (instances ac) [] [] al1 s = Some (res, al', s')" "P s'" "taken al1 al'"
    and cases: "(\<exists>used'. res = Some used' \<and> targets_new objs ids {} (instances ac) \<and>
        set used' = (\<Union>i \<in> set (instances ac). ssids_named i)) \<or>
      res = None \<and> (\<not> targets_new objs ids {} (instances ac) \<or> used_up al1 al')"
    by (simp only: list.set(1) Un_empty_left) blast
  have tn: "targets_new objs ids {} (instances ac) \<longleftrightarrow>
      (\<forall>i \<in> set (instances ac). target_good objs ids i) \<and> distinct (map target_of (instances ac))"
    by (simp add: targets_new_def)
  from cases show ?thesis
  proof
    assume "\<exists>used'. res = Some used' \<and> targets_new objs ids {} (instances ac) \<and>
        set used' = (\<Union>i \<in> set (instances ac). ssids_named i)"
    then obtain used where used: "res = Some used" "targets_new objs ids {} (instances ac)"
      "set used = (\<Union>i \<in> set (instances ac). ssids_named i)" by blast
    obtain s'' where s'': "validate_ssids objs used s' = Some (\<forall>x \<in> set used. ssid_valid objs ids ssid_of x, s'')" "P s''"
      using validate_ssids_correct [OF dm v(2)] by blast
    have "insts_valid objs ids ssid_of (instances ac) \<longleftrightarrow> (\<forall>x \<in> set used. ssid_valid objs ids ssid_of x)"
      using used(2,3) tn by (auto simp: insts_valid_def)
    with v s'' used(1) ac 2 show ?thesis
      by (cases "\<forall>x \<in> set used. ssid_valid objs ids ssid_of x") (simp_all add: ac_transaction_validate_def)
  next
    assume a: "res = None \<and> (\<not> targets_new objs ids {} (instances ac) \<or> used_up al1 al')"
    then have "\<not> insts_valid objs ids ssid_of (instances ac) \<or> used_up al al'"
      using taken_used_up [OF 2(2)] tn by (auto simp: insts_valid_def)
    with v a ac 2 show ?thesis by (simp add: ac_transaction_validate_def)
  qed
qed

end
