(* ===== verification/Avs_Stream.thy ===== *)
theory Avs_Stream
  imports Anjay_Prelude
begin

text \<open>
  The streams of \<open>avs_commons\<close>: the generic operations of \<open>avs_stream.c\<close>, which dispatch through a
  table of functions, and three implementations of that table, the output buffer
  (\<open>avs_stream_outbuf.c\<close>), the input buffer (\<open>avs_stream_inbuf.c\<close>) and the growing memory buffer
  (\<open>avs_stream_membuf.c\<close>). What the users of a stream rely on is stated as the interfaces
  \<open>byte_sink\<close>, \<open>byte_source\<close> and \<open>byte_source_zero\<close>, each interpreted on the implementations that keep
  its laws.
\<close>

section \<open>The table of functions and the generic operations\<close>

text \<open>
  A member of the table may be \<open>NULL\<close>, which is \<open>None\<close> here. \<open>write_some\<close> returns the number of bytes
  it accepted; \<open>read\<close> returns the bytes it stored and the message-finished flag, or \<open>None\<close> where it
  returns without assigning its outputs. The pointers that callers pass to \<open>read\<close> are not \<open>NULL\<close>.
\<close>

record 's stream_vtable =
  vt_write_some :: "('s \<Rightarrow> bytes \<Rightarrow> ('s \<times> nat \<times> avs_error) option) option"
  vt_read :: "('s \<Rightarrow> nat \<Rightarrow> ('s \<times> avs_error \<times> (bytes \<times> bool) option) option) option"
  vt_peek :: "('s \<Rightarrow> nat \<Rightarrow> (avs_error \<times> byte option) option) option"
  vt_reset :: "('s \<Rightarrow> 's \<times> avs_error) option"

definition stream_write_some ::
  "'s stream_vtable \<Rightarrow> 's \<Rightarrow> bytes \<Rightarrow> ('s \<times> nat \<times> avs_error) option" where
  "stream_write_some vt s buffer =
     (case vt_write_some vt of None \<Rightarrow> Some (s, length buffer, AVS_ENOTSUP) | Some f \<Rightarrow> f s buffer)"

definition stream_write :: "'s stream_vtable \<Rightarrow> 's \<Rightarrow> bytes \<Rightarrow> ('s \<times> avs_error) option" where
  "stream_write vt s buffer = do {
     (s, data_length, err) \<leftarrow> stream_write_some vt s buffer;
     if err = AVS_OK \<and> data_length \<noteq> length buffer then Some (s, AVS_EMSGSIZE) else Some (s, err) }"

definition stream_read ::
  "'s stream_vtable \<Rightarrow> 's \<Rightarrow> nat \<Rightarrow> ('s \<times> avs_error \<times> (bytes \<times> bool) option) option" where
  "stream_read vt s buffer_length =
     (case vt_read vt of None \<Rightarrow> Some (s, AVS_ENOTSUP, None) | Some f \<Rightarrow> f s buffer_length)"

definition stream_peek ::
  "'s stream_vtable \<Rightarrow> 's \<Rightarrow> nat \<Rightarrow> (avs_error \<times> byte option) option" where
  "stream_peek vt s offset =
     (case vt_peek vt of None \<Rightarrow> Some (AVS_ENOTSUP, None) | Some f \<Rightarrow> f s offset)"

definition stream_reset :: "'s stream_vtable \<Rightarrow> 's \<Rightarrow> 's \<times> avs_error" where
  "stream_reset vt s = (case vt_reset vt of None \<Rightarrow> (s, AVS_ENOTSUP) | Some f \<Rightarrow> f s)"

text \<open>
  The loop of \<open>avs_stream_read_reliably\<close>. The local variables it passes by reference are
  initialised to 0 and \<open>false\<close>, so a \<open>read\<close> that assigns nothing has read nothing.
\<close>

partial_function (option) read_reliably_loop ::
  "'s stream_vtable \<Rightarrow> 's \<Rightarrow> nat \<Rightarrow> bytes \<Rightarrow> bool \<Rightarrow> ('s \<times> avs_error \<times> bytes) option" where
  "read_reliably_loop vt s buffer_length acc message_finished =
     (if length acc < buffer_length \<and> \<not> message_finished then do {
        (s, err, out) \<leftarrow> stream_read vt s (buffer_length - length acc);
        if err \<noteq> AVS_OK then Some (s, err, acc)
        else (case out of
            None \<Rightarrow> read_reliably_loop vt s buffer_length acc False
          | Some (bs, fin) \<Rightarrow> read_reliably_loop vt s buffer_length (acc @ bs) fin) }
      else Some (s, if length acc = buffer_length then AVS_OK else AVS_EOF, acc))"

definition stream_read_reliably ::
  "'s stream_vtable \<Rightarrow> 's \<Rightarrow> nat \<Rightarrow> ('s \<times> avs_error \<times> bytes) option" where
  "stream_read_reliably vt s buffer_length = read_reliably_loop vt s buffer_length [] False"

text \<open>
  \<open>avs_stream_getch\<close> does not initialise \<open>bytes_read\<close>; a \<open>read\<close> that succeeds without assigning it
  is undefined. The result is the character and the flag.
\<close>

definition stream_getch ::
  "'s stream_vtable \<Rightarrow> 's \<Rightarrow> ('s \<times> avs_error \<times> (byte \<times> bool) option) option" where
  "stream_getch vt s = do {
     (s, err, out) \<leftarrow> stream_read vt s 1;
     if err \<noteq> AVS_OK then Some (s, err, None)
     else do {
       (bs, fin) \<leftarrow> out;
       (case bs of [] \<Rightarrow> Some (s, AVS_EOF, None) | b # _ \<Rightarrow> Some (s, AVS_OK, Some (b, fin))) } }"

partial_function (option) stream_ignore_to_end ::
  "'s stream_vtable \<Rightarrow> 's \<Rightarrow> ('s \<times> avs_error) option" where
  "stream_ignore_to_end vt s = do {
     (s, err, _) \<leftarrow> stream_getch vt s;
     if err = AVS_OK then stream_ignore_to_end vt s
     else if err = AVS_EOF then Some (s, AVS_OK)
     else Some (s, err) }"

abbreviation (input) AVS_STREAM_STACK_BUFFER_SIZE :: nat where "AVS_STREAM_STACK_BUFFER_SIZE \<equiv> 512"

text \<open>\<open>avs_stream_copy\<close>; it does not initialise \<open>bytes_read\<close> either.\<close>

partial_function (option) stream_copy ::
  "'o stream_vtable \<Rightarrow> 'i stream_vtable \<Rightarrow> 'o \<Rightarrow> 'i \<Rightarrow> ('o \<times> 'i \<times> avs_error) option" where
  "stream_copy ovt ivt os is' = do {
     (is', err, out) \<leftarrow> stream_read ivt is' AVS_STREAM_STACK_BUFFER_SIZE;
     if err \<noteq> AVS_OK then Some (os, is', err)
     else do {
       (bs, message_finished) \<leftarrow> out;
       (os, err) \<leftarrow> (if bs \<noteq> [] then stream_write ovt os bs else Some (os, AVS_OK));
       if err \<noteq> AVS_OK then Some (os, is', err)
       else if bs = [] \<and> \<not> message_finished then Some (os, is', AVS_EINVAL)
       else if message_finished then Some (os, is', AVS_OK)
       else stream_copy ovt ivt os is' } }"

section \<open>The output buffer\<close>

record outbuf =
  ob_buffer :: bytes
  ob_size :: nat
  ob_offset :: nat
  ob_finished :: bool

definition AVS_STREAM_OUTBUF_STATIC_INITIALIZER :: outbuf where
  "AVS_STREAM_OUTBUF_STATIC_INITIALIZER = \<lparr>ob_buffer = [], ob_size = 0, ob_offset = 0, ob_finished = False\<rparr>"

definition outbuf_set_buffer :: "outbuf \<Rightarrow> bytes \<Rightarrow> nat \<Rightarrow> outbuf" where
  "outbuf_set_buffer stream buffer buffer_size = stream\<lparr>ob_buffer := buffer, ob_size := buffer_size, ob_offset := 0\<rparr>"

definition outbuf_write_some :: "outbuf \<Rightarrow> bytes \<Rightarrow> (outbuf \<times> nat \<times> avs_error) option" where
  "outbuf_write_some s buffer =
     (if ob_finished s then Some (s, length buffer, AVS_EBADF)
      else do {
        n \<leftarrow> (if ob_offset s + length buffer > ob_size s then size_minus (ob_size s) (ob_offset s)
              else Some (length buffer));
        m \<leftarrow> wr_bytes (ob_buffer s) (ob_offset s) (take n buffer);
        Some (s\<lparr>ob_buffer := m, ob_offset := ob_offset s + n\<rparr>, n, AVS_OK) })"

definition outbuf_finish :: "outbuf \<Rightarrow> outbuf \<times> avs_error" where
  "outbuf_finish s = (s\<lparr>ob_finished := True\<rparr>, AVS_OK)"

definition outbuf_reset :: "outbuf \<Rightarrow> outbuf \<times> avs_error" where
  "outbuf_reset s = (s\<lparr>ob_finished := False, ob_offset := 0\<rparr>, AVS_OK)"

definition outbuf_set_offset :: "outbuf \<Rightarrow> nat \<Rightarrow> outbuf \<times> avs_error" where
  "outbuf_set_offset s offset =
     (if offset > ob_offset s then (s, AVS_ERANGE) else (s\<lparr>ob_offset := offset\<rparr>, AVS_OK))"

definition outbuf_vtable :: "outbuf stream_vtable" where
  "outbuf_vtable = \<lparr>vt_write_some = Some outbuf_write_some, vt_read = None, vt_peek = None,
                    vt_reset = Some outbuf_reset\<rparr>"

section \<open>The input buffer\<close>

record inbuf =
  ib_buffer :: bytes
  ib_size :: nat
  ib_offset :: nat

definition inbuf_set_buffer :: "bytes \<Rightarrow> nat \<Rightarrow> inbuf" where
  "inbuf_set_buffer buffer buffer_size = \<lparr>ib_buffer = buffer, ib_size = buffer_size, ib_offset = 0\<rparr>"

definition inbuf_read :: "inbuf \<Rightarrow> nat \<Rightarrow> (inbuf \<times> avs_error \<times> (bytes \<times> bool) option) option" where
  "inbuf_read s buffer_length =
     (if buffer_length = 0 then Some (s, AVS_OK, None)
      else do {
        bytes_left \<leftarrow> do { c_assert (ib_offset s \<le> ib_size s); size_minus (ib_size s) (ib_offset s) };
        let bytes_read = (if bytes_left < buffer_length then bytes_left else buffer_length);
        bs \<leftarrow> rd_bytes (ib_buffer s) (ib_offset s) bytes_read;
        let s = s\<lparr>ib_offset := ib_offset s + bytes_read\<rparr>;
        Some (s, AVS_OK, Some (bs, ib_offset s \<ge> ib_size s)) })"

definition inbuf_peek :: "inbuf \<Rightarrow> nat \<Rightarrow> (avs_error \<times> byte option) option" where
  "inbuf_peek s offset =
     (if ib_offset s + offset \<ge> ib_size s then Some (AVS_EOF, None)
      else do { b \<leftarrow> rd8 (ib_buffer s) (ib_offset s + offset); Some (AVS_OK, Some b) })"

definition inbuf_vtable :: "inbuf stream_vtable" where
  "inbuf_vtable = \<lparr>vt_write_some = None, vt_read = Some inbuf_read, vt_peek = Some inbuf_peek,
                   vt_reset = None\<rparr>"

section \<open>The growing memory buffer\<close>

text \<open>
  An allocator decides for each requested size whether the allocation succeeds and, if it does,
  what the fresh memory holds. \<open>realloc\<close> keeps the old contents as far as they fit.
\<close>

type_synonym allocator = "nat \<Rightarrow> (nat \<Rightarrow> byte) option"

record membuf =
  mb_buffer :: bytes
  mb_size :: nat
  mb_write :: nat
  mb_read :: nat

definition defragment_membuf :: "membuf \<Rightarrow> membuf option" where
  "defragment_membuf s =
     (if mb_read s \<noteq> 0 then do {
        used \<leftarrow> size_minus (mb_write s) (mb_read s);
        m \<leftarrow> memmove (mb_buffer s) 0 (mb_read s) used;
        Some (s\<lparr>mb_buffer := m, mb_write := used, mb_read := 0\<rparr>) }
      else Some s)"

definition realloc_membuf :: "allocator \<Rightarrow> membuf \<Rightarrow> nat \<Rightarrow> (membuf \<times> avs_error) option" where
  "realloc_membuf realloc s new_size = do {
     c_assert (mb_read s = 0);
     c_assert (mb_write s \<le> new_size);
     (case realloc new_size of
        None \<Rightarrow> Some (if new_size = 0 then (s\<lparr>mb_buffer := [], mb_size := 0\<rparr>, AVS_OK) else (s, AVS_ENOMEM))
      | Some fill \<Rightarrow>
          Some (s\<lparr>mb_buffer := take new_size (mb_buffer s) @ map fill [length (mb_buffer s)..<new_size],
                  mb_size := new_size\<rparr>, AVS_OK)) }"

text \<open>
  When the allocation fails, the bytes that still fit are written and their number is reported,
  unless there are none.
\<close>

definition membuf_write_some ::
  "allocator \<Rightarrow> membuf \<Rightarrow> bytes \<Rightarrow> (membuf \<times> nat \<times> avs_error) option" where
  "membuf_write_some realloc s buffer =
     (if length buffer = 0 then Some (s, 0, AVS_OK)
      else do {
        s \<leftarrow> (if mb_size s < mb_write s + length buffer then defragment_membuf s else Some s);
        (s, n, err) \<leftarrow>
          (if mb_size s < mb_write s + length buffer then do {
             (s, err) \<leftarrow> realloc_membuf realloc s (2 * mb_size s + length buffer);
             if err \<noteq> AVS_OK then do { n \<leftarrow> size_minus (mb_size s) (mb_write s); Some (s, n, err) }
             else Some (s, length buffer, AVS_OK) }
           else Some (s, length buffer, AVS_OK));
        if err \<noteq> AVS_OK \<and> n = 0 then Some (s, 0, err)
        else do {
          m \<leftarrow> wr_bytes (mb_buffer s) (mb_write s) (take n buffer);
          Some (s\<lparr>mb_buffer := m, mb_write := mb_write s + n\<rparr>, n, AVS_OK) } })"

definition membuf_reset :: "membuf \<Rightarrow> membuf \<times> avs_error" where
  "membuf_reset s = (s\<lparr>mb_read := 0, mb_write := 0\<rparr>, AVS_OK)"

definition membuf_read :: "membuf \<Rightarrow> nat \<Rightarrow> (membuf \<times> avs_error \<times> (bytes \<times> bool) option) option" where
  "membuf_read s buffer_length = do {
     bytes_left \<leftarrow> size_minus (mb_write s) (mb_read s);
     let bytes_read = (if bytes_left < buffer_length then bytes_left else buffer_length);
     bs \<leftarrow> rd_bytes (mb_buffer s) (mb_read s) bytes_read;
     let s = (if bytes_read \<noteq> 0
              then (let s = s\<lparr>mb_read := mb_read s + bytes_read\<rparr>
                    in if mb_read s = mb_write s then s\<lparr>mb_read := 0, mb_write := 0\<rparr> else s)
              else s);
     Some (s, AVS_OK, Some (bs, bytes_read = bytes_left)) }"

definition membuf_peek :: "membuf \<Rightarrow> nat \<Rightarrow> (avs_error \<times> byte option) option" where
  "membuf_peek s offset =
     (if mb_read s + offset \<ge> mb_write s then Some (AVS_EOF, None)
      else do { b \<leftarrow> rd8 (mb_buffer s) (mb_read s + offset); Some (AVS_OK, Some b) })"

definition membuf_ensure_free_bytes :: "allocator \<Rightarrow> membuf \<Rightarrow> nat \<Rightarrow> (membuf \<times> avs_error) option" where
  "membuf_ensure_free_bytes realloc s additional_size = do {
     s \<leftarrow> defragment_membuf s;
     if additional_size > 2 ^ 64 - 1 - mb_write s then Some (s, AVS_ENOMEM)
     else if mb_size s < mb_write s + additional_size
     then realloc_membuf realloc s (mb_write s + additional_size)
     else Some (s, AVS_OK) }"

definition membuf_fit :: "allocator \<Rightarrow> membuf \<Rightarrow> (membuf \<times> avs_error) option" where
  "membuf_fit realloc s = do {
     s \<leftarrow> defragment_membuf s;
     if mb_size s > mb_write s then realloc_membuf realloc s (mb_write s) else Some (s, AVS_OK) }"

text \<open>The second result is the buffer handed to the caller.\<close>

definition membuf_take_ownership :: "allocator \<Rightarrow> membuf \<Rightarrow> (membuf \<times> bytes) option" where
  "membuf_take_ownership realloc s = do {
     (s, _) \<leftarrow> membuf_fit realloc s;
     Some (fst (membuf_reset (s\<lparr>mb_buffer := [], mb_size := 0\<rparr>)), mb_buffer s) }"

definition membuf_vtable :: "allocator \<Rightarrow> membuf stream_vtable" where
  "membuf_vtable realloc =
     \<lparr>vt_write_some = Some (membuf_write_some realloc), vt_read = Some membuf_read,
      vt_peek = Some membuf_peek, vt_reset = Some membuf_reset\<rparr>"

definition membuf_create :: membuf where
  "membuf_create = \<lparr>mb_buffer = [], mb_size = 0, mb_write = 0, mb_read = 0\<rparr>"

section \<open>The interface of a stream that is written\<close>

text \<open>
  \<open>content\<close> is what was written so far and \<open>accepts s n\<close> says that \<open>n\<close> more bytes can be written.
\<close>

locale byte_sink =
  fixes vt :: "'s stream_vtable"
    and content :: "'s \<Rightarrow> bytes"
    and accepts :: "'s \<Rightarrow> nat \<Rightarrow> bool"
    and ok :: "'s \<Rightarrow> bool"
  assumes accepts_prefix: "accepts s (m + n) \<Longrightarrow> accepts s m"
    and write_ok: "ok s \<Longrightarrow> accepts s (length bs) \<Longrightarrow>
        \<exists>s'. stream_write vt s bs = Some (s', AVS_OK) \<and> ok s' \<and> content s' = content s @ bs
           \<and> (\<forall>n. accepts s' n \<longleftrightarrow> accepts s (length bs + n))"
    and write_full: "ok s \<Longrightarrow> \<not> accepts s (length bs) \<Longrightarrow>
        \<exists>s' e. stream_write vt s bs = Some (s', e) \<and> e \<noteq> AVS_OK \<and> ok s'"
begin

text \<open>Two writes in a row are one write, whether they fit or not.\<close>

lemma write_twice:
  assumes "ok s" and "accepts s (length xs + length ys)"
  shows "\<exists>s1 s2. stream_write vt s xs = Some (s1, AVS_OK) \<and> stream_write vt s1 ys = Some (s2, AVS_OK)
    \<and> ok s2 \<and> content s2 = content s @ xs @ ys
    \<and> (\<forall>n. accepts s2 n \<longleftrightarrow> accepts s (length xs + length ys + n))"
proof -
  from write_ok [OF assms(1) accepts_prefix [OF assms(2)]] obtain s1 where
    s1: "stream_write vt s xs = Some (s1, AVS_OK)" "ok s1" "content s1 = content s @ xs"
    "\<forall>n. accepts s1 n \<longleftrightarrow> accepts s (length xs + n)" by blast
  with assms(2) have "accepts s1 (length ys)" by simp
  from write_ok [OF s1(2) this] s1 show ?thesis by (auto simp: add.assoc)
qed

text \<open>From one state to another, exactly these bytes were written.\<close>

definition wrote :: "'s \<Rightarrow> 's \<Rightarrow> bytes \<Rightarrow> bool" where
  "wrote s s' bs \<longleftrightarrow> ok s' \<and> content s' = content s @ bs
     \<and> (\<forall>n. accepts s' n \<longleftrightarrow> accepts s (length bs + n))"

lemma wrote_trans: "wrote s s1 xs \<Longrightarrow> wrote s1 s2 ys \<Longrightarrow> wrote s s2 (xs @ ys)"
  by (auto simp: wrote_def add.assoc)

lemma wrote_ok: "wrote s s' bs \<Longrightarrow> ok s'"
  by (simp add: wrote_def)

lemma wrote_Nil: "ok s \<Longrightarrow> wrote s s []"
  by (simp add: wrote_def)

lemma wrote_accepts: "wrote s s' bs \<Longrightarrow> accepts s' n \<longleftrightarrow> accepts s (length bs + n)"
  by (simp add: wrote_def)

lemma write_wrote:
  assumes "ok s" and "accepts s (length bs)"
  obtains s' where "stream_write vt s bs = Some (s', AVS_OK)" "wrote s s' bs"
  using write_ok [OF assms] by (auto simp: wrote_def)

end

section \<open>The interface of a stream that is read\<close>

text \<open>
  \<open>content\<close> is what is still to be read. A read may return less than was asked for, but it makes
  progress, and it reports the end of the message exactly when everything has been read. A
  stream need not answer a read of length 0; one that does is a \<open>byte_source_zero\<close>.
\<close>

locale byte_source =
  fixes vt :: "'s stream_vtable"
    and content :: "'s \<Rightarrow> bytes"
    and ok :: "'s \<Rightarrow> bool"
  assumes read_ok: "ok s \<Longrightarrow> 0 < n \<Longrightarrow>
      \<exists>s' k. stream_read vt s n = Some (s', AVS_OK, Some (take k (content s), content s' = []))
        \<and> k \<le> n \<and> k \<le> length (content s) \<and> (0 < k \<or> content s = []) \<and> ok s'
        \<and> content s' = drop k (content s)"
begin

text \<open>A read result split into the bytes and the rest.\<close>

lemma read_split:
  assumes "ok s" and "0 < n"
  obtains s' bs where "stream_read vt s n = Some (s', AVS_OK, Some (bs, content s' = []))"
    "content s = bs @ content s'" "length bs \<le> n" "bs \<noteq> [] \<or> content s = []" "ok s'"
proof -
  from read_ok [OF assms] obtain s' k where
    "stream_read vt s n = Some (s', AVS_OK, Some (take k (content s), content s' = []))"
    "k \<le> n" "k \<le> length (content s)" "0 < k \<or> content s = []" "ok s'" "content s' = drop k (content s)"
    by blast
  then show thesis by (intro that [of s' "take k (content s)"]) auto
qed

lemma read_reliably_loop_ok:
  "ok s \<Longrightarrow> length acc \<le> n \<Longrightarrow> (fin \<Longrightarrow> content s = []) \<Longrightarrow>
   \<exists>s'. read_reliably_loop vt s n acc fin
      = Some (s', if n \<le> length acc + length (content s) then AVS_OK else AVS_EOF, take n (acc @ content s))
    \<and> ok s' \<and> content s' = drop (n - length acc) (content s)"
proof (induction "n - length acc" arbitrary: s acc fin rule: less_induct)
  case less
  show ?case
  proof (cases "length acc < n \<and> \<not> fin")
    case False
    with less.prems show ?thesis by (auto simp: read_reliably_loop.simps)
  next
    case True
    then have "0 < n - length acc" by simp
    from read_split [OF less.prems(1) this] obtain s1 bs where
      s1: "stream_read vt s (n - length acc) = Some (s1, AVS_OK, Some (bs, content s1 = []))"
      "content s = bs @ content s1" "length bs \<le> n - length acc" "bs \<noteq> [] \<or> content s = []" "ok s1" by blast
    have step: "read_reliably_loop vt s n acc fin = read_reliably_loop vt s1 n (acc @ bs) (content s1 = [])"
      using True s1(1) by (subst read_reliably_loop.simps) simp
    show ?thesis
    proof (cases "bs = []")
      case True
      with s1 have "content s = []" "content s1 = []" by auto
      with True step s1(5) \<open>length acc < n \<and> \<not> fin\<close> show ?thesis
        by (simp add: read_reliably_loop.simps [of _ s1])
    next
      case False
      then have "n - length (acc @ bs) < n - length acc" using True by (cases bs) auto
      moreover have "length (acc @ bs) \<le> n"
        using \<open>0 < n - length acc\<close> s1(3) unfolding length_append by linarith
      ultimately obtain s' where
        "read_reliably_loop vt s1 n (acc @ bs) (content s1 = [])
         = Some (s', if n \<le> length (acc @ bs) + length (content s1) then AVS_OK else AVS_EOF,
             take n ((acc @ bs) @ content s1))"
        "ok s'" "content s' = drop (n - length (acc @ bs)) (content s1)"
        using less.hyps [of "acc @ bs" s1 "content s1 = []"] s1(5) by blast
      moreover have "drop (n - length (acc @ bs)) (content s1) = drop (n - length acc) (bs @ content s1)"
        using s1(3) by simp
      ultimately show ?thesis using step s1(2) by (simp add: add.assoc)
    qed
  qed
qed

lemma read_reliably_ok:
  assumes "ok s"
  shows "\<exists>s'. stream_read_reliably vt s n
      = Some (s', if n \<le> length (content s) then AVS_OK else AVS_EOF, take n (content s))
    \<and> ok s' \<and> content s' = drop n (content s)"
  using read_reliably_loop_ok [OF assms, of "[]" n False] by (simp add: stream_read_reliably_def)

lemma getch_ok:
  assumes "ok s"
  shows "case content s of
      [] \<Rightarrow> \<exists>s'. stream_getch vt s = Some (s', AVS_EOF, None) \<and> ok s' \<and> content s' = []
    | b # bs \<Rightarrow> \<exists>s'. stream_getch vt s = Some (s', AVS_OK, Some (b, bs = [])) \<and> ok s' \<and> content s' = bs"
proof -
  from read_split [OF assms, of 1] obtain s' bs where
    "stream_read vt s 1 = Some (s', AVS_OK, Some (bs, content s' = []))"
    "content s = bs @ content s'" "length bs \<le> 1" "bs \<noteq> [] \<or> content s = []" "ok s'" by auto
  then show ?thesis by (cases bs) (auto simp: stream_getch_def split: list.splits)
qed

lemma ignore_to_end_ok:
  "ok s \<Longrightarrow> \<exists>s'. stream_ignore_to_end vt s = Some (s', AVS_OK) \<and> ok s' \<and> content s' = []"
proof (induction "content s" arbitrary: s)
  case Nil
  then show ?case using getch_ok [OF Nil.prems] by (auto simp: stream_ignore_to_end.simps [of vt s])
next
  case (Cons b bs)
  from getch_ok [OF Cons.prems] Cons.hyps(2) obtain s1 where
    s1: "stream_getch vt s = Some (s1, AVS_OK, Some (b, bs = []))" "ok s1" "content s1 = bs"
    by (auto split: list.splits)
  from Cons.hyps(1) [OF s1(3) [symmetric] s1(2)] s1(1) show ?case
    by (auto simp: stream_ignore_to_end.simps [of vt s])
qed

end

locale byte_source_zero = byte_source +
  assumes read_zero: "ok s \<Longrightarrow>
      \<exists>s'. stream_read vt s 0 = Some (s', AVS_OK, Some ([], content s = [])) \<and> ok s' \<and> content s' = content s"
begin

text \<open>Reads of any length.\<close>

lemma read_any:
  assumes "ok s"
  obtains s' bs where "stream_read vt s n = Some (s', AVS_OK, Some (bs, content s' = []))"
    "content s = bs @ content s'" "length bs \<le> n" "bs \<noteq> [] \<or> content s = [] \<or> n = 0" "ok s'"
proof (cases "n = 0")
  case True
  with read_zero [OF assms] that show ?thesis by fastforce
next
  case False
  with read_split [OF assms, of n] that show ?thesis by blast
qed

end

locale peekable_source = byte_source +
  assumes peek_ok: "ok s \<Longrightarrow>
      stream_peek vt s 0 = Some (case content s of [] \<Rightarrow> (AVS_EOF, None) | b # bs \<Rightarrow> (AVS_OK, Some b))"

section \<open>Copying a stream\<close>

locale stream_pair = src: byte_source ivt icontent iok + snk: byte_sink ovt ocontent accepts ook
  for ivt :: "'i stream_vtable" and icontent iok
    and ovt :: "'o stream_vtable" and ocontent accepts ook
begin

lemma copy_ok:
  "iok i \<Longrightarrow> ook s \<Longrightarrow> accepts s (length (icontent i)) \<Longrightarrow>
   \<exists>s' i'. stream_copy ovt ivt s i = Some (s', i', AVS_OK) \<and> iok i' \<and> icontent i' = []
     \<and> ook s' \<and> ocontent s' = ocontent s @ icontent i"
proof (induction "length (icontent i)" arbitrary: i s rule: less_induct)
  case less
  have "(0::nat) < 512" by simp
  from src.read_split [OF less.prems(1) this] obtain i1 bs where
    i1: "stream_read ivt i 512 = Some (i1, AVS_OK, Some (bs, icontent i1 = []))"
    "icontent i = bs @ icontent i1" "bs \<noteq> [] \<or> icontent i = []" "iok i1" by metis
  show ?case
  proof (cases "bs = []")
    case True
    with i1 less.prems show ?thesis by (auto simp: stream_copy.simps [of ovt ivt s i])
  next
    case False
    have "accepts s (length bs + length (icontent i1))" using less.prems(3) i1(2) by simp
    moreover from snk.accepts_prefix [OF this] have "accepts s (length bs)" .
    ultimately obtain s1 where s1: "stream_write ovt s bs = Some (s1, AVS_OK)" "ook s1"
      "ocontent s1 = ocontent s @ bs" "accepts s1 (length (icontent i1))"
      using snk.write_ok [OF less.prems(2), of bs] by blast
    have lt: "length (icontent i1) < length (icontent i)" using i1(2) False by simp
    show ?thesis
    proof (cases "icontent i1 = []")
      case True
      with i1 s1 False show ?thesis by (auto simp: stream_copy.simps [of ovt ivt s i])
    next
      case more: False
      have "stream_copy ovt ivt s i = stream_copy ovt ivt s1 i1"
        using False more i1(1) s1(1) by (subst stream_copy.simps) simp
      with less.hyps [OF lt i1(4) s1(2,4)] i1(2) s1(3) show ?thesis by auto
    qed
  qed
qed

end

section \<open>The implementations keep the interfaces\<close>

subsection \<open>Output buffer\<close>

definition outbuf_ok :: "outbuf \<Rightarrow> bool" where
  "outbuf_ok s \<longleftrightarrow> \<not> ob_finished s \<and> ob_offset s \<le> ob_size s \<and> length (ob_buffer s) = ob_size s"

definition outbuf_content :: "outbuf \<Rightarrow> bytes" where
  "outbuf_content s = take (ob_offset s) (ob_buffer s)"

definition outbuf_accepts :: "outbuf \<Rightarrow> nat \<Rightarrow> bool" where
  "outbuf_accepts s n \<longleftrightarrow> ob_offset s + n \<le> ob_size s"

lemma outbuf_write_some_fits:
  assumes "outbuf_ok s" and "outbuf_accepts s (length bs)"
  shows "\<exists>m. outbuf_write_some s bs = Some (s\<lparr>ob_buffer := m, ob_offset := ob_offset s + length bs\<rparr>, length bs, AVS_OK)
    \<and> length m = ob_size s \<and> take (ob_offset s + length bs) m = outbuf_content s @ bs"
  using assms by (auto simp: outbuf_write_some_def outbuf_ok_def outbuf_accepts_def outbuf_content_def
      wr_bytes_def)

lemma outbuf_write_some_short:
  assumes "outbuf_ok s" and "\<not> outbuf_accepts s (length bs)"
  shows "\<exists>m. outbuf_write_some s bs = Some (s\<lparr>ob_buffer := m, ob_offset := ob_size s\<rparr>, ob_size s - ob_offset s, AVS_OK)
    \<and> length m = ob_size s"
  using assms by (auto simp: outbuf_write_some_def outbuf_ok_def outbuf_accepts_def wr_bytes_def)

interpretation obs: byte_sink outbuf_vtable outbuf_content outbuf_accepts outbuf_ok
proof unfold_locales
  show "outbuf_accepts s m" if "outbuf_accepts s (m + n)" for s m n
    using that by (simp add: outbuf_accepts_def)
  fix s bs
  assume ok: "outbuf_ok s"
  show "\<exists>s'. stream_write outbuf_vtable s bs = Some (s', AVS_OK) \<and> outbuf_ok s'
      \<and> outbuf_content s' = outbuf_content s @ bs
      \<and> (\<forall>n. outbuf_accepts s' n \<longleftrightarrow> outbuf_accepts s (length bs + n))" if a: "outbuf_accepts s (length bs)"
  proof -
    from outbuf_write_some_fits [OF ok a] obtain m where m:
      "outbuf_write_some s bs = Some (s\<lparr>ob_buffer := m, ob_offset := ob_offset s + length bs\<rparr>, length bs, AVS_OK)"
      "length m = ob_size s" "take (ob_offset s + length bs) m = outbuf_content s @ bs" by blast
    have "stream_write outbuf_vtable s bs = Some (s\<lparr>ob_buffer := m, ob_offset := ob_offset s + length bs\<rparr>, AVS_OK)"
      using m(1) by (simp add: stream_write_def stream_write_some_def outbuf_vtable_def)
    moreover have "outbuf_ok (s\<lparr>ob_buffer := m, ob_offset := ob_offset s + length bs\<rparr>)"
      using m(2) ok a by (simp add: outbuf_ok_def outbuf_accepts_def)
    ultimately show ?thesis using m(3) by (auto simp: outbuf_content_def outbuf_accepts_def add.assoc)
  qed
  show "\<exists>s' e. stream_write outbuf_vtable s bs = Some (s', e) \<and> e \<noteq> AVS_OK \<and> outbuf_ok s'"
    if a: "\<not> outbuf_accepts s (length bs)"
  proof -
    from outbuf_write_some_short [OF ok a] obtain m where m:
      "outbuf_write_some s bs = Some (s\<lparr>ob_buffer := m, ob_offset := ob_size s\<rparr>, ob_size s - ob_offset s, AVS_OK)"
      "length m = ob_size s" by blast
    moreover have "ob_size s - ob_offset s \<noteq> length bs"
      using ok a unfolding outbuf_ok_def outbuf_accepts_def by linarith
    ultimately show ?thesis
      using ok by (simp add: stream_write_def stream_write_some_def outbuf_vtable_def outbuf_ok_def)
  qed
qed

lemma outbuf_set_buffer_ok [simp]:
  "length buffer = n \<Longrightarrow> outbuf_ok (outbuf_set_buffer AVS_STREAM_OUTBUF_STATIC_INITIALIZER buffer n)"
  "outbuf_content (outbuf_set_buffer AVS_STREAM_OUTBUF_STATIC_INITIALIZER buffer n) = []"
  "outbuf_accepts (outbuf_set_buffer AVS_STREAM_OUTBUF_STATIC_INITIALIZER buffer n) k \<longleftrightarrow> k \<le> n"
  by (simp_all add: outbuf_set_buffer_def AVS_STREAM_OUTBUF_STATIC_INITIALIZER_def outbuf_ok_def outbuf_content_def outbuf_accepts_def)

subsection \<open>Input buffer\<close>

definition inbuf_ok :: "inbuf \<Rightarrow> bool" where
  "inbuf_ok s \<longleftrightarrow> ib_offset s \<le> ib_size s \<and> length (ib_buffer s) = ib_size s"

definition inbuf_content :: "inbuf \<Rightarrow> bytes" where
  "inbuf_content s = drop (ib_offset s) (ib_buffer s)"

interpretation ibs: byte_source inbuf_vtable inbuf_content inbuf_ok
proof unfold_locales
  fix s and n :: nat
  assume ok: "inbuf_ok s" and n: "0 < n"
  define k where "k = min n (length (inbuf_content s))"
  have len: "length (inbuf_content s) = ib_size s - ib_offset s" "ib_offset s \<le> ib_size s"
    using ok by (simp_all add: inbuf_ok_def inbuf_content_def)
  have k: "(if ib_size s - ib_offset s < n then ib_size s - ib_offset s else n) = k"
    using len by (simp add: k_def min_def)
  have "ib_offset s + k \<le> length (ib_buffer s)" using ok len by (simp add: inbuf_ok_def k_def)
  then have rd: "rd_bytes (ib_buffer s) (ib_offset s) k = Some (take k (inbuf_content s))"
    by (simp add: rd_bytes_def inbuf_content_def)
  define s' where "s' = s\<lparr>ib_offset := ib_offset s + k\<rparr>"
  have fin: "ib_size s \<le> ib_offset s + k \<longleftrightarrow> inbuf_content s' = []"
    using ok by (simp add: s'_def inbuf_content_def inbuf_ok_def)
  have "stream_read inbuf_vtable s n = Some (s', AVS_OK, Some (take k (inbuf_content s), inbuf_content s' = []))"
    using n len(2) k rd fin
    by (simp add: stream_read_def inbuf_vtable_def inbuf_read_def s'_def [symmetric] Let_def)
  moreover have "inbuf_ok s'" "inbuf_content s' = drop k (inbuf_content s)"
    using ok len by (auto simp: s'_def inbuf_ok_def inbuf_content_def k_def add.commute)
  moreover have "k \<le> n" "k \<le> length (inbuf_content s)" "0 < k \<or> inbuf_content s = []"
    using n by (auto simp: k_def)
  ultimately show "\<exists>s' k. stream_read inbuf_vtable s n
        = Some (s', AVS_OK, Some (take k (inbuf_content s), inbuf_content s' = []))
      \<and> k \<le> n \<and> k \<le> length (inbuf_content s) \<and> (0 < k \<or> inbuf_content s = []) \<and> inbuf_ok s'
      \<and> inbuf_content s' = drop k (inbuf_content s)" by blast
qed

interpretation ibp: peekable_source inbuf_vtable inbuf_content inbuf_ok
proof unfold_locales
  fix s
  assume "inbuf_ok s"
  then show "stream_peek inbuf_vtable s 0 = Some (case inbuf_content s of [] \<Rightarrow> (AVS_EOF, None) | b # bs \<Rightarrow> (AVS_OK, Some b))"
    by (cases "ib_offset s < ib_size s")
      (auto simp: stream_peek_def inbuf_vtable_def inbuf_peek_def inbuf_ok_def inbuf_content_def rd8_def
        Cons_nth_drop_Suc [symmetric])
qed

lemma inbuf_set_buffer_ok [simp]:
  "inbuf_ok (inbuf_set_buffer buffer (length buffer))"
  "inbuf_content (inbuf_set_buffer buffer (length buffer)) = buffer"
  by (simp_all add: inbuf_set_buffer_def inbuf_ok_def inbuf_content_def)

text \<open>A read of length 0 from an input buffer assigns none of its outputs.\<close>

lemma inbuf_read_zero: "stream_read inbuf_vtable s 0 = Some (s, AVS_OK, None)"
  by (simp add: stream_read_def inbuf_vtable_def inbuf_read_def)

subsection \<open>Memory buffer\<close>

definition membuf_ok :: "membuf \<Rightarrow> bool" where
  "membuf_ok s \<longleftrightarrow> mb_read s \<le> mb_write s \<and> mb_write s \<le> mb_size s \<and> length (mb_buffer s) = mb_size s"

definition membuf_content :: "membuf \<Rightarrow> bytes" where
  "membuf_content s = drop (mb_read s) (take (mb_write s) (mb_buffer s))"

lemma membuf_content_length [simp]:
  "membuf_ok s \<Longrightarrow> length (membuf_content s) = mb_write s - mb_read s"
  by (simp add: membuf_ok_def membuf_content_def)

lemma defragment_membuf_ok:
  assumes "membuf_ok s"
  shows "\<exists>s'. defragment_membuf s = Some s' \<and> membuf_ok s' \<and> membuf_content s' = membuf_content s
    \<and> mb_read s' = 0 \<and> mb_write s' = mb_write s - mb_read s \<and> mb_size s' = mb_size s"
proof (cases "mb_read s = 0")
  case True
  with assms show ?thesis by (simp add: defragment_membuf_def)
next
  case False
  have "\<exists>m. memmove (mb_buffer s) 0 (mb_read s) (mb_write s - mb_read s) = Some m
      \<and> length m = mb_size s \<and> take (mb_write s - mb_read s) m = membuf_content s"
    using assms by (auto simp: memmove_def rd_bytes_def wr_bytes_def membuf_ok_def membuf_content_def
        drop_take)
  with False assms show ?thesis
    by (auto simp: defragment_membuf_def membuf_ok_def membuf_content_def)
qed

lemma realloc_membuf_ok:
  assumes "membuf_ok s" "mb_read s = 0" "mb_write s \<le> n" "realloc n = Some fill"
  shows "\<exists>s'. realloc_membuf realloc s n = Some (s', AVS_OK) \<and> membuf_ok s'
    \<and> membuf_content s' = membuf_content s \<and> mb_read s' = 0 \<and> mb_write s' = mb_write s \<and> mb_size s' = n"
proof -
  define m where "m = take n (mb_buffer s) @ map fill [length (mb_buffer s)..<n]"
  have "take (mb_write s) m = take (mb_write s) (mb_buffer s)" "length m = n"
    using assms(1,3) by (auto simp: m_def membuf_ok_def min_def)
  with assms show ?thesis
    by (auto simp: realloc_membuf_def m_def [symmetric] membuf_ok_def membuf_content_def)
qed

text \<open>Room for \<open>n\<close> more bytes, after moving the data and growing the buffer if necessary.\<close>

lemma membuf_write_at_end:
  assumes "membuf_ok s" "mb_write s + length bs \<le> mb_size s"
  shows "\<exists>m. wr_bytes (mb_buffer s) (mb_write s) bs = Some m
    \<and> membuf_ok (s\<lparr>mb_buffer := m, mb_write := mb_write s + length bs\<rparr>)
    \<and> membuf_content (s\<lparr>mb_buffer := m, mb_write := mb_write s + length bs\<rparr>) = membuf_content s @ bs"
  using assms by (auto simp: wr_bytes_def membuf_ok_def membuf_content_def)

lemma membuf_write_some_ok:
  assumes ok: "membuf_ok s" and alloc: "\<And>n. realloc n \<noteq> None"
  shows "\<exists>s'. membuf_write_some realloc s bs = Some (s', length bs, AVS_OK) \<and> membuf_ok s'
    \<and> membuf_content s' = membuf_content s @ bs"
proof (cases "bs = []")
  case True
  with ok show ?thesis by (simp add: membuf_write_some_def)
next
  case False
  from defragment_membuf_ok [OF ok] obtain d where d: "defragment_membuf s = Some d" "membuf_ok d"
    "membuf_content d = membuf_content s" "mb_read d = 0" by blast
  define s1 where "s1 = (if mb_size s < mb_write s + length bs then d else s)"
  have s1: "(if mb_size s < mb_write s + length bs then defragment_membuf s else Some s) = Some s1"
    "membuf_ok s1" "membuf_content s1 = membuf_content s"
    using d ok by (auto simp: s1_def)
  obtain fill where fill: "realloc (2 * mb_size s1 + length bs) = Some fill" using alloc by fast
  have "\<exists>s2. (if mb_size s1 < mb_write s1 + length bs then do {
         (s, err) \<leftarrow> realloc_membuf realloc s1 (2 * mb_size s1 + length bs);
         if err \<noteq> AVS_OK then do { n \<leftarrow> size_minus (mb_size s) (mb_write s); Some (s, n, err) }
         else Some (s, length bs, AVS_OK) }
       else Some (s1, length bs, AVS_OK)) = Some (s2, length bs, AVS_OK)
     \<and> membuf_ok s2 \<and> membuf_content s2 = membuf_content s \<and> mb_write s2 + length bs \<le> mb_size s2"
  proof (cases "mb_size s1 < mb_write s1 + length bs")
    case True
    then have "mb_read s1 = 0"
      using d(4) by (auto simp: s1_def split: if_splits)
    moreover have "mb_write s1 \<le> 2 * mb_size s1 + length bs" "mb_write s1 \<le> mb_size s1"
      using s1(2) by (simp_all add: membuf_ok_def)
    ultimately show ?thesis using realloc_membuf_ok [of s1 _ realloc, OF s1(2) _ _ fill] True s1(3) by auto
  next
    case False
    with s1 show ?thesis by simp
  qed
  then obtain s2 where s2: "(if mb_size s1 < mb_write s1 + length bs then do {
         (s, err) \<leftarrow> realloc_membuf realloc s1 (2 * mb_size s1 + length bs);
         if err \<noteq> AVS_OK then do { n \<leftarrow> size_minus (mb_size s) (mb_write s); Some (s, n, err) }
         else Some (s, length bs, AVS_OK) }
       else Some (s1, length bs, AVS_OK)) = Some (s2, length bs, AVS_OK)"
    "membuf_ok s2" "membuf_content s2 = membuf_content s" "mb_write s2 + length bs \<le> mb_size s2" by blast
  from membuf_write_at_end [OF s2(2,4)] s2(3) False show ?thesis
    by (auto simp: membuf_write_some_def s1(1) s2(1))
qed

interpretation mbs: byte_sink "membuf_vtable (\<lambda>_. Some fill)" membuf_content "\<lambda>_ _. True" membuf_ok
  for fill
proof unfold_locales
  fix s bs
  assume ok: "membuf_ok s"
  from membuf_write_some_ok [OF ok, of "\<lambda>_. Some fill" bs]
  show "\<exists>s'. stream_write (membuf_vtable (\<lambda>_. Some fill)) s bs = Some (s', AVS_OK) \<and> membuf_ok s'
      \<and> membuf_content s' = membuf_content s @ bs \<and> (\<forall>n. True \<longleftrightarrow> True)"
    by (auto simp: stream_write_def stream_write_some_def membuf_vtable_def)
qed simp_all

lemma membuf_read_ok:
  assumes ok: "membuf_ok s"
  shows "\<exists>s'. stream_read (membuf_vtable realloc) s n
        = Some (s', AVS_OK, Some (take n (membuf_content s), membuf_content s' = []))
      \<and> membuf_ok s' \<and> membuf_content s' = drop n (membuf_content s)"
proof -
  define k where "k = min n (mb_write s - mb_read s)"
  have k: "(if mb_write s - mb_read s < n then mb_write s - mb_read s else n) = k" by (simp add: k_def min_def)
  have le: "mb_read s \<le> mb_write s" "mb_read s + k \<le> length (mb_buffer s)"
    using ok by (auto simp: membuf_ok_def k_def)
  then have rd: "rd_bytes (mb_buffer s) (mb_read s) k = Some (take n (membuf_content s))"
    using ok by (auto simp: rd_bytes_def membuf_content_def membuf_ok_def k_def min_def drop_take)
  define s' where "s' = (if k \<noteq> 0 then (let s = s\<lparr>mb_read := mb_read s + k\<rparr>
                    in if mb_read s = mb_write s then s\<lparr>mb_read := 0, mb_write := 0\<rparr> else s) else s)"
  have s': "membuf_ok s'" "membuf_content s' = drop n (membuf_content s)"
    using ok by (auto simp: s'_def membuf_ok_def membuf_content_def k_def min_def Let_def add.commute)
  moreover have "k = mb_write s - mb_read s \<longleftrightarrow> membuf_content s' = []"
    unfolding s'(2) using ok by (auto simp: k_def min_def)
  moreover have "stream_read (membuf_vtable realloc) s n
      = Some (s', AVS_OK, Some (take n (membuf_content s), k = mb_write s - mb_read s))"
    using le rd k by (simp add: stream_read_def membuf_vtable_def membuf_read_def s'_def)
  ultimately show ?thesis by auto
qed

interpretation mbr: byte_source_zero "membuf_vtable realloc" membuf_content membuf_ok for realloc
proof unfold_locales
  fix s and n :: nat
  assume ok: "membuf_ok s"
  from membuf_read_ok [OF ok, of realloc n] obtain s' where s': "stream_read (membuf_vtable realloc) s n
        = Some (s', AVS_OK, Some (take n (membuf_content s), membuf_content s' = []))"
    "membuf_ok s'" "membuf_content s' = drop n (membuf_content s)" by blast
  show "\<exists>s' k. stream_read (membuf_vtable realloc) s n
        = Some (s', AVS_OK, Some (take k (membuf_content s), membuf_content s' = []))
      \<and> k \<le> n \<and> k \<le> length (membuf_content s) \<and> (0 < k \<or> membuf_content s = []) \<and> membuf_ok s'
      \<and> membuf_content s' = drop k (membuf_content s)" if "0 < n"
    by (rule exI [of _ s'], rule exI [of _ "min n (length (membuf_content s))"])
      (use s' that in \<open>auto simp: min_def\<close>)
next
  fix s
  assume ok: "membuf_ok s"
  show "\<exists>s'. stream_read (membuf_vtable realloc) s 0 = Some (s', AVS_OK, Some ([], membuf_content s = []))
      \<and> membuf_ok s' \<and> membuf_content s' = membuf_content s"
    using membuf_read_ok [OF ok, of realloc 0] by auto
qed

interpretation mbp: peekable_source "membuf_vtable realloc" membuf_content membuf_ok for realloc
proof unfold_locales
  fix s
  assume ok: "membuf_ok s"
  show "stream_peek (membuf_vtable realloc) s 0 = Some (case membuf_content s of [] \<Rightarrow> (AVS_EOF, None) | b # bs \<Rightarrow> (AVS_OK, Some b))"
  proof (cases "mb_read s < mb_write s")
    case True
    with ok have "membuf_content s = mb_buffer s ! mb_read s # drop (Suc (mb_read s)) (take (mb_write s) (mb_buffer s))"
      by (simp add: membuf_content_def membuf_ok_def Cons_nth_drop_Suc [symmetric])
    with True ok show ?thesis
      by (simp add: stream_peek_def membuf_vtable_def membuf_peek_def membuf_ok_def rd8_def)
  next
    case False
    with ok show ?thesis by (simp add: stream_peek_def membuf_vtable_def membuf_peek_def membuf_ok_def membuf_content_def)
  qed
qed

interpretation mbcopy: stream_pair "membuf_vtable realloc" membuf_content membuf_ok
  outbuf_vtable outbuf_content outbuf_accepts outbuf_ok for realloc
  by unfold_locales

section \<open>Properties\<close>

text \<open>Copying a memory buffer to an output buffer with room for its content, in chunks of 512
  bytes, ends successfully with the whole content appended to the output and nothing left to read.\<close>

theorem stream_copy_correct:
  assumes "membuf_ok i" and "outbuf_ok s" and "outbuf_accepts s (length (membuf_content i))"
  shows "\<exists>s' i'. stream_copy outbuf_vtable (membuf_vtable realloc) s i = Some (s', i', AVS_OK)
    \<and> membuf_content i' = [] \<and> outbuf_content s' = outbuf_content s @ membuf_content i"
  using mbcopy.copy_ok [OF assms] by blast

theorem stream_copy_witness:
  "\<exists>s' i'. stream_copy outbuf_vtable (membuf_vtable (\<lambda>_. None)) (outbuf_set_buffer AVS_STREAM_OUTBUF_STATIC_INITIALIZER (replicate 700 0) 700)
       \<lparr>mb_buffer = replicate 650 7, mb_size = 650, mb_write = 640, mb_read = 10\<rparr> = Some (s', i', AVS_OK)
     \<and> outbuf_content s' = replicate 630 7"
proof -
  have "membuf_ok \<lparr>mb_buffer = replicate 650 7, mb_size = 650, mb_write = 640, mb_read = 10\<rparr>"
    "membuf_content \<lparr>mb_buffer = replicate 650 7, mb_size = 650, mb_write = 640, mb_read = 10\<rparr> = replicate 630 7"
    by (simp_all only: membuf_ok_def membuf_content_def membuf.simps length_replicate take_replicate drop_replicate)
      simp_all
  from stream_copy_correct [OF this(1), of "outbuf_set_buffer AVS_STREAM_OUTBUF_STATIC_INITIALIZER (replicate 700 0) 700" "\<lambda>_. None"] this(2)
  moreover have "(630::nat) \<le> 700" by simp
  ultimately show ?thesis by (simp only: length_replicate outbuf_set_buffer_ok append_Nil simp_thms) blast
qed

end
