(* ===== verification/Avs_Persistence.thy ===== *)
theory Avs_Persistence
  imports Avs_Stream Anjay_Notify
begin

text \<open>
  The persistence layer of \<open>avs_commons\<close> (\<open>persistence/avs_persistence.c\<close>): numbers, booleans, byte
  strings and lists are stored to a stream and restored from it by the same calls, which a context
  directs. Integers are stored in network order, a list as the number of its elements and the elements.
  A list element that is restored takes an address from the allocator, as in \<open>Anjay_Notify\<close>.
\<close>

section \<open>Contexts\<close>

datatype persistence_direction = AVS_PERSISTENCE_STORE | AVS_PERSISTENCE_RESTORE

record 's persistence_context =
  pc_direction :: persistence_direction
  pc_stream :: "'s stream_vtable"

definition avs_persistence_store_context_create :: "'s stream_vtable \<Rightarrow> 's persistence_context" where
  "avs_persistence_store_context_create vt = \<lparr>pc_direction = AVS_PERSISTENCE_STORE, pc_stream = vt\<rparr>"

definition avs_persistence_restore_context_create :: "'s stream_vtable \<Rightarrow> 's persistence_context" where
  "avs_persistence_restore_context_create vt = \<lparr>pc_direction = AVS_PERSISTENCE_RESTORE, pc_stream = vt\<rparr>"

section \<open>Storing\<close>

definition persist_bool :: "'s stream_vtable \<Rightarrow> 's \<Rightarrow> bool \<Rightarrow> ('s \<times> avs_error) option" where
  "persist_bool vt s value = stream_write vt s [if value then 1 else 0]"

definition persist_bytes :: "'s stream_vtable \<Rightarrow> 's \<Rightarrow> bytes \<Rightarrow> ('s \<times> avs_error) option" where
  "persist_bytes vt s buffer = stream_write vt s buffer"

definition persist_u16 :: "'s stream_vtable \<Rightarrow> 's \<Rightarrow> nat \<Rightarrow> ('s \<times> avs_error) option" where
  "persist_u16 vt s value = stream_write vt s (be_bytes 2 value)"

definition persist_u32 :: "'s stream_vtable \<Rightarrow> 's \<Rightarrow> nat \<Rightarrow> ('s \<times> avs_error) option" where
  "persist_u32 vt s value = stream_write vt s (be_bytes 4 value)"

definition persist_u64 :: "'s stream_vtable \<Rightarrow> 's \<Rightarrow> nat \<Rightarrow> ('s \<times> avs_error) option" where
  "persist_u64 vt s value = stream_write vt s (be_bytes 8 value)"

definition persist_sized_buffer :: "'s stream_vtable \<Rightarrow> 's \<Rightarrow> bytes option \<Rightarrow> nat \<Rightarrow> ('s \<times> avs_error) option" where
  "persist_sized_buffer vt s data data_size =
     (let size32 = data_size mod 2 ^ 32 in
      if size32 \<noteq> data_size then Some (s, AVS_EOVERFLOW)
      else do {
        (s, err) \<leftarrow> persist_u32 vt s size32;
        if err = AVS_OK \<and> size32 > 0 then do { m \<leftarrow> data; buffer \<leftarrow> rd_bytes m 0 data_size; persist_bytes vt s buffer }
        else Some (s, err) })"

text \<open>A string is given without its terminator.\<close>

definition persist_string :: "'s stream_vtable \<Rightarrow> 's \<Rightarrow> bytes option \<Rightarrow> ('s \<times> avs_error) option" where
  "persist_string vt s str =
     (case str of None \<Rightarrow> persist_sized_buffer vt s None 0
      | Some cs \<Rightarrow> persist_sized_buffer vt s (Some (cs @ [0])) (length cs + 1))"

text \<open>A handler of list elements gets a pointer to the element, which may be \<open>NULL\<close>.\<close>

type_synonym ('s, 'e) element_handler =
  "'s \<Rightarrow> 'e option \<Rightarrow> allocs \<Rightarrow> ('s \<times> avs_error \<times> 'e option \<times> allocs) option"

fun persist_elements ::
  "('s, 'e) element_handler \<Rightarrow> 's \<Rightarrow> 'e list \<Rightarrow> allocs \<Rightarrow> ('s \<times> avs_error \<times> 'e list \<times> allocs) option" where
  "persist_elements handler s [] al = Some (s, AVS_OK, [], al)"
| "persist_elements handler s (x # xs) al = do {
     (s, err, element, al) \<leftarrow> handler s (Some x) al;
     let x = (case element of None \<Rightarrow> x | Some y \<Rightarrow> y);
     if err \<noteq> AVS_OK then Some (s, err, x # xs, al)
     else do {
       (s, err, ys, al) \<leftarrow> persist_elements handler s xs al;
       Some (s, err, x # ys, al) } }"

definition persist_list ::
  "'s stream_vtable \<Rightarrow> ('s, 'e) element_handler \<Rightarrow> 's \<Rightarrow> 'e list \<Rightarrow> allocs \<Rightarrow>
   ('s \<times> avs_error \<times> 'e list \<times> allocs) option" where
  "persist_list vt handler s xs al =
     (let count32 = length xs mod 2 ^ 32 in
      if length xs \<noteq> count32 then Some (s, AVS_EOVERFLOW, xs, al)
      else do {
        (s, err) \<leftarrow> persist_u32 vt s count32;
        if err = AVS_OK then persist_elements handler s xs al else Some (s, err, xs, al) })"

section \<open>Restoring\<close>

text \<open>
  A byte other than 0 and 1 is not a value of type \<open>bool\<close>; \<open>restore_bool\<close> stores it nevertheless, and
  the caller that reads the variable has undefined behaviour.
\<close>

definition restore_bool :: "'s stream_vtable \<Rightarrow> 's \<Rightarrow> bool \<Rightarrow> ('s \<times> avs_error \<times> bool) option" where
  "restore_bool vt s out = do {
     (s, err, bs) \<leftarrow> stream_read_reliably vt s 1;
     (case bs of
        [] \<Rightarrow> Some (s, err, out)
      | b # _ \<Rightarrow> if b = 0 then Some (s, err, False) else if b = 1 then Some (s, err, True) else None) }"

definition restore_bytes :: "'s stream_vtable \<Rightarrow> 's \<Rightarrow> bytes \<Rightarrow> ('s \<times> avs_error \<times> bytes) option" where
  "restore_bytes vt s buffer = do {
     (s, err, bs) \<leftarrow> stream_read_reliably vt s (length buffer);
     Some (s, err, bs @ drop (length bs) buffer) }"

definition restore_u16 :: "'s stream_vtable \<Rightarrow> 's \<Rightarrow> nat \<Rightarrow> ('s \<times> avs_error \<times> nat) option" where
  "restore_u16 vt s out = do {
     (s, err, tmp) \<leftarrow> stream_read_reliably vt s 2;
     Some (s, err, if err = AVS_OK then be_nat tmp else out) }"

definition restore_u32 :: "'s stream_vtable \<Rightarrow> 's \<Rightarrow> nat \<Rightarrow> ('s \<times> avs_error \<times> nat) option" where
  "restore_u32 vt s out = do {
     (s, err, tmp) \<leftarrow> stream_read_reliably vt s 4;
     Some (s, err, if err = AVS_OK then be_nat tmp else out) }"

definition restore_u64 :: "'s stream_vtable \<Rightarrow> 's \<Rightarrow> nat \<Rightarrow> ('s \<times> avs_error \<times> nat) option" where
  "restore_u64 vt s out = do {
     (s, err, tmp) \<leftarrow> stream_read_reliably vt s 8;
     Some (s, err, if err = AVS_OK then be_nat tmp else out) }"

definition restore_sized_buffer ::
  "'s stream_vtable \<Rightarrow> 's \<Rightarrow> bytes option \<Rightarrow> nat \<Rightarrow> allocs \<Rightarrow> ('s \<times> avs_error \<times> bytes option \<times> nat \<times> allocs) option" where
  "restore_sized_buffer vt s data data_size al = do {
     c_assert (data = None);
     c_assert (data_size = 0);
     (s, err, size32) \<leftarrow> restore_u32 vt s 0;
     if err \<noteq> AVS_OK then Some (s, err, data, data_size, al)
     else if size32 = 0 then Some (s, AVS_OK, data, data_size, al)
     else (case alloc_next al of
         (None, al) \<Rightarrow> Some (s, AVS_ENOMEM, data, data_size, al)
       | (Some _, al) \<Rightarrow> do {
           (s, err, buffer) \<leftarrow> restore_bytes vt s (replicate size32 0);
           if err \<noteq> AVS_OK then Some (s, err, None, data_size, al) else Some (s, err, Some buffer, size32, al) }) }"

definition restore_string :: "'s stream_vtable \<Rightarrow> 's \<Rightarrow> bytes option \<Rightarrow> allocs \<Rightarrow> ('s \<times> avs_error \<times> bytes option \<times> allocs) option" where
  "restore_string vt s str al = do {
     (s, err, str, data_size, al) \<leftarrow> restore_sized_buffer vt s str 0 al;
     if err \<noteq> AVS_OK then Some (s, err, str, al)
     else do {
       bad \<leftarrow> (if data_size > 0 then do { m \<leftarrow> str; b \<leftarrow> rd8 m (data_size - 1); Some (b \<noteq> 0) } else Some False);
       if bad then Some (s, AVS_EBADMSG, None, al) else Some (s, AVS_OK, str, al) } }"

fun restore_elements ::
  "('s, 'e) element_handler \<Rightarrow> nat \<Rightarrow> 's \<Rightarrow> 'e list \<Rightarrow> allocs \<Rightarrow> ('s \<times> avs_error \<times> 'e list \<times> allocs) option" where
  "restore_elements handler 0 s xs al = Some (s, AVS_OK, xs, al)"
| "restore_elements handler (Suc count) s xs al = do {
     (s, err, element, al) \<leftarrow> handler s None al;
     let xs = (case element of None \<Rightarrow> xs | Some x \<Rightarrow> xs @ [x]);
     if err \<noteq> AVS_OK then Some (s, err, xs, al) else restore_elements handler count s xs al }"

definition restore_list ::
  "'s stream_vtable \<Rightarrow> ('s, 'e) element_handler \<Rightarrow> bool \<Rightarrow> 's \<Rightarrow> 'e list \<Rightarrow> allocs \<Rightarrow>
   ('s \<times> avs_error \<times> 'e list \<times> allocs) option" where
  "restore_list vt handler cleanup s xs al = do {
     c_assert (xs = []);
     (s, err, count) \<leftarrow> restore_u32 vt s 0;
     (s, err, xs, al) \<leftarrow> (if err = AVS_OK then restore_elements handler count s xs al else Some (s, err, xs, al));
     Some (s, err, if err \<noteq> AVS_OK \<and> cleanup then [] else xs, al) }"

section \<open>Either direction\<close>

text \<open>The value passed by reference is the argument and, after it may have been restored, a result.\<close>

definition avs_persistence_u16 :: "'s persistence_context \<Rightarrow> 's \<Rightarrow> nat \<Rightarrow> ('s \<times> avs_error \<times> nat) option" where
  "avs_persistence_u16 ctx s value =
     (case pc_direction ctx of
        AVS_PERSISTENCE_STORE \<Rightarrow> do { (s, err) \<leftarrow> persist_u16 (pc_stream ctx) s value; Some (s, err, value) }
      | AVS_PERSISTENCE_RESTORE \<Rightarrow> restore_u16 (pc_stream ctx) s value)"

definition avs_persistence_u32 :: "'s persistence_context \<Rightarrow> 's \<Rightarrow> nat \<Rightarrow> ('s \<times> avs_error \<times> nat) option" where
  "avs_persistence_u32 ctx s value =
     (case pc_direction ctx of
        AVS_PERSISTENCE_STORE \<Rightarrow> do { (s, err) \<leftarrow> persist_u32 (pc_stream ctx) s value; Some (s, err, value) }
      | AVS_PERSISTENCE_RESTORE \<Rightarrow> restore_u32 (pc_stream ctx) s value)"

definition avs_persistence_u64 :: "'s persistence_context \<Rightarrow> 's \<Rightarrow> nat \<Rightarrow> ('s \<times> avs_error \<times> nat) option" where
  "avs_persistence_u64 ctx s value =
     (case pc_direction ctx of
        AVS_PERSISTENCE_STORE \<Rightarrow> do { (s, err) \<leftarrow> persist_u64 (pc_stream ctx) s value; Some (s, err, value) }
      | AVS_PERSISTENCE_RESTORE \<Rightarrow> restore_u64 (pc_stream ctx) s value)"

definition avs_persistence_bool :: "'s persistence_context \<Rightarrow> 's \<Rightarrow> bool \<Rightarrow> ('s \<times> avs_error \<times> bool) option" where
  "avs_persistence_bool ctx s value =
     (case pc_direction ctx of
        AVS_PERSISTENCE_STORE \<Rightarrow> do { (s, err) \<leftarrow> persist_bool (pc_stream ctx) s value; Some (s, err, value) }
      | AVS_PERSISTENCE_RESTORE \<Rightarrow> restore_bool (pc_stream ctx) s value)"

definition avs_persistence_bytes :: "'s persistence_context \<Rightarrow> 's \<Rightarrow> bytes \<Rightarrow> ('s \<times> avs_error \<times> bytes) option" where
  "avs_persistence_bytes ctx s buffer =
     (case pc_direction ctx of
        AVS_PERSISTENCE_STORE \<Rightarrow> do { (s, err) \<leftarrow> persist_bytes (pc_stream ctx) s buffer; Some (s, err, buffer) }
      | AVS_PERSISTENCE_RESTORE \<Rightarrow> restore_bytes (pc_stream ctx) s buffer)"

definition avs_persistence_string ::
  "'s persistence_context \<Rightarrow> 's \<Rightarrow> bytes option \<Rightarrow> allocs \<Rightarrow> ('s \<times> avs_error \<times> bytes option \<times> allocs) option" where
  "avs_persistence_string ctx s str al =
     (case pc_direction ctx of
        AVS_PERSISTENCE_STORE \<Rightarrow> do { (s, err) \<leftarrow> persist_string (pc_stream ctx) s str; Some (s, err, str, al) }
      | AVS_PERSISTENCE_RESTORE \<Rightarrow> restore_string (pc_stream ctx) s str al)"

definition avs_persistence_custom_allocated_list ::
  "'s persistence_context \<Rightarrow> ('s, 'e) element_handler \<Rightarrow> bool \<Rightarrow> 's \<Rightarrow> 'e list \<Rightarrow> allocs \<Rightarrow>
   ('s \<times> avs_error \<times> 'e list \<times> allocs) option" where
  "avs_persistence_custom_allocated_list ctx handler cleanup s xs al =
     (if pc_direction ctx = AVS_PERSISTENCE_RESTORE \<and> xs \<noteq> [] then Some (s, AVS_EINVAL, xs, al)
      else (case pc_direction ctx of
          AVS_PERSISTENCE_STORE \<Rightarrow> persist_list (pc_stream ctx) handler s xs al
        | AVS_PERSISTENCE_RESTORE \<Rightarrow> restore_list (pc_stream ctx) handler cleanup s xs al))"

text \<open>
  \<open>persistence_list_handler\<close> allocates an element of zeros where it gets none. It checks the wrong
  pointer afterwards, so that a failed allocation reaches the handler as \<open>NULL\<close>.
\<close>

definition persistence_list_handler ::
  "(nat \<Rightarrow> 'e) \<Rightarrow> ('s, 'e) element_handler \<Rightarrow> ('s, 'e) element_handler" where
  "persistence_list_handler zeros handler s element al =
     (case element of
        Some e \<Rightarrow> handler s (Some e) al
      | None \<Rightarrow> (case alloc_next al of (p, al) \<Rightarrow> handler s (map_option zeros p) al))"

definition avs_persistence_list ::
  "'s persistence_context \<Rightarrow> (nat \<Rightarrow> 'e) \<Rightarrow> ('s, 'e) element_handler \<Rightarrow> bool \<Rightarrow> 's \<Rightarrow> 'e list \<Rightarrow> allocs \<Rightarrow>
   ('s \<times> avs_error \<times> 'e list \<times> allocs) option" where
  "avs_persistence_list ctx zeros handler cleanup s xs al =
     avs_persistence_custom_allocated_list ctx (persistence_list_handler zeros handler) cleanup s xs al"

lemmas persistence_directions = avs_persistence_store_context_create_def avs_persistence_restore_context_create_def
  avs_persistence_u16_def avs_persistence_u32_def avs_persistence_u64_def avs_persistence_bool_def avs_persistence_bytes_def
  avs_persistence_string_def avs_persistence_list_def avs_persistence_custom_allocated_list_def

section \<open>What is stored\<close>

text \<open>The next \<open>n\<close> allocations succeed.\<close>

definition enough :: "nat \<Rightarrow> allocs \<Rightarrow> bool" where
  "enough n al \<longleftrightarrow> n \<le> length al \<and> None \<notin> set (take n al)"

lemma enough_Suc: "enough (Suc n) al \<longleftrightarrow> (\<exists>p al1. al = Some p # al1 \<and> enough n al1)"
  by (cases al) (auto simp: enough_def intro: option.exhaust_sel)

context byte_sink begin

lemma persist_number_ok:
  assumes "ok s" and "accepts s k"
  shows "k = 2 \<Longrightarrow> \<exists>s'. persist_u16 vt s v = Some (s', AVS_OK) \<and> wrote s s' (be_bytes k v)"
    and "k = 4 \<Longrightarrow> \<exists>s'. persist_u32 vt s v = Some (s', AVS_OK) \<and> wrote s s' (be_bytes k v)"
    and "k = 8 \<Longrightarrow> \<exists>s'. persist_u64 vt s v = Some (s', AVS_OK) \<and> wrote s s' (be_bytes k v)"
  using write_wrote [OF assms(1), of "be_bytes k v"] assms(2)
  by (auto simp: persist_u16_def persist_u32_def persist_u64_def)

lemma persist_bool_ok:
  assumes "ok s" and "accepts s 1"
  shows "\<exists>s'. persist_bool vt s v = Some (s', AVS_OK) \<and> wrote s s' [if v then 1 else 0]"
proof -
  have "accepts s (length [if v then 1 else 0 :: byte])" using assms(2) by simp
  from write_wrote [OF assms(1) this] obtain s' where
    "stream_write vt s [if v then 1 else 0] = Some (s', AVS_OK)" "wrote s s' [if v then 1 else 0]" .
  then show ?thesis unfolding persist_bool_def by blast
qed

lemma persist_string_ok:
  assumes s: "ok s" "accepts s (4 + length cs + 1)" and n: "length cs + 1 < 2 ^ 32"
  shows "\<exists>s'. persist_string vt s (Some cs) = Some (s', AVS_OK) \<and> wrote s s' (be_bytes 4 (length cs + 1) @ cs @ [0])"
proof -
  have "accepts s (4 + (length cs + 1))" using s(2) by (simp add: add.assoc)
  then have a: "accepts s 4" using accepts_prefix by blast
  from persist_number_ok(2) [OF s(1) a refl, of "length cs + 1"] obtain s1 where
    s1: "persist_u32 vt s (length cs + 1) = Some (s1, AVS_OK)" "wrote s s1 (be_bytes 4 (length cs + 1))" by blast
  have "accepts s1 (length (cs @ [0 :: byte]))" using s(2) wrote_accepts [OF s1(2)] by simp
  from write_wrote [OF wrote_ok [OF s1(2)] this] obtain s2 where
    s2: "stream_write vt s1 (cs @ [0]) = Some (s2, AVS_OK)" "wrote s1 s2 (cs @ [0])" by blast
  show ?thesis
    using s1(1) s2(1) wrote_trans [OF s1(2) s2(2)] mod_less [OF n]
    by (simp add: persist_string_def persist_sized_buffer_def persist_bytes_def rd_bytes_def Let_def del: One_nat_def)
qed

text \<open>A list is stored if every element is.\<close>

definition stores :: "('s, 'e) element_handler \<Rightarrow> 'e \<Rightarrow> bytes \<Rightarrow> bool" where
  "stores handler x bs \<longleftrightarrow> (\<forall>s al. ok s \<longrightarrow> accepts s (length bs) \<longrightarrow>
     (\<exists>s'. handler s (Some x) al = Some (s', AVS_OK, Some x, al) \<and> wrote s s' bs))"

lemma storesE:
  assumes "stores handler x bs" and "ok s" and "accepts s (length bs)"
  obtains s' where "handler s (Some x) al = Some (s', AVS_OK, Some x, al)" "wrote s s' bs"
  using assms by (force simp: stores_def)

lemma persist_elements_ok:
  assumes "\<forall>x \<in> set xs. stores handler x (enc x)" and "ok s" and "accepts s (length (concat (map enc xs)))"
  shows "\<exists>s'. persist_elements handler s xs al = Some (s', AVS_OK, xs, al) \<and> wrote s s' (concat (map enc xs))"
  using assms
proof (induction xs arbitrary: s)
  case Nil
  then show ?case by (simp add: wrote_Nil)
next
  case (Cons x xs)
  have "accepts s (length (enc x) + length (concat (map enc xs)))" using Cons.prems(3) by simp
  then have "accepts s (length (enc x))" by (rule accepts_prefix)
  with Cons.prems(1,2) obtain s1 where
    s1: "handler s (Some x) al = Some (s1, AVS_OK, Some x, al)" "wrote s s1 (enc x)"
    using storesE [of handler x "enc x" s al] by auto
  have "accepts s1 (length (concat (map enc xs)))" using Cons.prems(3) wrote_accepts [OF s1(2)] by simp
  from Cons.IH [OF _ wrote_ok [OF s1(2)] this] Cons.prems(1) obtain s2 where
    s2: "persist_elements handler s1 xs al = Some (s2, AVS_OK, xs, al)" "wrote s1 s2 (concat (map enc xs))" by auto
  from s1 s2 wrote_trans [OF s1(2) s2(2)] show ?case by auto
qed

lemma persist_list_ok:
  assumes elements: "\<forall>x \<in> set xs. stores handler x (enc x)"
    and s: "ok s" "accepts s (4 + length (concat (map enc xs)))" and n: "length xs < 2 ^ 32"
  shows "\<exists>s'. persist_list vt handler s xs al = Some (s', AVS_OK, xs, al)
    \<and> wrote s s' (be_bytes 4 (length xs) @ concat (map enc xs))"
proof -
  from persist_number_ok(2) [OF s(1) accepts_prefix [OF s(2)] refl, of "length xs"] obtain s1 where
    s1: "persist_u32 vt s (length xs) = Some (s1, AVS_OK)" "wrote s s1 (be_bytes 4 (length xs))" by blast
  have "accepts s1 (length (concat (map enc xs)))" using s(2) wrote_accepts [OF s1(2)] by simp
  from persist_elements_ok [OF elements wrote_ok [OF s1(2)] this] obtain s2 where
    s2: "persist_elements handler s1 xs al = Some (s2, AVS_OK, xs, al)" "wrote s1 s2 (concat (map enc xs))" by auto
  show ?thesis using s1(1) s2(1) mod_less [OF n] wrote_trans [OF s1(2) s2(2)] by (simp add: persist_list_def Let_def)
qed

end

section \<open>What is restored\<close>

text \<open>
  On any input, a read of \<open>k\<close> bytes yields them or reports that there are fewer. The element handler of
  a list is the argument of its rules, as is the encoding of the elements.
\<close>

context byte_source begin

lemma restore_number:
  assumes "ok s"
  shows "k = 2 \<Longrightarrow> \<exists>s'. restore_u16 vt s v
      = Some (s', if k \<le> length (content s) then (AVS_OK, be_nat (take k (content s))) else (AVS_EOF, v))
      \<and> ok s' \<and> content s' = drop k (content s)"
    and "k = 4 \<Longrightarrow> \<exists>s'. restore_u32 vt s v
      = Some (s', if k \<le> length (content s) then (AVS_OK, be_nat (take k (content s))) else (AVS_EOF, v))
      \<and> ok s' \<and> content s' = drop k (content s)"
    and "k = 8 \<Longrightarrow> \<exists>s'. restore_u64 vt s v
      = Some (s', if k \<le> length (content s) then (AVS_OK, be_nat (take k (content s))) else (AVS_EOF, v))
      \<and> ok s' \<and> content s' = drop k (content s)"
  using read_reliably_ok [OF assms, of k] by (auto simp: restore_u16_def restore_u32_def restore_u64_def)

lemma restore_number_stored:
  assumes "ok s" and "content s = be_bytes k v @ rest" and "v < 256 ^ k"
  shows "k = 2 \<Longrightarrow> \<exists>s'. restore_u16 vt s out = Some (s', AVS_OK, v) \<and> ok s' \<and> content s' = rest"
    and "k = 4 \<Longrightarrow> \<exists>s'. restore_u32 vt s out = Some (s', AVS_OK, v) \<and> ok s' \<and> content s' = rest"
    and "k = 8 \<Longrightarrow> \<exists>s'. restore_u64 vt s out = Some (s', AVS_OK, v) \<and> ok s' \<and> content s' = rest"
  using restore_number [OF assms(1), of k out] assms(2,3) by auto

lemma restore_bool_stored:
  assumes "ok s" and "content s = (if v then 1 else 0) # rest"
  shows "\<exists>s'. restore_bool vt s out = Some (s', AVS_OK, v) \<and> ok s' \<and> content s' = rest"
  using read_reliably_ok [OF assms(1), of 1] assms(2) by (auto simp: restore_bool_def)

lemma restore_string_stored:
  assumes s: "ok s" "content s = be_bytes 4 (length cs + 1) @ cs @ 0 # rest" and n: "length cs + 1 < 2 ^ 32"
    and al: "alloc_next al = (Some p, al')"
  shows "\<exists>s'. restore_string vt s None al = Some (s', AVS_OK, Some (cs @ [0]), al') \<and> ok s' \<and> content s' = rest"
proof -
  have "length cs + 1 < 256 ^ 4" using n by simp
  from restore_number_stored(2) [OF s(1,2) this refl] obtain s1 where
    s1: "restore_u32 vt s 0 = Some (s1, AVS_OK, length cs + 1)" "ok s1" "content s1 = cs @ 0 # rest" by blast
  from read_reliably_ok [OF s1(2), of "length cs + 1"] s1(3) obtain s2 where
    s2: "stream_read_reliably vt s1 (length cs + 1) = Some (s2, AVS_OK, cs @ [0])" "ok s2" "content s2 = rest" by auto
  show ?thesis
    using s1(1) s2 al
    by (simp add: restore_string_def restore_sized_buffer_def restore_bytes_def rd8_def nth_append del: replicate_Suc)
qed

text \<open>
  A stored list is restored if its elements are. Without memory for an element there is no result, as
  the handler does not accept \<open>NULL\<close>.
\<close>

definition restores :: "('s, 'e) element_handler \<Rightarrow> 'e \<Rightarrow> bytes \<Rightarrow> bool" where
  "restores handler x bs \<longleftrightarrow> (\<forall>s rest al. ok s \<longrightarrow> content s = bs @ rest \<longrightarrow>
     (fst (alloc_next al) = None \<longrightarrow> handler s None al = None) \<and>
     (fst (alloc_next al) \<noteq> None \<longrightarrow>
       (\<exists>s'. handler s None al = Some (s', AVS_OK, Some x, snd (alloc_next al)) \<and> ok s' \<and> content s' = rest)))"

lemma restores_fails:
  assumes "restores handler x bs" and "ok s" and "content s = bs @ rest" and "alloc_next al = (None, al1)"
  shows "handler s None al = None"
  using assms(1) [unfolded restores_def, rule_format, OF assms(2,3), of al] assms(4) by simp

lemma restoresE:
  assumes "restores handler x bs" and "ok s" and "content s = bs @ rest" and "alloc_next al = (Some p, al1)"
  obtains s' where "handler s None al = Some (s', AVS_OK, Some x, al1)" "ok s'" "content s' = rest"
  using assms(1) [unfolded restores_def, rule_format, OF assms(2,3), of al] assms(4) by auto

lemma restore_elements_stored:
  assumes "\<forall>x \<in> set xs. restores handler x (enc x)" and "ok s" and "content s = concat (map enc xs) @ rest"
    and "enough (length xs) al"
  shows "\<exists>s'. restore_elements handler (length xs) s ys al = Some (s', AVS_OK, ys @ xs, drop (length xs) al)
      \<and> ok s' \<and> content s' = rest"
  using assms
proof (induction xs arbitrary: s ys al)
  case (Cons x xs)
  then obtain p al1 where al: "al = Some p # al1" "enough (length xs) al1" by (auto simp: enough_Suc)
  have "alloc_next al = (Some p, al1)" by (simp add: alloc_next_def al)
  with Cons.prems(1-3) obtain s1 where
    s1: "handler s None al = Some (s1, AVS_OK, Some x, al1)" "ok s1" "content s1 = concat (map enc xs) @ rest"
    using restoresE [of handler x "enc x" s "concat (map enc xs) @ rest" al p al1] by auto
  from Cons.IH [OF _ s1(2,3) al(2), of "ys @ [x]"] Cons.prems(1) s1(1) al(1) show ?case by simp
qed simp

lemma restore_elements_fails:
  assumes "\<forall>x \<in> set xs. restores handler x (enc x)" and "ok s" and "content s = concat (map enc xs) @ rest"
    and "\<not> enough (length xs) al"
  shows "restore_elements handler (length xs) s ys al = None"
  using assms
proof (induction xs arbitrary: s ys al)
  case (Cons x xs)
  have x: "restores handler x (enc x)" "content s = enc x @ concat (map enc xs) @ rest" using Cons.prems(1,3) by simp_all
  show ?case
  proof (cases rule: alloc_next_cases [of al])
    case (1 al1)
    from restores_fails [OF x(1) Cons.prems(2) x(2) 1(1)] show ?thesis by simp
  next
    case (2 p al1)
    from restoresE [OF x(1) Cons.prems(2) x(2) 2(1)] obtain s1 where
      s1: "handler s None al = Some (s1, AVS_OK, Some x, al1)" "ok s1" "content s1 = concat (map enc xs) @ rest" .
    have "\<not> enough (length xs) al1" using Cons.prems(4) 2(3) by (auto simp: enough_Suc)
    from Cons.IH [OF _ s1(2,3) this] Cons.prems(1) s1(1) show ?thesis by simp
  qed
qed (simp add: enough_def)

lemma restore_list_stored:
  assumes "\<forall>x \<in> set xs. restores handler x (enc x)"
    and s: "ok s" "content s = be_bytes 4 (length xs) @ concat (map enc xs) @ rest" and n: "length xs < 2 ^ 32"
  shows "enough (length xs) al \<Longrightarrow> \<exists>s'. restore_list vt handler cleanup s [] al = Some (s', AVS_OK, xs, drop (length xs) al)
      \<and> ok s' \<and> content s' = rest"
    and "\<not> enough (length xs) al \<Longrightarrow> restore_list vt handler cleanup s [] al = None"
proof -
  have "length xs < 256 ^ 4" using n by simp
  from restore_number_stored(2) [OF s this refl] obtain s1 where
    s1: "restore_u32 vt s 0 = Some (s1, AVS_OK, length xs)" "ok s1" "content s1 = concat (map enc xs) @ rest" by blast
  note run = restore_elements_stored [OF assms(1) s1(2,3), of al "[]"] restore_elements_fails [OF assms(1) s1(2,3), of al "[]"]
  show "enough (length xs) al \<Longrightarrow> \<exists>s'. restore_list vt handler cleanup s [] al = Some (s', AVS_OK, xs, drop (length xs) al)
      \<and> ok s' \<and> content s' = rest"
    using run(1) s1(1) by (auto simp: restore_list_def)
  show "\<not> enough (length xs) al \<Longrightarrow> restore_list vt handler cleanup s [] al = None"
    using run(2) s1(1) by (auto simp: restore_list_def)
qed

end

end
