(* ===== verification/Ac_Persist.thy ===== *)
theory Ac_Persist
  imports Ac_Object_Ok Avs_Persistence
begin

text \<open>
  Storing the Access Control object to a stream and restoring it
  (\<open>modules/access_control/anjay_access_control_persistence.c\<close>), with the encoding on the stream, to which
  both directions are related. Restoring leaves out the instances of Objects that are not registered.
\<close>

section \<open>Elements\<close>

definition handle_acl_entry :: "'s persistence_context \<Rightarrow> ('s, acl_entry) element_handler" where
  "handle_acl_entry ctx s element al = do {
     e \<leftarrow> element;
     (s, err, m) \<leftarrow> avs_persistence_u16 ctx s (ae_mask e);
     let e = e\<lparr>ae_mask := m\<rparr>;
     if err \<noteq> AVS_OK then Some (s, err, Some e, al)
     else do {
       (s, err, i) \<leftarrow> avs_persistence_u16 ctx s (ae_ssid e);
       Some (s, err, Some (e\<lparr>ae_ssid := i\<rparr>), al) } }"

text \<open>A new list element is filled with zeros.\<close>

definition zero_acl_entry :: "nat \<Rightarrow> acl_entry" where
  "zero_acl_entry p = \<lparr>ae_mask = 0, ae_ssid = 0\<rparr>"

definition handle_acl ::
  "'s persistence_context \<Rightarrow> 's \<Rightarrow> ac_instance \<Rightarrow> allocs \<Rightarrow> ('s \<times> avs_error \<times> ac_instance \<times> allocs) option" where
  "handle_acl ctx s inst al = do {
     (s, err, has) \<leftarrow> avs_persistence_bool ctx s (ai_has_acl inst);
     let inst = inst\<lparr>ai_has_acl := has\<rparr>;
     if err = AVS_OK \<and> ai_has_acl inst then do {
       (s, err, acl, al) \<leftarrow> avs_persistence_list ctx zero_acl_entry (handle_acl_entry ctx) True s (ai_acl inst) al;
       Some (s, err, inst\<lparr>ai_acl := acl\<rparr>, al) }
     else Some (s, err, inst, al) }"

text \<open>The target Instance ID is negative until it is set, and cannot be stored then.\<close>

definition persist_instance :: "'s persistence_context \<Rightarrow> ('s, ac_instance) element_handler" where
  "persist_instance ctx s element al = do {
     i \<leftarrow> element;
     let target_iid = nat (at_iid (ai_target i) mod 65536);
     if int target_iid \<noteq> at_iid (ai_target i) then Some (s, AVS_EINVAL, Some i, al)
     else do {
       (s, err, oid) \<leftarrow> avs_persistence_u16 ctx s (at_oid (ai_target i));
       let i = i\<lparr>ai_target := (ai_target i)\<lparr>at_oid := oid\<rparr>\<rparr>;
       if err \<noteq> AVS_OK then Some (s, err, Some i, al)
       else do {
         (s, err, iid) \<leftarrow> avs_persistence_u16 ctx s (ai_iid i);
         let i = i\<lparr>ai_iid := iid\<rparr>;
         if err \<noteq> AVS_OK then Some (s, err, Some i, al)
         else do {
           (s, err, target_iid) \<leftarrow> avs_persistence_u16 ctx s target_iid;
           if err \<noteq> AVS_OK then Some (s, err, Some i, al)
           else do {
             (s, err, owner) \<leftarrow> avs_persistence_u16 ctx s (ai_owner i);
             let i = i\<lparr>ai_owner := owner\<rparr>;
             if err \<noteq> AVS_OK then Some (s, err, Some i, al)
             else do {
               (s, err, i, al) \<leftarrow> handle_acl ctx s i al;
               Some (s, err, Some i, al) } } } } } }"

definition is_object_registered :: "'d dm_object list \<Rightarrow> nat \<Rightarrow> bool" where
  "is_object_registered objs oid \<longleftrightarrow> oid \<noteq> OID_SECURITY \<and> find_object_by_oid objs oid \<noteq> None"

definition restore_instance ::
  "'s persistence_context \<Rightarrow> 's \<Rightarrow> ac_instance \<Rightarrow> allocs \<Rightarrow> ('s \<times> avs_error \<times> ac_instance \<times> allocs) option" where
  "restore_instance ctx s out_instance al = do {
     (s, err, iid) \<leftarrow> avs_persistence_u16 ctx s (ai_iid out_instance);
     let i = out_instance\<lparr>ai_iid := iid\<rparr>;
     if err \<noteq> AVS_OK then Some (s, err, i, al)
     else do {
       (s, err, target_iid) \<leftarrow> avs_persistence_u16 ctx s 0;
       if err \<noteq> AVS_OK then Some (s, err, i, al)
       else do {
         (s, err, owner) \<leftarrow> avs_persistence_u16 ctx s (ai_owner i);
         let i = i\<lparr>ai_owner := owner\<rparr>;
         if err \<noteq> AVS_OK then Some (s, err, i, al)
         else do {
           (s, err, i, al) \<leftarrow> handle_acl ctx s i al;
           Some (s, err, if err = AVS_OK then i\<lparr>ai_target := (ai_target i)\<lparr>at_iid := int target_iid\<rparr>\<rparr> else i, al) } } } }"

text \<open>\<open>memset(&instance, 0, sizeof(instance))\<close>\<close>

definition zero_instance :: ac_instance where
  "zero_instance = \<lparr>ai_addr = 0, ai_iid = 0, ai_target = \<lparr>at_oid = 0, at_iid = 0\<rparr>, ai_owner = 0,
     ai_has_acl = False, ai_acl = []\<rparr>"

primrec restore_loop ::
  "'d dm_object list \<Rightarrow> 's persistence_context \<Rightarrow> nat \<Rightarrow> 's \<Rightarrow> ac_instance list \<Rightarrow> allocs \<Rightarrow>
   ('s \<times> avs_error \<times> ac_instance list \<times> allocs) option" where
  "restore_loop objs ctx 0 s insts al = Some (s, AVS_OK, insts, al)"
| "restore_loop objs ctx (Suc count) s insts al = do {
     (s, err, oid) \<leftarrow> avs_persistence_u16 ctx s 0;
     let i = zero_instance\<lparr>ai_target := \<lparr>at_oid = oid, at_iid = 0\<rparr>\<rparr>;
     if err \<noteq> AVS_OK then Some (s, err, insts, al)
     else do {
       (s, err, i, al) \<leftarrow> restore_instance ctx s i al;
       if err \<noteq> AVS_OK then Some (s, err, insts, al)
       else if \<not> is_object_registered objs (at_oid (ai_target i)) then restore_loop objs ctx count s insts al
       else (case alloc_next al of
           (None, al) \<Rightarrow> Some (s, AVS_ENOMEM, insts, al)
         | (Some p, al) \<Rightarrow> restore_loop objs ctx count s (insts @ [i\<lparr>ai_addr := p\<rparr>]) al) } }"

definition restore_instances ::
  "'d dm_object list \<Rightarrow> 's persistence_context \<Rightarrow> 's \<Rightarrow> allocs \<Rightarrow>
   ('s \<times> avs_error \<times> ac_instance list \<times> allocs) option" where
  "restore_instances objs ctx s al = do {
     (s, err, count) \<leftarrow> avs_persistence_u32 ctx s 0;
     if err \<noteq> AVS_OK then Some (s, err, [], al)
     else if count > 65535 then Some (s, AVS_EBADMSG, [], al)
     else restore_loop objs ctx count s [] al }"

definition restore ::
  "'d dm_object list \<Rightarrow> 's stream_vtable \<Rightarrow> access_control \<Rightarrow> 's \<Rightarrow> allocs \<Rightarrow>
   ('s \<times> avs_error \<times> access_control \<times> allocs) option" where
  "restore objs vt ac s al = do {
     (s, err, insts, al) \<leftarrow> restore_instances objs (avs_persistence_restore_context_create vt) s al;
     if err \<noteq> AVS_OK then Some (s, err, ac, al)
     else Some (s, AVS_OK, ac\<lparr>ac_current := \<lparr>as_instances = insts, as_modified_since_persist = False\<rparr>,
       ac_last_accessed := None\<rparr>, al) }"

section \<open>The object\<close>

definition MAGIC :: bytes where "MAGIC = [0x41, 0x43, 0x4F, 1]"

text \<open>Storing leaves the elements as they are and allocates nothing.\<close>

definition anjay_access_control_persist ::
  "'s stream_vtable \<Rightarrow> access_control \<Rightarrow> 's \<Rightarrow> ('s \<times> avs_error \<times> access_control) option" where
  "anjay_access_control_persist vt ac s = do {
     (s, err) \<leftarrow> stream_write vt s MAGIC;
     if err \<noteq> AVS_OK then Some (s, err, ac)
     else do {
       let ctx = avs_persistence_store_context_create vt;
       let insts = (if ac_in_transaction ac then as_instances (ac_saved_state ac) else as_instances (ac_current ac));
       (s, err, _, _) \<leftarrow> avs_persistence_list ctx (\<lambda>p. zero_instance\<lparr>ai_addr := p\<rparr>) (persist_instance ctx) False s insts [];
       Some (s, err, if err = AVS_OK then clear_modified ac else ac) } }"

definition anjay_access_control_restore ::
  "'d dm_object list \<Rightarrow> 's stream_vtable \<Rightarrow> access_control \<Rightarrow> 's \<Rightarrow> allocs \<Rightarrow>
   ('s \<times> avs_error \<times> access_control \<times> allocs) option" where
  "anjay_access_control_restore objs vt ac s al =
     (if ac_in_transaction ac then Some (s, AVS_EBADF, ac, al)
      else do {
        (s, err, magic_header) \<leftarrow> stream_read_reliably vt s (length MAGIC);
        if err \<noteq> AVS_OK then Some (s, err, ac, al)
        else if magic_header \<noteq> MAGIC then Some (s, AVS_EBADMSG, ac, al)
        else do {
          (s, err, ac, al) \<leftarrow> restore objs vt ac s al;
          Some (s, err, if err = AVS_OK then clear_modified ac else ac, al) } })"

section \<open>The encoding\<close>

definition enc_acl_entry :: "acl_entry \<Rightarrow> bytes" where
  "enc_acl_entry e = be_bytes 2 (ae_mask e) @ be_bytes 2 (ae_ssid e)"

definition enc_acl :: "ac_instance \<Rightarrow> bytes" where
  "enc_acl i = (if ai_has_acl i then 1 # be_bytes 4 (length (ai_acl i)) @ concat (map enc_acl_entry (ai_acl i)) else [0])"

definition enc_ac_instance :: "ac_instance \<Rightarrow> bytes" where
  "enc_ac_instance i = be_bytes 2 (at_oid (ai_target i)) @ be_bytes 2 (ai_iid i) @ be_bytes 2 (nat (at_iid (ai_target i)))
     @ be_bytes 2 (ai_owner i) @ enc_acl i"

definition enc_ac :: "ac_instance list \<Rightarrow> bytes" where
  "enc_ac is = MAGIC @ be_bytes 4 (length is) @ concat (map enc_ac_instance is)"

text \<open>The target of the instance is set.\<close>

definition target_set :: "ac_instance \<Rightarrow> bool" where
  "target_set i \<longleftrightarrow> 0 \<le> at_iid (ai_target i) \<and> at_iid (ai_target i) < 65536"

section \<open>Fresh memory and copies\<close>

definition addresses :: "allocs \<Rightarrow> nat list" where
  "addresses al = List.map_filter (\<lambda>a. a) al"

lemma addresses_simps [simp]:
  "addresses [] = []" "addresses (None # al) = addresses al" "addresses (Some p # al) = p # addresses al"
  "addresses (xs @ ys) = addresses xs @ addresses ys"
  by (simp_all add: addresses_def map_filter_def)

definition live :: "access_control \<Rightarrow> nat set" where
  "live ac = ai_addr ` set (instances ac) \<union> ai_addr ` set (as_instances (ac_saved_state ac))"

text \<open>The allocator returns addresses that are not in use, each once.\<close>

definition fresh :: "allocs \<Rightarrow> access_control \<Rightarrow> bool" where
  "fresh al ac \<longleftrightarrow> distinct (addresses al) \<and> set (addresses al) \<inter> live ac = {}"

text \<open>Equality up to the addresses of the list elements.\<close>

definition strip_addr :: "ac_instance \<Rightarrow> ac_instance" where
  "strip_addr i = i\<lparr>ai_addr := 0\<rparr>"

definition same_state :: "ac_state \<Rightarrow> ac_state \<Rightarrow> bool" where
  "same_state a b \<longleftrightarrow> map strip_addr (as_instances a) = map strip_addr (as_instances b) \<and>
     as_modified_since_persist a = as_modified_since_persist b"

lemma strip_addr_fields:
  assumes "strip_addr i = strip_addr j"
  shows "ai_iid i = ai_iid j" and "inst_ok i = inst_ok j"
  using assms by (cases i; cases j; simp add: strip_addr_def inst_ok_def)+

lemma insts_ok_strip:
  assumes "map strip_addr is = map strip_addr js" and "insts_ok js" and "distinct (map ai_addr is)"
  shows "insts_ok is"
proof -
  have len: "length is = length js" using assms(1) map_eq_imp_length_eq by blast
  have nth: "strip_addr (is ! k) = strip_addr (js ! k)" if "k < length js" for k
    using assms(1) that len by (metis nth_map)
  have "map ai_iid is = map ai_iid js"
    using len strip_addr_fields(1) [OF nth] by (auto intro: nth_equalityI)
  moreover have asc: "ascending ai_iid ks \<longleftrightarrow> ascending (\<lambda>i. i) (map ai_iid ks)" for ks
    by (simp add: ascending_map o_def)
  moreover have "\<forall>i \<in> set is. inst_ok i"
    using len strip_addr_fields(2) [OF nth] insts_okD(3) [OF assms(2)] by (metis in_set_conv_nth)
  ultimately show ?thesis using insts_okD(1) [OF assms(2)] assms(3) by (simp only: insts_ok_def asc)
qed

lemma taken_addresses: "taken al al' \<Longrightarrow> set (addresses al') \<subseteq> set (addresses al)"
  by (auto simp: taken_def)

lemma taken_distinct: "taken al al' \<Longrightarrow> distinct (addresses al) \<Longrightarrow> distinct (addresses al')"
  by (auto simp: taken_def)

lemma fresh_taken: "fresh al ac \<Longrightarrow> taken al al' \<Longrightarrow> fresh al' ac"
  using taken_addresses taken_distinct by (fastforce simp: fresh_def)

section \<open>Measures of a list of instances\<close>

text \<open>The list elements that restoring an instance needs.\<close>

definition acl_size :: "ac_instance \<Rightarrow> nat" where
  "acl_size i = (if ai_has_acl i then length (ai_acl i) else 0)"

text \<open>What restoring the instances consumes and how they come back.\<close>

definition restored_from :: "'d dm_object list \<Rightarrow> ac_instance list \<Rightarrow> ac_instance list" where
  "restored_from objs is = filter (\<lambda>i. is_object_registered objs (at_oid (ai_target i))) is"

definition restore_need :: "'d dm_object list \<Rightarrow> ac_instance list \<Rightarrow> nat" where
  "restore_need objs is = (\<Sum>i \<leftarrow> is. acl_size i + (if is_object_registered objs (at_oid (ai_target i)) then 1 else 0))"

lemma enough_split: "enough (m + n) al \<longleftrightarrow> enough m al \<and> enough n (drop m al)"
  by (auto simp: enough_def take_add)

text \<open>What is stored is the saved state during a transaction.\<close>

definition stored_instances :: "access_control \<Rightarrow> ac_instance list" where
  "stored_instances ac = (if ac_in_transaction ac then as_instances (ac_saved_state ac) else instances ac)"

lemma restore_need_Cons:
  "restore_need objs (i # is) = acl_size i + ((if is_object_registered objs (at_oid (ai_target i)) then 1 else 0) + restore_need objs is)"
  by (simp add: restore_need_def)

lemma restored_from_simps:
  "restored_from objs [] = []"
  "restored_from objs (i # is) = (if is_object_registered objs (at_oid (ai_target i)) then i # restored_from objs is else restored_from objs is)"
  by (simp_all add: restored_from_def)

definition storable :: "ac_instance list \<Rightarrow> bool" where
  "storable is \<longleftrightarrow> (\<forall>i \<in> set is. inst_ok i \<and> target_set i \<and> length (ai_acl i) < 2 ^ 32)"

lemma addresses_drop: "set (addresses (drop n al)) \<subseteq> set (addresses al)" "distinct (addresses al) \<Longrightarrow> distinct (addresses (drop n al))"
  using taken_addresses [OF taken_drop] taken_distinct [OF taken_drop] by auto

section \<open>Storing\<close>

context byte_sink begin

abbreviation (input) store_ctx :: "'s persistence_context" where
  "store_ctx \<equiv> avs_persistence_store_context_create vt"

text \<open>One number after another.\<close>

lemma store_u16:
  assumes "ok s" and "accepts s (2 + n)"
  obtains s' where "avs_persistence_u16 store_ctx s v = Some (s', AVS_OK, v)" "wrote s s' (be_bytes 2 v)" "ok s'" "accepts s' n"
proof -
  from persist_number_ok(1) [OF assms(1) accepts_prefix [OF assms(2)] refl, of v] obtain s' where
    s': "persist_u16 vt s v = Some (s', AVS_OK)" "wrote s s' (be_bytes 2 v)" by blast
  then have "avs_persistence_u16 store_ctx s v = Some (s', AVS_OK, v)" by (simp add: persistence_directions)
  with s' assms(2) wrote_ok [OF s'(2)] wrote_accepts [OF s'(2), of n] show thesis by (intro that) simp_all
qed

lemma handle_acl_entry_stores: "stores (persistence_list_handler zeros (handle_acl_entry store_ctx)) e (enc_acl_entry e)"
  unfolding stores_def
proof (intro allI impI)
  fix s al
  assume s: "ok s" "accepts s (length (enc_acl_entry e))"
  have "accepts s (2 + 2)" "accepts s (2 + (2 + 0))" using s(2) by (simp_all add: enc_acl_entry_def)
  from store_u16 [OF s(1) this(1)] store_u16 [OF s(1) this(2), of "ae_mask e"] obtain s1 where
    s1: "avs_persistence_u16 store_ctx s (ae_mask e) = Some (s1, AVS_OK, ae_mask e)" "wrote s s1 (be_bytes 2 (ae_mask e))"
      "ok s1" "accepts s1 (2 + 0)" by metis
  from store_u16 [OF s1(3,4)] obtain s2 where
    s2: "avs_persistence_u16 store_ctx s1 (ae_ssid e) = Some (s2, AVS_OK, ae_ssid e)" "wrote s1 s2 (be_bytes 2 (ae_ssid e))" .
  show "\<exists>s'. persistence_list_handler zeros (handle_acl_entry store_ctx) s (Some e) al = Some (s', AVS_OK, Some e, al)
      \<and> wrote s s' (enc_acl_entry e)"
    using s1(1) s2(1) wrote_trans [OF s1(2) s2(2)]
    by (simp add: persistence_list_handler_def handle_acl_entry_def enc_acl_entry_def)
qed

lemma handle_acl_stored:
  assumes s: "ok s" "accepts s (length (enc_acl i))" and n: "length (ai_acl i) < 2 ^ 32"
  obtains s' where "handle_acl store_ctx s i al = Some (s', AVS_OK, i, al)" "wrote s s' (enc_acl i)"
proof (cases "ai_has_acl i")
  case False
  with s persist_bool_ok [OF s(1), of False] obtain s' where
    "persist_bool vt s False = Some (s', AVS_OK)" "wrote s s' (enc_acl i)" by (auto simp: enc_acl_def)
  with False show thesis by (intro that [of s']) (auto simp: handle_acl_def persistence_directions)
next
  case True
  let ?list = "be_bytes 4 (length (ai_acl i)) @ concat (map enc_acl_entry (ai_acl i))"
  have enc: "enc_acl i = [1] @ ?list" using True by (simp add: enc_acl_def)
  have acc: "accepts s (1 + length ?list)" using s(2) by (simp add: enc)
  from persist_bool_ok [OF s(1) accepts_prefix [OF acc], of True] obtain s1 where
    s1: "persist_bool vt s True = Some (s1, AVS_OK)" "wrote s s1 [1]" by auto
  have "accepts s1 (4 + length (concat (map enc_acl_entry (ai_acl i))))" using acc by (simp add: wrote_accepts [OF s1(2)])
  from persist_list_ok [OF _ wrote_ok [OF s1(2)] this n] handle_acl_entry_stores obtain s2 where
    s2: "persist_list vt (persistence_list_handler zero_acl_entry (handle_acl_entry store_ctx)) s1 (ai_acl i) al = Some (s2, AVS_OK, ai_acl i, al)"
      "wrote s1 s2 ?list" by blast
  have "handle_acl store_ctx s i al = Some (s2, AVS_OK, i, al)"
    using s1(1) s2(1) True by (simp add: handle_acl_def persistence_directions)
  with wrote_trans [OF s1(2) s2(2)] show thesis by (intro that) (simp_all add: enc)
qed

lemma persist_instance_stores:
  assumes i: "target_set i" "length (ai_acl i) < 2 ^ 32"
  shows "stores (persistence_list_handler zeros (persist_instance store_ctx)) i (enc_ac_instance i)"
  unfolding stores_def
proof (intro allI impI)
  fix s al
  assume s: "ok s" "accepts s (length (enc_ac_instance i))"
  let ?n = "length (enc_acl i)"
  have "accepts s (2 + (2 + (2 + (2 + ?n))))" using s(2) by (simp add: enc_ac_instance_def)
  from store_u16 [OF s(1) this] obtain s1 where
    s1: "avs_persistence_u16 store_ctx s (at_oid (ai_target i)) = Some (s1, AVS_OK, at_oid (ai_target i))"
      "wrote s s1 (be_bytes 2 (at_oid (ai_target i)))" "ok s1" "accepts s1 (2 + (2 + (2 + ?n)))" .
  from store_u16 [OF s1(3,4)] obtain s2 where
    s2: "avs_persistence_u16 store_ctx s1 (ai_iid i) = Some (s2, AVS_OK, ai_iid i)"
      "wrote s1 s2 (be_bytes 2 (ai_iid i))" "ok s2" "accepts s2 (2 + (2 + ?n))" .
  let ?t = "nat (at_iid (ai_target i))"
  from store_u16 [OF s2(3,4)] obtain s3 where
    s3: "avs_persistence_u16 store_ctx s2 ?t = Some (s3, AVS_OK, ?t)"
      "wrote s2 s3 (be_bytes 2 ?t)" "ok s3" "accepts s3 (2 + ?n)" .
  from store_u16 [OF s3(3,4)] obtain s4 where
    s4: "avs_persistence_u16 store_ctx s3 (ai_owner i) = Some (s4, AVS_OK, ai_owner i)"
      "wrote s3 s4 (be_bytes 2 (ai_owner i))" "ok s4" "accepts s4 ?n" .
  from handle_acl_stored [OF s4(3,4) i(2), of al] obtain s5 where
    s5: "handle_acl store_ctx s4 i al = Some (s5, AVS_OK, i, al)" "wrote s4 s5 (enc_acl i)" .
  have "at_iid (ai_target i) mod 65536 = at_iid (ai_target i)" "0 \<le> at_iid (ai_target i)" using i(1) by (simp_all add: target_set_def)
  then have "persistence_list_handler zeros (persist_instance store_ctx) s (Some i) al = Some (s5, AVS_OK, Some i, al)"
    using s1(1) s2(1) s3(1) s4(1) s5(1) by (simp add: persistence_list_handler_def persist_instance_def)
  with wrote_trans [OF s1(2) wrote_trans [OF s2(2) wrote_trans [OF s3(2) wrote_trans [OF s4(2) s5(2)]]]]
  show "\<exists>s'. persistence_list_handler zeros (persist_instance store_ctx) s (Some i) al = Some (s', AVS_OK, Some i, al)
      \<and> wrote s s' (enc_ac_instance i)"
    by (simp add: enc_ac_instance_def)
qed

text \<open>An instance whose target is not set stops the storing of a list.\<close>

lemma persist_elements_unset:
  assumes "\<forall>i \<in> set is. length (ai_acl i) < 2 ^ 32 \<and> at_iid (ai_target i) < 65536" and "\<exists>i \<in> set is. \<not> target_set i" and "ok s"
    and "\<And>n. accepts s n"
  shows "\<exists>s' is' al'. persist_elements (persistence_list_handler zeros (persist_instance store_ctx)) s is al
    = Some (s', AVS_EINVAL, is', al')"
  using assms
proof (induction "is" arbitrary: s al)
  case (Cons i "is")
  show ?case
  proof (cases "target_set i")
    case False
    then have "int (nat (at_iid (ai_target i) mod 65536)) \<noteq> at_iid (ai_target i)" by (auto simp: target_set_def)
    then show ?thesis by (simp add: persistence_list_handler_def persist_instance_def)
  next
    case True
    with Cons.prems(1) persist_instance_stores [of i zeros]
    have "stores (persistence_list_handler zeros (persist_instance store_ctx)) i (enc_ac_instance i)" by simp
    from storesE [OF this Cons.prems(3,4), of al] obtain s1 where
      s1: "persistence_list_handler zeros (persist_instance store_ctx) s (Some i) al = Some (s1, AVS_OK, Some i, al)"
        "wrote s s1 (enc_ac_instance i)" .
    have "\<exists>i \<in> set is. \<not> target_set i" using Cons.prems(2) True by simp
    from Cons.IH [OF _ this wrote_ok [OF s1(2)], of al] Cons.prems(1,4) wrote_accepts [OF s1(2)] s1(1) show ?thesis by auto
  qed
qed simp

text \<open>
  The whole object is stored as its encoding, if all targets are set.
\<close>

lemma persist_correct:
  assumes insts: "\<forall>i \<in> set (stored_instances ac). length (ai_acl i) < 2 ^ 32 \<and> at_iid (ai_target i) < 65536"
      "length (stored_instances ac) < 2 ^ 32"
    and s: "ok s" "\<And>n. accepts s n"
  shows "if \<forall>i \<in> set (stored_instances ac). target_set i
    then \<exists>s'. anjay_access_control_persist vt ac s = Some (s', AVS_OK, clear_modified ac) \<and> wrote s s' (enc_ac (stored_instances ac))
    else \<exists>s'. anjay_access_control_persist vt ac s = Some (s', AVS_EINVAL, ac)"
proof -
  let ?is = "stored_instances ac" and ?h = "persistence_list_handler (\<lambda>p. zero_instance\<lparr>ai_addr := p\<rparr>) (persist_instance store_ctx)"
  obtain s1 where s1: "stream_write vt s MAGIC = Some (s1, AVS_OK)" "wrote s s1 MAGIC" by (rule write_wrote [OF s])
  have acc1: "accepts s1 n" for n using s(2) wrote_accepts [OF s1(2)] by simp
  have eq: "anjay_access_control_persist vt ac s = do {
      (s, err, _, _) \<leftarrow> persist_list vt ?h s1 ?is []; Some (s, err, if err = AVS_OK then clear_modified ac else ac) }"
    using s1(1) by (simp add: anjay_access_control_persist_def stored_instances_def persistence_directions Let_def)
  show ?thesis
  proof (cases "\<forall>i \<in> set ?is. target_set i")
    case True
    with insts(1) have "\<forall>i \<in> set ?is. stores ?h i (enc_ac_instance i)" by (simp add: persist_instance_stores)
    from persist_list_ok [OF this wrote_ok [OF s1(2)] acc1 insts(2), of "[]"] obtain s2 where
      "persist_list vt ?h s1 ?is [] = Some (s2, AVS_OK, ?is, [])"
      "wrote s1 s2 (be_bytes 4 (length ?is) @ concat (map enc_ac_instance ?is))" by blast
    with True wrote_trans [OF s1(2) this(2)] show ?thesis by (simp add: eq enc_ac_def)
  next
    case False
    obtain s2 where s2: "persist_u32 vt s1 (length ?is) = Some (s2, AVS_OK)" "wrote s1 s2 (be_bytes 4 (length ?is))"
      using persist_number_ok(2) [OF wrote_ok [OF s1(2)] acc1 refl] by blast
    have acc2: "accepts s2 n" for n using acc1 wrote_accepts [OF s2(2)] by simp
    from persist_elements_unset [OF insts(1) _ wrote_ok [OF s2(2)] acc2, of "\<lambda>p. zero_instance\<lparr>ai_addr := p\<rparr>" "[]"] False obtain s3 is' al' where
      "persist_elements ?h s2 ?is [] = Some (s3, AVS_EINVAL, is', al')" by blast
    with s2(1) mod_less [OF insts(2)] have "persist_list vt ?h s1 ?is [] = Some (s3, AVS_EINVAL, is', al')"
      by (simp add: persist_list_def Let_def)
    then show ?thesis unfolding if_not_P [OF False] eq by simp
  qed
qed

end

section \<open>Restoring\<close>

context byte_source begin

abbreviation (input) restore_ctx :: "'s persistence_context" where
  "restore_ctx \<equiv> avs_persistence_restore_context_create vt"

lemma restore_u16_stored:
  assumes "ok s" and "content s = be_bytes 2 v @ rest" and "v < 65536"
  obtains s' where "avs_persistence_u16 restore_ctx s out = Some (s', AVS_OK, v)" "ok s'" "content s' = rest"
proof -
  have "v < 256 ^ 2" using assms(3) by simp
  from restore_number_stored(1) [OF assms(1,2) this refl, of out] that show thesis by (auto simp: persistence_directions)
qed

lemma handle_acl_entry_restores:
  assumes e: "ae_mask e < 65536" "ae_ssid e < 65536"
  shows "restores (persistence_list_handler zero_acl_entry (handle_acl_entry restore_ctx)) e (enc_acl_entry e)"
  unfolding restores_def
proof (intro allI impI conjI)
  fix s rest al
  assume s: "ok s" "content s = enc_acl_entry e @ rest"
  show "persistence_list_handler zero_acl_entry (handle_acl_entry restore_ctx) s None al = None" if "fst (alloc_next al) = None"
    using that by (cases "alloc_next al") (simp add: persistence_list_handler_def handle_acl_entry_def)
  have "content s = be_bytes 2 (ae_mask e) @ be_bytes 2 (ae_ssid e) @ rest" using s(2) by (simp add: enc_acl_entry_def)
  from restore_u16_stored [OF s(1) this e(1), of 0] obtain s1 where
    s1: "avs_persistence_u16 restore_ctx s 0 = Some (s1, AVS_OK, ae_mask e)" "ok s1" "content s1 = be_bytes 2 (ae_ssid e) @ rest" .
  from restore_u16_stored [OF s1(2,3) e(2), of 0] obtain s2 where
    s2: "avs_persistence_u16 restore_ctx s1 0 = Some (s2, AVS_OK, ae_ssid e)" "ok s2" "content s2 = rest" .
  show "\<exists>s'. persistence_list_handler zero_acl_entry (handle_acl_entry restore_ctx) s None al = Some (s', AVS_OK, Some e, snd (alloc_next al))
      \<and> ok s' \<and> content s' = rest" if "fst (alloc_next al) \<noteq> None"
    using that s1(1) s2 by (cases e; cases "alloc_next al")
      (auto simp: persistence_list_handler_def handle_acl_entry_def zero_acl_entry_def)
qed

lemma handle_acl_restored:
  assumes i: "inst_ok i" and s: "ok s" "content s = enc_acl i @ rest" and j: "ai_acl j = []" and n: "length (ai_acl i) < 2 ^ 32"
  shows "enough (acl_size i) al \<Longrightarrow> \<exists>s'. handle_acl restore_ctx s j al
      = Some (s', AVS_OK, j\<lparr>ai_has_acl := ai_has_acl i, ai_acl := ai_acl i\<rparr>, drop (acl_size i) al) \<and> ok s' \<and> content s' = rest"
    and "\<not> enough (acl_size i) al \<Longrightarrow> handle_acl restore_ctx s j al = None"
proof -
  let ?list = "be_bytes 4 (length (ai_acl i)) @ concat (map enc_acl_entry (ai_acl i)) @ rest"
  have "content s = (if ai_has_acl i then 1 else 0) # (if ai_has_acl i then ?list else rest)"
    using s(2) by (simp add: enc_acl_def)
  from restore_bool_stored [OF s(1) this] obtain s1 where
    s1: "restore_bool vt s (ai_has_acl j) = Some (s1, AVS_OK, ai_has_acl i)" "ok s1"
      "content s1 = (if ai_has_acl i then ?list else rest)" by blast
  have ok: "\<forall>e \<in> set (ai_acl i). restores (persistence_list_handler zero_acl_entry (handle_acl_entry restore_ctx)) e (enc_acl_entry e)"
    using i by (auto simp: inst_ok_def acl_ok_def intro!: handle_acl_entry_restores)
  note run = restore_list_stored [OF ok s1(2) _ n, of rest al True]
  show "enough (acl_size i) al \<Longrightarrow> \<exists>s'. handle_acl restore_ctx s j al
      = Some (s', AVS_OK, j\<lparr>ai_has_acl := ai_has_acl i, ai_acl := ai_acl i\<rparr>, drop (acl_size i) al) \<and> ok s' \<and> content s' = rest"
    using run(1) s1 j i by (cases "ai_has_acl i"; cases j)
      (auto simp: handle_acl_def persistence_directions acl_size_def inst_ok_def)
  show "\<not> enough (acl_size i) al \<Longrightarrow> handle_acl restore_ctx s j al = None"
    using run(2) s1 j by (cases "ai_has_acl i")
      (auto simp: handle_acl_def persistence_directions acl_size_def enough_def)
qed

lemma restore_instance_stored:
  assumes i: "inst_ok i" "target_set i" and s: "ok s" "content s = be_bytes 2 (ai_iid i) @ be_bytes 2 (nat (at_iid (ai_target i)))
     @ be_bytes 2 (ai_owner i) @ enc_acl i @ rest" and j: "ai_acl j = []" and n: "length (ai_acl i) < 2 ^ 32"
  shows "enough (acl_size i) al \<Longrightarrow> \<exists>s'. restore_instance restore_ctx s j al
      = Some (s', AVS_OK, j\<lparr>ai_iid := ai_iid i, ai_owner := ai_owner i, ai_has_acl := ai_has_acl i, ai_acl := ai_acl i,
          ai_target := (ai_target j)\<lparr>at_iid := at_iid (ai_target i)\<rparr>\<rparr>, drop (acl_size i) al) \<and> ok s' \<and> content s' = rest"
    and "\<not> enough (acl_size i) al \<Longrightarrow> restore_instance restore_ctx s j al = None"
proof -
  let ?t = "nat (at_iid (ai_target i))"
  have lt: "ai_iid i < 65536" "?t < 65536" "ai_owner i < 65536" "int ?t = at_iid (ai_target i)"
    using i by (auto simp: inst_ok_def target_set_def)
  from restore_u16_stored [OF s lt(1)] obtain s1 where
    s1: "avs_persistence_u16 restore_ctx s (ai_iid j) = Some (s1, AVS_OK, ai_iid i)" "ok s1"
      "content s1 = be_bytes 2 ?t @ be_bytes 2 (ai_owner i) @ enc_acl i @ rest" .
  from restore_u16_stored [OF s1(2,3) lt(2)] obtain s2 where
    s2: "avs_persistence_u16 restore_ctx s1 0 = Some (s2, AVS_OK, ?t)" "ok s2" "content s2 = be_bytes 2 (ai_owner i) @ enc_acl i @ rest" .
  from restore_u16_stored [OF s2(2,3) lt(3)] obtain s3 where
    s3: "avs_persistence_u16 restore_ctx s2 (ai_owner j) = Some (s3, AVS_OK, ai_owner i)" "ok s3" "content s3 = enc_acl i @ rest" .
  let ?j = "j\<lparr>ai_iid := ai_iid i, ai_owner := ai_owner i\<rparr>"
  have "ai_acl ?j = []" using j by simp
  note acl = handle_acl_restored [OF i(1) s3(2,3) this n, of al]
  show "enough (acl_size i) al \<Longrightarrow> \<exists>s'. restore_instance restore_ctx s j al
      = Some (s', AVS_OK, j\<lparr>ai_iid := ai_iid i, ai_owner := ai_owner i, ai_has_acl := ai_has_acl i, ai_acl := ai_acl i,
          ai_target := (ai_target j)\<lparr>at_iid := at_iid (ai_target i)\<rparr>\<rparr>, drop (acl_size i) al) \<and> ok s' \<and> content s' = rest"
    using acl(1) s1(1) s2(1) s3(1) lt(4) by (cases j) (auto simp: restore_instance_def)
  show "\<not> enough (acl_size i) al \<Longrightarrow> restore_instance restore_ctx s j al = None"
    using acl(2) s1(1) s2(1) s3(1) by (simp add: restore_instance_def)
qed

lemma restore_loop_step:
  assumes i: "inst_ok i" "target_set i" and s: "ok s" "content s = enc_ac_instance i @ rest" and n: "length (ai_acl i) < 2 ^ 32"
  shows "enough (acl_size i) al \<Longrightarrow> \<exists>s'. ok s' \<and> content s' = rest \<and> restore_loop objs restore_ctx (Suc k) s insts al
      = (let al = drop (acl_size i) al in
         if \<not> is_object_registered objs (at_oid (ai_target i)) then restore_loop objs restore_ctx k s' insts al
         else case alloc_next al of
             (None, al) \<Rightarrow> Some (s', AVS_ENOMEM, insts, al)
           | (Some p, al) \<Rightarrow> restore_loop objs restore_ctx k s' (insts @ [i\<lparr>ai_addr := p\<rparr>]) al)"
    and "\<not> enough (acl_size i) al \<Longrightarrow> restore_loop objs restore_ctx (Suc k) s insts al = None"
proof -
  let ?o = "at_oid (ai_target i)" and ?rest = "be_bytes 2 (ai_iid i) @ be_bytes 2 (nat (at_iid (ai_target i)))
     @ be_bytes 2 (ai_owner i) @ enc_acl i @ rest"
  have "content s = be_bytes 2 ?o @ ?rest" using s(2) by (simp add: enc_ac_instance_def)
  moreover have "?o < 65536" using i(1) by (simp add: inst_ok_def)
  ultimately obtain s1 where s1: "avs_persistence_u16 restore_ctx s 0 = Some (s1, AVS_OK, ?o)" "ok s1" "content s1 = ?rest"
    by (rule restore_u16_stored [OF s(1)])
  let ?j = "zero_instance\<lparr>ai_target := \<lparr>at_oid = ?o, at_iid = 0\<rparr>\<rparr>"
  have j: "ai_acl ?j = []" by (simp add: zero_instance_def)
  note inst = restore_instance_stored [OF i s1(2,3) j n, of al]
  have eq: "(?j\<lparr>ai_iid := ai_iid i, ai_owner := ai_owner i, ai_has_acl := ai_has_acl i, ai_acl := ai_acl i,
      ai_target := (ai_target ?j)\<lparr>at_iid := at_iid (ai_target i)\<rparr>\<rparr>) = i\<lparr>ai_addr := 0\<rparr>"
    by (cases i; cases "ai_target i") (simp add: zero_instance_def)
  show "\<exists>s'. ok s' \<and> content s' = rest \<and> restore_loop objs restore_ctx (Suc k) s insts al
      = (let al = drop (acl_size i) al in
         if \<not> is_object_registered objs (at_oid (ai_target i)) then restore_loop objs restore_ctx k s' insts al
         else case alloc_next al of
             (None, al) \<Rightarrow> Some (s', AVS_ENOMEM, insts, al)
           | (Some p, al) \<Rightarrow> restore_loop objs restore_ctx k s' (insts @ [i\<lparr>ai_addr := p\<rparr>]) al)" if "enough (acl_size i) al"
  proof -
    from inst(1) [OF that] obtain s2 where
      "restore_instance restore_ctx s1 ?j al = Some (s2, AVS_OK, i\<lparr>ai_addr := 0\<rparr>, drop (acl_size i) al)" "ok s2" "content s2 = rest"
      unfolding eq by blast
    with s1(1) show ?thesis by (intro exI [of _ s2]) (simp add: Let_def split: option.split prod.split)
  qed
  show "restore_loop objs restore_ctx (Suc k) s insts al = None" if "\<not> enough (acl_size i) al"
    using inst(2) [OF that] s1(1) by simp
qed

lemma restore_loop_stored:
  assumes "storable is" and "ok s" and "content s = concat (map enc_ac_instance is) @ rest" and "enough (restore_need objs is) al"
    and "distinct (addresses al)"
  shows "\<exists>s' js. restore_loop objs restore_ctx (length is) s insts al = Some (s', AVS_OK, insts @ js, drop (restore_need objs is) al)
    \<and> ok s' \<and> content s' = rest \<and> map strip_addr js = map strip_addr (restored_from objs is)
    \<and> distinct (map ai_addr js) \<and> ai_addr ` set js \<subseteq> set (addresses al)"
  using assms
proof (induction "is" arbitrary: s al insts)
  case Nil
  then show ?case by (simp add: restored_from_simps restore_need_def)
next
  case (Cons i "is")
  let ?reg = "is_object_registered objs (at_oid (ai_target i))" and ?al = "drop (acl_size i) al"
  have i: "inst_ok i" "target_set i" "length (ai_acl i) < 2 ^ 32" and stor: "storable is" using Cons.prems(1) by (simp_all add: storable_def)
  have c: "content s = enc_ac_instance i @ concat (map enc_ac_instance is) @ rest" using Cons.prems(3) by simp
  have en: "enough (acl_size i) al" "enough ((if ?reg then 1 else 0) + restore_need objs is) ?al"
    using Cons.prems(4) unfolding restore_need_Cons enough_split [of "acl_size i"] by simp_all
  from restore_loop_step(1) [OF i(1,2) Cons.prems(2) c i(3) en(1), of objs "length is" insts] obtain s1 where
    s1: "ok s1" "content s1 = concat (map enc_ac_instance is) @ rest"
      "restore_loop objs restore_ctx (Suc (length is)) s insts al = (if \<not> ?reg then restore_loop objs restore_ctx (length is) s1 insts ?al
         else case alloc_next ?al of (None, al) \<Rightarrow> Some (s1, AVS_ENOMEM, insts, al)
           | (Some p, al) \<Rightarrow> restore_loop objs restore_ctx (length is) s1 (insts @ [i\<lparr>ai_addr := p\<rparr>]) al)"
    unfolding Let_def by blast
  note d = addresses_drop(2) [OF Cons.prems(5), of "acl_size i"]
  show ?case
  proof (cases ?reg)
    case False
    with en(2) have "enough (restore_need objs is) ?al" by simp
    from Cons.IH [OF stor s1(1,2) this d, of insts] s1(3) False addresses_drop(1) [of "acl_size i" al] show ?thesis
      by (auto simp: restored_from_simps restore_need_Cons add.commute)
  next
    case True
    with en(2) obtain p al1 where al1: "?al = Some p # al1" "enough (restore_need objs is) al1" by (auto simp: enough_Suc)
    have "distinct (addresses al1)" and p: "p \<notin> set (addresses al1)" using d unfolding al1(1) by simp_all
    from Cons.IH [OF stor s1(1,2) al1(2) this(1), of "insts @ [i\<lparr>ai_addr := p\<rparr>]"] obtain s2 js where
      s2: "restore_loop objs restore_ctx (length is) s1 (insts @ [i\<lparr>ai_addr := p\<rparr>]) al1
          = Some (s2, AVS_OK, insts @ i\<lparr>ai_addr := p\<rparr> # js, drop (restore_need objs is) al1)"
        "ok s2" "content s2 = rest" "map strip_addr js = map strip_addr (restored_from objs is)"
        "distinct (map ai_addr js)" "ai_addr ` set js \<subseteq> set (addresses al1)" by auto
    have "drop (acl_size i + (1 + restore_need objs is)) al = drop (1 + restore_need objs is) ?al"
      by (simp add: add.commute)
    then have dr: "drop (restore_need objs (i # is)) al = drop (restore_need objs is) al1"
      using True unfolding al1(1) by (simp add: restore_need_Cons)
    show ?thesis
    proof (intro exI conjI)
      show "restore_loop objs restore_ctx (length (i # is)) s insts al
          = Some (s2, AVS_OK, insts @ i\<lparr>ai_addr := p\<rparr> # js, drop (restore_need objs (i # is)) al)"
        using s1(3) True s2(1) unfolding al1(1) dr by (simp add: alloc_next_def del: restore_loop.simps)
      show "map strip_addr (i\<lparr>ai_addr := p\<rparr> # js) = map strip_addr (restored_from objs (i # is))"
        using s2(4) True by (simp add: restored_from_simps strip_addr_def)
      show "distinct (map ai_addr (i\<lparr>ai_addr := p\<rparr> # js))" using s2(5,6) p by auto
      show "ai_addr ` set (i\<lparr>ai_addr := p\<rparr> # js) \<subseteq> set (addresses al)"
        using addresses_drop(1) [of "acl_size i" al] s2(6) unfolding al1(1) by auto
    qed (rule s2(2,3))+
  qed
qed

lemma restore_loop_without_memory:
  assumes "storable is" and "ok s" and "content s = concat (map enc_ac_instance is) @ rest" and "\<not> enough (restore_need objs is) al"
  shows "restore_loop objs restore_ctx (length is) s insts al = None
    \<or> (\<exists>s' insts' al'. restore_loop objs restore_ctx (length is) s insts al = Some (s', AVS_ENOMEM, insts', al'))"
  using assms
proof (induction "is" arbitrary: s al insts)
  case (Cons i "is")
  let ?reg = "is_object_registered objs (at_oid (ai_target i))" and ?al = "drop (acl_size i) al"
  have i: "inst_ok i" "target_set i" "length (ai_acl i) < 2 ^ 32" and stor: "storable is" using Cons.prems(1) by (simp_all add: storable_def)
  have c: "content s = enc_ac_instance i @ concat (map enc_ac_instance is) @ rest" using Cons.prems(3) by simp
  show ?case
  proof (cases "enough (acl_size i) al")
    case False
    from restore_loop_step(2) [OF i(1,2) Cons.prems(2) c i(3) False, of objs "length is" insts] show ?thesis by (simp del: restore_loop.simps)
  next
    case True
    with Cons.prems(4) have en: "\<not> enough ((if ?reg then 1 else 0) + restore_need objs is) ?al"
      unfolding restore_need_Cons enough_split [of "acl_size i"] by simp
    from restore_loop_step(1) [OF i(1,2) Cons.prems(2) c i(3) True, of objs "length is" insts] obtain s1 where
      s1: "ok s1" "content s1 = concat (map enc_ac_instance is) @ rest"
        "restore_loop objs restore_ctx (Suc (length is)) s insts al = (if \<not> ?reg then restore_loop objs restore_ctx (length is) s1 insts ?al
           else case alloc_next ?al of (None, al) \<Rightarrow> Some (s1, AVS_ENOMEM, insts, al)
             | (Some p, al) \<Rightarrow> restore_loop objs restore_ctx (length is) s1 (insts @ [i\<lparr>ai_addr := p\<rparr>]) al)"
      unfolding Let_def by blast
    show ?thesis
    proof (cases ?reg)
      case False
      with en have "\<not> enough (restore_need objs is) ?al" by simp
      from Cons.IH [OF stor s1(1,2) this, of insts] s1(3) False show ?thesis by (simp del: restore_loop.simps)
    next
      case reg: True
      show ?thesis
      proof (cases rule: alloc_next_cases [of ?al])
        case (1 al1)
        with s1(3) reg show ?thesis by (simp del: restore_loop.simps)
      next
        case (2 p al1)
        have "\<not> enough (restore_need objs is) al1" using en reg 2(3) by (auto simp: enough_Suc)
        from Cons.IH [OF stor s1(1,2) this, of "insts @ [i\<lparr>ai_addr := p\<rparr>]"] s1(3) reg 2(1) show ?thesis by (simp del: restore_loop.simps)
      qed
    qed
  qed
qed (simp add: restore_need_def enough_def)

text \<open>
  Restoring what was stored: the instances of registered Objects come back at new addresses. Without enough
  memory, the object stays as it is, or the run has no result.
\<close>

lemma restore_correct:
  assumes idle: "\<not> ac_in_transaction ac" and stor: "storable is" and n: "length is \<le> 65535"
    and s: "ok s" "content s = enc_ac is @ rest" and al: "distinct (addresses al)"
  shows "enough (restore_need objs is) al \<Longrightarrow> \<exists>s' js. anjay_access_control_restore objs vt ac s al
      = Some (s', AVS_OK, ac\<lparr>ac_current := \<lparr>as_instances = js, as_modified_since_persist = False\<rparr>, ac_last_accessed := None\<rparr>,
          drop (restore_need objs is) al)
      \<and> ok s' \<and> content s' = rest \<and> map strip_addr js = map strip_addr (restored_from objs is)
      \<and> distinct (map ai_addr js) \<and> ai_addr ` set js \<subseteq> set (addresses al)"
    and "\<not> enough (restore_need objs is) al \<Longrightarrow> anjay_access_control_restore objs vt ac s al = None
      \<or> (\<exists>s' al'. anjay_access_control_restore objs vt ac s al = Some (s', AVS_ENOMEM, ac, al'))"
proof -
  let ?list = "concat (map enc_ac_instance is) @ rest"
  from read_reliably_ok [OF s(1), of "length MAGIC"] s(2) obtain s1 where
    s1: "stream_read_reliably vt s (length MAGIC) = Some (s1, AVS_OK, MAGIC)" "ok s1" "content s1 = be_bytes 4 (length is) @ ?list"
    by (auto simp: enc_ac_def)
  have "length is < 256 ^ 4" using n by simp
  from restore_number_stored(2) [OF s1(2,3) this refl] obtain s2 where
    s2: "restore_u32 vt s1 0 = Some (s2, AVS_OK, length is)" "ok s2" "content s2 = ?list" by blast
  have eq: "anjay_access_control_restore objs vt ac s al = do {
      (s, err, insts, al) \<leftarrow> restore_loop objs restore_ctx (length is) s2 [] al;
      Some (s, err, if err = AVS_OK then ac\<lparr>ac_current := \<lparr>as_instances = insts, as_modified_since_persist = False\<rparr>,
        ac_last_accessed := None\<rparr> else ac, al) }"
    using idle s1(1) s2(1) n
    by (cases "restore_loop objs restore_ctx (length is) s2 [] al")
      (auto simp: anjay_access_control_restore_def restore_def restore_instances_def persistence_directions
        clear_modified_def split: prod.splits)
  show "enough (restore_need objs is) al \<Longrightarrow> \<exists>s' js. anjay_access_control_restore objs vt ac s al
      = Some (s', AVS_OK, ac\<lparr>ac_current := \<lparr>as_instances = js, as_modified_since_persist = False\<rparr>, ac_last_accessed := None\<rparr>,
          drop (restore_need objs is) al)
      \<and> ok s' \<and> content s' = rest \<and> map strip_addr js = map strip_addr (restored_from objs is)
      \<and> distinct (map ai_addr js) \<and> ai_addr ` set js \<subseteq> set (addresses al)"
    using restore_loop_stored [OF stor s2(2,3) _ al, of objs "[]"] unfolding eq by auto
  show "\<not> enough (restore_need objs is) al \<Longrightarrow> anjay_access_control_restore objs vt ac s al = None
      \<or> (\<exists>s' al'. anjay_access_control_restore objs vt ac s al = Some (s', AVS_ENOMEM, ac, al'))"
    using restore_loop_without_memory [OF stor s2(2,3), of objs al "[]"] unfolding eq by auto
qed

end

end
