(* ===== verification/Ac_Reach.thy ===== *)
theory Ac_Reach
  imports Ac_Validate Ac_Persist
begin

text \<open>
  The life of the Access Control object from its installation: a step relation over all of its handlers
  and interface functions, its invariant, and transactions as a whole.
\<close>

section \<open>Clones\<close>

lemma clone_acl_correct:
  assumes "clone_acl acl al = (res, al')"
  shows "taken al al' \<and> (res = Some acl \<or> res = None \<and> used_up al al')"
  using assms
proof (induction acl arbitrary: al res al')
  case (Cons e es)
  show ?case
  proof (cases rule: alloc_next_cases [of al])
    case (1 al1)
    with Cons.prems show ?thesis by (auto intro: used_up_taken)
  next
    case (2 p al1)
    obtain r al2 where c: "clone_acl es al1 = (r, al2)" by (cases "clone_acl es al1")
    with Cons.prems 2(1) have "res = map_option (Cons e) r" "al' = al2" by simp_all
    with Cons.IH [OF c] 2(2) show ?thesis by (auto intro: taken_trans taken_used_up)
  qed
qed simp

lemma clone_instances_correct:
  assumes "clone_instances is al = (res, al')" and "distinct (addresses al)"
  shows "taken al al' \<and>
    ((\<exists>js. res = Some js \<and> map strip_addr js = map strip_addr is \<and> distinct (map ai_addr js) \<and>
        ai_addr ` set js \<subseteq> set (addresses al)) \<or>
     res = None \<and> used_up al al')"
  using assms
proof (induction "is" arbitrary: al res al')
  case (Cons i "is")
  show ?case
  proof (cases rule: alloc_next_cases [of al])
    case (1 al1)
    with Cons.prems show ?thesis by (auto intro: used_up_taken)
  next
    case (2 p al1)
    obtain ra al2 where a: "clone_acl (ai_acl i) al1 = (ra, al2)" by (cases "clone_acl (ai_acl i) al1")
    note ca = clone_acl_correct [OF a]
    have d1: "distinct (addresses al1)" and p: "p \<notin> set (addresses al1)" and al: "al = Some p # al1"
      using 2(3) Cons.prems(2) by auto
    show ?thesis
    proof (cases ra)
      case None
      with Cons.prems 2(1) a have "res = None" "al' = al2" by simp_all
      with ca None 2(2) show ?thesis by (auto intro: taken_trans taken_used_up)
    next
      case (Some acl)
      with ca have acl: "acl = ai_acl i" and t2: "taken al1 al2" by auto
      obtain r al3 where c: "clone_instances is al2 = (r, al3)" by (cases "clone_instances is al2")
      have d2: "distinct (addresses al2)" using taken_distinct [OF t2 d1] .
      from Cons.prems(1) 2(1) a Some c have res: "res = map_option (Cons (i\<lparr>ai_addr := p, ai_acl := acl\<rparr>)) r" "al' = al3"
        by simp_all
      have strip: "strip_addr (i\<lparr>ai_addr := p, ai_acl := acl\<rparr>) = strip_addr i" using acl by (simp add: strip_addr_def)
      have t: "taken al al2" using taken_trans [OF 2(2) t2] .
      note ih = Cons.IH [OF c d2]
      have sub: "set (addresses al2) \<subseteq> set (addresses al1)" using taken_addresses [OF t2] .
      show ?thesis
      proof (cases r)
        case None
        with ih res t show ?thesis by (auto intro: taken_trans taken_used_up)
      next
        case (Some js)
        with ih have js: "map strip_addr js = map strip_addr is" "distinct (map ai_addr js)"
          "ai_addr ` set js \<subseteq> set (addresses al2)" "taken al2 al3" by auto
        with res Some strip p sub al taken_trans [OF t js(4)] show ?thesis by auto
      qed
    qed
  qed
qed simp

lemma ac_transaction_begin_correct:
  assumes ok: "ac_ok ac" and idle: "\<not> ac_in_transaction ac" and fr: "fresh al ac"
  shows "\<exists>r ac' al'. ac_transaction_begin ac al = Some (r, ac', al') \<and> ac_ok ac' \<and>
    (r = 0 \<and> (\<exists>saved. same_state saved (ac_current ac) \<and> ac' = ac\<lparr>ac_saved_state := saved, ac_in_transaction := True\<rparr>) \<or>
     r = ANJAY_ERR_INTERNAL \<and> used_up al al' \<and> ac' = ac)"
proof -
  have saved: "ac_saved_state ac = cleared_state" using ac_okD(4) [OF ok idle] .
  obtain res al' where c: "clone_instances (instances ac) al = (res, al')"
    by (cases "clone_instances (instances ac) al")
  have "distinct (addresses al)" using fr by (simp add: fresh_def)
  note cc = clone_instances_correct [OF c this]
  show ?thesis
  proof (cases res)
    case None
    have same: "ac\<lparr>ac_saved_state := cleared_state\<rparr> = ac" using saved by (cases ac) simp
    from None c cc saved idle ok show ?thesis by (simp add: ac_transaction_begin_def clone_state_def same)
  next
    case (Some js)
    with cc have js: "map strip_addr js = map strip_addr (instances ac)" "distinct (map ai_addr js)" by auto
    let ?saved = "\<lparr>as_instances = js, as_modified_since_persist = as_modified_since_persist (ac_current ac)\<rparr>"
    have "insts_ok js" using insts_ok_strip [OF js(1) ac_okD(1) [OF ok] js(2)] .
    with ok have "ac_ok (ac\<lparr>ac_saved_state := ?saved, ac_in_transaction := True\<rparr>)" by (auto simp: ac_ok_def)
    moreover have "same_state ?saved (ac_current ac)" using js(1) by (simp add: same_state_def)
    ultimately show ?thesis
      using Some c saved idle by (auto simp: ac_transaction_begin_def clone_state_def)
  qed
qed

section \<open>Setting an access list from the application\<close>

text \<open>The entry of one server after \<open>set_acl_in_instance\<close>, and what stays.\<close>

lemma acl_insert_ptr_split:
  "ascending ae_ssid acl \<Longrightarrow> acl_insert_ptr acl ssid = (before, after) \<Longrightarrow>
   acl = before @ after \<and> (\<forall>e \<in> set before. ae_ssid e < ssid) \<and> (\<forall>e \<in> set after. ssid \<le> ae_ssid e)"
proof (induction acl arbitrary: before)
  case (Cons e es)
  show ?case
  proof (cases "ssid \<le> ae_ssid e")
    case True
    with Cons.prems show ?thesis by force
  next
    case False
    with Cons.prems(2) obtain b where "acl_insert_ptr es ssid = (b, after)" "before = e # b"
      by (auto split: prod.splits)
    with Cons.IH Cons.prems(1) False show ?thesis by fastforce
  qed
qed simp

lemma acl_mask_append: "acl_mask (xs @ ys) ssid = (case acl_mask xs ssid of None \<Rightarrow> acl_mask ys ssid | Some m \<Rightarrow> Some m)"
  by (induction xs) auto

definition inst_acl_set :: "ac_instance \<Rightarrow> nat \<Rightarrow> nat \<Rightarrow> ac_instance \<Rightarrow> bool" where
  "inst_acl_set i ssid msk i' \<longleftrightarrow> ai_addr i' = ai_addr i \<and> ai_iid i' = ai_iid i \<and> ai_target i' = ai_target i \<and>
     ai_owner i' = ai_owner i \<and> ai_has_acl i' \<and> acl_ok (ai_acl i') \<and>
     acl_mask (ai_acl i') = (acl_mask (ai_acl i))(ssid \<mapsto> msk)"

lemma set_acl_in_instance_correct:
  assumes acl: "acl_ok (ai_acl i)" "ai_acl i \<noteq> [] \<longrightarrow> ai_has_acl i" and lt: "ssid < ANJAY_ID_INVALID" "msk < 65536"
    and run: "set_acl_in_instance objs i ssid msk al s = Some (r, i', al', s')"
  shows "taken al al' \<and> (r = 0 \<and> inst_acl_set i ssid msk i' \<or> r = - 1 \<and> i' = i)"
proof -
  obtain before after where ptr: "acl_insert_ptr (ai_acl i) ssid = (before, after)"
    by (cases "acl_insert_ptr (ai_acl i) ssid")
  have asc: "ascending ae_ssid (ai_acl i)" using acl(1) by (simp add: acl_ok_def)
  note sp = acl_insert_ptr_split [OF asc ptr]
  have before: "acl_mask before ssid = None" using sp by (force simp: acl_mask_None)
  show ?thesis
  proof (cases "after = [] \<or> ae_ssid (hd after) \<noteq> ssid")
    case True
    have after: "\<forall>e \<in> set after. ssid < ae_ssid e"
    proof (cases after)
      case (Cons e es)
      with True sp have "ssid < ae_ssid e" by auto
      moreover have "\<forall>x \<in> set es. ae_ssid e < ae_ssid x" using asc sp Cons by (simp add: ascending_append)
      ultimately show ?thesis using Cons by auto
    qed simp
    let ?acl = "before @ \<lparr>ae_mask = msk, ae_ssid = ssid\<rparr> # after"
    have "ascending ae_ssid ?acl"
      using asc sp after by (auto simp: ascending_append intro: less_trans)
    moreover have "\<forall>e \<in> set ?acl. ae_mask e < 65536 \<and> ae_ssid e < ANJAY_ID_INVALID"
      using acl(1) sp lt by (auto simp: acl_ok_def)
    ultimately have "acl_ok ?acl" by (simp add: acl_ok_def)
    moreover have "acl_mask ?acl = (acl_mask (ai_acl i))(ssid \<mapsto> msk)"
      using sp before by (auto simp: fun_eq_iff acl_mask_append split: option.splits)
    ultimately have set: "inst_acl_set i ssid msk (i\<lparr>ai_acl := ?acl, ai_has_acl := True\<rparr>)"
      by (simp add: inst_acl_set_def)
    obtain r1 s1 where v: "validate_ssid objs ssid s = Some (r1, s1)"
      using run ptr True by (auto simp: set_acl_in_instance_def bind_eq_Some_conv)
    show ?thesis
    proof (cases "r1 = 0")
      case False
      with run ptr True v show ?thesis by (simp add: set_acl_in_instance_def)
    next
      case ok: True
      show ?thesis
        by (cases rule: alloc_next_cases [of al])
          (use run ptr True v ok set in \<open>auto simp: set_acl_in_instance_def intro: used_up_taken\<close>)
    qed
  next
    case False
    then obtain e es where es: "after = e # es" "ae_ssid e = ssid" by (cases after) auto
    have "acl_ok (before @ e\<lparr>ae_mask := msk\<rparr> # es)"
      using acl(1) sp es lt by (auto simp: acl_ok_def ascending_append)
    moreover have "acl_mask (before @ e\<lparr>ae_mask := msk\<rparr> # es) = (acl_mask (ai_acl i))(ssid \<mapsto> msk)"
      using sp es before by (auto simp: fun_eq_iff acl_mask_append split: option.splits)
    moreover have "ai_has_acl i" using acl(2) sp es by auto
    ultimately have "inst_acl_set i ssid msk (i\<lparr>ai_acl := before @ e\<lparr>ae_mask := msk\<rparr> # es\<rparr>)"
      by (simp add: inst_acl_set_def)
    with run ptr es show ?thesis by (auto simp: set_acl_in_instance_def)
  qed
qed

lemma set_acl_in_instance_total:
  assumes dm: "data_model objs P ids ssid_of" and P: "P s"
    and acl: "acl_ok (ai_acl i)" "ai_acl i \<noteq> [] \<longrightarrow> ai_has_acl i" and lt: "ssid < ANJAY_ID_INVALID" "msk < 65536"
  shows "\<exists>r i' al' s'. set_acl_in_instance objs i ssid msk al s = Some (r, i', al', s') \<and> P s' \<and> taken al al' \<and>
    (r = 0 \<and> inst_acl_set i ssid msk i' \<and> (acl_mask (ai_acl i) ssid \<noteq> None \<or> ssid_valid objs ids ssid_of ssid) \<or>
     r = - 1 \<and> i' = i \<and> (acl_mask (ai_acl i) ssid = None \<and> \<not> ssid_valid objs ids ssid_of ssid \<or> used_up al al'))"
proof -
  obtain before after where ptr: "acl_insert_ptr (ai_acl i) ssid = (before, after)"
    by (cases "acl_insert_ptr (ai_acl i) ssid")
  have asc: "ascending ae_ssid (ai_acl i)" using acl(1) by (simp add: acl_ok_def)
  note sp = acl_insert_ptr_split [OF asc ptr]
  have before: "acl_mask before ssid = None" using sp by (force simp: acl_mask_None)
  have entry: "after = [] \<or> ae_ssid (hd after) \<noteq> ssid \<longleftrightarrow> acl_mask (ai_acl i) ssid = None"
  proof (cases after)
    case Nil
    with sp before show ?thesis by simp
  next
    case (Cons e es)
    have "ae_ssid e \<noteq> ssid \<Longrightarrow> acl_mask es ssid = None"
      using sp asc Cons by (force simp: acl_mask_None ascending_append)
    with sp before Cons show ?thesis by (auto simp: acl_mask_append)
  qed
  obtain s' where v: "validate_ssid objs ssid s = Some (if ssid_valid objs ids ssid_of ssid then 0 else - 1, s')" "P s'"
    using validate_ssid_correct [OF dm P] by blast
  have "\<exists>r i' al' s'. set_acl_in_instance objs i ssid msk al s = Some (r, i', al', s') \<and> P s' \<and>
    (r = 0 \<and> (acl_mask (ai_acl i) ssid \<noteq> None \<or> ssid_valid objs ids ssid_of ssid) \<or>
     r = - 1 \<and> (acl_mask (ai_acl i) ssid = None \<and> \<not> ssid_valid objs ids ssid_of ssid \<or> used_up al al'))"
  proof (cases "acl_mask (ai_acl i) ssid = None")
    case True
    show ?thesis
      by (cases rule: alloc_next_cases [of al]; cases "ssid_valid objs ids ssid_of ssid")
        (use True entry ptr v in \<open>auto simp: set_acl_in_instance_def\<close>)
  next
    case False
    with entry ptr P show ?thesis by (auto simp: set_acl_in_instance_def)
  qed
  then obtain r i' al' s'' where run: "set_acl_in_instance objs i ssid msk al s = Some (r, i', al', s'')" "P s''"
    and cases: "r = 0 \<and> (acl_mask (ai_acl i) ssid \<noteq> None \<or> ssid_valid objs ids ssid_of ssid) \<or>
     r = - 1 \<and> (acl_mask (ai_acl i) ssid = None \<and> \<not> ssid_valid objs ids ssid_of ssid \<or> used_up al al')"
    by blast
  from set_acl_in_instance_correct [OF acl lt run(1)] run cases show ?thesis by auto
qed

lemma find_target_Some:
  "find_target_loop is oid iid = Some i \<Longrightarrow> i \<in> set is \<and> at_oid (ai_target i) = oid \<and> at_iid (ai_target i) = int iid"
  by (induction "is") (auto split: if_splits)

lemma find_target_insert:
  "at_oid (ai_target x) = oid \<Longrightarrow> at_iid (ai_target x) = int iid \<Longrightarrow> find_target_loop is oid iid = None \<Longrightarrow>
   find_target_loop (insert_inst x is) oid iid = Some x"
  "at_oid (ai_target x) \<noteq> oid \<or> at_iid (ai_target x) \<noteq> int iid \<Longrightarrow>
   find_target_loop (insert_inst x is) oid iid = find_target_loop is oid iid"
  by (induction "is") (auto split: if_splits)

text \<open>Replacing the instance that a search by target found.\<close>

lemma replace_found:
  assumes ok: "insts_ok is" and found: "find_target_loop is oid iid = Some i"
    and i': "ai_addr i' = ai_addr i" "ai_iid i' = ai_iid i" "ai_target i' = ai_target i" "inst_ok i'"
  shows "insts_ok (inst_update is (ai_addr i) (\<lambda>_. i'))"
    and "ai_addr ` set (inst_update is (ai_addr i) (\<lambda>_. i')) = ai_addr ` set is"
    and "find_target_loop (inst_update is (ai_addr i) (\<lambda>_. i')) oid iid = Some i'"
    and "(o', j) \<noteq> (oid, iid) \<Longrightarrow> find_target_loop (inst_update is (ai_addr i) (\<lambda>_. i')) o' j = find_target_loop is o' j"
proof -
  let ?f = "\<lambda>j. if j = i then i' else j"
  have i: "i \<in> set is" "at_oid (ai_target i) = oid" "at_iid (ai_target i) = int iid" using find_target_Some [OF found] by auto
  have look: "inst_lookup is (ai_iid i) = Some i" using inst_lookup_mem [OF ok i(1)] .
  have "inst_set is (ai_iid i) (\<lambda>_. i') = inst_set is (ai_iid i) ?f"
    using inst_lookup_mem [OF ok] look by (fastforce simp: inst_set_def)
  then have eq: "inst_update is (ai_addr i) (\<lambda>_. i') = inst_set is (ai_iid i) ?f"
    using inst_update_lookup [OF ok look] by simp
  show "insts_ok (inst_update is (ai_addr i) (\<lambda>_. i'))"
    unfolding eq by (rule insts_ok_set [OF ok]) (simp_all add: i')
  show "ai_addr ` set (inst_update is (ai_addr i) (\<lambda>_. i')) = ai_addr ` set is"
    unfolding eq by (rule inst_set_addrs) (simp add: i')
  have upd: "inst_update is (ai_addr i) (\<lambda>_. i') = map ?f is"
  proof -
    have "?f x = (if ai_iid x = ai_iid i then ?f x else x)" if "x \<in> set is" for x by auto
    then show ?thesis unfolding eq inst_set_def by (auto intro: map_cong)
  qed
  show "find_target_loop (inst_update is (ai_addr i) (\<lambda>_. i')) oid iid = Some i'"
    unfolding upd using found i' i(2,3) by (induction "is") (auto split: if_splits)
  show "(o', j) \<noteq> (oid, iid) \<Longrightarrow> find_target_loop (inst_update is (ai_addr i) (\<lambda>_. i')) o' j = find_target_loop is o' j"
  proof -
    assume ne: "(o', j) \<noteq> (oid, iid)"
    have "find_target_loop (map ?f ks) o' j = find_target_loop ks o' j" for ks
      using ne i' i(2,3) by (induction ks) (auto split: if_splits)
    then show ?thesis unfolding upd .
  qed
qed

lemma target_instance_reachable_correct:
  assumes dm: "data_model objs P ids ssid_of" and P: "P s" and iid: "iid < 65536"
  shows "\<exists>s'. target_instance_reachable objs oid iid s =
    Some (target_oid_valid (int oid) \<and> ref_good objs ids (oid, iid), s') \<and> P s'"
proof -
  have iv: "target_iid_valid (int iid)" using iid by (simp add: target_iid_valid_range)
  show ?thesis
  proof (cases "target_oid_valid (int oid)")
    case False
    with P show ?thesis by (simp add: target_instance_reachable_def)
  next
    case True
    show ?thesis
    proof (cases "find_object_by_oid objs oid")
      case None
      with True iv P show ?thesis by (simp add: target_instance_reachable_def ref_good_def registered_def)
    next
      case (Some ob)
      obtain s' where "dm_instance_present (Some ob) iid s = Some (if iid \<in> set (ids oid) then 1 else 0, s')" "P s'"
        using dm_instance_present_correct [OF data_model_lists [OF dm Some] P] by blast
      with Some True iv P show ?thesis
        by (auto simp: target_instance_reachable_def ref_good_def registered_def)
    qed
  qed
qed

lemma notify_created_new:
  "\<exists>r q al'. notify_created_opt (Some []) n al = Some (r, Some q, al') \<and> taken al al' \<and>
    (r = 0 \<and> q = [\<lparr>oe_oid = OID_ACCESS_CONTROL, oe_instance_set_changed = True, oe_known_added_iids = [n],
                   oe_resources_changed = []\<rparr>] \<or>
     r = - 1 \<and> used_up al al')"
proof (cases rule: alloc_next_cases [of al])
  case (1 al1)
  then show ?thesis by (auto simp: notify_created_opt_def notify_queue_instance_created_def intro: used_up_taken)
next
  case (2 p al1)
  show ?thesis
    by (cases rule: alloc_next_cases [of al1])
      (use 2 in \<open>auto simp: notify_created_opt_def notify_queue_instance_created_def new_object_entry_def
         delete_notify_queue_object_entry_if_empty_def intro: taken_used_up taken_trans used_up_taken\<close>)
qed

text \<open>
  A request of the application is in order when the target has an instance or may get one, and the server
  has an entry or may get one.
\<close>

definition set_acl_ok ::
    "'s dm_object list \<Rightarrow> (nat \<Rightarrow> nat list) \<Rightarrow> (nat \<Rightarrow> int) \<Rightarrow> access_control \<Rightarrow> nat \<Rightarrow> nat \<Rightarrow> nat \<Rightarrow> bool" where
  "set_acl_ok objs ids ssid_of ac oid iid ssid \<longleftrightarrow>
     (case find_ac_instance ac oid iid of
        Some i \<Rightarrow> acl_mask (ai_acl i) ssid \<noteq> None \<or> ssid_valid objs ids ssid_of ssid
      | None \<Rightarrow> target_oid_valid (int oid) \<and> ref_good objs ids (oid, iid) \<and> ssid_valid objs ids ssid_of ssid \<and>
          free_iid 0 (instances ac) \<noteq> ANJAY_ID_INVALID)"

text \<open>What a successful call does: one entry changes, a missing instance is owned by the Bootstrap Server.\<close>

definition acl_entry_set :: "access_control \<Rightarrow> nat \<Rightarrow> nat \<Rightarrow> nat \<Rightarrow> nat \<Rightarrow> access_control \<Rightarrow> bool" where
  "acl_entry_set ac oid iid ssid msk ac' \<longleftrightarrow>
     (\<exists>i'. find_ac_instance ac' oid iid = Some i' \<and> ai_has_acl i' \<and>
        (case find_ac_instance ac oid iid of
           Some i \<Rightarrow> ai_iid i' = ai_iid i \<and> ai_owner i' = ai_owner i \<and>
             acl_mask (ai_acl i') = (acl_mask (ai_acl i))(ssid \<mapsto> msk)
         | None \<Rightarrow> ai_iid i' = free_iid 0 (instances ac) \<and> ai_owner i' = ANJAY_SSID_BOOTSTRAP \<and>
             acl_mask (ai_acl i') = [ssid \<mapsto> msk])) \<and>
     (\<forall>o' j. (o', j) \<noteq> (oid, iid) \<longrightarrow> find_ac_instance ac' o' j = find_ac_instance ac o' j)"

lemma inst_acl_set_ok:
  "inst_ok i \<Longrightarrow> inst_acl_set i ssid msk i' \<Longrightarrow> inst_ok i'"
  by (simp add: inst_ok_def inst_acl_set_def)

lemma set_acl_existing:
  assumes dm: "data_model objs P ids ssid_of" and P: "P s" and ok: "ac_ok ac"
    and lt: "ssid < ANJAY_ID_INVALID" "msk < 65536" and found: "find_ac_instance ac oid iid = Some i"
  shows "\<exists>r ac' al' s'. set_acl objs oid iid ssid msk sched1 sched2 (ac, sn, al, s) = Some (r, ac', sn, al', s') \<and>
    P s' \<and> taken al al' \<and> ac_ok ac' \<and> ac_saved_state ac' = ac_saved_state ac \<and>
    ac_in_transaction ac' = ac_in_transaction ac \<and>
    (r = 0 \<and> set_acl_ok objs ids ssid_of ac oid iid ssid \<and> acl_entry_set ac oid iid ssid msk ac' \<or>
     r \<noteq> 0 \<and> ac' = ac \<and> (\<not> set_acl_ok objs ids ssid_of ac oid iid ssid \<or> used_up al al'))"
proof -
  note insts = ac_okD(1) [OF ok]
  have loop: "find_target_loop (instances ac) oid iid = Some i" using found by (simp add: find_ac_instance_def)
  have iok: "inst_ok i" using insts_okD(3) [OF insts] find_target_Some [OF loop] by blast
  obtain r i' al' s' where run: "set_acl_in_instance objs i ssid msk al s = Some (r, i', al', s')" "P s'" "taken al al'"
    and cases: "r = 0 \<and> inst_acl_set i ssid msk i' \<and> (acl_mask (ai_acl i) ssid \<noteq> None \<or> ssid_valid objs ids ssid_of ssid) \<or>
     r = - 1 \<and> i' = i \<and> (acl_mask (ai_acl i) ssid = None \<and> \<not> ssid_valid objs ids ssid_of ssid \<or> used_up al al')"
    using set_acl_in_instance_total [OF dm P _ _ lt, of i al] iok by (auto simp: inst_ok_def)
  let ?ac = "update_instance ac (ai_addr i) (\<lambda>_. i')"
  have step: "set_acl objs oid iid ssid msk sched1 sched2 (ac, sn, al, s) =
      Some (r, if r = 0 then mark_modified ?ac else ?ac, sn, al', s')"
    using found run(1) by (simp add: set_acl_def)
  from cases show ?thesis
  proof
    assume a: "r = 0 \<and> inst_acl_set i ssid msk i' \<and> (acl_mask (ai_acl i) ssid \<noteq> None \<or> ssid_valid objs ids ssid_of ssid)"
    then have i': "ai_addr i' = ai_addr i" "ai_iid i' = ai_iid i" "ai_target i' = ai_target i" "inst_ok i'"
      using inst_acl_set_ok [OF iok] by (auto simp: inst_acl_set_def)
    note rep = replace_found [OF insts loop i']
    have ok': "ac_ok (mark_modified ?ac)" using ok rep(1,2) by (simp add: ac_ok_def update_instance_def)
    have set: "acl_entry_set ac oid iid ssid msk (mark_modified ?ac)"
      using rep(3,4) found a i'(2)
      by (simp add: acl_entry_set_def find_ac_instance_def update_instance_def inst_acl_set_def)
    have "set_acl_ok objs ids ssid_of ac oid iid ssid" using a found by (simp add: set_acl_ok_def)
    then show ?thesis using step a run(2,3) ok' set by (simp add: update_instance_def)
  next
    assume a: "r = - 1 \<and> i' = i \<and> (acl_mask (ai_acl i) ssid = None \<and> \<not> ssid_valid objs ids ssid_of ssid \<or> used_up al al')"
    have "inst_update is (ai_addr i) (\<lambda>_. i) = is" if "insts_ok is" "i \<in> set is" for "is"
      using that by (induction "is") (auto simp: insts_ok_Cons)
    then have same: "?ac = ac" using a insts find_target_Some [OF loop] by (simp add: update_instance_def set_instances_def)
    have "\<not> set_acl_ok objs ids ssid_of ac oid iid ssid \<or> used_up al al'" using a found by (auto simp: set_acl_ok_def)
    then show ?thesis using step a run(2,3) ok same by simp
  qed
qed

lemma notify_instances_changed_correct:
  assumes "queue_ok (sn_queue sn)"
  shows "\<exists>r sn' al'. notify_instances_changed sn oid al sched = (r, sn', al') \<and> queue_ok (sn_queue sn') \<and> taken al al' \<and>
    (r \<noteq> 0 \<longrightarrow> used_up al al' \<or> sched \<noteq> 0)"
proof -
  obtain r q al' where q: "notify_queue_instance_set_unknown_change (sn_queue sn) oid al = (r, q, al')"
    by (cases "notify_queue_instance_set_unknown_change (sn_queue sn) oid al") auto
  have "queue_ok q" using notify_queue_instance_set_unknown_change_correct [OF assms q] assms by auto
  with notify_queue_unknown_change_allocs [OF q] q show ?thesis
    by (auto simp: notify_instances_changed_def reschedule_notify_def Let_def)
qed

lemma notify_instance_created_total:
  assumes "queue_ok (sn_queue sn)"
  shows "\<exists>r sn' al'. notify_instance_created sn oid iid al sched = Some (r, sn', al') \<and> queue_ok (sn_queue sn') \<and> taken al al'"
proof -
  obtain r q al' where q: "notify_queue_instance_created (sn_queue sn) oid iid al = Some (r, q, al')" "queue_ok q"
    using notify_queue_instance_created_correct [OF assms, of oid iid al] assms by blast
  then show ?thesis using notify_queue_instance_created_allocs [OF q(1)]
    by (auto simp: notify_instance_created_def reschedule_notify_def Let_def)
qed

lemma free_iid_range:
  assumes "insts_ok is"
  shows "free_iid 0 is \<le> ANJAY_ID_INVALID"
proof (rule ccontr)
  assume "\<not> free_iid 0 is \<le> ANJAY_ID_INVALID"
  then have "ANJAY_ID_INVALID \<in> ai_iid ` set is"
    using free_iid_least [OF assms, of 0] by simp
  then obtain i where "i \<in> set is" "ai_iid i = ANJAY_ID_INVALID" by auto
  with insts_okD(3) [OF assms, of i] show False by (simp add: inst_ok_def)
qed

text \<open>Adding an instance without an ID, with a queue for the change.\<close>

lemma ac_add_new_correct:
  assumes insts: "insts_ok (instances ac)" and iid: "ai_iid i = ANJAY_ID_INVALID"
  shows "\<exists>r ac' q al'. ac_add_instance ac i (Some []) al = Some (r, ac', Some q, al') \<and> taken al al' \<and>
    (let n = free_iid 0 (instances ac) in
      r = 0 \<and> n < ANJAY_ID_INVALID \<and> ac' = set_instances ac (insert_inst (i\<lparr>ai_iid := n\<rparr>) (instances ac)) \<and>
        q = [\<lparr>oe_oid = OID_ACCESS_CONTROL, oe_instance_set_changed = True, oe_known_added_iids = [n],
              oe_resources_changed = []\<rparr>] \<or>
      r \<noteq> 0 \<and> ac' = ac \<and> (n = ANJAY_ID_INVALID \<or> used_up al al'))"
proof -
  let ?n = "free_iid 0 (instances ac)"
  have ch: "chosen_iid (instances ac) i = ?n" using iid by (simp add: chosen_iid_def)
  have free: "?n \<notin> ai_iid ` set (instances ac)" using free_iid_least [OF insts, of 0] by simp
  show ?thesis
  proof (cases "?n = ANJAY_ID_INVALID")
    case True
    then have "ac_add_instance ac i (Some []) al = Some (- 1, ac, Some [], al)"
      by (simp add: ac_add_instance_eq [OF insts] ch Let_def)
    with True show ?thesis by (auto simp: Let_def)
  next
    case room: False
    then have lt: "?n < ANJAY_ID_INVALID" using free_iid_range [OF insts] by simp
    obtain r q al' where cr: "notify_created_opt (Some []) ?n al = Some (r, Some q, al')" "taken al al'"
      "r = 0 \<and> q = [\<lparr>oe_oid = OID_ACCESS_CONTROL, oe_instance_set_changed = True, oe_known_added_iids = [?n],
          oe_resources_changed = []\<rparr>] \<or> r = - 1 \<and> used_up al al'"
      using notify_created_new by blast
    with room lt free show ?thesis
      by (cases "r = 0") (simp_all add: ac_add_instance_eq [OF insts] ch Let_def)
  qed
qed

text \<open>The instance that a call adds for a target without one.\<close>

definition new_target_instance :: "nat \<Rightarrow> nat \<Rightarrow> nat \<Rightarrow> ac_instance" where
  "new_target_instance p oid iid =
     \<lparr>ai_addr = p, ai_iid = ANJAY_ID_INVALID, ai_target = \<lparr>at_oid = oid, at_iid = int iid\<rparr>,
      ai_owner = ANJAY_SSID_BOOTSTRAP, ai_has_acl = True, ai_acl = []\<rparr>"

lemma new_instance_inserted:
  assumes ok: "ac_ok ac" and none: "find_ac_instance ac oid iid = None"
    and lt: "oid < 65536" "iid < 65536" and p: "p \<notin> live ac"
    and i: "inst_acl_set (new_target_instance p oid iid) ssid msk i"
    and n: "n = free_iid 0 (instances ac)" "n < ANJAY_ID_INVALID"
    and ac': "ac' = mark_modified (set_instances ac (insert_inst (i\<lparr>ai_iid := n\<rparr>) (instances ac)))"
  shows "ac_ok ac'" and "acl_entry_set ac oid iid ssid msk ac'"
proof -
  note insts = ac_okD(1) [OF ok]
  let ?i = "i\<lparr>ai_iid := n\<rparr>"
  have free: "n \<notin> ai_iid ` set (instances ac)" using free_iid_least [OF insts, of 0] n(1) by simp
  have new: "ai_addr i = p" "at_oid (ai_target ?i) = oid" "at_iid (ai_target ?i) = int iid" "ai_has_acl ?i"
      "ai_owner ?i = ANJAY_SSID_BOOTSTRAP" "acl_mask (ai_acl ?i) = [ssid \<mapsto> msk]" "acl_ok (ai_acl i)"
    using i by (auto simp: inst_acl_set_def new_target_instance_def fun_eq_iff)
  have "inst_ok ?i" using new n(2) lt by (simp add: inst_ok_def)
  then have "ac_ok (set_instances ac (insert_inst ?i (instances ac)))"
    using ac_ok_add [OF ok n(2) free] p new(1) by (simp add: live_def)
  then show "ac_ok ac'" unfolding ac' by (simp add: ac_ok_def)
  have loop: "find_target_loop (instances ac) oid iid = None" using none by (simp add: find_ac_instance_def)
  have "find_ac_instance ac' oid iid = Some ?i"
    using find_target_insert(1) [OF new(2,3) loop] by (simp add: find_ac_instance_def ac')
  moreover have "\<forall>o' j. (o', j) \<noteq> (oid, iid) \<longrightarrow> find_ac_instance ac' o' j = find_ac_instance ac o' j"
    using new(2,3) find_target_insert(2) [of ?i] by (auto simp: find_ac_instance_def ac')
  ultimately show "acl_entry_set ac oid iid ssid msk ac'"
    using none new(4,5,6) n(1) unfolding acl_entry_set_def by auto
qed

lemma set_acl_missing:
  assumes dm: "data_model objs P ids ssid_of" and P: "P s" and ok: "ac_ok ac" and sn: "queue_ok (sn_queue sn)"
    and fr: "fresh al ac" and lt: "ssid < ANJAY_ID_INVALID" "msk < 65536" "oid < 65536" "iid < 65536"
    and none: "find_ac_instance ac oid iid = None"
  shows "\<exists>r ac' sn' al' s'. set_acl objs oid iid ssid msk sched1 sched2 (ac, sn, al, s) = Some (r, ac', sn', al', s') \<and>
    P s' \<and> taken al al' \<and> queue_ok (sn_queue sn') \<and> ac_ok ac' \<and> ac_saved_state ac' = ac_saved_state ac \<and>
    ac_in_transaction ac' = ac_in_transaction ac \<and>
    (r = 0 \<and> set_acl_ok objs ids ssid_of ac oid iid ssid \<and> acl_entry_set ac oid iid ssid msk ac' \<or>
     r \<noteq> 0 \<and> ac' = ac \<and> (\<not> set_acl_ok objs ids ssid_of ac oid iid ssid \<or> used_up al al' \<or> sched1 \<noteq> 0))"
    (is "\<exists>r ac' sn' al' s'. ?run r ac' sn' al' s' \<and> ?good r ac' sn' al' s'")
proof -
  note insts = ac_okD(1) [OF ok]
  have fail: ?thesis if "?run r ac sn' al' s'" "r \<noteq> 0" "P s'" "taken al al'" "queue_ok (sn_queue sn')"
      "\<not> set_acl_ok objs ids ssid_of ac oid iid ssid \<or> used_up al al' \<or> sched1 \<noteq> 0" for r sn' al' s'
    using that ok by blast
  obtain s1 where rc: "target_instance_reachable objs oid iid s =
      Some (target_oid_valid (int oid) \<and> ref_good objs ids (oid, iid), s1)" "P s1"
    using target_instance_reachable_correct [OF dm P lt(4)] by blast
  show ?thesis
  proof (cases "target_oid_valid (int oid) \<and> ref_good objs ids (oid, iid)")
    case False
    then show ?thesis
      by (intro fail [of "- 1" sn al s1]) (use rc none sn in \<open>auto simp: set_acl_def set_acl_ok_def\<close>)
  next
    case reach: True
    show ?thesis
    proof (cases rule: alloc_next_cases [of al])
      case (1 al1)
      then show ?thesis
        by (intro fail [of "- 1" sn al1 s1])
          (use reach rc none sn in \<open>auto simp: set_acl_def create_missing_ac_instance_def intro: used_up_taken\<close>)
    next
      case (2 p al1)
      let ?new = "new_target_instance p oid iid"
      have p: "p \<notin> live ac" using fr 2(3) by (simp add: fresh_def)
      have cm: "create_missing_ac_instance ANJAY_SSID_BOOTSTRAP \<lparr>at_oid = oid, at_iid = int iid\<rparr> al = (Some ?new, al1)"
        using 2(1) by (simp add: create_missing_ac_instance_def new_target_instance_def)
      obtain r1 i al2 s2 where set: "set_acl_in_instance objs ?new ssid msk al1 s1 = Some (r1, i, al2, s2)" "P s2"
        "taken al1 al2"
        and c1: "r1 = 0 \<and> inst_acl_set ?new ssid msk i \<and> (acl_mask (ai_acl ?new) ssid \<noteq> None \<or> ssid_valid objs ids ssid_of ssid) \<or>
          r1 = - 1 \<and> i = ?new \<and> (acl_mask (ai_acl ?new) ssid = None \<and> \<not> ssid_valid objs ids ssid_of ssid \<or> used_up al1 al2)"
        using set_acl_in_instance_total [OF dm rc(2) _ _ lt(1,2), of ?new al1] by (auto simp: acl_ok_def new_target_instance_def)
      have t2: "taken al al2" using taken_trans [OF 2(2) set(3)] .
      note sa = set_acl_def none rc(1) reach cm set(1)
      have acl_new: "acl_mask (ai_acl ?new) ssid = None" by (simp add: new_target_instance_def)
      show ?thesis
      proof (cases "r1 = 0")
        case False
        then show ?thesis
          by (intro fail [of r1 sn al2 s2])
            (use c1 t2 set(2) sn none taken_used_up [OF 2(2)] acl_new in \<open>auto simp: sa set_acl_ok_def\<close>)
      next
        case True
        with c1 have i: "inst_acl_set ?new ssid msk i" and sv: "ssid_valid objs ids ssid_of ssid"
          using acl_new by auto
        obtain r2 sn2 al3 where n: "notify_instances_changed sn OID_ACCESS_CONTROL al2 sched1 = (r2, sn2, al3)"
          "queue_ok (sn_queue sn2)" "taken al2 al3" "r2 \<noteq> 0 \<longrightarrow> used_up al2 al3 \<or> sched1 \<noteq> 0"
          using notify_instances_changed_correct [OF sn, of OID_ACCESS_CONTROL al2 sched1] by blast
        have t3: "taken al al3" using taken_trans [OF t2 n(3)] .
        show ?thesis
        proof (cases "r2 = 0")
          case False
          then show ?thesis
            by (intro fail [of r2 sn2 al3 s2]) (use n t3 set(2) True taken_used_up [OF t2] in \<open>auto simp: sa\<close>)
        next
          case r2: True
          let ?n = "free_iid 0 (instances ac)"
          have iid: "ai_iid i = ANJAY_ID_INVALID" using i by (simp add: inst_acl_set_def new_target_instance_def)
          obtain r3 ac' q al4 where add: "ac_add_instance ac i (Some []) al3 = Some (r3, ac', Some q, al4)" "taken al3 al4"
            and c3: "r3 = 0 \<and> ?n < ANJAY_ID_INVALID \<and> ac' = set_instances ac (insert_inst (i\<lparr>ai_iid := ?n\<rparr>) (instances ac)) \<and>
                q = [\<lparr>oe_oid = OID_ACCESS_CONTROL, oe_instance_set_changed = True, oe_known_added_iids = [?n],
                      oe_resources_changed = []\<rparr>] \<or>
              r3 \<noteq> 0 \<and> ac' = ac \<and> (?n = ANJAY_ID_INVALID \<or> used_up al3 al4)"
            using ac_add_new_correct [OF insts iid, of al3] unfolding Let_def by blast
          have t4: "taken al al4" using taken_trans [OF t3 add(2)] .
          show ?thesis
          proof (cases "r3 = 0")
            case False
            then show ?thesis
              by (intro fail [of r3 sn2 al4 s2])
                (use c3 add(1) n(1,2) t4 set(2) True r2 none taken_used_up [OF t3] in \<open>auto simp: sa set_acl_ok_def\<close>)
          next
            case r3: True
            obtain r4 sn3 al5 where nc: "notify_instance_created sn2 OID_ACCESS_CONTROL ?n al4 sched2 = Some (r4, sn3, al5)"
              "queue_ok (sn_queue sn3)" "taken al4 al5"
              using notify_instance_created_total [OF n(2)] by blast
            have run: "set_acl objs oid iid ssid msk sched1 sched2 (ac, sn, al, s) = Some (0, mark_modified ac', sn3, al5, s2)"
              using True n(1) r2 add(1) r3 c3 nc(1) by (simp add: sa)
            have "ac_ok (mark_modified ac')" "acl_entry_set ac oid iid ssid msk (mark_modified ac')"
              using new_instance_inserted [OF ok none lt(3,4) p i refl] c3 r3 by simp_all
            moreover have "set_acl_ok objs ids ssid_of ac oid iid ssid"
              using none reach sv c3 r3 by (simp add: set_acl_ok_def)
            moreover have "ac_saved_state ac' = ac_saved_state ac" "ac_in_transaction ac' = ac_in_transaction ac"
              using c3 r3 by simp_all
            ultimately show ?thesis using run set(2) taken_trans [OF t4 nc(3)] nc(2) by simp
          qed
        qed
      qed
    qed
  qed
qed

definition acl_arguments_ok :: "nat \<Rightarrow> nat \<Rightarrow> nat \<Rightarrow> bool" where
  "acl_arguments_ok iid ssid msk \<longleftrightarrow> ssid \<noteq> ANJAY_SSID_BOOTSTRAP \<and> msk AND ACCESS_MASK_FULL = msk \<and>
     (if iid = ANJAY_ID_INVALID then msk AND ACCESS_MASK_CREATE = msk else msk AND ACCESS_MASK_CREATE = 0)"

lemma set_acl_total:
  assumes dm: "data_model objs P ids ssid_of" and P: "P s" and ok: "ac_ok ac" and sn: "queue_ok (sn_queue sn)"
    and fr: "fresh al ac" and lt: "oid < 65536" "iid < 65536" "ssid < 65536" "msk < 65536"
  shows "\<exists>r ac' sn' al' s'.
    anjay_access_control_set_acl objs oid iid ssid msk sched1 sched2 (ac, sn, al, s) = Some (r, ac', sn', al', s') \<and>
    P s' \<and> queue_ok (sn_queue sn') \<and> ac_ok ac' \<and> ac_saved_state ac' = ac_saved_state ac \<and>
    ac_in_transaction ac' = ac_in_transaction ac \<and>
    (r = 0 \<and> acl_arguments_ok iid ssid msk \<and> set_acl_ok objs ids ssid_of ac oid iid ssid \<and>
       acl_entry_set ac oid iid ssid msk ac' \<or>
     r \<noteq> 0 \<and> ac' = ac \<and>
       (\<not> acl_arguments_ok iid ssid msk \<or> \<not> set_acl_ok objs ids ssid_of ac oid iid ssid \<or> used_up al al' \<or> sched1 \<noteq> 0))"
proof (cases "acl_arguments_ok iid ssid msk")
  case False
  then have "anjay_access_control_set_acl objs oid iid ssid msk sched1 sched2 (ac, sn, al, s) = Some (- 1, ac, sn, al, s)"
    by (auto simp: acl_arguments_ok_def anjay_access_control_set_acl_def split: if_splits)
  with False P sn ok show ?thesis by simp
next
  case True
  then have run: "anjay_access_control_set_acl objs oid iid ssid msk sched1 sched2 (ac, sn, al, s) =
      set_acl objs oid iid ssid msk sched1 sched2 (ac, sn, al, s)"
    by (auto simp: acl_arguments_ok_def anjay_access_control_set_acl_def split: if_splits)
  have ssid: "ssid < ANJAY_ID_INVALID" using True lt(3) by (auto simp: acl_arguments_ok_def)
  show ?thesis
  proof (cases "find_ac_instance ac oid iid")
    case None
    from set_acl_missing [OF dm P ok sn fr ssid lt(4,1,2) None, of sched1 sched2] True
    show ?thesis unfolding run by blast
  next
    case (Some i)
    from set_acl_existing [OF dm P ok ssid lt(4) Some, of sched1 sched2 sn al] True sn
    show ?thesis unfolding run by blast
  qed
qed

section \<open>Reachable states\<close>

text \<open>
  Everything that reads or changes the object, but for the control of transactions. Numbers of Resources
  and their instances are those that the contract of the handlers allows; memory is fresh; the other
  Objects may be anything, they are in any state.
\<close>

inductive ac_change :: "'s dm_object list \<Rightarrow> access_control \<Rightarrow> access_control \<Rightarrow> bool" for objs where
  list_resources: "ac_list_resources ac iid = Some (r, xs, ac') \<Longrightarrow> ac_change objs ac ac'"
| resource_read: "ac_resource_read ac iid rid riid = Some (v, ac') \<Longrightarrow>
    rid \<in> {RID_AC_OID, RID_AC_OIID, RID_AC_OWNER} \<and> riid = ANJAY_ID_INVALID \<or> rid = RID_AC_ACL \<Longrightarrow> ac_change objs ac ac'"
| list_resource_instances: "ac_list_resource_instances ac iid RID_AC_ACL = Some (r, xs, ac') \<Longrightarrow> ac_change objs ac ac'"
| instance_reset: "ac_instance_reset ac iid = Some (r, ac') \<Longrightarrow> ac_change objs ac ac'"
| instance_create: "ac_instance_create ac iid al = Some (r, ac', al') \<Longrightarrow> iid < ANJAY_ID_INVALID \<Longrightarrow> fresh al ac \<Longrightarrow>
    ac_change objs ac ac'"
| instance_remove: "ac_instance_remove ac iid = Some (r, ac') \<Longrightarrow> ac_change objs ac ac'"
| resource_write_single: "ac_resource_write ac iid rid ANJAY_ID_INVALID ctx al = Some (r, ac', al') \<Longrightarrow>
    rid \<in> {RID_AC_OID, RID_AC_OIID, RID_AC_OWNER} \<Longrightarrow> ac_change objs ac ac'"
| resource_write_acl: "ac_resource_write ac iid RID_AC_ACL riid ctx al = Some (r, ac', al') \<Longrightarrow> riid < ANJAY_ID_INVALID \<Longrightarrow>
    ac_change objs ac ac'"
| resource_reset: "ac_resource_reset ac iid RID_AC_ACL = Some (r, ac') \<Longrightarrow> ac_change objs ac ac'"
| validate: "ac_transaction_validate objs ac al s = Some (r, ac', al', s') \<Longrightarrow> ac_change objs ac ac'"
| application: "anjay_access_control_set_acl objs oid iid ssid msk sched1 sched2 (ac, sn, al, s) =
      Some (r, ac', sn', al', s') \<Longrightarrow> fresh al ac \<Longrightarrow> queue_ok (sn_queue sn) \<Longrightarrow> data_model objs P ids ssid_of \<Longrightarrow> P s \<Longrightarrow>
    oid < 65536 \<Longrightarrow> iid < 65536 \<Longrightarrow> ssid < 65536 \<Longrightarrow> msk < 65536 \<Longrightarrow> ac_change objs ac ac'"
| purge: "anjay_access_control_purge sched (ac, sn, al) = (ac', sn', al') \<Longrightarrow> ac_change objs ac ac'"
| persist: "anjay_access_control_persist (membuf_vtable realloc) ac m = Some (m', err, ac') \<Longrightarrow> ac_change objs ac ac'"
| restore_refused: "ac_in_transaction ac \<Longrightarrow>
    anjay_access_control_restore objs (membuf_vtable realloc) ac m al = Some (m', err, ac', al') \<Longrightarrow> ac_change objs ac ac'"

text \<open>
  The states from the installation on. The data that is restored is what was stored from such a state before,
  when other Objects may have been registered, and perhaps more data after it; restoring other data is not
  checked by the code.
\<close>

inductive ac_reachable :: "'s dm_object list \<Rightarrow> access_control \<Rightarrow> bool" where
  installed: "ac_reachable objs ac_installed"
| changed: "ac_reachable objs ac \<Longrightarrow> ac_change objs ac ac' \<Longrightarrow> ac_reachable objs ac'"
| begun: "ac_reachable objs ac \<Longrightarrow> \<not> ac_in_transaction ac \<Longrightarrow> fresh al ac \<Longrightarrow>
    ac_transaction_begin ac al = Some (r, ac', al') \<Longrightarrow> ac_reachable objs ac'"
| committed: "ac_reachable objs ac \<Longrightarrow> ac_transaction_commit ac = Some (r, ac') \<Longrightarrow> ac_reachable objs ac'"
| rolled_back: "ac_reachable objs ac \<Longrightarrow> ac_transaction_rollback ac = Some (r, ac') \<Longrightarrow> ac_reachable objs ac'"
| restored: "ac_reachable objs ac \<Longrightarrow> ac_reachable objs0 ac0 \<Longrightarrow>
    anjay_access_control_persist (membuf_vtable (\<lambda>_. Some fill)) ac0 m0 = Some (m1, AVS_OK, ac1) \<Longrightarrow>
    membuf_ok m0 \<Longrightarrow> membuf_content m0 = [] \<Longrightarrow> membuf_ok m \<Longrightarrow> membuf_content m = membuf_content m1 @ rest \<Longrightarrow>
    fresh al ac \<Longrightarrow> anjay_access_control_restore objs (membuf_vtable realloc) ac m al = Some (m', err, ac', al') \<Longrightarrow>
    ac_reachable objs ac'"

definition change_ok :: "access_control \<Rightarrow> access_control \<Rightarrow> bool" where
  "change_ok ac ac' \<longleftrightarrow> ac_ok ac' \<and> ac_saved_state ac' = ac_saved_state ac \<and> ac_in_transaction ac' = ac_in_transaction ac"

lemma change_ok_cached: "ac_ok ac \<Longrightarrow> change_ok ac (cached ac iid)"
  by (simp add: change_ok_def ac_ok_cached)

lemma change_ok_touched:
  assumes "ac_ok ac" "inst_lookup (instances ac) iid = Some i"
    "\<And>i. inst_ok i \<Longrightarrow> inst_ok (f i)" "\<And>i. ai_iid (f i) = ai_iid i" "\<And>i. ai_addr (f i) = ai_addr i"
  shows "change_ok ac (touched ac iid f)"
  using ac_ok_touched [OF assms] by (simp add: change_ok_def)

lemma change_ok_created:
  assumes ok: "ac_ok ac" and iid: "iid < ANJAY_ID_INVALID" and fr: "fresh al ac"
    and run: "ac_instance_create ac iid al = Some (r, ac', al')"
  shows "change_ok ac ac'"
proof -
  have flag: "ac_ok (mark_modified (a\<lparr>ac_needs_validation := True\<rparr>))" if "ac_ok a" for a
    using that by (simp add: ac_ok_def mark_modified_def)
  show ?thesis
  proof (cases rule: alloc_next_cases [of al])
    case (1 al1)
    with run ac_instance_create_eq [OF ok iid, of al] ok show ?thesis by (simp add: change_ok_def)
  next
    case (2 p al1)
    have p: "p \<notin> ai_addr ` set (instances ac)" using fr 2(3) by (simp add: fresh_def live_def)
    have blank: "ai_addr (blank_instance p iid) = p" "ac_instance.ai_iid_update (\<lambda>_. iid) (blank_instance p iid) = blank_instance p iid"
      by (simp_all add: blank_instance_def)
    have "ac_ok (set_instances ac (insert_inst (blank_instance p iid) (instances ac)))"
      if "iid \<notin> ai_iid ` set (instances ac)"
      using ac_ok_add [OF ok iid that, of "blank_instance p iid"] p inst_ok_blank [OF iid] by (simp add: blank)
    with flag flag [OF ok] 2(1) run ac_instance_create_eq [OF ok iid, of al] show ?thesis
      by (cases "iid \<in> ai_iid ` set (instances ac)") (auto simp: change_ok_def)
  qed
qed

lemma validate_keeps:
  assumes "ac_transaction_validate objs ac al s = Some (r, ac', al', s')"
  shows "ac' = ac \<or> ac' = ac\<lparr>ac_needs_validation := False\<rparr>"
  using assms
  by (auto simp: ac_transaction_validate_def bind_eq_Some_conv split: if_splits prod.splits option.splits)

lemma persist_keeps:
  "anjay_access_control_persist vt ac s = Some (s', err, ac') \<Longrightarrow> ac' = ac \<or> ac' = clear_modified ac"
  by (auto simp: anjay_access_control_persist_def bind_eq_Some_conv Let_def split: if_splits prod.splits)

lemma ac_change_ok:
  assumes "ac_change objs ac ac'" and ok: "ac_ok ac"
  shows "change_ok ac ac'"
  using assms(1)
proof cases
  case (list_resources iid r xs)
  then have "ac' = cached ac iid" by (simp add: ac_list_resources_eq [OF ok])
  then show ?thesis by (simp add: change_ok_cached [OF ok])
next
  case (resource_read iid rid riid v)
  then have "ac' = cached ac iid" by (simp add: ac_resource_read_eq [OF ok])
  then show ?thesis by (simp add: change_ok_cached [OF ok])
next
  case (list_resource_instances iid r xs)
  then have "ac' = cached ac iid" by (simp add: ac_list_resource_instances_eq [OF ok] split: option.splits)
  then show ?thesis by (simp add: change_ok_cached [OF ok])
next
  case (instance_reset iid r)
  then show ?thesis
    by (auto simp: ac_instance_reset_eq [OF ok] change_ok_cached [OF ok] inst_ok_def acl_ok_def
        split: option.splits intro!: change_ok_touched [OF ok])
next
  case (instance_create iid al r al')
  then show ?thesis using change_ok_created [OF ok] by blast
next
  case (instance_remove iid r)
  with ac_instance_remove_correct [OF ok, of iid] show ?thesis by (auto simp: change_ok_def)
next
  case (resource_write_single iid rid ctx al r al')
  then show ?thesis
    by (auto simp: ac_resource_write_single [OF ok] change_ok_cached [OF ok] inst_ok_write_single
        split: option.splits sum.splits if_splits intro!: change_ok_touched [OF ok])
next
  case (resource_write_acl iid riid ctx al r al')
  with ac_resource_write_acl [OF ok, of riid iid ctx al] show ?thesis
    by (auto simp: change_ok_cached [OF ok] inst_ok_def intro!: change_ok_touched [OF ok])
next
  case (resource_reset iid r)
  then show ?thesis
    by (auto simp: ac_resource_reset_eq [OF ok] change_ok_cached [OF ok] inst_ok_def acl_ok_def
        split: option.splits intro!: change_ok_touched [OF ok])
next
  case (validate al s r al' s')
  from validate_keeps [OF validate] ok show ?thesis by (auto simp: change_ok_def ac_ok_def)
next
  case (application oid iid ssid msk sched1 sched2 sn al s r sn' al' s' P ids ssid_of)
  with set_acl_total [OF application(4,5) ok application(3,2,6-9), of sched1 sched2] show ?thesis
    by (auto simp: change_ok_def)
next
  case (purge sched sn al sn' al')
  with ok show ?thesis
    by (auto simp: anjay_access_control_purge_def Let_def change_ok_def ac_ok_def mark_modified_def split: prod.splits)
next
  case (persist realloc m m' err)
  from persist_keeps [OF persist] ok show ?thesis by (auto simp: change_ok_def ac_ok_def clear_modified_def)
next
  case (restore_refused realloc m al m' err al')
  with ok show ?thesis by (simp add: anjay_access_control_restore_def change_ok_def)
qed

lemma ac_changes_ok:
  assumes "(ac_change objs)\<^sup>*\<^sup>* ac ac'" and "ac_ok ac"
  shows "change_ok ac ac'"
  using assms
proof (induction rule: rtranclp_induct)
  case base
  then show ?case by (simp add: change_ok_def)
next
  case (step y z)
  then have "change_ok ac y" by simp
  with ac_change_ok [OF step(2)] show ?case by (simp add: change_ok_def)
qed

section \<open>Storing and restoring\<close>

lemma ascending_length:
  assumes "ascending key xs" and "\<forall>x \<in> set xs. key x < n"
  shows "length xs \<le> n"
proof -
  have "length xs = card (key ` set xs)" using ascending_distinct [OF assms(1)] by (metis distinct_card length_map set_map)
  also have "\<dots> \<le> card {..<n}" using assms(2) by (intro card_mono) auto
  finally show ?thesis by simp
qed

lemma insts_ok_short:
  assumes "insts_ok is"
  shows "length is \<le> 65535" and "i \<in> set is \<Longrightarrow> length (ai_acl i) \<le> 65535" and "i \<in> set is \<Longrightarrow> at_iid (ai_target i) < 65536"
proof -
  show "length is \<le> 65535"
    using ascending_length [of ai_iid "is" 65535] assms by (auto simp: insts_ok_def inst_ok_def)
  assume "i \<in> set is"
  with insts_okD(3) [OF assms] have "inst_ok i" .
  then show "length (ai_acl i) \<le> 65535" "at_iid (ai_target i) < 65536"
    using ascending_length [of ae_ssid "ai_acl i" 65535] by (auto simp: inst_ok_def acl_ok_def)
qed

text \<open>What is stored from a well-formed state, and what restoring it yields.\<close>

lemma stored_from_ok:
  assumes ok: "ac_ok ac" and run: "anjay_access_control_persist (membuf_vtable (\<lambda>_. Some fill)) ac m = Some (m', AVS_OK, ac')"
    and m: "membuf_ok m" "membuf_content m = []"
  shows "storable (stored_instances ac) \<and> length (stored_instances ac) \<le> 65535 \<and> insts_ok (stored_instances ac)
    \<and> membuf_content m' = enc_ac (stored_instances ac)"
proof -
  have insts: "insts_ok (stored_instances ac)" using ac_okD(1,2) [OF ok] by (simp add: stored_instances_def)
  have short: "\<forall>i \<in> set (stored_instances ac). length (ai_acl i) < 2 ^ 32 \<and> at_iid (ai_target i) < 65536" "length (stored_instances ac) < 2 ^ 32"
    using insts_ok_short [OF insts] by fastforce+
  note p = mbs.persist_correct [OF short m(1) TrueI, of fill]
  have all: "\<forall>i \<in> set (stored_instances ac). target_set i" using p run by (auto split: if_splits)
  with p run m(2) have "membuf_content m' = enc_ac (stored_instances ac)" by (auto simp: mbs.wrote_def)
  with all insts short insts_ok_short(1) [OF insts] insts_okD(3) [OF insts] show ?thesis by (simp add: storable_def)
qed

lemma restored_ok:
  assumes ok: "ac_ok ac" and stor: "storable is" "length is \<le> 65535" "insts_ok is"
    and m: "membuf_ok m" "membuf_content m = enc_ac is @ rest" and fr: "fresh al ac"
    and run: "anjay_access_control_restore objs (membuf_vtable realloc) ac m al = Some (m', err, ac', al')"
  shows "ac_ok ac'"
proof (cases "ac_in_transaction ac")
  case True
  with run ok show ?thesis by (simp add: anjay_access_control_restore_def)
next
  case False
  have d: "distinct (addresses al)" using fr by (simp add: fresh_def)
  note r = mbr.restore_correct [OF False stor(1,2) m d, where objs = objs and realloc = realloc]
  show ?thesis
  proof (cases "enough (restore_need objs is) al")
    case True
    from r(1) [OF True] run obtain js where
      js: "ac' = ac\<lparr>ac_current := \<lparr>as_instances = js, as_modified_since_persist = False\<rparr>, ac_last_accessed := None\<rparr>"
        "map strip_addr js = map strip_addr (restored_from objs is)" "distinct (map ai_addr js)" by auto
    have "insts_ok (restored_from objs is)" unfolding restored_from_def by (rule insts_ok_filter [OF stor(3)])
    from insts_ok_strip [OF js(2) this js(3)] ok js(1) show ?thesis by (simp add: ac_ok_def)
  next
    case no: False
    from r(2) [OF no] run ok show ?thesis by auto
  qed
qed

section \<open>The invariant\<close>

lemma ac_reachable_ok: "ac_reachable objs ac \<Longrightarrow> ac_ok ac"
proof (induction rule: ac_reachable.induct)
  case installed
  show ?case by (simp add: ac_ok_def ac_installed_def)
next
  case (changed objs ac ac')
  with ac_change_ok show ?case by (auto simp: change_ok_def)
next
  case (begun objs ac al r ac' al')
  with ac_transaction_begin_correct [of ac al] show ?case by auto
next
  case (committed objs ac r ac')
  then show ?case by (auto simp: ac_transaction_commit_def ac_ok_def)
next
  case (rolled_back objs ac r ac')
  then show ?case by (auto simp: ac_transaction_rollback_def ac_ok_def)
next
  case (restored objs ac objs0 ac0 fill m0 m1 ac1 m rest al realloc m' err ac' al')
  from restored.IH(2) restored.hyps(3-5) have "storable (stored_instances ac0)" "length (stored_instances ac0) \<le> 65535"
    "insts_ok (stored_instances ac0)" "membuf_content m1 = enc_ac (stored_instances ac0)"
    using stored_from_ok by blast+
  with restored_ok [OF restored.IH(1) _ _ _ restored.hyps(6) _ restored.hyps(8,9), of "stored_instances ac0" rest] restored.hyps(7)
  show ?case by simp
qed

end
