(* ===== verification/Ac_Decision.thy ===== *)
theory Ac_Decision
  imports Ac_Reach
begin

text \<open>
  Which operations a server may perform (\<open>_anjay_instance_action_allowed\<close> in
  \<open>core/anjay_access_utils.c\<close>). The code reads the Access Control object through the data model layer,
  so any implementation of that object will do. The locale \<open>acl_store\<close> states what it relies on, the
  decision is derived from these laws, and the object of \<open>Ac_Object\<close> is shown to obey them.
\<close>

section \<open>Reading the Access Control object\<close>

definition read_u16 :: "'s dm_object list \<Rightarrow> nat \<Rightarrow> nat \<Rightarrow> 's \<Rightarrow> ((int + nat) \<times> 's) option" where
  "read_u16 objs iid rid s = do {
     (v, s) \<leftarrow> dm_read_resource_i64 objs OID_ACCESS_CONTROL iid rid s;
     Some (case v of Inl e \<Rightarrow> Inl e | Inr v \<Rightarrow> if v \<noteq> v mod 65536 then Inl (- 1) else Inr (nat v), s) }"

text \<open>
  \<open>read_ids_from_ac_instance\<close> with its three optional outputs; the three flags say which pointers are not
  \<open>NULL\<close>. A value that is not asked for is 0.
\<close>

definition read_if :: "bool \<Rightarrow> 's dm_object list \<Rightarrow> nat \<Rightarrow> nat \<Rightarrow> 's \<Rightarrow> ((int + nat) \<times> 's) option" where
  "read_if wanted objs iid rid s = (if wanted then read_u16 objs iid rid s else Some (Inr 0, s))"

definition read_ids_from_ac_instance ::
    "'s dm_object list \<Rightarrow> nat \<Rightarrow> bool \<Rightarrow> bool \<Rightarrow> bool \<Rightarrow> 's \<Rightarrow> ((int + nat \<times> nat \<times> nat) \<times> 's) option" where
  "read_ids_from_ac_instance objs ac_iid w_oid w_oiid w_owner s = do {
     (r1, s) \<leftarrow> read_if w_oid objs ac_iid RID_AC_OID s;
     case r1 of Inl e \<Rightarrow> Some (Inl e, s) | Inr oid \<Rightarrow> do {
       (r2, s) \<leftarrow> read_if w_oiid objs ac_iid RID_AC_OIID s;
       case r2 of Inl e \<Rightarrow> Some (Inl e, s) | Inr oiid \<Rightarrow> do {
         (r3, s) \<leftarrow> read_if w_owner objs ac_iid RID_AC_OWNER s;
         case r3 of Inl e \<Rightarrow> Some (Inl e, s) | Inr owner \<Rightarrow> Some (Inr (oid, oiid, owner), s) } } }"

definition read_mask :: "'s dm_object \<Rightarrow> nat \<Rightarrow> nat \<Rightarrow> nat \<Rightarrow> 's \<Rightarrow> ((int + nat) \<times> 's) option" where
  "read_mask obj iid rid riid s = do {
     (r, v, s) \<leftarrow> dm_call_resource_read obj iid rid riid s;
     Some (if r \<noteq> 0 then Inl r else case v of None \<Rightarrow> Inl (- 1) | Some v \<Rightarrow> Inr (nat (v mod 65536)), s) }"

record get_mask_args =
  gm_acl_empty :: bool
  gm_ssid_lookup :: nat
  gm_found_ssid :: nat
  gm_mask :: nat

definition get_mask_instance_clb :: "'s dm_object \<Rightarrow> nat \<Rightarrow> (get_mask_args, 's) id_callback" where
  "get_mask_instance_clb obj iid riid args s =
     (let args = args\<lparr>gm_acl_empty := False\<rparr> in
      if riid = gm_ssid_lookup args \<or> riid = 0 then do {
        (m, s) \<leftarrow> read_mask obj iid RID_AC_ACL riid s;
        case m of
          Inl e \<Rightarrow> Some (e, args, s)
        | Inr m \<Rightarrow> Some (if riid \<noteq> 0 then ANJAY_FOREACH_BREAK else 0,
                         args\<lparr>gm_found_ssid := riid, gm_mask := m\<rparr>, s) }
      else Some (0, args, s))"

definition foreach_acl :: "'s dm_object \<Rightarrow> nat \<Rightarrow> ('a, 's) id_callback \<Rightarrow> 'a \<Rightarrow> 's \<Rightarrow> (int \<times> 'a \<times> 's) option" where
  "foreach_acl ac_obj ac_iid h a s = do {
     (r, s) \<leftarrow> dm_resource_kind_and_presence (Some ac_obj) ac_iid RID_AC_ACL s;
     case r of
       Inl e \<Rightarrow> Some (e, a, s)
     | Inr (kind, presence) \<Rightarrow>
         if presence = RES_ABSENT then Some (0, a, s)
         else if \<not> res_kind_readable kind \<or> \<not> res_kind_multiple kind then Some (- 1, a, s)
         else dm_foreach_resource_instance (Some ac_obj) ac_iid RID_AC_ACL h a s }"

text \<open>The callback finds the instance for a target; \<open>ac_iid\<close> is 65535 as long as there is none.\<close>

definition find_ac_instance_clb :: "'s dm_object list \<Rightarrow> nat \<Rightarrow> nat \<Rightarrow> (nat, 's) id_callback" where
  "find_ac_instance_clb objs oid iid ac_iid found s = do {
     (r, s) \<leftarrow> read_ids_from_ac_instance objs ac_iid True True False s;
     case r of
       Inl e \<Rightarrow> Some (e, found, s)
     | Inr (res_oid, res_oiid, _) \<Rightarrow>
         if res_oid = oid \<and> res_oiid = iid then do {
           c_assert (found = ANJAY_ID_INVALID);
           Some (ANJAY_FOREACH_BREAK, ac_iid, s) }
         else Some (ANJAY_FOREACH_CONTINUE, found, s) }"

definition find_ac_instance_by_target ::
    "'s dm_object list \<Rightarrow> 's dm_object \<Rightarrow> nat \<Rightarrow> nat \<Rightarrow> 's \<Rightarrow> ((int + nat) \<times> 's) option" where
  "find_ac_instance_by_target objs ac_obj oid iid s = do {
     (r, found, s) \<leftarrow> dm_foreach_instance (Some ac_obj) (find_ac_instance_clb objs oid iid) ANJAY_ID_INVALID s;
     Some (if r \<noteq> 0 then Inl r else if found = ANJAY_ID_INVALID then Inl ANJAY_ERR_NOT_FOUND else Inr found, s) }"

definition get_mask :: "'s dm_object \<Rightarrow> nat \<Rightarrow> nat \<Rightarrow> 's \<Rightarrow> ((int + nat \<times> nat) \<times> 's) option" where
  "get_mask ac_obj ac_iid ssid s = do {
     (r, args, s) \<leftarrow> foreach_acl ac_obj ac_iid (get_mask_instance_clb ac_obj ac_iid)
       \<lparr>gm_acl_empty = True, gm_ssid_lookup = ssid, gm_found_ssid = 0, gm_mask = ACCESS_MASK_NONE\<rparr> s;
     Some (if r \<noteq> 0 then Inl r
           else Inr (if gm_acl_empty args then ANJAY_SSID_BOOTSTRAP else gm_found_ssid args, gm_mask args), s) }"

definition access_control_mask :: "'s dm_object list \<Rightarrow> nat \<Rightarrow> nat \<Rightarrow> nat \<Rightarrow> 's \<Rightarrow> (nat \<times> 's) option" where
  "access_control_mask objs oid iid ssid s =
     (case find_object_by_oid objs OID_ACCESS_CONTROL of
        None \<Rightarrow> Some (ACCESS_MASK_NONE, s)
      | Some ac_obj \<Rightarrow> do {
          (r, s) \<leftarrow> find_ac_instance_by_target objs ac_obj oid iid s;
          case r of
            Inl _ \<Rightarrow> Some (ACCESS_MASK_NONE, s)
          | Inr ac_iid \<Rightarrow> do {
              (m, s) \<leftarrow> get_mask ac_obj ac_iid ssid s;
              case m of
                Inl _ \<Rightarrow> Some (ACCESS_MASK_NONE, s)
              | Inr (found_ssid, m) \<Rightarrow>
                  if found_ssid = ssid then Some (m, s)
                  else if found_ssid = ANJAY_SSID_BOOTSTRAP then do {
                    (o', s) \<leftarrow> read_ids_from_ac_instance objs ac_iid False False True s;
                    Some (case o' of
                            Inl _ \<Rightarrow> ACCESS_MASK_NONE
                          | Inr (_, _, owner) \<Rightarrow> if owner = ssid then access_mask_instance else ACCESS_MASK_NONE, s) }
                  else if found_ssid = 0 then Some (m, s)
                  else Some (ACCESS_MASK_NONE, s) } })"

section \<open>The decision\<close>

datatype request_action = ACTION_READ | ACTION_DISCOVER | ACTION_WRITE | ACTION_WRITE_UPDATE
  | ACTION_WRITE_ATTRIBUTES | ACTION_EXECUTE | ACTION_CREATE | ACTION_DELETE | ACTION_BOOTSTRAP_FINISH

record action_info =
  inf_oid :: nat
  inf_iid :: nat
  inf_ssid :: nat
  inf_action :: request_action

definition can_instantiate :: "'s dm_object list \<Rightarrow> action_info \<Rightarrow> 's \<Rightarrow> (bool \<times> 's) option" where
  "can_instantiate objs info s = do {
     (m, s) \<leftarrow> access_control_mask objs (inf_oid info) ANJAY_ID_INVALID (inf_ssid info) s;
     Some (m AND ACCESS_MASK_CREATE \<noteq> 0, s) }"

text \<open>
  \<open>_anjay_servers_foreach_ssid\<close> over the list of known servers; its handler gets the SSID and its own
  data.
\<close>

fun servers_foreach_ssid :: "(nat \<Rightarrow> 'a \<Rightarrow> int \<times> 'a) \<Rightarrow> nat list \<Rightarrow> 'a \<Rightarrow> int \<times> 'a" where
  "servers_foreach_ssid h [] a = (0, a)"
| "servers_foreach_ssid h (x # xs) a =
     (case h x a of (r, a) \<Rightarrow>
        if r = ANJAY_FOREACH_BREAK then (0, a) else if r \<noteq> 0 then (r, a) else servers_foreach_ssid h xs a)"

definition count_non_bootstrap_clb :: "nat \<Rightarrow> nat \<Rightarrow> int \<times> nat" where
  "count_non_bootstrap_clb ssid n = (ANJAY_FOREACH_CONTINUE, if ssid \<noteq> ANJAY_SSID_BOOTSTRAP then n + 1 else n)"

definition is_single_ssid_environment :: "nat list \<Rightarrow> bool" where
  "is_single_ssid_environment servers =
     (case servers_foreach_ssid count_non_bootstrap_clb servers 0 of (r, n) \<Rightarrow> if r \<noteq> 0 then False else n = 1)"

definition instance_action_allowed ::
    "'s dm_object list \<Rightarrow> nat list \<Rightarrow> action_info \<Rightarrow> 's \<Rightarrow> (bool \<times> 's) option" where
  "instance_action_allowed objs servers info s = do {
     c_assert (inf_oid info \<noteq> OID_SECURITY);
     c_assert (inf_iid info \<noteq> ANJAY_ID_INVALID \<or> inf_action info = ACTION_CREATE);
     if inf_ssid info = ANJAY_SSID_BOOTSTRAP then Some (True, s)
     else if inf_action info = ACTION_DISCOVER then Some (True, s)
     else if find_object_by_oid objs OID_ACCESS_CONTROL = None \<or> is_single_ssid_environment servers then Some (True, s)
     else if inf_oid info = OID_ACCESS_CONTROL then
       (if inf_action info = ACTION_READ \<or> inf_action info = ACTION_WRITE_ATTRIBUTES then Some (True, s)
        else if inf_action info = ACTION_CREATE \<or> inf_action info = ACTION_DELETE then Some (False, s)
        else do {
          (r, s) \<leftarrow> read_u16 objs (inf_iid info) RID_AC_OWNER s;
          Some (case r of Inl _ \<Rightarrow> False | Inr owner \<Rightarrow> owner = inf_ssid info, s) })
     else if inf_action info = ACTION_CREATE then can_instantiate objs info s
     else do {
       (m, s) \<leftarrow> access_control_mask objs (inf_oid info) (inf_iid info) (inf_ssid info) s;
       case inf_action info of
         ACTION_READ \<Rightarrow> Some (m AND ACCESS_MASK_READ \<noteq> 0, s)
       | ACTION_WRITE_ATTRIBUTES \<Rightarrow> Some (m AND ACCESS_MASK_READ \<noteq> 0, s)
       | ACTION_WRITE \<Rightarrow> Some (m AND ACCESS_MASK_WRITE \<noteq> 0, s)
       | ACTION_WRITE_UPDATE \<Rightarrow> Some (m AND ACCESS_MASK_WRITE \<noteq> 0, s)
       | ACTION_EXECUTE \<Rightarrow> Some (m AND ACCESS_MASK_EXECUTE \<noteq> 0, s)
       | ACTION_DELETE \<Rightarrow> Some (m AND ACCESS_MASK_DELETE \<noteq> 0, s)
       | _ \<Rightarrow> None } }"

section \<open>What is allowed\<close>

text \<open>
  The access rights of LwM2M over a list of Access Control instances: an empty access list gives the
  owner all rights but Create; otherwise the entry of the server counts, and without one the default
  entry.
\<close>

definition rights :: "ac_instance list \<Rightarrow> nat \<Rightarrow> nat \<Rightarrow> nat \<Rightarrow> nat" where
  "rights is oid iid ssid =
     (case find_target_loop is oid iid of
        None \<Rightarrow> ACCESS_MASK_NONE
      | Some i \<Rightarrow>
          if ai_acl i = [] then (if ai_owner i = ssid then access_mask_instance else ACCESS_MASK_NONE)
          else (case acl_mask (ai_acl i) ssid of
                  Some m \<Rightarrow> m
                | None \<Rightarrow> (case acl_mask (ai_acl i) ANJAY_SSID_ANY of Some m \<Rightarrow> m | None \<Rightarrow> ACCESS_MASK_NONE)))"

definition right_needed :: "request_action \<Rightarrow> nat" where
  "right_needed a =
     (case a of
        ACTION_READ \<Rightarrow> ACCESS_MASK_READ | ACTION_WRITE_ATTRIBUTES \<Rightarrow> ACCESS_MASK_READ
      | ACTION_WRITE \<Rightarrow> ACCESS_MASK_WRITE | ACTION_WRITE_UPDATE \<Rightarrow> ACCESS_MASK_WRITE
      | ACTION_EXECUTE \<Rightarrow> ACCESS_MASK_EXECUTE | ACTION_DELETE \<Rightarrow> ACCESS_MASK_DELETE
      | ACTION_CREATE \<Rightarrow> ACCESS_MASK_CREATE | _ \<Rightarrow> 0)"

definition permitted :: "ac_instance list \<Rightarrow> nat list \<Rightarrow> action_info \<Rightarrow> bool" where
  "permitted is servers info \<longleftrightarrow>
     inf_ssid info = ANJAY_SSID_BOOTSTRAP \<or> inf_action info = ACTION_DISCOVER \<or>
     length (filter (\<lambda>x. x \<noteq> ANJAY_SSID_BOOTSTRAP) servers) = 1 \<or>
     (if inf_oid info = OID_ACCESS_CONTROL then
        inf_action info \<in> {ACTION_READ, ACTION_WRITE_ATTRIBUTES} \<or>
        inf_action info \<notin> {ACTION_CREATE, ACTION_DELETE} \<and>
        (\<exists>i \<in> set is. ai_iid i = inf_iid info \<and> ai_owner i = inf_ssid info)
      else
        rights is (inf_oid info) (if inf_action info = ACTION_CREATE then ANJAY_ID_INVALID else inf_iid info)
          (inf_ssid info) AND right_needed (inf_action info) \<noteq> 0)"

section \<open>The contract of the object\<close>

text \<open>
  \<open>P\<close> holds of the states in which the object holds the given instances; reading leads from one such
  state to another.
\<close>

definition ac_resources :: "bool \<Rightarrow> (nat \<times> int \<times> int) list" where
  "ac_resources has_acl =
     [(RID_AC_OID, RES_R, RES_PRESENT), (RID_AC_OIID, RES_R, RES_PRESENT),
      (RID_AC_ACL, RES_RWM, if has_acl then RES_PRESENT else RES_ABSENT), (RID_AC_OWNER, RES_RW, RES_PRESENT)]"

definition single_value :: "ac_instance \<Rightarrow> nat \<Rightarrow> int" where
  "single_value i rid =
     (if rid = RID_AC_OID then int (at_oid (ai_target i)) else if rid = RID_AC_OIID then at_iid (ai_target i)
      else int (ai_owner i))"

locale acl_store =
  fixes objs :: "'s dm_object list" and ac_obj :: "'s dm_object" and P :: "'s \<Rightarrow> bool"
    and insts :: "ac_instance list"
  assumes store_registered: "find_object_by_oid objs OID_ACCESS_CONTROL = Some ac_obj"
    and store_sound: "P s \<Longrightarrow> insts_ok insts"
    and store_lists: "P s \<Longrightarrow> lists_instances ac_obj P (map ai_iid insts)"
    and store_resources: "P s \<Longrightarrow> i \<in> set insts \<Longrightarrow>
      \<exists>l s'. do_list_resources ac_obj = Some l \<and> l s (ai_iid i) = Some (0, ac_resources (ai_has_acl i), s') \<and> P s'"
    and store_entries: "P s \<Longrightarrow> i \<in> set insts \<Longrightarrow>
      \<exists>l s'. do_list_resource_instances ac_obj = Some l \<and>
        l s (ai_iid i) RID_AC_ACL = Some (0, map ae_ssid (ai_acl i), s') \<and> P s'"
    and store_values: "P s \<Longrightarrow> i \<in> set insts \<Longrightarrow> rid \<in> {RID_AC_OID, RID_AC_OIID, RID_AC_OWNER} \<Longrightarrow>
      \<exists>rd s'. do_resource_read ac_obj = Some rd \<and>
        rd s (ai_iid i) rid ANJAY_ID_INVALID = Some (0, Some (single_value i rid), s') \<and> P s'"
    and store_masks: "P s \<Longrightarrow> i \<in> set insts \<Longrightarrow> acl_mask (ai_acl i) ssid = Some m \<Longrightarrow>
      \<exists>rd s'. do_resource_read ac_obj = Some rd \<and>
        rd s (ai_iid i) RID_AC_ACL ssid = Some (0, Some (int m), s') \<and> P s'"
    and store_missing: "P s \<Longrightarrow> iid \<notin> ai_iid ` set insts \<Longrightarrow>
      \<exists>e s'. dm_read_resource_i64 objs OID_ACCESS_CONTROL iid RID_AC_OWNER s = Some (Inl e, s') \<and> P s'"
begin

lemma kind_and_presence:
  assumes "P s" and "i \<in> set insts"
  shows "\<exists>s'. dm_resource_kind_and_presence (Some ac_obj) (ai_iid i) RID_AC_ACL s =
      Some (Inr (RES_RWM, if ai_has_acl i then RES_PRESENT else RES_ABSENT), s') \<and> P s'"
    and "rid \<in> {RID_AC_OID, RID_AC_OIID, RID_AC_OWNER} \<Longrightarrow>
      \<exists>k s'. dm_verify_resource_present (Some ac_obj) (ai_iid i) rid s = Some (Inr k, s') \<and>
        \<not> res_kind_multiple k \<and> P s'"
  using store_resources [OF assms]
  by (auto simp: dm_verify_resource_present_def dm_resource_kind_and_presence_def dm_foreach_resource_def
      ac_resources_def kind_and_presence_clb_def res_kind_valid_def presence_valid_def foreach_result_def
      res_kind_multiple_def)

lemma read_single:
  assumes "P s" and "i \<in> set insts" and "rid \<in> {RID_AC_OID, RID_AC_OIID, RID_AC_OWNER}"
  shows "\<exists>s'. dm_read_resource_i64 objs OID_ACCESS_CONTROL (ai_iid i) rid s = Some (Inr (single_value i rid), s') \<and> P s'"
proof -
  obtain k s1 where k: "dm_verify_resource_present (Some ac_obj) (ai_iid i) rid s = Some (Inr k, s1)"
    "\<not> res_kind_multiple k" "P s1"
    using kind_and_presence(2) [OF assms] by blast
  obtain rd s2 where "do_resource_read ac_obj = Some rd"
    "rd s1 (ai_iid i) rid ANJAY_ID_INVALID = Some (0, Some (single_value i rid), s2)" "P s2"
    using store_values [OF k(3) assms(2,3)] by blast
  with k store_registered show ?thesis
    by (simp add: dm_read_resource_i64_def dm_call_resource_read_def)
qed

lemma read_u16_single:
  assumes "P s" and "i \<in> set insts" and "rid \<in> {RID_AC_OID, RID_AC_OIID, RID_AC_OWNER}"
    and "0 \<le> at_iid (ai_target i)"
  shows "\<exists>s'. read_u16 objs (ai_iid i) rid s = Some (Inr (nat (single_value i rid)), s') \<and> P s'"
proof -
  have "inst_ok i" using store_sound [OF assms(1)] assms(2) insts_okD(3) by blast
  then have "single_value i rid mod 65536 = single_value i rid"
    using assms(3,4) by (auto simp: single_value_def inst_ok_def)
  with read_single [OF assms(1-3)] show ?thesis by (auto simp: read_u16_def)
qed

lemma read_mask_entry:
  assumes "P s" and "i \<in> set insts" and "acl_mask (ai_acl i) ssid = Some m"
  shows "\<exists>s'. read_mask ac_obj (ai_iid i) RID_AC_ACL ssid s = Some (Inr m, s') \<and> P s'"
proof -
  have "inst_ok i" using store_sound [OF assms(1)] assms(2) insts_okD(3) by blast
  then have "\<forall>e \<in> set (ai_acl i). ae_mask e < 65536" by (simp add: inst_ok_def acl_ok_def)
  with assms(3) have "m < 65536" by (induction "ai_acl i" arbitrary: i) (auto simp: acl_mask_def dest!: map_of_SomeD)
  with store_masks [OF assms] show ?thesis by (auto simp: read_mask_def dm_call_resource_read_def)
qed

text \<open>The instance for a target, when no target in the list is unset.\<close>

lemma find_ac_instance_by_target_correct:
  assumes P: "P s" and set: "\<forall>i \<in> set insts. 0 \<le> at_iid (ai_target i)"
  shows "\<exists>s'. find_ac_instance_by_target objs ac_obj oid iid s =
    Some (case find_target_loop insts oid iid of None \<Rightarrow> Inl ANJAY_ERR_NOT_FOUND | Some i \<Rightarrow> Inr (ai_iid i), s') \<and> P s'"
proof -
  define Q where "Q j \<longleftrightarrow> (\<exists>i \<in> set insts. ai_iid i = j \<and> at_oid (ai_target i) = oid \<and> at_iid (ai_target i) = int iid)" for j
  let ?g = "\<lambda>j (a :: nat). if Q j then (ANJAY_FOREACH_BREAK, j) else (0 :: int, a)"
  note ok = store_sound [OF P]
  have clb: "\<exists>s'. find_ac_instance_clb objs oid iid j a s = Some (fst (?g j a), snd (?g j a), s') \<and> P s' \<and>
      (fst (?g j a) = 0 \<longrightarrow> snd (?g j a) = ANJAY_ID_INVALID)"
    if j: "j \<in> set (map ai_iid insts)" and Ps: "P s" and a: "a = ANJAY_ID_INVALID" for j a s
  proof -
    obtain i where i: "i \<in> set insts" "ai_iid i = j" using j by auto
    have pos: "0 \<le> at_iid (ai_target i)" using set i(1) by blast
    obtain s1 where s1: "read_u16 objs j RID_AC_OID s = Some (Inr (at_oid (ai_target i)), s1)" "P s1"
      using read_u16_single [OF Ps i(1) _ pos, of RID_AC_OID] i(2) by (auto simp: single_value_def)
    obtain s2 where s2: "read_u16 objs j RID_AC_OIID s1 = Some (Inr (nat (at_iid (ai_target i))), s2)" "P s2"
      using read_u16_single [OF s1(2) i(1) _ pos, of RID_AC_OIID] i(2) by (auto simp: single_value_def)
    have "Q j \<longleftrightarrow> at_oid (ai_target i) = oid \<and> nat (at_iid (ai_target i)) = iid"
      using i inst_lookup_mem [OF ok] pos unfolding Q_def by (metis int_nat_eq nat_int option.inject)
    with s1(1) s2 a show ?thesis
      by (simp add: find_ac_instance_clb_def read_ids_from_ac_instance_def read_if_def)
  qed
  obtain s' where s': "dm_foreach_instance (Some ac_obj) (find_ac_instance_clb objs oid iid) ANJAY_ID_INVALID s =
      Some (foreach_result 0 (fst (emit_fold ?g (map ai_iid insts) ANJAY_ID_INVALID)),
            snd (emit_fold ?g (map ai_iid insts) ANJAY_ID_INVALID), s')" "P s'"
    using dm_foreach_instance_inv [OF store_lists [OF P] P, of "\<lambda>a. a = ANJAY_ID_INVALID" ANJAY_ID_INVALID
        "find_ac_instance_clb objs oid iid" ?g] clb by blast
  have sub: "find Q (map ai_iid ks) = map_option ai_iid (find_target_loop ks oid iid)" if "set ks \<subseteq> set insts" for ks
    using that
  proof (induction ks)
    case (Cons k ks)
    have "Q (ai_iid k) \<longleftrightarrow> at_oid (ai_target k) = oid \<and> at_iid (ai_target k) = int iid"
      using Cons.prems inst_lookup_mem [OF ok] unfolding Q_def
      by (metis list.set_intros(1) option.inject subset_iff)
    with Cons show ?case by auto
  qed simp
  have lt: "find_target_loop insts oid iid = Some i \<Longrightarrow> ai_iid i \<noteq> ANJAY_ID_INVALID" for i
    using find_target_Some insts_okD(3) [OF ok] by (fastforce simp: inst_ok_def)
  show ?thesis
    using s' sub [OF subset_refl] lt
    by (cases "find_target_loop insts oid iid")
      (simp_all add: find_ac_instance_by_target_def emit_fold_find foreach_result_def)
qed

text \<open>The entry that counts for a server.\<close>

definition mask_step :: "ac_instance \<Rightarrow> nat \<Rightarrow> get_mask_args \<Rightarrow> int \<times> get_mask_args" where
  "mask_step i riid args =
     (let args = args\<lparr>gm_acl_empty := False\<rparr> in
      if riid = gm_ssid_lookup args \<or> riid = 0 then
        (if riid \<noteq> 0 then ANJAY_FOREACH_BREAK else 0, args\<lparr>gm_found_ssid := riid, gm_mask := the (acl_mask (ai_acl i) riid)\<rparr>)
      else (0, args))"

lemma mask_fold:
  assumes "gm_ssid_lookup a \<noteq> 0"
  shows "fst (emit_fold (mask_step i) ids a) \<in> {0, ANJAY_FOREACH_BREAK} \<and>
    snd (emit_fold (mask_step i) ids a) =
      (if gm_ssid_lookup a \<in> set ids then
         a\<lparr>gm_acl_empty := False, gm_found_ssid := gm_ssid_lookup a, gm_mask := the (acl_mask (ai_acl i) (gm_ssid_lookup a))\<rparr>
       else if 0 \<in> set ids then a\<lparr>gm_acl_empty := False, gm_found_ssid := 0, gm_mask := the (acl_mask (ai_acl i) 0)\<rparr>
       else if ids = [] then a else a\<lparr>gm_acl_empty := False\<rparr>)"
  using assms
proof (induction ids arbitrary: a)
  case (Cons j ids)
  consider "j = gm_ssid_lookup a" | "j = 0" "j \<noteq> gm_ssid_lookup a" | "j \<noteq> 0" "j \<noteq> gm_ssid_lookup a" by blast
  then show ?case
  proof cases
    case 1
    with Cons.prems show ?thesis by (simp add: mask_step_def Let_def)
  next
    case 2
    let ?a = "a\<lparr>gm_acl_empty := False, gm_found_ssid := 0, gm_mask := the (acl_mask (ai_acl i) 0)\<rparr>"
    have "mask_step i j a = (0, ?a)" using 2 by (simp add: mask_step_def Let_def)
    with 2 Cons.IH [of ?a] Cons.prems show ?thesis by auto
  next
    case 3
    let ?a = "a\<lparr>gm_acl_empty := False\<rparr>"
    have "mask_step i j a = (0, ?a)" using 3 by (simp add: mask_step_def Let_def)
    with 3 Cons.IH [of ?a] Cons.prems show ?thesis by auto
  qed
qed simp

lemma get_mask_correct:
  assumes P: "P s" and i: "i \<in> set insts" and ssid: "ssid \<noteq> 0"
  shows "\<exists>s'. get_mask ac_obj (ai_iid i) ssid s =
    Some (Inr (case acl_mask (ai_acl i) ssid of
                 Some m \<Rightarrow> (ssid, m)
               | None \<Rightarrow> (case acl_mask (ai_acl i) 0 of
                            Some m \<Rightarrow> (0, m)
                          | None \<Rightarrow> (if ai_acl i = [] then ANJAY_SSID_BOOTSTRAP else 0, ACCESS_MASK_NONE))), s') \<and> P s'"
proof -
  let ?a = "\<lparr>gm_acl_empty = True, gm_ssid_lookup = ssid, gm_found_ssid = 0, gm_mask = ACCESS_MASK_NONE\<rparr>"
  have iok: "inst_ok i" using store_sound [OF P] i insts_okD(3) by blast
  obtain s1 where k: "dm_resource_kind_and_presence (Some ac_obj) (ai_iid i) RID_AC_ACL s =
      Some (Inr (RES_RWM, if ai_has_acl i then RES_PRESENT else RES_ABSENT), s1)" "P s1"
    using kind_and_presence(1) [OF P i] by blast
  show ?thesis
  proof (cases "ai_has_acl i")
    case False
    with iok have "ai_acl i = []" by (simp add: inst_ok_def)
    with k False show ?thesis by (simp add: get_mask_def foreach_acl_def)
  next
    case True
    let ?ids = "map ae_ssid (ai_acl i)"
    obtain l s2 where l: "do_list_resource_instances ac_obj = Some l" "l s1 (ai_iid i) RID_AC_ACL = Some (0, ?ids, s2)" "P s2"
      using store_entries [OF k(2) i] by blast
    have asc: "ascending ae_ssid (ai_acl i)" "\<forall>e \<in> set (ai_acl i). ae_ssid e < ANJAY_ID_INVALID"
      using iok by (auto simp: inst_ok_def acl_ok_def)
    then have ids: "ids_ok ?ids" by (auto simp: ids_ok_def ascending_map o_def)
    have clb: "\<exists>s'. get_mask_instance_clb ac_obj (ai_iid i) j a s = Some (fst (mask_step i j a), snd (mask_step i j a), s') \<and>
        P s' \<and> (fst (mask_step i j a) = 0 \<longrightarrow> True)" if j: "j \<in> set ?ids" and Ps: "P s" for j a s
    proof -
      obtain m where m: "acl_mask (ai_acl i) j = Some m" using j acl_mask_None [of "ai_acl i" j] by auto
      obtain s' where "read_mask ac_obj (ai_iid i) RID_AC_ACL j s = Some (Inr m, s')" "P s'"
        using read_mask_entry [OF Ps i m] by blast
      with m Ps show ?thesis by (simp add: get_mask_instance_clb_def mask_step_def Let_def)
    qed
    obtain s3 where s3: "emit_loop (get_mask_instance_clb ac_obj (ai_iid i)) ?ids (- 1) 0 ?a s2 =
        Some (fst (emit_fold (mask_step i) ?ids ?a), snd (emit_fold (mask_step i) ?ids ?a), s3)" "P s3"
      using emit_loop_fold [of ?ids "- 1" P s2 "\<lambda>_. True" ?a "get_mask_instance_clb ac_obj (ai_iid i)" "mask_step i"] ids l(3) clb
      by fastforce
    have run: "foreach_acl ac_obj (ai_iid i) (get_mask_instance_clb ac_obj (ai_iid i)) ?a s =
        Some (foreach_result 0 (fst (emit_fold (mask_step i) ?ids ?a)), snd (emit_fold (mask_step i) ?ids ?a), s3)"
      using k True l s3(1)
      by (simp add: foreach_acl_def dm_foreach_resource_instance_def res_kind_readable_def res_kind_multiple_def)
    have f: "fst (emit_fold (mask_step i) ?ids ?a) \<in> {0, ANJAY_FOREACH_BREAK}"
      and e: "snd (emit_fold (mask_step i) ?ids ?a) =
        (if ssid \<in> set ?ids then ?a\<lparr>gm_acl_empty := False, gm_found_ssid := ssid, gm_mask := the (acl_mask (ai_acl i) ssid)\<rparr>
         else if 0 \<in> set ?ids then ?a\<lparr>gm_acl_empty := False, gm_found_ssid := 0, gm_mask := the (acl_mask (ai_acl i) 0)\<rparr>
         else if ?ids = [] then ?a else ?a\<lparr>gm_acl_empty := False\<rparr>)"
      using mask_fold [of ?a i ?ids] ssid by simp_all
    have zero: "foreach_result 0 (fst (emit_fold (mask_step i) ?ids ?a)) = 0" using f by (auto simp: foreach_result_def)
    have mem: "j \<in> set ?ids \<longleftrightarrow> acl_mask (ai_acl i) j \<noteq> None" for j by (simp add: acl_mask_None)
    show ?thesis
      using run zero s3(2) mem [of ssid] mem [of 0] by (auto simp: get_mask_def e split: option.splits)
  qed
qed

lemma access_control_mask_correct:
  assumes P: "P s" and set: "\<forall>i \<in> set insts. 0 \<le> at_iid (ai_target i)"
    and ssid: "ssid \<noteq> 0" "ssid \<noteq> ANJAY_SSID_BOOTSTRAP"
  shows "\<exists>s'. access_control_mask objs oid iid ssid s = Some (rights insts oid iid ssid, s') \<and> P s'"
proof -
  obtain s1 where s1: "find_ac_instance_by_target objs ac_obj oid iid s =
    Some (case find_target_loop insts oid iid of None \<Rightarrow> Inl ANJAY_ERR_NOT_FOUND | Some i \<Rightarrow> Inr (ai_iid i), s1)" "P s1"
    using find_ac_instance_by_target_correct [OF P set] by blast
  show ?thesis
  proof (cases "find_target_loop insts oid iid")
    case None
    with s1 store_registered show ?thesis by (simp add: access_control_mask_def rights_def)
  next
    case (Some i)
    have i: "i \<in> set insts" using find_target_Some [OF Some] by simp
    obtain s2 where s2: "get_mask ac_obj (ai_iid i) ssid s1 =
      Some (Inr (case acl_mask (ai_acl i) ssid of
                 Some m \<Rightarrow> (ssid, m)
               | None \<Rightarrow> (case acl_mask (ai_acl i) 0 of
                            Some m \<Rightarrow> (0, m)
                          | None \<Rightarrow> (if ai_acl i = [] then ANJAY_SSID_BOOTSTRAP else 0, ACCESS_MASK_NONE))), s2)" "P s2"
      using get_mask_correct [OF s1(2) i ssid(1)] by blast
    obtain s3 where s3: "read_u16 objs (ai_iid i) RID_AC_OWNER s2 = Some (Inr (ai_owner i), s3)" "P s3"
      using read_u16_single [OF s2(2) i, of RID_AC_OWNER] set i by (auto simp: single_value_def)
    note base = access_control_mask_def store_registered s1(1) Some s2(1) rights_def
    show ?thesis
    proof (cases "ai_acl i = []")
      case True
      with s2(2) s3 ssid show ?thesis by (simp add: base read_ids_from_ac_instance_def read_if_def)
    next
      case False
      with s2(2) ssid show ?thesis by (cases "acl_mask (ai_acl i) ssid"; cases "acl_mask (ai_acl i) 0") (simp_all add: base)
    qed
  qed
qed

lemma single_ssid: "is_single_ssid_environment servers \<longleftrightarrow> length (filter (\<lambda>x. x \<noteq> ANJAY_SSID_BOOTSTRAP) servers) = 1"
proof -
  have "servers_foreach_ssid count_non_bootstrap_clb xs n = (0, n + length (filter (\<lambda>x. x \<noteq> ANJAY_SSID_BOOTSTRAP) xs))" for xs n
    by (induction xs arbitrary: n) (auto simp: count_non_bootstrap_clb_def)
  then show ?thesis by (simp add: is_single_ssid_environment_def)
qed

lemma action_allowed_correct:
  assumes P: "P s" and set: "\<forall>i \<in> set insts. 0 \<le> at_iid (ai_target i)"
    and ssid: "inf_ssid info \<noteq> 0"
    and info: "inf_oid info \<noteq> OID_SECURITY" "inf_iid info \<noteq> ANJAY_ID_INVALID \<or> inf_action info = ACTION_CREATE"
      "inf_action info \<noteq> ACTION_BOOTSTRAP_FINISH"
  shows "\<exists>s'. instance_action_allowed objs servers info s = Some (permitted insts servers info, s') \<and> P s'"
proof -
  let ?free = "inf_ssid info = ANJAY_SSID_BOOTSTRAP \<or> inf_action info = ACTION_DISCOVER \<or> is_single_ssid_environment servers"
  note base = instance_action_allowed_def permitted_def single_ssid
  show ?thesis
  proof (cases ?free)
    case True
    with P info show ?thesis by (auto simp: base)
  next
    case nofree: False
    then have nb: "inf_ssid info \<noteq> ANJAY_SSID_BOOTSTRAP" by simp
    show ?thesis
    proof (cases "inf_oid info = OID_ACCESS_CONTROL")
      case ac: True
      have own: "\<exists>r s'. read_u16 objs (inf_iid info) RID_AC_OWNER s = Some (r, s') \<and> P s' \<and>
          (case r of Inl _ \<Rightarrow> False | Inr owner \<Rightarrow> owner = inf_ssid info) =
          (\<exists>i \<in> set insts. ai_iid i = inf_iid info \<and> ai_owner i = inf_ssid info)"
      proof (cases "inf_iid info \<in> ai_iid ` set insts")
        case True
        then obtain i where i: "i \<in> set insts" "ai_iid i = inf_iid info" by auto
        obtain s1 where s1: "read_u16 objs (inf_iid info) RID_AC_OWNER s = Some (Inr (ai_owner i), s1)" "P s1"
          using read_u16_single [OF P i(1), of RID_AC_OWNER] set i by (auto simp: single_value_def)
        have "j \<in> set insts \<Longrightarrow> ai_iid j = inf_iid info \<Longrightarrow> j = i" for j
          using inst_lookup_mem [OF store_sound [OF P]] i by (metis option.inject)
        with i have "(\<exists>j \<in> set insts. ai_iid j = inf_iid info \<and> ai_owner j = inf_ssid info) \<longleftrightarrow> ai_owner i = inf_ssid info"
          by blast
        with s1 show ?thesis by (intro exI [of _ "Inr (ai_owner i)"] exI [of _ s1]) simp
      next
        case False
        obtain e s1 where "dm_read_resource_i64 objs OID_ACCESS_CONTROL (inf_iid info) RID_AC_OWNER s = Some (Inl e, s1)" "P s1"
          using store_missing [OF P False] by blast
        moreover from False have "\<not> (\<exists>i \<in> set insts. ai_iid i = inf_iid info \<and> ai_owner i = inf_ssid info)"
          by (metis image_eqI)
        ultimately show ?thesis by (intro exI [of _ "Inl e"] exI [of _ s1]) (simp add: read_u16_def)
      qed
      then obtain r s' where "read_u16 objs (inf_iid info) RID_AC_OWNER s = Some (r, s')" "P s'"
          "(case r of Inl _ \<Rightarrow> False | Inr owner \<Rightarrow> owner = inf_ssid info) =
          (\<exists>i \<in> set insts. ai_iid i = inf_iid info \<and> ai_owner i = inf_ssid info)"
        by blast
      with nofree ac P info store_registered show ?thesis by (cases "inf_action info") (simp_all add: base)
    next
      case other: False
      obtain s' where s': "access_control_mask objs (inf_oid info)
          (if inf_action info = ACTION_CREATE then ANJAY_ID_INVALID else inf_iid info) (inf_ssid info) s =
          Some (rights insts (inf_oid info) (if inf_action info = ACTION_CREATE then ANJAY_ID_INVALID else inf_iid info)
            (inf_ssid info), s')" "P s'"
        using access_control_mask_correct [OF P set ssid nb] by blast
      with nofree other info store_registered show ?thesis
        by (cases "inf_action info") (auto simp: base can_instantiate_def right_needed_def)
    qed
  qed
qed

end

section \<open>The object of the module\<close>

text \<open>
  The handlers of \<open>Ac_Object\<close> as an entry of the registry. The state of the device is that of the module
  and that of everything else. \<open>anjay_ret_i32\<close> writes eight bytes into the buffer of the reader.
\<close>

definition ac_dm_object :: "(access_control \<times> 'o) dm_object" where
  "ac_dm_object =
     \<lparr>do_oid = OID_ACCESS_CONTROL,
      do_list_instances = Some (\<lambda>(ac, w). case ac_list_instances ac of (r, ids) \<Rightarrow> Some (r, ids, (ac, w))),
      do_list_resources = Some (\<lambda>(ac, w) iid. do {
        (r, xs, ac) \<leftarrow> ac_list_resources ac iid;
        Some (r, xs, (ac, w)) }),
      do_list_resource_instances = Some (\<lambda>(ac, w) iid rid. do {
        (r, ids, ac) \<leftarrow> ac_list_resource_instances ac iid rid;
        Some (r, ids, (ac, w)) }),
      do_resource_read = Some (\<lambda>(ac, w) iid rid riid. do {
        (v, ac) \<leftarrow> ac_resource_read ac iid rid riid;
        Some (case v of Inl e \<Rightarrow> (e, None, (ac, w)) | Inr v \<Rightarrow> (0, Some v, (ac, w))) })\<rparr>"

text \<open>
  \<open>anjay_register_object\<close> keeps the registry sorted by Object ID; \<open>None\<close> is its failure for an ID that is
  taken. \<open>ac_registry\<close> is the registry with the Access Control object among the others.
\<close>

fun register_object :: "'s dm_object list \<Rightarrow> 's dm_object \<Rightarrow> 's dm_object list option" where
  "register_object [] ob = Some [ob]"
| "register_object (x # xs) ob =
     (if do_oid ob \<le> do_oid x then (if do_oid x = do_oid ob then None else Some (ob # x # xs))
      else map_option (Cons x) (register_object xs ob))"

definition ac_registry :: "(access_control \<times> 'o) dm_object list \<Rightarrow> (access_control \<times> 'o) dm_object list" where
  "ac_registry others = filter (\<lambda>ob. do_oid ob < OID_ACCESS_CONTROL) others @ ac_dm_object #
     filter (\<lambda>ob. do_oid ob > OID_ACCESS_CONTROL) others"

lemma register_access_control:
  assumes "ascending do_oid others" and "OID_ACCESS_CONTROL \<notin> do_oid ` set others"
  shows "register_object others ac_dm_object = Some (ac_registry others)"
  using assms
proof (induction others)
  case (Cons x xs)
  show ?case
  proof (cases "do_oid x > OID_ACCESS_CONTROL")
    case True
    with Cons.prems have "\<forall>y \<in> set xs. do_oid y > OID_ACCESS_CONTROL" by auto
    then have "filter (\<lambda>ob. do_oid ob < OID_ACCESS_CONTROL) xs = []" "filter (\<lambda>ob. do_oid ob > OID_ACCESS_CONTROL) xs = xs"
      by (auto simp: filter_empty_conv filter_id_conv)
    with True show ?thesis by (simp add: ac_registry_def ac_dm_object_def)
  next
    case False
    with Cons show ?thesis by (auto simp: ac_registry_def ac_dm_object_def)
  qed
qed (simp add: ac_registry_def)

lemma find_in_registry:
  fixes others :: "(access_control \<times> 'o) dm_object list"
  shows "find_object_by_oid (ac_registry others) OID_ACCESS_CONTROL = Some ac_dm_object"
proof -
  have "find_object_by_oid (xs @ ac_dm_object # ys) OID_ACCESS_CONTROL = Some ac_dm_object"
    if "\<forall>ob \<in> set xs. do_oid ob < OID_ACCESS_CONTROL" for xs ys :: "(access_control \<times> 'o) dm_object list"
    using that by (induction xs) (auto simp: ac_dm_object_def)
  then show ?thesis by (simp add: ac_registry_def)
qed

text \<open>The states of the device in which the module holds the given instances.\<close>

definition module_holds :: "ac_instance list \<Rightarrow> 'o \<Rightarrow> access_control \<times> 'o \<Rightarrow> bool" where
  "module_holds insts w s \<longleftrightarrow> ac_ok (fst s) \<and> instances (fst s) = insts \<and> snd s = w"

lemma module_holds_cached: "module_holds insts w (ac, w') \<Longrightarrow> module_holds insts w (cached ac iid, w')"
  by (simp add: module_holds_def ac_ok_cached)

lemma module_read_missing:
  assumes "module_holds insts w s" and "iid \<notin> ai_iid ` set insts"
  shows "\<exists>e s'. dm_read_resource_i64 (ac_registry others) OID_ACCESS_CONTROL iid RID_AC_OWNER s = Some (Inl e, s') \<and>
    module_holds insts w s'"
proof -
  obtain ac where s: "s = (ac, w)" and ok: "ac_ok ac" and i: "instances ac = insts"
    using assms(1) by (cases s) (auto simp: module_holds_def)
  have none: "inst_lookup insts iid = None" using assms(2) by (simp add: inst_lookup_None)
  have ok1: "ac_ok (cached ac iid)" using ac_ok_cached [OF ok] .
  show ?thesis
    using none i ok ok1
    by (simp add: dm_read_resource_i64_def find_in_registry dm_verify_resource_present_def
        dm_resource_kind_and_presence_def dm_foreach_resource_def dm_call_resource_read_def ac_dm_object_def s
        ac_list_resources_eq [OF ok] ac_resource_read_eq [OF ok1] kind_and_presence_clb_def res_kind_valid_def
        presence_valid_def foreach_result_def res_kind_multiple_def module_holds_def ac_ok_cached)
qed

interpretation ac_module: acl_store "ac_registry others" ac_dm_object "module_holds insts w" insts
  for others :: "(access_control \<times> 'o) dm_object list" and insts :: "ac_instance list" and w :: 'o
proof
  show "find_object_by_oid (ac_registry others) OID_ACCESS_CONTROL = Some ac_dm_object" by (rule find_in_registry)
next
  fix s :: "access_control \<times> 'o"
  assume h: "module_holds insts w s"
  obtain ac where s: "s = (ac, w)" and ok: "ac_ok ac" and i: "instances ac = insts"
    using h by (cases s) (auto simp: module_holds_def)
  have io: "insts_ok insts" using ac_okD(1) [OF ok] i by simp
  show "insts_ok insts" by (rule io)
  have ids: "ids_ok (map ai_iid insts)"
    using io by (auto simp: ids_ok_def ascending_map o_def insts_ok_def inst_ok_def)
  then show "lists_instances ac_dm_object (module_holds insts w) (map ai_iid insts)"
    by (auto simp: lists_instances_def ac_dm_object_def ac_list_instances_def module_holds_def)
  show "\<exists>e s'. dm_read_resource_i64 (ac_registry others) OID_ACCESS_CONTROL iid RID_AC_OWNER s = Some (Inl e, s') \<and>
      module_holds insts w s'" if "iid \<notin> ai_iid ` set insts" for iid
    by (rule module_read_missing [OF h that])
  fix x assume x: "x \<in> set insts"
  have look: "inst_lookup insts (ai_iid x) = Some x" using inst_lookup_mem [OF io x] .
  show "\<exists>l s'. do_list_resources ac_dm_object = Some l \<and> l s (ai_iid x) = Some (0, ac_resources (ai_has_acl x), s') \<and>
      module_holds insts w s'"
    using look i h by (simp add: ac_dm_object_def s ac_list_resources_eq [OF ok] ac_resources_def module_holds_cached)
  show "\<exists>l s'. do_list_resource_instances ac_dm_object = Some l \<and>
      l s (ai_iid x) RID_AC_ACL = Some (0, map ae_ssid (ai_acl x), s') \<and> module_holds insts w s'"
    using look i h by (simp add: ac_dm_object_def s ac_list_resource_instances_eq [OF ok] module_holds_cached)
  show "\<exists>rd s'. do_resource_read ac_dm_object = Some rd \<and>
      rd s (ai_iid x) rid ANJAY_ID_INVALID = Some (0, Some (single_value x rid), s') \<and> module_holds insts w s'"
    if "rid \<in> {RID_AC_OID, RID_AC_OIID, RID_AC_OWNER}" for rid
    using that look i h
    by (auto simp: ac_dm_object_def s ac_resource_read_eq [OF ok] single_value_def module_holds_cached)
  show "\<exists>rd s'. do_resource_read ac_dm_object = Some rd \<and>
      rd s (ai_iid x) RID_AC_ACL ssid = Some (0, Some (int m), s') \<and> module_holds insts w s'"
    if "acl_mask (ai_acl x) ssid = Some m" for ssid m
    using that look i h
    by (simp add: ac_dm_object_def s ac_resource_read_eq [OF ok] module_holds_cached)
qed

text \<open>
  The decision with the object of the module, in any state that it can reach and whose targets are set,
  which the validation of each transaction ensures.
\<close>

lemma module_action_allowed:
  assumes reach: "ac_reachable objs ac" and set: "\<forall>i \<in> set (instances ac). 0 \<le> at_iid (ai_target i)"
    and ssid: "inf_ssid info \<noteq> 0"
    and info: "inf_oid info \<noteq> OID_SECURITY" "inf_iid info \<noteq> ANJAY_ID_INVALID \<or> inf_action info = ACTION_CREATE"
      "inf_action info \<noteq> ACTION_BOOTSTRAP_FINISH"
  shows "\<exists>ac'. instance_action_allowed (ac_registry others) servers info (ac, w) =
    Some (permitted (instances ac) servers info, (ac', w)) \<and> instances ac' = instances ac"
proof -
  have "module_holds (instances ac) w (ac, w)" using ac_reachable_ok [OF reach] by (simp add: module_holds_def)
  from ac_module.action_allowed_correct [OF this set ssid info, of others servers] obtain s' where
    "instance_action_allowed (ac_registry others) servers info (ac, w) = Some (permitted (instances ac) servers info, s')"
    "module_holds (instances ac) w s'" by blast
  then show ?thesis by (cases s') (auto simp: module_holds_def)
qed

end
