(* ===== verification/Ac_Props.thy ===== *)
theory Ac_Props
  imports Ac_Decision
begin

text \<open>
  The properties of the Access Control object, of the decision that rests on it, and of the queues of
  changes, with a small device to apply them to.
\<close>

section \<open>A device\<close>

text \<open>
  A Server object with one instance for the server 7, and an Object 3 with one instance; the state does
  not matter.
\<close>

definition server_object :: "'s dm_object" where
  "server_object =
     \<lparr>do_oid = OID_SERVER, do_list_instances = Some (\<lambda>s. Some (0, [1], s)),
      do_list_resources = Some (\<lambda>s iid. Some (0, [(RID_SERVER_SSID, RES_R, RES_PRESENT)], s)),
      do_list_resource_instances = None,
      do_resource_read = Some (\<lambda>s iid rid riid. Some (0, Some 7, s))\<rparr>"

definition device_object :: "'s dm_object" where
  "device_object =
     \<lparr>do_oid = 3, do_list_instances = Some (\<lambda>s. Some (0, [0], s)), do_list_resources = None,
      do_list_resource_instances = None, do_resource_read = None\<rparr>"

abbreviation (input) device :: "'s dm_object list" where
  "device \<equiv> [server_object, device_object]"

definition device_ids :: "nat \<Rightarrow> nat list" where
  "device_ids oid = (if oid = OID_SERVER then [1] else [0])"

lemma device_model: "data_model device (\<lambda>_. True) device_ids (\<lambda>_. 7)"
  by (simp add: data_model_def lists_instances_def server_object_def device_object_def device_ids_def ids_ok_def
      dm_read_resource_i64_def dm_verify_resource_present_def dm_resource_kind_and_presence_def
      dm_foreach_resource_def kind_and_presence_clb_def res_kind_valid_def presence_valid_def
      foreach_result_def res_kind_multiple_def dm_call_resource_read_def)

text \<open>The object with one instance for /3/0, which belongs to the server 7, inside a transaction.\<close>

definition device_instance :: ac_instance where
  "device_instance = \<lparr>ai_addr = 100, ai_iid = 0, ai_target = \<lparr>at_oid = 3, at_iid = 0\<rparr>, ai_owner = 7,
     ai_has_acl = True, ai_acl = [\<lparr>ae_mask = 15, ae_ssid = 7\<rparr>]\<rparr>"

definition device_ac :: access_control where
  "device_ac = \<lparr>ac_current = \<lparr>as_instances = [device_instance], as_modified_since_persist = True\<rparr>,
     ac_saved_state = cleared_state, ac_in_transaction = True, ac_last_accessed = None, ac_needs_validation = True\<rparr>"

lemma device_ac_ok: "ac_ok device_ac"
  by (simp add: ac_ok_def device_ac_def insts_ok_def inst_ok_def acl_ok_def device_instance_def)

lemma device_ac_valid: "insts_valid device device_ids (\<lambda>_. 7) (instances device_ac)"
  by (auto simp: insts_valid_def device_ac_def target_good_def device_instance_def target_of_def ref_good_def
      registered_def server_object_def device_object_def device_ids_def target_oid_valid_def ssids_named_def
      ssid_valid_def server_known_def)

section \<open>Properties\<close>

text \<open>C6: in every state that the Access Control object reaches from its installation, by any sequence of
  handler calls, application calls, transactions, storing, and restoring of data that was stored from such a
  state, its instances are sorted by ID without duplicates, each access list by server, all numbers are in
  range, and the cached pointer is usable: looking up an instance finds exactly the one with the given ID, or
  none. Restoring other data is excluded, since the code does not check it (\<open>restore_unsorted\<close> below).
\<close>

theorem ac_reachable_invariant:
  assumes "ac_reachable objs ac"
  shows "insts_ok (instances ac) \<and> insts_ok (as_instances (ac_saved_state ac)) \<and>
    find_instance ac iid = Some (map_option ai_addr (inst_lookup (instances ac) iid), cached ac iid)"
  using ac_reachable_ok [OF assms] find_instance_eq by (simp add: ac_ok_def)

theorem ac_reachable_invariant_witness:
  "find_instance (ac_installed\<lparr>ac_current := \<lparr>as_instances = [blank_instance 9 4], as_modified_since_persist = True\<rparr>,
     ac_needs_validation := True\<rparr>) 4 =
   Some (Some 9, ac_installed\<lparr>ac_current := \<lparr>as_instances = [blank_instance 9 4], as_modified_since_persist = True\<rparr>,
     ac_needs_validation := True, ac_last_accessed := Some 9\<rparr>)"
proof -
  let ?ac = "ac_installed\<lparr>ac_current := \<lparr>as_instances = [blank_instance 9 4], as_modified_since_persist = True\<rparr>,
     ac_needs_validation := True\<rparr>"
  have "ac_instance_create ac_installed 4 [Some 9] = Some (0, ?ac, [])"
    by (simp add: ac_instance_create_def alloc_next_def ac_installed_def ac_add_instance_def notify_created_opt_def
        set_instances_def mark_modified_def cleared_state_def blank_instance_def)
  then have "ac_change device ac_installed ?ac"
    by (rule ac_change.instance_create) (simp_all add: fresh_def live_def ac_installed_def)
  then have "ac_reachable device ?ac" using ac_reachable.installed ac_reachable.changed by blast
  from ac_reachable_invariant [OF this, of 4] show ?thesis
    by (simp add: cached_def blank_instance_def ac_installed_def)
qed

text \<open>C10: a rollback restores the state of the beginning of the transaction. Whatever was done to the object
  after \<open>ac_transaction_begin\<close>, after \<open>ac_transaction_rollback\<close> it holds the same instances, up to the
  addresses of the list elements, it counts as modified exactly when it did before, and no transaction is
  running.
\<close>

theorem ac_rollback_restores:
  assumes reach: "ac_reachable objs ac" and fr: "fresh al ac"
    and begun: "ac_transaction_begin ac al = Some (0, ac1, al1)"
    and changes: "(ac_change objs)\<^sup>*\<^sup>* ac1 ac2"
  shows "\<exists>ac3. ac_transaction_rollback ac2 = Some (0, ac3) \<and> same_state (ac_current ac3) (ac_current ac) \<and>
    \<not> ac_in_transaction ac3 \<and> ac_ok ac3"
proof -
  have ok: "ac_ok ac" using ac_reachable_ok [OF reach] .
  have idle: "\<not> ac_in_transaction ac" using begun by (auto simp: ac_transaction_begin_def)
  from ac_transaction_begin_correct [OF ok idle fr] begun obtain saved where
    ac1: "ac_ok ac1" "same_state saved (ac_current ac)" "ac1 = ac\<lparr>ac_saved_state := saved, ac_in_transaction := True\<rparr>"
    by auto
  have "change_ok ac1 ac2" using ac_changes_ok [OF changes ac1(1)] .
  with ac1 show ?thesis
    by (auto simp: change_ok_def ac_transaction_rollback_def ac_ok_def)
qed

theorem ac_rollback_restores_witness:
  "\<exists>ac3. ac_transaction_rollback
      (mark_modified ((ac_installed\<lparr>ac_in_transaction := True\<rparr>)\<lparr>ac_current := cleared_state, ac_last_accessed := None,
         ac_needs_validation := False\<rparr>)) = Some (0, ac3) \<and>
    same_state (ac_current ac3) (ac_current ac_installed) \<and> \<not> ac_in_transaction ac3 \<and> ac_ok ac3"
proof (rule ac_rollback_restores [of device])
  show "ac_reachable device ac_installed" by (rule ac_reachable.installed)
  show "fresh [] ac_installed" by (simp add: fresh_def)
  show "ac_transaction_begin ac_installed [] = Some (0, ac_installed\<lparr>ac_in_transaction := True\<rparr>, [])"
    by (simp add: ac_transaction_begin_def ac_installed_def clone_state_def cleared_state_def)
  have "anjay_access_control_purge 0 (ac_installed\<lparr>ac_in_transaction := True\<rparr>, \<lparr>sn_queue = [], sn_handle = False\<rparr>, []) =
      (mark_modified ((ac_installed\<lparr>ac_in_transaction := True\<rparr>)\<lparr>ac_current := cleared_state, ac_last_accessed := None,
         ac_needs_validation := False\<rparr>), \<lparr>sn_queue = [], sn_handle = False\<rparr>, [])"
    by (simp add: anjay_access_control_purge_def notify_instances_changed_def notify_queue_instance_set_unknown_change_def
        alloc_next_def mark_modified_def)
  then show "(ac_change device)\<^sup>*\<^sup>* (ac_installed\<lparr>ac_in_transaction := True\<rparr>)
      (mark_modified ((ac_installed\<lparr>ac_in_transaction := True\<rparr>)\<lparr>ac_current := cleared_state, ac_last_accessed := None,
         ac_needs_validation := False\<rparr>))"
    by (intro r_into_rtranclp ac_change.purge)
qed

text \<open>C9: the validation before a commit. When the object has been changed so that it needs validation and the
  first allocation succeeds, \<open>ac_transaction_validate\<close> returns 0 only if all targets are valid and exist
  in the data model, no two instances have the same target, and every server that is an owner or has an entry
  exists, is the default entry or, as an owner, the Bootstrap Server; and it refuses such a state only
  when it runs out of memory. When no validation is needed, or when the first allocation fails, it returns 0
  whatever the object holds. The instances stay as they are.
\<close>

theorem ac_validation_exact:
  assumes dm: "data_model objs P ids ssid_of" and P: "P s" and tr: "ac_in_transaction ac"
  shows "\<exists>r ac' al' s'. ac_transaction_validate objs ac al s = Some (r, ac', al', s') \<and> P s' \<and>
    instances ac' = instances ac \<and>
    (if ac_needs_validation ac \<and> fst (alloc_next al) \<noteq> None
     then (r = 0 \<longrightarrow> insts_valid objs ids ssid_of (instances ac)) \<and>
       (insts_valid objs ids ssid_of (instances ac) \<longrightarrow> r = 0 \<or> used_up al al')
     else r = 0)"
proof (cases "ac_needs_validation ac")
  case False
  with tr P show ?thesis by (simp add: ac_transaction_validate_def)
next
  case True
  from ac_transaction_validate_correct [OF dm P tr True, of al] obtain r ac' al' s' where
    run: "ac_transaction_validate objs ac al s = Some (r, ac', al', s')" "P s'"
    and c: "r = 0 \<and> insts_valid objs ids ssid_of (instances ac) \<and> ac' = ac\<lparr>ac_needs_validation := False\<rparr> \<or>
     r = ANJAY_ERR_BAD_REQUEST \<and> (\<not> insts_valid objs ids ssid_of (instances ac) \<or> used_up al al') \<and> ac' = ac \<or>
     r = 0 \<and> fst (alloc_next al) = None \<and> ac' = ac" by blast
  have "r = 0" if "fst (alloc_next al) = None"
    using run(1) that tr True by (cases "alloc_next al") (simp add: ac_transaction_validate_def)
  with run c True show ?thesis by (intro exI [of _ r] exI [of _ ac'] exI [of _ al'] exI [of _ s']) auto
qed

theorem ac_validation_exact_witness:
  "\<exists>r ac' al' s'. ac_transaction_validate device device_ac [Some 1, Some 2, Some 3, Some 4, Some 5, Some 6] () =
      Some (r, ac', al', s') \<and> r = 0 \<and> al' \<noteq> []"
proof -
  have run: "\<exists>r ac' s'. ac_transaction_validate device device_ac [Some 1, Some 2, Some 3, Some 4, Some 5, Some 6] () =
      Some (r, ac', [Some 6], s')"
    by (simp add: ac_transaction_validate_def device_ac_def alloc_next_def device_instance_def target_oid_valid_def
        target_iid_valid_def acl_ref_validate_inst_ref_def server_object_def device_object_def
        new_validation_object_info_def create_allowed_iids_set_def dm_get_sorted_instance_list_def
        dm_foreach_instance_def query_dm_instance_def foreach_result_def add_ssid_def validate_ssid_def
        dm_ssid_exists_def find_server_iid_def find_server_iid_handler_def dm_read_resource_i64_def
        dm_verify_resource_present_def dm_resource_kind_and_presence_def dm_foreach_resource_def
        kind_and_presence_clb_def res_kind_valid_def presence_valid_def res_kind_multiple_def
        dm_call_resource_read_def)
  have flags: "ac_in_transaction device_ac" "ac_needs_validation device_ac" by (simp_all add: device_ac_def)
  have "None \<notin> set [Some 1, Some 2, Some 3, Some 4, Some 5, Some (6 :: nat)]" by simp
  from not_used_up [OF this] have mem: "\<not> used_up [Some 1, Some 2, Some 3, Some 4, Some 5, Some (6 :: nat)] [Some 6]" by simp
  from ac_validation_exact [OF device_model TrueI flags(1), of "[Some 1, Some 2, Some 3, Some 4, Some 5, Some 6]" "()"] run
  have "\<exists>r ac' s'. ac_transaction_validate device device_ac [Some 1, Some 2, Some 3, Some 4, Some 5, Some 6] () =
      Some (r, ac', [Some 6], s') \<and> r = 0"
    using device_ac_valid flags(2) mem by (auto simp: alloc_next_def)
  then show ?thesis by blast
qed

section \<open>Decisions\<close>

text \<open>
  The application gives the server 7 the right to read /3/0, and nobody else any right: the new instance
  belongs to the Bootstrap Server.
\<close>

definition granted_instance :: ac_instance where
  "granted_instance = \<lparr>ai_addr = 100, ai_iid = 0, ai_target = \<lparr>at_oid = 3, at_iid = 0\<rparr>, ai_owner = ANJAY_SSID_BOOTSTRAP,
     ai_has_acl = True, ai_acl = [\<lparr>ae_mask = ACCESS_MASK_READ, ae_ssid = 7\<rparr>]\<rparr>"

definition ac_granted :: access_control where
  "ac_granted = ac_installed\<lparr>ac_current := \<lparr>as_instances = [granted_instance], as_modified_since_persist = True\<rparr>\<rparr>"

abbreviation (input) grant_memory :: allocs where
  "grant_memory \<equiv> [Some 100, Some 101, Some 102, Some 103, Some 104, Some 105, Some 106]"

lemma device_grants:
  "\<exists>sn al. anjay_access_control_set_acl device 3 0 7 ACCESS_MASK_READ 0 0
     (ac_installed, \<lparr>sn_queue = [], sn_handle = False\<rparr>, grant_memory, ()) =
   Some (0, ac_granted, sn, al, ())"
  by (simp add: anjay_access_control_set_acl_def set_acl_def find_ac_instance_def ac_installed_def cleared_state_def
      target_instance_reachable_def target_oid_valid_def target_iid_valid_def server_object_def device_object_def
      dm_instance_present_def query_dm_instance_def dm_foreach_instance_def foreach_result_def instance_present_clb_def
      create_missing_ac_instance_def alloc_next_def set_acl_in_instance_def validate_ssid_def
      dm_ssid_exists_def find_server_iid_def find_server_iid_handler_def dm_read_resource_i64_def
      dm_verify_resource_present_def dm_resource_kind_and_presence_def dm_foreach_resource_def
      kind_and_presence_clb_def res_kind_valid_def presence_valid_def res_kind_multiple_def
      dm_call_resource_read_def notify_instances_changed_def notify_queue_instance_set_unknown_change_def
      new_object_entry_def reschedule_notify_def ac_add_instance_def notify_created_opt_def
      notify_queue_instance_created_def set_instances_def mark_modified_def notify_instance_created_def
      ac_granted_def granted_instance_def access_masks
      add_without_iids_loop.simps)

lemma ac_granted_reachable: "ac_reachable (device :: unit dm_object list) ac_granted"
proof -
  obtain sn al where run: "anjay_access_control_set_acl device 3 0 7 ACCESS_MASK_READ 0 0
     (ac_installed, \<lparr>sn_queue = [], sn_handle = False\<rparr>, grant_memory, ()) = Some (0, ac_granted, sn, al, ())"
    using device_grants by blast
  have "ac_change (device :: unit dm_object list) ac_installed ac_granted"
    using ac_change.application [OF run _ _ device_model TrueI]
    by (simp add: access_masks fresh_def live_def ac_installed_def cleared_state_def queue_ok_def)
  with ac_reachable.installed show ?thesis by (rule ac_reachable.changed)
qed

text \<open>C7: the decision on a request is the one of the LwM2M access control rules. With the object of the module
  in the registry, in any state that it can reach and whose targets are set, \<open>instance_action_allowed\<close>
  says yes exactly when \<open>permitted\<close> does: the Bootstrap Server and Discover are always allowed, so is
  everything while there is one server only; an Access Control instance can be read by all and changed by
  its owner; anything else needs the right from the entry of the server, from the default entry, or, with
  an empty access list, from being the owner.
\<close>

theorem ac_decision_correct:
  assumes reach: "ac_reachable objs ac" and set: "\<forall>i \<in> set (instances ac). 0 \<le> at_iid (ai_target i)"
    and ssid: "inf_ssid info \<noteq> 0"
    and info: "inf_oid info \<noteq> OID_SECURITY" "inf_iid info \<noteq> ANJAY_ID_INVALID \<or> inf_action info = ACTION_CREATE"
      "inf_action info \<noteq> ACTION_BOOTSTRAP_FINISH"
  shows "\<exists>ac'. instance_action_allowed (ac_registry others) servers info (ac, w) =
    Some (permitted (instances ac) servers info, (ac', w)) \<and> instances ac' = instances ac"
  using module_action_allowed [OF assms] .

abbreviation (input) request :: "nat \<Rightarrow> request_action \<Rightarrow> action_info" where
  "request ssid action \<equiv> \<lparr>inf_oid = 3, inf_iid = 0, inf_ssid = ssid, inf_action = action\<rparr>"

theorem ac_decision_correct_witness:
  "(\<exists>ac. instance_action_allowed (ac_registry []) [7, 8] (request 7 ACTION_READ) (ac_granted, ()) = Some (True, (ac, ()))) \<and>
   (\<exists>ac. instance_action_allowed (ac_registry []) [7, 8] (request 7 ACTION_WRITE) (ac_granted, ()) = Some (False, (ac, ()))) \<and>
   (\<exists>ac. instance_action_allowed (ac_registry []) [7, 8] (request 8 ACTION_READ) (ac_granted, ()) = Some (False, (ac, ())))"
proof -
  have set: "\<forall>i \<in> set (instances ac_granted). 0 \<le> at_iid (ai_target i)"
    by (simp add: ac_granted_def granted_instance_def)
  note app = ac_decision_correct [OF ac_granted_reachable set, where others = "[]" and servers = "[7, 8]" and w = "()"]
  have run: "\<exists>ac. instance_action_allowed (ac_registry []) [7, 8] (request ssid action) (ac_granted, ()) =
      Some (rights (instances ac_granted) 3 0 ssid AND right_needed action \<noteq> 0, (ac, ()))"
    if "ssid \<in> {7, 8}" "action \<in> {ACTION_READ, ACTION_WRITE}" for ssid action
    using that app [of "request ssid action"] by (auto simp: permitted_def)
  have "rights (instances ac_granted) 3 0 7 = ACCESS_MASK_READ" "rights (instances ac_granted) 3 0 8 = ACCESS_MASK_NONE"
    by (simp_all add: rights_def ac_granted_def granted_instance_def)
  with run [of 7 ACTION_READ] run [of 7 ACTION_WRITE] run [of 8 ACTION_READ] show ?thesis
    by (simp add: right_needed_def access_masks)
qed

text \<open>C8: an access list set by the application. \<open>anjay_access_control_set_acl\<close> returns 0 only if the
  arguments are in order and the target and the server exist, and then the entry of that server, in the
  instance for that target, holds the new rights and nothing else changes; a missing instance is added with
  the smallest free ID and belongs to the Bootstrap Server. When it fails the object is as before, and it
  fails without such a reason only if memory runs out or the notification cannot be scheduled.
\<close>

theorem ac_set_acl_correct:
  assumes reach: "ac_reachable reg ac" and dm: "data_model objs P ids ssid_of" and P: "P s"
    and sn: "queue_ok (sn_queue sn)" and fr: "fresh al ac"
    and lt: "oid < 65536" "iid < 65536" "ssid < 65536" "msk < 65536"
  shows "\<exists>r ac' sn' al' s'.
    anjay_access_control_set_acl objs oid iid ssid msk sched1 sched2 (ac, sn, al, s) = Some (r, ac', sn', al', s') \<and>
    ac_ok ac' \<and> queue_ok (sn_queue sn') \<and>
    (if r = 0 then acl_arguments_ok iid ssid msk \<and> set_acl_ok objs ids ssid_of ac oid iid ssid \<and>
       acl_entry_set ac oid iid ssid msk ac'
     else ac' = ac \<and> (acl_arguments_ok iid ssid msk \<and> set_acl_ok objs ids ssid_of ac oid iid ssid \<longrightarrow>
       used_up al al' \<or> sched1 \<noteq> 0))"
proof -
  from set_acl_total [OF dm P ac_reachable_ok [OF reach] sn fr lt, of sched1 sched2] obtain r ac' sn' al' s' where
    "anjay_access_control_set_acl objs oid iid ssid msk sched1 sched2 (ac, sn, al, s) = Some (r, ac', sn', al', s')"
    "queue_ok (sn_queue sn')" "ac_ok ac'"
    "r = 0 \<and> acl_arguments_ok iid ssid msk \<and> set_acl_ok objs ids ssid_of ac oid iid ssid \<and>
       acl_entry_set ac oid iid ssid msk ac' \<or>
     r \<noteq> 0 \<and> ac' = ac \<and>
       (\<not> acl_arguments_ok iid ssid msk \<or> \<not> set_acl_ok objs ids ssid_of ac oid iid ssid \<or> used_up al al' \<or> sched1 \<noteq> 0)"
    by blast
  then show ?thesis by (intro exI [of _ r] exI [of _ ac'] exI [of _ sn'] exI [of _ al'] exI [of _ s']) auto
qed

theorem ac_set_acl_correct_witness:
  "(\<exists>sn al. anjay_access_control_set_acl device 3 0 7 ACCESS_MASK_READ 0 0
     (ac_installed, \<lparr>sn_queue = [], sn_handle = False\<rparr>, grant_memory, ()) = Some (0, ac_granted, sn, al, ())) \<and>
   acl_entry_set ac_installed 3 0 7 ACCESS_MASK_READ ac_granted"
proof -
  obtain sn1 al1 where run: "anjay_access_control_set_acl device 3 0 7 ACCESS_MASK_READ 0 0
     (ac_installed, \<lparr>sn_queue = [], sn_handle = False\<rparr>, grant_memory, ()) = Some (0, ac_granted, sn1, al1, ())"
    using device_grants by blast
  have sn: "queue_ok (sn_queue \<lparr>sn_queue = [], sn_handle = False\<rparr>)" by (simp add: queue_ok_def)
  have fr: "fresh grant_memory ac_installed" by (simp add: fresh_def live_def ac_installed_def cleared_state_def)
  have lt: "3 < (65536 :: nat)" "0 < (65536 :: nat)" "7 < (65536 :: nat)" "ACCESS_MASK_READ < 65536"
    by (simp_all add: access_masks)
  obtain r ac' sn' al' s' where
    app: "anjay_access_control_set_acl device 3 0 7 ACCESS_MASK_READ 0 0
     (ac_installed, \<lparr>sn_queue = [], sn_handle = False\<rparr>, grant_memory, ()) = Some (r, ac', sn', al', s')"
    and set: "if r = 0 then acl_arguments_ok 0 7 ACCESS_MASK_READ \<and> set_acl_ok (device :: unit dm_object list) device_ids (\<lambda>_. 7) ac_installed 3 0 7 \<and>
       acl_entry_set ac_installed 3 0 7 ACCESS_MASK_READ ac'
     else ac' = ac_installed \<and> (acl_arguments_ok 0 7 ACCESS_MASK_READ \<and>
       set_acl_ok (device :: unit dm_object list) device_ids (\<lambda>_. 7) ac_installed 3 0 7 \<longrightarrow> used_up grant_memory al' \<or> (0 :: int) \<noteq> 0)"
    using ac_set_acl_correct [OF ac_reachable.installed [of "device :: unit dm_object list"] device_model TrueI sn fr lt,
        where s = "()", of 0 0] by blast
  from run app have "r = 0" "ac' = ac_granted" by simp_all
  with set have "acl_entry_set ac_installed 3 0 7 ACCESS_MASK_READ ac_granted" by simp
  with run show ?thesis by blast
qed

text \<open>C11: what is stored is restored. Storing the object from a reachable state in which all targets are set
  succeeds and clears its modified flag; restoring that data, outside a transaction and with enough memory, succeeds and
  gives the object the same instances in the same order, up to the addresses of the list elements and without those whose
  Object is not registered, and it counts as unmodified. During a transaction it is the state before the
  transaction that is stored.
\<close>

theorem ac_persist_restore:
  assumes "ac_reachable objs0 ac0" and "\<forall>i \<in> set (stored_instances ac0). target_set i"
    and "membuf_ok m0" and "membuf_content m0 = []"
    and "\<not> ac_in_transaction ac" and "distinct (addresses al)" and "enough (restore_need objs (stored_instances ac0)) al"
  shows "\<exists>m1 m2 ac' al'. anjay_access_control_persist (membuf_vtable (\<lambda>_. Some fill)) ac0 m0 = Some (m1, AVS_OK, clear_modified ac0)
    \<and> anjay_access_control_restore objs (membuf_vtable realloc) ac m1 al = Some (m2, AVS_OK, ac', al')
    \<and> map strip_addr (instances ac') = map strip_addr (restored_from objs (stored_instances ac0))
    \<and> \<not> as_modified_since_persist (ac_current ac') \<and> membuf_content m2 = []"
proof -
  have ok: "ac_ok ac0" using ac_reachable_ok [OF assms(1)] .
  then have insts: "insts_ok (stored_instances ac0)" using ac_okD(1,2) by (simp add: stored_instances_def)
  have short: "\<forall>i \<in> set (stored_instances ac0). length (ai_acl i) < 2 ^ 32 \<and> at_iid (ai_target i) < 65536" "length (stored_instances ac0) < 2 ^ 32"
    using insts_ok_short [OF insts] by fastforce+
  from mbs.persist_correct [OF short assms(3) TrueI, of fill] assms(2) obtain m1 where
    m1: "anjay_access_control_persist (membuf_vtable (\<lambda>_. Some fill)) ac0 m0 = Some (m1, AVS_OK, clear_modified ac0)"
      "mbs.wrote m0 m1 (enc_ac (stored_instances ac0))" by auto
  have st: "storable (stored_instances ac0)" "length (stored_instances ac0) \<le> 65535" "membuf_ok m1"
      "membuf_content m1 = enc_ac (stored_instances ac0) @ []"
    using stored_from_ok [OF ok m1(1) assms(3,4)] mbs.wrote_ok [OF m1(2)] by simp_all
  from mbr.restore_correct(1) [OF assms(5) st assms(6,7), of realloc] m1(1) show ?thesis by fastforce
qed

theorem ac_persist_restore_witness:
  "\<exists>m1 m2 ac' al'. anjay_access_control_persist (membuf_vtable (\<lambda>_. Some (\<lambda>_. 0))) ac_granted membuf_create
      = Some (m1, AVS_OK, clear_modified ac_granted)
    \<and> anjay_access_control_restore (device :: unit dm_object list) (membuf_vtable (\<lambda>_. None)) ac_installed m1 [Some 200, Some 201]
      = Some (m2, AVS_OK, ac', al')
    \<and> map strip_addr (instances ac') = [granted_instance\<lparr>ai_addr := 0\<rparr>]"
proof -
  have st: "stored_instances ac_granted = [granted_instance]"
    by (simp add: stored_instances_def ac_granted_def ac_installed_def)
  have reg: "is_object_registered (device :: unit dm_object list) (at_oid (ai_target granted_instance))"
    by (simp add: is_object_registered_def granted_instance_def server_object_def device_object_def)
  have m: "membuf_ok membuf_create" "membuf_content membuf_create = []"
    by (simp_all add: membuf_ok_def membuf_content_def membuf_create_def)
  have set: "\<forall>i \<in> set (stored_instances ac_granted). target_set i" by (simp add: st target_set_def granted_instance_def)
  have need: "restore_need (device :: unit dm_object list) [granted_instance] = 2"
    using reg by (simp add: restore_need_def acl_size_def) (simp add: granted_instance_def)
  have idle: "\<not> ac_in_transaction ac_installed" by (simp add: ac_installed_def)
  have mem: "distinct (addresses [Some 200, Some 201])"
    "enough (restore_need (device :: unit dm_object list) (stored_instances ac_granted)) [Some 200, Some 201]"
    by (simp_all add: st need enough_def)
  have "map strip_addr (restored_from (device :: unit dm_object list) (stored_instances ac_granted)) = [granted_instance\<lparr>ai_addr := 0\<rparr>]"
    using reg by (simp add: st restored_from_simps strip_addr_def)
  with ac_persist_restore [OF ac_granted_reachable set m idle mem, of "\<lambda>_. 0" "\<lambda>_. None"] show ?thesis by metis
qed

section \<open>Gaps in the validation\<close>

text \<open>
  Without memory nothing is validated. When the allocation of the tree of servers fails,
  \<open>ac_transaction_validate\<close> logs the failure and returns 0, so the transaction is committed whatever the
  object holds.
\<close>

lemma ac_validate_without_memory:
  assumes "ac_in_transaction ac" and "ac_needs_validation ac" and "fst (alloc_next al) = None"
  shows "\<exists>al' ac'. ac_transaction_validate objs ac al s = Some (0, ac, al', s) \<and>
    ac_transaction_commit ac = Some (0, ac') \<and> instances ac' = instances ac"
  using assms by (cases "alloc_next al") (simp add: ac_transaction_validate_def ac_transaction_commit_def)

text \<open>
  Data with instances out of order is restored as it is, and then the object does not find its instance 4.
\<close>

definition unsorted_instances :: "ac_instance list" where
  "unsorted_instances = [granted_instance\<lparr>ai_iid := 5\<rparr>, granted_instance\<lparr>ai_iid := 4\<rparr>]"

lemma restore_unsorted:
  assumes "membuf_ok m" and "membuf_content m = enc_ac unsorted_instances"
  shows "\<exists>m' ac' al'. anjay_access_control_restore (device :: unit dm_object list) (membuf_vtable realloc) ac_installed m
      [Some 1, Some 2, Some 3, Some 4] = Some (m', AVS_OK, ac', al')
    \<and> map ai_iid (instances ac') = [5, 4] \<and> find_instance ac' 4 = Some (None, ac')"
proof -
  have i: "inst_ok granted_instance" "target_set granted_instance" "ai_acl granted_instance = [\<lparr>ae_mask = ACCESS_MASK_READ, ae_ssid = 7\<rparr>]"
    "ai_has_acl granted_instance"
    by (simp_all add: granted_instance_def inst_ok_def acl_ok_def target_set_def access_masks)
  have reg: "is_object_registered (device :: unit dm_object list) (at_oid (ai_target granted_instance))"
    by (simp add: is_object_registered_def granted_instance_def server_object_def device_object_def)
  have st: "storable unsorted_instances" "length unsorted_instances \<le> 65535"
    using i by (auto simp: storable_def unsorted_instances_def inst_ok_def target_set_def)
  have from_all: "restored_from (device :: unit dm_object list) unsorted_instances = unsorted_instances"
    using reg by (simp add: restored_from_def unsorted_instances_def)
  have need: "restore_need (device :: unit dm_object list) unsorted_instances = 4"
    using reg i by (simp add: restore_need_def unsorted_instances_def acl_size_def)
  have mem: "distinct (addresses [Some 1, Some 2, Some 3, Some 4])"
    "enough (restore_need (device :: unit dm_object list) unsorted_instances) [Some 1, Some 2, Some 3, Some 4]"
    by (simp_all add: need enough_def)
  have idle: "\<not> ac_in_transaction ac_installed" by (simp add: ac_installed_def)
  have content: "membuf_content m = enc_ac unsorted_instances @ []" using assms(2) by simp
  from mbr.restore_correct(1) [OF idle st assms(1) content mem, of realloc] obtain m' js where
    run: "anjay_access_control_restore (device :: unit dm_object list) (membuf_vtable realloc) ac_installed m
        [Some 1, Some 2, Some 3, Some 4] = Some (m', AVS_OK, ac_installed\<lparr>ac_current := \<lparr>as_instances = js,
          as_modified_since_persist = False\<rparr>, ac_last_accessed := None\<rparr>,
          drop (restore_need (device :: unit dm_object list) unsorted_instances) [Some 1, Some 2, Some 3, Some 4])"
      "map strip_addr js = map strip_addr unsorted_instances" unfolding from_all by blast
  have "map (ai_iid \<circ> strip_addr) js = map (ai_iid \<circ> strip_addr) unsorted_instances" using run(2) by (metis map_map)
  then have ids: "map ai_iid js = [5, 4]" by (simp add: o_def strip_addr_def unsorted_instances_def)
  then obtain a b where "js = [a, b]" "ai_iid a = 5" "ai_iid b = 4" by auto
  with run(1) ids show ?thesis by (simp add: find_instance_def)
qed

lemma insts_valid_reset:
  assumes "insts_valid objs ids ssid_of is"
  shows "insts_valid objs ids ssid_of (inst_set is iid (\<lambda>i. i\<lparr>ai_acl := [], ai_has_acl := False, ai_owner := 0\<rparr>))"
proof -
  let ?f = "\<lambda>i. if ai_iid i = iid then i\<lparr>ai_acl := [], ai_has_acl := False, ai_owner := 0\<rparr> else i"
  have t: "target_of (?f i) = target_of i" "target_good objs ids (?f i) = target_good objs ids i" for i
    by (simp_all add: target_of_def target_good_def)
  have s: "x \<in> ssids_named (?f i) \<Longrightarrow> x = 0 \<or> x \<in> ssids_named i" for x i
    by (auto simp: ssids_named_def split: if_splits)
  have z: "ssid_valid objs ids ssid_of 0" by (simp add: ssid_valid_def)
  have "map target_of (map ?f is) = map target_of is" by (simp only: list.map_comp o_def t)
  moreover have "\<forall>j \<in> ?f ` set is. target_good objs ids j"
    using assms t(2) unfolding insts_valid_def by blast
  moreover have "\<forall>j \<in> ?f ` set is. \<forall>x \<in> ssids_named j. ssid_valid objs ids ssid_of x"
    using assms s z unfolding insts_valid_def by blast
  ultimately show ?thesis using assms unfolding insts_valid_def inst_set_def by (simp only: set_map)
qed

text \<open>C13: an owner that cannot be written is accepted. After \<open>ac_instance_reset\<close> the owner of an instance is
  0, a value that \<open>ac_resource_write\<close> refuses for the Owner Resource; the validation takes it for the ID
  of the default entry of an access list and lets it pass.
\<close>

theorem ac_owner_zero_accepted:
  assumes dm: "data_model objs P ids ssid_of" and P: "P s" and ok: "ac_ok ac"
    and trans: "ac_in_transaction ac" and valid: "insts_valid objs ids ssid_of (instances ac)"
    and iid: "iid \<in> ai_iid ` set (instances ac)" and mem: "None \<notin> set al"
  shows "\<exists>ac1 i ac3 r ac2 al' s'. ac_instance_reset ac iid = Some (0, ac1) \<and>
    inst_lookup (instances ac1) iid = Some i \<and> ai_owner i = 0 \<and>
    ac_resource_write ac1 iid RID_AC_OWNER ANJAY_ID_INVALID (Some (Inr 0)) [] = Some (ANJAY_ERR_BAD_REQUEST, ac3, []) \<and>
    ac_transaction_validate objs ac1 al s = Some (r, ac2, al', s') \<and> (al' \<noteq> [] \<longrightarrow> r = 0)"
proof -
  note insts = ac_okD(1) [OF ok]
  let ?f = "\<lambda>i :: ac_instance. i\<lparr>ai_acl := [], ai_has_acl := False, ai_owner := 0\<rparr>"
  let ?ac1 = "touched ac iid ?f"
  obtain i where i: "inst_lookup (instances ac) iid = Some i" using iid inst_lookup_mem [OF insts] by blast
  have reset: "ac_instance_reset ac iid = Some (0, ?ac1)" using i by (simp add: ac_instance_reset_eq [OF ok])
  have ok1: "ac_ok ?ac1" by (rule ac_ok_touched [OF ok i]) (simp_all add: inst_ok_def acl_ok_def)
  have look: "inst_lookup (instances ?ac1) iid = Some (?f i)" using i by (simp add: inst_lookup_set)
  have refused: "ac_resource_write ?ac1 iid RID_AC_OWNER ANJAY_ID_INVALID (Some (Inr 0)) [] =
      Some (ANJAY_ERR_BAD_REQUEST, cached ?ac1 iid, [])"
    using look by (simp add: ac_resource_write_single [OF ok1] get_i32_def get_i64_def write_value_ok_def)
  have good: "insts_valid objs ids ssid_of (instances ?ac1)" using insts_valid_reset [OF valid] by simp
  have flags: "ac_in_transaction ?ac1" "ac_needs_validation ?ac1" using trans by simp_all
  obtain r ac2 al' s' where run: "ac_transaction_validate objs ?ac1 al s = Some (r, ac2, al', s')"
    and r: "r = 0 \<or> \<not> insts_valid objs ids ssid_of (instances ?ac1) \<or> used_up al al'"
    using ac_transaction_validate_correct [OF dm P flags, of al] by blast
  have "al' \<noteq> [] \<longrightarrow> r = 0" using r good not_used_up [OF mem] by blast
  moreover have "ai_owner (?f i) = 0" by simp
  ultimately show ?thesis using reset look refused run by blast
qed

theorem ac_owner_zero_accepted_witness:
  "\<exists>ac1 i ac2 s'. ac_instance_reset device_ac 0 = Some (0, ac1) \<and> inst_lookup (instances ac1) 0 = Some i \<and>
    ai_owner i = 0 \<and>
    ac_transaction_validate device ac1 [Some 1, Some 2, Some 3, Some 4, Some 5, Some 6] () = Some (0, ac2, [Some 6], s')"
proof -
  let ?al = "[Some 1, Some 2, Some 3, Some 4, Some 5, Some 6 :: nat option]"
  have "ac_in_transaction device_ac" "0 \<in> ai_iid ` set (instances device_ac)" "None \<notin> set ?al"
    by (simp_all add: device_ac_def device_instance_def)
  from ac_owner_zero_accepted [OF device_model TrueI device_ac_ok this(1) device_ac_valid this(2,3), where s = "()"]
  obtain ac1 i r ac2 al' s' where reset: "ac_instance_reset device_ac 0 = Some (0, ac1)"
    and i: "inst_lookup (instances ac1) 0 = Some i" "ai_owner i = 0"
    and run: "ac_transaction_validate device ac1 ?al () = Some (r, ac2, al', s')" "al' \<noteq> [] \<longrightarrow> r = 0"
    by blast
  have look: "inst_lookup (instances device_ac) 0 = Some device_instance" by (simp add: device_ac_def device_instance_def)
  have ac1: "ac1 = touched device_ac 0 (\<lambda>i. i\<lparr>ai_acl := [], ai_has_acl := False, ai_owner := 0\<rparr>)"
    using reset look by (simp add: ac_instance_reset_eq [OF device_ac_ok])
  have "\<exists>r ac2 s'. ac_transaction_validate device ac1 ?al () = Some (r, ac2, [Some 6], s')"
    unfolding ac1
    by (simp add: ac_transaction_validate_def touched_def device_ac_def alloc_next_def device_instance_def target_oid_valid_def
        inst_set_def set_instances_def mark_modified_def cached_def
        target_iid_valid_def acl_ref_validate_inst_ref_def server_object_def device_object_def
        new_validation_object_info_def create_allowed_iids_set_def dm_get_sorted_instance_list_def
        dm_foreach_instance_def query_dm_instance_def foreach_result_def add_ssid_def validate_ssid_def)
  with run have "al' = [Some 6]" "r = 0" by auto
  with reset i run show ?thesis by blast
qed

section \<open>Queues of changes\<close>

definition queue_effect ::
    "notify_queue \<Rightarrow> allocs \<Rightarrow> int \<times> notify_queue \<times> allocs \<Rightarrow> nat set \<Rightarrow> (nat \<times> nat) set \<Rightarrow> (nat \<times> nat \<times> nat) set \<Rightarrow> bool" where
  "queue_effect q al res sets added changed \<longleftrightarrow>
     (case res of (r, q', al') \<Rightarrow>
        r = 0 \<and> queue_ok q' \<and> changed_sets q' = sets \<and> added_instances q' = added \<and> changed_resources q' = changed \<or>
        r = - 1 \<and> q' = q \<and> used_up al al')"

text \<open>C12: a queue of changes is a set of changed instance sets, a set of added instances and a set of changed
  Resources. Each operation adds or removes just the change it is called for and keeps the queue sorted
  without duplicates and without empty entries; it fails only when memory runs out, and then the queue is
  as it was.
\<close>

theorem notify_queue_exact:
  assumes "queue_ok q"
  shows "(\<exists>res. notify_queue_instance_created q oid iid al = Some res \<and>
      queue_effect q al res (insert oid (changed_sets q)) (insert (oid, iid) (added_instances q)) (changed_resources q)) \<and>
    queue_effect q al (notify_queue_instance_removed q oid iid al)
      (insert oid (changed_sets q)) (added_instances q - {(oid, iid)}) (changed_resources q) \<and>
    queue_effect q al (notify_queue_instance_set_unknown_change q oid al)
      (insert oid (changed_sets q)) (added_instances q) (changed_resources q) \<and>
    queue_effect q al (notify_queue_resource_change q oid iid rid al)
      (changed_sets q) (added_instances q) (insert (oid, iid, rid) (changed_resources q))"
proof (intro conjI)
  obtain r q' al' where cr: "notify_queue_instance_created q oid iid al = Some (r, q', al')"
    "r = 0 \<and> queue_ok q' \<and> changed_sets q' = insert oid (changed_sets q) \<and>
       added_instances q' = insert (oid, iid) (added_instances q) \<and> changed_resources q' = changed_resources q \<or>
     r = - 1 \<and> q' = q"
    using notify_queue_instance_created_correct [OF assms] by blast
  then show "\<exists>res. notify_queue_instance_created q oid iid al = Some res \<and>
      queue_effect q al res (insert oid (changed_sets q)) (insert (oid, iid) (added_instances q)) (changed_resources q)"
    using notify_queue_instance_created_allocs [OF cr(1)] by (auto simp: queue_effect_def)
next
  obtain r q' al' where run: "notify_queue_instance_removed q oid iid al = (r, q', al')"
    by (cases "notify_queue_instance_removed q oid iid al") auto
  from notify_queue_instance_removed_correct [OF assms run] notify_queue_instance_removed_allocs [OF run] run
  show "queue_effect q al (notify_queue_instance_removed q oid iid al)
      (insert oid (changed_sets q)) (added_instances q - {(oid, iid)}) (changed_resources q)"
    by (auto simp: queue_effect_def)
next
  obtain r q' al' where run: "notify_queue_instance_set_unknown_change q oid al = (r, q', al')"
    by (cases "notify_queue_instance_set_unknown_change q oid al") auto
  from notify_queue_instance_set_unknown_change_correct [OF assms run] notify_queue_unknown_change_allocs [OF run] run
  show "queue_effect q al (notify_queue_instance_set_unknown_change q oid al)
      (insert oid (changed_sets q)) (added_instances q) (changed_resources q)"
    by (auto simp: queue_effect_def)
next
  obtain r q' al' where run: "notify_queue_resource_change q oid iid rid al = (r, q', al')"
    by (cases "notify_queue_resource_change q oid iid rid al") auto
  from notify_queue_resource_change_correct [OF assms run] notify_queue_resource_change_allocs [OF run] run
  show "queue_effect q al (notify_queue_resource_change q oid iid rid al)
      (changed_sets q) (added_instances q) (insert (oid, iid, rid) (changed_resources q))"
    by (auto simp: queue_effect_def)
qed

theorem notify_queue_exact_witness:
  "\<exists>q' al'. notify_queue_resource_change
      [\<lparr>oe_oid = 3, oe_instance_set_changed = False, oe_known_added_iids = [], oe_resources_changed = [(0, 5), (1, 2)]\<rparr>]
      3 1 1 [Some 10] = (0, q', al') \<and>
    changed_resources q' = {(3, 1, 1), (3, 0, 5), (3, 1, 2)} \<and> queue_ok q'"
proof -
  let ?q = "[\<lparr>oe_oid = 3, oe_instance_set_changed = False, oe_known_added_iids = [], oe_resources_changed = [(0, 5), (1, 2)]\<rparr>]"
  have ok: "queue_ok ?q" by (simp add: queue_ok_def entry_ok_def compare_resource_entries_def)
  have run: "\<exists>q' al'. notify_queue_resource_change ?q 3 1 1 [Some 10] = (0, q', al')"
    by (simp add: notify_queue_resource_change_def compare_resource_entries_def alloc_next_def)
  have ch: "changed_resources ?q = {(3, 0, 5), (3, 1, 2)}" by (auto simp: changed_resources_def)
  from notify_queue_exact [OF ok, of 3 1 "[Some 10]" 1] have
    "queue_effect ?q [Some 10] (notify_queue_resource_change ?q 3 1 1 [Some 10]) (changed_sets ?q) (added_instances ?q)
       (insert (3, 1, 1) (changed_resources ?q))" by blast
  with run ch show ?thesis by (auto simp: queue_effect_def)
qed

end
