(* ===== verification/Coap_Option.thy ===== *)
theory Coap_Option
  imports Anjay_Prelude
begin

text \<open>
  A single serialized CoAP option: \<open>avs_coap_option.h\<close> and \<open>avs_coap_option.c\<close> of
  \<open>deps/avs_coap/src/options\<close>. A pointer to an option is an offset into the memory region
  that holds the options. The lemmas relate the byte-level readers, the validity check and the
  serializer to one encoding function \<open>enc_opt\<close>.
\<close>

section \<open>Constants and header fields\<close>

definition AVS_COAP_PAYLOAD_MARKER :: byte where "AVS_COAP_PAYLOAD_MARKER = 0xFF"

definition AVS_COAP_OPT_BERT_SZX :: nat where "AVS_COAP_OPT_BERT_SZX = 7"
definition AVS_COAP_OPT_BLOCK_MAX_SZX :: nat where "AVS_COAP_OPT_BLOCK_MAX_SZX = 6"

abbreviation EXT_U8 :: nat where "EXT_U8 \<equiv> 13"
abbreviation EXT_U16 :: nat where "EXT_U16 \<equiv> 14"
abbreviation EXT_RESERVED :: nat where "EXT_RESERVED \<equiv> 15"
abbreviation EXT_U8_BASE :: nat where "EXT_U8_BASE \<equiv> 13"
abbreviation EXT_U16_BASE :: nat where "EXT_U16_BASE \<equiv> 269"
abbreviation UINT16_MAX :: nat where "UINT16_MAX \<equiv> 65535"

definition option_get_short_delta :: "bytes \<Rightarrow> nat \<Rightarrow> nat option" where
  "option_get_short_delta m opt = do { b \<leftarrow> rd8 m opt; Some (unat (field_get b 0xF0 4)) }"

definition option_set_short_delta :: "bytes \<Rightarrow> nat \<Rightarrow> byte \<Rightarrow> bytes option" where
  "option_set_short_delta m opt delta = do {
     c_assert (unat delta \<le> EXT_RESERVED);
     b \<leftarrow> rd8 m opt;
     wr8 m opt (field_set b 0xF0 4 delta) }"

definition option_get_short_length :: "bytes \<Rightarrow> nat \<Rightarrow> nat option" where
  "option_get_short_length m opt = do { b \<leftarrow> rd8 m opt; Some (unat (field_get b 0x0F 0)) }"

definition option_set_short_length :: "bytes \<Rightarrow> nat \<Rightarrow> byte \<Rightarrow> bytes option" where
  "option_set_short_length m opt len = do {
     c_assert (unat len \<le> EXT_RESERVED);
     b \<leftarrow> rd8 m opt;
     wr8 m opt (field_set b 0x0F 0 len) }"

definition get_opt_header_size :: "nat \<Rightarrow> nat \<Rightarrow> nat option" where
  "get_opt_header_size delta dsize = do {
     c_assert (delta \<le> UINT16_MAX);
     c_assert (dsize \<le> UINT16_MAX);
     Some (1 + (if delta \<ge> EXT_U16_BASE then 2 else if delta \<ge> EXT_U8_BASE then 1 else 0)
             + (if dsize \<ge> EXT_U16_BASE then 2 else if dsize \<ge> EXT_U8_BASE then 1 else 0)) }"

section \<open>Reading an option\<close>

definition get_ext_field_size :: "nat \<Rightarrow> nat option" where
  "get_ext_field_size base = do {
     c_assert (base < EXT_RESERVED);
     Some (if base = EXT_U8 then 1 else if base = EXT_U16 then 2 else 0) }"

definition decode_ext_value :: "nat \<Rightarrow> bytes \<Rightarrow> nat \<Rightarrow> nat option" where
  "decode_ext_value base m p = do {
     c_assert (base < EXT_RESERVED);
     (if base = EXT_U8 then do { b \<leftarrow> rd8 m p; Some (unat b + EXT_U8_BASE) }
      else if base = EXT_U16 then do { w \<leftarrow> extract_u16 m p; Some (w + EXT_U16_BASE) }
      else Some base) }"

definition ext_value_overflows :: "nat \<Rightarrow> bytes \<Rightarrow> nat \<Rightarrow> bool option" where
  "ext_value_overflows base m p =
     (if base = EXT_U16 then do { w \<leftarrow> extract_u16 m p; Some (w > UINT16_MAX - EXT_U16_BASE) }
      else Some False)"

definition ext_delta_ptr :: "nat \<Rightarrow> nat" where
  "ext_delta_ptr opt = opt + 1"

definition ext_length_ptr :: "bytes \<Rightarrow> nat \<Rightarrow> nat option" where
  "ext_length_ptr m opt = do {
     d \<leftarrow> option_get_short_delta m opt;
     n \<leftarrow> get_ext_field_size d;
     Some (opt + 1 + n) }"

definition option_value :: "bytes \<Rightarrow> nat \<Rightarrow> nat option" where
  "option_value m opt = do {
     p \<leftarrow> ext_length_ptr m opt;
     l \<leftarrow> option_get_short_length m opt;
     n \<leftarrow> get_ext_field_size l;
     Some (p + n) }"

definition option_delta :: "bytes \<Rightarrow> nat \<Rightarrow> nat option" where
  "option_delta m opt = do {
     d \<leftarrow> option_get_short_delta m opt;
     delta \<leftarrow> decode_ext_value d m (ext_delta_ptr opt);
     c_assert (delta \<le> UINT16_MAX + EXT_U16_BASE);
     Some delta }"

definition option_content_length :: "bytes \<Rightarrow> nat \<Rightarrow> nat option" where
  "option_content_length m opt = do {
     l \<leftarrow> option_get_short_length m opt;
     p \<leftarrow> ext_length_ptr m opt;
     len \<leftarrow> decode_ext_value l m p;
     c_assert (len \<le> UINT16_MAX + EXT_U16_BASE);
     Some len }"

definition option_sizeof :: "bytes \<Rightarrow> nat \<Rightarrow> nat option" where
  "option_sizeof m opt = do {
     v \<leftarrow> option_value m opt;
     len \<leftarrow> option_content_length m opt;
     c_assert (opt < v + len);
     Some (v + len - opt) }"

section \<open>Validity\<close>

definition is_delta_valid :: "bytes \<Rightarrow> nat \<Rightarrow> nat \<Rightarrow> bool option" where
  "is_delta_valid m opt max_opt_bytes = do {
     d \<leftarrow> option_get_short_delta m opt;
     if d = EXT_RESERVED then Some False
     else do {
       n \<leftarrow> get_ext_field_size d;
       if 1 + n \<le> max_opt_bytes
       then do { ov \<leftarrow> ext_value_overflows d m (ext_delta_ptr opt); Some (\<not> ov) }
       else Some False } }"

definition is_length_valid :: "bytes \<Rightarrow> nat \<Rightarrow> nat \<Rightarrow> bool option" where
  "is_length_valid m opt max_opt_bytes = do {
     l \<leftarrow> option_get_short_length m opt;
     if l = EXT_RESERVED then Some False
     else do {
       d \<leftarrow> option_get_short_delta m opt;
       nd \<leftarrow> get_ext_field_size d;
       nl \<leftarrow> get_ext_field_size l;
       if 1 + nd + nl \<le> max_opt_bytes
       then do { p \<leftarrow> ext_length_ptr m opt;
                 ov \<leftarrow> ext_value_overflows l m p; Some (\<not> ov) }
       else Some False } }"

text \<open>
  The C code also checks that adding the option's length to its address does not wrap around;
  offsets into a region do not wrap, so only the comparison with the available bytes is left.
\<close>

definition option_is_valid :: "bytes \<Rightarrow> nat \<Rightarrow> nat \<Rightarrow> bool option" where
  "option_is_valid m opt max_opt_bytes =
     (if max_opt_bytes = 0 then Some False
      else do {
        dv \<leftarrow> is_delta_valid m opt max_opt_bytes;
        if \<not> dv then Some False
        else do {
          lv \<leftarrow> is_length_valid m opt max_opt_bytes;
          if \<not> lv then Some False
          else do {
            len \<leftarrow> option_sizeof m opt;
            Some (len mod 2 ^ 32 \<le> max_opt_bytes) } } })"

section \<open>Writing an option\<close>

text \<open>
  The content of a new option is either a separate object (\<open>External\<close>) or lies in the
  memory region that is being written (\<open>Internal\<close>, as an offset), which is how options are
  moved and resized in place.
\<close>

datatype opt_data = External bytes | Internal nat

definition encode_ext_value :: "bytes \<Rightarrow> nat \<Rightarrow> nat \<Rightarrow> (bytes \<times> nat) option" where
  "encode_ext_value m p v =
     (if v \<ge> EXT_U16_BASE then do { m' \<leftarrow> wr_bytes m p (be16 (v - EXT_U16_BASE)); Some (m', 2) }
      else if v \<ge> EXT_U8_BASE then do { m' \<leftarrow> wr8 m p (byte_of (v - EXT_U8_BASE)); Some (m', 1) }
      else Some (m, 0))"

definition opt_write_header :: "bytes \<Rightarrow> nat \<Rightarrow> nat \<Rightarrow> nat \<Rightarrow> (bytes \<times> nat) option" where
  "opt_write_header m opt delta len = do {
     m \<leftarrow> option_set_short_delta m opt
            (if delta \<ge> EXT_U16_BASE then byte_of EXT_U16
             else if delta \<ge> EXT_U8_BASE then byte_of EXT_U8
             else byte_of delta AND 0xF);
     m \<leftarrow> option_set_short_length m opt
            (if len \<ge> EXT_U16_BASE then byte_of EXT_U16
             else if len \<ge> EXT_U8_BASE then byte_of EXT_U8
             else byte_of len AND 0xF);
     (m, n1) \<leftarrow> encode_ext_value m (opt + 1) delta;
     (m, n2) \<leftarrow> encode_ext_value m (opt + 1 + n1) len;
     Some (m, 1 + n1 + n2) }"

definition memory_regions_overlap :: "nat \<Rightarrow> nat \<Rightarrow> nat \<Rightarrow> nat \<Rightarrow> bool" where
  "memory_regions_overlap a a_size b b_size = (a < b + b_size \<and> b < a + a_size)"

text \<open>
  The result is the memory after the call and the number of bytes written, 0 on error.
\<close>

definition option_serialize ::
  "bytes \<Rightarrow> nat \<Rightarrow> nat \<Rightarrow> nat \<Rightarrow> opt_data \<Rightarrow> nat \<Rightarrow> (bytes \<times> nat) option" where
  "option_serialize m buffer buffer_size delta data data_size = do {
     hdr \<leftarrow> get_opt_header_size delta data_size;
     if hdr + data_size > buffer_size then Some (m, 0)
     else do {
       c_assert (delta \<le> UINT16_MAX);
       c_assert (data_size \<le> UINT16_MAX);
       (m, written) \<leftarrow> opt_write_header m buffer (delta mod 65536) (data_size mod 65536);
       c_assert (written = hdr);
       c_assert (written + data_size \<le> buffer_size);
       m \<leftarrow> (case data of
               External bs \<Rightarrow> do { d \<leftarrow> rd_bytes bs 0 data_size; wr_bytes m (buffer + written) d }
             | Internal p \<Rightarrow> do {
                 c_assert (\<not> memory_regions_overlap buffer written p data_size);
                 memmove m (buffer + written) p data_size });
       Some (m, written + data_size) } }"

section \<open>The encoding of an option\<close>

text \<open>
  RFC 7252, 3.1: a byte with two nibbles, the extended delta, the extended length and the
  content. The three ranges of a nibble do not overlap, so an option has exactly one encoding.
\<close>

definition nib :: "nat \<Rightarrow> nat" where
  "nib n = (if n \<ge> EXT_U16_BASE then EXT_U16 else if n \<ge> EXT_U8_BASE then EXT_U8 else n)"

definition enc_ext :: "nat \<Rightarrow> bytes" where
  "enc_ext n = (if n \<ge> EXT_U16_BASE then be16 (n - EXT_U16_BASE)
                else if n \<ge> EXT_U8_BASE then [byte_of (n - EXT_U8_BASE)] else [])"

definition enc_hdr :: "nat \<Rightarrow> nat \<Rightarrow> bytes" where
  "enc_hdr d l = byte_of (16 * nib d + nib l) # enc_ext d @ enc_ext l"

definition enc_opt :: "nat \<Rightarrow> bytes \<Rightarrow> bytes" where
  "enc_opt d v = enc_hdr d (length v) @ v"

subsection \<open>Reading back an encoded option\<close>

lemma nib_lt: "nib n < 15" by (simp add: nib_def)

lemma nib_cases:
  "nib n = 13 \<longleftrightarrow> 13 \<le> n \<and> n < 269" "nib n = 14 \<longleftrightarrow> 269 \<le> n" 
  by (auto simp: nib_def)

lemma nib_mod [simp]: "(16 * nib d + nib l) mod 256 = 16 * nib d + nib l"
  using nib_lt[of d] nib_lt[of l] by simp

lemma short_delta_enc [mem_simps]: "length pre = p \<Longrightarrow>
  option_get_short_delta (pre @ enc_hdr d l @ post) p = Some (nib d)"
  using nib_lt[of l]
  by (simp add: option_get_short_delta_def enc_hdr_def rd8_append field_get_hi4)

lemma short_length_enc [mem_simps]: "length pre = p \<Longrightarrow>
  option_get_short_length (pre @ enc_hdr d l @ post) p = Some (nib l)"
  using nib_lt[of l]
  by (simp add: option_get_short_length_def enc_hdr_def rd8_append field_get_lo4)

lemma ext_field_size_nib [simp]: "get_ext_field_size (nib n) = Some (length (enc_ext n))"
  by (simp add: get_ext_field_size_def nib_def enc_ext_def)

lemma decode_ext_enc:
  assumes "n \<le> UINT16_MAX" "length pre = p"
  shows "decode_ext_value (nib n) (pre @ enc_ext n @ post) p = Some n"
  using assms
  by (auto simp: decode_ext_value_def nib_def enc_ext_def extract_u16_be16 rd8_append unat_byte_of)

lemma length_enc_ext: "length (enc_ext n) = (if n \<ge> EXT_U16_BASE then 2 else if n \<ge> EXT_U8_BASE then 1 else 0)"
  by (simp add: enc_ext_def)

lemma get_opt_header_size_enc:
  "d \<le> UINT16_MAX \<Longrightarrow> l \<le> UINT16_MAX \<Longrightarrow> get_opt_header_size d l = Some (length (enc_hdr d l))"
  by (simp add: get_opt_header_size_def enc_hdr_def length_enc_ext)

lemma ext_length_ptr_enc [mem_simps]: "length pre = p \<Longrightarrow>
  ext_length_ptr (pre @ enc_hdr d l @ post) p = Some (p + 1 + length (enc_ext d))"
  by (simp add: ext_length_ptr_def short_delta_enc)

lemma option_value_enc [mem_simps]: "length pre = p \<Longrightarrow>
  option_value (pre @ enc_hdr d l @ post) p = Some (p + length (enc_hdr d l))"
  by (simp add: option_value_def mem_simps) (simp add: enc_hdr_def)

lemma option_delta_enc [mem_simps]:
  assumes "length pre = p" "d \<le> UINT16_MAX"
  shows "option_delta (pre @ enc_hdr d l @ post) p = Some d"
proof -
  have "decode_ext_value (nib d) (pre @ enc_hdr d l @ post) (ext_delta_ptr p) = Some d"
    using decode_ext_enc[of d "pre @ [byte_of (16 * nib d + nib l)]" "p+1" "enc_ext l @ post"] assms
    by (simp add: enc_hdr_def ext_delta_ptr_def)
  with assms show ?thesis by (simp add: option_delta_def mem_simps)
qed

lemma option_content_length_enc [mem_simps]:
  assumes "length pre = p" "l \<le> UINT16_MAX"
  shows "option_content_length (pre @ enc_hdr d l @ post) p = Some l"
proof -
  have "decode_ext_value (nib l) (pre @ enc_hdr d l @ post) (p + 1 + length (enc_ext d)) = Some l"
    using decode_ext_enc[of l "pre @ [byte_of (16 * nib d + nib l)] @ enc_ext d" _ "post"] assms
    by (simp add: enc_hdr_def)
  with assms show ?thesis by (simp add: option_content_length_def mem_simps)
qed

lemma option_sizeof_enc [mem_simps]:
  assumes "length pre = p" "length v \<le> UINT16_MAX"
  shows "option_sizeof (pre @ enc_opt d v @ post) p = Some (length (enc_opt d v))"
  using assms by (simp add: option_sizeof_def enc_opt_def mem_simps) (simp add: enc_hdr_def)

lemma option_is_valid_enc:
  assumes "length pre = p" "d \<le> UINT16_MAX" "length v \<le> UINT16_MAX" "length (enc_opt d v) \<le> n"
  shows "option_is_valid (pre @ enc_opt d v @ post) p n = Some True"
proof -
  let ?m = "pre @ enc_opt d v @ post"
  have m: "?m = pre @ enc_hdr d (length v) @ (v @ post)" by (simp add: enc_opt_def)
  have "extract_u16 ?m (p + 1) = Some (d - 269)" if "269 \<le> d"
    using that assms extract_u16_be16[of "d - 269" "pre @ [byte_of (16 * nib d + nib (length v))]" "p + 1"]
    by (simp add: m enc_hdr_def enc_ext_def)
  then have "is_delta_valid ?m p n = Some True"
    using assms nib_lt[of d]
    by (auto simp: is_delta_valid_def m mem_simps ext_value_overflows_def nib_cases ext_delta_ptr_def) 
       (simp add: enc_opt_def enc_hdr_def)+
  moreover have "extract_u16 ?m (p + 1 + length (enc_ext d)) = Some (length v - 269)" if "269 \<le> length v"
    using that assms extract_u16_be16[of "length v - 269" "pre @ [byte_of (16 * nib d + nib (length v))] @ enc_ext d"]
    by (simp add: m enc_hdr_def enc_ext_def[of "length v"])
  then have "is_length_valid ?m p n = Some True"
    using assms nib_lt[of "length v"]
    by (auto simp: is_length_valid_def m mem_simps ext_value_overflows_def nib_cases ext_delta_ptr_def) 
       (simp add: enc_opt_def enc_hdr_def)+
  moreover have "length (enc_opt d v) < 2 ^ 32" using assms by (simp add: enc_opt_def enc_hdr_def length_enc_ext)
  ultimately show ?thesis using assms
    by (simp add: option_is_valid_def option_sizeof_enc) (simp add: enc_opt_def enc_hdr_def)
qed

subsection \<open>What the validity check accepts\<close>

lemma rd8_total: "p < length m \<Longrightarrow> rd8 m p = Some (m ! p)" by (simp add: rd8_def)

lemma extract_u16_total: "p + 1 < length m \<Longrightarrow> extract_u16 m p = Some (256 * unat (m ! p) + unat (m ! (p + 1)))"
  by (simp add: extract_u16_def rd8_def)

lemma hdr_byte_split: "unat b div 16 < 16" "unat b mod 16 < 16" for b :: byte
  by (rule less_mult_imp_div_less) simp_all

lemma ext_field_inv:
  assumes "base < EXT_RESERVED" "ext_value_overflows base m p = Some False"
    "get_ext_field_size base = Some n" "p + n \<le> length m"
  shows "\<exists>v \<le> UINT16_MAX. base = nib v \<and> take n (drop p m) = enc_ext v \<and> n = length (enc_ext v)"
proof -
  consider "base < 13" | "base = 13" | "base = 14" using assms(1) by linarith
  then show ?thesis
  proof cases
    case 1 then show ?thesis using assms
      by (intro exI[of _ base]) (auto simp: nib_def enc_ext_def get_ext_field_size_def)
  next
    case 2
    then have "n = 1" "p < length m" using assms by (auto simp: get_ext_field_size_def)
    moreover have "unat (m ! p) + 13 \<le> UINT16_MAX" using byte_le_255 [of "m ! p"] by linarith
    ultimately show ?thesis using 2
      by (intro exI[of _ "unat (m ! p) + 13"]) (auto simp: nib_def enc_ext_def take_Suc_conv_app_nth Cons_nth_drop_Suc [symmetric])
  next
    case 3
    then have n: "n = 2" "p + 1 < length m" using assms by (auto simp: get_ext_field_size_def)
    let ?w = "256 * unat (m ! p) + unat (m ! (p + 1))"
    have w: "?w \<le> UINT16_MAX - 269" using 3 assms(2) n by (simp add: ext_value_overflows_def extract_u16_total)
    have "take 2 (drop p m) = [m ! p, m ! (p + 1)]" using n 
      by (simp add: numeral_2_eq_2 Cons_nth_drop_Suc [symmetric])
    moreover have "be16 ?w = [m ! p, m ! (p + 1)]"
      by (auto simp: be16_def intro!: byte_eqI)
    ultimately show ?thesis using 3 n w
      by (intro exI[of _ "?w + 269"]) (auto simp: nib_def enc_ext_def)
  qed
qed

lemma get_ext_field_size_total: "base < EXT_RESERVED \<Longrightarrow> \<exists>n \<le> 2. get_ext_field_size base = Some n"
  by (simp add: get_ext_field_size_def)

lemma ext_value_overflows_total:
  "get_ext_field_size base = Some n \<Longrightarrow> p + n \<le> length m \<Longrightarrow> \<exists>b. ext_value_overflows base m p = Some b"
  by (auto simp: get_ext_field_size_def ext_value_overflows_def extract_u16_total c_assert_def split: if_splits)

text \<open>The validity checks only accept a header that is the encoding of some option.\<close>

lemma header_checks_inv:
  assumes len: "opt + n \<le> length m" and n: "n \<noteq> 0"
    and dv: "is_delta_valid m opt n = Some True" and lv: "is_length_valid m opt n = Some True"
  shows "\<exists>d l post. d \<le> UINT16_MAX \<and> l \<le> UINT16_MAX \<and> m = take opt m @ enc_hdr d l @ post
           \<and> length (enc_hdr d l) \<le> n"
proof -
  define b where "b = m ! opt"
  have b: "rd8 m opt = Some b" using len n by (simp add: rd8_def b_def)
  have sd: "option_get_short_delta m opt = Some (unat b div 16)"
    by (simp add: option_get_short_delta_def b field_get_hi4)
  have sl: "option_get_short_length m opt = Some (unat b mod 16)"
    by (simp add: option_get_short_length_def b field_get_lo4)
  from dv obtain nd where d15: "unat b div 16 < 15" and nd: "get_ext_field_size (unat b div 16) = Some nd" "1 + nd \<le> n"
    and ovd: "ext_value_overflows (unat b div 16) m (opt + 1) = Some False"
    using hdr_byte_split[of b]
    by (auto simp: is_delta_valid_def sd bind_eq_Some_conv ext_delta_ptr_def split: if_splits)
  have elp: "ext_length_ptr m opt = Some (opt + 1 + nd)" by (simp add: ext_length_ptr_def sd nd)
  from lv obtain nl where l15: "unat b mod 16 < 15" and nl: "get_ext_field_size (unat b mod 16) = Some nl" "1 + nd + nl \<le> n"
    and ovl: "ext_value_overflows (unat b mod 16) m (opt + 1 + nd) = Some False"
    using hdr_byte_split[of b]
    by (auto simp: is_length_valid_def sl sd nd elp bind_eq_Some_conv split: if_splits)
  from ext_field_inv[OF d15 ovd nd(1)] len nd obtain d where
    d: "d \<le> UINT16_MAX" "unat b div 16 = nib d" "take nd (drop (opt + 1) m) = enc_ext d" "nd = length (enc_ext d)" by auto
  from ext_field_inv[OF l15 ovl nl(1)] len nl obtain l where
    l: "l \<le> UINT16_MAX" "unat b mod 16 = nib l" "take nl (drop (opt + 1 + nd) m) = enc_ext l" "nl = length (enc_ext l)" by auto
  have "b = byte_of (16 * nib d + nib l)"
    using d(2) l(2) by (metis byte_of_unat mult_div_mod_eq)
  moreover have "drop opt m = b # drop (opt + 1) m"
    using len n by (simp add: b_def Cons_nth_drop_Suc)
  moreover have "drop (opt + 1) m = enc_ext d @ drop (opt + 1 + nd) m"
    using d(3) by (metis append_take_drop_id drop_drop add.commute)
  moreover have "drop (opt + 1 + nd) m = enc_ext l @ drop (opt + 1 + nd + nl) m"
    using l(3) by (metis append_take_drop_id drop_drop add.commute)
  ultimately have "drop opt m = enc_hdr d l @ drop (opt + 1 + nd + nl) m"
    by (simp add: enc_hdr_def)
  then have "m = take opt m @ enc_hdr d l @ drop (opt + 1 + nd + nl) m"
    by (metis append_take_drop_id)
  moreover have "length (enc_hdr d l) \<le> n" using nl(2) d(4) l(4) by (simp add: enc_hdr_def)
  ultimately show ?thesis using d(1) l(1) by blast
qed

lemma option_sizeof_hdr:
  assumes "length pre = p" "l \<le> UINT16_MAX"
  shows "option_sizeof (pre @ enc_hdr d l @ post) p = Some (length (enc_hdr d l) + l)"
  using assms by (simp add: option_sizeof_def mem_simps) (simp add: enc_hdr_def)

lemma length_enc_hdr: "length (enc_hdr d l) = 1 + length (enc_ext d) + length (enc_ext l)"
  by (simp add: enc_hdr_def)

lemma length_enc_ext_le: "length (enc_ext n) \<le> 2" by (simp add: length_enc_ext)

lemma option_is_valid_total:
  assumes len: "opt + n \<le> length m"
  shows "\<exists>b. option_is_valid m opt n = Some b"
proof (cases "n = 0")
  case True then show ?thesis by (auto simp: option_is_valid_def)
next
  case False
  define b where "b = m ! opt"
  have b: "rd8 m opt = Some b" using len False by (simp add: rd8_def b_def)
  have sd: "option_get_short_delta m opt = Some (unat b div 16)"
    by (simp add: option_get_short_delta_def b field_get_hi4)
  have sl: "option_get_short_length m opt = Some (unat b mod 16)"
    by (simp add: option_get_short_length_def b field_get_lo4)
  have "\<exists>r. is_delta_valid m opt n = Some r \<and> (r \<longrightarrow> unat b div 16 \<noteq> 15)"
    using get_ext_field_size_total[of "unat b div 16"] ext_value_overflows_total[of "unat b div 16" _ "opt + 1" m] hdr_byte_split[of b] len
    by (auto simp: is_delta_valid_def sd ext_delta_ptr_def nat_less_le) blast
  moreover have "\<exists>r. is_length_valid m opt n = Some r" if d: "unat b div 16 \<noteq> 15"
  proof (cases "unat b mod 16 = 15")
    case True then show ?thesis by (simp add: is_length_valid_def sl) blast
  next
    case False
    obtain nd where nd: "get_ext_field_size (unat b div 16) = Some nd"
      using get_ext_field_size_total[of "unat b div 16"] hdr_byte_split[of b] d by force
    obtain nl where nl: "get_ext_field_size (unat b mod 16) = Some nl"
      using get_ext_field_size_total[of "unat b mod 16"] hdr_byte_split[of b] False by force
    have elp: "ext_length_ptr m opt = Some (opt + 1 + nd)" by (simp add: ext_length_ptr_def sd nd)
    show ?thesis
      using ext_value_overflows_total[OF nl, of "opt + 1 + nd" m] len False nd nl elp
      by (auto simp: is_length_valid_def sl sd)
  qed
  ultimately obtain dv where dv: "is_delta_valid m opt n = Some dv" "dv \<longrightarrow> (\<exists>r. is_length_valid m opt n = Some r)"
    by blast
  show ?thesis
  proof (cases "is_delta_valid m opt n = Some True \<and> is_length_valid m opt n = Some True")
    case True
    then obtain d l post where m: "m = take opt m @ enc_hdr d l @ post" "l \<le> UINT16_MAX"
      using header_checks_inv[OF len False] by blast
    have "length (take opt m) = opt" using len by simp
    from option_sizeof_hdr[OF this m(2), of d post] m(1)
    have "option_sizeof m opt = Some (length (enc_hdr d l) + l)" by metis
    with True False show ?thesis by (simp add: option_is_valid_def)
  next
    case False': False
    with dv show ?thesis using False by (auto simp: option_is_valid_def)
  qed
qed

lemma option_is_valid_inv:
  assumes len: "opt + n \<le> length m" and v: "option_is_valid m opt n = Some True"
  shows "\<exists>d v post. d \<le> UINT16_MAX \<and> length v \<le> UINT16_MAX \<and> length (enc_opt d v) \<le> n
           \<and> m = take opt m @ enc_opt d v @ post"
proof -
  from v have n: "n \<noteq> 0" and dv: "is_delta_valid m opt n = Some True" and lv: "is_length_valid m opt n = Some True"
    by (auto simp: option_is_valid_def bind_eq_Some_conv split: if_splits)
  from header_checks_inv[OF len n dv lv] obtain d l post where
    dl: "d \<le> UINT16_MAX" "l \<le> UINT16_MAX" and m: "m = take opt m @ enc_hdr d l @ post" by blast
  have "length (take opt m) = opt" using len by simp
  from option_sizeof_hdr[OF this dl(2), of d post] m
  have sz: "option_sizeof m opt = Some (length (enc_hdr d l) + l)" by metis
  have "length (enc_hdr d l) + l < 2 ^ 32"
    using dl length_enc_ext_le[of d] length_enc_ext_le[of l] by (simp add: length_enc_hdr)
  with v n dv lv sz have le: "length (enc_hdr d l) + l \<le> n" by (simp add: option_is_valid_def)
  have "length m = opt + length (enc_hdr d l) + length post"
    using m \<open>length (take opt m) = opt\<close> by (metis length_append add.assoc)
  then have l: "length (take l post) = l" using le len by simp
  have "m = take opt m @ enc_opt d (take l post) @ drop l post"
    using m l by (simp add: enc_opt_def)
  moreover have "length (enc_opt d (take l post)) \<le> n" using le l by (simp add: enc_opt_def)
  ultimately show ?thesis using dl l by metis
qed


subsection \<open>The serializer writes the encoding\<close>

lemma encode_ext_value_enc:
  assumes "length pre = p" "length old = length (enc_ext v)" "v \<le> UINT16_MAX"
  shows "encode_ext_value (pre @ old @ post) p v = Some (pre @ enc_ext v @ post, length (enc_ext v))"
proof (cases "v \<ge> EXT_U16_BASE")
  case True
  with assms show ?thesis by (simp add: encode_ext_value_def enc_ext_def wr_bytes_append)
next
  case False
  show ?thesis
  proof (cases "v \<ge> EXT_U8_BASE")
    case True
    then obtain x where "old = [x]" using assms(2) False by (auto simp: enc_ext_def length_Suc_conv)
    with True False assms show ?thesis
      by (auto simp: encode_ext_value_def enc_ext_def wr8_append)
  next
    case f: False
    with False assms show ?thesis by (simp add: encode_ext_value_def enc_ext_def)
  qed
qed

lemma set_short_fields:
  assumes "length pre = p"
  shows "option_set_short_delta (pre @ b # post) p (byte_of n) =
           (if n mod 256 \<le> 15 then Some (pre @ field_set b 0xF0 4 (byte_of n) # post) else None)"
    and "option_set_short_length (pre @ b # post) p (byte_of n) =
           (if n mod 256 \<le> 15 then Some (pre @ field_set b 0x0F 0 (byte_of n) # post) else None)"
  using assms by (simp_all add: option_set_short_delta_def option_set_short_length_def mem_simps c_assert_def)

lemma byte_of_and_15: "n < 16 \<Longrightarrow> byte_of n AND 15 = byte_of n"
  by (rule byte_eqI) (simp add: u8_and_15)

lemma nib_byte: "(if n \<ge> EXT_U16_BASE then byte_of EXT_U16 else if n \<ge> EXT_U8_BASE then byte_of EXT_U8
             else byte_of n AND 0xF) = byte_of (nib n)"
  by (simp add: nib_def byte_of_and_15)

lemma field_set_nibs:
  "field_set (field_set b 0xF0 4 (byte_of (nib d))) 0x0F 0 (byte_of (nib l)) = byte_of (16 * nib d + nib l)"
proof (rule byte_eqI)
  have "nib d mod 256 mod 16 = nib d" "nib l mod 256 mod 16 = nib l" "unat b mod 16 div 16 = 0"
    using nib_lt[of d] nib_lt[of l] hdr_byte_split[of b] by simp_all
  then show "unat (field_set (field_set b 0xF0 4 (byte_of (nib d))) 0x0F 0 (byte_of (nib l)))
        = unat (byte_of (16 * nib d + nib l))"
    by (simp add: field_set_lo4 field_set_hi4)
qed

lemma opt_write_header_enc:
  assumes p: "length pre = p" and old: "length old = length (enc_hdr d l)"
    and d: "d \<le> UINT16_MAX" and l: "l \<le> UINT16_MAX"
  shows "opt_write_header (pre @ old @ post) p d l = Some (pre @ enc_hdr d l @ post, length (enc_hdr d l))"
proof -
  obtain b x y where xy: "old = b # x @ y" "length x = length (enc_ext d)" "length y = length (enc_ext l)"
  proof -
    from old obtain b r where r: "old = b # r" "length r = length (enc_ext d) + length (enc_ext l)"
      by (cases old) (auto simp: enc_hdr_def)
    then have "r = take (length (enc_ext d)) r @ drop (length (enc_ext d)) r" by simp
    with r show thesis by (intro that[of b "take (length (enc_ext d)) r" "drop (length (enc_ext d)) r"]) auto
  qed
  let ?h = "byte_of (16 * nib d + nib l)"
  have "option_set_short_delta (pre @ old @ post) p (byte_of (nib d))
      = Some (pre @ field_set b 0xF0 4 (byte_of (nib d)) # x @ y @ post)"
    using nib_lt[of d] p by (simp add: xy set_short_fields)
  moreover have "option_set_short_length (pre @ field_set b 0xF0 4 (byte_of (nib d)) # x @ y @ post) p (byte_of (nib l))
      = Some (pre @ ?h # x @ y @ post)"
    using nib_lt[of l] p by (simp add: set_short_fields field_set_nibs)
  moreover have "encode_ext_value (pre @ ?h # x @ y @ post) (p + 1) d
      = Some (pre @ ?h # enc_ext d @ y @ post, length (enc_ext d))"
    using encode_ext_value_enc[of "pre @ [?h]" "p + 1" x d "y @ post"] p xy d by simp
  moreover have "encode_ext_value (pre @ ?h # enc_ext d @ y @ post) (p + 1 + length (enc_ext d)) l
      = Some (pre @ ?h # enc_ext d @ enc_ext l @ post, length (enc_ext l))"
    using encode_ext_value_enc[of "pre @ [?h] @ enc_ext d" "p + 1 + length (enc_ext d)" y l "post"] p xy l by simp
  ultimately show ?thesis
    unfolding opt_write_header_def nib_byte by (simp add: enc_hdr_def)
qed

lemma option_serialize_external:
  assumes p: "length pre = p" and old: "length old = length (enc_opt d v)" "length old \<le> n"
    and d: "d \<le> UINT16_MAX" and l: "length v \<le> UINT16_MAX"
  shows "option_serialize (pre @ old @ post) p n d (External (v @ w)) (length v)
     = Some (pre @ enc_opt d v @ post, length (enc_opt d v))"
proof -
  let ?h = "enc_hdr d (length v)"
  obtain a b where ab: "old = a @ b" and lens: "length a = length ?h" "length b = length v"
    using old that [of "take (length ?h) old" "drop (length ?h) old"] by (simp add: enc_opt_def)
  have "opt_write_header (pre @ old @ post) p d (length v) = Some (pre @ ?h @ b @ post, length ?h)"
    using opt_write_header_enc[OF p lens(1) d l, of "b @ post"] by (simp add: ab)
  moreover have "wr_bytes (pre @ ?h @ b @ post) (p + length ?h) v = Some (pre @ ?h @ v @ post)"
    using wr_bytes_append[of "pre @ ?h" "p + length ?h" b v post] lens p by simp
  ultimately show ?thesis using d l old
    by (simp add: option_serialize_def get_opt_header_size_enc enc_opt_def rd_bytes_def)
qed

lemma option_serialize_internal:
  assumes p: "length pre = p" and gap: "length (enc_hdr d (length v)) \<le> length gap"
    and n: "length (enc_opt d v) \<le> n" and q: "q = p + length gap"
    and d: "d \<le> UINT16_MAX" and l: "length v \<le> UINT16_MAX"
  shows "option_serialize (pre @ gap @ v @ post) p n d (Internal q) (length v)
     = Some (pre @ enc_opt d v @ drop (length (enc_opt d v)) (gap @ v) @ post, length (enc_opt d v))"
proof -
  let ?h = "enc_hdr d (length v)"
  obtain a g where ag: "gap = a @ g" and lens: "length a = length ?h"
    using gap that [of "take (length ?h) gap" "drop (length ?h) gap"] by simp
  have "opt_write_header (pre @ gap @ v @ post) p d (length v) = Some (pre @ ?h @ g @ v @ post, length ?h)"
    using opt_write_header_enc[OF p lens d l, of "g @ v @ post"] by (simp add: ag)
  moreover have "memmove (pre @ ?h @ g @ v @ post) (p + length ?h) q (length v)
      = Some (pre @ ?h @ v @ drop (length v) (g @ v) @ post)"
    using memmove_down[of "pre @ ?h" "p + length ?h" g "length g" q v "length v" post] ag lens p q by simp
  moreover have "drop (length v) (g @ v) = drop (length (enc_opt d v)) (gap @ v)"
    using lens by (simp add: enc_opt_def ag)
  moreover have "\<not> memory_regions_overlap p (length ?h) q (length v)"
    using gap q by (simp add: memory_regions_overlap_def)
  ultimately show ?thesis using d l n gap q
    by (simp add: option_serialize_def get_opt_header_size_enc enc_opt_def)
qed

end
