(* ===== verification/Coap_Optit.thy ===== *)
theory Coap_Optit
  imports Coap_Option
begin

text \<open>
  The options container \<open>avs_coap_options_t\<close>, its iterator and the erasure of options
  (\<open>avs_coap_iterator.c\<close>, \<open>avs_coap_options_remove_by_number\<close>), with the
  abstraction used by all theories above: a container represents a list of pairs of an option
  number and its content, and every operation of the C code is related to an operation on
  that list.
\<close>

section \<open>Container and iterator\<close>

text \<open>
  \<open>opts_mem\<close> is the memory from \<open>begin\<close> to the end of the object it points into;
  \<open>capacity\<close> may be smaller (a parsed packet, a container shrunk to fit).
\<close>

record coap_options =
  opts_mem :: bytes
  opts_size :: nat
  opts_capacity :: nat
  opts_allocated :: bool

record optit =
  curr_opt :: nat
  prev_opt_number :: nat

definition optit_begin :: optit where
  "optit_begin = \<lparr>curr_opt = 0, prev_opt_number = 0\<rparr>"

definition optit_end :: "coap_options \<Rightarrow> optit \<Rightarrow> bool option" where
  "optit_end opts it =
     (if curr_opt it \<ge> opts_size opts then Some True
      else do { b \<leftarrow> rd8 (opts_mem opts) (curr_opt it); Some (b = AVS_COAP_PAYLOAD_MARKER) })"

definition optit_current :: "coap_options \<Rightarrow> optit \<Rightarrow> nat option" where
  "optit_current opts it = do {
     e \<leftarrow> optit_end opts it;
     c_assert (\<not> e);
     Some (curr_opt it) }"

definition optit_number :: "coap_options \<Rightarrow> optit \<Rightarrow> nat option" where
  "optit_number opts it = do {
     opt \<leftarrow> optit_current opts it;
     d \<leftarrow> option_delta (opts_mem opts) opt;
     Some ((prev_opt_number it + d) mod 2 ^ 32) }"

definition optit_next :: "coap_options \<Rightarrow> optit \<Rightarrow> optit option" where
  "optit_next opts it = do {
     opt \<leftarrow> optit_current opts it;
     d \<leftarrow> option_delta (opts_mem opts) opt;
     n \<leftarrow> option_sizeof (opts_mem opts) opt;
     Some \<lparr>curr_opt = curr_opt it + n, prev_opt_number = (prev_opt_number it + d) mod 2 ^ 32\<rparr> }"

section \<open>Erasing an option\<close>

definition move_option_back ::
  "coap_options \<Rightarrow> optit \<Rightarrow> optit \<Rightarrow> (coap_options \<times> nat) option" where
  "move_option_back opts dst src = do {
     let m = opts_mem opts;
     src_opt \<leftarrow> optit_current opts src;
     src_sizeof \<leftarrow> option_sizeof m src_opt;
     src_number \<leftarrow> optit_number opts src;
     src_length \<leftarrow> option_content_length m src_opt;
     src_content \<leftarrow> option_value m src_opt;
     dst_opt \<leftarrow> optit_current opts dst;
     dst_sizeof \<leftarrow> option_sizeof m dst_opt;
     c_assert (curr_opt dst + dst_sizeof = curr_opt src);
     let new_delta = u32_sub src_number (prev_opt_number dst);
     new_sizeof \<leftarrow> get_opt_header_size new_delta src_length;
     c_assert (new_sizeof \<le> src_sizeof + dst_sizeof);
     c_assert (new_delta < UINT16_MAX);
     c_assert (src_length < UINT16_MAX);
     (m, written) \<leftarrow> option_serialize m dst_opt (src_sizeof + dst_sizeof) new_delta
                       (Internal src_content) src_length;
     Some (opts\<lparr>opts_mem := m\<rparr>, written) }"

definition optit_erase :: "coap_options \<Rightarrow> optit \<Rightarrow> coap_options option" where
  "optit_erase opts it = do {
     erased \<leftarrow> optit_current opts it;
     erased_sizeof \<leftarrow> option_sizeof (opts_mem opts) erased;
     next \<leftarrow> optit_next opts it;
     at_end \<leftarrow> optit_end opts next;
     if at_end then Some (opts\<lparr>opts_size := curr_opt it\<rparr>)
     else do {
       next_opt \<leftarrow> optit_current opts next;
       next_sizeof \<leftarrow> option_sizeof (opts_mem opts) next_opt;
       rest \<leftarrow> optit_next opts next;
       rest_sizeof \<leftarrow> size_minus (opts_size opts) (curr_opt rest);
       (opts, moved_sizeof) \<leftarrow> move_option_back opts it next;
       c_assert (moved_sizeof > 0);
       m \<leftarrow> memmove (opts_mem opts) (erased + moved_sizeof) (curr_opt rest) rest_sizeof;
       gone \<leftarrow> size_minus (erased_sizeof + next_sizeof) moved_sizeof;
       left \<leftarrow> size_minus (opts_size opts) gone;
       Some (opts\<lparr>opts_mem := m, opts_size := left\<rparr>) } }"

partial_function (option) optit_skip_below :: "coap_options \<Rightarrow> nat \<Rightarrow> optit \<Rightarrow> optit option" where
  "optit_skip_below opts n it = do {
     e \<leftarrow> optit_end opts it;
     if e then Some it
     else do {
       k \<leftarrow> optit_number opts it;
       if k < n then do { it' \<leftarrow> optit_next opts it; optit_skip_below opts n it' }
       else Some it } }"

partial_function (option) optit_erase_all :: "coap_options \<Rightarrow> nat \<Rightarrow> optit \<Rightarrow> coap_options option" where
  "optit_erase_all opts n it = do {
     e \<leftarrow> optit_end opts it;
     if e then Some opts
     else do {
       k \<leftarrow> optit_number opts it;
       if k = n then do { opts' \<leftarrow> optit_erase opts it; optit_erase_all opts' n it }
       else Some opts } }"

definition options_remove_by_number :: "coap_options \<Rightarrow> nat \<Rightarrow> coap_options option" where
  "options_remove_by_number opts n = do {
     it \<leftarrow> optit_skip_below opts n optit_begin;
     optit_erase_all opts n it }"

section \<open>The list of options a container represents\<close>

type_synonym opt_list = "(nat \<times> bytes) list"

fun enc_opts :: "nat \<Rightarrow> opt_list \<Rightarrow> bytes" where
  "enc_opts prev [] = []"
| "enc_opts prev ((n, v) # xs) = enc_opt (n - prev) v @ enc_opts n xs"

fun wf_opts :: "nat \<Rightarrow> opt_list \<Rightarrow> bool" where
  "wf_opts prev [] = True"
| "wf_opts prev ((n, v) # xs) =
     (prev \<le> n \<and> n \<le> UINT16_MAX \<and> length v \<le> UINT16_MAX \<and> wf_opts n xs)"

fun last_number :: "nat \<Rightarrow> opt_list \<Rightarrow> nat" where
  "last_number prev [] = prev"
| "last_number prev ((n, v) # xs) = last_number n xs"

definition opts_rep :: "coap_options \<Rightarrow> opt_list \<Rightarrow> bool" where
  "opts_rep opts xs \<longleftrightarrow>
     wf_opts 0 xs \<and> opts_size opts = length (enc_opts 0 xs)
     \<and> opts_size opts \<le> opts_capacity opts \<and> opts_capacity opts \<le> length (opts_mem opts)
     \<and> take (opts_size opts) (opts_mem opts) = enc_opts 0 xs"

definition it_at :: "opt_list \<Rightarrow> optit" where
  "it_at ys = \<lparr>curr_opt = length (enc_opts 0 ys), prev_opt_number = last_number 0 ys\<rparr>"

lemma enc_opts_append [simp]:
  "enc_opts p (xs @ ys) = enc_opts p xs @ enc_opts (last_number p xs) ys"
  by (induction p xs rule: enc_opts.induct) auto

lemma wf_opts_append [simp]:
  "wf_opts p (xs @ ys) \<longleftrightarrow> wf_opts p xs \<and> wf_opts (last_number p xs) ys"
  by (induction p xs rule: enc_opts.induct) auto

lemma last_number_append [simp]: "last_number p (xs @ ys) = last_number (last_number p xs) ys"
  by (induction p xs rule: enc_opts.induct) auto

lemma last_number_le: "wf_opts p xs \<Longrightarrow> p \<le> UINT16_MAX \<Longrightarrow> last_number p xs \<le> UINT16_MAX"
  by (induction p xs rule: enc_opts.induct) auto

lemma wf_opts_ge: "wf_opts p xs \<Longrightarrow> (n, v) \<in> set xs \<Longrightarrow> p \<le> n"
  by (induction p xs rule: wf_opts.induct) fastforce+

lemma opts_rep_mem: "opts_rep opts xs \<Longrightarrow> \<exists>post. opts_mem opts = enc_opts 0 xs @ post"
  by (metis append_take_drop_id opts_rep_def)

lemma opts_repI:
  "opts_mem opts = enc_opts 0 xs @ post \<Longrightarrow> wf_opts 0 xs \<Longrightarrow> opts_size opts = length (enc_opts 0 xs)
   \<Longrightarrow> opts_size opts \<le> opts_capacity opts \<Longrightarrow> opts_capacity opts \<le> length (opts_mem opts)
   \<Longrightarrow> opts_rep opts xs"
  by (simp add: opts_rep_def)

lemma it_at_begin: "optit_begin = it_at []"
  by (simp add: optit_begin_def it_at_def)

section \<open>The iterator over an encoded list\<close>

lemma marker_not_header: "byte_of (16 * nib d + nib l) \<noteq> AVS_COAP_PAYLOAD_MARKER"
proof
  assume "byte_of (16 * nib d + nib l) = AVS_COAP_PAYLOAD_MARKER"
  then have "unat (byte_of (16 * nib d + nib l)) = 255" by (simp add: AVS_COAP_PAYLOAD_MARKER_def)
  with nib_lt[of d] nib_lt[of l] show False by simp
qed

lemma enc_opt_Cons: "\<exists>r. enc_opt d v = byte_of (16 * nib d + nib (length v)) # r"
  by (simp add: enc_opt_def enc_hdr_def)

lemma enc_opt_not_Nil [simp]: "enc_opt d v \<noteq> []"
  by (simp add: enc_opt_def enc_hdr_def)

lemma length_enc_opt_pos [simp]: "0 < length (enc_opt d v)"
  by (simp add: enc_opt_def enc_hdr_def)

text \<open>At the position reached after the options \<open>ys\<close>.\<close>

lemma optit_end_at [mem_simps]:
  assumes "opts_rep opts (ys @ zs)"
  shows "optit_end opts (it_at ys) = Some (zs = [])"
proof (cases zs)
  case Nil
  with assms show ?thesis by (simp add: optit_end_def it_at_def opts_rep_def)
next
  case (Cons z zs')
  obtain n v where z: "z = (n, v)" by force
  from assms obtain post where m: "opts_mem opts = enc_opts 0 (ys @ zs) @ post" using opts_rep_mem by blast
  obtain r where r: "enc_opt (n - last_number 0 ys) v = byte_of (16 * nib (n - last_number 0 ys) + nib (length v)) # r"
    using enc_opt_Cons by blast
  have "opts_size opts = length (enc_opts 0 (ys @ zs))" using assms by (simp add: opts_rep_def)
  then show ?thesis using Cons z
    by (simp add: optit_end_def it_at_def m r mem_simps marker_not_header)
qed

lemma optit_end_at_all [mem_simps]:
  "opts_rep opts ys \<Longrightarrow> optit_end opts (it_at ys) = Some True"
  using optit_end_at [of opts ys "[]"] by simp

lemma optit_current_at [mem_simps]:
  "opts_rep opts (ys @ z # zs) \<Longrightarrow> optit_current opts (it_at ys) = Some (length (enc_opts 0 ys))"
  by (simp add: optit_current_def optit_end_at) (simp add: it_at_def)

text \<open>The memory around the option at a position.\<close>

lemma opts_rep_split:
  assumes "opts_rep opts (ys @ (n, v) # zs)"
  obtains post where "opts_mem opts = enc_opts 0 ys @ enc_opt (n - last_number 0 ys) v @ post"
    and "last_number 0 ys \<le> n" "n \<le> UINT16_MAX" "length v \<le> UINT16_MAX"
proof -
  from assms have wf: "wf_opts 0 (ys @ (n, v) # zs)" by (simp add: opts_rep_def)
  from opts_rep_mem[OF assms] obtain post where "opts_mem opts = enc_opts 0 (ys @ (n, v) # zs) @ post" by blast
  with wf show thesis by (intro that[of "enc_opts n zs @ post"]) auto
qed

lemma at_option [mem_simps]:
  assumes "opts_rep opts (ys @ (n, v) # zs)"
  shows "option_delta (opts_mem opts) (length (enc_opts 0 ys)) = Some (n - last_number 0 ys)"
    and "option_content_length (opts_mem opts) (length (enc_opts 0 ys)) = Some (length v)"
    and "option_sizeof (opts_mem opts) (length (enc_opts 0 ys)) = Some (length (enc_opt (n - last_number 0 ys) v))"
    and "option_value (opts_mem opts) (length (enc_opts 0 ys)) =
           Some (length (enc_opts 0 ys) + length (enc_hdr (n - last_number 0 ys) (length v)))"
proof -
  from assms obtain post where m: "opts_mem opts = enc_opts 0 ys @ enc_opt (n - last_number 0 ys) v @ post"
    and n: "n \<le> UINT16_MAX" "length v \<le> UINT16_MAX" by (rule opts_rep_split)
  show "option_sizeof (opts_mem opts) (length (enc_opts 0 ys)) = Some (length (enc_opt (n - last_number 0 ys) v))"
    using n by (simp add: m option_sizeof_enc)
  show "option_delta (opts_mem opts) (length (enc_opts 0 ys)) = Some (n - last_number 0 ys)"
    using n by (simp add: m enc_opt_def option_delta_enc)
  show "option_content_length (opts_mem opts) (length (enc_opts 0 ys)) = Some (length v)"
    using n by (simp add: m enc_opt_def option_content_length_enc)
  show "option_value (opts_mem opts) (length (enc_opts 0 ys)) =
           Some (length (enc_opts 0 ys) + length (enc_hdr (n - last_number 0 ys) (length v)))"
    using n by (simp add: m enc_opt_def option_value_enc)
qed

lemma opts_rep_bounds:
  "opts_rep opts (ys @ (n, v) # zs) \<Longrightarrow> last_number 0 ys \<le> n \<and> n \<le> UINT16_MAX \<and> length v \<le> UINT16_MAX"
  by (simp add: opts_rep_def)

lemma optit_number_at [mem_simps]:
  assumes "opts_rep opts (ys @ (n, v) # zs)"
  shows "optit_number opts (it_at ys) = Some n"
proof -
  have "(last_number 0 ys + (n - last_number 0 ys)) mod 2 ^ 32 = n"
    using opts_rep_bounds[OF assms] by simp
  then show ?thesis using assms
    by (simp add: optit_number_def optit_current_at at_option) (simp add: it_at_def)
qed

lemma optit_next_at [mem_simps]:
  assumes "opts_rep opts (ys @ (n, v) # zs)"
  shows "optit_next opts (it_at ys) = Some (it_at (ys @ [(n, v)]))"
proof -
  have "(last_number 0 ys + (n - last_number 0 ys)) mod 2 ^ 32 = n"
    using opts_rep_bounds[OF assms] by simp
  then show ?thesis using assms
    by (simp add: optit_next_def optit_current_at at_option) (simp add: it_at_def)
qed

section \<open>Erasing and removing options\<close>

lemma optit_skip_below_at:
  "opts_rep opts (ys @ zs) \<Longrightarrow>
   optit_skip_below opts n (it_at ys) = Some (it_at (ys @ takeWhile (\<lambda>x. fst x < n) zs))"
proof (induction zs arbitrary: ys)
  case Nil
  then show ?case by (subst optit_skip_below.simps) (simp add: mem_simps)
next
  case (Cons z zs)
  obtain k v where z: "z = (k, v)" by force
  have "opts_rep opts ((ys @ [z]) @ zs)" using Cons.prems by simp
  from Cons.IH[OF this] Cons.prems show ?case
    by (subst optit_skip_below.simps) (simp add: mem_simps z)
qed

text \<open>
  The argument of the long comment in \<open>_avs_coap_optit_erase\<close>: writing the next option over
  the erased one never overwrites the next option's content, because its header grows by no
  more than the erased option occupies.
\<close>

lemma moved_header_fits:
  "length (enc_hdr (a + b) l) \<le> length (enc_opt a v) + length (enc_hdr b l)"
  by (simp add: enc_opt_def enc_hdr_def length_enc_ext)

lemma optit_erase_at:
  assumes rep: "opts_rep opts (ys @ (n, v) # zs)"
    and next_ok: "case zs of [] \<Rightarrow> True | (k, w) # _ \<Rightarrow> k - last_number 0 ys < UINT16_MAX \<and> length w < UINT16_MAX"
  shows "\<exists>opts'. optit_erase opts (it_at ys) = Some opts' \<and> opts_rep opts' (ys @ zs)
           \<and> opts_capacity opts' = opts_capacity opts \<and> opts_allocated opts' = opts_allocated opts"
proof (cases zs)
  case Nil
  then have "optit_erase opts (it_at ys) = Some (opts\<lparr>opts_size := length (enc_opts 0 ys)\<rparr>)"
    using rep by (simp add: optit_erase_def mem_simps) (simp add: it_at_def)
  moreover have "opts_rep (opts\<lparr>opts_size := length (enc_opts 0 ys)\<rparr>) ys"
    using rep opts_rep_mem[OF rep] by (auto simp: opts_rep_def)
  ultimately show ?thesis using Nil by simp
next
  case (Cons z zs')
  obtain k w where z: "z = (k, w)" by force
  let ?p = "last_number 0 ys" and ?P = "enc_opts 0 ys"
  let ?old = "enc_opt (n - ?p) v" and ?nxt = "enc_opt (k - n) w" and ?new = "enc_opt (k - ?p) w"
  let ?R = "enc_opts k zs'"
  from rep have rep': "opts_rep opts ((ys @ [(n, v)]) @ (k, w) # zs')" by (simp add: Cons z)
  from rep have rep'': "opts_rep opts ((ys @ [(n, v), (k, w)]) @ zs')" by (simp add: Cons z)
  have bnd: "?p \<le> n" "n \<le> k" "k \<le> UINT16_MAX" "length w \<le> UINT16_MAX" "n \<le> UINT16_MAX"
    using opts_rep_bounds[OF rep'] opts_rep_bounds[OF rep] by auto
  have strict: "k - ?p < UINT16_MAX" "length w < UINT16_MAX" using next_ok by (simp_all add: Cons z)
  from opts_rep_mem[OF rep] obtain post where m: "opts_mem opts = ?P @ ?old @ ?nxt @ ?R @ post"
    by (auto simp: Cons z)
  have sz: "opts_size opts = length ?P + length ?old + length ?nxt + length ?R"
    using rep by (simp add: opts_rep_def Cons z)
  define gap where "gap = ?old @ enc_hdr (k - n) (length w)"
  have gw: "?old @ ?nxt = gap @ w" by (simp add: gap_def enc_opt_def)
  have m': "opts_mem opts = ?P @ gap @ w @ ?R @ post" using m gw by (metis append.assoc)
  have q: "length ?P + length ?old + length (enc_hdr (k - n) (length w)) = length ?P + length gap"
    by (simp add: gap_def)
  have kp: "k - ?p = (n - ?p) + (k - n)" using bnd by simp
  have gap: "length (enc_hdr (k - ?p) (length w)) \<le> length gap"
    unfolding kp using moved_header_fits by (simp add: gap_def)
  then have fits: "length ?new \<le> length ?nxt + length ?old" by (simp add: gap_def enc_opt_def)
  define junk where "junk = drop (length ?new) (?old @ ?nxt)"
  let ?m1 = "?P @ ?new @ junk @ ?R @ post"
  have ser: "option_serialize (opts_mem opts) (length ?P) (length ?nxt + length ?old) (k - ?p)
      (Internal (length ?P + length ?old + length (enc_hdr (k - n) (length w)))) (length w)
      = Some (?m1, length ?new)"
    unfolding m' q junk_def gw by (rule option_serialize_internal) (use bnd gap fits in simp_all)
  have hdr_le: "length (enc_hdr (k - ?p) (length w)) \<le> length ?nxt + length ?old"
    using fits by (simp add: enc_opt_def)
  have move: "move_option_back opts (it_at ys) (it_at (ys @ [(n, v)])) = Some (opts\<lparr>opts_mem := ?m1\<rparr>, length ?new)"
    using rep rep' bnd strict hdr_le ser optit_current_at[OF rep'] optit_number_at[OF rep'] at_option[OF rep']
    by (simp add: move_option_back_def mem_simps get_opt_header_size_enc) (simp add: it_at_def ac_simps Let_def get_opt_header_size_enc)
  have junk: "length junk = length ?old + length ?nxt - length ?new"
    unfolding junk_def by (simp only: length_drop length_append)
  let ?m2 = "?P @ ?new @ ?R @ drop (length ?R) (junk @ ?R) @ post"
  have src: "length ?P + length ?old + length ?nxt = length ?P + length ?new + length junk"
    using junk fits by simp
  have mm: "memmove ?m1 (length ?P + length ?new) (length ?P + length ?old + length ?nxt) (length ?R) = Some ?m2"
    unfolding src using memmove_down[OF refl refl refl refl, of "?P @ ?new" junk ?R post] by simp
  have left: "size_minus (opts_size opts) (length ?old + length ?nxt - length ?new)
      = Some (length ?P + length ?new + length ?R)"
    unfolding size_minus_def using fits sz by (simp; linarith)
  have er: "optit_erase opts (it_at ys) = Some (opts\<lparr>opts_mem := ?m2, opts_size := length ?P + length ?new + length ?R\<rparr>)"
    using rep rep' optit_end_at[OF rep'] optit_next_at[OF rep'] optit_current_at[OF rep'] at_option[OF rep'] move mm fits sz left
    by (simp add: optit_erase_def mem_simps) (simp add: it_at_def ac_simps)
  have "length ?m1 = length (opts_mem opts)" using junk fits m by simp
  with memmove_length[OF mm] have lenm2: "length ?m2 = length (opts_mem opts)" by simp
  have cap: "opts_size opts \<le> opts_capacity opts" "opts_capacity opts \<le> length (opts_mem opts)"
    using rep by (simp_all add: opts_rep_def)
  have "opts_rep (opts\<lparr>opts_mem := ?m2, opts_size := length ?P + length ?new + length ?R\<rparr>) (ys @ zs)"
  proof (rule opts_repI[where post = "drop (length ?R) (junk @ ?R) @ post"])
    show "wf_opts 0 (ys @ zs)" using rep by (simp add: opts_rep_def Cons z)
    show "opts_capacity (opts\<lparr>opts_mem := ?m2, opts_size := length ?P + length ?new + length ?R\<rparr>)
        \<le> length (opts_mem (opts\<lparr>opts_mem := ?m2, opts_size := length ?P + length ?new + length ?R\<rparr>))"
      using cap(2) lenm2 by (simp del: length_append length_drop drop_append)
  qed (use cap sz fits in \<open>simp_all add: Cons z\<close>)
  with er show ?thesis by simp
qed

text \<open>
  The assertions of \<open>move_option_back\<close> demand that the option after an erased one has a
  number and a length strictly below 65535.
\<close>

definition movable :: "opt_list \<Rightarrow> bool" where
  "movable xs \<longleftrightarrow> (\<forall>(n, v) \<in> set xs. n < UINT16_MAX \<and> length v < UINT16_MAX)"

lemma movable_Nil [simp]: "movable []"
  by (simp add: movable_def)

lemma movable_append [simp]: "movable (xs @ ys) \<longleftrightarrow> movable xs \<and> movable ys"
  by (auto simp: movable_def)

lemma movable_Cons [simp]: "movable ((n, v) # xs) \<longleftrightarrow> n < UINT16_MAX \<and> length v < UINT16_MAX \<and> movable xs"
  by (auto simp: movable_def)

lemma optit_erase_all_at:
  "opts_rep opts (ys @ zs) \<Longrightarrow> movable zs \<Longrightarrow>
   \<exists>opts'. optit_erase_all opts n (it_at ys) = Some opts'
      \<and> opts_rep opts' (ys @ dropWhile (\<lambda>x. fst x = n) zs)
      \<and> opts_capacity opts' = opts_capacity opts \<and> opts_allocated opts' = opts_allocated opts"
proof (induction zs arbitrary: opts)
  case Nil
  then show ?case by (subst optit_erase_all.simps) (simp add: mem_simps)
next
  case (Cons z zs)
  obtain k v where z: "z = (k, v)" by force
  note rep = Cons.prems(1)[unfolded z]
  show ?case
  proof (cases "k = n")
    case False
    then show ?thesis using rep
      by (subst optit_erase_all.simps) (simp add: mem_simps z)
  next
    case True
    have "case zs of [] \<Rightarrow> True | (k, w) # _ \<Rightarrow> k - last_number 0 ys < UINT16_MAX \<and> length w < UINT16_MAX"
      using Cons.prems(2) by (auto simp: z split: list.splits)
    from optit_erase_at[OF rep this] obtain opts1 where
      o1: "optit_erase opts (it_at ys) = Some opts1" "opts_rep opts1 (ys @ zs)"
        "opts_capacity opts1 = opts_capacity opts" "opts_allocated opts1 = opts_allocated opts" by blast
    from Cons.IH[OF o1(2)] Cons.prems(2) obtain opts2 where
      "optit_erase_all opts1 n (it_at ys) = Some opts2"
        "opts_rep opts2 (ys @ dropWhile (\<lambda>x. fst x = n) zs)"
        "opts_capacity opts2 = opts_capacity opts1" "opts_allocated opts2 = opts_allocated opts1"
      by (auto simp: z)
    with o1 rep True show ?thesis
      by (subst optit_erase_all.simps) (simp add: mem_simps z)
  qed
qed

lemma filter_number_split:
  "wf_opts p xs \<Longrightarrow>
   takeWhile (\<lambda>x. fst x < n) xs @ dropWhile (\<lambda>x. fst x = n) (dropWhile (\<lambda>x. fst x < n) xs)
     = filter (\<lambda>x. fst x \<noteq> n) xs"
proof (induction p xs rule: wf_opts.induct)
  case (2 p k v xs)
  have ge: "x \<in> set xs \<Longrightarrow> k \<le> fst x" for x
    using 2 wf_opts_ge[of k xs "fst x" "snd x"] by simp
  consider "k < n" | "k = n" | "n < k" by linarith
  then show ?case
  proof cases
    case 2
    have "takeWhile (\<lambda>x. fst x < n) xs = []" using ge 2
      by (cases xs) (auto simp: not_less)
    moreover have "dropWhile (\<lambda>x. fst x < n) xs = xs" using ge 2
      by (cases xs) (auto simp: not_less)
    ultimately show ?thesis using "2.IH" "2.prems" 2 by simp
  next
    case 3
    then have "filter (\<lambda>x. fst x \<noteq> n) xs = xs" using ge by (intro filter_True) fastforce
    with 3 show ?thesis by simp
  qed (use 2 in simp)
qed simp

lemma remove_by_number_spec:
  assumes "opts_rep opts xs" and "movable xs"
  shows "\<exists>opts'. options_remove_by_number opts n = Some opts'
     \<and> opts_rep opts' (filter (\<lambda>x. fst x \<noteq> n) xs)
     \<and> opts_capacity opts' = opts_capacity opts \<and> opts_allocated opts' = opts_allocated opts"
proof -
  let ?ys = "takeWhile (\<lambda>x. fst x < n) xs" and ?zs = "dropWhile (\<lambda>x. fst x < n) xs"
  have rep: "opts_rep opts (?ys @ ?zs)" using assms by simp
  have "movable ?zs" using assms(2) by (metis movable_append takeWhile_dropWhile_id)
  from optit_erase_all_at[OF rep this, of n] obtain opts' where
    "optit_erase_all opts n (it_at ?ys) = Some opts'" "opts_rep opts' (?ys @ dropWhile (\<lambda>x. fst x = n) ?zs)"
    "opts_capacity opts' = opts_capacity opts" "opts_allocated opts' = opts_allocated opts" by blast
  moreover have "?ys @ dropWhile (\<lambda>x. fst x = n) ?zs = filter (\<lambda>x. fst x \<noteq> n) xs"
    using assms(1) by (intro filter_number_split[of 0]) (simp add: opts_rep_def)
  moreover have "optit_skip_below opts n optit_begin = Some (it_at ?ys)"
    using optit_skip_below_at[of opts "[]" xs n] assms(1) by (simp add: it_at_begin)
  ultimately show ?thesis by (simp add: options_remove_by_number_def)
qed

text \<open>C25: Removing every option of a number from a container that represents a list whose numbers and lengths
  are all below 65535 leaves a container that represents the list without that number, in the same buffer. All the
  assertions on the way hold (in particular the re-encoded header of the option that follows an
  erased one never reaches into that option's content), every access is in bounds, and the loop
  ends. With a number or a length of 65535 the assertions can fail (\<open>optit_erase_before_65535_asserts\<close>).\<close>

theorem options_remove_by_number_correct:
  assumes "opts_rep opts xs" and "movable xs"
  shows "\<exists>opts'. options_remove_by_number opts n = Some opts'
     \<and> opts_rep opts' (filter (\<lambda>x. fst x \<noteq> n) xs)
     \<and> opts_capacity opts' = opts_capacity opts \<and> opts_allocated opts' = opts_allocated opts"
  using assms by (rule remove_by_number_spec)

theorem options_remove_by_number_witness:
  "\<exists>opts'. options_remove_by_number
       \<lparr>opts_mem = [0xB1, 65, 0x01, 66, 0x15, 1, 2, 3, 4, 5, 0, 0], opts_size = 10,
        opts_capacity = 12, opts_allocated = False\<rparr> 11 = Some opts'
     \<and> opts_rep opts' [(12, [1, 2, 3, 4, 5])]"
proof -
  let ?opts = "\<lparr>opts_mem = [0xB1, 65, 0x01, 66, 0x15, 1, 2, 3, 4, 5, 0, 0], opts_size = 10,
        opts_capacity = 12, opts_allocated = False\<rparr>"
  let ?xs = "[(11, [65]), (11, [66]), (12, [1, 2, 3, 4, 5])] :: opt_list"
  have "opts_rep ?opts ?xs"
    by (simp add: opts_rep_def enc_opt_def enc_hdr_def nib_def enc_ext_def byte_of_def)
  moreover have "movable ?xs" by simp
  ultimately show ?thesis using options_remove_by_number_correct [of ?opts ?xs 11] by auto
qed

text \<open>The assertions of \<open>move_option_back\<close> are stricter than the format: erasing the first
  option of a container whose second option has the (legal) number 65535 fails an assertion,
  although the re-encoded option would fit.\<close>

theorem optit_erase_before_65535_asserts:
  assumes rep: "opts_rep opts ((n, v) # (UINT16_MAX, w) # zs)"
  shows "optit_erase opts (it_at []) = None"
proof -
  have rep1: "opts_rep opts ([] @ (n, v) # (UINT16_MAX, w) # zs)" using rep by simp
  have rep2: "opts_rep opts ([(n, v)] @ (UINT16_MAX, w) # zs)" using rep by simp
  have zero: "length (enc_opts 0 []) = 0" "last_number 0 [] = 0" by simp_all
  have "move_option_back opts (it_at []) (it_at [(n, v)]) = None"
    using optit_current_at [OF rep2] at_option [OF rep2] optit_number_at [OF rep2]
      optit_current_at [OF rep1] at_option [OF rep1]
    by (auto simp: move_option_back_def Let_def it_at_def c_assert_def bind_eq_None_conv)
  then show ?thesis
    using optit_current_at [OF rep1] at_option [OF rep1] optit_next_at [OF rep1]
      optit_end_at [OF rep2] optit_current_at [OF rep2] at_option [OF rep2] optit_next_at [OF rep2]
    by (auto simp: optit_erase_def bind_eq_None_conv)
qed

theorem optit_erase_before_65535_asserts_witness:
  "optit_erase \<lparr>opts_mem = [0x50, 0xE0, 0xFE, 0xED], opts_size = 4, opts_capacity = 4,
                opts_allocated = False\<rparr> (it_at []) = None"
  by (rule optit_erase_before_65535_asserts [where n = 5 and v = "[]" and w = "[]" and zs = "[]"])
    (simp add: opts_rep_def enc_opt_def enc_hdr_def nib_def enc_ext_def be16_def byte_of_def)

end
