(* ===== verification/Coap_Options.thy ===== *)
theory Coap_Options
  imports Coap_Optit
begin

text \<open>
  Building and searching a set of options: \<open>avs_coap_options_add_opaque\<close> with the helpers that
  re-encode and move the options around the insertion point, the wrappers built on it, and
  \<open>_avs_coap_options_find_first_opt\<close> (\<open>avs_coap_options.c\<close>). The main result relates
  the insertion to a sorted, stable insertion into the represented list, and says exactly when
  it fails.
\<close>

section \<open>Creating a container\<close>

definition options_create_empty :: "bytes \<Rightarrow> nat \<Rightarrow> coap_options" where
  "options_create_empty buffer capacity =
     \<lparr>opts_mem = buffer, opts_size = 0, opts_capacity = capacity, opts_allocated = False\<rparr>"

text \<open>
  Memory allocation is a parameter: \<open>None\<close> is a failed allocation, \<open>Some fill\<close> a successful
  one whose fresh bytes are \<open>fill 0\<close>, \<open>fill 1\<close> and so on.
\<close>

type_synonym alloc = "(nat \<Rightarrow> byte) option"

definition options_dynamic_init_with_size :: "alloc \<Rightarrow> nat \<Rightarrow> coap_options \<times> avs_error" where
  "options_dynamic_init_with_size malloc initial_capacity =
     (if initial_capacity = 0
      then (\<lparr>opts_mem = [], opts_size = 0, opts_capacity = 0, opts_allocated = True\<rparr>, AVS_OK)
      else case malloc of
        None \<Rightarrow> (\<lparr>opts_mem = [], opts_size = 0, opts_capacity = 0, opts_allocated = False\<rparr>, AVS_ENOMEM)
      | Some fill \<Rightarrow> (\<lparr>opts_mem = map fill [0..<initial_capacity], opts_size = 0,
                       opts_capacity = initial_capacity, opts_allocated = True\<rparr>, AVS_OK))"

section \<open>Inserting an option\<close>

definition bytes_gained_by_reducing_delta :: "bytes \<Rightarrow> nat \<Rightarrow> nat \<Rightarrow> nat option" where
  "bytes_gained_by_reducing_delta m opt new_delta = do {
     content_length \<leftarrow> option_content_length m opt;
     old_delta \<leftarrow> option_delta m opt;
     c_assert (new_delta \<le> old_delta);
     old_hdr \<leftarrow> get_opt_header_size old_delta content_length;
     new_hdr \<leftarrow> get_opt_header_size new_delta content_length;
     c_assert (old_hdr \<ge> new_hdr);
     Some (old_hdr - new_hdr) }"

definition new_option_fits :: "coap_options \<Rightarrow> optit \<Rightarrow> nat \<Rightarrow> nat \<Rightarrow> bool option" where
  "new_option_fits opts insert_it new_opt_number new_opt_sizeof = do {
     bytes_available \<leftarrow> size_minus (opts_capacity opts) (opts_size opts);
     e \<leftarrow> optit_end opts insert_it;
     bytes_available \<leftarrow>
       (if \<not> e then do {
          n \<leftarrow> optit_number opts insert_it;
          c_assert (u32_sub n new_opt_number \<le> UINT16_MAX);
          opt \<leftarrow> optit_current opts insert_it;
          gained \<leftarrow> bytes_gained_by_reducing_delta (opts_mem opts) opt (u32_sub n new_opt_number);
          Some (bytes_available + gained) }
        else Some bytes_available);
     Some (bytes_available \<ge> new_opt_sizeof) }"

definition update_option_delta_in_place :: "coap_options \<Rightarrow> optit \<Rightarrow> nat \<Rightarrow> coap_options option" where
  "update_option_delta_in_place opts it new_delta = do {
     opt \<leftarrow> optit_current opts it;
     old_delta \<leftarrow> option_delta (opts_mem opts) opt;
     c_assert (new_delta \<le> old_delta);
     opt_sizeof \<leftarrow> option_sizeof (opts_mem opts) opt;
     value \<leftarrow> option_value (opts_mem opts) opt;
     len \<leftarrow> option_content_length (opts_mem opts) opt;
     (m, written) \<leftarrow> option_serialize (opts_mem opts) opt opt_sizeof new_delta (Internal value) len;
     c_assert (opt + opt_sizeof \<ge> opt + written);
     c_assert (opt + opt_sizeof \<le> opts_size opts);
     m \<leftarrow> memmove m (opt + written) (opt + opt_sizeof) (opts_size opts - (opt + opt_sizeof));
     Some (opts\<lparr>opts_mem := m, opts_size := opts_size opts - (opt_sizeof - written)\<rparr>) }"

definition grow_if_required :: "alloc \<Rightarrow> coap_options \<Rightarrow> nat \<Rightarrow> coap_options \<times> avs_error" where
  "grow_if_required realloc opts new_data_size =
     (if \<not> opts_allocated opts then (opts, AVS_OK)
      else let desired_capacity = opts_size opts + 5 + new_data_size in
        if opts_capacity opts < desired_capacity
        then (case realloc of
            None \<Rightarrow> (opts, AVS_ENOMEM)
          | Some fill \<Rightarrow>
              (opts\<lparr>opts_mem := take desired_capacity (opts_mem opts)
                               @ map fill [length (opts_mem opts)..<desired_capacity],
                    opts_capacity := desired_capacity\<rparr>, AVS_OK))
        else (opts, AVS_OK))"

partial_function (option) optit_skip_upto :: "coap_options \<Rightarrow> nat \<Rightarrow> optit \<Rightarrow> optit option" where
  "optit_skip_upto opts n it = do {
     e \<leftarrow> optit_end opts it;
     if e then Some it
     else do {
       k \<leftarrow> optit_number opts it;
       if k \<le> n then do { it' \<leftarrow> optit_next opts it; optit_skip_upto opts n it' }
       else Some it } }"

text \<open>
  \<open>avs_coap_options_add_opaque\<close> makes room first (\<open>grow_if_required\<close>); \<open>options_insert\<close> is
  the rest of it. The content is a separate object of at least \<open>opt_data_size\<close> bytes.
\<close>

definition options_insert ::
  "coap_options \<Rightarrow> nat \<Rightarrow> bytes \<Rightarrow> nat \<Rightarrow> (coap_options \<times> avs_error) option" where
  "options_insert opts opt_number opt_data opt_data_size = do {
     insert_it \<leftarrow> optit_skip_upto opts opt_number optit_begin;
     c_assert (opt_number \<ge> prev_opt_number insert_it);
     c_assert (u32_sub opt_number (prev_opt_number insert_it) \<le> UINT16_MAX);
     hdr \<leftarrow> get_opt_header_size (u32_sub opt_number (prev_opt_number insert_it)) opt_data_size;
     fits \<leftarrow> new_option_fits opts insert_it opt_number (hdr + opt_data_size);
     if \<not> fits then Some (opts, AVS_COAP_ERR_MESSAGE_TOO_BIG)
     else do {
       opts \<leftarrow> do {
         e \<leftarrow> optit_end opts insert_it;
         if \<not> e then do {
           next_number \<leftarrow> optit_number opts insert_it;
           c_assert (u32_sub next_number opt_number \<le> UINT16_MAX);
           update_option_delta_in_place opts insert_it (u32_sub next_number opt_number) }
         else Some opts };
       tail \<leftarrow> size_minus (opts_size opts) (curr_opt insert_it);
       m \<leftarrow> memmove (opts_mem opts) (curr_opt insert_it + (hdr + opt_data_size))
              (curr_opt insert_it) tail;
       c_assert (opts_size opts + (hdr + opt_data_size) \<le> opts_capacity opts);
       (m, written) \<leftarrow> option_serialize m (curr_opt insert_it) (hdr + opt_data_size)
           (u32_sub opt_number (prev_opt_number insert_it)) (External opt_data) opt_data_size;
       c_assert (written = hdr + opt_data_size);
       Some (opts\<lparr>opts_mem := m, opts_size := opts_size opts + (hdr + opt_data_size)\<rparr>, AVS_OK) } }"

definition options_add_opaque ::
  "alloc \<Rightarrow> coap_options \<Rightarrow> nat \<Rightarrow> bytes \<Rightarrow> nat \<Rightarrow> (coap_options \<times> avs_error) option" where
  "options_add_opaque realloc opts opt_number opt_data opt_data_size =
     (case grow_if_required realloc opts opt_data_size of (opts, err) \<Rightarrow>
        if err \<noteq> AVS_OK then Some (opts, err)
        else options_insert opts opt_number opt_data opt_data_size)"

text \<open>\<open>strlen\<close> of a zero-terminated string is the length of the byte list that models it.\<close>

definition options_add_string ::
  "alloc \<Rightarrow> coap_options \<Rightarrow> nat \<Rightarrow> bytes \<Rightarrow> (coap_options \<times> avs_error) option" where
  "options_add_string realloc opts opt_number opt_data =
     (if length opt_data > UINT16_MAX then Some (opts, AVS_ERANGE)
      else options_add_opaque realloc opts opt_number opt_data (length opt_data))"

definition options_add_empty ::
  "alloc \<Rightarrow> coap_options \<Rightarrow> nat \<Rightarrow> (coap_options \<times> avs_error) option" where
  "options_add_empty realloc opts opt_number = options_add_opaque realloc opts opt_number [] 0"

section \<open>Finding an option\<close>

partial_function (option) find_first_from :: "coap_options \<Rightarrow> nat \<Rightarrow> optit \<Rightarrow> nat option option" where
  "find_first_from opts n it = do {
     e \<leftarrow> optit_end opts it;
     if e then Some None
     else do {
       k \<leftarrow> optit_number opts it;
       if k = n then do { opt \<leftarrow> optit_current opts it; Some (Some opt) }
       else if k > n then Some None
       else do { it' \<leftarrow> optit_next opts it; find_first_from opts n it' } } }"

definition options_find_first_opt :: "coap_options \<Rightarrow> nat \<Rightarrow> nat option option" where
  "options_find_first_opt opts n = find_first_from opts n optit_begin"

definition option_exists :: "coap_options \<Rightarrow> nat \<Rightarrow> bool option" where
  "option_exists opts n = do { r \<leftarrow> options_find_first_opt opts n; Some (r \<noteq> None) }"

section \<open>Insertion into the represented list\<close>

text \<open>
  The new option goes behind every option with the same or a smaller number.
\<close>

definition ins_opt :: "nat \<Rightarrow> bytes \<Rightarrow> opt_list \<Rightarrow> opt_list" where
  "ins_opt n v xs = takeWhile (\<lambda>x. fst x \<le> n) xs @ (n, v) # dropWhile (\<lambda>x. fst x \<le> n) xs"

text \<open>Reading a number in the list after an insertion.\<close>

lemma map_of_ins_other: "m \<noteq> n \<Longrightarrow> map_of (ins_opt n v xs) m = map_of xs m"
proof -
  assume "m \<noteq> n"
  then have "map_of (ins_opt n v xs) m
      = map_of (takeWhile (\<lambda>x. fst x \<le> n) xs @ dropWhile (\<lambda>x. fst x \<le> n) xs) m"
    unfolding ins_opt_def map_of_append by (simp add: map_add_def split: option.split)
  then show ?thesis by simp
qed

lemma map_of_ins_new: "map_of xs n = None \<Longrightarrow> map_of (ins_opt n v xs) n = Some v"
proof -
  assume "map_of xs n = None"
  then have "map_of (takeWhile (\<lambda>x. fst x \<le> n) xs) n = None"
    by (auto simp: map_of_eq_None_iff dest: set_takeWhileD)
  then show ?thesis by (simp add: ins_opt_def map_add_def)
qed

lemma optit_skip_upto_at:
  "opts_rep opts (ys @ zs) \<Longrightarrow>
   optit_skip_upto opts n (it_at ys) = Some (it_at (ys @ takeWhile (\<lambda>x. fst x \<le> n) zs))"
proof (induction zs arbitrary: ys)
  case Nil
  then show ?case by (subst optit_skip_upto.simps) (simp add: mem_simps)
next
  case (Cons z zs)
  obtain k v where z: "z = (k, v)" by force
  have "opts_rep opts ((ys @ [z]) @ zs)" using Cons.prems by simp
  from Cons.IH[OF this] Cons.prems show ?case
    by (subst optit_skip_upto.simps) (simp add: mem_simps z)
qed

lemma length_enc_hdr_mono: "d' \<le> d \<Longrightarrow> length (enc_hdr d' l) \<le> length (enc_hdr d l)"
  by (simp add: enc_hdr_def length_enc_ext)

lemma bytes_gained_at:
  assumes "opts_rep opts (ys @ (k, w) # zs)" "d' \<le> k - last_number 0 ys"
  shows "bytes_gained_by_reducing_delta (opts_mem opts) (length (enc_opts 0 ys)) d'
    = Some (length (enc_opt (k - last_number 0 ys) w) - length (enc_opt d' w))"
proof -
  have "d' \<le> UINT16_MAX" "k - last_number 0 ys \<le> UINT16_MAX" "length w \<le> UINT16_MAX"
    using opts_rep_bounds[OF assms(1)] assms(2) by auto
  then show ?thesis using assms
    by (simp add: bytes_gained_by_reducing_delta_def at_option get_opt_header_size_enc length_enc_hdr_mono enc_opt_def)
qed

lemma update_option_delta_in_place_at:
  assumes rep: "opts_rep opts (ys @ (k, w) # zs)" and d': "d' \<le> k - last_number 0 ys"
  shows "\<exists>junk. update_option_delta_in_place opts (it_at ys) d' =
      Some (opts\<lparr>opts_mem := enc_opts 0 ys @ enc_opt d' w @ enc_opts k zs @ junk,
                 opts_size := length (enc_opts 0 ys) + length (enc_opt d' w) + length (enc_opts k zs)\<rparr>)
     \<and> length (enc_opts 0 ys @ enc_opt d' w @ enc_opts k zs @ junk) = length (opts_mem opts)"
proof -
  let ?P = "enc_opts 0 ys" and ?R = "enc_opts k zs"
  let ?old = "enc_opt (k - last_number 0 ys) w" and ?new = "enc_opt d' w"
  define gap where "gap = enc_hdr (k - last_number 0 ys) (length w)"
  from opts_rep_mem[OF rep] obtain post where m: "opts_mem opts = ?P @ ?old @ ?R @ post" by auto
  have m': "opts_mem opts = ?P @ gap @ w @ ?R @ post" using m by (simp add: gap_def enc_opt_def)
  have bnd: "d' \<le> UINT16_MAX" "length w \<le> UINT16_MAX" using opts_rep_bounds[OF rep] d' by auto
  have sz: "opts_size opts = length ?P + length ?old + length ?R" using rep by (simp add: opts_rep_def)
  have le: "length ?new \<le> length ?old" using length_enc_hdr_mono[OF d'] by (simp add: enc_opt_def)
  define junk where "junk = drop (length ?new) (gap @ w)"
  have junk: "length junk = length ?old - length ?new" by (simp add: junk_def gap_def enc_opt_def)
  have ser: "option_serialize (opts_mem opts) (length ?P) (length ?old) d' (Internal (length ?P + length gap)) (length w)
      = Some (?P @ ?new @ junk @ ?R @ post, length ?new)"
    unfolding m' junk_def
    by (rule option_serialize_internal) (use bnd length_enc_hdr_mono[OF d'] le in \<open>simp_all add: gap_def\<close>)
  have src: "length ?P + length ?old = length ?P + length ?new + length junk" using junk le by simp
  have mm: "memmove (?P @ ?new @ junk @ ?R @ post) (length ?P + length ?new) (length ?P + length ?old) (length ?R)
      = Some (?P @ ?new @ ?R @ drop (length ?R) (junk @ ?R) @ post)"
    unfolding src using memmove_down[OF refl refl refl refl, of "?P @ ?new" junk ?R post] by simp
  have m1: "length (?P @ ?new @ junk @ ?R @ post) = length (opts_mem opts)" using junk le m by simp
  have len: "length (?P @ ?new @ ?R @ drop (length ?R) (junk @ ?R) @ post) = length (opts_mem opts)"
    using memmove_length[OF mm] m1 by (rule trans)
  have sz': "opts_size opts - (length ?old - length ?new) = length ?P + length ?new + length ?R"
    using sz le by simp
  have "update_option_delta_in_place opts (it_at ys) d' =
      Some (opts\<lparr>opts_mem := ?P @ ?new @ ?R @ drop (length ?R) (junk @ ?R) @ post,
                 opts_size := length ?P + length ?new + length ?R\<rparr>)"
    using rep d' le ser mm sz sz' unfolding gap_def
    by (simp add: update_option_delta_in_place_def optit_current_at at_option)
  with len show ?thesis by blast
qed

lemma last_number_takeWhile: "p \<le> n \<Longrightarrow> last_number p (takeWhile (\<lambda>x. fst x \<le> n) xs) \<le> n"
  by (induction p xs rule: enc_opts.induct) auto

lemma dropWhile_first: "dropWhile (\<lambda>x. fst x \<le> n) xs = (k, w) # zs \<Longrightarrow> (n :: nat) < k"
  by (auto simp: dropWhile_eq_Cons_conv)

text \<open>Whether the new option fits, and the container prepared for it.\<close>

lemma insertion_point:
  assumes rep: "opts_rep opts (ys @ zs)" and n: "last_number 0 ys \<le> n"
    and gt: "\<forall>k w zs'. zs = (k, w) # zs' \<longrightarrow> n < k"
  shows "new_option_fits opts (it_at ys) n s =
       Some (length (enc_opts 0 ys) + s + length (enc_opts n zs) \<le> opts_capacity opts)"
    and "\<exists>junk. do { e \<leftarrow> optit_end opts (it_at ys);
           if \<not> e then do {
             next_number \<leftarrow> optit_number opts (it_at ys);
             c_assert (u32_sub next_number n \<le> UINT16_MAX);
             update_option_delta_in_place opts (it_at ys) (u32_sub next_number n) }
           else Some opts }
         = Some (opts\<lparr>opts_mem := enc_opts 0 ys @ enc_opts n zs @ junk,
                      opts_size := length (enc_opts 0 ys) + length (enc_opts n zs)\<rparr>)
         \<and> length (enc_opts 0 ys @ enc_opts n zs @ junk) = length (opts_mem opts)"
proof -
  have cap: "opts_size opts \<le> opts_capacity opts" and sz: "opts_size opts = length (enc_opts 0 (ys @ zs))"
    using rep by (simp_all add: opts_rep_def)
  show "new_option_fits opts (it_at ys) n s =
       Some (length (enc_opts 0 ys) + s + length (enc_opts n zs) \<le> opts_capacity opts)"
  proof (cases zs)
    case Nil
    with rep cap sz show ?thesis by (auto simp: new_option_fits_def mem_simps)
  next
    case (Cons z zs')
    obtain k w where z: "z = (k, w)" by force
    note rep' = rep[unfolded Cons z]
    from gt Cons z have nk: "n < k" by blast
    have bnd: "k \<le> UINT16_MAX" using opts_rep_bounds[OF rep'] by simp
    have le: "length (enc_opt (k - n) w) \<le> length (enc_opt (k - last_number 0 ys) w)"
      using length_enc_hdr_mono[of "k - n" "k - last_number 0 ys"] n by (simp add: enc_opt_def)
    have "bytes_gained_by_reducing_delta (opts_mem opts) (length (enc_opts 0 ys)) (k - n)
      = Some (length (enc_opt (k - last_number 0 ys) w) - length (enc_opt (k - n) w))"
      using bytes_gained_at[OF rep', of "k - n"] n by simp
    with rep rep' nk bnd cap sz le show ?thesis
      by (auto simp: new_option_fits_def mem_simps Cons z)
  qed
  show "\<exists>junk. do { e \<leftarrow> optit_end opts (it_at ys);
           if \<not> e then do {
             next_number \<leftarrow> optit_number opts (it_at ys);
             c_assert (u32_sub next_number n \<le> UINT16_MAX);
             update_option_delta_in_place opts (it_at ys) (u32_sub next_number n) }
           else Some opts }
         = Some (opts\<lparr>opts_mem := enc_opts 0 ys @ enc_opts n zs @ junk,
                      opts_size := length (enc_opts 0 ys) + length (enc_opts n zs)\<rparr>)
         \<and> length (enc_opts 0 ys @ enc_opts n zs @ junk) = length (opts_mem opts)"
  proof (cases zs)
    case Nil
    from opts_rep_mem[OF rep] obtain post where "opts_mem opts = enc_opts 0 ys @ post" by (auto simp: Nil)
    with rep sz show ?thesis by (intro exI[of _ post]) (simp add: Nil mem_simps)
  next
    case (Cons z zs')
    obtain k w where z: "z = (k, w)" by force
    note rep' = rep[unfolded Cons z]
    from gt Cons z have nk: "n < k" by blast
    have bnd: "k \<le> UINT16_MAX" using opts_rep_bounds[OF rep'] by simp
    have kn: "k - n \<le> k - last_number 0 ys" using n by simp
    from update_option_delta_in_place_at[OF rep' kn] obtain junk where
      "update_option_delta_in_place opts (it_at ys) (k - n) =
        Some (opts\<lparr>opts_mem := enc_opts 0 ys @ enc_opt (k - n) w @ enc_opts k zs' @ junk,
                 opts_size := length (enc_opts 0 ys) + length (enc_opt (k - n) w) + length (enc_opts k zs')\<rparr>)"
      "length (enc_opts 0 ys @ enc_opt (k - n) w @ enc_opts k zs' @ junk) = length (opts_mem opts)" by blast
    with rep rep' nk bnd show ?thesis by (intro exI[of _ junk]) (simp add: Cons z mem_simps add.assoc)
  qed
qed

lemma ins_opt_wf:
  assumes "wf_opts 0 xs" "n \<le> UINT16_MAX" "length v \<le> UINT16_MAX"
  shows "wf_opts 0 (ins_opt n v xs)"
proof -
  let ?ys = "takeWhile (\<lambda>x. fst x \<le> n) xs" and ?zs = "dropWhile (\<lambda>x. fst x \<le> n) xs"
  have "wf_opts 0 (?ys @ ?zs)" using assms(1) by simp
  then have wf: "wf_opts 0 ?ys" "wf_opts (last_number 0 ?ys) ?zs" by (simp_all only: wf_opts_append)
  have "wf_opts n ?zs"
  proof (cases ?zs)
    case (Cons z zs)
    obtain k w where "z = (k, w)" by force
    with Cons wf(2) dropWhile_first[of n xs k w zs] show ?thesis by auto
  qed (simp only: wf_opts.simps)
  with wf assms(2,3) last_number_takeWhile[of 0 n xs] show ?thesis by (simp add: ins_opt_def)
qed

lemma options_insert_correct:
  assumes rep: "opts_rep opts xs" and n: "n \<le> UINT16_MAX" and v: "length v \<le> UINT16_MAX"
  shows "if length (enc_opts 0 (ins_opt n v xs)) \<le> opts_capacity opts
     then \<exists>opts'. options_insert opts n (v @ w) (length v) = Some (opts', AVS_OK)
            \<and> opts_rep opts' (ins_opt n v xs)
            \<and> opts_capacity opts' = opts_capacity opts \<and> opts_allocated opts' = opts_allocated opts
     else options_insert opts n (v @ w) (length v) = Some (opts, AVS_COAP_ERR_MESSAGE_TOO_BIG)"
proof -
  let ?ys = "takeWhile (\<lambda>x. fst x \<le> n) xs" and ?zs = "dropWhile (\<lambda>x. fst x \<le> n) xs"
  let ?p = "last_number 0 ?ys" and ?P = "enc_opts 0 ?ys" and ?B = "enc_opts n ?zs"
  let ?new = "enc_opt (n - ?p) v"
  have rep': "opts_rep opts (?ys @ ?zs)" using rep by simp
  have pn: "?p \<le> n" by (rule last_number_takeWhile) simp
  have it: "optit_skip_upto opts n optit_begin = Some (it_at ?ys)"
    using optit_skip_upto_at[of opts "[]" xs n] rep by (simp add: it_at_begin)
  have itf: "curr_opt (it_at ?ys) = length ?P" "prev_opt_number (it_at ?ys) = ?p" by (simp_all add: it_at_def)
  have delta: "u32_sub n ?p = n - ?p" using pn n by simp
  have hdr: "get_opt_header_size (n - ?p) (length v) = Some (length (enc_hdr (n - ?p) (length v)))"
    using n v by (simp add: get_opt_header_size_enc)
  have hv: "length (enc_hdr (n - ?p) (length v)) + length v = length ?new" by (simp add: enc_opt_def)
  have enc: "enc_opts 0 (ins_opt n v xs) = ?P @ ?new @ ?B" by (simp add: ins_opt_def)
  have gt: "\<forall>k u zs'. ?zs = (k, u) # zs' \<longrightarrow> n < k" by (intro allI impI, erule dropWhile_first)
  note fits = insertion_point(1)[OF rep' pn gt, where s = "length ?new"]
  show ?thesis
  proof (cases "length ?P + length ?new + length ?B \<le> opts_capacity opts")
    case False
    then have "options_insert opts n (v @ w) (length v) = Some (opts, AVS_COAP_ERR_MESSAGE_TOO_BIG)"
      using pn n by (simp add: options_insert_def it itf hdr hv fits)
    with False show ?thesis by (simp add: enc)
  next
    case True
    from insertion_point(2)[OF rep' pn gt] obtain junk where
      prep: "do { e \<leftarrow> optit_end opts (it_at ?ys);
           if \<not> e then do {
             next_number \<leftarrow> optit_number opts (it_at ?ys);
             c_assert (u32_sub next_number n \<le> UINT16_MAX);
             update_option_delta_in_place opts (it_at ?ys) (u32_sub next_number n) }
           else Some opts }
         = Some (opts\<lparr>opts_mem := ?P @ ?B @ junk, opts_size := length ?P + length ?B\<rparr>)"
      and len: "length (?P @ ?B @ junk) = length (opts_mem opts)" by (elim exE conjE)
    have cap: "opts_capacity opts \<le> length (opts_mem opts)" using rep by (simp add: opts_rep_def)
    have gj: "length ?new \<le> length junk" using len cap True by simp
    obtain gap where gap: "length gap = length ?new"
      and mv: "memmove (?P @ ?B @ junk) (length ?P + length ?new) (length ?P) (length ?B)
               = Some (?P @ gap @ ?B @ drop (length ?new) junk)"
      using memmove_up[OF refl refl gj, of ?P ?B] by blast
    have ser: "option_serialize (?P @ gap @ ?B @ drop (length ?new) junk) (length ?P) (length ?new)
         (n - ?p) (External (v @ w)) (length v)
       = Some (?P @ ?new @ ?B @ drop (length ?new) junk, length ?new)"
      by (rule option_serialize_external) (use gap n v in simp_all)
    let ?o = "opts\<lparr>opts_mem := ?P @ ?new @ ?B @ drop (length ?new) junk,
                   opts_size := length ?P + length ?new + length ?B\<rparr>"
    have "options_insert opts n (v @ w) (length v) = Some (?o, AVS_OK)"
      using pn n True mv ser prep
      by (simp add: options_insert_def it itf hdr hv fits prep)
    moreover have "opts_rep ?o (ins_opt n v xs)"
      by (rule opts_repI[where post = "drop (length ?new) junk"])
        (use rep n v True cap len gj in \<open>simp_all add: enc ins_opt_wf opts_rep_def\<close>)
    ultimately show ?thesis using True by (simp add: enc)
  qed
qed

subsection \<open>Room for the option\<close>

lemma grow_if_required_static: "\<not> opts_allocated opts \<Longrightarrow> grow_if_required al opts k = (opts, AVS_OK)"
  by (simp add: grow_if_required_def)

lemma grow_if_required_dynamic:
  assumes "opts_rep opts xs" "opts_allocated opts"
  shows "\<exists>opts'. grow_if_required (Some fill) opts k = (opts', AVS_OK) \<and> opts_rep opts' xs
     \<and> opts_allocated opts' \<and> opts_size opts + 5 + k \<le> opts_capacity opts'"
proof (cases "opts_capacity opts < opts_size opts + 5 + k")
  case False
  with assms show ?thesis by (simp add: grow_if_required_def)
next
  case True
  with assms show ?thesis
    by (auto simp: grow_if_required_def opts_rep_def Let_def min_def)
qed

lemma grow_if_required_fail:
  "\<exists>e. grow_if_required None opts k = (opts, e) \<and> (e = AVS_OK \<or> e = AVS_ENOMEM)"
  by (simp add: grow_if_required_def Let_def)

lemma length_enc_hdr_le: "length (enc_hdr d l) \<le> 5"
  using length_enc_ext_le [of d] length_enc_ext_le [of l] by (simp add: length_enc_hdr)

lemma length_enc_opts_ins:
  assumes "wf_opts 0 xs"
  shows "length (enc_opts 0 (ins_opt n v xs)) \<le> length (enc_opts 0 xs) + 5 + length v"
proof -
  let ?ys = "takeWhile (\<lambda>x. fst x \<le> n) xs" and ?zs = "dropWhile (\<lambda>x. fst x \<le> n) xs"
  let ?p = "last_number 0 ?ys"
  have pn: "?p \<le> n" by (rule last_number_takeWhile) simp
  have xs: "enc_opts 0 xs = enc_opts 0 ?ys @ enc_opts ?p ?zs"
    by (metis enc_opts_append takeWhile_dropWhile_id)
  have "length (enc_opts n ?zs) \<le> length (enc_opts ?p ?zs)"
  proof (cases ?zs)
    case (Cons z zs)
    obtain k w where "z = (k, w)" by force
    with Cons pn length_enc_hdr_mono [of "k - n" "k - ?p"] show ?thesis by (simp add: enc_opt_def)
  qed (simp only: enc_opts.simps)
  with xs length_enc_hdr_le [of "n - ?p" "length v"] show ?thesis by (simp add: ins_opt_def enc_opt_def)
qed

lemma find_first_from_at:
  "opts_rep opts (ys @ zs) \<Longrightarrow> \<forall>x \<in> set ys. fst x \<noteq> n \<Longrightarrow>
   find_first_from opts n (it_at ys) = Some (if n \<in> fst ` set zs
      then Some (length (enc_opts 0 (ys @ takeWhile (\<lambda>x. fst x \<noteq> n) zs))) else None)"
proof (induction zs arbitrary: ys)
  case Nil
  then show ?case by (subst find_first_from.simps) (simp add: mem_simps)
next
  case (Cons z zs)
  obtain k v where z: "z = (k, v)" by force
  note rep = Cons.prems(1)[unfolded z]
  consider "k = n" | "n < k" | "k < n" by linarith
  then show ?case
  proof cases
    case 1
    then show ?thesis using rep by (subst find_first_from.simps) (simp add: mem_simps z)
  next
    case 2
    have "wf_opts k zs" using rep by (simp add: opts_rep_def)
    then have "n \<notin> fst ` set zs" using wf_opts_ge[of k zs] 2 by fastforce
    then show ?thesis using 2 rep by (subst find_first_from.simps) (simp add: mem_simps z)
  next
    case 3
    have "opts_rep opts ((ys @ [z]) @ zs)" using Cons.prems by simp
    from Cons.IH[OF this] Cons.prems 3 show ?thesis
      by (subst find_first_from.simps) (simp add: mem_simps z)
  qed
qed

section \<open>Searching\<close>

lemma options_find_first_opt_none:
  "opts_rep opts xs \<Longrightarrow> map_of xs n = None \<Longrightarrow> options_find_first_opt opts n = Some None"
  using find_first_from_at[of opts "[]" xs n]
  by (simp add: options_find_first_opt_def it_at_begin map_of_eq_None_iff)

lemma map_of_first:
  "map_of xs n = Some v \<Longrightarrow> \<exists>zs. xs = takeWhile (\<lambda>x. fst x \<noteq> n) xs @ (n, v) # zs"
  by (induction xs) (auto split: if_splits)

lemma options_find_first_opt_some:
  assumes rep: "opts_rep opts xs" and v: "map_of xs n = Some v"
  obtains ys zs where "xs = ys @ (n, v) # zs" and "n \<notin> fst ` set ys"
    and "options_find_first_opt opts n = Some (Some (length (enc_opts 0 ys)))"
proof -
  let ?ys = "takeWhile (\<lambda>x. fst x \<noteq> n) xs"
  from map_of_first[OF v] obtain zs where xs: "xs = ?ys @ (n, v) # zs" by blast
  have "n \<in> fst ` set xs" using v by (metis map_of_eq_None_iff option.distinct(1))
  then have "options_find_first_opt opts n = Some (Some (length (enc_opts 0 ?ys)))"
    using find_first_from_at[of opts "[]" xs n] rep by (simp add: options_find_first_opt_def it_at_begin)
  moreover have "n \<notin> fst ` set ?ys" by (auto dest: set_takeWhileD)
  ultimately show thesis using xs that by blast
qed

lemma find_first_opt_spec:
  assumes rep: "opts_rep opts xs"
  shows "\<exists>r. options_find_first_opt opts n = Some r \<and>
     (case map_of xs n of None \<Rightarrow> r = None
      | Some v \<Rightarrow> \<exists>opt val. r = Some opt \<and> option_content_length (opts_mem opts) opt = Some (length v)
           \<and> option_value (opts_mem opts) opt = Some val
           \<and> rd_bytes (opts_mem opts) val (length v) = Some v)"
proof (cases "map_of xs n")
  case None
  with rep show ?thesis by (simp add: options_find_first_opt_none)
next
  case (Some v)
  from options_find_first_opt_some[OF rep Some] obtain ys zs where
    xs: "xs = ys @ (n, v) # zs" and f: "options_find_first_opt opts n = Some (Some (length (enc_opts 0 ys)))" .
  note rep' = rep[unfolded xs]
  obtain post where m: "opts_mem opts = enc_opts 0 ys @ enc_opt (n - last_number 0 ys) v @ post"
    using opts_rep_split[OF rep'] by metis
  have "rd_bytes (opts_mem opts) (length (enc_opts 0 ys) + length (enc_hdr (n - last_number 0 ys) (length v))) (length v) = Some v"
    using rd_bytes_append[of "enc_opts 0 ys @ enc_hdr (n - last_number 0 ys) (length v)" _ v _ post]
    by (simp add: m enc_opt_def)
  with f Some at_option[OF rep'] show ?thesis by simp
qed

lemma option_exists_correct:
  assumes "opts_rep opts xs"
  shows "option_exists opts n = Some (map_of xs n \<noteq> None)"
  using find_first_opt_spec[OF assms, of n]
  by (auto simp: option_exists_def split: option.splits)

text \<open>C23: Adding an option to a container in a fixed buffer succeeds exactly when the encoding of
  the sorted, stable insertion fits the capacity, and then the container represents that
  insertion; otherwise the call reports MESSAGE_TOO_BIG and leaves the container as it was. The
  size test in front, which accounts for the shorter header of the option after the new one, is
  therefore exact, and no assertion fails on either path.\<close>

theorem options_add_opaque_static_correct:
  assumes rep: "opts_rep opts xs" and static: "\<not> opts_allocated opts"
    and n: "n \<le> UINT16_MAX" and v: "length v \<le> UINT16_MAX"
  shows "if length (enc_opts 0 (ins_opt n v xs)) \<le> opts_capacity opts
     then \<exists>opts'. options_add_opaque al opts n v (length v) = Some (opts', AVS_OK)
            \<and> opts_rep opts' (ins_opt n v xs)
            \<and> opts_capacity opts' = opts_capacity opts \<and> \<not> opts_allocated opts'
     else options_add_opaque al opts n v (length v) = Some (opts, AVS_COAP_ERR_MESSAGE_TOO_BIG)"
  using options_insert_correct[OF rep n v, of "[]"] static
  by (auto simp: options_add_opaque_def grow_if_required_static split: if_splits)

theorem options_add_opaque_static_witness:
  "\<exists>opts'. options_add_opaque None
       \<lparr>opts_mem = [0xB1, 65, 0x11, 66, 0, 0, 0], opts_size = 4, opts_capacity = 7,
        opts_allocated = False\<rparr> 11 [7] 1 = Some (opts', AVS_OK)
     \<and> opts_rep opts' [(11, [65]), (11, [7]), (12, [66])]"
proof -
  let ?opts = "\<lparr>opts_mem = [0xB1, 65, 0x11, 66, 0, 0, 0], opts_size = 4, opts_capacity = 7,
        opts_allocated = False\<rparr>"
  let ?xs = "[(11, [65]), (12, [66])] :: opt_list"
  have rep: "opts_rep ?opts ?xs"
    by (simp add: opts_rep_def enc_opt_def enc_hdr_def nib_def enc_ext_def byte_of_def)
  have ins: "ins_opt 11 [7] ?xs = [(11, [65]), (11, [7]), (12, [66])]" by (simp add: ins_opt_def)
  then have "length (enc_opts 0 (ins_opt 11 [7] ?xs)) \<le> opts_capacity ?opts"
    by (simp add: enc_opt_def enc_hdr_def enc_ext_def)
  then show ?thesis using options_add_opaque_static_correct [OF rep, of 11 "[7]" None] ins by auto
qed

text \<open>Adding an option to a dynamically allocated container succeeds whenever the allocator
  does: the capacity that \<open>grow_if_required\<close> asks for is always enough for the insertion.\<close>

theorem options_add_opaque_dynamic_correct:
  assumes rep: "opts_rep opts xs" and dyn: "opts_allocated opts"
    and n: "n \<le> UINT16_MAX" and v: "length v \<le> UINT16_MAX"
  shows "\<exists>opts'. options_add_opaque (Some fill) opts n v (length v) = Some (opts', AVS_OK)
            \<and> opts_rep opts' (ins_opt n v xs) \<and> opts_allocated opts'"
proof -
  from grow_if_required_dynamic[OF rep dyn, of fill "length v"] obtain o1 where
    g: "grow_if_required (Some fill) opts (length v) = (o1, AVS_OK)" "opts_rep o1 xs" "opts_allocated o1"
      "opts_size opts + 5 + length v \<le> opts_capacity o1" by blast
  have "length (enc_opts 0 (ins_opt n v xs)) \<le> opts_capacity o1"
    using length_enc_opts_ins[of xs n v] rep g(4) by (simp add: opts_rep_def)
  with options_insert_correct[OF g(2) n v, of "[]"] g show ?thesis
    by (auto simp: options_add_opaque_def)
qed

theorem options_add_opaque_dynamic_witness:
  "\<exists>opts'. options_add_opaque (Some (\<lambda>_. 0xCD))
       \<lparr>opts_mem = [], opts_size = 0, opts_capacity = 0, opts_allocated = True\<rparr> 300 [1, 2] 2
       = Some (opts', AVS_OK) \<and> opts_rep opts' [(300, [1, 2])] \<and> opts_allocated opts'"
  using options_add_opaque_dynamic_correct
    [of "\<lparr>opts_mem = [], opts_size = 0, opts_capacity = 0, opts_allocated = True\<rparr>" "[]" 300 "[1, 2]" "\<lambda>_. 0xCD"]
  by (simp add: opts_rep_def ins_opt_def numeral_2_eq_2)

text \<open>Searching a container finds the first option of the number in the represented list and
  reports absence otherwise; the length and the content that the accessors read at the returned
  position are those of that option.\<close>

theorem options_find_first_opt_correct:
  assumes rep: "opts_rep opts xs"
  shows "\<exists>r. options_find_first_opt opts n = Some r \<and>
     (case map_of xs n of None \<Rightarrow> r = None
      | Some v \<Rightarrow> \<exists>opt val. r = Some opt \<and> option_content_length (opts_mem opts) opt = Some (length v)
           \<and> option_value (opts_mem opts) opt = Some val
           \<and> rd_bytes (opts_mem opts) val (length v) = Some v)"
  by (rule find_first_opt_spec [OF rep])

theorem options_find_first_opt_witness:
  "\<exists>opt val. options_find_first_opt
      \<lparr>opts_mem = [0xB1, 65, 0x12, 66, 67], opts_size = 5, opts_capacity = 5,
       opts_allocated = False\<rparr> 12 = Some (Some opt)
     \<and> option_content_length [0xB1, 65, 0x12, 66, 67] opt = Some 2
     \<and> option_value [0xB1, 65, 0x12, 66, 67] opt = Some val
     \<and> rd_bytes [0xB1, 65, 0x12, 66, 67] val 2 = Some [66, 67]"
proof -
  let ?opts = "\<lparr>opts_mem = [0xB1, 65, 0x12, 66, 67], opts_size = 5, opts_capacity = 5,
       opts_allocated = False\<rparr>"
  have "opts_rep ?opts [(11, [65]), (12, [66, 67])]"
    by (simp add: opts_rep_def enc_opt_def enc_hdr_def nib_def enc_ext_def byte_of_def)
  from options_find_first_opt_correct [OF this, of 12] show ?thesis
    by (auto simp: numeral_2_eq_2)
qed

section \<open>The interface of an option store\<close>

text \<open>
  What the code that builds and reads messages relies on: a set of options represents a list,
  adding inserts into it or fails, and reading returns the first content of a number.
\<close>

locale option_store =
  fixes rep :: "'s \<Rightarrow> opt_list \<Rightarrow> bool"
    and add :: "'s \<Rightarrow> nat \<Rightarrow> bytes \<Rightarrow> ('s \<times> avs_error) option"
    and content :: "'s \<Rightarrow> nat \<Rightarrow> bytes option option"
  assumes add_ok: "rep s xs \<Longrightarrow> n \<le> UINT16_MAX \<Longrightarrow> length v \<le> UINT16_MAX \<Longrightarrow>
      \<exists>s' e. add s n v = Some (s', e) \<and> rep s' (if e = AVS_OK then ins_opt n v xs else xs)"
    and content_ok: "rep s xs \<Longrightarrow> content s n = Some (map_of xs n)"
begin

lemma add_then_content:
  assumes "rep s xs" "n \<le> UINT16_MAX" "length v \<le> UINT16_MAX" "add s n v = Some (s', AVS_OK)"
    and "content s n = Some None"
  shows "content s' n = Some (Some v)"
proof -
  from add_ok [OF assms(1-3)] assms(4) have "rep s' (ins_opt n v xs)" by auto
  moreover have "map_of xs n = None" using content_ok [OF assms(1)] assms(5) by simp
  ultimately show ?thesis by (simp add: content_ok map_of_ins_new)
qed

lemma add_content_other:
  assumes "rep s xs" "n \<le> UINT16_MAX" "length v \<le> UINT16_MAX" "add s n v = Some (s', e)" and "m \<noteq> n"
  shows "content s' m = content s m"
proof -
  from add_ok [OF assms(1-3)] assms(4) have "rep s' (if e = AVS_OK then ins_opt n v xs else xs)" by auto
  with assms(1,5) show ?thesis by (cases "e = AVS_OK") (simp_all add: content_ok map_of_ins_other)
qed

end

definition option_content :: "coap_options \<Rightarrow> nat \<Rightarrow> bytes option option" where
  "option_content opts n = do {
     r \<leftarrow> options_find_first_opt opts n;
     (case r of None \<Rightarrow> Some None
      | Some opt \<Rightarrow> do {
          len \<leftarrow> option_content_length (opts_mem opts) opt;
          val \<leftarrow> option_value (opts_mem opts) opt;
          v \<leftarrow> rd_bytes (opts_mem opts) val len;
          Some (Some v) }) }"

lemma option_content_correct: "opts_rep opts xs \<Longrightarrow> option_content opts n = Some (map_of xs n)"
  using find_first_opt_spec [of opts xs n]
  by (auto simp: option_content_def split: option.splits)

lemma grow_if_required_rep:
  assumes "opts_rep opts xs"
  shows "\<exists>opts' e. grow_if_required al opts k = (opts', e) \<and> opts_rep opts' xs
           \<and> (e = AVS_OK \<or> e = AVS_ENOMEM)"
proof (cases "opts_allocated opts")
  case False
  with assms show ?thesis by (simp add: grow_if_required_static)
next
  case True
  show ?thesis
  proof (cases al)
    case None
    with grow_if_required_fail [of opts k] assms show ?thesis by auto
  next
    case (Some fill)
    with grow_if_required_dynamic [OF assms True, of fill k] show ?thesis by auto
  qed
qed

lemma options_add_opaque_total:
  assumes rep: "opts_rep opts xs" and n: "n \<le> UINT16_MAX" and v: "length v \<le> UINT16_MAX"
  shows "\<exists>opts' e. options_add_opaque al opts n v (length v) = Some (opts', e)
           \<and> opts_rep opts' (if e = AVS_OK then ins_opt n v xs else xs)"
proof -
  from grow_if_required_rep [OF rep] obtain o1 e1 where
    g: "grow_if_required al opts (length v) = (o1, e1)" "opts_rep o1 xs" by blast
  from options_insert_correct [OF g(2) n v, of "[]"] show ?thesis using g
    by (cases "length (enc_opts 0 (ins_opt n v xs)) \<le> opts_capacity o1")
      (auto simp: options_add_opaque_def)
qed

interpretation coap_store: option_store opts_rep
  "\<lambda>opts n v. options_add_opaque al opts n v (length v)" option_content for al
  by unfold_locales (simp_all add: options_add_opaque_total option_content_correct)

end

