(* ===== verification/Coap_Option_Value.thy ===== *)
theory Coap_Option_Value
  imports Coap_Options
begin

text \<open>
  The typed readers of one option in \<open>avs_coap_option.c\<close>: integers, strings and the fields of
  a BLOCK option, with the option numbers and the block structure of \<open>option.h\<close>. The lemmas
  evaluate each reader on an encoded option as arithmetic on the content.
\<close>

section \<open>Option numbers and the block structure\<close>

abbreviation (input) OPTION_URI_HOST :: nat where "OPTION_URI_HOST \<equiv> 3"
abbreviation (input) OPTION_ETAG :: nat where "OPTION_ETAG \<equiv> 4"
abbreviation (input) OPTION_IF_NONE_MATCH :: nat where "OPTION_IF_NONE_MATCH \<equiv> 5"
abbreviation (input) OPTION_OBSERVE :: nat where "OPTION_OBSERVE \<equiv> 6"
abbreviation (input) OPTION_URI_PORT :: nat where "OPTION_URI_PORT \<equiv> 7"
abbreviation (input) OPTION_OSCORE :: nat where "OPTION_OSCORE \<equiv> 9"
abbreviation (input) OPTION_CONTENT_FORMAT :: nat where "OPTION_CONTENT_FORMAT \<equiv> 12"
abbreviation (input) OPTION_ACCEPT :: nat where "OPTION_ACCEPT \<equiv> 17"
abbreviation (input) OPTION_BLOCK2 :: nat where "OPTION_BLOCK2 \<equiv> 23"
abbreviation (input) OPTION_BLOCK1 :: nat where "OPTION_BLOCK1 \<equiv> 27"
abbreviation (input) OPTION_PROXY_URI :: nat where "OPTION_PROXY_URI \<equiv> 35"
abbreviation (input) OPTION_PROXY_SCHEME :: nat where "OPTION_PROXY_SCHEME \<equiv> 39"
abbreviation (input) FORMAT_NONE :: nat where "FORMAT_NONE \<equiv> 65535"

datatype block_type = BLOCK1 | BLOCK2

record option_block =
  block_type :: block_type
  block_seq_num :: nat
  block_has_more :: bool
  block_size :: nat
  block_is_bert :: bool

definition option_num_from_block_type :: "block_type \<Rightarrow> nat" where
  "option_num_from_block_type type = (if type = BLOCK1 then OPTION_BLOCK1 else OPTION_BLOCK2)"

definition is_valid_block_size :: "nat \<Rightarrow> bool" where
  "is_valid_block_size n \<longleftrightarrow> is_power_of_2 n \<and> n \<le> 1024 \<and> n \<ge> 16"

section \<open>Readers\<close>

text \<open>
  The loop of the integer readers: shift the accumulator by a byte and add the next byte. A
  reader returns \<open>None\<close> (inside \<open>Some\<close>) where the C function returns a negative value
  without touching its output parameter.
\<close>

definition fold_uint :: "bytes \<Rightarrow> 'a::len word" where
  "fold_uint bs = foldl (\<lambda>v b. push_bit 8 v OR ucast b) 0 bs"

definition option_u16_value :: "bytes \<Rightarrow> nat \<Rightarrow> u16 option option" where
  "option_u16_value m opt = do {
     value_data \<leftarrow> option_value m opt;
     len \<leftarrow> option_content_length m opt;
     if len > 2 then Some None
     else do { bs \<leftarrow> rd_bytes m value_data len; Some (Some (fold_uint bs)) } }"

definition option_u32_value :: "bytes \<Rightarrow> nat \<Rightarrow> u32 option option" where
  "option_u32_value m opt = do {
     value_data \<leftarrow> option_value m opt;
     len \<leftarrow> option_content_length m opt;
     if len > 4 then Some None
     else do { bs \<leftarrow> rd_bytes m value_data len; Some (Some (fold_uint bs)) } }"

text \<open>The result code, the reported size and the new content of the caller's buffer.\<close>

definition option_string_value ::
  "bytes \<Rightarrow> nat \<Rightarrow> bytes \<Rightarrow> nat \<Rightarrow> (int \<times> nat \<times> bytes) option" where
  "option_string_value m opt buffer buffer_size = do {
     str_length \<leftarrow> option_content_length m opt;
     if buffer_size < str_length + 1 then Some (- 1, str_length + 1, buffer)
     else do {
       value_data \<leftarrow> option_value m opt;
       bs \<leftarrow> rd_bytes m value_data str_length;
       buffer \<leftarrow> wr_bytes buffer 0 bs;
       buffer \<leftarrow> wr8 buffer str_length 0;
       Some (0, str_length + 1, buffer) } }"

definition option_block_seq_number :: "bytes \<Rightarrow> nat \<Rightarrow> nat option option" where
  "option_block_seq_number m opt = do {
     r \<leftarrow> option_u32_value m opt;
     Some (case r of None \<Rightarrow> None
           | Some value \<Rightarrow> if value \<ge> 2 ^ 24 then None else Some (unat (drop_bit 4 value))) }"

definition option_block_has_more :: "bytes \<Rightarrow> nat \<Rightarrow> bool option option" where
  "option_block_has_more m opt = do {
     r \<leftarrow> option_u32_value m opt;
     Some (case r of None \<Rightarrow> None
           | Some value \<Rightarrow> if value \<ge> 2 ^ 24 then None else Some (value AND 8 \<noteq> 0)) }"

definition option_block_size :: "bytes \<Rightarrow> nat \<Rightarrow> (nat \<times> bool) option option" where
  "option_block_size m opt = do {
     r \<leftarrow> option_u32_value m opt;
     (case r of None \<Rightarrow> Some None
      | Some value \<Rightarrow>
          if value \<ge> 2 ^ 24 then Some None
          else do {
            let szx = unat (value AND 7);
            let is_bert = (szx = AVS_COAP_OPT_BERT_SZX);
            let size_exponent = (if is_bert then AVS_COAP_OPT_BLOCK_MAX_SZX else szx);
            let out_size = 2 ^ (size_exponent + 4) mod 2 ^ 16;
            c_assert (is_valid_block_size out_size);
            Some (Some (out_size, is_bert)) }) }"

text \<open>
  \<open>fill_block_data\<close> returns the block as far as it was filled and whether it succeeded: a
  field that is read before the failing one keeps its new value.
\<close>

definition fill_block_data ::
  "bytes \<Rightarrow> nat \<Rightarrow> nat \<Rightarrow> option_block \<Rightarrow> (option_block \<times> bool) option" where
  "fill_block_data m block_opt opt_number out_info = do {
     c_assert (opt_number = OPTION_BLOCK1 \<or> opt_number = OPTION_BLOCK2);
     let out_info = out_info\<lparr>block_type := (if opt_number = OPTION_BLOCK1 then BLOCK1 else BLOCK2)\<rparr>;
     len \<leftarrow> option_content_length m block_opt;
     if len > 3 then Some (out_info, False)
     else do {
       seq_num \<leftarrow> option_block_seq_number m block_opt;
       (case seq_num of None \<Rightarrow> Some (out_info, False)
        | Some seq_num \<Rightarrow> do {
            let out_info = out_info\<lparr>block_seq_num := seq_num\<rparr>;
            has_more \<leftarrow> option_block_has_more m block_opt;
            (case has_more of None \<Rightarrow> Some (out_info, False)
             | Some has_more \<Rightarrow> do {
                 let out_info = out_info\<lparr>block_has_more := has_more\<rparr>;
                 sz \<leftarrow> option_block_size m block_opt;
                 (case sz of None \<Rightarrow> Some (out_info, False)
                  | Some (n, bert) \<Rightarrow>
                      Some (out_info\<lparr>block_size := n, block_is_bert := bert\<rparr>, True)) }) }) } }"

definition zero_block :: option_block where
  "zero_block = \<lparr>block_type = BLOCK1, block_seq_num = 0, block_has_more = False, block_size = 0,
                 block_is_bert = False\<rparr>"

definition is_block_option_content_valid :: "bytes \<Rightarrow> nat \<Rightarrow> nat \<Rightarrow> bool option" where
  "is_block_option_content_valid m block_opt opt_number = do {
     (_, ok) \<leftarrow> fill_block_data m block_opt opt_number zero_block;
     Some ok }"

section \<open>The readers on an encoded option\<close>

lemma fold_uint_snoc: "fold_uint (bs @ [b]) = push_bit 8 (fold_uint bs) OR ucast b"
  by (simp add: fold_uint_def)

lemma unat_fold_uint:
  assumes "8 * length bs \<le> LENGTH('a)"
  shows "unat (fold_uint bs :: 'a::len word) = be_nat bs"
  using assms
proof (induction bs rule: rev_induct)
  case Nil
  show ?case by (simp add: fold_uint_def)
next
  case (snoc b bs)
  let ?v = "fold_uint bs :: 'a word"
  have IH: "unat ?v = be_nat bs" using snoc by simp
  have "be_nat (bs @ [b]) < 256 ^ length (bs @ [b])" by (rule be_nat_less)
  also have "(256 :: nat) ^ length (bs @ [b]) = 2 ^ (8 * length (bs @ [b]))" by (simp add: power_mult power_add)
  also have "\<dots> \<le> 2 ^ LENGTH('a)" using snoc.prems by (intro power_increasing) auto
  finally have lt: "256 * be_nat bs + unat b < 2 ^ LENGTH('a)" by simp
  have "push_bit 8 ?v AND ucast b = 0"
    by (rule bit_word_eqI) (auto simp: bit_simps dest: bit_imp_le_length)
  then have "unat (push_bit 8 ?v OR ucast b) = unat (push_bit 8 ?v) + unat (ucast b :: 'a word)"
    by (rule unat_or_disjoint)
  moreover have "unat (push_bit 8 ?v) = 256 * be_nat bs"
  proof -
    have "unat (push_bit 8 ?v) = take_bit LENGTH('a) (256 * be_nat bs)"
      unfolding unsigned_push_bit_eq IH by (simp add: push_bit_eq_mult mult.commute)
    also have "\<dots> = 256 * be_nat bs" using lt by (intro take_bit_nat_eq_self) simp
    finally show ?thesis .
  qed
  moreover have "unat (ucast b :: 'a word) = unat b"
    using lt by (simp add: unsigned_ucast_eq take_bit_nat_eq_self)
  ultimately show ?case by (simp add: fold_uint_snoc)
qed

lemma enc_content:
  assumes len: "length pre = p" and d: "d \<le> UINT16_MAX" and v: "length v \<le> UINT16_MAX"
  shows "option_content_length (pre @ enc_opt d v @ post) p = Some (length v)"
    and "option_value (pre @ enc_opt d v @ post) p = Some (p + length (enc_hdr d (length v)))"
    and "rd_bytes (pre @ enc_opt d v @ post) (p + length (enc_hdr d (length v))) (length v) = Some v"
proof -
  show "option_content_length (pre @ enc_opt d v @ post) p = Some (length v)"
    "option_value (pre @ enc_opt d v @ post) p = Some (p + length (enc_hdr d (length v)))"
    using len d v by (simp_all add: enc_opt_def option_content_length_enc option_value_enc)
  show "rd_bytes (pre @ enc_opt d v @ post) (p + length (enc_hdr d (length v))) (length v) = Some v"
    using rd_bytes_append [of "pre @ enc_hdr d (length v)" _ v _ post] len by (simp add: enc_opt_def)
qed

text \<open>
  What the readers compute, as functions of the content: the integer in network order, and the
  three fields that RFC 7959 packs into a BLOCK option of at most three bytes.
\<close>

definition block_of_content :: "nat \<Rightarrow> bytes \<Rightarrow> option_block" where
  "block_of_content n v =
     \<lparr>block_type = (if n = OPTION_BLOCK1 then BLOCK1 else BLOCK2),
      block_seq_num = be_nat v div 16,
      block_has_more = odd (be_nat v div 8),
      block_size = 2 ^ (min 6 (be_nat v mod 8) + 4),
      block_is_bert = (be_nat v mod 8 = 7)\<rparr>"

lemma fold_uint_u32: "length v \<le> 4 \<Longrightarrow> unat (fold_uint v :: u32) = be_nat v"
  by (rule unat_fold_uint) simp

lemma fold_uint_u16: "length v \<le> 2 \<Longrightarrow> unat (fold_uint v :: u16) = be_nat v"
  by (rule unat_fold_uint) simp

lemma fold_uint_ge: "length v \<le> 4 \<Longrightarrow> (fold_uint v :: u32) \<ge> 2 ^ 24 \<longleftrightarrow> be_nat v \<ge> 2 ^ 24"
  by (simp add: word_le_nat_alt fold_uint_u32)

lemma valid_block_sizes: "e \<le> 6 \<Longrightarrow> is_valid_block_size (2 ^ (e + 4))"
proof -
  assume "e \<le> 6"
  then have "e \<in> {0, 1, 2, 3, 4, 5, 6}" by auto
  then show ?thesis by (auto simp: is_valid_block_size_def is_power_of_2_def)
qed

lemma and_8: "(w AND 8 \<noteq> 0) \<longleftrightarrow> odd (unat w div 8)" for w :: u32
proof -
  have "(w AND 2 ^ 3 \<noteq> 0) \<longleftrightarrow> bit w 3" by (simp only: and_exp_eq_0_iff_not_bit not_not)
  also have "bit w 3 \<longleftrightarrow> bit (unat w) 3" by (simp add: bit_unsigned_iff bit_imp_le_length)
  finally show ?thesis by (simp add: bit_iff_odd)
qed

lemma and_7: "unat (w AND 7) = unat w mod 8" for w :: u32
  using unat_and_mask [of w 3] by (simp add: mask_numeral)

lemma option_u32_value_enc:
  assumes "length pre = p" and "d \<le> UINT16_MAX" and "length v \<le> UINT16_MAX"
  shows "option_u32_value (pre @ enc_opt d v @ post) p
    = Some (if length v > 4 then None else Some (fold_uint v))"
  by (simp add: option_u32_value_def enc_content [OF assms])

lemma option_u16_value_enc:
  assumes "length pre = p" and "d \<le> UINT16_MAX" and "length v \<le> UINT16_MAX"
  shows "option_u16_value (pre @ enc_opt d v @ post) p
    = Some (if length v > 2 then None else Some (fold_uint v))"
  by (simp add: option_u16_value_def enc_content [OF assms])

lemma option_string_value_enc:
  assumes "length pre = p" and "d \<le> UINT16_MAX" and "length v \<le> UINT16_MAX"
    and "n \<le> length buffer"
  shows "option_string_value (pre @ enc_opt d v @ post) p buffer n
    = Some (if n < length v + 1 then (- 1, length v + 1, buffer)
            else (0, length v + 1, v @ 0 # drop (length v + 1) buffer))"
proof (cases "n < length v + 1")
  case False
  then have "wr_bytes buffer 0 v = Some (v @ drop (length v) buffer)"
    "wr8 (v @ drop (length v) buffer) (length v) 0 = Some (v @ 0 # drop (length v + 1) buffer)"
    using assms(4) by (simp_all add: wr_bytes_def wr8_def Cons_nth_drop_Suc [symmetric])
  with False show ?thesis by (simp add: option_string_value_def enc_content [OF assms(1-3)])
qed (simp add: option_string_value_def enc_content [OF assms(1-3)])

lemma be_nat_short: "length v \<le> 3 \<Longrightarrow> be_nat v < 2 ^ 24"
proof -
  assume "length v \<le> 3"
  then have "(256 :: nat) ^ length v \<le> 256 ^ 3" by (intro power_increasing) auto
  with be_nat_less [of v] show ?thesis by simp
qed

lemma option_block_size_word:
  assumes "option_u32_value m opt = Some (Some w)" and "unat w < 2 ^ 24"
  shows "option_block_size m opt
    = Some (Some (2 ^ (min 6 (unat w mod 8) + 4), unat w mod 8 = 7))"
proof -
  let ?e = "min 6 (unat w mod 8)"
  have "k < 8 \<Longrightarrow> (if k = 7 then 6 else k) = min 6 k" for k :: nat by auto
  from this [of "unat w mod 8"] have e: "(if unat w mod 8 = 7 then 6 else unat w mod 8) = ?e" by simp
  have "?e \<le> 6" by simp
  then have "(2 :: nat) ^ (?e + 4) \<le> 2 ^ 10" by (intro power_increasing) auto
  then have m: "(2 :: nat) ^ (?e + 4) mod 2 ^ 16 = 2 ^ (?e + 4)" by (intro mod_less) simp
  have "\<not> w \<ge> 2 ^ 24" using assms(2) by (simp add: word_le_nat_alt)
  then show ?thesis
    unfolding option_block_size_def
    by (simp only: assms(1) bind.bind_lunit option.case if_False Let_def and_7
        AVS_COAP_OPT_BERT_SZX_def AVS_COAP_OPT_BLOCK_MAX_SZX_def e m valid_block_sizes [OF \<open>?e \<le> 6\<close>]
        c_assert_bind_True)
qed

lemma fill_block_data_enc:
  assumes "length pre = p" and "d \<le> UINT16_MAX" and "length v \<le> UINT16_MAX"
    and n: "n = OPTION_BLOCK1 \<or> n = OPTION_BLOCK2"
  shows "length v \<le> 3 \<Longrightarrow> fill_block_data (pre @ enc_opt d v @ post) p n b = Some (block_of_content n v, True)"
    and "length v > 3 \<Longrightarrow> fill_block_data (pre @ enc_opt d v @ post) p n b
          = Some (b\<lparr>block_type := (if n = OPTION_BLOCK1 then BLOCK1 else BLOCK2)\<rparr>, False)"
proof -
  let ?m = "pre @ enc_opt d v @ post"
  show "fill_block_data ?m p n b = Some (b\<lparr>block_type := (if n = OPTION_BLOCK1 then BLOCK1 else BLOCK2)\<rparr>, False)"
    if "length v > 3"
    using n that by (simp add: fill_block_data_def enc_content [OF assms(1-3)])
  show "fill_block_data ?m p n b = Some (block_of_content n v, True)" if le: "length v \<le> 3"
  proof -
    have u: "option_u32_value ?m p = Some (Some (fold_uint v))"
      using le by (simp add: option_u32_value_enc [OF assms(1-3)])
    have w: "unat (fold_uint v :: u32) = be_nat v" using le by (intro fold_uint_u32) simp
    have lt: "unat (fold_uint v :: u32) < 2 ^ 24" using be_nat_short [OF le] by (simp only: w)
    have ge: "\<not> (fold_uint v :: u32) \<ge> 2 ^ 24" using lt by (simp add: word_le_nat_alt)
    have "option_block_seq_number ?m p = Some (Some (be_nat v div 16))"
      using ge by (simp add: option_block_seq_number_def u unat_drop_bit_div w)
    moreover have "option_block_has_more ?m p = Some (Some (odd (be_nat v div 8)))"
      using ge by (simp add: option_block_has_more_def u and_8 w)
    moreover have "option_block_size ?m p = Some (Some (2 ^ (min 6 (be_nat v mod 8) + 4), be_nat v mod 8 = 7))"
      using option_block_size_word [OF u lt] by (simp only: w)
    ultimately show ?thesis using n le
      by (simp add: fill_block_data_def enc_content [OF assms(1-3)] block_of_content_def)
  qed
qed

end
