(* ===== verification/Coap_Options_Typed.thy ===== *)
theory Coap_Options_Typed
  imports Coap_Option_Value
begin

text \<open>
  The typed setters and getters of a set of options (\<open>avs_coap_options.c\<close>, \<open>option.h\<close>):
  integers, Content-Format, ETag, Observe and BLOCK options, and the search that continues from
  an iterator. The main results are round trips: what a setter wrote is what the getter reads.
\<close>

section \<open>Setters\<close>

text \<open>
  \<open>value\<close> is the memory of the integer that the caller passes, on a little-endian machine. The
  first loop of \<open>avs_coap_options_add_uint\<close> reverses it, the second skips leading zeros.
\<close>

definition options_add_uint ::
  "alloc \<Rightarrow> coap_options \<Rightarrow> nat \<Rightarrow> bytes \<Rightarrow> (coap_options \<times> avs_error) option" where
  "options_add_uint realloc opts opt_number value = do {
     c_assert (length value \<le> 8);
     let converted = rev value;
     let content = dropWhile (\<lambda>b. b = 0) converted;
     options_add_opaque realloc opts opt_number content (length content) }"

text \<open>The pointer that the two wrappers pass is to the bytes of the integer in memory.\<close>

definition options_add_u16 ::
  "alloc \<Rightarrow> coap_options \<Rightarrow> nat \<Rightarrow> nat \<Rightarrow> (coap_options \<times> avs_error) option" where
  "options_add_u16 realloc opts opt_number value =
     options_add_uint realloc opts opt_number (le_bytes 2 value)"

definition options_add_u32 ::
  "alloc \<Rightarrow> coap_options \<Rightarrow> nat \<Rightarrow> nat \<Rightarrow> (coap_options \<times> avs_error) option" where
  "options_add_u32 realloc opts opt_number value =
     options_add_uint realloc opts opt_number (le_bytes 4 value)"

definition options_set_content_format ::
  "alloc \<Rightarrow> coap_options \<Rightarrow> nat \<Rightarrow> (coap_options \<times> avs_error) option" where
  "options_set_content_format realloc opts format = do {
     opts \<leftarrow> options_remove_by_number opts OPTION_CONTENT_FORMAT;
     if format = FORMAT_NONE then Some (opts, AVS_OK)
     else options_add_u16 realloc opts OPTION_CONTENT_FORMAT format }"

text \<open>An ETag: its size and the array of \<open>AVS_COAP_MAX_ETAG_LENGTH\<close> bytes that holds it.\<close>

record etag =
  etag_size :: nat
  etag_bytes :: bytes

definition etag_equal :: "etag \<Rightarrow> etag \<Rightarrow> bool option" where
  "etag_equal a b =
     (if etag_size a = etag_size b then do {
        x \<leftarrow> rd_bytes (etag_bytes a) 0 (etag_size a);
        y \<leftarrow> rd_bytes (etag_bytes b) 0 (etag_size a);
        Some (x = y) }
      else Some False)"

definition options_add_etag ::
  "alloc \<Rightarrow> coap_options \<Rightarrow> etag \<Rightarrow> (coap_options \<times> avs_error) option" where
  "options_add_etag realloc opts e =
     (if etag_size e > 8 then Some (opts, AVS_EINVAL)
      else options_add_opaque realloc opts OPTION_ETAG (etag_bytes e) (etag_size e))"

definition encode_block_size :: "nat \<Rightarrow> nat option" where
  "encode_block_size n =
     (if n = 16 then Some 0 else if n = 32 then Some 1 else if n = 64 then Some 2
      else if n = 128 then Some 3 else if n = 256 then Some 4 else if n = 512 then Some 5
      else if n = 1024 then Some 6 else None)"

definition add_block_opt ::
  "alloc \<Rightarrow> coap_options \<Rightarrow> nat \<Rightarrow> nat \<Rightarrow> bool \<Rightarrow> nat \<Rightarrow> bool \<Rightarrow> (coap_options \<times> avs_error) option" where
  "add_block_opt realloc opts option_number seq_number is_last_chunk n is_bert =
     (case encode_block_size n of
        None \<Rightarrow> Some (opts, AVS_EINVAL)
      | Some size_exponent \<Rightarrow>
          if is_bert \<and> size_exponent \<noteq> AVS_COAP_OPT_BLOCK_MAX_SZX then Some (opts, AVS_EINVAL)
          else let size_exponent = (if is_bert then AVS_COAP_OPT_BERT_SZX else size_exponent) in
            if seq_number \<ge> 2 ^ 20 then Some (opts, AVS_ERANGE)
            else let value = (push_bit 4 (word_of_nat seq_number AND 0x000fffff)
                   OR push_bit 3 (of_bool is_last_chunk)) OR word_of_nat size_exponent :: u32
              in options_add_u32 realloc opts option_number (unat value))"

definition options_add_block ::
  "alloc \<Rightarrow> coap_options \<Rightarrow> option_block \<Rightarrow> (coap_options \<times> avs_error) option" where
  "options_add_block realloc opts block =
     add_block_opt realloc opts (option_num_from_block_type (block_type block))
       (block_seq_num block) (block_has_more block) (block_size block) (block_is_bert block)"

definition options_add_observe ::
  "alloc \<Rightarrow> coap_options \<Rightarrow> u32 \<Rightarrow> (coap_options \<times> avs_error) option" where
  "options_add_observe realloc opts value =
     options_add_u32 realloc opts OPTION_OBSERVE (unat (value AND 0xFFFFFF))"

section \<open>Getters\<close>

text \<open>
  The result codes of a getter: 0 with the value it wrote, \<open>AVS_COAP_OPTION_MISSING\<close>, or a
  negative value.
\<close>

datatype 'a get_result = Found 'a | Missing | Malformed

definition options_get_u16 :: "coap_options \<Rightarrow> nat \<Rightarrow> nat get_result option" where
  "options_get_u16 opts option_number = do {
     r \<leftarrow> options_find_first_opt opts option_number;
     (case r of None \<Rightarrow> Some Missing
      | Some opt \<Rightarrow> do {
          v \<leftarrow> option_u16_value (opts_mem opts) opt;
          Some (case v of None \<Rightarrow> Malformed | Some v \<Rightarrow> Found (unat v)) }) }"

definition options_get_u32 :: "coap_options \<Rightarrow> nat \<Rightarrow> nat get_result option" where
  "options_get_u32 opts option_number = do {
     r \<leftarrow> options_find_first_opt opts option_number;
     (case r of None \<Rightarrow> Some Missing
      | Some opt \<Rightarrow> do {
          v \<leftarrow> option_u32_value (opts_mem opts) opt;
          Some (case v of None \<Rightarrow> Malformed | Some v \<Rightarrow> Found (unat v)) }) }"

definition options_get_content_format :: "coap_options \<Rightarrow> nat get_result option" where
  "options_get_content_format opts = do {
     r \<leftarrow> options_find_first_opt opts OPTION_CONTENT_FORMAT;
     (case r of None \<Rightarrow> Some (Found FORMAT_NONE)
      | Some opt \<Rightarrow> do {
          v \<leftarrow> option_u16_value (opts_mem opts) opt;
          Some (case v of None \<Rightarrow> Malformed | Some v \<Rightarrow> Found (unat v)) }) }"

definition options_get_observe :: "coap_options \<Rightarrow> nat get_result option" where
  "options_get_observe opts = do {
     r \<leftarrow> options_get_u32 opts OPTION_OBSERVE;
     Some (case r of Found v \<Rightarrow> if v > 0xFFFFFF then Malformed else Found v
           | r \<Rightarrow> r) }"

text \<open>
  \<open>avs_coap_options_get_block\<close> clears the caller's block first; the block is returned in every
  case together with the result code.
\<close>

definition options_get_block ::
  "coap_options \<Rightarrow> block_type \<Rightarrow> (option_block \<times> unit get_result) option" where
  "options_get_block opts type = do {
     let opt_number = (if type = BLOCK1 then OPTION_BLOCK1 else OPTION_BLOCK2);
     r \<leftarrow> options_find_first_opt opts opt_number;
     (case r of None \<Rightarrow> Some (zero_block, Missing)
      | Some opt \<Rightarrow> do {
          (info, ok) \<leftarrow> fill_block_data (opts_mem opts) opt opt_number zero_block;
          Some (info, if ok then Found () else Malformed) }) }"

section \<open>The getters read the represented list\<close>

lemma find_first_enc:
  assumes rep: "opts_rep opts xs" and v: "map_of xs n = Some v"
  obtains pre d post where "opts_mem opts = pre @ enc_opt d v @ post" "d \<le> UINT16_MAX"
    "length v \<le> UINT16_MAX" "options_find_first_opt opts n = Some (Some (length pre))"
proof -
  from options_find_first_opt_some [OF rep v] obtain ys zs where
    xs: "xs = ys @ (n, v) # zs" and f: "options_find_first_opt opts n = Some (Some (length (enc_opts 0 ys)))" .
  from opts_rep_split [OF rep [unfolded xs]] obtain post where
    "opts_mem opts = enc_opts 0 ys @ enc_opt (n - last_number 0 ys) v @ post"
    "n \<le> UINT16_MAX" "length v \<le> UINT16_MAX" by metis
  with f show thesis by (intro that [of "enc_opts 0 ys" "n - last_number 0 ys" post]) auto
qed

lemma options_get_u32_rep:
  assumes rep: "opts_rep opts xs"
  shows "options_get_u32 opts n = Some (case map_of xs n of None \<Rightarrow> Missing
     | Some v \<Rightarrow> if length v > 4 then Malformed else Found (be_nat v))"
proof (cases "map_of xs n")
  case None
  with rep show ?thesis by (simp add: options_get_u32_def options_find_first_opt_none)
next
  case (Some v)
  from find_first_enc [OF rep Some] obtain pre d post where
    m: "opts_mem opts = pre @ enc_opt d v @ post" "d \<le> UINT16_MAX" "length v \<le> UINT16_MAX"
    "options_find_first_opt opts n = Some (Some (length pre))" .
  from option_u32_value_enc [OF refl m(2,3), of pre post] m(1,4) Some show ?thesis
    by (simp add: options_get_u32_def fold_uint_u32)
qed

lemma u16_value_rep:
  assumes rep: "opts_rep opts xs" and v: "map_of xs n = Some v"
  shows "\<exists>opt. options_find_first_opt opts n = Some (Some opt) \<and>
    option_u16_value (opts_mem opts) opt = Some (if length v > 2 then None else Some (fold_uint v))"
proof -
  from find_first_enc [OF rep v] obtain pre d post where
    m: "opts_mem opts = pre @ enc_opt d v @ post" "d \<le> UINT16_MAX" "length v \<le> UINT16_MAX"
    "options_find_first_opt opts n = Some (Some (length pre))" .
  from option_u16_value_enc [OF refl m(2,3), of pre post] m(1,4) show ?thesis by simp
qed

lemma options_get_u16_rep:
  assumes rep: "opts_rep opts xs"
  shows "options_get_u16 opts n = Some (case map_of xs n of None \<Rightarrow> Missing
     | Some v \<Rightarrow> if length v > 2 then Malformed else Found (be_nat v))"
  using options_find_first_opt_none [OF rep, of n] u16_value_rep [OF rep, of n]
  by (cases "map_of xs n") (auto simp: options_get_u16_def fold_uint_u16)

lemma options_get_content_format_rep:
  assumes rep: "opts_rep opts xs"
  shows "options_get_content_format opts = Some (case map_of xs OPTION_CONTENT_FORMAT of
       None \<Rightarrow> Found FORMAT_NONE
     | Some v \<Rightarrow> if length v > 2 then Malformed else Found (be_nat v))"
  using options_find_first_opt_none [OF rep, of OPTION_CONTENT_FORMAT]
    u16_value_rep [OF rep, of OPTION_CONTENT_FORMAT]
  by (cases "map_of xs OPTION_CONTENT_FORMAT")
    (auto simp: options_get_content_format_def fold_uint_u16)

lemma options_get_block_rep:
  assumes rep: "opts_rep opts xs" and n: "n = option_num_from_block_type type"
  shows "options_get_block opts type = Some (case map_of xs n of None \<Rightarrow> (zero_block, Missing)
     | Some v \<Rightarrow> if length v > 3 then (zero_block\<lparr>block_type := type\<rparr>, Malformed)
                else (block_of_content n v, Found ()))"
proof (cases "map_of xs n")
  case None
  with rep n show ?thesis
    by (simp add: options_get_block_def option_num_from_block_type_def options_find_first_opt_none)
next
  case (Some v)
  from find_first_enc [OF rep Some] obtain pre d post where
    m: "opts_mem opts = pre @ enc_opt d v @ post" "d \<le> UINT16_MAX" "length v \<le> UINT16_MAX"
    "options_find_first_opt opts n = Some (Some (length pre))" .
  have b: "n = OPTION_BLOCK1 \<or> n = OPTION_BLOCK2" by (simp add: n option_num_from_block_type_def)
  have t: "(if n = OPTION_BLOCK1 then BLOCK1 else BLOCK2) = type"
    by (cases type) (simp_all add: n option_num_from_block_type_def)
  show ?thesis using fill_block_data_enc [OF refl m(2,3) b, of pre post zero_block] m(1,4) Some t
    by (cases "length v > 3")
      (simp_all add: options_get_block_def n option_num_from_block_type_def)
qed

section \<open>Integers as option contents\<close>

text \<open>The content that \<open>options_add_uint\<close> writes: the shortest encoding of the value.\<close>

definition uint_content :: "nat \<Rightarrow> nat \<Rightarrow> bytes" where
  "uint_content k v = dropWhile (\<lambda>b. b = 0) (rev (le_bytes k v))"

lemma be_nat_uint_content: "v < 256 ^ k \<Longrightarrow> be_nat (uint_content k v) = v"
  by (simp add: uint_content_def be_nat_strip be_nat_rev_le)

lemma length_uint_content_le: "length (uint_content k v) \<le> k"
  using length_dropWhile_le [of "\<lambda>b. b = 0" "rev (le_bytes k v)"] by (simp add: uint_content_def)

lemma uint_content_shortest:
  assumes "v < 256 ^ j" and "v < 256 ^ k"
  shows "length (uint_content k v) \<le> j"
proof (cases "uint_content k v")
  case (Cons b bs)
  then have "b \<noteq> 0" by (auto simp: uint_content_def dropWhile_eq_Cons_conv)
  then have "1 \<le> unat b" by (simp add: Suc_le_eq unat_gt_0)
  then have "256 ^ length bs \<le> unat b * 256 ^ length bs" by simp
  also have "\<dots> \<le> v" using be_nat_uint_content [OF assms(2)] by (simp add: Cons be_nat_Cons)
  also have "\<dots> < 256 ^ j" by (rule assms(1))
  finally have "(256 :: nat) ^ length bs < 256 ^ j" .
  then have "length bs < j" by (rule power_less_imp_less_exp [rotated]) simp
  with Cons show ?thesis by simp
qed simp

lemma options_add_u32_eq:
  "options_add_u32 al opts n v = options_add_opaque al opts n (uint_content 4 v) (length (uint_content 4 v))"
  by (simp add: options_add_u32_def options_add_uint_def uint_content_def Let_def)

lemma options_add_u16_eq:
  "options_add_u16 al opts n v = options_add_opaque al opts n (uint_content 2 v) (length (uint_content 2 v))"
  by (simp add: options_add_u16_def options_add_uint_def uint_content_def Let_def)

text \<open>A successful setter inserts the content of its value.\<close>

lemma add_opaque_rep:
  assumes "opts_rep opts xs" "n \<le> UINT16_MAX" "length v \<le> UINT16_MAX"
    and "options_add_opaque al opts n v (length v) = Some (opts', AVS_OK)"
  shows "opts_rep opts' (ins_opt n v xs)"
  using options_add_opaque_total [OF assms(1-3), of al] assms(4) by auto

lemma options_add_u32_rep:
  assumes "opts_rep opts xs" "n \<le> UINT16_MAX" "options_add_u32 al opts n v = Some (opts', AVS_OK)"
  shows "opts_rep opts' (ins_opt n (uint_content 4 v) xs)"
  using assms length_uint_content_le [of 4 v]
  by (intro add_opaque_rep [OF assms(1,2)]) (simp_all add: options_add_u32_eq)

lemma options_add_u16_rep:
  assumes "opts_rep opts xs" "n \<le> UINT16_MAX" "options_add_u16 al opts n v = Some (opts', AVS_OK)"
  shows "opts_rep opts' (ins_opt n (uint_content 2 v) xs)"
  using assms length_uint_content_le [of 2 v]
  by (intro add_opaque_rep [OF assms(1,2)]) (simp_all add: options_add_u16_eq)

lemma get_u32_after_add:
  assumes "opts_rep opts xs" "n \<le> UINT16_MAX" "v < 2 ^ 32" "map_of xs n = None"
    and "options_add_u32 al opts n v = Some (opts', AVS_OK)"
  shows "options_get_u32 opts' n = Some (Found v)"
  using options_get_u32_rep [OF options_add_u32_rep [OF assms(1,2,5)], of n] assms(3,4)
    length_uint_content_le [of 4 v]
  by (simp add: map_of_ins_new be_nat_uint_content)

section \<open>BLOCK options\<close>

text \<open>The valid block sizes are exactly those that \<open>encode_block_size\<close> has an exponent for.\<close>

lemma power_of_2_between:
  assumes "is_power_of_2 n" and "2 ^ k \<le> n" and "n < 2 ^ Suc k"
  shows "n = 2 ^ k"
proof (rule ccontr)
  assume "n \<noteq> 2 ^ k"
  have "n div 2 ^ k = 1" using assms by (intro div_nat_eqI) auto
  moreover have "(n - 1) div 2 ^ k = 1" using assms \<open>n \<noteq> 2 ^ k\<close> by (intro div_nat_eqI) auto
  ultimately have "bit (n AND (n - 1)) k" unfolding bit_and_iff by (simp add: bit_iff_odd)
  with assms(1) show False by (simp add: is_power_of_2_def)
qed

lemma encode_block_size_valid: "encode_block_size n \<noteq> None \<longleftrightarrow> is_valid_block_size n"
proof
  assume "encode_block_size n \<noteq> None"
  then show "is_valid_block_size n"
    by (auto simp: encode_block_size_def is_valid_block_size_def is_power_of_2_def split: if_splits)
next
  assume v: "is_valid_block_size n"
  then have p: "is_power_of_2 n" "n \<le> 1024" "16 \<le> n" by (simp_all add: is_valid_block_size_def)
  note between = power_of_2_between [OF p(1)]
  from p(2,3) consider "n < 32" | "32 \<le> n" "n < 64" | "64 \<le> n" "n < 128" | "128 \<le> n" "n < 256"
    | "256 \<le> n" "n < 512" | "512 \<le> n" "n < 1024" | "n = 1024" by linarith
  then have "n \<in> {16, 32, 64, 128, 256, 512, 1024}"
    using p(3) between [of 4] between [of 5] between [of 6] between [of 7] between [of 8] between [of 9]
    by cases simp_all
  then show "encode_block_size n \<noteq> None" by (auto simp: encode_block_size_def)
qed

lemma encode_block_size_Some: "encode_block_size n = Some e \<Longrightarrow> n = 2 ^ (e + 4) \<and> e \<le> 6"
  by (auto simp: encode_block_size_def split: if_splits)

lemma block_value:
  assumes s: "s < 2 ^ 20" and e: "e < 8"
  shows "unat ((push_bit 4 (word_of_nat s AND 0x000fffff) OR push_bit 3 (of_bool l))
     OR word_of_nat e :: u32) = 16 * s + 8 * of_bool l + e"
proof -
  let ?A = "push_bit 4 (word_of_nat s AND 0x000fffff) :: u32"
    and ?B = "push_bit 3 (of_bool l) :: u32" and ?C = "word_of_nat e :: u32"
  have uC: "unat ?C = e" using e by (simp add: unat_of_nat)
  have "unat ?C = unat (?C AND 7)" using e by (simp only: and_7 uC) simp
  then have C: "?C = ?C AND 7" by (rule unsigned_word_eqI)
  have s7: "(7 :: u32) = mask 3" by (simp add: mask_numeral)
  have AB: "?A AND ?B = 0" by (rule bit_word_eqI) (auto simp: bit_simps)
  have "(?A OR ?B) AND ?C = 0"
    by (subst C, unfold s7) (rule bit_word_eqI, auto simp: bit_simps)
  then have "unat ((?A OR ?B) OR ?C) = unat (?A OR ?B) + unat ?C" by (rule unat_or_disjoint)
  also have "\<dots> = unat ?A + unat ?B + e" by (simp only: unat_or_disjoint [OF AB] uC)
  finally have "unat ((?A OR ?B) OR ?C) = unat ?A + unat ?B + e" .
  moreover have "unat (word_of_nat s AND 0x000fffff :: u32) = s"
    using unat_and_mask [of "word_of_nat s :: u32" 20] s by (simp add: mask_numeral unat_of_nat)
  then have "unat ?A = take_bit 32 (s * 16)" unfolding unsigned_push_bit_eq by (simp add: push_bit_eq_mult)
  then have "unat ?A = 16 * s" using s by (simp add: take_bit_nat_eq_self)
  moreover have "unat ?B = 8 * of_bool l" by (cases l) simp_all
  ultimately show ?thesis by (simp only:)
qed

lemma add_block_opt_ok:
  assumes "add_block_opt al opts n s l k bert = Some (opts', AVS_OK)"
  shows "\<exists>e. encode_block_size k = Some e \<and> (bert \<longrightarrow> e = 6) \<and> s < 2 ^ 20
     \<and> options_add_u32 al opts n (16 * s + 8 * of_bool l + (if bert then 7 else e)) = Some (opts', AVS_OK)"
proof -
  from assms obtain e where e: "encode_block_size k = Some e" "bert \<longrightarrow> e = 6" and s: "s < 2 ^ 20"
    by (auto simp: add_block_opt_def AVS_COAP_OPT_BLOCK_MAX_SZX_def Let_def split: option.splits if_splits)
  have "(if bert then 7 else e) < 8" using encode_block_size_Some [OF e(1)] by simp
  from block_value [OF s this, of l] assms e s show ?thesis
    by (auto simp: add_block_opt_def AVS_COAP_OPT_BLOCK_MAX_SZX_def AVS_COAP_OPT_BERT_SZX_def Let_def)
qed

lemma block_of_content_value:
  assumes "encode_block_size k = Some e" and "bert \<longrightarrow> e = 6" and "s < 2 ^ 20"
    and "be_nat v = 16 * s + 8 * of_bool l + (if bert then 7 else e)"
  shows "block_of_content (option_num_from_block_type t) v
     = \<lparr>block_type = t, block_seq_num = s, block_has_more = l, block_size = k, block_is_bert = bert\<rparr>"
proof -
  define z where "z = (if bert then 7 else e :: nat)"
  have z: "z < 8" "min 6 z = e" "z = 7 \<longleftrightarrow> bert"
    using encode_block_size_Some [OF assms(1)] assms(2) by (auto simp: z_def)
  have v: "be_nat v = 16 * s + 8 * of_bool l + z" using assms(4) by (simp add: z_def)
  have 1: "be_nat v mod 8 = z" using z(1) v by (cases l) (simp_all add: mod_add_eq [symmetric])
  have 2: "be_nat v div 8 = 2 * s + of_bool l" using z(1) v by (cases l) simp_all
  have 3: "be_nat v div 16 = s" using z(1) v by (cases l) simp_all
  have 4: "(if option_num_from_block_type t = OPTION_BLOCK1 then BLOCK1 else BLOCK2) = t"
    by (cases t) (simp_all add: option_num_from_block_type_def)
  show ?thesis
    using z encode_block_size_Some [OF assms(1)]
    by (simp only: block_of_content_def 1 2 3 4) simp
qed


section \<open>Round trips\<close>

text \<open>An unsigned 32-bit option value that was added to a set of options is what
  \<open>avs_coap_options_get_u32\<close> reads from it, although only its significant bytes are stored.\<close>

theorem options_add_u32_get_u32:
  assumes "opts_rep opts xs" and "n \<le> UINT16_MAX" and "v < 2 ^ 32" and "map_of xs n = None"
    and "options_add_u32 al opts n v = Some (opts', AVS_OK)"
  shows "options_get_u32 opts' n = Some (Found v)"
  using assms by (rule get_u32_after_add)

lemma empty_rep: "k \<le> length m \<Longrightarrow> opts_rep (options_create_empty m k) []"
  by (simp add: opts_rep_def options_create_empty_def)

text \<open>A fixed buffer with enough room takes the option.\<close>

lemma add_opaque_static_ok:
  assumes "opts_rep opts xs" and "\<not> opts_allocated opts" and "n \<le> UINT16_MAX" and "length v \<le> UINT16_MAX"
    and "length (enc_opts 0 (ins_opt n v xs)) \<le> opts_capacity opts"
  shows "\<exists>opts'. options_add_opaque al opts n v (length v) = Some (opts', AVS_OK)"
  using options_insert_correct [OF assms(1,3,4), of "[]"] assms(2,5)
  by (auto simp: options_add_opaque_def grow_if_required_static)

lemma enc_opts_single: "length v < 13 \<Longrightarrow> length (enc_opts 0 (ins_opt n v [])) \<le> 3 + length v"
  by (simp add: ins_opt_def enc_opt_def enc_hdr_def length_enc_ext)

lemma add_u32_empty_ok:
  assumes "n \<le> UINT16_MAX"
  shows "\<exists>opts'. options_add_u32 al (options_create_empty (replicate 8 0) 8) n v = Some (opts', AVS_OK)"
proof -
  have "length (enc_opts 0 (ins_opt n (uint_content 4 v) [])) \<le> 8"
    using enc_opts_single [of "uint_content 4 v" n] length_uint_content_le [of 4 v] by simp
  moreover have "opts_rep (options_create_empty (replicate 8 0) 8) []" by (rule empty_rep) simp
  ultimately show ?thesis unfolding options_add_u32_eq
    using assms length_uint_content_le [of 4 v]
    by (intro add_opaque_static_ok) (simp_all add: options_create_empty_def)
qed

theorem options_add_u32_get_u32_witness:
  "\<exists>opts'. options_add_u32 None (options_create_empty (replicate 8 0) 8) 14 70000 = Some (opts', AVS_OK)
     \<and> options_get_u32 opts' 14 = Some (Found 70000)"
proof -
  obtain opts' where a: "options_add_u32 None (options_create_empty (replicate 8 0) 8) 14 70000 = Some (opts', AVS_OK)"
    using add_u32_empty_ok by force
  have "opts_rep (options_create_empty (replicate 8 0) 8) []" by (rule empty_rep) simp
  from options_add_u32_get_u32 [OF this _ _ _ a] a show ?thesis by simp
qed

text \<open>C28: A BLOCK option that was added to options with no BLOCK option of that number is read back with every
  field, BERT included; an accepted block therefore always has a size of the form $2^{e+4}$, a sequence number below
  $2^{20}$ and a BERT flag only with size 1024.\<close>

theorem options_add_block_get_block:
  assumes "opts_rep opts xs" and "map_of xs (option_num_from_block_type (block_type b)) = None"
    and "options_add_block al opts b = Some (opts', AVS_OK)"
  shows "options_get_block opts' (block_type b) = Some (b, Found ())
    \<and> is_valid_block_size (block_size b) \<and> block_seq_num b < 2 ^ 20
    \<and> (block_is_bert b \<longrightarrow> block_size b = 1024)"
proof -
  let ?n = "option_num_from_block_type (block_type b)"
  from add_block_opt_ok [OF assms(3) [unfolded options_add_block_def]] obtain e where
    e: "encode_block_size (block_size b) = Some e" "block_is_bert b \<longrightarrow> e = 6" and s: "block_seq_num b < 2 ^ 20"
    and a: "options_add_u32 al opts ?n (16 * block_seq_num b + 8 * of_bool (block_has_more b)
        + (if block_is_bert b then 7 else e)) = Some (opts', AVS_OK)" by blast
  let ?v = "16 * block_seq_num b + 8 * of_bool (block_has_more b) + (if block_is_bert b then 7 else e)"
  have n: "?n \<le> UINT16_MAX" by (simp add: option_num_from_block_type_def)
  have e6: "block_size b = 2 ^ (e + 4)" "e \<le> 6" using encode_block_size_Some [OF e(1)] by auto
  have v: "?v < 2 ^ 24" using s e6(2) by (cases "block_has_more b") (simp_all split: if_splits)
  have c: "be_nat (uint_content 4 ?v) = ?v" "length (uint_content 4 ?v) \<le> 3"
    using v be_nat_uint_content [of ?v 4] uint_content_shortest [of ?v 3 4] by simp_all
  from options_get_block_rep [OF options_add_u32_rep [OF assms(1) n a] refl] c(2) assms(2)
  have "options_get_block opts' (block_type b) = Some (block_of_content ?n (uint_content 4 ?v), Found ())"
    by (simp add: map_of_ins_new)
  with block_of_content_value [OF e s c(1), of "block_type b"]
  have "options_get_block opts' (block_type b) = Some (b, Found ())" by simp
  moreover have "is_valid_block_size (block_size b)" using e encode_block_size_valid [of "block_size b"] by simp
  ultimately show ?thesis using s e e6 by auto
qed

lemma add_block_empty_ok:
  assumes "encode_block_size k = Some e" and "bert \<longrightarrow> e = 6" and "s < 2 ^ 20" and "n \<le> UINT16_MAX"
  shows "\<exists>opts'. add_block_opt al (options_create_empty (replicate 8 0) 8) n s l k bert = Some (opts', AVS_OK)"
  using assms add_u32_empty_ok
  by (auto simp: add_block_opt_def AVS_COAP_OPT_BLOCK_MAX_SZX_def Let_def)

theorem options_add_block_get_block_witness:
  "\<exists>opts'. options_add_block None (options_create_empty (replicate 8 0) 8)
        \<lparr>block_type = BLOCK2, block_seq_num = 777, block_has_more = True, block_size = 1024,
         block_is_bert = True\<rparr> = Some (opts', AVS_OK)
     \<and> options_get_block opts' BLOCK2 =
        Some (\<lparr>block_type = BLOCK2, block_seq_num = 777, block_has_more = True, block_size = 1024,
               block_is_bert = True\<rparr>, Found ())"
proof -
  let ?b = "\<lparr>block_type = BLOCK2, block_seq_num = 777, block_has_more = True, block_size = 1024,
         block_is_bert = True\<rparr>"
  obtain opts' where a: "options_add_block None (options_create_empty (replicate 8 0) 8) ?b = Some (opts', AVS_OK)"
    using add_block_empty_ok [of 1024 6 True 777 "option_num_from_block_type BLOCK2"]
    by (force simp: options_add_block_def encode_block_size_def option_num_from_block_type_def)
  have "opts_rep (options_create_empty (replicate 8 0) 8) []" by (rule empty_rep) simp
  from options_add_block_get_block [OF this _ a] a show ?thesis by simp
qed

text \<open>A block that a BLOCK option cannot express is refused without touching the options: a
  size that is not a power of two between 16 and 1024, or BERT with a size other than 1024, is
  EINVAL, and a sequence number of $2^{20}$ or more is ERANGE.\<close>

theorem options_add_block_errors:
  "options_add_block al opts b =
     (if \<not> is_valid_block_size (block_size b) \<or> block_is_bert b \<and> block_size b \<noteq> 1024
      then Some (opts, AVS_EINVAL)
      else if block_seq_num b \<ge> 2 ^ 20 then Some (opts, AVS_ERANGE)
      else options_add_u32 al opts (option_num_from_block_type (block_type b))
        (16 * block_seq_num b + 8 * of_bool (block_has_more b)
          + (if block_is_bert b then 7 else the (encode_block_size (block_size b)))))"
proof (cases "encode_block_size (block_size b)")
  case None
  then show ?thesis using encode_block_size_valid [of "block_size b"]
    by (simp add: options_add_block_def add_block_opt_def)
next
  case (Some e)
  have v: "is_valid_block_size (block_size b)" using Some encode_block_size_valid [of "block_size b"] by simp
  have e: "block_size b = 2 ^ (e + 4)" "e \<le> 6" using encode_block_size_Some [OF Some] by auto
  have e6: "block_size b = 1024 \<longleftrightarrow> e = 6"
    using Some by (auto simp: encode_block_size_def split: if_splits)
  have "(if block_is_bert b then 7 else e) < 8" using e by simp
  from block_value [OF _ this, of "block_seq_num b" "block_has_more b"] show ?thesis
    using Some v e6 by (auto simp: options_add_block_def add_block_opt_def Let_def
        AVS_COAP_OPT_BLOCK_MAX_SZX_def AVS_COAP_OPT_BERT_SZX_def)
qed

theorem options_add_block_errors_witness:
  "options_add_block None (options_create_empty [] 0)
      \<lparr>block_type = BLOCK1, block_seq_num = 0, block_has_more = False, block_size = 48,
       block_is_bert = False\<rparr> = Some (options_create_empty [] 0, AVS_EINVAL)"
proof -
  have "\<not> is_valid_block_size 48" by (simp add: is_valid_block_size_def is_power_of_2_def)
  then show ?thesis
    using options_add_block_errors [of None "options_create_empty [] 0"
        "\<lparr>block_type = BLOCK1, block_seq_num = 0, block_has_more = False, block_size = 48,
          block_is_bert = False\<rparr>"] by simp
qed

lemma map_of_filter_number: "map_of (filter (\<lambda>x. fst x \<noteq> n) xs) n = None"
  unfolding map_of_eq_None_iff by force

text \<open>After \<open>avs_coap_options_set_content_format\<close> the getter returns the format that was
  set, whatever Content-Format options the container held before; setting
  \<open>AVS_COAP_FORMAT_NONE\<close> removes them, and the getter then returns that value.\<close>

theorem set_content_format_get_content_format:
  assumes rep: "opts_rep opts xs" and mv: "movable xs" and f: "format \<le> UINT16_MAX"
    and ok: "options_set_content_format al opts format = Some (opts', AVS_OK)"
  shows "options_get_content_format opts' = Some (Found format)"
proof -
  let ?ys = "filter (\<lambda>x. fst x \<noteq> OPTION_CONTENT_FORMAT) xs"
  from remove_by_number_spec [OF rep mv, of OPTION_CONTENT_FORMAT] obtain o1 where
    o1: "options_remove_by_number opts OPTION_CONTENT_FORMAT = Some o1" "opts_rep o1 ?ys" by blast
  note none = map_of_filter_number [of OPTION_CONTENT_FORMAT xs]
  show ?thesis
  proof (cases "format = FORMAT_NONE")
    case True
    with ok o1 have "opts' = o1" by (simp add: options_set_content_format_def)
    with options_get_content_format_rep [OF o1(2)] none True show ?thesis by simp
  next
    case False
    with ok o1 have a: "options_add_u16 al o1 OPTION_CONTENT_FORMAT format = Some (opts', AVS_OK)"
      by (simp add: options_set_content_format_def)
    from options_get_content_format_rep [OF options_add_u16_rep [OF o1(2) _ a]] none f False
      length_uint_content_le [of 2 format]
    show ?thesis by (simp add: map_of_ins_new be_nat_uint_content)
  qed
qed

theorem set_content_format_get_content_format_witness:
  "\<exists>opts'. options_set_content_format None
      \<lparr>opts_mem = [0xC1, 50, 0, 0, 0, 0], opts_size = 2, opts_capacity = 6, opts_allocated = False\<rparr>
      11542 = Some (opts', AVS_OK) \<and> options_get_content_format opts' = Some (Found 11542)"
proof -
  let ?o = "\<lparr>opts_mem = [0xC1, 50, 0, 0, 0, 0], opts_size = 2, opts_capacity = 6, opts_allocated = False\<rparr>"
  have rep: "opts_rep ?o [(12, [50])]"
    by (simp add: opts_rep_def enc_opt_def enc_hdr_def nib_def enc_ext_def byte_of_def)
  from remove_by_number_spec [OF rep, of 12] obtain o1 where
    o1: "options_remove_by_number ?o 12 = Some o1" "opts_rep o1 []" "opts_capacity o1 = 6" "\<not> opts_allocated o1"
    by auto
  have "length (enc_opts 0 (ins_opt 12 (uint_content 2 11542) [])) \<le> 6"
    using enc_opts_single [of "uint_content 2 11542" 12] length_uint_content_le [of 2 11542] by simp
  then obtain o2 where "options_add_u16 None o1 12 11542 = Some (o2, AVS_OK)"
    using add_opaque_static_ok [OF o1(2,4), of 12 "uint_content 2 11542" None] o1(3)
      length_uint_content_le [of 2 11542]
    by (auto simp: options_add_u16_eq)
  then have a: "options_set_content_format None ?o 11542 = Some (o2, AVS_OK)"
    by (simp add: options_set_content_format_def o1(1))
  from set_content_format_get_content_format [OF rep _ _ a] a show ?thesis by simp
qed

text \<open>The Observe value that was added is read back modulo $2^{24}$, the range of the
  option.\<close>

theorem options_add_observe_get_observe:
  assumes "opts_rep opts xs" and "map_of xs OPTION_OBSERVE = None"
    and "options_add_observe al opts w = Some (opts', AVS_OK)"
  shows "options_get_observe opts' = Some (Found (unat w mod 2 ^ 24))"
proof -
  have w: "unat (w AND 0xFFFFFF) = unat w mod 2 ^ 24"
    using unat_and_mask [of w 24] by (simp add: mask_numeral)
  have "unat w mod 2 ^ 24 < 2 ^ 24" by simp
  also have "(2 :: nat) ^ 24 < 2 ^ 32" by simp
  finally have "unat (w AND 0xFFFFFF) < 2 ^ 32" by (simp only: w)
  from get_u32_after_add [OF assms(1) _ this assms(2) assms(3) [unfolded options_add_observe_def]]
  have "options_get_u32 opts' OPTION_OBSERVE = Some (Found (unat w mod 2 ^ 24))" by (simp only: w)
  moreover have "\<not> unat w mod 2 ^ 24 > 0xFFFFFF" by simp
  ultimately show ?thesis by (simp add: options_get_observe_def)
qed

theorem options_add_observe_get_observe_witness:
  "\<exists>opts'. options_add_observe None (options_create_empty (replicate 8 0) 8) 0xFF000005 = Some (opts', AVS_OK)
     \<and> options_get_observe opts' = Some (Found 5)"
proof -
  obtain opts' where a: "options_add_observe None (options_create_empty (replicate 8 0) 8) 0xFF000005 = Some (opts', AVS_OK)"
    unfolding options_add_observe_def using add_u32_empty_ok by force
  have "opts_rep (options_create_empty (replicate 8 0) 8) []" by (rule empty_rep) simp
  from options_add_observe_get_observe [OF this _ a] a show ?thesis by simp
qed

end
