(* ===== verification/Coap_Options_Valid.thy ===== *)
theory Coap_Options_Valid
  imports Coap_Options_Typed
begin

text \<open>
  Validation and parsing of the options of a received packet (\<open>avs_coap_options.c\<close>), with the
  byte dispenser of \<open>avs_coap_common_utils.c\<close>. The lemmas show that validation never reads
  outside the packet whatever the packet holds, that it accepts exactly the encodings of
  well-formed option lists, and that it stops at the payload marker.
\<close>

section \<open>Reading from and writing to a buffer in sequence\<close>

record bytes_dispenser =
  read_ptr :: nat
  bytes_left :: nat

record bytes_appender =
  write_ptr :: nat
  app_bytes_left :: nat

definition bytes_extract :: "bytes \<Rightarrow> bytes_dispenser \<Rightarrow> nat \<Rightarrow> (bytes option \<times> bytes_dispenser) option" where
  "bytes_extract m dispenser size_bytes =
     (if bytes_left dispenser < size_bytes then Some (None, dispenser)
      else do {
        out \<leftarrow> rd_bytes m (read_ptr dispenser) size_bytes;
        Some (Some out, dispenser\<lparr>read_ptr := read_ptr dispenser + size_bytes,
                                  bytes_left := bytes_left dispenser - size_bytes\<rparr>) })"

definition bytes_append :: "bytes \<Rightarrow> bytes_appender \<Rightarrow> bytes \<Rightarrow> (bytes \<times> bytes_appender \<times> bool) option" where
  "bytes_append m appender dat =
     (if app_bytes_left appender < length dat then Some (m, appender, False)
      else do {
        m \<leftarrow> wr_bytes m (write_ptr appender) dat;
        Some (m, appender\<lparr>write_ptr := write_ptr appender + length dat,
                          app_bytes_left := app_bytes_left appender - length dat\<rparr>, True) })"

section \<open>Validation\<close>

definition option_is_critical :: "nat \<Rightarrow> bool" where
  "option_is_critical opt_number \<longleftrightarrow> opt_number mod 2 = 1"

definition non_repeatable_critical_options :: "nat list" where
  "non_repeatable_critical_options =
     [OPTION_URI_HOST, OPTION_IF_NONE_MATCH, OPTION_URI_PORT, OPTION_OSCORE, OPTION_ACCEPT,
      OPTION_BLOCK2, OPTION_BLOCK1, OPTION_PROXY_URI, OPTION_PROXY_SCHEME]"

text \<open>
  The inner loop over the table of non-repeatable options and their \<open>found\<close> flags. The result
  \<open>Some None\<close> is a duplicate.
\<close>

fun mark_found :: "(nat \<times> bool) list \<Rightarrow> nat \<Rightarrow> (nat \<times> bool) list option option" where
  "mark_found [] opt_number = Some (Some [])"
| "mark_found ((number, found) # rest) opt_number = do {
     c_assert (option_is_critical number);
     if number = opt_number \<and> found then Some None
     else do {
       r \<leftarrow> mark_found rest opt_number;
       Some (case r of None \<Rightarrow> None
             | Some rest \<Rightarrow> Some ((number, found \<or> number = opt_number) # rest)) } }"

text \<open>
  The main loop. It returns the iterator where it ended without an error, or else whether it
  reports a truncated option.
\<close>

partial_function (option) valid_loop ::
  "coap_options \<Rightarrow> (nat \<times> bool) list \<Rightarrow> optit \<Rightarrow> (bool + optit) option" where
  "valid_loop opts tbl it = do {
     e \<leftarrow> optit_end opts it;
     if e then Some (Inr it)
     else do {
       c_assert (opts_size opts \<ge> curr_opt it);
       bytes_available \<leftarrow> size_minus (opts_size opts) (curr_opt it);
       opt \<leftarrow> optit_current opts it;
       v \<leftarrow> option_is_valid (opts_mem opts) opt bytes_available;
       if \<not> v then Some (Inl True)
       else do {
         opt_number \<leftarrow> optit_number opts it;
         if opt_number > UINT16_MAX then Some (Inl False)
         else do {
           r \<leftarrow> mark_found tbl opt_number;
           (case r of None \<Rightarrow> Some (Inl False)
            | Some tbl \<Rightarrow> do {
                block_ok \<leftarrow> (if opt_number = OPTION_BLOCK1 \<or> opt_number = OPTION_BLOCK2
                   then is_block_option_content_valid (opts_mem opts) opt opt_number
                   else Some True);
                if \<not> block_ok then Some (Inl False)
                else do { it \<leftarrow> optit_next opts it; valid_loop opts tbl it } }) } } } }"

text \<open>
  The result is the value written to \<open>*out_actual_size\<close>, or \<open>None\<close> when the C function
  returns \<open>false\<close>, with \<open>*out_truncated\<close> and \<open>*out_payload_marker_reached\<close>.
\<close>

definition options_valid_until_payload_marker ::
  "coap_options \<Rightarrow> (nat option \<times> bool \<times> bool) option" where
  "options_valid_until_payload_marker opts =
     (if opts_size opts > opts_capacity opts then Some (None, False, False)
      else do {
        r \<leftarrow> valid_loop opts (map (\<lambda>k. (k, False)) non_repeatable_critical_options) optit_begin;
        (case r of Inl truncated \<Rightarrow> Some (None, truncated, False)
         | Inr it \<Rightarrow> do {
             let actual_size = curr_opt it;
             marker \<leftarrow> (if actual_size \<noteq> opts_capacity opts
                then do { b \<leftarrow> rd8 (opts_mem opts) (curr_opt it); Some (b = AVS_COAP_PAYLOAD_MARKER) }
                else Some False);
             Some (Some actual_size, False, marker) }) })"

definition options_valid :: "coap_options \<Rightarrow> bool option" where
  "options_valid opts = do {
     (r, _, _) \<leftarrow> options_valid_until_payload_marker opts;
     Some (case r of None \<Rightarrow> False | Some actual_size \<Rightarrow> opts_size opts = actual_size) }"

section \<open>Parsing\<close>

definition validate_block2_in_block1_request :: "coap_options \<Rightarrow> avs_error option" where
  "validate_block2_in_block1_request opts = do {
     (block1, result) \<leftarrow> options_get_block opts BLOCK1;
     if result = Missing then Some AVS_OK
     else do {
       e \<leftarrow> option_exists opts OPTION_BLOCK2;
       if \<not> e then Some AVS_OK
       else do {
         c_assert (result = Found ());
         Some (if block_has_more block1 then AVS_COAP_ERR_MALFORMED_OPTIONS else AVS_OK) } } }"

text \<open>
  The parsed options with the advanced dispenser, the \<open>truncated\<close> and \<open>payload marker\<close> flags
  and the error. The options begin at the dispenser's read pointer in the packet \<open>m\<close>.
\<close>

definition options_parse ::
  "bytes \<Rightarrow> bytes_dispenser \<Rightarrow> (coap_options \<times> bytes_dispenser \<times> bool \<times> bool \<times> avs_error) option" where
  "options_parse m dispenser = do {
     let opts = \<lparr>opts_mem = drop (read_ptr dispenser) m, opts_size = bytes_left dispenser,
                 opts_capacity = bytes_left dispenser, opts_allocated = False\<rparr>;
     (r, truncated, marker) \<leftarrow> options_valid_until_payload_marker opts;
     (case r of None \<Rightarrow> Some (opts, dispenser, truncated, marker, AVS_COAP_ERR_MALFORMED_OPTIONS)
      | Some actual_size \<Rightarrow> do {
          (out, dispenser) \<leftarrow> bytes_extract m dispenser actual_size;
          c_assert (out \<noteq> None);
          let opts = opts\<lparr>opts_size := actual_size, opts_capacity := actual_size\<rparr>;
          err \<leftarrow> validate_block2_in_block1_request opts;
          Some (opts, dispenser, truncated, marker, err) }) }"

section \<open>What validation accepts\<close>

definition repeated_ok :: "opt_list \<Rightarrow> nat \<times> bytes \<Rightarrow> bool" where
  "repeated_ok ys z \<longleftrightarrow>
     \<not> (fst z \<in> set non_repeatable_critical_options \<and> fst z \<in> fst ` set ys)
     \<and> (fst z = OPTION_BLOCK1 \<or> fst z = OPTION_BLOCK2 \<longrightarrow> length (snd z) \<le> 3)"

text \<open>
  Every option is acceptable behind those before it: a non-repeatable critical option occurs
  once, and a BLOCK option has at most three bytes.
\<close>

definition opts_ok :: "opt_list \<Rightarrow> bool" where
  "opts_ok xs \<longleftrightarrow>
     (\<forall>k \<in> set non_repeatable_critical_options. length (filter (\<lambda>x. fst x = k) xs) \<le> 1)
     \<and> (\<forall>x \<in> set xs. fst x = OPTION_BLOCK1 \<or> fst x = OPTION_BLOCK2 \<longrightarrow> length (snd x) \<le> 3)"

lemma opts_ok_Nil [simp]: "opts_ok []"
  by (simp add: opts_ok_def)

lemma opts_ok_snoc: "opts_ok (ys @ [z]) \<longleftrightarrow> opts_ok ys \<and> repeated_ok ys z"
proof -
  have F: "length (filter (\<lambda>x. fst x = k) (ys @ [z])) \<le> 1 \<longleftrightarrow>
      length (filter (\<lambda>x. fst x = k) ys) \<le> 1 \<and> (fst z = k \<longrightarrow> k \<notin> fst ` set ys)" for k
  proof -
    define c where "c = length (filter (\<lambda>x. fst x = k) ys)"
    have c0: "c = 0 \<longleftrightarrow> k \<notin> fst ` set ys" by (auto simp: c_def filter_empty_conv)
    have eq: "length (filter (\<lambda>x. fst x = k) (ys @ [z])) = c + (if fst z = k then 1 else 0)"
      by (simp add: c_def)
    show ?thesis unfolding eq c_def [symmetric] c0 [symmetric] by auto
  qed
  have A: "(\<forall>k \<in> K. length (filter (\<lambda>x. fst x = k) (ys @ [z])) \<le> 1) \<longleftrightarrow>
      (\<forall>k \<in> K. length (filter (\<lambda>x. fst x = k) ys) \<le> 1) \<and> \<not> (fst z \<in> K \<and> fst z \<in> fst ` set ys)" for K
    unfolding F ball_conj_distrib by metis
  have B: "(\<forall>x \<in> set (ys @ [z]). P x) \<longleftrightarrow> (\<forall>x \<in> set ys. P x) \<and> P z" for P
    by auto
  show ?thesis unfolding opts_ok_def repeated_ok_def A B by blast
qed

text \<open>The bytes from the start of a container are the encoding of a list, whatever follows.\<close>

definition opts_prefix :: "coap_options \<Rightarrow> opt_list \<Rightarrow> bool" where
  "opts_prefix opts xs \<longleftrightarrow>
     wf_opts 0 xs \<and> length (enc_opts 0 xs) \<le> opts_size opts
     \<and> opts_size opts \<le> opts_capacity opts \<and> opts_capacity opts \<le> length (opts_mem opts)
     \<and> take (length (enc_opts 0 xs)) (opts_mem opts) = enc_opts 0 xs"

lemma opts_prefix_rep:
  "opts_prefix opts xs \<longleftrightarrow>
     opts_rep (opts\<lparr>opts_size := length (enc_opts 0 xs)\<rparr>) xs
     \<and> length (enc_opts 0 xs) \<le> opts_size opts \<and> opts_size opts \<le> opts_capacity opts
     \<and> opts_capacity opts \<le> length (opts_mem opts)"
  by (auto simp: opts_prefix_def opts_rep_def)

lemma prefix_end:
  assumes "opts_prefix opts (ys @ z # zs)"
  shows "optit_end opts (it_at ys) = Some False"
proof -
  let ?o = "opts\<lparr>opts_size := length (enc_opts 0 (ys @ z # zs))\<rparr>"
  have rep: "opts_rep ?o (ys @ z # zs)" using assms opts_prefix_rep by blast
  have "optit_end ?o (it_at ys) = Some False" using optit_end_at [OF rep] by simp
  moreover have "curr_opt (it_at ys) < length (enc_opts 0 (ys @ z # zs))"
    by (cases z) (simp add: it_at_def)
  ultimately show ?thesis using assms by (auto simp: optit_end_def opts_prefix_def)
qed

lemma prefix_at:
  assumes "opts_prefix opts (ys @ (n, v) # zs)"
  shows "optit_current opts (it_at ys) = Some (length (enc_opts 0 ys))"
    and "optit_number opts (it_at ys) = Some n"
    and "optit_next opts (it_at ys) = Some (it_at (ys @ [(n, v)]))"
proof -
  let ?o = "opts\<lparr>opts_size := length (enc_opts 0 (ys @ (n, v) # zs))\<rparr>"
  have rep: "opts_rep ?o (ys @ (n, v) # zs)" using assms opts_prefix_rep by blast
  note e = prefix_end [OF assms] and e' = optit_end_at [OF rep]
  show c: "optit_current opts (it_at ys) = Some (length (enc_opts 0 ys))"
    using optit_current_at [OF rep] e e' by (simp add: optit_current_def)
  have c': "optit_current ?o (it_at ys) = Some (length (enc_opts 0 ys))" by (rule optit_current_at [OF rep])
  show "optit_number opts (it_at ys) = Some n"
    using optit_number_at [OF rep] c c' by (simp add: optit_number_def)
  show "optit_next opts (it_at ys) = Some (it_at (ys @ [(n, v)]))"
    using optit_next_at [OF rep] c c' by (simp add: optit_next_def)
qed

lemma prefix_split:
  assumes "opts_prefix opts (ys @ (n, v) # zs)"
  obtains post where "opts_mem opts = enc_opts 0 ys @ enc_opt (n - last_number 0 ys) v @ post"
    and "last_number 0 ys \<le> n" "n \<le> UINT16_MAX" "length v \<le> UINT16_MAX"
  using assms opts_rep_split [of "opts\<lparr>opts_size := length (enc_opts 0 (ys @ (n, v) # zs))\<rparr>" ys n v zs]
  by (auto simp: opts_prefix_rep simp del: enc_opts_append)

lemma mark_found_spec:
  assumes "\<forall>k \<in> set ks. option_is_critical k"
  shows "mark_found (map (\<lambda>k. (k, P k)) ks) n =
     Some (if n \<in> set ks \<and> P n then None else Some (map (\<lambda>k. (k, P k \<or> k = n)) ks))"
  using assms by (induction ks) auto

definition flags :: "opt_list \<Rightarrow> (nat \<times> bool) list" where
  "flags ys = map (\<lambda>k. (k, k \<in> fst ` set ys)) non_repeatable_critical_options"

lemma mark_found_flags:
  "mark_found (flags ys) n =
     Some (if n \<in> set non_repeatable_critical_options \<and> n \<in> fst ` set ys then None
           else Some (flags (ys @ [(n, v)])))"
proof -
  have "\<forall>k \<in> set non_repeatable_critical_options. option_is_critical k"
    by (simp add: non_repeatable_critical_options_def option_is_critical_def)
  from mark_found_spec [OF this] show ?thesis
    unfolding flags_def by (auto simp: image_iff)
qed

lemma block_content_valid_at:
  assumes "opts_prefix opts (ys @ (n, v) # zs)" and "n = OPTION_BLOCK1 \<or> n = OPTION_BLOCK2"
  shows "is_block_option_content_valid (opts_mem opts) (length (enc_opts 0 ys)) n = Some (length v \<le> 3)"
proof -
  from prefix_split [OF assms(1)] obtain post where
    m: "opts_mem opts = enc_opts 0 ys @ enc_opt (n - last_number 0 ys) v @ post"
    "n - last_number 0 ys \<le> UINT16_MAX" "length v \<le> UINT16_MAX" by (metis diff_le_self le_trans)
  show ?thesis
    using fill_block_data_enc [OF refl m(2,3) assms(2), of "enc_opts 0 ys" post zero_block]
    by (cases "length v \<le> 3") (simp_all add: is_block_option_content_valid_def m(1))
qed

text \<open>One round of the loop at an option.\<close>

lemma valid_loop_step:
  assumes pre: "opts_prefix opts (ys @ (n, v) # zs)"
    and valid: "option_is_valid (opts_mem opts) (length (enc_opts 0 ys)) (opts_size opts - length (enc_opts 0 ys)) = Some True"
  shows "valid_loop opts (flags ys) (it_at ys) =
     (if repeated_ok ys (n, v) then valid_loop opts (flags (ys @ [(n, v)])) (it_at (ys @ [(n, v)]))
      else Some (Inl False))"
proof -
  have "n \<le> UINT16_MAX" using prefix_split [OF pre] by metis
  then have n: "\<not> UINT16_MAX < n" by simp
  have le: "length (enc_opts 0 ys) \<le> opts_size opts" using pre by (simp add: opts_prefix_def)
  have c: "curr_opt (it_at ys) = length (enc_opts 0 ys)" by (simp add: it_at_def)
  note at = prefix_end [OF pre] prefix_at [OF pre] c le valid n
  show ?thesis
  proof (cases "n = OPTION_BLOCK1 \<or> n = OPTION_BLOCK2")
    case True
    show ?thesis
      by (subst valid_loop.simps)
        (use True block_content_valid_at [OF pre True] in
          \<open>auto simp: at mark_found_flags [of ys n v] repeated_ok_def\<close>)
  next
    case False
    then show ?thesis
      by (subst valid_loop.simps) (auto simp: at mark_found_flags [of ys n v] repeated_ok_def)
  qed
qed

lemma prefix_option_valid:
  assumes pre: "opts_prefix opts (ys @ (n, v) # zs)"
  shows "option_is_valid (opts_mem opts) (length (enc_opts 0 ys)) (opts_size opts - length (enc_opts 0 ys)) = Some True"
proof -
  from prefix_split [OF pre] obtain post where
    m: "opts_mem opts = enc_opts 0 ys @ enc_opt (n - last_number 0 ys) v @ post"
    and b: "n - last_number 0 ys \<le> UINT16_MAX" "length v \<le> UINT16_MAX" by (metis diff_le_self le_trans)
  have "length (enc_opt (n - last_number 0 ys) v) \<le> opts_size opts - length (enc_opts 0 ys)"
    using pre by (auto simp: opts_prefix_def)
  then show ?thesis unfolding m using b by (intro option_is_valid_enc) simp_all
qed

lemma prefix_end_iff:
  assumes "opts_prefix opts xs"
  shows "optit_end opts (it_at xs) = Some (length (enc_opts 0 xs) = opts_size opts
     \<or> opts_mem opts ! length (enc_opts 0 xs) = AVS_COAP_PAYLOAD_MARKER)"
  using assms by (auto simp: optit_end_def it_at_def opts_prefix_def rd8_def)

text \<open>Completeness: the encoding of an acceptable list is read to its end.\<close>

lemma valid_loop_complete:
  assumes "opts_prefix opts (ys @ zs)" and "opts_ok (ys @ zs)"
    and "optit_end opts (it_at (ys @ zs)) = Some True"
  shows "valid_loop opts (flags ys) (it_at ys) = Some (Inr (it_at (ys @ zs)))"
  using assms
proof (induction zs arbitrary: ys)
  case Nil
  then show ?case by (subst valid_loop.simps) simp
next
  case (Cons z zs)
  obtain n v where z: "z = (n, v)" by force
  have "opts_ok (ys @ [z])" using Cons.prems(2) unfolding opts_ok_def
    by (auto intro: le_trans [rotated])
  then have "repeated_ok ys (n, v)" by (simp add: opts_ok_snoc z)
  with valid_loop_step [OF Cons.prems(1) [unfolded z] prefix_option_valid [OF Cons.prems(1) [unfolded z]]]
    Cons.IH [of "ys @ [z]"] Cons.prems show ?case by (simp add: z)
qed

text \<open>A valid option behind a prefix, with the number it gets.\<close>

lemma prefix_extend:
  assumes pre: "opts_prefix opts ys" and more: "optit_end opts (it_at ys) = Some False"
    and v: "option_is_valid (opts_mem opts) (length (enc_opts 0 ys)) (opts_size opts - length (enc_opts 0 ys)) = Some True"
  obtains n v where "optit_number opts (it_at ys) = Some n"
    and "n \<le> UINT16_MAX \<Longrightarrow> opts_prefix opts (ys @ [(n, v)])"
proof -
  let ?P = "enc_opts 0 ys"
  have bnd: "length ?P \<le> opts_size opts" "opts_size opts \<le> length (opts_mem opts)"
    using pre by (auto simp: opts_prefix_def)
  then have len: "length ?P + (opts_size opts - length ?P) \<le> length (opts_mem opts)" by simp
  from option_is_valid_inv [OF len v] obtain d v post where
    d: "d \<le> UINT16_MAX" "length v \<le> UINT16_MAX" "length (enc_opt d v) \<le> opts_size opts - length ?P"
    and m: "opts_mem opts = take (length ?P) (opts_mem opts) @ enc_opt d v @ post" by blast
  have tp: "take (length ?P) (opts_mem opts) = ?P" using pre by (simp add: opts_prefix_def)
  note m = m [unfolded tp]
  let ?n = "last_number 0 ys + d"
  have ln: "last_number 0 ys \<le> UINT16_MAX" using pre by (intro last_number_le) (auto simp: opts_prefix_def)
  have "option_delta (opts_mem opts) (length ?P) = Some d"
    unfolding m using d by (simp add: enc_opt_def option_delta_enc)
  moreover have "optit_current opts (it_at ys) = Some (length ?P)"
    using more by (simp add: optit_current_def) (simp add: it_at_def)
  moreover have "?n mod 2 ^ 32 = ?n" using ln d by simp
  ultimately have num: "optit_number opts (it_at ys) = Some ?n"
    by (simp add: optit_number_def) (simp add: it_at_def)
  have "opts_prefix opts (ys @ [(?n, v)])" if "?n \<le> UINT16_MAX"
  proof -
    have "take (length (?P @ enc_opt d v)) (opts_mem opts) = ?P @ enc_opt d v"
      unfolding m by (metis append.assoc append_eq_conv_conj)
    then show ?thesis using that pre d bnd by (simp add: opts_prefix_def)
  qed
  with num that show thesis by blast
qed

text \<open>
  Soundness and totality: from any prefix the loop returns, without reading outside the packet,
  and when it accepts, it stopped at the end of an acceptable list.
\<close>

lemma valid_loop_sound:
  assumes "opts_prefix opts ys" and "opts_ok ys"
  shows "\<exists>r. valid_loop opts (flags ys) (it_at ys) = Some r \<and>
    (\<forall>it. r = Inr it \<longrightarrow> (\<exists>zs. it = it_at zs \<and> opts_prefix opts zs \<and> opts_ok zs
        \<and> optit_end opts it = Some True))"
  using assms
proof (induction "opts_size opts - length (enc_opts 0 ys)" arbitrary: ys rule: less_induct)
  case less
  let ?P = "enc_opts 0 ys"
  from prefix_end_iff [OF less.prems(1)] obtain e where e: "optit_end opts (it_at ys) = Some e" by blast
  show ?case
  proof (cases e)
    case True
    then have "valid_loop opts (flags ys) (it_at ys) = Some (Inr (it_at ys))"
      using e by (subst valid_loop.simps) simp
    moreover have "\<exists>zs. it_at ys = it_at zs \<and> opts_prefix opts zs \<and> opts_ok zs \<and> optit_end opts (it_at ys) = Some True"
      using less.prems e True by (intro exI [of _ ys]) simp
    ultimately show ?thesis by simp
  next
    case False
    have bnd: "length ?P \<le> opts_size opts" "opts_size opts \<le> length (opts_mem opts)"
      using less.prems by (auto simp: opts_prefix_def)
    then obtain b where b: "option_is_valid (opts_mem opts) (length ?P) (opts_size opts - length ?P) = Some b"
      using option_is_valid_total [of "length ?P" "opts_size opts - length ?P" "opts_mem opts"] by auto
    have cur: "optit_current opts (it_at ys) = Some (length ?P)" "curr_opt (it_at ys) = length ?P"
      using e False by (simp_all add: optit_current_def) (simp_all add: it_at_def)
    show ?thesis
    proof (cases b)
      case f: False
      have "valid_loop opts (flags ys) (it_at ys) = Some (Inl True)"
        using e False f b cur bnd by (subst valid_loop.simps) simp
      then show ?thesis by simp
    next
      case True
      then have b: "option_is_valid (opts_mem opts) (length ?P) (opts_size opts - length ?P) = Some True"
        using b by simp
      have more: "optit_end opts (it_at ys) = Some False" using e False by simp
      from prefix_extend [OF less.prems(1) more b] obtain n v where
        num: "optit_number opts (it_at ys) = Some n" and ext: "n \<le> UINT16_MAX \<Longrightarrow> opts_prefix opts (ys @ [(n, v)])"
        by blast
      show ?thesis
      proof (cases "n \<le> UINT16_MAX")
        case f: False
        have "valid_loop opts (flags ys) (it_at ys) = Some (Inl False)"
          using e False f b cur bnd num by (subst valid_loop.simps) simp
        then show ?thesis by simp
      next
        case True
        note pre = ext [OF True]
        note step = valid_loop_step [OF pre b]
        have "length ?P < length (enc_opts 0 (ys @ [(n, v)]))" by simp
        moreover have "length (enc_opts 0 (ys @ [(n, v)])) \<le> opts_size opts"
          using pre unfolding opts_prefix_def by blast
        ultimately have lt: "opts_size opts - length (enc_opts 0 (ys @ [(n, v)])) < opts_size opts - length ?P" by linarith
        show ?thesis
        proof (cases "repeated_ok ys (n, v)")
          case False
          with step show ?thesis by simp
        next
          case True
          then have "opts_ok (ys @ [(n, v)])" using less.prems by (simp add: opts_ok_snoc)
          from less.hyps [OF lt pre this] step True show ?thesis by simp
        qed
      qed
    qed
  qed
qed

lemma valid_until_sound:
  assumes "opts_size opts \<le> opts_capacity opts" and "opts_capacity opts \<le> length (opts_mem opts)"
  shows "\<exists>r truncated marker. options_valid_until_payload_marker opts = Some (r, truncated, marker) \<and>
    (\<forall>n. r = Some n \<longrightarrow> (\<exists>xs. opts_prefix opts xs \<and> opts_ok xs \<and> n = length (enc_opts 0 xs)
        \<and> (n = opts_size opts \<or> opts_mem opts ! n = AVS_COAP_PAYLOAD_MARKER) \<and> \<not> truncated
        \<and> marker = (n < opts_capacity opts \<and> opts_mem opts ! n = AVS_COAP_PAYLOAD_MARKER)))"
proof -
  have "opts_prefix opts []" using assms by (simp add: opts_prefix_def)
  moreover have f: "map (\<lambda>k. (k, False)) non_repeatable_critical_options = flags []" by (simp add: flags_def)
  ultimately obtain r where r: "valid_loop opts (map (\<lambda>k. (k, False)) non_repeatable_critical_options) optit_begin = Some r"
    and ok: "\<And>it. r = Inr it \<Longrightarrow> \<exists>zs. it = it_at zs \<and> opts_prefix opts zs \<and> opts_ok zs \<and> optit_end opts it = Some True"
    using valid_loop_sound [of opts "[]"] by (auto simp: it_at_begin)
  show ?thesis
  proof (cases r)
    case (Inl t)
    then show ?thesis using r assms
      by (simp add: options_valid_until_payload_marker_def) blast
  next
    case (Inr it)
    from ok [OF Inr] obtain zs where zs: "it = it_at zs" "opts_prefix opts zs" "opts_ok zs" "optit_end opts it = Some True" by blast
    let ?n = "length (enc_opts 0 zs)"
    have c: "curr_opt it = ?n" by (simp add: zs it_at_def)
    have n: "?n = opts_size opts \<or> opts_mem opts ! ?n = AVS_COAP_PAYLOAD_MARKER" "?n \<le> opts_capacity opts"
      using prefix_end_iff [OF zs(2)] zs(1,4) zs(2) by (auto simp: opts_prefix_def)
    then have "options_valid_until_payload_marker opts = Some (Some ?n, False,
        ?n < opts_capacity opts \<and> opts_mem opts ! ?n = AVS_COAP_PAYLOAD_MARKER)"
      using r Inr assms c by (auto simp: options_valid_until_payload_marker_def rd8_def Let_def)
    with zs n show ?thesis by auto
  qed
qed

lemma valid_until_complete:
  assumes pre: "opts_prefix opts xs" and ok: "opts_ok xs"
    and stop: "length (enc_opts 0 xs) = opts_size opts \<or> opts_mem opts ! length (enc_opts 0 xs) = AVS_COAP_PAYLOAD_MARKER"
  shows "options_valid_until_payload_marker opts = Some (Some (length (enc_opts 0 xs)), False,
     length (enc_opts 0 xs) < opts_capacity opts \<and> opts_mem opts ! length (enc_opts 0 xs) = AVS_COAP_PAYLOAD_MARKER)"
proof -
  have f: "map (\<lambda>k. (k, False)) non_repeatable_critical_options = flags []" by (simp add: flags_def)
  have "optit_end opts (it_at xs) = Some True" using prefix_end_iff [OF pre] stop by simp
  with valid_loop_complete [of opts "[]" xs] pre ok
  have "valid_loop opts (map (\<lambda>k. (k, False)) non_repeatable_critical_options) optit_begin = Some (Inr (it_at xs))"
    by (simp add: f it_at_begin)
  then show ?thesis using pre
    by (auto simp: options_valid_until_payload_marker_def rd8_def Let_def opts_prefix_def it_at_def)
qed

text \<open>Two acceptable readings of the same bytes agree.\<close>

lemma valid_until_unique:
  assumes "opts_prefix opts xs" "opts_ok xs"
    and "length (enc_opts 0 xs) = opts_size opts \<or> opts_mem opts ! length (enc_opts 0 xs) = AVS_COAP_PAYLOAD_MARKER"
    and "options_valid_until_payload_marker opts = Some (r, t, k)"
  shows "r = Some (length (enc_opts 0 xs))"
  using valid_until_complete [OF assms(1-3)] assms(4) by simp

lemma rep_prefix: "opts_rep opts xs \<Longrightarrow> opts_prefix opts xs"
  by (auto simp: opts_rep_def opts_prefix_def)

lemma options_valid_spec:
  assumes cap: "opts_capacity opts \<le> length (opts_mem opts)"
  shows "options_valid opts = Some (\<exists>xs. opts_rep opts xs \<and> opts_ok xs)"
proof (cases "opts_size opts \<le> opts_capacity opts")
  case False
  then show ?thesis
    by (auto simp: options_valid_def options_valid_until_payload_marker_def opts_rep_def)
next
  case True
  from valid_until_sound [OF True cap] obtain r t k where
    r: "options_valid_until_payload_marker opts = Some (r, t, k)"
    and s: "\<And>n. r = Some n \<Longrightarrow> \<exists>xs. opts_prefix opts xs \<and> opts_ok xs \<and> n = length (enc_opts 0 xs)" by blast
  have "(\<exists>n. r = Some n \<and> opts_size opts = n) \<longleftrightarrow> (\<exists>xs. opts_rep opts xs \<and> opts_ok xs)"
  proof
    assume "\<exists>n. r = Some n \<and> opts_size opts = n"
    with s obtain xs where "opts_prefix opts xs" "opts_ok xs" "opts_size opts = length (enc_opts 0 xs)" by blast
    then show "\<exists>xs. opts_rep opts xs \<and> opts_ok xs" by (auto simp: opts_prefix_def opts_rep_def)
  next
    assume "\<exists>xs. opts_rep opts xs \<and> opts_ok xs"
    then obtain xs where xs: "opts_rep opts xs" "opts_ok xs" by blast
    then have "length (enc_opts 0 xs) = opts_size opts" by (simp add: opts_rep_def)
    with valid_until_unique [OF rep_prefix [OF xs(1)] xs(2) _ r] show "\<exists>n. r = Some n \<and> opts_size opts = n" by simp
  qed
  then show ?thesis by (auto simp: options_valid_def r split: option.splits)
qed

text \<open>\<open>_avs_coap_options_valid\<close> accepts a container exactly when its bytes are the encoding
  of an option list in which the numbers do not exceed 65535, no non-repeatable critical option
  occurs twice and every BLOCK option has at most three bytes. On any bytes at all the check
  terminates, reads only inside the container's buffer and fails no assertion.\<close>

theorem options_valid_correct:
  assumes "opts_capacity opts \<le> length (opts_mem opts)"
  shows "options_valid opts = Some (\<exists>xs. opts_rep opts xs \<and> opts_ok xs)"
  using assms by (rule options_valid_spec)

theorem options_valid_correct_witness:
  "options_valid \<lparr>opts_mem = [0xB1, 65, 0x12, 66, 67], opts_size = 5, opts_capacity = 5,
     opts_allocated = False\<rparr> = Some True"
proof -
  let ?o = "\<lparr>opts_mem = [0xB1, 65, 0x12, 66, 67], opts_size = 5, opts_capacity = 5, opts_allocated = False\<rparr>"
  have "opts_rep ?o [(11, [65]), (12, [66, 67])]"
    by (simp add: opts_rep_def enc_opt_def enc_hdr_def nib_def enc_ext_def byte_of_def)
  moreover have "opts_ok [(11, [65]), (12, [66, 67])]"
    by (simp add: opts_ok_def non_repeatable_critical_options_def)
  ultimately have "\<exists>xs. opts_rep ?o xs \<and> opts_ok xs" by blast
  with options_valid_correct [of ?o] show ?thesis by simp
qed

section \<open>What parsing returns\<close>

definition block1_more_with_block2 :: "opt_list \<Rightarrow> bool" where
  "block1_more_with_block2 xs \<longleftrightarrow>
     (case map_of xs OPTION_BLOCK1 of None \<Rightarrow> False | Some v \<Rightarrow> odd (be_nat v div 8))
     \<and> map_of xs OPTION_BLOCK2 \<noteq> None"

lemma validate_block2_spec:
  assumes rep: "opts_rep opts xs" and ok: "opts_ok xs"
  shows "validate_block2_in_block1_request opts =
     Some (if block1_more_with_block2 xs then AVS_COAP_ERR_MALFORMED_OPTIONS else AVS_OK)"
proof -
  have n: "OPTION_BLOCK1 = option_num_from_block_type BLOCK1" by (simp add: option_num_from_block_type_def)
  have le: "length v \<le> 3" if "map_of xs OPTION_BLOCK1 = Some v" for v
    using ok map_of_SomeD [OF that] unfolding opts_ok_def by fastforce
  show ?thesis
    using options_get_block_rep [OF rep n] le option_exists_correct [OF rep, of OPTION_BLOCK2]
    by (cases "map_of xs OPTION_BLOCK1")
      (auto simp: validate_block2_in_block1_request_def block1_more_with_block2_def block_of_content_def)
qed

text \<open>The container that a packet and a dispenser determine.\<close>

definition packet_opts :: "bytes \<Rightarrow> bytes_dispenser \<Rightarrow> nat \<Rightarrow> coap_options" where
  "packet_opts m d n = \<lparr>opts_mem = drop (read_ptr d) m, opts_size = n, opts_capacity = n,
                        opts_allocated = False\<rparr>"

lemma packet_prefix_rep:
  assumes "opts_prefix (packet_opts m d k) xs" and "n = length (enc_opts 0 xs)"
  shows "opts_rep (packet_opts m d n) xs"
  using assms by (auto simp: opts_prefix_def opts_rep_def packet_opts_def)

definition advance :: "bytes_dispenser \<Rightarrow> nat \<Rightarrow> bytes_dispenser" where
  "advance d n = d\<lparr>read_ptr := read_ptr d + n, bytes_left := bytes_left d - n\<rparr>"

lemma options_parse_eq:
  assumes "read_ptr d + bytes_left d \<le> length m"
    and v: "options_valid_until_payload_marker (packet_opts m d (bytes_left d)) = Some (Some n, t, k)"
    and pre: "opts_prefix (packet_opts m d (bytes_left d)) xs" and ok: "opts_ok xs"
    and n: "n = length (enc_opts 0 xs)"
  shows "options_parse m d = Some (packet_opts m d n, advance d n, t, k,
     if block1_more_with_block2 xs then AVS_COAP_ERR_MALFORMED_OPTIONS else AVS_OK)"
proof -
  have le: "n \<le> bytes_left d" using pre n by (simp add: opts_prefix_def packet_opts_def)
  have rd: "\<exists>out. rd_bytes m (read_ptr d) n = Some out" using le assms(1) by (simp add: rd_bytes_def)
  have "bytes_extract m d n = Some (Some (take n (drop (read_ptr d) m)), advance d n)"
    using le assms(1) by (simp add: bytes_extract_def advance_def rd_bytes_def)
  then show ?thesis
    using v validate_block2_spec [OF packet_prefix_rep [OF pre n] ok]
    by (simp add: options_parse_def packet_opts_def Let_def)
qed

lemma options_parse_sound:
  assumes d: "read_ptr d + bytes_left d \<le> length m"
  shows "\<exists>opts' d' truncated marker err.
     options_parse m d = Some (opts', d', truncated, marker, err) \<and>
     (if err = AVS_OK
      then \<exists>xs. opts_rep opts' xs \<and> opts_ok xs \<and> \<not> block1_more_with_block2 xs
         \<and> opts' = packet_opts m d (length (enc_opts 0 xs)) \<and> d' = advance d (length (enc_opts 0 xs))
         \<and> length (enc_opts 0 xs) \<le> bytes_left d
         \<and> (bytes_left d' = 0 \<or> m ! read_ptr d' = AVS_COAP_PAYLOAD_MARKER) \<and> \<not> truncated
         \<and> marker = (bytes_left d' \<noteq> 0)
      else err = AVS_COAP_ERR_MALFORMED_OPTIONS)"
proof -
  let ?o = "packet_opts m d (bytes_left d)"
  have cap: "opts_size ?o \<le> opts_capacity ?o" "opts_capacity ?o \<le> length (opts_mem ?o)"
    using d by (auto simp: packet_opts_def)
  from valid_until_sound [OF this] obtain r t k where
    v: "options_valid_until_payload_marker ?o = Some (r, t, k)"
    and s: "\<And>n. r = Some n \<Longrightarrow> \<exists>xs. opts_prefix ?o xs \<and> opts_ok xs \<and> n = length (enc_opts 0 xs)
        \<and> (n = opts_size ?o \<or> opts_mem ?o ! n = AVS_COAP_PAYLOAD_MARKER) \<and> \<not> t
        \<and> k = (n < opts_capacity ?o \<and> opts_mem ?o ! n = AVS_COAP_PAYLOAD_MARKER)"
    by blast
  show ?thesis
  proof (cases r)
    case None
    with v show ?thesis by (simp add: options_parse_def packet_opts_def)
  next
    case (Some n)
    from s [OF Some] obtain xs where xs: "opts_prefix ?o xs" "opts_ok xs" "n = length (enc_opts 0 xs)"
      "n = opts_size ?o \<or> opts_mem ?o ! n = AVS_COAP_PAYLOAD_MARKER" "\<not> t"
      "k = (n < opts_capacity ?o \<and> opts_mem ?o ! n = AVS_COAP_PAYLOAD_MARKER)" by blast
    note eq = options_parse_eq [OF d v [unfolded Some] xs(1-3)]
    have le: "n \<le> bytes_left d" using xs(1,3) by (simp add: opts_prefix_def packet_opts_def)
    have mem: "opts_mem ?o ! n = m ! (read_ptr d + n)" if "n < bytes_left d"
      using that d by (simp add: packet_opts_def)
    have "bytes_left (advance d n) = 0 \<or> m ! read_ptr (advance d n) = AVS_COAP_PAYLOAD_MARKER"
    proof (cases "n = bytes_left d")
      case False
      with le have "n < bytes_left d" by simp
      with mem xs(4) show ?thesis by (simp add: advance_def packet_opts_def)
    qed (simp add: advance_def)
    moreover have "k = (bytes_left (advance d n) \<noteq> 0)"
      using xs(4,6) le by (auto simp: advance_def packet_opts_def)
    ultimately show ?thesis
      using eq xs(1,2,3,5) le packet_prefix_rep [OF xs(1,3)] by auto
  qed
qed

text \<open>C24: Parsing the options of any packet terminates, reads only inside the packet and fails no
  assertion. It succeeds only when the bytes up to the payload marker or to the end of the packet
  are the encoding of an acceptable option list; the container then represents that list, the
  dispenser stands behind the options and the marker flag says whether a marker is there. Any
  other packet is reported as MALFORMED_OPTIONS.\<close>

theorem options_parse_any_packet:
  assumes "read_ptr d + bytes_left d \<le> length m"
  shows "\<exists>opts' d' truncated marker err.
     options_parse m d = Some (opts', d', truncated, marker, err) \<and>
     (if err = AVS_OK
      then \<exists>xs. opts_rep opts' xs \<and> opts_ok xs \<and> \<not> block1_more_with_block2 xs
         \<and> opts' = packet_opts m d (length (enc_opts 0 xs)) \<and> d' = advance d (length (enc_opts 0 xs))
         \<and> length (enc_opts 0 xs) \<le> bytes_left d
         \<and> (bytes_left d' = 0 \<or> m ! read_ptr d' = AVS_COAP_PAYLOAD_MARKER) \<and> \<not> truncated
         \<and> marker = (bytes_left d' \<noteq> 0)
      else err = AVS_COAP_ERR_MALFORMED_OPTIONS)"
  using assms by (rule options_parse_sound)

theorem options_parse_any_packet_witness:
  "\<exists>opts' d' truncated marker err.
     options_parse [0x40, 0xF0, 0x12] \<lparr>read_ptr = 1, bytes_left = 2\<rparr> = Some (opts', d', truncated, marker, err)"
  using options_parse_any_packet [of "\<lparr>read_ptr = 1, bytes_left = 2\<rparr>" "[0x40, 0xF0, 0x12]"]
  by fastforce

lemma options_parse_complete:
  assumes m: "m = pre @ enc_opts 0 xs @ post @ rest" and wf: "wf_opts 0 xs" and ok: "opts_ok xs"
    and post: "post = [] \<or> hd post = AVS_COAP_PAYLOAD_MARKER"
    and d: "read_ptr d = length pre" "bytes_left d = length (enc_opts 0 xs @ post)"
  shows "options_parse m d = Some (packet_opts m d (length (enc_opts 0 xs)), advance d (length (enc_opts 0 xs)),
     False, post \<noteq> [], if block1_more_with_block2 xs then AVS_COAP_ERR_MALFORMED_OPTIONS else AVS_OK)"
proof -
  let ?o = "packet_opts m d (bytes_left d)" and ?n = "length (enc_opts 0 xs)"
  have pre: "opts_prefix ?o xs" using wf d by (simp add: opts_prefix_def packet_opts_def m)
  have nth: "opts_mem ?o ! ?n = hd post" if "post \<noteq> []"
    using that d by (simp add: packet_opts_def m nth_append hd_conv_nth)
  have "?n = opts_size ?o \<or> opts_mem ?o ! ?n = AVS_COAP_PAYLOAD_MARKER"
  proof (cases "post = []")
    case False
    with post nth [OF False] show ?thesis by simp
  qed (use d in \<open>simp add: packet_opts_def\<close>)
  note v = valid_until_complete [OF pre ok this]
  have "(?n < opts_capacity ?o \<and> opts_mem ?o ! ?n = AVS_COAP_PAYLOAD_MARKER) = (post \<noteq> [])"
    using post nth d by (cases "post = []") (auto simp: packet_opts_def)
  then show ?thesis
    using options_parse_eq [OF _ v pre ok refl] d by (simp add: m)
qed

text \<open>The options that were serialized into a packet are parsed back: when the bytes of an
  acceptable list are followed by nothing or by the payload marker, parsing yields a container
  with exactly that list and leaves the dispenser at the marker; only a BLOCK1 option with more
  blocks to come next to a BLOCK2 option is refused.\<close>

theorem options_parse_roundtrip:
  assumes "m = pre @ enc_opts 0 xs @ post" and "wf_opts 0 xs" and "opts_ok xs"
    and "post = [] \<or> hd post = AVS_COAP_PAYLOAD_MARKER"
    and "read_ptr d = length pre" and "bytes_left d = length (enc_opts 0 xs @ post)"
  shows "\<exists>opts. options_parse m d = Some (opts, advance d (length (enc_opts 0 xs)), False, post \<noteq> [],
       if block1_more_with_block2 xs then AVS_COAP_ERR_MALFORMED_OPTIONS else AVS_OK)
     \<and> opts_rep opts xs"
proof (intro exI conjI)
  show "options_parse m d = Some (packet_opts m d (length (enc_opts 0 xs)), advance d (length (enc_opts 0 xs)),
      False, post \<noteq> [], if block1_more_with_block2 xs then AVS_COAP_ERR_MALFORMED_OPTIONS else AVS_OK)"
    using options_parse_complete [of m pre xs post "[]" d] assms by simp
  have "opts_prefix (packet_opts m d (bytes_left d)) xs"
    using assms by (simp add: opts_prefix_def packet_opts_def)
  then show "opts_rep (packet_opts m d (length (enc_opts 0 xs))) xs"
    by (rule packet_prefix_rep) simp
qed

theorem options_parse_roundtrip_witness:
  "\<exists>opts. options_parse [0x40, 0xB1, 65, 0x12, 66, 67, 0xFF, 9] \<lparr>read_ptr = 1, bytes_left = 7\<rparr>
      = Some (opts, \<lparr>read_ptr = 6, bytes_left = 2\<rparr>, False, True, AVS_OK)
     \<and> opts_rep opts [(11, [65]), (12, [66, 67])]"
proof -
  let ?xs = "[(11, [65]), (12, [66, 67])] :: opt_list"
  have "[0x40, 0xB1, 65, 0x12, 66, 67, 0xFF, 9] = [0x40] @ enc_opts 0 ?xs @ [0xFF, 9]"
    by (simp add: enc_opt_def enc_hdr_def nib_def enc_ext_def byte_of_def)
  moreover have "opts_ok ?xs" "\<not> block1_more_with_block2 ?xs" "wf_opts 0 ?xs" "length (enc_opts 0 ?xs) = 5"
    by (simp_all add: opts_ok_def non_repeatable_critical_options_def block1_more_with_block2_def
        enc_opt_def enc_hdr_def enc_ext_def)
  ultimately show ?thesis
    using options_parse_roundtrip [of "[0x40, 0xB1, 65, 0x12, 66, 67, 0xFF, 9]" "[0x40]" ?xs "[0xFF, 9]"
        "\<lparr>read_ptr = 1, bytes_left = 7\<rparr>"]
    by (simp add: advance_def AVS_COAP_PAYLOAD_MARKER_def)
qed

end
