(* ===== verification/Coap_Code.thy ===== *)
theory Coap_Code
  imports Anjay_Prelude
begin

text \<open>
  CoAP message codes: \<open>code.h\<close> and \<open>avs_coap_code_utils.c\<close>. A code has a class in its three
  high bits and a detail in its five low bits.
\<close>

definition coap_code :: "byte \<Rightarrow> byte \<Rightarrow> byte" where
  "coap_code cls detail = (push_bit 5 cls AND 0xE0) OR (push_bit 0 detail AND 0x1F)"

definition code_get_class :: "byte \<Rightarrow> byte" where
  "code_get_class code = field_get code 0xE0 5"

definition code_get_detail :: "byte \<Rightarrow> byte" where
  "code_get_detail code = field_get code 0x1F 0"

definition code_is_client_error :: "byte \<Rightarrow> bool" where
  "code_is_client_error code \<longleftrightarrow> code_get_class code = 4"

definition code_is_server_error :: "byte \<Rightarrow> bool" where
  "code_is_server_error code \<longleftrightarrow> code_get_class code = 5"

definition code_is_error :: "byte \<Rightarrow> bool" where
  "code_is_error code \<longleftrightarrow> code_is_server_error code \<or> code_is_client_error code"

definition code_is_success :: "byte \<Rightarrow> bool" where
  "code_is_success code \<longleftrightarrow> code_get_class code = 2"

definition code_is_request :: "byte \<Rightarrow> bool" where
  "code_is_request code \<longleftrightarrow> code_get_class code = 0 \<and> code_get_detail code > 0"

definition code_is_response :: "byte \<Rightarrow> bool" where
  "code_is_response code \<longleftrightarrow>
     code_is_success code \<or> code_is_client_error code \<or> code_is_server_error code"

definition CODE_EMPTY :: byte where "CODE_EMPTY = coap_code 0 0"

text \<open>The table of names, and the string \<open>"%u.%02u %s"\<close> that is made of it.\<close>

definition CODE_NAMES :: "(byte \<times> string) list" where
  "CODE_NAMES =
     [(CODE_EMPTY, ''Empty''),
      (coap_code 0 1, ''Get''), (coap_code 0 2, ''Post''), (coap_code 0 3, ''Put''),
      (coap_code 0 4, ''Delete''), (coap_code 0 5, ''Fetch''), (coap_code 0 6, ''Patch''),
      (coap_code 0 7, ''iPatch''),
      (coap_code 2 1, ''Created''), (coap_code 2 2, ''Deleted''), (coap_code 2 3, ''Valid''),
      (coap_code 2 4, ''Changed''), (coap_code 2 5, ''Content''), (coap_code 2 31, ''Continue''),
      (coap_code 4 0, ''Bad Request''), (coap_code 4 1, ''Unauthorized''),
      (coap_code 4 2, ''Bad Option''), (coap_code 4 3, ''Forbidden''), (coap_code 4 4, ''Not Found''),
      (coap_code 4 5, ''Method Not Allowed''), (coap_code 4 6, ''Not Acceptable''),
      (coap_code 4 8, ''Request Entity Incomplete''), (coap_code 4 12, ''Precondition Failed''),
      (coap_code 4 13, ''Entity Too Large''), (coap_code 4 15, ''Unsupported Content Format''),
      (coap_code 5 0, ''Internal Server Error''), (coap_code 5 1, ''Not Implemented''),
      (coap_code 5 2, ''Bad Gateway''), (coap_code 5 3, ''Service Unavailable''),
      (coap_code 5 4, ''Gateway Timeout''), (coap_code 5 5, ''Proxying Not Supported'')]"

fun code_name :: "(byte \<times> string) list \<Rightarrow> byte \<Rightarrow> string" where
  "code_name [] code = ''unknown''"
| "code_name ((c, name) # rest) code = (if c = code then name else code_name rest code)"

definition digit :: "nat \<Rightarrow> char" where
  "digit n = char_of (48 + n)"

text \<open>
  \<open>avs_simple_snprintf\<close> fails when the string and its terminator do not fit the buffer; the
  code then runs into \<open>AVS_UNREACHABLE\<close>.
\<close>

definition code_to_string :: "byte \<Rightarrow> nat \<Rightarrow> string option" where
  "code_to_string code buf_size = do {
     let cls = unat (code_get_class code);
     let detail = unat (code_get_detail code);
     let s = [digit cls, CHR ''.'', digit (detail div 10), digit (detail mod 10), CHR '' '']
             @ code_name CODE_NAMES code;
     c_assert (length s < buf_size);
     Some s }"

section \<open>Classes and details\<close>

lemma u8_224_not_mask: "(224 :: byte) = NOT (mask 5)"
  by (simp add: mask_numeral)

lemma u8_and_224: "unat (b AND 224 :: byte) = 32 * (unat b div 32)"
  unfolding u8_224_not_mask unat_and_not_mask by simp

lemma code_class_nat: "unat (code_get_class c) = unat c div 32"
  unfolding code_get_class_def field_get_def unat_drop_bit_div u8_and_224 by simp

lemma code_detail_nat: "unat (code_get_detail c) = unat c mod 32"
  using unat_and_mask [of c 5] by (simp add: code_get_detail_def field_get_def mask_numeral)

lemma code_class_less: "unat (code_get_class c) < 8"
  using byte_lt_256 [of c] by (simp add: code_class_nat less_mult_imp_div_less del: byte_lt_256)

lemma code_classes_nat:
  "code_is_request c \<longleftrightarrow> 0 < unat c \<and> unat c < 32"
  "code_is_success c \<longleftrightarrow> unat c div 32 = 2"
  "code_is_client_error c \<longleftrightarrow> unat c div 32 = 4"
  "code_is_server_error c \<longleftrightarrow> unat c div 32 = 5"
proof -
  have eq: "code_get_class c = k \<longleftrightarrow> unat c div 32 = unat k" for k
    by (metis code_class_nat byte_eqI)
  have "code_get_detail c > 0 \<longleftrightarrow> unat c mod 32 > 0"
    by (metis code_detail_nat unat_gt_0 word_neq_0_conv)
  then show "code_is_request c \<longleftrightarrow> 0 < unat c \<and> unat c < 32"
    unfolding code_is_request_def eq by (simp add: div_eq_0_iff) (metis mod_less mod_0 gr0I less_numeral_extra(3))
  show "code_is_success c \<longleftrightarrow> unat c div 32 = 2" "code_is_client_error c \<longleftrightarrow> unat c div 32 = 4"
    "code_is_server_error c \<longleftrightarrow> unat c div 32 = 5"
    by (simp_all add: code_is_success_def code_is_client_error_def code_is_server_error_def eq)
qed

lemma request_not_response: "code_is_request c \<Longrightarrow> \<not> code_is_response c"
  by (auto simp: code_is_response_def code_classes_nat)

lemma code_name_bound: "length (code_name CODE_NAMES c) \<le> 26"
proof -
  have gen: "\<forall>x \<in> set t. length (snd x) \<le> 26 \<Longrightarrow> length (code_name t c) \<le> 26" for t
    by (induction t) auto
  show ?thesis by (rule gen) (simp add: CODE_NAMES_def)
qed

text \<open>The buffer of 32 bytes of the macro \<open>AVS_COAP_CODE_STRING\<close> is enough for every one of
  the 256 codes, so the unreachable branch of \<open>avs_coap_code_to_string\<close> is never taken; and it
  is not a byte too large, since \<open>4.15 Unsupported Content Format\<close> with its terminator takes
  all of it.\<close>

theorem code_to_string_fits:
  "code_to_string c 32 \<noteq> None \<and> code_to_string (coap_code 4 15) 31 = None"
proof -
  have "code_to_string c 32 \<noteq> None" using code_name_bound [of c]
    by (simp add: code_to_string_def Let_def c_assert_def)
  moreover have "code_name CODE_NAMES (coap_code 4 15) = ''Unsupported Content Format''"
    by (simp add: CODE_NAMES_def coap_code_def CODE_EMPTY_def)
  ultimately show ?thesis by (simp add: code_to_string_def Let_def c_assert_def)
qed

text \<open>Building a code from a class below 8 and a detail below 32 and taking it apart again
  gives the class and the detail, and every code is one of: empty, a request, a response, or of a
  class that is neither; requests and responses exclude each other.\<close>

theorem coap_code_parts:
  assumes "unat cls < 8" and "unat detail < 32"
  shows "code_get_class (coap_code cls detail) = cls \<and> code_get_detail (coap_code cls detail) = detail
    \<and> \<not> (code_is_request (coap_code cls detail) \<and> code_is_response (coap_code cls detail))"
proof -
  have a: "unat (push_bit 5 cls AND 0xE0) = 32 * unat cls"
  proof -
    have "unat (push_bit 5 cls AND 224) = 32 * (unat (push_bit 5 cls) div 32)"
      by (rule u8_and_224)
    moreover have "unat (push_bit 5 cls) = take_bit 8 (unat cls * 32)"
      unfolding unsigned_push_bit_eq by (simp add: push_bit_eq_mult)
    moreover have "take_bit 8 (unat cls * 32) = unat cls * 32"
      using assms(1) by (intro take_bit_nat_eq_self) simp
    ultimately show ?thesis by simp
  qed
  have b: "unat (push_bit 0 detail AND 0x1F) = unat detail"
    using unat_and_mask [of detail 5] assms(2) by (simp add: mask_numeral)
  have "(push_bit 5 cls AND 0xE0) AND (push_bit 0 detail AND 0x1F :: byte) = 0"
  proof -
    have "(0x1F :: byte) = NOT 0xE0" by simp
    then show ?thesis by (simp only:) (rule bit_word_eqI, auto simp: bit_simps)
  qed
  from unat_or_disjoint [OF this] have "unat (coap_code cls detail) = 32 * unat cls + unat detail"
    by (simp only: coap_code_def a b)
  then show ?thesis using assms
    by (auto intro!: byte_eqI simp: code_class_nat code_detail_nat request_not_response)
qed

theorem coap_code_parts_witness:
  "code_get_class (coap_code 4 15) = 4 \<and> code_get_detail (coap_code 4 15) = 15"
  using coap_code_parts [of 4 15] by simp

end
