(* ===== verification/Coap_Options_Match.thy ===== *)
theory Coap_Options_Match
  imports Coap_Options_Valid Coap_Code
begin

text \<open>
  Reading all options of a number through an iterator, comparing two sets of options, the
  request key that is kept between the requests of a block-wise transfer, and the rules that say
  whether a request continues such a transfer (\<open>avs_coap_options.c\<close>).
\<close>

section \<open>Reading through an iterator\<close>

text \<open>The loop of \<open>get_option_it\<close>, with a flag for an option found.\<close>

partial_function (option) optit_seek :: "coap_options \<Rightarrow> nat \<Rightarrow> optit \<Rightarrow> (optit \<times> bool) option" where
  "optit_seek opts n it = do {
     e \<leftarrow> optit_end opts it;
     if e then Some (it, False)
     else do {
       k \<leftarrow> optit_number opts it;
       if k = n then Some (it, True)
       else do { it' \<leftarrow> optit_next opts it; optit_seek opts n it' } } }"

text \<open>
  The iterator is \<open>None\<close> when it is \<open>AVS_COAP_OPTION_ITERATOR_EMPTY\<close>. \<open>out\<close> stands for the
  caller's size variable and buffer, which \<open>fetch_value\<close> updates. The result code is 0, the
  positive \<open>AVS_COAP_OPTION_MISSING\<close>, or negative.
\<close>

type_synonym out_buffer = "nat \<times> bytes"

definition AVS_COAP_OPTION_MISSING :: int where "AVS_COAP_OPTION_MISSING = 1"

definition get_option_it ::
  "coap_options \<Rightarrow> nat \<Rightarrow> optit option \<Rightarrow> (nat \<Rightarrow> out_buffer \<Rightarrow> (int \<times> out_buffer) option)
     \<Rightarrow> out_buffer \<Rightarrow> (optit \<times> int \<times> out_buffer) option" where
  "get_option_it opts option_number it fetch_value out = do {
     let it = (case it of None \<Rightarrow> optit_begin | Some it \<Rightarrow> it);
     (it, found) \<leftarrow> optit_seek opts option_number it;
     if \<not> found then Some (it, AVS_COAP_OPTION_MISSING, out)
     else do {
       opt \<leftarrow> optit_current opts it;
       (retval, out) \<leftarrow> fetch_value opt out;
       if retval = 0 then do { it \<leftarrow> optit_next opts it; Some (it, 0, out) }
       else Some (it, retval, out) } }"

definition fetch_bytes :: "bytes \<Rightarrow> nat \<Rightarrow> nat \<Rightarrow> out_buffer \<Rightarrow> (int \<times> out_buffer) option" where
  "fetch_bytes m buffer_size opt out = do {
     len \<leftarrow> option_content_length m opt;
     if buffer_size < len then Some (- 1, len, snd out)
     else do {
       val \<leftarrow> option_value m opt;
       bs \<leftarrow> rd_bytes m val len;
       buffer \<leftarrow> wr_bytes (snd out) 0 bs;
       Some (0, len, buffer) } }"

definition fetch_string :: "bytes \<Rightarrow> nat \<Rightarrow> nat \<Rightarrow> out_buffer \<Rightarrow> (int \<times> out_buffer) option" where
  "fetch_string m buffer_size opt out = option_string_value m opt (snd out) buffer_size"

definition options_get_bytes_it ::
  "coap_options \<Rightarrow> nat \<Rightarrow> optit option \<Rightarrow> out_buffer \<Rightarrow> nat \<Rightarrow> (optit \<times> int \<times> out_buffer) option" where
  "options_get_bytes_it opts option_number it out buffer_size =
     get_option_it opts option_number it (fetch_bytes (opts_mem opts) buffer_size) out"

definition options_get_string_it ::
  "coap_options \<Rightarrow> nat \<Rightarrow> optit option \<Rightarrow> out_buffer \<Rightarrow> nat \<Rightarrow> (optit \<times> int \<times> out_buffer) option" where
  "options_get_string_it opts option_number it out buffer_size =
     get_option_it opts option_number it (fetch_string (opts_mem opts) buffer_size) out"

definition options_get_etag_it ::
  "coap_options \<Rightarrow> optit option \<Rightarrow> etag \<Rightarrow> (optit \<times> int \<times> etag) option" where
  "options_get_etag_it opts it out_etag = do {
     (it, retval, bytes_read, buf) \<leftarrow>
        get_option_it opts OPTION_ETAG it (fetch_bytes (opts_mem opts) 8) (0, etag_bytes out_etag);
     if retval = 0 then do {
       c_assert (bytes_read \<le> 8);
       Some (it, 0, \<lparr>etag_size = bytes_read, etag_bytes = buf\<rparr>) }
     else Some (it, retval, \<lparr>etag_size = 0, etag_bytes = replicate 8 0\<rparr>) }"

definition options_skip_it :: "coap_options \<Rightarrow> optit \<Rightarrow> (optit \<times> int) option" where
  "options_skip_it opts it = do {
     e \<leftarrow> optit_end opts it;
     if \<not> e then do { it \<leftarrow> optit_next opts it; Some (it, 0) }
     else Some (it, - 1) }"

section \<open>Comparing options\<close>

definition is_option_identical :: "bytes \<Rightarrow> nat \<Rightarrow> bytes \<Rightarrow> nat \<Rightarrow> bool option" where
  "is_option_identical ma a mb b = do {
     len_a \<leftarrow> option_content_length ma a;
     len_b \<leftarrow> option_content_length mb b;
     if len_a = len_b then do {
       va \<leftarrow> option_value ma a;
       vb \<leftarrow> option_value mb b;
       x \<leftarrow> rd_bytes ma va len_a;
       y \<leftarrow> rd_bytes mb vb len_a;
       Some (x = y) }
     else Some False }"

partial_function (option) optit_skip_until ::
  "coap_options \<Rightarrow> (nat \<Rightarrow> bool) \<Rightarrow> optit \<Rightarrow> optit option" where
  "optit_skip_until opts predicate it = do {
     e \<leftarrow> optit_end opts it;
     if e then Some it
     else do {
       opt_num \<leftarrow> optit_number opts it;
       c_assert (opt_num \<le> UINT16_MAX);
       if predicate opt_num then Some it
       else do { it' \<leftarrow> optit_next opts it; optit_skip_until opts predicate it' } } }"

definition optit_next_matching :: "coap_options \<Rightarrow> (nat \<Rightarrow> bool) \<Rightarrow> optit \<Rightarrow> optit option" where
  "optit_next_matching opts selector it = do {
     it \<leftarrow> optit_next opts it;
     optit_skip_until opts selector it }"

text \<open>The comparison loop, and the test for an excess option in either set that follows it.\<close>

partial_function (option) selected_equal_loop ::
  "coap_options \<Rightarrow> coap_options \<Rightarrow> (nat \<Rightarrow> bool) \<Rightarrow> optit \<Rightarrow> optit \<Rightarrow> bool option" where
  "selected_equal_loop first second selector it_first it_second = do {
     e1 \<leftarrow> optit_end first it_first;
     e2 \<leftarrow> optit_end second it_second;
     if \<not> e1 \<and> \<not> e2 then do {
       n1 \<leftarrow> optit_number first it_first;
       n2 \<leftarrow> optit_number second it_second;
       if n1 \<noteq> n2 then Some False
       else do {
         o1 \<leftarrow> optit_current first it_first;
         o2 \<leftarrow> optit_current second it_second;
         same \<leftarrow> is_option_identical (opts_mem first) o1 (opts_mem second) o2;
         if \<not> same then Some False
         else do {
           it1 \<leftarrow> optit_next_matching first selector it_first;
           it2 \<leftarrow> optit_next_matching second selector it_second;
           selected_equal_loop first second selector it1 it2 } } }
     else Some (e1 \<and> e2) }"

definition selected_options_equal ::
  "coap_options \<Rightarrow> coap_options \<Rightarrow> (nat \<Rightarrow> bool) \<Rightarrow> bool option" where
  "selected_options_equal first second selector = do {
     it1 \<leftarrow> optit_skip_until first selector optit_begin;
     it2 \<leftarrow> optit_skip_until second selector optit_begin;
     selected_equal_loop first second selector it1 it2 }"

definition option_must_not_change_during_transfer :: "nat \<Rightarrow> bool" where
  "option_must_not_change_during_transfer opt_num \<longleftrightarrow>
     (option_is_critical opt_num \<and> opt_num \<noteq> OPTION_BLOCK1 \<and> opt_num \<noteq> OPTION_BLOCK2)
     \<or> opt_num = OPTION_CONTENT_FORMAT"

definition is_request_key_option :: "nat \<Rightarrow> bool" where
  "is_request_key_option opt_num \<longleftrightarrow>
     option_must_not_change_during_transfer opt_num \<or> opt_num = OPTION_BLOCK1 \<or> opt_num = OPTION_BLOCK2"

section \<open>The request key\<close>

partial_function (option) request_key_size_loop ::
  "coap_options \<Rightarrow> optit \<Rightarrow> nat \<Rightarrow> nat \<Rightarrow> nat option" where
  "request_key_size_loop opts it space_required prev_opt_num = do {
     e \<leftarrow> optit_end opts it;
     if e then Some space_required
     else do {
       opt_num \<leftarrow> optit_number opts it;
       c_assert (opt_num \<le> UINT16_MAX);
       (space_required, prev_opt_num) \<leftarrow>
         (if is_request_key_option opt_num then do {
            opt \<leftarrow> optit_current opts it;
            delta \<leftarrow> size_minus opt_num prev_opt_num;
            n \<leftarrow> option_content_length (opts_mem opts) opt;
            hdr \<leftarrow> get_opt_header_size delta n;
            Some (space_required + (hdr + n), opt_num) }
          else Some (space_required, prev_opt_num));
       it' \<leftarrow> optit_next opts it;
       request_key_size_loop opts it' space_required prev_opt_num } }"

definition options_request_key_size :: "coap_options \<Rightarrow> nat option" where
  "options_request_key_size opts = request_key_size_loop opts optit_begin 0 0"

partial_function (option) copy_key_loop ::
  "coap_options \<Rightarrow> optit \<Rightarrow> coap_options \<Rightarrow> coap_options option" where
  "copy_key_loop opts it copy = do {
     e \<leftarrow> optit_end opts it;
     if e then Some copy
     else do {
       opt_num \<leftarrow> optit_number opts it;
       c_assert (opt_num \<le> UINT16_MAX);
       copy \<leftarrow>
         (if is_request_key_option opt_num then do {
            opt \<leftarrow> optit_current opts it;
            val \<leftarrow> option_value (opts_mem opts) opt;
            n \<leftarrow> option_content_length (opts_mem opts) opt;
            c_assert (n \<le> UINT16_MAX);
            dat \<leftarrow> rd_bytes (opts_mem opts) val n;
            (copy, err) \<leftarrow> options_add_opaque None copy opt_num dat n;
            c_assert (err = AVS_OK);
            Some copy }
          else Some copy);
       it' \<leftarrow> optit_next opts it;
       copy_key_loop opts it' copy } }"

definition options_copy_request_key :: "coap_options \<Rightarrow> bytes \<Rightarrow> nat \<Rightarrow> coap_options option" where
  "options_copy_request_key opts buffer buffer_size = do {
     key_size \<leftarrow> options_request_key_size opts;
     c_assert (key_size \<le> buffer_size);
     copy_key_loop opts optit_begin (options_create_empty buffer buffer_size) }"

section \<open>Block-wise transfers\<close>

definition get_block_offset :: "coap_options \<Rightarrow> block_type \<Rightarrow> nat \<Rightarrow> nat option" where
  "get_block_offset opts type seq_num_offset = do {
     (block, result) \<leftarrow> options_get_block opts type;
     Some (if result = Missing then 0
           else (block_seq_num block + seq_num_offset) * block_size block) }"

definition block1_offset_matches :: "nat \<Rightarrow> coap_options \<Rightarrow> bool option" where
  "block1_offset_matches expected_offset curr_request = do {
     actual_offset \<leftarrow> get_block_offset curr_request BLOCK1 0;
     Some (expected_offset = actual_offset) }"

definition block2_offset_matches :: "coap_options \<Rightarrow> coap_options \<Rightarrow> bool option" where
  "block2_offset_matches prev_response curr_request = do {
     expected_offset \<leftarrow> get_block_offset prev_response BLOCK2 1;
     actual_offset \<leftarrow> get_block_offset curr_request BLOCK2 0;
     Some (expected_offset = actual_offset) }"

definition request_block1_offset_valid :: "coap_options \<Rightarrow> nat \<Rightarrow> bool option" where
  "request_block1_offset_valid prev offset = do {
     (block, result) \<leftarrow> options_get_block prev BLOCK1;
     if result = Missing then Some (offset = 0)
     else do {
       expected_offset_if_block \<leftarrow> get_block_offset prev BLOCK1 1;
       Some (if \<not> block_is_bert block then expected_offset_if_block = offset
             else expected_offset_if_block \<le> offset) } }"

definition options_is_sequential_block_request ::
  "coap_options \<Rightarrow> coap_options \<Rightarrow> coap_options \<Rightarrow> nat \<Rightarrow> bool option" where
  "options_is_sequential_block_request prev_response prev cur_req expected_request_payload_offset = do {
     eq \<leftarrow> selected_options_equal prev cur_req option_must_not_change_during_transfer;
     if \<not> eq then Some False
     else do {
       prev_response_has_block1 \<leftarrow> option_exists prev_response OPTION_BLOCK1;
       prev_response_has_block2 \<leftarrow> option_exists prev_response OPTION_BLOCK2;
       curr_request_has_block1 \<leftarrow> option_exists cur_req OPTION_BLOCK1;
       curr_request_has_block2 \<leftarrow> option_exists cur_req OPTION_BLOCK2;
       if prev_response_has_block1 \<and> \<not> prev_response_has_block2 then do {
         ok \<leftarrow> request_block1_offset_valid prev_response expected_request_payload_offset;
         c_assert ok;
         if curr_request_has_block1 then block1_offset_matches expected_request_payload_offset cur_req
         else Some False }
       else if prev_response_has_block2 then
         (if \<not> curr_request_has_block1 \<and> curr_request_has_block2
          then block2_offset_matches prev_response cur_req else Some False)
       else Some False } }"

definition options_block_payload_valid :: "coap_options \<Rightarrow> byte \<Rightarrow> nat \<Rightarrow> bool option" where
  "options_block_payload_valid opts code payload_size =
     (if \<not> code_is_request code \<and> \<not> code_is_response code then Some True
      else do {
        let type = (if code_is_request code then BLOCK1 else BLOCK2);
        (block, result) \<leftarrow> options_get_block opts type;
        c_assert (result \<noteq> Malformed);
        if result = Missing \<or> \<not> block_has_more block then Some True
        else if block_is_bert block
        then Some (payload_size \<noteq> 0 \<and> payload_size mod block_size block = 0)
        else Some (payload_size = block_size block) })"

definition block_type_from_code :: "byte \<Rightarrow> block_type option" where
  "block_type_from_code code =
     (if code_is_request code then Some BLOCK1
      else if code_is_response code then Some BLOCK2 else None)"

text \<open>The error, the block and whether there is one.\<close>

definition options_get_block_by_code :: "coap_options \<Rightarrow> byte \<Rightarrow> (avs_error \<times> option_block \<times> bool) option" where
  "options_get_block_by_code opts code =
     (case block_type_from_code code of
        None \<Rightarrow> Some (AVS_EINVAL, zero_block, False)
      | Some type \<Rightarrow> do {
          (block, result) \<leftarrow> options_get_block opts type;
          c_assert (result \<noteq> Malformed);
          Some (AVS_OK, block, result = Found ()) })"

section \<open>The loops on the represented list\<close>

lemma at_content:
  assumes "opts_rep opts (ys @ (n, v) # zs)"
  shows "option_value (opts_mem opts) (length (enc_opts 0 ys)) =
           Some (length (enc_opts 0 ys) + length (enc_hdr (n - last_number 0 ys) (length v)))"
    and "rd_bytes (opts_mem opts) (length (enc_opts 0 ys) + length (enc_hdr (n - last_number 0 ys) (length v))) (length v) = Some v"
proof -
  from opts_rep_split [OF assms] obtain post where
    m: "opts_mem opts = enc_opts 0 ys @ enc_opt (n - last_number 0 ys) v @ post"
    and b: "n \<le> UINT16_MAX" "length v \<le> UINT16_MAX" by metis
  have d: "n - last_number 0 ys \<le> UINT16_MAX" using b by simp
  show "option_value (opts_mem opts) (length (enc_opts 0 ys)) =
           Some (length (enc_opts 0 ys) + length (enc_hdr (n - last_number 0 ys) (length v)))"
    and "rd_bytes (opts_mem opts) (length (enc_opts 0 ys) + length (enc_hdr (n - last_number 0 ys) (length v))) (length v) = Some v"
    using enc_content [OF refl d b(2), of "enc_opts 0 ys" post] by (simp_all add: m)
qed

lemma optit_seek_at:
  "opts_rep opts (ys @ zs) \<Longrightarrow>
   optit_seek opts n (it_at ys) =
     Some (it_at (ys @ takeWhile (\<lambda>x. fst x \<noteq> n) zs), n \<in> fst ` set zs)"
proof (induction zs arbitrary: ys)
  case Nil
  then show ?case by (subst optit_seek.simps) (simp add: mem_simps)
next
  case (Cons z zs)
  obtain k v where z: "z = (k, v)" by force
  have "opts_rep opts ((ys @ [z]) @ zs)" using Cons.prems by simp
  from Cons.IH [OF this] Cons.prems show ?case
    by (subst optit_seek.simps) (auto simp: mem_simps z)
qed

lemma optit_skip_until_at:
  "opts_rep opts (ys @ zs) \<Longrightarrow>
   optit_skip_until opts P (it_at ys) = Some (it_at (ys @ takeWhile (\<lambda>x. \<not> P (fst x)) zs))"
proof (induction zs arbitrary: ys)
  case Nil
  then show ?case by (subst optit_skip_until.simps) (simp add: mem_simps)
next
  case (Cons z zs)
  obtain k v where z: "z = (k, v)" by force
  have "opts_rep opts ((ys @ [z]) @ zs)" using Cons.prems by simp
  from Cons.IH [OF this] Cons.prems opts_rep_bounds [OF Cons.prems [unfolded z]] show ?case
    by (subst optit_skip_until.simps) (simp add: mem_simps z)
qed

lemma is_option_identical_at:
  assumes "opts_rep a (as @ (n, v) # zs)" and "opts_rep b (bs @ (k, w) # ws)"
  shows "is_option_identical (opts_mem a) (length (enc_opts 0 as)) (opts_mem b) (length (enc_opts 0 bs))
    = Some (v = w)"
  using at_content [OF assms(1)] at_content [OF assms(2)] at_option(2) [OF assms(1)] at_option(2) [OF assms(2)]
  by (cases "length v = length w") (auto simp: is_option_identical_def)

definition stopped :: "(nat \<Rightarrow> bool) \<Rightarrow> opt_list \<Rightarrow> bool" where
  "stopped P zs \<longleftrightarrow> (case zs of [] \<Rightarrow> True | z # _ \<Rightarrow> P (fst z))"

lemma stopped_dropWhile [simp]: "stopped P (dropWhile (\<lambda>x. \<not> P (fst x)) zs)"
  by (induction zs) (auto simp: stopped_def)

lemma filter_dropWhile_not: "filter (\<lambda>x. P (fst x)) (dropWhile (\<lambda>x. \<not> P (fst x)) zs) = filter (\<lambda>x. P (fst x)) zs"
  by (induction zs) auto

lemma stopped_filter_Nil: "stopped P zs \<Longrightarrow> (filter (\<lambda>x. P (fst x)) zs = []) = (zs = [])"
  by (cases zs) (auto simp: stopped_def)

lemma optit_next_matching_at:
  assumes "opts_rep opts (ys @ (n, v) # zs)"
  shows "optit_next_matching opts P (it_at ys) =
    Some (it_at ((ys @ [(n, v)]) @ takeWhile (\<lambda>x. \<not> P (fst x)) zs))"
proof -
  have "opts_rep opts ((ys @ [(n, v)]) @ zs)" using assms by simp
  from optit_skip_until_at [OF this] show ?thesis
    by (simp add: optit_next_matching_def optit_next_at [OF assms])
qed

lemma selected_equal_loop_at:
  assumes "opts_rep a (as @ zs)" "opts_rep b (bs @ ws)" "stopped P zs" "stopped P ws"
  shows "selected_equal_loop a b P (it_at as) (it_at bs)
    = Some (filter (\<lambda>x. P (fst x)) zs = filter (\<lambda>x. P (fst x)) ws)"
  using assms
proof (induction "length zs" arbitrary: as bs zs ws rule: less_induct)
  case less
  note end1 = optit_end_at [OF less.prems(1)] and end2 = optit_end_at [OF less.prems(2)]
  consider "zs = []" | "ws = []" "zs \<noteq> []" | n v zs' k w ws' where "zs = (n, v) # zs'" "ws = (k, w) # ws'"
    by (cases zs; cases ws) auto
  then show ?case
  proof cases
    case 1
    then show ?thesis using end1 end2 stopped_filter_Nil [OF less.prems(4)]
      by (subst selected_equal_loop.simps) (auto dest: sym)
  next
    case 2
    then show ?thesis using end1 end2 stopped_filter_Nil [OF less.prems(3)]
      by (subst selected_equal_loop.simps) auto
  next
    case 3
    note rep1 = less.prems(1) [unfolded 3] and rep2 = less.prems(2) [unfolded 3]
    have P: "P n" "P k" using less.prems(3,4) by (simp_all add: 3 stopped_def)
    let ?r1 = "dropWhile (\<lambda>x. \<not> P (fst x)) zs'" and ?r2 = "dropWhile (\<lambda>x. \<not> P (fst x)) ws'"
    let ?a = "(as @ [(n, v)]) @ takeWhile (\<lambda>x. \<not> P (fst x)) zs'"
    let ?b = "(bs @ [(k, w)]) @ takeWhile (\<lambda>x. \<not> P (fst x)) ws'"
    have l: "length ?r1 < length zs" using length_dropWhile_le [of _ zs'] by (simp add: 3 le_imp_less_Suc)
    have r: "opts_rep a (?a @ ?r1)" "opts_rep b (?b @ ?r2)" using rep1 rep2 by simp_all
    from less.hyps [OF l r] have IH: "selected_equal_loop a b P (it_at ?a) (it_at ?b) =
       Some (filter (\<lambda>x. P (fst x)) zs' = filter (\<lambda>x. P (fst x)) ws')"
      by (simp only: stopped_dropWhile filter_dropWhile_not)
    show ?thesis
      using end1 end2 P IH is_option_identical_at [OF rep1 rep2] optit_number_at [OF rep1] optit_number_at [OF rep2]
        optit_current_at [OF rep1] optit_current_at [OF rep2]
        optit_next_matching_at [OF rep1, of P] optit_next_matching_at [OF rep2, of P]
      by (subst selected_equal_loop.simps) (auto simp: 3)
  qed
qed

lemma selected_options_equal_spec:
  assumes "opts_rep a xs" "opts_rep b ys"
  shows "selected_options_equal a b P = Some (filter (\<lambda>x. P (fst x)) xs = filter (\<lambda>x. P (fst x)) ys)"
proof -
  let ?z = "dropWhile (\<lambda>x. \<not> P (fst x))" and ?t = "takeWhile (\<lambda>x. \<not> P (fst x))"
  have r: "opts_rep a (?t xs @ ?z xs)" "opts_rep b (?t ys @ ?z ys)" using assms by simp_all
  have "optit_skip_until a P optit_begin = Some (it_at (?t xs))" "optit_skip_until b P optit_begin = Some (it_at (?t ys))"
    using optit_skip_until_at [of a "[]" xs P] optit_skip_until_at [of b "[]" ys P] assms by (simp_all add: it_at_begin)
  with selected_equal_loop_at [OF r] show ?thesis
    by (simp add: selected_options_equal_def filter_dropWhile_not)
qed

text \<open>Comparing two sets of options through a selector answers whether the selected options,
  with their contents and in their order, are the same in both; the comparison always returns.\<close>

theorem selected_options_equal_correct:
  assumes "opts_rep a xs" and "opts_rep b ys"
  shows "selected_options_equal a b P
    = Some (filter (\<lambda>x. P (fst x)) xs = filter (\<lambda>x. P (fst x)) ys)"
  using assms by (rule selected_options_equal_spec)

theorem selected_options_equal_witness:
  "selected_options_equal
     \<lparr>opts_mem = [0xB1, 65, 0x12, 66, 67], opts_size = 5, opts_capacity = 5, opts_allocated = False\<rparr>
     \<lparr>opts_mem = [0xB1, 65, 0x31, 1], opts_size = 4, opts_capacity = 4, opts_allocated = False\<rparr>
     option_is_critical = Some True"
proof -
  have "opts_rep \<lparr>opts_mem = [0xB1, 65, 0x12, 66, 67], opts_size = 5, opts_capacity = 5, opts_allocated = False\<rparr>
      [(11, [65]), (12, [66, 67])]"
    and "opts_rep \<lparr>opts_mem = [0xB1, 65, 0x31, 1], opts_size = 4, opts_capacity = 4, opts_allocated = False\<rparr>
      [(11, [65]), (14, [1])]"
    by (simp_all add: opts_rep_def enc_opt_def enc_hdr_def nib_def enc_ext_def byte_of_def)
  from selected_options_equal_correct [OF this] show ?thesis by (simp add: option_is_critical_def)
qed

section \<open>Iterating over the options of a number\<close>

lemma get_bytes_it_found:
  assumes rep: "opts_rep opts (ys @ as @ (n, v) # zs)" and n: "n \<notin> fst ` set as"
    and it: "it = Some (it_at ys) \<or> it = None \<and> ys = []"
    and b: "length v \<le> k" "k \<le> length (snd out)"
  shows "options_get_bytes_it opts n it out k =
    Some (it_at (ys @ as @ [(n, v)]), 0, length v, v @ drop (length v) (snd out))"
proof -
  have rep': "opts_rep opts ((ys @ as) @ (n, v) # zs)" using rep by simp
  have "takeWhile (\<lambda>x. fst x \<noteq> n) (as @ (n, v) # zs) = as"
    using n by (subst takeWhile_append2) force+
  with optit_seek_at [OF rep, of n] have s: "optit_seek opts n (it_at ys) = Some (it_at (ys @ as), True)"
    by simp
  have "fetch_bytes (opts_mem opts) k (length (enc_opts 0 (ys @ as))) out = Some (0, length v, v @ drop (length v) (snd out))"
    using at_content [OF rep'] at_option(2) [OF rep'] b
    by (auto simp: fetch_bytes_def wr_bytes_def simp del: enc_opts_append)
  with s it optit_current_at [OF rep'] optit_next_at [OF rep'] show ?thesis
    by (auto simp: options_get_bytes_it_def get_option_it_def it_at_begin)
qed

lemma get_bytes_it_missing:
  assumes rep: "opts_rep opts (ys @ zs)" and n: "n \<notin> fst ` set zs"
    and it: "it = Some (it_at ys) \<or> it = None \<and> ys = []"
  shows "options_get_bytes_it opts n it out k = Some (it_at (ys @ zs), AVS_COAP_OPTION_MISSING, out)"
proof -
  have "takeWhile (\<lambda>x. fst x \<noteq> n) zs = zs" using n by (intro takeWhile_eq_all_conv [THEN iffD2]) force
  with optit_seek_at [OF rep, of n] n have "optit_seek opts n (it_at ys) = Some (it_at (ys @ zs), False)"
    by simp
  with it show ?thesis by (auto simp: options_get_bytes_it_def get_option_it_def it_at_begin)
qed

text \<open>
  The loop that \<open>option.h\<close> documents for a repeated option: call
  \<open>avs_coap_options_get_bytes_it\<close> with the same iterator until it fails, and keep what each
  call delivered.
\<close>

partial_function (option) collect_bytes ::
  "coap_options \<Rightarrow> nat \<Rightarrow> optit option \<Rightarrow> out_buffer \<Rightarrow> nat \<Rightarrow> (bytes list \<times> int) option" where
  "collect_bytes opts n it out buffer_size = do {
     (it, retval, out) \<leftarrow> options_get_bytes_it opts n it out buffer_size;
     if retval = 0 then do {
       (vs, rc) \<leftarrow> collect_bytes opts n (Some it) out buffer_size;
       Some (take (fst out) (snd out) # vs, rc) }
     else Some ([], retval) }"

lemma collect_bytes_at:
  assumes "opts_rep opts (ys @ zs)" and "\<forall>x \<in> set zs. fst x = n \<longrightarrow> length (snd x) \<le> k"
    and "k \<le> length (snd out)" and "it = Some (it_at ys) \<or> it = None \<and> ys = []"
  shows "collect_bytes opts n it out k
    = Some (map snd (filter (\<lambda>x. fst x = n) zs), AVS_COAP_OPTION_MISSING)"
  using assms
proof (induction "length zs" arbitrary: ys zs it out rule: less_induct)
  case less
  show ?case
  proof (cases "n \<in> fst ` set zs")
    case False
    then have "filter (\<lambda>x. fst x = n) zs = []" by (force simp: filter_empty_conv)
    with get_bytes_it_missing [OF less.prems(1) False less.prems(4)] show ?thesis
      by (subst collect_bytes.simps) (simp add: AVS_COAP_OPTION_MISSING_def)
  next
    case True
    then obtain v where "map_of zs n = Some v" by (metis map_of_eq_None_iff not_None_eq)
    from map_of_first [OF this] obtain bs where zs: "zs = takeWhile (\<lambda>x. fst x \<noteq> n) zs @ (n, v) # bs" by blast
    define as where "as = takeWhile (\<lambda>x. fst x \<noteq> n) zs"
    have zs: "zs = as @ (n, v) # bs" using zs by (simp add: as_def)
    have n: "n \<notin> fst ` set as" by (auto simp: as_def dest: set_takeWhileD)
    then have f: "filter (\<lambda>x. fst x = n) as = []" by (force simp: filter_empty_conv)
    have v: "length v \<le> k" using less.prems(2) by (simp add: zs)
    note get = get_bytes_it_found [OF less.prems(1) [unfolded zs] n less.prems(4) v less.prems(3)]
    let ?out = "(length v, v @ drop (length v) (snd out))"
    have rep: "opts_rep opts ((ys @ as @ [(n, v)]) @ bs)" using less.prems(1) by (simp add: zs)
    have "length bs < length zs" "k \<le> length (snd ?out)" using less.prems(3) by (simp_all add: zs)
    from less.hyps [OF this(1) rep _ this(2), of "Some (it_at (ys @ as @ [(n, v)]))"] less.prems(2)
    have "collect_bytes opts n (Some (it_at (ys @ as @ [(n, v)]))) ?out k
        = Some (map snd (filter (\<lambda>x. fst x = n) bs), AVS_COAP_OPTION_MISSING)" by (simp add: zs)
    with get show ?thesis by (subst collect_bytes.simps) (simp add: zs f)
  qed
qed

text \<open>Calling \<open>avs_coap_options_get_bytes_it\<close> with one iterator until it fails delivers the
  contents of all options of the number, in order and unchanged, and ends with
  \<open>AVS_COAP_OPTION_MISSING\<close>, when every content fits the caller's buffer.\<close>

theorem get_bytes_it_collects_all:
  assumes "opts_rep opts xs" and "\<forall>x \<in> set xs. fst x = n \<longrightarrow> length (snd x) \<le> buffer_size"
    and "buffer_size \<le> length buffer"
  shows "collect_bytes opts n None (out_size, buffer) buffer_size
    = Some (map snd (filter (\<lambda>x. fst x = n) xs), AVS_COAP_OPTION_MISSING)"
  using assms collect_bytes_at [of opts "[]" xs n buffer_size "(out_size, buffer)" None] by simp

theorem get_bytes_it_collects_all_witness:
  "collect_bytes \<lparr>opts_mem = [0xB1, 65, 0x01, 66, 0x12, 1, 2], opts_size = 7, opts_capacity = 7,
       opts_allocated = False\<rparr> 11 None (0, [9, 9]) 2 = Some ([[65], [66]], 1)"
proof -
  have "opts_rep \<lparr>opts_mem = [0xB1, 65, 0x01, 66, 0x12, 1, 2], opts_size = 7, opts_capacity = 7,
       opts_allocated = False\<rparr> [(11, [65]), (11, [66]), (12, [1, 2])]"
    by (simp add: opts_rep_def enc_opt_def enc_hdr_def nib_def enc_ext_def byte_of_def)
  from get_bytes_it_collects_all [OF this, of 11 2 "[9, 9]" 0] show ?thesis
    by (simp add: AVS_COAP_OPTION_MISSING_def)
qed

section \<open>The request key on the represented list\<close>

abbreviation key_of :: "opt_list \<Rightarrow> opt_list" where
  "key_of xs \<equiv> filter (\<lambda>x. is_request_key_option (fst x)) xs"

lemma wf_opts_mono: "wf_opts p xs \<Longrightarrow> q \<le> p \<Longrightarrow> wf_opts q xs"
  by (cases xs) auto

lemma wf_opts_filter: "wf_opts p xs \<Longrightarrow> wf_opts p (filter P xs)"
  by (induction p xs rule: wf_opts.induct) (auto intro: wf_opts_mono)

lemma wf_opts_upper: "wf_opts p (xs @ (n, v) # ys) \<Longrightarrow> x \<in> set xs \<Longrightarrow> fst x \<le> n"
proof (induction p xs rule: wf_opts.induct)
  case (2 p k w zs)
  have "k \<le> n" using "2.prems"(1) wf_opts_ge [of k "zs @ (n, v) # ys" n v] by auto
  with 2 show ?case by auto
qed simp

lemma last_number_in: "last_number p xs = p \<or> last_number p xs \<in> fst ` set xs"
  by (induction p xs rule: last_number.induct) auto

lemma last_number_upper: "\<forall>x \<in> set xs. fst x \<le> n \<Longrightarrow> p \<le> n \<Longrightarrow> last_number p xs \<le> n"
  using last_number_in [of p xs] by auto

lemma ins_opt_end: "\<forall>x \<in> set xs. fst x \<le> n \<Longrightarrow> ins_opt n v xs = xs @ [(n, v)]"
  by (simp add: ins_opt_def)

lemma request_key_size_at:
  "opts_rep opts (ys @ zs) \<Longrightarrow>
   request_key_size_loop opts (it_at ys) s (last_number 0 (key_of ys))
     = Some (s + length (enc_opts (last_number 0 (key_of ys)) (key_of zs)))"
proof (induction zs arbitrary: ys s)
  case Nil
  then show ?case by (subst request_key_size_loop.simps) (simp add: mem_simps)
next
  case (Cons z zs)
  obtain n v where z: "z = (n, v)" by force
  note rep = Cons.prems [unfolded z]
  have rep': "opts_rep opts ((ys @ [(n, v)]) @ zs)" using rep by simp
  have wf: "wf_opts 0 (ys @ (n, v) # zs)" using rep by (simp add: opts_rep_def)
  let ?p = "last_number 0 (key_of ys)"
  have p: "?p \<le> n" using wf_opts_upper [OF wf] by (intro last_number_upper) auto
  have b: "n \<le> UINT16_MAX" "length v \<le> UINT16_MAX" using opts_rep_bounds [OF rep] by auto
  then have d: "n - ?p \<le> UINT16_MAX" by simp
  show ?case
    using Cons.IH [OF rep'] rep p b d
    by (subst request_key_size_loop.simps, cases "is_request_key_option n")
      (simp_all add: mem_simps z get_opt_header_size_enc enc_opt_def ac_simps)
qed

lemma request_key_size_spec:
  "opts_rep opts xs \<Longrightarrow> options_request_key_size opts = Some (length (enc_opts 0 (key_of xs)))"
  using request_key_size_at [of opts "[]" xs 0] by (simp add: options_request_key_size_def it_at_begin)

lemma copy_key_at:
  "opts_rep opts (ys @ zs) \<Longrightarrow> opts_rep copy (key_of ys) \<Longrightarrow> \<not> opts_allocated copy \<Longrightarrow>
   length (enc_opts 0 (key_of (ys @ zs))) \<le> opts_capacity copy \<Longrightarrow>
   \<exists>copy'. copy_key_loop opts (it_at ys) copy = Some copy' \<and> opts_rep copy' (key_of (ys @ zs))
     \<and> opts_capacity copy' = opts_capacity copy \<and> \<not> opts_allocated copy'"
proof (induction zs arbitrary: ys copy)
  case Nil
  then show ?case by (subst copy_key_loop.simps) (simp add: mem_simps)
next
  case (Cons z zs)
  obtain n v where z: "z = (n, v)" by force
  note rep = Cons.prems(1) [unfolded z]
  have rep': "opts_rep opts ((ys @ [(n, v)]) @ zs)" using rep by simp
  have wf: "wf_opts 0 (ys @ (n, v) # zs)" using rep by (simp add: opts_rep_def)
  have b: "n \<le> UINT16_MAX" "length v \<le> UINT16_MAX" using opts_rep_bounds [OF rep] by auto
  show ?case
  proof (cases "is_request_key_option n")
    case False
    with Cons.IH [OF rep', of copy] Cons.prems b show ?thesis
      by (subst copy_key_loop.simps) (simp add: mem_simps z)
  next
    case True
    have ins: "ins_opt n v (key_of ys) = key_of (ys @ [(n, v)])"
      using wf_opts_upper [OF wf] True by (subst ins_opt_end) auto
    have "length (enc_opts 0 (ins_opt n v (key_of ys))) \<le> opts_capacity copy"
      using Cons.prems(4) True by (simp add: ins z)
    from options_insert_correct [OF Cons.prems(2) b, of "[]"] this Cons.prems(3) ins
    obtain c1 where c1: "options_add_opaque None copy n v (length v) = Some (c1, AVS_OK)"
      "opts_rep c1 (key_of (ys @ [(n, v)]))" "opts_capacity c1 = opts_capacity copy" "\<not> opts_allocated c1"
      by (auto simp: options_add_opaque_def grow_if_required_static)
    from Cons.IH [OF rep' c1(2,4)] Cons.prems(4) c1(3) obtain c2 where
      "copy_key_loop opts (it_at (ys @ [(n, v)])) c1 = Some c2" "opts_rep c2 (key_of (ys @ z # zs))"
      "opts_capacity c2 = opts_capacity copy" "\<not> opts_allocated c2"
      by (auto simp: z simp del: filter_append)
    with c1 rep True b at_content [OF rep] show ?thesis
      by (subst copy_key_loop.simps) (simp add: mem_simps z)
  qed
qed

text \<open>C27: The size that \<open>_avs_coap_options_request_key_size\<close> computes is exactly the size of
  the key options after the others are left out, re-encoded headers included, and a buffer of
  that size is enough for \<open>_avs_coap_options_copy_request_key\<close>: the copy represents the
  critical options, the Content-Format and the BLOCK options of the request, and the branch marked
  unreachable is not reached.\<close>

theorem copy_request_key_correct:
  assumes "opts_rep opts xs" and "n = length (enc_opts 0 (key_of xs))" and "n \<le> buffer_size"
    and "buffer_size \<le> length buffer"
  shows "options_request_key_size opts = Some n
    \<and> (\<exists>copy. options_copy_request_key opts buffer buffer_size = Some copy \<and> opts_rep copy (key_of xs))"
proof -
  have "opts_rep (options_create_empty buffer buffer_size) (key_of [])"
    using empty_rep [OF assms(4)] by simp
  from copy_key_at [of opts "[]" xs, OF _ this] assms(1-3)
  have "\<exists>copy. copy_key_loop opts (it_at []) (options_create_empty buffer buffer_size) = Some copy
      \<and> opts_rep copy (key_of xs)" by (auto simp: options_create_empty_def)
  then show ?thesis using request_key_size_spec [OF assms(1)] assms(2,3)
    by (auto simp: options_copy_request_key_def it_at_begin)
qed

theorem copy_request_key_witness:
  "options_request_key_size \<lparr>opts_mem = [0xB1, 65, 0x11, 40, 0x20, 0x31, 9], opts_size = 7,
       opts_capacity = 7, opts_allocated = False\<rparr> = Some 6"
proof -
  let ?xs = "[(11, [65]), (12, [40]), (14, []), (17, [9])] :: opt_list"
  let ?o = "\<lparr>opts_mem = [0xB1, 65, 0x11, 40, 0x20, 0x31, 9], opts_size = 7,
       opts_capacity = 7, opts_allocated = False\<rparr>"
  have rep: "opts_rep ?o ?xs"
    by (simp add: opts_rep_def enc_opt_def enc_hdr_def nib_def enc_ext_def byte_of_def)
  have "key_of ?xs = [(11, [65]), (12, [40]), (17, [9])]"
    by (simp add: is_request_key_option_def option_must_not_change_during_transfer_def option_is_critical_def)
  then have "(6 :: nat) = length (enc_opts 0 (key_of ?xs))"
    by (simp add: enc_opt_def enc_hdr_def enc_ext_def)
  from copy_request_key_correct [OF rep this, of 6 "replicate 6 0"] show ?thesis by simp
qed

section \<open>Rules of block-wise transfers\<close>

definition block_in :: "opt_list \<Rightarrow> block_type \<Rightarrow> option_block option" where
  "block_in xs t = map_option (block_of_content (option_num_from_block_type t))
     (map_of xs (option_num_from_block_type t))"

lemma get_block_ok:
  assumes rep: "opts_rep opts xs" and ok: "opts_ok xs"
  shows "options_get_block opts t = Some (case block_in xs t of
     None \<Rightarrow> (zero_block, Missing) | Some b \<Rightarrow> (b, Found ()))"
proof -
  let ?n = "option_num_from_block_type t"
  have "length v \<le> 3" if "map_of xs ?n = Some v" for v
    using ok map_of_SomeD [OF that] unfolding opts_ok_def
    by (cases t) (force simp: option_num_from_block_type_def)+
  with options_get_block_rep [OF rep refl, of t] show ?thesis
    by (cases "map_of xs ?n") (auto simp: block_in_def)
qed

lemma block_exists:
  assumes "opts_rep opts xs"
  shows "option_exists opts (option_num_from_block_type t) = Some (block_in xs t \<noteq> None)"
  using option_exists_correct [OF assms] by (simp add: block_in_def)

lemmas block_exists_num =
  block_exists [of _ _ BLOCK1, unfolded option_num_from_block_type_def, simplified]
  block_exists [of _ _ BLOCK2, unfolded option_num_from_block_type_def, simplified]

definition block_start :: "option_block \<Rightarrow> nat" where
  "block_start b = block_seq_num b * block_size b"

definition block_end :: "option_block \<Rightarrow> nat" where
  "block_end b = (block_seq_num b + 1) * block_size b"

text \<open>The offset that the caller expects agrees with the BLOCK1 option of the last response.\<close>

definition expected_offset_ok :: "opt_list \<Rightarrow> nat \<Rightarrow> bool" where
  "expected_offset_ok rs off \<longleftrightarrow> (case block_in rs BLOCK1 of None \<Rightarrow> off = 0
     | Some b \<Rightarrow> if block_is_bert b then block_end b \<le> off else block_end b = off)"

definition sequential :: "opt_list \<Rightarrow> opt_list \<Rightarrow> opt_list \<Rightarrow> nat \<Rightarrow> bool" where
  "sequential rs ps cs off \<longleftrightarrow>
     filter (\<lambda>x. option_must_not_change_during_transfer (fst x)) ps
       = filter (\<lambda>x. option_must_not_change_during_transfer (fst x)) cs
     \<and> (case block_in rs BLOCK2 of
          Some r \<Rightarrow> block_in cs BLOCK1 = None
            \<and> (\<exists>b. block_in cs BLOCK2 = Some b \<and> block_start b = block_end r)
        | None \<Rightarrow> block_in rs BLOCK1 \<noteq> None
            \<and> (\<exists>b. block_in cs BLOCK1 = Some b \<and> block_start b = off))"

lemma get_block_offset_ok:
  assumes "opts_rep opts xs" "opts_ok xs"
  shows "get_block_offset opts t k = Some (case block_in xs t of None \<Rightarrow> 0
     | Some b \<Rightarrow> (block_seq_num b + k) * block_size b)"
  by (simp add: get_block_offset_def get_block_ok [OF assms] split: option.splits)

lemma request_block1_offset_valid_ok:
  assumes "opts_rep opts xs" "opts_ok xs"
  shows "request_block1_offset_valid opts off = Some (expected_offset_ok xs off)"
  by (cases "block_in xs BLOCK1")
    (simp_all add: request_block1_offset_valid_def get_block_ok [OF assms] get_block_offset_ok [OF assms]
      expected_offset_ok_def block_end_def)

text \<open>C26: A request is accepted as the continuation of a block-wise transfer exactly when its
  options that must not change equal those of the previous request, and either it carries BLOCK1
  at the expected payload offset while the previous response acknowledged a BLOCK1, or it carries
  only a BLOCK2 that starts where the block of the previous response ended.\<close>

theorem is_sequential_block_request_correct:
  assumes "opts_rep r rs" "opts_ok rs" and "opts_rep p ps" and "opts_rep c cs" "opts_ok cs"
    and "block_in rs BLOCK1 \<noteq> None \<and> block_in rs BLOCK2 = None \<longrightarrow> expected_offset_ok rs off"
  shows "options_is_sequential_block_request r p c off = Some (sequential rs ps cs off)"
proof (cases "filter (\<lambda>x. option_must_not_change_during_transfer (fst x)) ps
    = filter (\<lambda>x. option_must_not_change_during_transfer (fst x)) cs")
  case False
  then show ?thesis
    by (simp add: options_is_sequential_block_request_def selected_options_equal_spec [OF assms(3,4)] sequential_def)
next
  case True
  then show ?thesis using assms(6)
    by (cases "block_in rs BLOCK2"; cases "block_in rs BLOCK1"; cases "block_in cs BLOCK1"; cases "block_in cs BLOCK2")
      (auto simp: options_is_sequential_block_request_def selected_options_equal_spec [OF assms(3,4)] sequential_def
        block_exists_num [OF assms(1)] block_exists_num [OF assms(4)]
        request_block1_offset_valid_ok [OF assms(1,2)] block1_offset_matches_def block2_offset_matches_def
        get_block_offset_ok [OF assms(1,2)] get_block_offset_ok [OF assms(4,5)] block_start_def block_end_def)
qed

theorem is_sequential_block_request_witness:
  "options_is_sequential_block_request
     \<lparr>opts_mem = [0xD1, 14, 0x08], opts_size = 3, opts_capacity = 3, opts_allocated = False\<rparr>
     \<lparr>opts_mem = [0xD1, 14, 0x08], opts_size = 3, opts_capacity = 3, opts_allocated = False\<rparr>
     \<lparr>opts_mem = [0xD1, 14, 0x10], opts_size = 3, opts_capacity = 3, opts_allocated = False\<rparr> 16 = Some True"
proof -
  have rep: "opts_rep \<lparr>opts_mem = [0xD1, 14, b], opts_size = 3, opts_capacity = 3, opts_allocated = False\<rparr> [(27, [b])]" for b
    by (simp add: opts_rep_def enc_opt_def enc_hdr_def nib_def enc_ext_def byte_of_def)
  have ok: "opts_ok [(27, [b])]" for b
    by (simp add: opts_ok_def non_repeatable_critical_options_def)
  have seq: "sequential [(27, [0x08])] [(27, [0x08])] [(27, [0x10])] 16"
    by (simp add: sequential_def block_in_def option_num_from_block_type_def block_of_content_def
        be_nat_def block_start_def option_must_not_change_during_transfer_def option_is_critical_def)
  have "expected_offset_ok [(27, [0x08])] 16"
    by (simp add: expected_offset_ok_def block_in_def option_num_from_block_type_def block_of_content_def
        be_nat_def block_end_def)
  then show ?thesis using is_sequential_block_request_correct [OF rep ok rep rep ok] seq by simp
qed

text \<open>The payload sizes that the BLOCK option of a message allows.\<close>

definition payload_size_ok :: "opt_list \<Rightarrow> byte \<Rightarrow> nat \<Rightarrow> bool" where
  "payload_size_ok xs code n \<longleftrightarrow> (case block_type_from_code code of
      None \<Rightarrow> True
    | Some t \<Rightarrow> (case block_in xs t of
         None \<Rightarrow> True
       | Some b \<Rightarrow> block_has_more b \<longrightarrow>
           (if block_is_bert b then n \<noteq> 0 \<and> n mod 1024 = 0 else n = block_size b)))"

lemma block_payload_valid_spec:
  assumes "opts_rep opts xs" and "opts_ok xs"
  shows "options_block_payload_valid opts code n = Some (payload_size_ok xs code n)"
proof -
  have bert: "block_is_bert b \<Longrightarrow> block_size b = 1024" if "block_in xs t = Some b" for b t
    using that by (auto simp: block_in_def block_of_content_def)
  show ?thesis
    using request_not_response [of code] bert [of BLOCK1] bert [of BLOCK2]
    by (cases "block_in xs BLOCK1"; cases "block_in xs BLOCK2")
      (auto simp: options_block_payload_valid_def block_type_from_code_def get_block_ok [OF assms] payload_size_ok_def Let_def)
qed

text \<open>The payload of a message with a BLOCK option that announces more blocks is accepted
  exactly when it fills the block, or, with BERT, a positive number of blocks; the option looked at
  is BLOCK1 in a request and BLOCK2 in a response, and every other message is accepted.\<close>

theorem block_payload_valid_correct:
  assumes "opts_rep opts xs" and "opts_ok xs"
  shows "options_block_payload_valid opts code n = Some (payload_size_ok xs code n)"
  using assms by (rule block_payload_valid_spec)

theorem block_payload_valid_witness:
  "options_block_payload_valid \<lparr>opts_mem = [0xD1, 14, 0x08], opts_size = 3, opts_capacity = 3,
     opts_allocated = False\<rparr> 3 17 = Some False"
proof -
  have "opts_rep \<lparr>opts_mem = [0xD1, 14, 0x08], opts_size = 3, opts_capacity = 3, opts_allocated = False\<rparr> [(27, [8])]"
    by (simp add: opts_rep_def enc_opt_def enc_hdr_def nib_def enc_ext_def byte_of_def)
  moreover have "opts_ok [(27, [8])]" by (simp add: opts_ok_def non_repeatable_critical_options_def)
  moreover have "block_type_from_code 3 = Some BLOCK1" by (simp add: block_type_from_code_def code_classes_nat)
  ultimately show ?thesis using block_payload_valid_correct [of _ "[(27, [8])]" 3 17]
    by (simp add: payload_size_ok_def block_in_def option_num_from_block_type_def block_of_content_def be_nat_def)
qed

end
