(* ===== verification/Coap_Udp_Msg.thy ===== *)
theory Coap_Udp_Msg
  imports Coap_Options_Match
begin

text \<open>
  CoAP messages over UDP: the packet header (\<open>avs_coap_udp_header.h\<close>), tokens (\<open>token.h\<close>,
  \<open>_avs_coap_parse_token\<close>) and parsing and serializing of messages
  (\<open>avs_coap_udp_msg.c\<close>). The results are totality of the parser on every packet, and the two
  round trips between messages and packets.
\<close>

section \<open>Tokens\<close>

text \<open>A token: its size, and the array of \<open>AVS_COAP_MAX_TOKEN_LENGTH\<close> bytes that holds it.\<close>

abbreviation (input) AVS_COAP_MAX_TOKEN_LENGTH :: nat where "AVS_COAP_MAX_TOKEN_LENGTH \<equiv> 8"

record token =
  token_size :: nat
  token_bytes :: bytes

definition token_equal :: "token \<Rightarrow> token \<Rightarrow> bool option" where
  "token_equal a b =
     (if token_size a = token_size b then do {
        x \<leftarrow> rd_bytes (token_bytes a) 0 (token_size a);
        y \<leftarrow> rd_bytes (token_bytes b) 0 (token_size a);
        Some (x = y) }
      else Some False)"

definition token_valid :: "token \<Rightarrow> bool" where
  "token_valid t \<longleftrightarrow> token_size t \<le> AVS_COAP_MAX_TOKEN_LENGTH"

definition parse_token ::
  "bytes \<Rightarrow> token \<Rightarrow> nat \<Rightarrow> bytes_dispenser \<Rightarrow> (token \<times> bytes_dispenser \<times> avs_error) option" where
  "parse_token m out_token tsize dispenser = do {
     let out_token = out_token\<lparr>token_size := tsize\<rparr>;
     c_assert (tsize \<le> AVS_COAP_MAX_TOKEN_LENGTH);
     (out, dispenser) \<leftarrow> bytes_extract m dispenser tsize;
     (case out of None \<Rightarrow> Some (out_token, dispenser, AVS_COAP_ERR_MALFORMED_MESSAGE)
      | Some bs \<Rightarrow> do {
          tb \<leftarrow> wr_bytes (token_bytes out_token) 0 bs;
          Some (out_token\<lparr>token_bytes := tb\<rparr>, dispenser, AVS_OK) }) }"

section \<open>The packet header\<close>

datatype udp_type = CONFIRMABLE | NON_CONFIRMABLE | ACKNOWLEDGEMENT | RESET

fun udp_type_code :: "udp_type \<Rightarrow> byte" where
  "udp_type_code CONFIRMABLE = 0"
| "udp_type_code NON_CONFIRMABLE = 1"
| "udp_type_code ACKNOWLEDGEMENT = 2"
| "udp_type_code RESET = 3"

text \<open>The four bytes of a header; the message id is kept as the two bytes of the packet.\<close>

record udp_header =
  version_type_token_length :: byte
  hdr_code :: byte
  message_id :: "byte \<times> byte"

definition header_get_version :: "udp_header \<Rightarrow> byte" where
  "header_get_version hdr = field_get (version_type_token_length hdr) 0xC0 6"

definition header_set_version :: "udp_header \<Rightarrow> byte \<Rightarrow> udp_header option" where
  "header_set_version hdr version = do {
     c_assert (version \<le> 3);
     Some (hdr\<lparr>version_type_token_length := field_set (version_type_token_length hdr) 0xC0 6 version\<rparr>) }"

definition header_get_token_length :: "udp_header \<Rightarrow> nat" where
  "header_get_token_length hdr = unat (field_get (version_type_token_length hdr) 0x0F 0)"

definition header_set_token_length :: "udp_header \<Rightarrow> byte \<Rightarrow> udp_header option" where
  "header_set_token_length hdr token_length = do {
     c_assert (unat token_length \<le> AVS_COAP_MAX_TOKEN_LENGTH);
     Some (hdr\<lparr>version_type_token_length := field_set (version_type_token_length hdr) 0x0F 0 token_length\<rparr>) }"

text \<open>The field has two bits, so the assertion of the getter holds and the cast is exhaustive.\<close>

definition header_get_type :: "udp_header \<Rightarrow> udp_type" where
  "header_get_type hdr =
     (let val = field_get (version_type_token_length hdr) 0x30 4 in
        if val = 0 then CONFIRMABLE else if val = 1 then NON_CONFIRMABLE
        else if val = 2 then ACKNOWLEDGEMENT else RESET)"

definition header_set_type :: "udp_header \<Rightarrow> udp_type \<Rightarrow> udp_header" where
  "header_set_type hdr type =
     hdr\<lparr>version_type_token_length := field_set (version_type_token_length hdr) 0x30 4 (udp_type_code type)\<rparr>"

definition header_get_id :: "udp_header \<Rightarrow> nat" where
  "header_get_id hdr = 256 * unat (fst (message_id hdr)) + unat (snd (message_id hdr))"

definition header_set_id :: "udp_header \<Rightarrow> nat \<Rightarrow> udp_header" where
  "header_set_id hdr msg_id = hdr\<lparr>message_id := (byte_of (msg_id div 256), byte_of msg_id)\<rparr>"

definition header_set :: "udp_header \<Rightarrow> udp_type \<Rightarrow> byte \<Rightarrow> byte \<Rightarrow> nat \<Rightarrow> udp_header option" where
  "header_set hdr type token_length code i = do {
     hdr \<leftarrow> header_set_version hdr 1;
     let hdr = header_set_type hdr type;
     hdr \<leftarrow> header_set_token_length hdr token_length;
     let hdr = hdr\<lparr>hdr_code := code\<rparr>;
     Some (header_set_id hdr i) }"

definition header_init :: "udp_type \<Rightarrow> byte \<Rightarrow> byte \<Rightarrow> nat \<Rightarrow> udp_header option" where
  "header_init type token_length code i =
     header_set \<lparr>version_type_token_length = 0, hdr_code = 0, message_id = (0, 0)\<rparr> type token_length code i"

definition header_bytes :: "udp_header \<Rightarrow> bytes" where
  "header_bytes hdr = [version_type_token_length hdr, hdr_code hdr, fst (message_id hdr), snd (message_id hdr)]"

fun header_of_bytes :: "bytes \<Rightarrow> udp_header" where
  "header_of_bytes [b0, b1, b2, b3] = \<lparr>version_type_token_length = b0, hdr_code = b1, message_id = (b2, b3)\<rparr>"
| "header_of_bytes _ = \<lparr>version_type_token_length = 0, hdr_code = 0, message_id = (0, 0)\<rparr>"

section \<open>Messages\<close>

text \<open>
  \<open>msg_payload\<close> is the memory that the payload pointer points to, \<open>None\<close> for \<open>NULL\<close>.
\<close>

record udp_msg =
  msg_header :: udp_header
  msg_token :: token
  msg_options :: coap_options
  msg_payload :: "bytes option"
  msg_payload_size :: nat

definition is_msg_header_valid :: "udp_header \<Rightarrow> bool" where
  "is_msg_header_valid hdr \<longleftrightarrow>
     header_get_version hdr = 1
     \<and> header_get_token_length hdr \<le> AVS_COAP_MAX_TOKEN_LENGTH
     \<and> (case header_get_type hdr of
          ACKNOWLEDGEMENT \<Rightarrow> \<not> code_is_request (hdr_code hdr)
        | RESET \<Rightarrow> hdr_code hdr = CODE_EMPTY
        | _ \<Rightarrow> True)"

definition parse_header ::
  "bytes \<Rightarrow> udp_header \<Rightarrow> bytes_dispenser \<Rightarrow> (udp_header \<times> bytes_dispenser \<times> avs_error) option" where
  "parse_header m out_hdr dispenser = do {
     (out, dispenser) \<leftarrow> bytes_extract m dispenser 4;
     (case out of None \<Rightarrow> Some (out_hdr, dispenser, AVS_COAP_ERR_MALFORMED_MESSAGE)
      | Some bs \<Rightarrow>
          let hdr = header_of_bytes bs in
          if \<not> is_msg_header_valid hdr \<or> hdr_code hdr = CODE_EMPTY \<and> bytes_left dispenser > 0
          then Some (hdr, dispenser, AVS_COAP_ERR_MALFORMED_MESSAGE)
          else Some (hdr, dispenser, AVS_OK)) }"

text \<open>The payload, its size and the error.\<close>

definition parse_payload :: "bytes \<Rightarrow> bytes_dispenser \<Rightarrow> (bytes option \<times> nat \<times> avs_error) option" where
  "parse_payload m dispenser =
     (if bytes_left dispenser = 0 then Some (Some (drop (read_ptr dispenser) m), 0, AVS_OK)
      else do {
        b \<leftarrow> rd8 m (read_ptr dispenser);
        c_assert (b = AVS_COAP_PAYLOAD_MARKER);
        let payload = Some (drop (read_ptr dispenser + 1) m);
        let payload_size = bytes_left dispenser - 1;
        Some (payload, payload_size,
          if payload_size = 0 then AVS_COAP_ERR_MALFORMED_OPTIONS else AVS_OK) })"

definition validate_block_opt :: "coap_options \<Rightarrow> block_type \<Rightarrow> avs_error option" where
  "validate_block_opt opts type = do {
     (block, result) \<leftarrow> options_get_block opts type;
     Some (if result = Found () \<and> block_is_bert block then AVS_COAP_ERR_MALFORMED_OPTIONS else AVS_OK) }"

definition udp_msg_size :: "udp_msg \<Rightarrow> nat" where
  "udp_msg_size msg = 4 + token_size (msg_token msg) + opts_size (msg_options msg)
     + (if msg_payload_size msg = 0 then 0 else 1 + msg_payload_size msg)"

text \<open>The checks of the BLOCK options at the end of the parser.\<close>

definition check_block_options :: "coap_options \<Rightarrow> byte \<Rightarrow> nat \<Rightarrow> avs_error option" where
  "check_block_options opts code payload_size = do {
     err \<leftarrow> validate_block_opt opts BLOCK1;
     if err \<noteq> AVS_OK then Some err
     else do {
       err \<leftarrow> validate_block_opt opts BLOCK2;
       if err \<noteq> AVS_OK then Some err
       else do {
         ok \<leftarrow> options_block_payload_valid opts code payload_size;
         Some (if ok then AVS_OK else AVS_COAP_ERR_MALFORMED_OPTIONS) } } }"

text \<open>
  The short-circuited chain of the parser: each step runs only when the steps before it
  succeeded, and the fields of the message written so far are kept.
\<close>

definition udp_msg_parse :: "udp_msg \<Rightarrow> bytes \<Rightarrow> nat \<Rightarrow> (udp_msg \<times> avs_error) option" where
  "udp_msg_parse out_msg packet packet_size = do {
     let dispenser = \<lparr>read_ptr = 0, bytes_left = packet_size\<rparr>;
     (hdr, dispenser, err) \<leftarrow> parse_header packet (msg_header out_msg) dispenser;
     let out_msg = out_msg\<lparr>msg_header := hdr\<rparr>;
     if err \<noteq> AVS_OK then Some (out_msg, err)
     else do {
       (tok, dispenser, err) \<leftarrow> parse_token packet (msg_token out_msg) (header_get_token_length hdr) dispenser;
       let out_msg = out_msg\<lparr>msg_token := tok\<rparr>;
       if err \<noteq> AVS_OK then Some (out_msg, err)
       else do {
         (opts, dispenser, _, _, err) \<leftarrow> options_parse packet dispenser;
         let out_msg = out_msg\<lparr>msg_options := opts\<rparr>;
         if err \<noteq> AVS_OK then Some (out_msg, err)
         else do {
           (payload, payload_size, err) \<leftarrow> parse_payload packet dispenser;
           let out_msg = out_msg\<lparr>msg_payload := payload, msg_payload_size := payload_size\<rparr>;
           if err \<noteq> AVS_OK then Some (out_msg, err)
           else do {
             err \<leftarrow> check_block_options opts (hdr_code hdr) payload_size;
             Some (out_msg, err) } } } } }"

definition zero_msg :: udp_msg where
  "zero_msg = \<lparr>msg_header = \<lparr>version_type_token_length = 0, hdr_code = 0, message_id = (0, 0)\<rparr>,
     msg_token = \<lparr>token_size = 0, token_bytes = replicate 8 0\<rparr>,
     msg_options = \<lparr>opts_mem = [], opts_size = 0, opts_capacity = 0, opts_allocated = False\<rparr>,
     msg_payload = None, msg_payload_size = 0\<rparr>"

text \<open>The message with the flags \<open>*out_has_token\<close> and \<open>*out_has_options\<close>.\<close>

definition udp_msg_parse_truncated :: "bytes \<Rightarrow> nat \<Rightarrow> (udp_msg \<times> bool \<times> bool) option" where
  "udp_msg_parse_truncated packet packet_size = do {
     let dispenser = \<lparr>read_ptr = 0, bytes_left = packet_size\<rparr>;
     (hdr, dispenser, err) \<leftarrow> parse_header packet (msg_header zero_msg) dispenser;
     let out_msg = zero_msg\<lparr>msg_header := hdr\<rparr>;
     if err \<noteq> AVS_OK then Some (out_msg, False, False)
     else do {
       (tok, dispenser, err) \<leftarrow> parse_token packet (msg_token out_msg) (header_get_token_length hdr) dispenser;
       let out_msg = out_msg\<lparr>msg_token := tok\<rparr>;
       if err \<noteq> AVS_OK then Some (out_msg, False, False)
       else do {
         (opts, _, _, _, err) \<leftarrow> options_parse packet dispenser;
         Some (out_msg\<lparr>msg_options := opts\<rparr>, True, err = AVS_OK) } } }"

text \<open>The payload at the end of a packet, and the final result of the serializer.\<close>

definition serialize_payload ::
  "bytes \<Rightarrow> bytes_appender \<Rightarrow> nat \<Rightarrow> bytes option \<Rightarrow> nat \<Rightarrow> (bytes \<times> nat \<times> avs_error) option" where
  "serialize_payload buf appender buf_size payload payload_size =
     (case payload of
        Some payload \<Rightarrow>
          if payload_size > 0 then do {
            (buf, appender, ok) \<leftarrow> bytes_append buf appender [AVS_COAP_PAYLOAD_MARKER];
            if \<not> ok then Some (buf, 0, AVS_COAP_ERR_MESSAGE_TOO_BIG)
            else do {
              dat \<leftarrow> rd_bytes payload 0 payload_size;
              (buf, appender, ok) \<leftarrow> bytes_append buf appender dat;
              if \<not> ok then Some (buf, 0, AVS_COAP_ERR_MESSAGE_TOO_BIG)
              else Some (buf, buf_size - app_bytes_left appender, AVS_OK) } }
          else Some (buf, buf_size - app_bytes_left appender, AVS_OK)
      | None \<Rightarrow> Some (buf, buf_size - app_bytes_left appender, AVS_OK))"

text \<open>The buffer, the number of bytes written and the error.\<close>

definition udp_msg_serialize :: "udp_msg \<Rightarrow> bytes \<Rightarrow> nat \<Rightarrow> (bytes \<times> nat \<times> avs_error) option" where
  "udp_msg_serialize msg buf buf_size = do {
     c_assert (header_get_token_length (msg_header msg) = token_size (msg_token msg));
     let appender = \<lparr>write_ptr = 0, app_bytes_left = buf_size\<rparr>;
     (buf, appender, ok) \<leftarrow> bytes_append buf appender (header_bytes (msg_header msg));
     if \<not> ok then Some (buf, 0, AVS_COAP_ERR_MESSAGE_TOO_BIG)
     else do {
       tok \<leftarrow> rd_bytes (token_bytes (msg_token msg)) 0 (token_size (msg_token msg));
       (buf, appender, ok) \<leftarrow> bytes_append buf appender tok;
       if \<not> ok then Some (buf, 0, AVS_COAP_ERR_MESSAGE_TOO_BIG)
       else do {
         opts \<leftarrow> rd_bytes (opts_mem (msg_options msg)) 0 (opts_size (msg_options msg));
         (buf, appender, ok) \<leftarrow> bytes_append buf appender opts;
         if \<not> ok then Some (buf, 0, AVS_COAP_ERR_MESSAGE_TOO_BIG)
         else serialize_payload buf appender buf_size (msg_payload msg) (msg_payload_size msg) } } }"

text \<open>The copy, the packet buffer it points into and the error.\<close>

definition udp_msg_copy :: "udp_msg \<Rightarrow> udp_msg \<Rightarrow> bytes \<Rightarrow> nat \<Rightarrow> (udp_msg \<times> bytes \<times> avs_error) option" where
  "udp_msg_copy src dst packet_buf packet_buf_size = do {
     (packet_buf, written, err) \<leftarrow> udp_msg_serialize src packet_buf packet_buf_size;
     if err \<noteq> AVS_OK then Some (dst, packet_buf, err)
     else do {
       (dst, err) \<leftarrow> udp_msg_parse dst packet_buf written;
       Some (dst, packet_buf, err) } }"

section \<open>Header fields\<close>

lemma field_get_nat: "unat (field_get b 0xC0 6) = unat b div 64"
  "unat (field_get b 0x30 4) = unat b div 16 mod 4"
proof -
  show "unat (field_get b 0xC0 6) = unat b div 64"
  proof -
    have "(0xC0 :: byte) = NOT (mask 6)" by (simp add: mask_numeral)
    then have "unat (b AND 0xC0) = 64 * (unat b div 64)" by (simp only: unat_and_not_mask) simp
    then show ?thesis unfolding field_get_def unat_drop_bit_div by simp
  qed
  show "unat (field_get b 0x30 4) = unat b div 16 mod 4"
  proof -
    have "field_get b 0x30 4 = drop_bit 4 b AND mask 2"
      by (rule bit_word_eqI) (auto simp: field_get_def bit_simps mask_numeral)
    then show ?thesis by (simp only: unat_and_mask unat_drop_bit_div) simp
  qed
qed

lemma header_of_header_bytes [simp]: "header_of_bytes (header_bytes hdr) = hdr"
  by (simp add: header_bytes_def)

lemma length_header_bytes [simp]: "length (header_bytes hdr) = 4"
  by (simp add: header_bytes_def)

lemma header_bytes_of_bytes: "length bs = 4 \<Longrightarrow> header_bytes (header_of_bytes bs) = bs"
  by (auto simp: header_bytes_def numeral_eq_Suc length_Suc_conv)

lemma header_token_length_less: "header_get_token_length hdr < 16"
  by (simp add: header_get_token_length_def field_get_lo4)

lemma header_init_fields:
  assumes "unat tkl \<le> 8"
  shows "\<exists>hdr. header_init type tkl code i = Some hdr
    \<and> version_type_token_length hdr = field_set (field_set 0x40 0x30 4 (udp_type_code type)) 0x0F 0 tkl
    \<and> hdr_code hdr = code \<and> message_id hdr = (byte_of (i div 256), byte_of i)"
proof -
  have "field_set 0 0xC0 6 1 = (0x40 :: byte)" by (simp add: field_set_def)
  then show ?thesis using assms
    by (simp add: header_init_def header_set_def header_set_version_def header_set_token_length_def
        header_set_type_def header_set_id_def Let_def)
qed

lemma vttl_value:
  assumes "unat tkl \<le> 8"
  shows "unat (field_set (field_set 0x40 0x30 4 (udp_type_code type)) 0x0F 0 tkl)
    = 64 + 16 * unat (udp_type_code type) + unat tkl"
proof -
  have "unat (field_set 0x40 0x30 4 (udp_type_code type)) = 64 + 16 * unat (udp_type_code type)"
    by (cases type) (simp_all add: field_set_def)
  then show ?thesis using assms by (simp add: field_set_lo4)
qed

lemma header_get_type_nat:
  "udp_type_code (header_get_type hdr) = field_get (version_type_token_length hdr) 0x30 4"
proof -
  let ?v = "field_get (version_type_token_length hdr) 0x30 4"
  have "unat ?v = unat (version_type_token_length hdr) div 16 mod 4" by (rule field_get_nat(2))
  then have "unat ?v < 4" by simp
  then have "unat ?v \<in> {0, 1, 2, 3}" by auto
  then have "?v \<in> {0, 1, 2, 3}" by (auto intro: byte_eqI)
  then show ?thesis by (auto simp: header_get_type_def Let_def)
qed

lemma udp_type_code_inj: "udp_type_code s = udp_type_code t \<Longrightarrow> s = t"
  by (cases s; cases t) simp_all

text \<open>A header that \<open>_avs_coap_udp_header_init\<close> builds gives back through the getters the
  version 1, the type, the token length, the code and the 16-bit message id it was built from:
  the three fields packed into the first byte do not disturb each other.\<close>

theorem header_init_getters:
  assumes "unat tkl \<le> 8" and "i < 65536"
  shows "\<exists>hdr. header_init type tkl code i = Some hdr \<and> header_get_version hdr = 1
     \<and> header_get_type hdr = type \<and> header_get_token_length hdr = unat tkl
     \<and> hdr_code hdr = code \<and> header_get_id hdr = i"
proof -
  from header_init_fields [OF assms(1)] obtain hdr where h: "header_init type tkl code i = Some hdr"
    and v: "version_type_token_length hdr = field_set (field_set 0x40 0x30 4 (udp_type_code type)) 0x0F 0 tkl"
    and c: "hdr_code hdr = code" "message_id hdr = (byte_of (i div 256), byte_of i)" by blast
  have n: "unat (version_type_token_length hdr) = 64 + 16 * unat (udp_type_code type) + unat tkl"
    unfolding v by (rule vttl_value [OF assms(1)])
  have t: "unat (udp_type_code type) < 4" by (cases type) simp_all
  have div: "(64 + 16 * c + k) div 64 = 1" "(64 + 16 * c + k) div 16 mod 4 = c"
    "(64 + 16 * c + k) mod 16 = k" if "c < 4" "k \<le> 8" for c k :: nat
  proof -
    show "(64 + 16 * c + k) div 64 = 1" using that by (intro div_nat_eqI) auto
    have "(64 + 16 * c + k) div 16 = 4 + c" using that by (intro div_nat_eqI) auto
    then show "(64 + 16 * c + k) div 16 mod 4 = c" using that by simp
    have "64 + 16 * c + k = k + (4 + c) * 16" by simp
    then show "(64 + 16 * c + k) mod 16 = k" using that by (simp only: mod_mult_self1) simp
  qed
  have "unat (header_get_version hdr) = unat (1 :: byte)"
    unfolding header_get_version_def field_get_nat n div(1) [OF t assms(1)] by simp
  then have "header_get_version hdr = 1" by (rule byte_eqI)
  moreover have "unat (udp_type_code (header_get_type hdr)) = unat (udp_type_code type)"
    unfolding header_get_type_nat field_get_nat n by (rule div(2) [OF t assms(1)])
  then have "header_get_type hdr = type" by (intro udp_type_code_inj byte_eqI)
  moreover have "header_get_token_length hdr = unat tkl"
    unfolding header_get_token_length_def field_get_lo4 n by (rule div(3) [OF t assms(1)])
  moreover have "header_get_id hdr = i" using assms(2) by (simp add: header_get_id_def c(2))
  ultimately show ?thesis using h c(1) by blast
qed

theorem header_init_getters_witness:
  "\<exists>hdr. header_init ACKNOWLEDGEMENT 3 69 0xABCD = Some hdr \<and> header_get_type hdr = ACKNOWLEDGEMENT
     \<and> header_get_token_length hdr = 3 \<and> header_get_id hdr = 0xABCD"
  using header_init_getters [of 3 "0xABCD" ACKNOWLEDGEMENT 69] by auto

section \<open>Packets as byte strings\<close>

definition payload_bytes :: "bytes \<Rightarrow> bytes" where
  "payload_bytes payload = (if payload = [] then [] else AVS_COAP_PAYLOAD_MARKER # payload)"

definition msg_bytes :: "udp_header \<Rightarrow> bytes \<Rightarrow> opt_list \<Rightarrow> bytes \<Rightarrow> bytes" where
  "msg_bytes hdr tok xs payload = header_bytes hdr @ tok @ enc_opts 0 xs @ payload_bytes payload"

text \<open>What RFC 7252 and the block-wise rules demand of a message.\<close>

definition msg_ok :: "udp_header \<Rightarrow> bytes \<Rightarrow> opt_list \<Rightarrow> bytes \<Rightarrow> bool" where
  "msg_ok hdr tok xs payload \<longleftrightarrow>
     is_msg_header_valid hdr \<and> header_get_token_length hdr = length tok
     \<and> (hdr_code hdr = CODE_EMPTY \<longrightarrow> tok = [] \<and> xs = [] \<and> payload = [])
     \<and> wf_opts 0 xs \<and> opts_ok xs \<and> \<not> block1_more_with_block2 xs
     \<and> (\<forall>t b. block_in xs t = Some b \<longrightarrow> \<not> block_is_bert b)
     \<and> payload_size_ok xs (hdr_code hdr) (length payload)"

text \<open>What a parsed message says about its packet.\<close>

definition msg_is :: "udp_msg \<Rightarrow> udp_header \<Rightarrow> bytes \<Rightarrow> opt_list \<Rightarrow> bytes \<Rightarrow> bool" where
  "msg_is msg hdr tok xs payload \<longleftrightarrow>
     msg_header msg = hdr
     \<and> token_size (msg_token msg) = length tok \<and> take (length tok) (token_bytes (msg_token msg)) = tok
     \<and> length (token_bytes (msg_token msg)) = 8
     \<and> opts_rep (msg_options msg) xs
     \<and> msg_payload_size msg = length payload
     \<and> (\<exists>mem. msg_payload msg = Some mem \<and> take (length payload) mem = payload \<and> length payload \<le> length mem)"

lemma validate_block_opt_spec:
  assumes "opts_rep opts xs" "opts_ok xs"
  shows "validate_block_opt opts t = Some (if \<exists>b. block_in xs t = Some b \<and> block_is_bert b
     then AVS_COAP_ERR_MALFORMED_OPTIONS else AVS_OK)"
  by (cases "block_in xs t") (simp_all add: validate_block_opt_def get_block_ok [OF assms])

lemma parse_header_at:
  assumes "n \<le> length packet"
  shows "parse_header packet h0 \<lparr>read_ptr = 0, bytes_left = n\<rparr> =
    (if n < 4 then Some (h0, \<lparr>read_ptr = 0, bytes_left = n\<rparr>, AVS_COAP_ERR_MALFORMED_MESSAGE)
     else let hdr = header_of_bytes (take 4 packet); d = \<lparr>read_ptr = 4, bytes_left = n - 4\<rparr> in
       if \<not> is_msg_header_valid hdr \<or> hdr_code hdr = CODE_EMPTY \<and> n > 4
       then Some (hdr, d, AVS_COAP_ERR_MALFORMED_MESSAGE) else Some (hdr, d, AVS_OK))"
  using assms by (simp add: parse_header_def bytes_extract_def rd_bytes_def Let_def)

lemma parse_token_at:
  assumes "read_ptr d + bytes_left d \<le> length packet" "k \<le> 8" "length (token_bytes t) = 8"
  shows "parse_token packet t k d =
    (if bytes_left d < k then Some (t\<lparr>token_size := k\<rparr>, d, AVS_COAP_ERR_MALFORMED_MESSAGE)
     else Some (\<lparr>token_size = k, token_bytes = take k (drop (read_ptr d) packet) @ drop k (token_bytes t)\<rparr>,
                advance d k, AVS_OK))"
proof (cases "bytes_left d < k")
  case False
  define tb where "tb = take k (drop (read_ptr d) packet)"
  have l: "length tb = k" using False assms by (simp add: tb_def)
  have "rd_bytes packet (read_ptr d) k = Some tb" using False assms by (simp add: rd_bytes_def tb_def)
  moreover have "wr_bytes (token_bytes t) 0 tb = Some (tb @ drop k (token_bytes t))"
    using assms by (simp add: wr_bytes_def l)
  ultimately show ?thesis unfolding tb_def [symmetric] using False assms(2)
    by (cases t) (simp add: parse_token_def bytes_extract_def advance_def)
qed (use assms in \<open>simp add: parse_token_def bytes_extract_def\<close>)

lemma check_block_options_spec:
  assumes "opts_rep opts xs" "opts_ok xs"
  shows "check_block_options opts code n =
    Some (if (\<forall>t b. block_in xs t = Some b \<longrightarrow> \<not> block_is_bert b) \<and> payload_size_ok xs code n
          then AVS_OK else AVS_COAP_ERR_MALFORMED_OPTIONS)"
proof -
  define b1 b2 where "b1 = (\<exists>b. block_in xs BLOCK1 = Some b \<and> block_is_bert b)"
    and "b2 = (\<exists>b. block_in xs BLOCK2 = Some b \<and> block_is_bert b)"
  have "(\<forall>t. Q t) \<longleftrightarrow> Q BLOCK1 \<and> Q BLOCK2" for Q by (metis block_type.exhaust)
  then have "(\<forall>t b. block_in xs t = Some b \<longrightarrow> \<not> block_is_bert b) \<longleftrightarrow> \<not> b1 \<and> \<not> b2"
    unfolding b1_def b2_def by simp
  then show ?thesis
    by (simp add: check_block_options_def validate_block_opt_spec [OF assms]
        block_payload_valid_spec [OF assms] b1_def [symmetric] b2_def [symmetric])
qed

text \<open>
  One pass over the packet: \<open>h\<close>, \<open>tok\<close> and what follows them are the slices of the packet.
\<close>

lemma udp_msg_parse_complete:
  assumes ok: "msg_ok hdr tok xs payload" and n: "n = length (msg_bytes hdr tok xs payload)"
    and p: "packet = msg_bytes hdr tok xs payload @ rest"
    and tb: "length (token_bytes (msg_token m0)) = 8"
  shows "\<exists>msg. udp_msg_parse m0 packet n = Some (msg, AVS_OK) \<and> msg_is msg hdr tok xs payload"
proof -
  have hv: "is_msg_header_valid hdr" and tk: "header_get_token_length hdr = length tok" "length tok \<le> 8"
    using ok by (auto simp: msg_ok_def is_msg_header_valid_def)
  let ?pl = "payload_bytes payload"
  have len: "n = 4 + length tok + length (enc_opts 0 xs) + length ?pl" by (simp add: n msg_bytes_def)
  have nle: "n \<le> length packet" by (simp add: n p)
  have t4: "take 4 packet = header_bytes hdr" by (simp add: p msg_bytes_def)
  have "\<not> (hdr_code hdr = CODE_EMPTY \<and> n > 4)"
    using ok len by (auto simp: msg_ok_def payload_bytes_def)
  with hv t4 len have ph: "parse_header packet (msg_header m0) \<lparr>read_ptr = 0, bytes_left = n\<rparr>
      = Some (hdr, \<lparr>read_ptr = 4, bytes_left = n - 4\<rparr>, AVS_OK)"
    by (subst parse_header_at [OF nle]) (simp add: Let_def)
  define d where "d = \<lparr>read_ptr = 4 + length tok, bytes_left = n - 4 - length tok\<rparr>"
  let ?tok = "\<lparr>token_size = length tok, token_bytes = tok @ drop (length tok) (token_bytes (msg_token m0))\<rparr>"
  have "take (length tok) (drop 4 packet) = tok" by (simp add: p msg_bytes_def)
  with len nle tk tb have pt: "parse_token packet (msg_token m0) (length tok) \<lparr>read_ptr = 4, bytes_left = n - 4\<rparr>
      = Some (?tok, d, AVS_OK)"
    by (subst parse_token_at) (simp_all add: advance_def d_def)
  have p': "packet = (header_bytes hdr @ tok) @ enc_opts 0 xs @ ?pl @ rest" by (simp add: p msg_bytes_def)
  have wf: "wf_opts 0 xs" "opts_ok xs" "\<not> block1_more_with_block2 xs" using ok by (auto simp: msg_ok_def)
  let ?n = "length (enc_opts 0 xs)"
  have po: "options_parse packet d = Some (packet_opts packet d ?n, advance d ?n, False, ?pl \<noteq> [], AVS_OK)"
    using options_parse_complete [OF p' wf(1,2), of d] wf(3) len by (simp add: payload_bytes_def d_def)
  have rep: "opts_rep (packet_opts packet d ?n) xs"
    using wf(1) by (simp add: packet_opts_def opts_rep_def p' d_def)
  have pp: "\<exists>mem. parse_payload packet (advance d ?n) = Some (Some mem, length payload, AVS_OK)
      \<and> take (length payload) mem = payload \<and> length payload \<le> length mem"
  proof (cases "payload = []")
    case True
    then show ?thesis using len by (simp add: parse_payload_def advance_def d_def payload_bytes_def)
  next
    case False
    have "packet = (header_bytes hdr @ tok @ enc_opts 0 xs) @ AVS_COAP_PAYLOAD_MARKER # payload @ rest"
      using False by (simp add: p' payload_bytes_def)
    then have "rd8 packet (4 + length tok + ?n) = Some AVS_COAP_PAYLOAD_MARKER"
      "drop (4 + length tok + ?n + 1) packet = payload @ rest"
      using rd8_append [of "header_bytes hdr @ tok @ enc_opts 0 xs" "4 + length tok + ?n"
          AVS_COAP_PAYLOAD_MARKER "payload @ rest"] by simp_all
    then show ?thesis using False len
      by (simp add: parse_payload_def advance_def d_def payload_bytes_def Let_def)
  qed
  then obtain mem where pp: "parse_payload packet (advance d ?n) = Some (Some mem, length payload, AVS_OK)"
    "take (length payload) mem = payload" "length payload \<le> length mem" by blast
  have v: "(\<forall>t b. block_in xs t = Some b \<longrightarrow> \<not> block_is_bert b) \<and> payload_size_ok xs (hdr_code hdr) (length payload)"
    using ok by (auto simp: msg_ok_def)
  let ?msg = "m0\<lparr>msg_header := hdr, msg_token := ?tok, msg_options := packet_opts packet d ?n,
      msg_payload := Some mem, msg_payload_size := length payload\<rparr>"
  have "udp_msg_parse m0 packet n = Some (?msg, AVS_OK)"
    by (simp add: udp_msg_parse_def Let_def ph tk(1) pt po pp(1) check_block_options_spec [OF rep wf(2)] v)
  moreover have "msg_is ?msg hdr tok xs payload"
    using tb tk rep pp by (simp add: msg_is_def)
  ultimately show ?thesis by blast
qed

lemma take_split3: "take (a + b + c) xs = take a xs @ take b (drop a xs) @ take c (drop (a + b) xs)"
  by (simp only: take_add [of "a + b" c] take_add [of a b] append_assoc)

lemma parse_payload_at:
  assumes len: "read_ptr d + bytes_left d \<le> length m"
    and mk: "bytes_left d = 0 \<or> m ! read_ptr d = AVS_COAP_PAYLOAD_MARKER"
  shows "if bytes_left d = 1 then \<exists>p. parse_payload m d = Some (p, 0, AVS_COAP_ERR_MALFORMED_OPTIONS)
    else \<exists>payload mem. parse_payload m d = Some (Some mem, length payload, AVS_OK)
       \<and> take (length payload) mem = payload \<and> length payload \<le> length mem
       \<and> take (bytes_left d) (drop (read_ptr d) m) = payload_bytes payload"
proof -
  consider "bytes_left d = 0" | "bytes_left d = 1" | "bytes_left d > 1" by linarith
  then show ?thesis
  proof cases
    case 3
    define payload where "payload = take (bytes_left d - 1) (drop (read_ptr d + 1) m)"
    have pl: "length payload = bytes_left d - 1" using len by (simp add: payload_def)
    have drop: "drop (read_ptr d) m = AVS_COAP_PAYLOAD_MARKER # drop (read_ptr d + 1) m"
      using 3 mk len Cons_nth_drop_Suc [of "read_ptr d" m] by simp
    have "payload \<noteq> []" using pl 3 by auto
    then have "take (bytes_left d) (drop (read_ptr d) m) = payload_bytes payload"
      using 3 by (simp add: drop payload_bytes_def take_Cons' payload_def)
    moreover have "parse_payload m d = Some (Some (drop (read_ptr d + 1) m), length payload, AVS_OK)"
      using 3 mk len pl by (simp add: parse_payload_def Let_def rd8_def)
    moreover have "take (length payload) (drop (read_ptr d + 1) m) = payload" by (simp add: pl) (simp add: payload_def)
    moreover have "length payload \<le> length (drop (read_ptr d + 1) m)" using len by (simp add: pl)
    ultimately show ?thesis using 3 by auto
  qed (use mk len in \<open>simp_all add: parse_payload_def rd8_def Let_def payload_bytes_def\<close>)
qed

lemma udp_msg_parse_sound:
  assumes nle: "n \<le> length packet" and tb: "length (token_bytes (msg_token m0)) = 8"
  shows "\<exists>msg err. udp_msg_parse m0 packet n = Some (msg, err) \<and>
    (if err = AVS_OK
     then \<exists>hdr tok xs payload. take n packet = msg_bytes hdr tok xs payload
        \<and> msg_ok hdr tok xs payload \<and> msg_is msg hdr tok xs payload
     else err = AVS_COAP_ERR_MALFORMED_MESSAGE \<or> err = AVS_COAP_ERR_MALFORMED_OPTIONS)"
proof -
  let ?hdr = "header_of_bytes (take 4 packet)" and ?k = "header_get_token_length (header_of_bytes (take 4 packet))"
  let ?d1 = "\<lparr>read_ptr = 4, bytes_left = n - 4\<rparr>"
  note ph = parse_header_at [OF nle, of "msg_header m0"]
  show ?thesis
  proof (cases "n < 4 \<or> \<not> is_msg_header_valid ?hdr \<or> hdr_code ?hdr = CODE_EMPTY \<and> n > 4")
    case True
    then show ?thesis by (auto simp: udp_msg_parse_def ph Let_def)
  next
    case False
    then have n4: "4 \<le> n" and hv: "is_msg_header_valid ?hdr" and em: "hdr_code ?hdr = CODE_EMPTY \<Longrightarrow> n = 4" by auto
    have ph: "parse_header packet (msg_header m0) \<lparr>read_ptr = 0, bytes_left = n\<rparr> = Some (?hdr, ?d1, AVS_OK)"
      using False by (subst ph) (auto simp: Let_def)
    have k: "?k \<le> 8" using hv by (simp add: is_msg_header_valid_def)
    have pt: "parse_token packet (msg_token m0) ?k ?d1 =
      (if n - 4 < ?k then Some ((msg_token m0)\<lparr>token_size := ?k\<rparr>, ?d1, AVS_COAP_ERR_MALFORMED_MESSAGE)
       else Some (\<lparr>token_size = ?k, token_bytes = take ?k (drop 4 packet) @ drop ?k (token_bytes (msg_token m0))\<rparr>,
                  advance ?d1 ?k, AVS_OK))"
      using parse_token_at [of ?d1 packet ?k "msg_token m0"] n4 nle k tb by simp
    show ?thesis
    proof (cases "n - 4 < ?k")
      case True
      then show ?thesis by (auto simp: udp_msg_parse_def ph pt Let_def)
    next
      case kn: False
      define d where "d = advance ?d1 ?k"
      define tok where "tok = take ?k (drop 4 packet)"
      have d: "read_ptr d = 4 + ?k" "bytes_left d = n - 4 - ?k" by (simp_all add: d_def advance_def)
      have tok: "length tok = ?k" using kn nle n4 by (simp add: tok_def)
      let ?tok = "\<lparr>token_size = ?k, token_bytes = tok @ drop ?k (token_bytes (msg_token m0))\<rparr>"
      have pt: "parse_token packet (msg_token m0) ?k ?d1 = Some (?tok, d, AVS_OK)"
        using pt kn by (simp add: tok_def d_def)
      have "read_ptr d + bytes_left d \<le> length packet" using d kn n4 nle by simp
      from options_parse_sound [OF this] obtain opts d' t mk err where
        po: "options_parse packet d = Some (opts, d', t, mk, err)"
        and r: "if err = AVS_OK
          then \<exists>xs. opts_rep opts xs \<and> opts_ok xs \<and> \<not> block1_more_with_block2 xs
             \<and> opts = packet_opts packet d (length (enc_opts 0 xs)) \<and> d' = advance d (length (enc_opts 0 xs))
             \<and> length (enc_opts 0 xs) \<le> bytes_left d
             \<and> (bytes_left d' = 0 \<or> packet ! read_ptr d' = AVS_COAP_PAYLOAD_MARKER) \<and> \<not> t
             \<and> mk = (bytes_left d' \<noteq> 0)
          else err = AVS_COAP_ERR_MALFORMED_OPTIONS" by metis
      show ?thesis
      proof (cases "err = AVS_OK")
        case False
        with r po show ?thesis by (auto simp: udp_msg_parse_def ph pt Let_def)
      next
        case True
        with r obtain xs where xs: "opts_rep opts xs" "opts_ok xs" "\<not> block1_more_with_block2 xs"
          "opts = packet_opts packet d (length (enc_opts 0 xs))" "d' = advance d (length (enc_opts 0 xs))"
          "length (enc_opts 0 xs) \<le> bytes_left d"
          "bytes_left d' = 0 \<or> packet ! read_ptr d' = AVS_COAP_PAYLOAD_MARKER" by auto
        let ?e = "length (enc_opts 0 xs)"
        have wf: "wf_opts 0 xs" using xs(1) by (simp add: opts_rep_def)
        have enc: "take ?e (drop (4 + ?k) packet) = enc_opts 0 xs"
          using xs(1,4) d by (simp add: packet_opts_def opts_rep_def)
        have d': "read_ptr d' = 4 + ?k + ?e" "bytes_left d' = n - (4 + ?k + ?e)" "4 + ?k + ?e \<le> n"
          using xs(5,6) d kn n4 by (auto simp: advance_def)
        have head: "take (4 + ?k + ?e) packet = header_bytes ?hdr @ tok @ enc_opts 0 xs"
          using n4 nle by (simp add: take_split3 enc tok_def header_bytes_of_bytes)
        have nsplit: "take n packet = take (4 + ?k + ?e) packet @ take (bytes_left d') (drop (read_ptr d') packet)"
          using take_add [of "4 + ?k + ?e" "bytes_left d'" packet] d' by simp
        show ?thesis
        proof (cases "bytes_left d' = 1")
          case True
          with parse_payload_at [of d' packet] xs(7) d' nle obtain p where
            "parse_payload packet d' = Some (p, 0, AVS_COAP_ERR_MALFORMED_OPTIONS)" by auto
          then show ?thesis using po \<open>err = AVS_OK\<close>
            by (auto simp: udp_msg_parse_def ph pt Let_def)
        next
          case not1: False
          with parse_payload_at [of d' packet] xs(7) d' nle obtain payload mem where
            mem: "parse_payload packet d' = Some (Some mem, length payload, AVS_OK)"
            "take (length payload) mem = payload" "length payload \<le> length mem"
            "take (bytes_left d') (drop (read_ptr d') packet) = payload_bytes payload" by auto
          then have "length (payload_bytes payload) = bytes_left d'" using d' nle by (metis length_take length_drop min.absorb2 diff_le_mono)
          then have pl: "payload = [] \<longleftrightarrow> bytes_left d' = 0" by (auto simp: payload_bytes_def split: if_splits)
          from mem(4)
          have bytes: "take n packet = msg_bytes ?hdr tok xs payload"
            using nsplit head by (simp add: msg_bytes_def)
          let ?msg = "m0\<lparr>msg_header := ?hdr, msg_token := ?tok, msg_options := opts,
              msg_payload := Some mem, msg_payload_size := length payload\<rparr>"
          let ?ok = "(\<forall>t b. block_in xs t = Some b \<longrightarrow> \<not> block_is_bert b) \<and> payload_size_ok xs (hdr_code ?hdr) (length payload)"
          have p: "udp_msg_parse m0 packet n = Some (?msg, if ?ok then AVS_OK else AVS_COAP_ERR_MALFORMED_OPTIONS)"
            using \<open>err = AVS_OK\<close>
            by (simp add: udp_msg_parse_def Let_def ph pt po mem(1) check_block_options_spec [OF xs(1,2)])
          have mi: "msg_is ?msg ?hdr tok xs payload"
            using tb k tok xs(1) mem by (simp add: msg_is_def)
          have empty: "tok = [] \<and> xs = [] \<and> payload = []" if "hdr_code ?hdr = CODE_EMPTY"
          proof -
            have "?e = 0" "length tok = 0" "bytes_left d' = 0" using em [OF that] d' tok by auto
            then show ?thesis using pl by (cases xs) auto
          qed
          show ?thesis
          proof (cases ?ok)
            case True
            then have "msg_ok ?hdr tok xs payload"
              using hv tok wf xs empty by (auto simp: msg_ok_def)
            with bytes mi p [unfolded if_P [OF True]] show ?thesis
              by (intro exI [of _ ?msg] exI [of _ AVS_OK] conjI) (assumption, simp only: simp_thms if_True, blast)
          next
            case False
            with p [unfolded if_not_P [OF False]] show ?thesis by auto
          qed
        qed
      qed
    qed
  qed
qed

section \<open>Serializing\<close>

text \<open>What a message to be sent holds; it may have no payload memory when the payload is empty.\<close>

definition msg_holds :: "udp_msg \<Rightarrow> udp_header \<Rightarrow> bytes \<Rightarrow> opt_list \<Rightarrow> bytes \<Rightarrow> bool" where
  "msg_holds msg hdr tok xs payload \<longleftrightarrow>
     msg_header msg = hdr \<and> header_get_token_length hdr = length tok
     \<and> token_size (msg_token msg) = length tok \<and> take (length tok) (token_bytes (msg_token msg)) = tok
     \<and> length (token_bytes (msg_token msg)) = 8
     \<and> opts_rep (msg_options msg) xs
     \<and> msg_payload_size msg = length payload
     \<and> (case msg_payload msg of None \<Rightarrow> payload = []
        | Some mem \<Rightarrow> take (length payload) mem = payload \<and> length payload \<le> length mem)"

lemma msg_is_holds:
  "msg_is msg hdr tok xs payload \<Longrightarrow> header_get_token_length hdr = length tok
   \<Longrightarrow> msg_holds msg hdr tok xs payload"
  by (auto simp: msg_is_def msg_holds_def)

lemma bytes_append_at:
  assumes "L \<le> length old"
  shows "bytes_append (pre @ old) \<lparr>write_ptr = length pre, app_bytes_left = L\<rparr> dat =
    (if length dat \<le> L
     then Some (pre @ dat @ drop (length dat) old,
                \<lparr>write_ptr = length (pre @ dat), app_bytes_left = L - length dat\<rparr>, True)
     else Some (pre @ old, \<lparr>write_ptr = length pre, app_bytes_left = L\<rparr>, False))"
  using assms by (auto simp: bytes_append_def wr_bytes_def)

lemma serialize_tail:
  assumes "k \<le> length buf" "length pre \<le> k"
    and pl: "case pmem of None \<Rightarrow> payload = [] | Some mem \<Rightarrow> take (length payload) mem = payload \<and> length payload \<le> length mem"
  shows "\<exists>buf'. serialize_payload (pre @ drop (length pre) buf)
       \<lparr>write_ptr = length pre, app_bytes_left = k - length pre\<rparr> k pmem (length payload)
   = Some (if length (pre @ payload_bytes payload) \<le> k
      then (pre @ payload_bytes payload @ drop (length (pre @ payload_bytes payload)) buf,
            length (pre @ payload_bytes payload), AVS_OK)
      else (buf', 0, AVS_COAP_ERR_MESSAGE_TOO_BIG))"
proof (cases "payload = []")
  case True
  then show ?thesis using assms by (auto simp: serialize_payload_def payload_bytes_def split: option.splits)
next
  case False
  with pl obtain mem where mem: "pmem = Some mem" "rd_bytes mem 0 (length payload) = Some payload"
    by (auto simp: rd_bytes_def split: option.splits)
  let ?m = "AVS_COAP_PAYLOAD_MARKER"
  have "k - length pre \<le> length (drop (length pre) buf)" using assms by simp
  note a1 = bytes_append_at [OF this, of pre "[?m]"]
  have "k - length pre - 1 \<le> length (drop 1 (drop (length pre) buf))" using assms by simp
  note a2 = bytes_append_at [OF this, of "pre @ [?m]" payload]
  show ?thesis
  proof (cases "length pre + 1 + length payload \<le> k")
    case True
    then have "length payload \<le> k - Suc (length pre)" "Suc 0 \<le> k - length pre" by linarith+
    with True show ?thesis using False a1 a2 by (simp add: serialize_payload_def mem payload_bytes_def ac_simps)
  next
    case small: False
    show ?thesis
    proof (cases "length pre + 1 \<le> k")
      case True
      then have "\<not> length payload \<le> k - Suc (length pre)" "Suc 0 \<le> k - length pre"
        using small by linarith+
      with small False a1 a2 show ?thesis by (simp add: serialize_payload_def mem payload_bytes_def)
    next
      case f: False
      then have "\<not> Suc 0 \<le> k - length pre" by linarith
      with small False a1 show ?thesis by (simp add: serialize_payload_def mem payload_bytes_def)
    qed
  qed
qed


lemma udp_msg_serialize_spec:
  assumes h: "msg_holds msg hdr tok xs payload" and k: "k \<le> length buf"
  shows "\<exists>buf'. udp_msg_serialize msg buf k = Some (
     if length (msg_bytes hdr tok xs payload) \<le> k
     then (msg_bytes hdr tok xs payload @ drop (length (msg_bytes hdr tok xs payload)) buf,
           length (msg_bytes hdr tok xs payload), AVS_OK)
     else (buf', 0, AVS_COAP_ERR_MESSAGE_TOO_BIG))"
proof -
  let ?h = "header_bytes hdr" and ?o = "enc_opts 0 xs" and ?app = "\<lambda>n. \<lparr>write_ptr = n, app_bytes_left = k - n\<rparr>"
  have rt: "rd_bytes (token_bytes (msg_token msg)) 0 (token_size (msg_token msg)) = Some tok"
    and ro: "rd_bytes (opts_mem (msg_options msg)) 0 (opts_size (msg_options msg)) = Some ?o"
    using h by (auto simp: msg_holds_def rd_bytes_def opts_rep_def)
      (metis length_take min.absorb_iff2 nat_le_linear min.commute)
  have app: "bytes_append (pre @ drop (length pre) buf) (?app (length pre)) dat =
      (if length (pre @ dat) \<le> k
       then Some ((pre @ dat) @ drop (length (pre @ dat)) buf, ?app (length (pre @ dat)), True)
       else Some (pre @ drop (length pre) buf, ?app (length pre), False))" if "length pre \<le> k" for pre dat
  proof -
    have "k - length pre \<le> length (drop (length pre) buf)" using k by simp
    from bytes_append_at [OF this, of pre dat] that show ?thesis
      by (auto simp: add.commute)
  qed
  have a1: "bytes_append buf (?app 0) ?h = (if 4 \<le> k then Some (?h @ drop 4 buf, ?app 4, True)
      else Some (buf, ?app 0, False))"
    using app [of "[]" ?h] by simp
  have a2: "bytes_append (?h @ drop 4 buf) (?app 4) tok =
      (if 4 + length tok \<le> k then Some ((?h @ tok) @ drop (4 + length tok) buf, ?app (4 + length tok), True)
       else Some (?h @ drop 4 buf, ?app 4, False))" if "4 \<le> k"
    using app [of ?h tok] that by simp
  let ?n = "4 + length tok + length ?o" and ?p = "?h @ tok @ ?o"
  have a3: "bytes_append ((?h @ tok) @ drop (4 + length tok) buf) (?app (4 + length tok)) ?o =
      (if ?n \<le> k then Some (?p @ drop ?n buf, ?app ?n, True)
       else Some ((?h @ tok) @ drop (4 + length tok) buf, ?app (4 + length tok), False))" if "4 + length tok \<le> k"
    using app [of "?h @ tok" ?o] that by (simp add: add.assoc)
  have lp: "length ?p = ?n" by simp
  have lm: "length (msg_bytes hdr tok xs payload) = ?n + length (payload_bytes payload)"
    "?p @ payload_bytes payload = msg_bytes hdr tok xs payload" by (simp_all add: msg_bytes_def)
  have hd: "msg_header msg = hdr" "header_get_token_length hdr = token_size (msg_token msg)"
    "msg_payload_size msg = length payload" "token_size (msg_token msg) = length tok"
    and pl: "case msg_payload msg of None \<Rightarrow> payload = [] | Some mem \<Rightarrow> take (length payload) mem = payload \<and> length payload \<le> length mem"
    using h by (auto simp: msg_holds_def)
  note unf = udp_msg_serialize_def Let_def hd(1,2,3) rt [unfolded hd(4)] ro hd(4)
  show ?thesis
  proof (cases "?n \<le> k")
    case False
    then show ?thesis using a1 a2 a3 lm
      by (cases "4 \<le> k"; cases "4 + length tok \<le> k") (simp_all add: unf)
  next
    case True
    then have t: "4 \<le> k" "4 + length tok \<le> k" by simp_all
    from serialize_tail [OF k _ pl, of ?p] True lm obtain buf' where
      "serialize_payload (?p @ drop ?n buf) (?app ?n) k (msg_payload msg) (length payload) = Some (
        if length (msg_bytes hdr tok xs payload) \<le> k
        then (msg_bytes hdr tok xs payload @ drop (length (msg_bytes hdr tok xs payload)) buf,
              length (msg_bytes hdr tok xs payload), AVS_OK)
        else (buf', 0, AVS_COAP_ERR_MESSAGE_TOO_BIG))"
      unfolding lp by (metis append.assoc)
    then show ?thesis using a1 a2 a3 t True by (intro exI [of _ buf']) (simp add: unf)
  qed
qed

section \<open>Messages and packets\<close>

text \<open>A confirmable POST with a token, a Uri-Path and a payload, used as a concrete message.\<close>

definition sample_hdr :: udp_header where
  "sample_hdr = \<lparr>version_type_token_length = 0x42, hdr_code = 2, message_id = (0x12, 0x34)\<rparr>"

lemma sample_bytes:
  "msg_bytes sample_hdr [1, 2] [(11, [65])] [7, 8] = [0x42, 2, 0x12, 0x34, 1, 2, 0xB1, 65, 0xFF, 7, 8]"
  by (simp add: msg_bytes_def header_bytes_def sample_hdr_def payload_bytes_def AVS_COAP_PAYLOAD_MARKER_def
      enc_opt_def enc_hdr_def nib_def enc_ext_def byte_of_def)

lemma sample_ok: "msg_ok sample_hdr [1, 2] [(11, [65])] [7, 8]"
proof -
  have "is_msg_header_valid sample_hdr" "header_get_token_length sample_hdr = 2"
    by (simp_all add: is_msg_header_valid_def header_get_version_def header_get_token_length_def
        header_get_type_def field_get_def sample_hdr_def)
  moreover have "block_in [(11, [65])] t = None" for t
    by (cases t) (simp_all add: block_in_def option_num_from_block_type_def)
  ultimately show ?thesis
    by (simp add: msg_ok_def sample_hdr_def CODE_EMPTY_def coap_code_def opts_ok_def
        non_repeatable_critical_options_def block1_more_with_block2_def payload_size_ok_def split: option.split)
qed

text \<open>C16: Parsing any bytes as a CoAP/UDP message terminates, reads only inside the packet and fails
  no assertion, the block-size assertion at its end included. It succeeds only on a packet that is
  the serialization of a message that obeys the format and the block-wise rules, and the parsed
  message has the header, the token, the options and the payload of that serialization; every other
  packet is reported as MALFORMED_MESSAGE or MALFORMED_OPTIONS.\<close>

theorem udp_msg_parse_any_packet:
  assumes "n \<le> length packet" and "length (token_bytes (msg_token m0)) = 8"
  shows "\<exists>msg err. udp_msg_parse m0 packet n = Some (msg, err) \<and>
    (if err = AVS_OK
     then \<exists>hdr tok xs payload. take n packet = msg_bytes hdr tok xs payload
        \<and> msg_ok hdr tok xs payload \<and> msg_is msg hdr tok xs payload
     else err = AVS_COAP_ERR_MALFORMED_MESSAGE \<or> err = AVS_COAP_ERR_MALFORMED_OPTIONS)"
  using assms by (rule udp_msg_parse_sound)

theorem udp_msg_parse_any_packet_witness:
  "\<exists>msg err. udp_msg_parse zero_msg [0x71, 1, 2, 3, 4] 5 = Some (msg, err)"
proof -
  have "length (token_bytes (msg_token zero_msg)) = 8" by (simp add: zero_msg_def)
  from udp_msg_parse_any_packet [OF _ this, of 5 "[0x71, 1, 2, 3, 4]"] show ?thesis by auto
qed

text \<open>Serializing a message writes exactly its header, token, options and payload (with the
  marker if there is one), reports their total size, and refuses with MESSAGE_TOO_BIG exactly when
  they do not fit into the buffer.\<close>

theorem udp_msg_serialize_correct:
  assumes "msg_holds msg hdr tok xs payload" and "k \<le> length buf"
  shows "\<exists>buf'. udp_msg_serialize msg buf k = Some (
     if length (msg_bytes hdr tok xs payload) \<le> k
     then (msg_bytes hdr tok xs payload @ drop (length (msg_bytes hdr tok xs payload)) buf,
           length (msg_bytes hdr tok xs payload), AVS_OK)
     else (buf', 0, AVS_COAP_ERR_MESSAGE_TOO_BIG))"
  using assms by (rule udp_msg_serialize_spec)

definition sample_msg :: udp_msg where
  "sample_msg = \<lparr>msg_header = sample_hdr, msg_token = \<lparr>token_size = 2, token_bytes = [1, 2, 0, 0, 0, 0, 0, 0]\<rparr>,
     msg_options = \<lparr>opts_mem = [0xB1, 65, 0, 0], opts_size = 2, opts_capacity = 4, opts_allocated = False\<rparr>,
     msg_payload = Some [7, 8], msg_payload_size = 2\<rparr>"

lemma sample_msg_holds: "msg_holds sample_msg sample_hdr [1, 2] [(11, [65])] [7, 8]"
  using sample_ok
  by (simp add: msg_holds_def sample_msg_def opts_rep_def msg_ok_def enc_opt_def enc_hdr_def nib_def enc_ext_def
      byte_of_def)

theorem udp_msg_serialize_witness:
  "udp_msg_serialize sample_msg (replicate 12 0) 12
     = Some ([0x42, 2, 0x12, 0x34, 1, 2, 0xB1, 65, 0xFF, 7, 8, 0], 11, AVS_OK)"
  using udp_msg_serialize_correct [OF sample_msg_holds, of 12 "replicate 12 0"]
  by (auto simp: sample_bytes)

text \<open>C17: A message that obeys the format survives serialization and parsing: copying it through a
  packet buffer that is large enough yields a message with the same header, token, option list and
  payload.\<close>

theorem udp_msg_copy_roundtrip:
  assumes "msg_holds src hdr tok xs payload" and "msg_ok hdr tok xs payload"
    and "length (msg_bytes hdr tok xs payload) \<le> k" and "k \<le> length buf"
    and "length (token_bytes (msg_token dst)) = 8"
  shows "\<exists>dst' packet. udp_msg_copy src dst buf k = Some (dst', packet, AVS_OK)
    \<and> msg_is dst' hdr tok xs payload"
proof -
  let ?b = "msg_bytes hdr tok xs payload"
  from udp_msg_serialize_spec [OF assms(1,4)] assms(3)
  have s: "udp_msg_serialize src buf k = Some (?b @ drop (length ?b) buf, length ?b, AVS_OK)" by auto
  from udp_msg_parse_complete [OF assms(2) refl refl assms(5)] obtain dst' where
    "udp_msg_parse dst (?b @ drop (length ?b) buf) (length ?b) = Some (dst', AVS_OK)"
    "msg_is dst' hdr tok xs payload" by blast
  with s show ?thesis by (simp add: udp_msg_copy_def)
qed

theorem udp_msg_copy_roundtrip_witness:
  "\<exists>dst' packet. udp_msg_copy sample_msg zero_msg (replicate 11 0) 11 = Some (dst', packet, AVS_OK)
    \<and> msg_header dst' = sample_hdr \<and> opts_rep (msg_options dst') [(11, [65])]"
  using udp_msg_copy_roundtrip [OF sample_msg_holds sample_ok, of 11 "replicate 11 0" zero_msg]
  by (auto simp: sample_bytes msg_is_def zero_msg_def)

text \<open>C22: Serializing a message that was parsed from a packet reproduces the packet byte for byte;
  the parser therefore loses nothing and accepts only canonical encodings.\<close>

theorem udp_msg_parse_serialize:
  assumes "n \<le> length packet" and "length (token_bytes (msg_token m0)) = 8"
    and "udp_msg_parse m0 packet n = Some (msg, AVS_OK)"
    and "n \<le> length buf"
  shows "udp_msg_serialize msg buf n = Some (take n packet @ drop n buf, n, AVS_OK)"
proof -
  from udp_msg_parse_sound [OF assms(1,2)] assms(3) obtain hdr tok xs payload where
    b: "take n packet = msg_bytes hdr tok xs payload" and ok: "msg_ok hdr tok xs payload"
    and m: "msg_is msg hdr tok xs payload" by auto
  have "header_get_token_length hdr = length tok" using ok by (simp add: msg_ok_def)
  from udp_msg_serialize_spec [OF msg_is_holds [OF m this] assms(4)] have
    "udp_msg_serialize msg buf n = Some (take n packet @ drop (length (take n packet)) buf, length (take n packet), AVS_OK)"
    by (auto simp: b [symmetric])
  with assms(1) show ?thesis by (simp add: min_def)
qed

theorem udp_msg_parse_serialize_witness:
  "\<exists>msg. udp_msg_parse zero_msg [0x42, 2, 0x12, 0x34, 1, 2, 0xB1, 65, 0xFF, 7, 8] 11 = Some (msg, AVS_OK)
     \<and> udp_msg_serialize msg (replicate 11 0) 11
        = Some ([0x42, 2, 0x12, 0x34, 1, 2, 0xB1, 65, 0xFF, 7, 8], 11, AVS_OK)"
proof -
  have z: "length (token_bytes (msg_token zero_msg)) = 8" by (simp add: zero_msg_def)
  have n: "11 = length (msg_bytes sample_hdr [1, 2] [(11, [65])] [7, 8])" by (simp add: sample_bytes)
  have p: "[0x42, 2, 0x12, 0x34, 1, 2, 0xB1, 65, 0xFF, 7, 8] = msg_bytes sample_hdr [1, 2] [(11, [65])] [7, 8] @ []"
    by (simp add: sample_bytes)
  from udp_msg_parse_complete [OF sample_ok n p z] obtain msg where
    "udp_msg_parse zero_msg [0x42, 2, 0x12, 0x34, 1, 2, 0xB1, 65, 0xFF, 7, 8] 11 = Some (msg, AVS_OK)" by blast
  with udp_msg_parse_serialize [OF _ z this, of "replicate 11 0"] show ?thesis by auto
qed

end
