(* ===== verification/Avs_Buffer.thy ===== *)
theory Avs_Buffer
  imports Anjay_Prelude
begin

text \<open>
  The byte queue of \<open>avs_buffer.c\<close>: a fixed array with a begin and an end pointer, which is
  compacted only when the space behind the end pointer does not suffice. The theory shows that it
  is a queue whose whole capacity is always usable, wherever the pointers are, and states this as
  the interface \<open>byte_queue\<close> that clients rely on.
\<close>

section \<open>State and operations\<close>

text \<open>Pointers are offsets into \<open>data.data\<close>, an array of \<open>capacity\<close> bytes.\<close>

record avs_buffer =
  buf_capacity :: nat
  buf_begin :: nat
  buf_end :: nat
  buf_data :: bytes

definition buffer_data_size :: "avs_buffer \<Rightarrow> nat option" where
  "buffer_data_size b = size_minus (buf_end b) (buf_begin b)"

definition buffer_space_left :: "avs_buffer \<Rightarrow> nat option" where
  "buffer_space_left b = do { n \<leftarrow> buffer_data_size b; size_minus (buf_capacity b) n }"

definition space_left_without_moving :: "avs_buffer \<Rightarrow> nat option" where
  "space_left_without_moving b = size_minus (buf_capacity b) (buf_end b)"

definition buffer_reset :: "avs_buffer \<Rightarrow> avs_buffer" where
  "buffer_reset b = b\<lparr>buf_begin := 0, buf_end := 0\<rparr>"

text \<open>
  \<open>malloc\<close> is \<open>None\<close> for a failed allocation and otherwise gives the fresh bytes; the result
  \<open>None\<close> stands for the return value -1.
\<close>

definition buffer_create :: "(nat \<Rightarrow> byte) option \<Rightarrow> nat \<Rightarrow> avs_buffer option" where
  "buffer_create malloc capacity =
     (case malloc of None \<Rightarrow> None
      | Some fill \<Rightarrow> Some (buffer_reset \<lparr>buf_capacity = capacity, buf_begin = 0, buf_end = 0,
                                       buf_data = map fill [0..<capacity]\<rparr>))"

definition buffer_data :: "avs_buffer \<Rightarrow> nat" where
  "buffer_data b = buf_begin b"

definition defragment_buffer :: "avs_buffer \<Rightarrow> avs_buffer option" where
  "defragment_buffer b =
     (if buf_begin b \<noteq> 0 then do {
        used \<leftarrow> buffer_data_size b;
        m \<leftarrow> memmove (buf_data b) 0 (buf_begin b) used;
        Some (b\<lparr>buf_data := m, buf_end := used, buf_begin := 0\<rparr>) }
      else Some b)"

definition buffer_raw_insert_ptr :: "avs_buffer \<Rightarrow> (avs_buffer \<times> nat) option" where
  "buffer_raw_insert_ptr b = do { b \<leftarrow> defragment_buffer b; Some (b, buf_end b) }"

definition buffer_consume_bytes :: "avs_buffer \<Rightarrow> nat \<Rightarrow> (avs_buffer \<times> int) option" where
  "buffer_consume_bytes b bytes_count = do {
     n \<leftarrow> buffer_data_size b;
     if bytes_count > n then Some (b, - 1)
     else Some (b\<lparr>buf_begin := buf_begin b + bytes_count\<rparr>, 0) }"

definition buffer_append_bytes :: "avs_buffer \<Rightarrow> bytes \<Rightarrow> (avs_buffer \<times> int) option" where
  "buffer_append_bytes b dat = do {
     space \<leftarrow> buffer_space_left b;
     if length dat > space then Some (b, - 1)
     else do {
       direct \<leftarrow> space_left_without_moving b;
       b \<leftarrow> (if length dat > direct then defragment_buffer b else Some b);
       m \<leftarrow> wr_bytes (buf_data b) (buf_end b) dat;
       Some (b\<lparr>buf_data := m, buf_end := buf_end b + length dat\<rparr>, 0) } }"

definition buffer_advance_ptr :: "avs_buffer \<Rightarrow> nat \<Rightarrow> (avs_buffer \<times> int) option" where
  "buffer_advance_ptr b n = do {
     space \<leftarrow> buffer_space_left b;
     if n > space then Some (b, - 1)
     else do {
       direct \<leftarrow> space_left_without_moving b;
       b \<leftarrow> (if n > direct then defragment_buffer b else Some b);
       Some (b\<lparr>buf_end := buf_end b + n\<rparr>, 0) } }"

definition buffer_fill_bytes :: "avs_buffer \<Rightarrow> byte \<Rightarrow> nat \<Rightarrow> (avs_buffer \<times> int) option" where
  "buffer_fill_bytes b value bytes_count = do {
     space \<leftarrow> buffer_space_left b;
     if bytes_count > space then Some (b, - 1)
     else do {
       direct \<leftarrow> space_left_without_moving b;
       b \<leftarrow> (if bytes_count > direct then defragment_buffer b else Some b);
       m \<leftarrow> wr_bytes (buf_data b) (buf_end b) (replicate bytes_count value);
       Some (b\<lparr>buf_data := m, buf_end := buf_end b + bytes_count\<rparr>, 0) } }"

section \<open>The queue it represents\<close>

definition buffer_rep :: "avs_buffer \<Rightarrow> bytes \<Rightarrow> bool" where
  "buffer_rep b xs \<longleftrightarrow>
     (\<exists>pre post. buf_data b = pre @ xs @ post \<and> buf_begin b = length pre
        \<and> buf_end b = length pre + length xs \<and> buf_capacity b = length (buf_data b))"

lemma buffer_rep_sizes:
  assumes "buffer_rep b xs"
  shows "buffer_data_size b = Some (length xs)"
    and "buffer_space_left b = Some (buf_capacity b - length xs)"
    and "space_left_without_moving b = Some (buf_capacity b - buf_end b)"
    and "length xs \<le> buf_capacity b" and "buf_end b \<le> buf_capacity b"
  using assms
  by (auto simp: buffer_rep_def buffer_data_size_def buffer_space_left_def space_left_without_moving_def)

lemma defragment_rep:
  assumes "buffer_rep b xs"
  shows "\<exists>b' post. defragment_buffer b = Some b' \<and> buf_data b' = xs @ post \<and> buf_begin b' = 0
    \<and> buf_end b' = length xs \<and> buf_capacity b' = buf_capacity b \<and> length (buf_data b') = length (buf_data b)"
proof -
  from assms obtain pre post where b: "buf_data b = pre @ xs @ post" "buf_begin b = length pre"
    "buf_end b = length pre + length xs" by (auto simp: buffer_rep_def)
  show ?thesis
  proof (cases "buf_begin b = 0")
    case True
    then show ?thesis using b by (simp add: defragment_buffer_def)
  next
    case False
    have "memmove ([] @ pre @ xs @ post) 0 (length pre) (length xs)
        = Some ([] @ xs @ drop (length xs) (pre @ xs) @ post)"
      by (rule memmove_down) simp_all
    then show ?thesis using False b by (simp add: defragment_buffer_def buffer_data_size_def)
  qed
qed

text \<open>Room for \<open>n\<close> more bytes behind the end pointer, compacted if necessary.\<close>

lemma make_room:
  assumes rep: "buffer_rep b xs" and n: "length xs + n \<le> buf_capacity b"
  shows "\<exists>b' pre post. (if n > buf_capacity b - buf_end b then defragment_buffer b else Some b) = Some b'
    \<and> buf_data b' = pre @ xs @ post \<and> buf_begin b' = length pre \<and> buf_end b' = length pre + length xs
    \<and> buf_capacity b' = buf_capacity b \<and> length (buf_data b') = buf_capacity b \<and> n \<le> length post"
proof (cases "n > buf_capacity b - buf_end b")
  case True
  have "length (buf_data b) = buf_capacity b" using rep by (auto simp: buffer_rep_def)
  with True n defragment_rep [OF rep] show ?thesis
    by (auto intro!: exI [of _ "[]"])
next
  case False
  from rep obtain pre post where "buf_data b = pre @ xs @ post" "buf_begin b = length pre"
    "buf_end b = length pre + length xs" "buf_capacity b = length (buf_data b)" by (auto simp: buffer_rep_def)
  with False show ?thesis by (intro exI [of _ b] exI [of _ pre] exI [of _ post]) simp
qed

lemma buffer_write_rep:
  assumes b: "buf_data b = pre @ xs @ post" "buf_begin b = length pre" "buf_end b = length pre + length xs"
    "buf_capacity b = length (buf_data b)" and n: "length ys \<le> length post"
  shows "\<exists>m. wr_bytes (buf_data b) (buf_end b) ys = Some m
    \<and> buffer_rep (b\<lparr>buf_data := m, buf_end := buf_end b + length ys\<rparr>) (xs @ ys)"
proof -
  have "wr_bytes ((pre @ xs) @ take (length ys) post @ drop (length ys) post) (length pre + length xs) ys
      = Some ((pre @ xs) @ ys @ drop (length ys) post)"
    by (rule wr_bytes_append) (use n in simp_all)
  moreover have "buffer_rep (b\<lparr>buf_data := pre @ xs @ ys @ drop (length ys) post, buf_end := buf_end b + length ys\<rparr>) (xs @ ys)"
    unfolding buffer_rep_def using b n
    by (intro exI [of _ pre] exI [of _ "drop (length ys) post"]) simp
  ultimately show ?thesis using b by simp
qed

lemma buffer_append_rep:
  assumes rep: "buffer_rep b xs"
  shows "if length xs + length ys \<le> buf_capacity b
    then \<exists>b'. buffer_append_bytes b ys = Some (b', 0) \<and> buffer_rep b' (xs @ ys) \<and> buf_capacity b' = buf_capacity b
    else buffer_append_bytes b ys = Some (b, - 1)"
proof (cases "length xs + length ys \<le> buf_capacity b")
  case True
  from make_room [OF rep True] obtain b1 pre post where
    b1: "(if length ys > buf_capacity b - buf_end b then defragment_buffer b else Some b) = Some b1"
    "buf_data b1 = pre @ xs @ post" "buf_begin b1 = length pre" "buf_end b1 = length pre + length xs"
    "buf_capacity b1 = buf_capacity b" "length (buf_data b1) = buf_capacity b" "length ys \<le> length post" by blast
  from buffer_write_rep [OF b1(2-4) _ b1(7)] b1(5,6) obtain m where
    "wr_bytes (buf_data b1) (buf_end b1) ys = Some m"
    "buffer_rep (b1\<lparr>buf_data := m, buf_end := buf_end b1 + length ys\<rparr>) (xs @ ys)" by auto
  with True b1 buffer_rep_sizes [OF rep] show ?thesis by (simp add: buffer_append_bytes_def)
next
  case False
  then have "buf_capacity b - length xs < length ys" using buffer_rep_sizes(4) [OF rep] by linarith
  with False buffer_rep_sizes [OF rep] show ?thesis by (simp add: buffer_append_bytes_def)
qed

lemma buffer_consume_rep:
  assumes rep: "buffer_rep b xs"
  shows "if n \<le> length xs
    then \<exists>b'. buffer_consume_bytes b n = Some (b', 0) \<and> buffer_rep b' (drop n xs) \<and> buf_capacity b' = buf_capacity b
    else buffer_consume_bytes b n = Some (b, - 1)"
proof (cases "n \<le> length xs")
  case True
  from rep obtain pre post where b: "buf_data b = pre @ xs @ post" "buf_begin b = length pre"
    "buf_end b = length pre + length xs" "buf_capacity b = length (buf_data b)" by (auto simp: buffer_rep_def)
  then have "buffer_rep (b\<lparr>buf_begin := buf_begin b + n\<rparr>) (drop n xs)"
    unfolding buffer_rep_def using True
    by (intro exI [of _ "pre @ take n xs"] exI [of _ post]) simp
  with True buffer_rep_sizes [OF rep] show ?thesis by (simp add: buffer_consume_bytes_def)
next
  case False
  with buffer_rep_sizes [OF rep] show ?thesis by (simp add: buffer_consume_bytes_def)
qed

lemma buffer_fill_append:
  "buffer_fill_bytes b v n = buffer_append_bytes b (replicate n v)"
  unfolding buffer_fill_bytes_def buffer_append_bytes_def length_replicate by (rule refl)

lemma buffer_create_rep:
  "\<exists>b. buffer_create (Some fill) n = Some b \<and> buffer_rep b [] \<and> buf_capacity b = n"
  by (simp add: buffer_create_def buffer_reset_def buffer_rep_def)

text \<open>
  Writing directly behind the data: the pointer that \<open>avs_buffer_raw_insert_ptr\<close> returns has all
  the free space of the buffer behind it, and \<open>avs_buffer_advance_ptr\<close> turns what was written
  there into data.
\<close>

lemma buffer_raw_insert_rep:
  assumes rep: "buffer_rep b xs"
  shows "\<exists>b' post. buffer_raw_insert_ptr b = Some (b', length xs) \<and> buf_data b' = xs @ post
    \<and> buf_begin b' = 0 \<and> buf_end b' = length xs \<and> buf_capacity b' = buf_capacity b
    \<and> buffer_rep b' xs \<and> length post = buf_capacity b - length xs"
proof -
  from defragment_rep [OF rep] obtain b' post where b': "defragment_buffer b = Some b'" "buf_data b' = xs @ post"
    "buf_begin b' = 0" "buf_end b' = length xs" "buf_capacity b' = buf_capacity b"
    "length (buf_data b') = length (buf_data b)" by blast
  have "length (buf_data b) = buf_capacity b" using rep by (auto simp: buffer_rep_def)
  with b' have "buffer_rep b' xs" "length post = buf_capacity b - length xs"
    by (auto simp: buffer_rep_def intro!: exI [of _ "[]"])
  with b' show ?thesis by (auto simp: buffer_raw_insert_ptr_def)
qed

lemma buffer_advance_rep:
  assumes b: "buf_data b = xs @ ys @ post" "buf_begin b = 0" "buf_end b = length xs"
    "buf_capacity b = length (buf_data b)"
  shows "buffer_advance_ptr b (length ys) = Some (b\<lparr>buf_end := length xs + length ys\<rparr>, 0)
    \<and> buffer_rep (b\<lparr>buf_end := length xs + length ys\<rparr>) (xs @ ys)"
  using b by (auto simp: buffer_advance_ptr_def buffer_space_left_def buffer_data_size_def
      space_left_without_moving_def buffer_rep_def intro!: exI [of _ "[]"])

section \<open>The interface of a bounded byte queue\<close>

text \<open>
  What a client of the buffer relies on: the buffer represents the bytes that were appended and
  not yet consumed, and nothing but the capacity limits what can be appended.
\<close>

locale byte_queue =
  fixes rep :: "'b \<Rightarrow> bytes \<Rightarrow> bool"
    and cap :: "'b \<Rightarrow> nat"
    and app :: "'b \<Rightarrow> bytes \<Rightarrow> ('b \<times> int) option"
    and consume :: "'b \<Rightarrow> nat \<Rightarrow> ('b \<times> int) option"
  assumes size_le: "rep b xs \<Longrightarrow> length xs \<le> cap b"
    and app_fits: "rep b xs \<Longrightarrow> length xs + length ys \<le> cap b \<Longrightarrow>
        \<exists>b'. app b ys = Some (b', 0) \<and> rep b' (xs @ ys) \<and> cap b' = cap b"
    and app_full: "rep b xs \<Longrightarrow> cap b < length xs + length ys \<Longrightarrow> app b ys = Some (b, - 1)"
    and consume_ok: "rep b xs \<Longrightarrow> n \<le> length xs \<Longrightarrow>
        \<exists>b'. consume b n = Some (b', 0) \<and> rep b' (drop n xs) \<and> cap b' = cap b"
    and consume_short: "rep b xs \<Longrightarrow> length xs < n \<Longrightarrow> consume b n = Some (b, - 1)"
begin

lemma consume_then_app:
  assumes "rep b xs" and "n \<le> length xs" and "length xs - n + length ys \<le> cap b"
  shows "\<exists>b1 b2. consume b n = Some (b1, 0) \<and> app b1 ys = Some (b2, 0)
    \<and> rep b2 (drop n xs @ ys) \<and> cap b2 = cap b"
proof -
  from consume_ok [OF assms(1,2)] obtain b1 where
    b1: "consume b n = Some (b1, 0)" "rep b1 (drop n xs)" "cap b1 = cap b" by blast
  from app_fits [OF b1(2), of ys] b1(3) assms(3) obtain b2 where
    "app b1 ys = Some (b2, 0)" "rep b2 (drop n xs @ ys)" "cap b2 = cap b" by auto
  with b1(1) show ?thesis by blast
qed

lemma app_then_consume:
  assumes "rep b xs" and "length xs + length ys \<le> cap b"
  shows "\<exists>b1 b2. app b ys = Some (b1, 0) \<and> consume b1 (length xs) = Some (b2, 0)
    \<and> rep b2 ys \<and> cap b2 = cap b"
proof -
  from app_fits [OF assms] obtain b1 where
    b1: "app b ys = Some (b1, 0)" "rep b1 (xs @ ys)" "cap b1 = cap b" by blast
  from consume_ok [OF b1(2), of "length xs"] b1(3) obtain b2 where
    "consume b1 (length xs) = Some (b2, 0)" "rep b2 ys" "cap b2 = cap b" by auto
  with b1(1) show ?thesis by blast
qed

lemma app_result:
  assumes "rep b xs" and "app b ys = Some (b', r)"
  shows "r = (if length xs + length ys \<le> cap b then 0 else - 1)
    \<and> rep b' (if r = 0 then xs @ ys else xs) \<and> cap b' = cap b"
  using app_fits [OF assms(1), of ys] app_full [OF assms(1), of ys] assms
  by (cases "length xs + length ys \<le> cap b") auto

end

interpretation bq: byte_queue buffer_rep buf_capacity buffer_append_bytes buffer_consume_bytes
proof unfold_locales
  fix b xs ys n
  assume rep: "buffer_rep b xs"
  show "length xs \<le> buf_capacity b" by (rule buffer_rep_sizes [OF rep])
  show "\<exists>b'. buffer_append_bytes b ys = Some (b', 0) \<and> buffer_rep b' (xs @ ys) \<and> buf_capacity b' = buf_capacity b"
    if "length xs + length ys \<le> buf_capacity b" using buffer_append_rep [OF rep, of ys] that by simp
  show "buffer_append_bytes b ys = Some (b, - 1)" if "buf_capacity b < length xs + length ys"
    using buffer_append_rep [OF rep, of ys] that by simp
  show "\<exists>b'. buffer_consume_bytes b n = Some (b', 0) \<and> buffer_rep b' (drop n xs) \<and> buf_capacity b' = buf_capacity b"
    if "n \<le> length xs" using buffer_consume_rep [OF rep, of n] that by simp
  show "buffer_consume_bytes b n = Some (b, - 1)" if "length xs < n"
    using buffer_consume_rep [OF rep, of n] that by simp
qed

text \<open>The buffer is a bounded byte queue: appending succeeds exactly when the data and the new
  bytes together fit the capacity, wherever the pointers stand, and then the data is extended at the
  end; otherwise nothing changes and -1 is returned.\<close>

theorem buffer_append_bytes_correct:
  assumes "buffer_rep b xs"
  shows "\<exists>b' r. buffer_append_bytes b ys = Some (b', r)
    \<and> r = (if length xs + length ys \<le> buf_capacity b then 0 else - 1)
    \<and> buffer_rep b' (if r = 0 then xs @ ys else xs) \<and> buf_capacity b' = buf_capacity b"
proof -
  have "\<exists>b' r. buffer_append_bytes b ys = Some (b', r)"
    using buffer_append_rep [OF assms, of ys] by (auto split: if_splits)
  with bq.app_result [OF assms] show ?thesis by blast
qed

text \<open>After consuming a prefix, the space it occupied can be used at once: bytes up to the
  whole capacity can be appended although the free space is split between both ends of the array,
  and the order of the remaining data is kept.\<close>

theorem buffer_reuses_consumed_space:
  assumes "buffer_rep b xs" and "n \<le> length xs" and "length xs - n + length ys \<le> buf_capacity b"
  shows "\<exists>b1 b2. buffer_consume_bytes b n = Some (b1, 0) \<and> buffer_append_bytes b1 ys = Some (b2, 0)
    \<and> buffer_rep b2 (drop n xs @ ys) \<and> buf_capacity b2 = buf_capacity b"
  using assms by (rule bq.consume_then_app)

theorem buffer_append_bytes_witness:
  "\<exists>b'. buffer_append_bytes \<lparr>buf_capacity = 4, buf_begin = 2, buf_end = 4, buf_data = [9, 9, 1, 2]\<rparr> [3, 4]
     = Some (b', 0) \<and> buffer_rep b' [1, 2, 3, 4]"
proof -
  have "buffer_rep \<lparr>buf_capacity = 4, buf_begin = 2, buf_end = 4, buf_data = [9, 9, 1, 2]\<rparr> [1, 2]"
    unfolding buffer_rep_def by (intro exI [of _ "[9, 9]"] exI [of _ "[]"]) simp
  from buffer_append_bytes_correct [OF this, of "[3, 4]"] show ?thesis by auto
qed

theorem buffer_reuses_consumed_space_witness:
  "\<exists>b1 b2. buffer_consume_bytes \<lparr>buf_capacity = 3, buf_begin = 0, buf_end = 3, buf_data = [1, 2, 3]\<rparr> 2
       = Some (b1, 0)
     \<and> buffer_append_bytes b1 [4, 5] = Some (b2, 0) \<and> buffer_rep b2 [3, 4, 5]"
proof -
  have "buffer_rep \<lparr>buf_capacity = 3, buf_begin = 0, buf_end = 3, buf_data = [1, 2, 3]\<rparr> [1, 2, 3]"
    unfolding buffer_rep_def by (intro exI [of _ "[]"] exI [of _ "[]"]) simp
  from buffer_reuses_consumed_space [OF this, of 2 "[4, 5]"] show ?thesis by auto
qed

end
