(* ===== verification/Avs_Time.thy ===== *)
theory Avs_Time
  imports Anjay_Prelude "HOL-Library.Signed_Division"
begin

text \<open>
  Points in time and durations (\<open>avs_time.c\<close>, \<open>avs_time.h\<close>): seconds in 64 bits and nanoseconds
  that are not negative, with arithmetic that checks for overflow, and conversions from and to a
  number of units. The theory relates them to the exact number of nanoseconds.
\<close>

section \<open>Signed integers of 64 bits\<close>

definition i64 :: "int \<Rightarrow> bool" where
  "i64 x \<longleftrightarrow> - (2 ^ 63) \<le> x \<and> x < 2 ^ 63"

text \<open>
  An overflow of a signed operation is undefined. The arguments of the operations below are always
  numbers of 64 bits.
\<close>

definition signed_op :: "int \<Rightarrow> int option" where
  "signed_op x = (if i64 x then Some x else None)"

abbreviation (input) INT64_MIN :: int where "INT64_MIN \<equiv> - (2 ^ 63)"
abbreviation (input) INT64_MAX :: int where "INT64_MAX \<equiv> 2 ^ 63 - 1"

lemma i64_simps [simp]: "i64 0" "i64 1" "i64 (- 1)" "i64 INT64_MIN" "i64 INT64_MAX"
  by (simp_all add: i64_def)

lemma signed_op_ok [simp]: "i64 x \<Longrightarrow> signed_op x = Some x"
  by (simp add: signed_op_def)

text \<open>
  The results are the value that is assigned, or \<open>None\<close> within for the return value -1. These are the
  definitions for compilers without the overflow intrinsics.
\<close>

definition safe_add_int64 :: "int \<Rightarrow> int \<Rightarrow> int option option" where
  "safe_add_int64 a b =
     (if a > 0 \<and> b > 0 then
        (let result = (a + b) mod 2 ^ 64 in Some (if result > INT64_MAX then None else Some result))
      else if a < 0 \<and> b < 0 then
        if a = INT64_MIN \<or> b = INT64_MIN then Some None
        else do {
          na \<leftarrow> signed_op (- a);
          nb \<leftarrow> signed_op (- b);
          let result = (na + nb) mod 2 ^ 64;
          if result > INT64_MAX + 1 then Some None
          else if result = INT64_MAX + 1 then Some (Some INT64_MIN)
          else Some (Some (- result)) }
      else do { r \<leftarrow> signed_op (a + b); Some (Some r) })"

fun safe_mul_pos :: "int \<Rightarrow> int \<Rightarrow> int option option" where
  "safe_mul_pos input multiplier = do {
     c_assert (multiplier > 0);
     if input > INT64_MAX sdiv multiplier \<or> input < INT64_MIN sdiv multiplier then Some None
     else do { r \<leftarrow> signed_op (input * multiplier); Some (Some r) } }"

text \<open>The recursive call has a positive multiplier and ends.\<close>

function safe_mul_int64 :: "int \<Rightarrow> int \<Rightarrow> int option option" where
  "safe_mul_int64 input multiplier =
     (if input = 0 \<or> multiplier = 0 then Some (Some 0)
      else if input = INT64_MIN \<and> multiplier = 1 \<or> input = 1 \<and> multiplier = INT64_MIN then Some (Some INT64_MIN)
      else if input = INT64_MIN \<or> multiplier = INT64_MIN then Some None
      else if multiplier < 0 then do {
        ni \<leftarrow> signed_op (- input);
        nm \<leftarrow> signed_op (- multiplier);
        safe_mul_int64 ni nm }
      else safe_mul_pos input multiplier)"
  by auto
termination
  by (relation "measure (\<lambda>(_, m). if m < 0 then 1 else 0)") (auto simp: signed_op_def split: if_splits)

declare safe_mul_int64.simps [simp del]

text \<open>The checked operations compute the exact result exactly when it fits into 64 bits.\<close>

lemma safe_add_exact:
  assumes "i64 a" and "i64 b"
  shows "safe_add_int64 a b = Some (if i64 (a + b) then Some (a + b) else None)"
proof -
  consider "a > 0 \<and> b > 0" | "a < 0 \<and> b < 0" | "\<not> (a > 0 \<and> b > 0)" "\<not> (a < 0 \<and> b < 0)" by blast
  then show ?thesis
  proof cases
    case 1
    have "(a + b) mod 2 ^ 64 = a + b" using 1 assms by (intro mod_pos_pos_trivial) (simp_all add: i64_def)
    with 1 show ?thesis by (simp add: safe_add_int64_def i64_def Let_def)
  next
    case 2
    show ?thesis
    proof (cases "a = INT64_MIN \<or> b = INT64_MIN")
      case True
      with 2 assms show ?thesis by (auto simp: safe_add_int64_def i64_def)
    next
      case False
      have neg: "i64 (- a)" "i64 (- b)" using 2 assms False by (auto simp: i64_def)
      have "(- a + - b) mod 2 ^ 64 = - a + - b" using 2 assms False by (intro mod_pos_pos_trivial) (auto simp: i64_def)
      with 2 False neg show ?thesis
        by (simp only: safe_add_int64_def Let_def signed_op_ok bind.simps if_True if_False simp_thms)
          (auto simp: i64_def)
    qed
  next
    case 3
    then have "i64 (a + b)" using assms by (auto simp: i64_def)
    with 3 show ?thesis by (auto simp: safe_add_int64_def)
  qed
qed

lemma div_less_iff_int: "m > 0 \<Longrightarrow> a div m < i \<longleftrightarrow> a < i * m" for a i m :: int
proof -
  assume m: "m > 0"
  have e: "a div m * m + a mod m = a" "0 \<le> a mod m" "a mod m < m" using m by simp_all
  show ?thesis
  proof
    assume "a div m < i"
    then have "(a div m + 1) * m \<le> i * m" using m by (intro mult_right_mono) simp_all
    then have "a div m * m + m \<le> i * m" by (simp only: distrib_right mult_1_left)
    then show "a < i * m" using e by linarith
  next
    assume "a < i * m"
    then have "a div m * m < i * m" using e by linarith
    then show "a div m < i" using m by (simp add: mult_less_cancel_right_disj)
  qed
qed

lemma sdiv_bounds:
  fixes m a :: int
  assumes "m > 0" and "a \<ge> 0"
  shows "i > a sdiv m \<longleftrightarrow> i * m > a" and "i < (- a) sdiv m \<longleftrightarrow> i * m < - a"
proof -
  have p: "a sdiv m = a div m" "(- a) sdiv m = - (a div m)"
    using assms by (auto simp: signed_divide_int_def sgn_if zdiv_zminus1_eq_if)
  have "i > a div m \<longleftrightarrow> i * m > a"
    using assms(1) by (simp add: div_less_iff_int)
  then show "i > a sdiv m \<longleftrightarrow> i * m > a" by (simp add: p)
  have "- i > a div m \<longleftrightarrow> - i * m > a" using assms(1) by (simp add: div_less_iff_int)
  then show "i < (- a) sdiv m \<longleftrightarrow> i * m < - a" by (auto simp: p)
qed

lemma safe_mul_pos_exact:
  assumes "i64 a" "m > 0"
  shows "safe_mul_pos a m = Some (if i64 (a * m) then Some (a * m) else None)"
  using sdiv_bounds [OF assms(2), of INT64_MAX a] sdiv_bounds [OF assms(2), of "2 ^ 63" a] assms(2)
  by (auto simp: i64_def not_less signed_op_def)

lemma safe_mul_exact:
  assumes "i64 a" and "i64 m"
  shows "safe_mul_int64 a m = Some (if i64 (a * m) then Some (a * m) else None)"
proof -
  have big: "\<not> i64 (INT64_MIN * n)" if "n \<noteq> 0" "n \<noteq> 1" for n :: int
    using that by (auto simp: i64_def)
  have pos: "safe_mul_int64 a m = Some (if i64 (a * m) then Some (a * m) else None)" if "i64 a" "m > 0" for a m
    using that big [of m] safe_mul_pos_exact [of a m] by (subst safe_mul_int64.simps) (auto simp del: safe_mul_pos.simps)
  show ?thesis
  proof (cases "m < 0 \<and> a \<noteq> 0 \<and> a \<noteq> INT64_MIN \<and> m \<noteq> INT64_MIN")
    case True
    have "i64 (- a)" "i64 (- m)" using True assms by (auto simp: i64_def)
    with True pos [of "- a" "- m"] show ?thesis by (subst safe_mul_int64.simps) auto
  next
    case False
    then consider "m > 0" | "m = 0 \<or> a = 0" | "a = INT64_MIN" "m < 0" | "m = INT64_MIN" "a \<noteq> 0" "m < 0" by force
    then show ?thesis
    proof cases
      case 1 then show ?thesis using pos assms by blast
    next
      case 2 then show ?thesis by (subst safe_mul_int64.simps) auto
    next
      case 3 then show ?thesis using big [of m] by (subst safe_mul_int64.simps) auto
    next
      case 4 then show ?thesis using big [of a] by (subst safe_mul_int64.simps) (auto simp: mult.commute i64_def)
    qed
  qed
qed

section \<open>Durations\<close>

record duration =
  dur_seconds :: int
  dur_nanoseconds :: int

abbreviation (input) NS_IN_S :: int where "NS_IN_S \<equiv> 1000000000"

text \<open>Points in time are durations since an epoch.\<close>

type_synonym monotonic = duration

definition AVS_TIME_DURATION_INVALID :: duration where
  "AVS_TIME_DURATION_INVALID = \<lparr>dur_seconds = 0, dur_nanoseconds = - 1\<rparr>"

definition duration_valid :: "duration \<Rightarrow> bool" where
  "duration_valid t \<longleftrightarrow> dur_nanoseconds t \<ge> 0 \<and> dur_nanoseconds t < NS_IN_S"

definition duration_less :: "duration \<Rightarrow> duration \<Rightarrow> bool" where
  "duration_less a b \<longleftrightarrow>
     (if \<not> duration_valid a \<or> \<not> duration_valid b then False
      else dur_seconds a < dur_seconds b \<or> dur_seconds a = dur_seconds b \<and> dur_nanoseconds a < dur_nanoseconds b)"

definition duration_equal :: "duration \<Rightarrow> duration \<Rightarrow> bool" where
  "duration_equal a b \<longleftrightarrow>
     (if \<not> duration_valid a \<or> \<not> duration_valid b then False
      else dur_seconds a = dur_seconds b \<and> dur_nanoseconds a = dur_nanoseconds b)"

text \<open>The duration as it is left, and whether the result is 0.\<close>

definition normalize :: "duration \<Rightarrow> (duration \<times> bool) option" where
  "normalize t = do {
     c_assert (dur_nanoseconds t \<ge> - NS_IN_S);
     c_assert (dur_nanoseconds t < 2 * NS_IN_S);
     if dur_nanoseconds t < 0 then
       if dur_seconds t = INT64_MIN then Some (t, False)
       else Some (\<lparr>dur_seconds = dur_seconds t - 1, dur_nanoseconds = dur_nanoseconds t + NS_IN_S\<rparr>, True)
     else if dur_nanoseconds t \<ge> NS_IN_S then
       if dur_seconds t = INT64_MAX then Some (t, False)
       else Some (\<lparr>dur_seconds = dur_seconds t + 1, dur_nanoseconds = dur_nanoseconds t - NS_IN_S\<rparr>, True)
     else Some (t, True) }"

definition duration_add :: "duration \<Rightarrow> duration \<Rightarrow> duration option" where
  "duration_add a b =
     (if \<not> duration_valid a \<or> \<not> duration_valid b then Some AVS_TIME_DURATION_INVALID
      else do {
        let nanoseconds = dur_nanoseconds a + dur_nanoseconds b;
        s \<leftarrow> safe_add_int64 (dur_seconds a) (dur_seconds b);
        (case s of
           None \<Rightarrow> Some AVS_TIME_DURATION_INVALID
         | Some seconds \<Rightarrow> do {
             (result, ok) \<leftarrow> normalize \<lparr>dur_seconds = seconds, dur_nanoseconds = nanoseconds\<rparr>;
             if \<not> ok then Some AVS_TIME_DURATION_INVALID
             else do { c_assert (duration_valid result); Some result } }) })"

definition negate :: "duration \<Rightarrow> (duration \<times> bool) option" where
  "negate t = do {
     let t = (if dur_seconds t < 0
              then \<lparr>dur_seconds = dur_seconds t + 1, dur_nanoseconds = dur_nanoseconds t - NS_IN_S\<rparr> else t);
     s \<leftarrow> signed_op (- dur_seconds t);
     normalize \<lparr>dur_seconds = s, dur_nanoseconds = - dur_nanoseconds t\<rparr> }"

text \<open>The result of \<open>negate\<close> is not looked at.\<close>

definition duration_diff :: "duration \<Rightarrow> duration \<Rightarrow> duration option" where
  "duration_diff minuend subtrahend =
     (if \<not> duration_valid minuend \<or> \<not> duration_valid subtrahend then Some AVS_TIME_DURATION_INVALID
      else do {
        (negated, _) \<leftarrow> negate subtrahend;
        let nanoseconds = dur_nanoseconds minuend + dur_nanoseconds negated;
        s \<leftarrow> safe_add_int64 (dur_seconds minuend) (dur_seconds negated);
        (case s of
           None \<Rightarrow> Some AVS_TIME_DURATION_INVALID
         | Some seconds \<Rightarrow> do {
             (result, ok) \<leftarrow> normalize \<lparr>dur_seconds = seconds, dur_nanoseconds = nanoseconds\<rparr>;
             if \<not> ok then Some AVS_TIME_DURATION_INVALID
             else do { c_assert (duration_valid result); Some result } }) })"

definition duration_mul :: "duration \<Rightarrow> int \<Rightarrow> duration option" where
  "duration_mul input multiplier =
     (if \<not> duration_valid input then Some AVS_TIME_DURATION_INVALID
      else do {
        nanoseconds \<leftarrow> signed_op (dur_nanoseconds input * multiplier);
        let seconds_rest = nanoseconds sdiv NS_IN_S;
        let ns = nanoseconds smod NS_IN_S;
        s \<leftarrow> safe_mul_int64 (dur_seconds input) multiplier;
        (case s of
           None \<Rightarrow> Some AVS_TIME_DURATION_INVALID
         | Some seconds \<Rightarrow> do {
             s \<leftarrow> safe_add_int64 seconds seconds_rest;
             (case s of
                None \<Rightarrow> Some AVS_TIME_DURATION_INVALID
              | Some seconds \<Rightarrow> do {
                  (result, ok) \<leftarrow> normalize \<lparr>dur_seconds = seconds, dur_nanoseconds = ns\<rparr>;
                  if \<not> ok then Some AVS_TIME_DURATION_INVALID
                  else do { c_assert (duration_valid result); Some result } }) }) })"

section \<open>Conversions\<close>

datatype time_unit = AVS_TIME_DAY | AVS_TIME_HOUR | AVS_TIME_MIN | AVS_TIME_S | AVS_TIME_MS | AVS_TIME_US | AVS_TIME_NS

datatype unit_conv_op = UCO_MUL | UCO_DIV

type_synonym unit_conv = "unit_conv_op \<times> int"

primrec conversions :: "time_unit \<Rightarrow> unit_conv \<times> unit_conv" where
  "conversions AVS_TIME_DAY = ((UCO_DIV, 86400), (UCO_DIV, 86400000000000))"
| "conversions AVS_TIME_HOUR = ((UCO_DIV, 3600), (UCO_DIV, 3600000000000))"
| "conversions AVS_TIME_MIN = ((UCO_DIV, 60), (UCO_DIV, 60000000000))"
| "conversions AVS_TIME_S = ((UCO_MUL, 1), (UCO_DIV, 1000000000))"
| "conversions AVS_TIME_MS = ((UCO_MUL, 1000), (UCO_DIV, 1000000))"
| "conversions AVS_TIME_US = ((UCO_MUL, 1000000), (UCO_DIV, 1000))"
| "conversions AVS_TIME_NS = ((UCO_MUL, 1000000000), (UCO_MUL, 1))"

definition unit_conv :: "int \<Rightarrow> unit_conv_op \<Rightarrow> int \<Rightarrow> int option option" where
  "unit_conv input operation factor = do {
     c_assert (factor > 0);
     (case operation of
        UCO_MUL \<Rightarrow> safe_mul_int64 input factor
      | UCO_DIV \<Rightarrow> Some (Some (input sdiv factor))) }"

definition unit_conv_forward :: "int \<Rightarrow> unit_conv \<Rightarrow> int option option" where
  "unit_conv_forward input conv = unit_conv input (fst conv) (snd conv)"

definition unit_conv_backward :: "int \<Rightarrow> unit_conv \<Rightarrow> int option option" where
  "unit_conv_backward input conv = unit_conv input (if fst conv = UCO_DIV then UCO_MUL else UCO_DIV) (snd conv)"

definition time_conv_forward :: "int \<Rightarrow> int \<Rightarrow> unit_conv \<times> unit_conv \<Rightarrow> int option option" where
  "time_conv_forward seconds nanoseconds conv = do {
     let (seconds, nanoseconds) =
       (if seconds < 0 \<and> nanoseconds > 0 then (seconds + 1, nanoseconds - NS_IN_S) else (seconds, nanoseconds));
     converted_s \<leftarrow> unit_conv_forward seconds (fst conv);
     (case converted_s of
        None \<Rightarrow> Some None
      | Some converted_s \<Rightarrow> do {
          converted_ns \<leftarrow> unit_conv_forward nanoseconds (snd conv);
          (case converted_ns of
             None \<Rightarrow> Some None
           | Some converted_ns \<Rightarrow> safe_add_int64 converted_s converted_ns) }) }"

definition time_conv_backward :: "int \<Rightarrow> unit_conv \<times> unit_conv \<Rightarrow> duration option option" where
  "time_conv_backward input conv = do {
     s \<leftarrow> unit_conv_backward input (fst conv);
     (case s of
        None \<Rightarrow> Some None
      | Some seconds \<Rightarrow> do {
          so \<leftarrow> unit_conv_forward seconds (fst conv);
          (case so of
             None \<Rightarrow> Some None
           | Some seconds_only \<Rightarrow> do {
               rest \<leftarrow> signed_op (input - seconds_only);
               ns \<leftarrow> unit_conv_backward rest (snd conv);
               (case ns of
                  None \<Rightarrow> Some None
                | Some ns \<Rightarrow>
                    if ns \<le> - NS_IN_S \<or> ns \<ge> NS_IN_S then Some None
                    else do {
                      (t, ok) \<leftarrow> normalize \<lparr>dur_seconds = seconds, dur_nanoseconds = ns\<rparr>;
                      Some (if ok then Some t else None) }) }) }) }"

definition duration_to_scalar :: "time_unit \<Rightarrow> duration \<Rightarrow> int option option" where
  "duration_to_scalar unit v =
     (if \<not> duration_valid v then Some None
      else time_conv_forward (dur_seconds v) (dur_nanoseconds v) (conversions unit))"

definition duration_from_scalar :: "int \<Rightarrow> time_unit \<Rightarrow> duration option" where
  "duration_from_scalar v unit = do {
     r \<leftarrow> time_conv_backward v (conversions unit);
     Some (case r of None \<Rightarrow> AVS_TIME_DURATION_INVALID | Some t \<Rightarrow> t) }"

section \<open>Points in time\<close>

definition monotonic_before :: "monotonic \<Rightarrow> monotonic \<Rightarrow> bool" where
  "monotonic_before a b = duration_less a b"

definition monotonic_add :: "monotonic \<Rightarrow> duration \<Rightarrow> monotonic option" where
  "monotonic_add a b = duration_add a b"

definition monotonic_diff :: "monotonic \<Rightarrow> monotonic \<Rightarrow> duration option" where
  "monotonic_diff minuend subtrahend = duration_diff minuend subtrahend"

definition monotonic_valid :: "monotonic \<Rightarrow> bool" where
  "monotonic_valid t = duration_valid t"

section \<open>The nanoseconds they stand for\<close>

definition ns_of :: "duration \<Rightarrow> int" where
  "ns_of t = dur_seconds t * NS_IN_S + dur_nanoseconds t"

definition dur_ok :: "duration \<Rightarrow> bool" where
  "dur_ok t \<longleftrightarrow> duration_valid t \<and> i64 (dur_seconds t)"

text \<open>The duration of so many nanoseconds.\<close>

definition of_ns :: "int \<Rightarrow> duration" where
  "of_ns n = \<lparr>dur_seconds = n div NS_IN_S, dur_nanoseconds = n mod NS_IN_S\<rparr>"

lemma ns_of_of_ns [simp]: "ns_of (of_ns n) = n"
  by (simp add: ns_of_def of_ns_def)

lemma duration_valid_of_ns [simp]: "duration_valid (of_ns n)"
  by (simp add: duration_valid_def of_ns_def)

lemma of_ns_unique:
  "0 \<le> ns \<Longrightarrow> ns < NS_IN_S \<Longrightarrow> of_ns (s * NS_IN_S + ns) = \<lparr>dur_seconds = s, dur_nanoseconds = ns\<rparr>"
  by (simp add: of_ns_def)

lemma duration_less_iff: "duration_valid a \<Longrightarrow> duration_valid b \<Longrightarrow> duration_less a b \<longleftrightarrow> ns_of a < ns_of b"
  unfolding duration_less_def duration_valid_def ns_of_def by auto

lemma duration_equal_iff: "duration_valid a \<Longrightarrow> duration_valid b \<Longrightarrow> duration_equal a b \<longleftrightarrow> ns_of a = ns_of b"
proof -
  assume v: "duration_valid a" "duration_valid b"
  have "of_ns (ns_of t) = t" if "duration_valid t" for t
    using that unfolding ns_of_def duration_valid_def by (subst of_ns_unique) simp_all
  then have "ns_of a = ns_of b \<longleftrightarrow> a = b" using v by metis
  with v show "duration_equal a b \<longleftrightarrow> ns_of a = ns_of b" by (cases a; cases b) (simp add: duration_equal_def)
qed

lemma normalize_exact:
  assumes "- NS_IN_S \<le> ns" and "ns < 2 * NS_IN_S" and "i64 s"
  defines "n \<equiv> s * NS_IN_S + ns"
  shows "\<exists>t. normalize \<lparr>dur_seconds = s, dur_nanoseconds = ns\<rparr> = Some (t, i64 (n div NS_IN_S))
    \<and> (i64 (n div NS_IN_S) \<longrightarrow> t = of_ns n)"
proof -
  consider "ns < 0" | "0 \<le> ns \<and> ns < NS_IN_S" | "NS_IN_S \<le> ns" by linarith
  then show ?thesis
  proof cases
    case 1
    have n: "n = (s - 1) * NS_IN_S + (ns + NS_IN_S)" by (simp add: n_def)
    have c: "of_ns n = \<lparr>dur_seconds = s - 1, dur_nanoseconds = ns + NS_IN_S\<rparr>"
      unfolding n using 1 assms(1) by (intro of_ns_unique) simp_all
    then have "n div NS_IN_S = s - 1" by (simp add: of_ns_def)
    with 1 c assms(1,2,3) show ?thesis by (auto simp: normalize_def i64_def)
  next
    case 2
    have c: "of_ns n = \<lparr>dur_seconds = s, dur_nanoseconds = ns\<rparr>" unfolding n_def using 2 by (intro of_ns_unique) simp_all
    then have "n div NS_IN_S = s" by (simp add: of_ns_def)
    with 2 c assms(1,2,3) show ?thesis by (auto simp: normalize_def)
  next
    case 3
    have n: "n = (s + 1) * NS_IN_S + (ns - NS_IN_S)" by (simp add: n_def)
    have c: "of_ns n = \<lparr>dur_seconds = s + 1, dur_nanoseconds = ns - NS_IN_S\<rparr>"
      unfolding n using 3 assms(2) by (intro of_ns_unique) simp_all
    then have "n div NS_IN_S = s + 1" by (simp add: of_ns_def)
    with 3 c assms(1,2,3) show ?thesis by (auto simp: normalize_def i64_def)
  qed
qed

text \<open>What all operations end with: checked seconds, normalized together with the nanoseconds.\<close>

lemma normalize_result:
  assumes "- NS_IN_S \<le> ns" and "ns < 2 * NS_IN_S" and "i64 s"
  defines "n \<equiv> s * NS_IN_S + ns"
  shows "do { (result, ok) \<leftarrow> normalize \<lparr>dur_seconds = s, dur_nanoseconds = ns\<rparr>;
           if \<not> ok then Some AVS_TIME_DURATION_INVALID
           else do { c_assert (duration_valid result); Some result } }
    = Some (if i64 (n div NS_IN_S) then of_ns n else AVS_TIME_DURATION_INVALID)"
  using normalize_exact [OF assms(1-3)] by (auto simp: n_def)

text \<open>
  Additions are exact whenever the sum of the seconds alone fits, and signalled otherwise. A sum of
  seconds just out of range can only be made up for by the nanoseconds at the very end of the range.
\<close>

lemma duration_add_exact:
  assumes "dur_ok a" and "dur_ok b"
  shows "duration_add a b = Some
    (if i64 (dur_seconds a + dur_seconds b) \<and> i64 ((ns_of a + ns_of b) div NS_IN_S)
     then of_ns (ns_of a + ns_of b) else AVS_TIME_DURATION_INVALID)"
proof -
  have v: "duration_valid a" "duration_valid b" "i64 (dur_seconds a)" "i64 (dur_seconds b)"
    using assms by (simp_all add: dur_ok_def)
  have n: "ns_of a + ns_of b = (dur_seconds a + dur_seconds b) * NS_IN_S + (dur_nanoseconds a + dur_nanoseconds b)"
    by (simp add: ns_of_def)
  have r: "- NS_IN_S \<le> dur_nanoseconds a + dur_nanoseconds b" "dur_nanoseconds a + dur_nanoseconds b < 2 * NS_IN_S"
    using v(1,2) by (simp_all add: duration_valid_def)
  show ?thesis unfolding n
    using v normalize_result [OF r, of "dur_seconds a + dur_seconds b"]
    by (simp add: duration_add_def safe_add_exact)
qed

lemma duration_add_valid:
  assumes "dur_ok a" "dur_ok b" "duration_add a b = Some t" "duration_valid t"
  shows "dur_ok t" "ns_of t = ns_of a + ns_of b"
proof -
  from duration_add_exact [OF assms(1,2)] assms(3,4)
  have "t = of_ns (ns_of a + ns_of b)" "i64 ((ns_of a + ns_of b) div NS_IN_S)"
    by (auto simp: AVS_TIME_DURATION_INVALID_def duration_valid_def split: if_splits)
  then show "dur_ok t" "ns_of t = ns_of a + ns_of b" by (simp_all add: dur_ok_def) (simp add: of_ns_def)
qed

text \<open>
  Negation: the one result out of range is left with a whole second of nanoseconds, which the
  subtraction that uses it takes into account.
\<close>

lemma negate_exact:
  assumes "dur_ok t"
  shows "\<exists>u ok. negate t = Some (u, ok) \<and> ns_of u = - ns_of t \<and> 0 \<le> dur_nanoseconds u
    \<and> dur_nanoseconds u \<le> NS_IN_S \<and> i64 (dur_seconds u)
    \<and> (dur_nanoseconds u = NS_IN_S \<longrightarrow> dur_seconds u = INT64_MAX)"
proof (cases "dur_seconds t < 0")
  case True
  have i: "i64 (- dur_seconds t - 1)" "dur_seconds t \<ge> INT64_MIN" using assms True by (auto simp: dur_ok_def i64_def)
  have ns: "0 \<le> dur_nanoseconds t" "dur_nanoseconds t < NS_IN_S" using assms by (simp_all add: dur_ok_def duration_valid_def)
  show ?thesis
  proof (cases "dur_nanoseconds t = 0")
    case True
    with \<open>dur_seconds t < 0\<close> i show ?thesis
      by (auto simp: negate_def normalize_def ns_of_def Let_def signed_op_def i64_def)
  next
    case False
    with \<open>dur_seconds t < 0\<close> i ns show ?thesis by (auto simp: negate_def normalize_def ns_of_def Let_def)
  qed
next
  case False
  then have i: "i64 (- dur_seconds t)" "i64 (- dur_seconds t - 1)" using assms by (auto simp: dur_ok_def i64_def)
  have ns: "0 \<le> dur_nanoseconds t" "dur_nanoseconds t < NS_IN_S" using assms by (simp_all add: dur_ok_def duration_valid_def)
  with False i show ?thesis
    by (cases "dur_nanoseconds t = 0") (auto simp: negate_def normalize_def ns_of_def Let_def i64_def)
qed

lemma duration_diff_exact:
  assumes "dur_ok a" and "dur_ok b"
  shows "\<exists>u. negate b = Some u \<and> duration_diff a b = Some
    (if i64 (dur_seconds a + dur_seconds (fst u)) \<and> i64 ((ns_of a - ns_of b) div NS_IN_S)
     then of_ns (ns_of a - ns_of b) else AVS_TIME_DURATION_INVALID)"
proof -
  from negate_exact [OF assms(2)] obtain u ok where u: "negate b = Some (u, ok)" "ns_of u = - ns_of b"
    "0 \<le> dur_nanoseconds u" "dur_nanoseconds u \<le> NS_IN_S" "i64 (dur_seconds u)" by blast
  have v: "duration_valid a" "duration_valid b" "i64 (dur_seconds a)" using assms by (simp_all add: dur_ok_def)
  have n: "ns_of a - ns_of b = (dur_seconds a + dur_seconds u) * NS_IN_S + (dur_nanoseconds a + dur_nanoseconds u)"
    using u(2) by (simp add: ns_of_def)
  have r: "- NS_IN_S \<le> dur_nanoseconds a + dur_nanoseconds u" "dur_nanoseconds a + dur_nanoseconds u < 2 * NS_IN_S"
    using v(1) u(3,4) by (simp_all add: duration_valid_def)
  show ?thesis unfolding n
    using u v normalize_result [OF r, of "dur_seconds a + dur_seconds u"]
    by (simp add: duration_diff_def safe_add_exact)
qed

section \<open>What the conversions compute\<close>

primrec unit_ns :: "time_unit \<Rightarrow> int" where
  "unit_ns AVS_TIME_DAY = 86400 * NS_IN_S"
| "unit_ns AVS_TIME_HOUR = 3600 * NS_IN_S"
| "unit_ns AVS_TIME_MIN = 60 * NS_IN_S"
| "unit_ns AVS_TIME_S = NS_IN_S"
| "unit_ns AVS_TIME_MS = 1000000"
| "unit_ns AVS_TIME_US = 1000"
| "unit_ns AVS_TIME_NS = 1"

text \<open>Truncating division of a signed magnitude.\<close>

lemma sdiv_sign: "0 \<le> x \<Longrightarrow> 0 < m \<Longrightarrow> \<sigma> \<in> {1, - 1} \<Longrightarrow> (\<sigma> * x) sdiv m = \<sigma> * (x div m)" for x m \<sigma> :: int
  by (auto simp: signed_divide_int_def sgn_if)

lemma div_le_self_int: "0 \<le> x \<Longrightarrow> 0 < m \<Longrightarrow> x div m \<le> x" for x m :: int
  using zdiv_mono2 [of x 1 m] by simp

lemma forward_magnitude:
  assumes A: "0 \<le> A" "0 \<le> n" "n < NS_IN_S" and s: "\<sigma> \<in> {1, - 1}" and i: "i64 (\<sigma> * A)"
  shows "\<exists>cs cn. unit_conv_forward (\<sigma> * A) (fst (conversions u)) = Some (if i64 (\<sigma> * cs) then Some (\<sigma> * cs) else None)
    \<and> unit_conv_forward (\<sigma> * n) (snd (conversions u)) = Some (Some (\<sigma> * cn)) \<and> 0 \<le> cs \<and> 0 \<le> cn \<and> i64 (\<sigma> * cn)
    \<and> cs + cn = (A * NS_IN_S + n) div unit_ns u"
proof -
  have in64: "i64 (\<sigma> * n)" "i64 (\<sigma> * (n div m))" if "0 < m" for m
  proof -
    have "n div m \<le> n" "0 \<le> n div m" using A(2) that by (simp_all add: div_le_self_int pos_imp_zdiv_nonneg_iff)
    then show "i64 (\<sigma> * n)" "i64 (\<sigma> * (n div m))" using A s by (auto simp: i64_def)
  qed
  have div64: "i64 (\<sigma> * (A div m))" if "0 < m" for m
  proof -
    have "A div m \<le> A" "0 \<le> A div m" using A(1) that by (simp_all add: div_le_self_int pos_imp_zdiv_nonneg_iff)
    then show ?thesis using i s by (auto simp: i64_def)
  qed
  have long: "?thesis" if u: "conversions u = ((UCO_DIV, k), (UCO_DIV, k * NS_IN_S))" "unit_ns u = k * NS_IN_S" "0 < k" for k
  proof -
    have "(A * NS_IN_S + n) div (k * NS_IN_S) = (A * NS_IN_S + n) div NS_IN_S div k"
      using zdiv_zmult2_eq [of k "A * NS_IN_S + n" NS_IN_S] u(3) by (simp only: mult.commute [of k] less_imp_le)
    moreover have "(A * NS_IN_S + n) div NS_IN_S = A" using A by simp
    moreover have "n div (k * NS_IN_S) = 0" using A u(3) by (intro div_pos_pos_trivial) simp_all
    ultimately show ?thesis
      using u(3) A s div64 [OF u(3)] sdiv_sign [OF A(1) u(3) s] sdiv_sign [OF A(2) _ s, of "k * NS_IN_S"]
      by (intro exI [of _ "A div k"] exI [of _ 0])
        (simp add: unit_conv_forward_def unit_conv_def u(1,2) pos_imp_zdiv_nonneg_iff)
  qed
  have short: "?thesis" if u: "conversions u = ((UCO_MUL, k), (UCO_DIV, m))" "unit_ns u = m" "k * m = NS_IN_S" "0 < k" "0 < m"
    "i64 k" for k m
  proof -
    have "A * NS_IN_S + n = n + A * k * m" using u(3) by (simp add: mult.assoc)
    moreover have "(n + A * k * m) div m = A * k + n div m" using u(5) by simp
    ultimately have "(A * NS_IN_S + n) div m = A * k + n div m" by (simp only:)
    then show ?thesis
      using u(4,5,6) A s in64(2) [OF u(5)] sdiv_sign [OF A(2) u(5) s] safe_mul_exact [OF i u(6)]
      by (intro exI [of _ "A * k"] exI [of _ "n div m"])
        (simp add: unit_conv_forward_def unit_conv_def u(1,2) pos_imp_zdiv_nonneg_iff mult.assoc)
  qed
  show ?thesis
  proof (cases u)
    case AVS_TIME_DAY show ?thesis by (rule long [of 86400]) (simp_all add: AVS_TIME_DAY)
  next
    case AVS_TIME_HOUR show ?thesis by (rule long [of 3600]) (simp_all add: AVS_TIME_HOUR)
  next
    case AVS_TIME_MIN show ?thesis by (rule long [of 60]) (simp_all add: AVS_TIME_MIN)
  next
    case AVS_TIME_S show ?thesis by (rule short [of 1 "NS_IN_S"]) (simp_all add: AVS_TIME_S)
  next
    case AVS_TIME_MS show ?thesis by (rule short [of 1000 1000000]) (simp_all add: AVS_TIME_MS i64_def)
  next
    case AVS_TIME_US show ?thesis by (rule short [of 1000000 1000]) (simp_all add: AVS_TIME_US i64_def)
  next
    case AVS_TIME_NS
    then show ?thesis
      using A in64(1) [of 1] safe_mul_exact [OF i, of NS_IN_S] safe_mul_exact [OF in64(1) [of 1], of 1]
      by (intro exI [of _ "A * NS_IN_S"] exI [of _ n])
        (simp add: unit_conv_forward_def unit_conv_def mult.assoc i64_def)
  qed
qed

lemma to_scalar_exact:
  assumes "dur_ok v"
  shows "duration_to_scalar u v = Some (let x = ns_of v sdiv unit_ns u in if i64 x then Some x else None)"
proof -
  have u: "0 < unit_ns u" by (cases u) simp_all
  have v: "duration_valid v" "i64 (dur_seconds v)" "0 \<le> dur_nanoseconds v" "dur_nanoseconds v < NS_IN_S"
    using assms by (simp_all add: dur_ok_def duration_valid_def)
  have "\<exists>\<sigma> A n. \<sigma> \<in> {1, - 1} \<and> 0 \<le> A \<and> 0 \<le> n \<and> n < NS_IN_S \<and> i64 (\<sigma> * A)
      \<and> ns_of v = \<sigma> * (A * NS_IN_S + n)
      \<and> (if dur_seconds v < 0 \<and> dur_nanoseconds v > 0 then (dur_seconds v + 1, dur_nanoseconds v - NS_IN_S)
          else (dur_seconds v, dur_nanoseconds v)) = (\<sigma> * A, \<sigma> * n)"
  proof -
    consider "dur_seconds v < 0 \<and> dur_nanoseconds v > 0" | "dur_seconds v < 0 \<and> dur_nanoseconds v = 0" | "0 \<le> dur_seconds v"
      using v(3) by linarith
    then show ?thesis
    proof cases
      case 1
      with v show ?thesis
        by (intro exI [of _ "- 1"] exI [of _ "- dur_seconds v - 1"] exI [of _ "NS_IN_S - dur_nanoseconds v"])
          (auto simp: ns_of_def i64_def)
    next
      case 2
      with v show ?thesis
        by (intro exI [of _ "- 1"] exI [of _ "- dur_seconds v"] exI [of _ 0]) (auto simp: ns_of_def i64_def)
    next
      case 3
      with v show ?thesis
        by (intro exI [of _ 1] exI [of _ "dur_seconds v"] exI [of _ "dur_nanoseconds v"]) (auto simp: ns_of_def i64_def)
    qed
  qed
  then obtain \<sigma> A n where m: "\<sigma> \<in> {1, - 1}" "0 \<le> A" "0 \<le> n" "n < NS_IN_S" "i64 (\<sigma> * A)" "ns_of v = \<sigma> * (A * NS_IN_S + n)"
    "(if dur_seconds v < 0 \<and> dur_nanoseconds v > 0 then (dur_seconds v + 1, dur_nanoseconds v - NS_IN_S)
      else (dur_seconds v, dur_nanoseconds v)) = (\<sigma> * A, \<sigma> * n)" by blast
  from forward_magnitude [OF m(2-4,1,5), of u] obtain cs cn where
    c: "unit_conv_forward (\<sigma> * A) (fst (conversions u)) = Some (if i64 (\<sigma> * cs) then Some (\<sigma> * cs) else None)"
    "unit_conv_forward (\<sigma> * n) (snd (conversions u)) = Some (Some (\<sigma> * cn))" "0 \<le> cs" "0 \<le> cn" "i64 (\<sigma> * cn)"
    "cs + cn = (A * NS_IN_S + n) div unit_ns u" by blast
  have "0 \<le> A * NS_IN_S + n" using m by simp
  then have x: "ns_of v sdiv unit_ns u = \<sigma> * cs + \<sigma> * cn"
    unfolding m(6) using sdiv_sign [OF _ u m(1)] by (simp only: c(6) [symmetric] distrib_left [of \<sigma> cs cn])
  have "i64 (\<sigma> * cs)" if "i64 (\<sigma> * cs + \<sigma> * cn)" using that c(3,4) m(1) by (auto simp: i64_def)
  then show ?thesis
    unfolding x using v(1) c(1,2,5) safe_add_exact
    by (auto simp: duration_to_scalar_def time_conv_forward_def m(7) Let_def)
qed

lemma sdiv_mult_self: "0 < k \<Longrightarrow> x * k sdiv k = x" for x k :: int
  using nonzero_mult_div_cancel_right [of k "- x"]
  by (cases x "0::int" rule: linorder_cases) (simp_all add: signed_divide_int_def abs_mult sgn_mult)

lemma from_scalar_exact:
  assumes "i64 x"
  shows "duration_from_scalar x u = Some
    (if i64 (x * unit_ns u div NS_IN_S) then of_ns (x * unit_ns u) else AVS_TIME_DURATION_INVALID)"
proof -
  have long: "?thesis" if u: "conversions u = ((UCO_DIV, k), (UCO_DIV, k * NS_IN_S))" "unit_ns u = k * NS_IN_S" "0 < k" "i64 k" for k
  proof -
    have d: "x * unit_ns u div NS_IN_S = x * k" by (simp add: u(2))
    have "x * k sdiv k = x" using u(3) by (rule sdiv_mult_self)
    moreover have "normalize \<lparr>dur_seconds = x * k, dur_nanoseconds = 0\<rparr> = Some (of_ns (x * unit_ns u), True)"
      by (simp add: normalize_def of_ns_def u(2))
    moreover have "safe_mul_int64 0 (k * NS_IN_S) = Some (Some 0)" by (subst safe_mul_int64.simps) simp
    ultimately show ?thesis
      unfolding d duration_from_scalar_def time_conv_backward_def unit_conv_backward_def unit_conv_forward_def unit_conv_def u(1)
      using u(3) safe_mul_exact [OF assms u(4)] by simp
  qed
  have short: "?thesis" if u: "snd (conversions u) = (if m = 1 then (UCO_MUL, 1) else (UCO_DIV, m))" "fst (conversions u) = (UCO_MUL, k)"
    "unit_ns u = m" "k * m = NS_IN_S" "0 < k" "0 < m" "i64 m" "i64 k" for k m
  proof -
    obtain \<sigma> y where y: "\<sigma> \<in> {1, - 1}" "0 \<le> y" "x = \<sigma> * y"
      by (cases "0 \<le> x") (use that in \<open>auto intro: that [of 1 x] that [of "- 1" "- x"]\<close>)
    have s: "x sdiv k = \<sigma> * (y div k)" using y sdiv_sign u(5) by simp
    have bounds: "0 \<le> y div k" "y div k \<le> y" "0 \<le> y mod k" "y mod k < k" "y mod k \<le> y" "y = y div k * k + y mod k"
      using y(2) u(5) by (simp_all add: div_le_self_int pos_imp_zdiv_nonneg_iff zmod_le_nonneg_dividend)
    have yk: "0 \<le> y div k * k" "y div k * k \<le> y"
      using bounds(1,3,6) u(5) by (simp_all only: mult_nonneg_nonneg less_imp_le)
    have part: "i64 (\<sigma> * r)" if "0 \<le> r" "r \<le> y" for r using that y(1,3) assms by (auto simp: i64_def)
    have i: "i64 (\<sigma> * (y div k))" "i64 (\<sigma> * (y div k) * k)" "i64 (\<sigma> * (y mod k))"
      using part [OF bounds(1,2)] part [OF yk] part [OF bounds(3,5)] by (simp_all only: mult.assoc)
    have rest: "x - \<sigma> * (y div k) * k = \<sigma> * (y mod k)"
      unfolding y(3) by (simp only: mult.assoc right_diff_distrib [symmetric] minus_div_mult_eq_mod)
    have "y mod k + 1 \<le> k" using bounds(4) by simp
    then have "(y mod k + 1) * m \<le> k * m" using u(6) by (intro mult_right_mono) simp_all
    then have le: "y mod k * m + m \<le> NS_IN_S" using u(4) by (simp only: distrib_right mult_1_left)
    have ns: "0 \<le> y mod k * m" "y mod k * m < NS_IN_S" using bounds(3) u(6) le by simp_all
    have n: "x * m = \<sigma> * (y div k) * NS_IN_S + \<sigma> * (y mod k * m)"
    proof -
      have "x * m = \<sigma> * ((y div k * k + y mod k) * m)" using bounds(6) y(3) by (simp add: mult.assoc)
      also have "\<dots> = \<sigma> * (y div k * (k * m) + y mod k * m)" by (simp only: distrib_right mult.assoc)
      finally show ?thesis using u(4) by (simp add: distrib_left mult.assoc)
    qed
    have im: "i64 (\<sigma> * (y mod k * m))" using ns y(1) by (auto simp: i64_def)
    have bw: "unit_conv_backward (\<sigma> * (y mod k)) (snd (conversions u)) = Some (Some (\<sigma> * (y mod k * m)))"
      using u(1,6,7) i(3) im safe_mul_exact [OF i(3) u(7)] sdiv_mult_self [of 1 "\<sigma> * (y mod k)"]
      by (auto simp: unit_conv_backward_def unit_conv_def mult.assoc)
    have rng: "- NS_IN_S \<le> \<sigma> * (y mod k * m)" "\<sigma> * (y mod k * m) < 2 * NS_IN_S"
      "\<not> (\<sigma> * (y mod k * m) \<le> - NS_IN_S \<or> \<sigma> * (y mod k * m) \<ge> NS_IN_S)" using ns y(1) by auto
    from normalize_exact [OF rng(1,2) i(1)] obtain t where
      "normalize \<lparr>dur_seconds = \<sigma> * (y div k), dur_nanoseconds = \<sigma> * (y mod k * m)\<rparr> = Some (t, i64 (x * m div NS_IN_S))"
      "i64 (x * m div NS_IN_S) \<longrightarrow> t = of_ns (x * m)" unfolding n by blast
    moreover have "unit_conv_backward x (fst (conversions u)) = Some (Some (\<sigma> * (y div k)))"
      using s u(2,5) by (simp add: unit_conv_backward_def unit_conv_def)
    moreover have "unit_conv_forward (\<sigma> * (y div k)) (fst (conversions u)) = Some (Some (\<sigma> * (y div k) * k))"
      using u(2,5,8) i(1,2) safe_mul_exact by (simp add: unit_conv_forward_def unit_conv_def)
    moreover have "signed_op (x - \<sigma> * (y div k) * k) = Some (\<sigma> * (y mod k))" unfolding rest using i(3) by simp
    ultimately show ?thesis
      using bw rng(3) by (simp add: duration_from_scalar_def time_conv_backward_def u(3))
  qed
  show ?thesis
  proof (cases u)
    case AVS_TIME_DAY show ?thesis by (rule long [of 86400]) (simp_all add: AVS_TIME_DAY i64_def)
  next
    case AVS_TIME_HOUR show ?thesis by (rule long [of 3600]) (simp_all add: AVS_TIME_HOUR i64_def)
  next
    case AVS_TIME_MIN show ?thesis by (rule long [of 60]) (simp_all add: AVS_TIME_MIN i64_def)
  next
    case AVS_TIME_S show ?thesis by (rule short [of "NS_IN_S" 1]) (simp_all add: AVS_TIME_S i64_def)
  next
    case AVS_TIME_MS show ?thesis by (rule short [of 1000000 1000]) (simp_all add: AVS_TIME_MS i64_def)
  next
    case AVS_TIME_US show ?thesis by (rule short [of 1000 1000000]) (simp_all add: AVS_TIME_US i64_def)
  next
    case AVS_TIME_NS show ?thesis by (rule short [of 1 "NS_IN_S"]) (simp_all add: AVS_TIME_NS i64_def)
  qed
qed

section \<open>Multiplication\<close>

lemma smod_range: "0 < m \<Longrightarrow> - m < x smod m \<and> x smod m < m" for x m :: int
  using smod_int_range [of m x] by simp

lemma duration_mul_exact:
  assumes "dur_ok a" and m: "- (2 ^ 31) \<le> m" "m < 2 ^ 31"
  shows "\<exists>q. \<bar>q\<bar> \<le> 2 ^ 31 \<and> duration_mul a m = Some
    (if i64 (dur_seconds a * m) \<and> i64 (dur_seconds a * m + q) \<and> i64 (ns_of a * m div NS_IN_S)
     then of_ns (ns_of a * m) else AVS_TIME_DURATION_INVALID)"
proof -
  have a: "duration_valid a" "i64 (dur_seconds a)" "0 \<le> dur_nanoseconds a" "dur_nanoseconds a < NS_IN_S"
    using assms by (simp_all add: dur_ok_def duration_valid_def)
  have im: "i64 m" using m by (simp add: i64_def)
  define p where "p = dur_nanoseconds a * m"
  have "\<bar>p\<bar> = dur_nanoseconds a * \<bar>m\<bar>" using a(3) by (simp add: p_def abs_mult)
  also have "\<dots> \<le> NS_IN_S * 2 ^ 31" using a m by (intro mult_mono) auto
  finally have p: "\<bar>p\<bar> \<le> NS_IN_S * 2 ^ 31" .
  then have ip: "i64 p" by (simp add: i64_def abs_le_iff)
  define q where "q = p sdiv NS_IN_S"
  define r where "r = p smod NS_IN_S"
  have pqr: "p = q * NS_IN_S + r" using sdiv_mult_smod_eq [of p NS_IN_S] by (simp add: q_def r_def)
  have r: "- NS_IN_S < r" "r < NS_IN_S" using smod_range [of NS_IN_S p] by (simp_all add: r_def)
  have q: "\<bar>q\<bar> \<le> 2 ^ 31" using p pqr r by linarith
  have iq: "i64 q" using q by (simp add: i64_def abs_le_iff)
  have n: "ns_of a * m = (dur_seconds a * m + q) * NS_IN_S + r"
    using pqr by (simp add: ns_of_def p_def algebra_simps)
  have "duration_mul a m = Some
    (if i64 (dur_seconds a * m) \<and> i64 (dur_seconds a * m + q) \<and> i64 (ns_of a * m div NS_IN_S)
     then of_ns (ns_of a * m) else AVS_TIME_DURATION_INVALID)"
    unfolding n
    using a ip iq safe_mul_exact [OF a(2) im] safe_add_exact [OF _ iq, of "dur_seconds a * m"] r
      normalize_result [of r "dur_seconds a * m + q"]
    by (simp add: duration_mul_def p_def [symmetric] q_def [symmetric] r_def [symmetric])
  with q show ?thesis by blast
qed

section \<open>Properties\<close>

lemma of_ns_ok: "i64 (n div NS_IN_S) \<Longrightarrow> dur_ok (of_ns n)"
  by (simp add: dur_ok_def) (simp add: of_ns_def)

text \<open>Conversions between numbers of units and durations are exact: a number of days, hours,
  minutes, seconds, milliseconds, microseconds or nanoseconds becomes the duration of as many
  nanoseconds, unless its seconds exceed 64 bits, in which case the result is invalid; converting
  that duration back gives the number. Any valid duration is converted to the number of whole units,
  truncated towards zero, unless this exceeds 64 bits. The intermediate steps, which are computed
  with overflow checks on parts of the value, never fail otherwise.\<close>

theorem duration_scalar_conversions:
  assumes "i64 x" and "dur_ok v"
  shows "duration_from_scalar x u = Some
      (if i64 (x * unit_ns u div NS_IN_S) then of_ns (x * unit_ns u) else AVS_TIME_DURATION_INVALID)
    \<and> (i64 (x * unit_ns u div NS_IN_S) \<longrightarrow> duration_to_scalar u (of_ns (x * unit_ns u)) = Some (Some x))
    \<and> duration_to_scalar u v = Some (let y = ns_of v sdiv unit_ns u in if i64 y then Some y else None)"
proof -
  have "0 < unit_ns u" by (cases u) simp_all
  then have "x * unit_ns u sdiv unit_ns u = x" by (rule sdiv_mult_self)
  then have "duration_to_scalar u (of_ns (x * unit_ns u)) = Some (Some x)" if "i64 (x * unit_ns u div NS_IN_S)"
    using to_scalar_exact [OF of_ns_ok [OF that], of u] assms(1) by simp
  then show ?thesis using from_scalar_exact [OF assms(1)] to_scalar_exact [OF assms(2)] by blast
qed

theorem duration_scalar_conversions_witness:
  "duration_from_scalar (- 1500) AVS_TIME_MS = Some \<lparr>dur_seconds = - 2, dur_nanoseconds = 500000000\<rparr>
   \<and> duration_to_scalar AVS_TIME_MS \<lparr>dur_seconds = - 2, dur_nanoseconds = 500000000\<rparr> = Some (Some (- 1500))
   \<and> duration_to_scalar AVS_TIME_S \<lparr>dur_seconds = - 2, dur_nanoseconds = 500000000\<rparr> = Some (Some (- 1))
   \<and> duration_to_scalar AVS_TIME_NS \<lparr>dur_seconds = 2 ^ 62, dur_nanoseconds = 0\<rparr> = Some None"
proof -
  have ok: "dur_ok \<lparr>dur_seconds = - 2, dur_nanoseconds = 500000000\<rparr>" "dur_ok \<lparr>dur_seconds = 2 ^ 62, dur_nanoseconds = 0\<rparr>"
    "i64 (- 1500)" by (simp_all add: dur_ok_def duration_valid_def i64_def)
  show ?thesis
    using duration_scalar_conversions [OF ok(3,1), of AVS_TIME_MS] duration_scalar_conversions [OF ok(3,1), of AVS_TIME_S]
      duration_scalar_conversions [OF ok(3,2), of AVS_TIME_NS]
    by (simp add: of_ns_def i64_def ns_of_def signed_divide_int_def)
qed

text \<open>C35: Arithmetic on durations whose seconds fit into 63 bits is exact: sums and differences are
  the durations of the sum and the difference of the nanoseconds, in normal form, and the order is
  that of the nanoseconds, whatever the signs and carries involved.\<close>

theorem duration_arithmetic_exact:
  assumes "duration_valid a" and "duration_valid b"
    and "- (2 ^ 62) < dur_seconds a" "dur_seconds a < 2 ^ 62" and "- (2 ^ 62) < dur_seconds b" "dur_seconds b < 2 ^ 62"
  shows "duration_add a b = Some (of_ns (ns_of a + ns_of b)) \<and> duration_diff a b = Some (of_ns (ns_of a - ns_of b))
    \<and> (duration_less a b \<longleftrightarrow> ns_of a < ns_of b) \<and> (duration_equal a b \<longleftrightarrow> ns_of a = ns_of b)"
proof -
  have ok: "dur_ok a" "dur_ok b" using assms by (simp_all add: dur_ok_def i64_def)
  have ns: "0 \<le> dur_nanoseconds a" "dur_nanoseconds a < NS_IN_S" "0 \<le> dur_nanoseconds b" "dur_nanoseconds b < NS_IN_S"
    using assms by (simp_all add: duration_valid_def)
  have i: "i64 (n div NS_IN_S)" if "- (2 ^ 63) * NS_IN_S \<le> n" "n < 2 ^ 63 * NS_IN_S" for n
    using that div_less_iff_int [of NS_IN_S n "2 ^ 63"] zdiv_mono1 [of "- (2 ^ 63) * NS_IN_S" n NS_IN_S]
    by (simp add: i64_def)
  have "i64 ((ns_of a + ns_of b) div NS_IN_S)" "i64 ((ns_of a - ns_of b) div NS_IN_S)"
    by (rule i; use assms ns in \<open>simp add: ns_of_def\<close>)+
  moreover have "i64 (dur_seconds a + dur_seconds b)" using assms by (simp add: i64_def)
  moreover from duration_diff_exact [OF ok] obtain u where u: "negate b = Some u" "duration_diff a b = Some
    (if i64 (dur_seconds a + dur_seconds (fst u)) \<and> i64 ((ns_of a - ns_of b) div NS_IN_S)
     then of_ns (ns_of a - ns_of b) else AVS_TIME_DURATION_INVALID)" by blast
  moreover have "i64 (dur_seconds a + dur_seconds (fst u))"
    using negate_exact [OF ok(2)] u(1) ns assms(3-6) by (auto simp: ns_of_def i64_def)
  ultimately show ?thesis
    using duration_add_exact [OF ok] duration_less_iff [OF assms(1,2)] duration_equal_iff [OF assms(1,2)] by simp
qed

theorem duration_arithmetic_witness:
  "duration_add \<lparr>dur_seconds = - 2, dur_nanoseconds = 999999999\<rparr> \<lparr>dur_seconds = 1, dur_nanoseconds = 2\<rparr>
     = Some \<lparr>dur_seconds = 0, dur_nanoseconds = 1\<rparr>
   \<and> duration_diff \<lparr>dur_seconds = - 2, dur_nanoseconds = 999999999\<rparr> \<lparr>dur_seconds = 1, dur_nanoseconds = 2\<rparr>
     = Some \<lparr>dur_seconds = - 3, dur_nanoseconds = 999999997\<rparr>"
  using duration_arithmetic_exact [of "\<lparr>dur_seconds = - 2, dur_nanoseconds = 999999999\<rparr>" "\<lparr>dur_seconds = 1, dur_nanoseconds = 2\<rparr>"]
  by (simp add: duration_valid_def ns_of_def of_ns_def)

end
