(* ===== verification/Coap_Udp_Cache.thy ===== *)
theory Coap_Udp_Cache
  imports Coap_Udp_Msg Avs_Buffer Avs_Time "HOL-Library.Multiset"
begin

text \<open>
  The cache of responses that were sent over UDP (\<open>avs_coap_udp_msg_cache.c\<close>), from which a
  retransmitted request is answered. Entries are stored one behind the other in a byte queue: a
  header with the endpoint, the expiration time and the size of the message, the serialized message
  and padding. Endpoints are shared between entries and counted.
\<close>

section \<open>Data\<close>

text \<open>Room for the text of an IPv6 address and for a port, with the terminating zero bytes.\<close>

abbreviation (input) AVS_ADDRSTRLEN :: nat where "AVS_ADDRSTRLEN \<equiv> 46"
abbreviation (input) PORT_STRLEN :: nat where "PORT_STRLEN \<equiv> 6"
abbreviation (input) AVS_COAP_MSG_CACHE_DUPLICATE :: int where "AVS_COAP_MSG_CACHE_DUPLICATE \<equiv> - 2"

record endpoint =
  ep_refcount :: nat
  ep_addr :: string
  ep_port :: string

text \<open>The list of endpoints comes with their addresses, by which entries refer to them.\<close>

record response_cache =
  rc_endpoints :: "(nat \<times> endpoint) list"
  rc_buffer :: avs_buffer

text \<open>
  An entry in memory: the pointer to the endpoint in 8 bytes, seconds in 8, nanoseconds in 4 and 4
  that are not used, and the size in 2 bytes, all of them little-endian, as on a 64-bit machine. The
  message starts at offset 26; entries are aligned to 8 bytes.
\<close>

abbreviation (input) DATA_OFFSET :: nat where "DATA_OFFSET \<equiv> 26"
abbreviation (input) ENTRY_ALIGNMENT :: nat where "ENTRY_ALIGNMENT \<equiv> 8"

definition entry_bytes :: "nat \<Rightarrow> monotonic \<Rightarrow> nat \<Rightarrow> bytes" where
  "entry_bytes ep expiration msg_size =
     le_bytes 8 ep @ le_bytes 8 (nat (dur_seconds expiration mod 2 ^ 64))
     @ le_bytes 4 (nat (dur_nanoseconds expiration mod 2 ^ 32)) @ replicate 4 0 @ le_bytes 2 msg_size"

definition rd_le :: "bytes \<Rightarrow> nat \<Rightarrow> nat \<Rightarrow> nat option" where
  "rd_le m p n = do { bs \<leftarrow> rd_bytes m p n; Some (be_nat (rev bs)) }"

definition entry_endpoint :: "bytes \<Rightarrow> nat \<Rightarrow> nat option" where
  "entry_endpoint m entry = rd_le m entry 8"

definition entry_expiration :: "bytes \<Rightarrow> nat \<Rightarrow> monotonic option" where
  "entry_expiration m entry = do {
     s \<leftarrow> rd_le m (entry + 8) 8;
     ns \<leftarrow> rd_le m (entry + 16) 4;
     Some \<lparr>dur_seconds = signed_take_bit 63 (int s), dur_nanoseconds = signed_take_bit 31 (int ns)\<rparr> }"

definition entry_msg_length :: "bytes \<Rightarrow> nat \<Rightarrow> nat option" where
  "entry_msg_length m entry = rd_le m (entry + 24) 2"

section \<open>Endpoints\<close>

text \<open>
  Allocations of the cache object and of its buffer may fail; \<open>None\<close> within stands for \<open>NULL\<close>.
\<close>

definition response_cache_create :: "bool \<Rightarrow> (nat \<Rightarrow> byte) option \<Rightarrow> nat \<Rightarrow> response_cache option option" where
  "response_cache_create calloc_ok malloc capacity =
     (if capacity = 0 then Some None
      else if \<not> calloc_ok then Some None
      else (case buffer_create malloc capacity of
          None \<Rightarrow> Some None
        | Some buffer \<Rightarrow> do {
            (buffer, ptr) \<leftarrow> buffer_raw_insert_ptr buffer;
            c_assert (ptr mod ENTRY_ALIGNMENT = 0);
            Some (Some \<lparr>rc_endpoints = [], rc_buffer = buffer\<rparr>) }))"

definition response_cache_release :: "response_cache option \<Rightarrow> response_cache option" where
  "response_cache_release cache = None"

fun endpoints_add_ref :: "(nat \<times> endpoint) list \<Rightarrow> string \<Rightarrow> string \<Rightarrow> ((nat \<times> endpoint) list \<times> nat) option" where
  "endpoints_add_ref [] addr port = None"
| "endpoints_add_ref ((p, ep) # eps) addr port =
     (if addr = ep_addr ep \<and> port = ep_port ep
      then Some ((p, ep\<lparr>ep_refcount := (ep_refcount ep + 1) mod 2 ^ 16\<rparr>) # eps, p)
      else map_option (\<lambda>(eps, q). ((p, ep) # eps, q)) (endpoints_add_ref eps addr port))"

text \<open>\<open>new_ep\<close> is the address of a new list element or \<open>None\<close> when memory is out.\<close>

definition cache_endpoint_add_ref ::
  "response_cache \<Rightarrow> nat option \<Rightarrow> string \<Rightarrow> string \<Rightarrow> response_cache \<times> nat option" where
  "cache_endpoint_add_ref cache new_ep addr port =
     (case endpoints_add_ref (rc_endpoints cache) addr port of
        Some (eps, p) \<Rightarrow> (cache\<lparr>rc_endpoints := eps\<rparr>, Some p)
      | None \<Rightarrow>
          (case new_ep of
             None \<Rightarrow> (cache, None)
           | Some p \<Rightarrow>
               if length addr \<ge> AVS_ADDRSTRLEN \<or> length port \<ge> PORT_STRLEN then (cache, None)
               else (cache\<lparr>rc_endpoints := (p, \<lparr>ep_refcount = 1, ep_addr = addr, ep_port = port\<rparr>) # rc_endpoints cache\<rparr>,
                     Some p)))"

text \<open>A pointer that is not in the list is dangling.\<close>

fun endpoints_del_ref :: "(nat \<times> endpoint) list \<Rightarrow> nat \<Rightarrow> (nat \<times> endpoint) list option" where
  "endpoints_del_ref [] q = None"
| "endpoints_del_ref ((p, ep) # eps) q =
     (if p = q then
        (let n = (ep_refcount ep + 65535) mod 2 ^ 16
         in Some (if n = 0 then eps else (p, ep\<lparr>ep_refcount := n\<rparr>) # eps))
      else map_option ((#) (p, ep)) (endpoints_del_ref eps q))"

definition cache_endpoint_del_ref :: "response_cache \<Rightarrow> nat \<Rightarrow> response_cache option" where
  "cache_endpoint_del_ref cache q = do {
     eps \<leftarrow> endpoints_del_ref (rc_endpoints cache) q; Some (cache\<lparr>rc_endpoints := eps\<rparr>) }"

section \<open>Entries\<close>

definition padding_bytes_after_msg :: "nat \<Rightarrow> nat" where
  "padding_bytes_after_msg msg_size =
     (let entry_length = DATA_OFFSET + msg_size
      in if entry_length mod ENTRY_ALIGNMENT \<noteq> 0 then ENTRY_ALIGNMENT - entry_length mod ENTRY_ALIGNMENT else 0)"

definition cache_put_entry :: "response_cache \<Rightarrow> monotonic \<Rightarrow> nat \<Rightarrow> udp_msg \<Rightarrow> response_cache option" where
  "cache_put_entry cache expiration ep msg = do {
     let msg_size = udp_msg_size msg;
     c_assert (msg_size \<le> 65535);
     let buffer = rc_buffer cache;
     n \<leftarrow> buffer_data_size buffer;
     c_assert (n mod ENTRY_ALIGNMENT = 0);
     (buffer, res) \<leftarrow> buffer_append_bytes buffer (entry_bytes ep expiration msg_size);
     c_assert (res = 0);
     (buffer, ptr) \<leftarrow> buffer_raw_insert_ptr buffer;
     space \<leftarrow> buffer_space_left buffer;
     (out, written, err) \<leftarrow> udp_msg_serialize msg (drop ptr (buf_data buffer)) space;
     let buffer = buffer\<lparr>buf_data := take ptr (buf_data buffer) @ out\<rparr>;
     c_assert (err = AVS_OK);
     (buffer, res) \<leftarrow> buffer_advance_ptr buffer written;
     c_assert (res = 0);
     (buffer, res) \<leftarrow> buffer_fill_bytes buffer 0xDD (padding_bytes_after_msg msg_size);
     c_assert (res = 0);
     n \<leftarrow> buffer_data_size buffer;
     c_assert (n mod ENTRY_ALIGNMENT = 0);
     Some (cache\<lparr>rc_buffer := buffer\<rparr>) }"

definition entry_first :: "response_cache \<Rightarrow> nat option" where
  "entry_first cache = do {
     let result = buffer_data (rc_buffer cache);
     c_assert (result mod ENTRY_ALIGNMENT = 0);
     Some result }"

definition entry_valid :: "response_cache \<Rightarrow> nat \<Rightarrow> bool option" where
  "entry_valid cache entry = do {
     c_assert (entry \<ge> buffer_data (rc_buffer cache));
     let entry_offset = entry - buffer_data (rc_buffer cache);
     c_assert (entry_offset mod ENTRY_ALIGNMENT = 0);
     n \<leftarrow> buffer_data_size (rc_buffer cache);
     Some (entry_offset < n) }"

definition entry_expired :: "response_cache \<Rightarrow> nat \<Rightarrow> monotonic \<Rightarrow> bool option" where
  "entry_expired cache entry now = do {
     t \<leftarrow> entry_expiration (buf_data (rc_buffer cache)) entry;
     Some (monotonic_before t now) }"

definition entry_msg_size :: "response_cache \<Rightarrow> nat \<Rightarrow> nat option" where
  "entry_msg_size cache entry = do {
     n \<leftarrow> entry_msg_length (buf_data (rc_buffer cache)) entry;
     Some (n + padding_bytes_after_msg n) }"

definition entry_size :: "response_cache \<Rightarrow> nat \<Rightarrow> nat option" where
  "entry_size cache entry = do {
     n \<leftarrow> entry_msg_size cache entry;
     let result = DATA_OFFSET + n;
     c_assert (result mod ENTRY_ALIGNMENT = 0);
     Some result }"

definition entry_id :: "response_cache \<Rightarrow> nat \<Rightarrow> nat option" where
  "entry_id cache entry = do {
     bs \<leftarrow> rd_bytes (buf_data (rc_buffer cache)) (entry + DATA_OFFSET) 4;
     Some (header_get_id (header_of_bytes bs)) }"

definition entry_next :: "response_cache \<Rightarrow> nat \<Rightarrow> nat option" where
  "entry_next cache entry = do {
     n \<leftarrow> entry_size cache entry;
     let result = entry + n;
     c_assert (result mod ENTRY_ALIGNMENT = 0);
     Some result }"

section \<open>Dropping entries\<close>

partial_function (option) free_bytes_loop ::
  "response_cache \<Rightarrow> nat \<Rightarrow> nat \<Rightarrow> nat \<Rightarrow> (response_cache \<times> nat) option" where
  "free_bytes_loop cache entry bytes_free bytes_required =
     (if bytes_free < bytes_required then do {
        v \<leftarrow> entry_valid cache entry;
        c_assert v;
        ep \<leftarrow> entry_endpoint (buf_data (rc_buffer cache)) entry;
        cache \<leftarrow> cache_endpoint_del_ref cache ep;
        n \<leftarrow> entry_size cache entry;
        entry \<leftarrow> entry_next cache entry;
        free_bytes_loop cache entry (bytes_free + n) bytes_required }
      else Some (cache, entry))"

text \<open>The entries before the given one are taken off the queue.\<close>

definition consume_up_to :: "response_cache \<Rightarrow> nat \<Rightarrow> response_cache option" where
  "consume_up_to cache entry = do {
     first \<leftarrow> entry_first cache;
     expired_bytes \<leftarrow> size_minus entry first;
     (buffer, res) \<leftarrow> buffer_consume_bytes (rc_buffer cache) expired_bytes;
     c_assert (res = 0);
     Some (cache\<lparr>rc_buffer := buffer\<rparr>) }"

definition cache_free_bytes :: "response_cache \<Rightarrow> nat \<Rightarrow> response_cache option" where
  "cache_free_bytes cache bytes_required = do {
     c_assert (bytes_required \<le> buf_capacity (rc_buffer cache));
     bytes_free \<leftarrow> buffer_space_left (rc_buffer cache);
     entry \<leftarrow> entry_first cache;
     (cache, entry) \<leftarrow> free_bytes_loop cache entry bytes_free bytes_required;
     consume_up_to cache entry }"

partial_function (option) drop_expired_loop ::
  "response_cache \<Rightarrow> nat \<Rightarrow> monotonic \<Rightarrow> (response_cache \<times> nat) option" where
  "drop_expired_loop cache entry now = do {
     v \<leftarrow> entry_valid cache entry;
     if \<not> v then Some (cache, entry)
     else do {
       expired \<leftarrow> entry_expired cache entry now;
       if expired then do {
         ep \<leftarrow> entry_endpoint (buf_data (rc_buffer cache)) entry;
         cache \<leftarrow> cache_endpoint_del_ref cache ep;
         entry \<leftarrow> entry_next cache entry;
         drop_expired_loop cache entry now }
       else Some (cache, entry) } }"

definition cache_drop_expired :: "response_cache \<Rightarrow> monotonic \<Rightarrow> response_cache option" where
  "cache_drop_expired cache now = do {
     entry \<leftarrow> entry_first cache;
     (cache, entry) \<leftarrow> drop_expired_loop cache entry now;
     consume_up_to cache entry }"

section \<open>The operations of the cache\<close>

partial_function (option) find_entry_loop ::
  "response_cache \<Rightarrow> nat \<Rightarrow> string \<Rightarrow> string \<Rightarrow> nat \<Rightarrow> nat option option" where
  "find_entry_loop cache entry addr port msg_id = do {
     v \<leftarrow> entry_valid cache entry;
     if \<not> v then Some None
     else do {
       i \<leftarrow> entry_id cache entry;
       same \<leftarrow> (if i = msg_id then do {
           q \<leftarrow> entry_endpoint (buf_data (rc_buffer cache)) entry;
           ep \<leftarrow> map_of (rc_endpoints cache) q;
           Some (ep_addr ep = addr \<and> ep_port ep = port) } else Some False);
       if same then Some (Some entry)
       else do {
         entry \<leftarrow> entry_next cache entry;
         find_entry_loop cache entry addr port msg_id } } }"

definition find_entry :: "response_cache \<Rightarrow> string \<Rightarrow> string \<Rightarrow> nat \<Rightarrow> nat option option" where
  "find_entry cache addr port msg_id = do {
     entry \<leftarrow> entry_first cache;
     find_entry_loop cache entry addr port msg_id }"

definition response_cache_overhead :: "udp_msg \<Rightarrow> nat" where
  "response_cache_overhead msg = DATA_OFFSET + padding_bytes_after_msg (udp_msg_size msg)"

text \<open>
  The parameters are the time of the call, the lifetime of an exchange, which
  \<open>avs_coap_udp_exchange_lifetime\<close> computes from floating point transmission parameters, and the
  outcome of the allocation of an endpoint.
\<close>

definition response_cache_add ::
  "response_cache option \<Rightarrow> nat option \<Rightarrow> monotonic \<Rightarrow> duration \<Rightarrow> string \<Rightarrow> string \<Rightarrow> udp_msg
   \<Rightarrow> (response_cache option \<times> int) option" where
  "response_cache_add cache_ptr new_ep now lifetime addr port msg =
     (case cache_ptr of
        None \<Rightarrow> Some (None, - 1)
      | Some cache \<Rightarrow> do {
          let cap_req = response_cache_overhead msg + udp_msg_size msg;
          if buf_capacity (rc_buffer cache) < cap_req then Some (Some cache, - 1)
          else do {
            cache \<leftarrow> cache_drop_expired cache now;
            let msg_id = header_get_id (msg_header msg);
            found \<leftarrow> find_entry cache addr port msg_id;
            if found \<noteq> None then Some (Some cache, AVS_COAP_MSG_CACHE_DUPLICATE)
            else (case cache_endpoint_add_ref cache new_ep addr port of
                (cache, None) \<Rightarrow> Some (Some cache, - 1)
              | (cache, Some ep) \<Rightarrow> do {
                  cache \<leftarrow> cache_free_bytes cache cap_req;
                  expiration \<leftarrow> monotonic_add now lifetime;
                  cache \<leftarrow> cache_put_entry cache expiration ep msg;
                  Some (Some cache, 0) }) } })"

text \<open>The response that is found: the parsed message, the packet and its size.\<close>

record cached_response =
  cr_msg :: udp_msg
  cr_packet :: bytes
  cr_packet_size :: nat

definition response_cache_get ::
  "response_cache option \<Rightarrow> monotonic \<Rightarrow> string \<Rightarrow> string \<Rightarrow> nat \<Rightarrow> cached_response
   \<Rightarrow> (response_cache option \<times> avs_error \<times> cached_response) option" where
  "response_cache_get cache_ptr now addr port msg_id out_response =
     (case cache_ptr of
        None \<Rightarrow> Some (None, AVS_EINVAL, out_response)
      | Some cache \<Rightarrow> do {
          cache \<leftarrow> cache_drop_expired cache now;
          found \<leftarrow> find_entry cache addr port msg_id;
          (case found of
             None \<Rightarrow> Some (Some cache, AVS_ENOENT, out_response)
           | Some entry \<Rightarrow> do {
               expired \<leftarrow> entry_expired cache entry now;
               c_assert (\<not> expired);
               let packet = drop (entry + DATA_OFFSET) (buf_data (rc_buffer cache));
               n \<leftarrow> entry_msg_length (buf_data (rc_buffer cache)) entry;
               (msg, err) \<leftarrow> udp_msg_parse (cr_msg out_response) packet n;
               Some (Some cache, err, \<lparr>cr_msg = msg, cr_packet = packet, cr_packet_size = n\<rparr>) }) })"

section \<open>The entries in the buffer\<close>

text \<open>An entry together with what its endpoint stands for.\<close>

record response =
  re_ep :: nat
  re_addr :: string
  re_port :: string
  re_expiration :: monotonic
  re_packet :: bytes

definition enc_response :: "response \<Rightarrow> bytes" where
  "enc_response r = entry_bytes (re_ep r) (re_expiration r) (length (re_packet r)) @ re_packet r
     @ replicate (padding_bytes_after_msg (length (re_packet r))) 0xDD"

definition enc_responses :: "response list \<Rightarrow> bytes" where
  "enc_responses rs = concat (map enc_response rs)"

definition re_id :: "response \<Rightarrow> nat" where
  "re_id r = header_get_id (header_of_bytes (take 4 (re_packet r)))"

definition response_ok :: "response \<Rightarrow> bool" where
  "response_ok r \<longleftrightarrow> re_ep r < 2 ^ 64 \<and> i64 (dur_seconds (re_expiration r))
     \<and> - (2 ^ 31) \<le> dur_nanoseconds (re_expiration r) \<and> dur_nanoseconds (re_expiration r) < 2 ^ 31
     \<and> 4 \<le> length (re_packet r) \<and> length (re_packet r) \<le> 65535"

definition buffer_holds :: "avs_buffer \<Rightarrow> response list \<Rightarrow> bool" where
  "buffer_holds b rs \<longleftrightarrow> buffer_rep b (enc_responses rs) \<and> buf_begin b mod 8 = 0 \<and> list_all response_ok rs"

lemma enc_responses_simps [simp]:
  "enc_responses [] = []" "enc_responses (r # rs) = enc_response r @ enc_responses rs"
  "enc_responses (rs @ ss) = enc_responses rs @ enc_responses ss"
  by (simp_all add: enc_responses_def)

lemma length_entry_bytes [simp]: "length (entry_bytes ep t n) = 26"
  by (simp add: entry_bytes_def)

lemma length_enc_response:
  "length (enc_response r) = 26 + length (re_packet r) + padding_bytes_after_msg (length (re_packet r))"
  by (simp add: enc_response_def)

lemma padding_aligns: "(26 + n + padding_bytes_after_msg n) mod 8 = 0"
  unfolding padding_bytes_after_msg_def Let_def by presburger

lemma enc_response_aligned [simp]: "length (enc_response r) mod 8 = 0"
  using padding_aligns [of "length (re_packet r)"] by (simp add: length_enc_response)

lemma enc_responses_aligned [simp]: "length (enc_responses rs) mod 8 = 0"
proof (induction rs)
  case (Cons r rs)
  have "length (enc_responses (r # rs)) mod 8 = (length (enc_response r) mod 8 + length (enc_responses rs) mod 8) mod 8"
    by (simp add: mod_simps del: enc_response_aligned)
  with Cons show ?case by simp
qed simp

lemma enc_response_ge: "response_ok r \<Longrightarrow> 32 \<le> length (enc_response r)"
proof -
  assume "response_ok r"
  then have "30 \<le> length (enc_response r)" by (simp add: response_ok_def length_enc_response)
  moreover have "length (enc_response r) mod 8 = 0" by simp
  ultimately show ?thesis by presburger
qed

section \<open>Reading an entry\<close>

lemma rd_le_at:
  assumes "m = pre @ le_bytes n v @ post" "p = length pre" "v < 256 ^ n"
  shows "rd_le m p n = Some v"
  using assms by (simp add: rd_le_def rd_bytes_def be_nat_rev_le)

lemma signed_of_mod:
  "- (2 ^ n) \<le> v \<Longrightarrow> v < 2 ^ n \<Longrightarrow> signed_take_bit n (v mod 2 ^ Suc n) = v" for v :: int
  using signed_take_bit_int_eq_self_iff [of n v] signed_take_bit_take_bit [of n "Suc n" v]
  unfolding take_bit_eq_mod by simp

lemma entry_at:
  assumes b: "buffer_holds (rc_buffer c) (rs1 @ r # rs2)" and p: "p = buf_begin (rc_buffer c) + length (enc_responses rs1)"
  shows "entry_endpoint (buf_data (rc_buffer c)) p = Some (re_ep r)"
    and "entry_expiration (buf_data (rc_buffer c)) p = Some (re_expiration r)"
    and "entry_msg_length (buf_data (rc_buffer c)) p = Some (length (re_packet r))"
    and "entry_id c p = Some (re_id r)"
    and "entry_size c p = Some (length (enc_response r))"
    and "entry_next c p = Some (buf_begin (rc_buffer c) + length (enc_responses (rs1 @ [r])))"
    and "entry_valid c p = Some True"
    and "take (length (re_packet r)) (drop (p + 26) (buf_data (rc_buffer c))) = re_packet r"
proof -
  define m where "m = buf_data (rc_buffer c)"
  from b obtain pre post where m: "m = pre @ enc_responses (rs1 @ r # rs2) @ post" "buf_begin (rc_buffer c) = length pre"
    "length pre mod 8 = 0"
    by (auto simp: buffer_holds_def buffer_rep_def m_def)
  have ok: "response_ok r" using b by (simp add: buffer_holds_def)
  define A where "A = pre @ enc_responses rs1"
  define Z where "Z = replicate (padding_bytes_after_msg (length (re_packet r))) 0xDD @ enc_responses rs2 @ post"
  have pA: "p = length A" using p m(2) by (simp add: A_def)
  define s where "s = nat (dur_seconds (re_expiration r) mod 2 ^ 64)"
  define ns where "ns = nat (dur_nanoseconds (re_expiration r) mod 2 ^ 32)"
  have mm: "m = A @ le_bytes 8 (re_ep r) @ le_bytes 8 s @ le_bytes 4 ns @ replicate 4 0
      @ le_bytes 2 (length (re_packet r)) @ re_packet r @ Z"
    using m(1) by (simp add: A_def Z_def enc_response_def entry_bytes_def s_def ns_def)
  have lt: "s < 256 ^ 8" "ns < 256 ^ 4" "re_ep r < 256 ^ 8" "length (re_packet r) < 256 ^ 2"
    using ok by (simp_all add: s_def ns_def response_ok_def nat_less_iff)
  have al: "p mod 8 = 0" using m(3) by (simp add: pA A_def mod_add_eq [symmetric, of "length pre"])
  show ep: "entry_endpoint (buf_data (rc_buffer c)) p = Some (re_ep r)"
    unfolding entry_endpoint_def m_def [symmetric] by (rule rd_le_at [OF mm pA lt(3)])
  have 1: "rd_le m (p + 8) 8 = Some s"
    by (rule rd_le_at [of _ "A @ le_bytes 8 (re_ep r)"]) (use lt in \<open>simp_all add: mm pA\<close>)
  have 2: "rd_le m (p + 16) 4 = Some ns"
    by (rule rd_le_at [of _ "A @ le_bytes 8 (re_ep r) @ le_bytes 8 s"]) (use lt in \<open>simp_all add: mm pA\<close>)
  have "int s = dur_seconds (re_expiration r) mod 2 ^ Suc 63" "int ns = dur_nanoseconds (re_expiration r) mod 2 ^ Suc 31"
    by (simp_all add: s_def ns_def)
  then have "signed_take_bit 63 (int s) = dur_seconds (re_expiration r)"
    "signed_take_bit 31 (int ns) = dur_nanoseconds (re_expiration r)"
    using ok signed_of_mod [of 63 "dur_seconds (re_expiration r)"] signed_of_mod [of 31 "dur_nanoseconds (re_expiration r)"]
    by (simp_all add: response_ok_def i64_def)
  with 1 2 show "entry_expiration (buf_data (rc_buffer c)) p = Some (re_expiration r)"
    by (simp add: entry_expiration_def m_def [symmetric])
  have len: "rd_le m (p + 24) 2 = Some (length (re_packet r))"
    by (rule rd_le_at [of _ "A @ le_bytes 8 (re_ep r) @ le_bytes 8 s @ le_bytes 4 ns @ replicate 4 0"])
      (use lt in \<open>simp_all add: mm pA\<close>)
  then show len': "entry_msg_length (buf_data (rc_buffer c)) p = Some (length (re_packet r))"
    by (simp add: entry_msg_length_def m_def [symmetric])
  have dr: "drop (p + 26) m = re_packet r @ Z"
    by (simp add: mm pA)
  then show "take (length (re_packet r)) (drop (p + 26) (buf_data (rc_buffer c))) = re_packet r"
    by (simp add: m_def [symmetric])
  have l4: "4 \<le> length (re_packet r)" using ok by (simp add: response_ok_def)
  have "rd_bytes m (p + 26) 4 = Some (take 4 (re_packet r))"
    using dr l4 by (simp add: rd_bytes_def mm pA)
  then show "entry_id c p = Some (re_id r)" by (simp add: entry_id_def m_def [symmetric] re_id_def)
  show sz: "entry_size c p = Some (length (enc_response r))"
    using len' padding_aligns [of "length (re_packet r)"]
    by (simp add: entry_size_def entry_msg_size_def length_enc_response add.assoc)
  have "(p + length (enc_response r)) mod 8 = 0" using al by (simp add: mod_add_eq [symmetric, of p])
  with sz show "entry_next c p = Some (buf_begin (rc_buffer c) + length (enc_responses (rs1 @ [r])))"
    by (simp add: entry_next_def p add.assoc)
  have "0 < length (enc_response r)" using enc_response_ge [OF ok] by linarith
  then show "entry_valid c p = Some True"
    using b al p m(3) buffer_rep_sizes(1) [of "rc_buffer c" "enc_responses (rs1 @ r # rs2)"]
    by (simp add: entry_valid_def buffer_data_def buffer_holds_def)
qed

lemma entry_end:
  assumes b: "buffer_holds (rc_buffer c) rs" and p: "p = buf_begin (rc_buffer c) + length (enc_responses rs)"
  shows "entry_valid c p = Some False"
  using assms buffer_rep_sizes(1) [of "rc_buffer c" "enc_responses rs"]
  by (simp add: entry_valid_def buffer_data_def buffer_holds_def)

section \<open>Reference counts\<close>

text \<open>
  A reference to an endpoint, with what the endpoint stands for. The list of endpoints fits a
  multiset of references when it has exactly the endpoints that are referred to, each with the
  number of its references.
\<close>

type_synonym endpoint_ref = "nat \<times> string \<times> string"

definition ep_ref :: "nat \<times> endpoint \<Rightarrow> endpoint_ref" where
  "ep_ref x = (fst x, ep_addr (snd x), ep_port (snd x))"

definition endpoints_ok :: "(nat \<times> endpoint) list \<Rightarrow> endpoint_ref multiset \<Rightarrow> bool" where
  "endpoints_ok eps refs \<longleftrightarrow>
     distinct (map fst eps) \<and> distinct (map (\<lambda>x. (ep_addr (snd x), ep_port (snd x))) eps)
     \<and> (\<forall>x \<in> set eps. 0 < ep_refcount (snd x) \<and> ep_refcount (snd x) = count refs (ep_ref x))
     \<and> set_mset refs \<subseteq> ep_ref ` set eps \<and> size refs < 65536"

lemma endpoints_ok_count:
  "endpoints_ok eps refs \<Longrightarrow> x \<in> set eps \<Longrightarrow> 0 < ep_refcount (snd x) \<and> ep_refcount (snd x) = count refs (ep_ref x)"
  unfolding endpoints_ok_def by blast

lemma endpoints_okI:
  "\<lbrakk>distinct (map fst eps); distinct (map (\<lambda>x. (ep_addr (snd x), ep_port (snd x))) eps);
    \<And>x. x \<in> set eps \<Longrightarrow> 0 < ep_refcount (snd x) \<and> ep_refcount (snd x) = count refs (ep_ref x);
    set_mset refs \<subseteq> ep_ref ` set eps; size refs < 65536\<rbrakk> \<Longrightarrow> endpoints_ok eps refs"
  unfolding endpoints_ok_def by blast

lemma ep_ref_simps [simp]: "ep_ref (p, ep) = (p, ep_addr ep, ep_port ep)"
  by (simp add: ep_ref_def)

lemma del_ref_split:
  "q \<notin> fst ` set e1 \<Longrightarrow> endpoints_del_ref (e1 @ (q, ep) # e2) q =
     Some (e1 @ (let n = (ep_refcount ep + 65535) mod 2 ^ 16 in if n = 0 then e2 else (q, ep\<lparr>ep_refcount := n\<rparr>) # e2))"
  by (induction e1) (auto simp: Let_def)

lemma add_ref_split:
  "(\<forall>x \<in> set e1. \<not> (ep_addr (snd x) = ep_addr ep \<and> ep_port (snd x) = ep_port ep)) \<Longrightarrow>
   endpoints_add_ref (e1 @ (p, ep) # e2) (ep_addr ep) (ep_port ep) =
     Some (e1 @ (p, ep\<lparr>ep_refcount := (ep_refcount ep + 1) mod 2 ^ 16\<rparr>) # e2, p)"
  by (induction e1) auto

lemma add_ref_none:
  "(\<forall>x \<in> set eps. \<not> (ep_addr (snd x) = addr \<and> ep_port (snd x) = port)) \<Longrightarrow> endpoints_add_ref eps addr port = None"
  by (induction eps) auto

lemma endpoints_ok_remove:
  assumes ok: "endpoints_ok eps (add_mset (q, addr, port) refs)"
  shows "\<exists>eps'. endpoints_del_ref eps q = Some eps' \<and> endpoints_ok eps' refs \<and> fst ` set eps' \<subseteq> fst ` set eps"
proof -
  from ok obtain ep where ep: "(q, ep) \<in> set eps" "ep_addr ep = addr" "ep_port ep = port"
    by (auto simp: endpoints_ok_def ep_ref_def)
  then obtain e1 e2 where eps: "eps = e1 @ (q, ep) # e2" by (meson split_list)
  have q: "q \<notin> fst ` set e1" "q \<notin> fst ` set e2" using ok by (auto simp: endpoints_ok_def eps)
  have size: "size refs < 65535" using ok by (simp add: endpoints_ok_def)
  define n where "n = count refs (q, addr, port)"
  have n: "n < 65536" using count_le_size [of refs "(q, addr, port)"] size unfolding n_def by linarith
  have rc: "ep_refcount ep = Suc n" using ok ep(2,3) by (simp add: endpoints_ok_def eps n_def)
  have cnt: "(ep_refcount ep + 65535) mod 2 ^ 16 = n" using n rc by simp
  have other: "count (add_mset (q, addr, port) refs) (ep_ref x) = count refs (ep_ref x)" if "x \<in> set e1 \<union> set e2" for x
    using that q by (auto simp: ep_ref_def)
  define eps' where "eps' = e1 @ (if n = 0 then e2 else (q, ep\<lparr>ep_refcount := n\<rparr>) # e2)"
  have del: "endpoints_del_ref eps q = Some eps'"
    unfolding eps del_ref_split [OF q(1)] cnt Let_def eps'_def by (rule refl)
  have sub: "set_mset refs \<subseteq> ep_ref ` set eps'"
  proof
    fix x assume x: "x \<in># refs"
    then obtain y where y: "y \<in> set eps" "x = ep_ref y" using ok by (auto simp: endpoints_ok_def)
    show "x \<in> ep_ref ` set eps'"
    proof (cases "y = (q, ep)")
      case True
      then have "x = ep_ref (q, ep\<lparr>ep_refcount := n\<rparr>)" using y(2) by simp
      moreover have "n \<noteq> 0" using x y(2) True ep(2,3) by (simp add: n_def)
      ultimately show ?thesis by (simp add: eps'_def)
    next
      case False
      with y have "y \<in> set eps'" by (auto simp: eps eps'_def)
      with y(2) show ?thesis by blast
    qed
  qed
  have counts: "0 < ep_refcount (snd x) \<and> ep_refcount (snd x) = count refs (ep_ref x)" if x: "x \<in> set eps'" for x
  proof (cases "x \<in> set e1 \<union> set e2")
    case True
    then have "0 < ep_refcount (snd x) \<and> ep_refcount (snd x) = count (add_mset (q, addr, port) refs) (ep_ref x)"
      using endpoints_ok_count [OF ok, of x] unfolding eps set_append list.set by blast
    then show ?thesis unfolding other [OF True] .
  next
    case False
    with x have "x = (q, ep\<lparr>ep_refcount := n\<rparr>)" "n \<noteq> 0" by (auto simp: eps'_def split: if_splits)
    with ep show ?thesis by (simp add: n_def)
  qed
  have dist: "distinct (map fst eps')" "distinct (map (\<lambda>x. (ep_addr (snd x), ep_port (snd x))) eps')"
    using ok by (auto simp: endpoints_ok_def eps eps'_def)
  have "endpoints_ok eps' refs" by (rule endpoints_okI [OF dist counts sub]) (use size in simp_all)
  moreover have "fst ` set eps' \<subseteq> fst ` set eps" by (auto simp: eps eps'_def)
  ultimately show ?thesis using del by blast
qed

lemma endpoints_ok_add:
  assumes ok: "endpoints_ok eps refs" and size: "size refs < 65535"
    and new: "\<And>p. new_ep = Some p \<Longrightarrow> p \<notin> fst ` set eps"
  shows "case cache_endpoint_add_ref \<lparr>rc_endpoints = eps, rc_buffer = b\<rparr> new_ep addr port of
      (c, None) \<Rightarrow> c = \<lparr>rc_endpoints = eps, rc_buffer = b\<rparr>
        \<and> (new_ep = None \<or> length addr \<ge> AVS_ADDRSTRLEN \<or> length port \<ge> PORT_STRLEN)
    | (c, Some p) \<Rightarrow> \<exists>eps'. c = \<lparr>rc_endpoints = eps', rc_buffer = b\<rparr> \<and> endpoints_ok eps' (add_mset (p, addr, port) refs)
        \<and> fst ` set eps' \<subseteq> insert p (fst ` set eps) \<and> (p \<in> fst ` set eps \<or> new_ep = Some p)"
proof (cases "\<exists>x \<in> set eps. ep_addr (snd x) = addr \<and> ep_port (snd x) = port")
  case True
  then obtain p ep where ep: "(p, ep) \<in> set eps" "ep_addr ep = addr" "ep_port ep = port" by auto
  then obtain e1 e2 where eps: "eps = e1 @ (p, ep) # e2" by (meson split_list)
  have first: "\<forall>x \<in> set e1. \<not> (ep_addr (snd x) = ep_addr ep \<and> ep_port (snd x) = ep_port ep)"
    using ok by (auto simp: endpoints_ok_def eps image_iff)
  have p: "p \<notin> fst ` set e1" "p \<notin> fst ` set e2" using ok by (auto simp: endpoints_ok_def eps)
  have rc: "ep_refcount ep = count refs (p, addr, port)" using ok ep(2,3) by (simp add: endpoints_ok_def eps)
  then have lt: "ep_refcount ep + 1 < 65536" using count_le_size [of refs "(p, addr, port)"] size by linarith
  let ?eps = "e1 @ (p, ep\<lparr>ep_refcount := ep_refcount ep + 1\<rparr>) # e2"
  have counts: "0 < ep_refcount (snd x) \<and> ep_refcount (snd x) = count (add_mset (p, addr, port) refs) (ep_ref x)"
    if x: "x \<in> set ?eps" for x
  proof (cases "x \<in> set e1 \<union> set e2")
    case True
    then have "0 < ep_refcount (snd x) \<and> ep_refcount (snd x) = count refs (ep_ref x)"
      using endpoints_ok_count [OF ok, of x] unfolding eps set_append list.set by blast
    moreover have "count (add_mset (p, addr, port) refs) (ep_ref x) = count refs (ep_ref x)"
      using True p by (auto simp: ep_ref_def)
    ultimately show ?thesis by argo
  next
    case False
    with x have "x = (p, ep\<lparr>ep_refcount := ep_refcount ep + 1\<rparr>)" by auto
    with rc ep(2,3) show ?thesis by simp
  qed
  have dist: "distinct (map fst ?eps)" "distinct (map (\<lambda>x. (ep_addr (snd x), ep_port (snd x))) ?eps)"
    using ok by (simp_all add: endpoints_ok_def eps)
  have sub: "set_mset (add_mset (p, addr, port) refs) \<subseteq> ep_ref ` set ?eps"
    using ok ep(2,3) by (simp add: endpoints_ok_def eps)
  have new_ok: "endpoints_ok ?eps (add_mset (p, addr, port) refs)"
    by (rule endpoints_okI [OF dist counts sub]) (use size in simp_all)
  have "cache_endpoint_add_ref \<lparr>rc_endpoints = eps, rc_buffer = b\<rparr> new_ep addr port
      = (\<lparr>rc_endpoints = e1 @ (p, ep\<lparr>ep_refcount := ep_refcount ep + 1\<rparr>) # e2, rc_buffer = b\<rparr>, Some p)"
    using add_ref_split [OF first, of p e2] lt by (simp add: cache_endpoint_add_ref_def eps ep(2,3))
  moreover have "p \<in> fst ` set eps" "fst ` set ?eps \<subseteq> insert p (fst ` set eps)" by (auto simp: eps)
  ultimately show ?thesis using new_ok by auto
next
  case False
  then have none: "endpoints_add_ref eps addr port = None" by (intro add_ref_none) auto
  show ?thesis
  proof (cases "\<exists>p. new_ep = Some p \<and> length addr < AVS_ADDRSTRLEN \<and> length port < PORT_STRLEN")
    case True
    then obtain p where p: "new_ep = Some p" "length addr < AVS_ADDRSTRLEN" "length port < PORT_STRLEN" by blast
    have fresh: "p \<notin> fst ` set eps" by (rule new [OF p(1)])
    have "count refs (p, addr, port) = 0"
      using ok fresh by (force simp: endpoints_ok_def ep_ref_def count_eq_zero_iff)
    moreover have "ep_ref x \<noteq> (p, addr, port)" if "x \<in> set eps" for x using that fresh by (auto simp: ep_ref_def)
    ultimately have "endpoints_ok ((p, \<lparr>ep_refcount = 1, ep_addr = addr, ep_port = port\<rparr>) # eps) (add_mset (p, addr, port) refs)"
      using ok False fresh size by (auto simp: endpoints_ok_def)
    with p none show ?thesis by (simp add: cache_endpoint_add_ref_def subset_insertI)
  next
    case False
    with none show ?thesis by (cases new_ep) (auto simp: cache_endpoint_add_ref_def)
  qed
qed

section \<open>Dropping entries from the front\<close>

definition re_ref :: "response \<Rightarrow> endpoint_ref" where
  "re_ref r = (re_ep r, re_addr r, re_port r)"

abbreviation refs_of :: "response list \<Rightarrow> endpoint_ref multiset" where
  "refs_of rs \<equiv> image_mset re_ref (mset rs)"

lemma del_ref_front:
  assumes "endpoints_ok (rc_endpoints c) (refs_of (r # rs) + extra)"
  shows "\<exists>c'. cache_endpoint_del_ref c (re_ep r) = Some c' \<and> rc_buffer c' = rc_buffer c
    \<and> endpoints_ok (rc_endpoints c') (refs_of rs + extra)
    \<and> fst ` set (rc_endpoints c') \<subseteq> fst ` set (rc_endpoints c)"
proof -
  have "refs_of (r # rs) + extra = add_mset (re_ep r, re_addr r, re_port r) (refs_of rs + extra)"
    by (simp add: re_ref_def)
  with endpoints_ok_remove [of "rc_endpoints c" "re_ep r" "re_addr r" "re_port r" "refs_of rs + extra"] assms
  obtain eps where "endpoints_del_ref (rc_endpoints c) (re_ep r) = Some eps" "endpoints_ok eps (refs_of rs + extra)"
    "fst ` set eps \<subseteq> fst ` set (rc_endpoints c)" by auto
  then show ?thesis by (simp add: cache_endpoint_del_ref_def)
qed

definition re_expired :: "monotonic \<Rightarrow> response \<Rightarrow> bool" where
  "re_expired now r \<longleftrightarrow> monotonic_before (re_expiration r) now"

lemma drop_expired_loop_ok:
  "\<lbrakk>buffer_holds (rc_buffer c) (rs1 @ rs); endpoints_ok (rc_endpoints c) (refs_of rs + extra);
    p = buf_begin (rc_buffer c) + length (enc_responses rs1)\<rbrakk> \<Longrightarrow>
   \<exists>c'. drop_expired_loop c p now
       = Some (c', buf_begin (rc_buffer c) + length (enc_responses (rs1 @ takeWhile (re_expired now) rs)))
     \<and> rc_buffer c' = rc_buffer c \<and> endpoints_ok (rc_endpoints c') (refs_of (dropWhile (re_expired now) rs) + extra)
     \<and> fst ` set (rc_endpoints c') \<subseteq> fst ` set (rc_endpoints c)"
proof (induction rs arbitrary: c p rs1)
  case Nil
  then show ?case using entry_end [of c rs1 p] by (subst drop_expired_loop.simps) simp
next
  case (Cons r rs)
  note e = entry_at [OF Cons.prems(1,3)]
  have exp: "entry_expired c p now = Some (re_expired now r)"
    using e(2) by (simp add: entry_expired_def re_expired_def)
  show ?case
  proof (cases "re_expired now r")
    case False
    with e(7) exp Cons.prems show ?thesis by (subst drop_expired_loop.simps) simp
  next
    case True
    from del_ref_front [OF Cons.prems(2)] obtain c1 where c1: "cache_endpoint_del_ref c (re_ep r) = Some c1"
      "rc_buffer c1 = rc_buffer c" "endpoints_ok (rc_endpoints c1) (refs_of rs + extra)"
      "fst ` set (rc_endpoints c1) \<subseteq> fst ` set (rc_endpoints c)" by blast
    have b: "buffer_holds (rc_buffer c1) ((rs1 @ [r]) @ rs)" using Cons.prems(1) c1(2) by simp
    have e1: "entry_next c1 p = Some (buf_begin (rc_buffer c) + length (enc_responses (rs1 @ [r])))"
      using entry_at(6) [of c1 rs1 r rs p] Cons.prems(1,3) c1(2) by simp
    have step: "drop_expired_loop c p now
        = drop_expired_loop c1 (buf_begin (rc_buffer c) + length (enc_responses (rs1 @ [r]))) now"
      using e(1,7) exp True c1(1) e1 by (subst drop_expired_loop.simps) simp
    from Cons.IH [OF b c1(3) refl] c1(2,4) True step show ?thesis by auto
  qed
qed

lemma consume_up_to_ok:
  assumes b: "buffer_holds (rc_buffer c) (rs1 @ rs2)"
  shows "\<exists>b'. consume_up_to c (buf_begin (rc_buffer c) + length (enc_responses rs1)) = Some (c\<lparr>rc_buffer := b'\<rparr>)
    \<and> buffer_holds b' rs2 \<and> buf_capacity b' = buf_capacity (rc_buffer c)"
proof -
  let ?b = "rc_buffer c" and ?n = "length (enc_responses rs1)"
  have rep: "buffer_rep ?b (enc_responses rs1 @ enc_responses rs2)" and al: "buf_begin ?b mod 8 = 0"
    using b by (simp_all add: buffer_holds_def)
  define b' where "b' = ?b\<lparr>buf_begin := buf_begin ?b + ?n\<rparr>"
  have con: "buffer_consume_bytes ?b ?n = Some (b', 0)"
    using buffer_rep_sizes(1) [OF rep] by (simp add: buffer_consume_bytes_def b'_def)
  have "buffer_rep b' (enc_responses rs2)"
  proof -
    from rep obtain pre post where "buf_data ?b = pre @ (enc_responses rs1 @ enc_responses rs2) @ post"
      "buf_begin ?b = length pre" "buf_end ?b = length pre + length (enc_responses rs1 @ enc_responses rs2)"
      "buf_capacity ?b = length (buf_data ?b)" by (auto simp: buffer_rep_def)
    then show ?thesis unfolding buffer_rep_def b'_def
      by (intro exI [of _ "pre @ enc_responses rs1"] exI [of _ post]) simp
  qed
  moreover have "buf_begin b' mod 8 = 0" using al by (simp add: b'_def mod_add_eq [symmetric, of "buf_begin ?b"])
  ultimately have "buffer_holds b' rs2" using b by (simp add: buffer_holds_def)
  moreover have "entry_first c = Some (buf_begin ?b)" using al by (simp add: entry_first_def buffer_data_def)
  ultimately have "consume_up_to c (buf_begin ?b + ?n) = Some (c\<lparr>rc_buffer := b'\<rparr>)"
    using con by (simp add: consume_up_to_def)
  with \<open>buffer_holds b' rs2\<close> show ?thesis by (auto simp: b'_def)
qed

text \<open>The oldest entries are given up until so many bytes fit.\<close>

primrec make_room_for :: "nat \<Rightarrow> nat \<Rightarrow> response list \<Rightarrow> response list" where
  "make_room_for cap n [] = []"
| "make_room_for cap n (r # rs) =
     (if length (enc_responses (r # rs)) + n \<le> cap then r # rs else make_room_for cap n rs)"

lemma make_room_suffix: "\<exists>ds. rs = ds @ make_room_for cap n rs"
proof (induction rs)
  case (Cons r rs)
  then obtain ds where "rs = ds @ make_room_for cap n rs" by blast
  then have "r # rs = (if length (enc_responses (r # rs)) + n \<le> cap then [] else r # ds) @ make_room_for cap n (r # rs)"
    by simp
  then show ?case by blast
qed simp

lemma make_room_fits: "n \<le> cap \<Longrightarrow> length (enc_responses (make_room_for cap n rs)) + n \<le> cap"
  by (induction rs) simp_all

lemma free_bytes_loop_ok:
  "\<lbrakk>buffer_holds (rc_buffer c) (rs1 @ rs); endpoints_ok (rc_endpoints c) (refs_of rs + extra);
    p = buf_begin (rc_buffer c) + length (enc_responses rs1); n \<le> cap; length (enc_responses rs) \<le> cap;
    free = cap - length (enc_responses rs)\<rbrakk> \<Longrightarrow>
   \<exists>c' ds. free_bytes_loop c p free n = Some (c', buf_begin (rc_buffer c) + length (enc_responses (rs1 @ ds)))
     \<and> rs = ds @ make_room_for cap n rs
     \<and> rc_buffer c' = rc_buffer c \<and> endpoints_ok (rc_endpoints c') (refs_of (make_room_for cap n rs) + extra)
     \<and> fst ` set (rc_endpoints c') \<subseteq> fst ` set (rc_endpoints c)"
proof (induction rs arbitrary: c p free rs1)
  case Nil
  then show ?case by (subst free_bytes_loop.simps) (auto intro: exI [of _ "[]"])
next
  case (Cons r rs)
  show ?case
  proof (cases "free < n")
    case False
    then have "length (enc_responses (r # rs)) + n \<le> cap" using Cons.prems(5,6) by linarith
    then have "make_room_for cap n (r # rs) = r # rs" by simp
    with False Cons.prems show ?thesis by (subst free_bytes_loop.simps) (auto intro: exI [of _ "[]"])
  next
    case True
    then have "\<not> length (enc_responses (r # rs)) + n \<le> cap" using Cons.prems(5,6) by linarith
    then have room: "make_room_for cap n (r # rs) = make_room_for cap n rs" by simp
    note e = entry_at [OF Cons.prems(1,3)]
    from del_ref_front [OF Cons.prems(2)] obtain c1 where c1: "cache_endpoint_del_ref c (re_ep r) = Some c1"
      "rc_buffer c1 = rc_buffer c" "endpoints_ok (rc_endpoints c1) (refs_of rs + extra)"
      "fst ` set (rc_endpoints c1) \<subseteq> fst ` set (rc_endpoints c)" by blast
    have b: "buffer_holds (rc_buffer c1) ((rs1 @ [r]) @ rs)" using Cons.prems(1) c1(2) by simp
    have e1: "entry_next c1 p = Some (buf_begin (rc_buffer c) + length (enc_responses (rs1 @ [r])))"
      "entry_size c1 p = Some (length (enc_response r))"
      using entry_at(5,6) [of c1 rs1 r rs p] Cons.prems(1,3) c1(2) by simp_all
    have step: "free_bytes_loop c p free n
        = free_bytes_loop c1 (buf_begin (rc_buffer c) + length (enc_responses (rs1 @ [r]))) (free + length (enc_response r)) n"
      using e(1,7) True c1(1) e1 by (subst free_bytes_loop.simps) simp
    have le: "length (enc_responses rs) \<le> cap" "free + length (enc_response r) = cap - length (enc_responses rs)"
      using Cons.prems(5,6) by simp_all
    from Cons.IH [OF b c1(3) refl Cons.prems(4) le] c1(2) obtain c' ds where
      "free_bytes_loop c1 (buf_begin (rc_buffer c) + length (enc_responses (rs1 @ [r]))) (free + length (enc_response r)) n
        = Some (c', buf_begin (rc_buffer c) + length (enc_responses ((rs1 @ [r]) @ ds)))"
      "rs = ds @ make_room_for cap n rs" "rc_buffer c' = rc_buffer c"
      "endpoints_ok (rc_endpoints c') (refs_of (make_room_for cap n rs) + extra)"
      "fst ` set (rc_endpoints c') \<subseteq> fst ` set (rc_endpoints c1)" by auto
    with step room c1(4) show ?thesis
      by (intro exI [of _ c'] exI [of _ "r # ds"]) auto
  qed
qed

section \<open>Finding and putting entries\<close>

text \<open>The key under which a response is found.\<close>

definition re_matches :: "string \<Rightarrow> string \<Rightarrow> nat \<Rightarrow> response \<Rightarrow> bool" where
  "re_matches addr port i r \<longleftrightarrow> re_id r = i \<and> re_addr r = addr \<and> re_port r = port"

lemma endpoint_lookup:
  assumes ok: "endpoints_ok eps refs" and r: "(q, addr, port) \<in># refs"
  shows "\<exists>ep. map_of eps q = Some ep \<and> ep_addr ep = addr \<and> ep_port ep = port"
proof -
  from ok r obtain ep where "(q, ep) \<in> set eps" "ep_addr ep = addr" "ep_port ep = port"
    by (auto simp: endpoints_ok_def ep_ref_def)
  moreover have "distinct (map fst eps)" using ok by (simp add: endpoints_ok_def)
  ultimately show ?thesis by auto
qed

lemma find_entry_loop_ok:
  "\<lbrakk>buffer_holds (rc_buffer c) (rs1 @ rs); endpoints_ok (rc_endpoints c) refs; set_mset (refs_of rs) \<subseteq> set_mset refs;
    p = buf_begin (rc_buffer c) + length (enc_responses rs1)\<rbrakk> \<Longrightarrow>
   find_entry_loop c p addr port i = Some
     (case dropWhile (\<lambda>r. \<not> re_matches addr port i r) rs of [] \<Rightarrow> None
      | _ \<Rightarrow> Some (p + length (enc_responses (takeWhile (\<lambda>r. \<not> re_matches addr port i r) rs))))"
proof (induction rs arbitrary: p rs1)
  case Nil
  then show ?case using entry_end [of c rs1 p] by (subst find_entry_loop.simps) simp
next
  case (Cons r rs)
  note e = entry_at [OF Cons.prems(1,4)]
  have "re_ref r \<in># refs" using Cons.prems(3) by simp
  then obtain ep where ep: "map_of (rc_endpoints c) (re_ep r) = Some ep" "ep_addr ep = re_addr r" "ep_port ep = re_port r"
    using endpoint_lookup [OF Cons.prems(2), of "re_ep r" "re_addr r" "re_port r"] by (auto simp: re_ref_def)
  show ?case
  proof (cases "re_matches addr port i r")
    case True
    with e ep show ?thesis by (subst find_entry_loop.simps) (simp add: re_matches_def)
  next
    case False
    have b: "buffer_holds (rc_buffer c) ((rs1 @ [r]) @ rs)" "set_mset (refs_of rs) \<subseteq> set_mset refs"
      using Cons.prems(1,3) by simp_all
    define ds where "ds = dropWhile (\<lambda>r. \<not> re_matches addr port i r) rs"
    have dw: "dropWhile (\<lambda>r. \<not> re_matches addr port i r) (r # rs) = ds"
      "takeWhile (\<lambda>r. \<not> re_matches addr port i r) (r # rs) = r # takeWhile (\<lambda>r. \<not> re_matches addr port i r) rs"
      using False by (simp_all add: ds_def)
    have "find_entry_loop c p addr port i
        = find_entry_loop c (buf_begin (rc_buffer c) + length (enc_responses (rs1 @ [r]))) addr port i"
      using e ep False by (subst find_entry_loop.simps) (auto simp: re_matches_def)
    also note Cons.IH [OF b(1) Cons.prems(2) b(2) refl, folded ds_def]
    finally show ?thesis unfolding dw Cons.prems(4) by (cases ds) (simp_all add: add.assoc)
  qed
qed

lemma entry_first_ok: "buffer_holds (rc_buffer c) rs \<Longrightarrow> entry_first c = Some (buf_begin (rc_buffer c))"
  by (simp add: entry_first_def buffer_data_def buffer_holds_def)

lemma find_entry_ok:
  assumes "buffer_holds (rc_buffer c) rs" "endpoints_ok (rc_endpoints c) (refs_of rs)"
  shows "find_entry c addr port i = Some
     (case dropWhile (\<lambda>r. \<not> re_matches addr port i r) rs of [] \<Rightarrow> None
      | _ \<Rightarrow> Some (buf_begin (rc_buffer c) + length (enc_responses (takeWhile (\<lambda>r. \<not> re_matches addr port i r) rs))))"
  using find_entry_loop_ok [of c "[]" rs "refs_of rs" "buf_begin (rc_buffer c)"] entry_first_ok [OF assms(1)] assms
  by (simp add: find_entry_def)

lemma append_begin:
  assumes "buffer_append_bytes b ys = Some (b', res)"
  shows "buf_begin b' = buf_begin b \<or> buf_begin b' = 0"
  using assms unfolding buffer_append_bytes_def defragment_buffer_def
  by (auto simp: bind_eq_Some_conv split: if_splits)

lemma msg_holds_size: "msg_holds msg hdr tok xs payload \<Longrightarrow> udp_msg_size msg = length (msg_bytes hdr tok xs payload)"
  by (auto simp: msg_holds_def udp_msg_size_def msg_bytes_def header_bytes_def payload_bytes_def opts_rep_def)

lemma put_entry_ok:
  assumes b: "buffer_holds (rc_buffer c) rs" and h: "msg_holds msg hdr tok xs payload"
    and r: "r = \<lparr>re_ep = ep, re_addr = addr, re_port = port, re_expiration = t, re_packet = msg_bytes hdr tok xs payload\<rparr>"
    and ok: "response_ok r" and fits: "length (enc_responses rs) + length (enc_response r) \<le> buf_capacity (rc_buffer c)"
  shows "\<exists>b'. cache_put_entry c t ep msg = Some (c\<lparr>rc_buffer := b'\<rparr>) \<and> buffer_holds b' (rs @ [r])
    \<and> buf_capacity b' = buf_capacity (rc_buffer c)"
proof -
  let ?m = "msg_bytes hdr tok xs payload" and ?b = "rc_buffer c"
  let ?L = "length ?m"
  let ?H = "entry_bytes ep t ?L" and ?E = "enc_responses rs" and ?P = "replicate (padding_bytes_after_msg ?L) (0xDD :: byte)"
  have enc: "enc_response r = ?H @ ?m @ ?P" by (simp add: enc_response_def r)
  have size: "udp_msg_size msg = ?L" by (rule msg_holds_size [OF h])
  have L: "?L \<le> 65535" using ok by (simp add: response_ok_def r)
  have rep: "buffer_rep ?b ?E" using b by (simp add: buffer_holds_def)
  from buffer_append_rep [OF rep, of ?H] fits obtain b1 where
    b1: "buffer_append_bytes ?b ?H = Some (b1, 0)" "buffer_rep b1 (?E @ ?H)" "buf_capacity b1 = buf_capacity ?b"
    by (auto simp: enc split: if_splits)
  from buffer_raw_insert_rep [OF b1(2)] obtain b2 post where
    b2: "buffer_raw_insert_ptr b1 = Some (b2, length (?E @ ?H))" "buf_data b2 = (?E @ ?H) @ post" "buf_begin b2 = 0"
    "buf_end b2 = length (?E @ ?H)" "buf_capacity b2 = buf_capacity b1" "buffer_rep b2 (?E @ ?H)"
    "length post = buf_capacity b1 - length (?E @ ?H)" by blast
  have space: "buffer_space_left b2 = Some (length post)"
    using buffer_rep_sizes(2) [OF b2(6)] b2(5,7) by simp
  have Lp: "?L \<le> length post" using fits b2(7) b1(3) by (simp add: enc)
  from udp_msg_serialize_spec [OF h order_refl, of post] Lp
  have ser: "udp_msg_serialize msg post (length post) = Some (?m @ drop ?L post, ?L, AVS_OK)" by auto
  define b3 where "b3 = b2\<lparr>buf_data := (?E @ ?H) @ ?m @ drop ?L post\<rparr>"
  have cap: "buf_capacity b2 = length (buf_data b2)" using b2(6) by (auto simp: buffer_rep_def)
  have b3: "buf_data b3 = (?E @ ?H) @ ?m @ drop ?L post" "buf_begin b3 = 0" "buf_end b3 = length (?E @ ?H)"
    "buf_capacity b3 = length (buf_data b3)"
    using b2 cap Lp by (simp_all add: b3_def)
  define b4 where "b4 = b3\<lparr>buf_end := length (?E @ ?H) + ?L\<rparr>"
  have adv: "buffer_advance_ptr b3 ?L = Some (b4, 0)" "buffer_rep b4 ((?E @ ?H) @ ?m)"
    using buffer_advance_rep [OF b3] by (simp_all add: b4_def)
  have cap4: "buf_capacity b4 = buf_capacity ?b" "buf_begin b4 = 0"
    using b2(3,5) b1(3) by (simp_all add: b4_def b3_def)
  from buffer_append_rep [OF adv(2), of ?P] fits cap4 obtain b5 where
    b5: "buffer_append_bytes b4 ?P = Some (b5, 0)" "buffer_rep b5 (((?E @ ?H) @ ?m) @ ?P)" "buf_capacity b5 = buf_capacity ?b"
    by (auto simp: enc split: if_splits)
  have "buf_begin b5 = 0" using append_begin [OF b5(1)] cap4 by simp
  moreover have rep5: "buffer_rep b5 (enc_responses (rs @ [r]))" using b5(2) by (simp add: enc)
  ultimately have holds: "buffer_holds b5 (rs @ [r])" using b ok by (simp add: buffer_holds_def)
  have al: "buffer_data_size ?b = Some (length ?E)" "buffer_data_size b5 = Some (length (enc_responses (rs @ [r])))"
    using buffer_rep_sizes(1) [OF rep] buffer_rep_sizes(1) [OF rep5] by simp_all
  have fill: "buffer_fill_bytes b4 0xDD (padding_bytes_after_msg ?L) = Some (b5, 0)"
    using b5(1) by (simp add: buffer_fill_append)
  have upd: "b2\<lparr>buf_data := take (length (?E @ ?H)) (buf_data b2) @ ?m @ drop ?L post\<rparr> = b3"
    by (simp add: b3_def b2(2))
  have dr: "drop (length (?E @ ?H)) (buf_data b2) = post" by (simp add: b2(2))
  have "cache_put_entry c t ep msg = Some (c\<lparr>rc_buffer := b5\<rparr>)"
    unfolding cache_put_entry_def size Let_def
    using L al b1(1) b2(1) space ser adv(1) fill upd dr enc_responses_aligned [of rs] enc_responses_aligned [of "rs @ [r]"]
    by (simp del: enc_responses_aligned enc_responses_simps length_append)
  with holds b5(3) show ?thesis by blast
qed

section \<open>The abstract cache\<close>

text \<open>
  What the cache is for its users: a queue of responses, the oldest first, each with its endpoint,
  its expiration time and its packet.
\<close>

type_synonym cached = "string \<times> string \<times> monotonic \<times> bytes"

definition packet_space :: "bytes \<Rightarrow> nat" where
  "packet_space m = 26 + length m + padding_bytes_after_msg (length m)"

definition packet_id :: "bytes \<Rightarrow> nat" where
  "packet_id m = header_get_id (header_of_bytes (take 4 m))"

definition cached_expired :: "monotonic \<Rightarrow> cached \<Rightarrow> bool" where
  "cached_expired now v \<longleftrightarrow> (case v of (_, _, t, _) \<Rightarrow> monotonic_before t now)"

definition cached_matches :: "string \<Rightarrow> string \<Rightarrow> nat \<Rightarrow> cached \<Rightarrow> bool" where
  "cached_matches addr port i v \<longleftrightarrow> (case v of (a, p, _, m) \<Rightarrow> packet_id m = i \<and> a = addr \<and> p = port)"

text \<open>The oldest responses are given up until there is room for \<open>n\<close> bytes.\<close>

primrec forget_oldest :: "nat \<Rightarrow> nat \<Rightarrow> cached list \<Rightarrow> cached list" where
  "forget_oldest cap n [] = []"
| "forget_oldest cap n (v # vs) =
     (if sum_list (map (\<lambda>(_, _, _, m). packet_space m) (v # vs)) + n \<le> cap then v # vs else forget_oldest cap n vs)"

definition cache_add_spec ::
  "nat \<Rightarrow> bool \<Rightarrow> monotonic \<Rightarrow> monotonic \<Rightarrow> string \<Rightarrow> string \<Rightarrow> bytes \<Rightarrow> cached list \<Rightarrow> cached list \<times> int" where
  "cache_add_spec cap can_add now t addr port m vs =
     (if cap < packet_space m then (vs, - 1)
      else let vs = dropWhile (cached_expired now) vs
        in if \<exists>v \<in> set vs. cached_matches addr port (packet_id m) v then (vs, AVS_COAP_MSG_CACHE_DUPLICATE)
           else if \<not> can_add \<and> (\<forall>v \<in> set vs. \<not> (fst v = addr \<and> fst (snd v) = port)) then (vs, - 1)
           else (forget_oldest cap (packet_space m) vs @ [(addr, port, t, m)], 0))"

definition view :: "response \<Rightarrow> cached" where
  "view r = (re_addr r, re_port r, re_expiration r, re_packet r)"

lemma view_simps:
  "length (enc_response r) = packet_space (re_packet r)" "re_expired now r = cached_expired now (view r)"
  "re_matches addr port i r = cached_matches addr port i (view r)"
  by (simp_all add: length_enc_response packet_space_def re_expired_def cached_expired_def re_matches_def
      cached_matches_def re_id_def packet_id_def view_def)

lemma length_enc_responses:
  "length (enc_responses rs) = sum_list (map (\<lambda>(_, _, _, m). packet_space m) (map view rs))"
  by (induction rs) (simp_all add: view_simps(1) view_def)

lemma view_make_room: "map view (make_room_for cap n rs) = forget_oldest cap n (map view rs)"
proof (induction rs)
  case (Cons r rs)
  then show ?case
    by (simp only: make_room_for.simps forget_oldest.simps list.map length_enc_responses) (simp split: if_split)
qed simp

lemma view_dropWhile: "map view (dropWhile (re_expired now) rs) = dropWhile (cached_expired now) (map view rs)"
  by (induction rs) (simp_all add: view_simps)

text \<open>
  The invariant of a cache that holds the given responses. The bound on the capacity keeps the
  16-bit reference counts from wrapping around.
\<close>

definition cache_inv :: "response_cache \<Rightarrow> response list \<Rightarrow> bool" where
  "cache_inv c rs \<longleftrightarrow> buffer_holds (rc_buffer c) rs \<and> endpoints_ok (rc_endpoints c) (refs_of rs)
     \<and> buf_capacity (rc_buffer c) \<le> 32 * 65534"

definition cache_represents :: "response_cache \<Rightarrow> cached list \<Rightarrow> bool" where
  "cache_represents c vs \<longleftrightarrow> (\<exists>rs. cache_inv c rs \<and> map view rs = vs)"

lemma buffer_holds_length: "buffer_holds b rs \<Longrightarrow> length (enc_responses rs) \<le> buf_capacity b \<and> 32 * length rs \<le> buf_capacity b"
proof -
  assume b: "buffer_holds b rs"
  then have le: "length (enc_responses rs) \<le> buf_capacity b"
    using buffer_rep_sizes(4) by (auto simp: buffer_holds_def)
  have "list_all response_ok rs" using b by (simp add: buffer_holds_def)
  then have "32 * length rs \<le> length (enc_responses rs)"
  proof (induction rs)
    case (Cons r rs)
    then show ?case using enc_response_ge [of r] by simp
  qed simp
  with le show ?thesis by simp
qed

lemma drop_expired_ok:
  assumes "cache_inv c rs"
  shows "\<exists>c'. cache_drop_expired c now = Some c' \<and> cache_inv c' (dropWhile (re_expired now) rs)
    \<and> buf_capacity (rc_buffer c') = buf_capacity (rc_buffer c)
    \<and> fst ` set (rc_endpoints c') \<subseteq> fst ` set (rc_endpoints c)"
proof -
  let ?d = "takeWhile (re_expired now) rs" and ?k = "dropWhile (re_expired now) rs"
  have b: "buffer_holds (rc_buffer c) ([] @ rs)" and e: "endpoints_ok (rc_endpoints c) (refs_of rs + {#})"
    using assms by (simp_all add: cache_inv_def)
  from drop_expired_loop_ok [OF b e refl, of now] obtain c1 where c1:
    "drop_expired_loop c (buf_begin (rc_buffer c) + length (enc_responses [])) now
      = Some (c1, buf_begin (rc_buffer c) + length (enc_responses ([] @ ?d)))"
    "rc_buffer c1 = rc_buffer c" "endpoints_ok (rc_endpoints c1) (refs_of ?k + {#})"
    "fst ` set (rc_endpoints c1) \<subseteq> fst ` set (rc_endpoints c)" by blast
  have "buffer_holds (rc_buffer c1) (?d @ ?k)" using b c1(2) by simp
  from consume_up_to_ok [OF this] obtain b' where b':
    "consume_up_to c1 (buf_begin (rc_buffer c1) + length (enc_responses ?d)) = Some (c1\<lparr>rc_buffer := b'\<rparr>)"
    "buffer_holds b' ?k" "buf_capacity b' = buf_capacity (rc_buffer c1)" by blast
  show ?thesis
    using c1 b' entry_first_ok [of c rs] b assms by (simp add: cache_drop_expired_def cache_inv_def)
qed

lemma free_bytes_ok:
  assumes b: "buffer_holds (rc_buffer c) rs" and e: "endpoints_ok (rc_endpoints c) (refs_of rs + extra)"
    and n: "n \<le> buf_capacity (rc_buffer c)"
  shows "\<exists>c'. cache_free_bytes c n = Some c' \<and> buffer_holds (rc_buffer c') (make_room_for (buf_capacity (rc_buffer c)) n rs)
    \<and> endpoints_ok (rc_endpoints c') (refs_of (make_room_for (buf_capacity (rc_buffer c)) n rs) + extra)
    \<and> buf_capacity (rc_buffer c') = buf_capacity (rc_buffer c)"
proof -
  let ?cap = "buf_capacity (rc_buffer c)"
  have b0: "buffer_holds (rc_buffer c) ([] @ rs)" using b by simp
  have le: "length (enc_responses rs) \<le> ?cap" using buffer_holds_length [OF b] by simp
  have left: "buffer_space_left (rc_buffer c) = Some (?cap - length (enc_responses rs))"
    using buffer_rep_sizes(2) b by (auto simp: buffer_holds_def)
  from free_bytes_loop_ok [OF b0 e refl n le refl] obtain c1 ds where c1:
    "free_bytes_loop c (buf_begin (rc_buffer c) + length (enc_responses [])) (?cap - length (enc_responses rs)) n
      = Some (c1, buf_begin (rc_buffer c) + length (enc_responses ([] @ ds)))"
    "rs = ds @ make_room_for ?cap n rs" "rc_buffer c1 = rc_buffer c"
    "endpoints_ok (rc_endpoints c1) (refs_of (make_room_for ?cap n rs) + extra)" by blast
  have "buffer_holds (rc_buffer c1) (ds @ make_room_for ?cap n rs)" using b c1(2,3) by simp
  from consume_up_to_ok [OF this] obtain b' where b':
    "consume_up_to c1 (buf_begin (rc_buffer c1) + length (enc_responses ds)) = Some (c1\<lparr>rc_buffer := b'\<rparr>)"
    "buffer_holds b' (make_room_for ?cap n rs)" "buf_capacity b' = buf_capacity (rc_buffer c1)" by blast
  show ?thesis using c1(1,3,4) b' n left entry_first_ok [OF b] by (simp add: cache_free_bytes_def)
qed

section \<open>Adding and getting\<close>

lemma find_entry_none:
  assumes "buffer_holds (rc_buffer c) rs" "endpoints_ok (rc_endpoints c) (refs_of rs)"
    and "\<not> (\<exists>v \<in> set (map view rs). cached_matches addr port i v)"
  shows "find_entry c addr port i = Some None"
proof -
  have "dropWhile (\<lambda>r. \<not> re_matches addr port i r) rs = []"
    using assms(3) by (auto simp: dropWhile_eq_Nil_conv view_simps)
  then show ?thesis unfolding find_entry_ok [OF assms(1,2)] by (simp only: list.case)
qed

lemma find_entry_some:
  assumes "buffer_holds (rc_buffer c) rs" "endpoints_ok (rc_endpoints c) (refs_of rs)"
    and rs: "rs = rs1 @ r # rs2" "\<forall>x \<in> set rs1. \<not> re_matches addr port i x" "re_matches addr port i r"
  shows "find_entry c addr port i = Some (Some (buf_begin (rc_buffer c) + length (enc_responses rs1)))"
proof -
  have "dropWhile (\<lambda>r. \<not> re_matches addr port i r) rs = r # rs2" "takeWhile (\<lambda>r. \<not> re_matches addr port i r) rs = rs1"
    using rs by simp_all
  then show ?thesis unfolding find_entry_ok [OF assms(1,2)] by (simp only: list.case)
qed

lemma first_match:
  assumes "\<exists>v \<in> set (map view rs). cached_matches addr port i v"
  obtains rs1 r rs2 where "rs = rs1 @ r # rs2" "\<forall>x \<in> set rs1. \<not> re_matches addr port i x" "re_matches addr port i r"
  using assms split_list_first_prop [of rs "re_matches addr port i"] by (auto simp: view_simps)

lemma ep_known_iff:
  assumes ok: "endpoints_ok eps (refs_of rs)"
  shows "(\<exists>x \<in> set eps. ep_addr (snd x) = addr \<and> ep_port (snd x) = port)
    \<longleftrightarrow> (\<exists>v \<in> set (map view rs). fst v = addr \<and> fst (snd v) = port)"
proof
  assume "\<exists>x \<in> set eps. ep_addr (snd x) = addr \<and> ep_port (snd x) = port"
  then obtain x where x: "x \<in> set eps" "ep_addr (snd x) = addr" "ep_port (snd x) = port" by blast
  from endpoints_ok_count [OF ok x(1)] have "0 < count (refs_of rs) (ep_ref x)" by linarith
  then have "ep_ref x \<in># refs_of rs" by simp
  then show "\<exists>v \<in> set (map view rs). fst v = addr \<and> fst (snd v) = port"
    using x by (auto simp: ep_ref_def re_ref_def view_def)
next
  assume "\<exists>v \<in> set (map view rs). fst v = addr \<and> fst (snd v) = port"
  then obtain r where r: "r \<in> set rs" "re_addr r = addr" "re_port r = port" by (auto simp: view_def)
  then have "re_ref r \<in># refs_of rs" by simp
  then have "re_ref r \<in> ep_ref ` set eps" using ok by (auto simp: endpoints_ok_def)
  with r show "\<exists>x \<in> set eps. ep_addr (snd x) = addr \<and> ep_port (snd x) = port"
    by (force simp: ep_ref_def re_ref_def)
qed

lemma add_ref_None_iff:
  "endpoints_add_ref eps addr port = None \<longleftrightarrow> (\<forall>x \<in> set eps. \<not> (ep_addr (snd x) = addr \<and> ep_port (snd x) = port))"
proof (induction eps)
  case (Cons x eps)
  then show ?case by (cases x) (auto split: if_splits)
qed simp

text \<open>Whether a new endpoint could be stored.\<close>

definition can_store :: "nat option \<Rightarrow> string \<Rightarrow> string \<Rightarrow> bool" where
  "can_store new_ep addr port \<longleftrightarrow> new_ep \<noteq> None \<and> length addr < AVS_ADDRSTRLEN \<and> length port < PORT_STRLEN"

lemma add_ref_total:
  assumes ok: "endpoints_ok (rc_endpoints c) (refs_of rs)" and size: "length rs < 65535"
    and new: "\<And>p. new_ep = Some p \<Longrightarrow> p \<notin> fst ` set (rc_endpoints c)"
  shows "if can_store new_ep addr port \<or> (\<exists>v \<in> set (map view rs). fst v = addr \<and> fst (snd v) = port)
    then \<exists>p eps. cache_endpoint_add_ref c new_ep addr port = (c\<lparr>rc_endpoints := eps\<rparr>, Some p)
      \<and> endpoints_ok eps (refs_of rs + {#(p, addr, port)#}) \<and> (p \<in> fst ` set (rc_endpoints c) \<or> new_ep = Some p)
    else cache_endpoint_add_ref c new_ep addr port = (c, None)"
proof -
  obtain eps b where c: "c = \<lparr>rc_endpoints = eps, rc_buffer = b\<rparr>" by (cases c)
  have ok': "endpoints_ok eps (refs_of rs)" using ok by (simp add: c)
  note add = endpoints_ok_add [where b = b and addr = addr and port = port and new_ep = new_ep, OF ok']
  note known = ep_known_iff [OF ok', of addr port]
  show ?thesis
  proof (cases "can_store new_ep addr port \<or> (\<exists>v \<in> set (map view rs). fst v = addr \<and> fst (snd v) = port)")
    case True
    have "snd (cache_endpoint_add_ref c new_ep addr port) \<noteq> None"
    proof (cases "endpoints_add_ref eps addr port")
      case (Some x)
      then show ?thesis by (cases x) (simp add: cache_endpoint_add_ref_def c)
    next
      case None
      then have "\<not> (\<exists>x \<in> set eps. ep_addr (snd x) = addr \<and> ep_port (snd x) = port)"
        by (simp only: add_ref_None_iff) blast
      with True known have "can_store new_ep addr port" by blast
      with None show ?thesis by (auto simp: cache_endpoint_add_ref_def c can_store_def)
    qed
    with True add new size c show ?thesis by (auto split: prod.splits option.splits)
  next
    case False
    then have "endpoints_add_ref eps addr port = None" using known by (intro add_ref_none) blast
    with False show ?thesis by (cases new_ep) (auto simp: cache_endpoint_add_ref_def c can_store_def)
  qed
qed

lemma cache_add_ok:
  assumes inv: "cache_inv c rs" and h: "msg_holds msg hdr tok xs payload"
    and m: "m = msg_bytes hdr tok xs payload" "length m \<le> 65535"
    and t: "monotonic_add now lifetime = Some t" "i64 (dur_seconds t)" "- (2 ^ 31) \<le> dur_nanoseconds t" "dur_nanoseconds t < 2 ^ 31"
    and new: "\<And>p. new_ep = Some p \<Longrightarrow> p \<notin> fst ` set (rc_endpoints c) \<and> p < 2 ^ 64"
    and old: "\<And>p. p \<in> fst ` set (rc_endpoints c) \<Longrightarrow> p < 2 ^ 64"
  shows "\<exists>c' rs'. response_cache_add (Some c) new_ep now lifetime addr port msg
      = Some (Some c', snd (cache_add_spec (buf_capacity (rc_buffer c)) (can_store new_ep addr port) now t addr port m (map view rs)))
    \<and> cache_inv c' rs' \<and> map view rs' = fst (cache_add_spec (buf_capacity (rc_buffer c)) (can_store new_ep addr port) now t addr port m (map view rs))
    \<and> buf_capacity (rc_buffer c') = buf_capacity (rc_buffer c)"
proof -
  let ?cap = "buf_capacity (rc_buffer c)" and ?can = "can_store new_ep addr port"
  have size: "udp_msg_size msg = length m" using msg_holds_size [OF h] m(1) by simp
  have req: "response_cache_overhead msg + udp_msg_size msg = packet_space m"
    by (simp add: response_cache_overhead_def packet_space_def size)
  have id: "header_get_id (msg_header msg) = packet_id m"
    using h by (cases "message_id hdr")
      (simp add: msg_holds_def packet_id_def m(1) msg_bytes_def header_bytes_def header_get_id_def)
  show ?thesis
  proof (cases "?cap < packet_space m")
    case True
    with inv show ?thesis
      by (intro exI [of _ c] exI [of _ rs]) (simp add: response_cache_add_def req cache_add_spec_def)
  next
    case False
    let ?rs = "dropWhile (re_expired now) rs"
    from drop_expired_ok [OF inv, of now] obtain c1 where c1: "cache_drop_expired c now = Some c1" "cache_inv c1 ?rs"
      "buf_capacity (rc_buffer c1) = ?cap" "fst ` set (rc_endpoints c1) \<subseteq> fst ` set (rc_endpoints c)" by blast
    note i1 = c1(2) [unfolded cache_inv_def]
    have vs: "dropWhile (cached_expired now) (map view rs) = map view ?rs" by (simp add: view_dropWhile)
    show ?thesis
    proof (cases "\<exists>v \<in> set (map view ?rs). cached_matches addr port (packet_id m) v")
      case True
      then obtain rs1 r rs2 where "?rs = rs1 @ r # rs2" "\<forall>x \<in> set rs1. \<not> re_matches addr port (packet_id m) x"
        "re_matches addr port (packet_id m) r" by (rule first_match)
      from find_entry_some [OF _ _ this] i1 have "\<exists>e. find_entry c1 addr port (packet_id m) = Some (Some e)" by blast
      with False True c1 vs req id show ?thesis
        by (intro exI [of _ c1] exI [of _ ?rs]) (auto simp: response_cache_add_def cache_add_spec_def Let_def)
    next
      case nomatch: False
      then have none: "find_entry c1 addr port (packet_id m) = Some None" using find_entry_none i1 by blast
      have len: "length ?rs < 65535" using buffer_holds_length [of "rc_buffer c1" ?rs] i1 by simp
      have new1: "\<And>p. new_ep = Some p \<Longrightarrow> p \<notin> fst ` set (rc_endpoints c1)" using new c1(4) by blast
      have e1: "endpoints_ok (rc_endpoints c1) (refs_of ?rs)" using i1 by blast
      note add = add_ref_total [where new_ep = new_ep and addr = addr and port = port, OF e1 len new1]
      show ?thesis
      proof (cases "?can \<or> (\<exists>v \<in> set (map view ?rs). fst v = addr \<and> fst (snd v) = port)")
        case False
        then have "cache_endpoint_add_ref c1 new_ep addr port = (c1, None)" using add by (simp only: if_False)
        moreover have "\<not> ?can" "\<forall>v \<in> set (map view ?rs). \<not> (fst v = addr \<and> fst (snd v) = port)" using False by blast+
        ultimately show ?thesis
          using \<open>\<not> ?cap < packet_space m\<close> nomatch none c1 vs req id
          by (intro exI [of _ c1] exI [of _ ?rs]) (simp add: response_cache_add_def cache_add_spec_def Let_def)
      next
        case True
        with add obtain p eps where p: "cache_endpoint_add_ref c1 new_ep addr port = (c1\<lparr>rc_endpoints := eps\<rparr>, Some p)"
          "endpoints_ok eps (refs_of ?rs + {#(p, addr, port)#})" "p \<in> fst ` set (rc_endpoints c1) \<or> new_ep = Some p"
          by (auto simp only: if_True)
        define c2 where "c2 = c1\<lparr>rc_endpoints := eps\<rparr>"
        have p64: "p < 2 ^ 64" using p(3) new old c1(4) by blast
        have "buffer_holds (rc_buffer c2) ?rs" "packet_space m \<le> buf_capacity (rc_buffer c2)"
          "endpoints_ok (rc_endpoints c2) (refs_of ?rs + {#(p, addr, port)#})"
          using i1 False c1(3) p(2) by (simp_all add: c2_def)
        from free_bytes_ok [OF this(1,3,2)] obtain c3 where c3: "cache_free_bytes c2 (packet_space m) = Some c3"
          "buffer_holds (rc_buffer c3) (make_room_for ?cap (packet_space m) ?rs)"
          "endpoints_ok (rc_endpoints c3) (refs_of (make_room_for ?cap (packet_space m) ?rs) + {#(p, addr, port)#})"
          "buf_capacity (rc_buffer c3) = ?cap" using c1(3) by (auto simp: c2_def)
        define r where "r = \<lparr>re_ep = p, re_addr = addr, re_port = port, re_expiration = t, re_packet = m\<rparr>"
        have r: "r = \<lparr>re_ep = p, re_addr = addr, re_port = port, re_expiration = t, re_packet = msg_bytes hdr tok xs payload\<rparr>"
          by (simp add: r_def m(1))
        have "4 \<le> length m" by (simp add: m(1) msg_bytes_def header_bytes_def)
        then have ok: "response_ok r" using t m(2) p64 by (simp add: response_ok_def r_def)
        have "length (enc_responses (make_room_for ?cap (packet_space m) ?rs)) + length (enc_response r) \<le> buf_capacity (rc_buffer c3)"
          using make_room_fits [of "packet_space m" ?cap ?rs] False c3(4) by (simp add: view_simps(1) r_def)
        from put_entry_ok [OF c3(2) h r ok this] obtain b' where b': "cache_put_entry c3 t p msg = Some (c3\<lparr>rc_buffer := b'\<rparr>)"
          "buffer_holds b' (make_room_for ?cap (packet_space m) ?rs @ [r])" "buf_capacity b' = ?cap" using c3(4) by auto
        have "cache_inv (c3\<lparr>rc_buffer := b'\<rparr>) (make_room_for ?cap (packet_space m) ?rs @ [r])"
          using b' c3(3) inv by (simp add: cache_inv_def re_ref_def r_def)
        moreover have "map view (make_room_for ?cap (packet_space m) ?rs @ [r])
            = forget_oldest ?cap (packet_space m) (map view ?rs) @ [(addr, port, t, m)]"
          by (simp add: view_make_room) (simp add: view_def r_def)
        moreover have "response_cache_add (Some c) new_ep now lifetime addr port msg = Some (Some (c3\<lparr>rc_buffer := b'\<rparr>), 0)"
          using False c1(1) none p(1) c3(1) t(1) b'(1) req id by (simp add: response_cache_add_def Let_def c2_def)
        moreover have "\<not> (\<not> ?can \<and> (\<forall>v \<in> set (map view ?rs). \<not> (fst v = addr \<and> fst (snd v) = port)))"
          using True by blast
        ultimately show ?thesis
          using False nomatch vs b'(3)
          by (intro exI [of _ "c3\<lparr>rc_buffer := b'\<rparr>"] exI [of _ "make_room_for ?cap (packet_space m) ?rs @ [r]"])
            (simp only: cache_add_spec_def Let_def if_False fst_conv snd_conv simp_thms, simp)
      qed
    qed
  qed
qed

lemma endpoint_pointers:
  assumes "cache_inv c rs" and "p \<in> fst ` set (rc_endpoints c)"
  shows "p < 2 ^ 64"
proof -
  from assms(2) obtain x where x: "x \<in> set (rc_endpoints c)" "fst x = p" by auto
  have "endpoints_ok (rc_endpoints c) (refs_of rs)" using assms(1) by (simp add: cache_inv_def)
  from endpoints_ok_count [OF this x(1)] have "0 < count (refs_of rs) (ep_ref x)" by linarith
  then have "ep_ref x \<in># refs_of rs" by simp
  then obtain r where "r \<in> set rs" "re_ep r = p" using x by (auto simp: ep_ref_def re_ref_def)
  moreover have "list_all response_ok rs" using assms(1) by (simp add: cache_inv_def buffer_holds_def)
  ultimately show ?thesis by (auto simp: list_all_iff response_ok_def)
qed

text \<open>Looking up after the expired responses at the front have been dropped.\<close>

lemma cache_get_none:
  assumes inv: "cache_inv c rs" and none: "\<not> (\<exists>v \<in> set (map view (dropWhile (re_expired now) rs)). cached_matches addr port i v)"
  shows "\<exists>c'. response_cache_get (Some c) now addr port i out = Some (Some c', AVS_ENOENT, out)
    \<and> cache_inv c' (dropWhile (re_expired now) rs) \<and> buf_capacity (rc_buffer c') = buf_capacity (rc_buffer c)"
proof -
  from drop_expired_ok [OF inv, of now] obtain c1 where c1: "cache_drop_expired c now = Some c1"
    "cache_inv c1 (dropWhile (re_expired now) rs)" "buf_capacity (rc_buffer c1) = buf_capacity (rc_buffer c)" by blast
  have "find_entry c1 addr port i = Some None"
    using find_entry_none [OF _ _ none] c1(2) by (simp add: cache_inv_def)
  with c1 show ?thesis by (simp add: response_cache_get_def)
qed

lemma cache_get_found:
  assumes inv: "cache_inv c rs" and k: "dropWhile (re_expired now) rs = rs1 @ r # rs2"
    and first: "\<forall>x \<in> set rs1. \<not> re_matches addr port i x" "re_matches addr port i r"
  shows "\<exists>c' rest. response_cache_get (Some c) now addr port i out =
       (if re_expired now r then None
        else do { (msg, err) \<leftarrow> udp_msg_parse (cr_msg out) (re_packet r @ rest) (length (re_packet r));
                  Some (Some c', err, \<lparr>cr_msg = msg, cr_packet = re_packet r @ rest, cr_packet_size = length (re_packet r)\<rparr>) })
    \<and> cache_inv c' (rs1 @ r # rs2) \<and> buf_capacity (rc_buffer c') = buf_capacity (rc_buffer c)"
proof -
  from drop_expired_ok [OF inv, of now] obtain c1 where c1: "cache_drop_expired c now = Some c1"
    "cache_inv c1 (rs1 @ r # rs2)" "buf_capacity (rc_buffer c1) = buf_capacity (rc_buffer c)" unfolding k by blast
  let ?p = "buf_begin (rc_buffer c1) + length (enc_responses rs1)"
  have b: "buffer_holds (rc_buffer c1) (rs1 @ r # rs2)" using c1(2) by (simp add: cache_inv_def)
  note e = entry_at [OF b refl]
  have find: "find_entry c1 addr port i = Some (Some ?p)"
    using find_entry_some [OF b _ refl first] c1(2) by (simp add: cache_inv_def)
  have exp: "entry_expired c1 ?p now = Some (re_expired now r)" using e(2) by (simp add: entry_expired_def re_expired_def)
  define rest where "rest = drop (length (re_packet r)) (drop (?p + 26) (buf_data (rc_buffer c1)))"
  have packet: "drop (?p + 26) (buf_data (rc_buffer c1)) = re_packet r @ rest"
    using e(8) append_take_drop_id [of "length (re_packet r)" "drop (?p + 26) (buf_data (rc_buffer c1))"]
    unfolding rest_def by simp
  show ?thesis
    using c1(2,3)
    by (intro exI [of _ c1] exI [of _ rest])
      (simp add: response_cache_get_def c1(1) find exp e(3) packet [unfolded add.assoc] add.assoc c_assert_def Let_def)
qed

section \<open>Properties\<close>

text \<open>A response that was just added is found by its key until it expires.\<close>

lemma added_is_found:
  assumes rs: "map view rs = vs @ [(addr, port, t, m)]" and fresh: "\<not> (\<exists>v \<in> set vs. cached_matches addr port (packet_id m) v)"
    and alive: "\<not> monotonic_before t now"
  obtains rs1 r where "dropWhile (re_expired now) rs = rs1 @ r # []" "\<forall>x \<in> set rs1. \<not> re_matches addr port (packet_id m) x"
    "re_matches addr port (packet_id m) r" "\<not> re_expired now r" "re_packet r = m"
proof -
  from rs obtain rs0 r where r: "rs = rs0 @ [r]" "map view rs0 = vs" "view r = (addr, port, t, m)"
    by (auto simp: map_eq_append_conv)
  have nexp: "\<not> re_expired now r" using alive r(3) by (simp add: view_simps cached_expired_def)
  have "dropWhile (re_expired now) rs = dropWhile (re_expired now) rs0 @ [r]"
  proof (cases "\<forall>x \<in> set rs0. re_expired now x")
    case True
    then have "dropWhile (re_expired now) rs0 = []" by (simp add: dropWhile_eq_Nil_conv)
    with True nexp r(1) show ?thesis by (simp add: dropWhile_append2)
  next
    case False
    then obtain x where "x \<in> set rs0" "\<not> re_expired now x" by blast
    then show ?thesis unfolding r(1) by (rule dropWhile_append1)
  qed
  moreover have "\<forall>x \<in> set rs0. \<not> re_matches addr port (packet_id m) x"
    using fresh r(2) by (auto simp: view_simps)
  then have "\<forall>x \<in> set (dropWhile (re_expired now) rs0). \<not> re_matches addr port (packet_id m) x"
    by (auto dest: set_dropWhileD)
  moreover have "re_matches addr port (packet_id m) r" "re_packet r = m"
    using r(3) by (simp_all add: view_simps cached_matches_def) (simp add: view_def)
  ultimately show thesis using nexp that by blast
qed

text \<open>The times of which a sum is within the ranges that an entry stores.\<close>

lemma expiration_range:
  assumes "dur_ok now" "dur_ok lifetime"
  obtains t where "monotonic_add now lifetime = Some t" "i64 (dur_seconds t)" "- (2 ^ 31) \<le> dur_nanoseconds t"
    "dur_nanoseconds t < 2 ^ 31"
proof -
  have "dur_ok (of_ns n)" if "i64 (n div NS_IN_S)" for n using that by (rule of_ns_ok)
  then have "i64 (dur_seconds (of_ns n)) \<and> - (2 ^ 31) \<le> dur_nanoseconds (of_ns n) \<and> dur_nanoseconds (of_ns n) < 2 ^ 31"
    if "i64 (n div NS_IN_S)" for n
    using that by (fastforce simp: dur_ok_def duration_valid_def)
  then show thesis
    using duration_add_exact [OF assms] that
    by (auto simp: monotonic_add_def AVS_TIME_DURATION_INVALID_def split: if_splits)
qed

lemma cache_add_represents:
  assumes "cache_represents c vs" and "msg_holds msg hdr tok xs payload" and "length (msg_bytes hdr tok xs payload) \<le> 65535"
    and "dur_ok now" and "dur_ok lifetime"
    and "\<And>p. new_ep = Some p \<Longrightarrow> p \<notin> fst ` set (rc_endpoints c) \<and> p < 2 ^ 64"
  shows "\<exists>c' t. monotonic_add now lifetime = Some t
    \<and> response_cache_add (Some c) new_ep now lifetime addr port msg
      = Some (Some c', snd (cache_add_spec (buf_capacity (rc_buffer c)) (can_store new_ep addr port) now t addr port
                             (msg_bytes hdr tok xs payload) vs))
    \<and> cache_represents c' (fst (cache_add_spec (buf_capacity (rc_buffer c)) (can_store new_ep addr port) now t addr port
                             (msg_bytes hdr tok xs payload) vs))"
proof -
  from assms(1) obtain rs where rs: "cache_inv c rs" "map view rs = vs" by (auto simp: cache_represents_def)
  from expiration_range [OF assms(4,5)] obtain t where t: "monotonic_add now lifetime = Some t" "i64 (dur_seconds t)"
    "- (2 ^ 31) \<le> dur_nanoseconds t" "dur_nanoseconds t < 2 ^ 31" by blast
  from cache_add_ok [where new_ep = new_ep and addr = addr and port = port,
      OF rs(1) assms(2) refl assms(3) t assms(6) endpoint_pointers [OF rs(1)]] rs(2) t(1)
  show ?thesis unfolding cache_represents_def by blast
qed

text \<open>C19: Adding a response to the cache implements the queue that its documentation describes: a
  message too large for the cache is refused; otherwise responses that have expired are dropped from
  the front, a message whose endpoint and identifier are still in the queue is refused as a
  duplicate, and else the oldest responses are given up until the new one fits, which is put at the
  end. The entries in the byte queue, their alignment, and the reference counts of the endpoints
  they share stay consistent, and no read or write leaves the buffer.\<close>

theorem cache_add_refines_queue:
  assumes "cache_represents c vs" and "msg_holds msg hdr tok xs payload" and "length (msg_bytes hdr tok xs payload) \<le> 65535"
    and "dur_ok now" and "dur_ok lifetime"
    and "\<And>p. new_ep = Some p \<Longrightarrow> p \<notin> fst ` set (rc_endpoints c) \<and> p < 2 ^ 64"
  shows "\<exists>c' t. monotonic_add now lifetime = Some t
    \<and> response_cache_add (Some c) new_ep now lifetime addr port msg
      = Some (Some c', snd (cache_add_spec (buf_capacity (rc_buffer c)) (can_store new_ep addr port) now t addr port
                             (msg_bytes hdr tok xs payload) vs))
    \<and> cache_represents c' (fst (cache_add_spec (buf_capacity (rc_buffer c)) (can_store new_ep addr port) now t addr port
                             (msg_bytes hdr tok xs payload) vs))"
  using assms by (rule cache_add_represents)

definition sample_cache :: response_cache where
  "sample_cache = \<lparr>rc_endpoints = [], rc_buffer = \<lparr>buf_capacity = 96, buf_begin = 0, buf_end = 0, buf_data = replicate 96 0\<rparr>\<rparr>"

lemma sample_cache_represents: "cache_represents sample_cache []"
  by (auto simp: cache_represents_def cache_inv_def sample_cache_def buffer_holds_def endpoints_ok_def buffer_rep_def)

theorem cache_add_witness:
  "\<exists>c'. response_cache_add (Some sample_cache) (Some 4096) \<lparr>dur_seconds = 100, dur_nanoseconds = 0\<rparr>
      \<lparr>dur_seconds = 247, dur_nanoseconds = 0\<rparr> ''10.0.0.1'' ''5683'' sample_msg = Some (Some c', 0)
    \<and> cache_represents c' [(''10.0.0.1'', ''5683'', \<lparr>dur_seconds = 347, dur_nanoseconds = 0\<rparr>,
        [0x42, 2, 0x12, 0x34, 1, 2, 0xB1, 65, 0xFF, 7, 8])]"
proof -
  have ok: "dur_ok \<lparr>dur_seconds = 100, dur_nanoseconds = 0\<rparr>" "dur_ok \<lparr>dur_seconds = 247, dur_nanoseconds = 0\<rparr>"
    by (simp_all add: dur_ok_def duration_valid_def i64_def)
  have t: "monotonic_add \<lparr>dur_seconds = 100, dur_nanoseconds = 0\<rparr> \<lparr>dur_seconds = 247, dur_nanoseconds = 0\<rparr>
      = Some \<lparr>dur_seconds = 347, dur_nanoseconds = 0\<rparr>"
    using duration_add_exact [OF ok] by (simp add: monotonic_add_def i64_def ns_of_def of_ns_def)
  have spec: "cache_add_spec 96 True \<lparr>dur_seconds = 100, dur_nanoseconds = 0\<rparr> \<lparr>dur_seconds = 347, dur_nanoseconds = 0\<rparr>
      ''10.0.0.1'' ''5683'' [0x42, 2, 0x12, 0x34, 1, 2, 0xB1, 65, 0xFF, 7, 8] []
    = ([(''10.0.0.1'', ''5683'', \<lparr>dur_seconds = 347, dur_nanoseconds = 0\<rparr>,
        [0x42, 2, 0x12, 0x34, 1, 2, 0xB1, 65, 0xFF, 7, 8])], 0)"
    by (simp add: cache_add_spec_def packet_space_def padding_bytes_after_msg_def)
  have "can_store (Some 4096) ''10.0.0.1'' ''5683''" "buf_capacity (rc_buffer sample_cache) = 96"
    "rc_endpoints sample_cache = []" by (simp_all add: can_store_def sample_cache_def)
  with cache_add_refines_queue [OF sample_cache_represents sample_msg_holds _ ok, of "Some 4096" "''10.0.0.1''" "''5683''"]
  show ?thesis by (simp add: t sample_bytes spec)
qed

lemma added_response_found:
  assumes "cache_represents c vs" and "msg_holds msg hdr tok xs payload" and "msg_ok hdr tok xs payload"
    and "length (msg_bytes hdr tok xs payload) \<le> 65535" and "dur_ok now" and "dur_ok lifetime"
    and "\<And>p. new_ep = Some p \<Longrightarrow> p \<notin> fst ` set (rc_endpoints c) \<and> p < 2 ^ 64"
    and "response_cache_add (Some c) new_ep now lifetime addr port msg = Some (Some c', 0)"
    and "monotonic_add now lifetime = Some t" and "\<not> monotonic_before t later"
    and "length (token_bytes (msg_token (cr_msg out))) = 8"
  shows "\<exists>c'' response. response_cache_get (Some c') later addr port (header_get_id hdr) out = Some (Some c'', AVS_OK, response)
    \<and> msg_is (cr_msg response) hdr tok xs payload \<and> cr_packet_size response = length (msg_bytes hdr tok xs payload)"
proof -
  let ?m = "msg_bytes hdr tok xs payload"
  have id: "header_get_id hdr = packet_id ?m"
    by (cases "message_id hdr") (simp add: packet_id_def msg_bytes_def header_bytes_def header_get_id_def)
  from assms(1) obtain rs where rs: "cache_inv c rs" "map view rs = vs" by (auto simp: cache_represents_def)
  from expiration_range [OF assms(5,6)] assms(9) have t: "i64 (dur_seconds t)" "- (2 ^ 31) \<le> dur_nanoseconds t" "dur_nanoseconds t < 2 ^ 31"
    by auto
  define spec where "spec = cache_add_spec (buf_capacity (rc_buffer c)) (can_store new_ep addr port) now t addr port ?m vs"
  from cache_add_ok [where new_ep = new_ep and addr = addr and port = port,
      OF rs(1) assms(2) refl assms(4,9) t assms(7) endpoint_pointers [OF rs(1)]] rs(2) assms(8)
  obtain rs' where rs': "cache_inv c' rs'" "map view rs' = fst spec" "snd spec = 0" unfolding spec_def by auto
  obtain vs1 where vs1: "fst spec = vs1 @ [(addr, port, t, ?m)]" "\<not> (\<exists>v \<in> set vs1. cached_matches addr port (packet_id ?m) v)"
  proof -
    let ?vs = "dropWhile (cached_expired now) vs"
    have spec0: "spec = (forget_oldest (buf_capacity (rc_buffer c)) (packet_space ?m) ?vs @ [(addr, port, t, ?m)], 0)"
      "\<not> (\<exists>v \<in> set ?vs. cached_matches addr port (packet_id ?m) v)"
      using rs'(3) by (auto simp: spec_def cache_add_spec_def Let_def split: if_splits)
    have "set (forget_oldest cap n us) \<subseteq> set us" for cap n us by (induction us) auto
    with spec0(2) have "\<not> (\<exists>v \<in> set (forget_oldest (buf_capacity (rc_buffer c)) (packet_space ?m) ?vs).
      cached_matches addr port (packet_id ?m) v)" by blast
    with spec0(1) show thesis by (intro that) auto
  qed
  from added_is_found [OF rs'(2) [unfolded vs1(1)] vs1(2) assms(10)] obtain rs1 r where
    k: "dropWhile (re_expired later) rs' = rs1 @ r # []" "\<forall>x \<in> set rs1. \<not> re_matches addr port (packet_id ?m) x"
    "re_matches addr port (packet_id ?m) r" "\<not> re_expired later r" "re_packet r = ?m" .
  from cache_get_found [OF rs'(1) k(1,2,3), of out] k(4,5) obtain c'' rest where
    g: "response_cache_get (Some c') later addr port (packet_id ?m) out =
      do { (msg, err) \<leftarrow> udp_msg_parse (cr_msg out) (?m @ rest) (length ?m);
           Some (Some c'', err, \<lparr>cr_msg = msg, cr_packet = ?m @ rest, cr_packet_size = length ?m\<rparr>) }" by auto
  from udp_msg_parse_complete [OF assms(3) refl refl assms(11)] obtain msg' where
    "udp_msg_parse (cr_msg out) (?m @ rest) (length ?m) = Some (msg', AVS_OK)" "msg_is msg' hdr tok xs payload" by blast
  with g show ?thesis unfolding id by simp
qed

text \<open>A retransmitted request is answered from the cache: after a response has been added, a lookup
  with its endpoint and message identifier that comes before it expires finds it, however many
  responses with other keys the cache holds and whichever of them have expired, and parses it to a
  message with the same header, token, options and payload.\<close>

theorem cache_add_then_get:
  assumes "cache_represents c vs" and "msg_holds msg hdr tok xs payload" and "msg_ok hdr tok xs payload"
    and "length (msg_bytes hdr tok xs payload) \<le> 65535" and "dur_ok now" and "dur_ok lifetime"
    and "\<And>p. new_ep = Some p \<Longrightarrow> p \<notin> fst ` set (rc_endpoints c) \<and> p < 2 ^ 64"
    and "response_cache_add (Some c) new_ep now lifetime addr port msg = Some (Some c', 0)"
    and "monotonic_add now lifetime = Some t" and "\<not> monotonic_before t later"
    and "length (token_bytes (msg_token (cr_msg out))) = 8"
  shows "\<exists>c'' response. response_cache_get (Some c') later addr port (header_get_id hdr) out = Some (Some c'', AVS_OK, response)
    \<and> msg_is (cr_msg response) hdr tok xs payload \<and> cr_packet_size response = length (msg_bytes hdr tok xs payload)"
  using assms by (rule added_response_found)

lemma sample_times:
  "dur_ok \<lparr>dur_seconds = 100, dur_nanoseconds = 0\<rparr>" "dur_ok \<lparr>dur_seconds = 247, dur_nanoseconds = 0\<rparr>"
  "monotonic_add \<lparr>dur_seconds = 100, dur_nanoseconds = 0\<rparr> \<lparr>dur_seconds = 247, dur_nanoseconds = 0\<rparr>
      = Some \<lparr>dur_seconds = 347, dur_nanoseconds = 0\<rparr>"
proof -
  show ok: "dur_ok \<lparr>dur_seconds = 100, dur_nanoseconds = 0\<rparr>" "dur_ok \<lparr>dur_seconds = 247, dur_nanoseconds = 0\<rparr>"
    by (simp_all add: dur_ok_def duration_valid_def i64_def)
  show "monotonic_add \<lparr>dur_seconds = 100, dur_nanoseconds = 0\<rparr> \<lparr>dur_seconds = 247, dur_nanoseconds = 0\<rparr>
      = Some \<lparr>dur_seconds = 347, dur_nanoseconds = 0\<rparr>"
    using duration_add_exact [OF ok] by (simp add: monotonic_add_def i64_def ns_of_def of_ns_def)
qed

lemma sample_add:
  "\<exists>c' rs. response_cache_add (Some sample_cache) (Some 4096) \<lparr>dur_seconds = 100, dur_nanoseconds = 0\<rparr>
      \<lparr>dur_seconds = 247, dur_nanoseconds = 0\<rparr> ''10.0.0.1'' ''5683'' sample_msg = Some (Some c', 0)
    \<and> cache_inv c' rs \<and> map view rs = [(''10.0.0.1'', ''5683'', \<lparr>dur_seconds = 347, dur_nanoseconds = 0\<rparr>,
        [0x42, 2, 0x12, 0x34, 1, 2, 0xB1, 65, 0xFF, 7, 8])]
    \<and> buf_capacity (rc_buffer c') = 96"
proof -
  have spec: "cache_add_spec 96 True \<lparr>dur_seconds = 100, dur_nanoseconds = 0\<rparr> \<lparr>dur_seconds = 347, dur_nanoseconds = 0\<rparr>
      ''10.0.0.1'' ''5683'' [0x42, 2, 0x12, 0x34, 1, 2, 0xB1, 65, 0xFF, 7, 8] []
    = ([(''10.0.0.1'', ''5683'', \<lparr>dur_seconds = 347, dur_nanoseconds = 0\<rparr>,
        [0x42, 2, 0x12, 0x34, 1, 2, 0xB1, 65, 0xFF, 7, 8])], 0)"
    by (simp add: cache_add_spec_def packet_space_def padding_bytes_after_msg_def)
  have "can_store (Some 4096) ''10.0.0.1'' ''5683''" "buf_capacity (rc_buffer sample_cache) = 96"
    "rc_endpoints sample_cache = []" by (simp_all add: can_store_def sample_cache_def)
  moreover have "cache_inv sample_cache []"
    using sample_cache_represents by (auto simp: cache_represents_def)
  ultimately show ?thesis
    using cache_add_ok [where c = sample_cache and rs = "[]" and new_ep = "Some 4096" and addr = "''10.0.0.1''" and port = "''5683''",
        OF _ sample_msg_holds refl _ sample_times(3)]
    by (auto simp: sample_bytes spec i64_def)
qed

theorem cache_add_then_get_witness:
  "\<exists>c' c'' response. response_cache_add (Some sample_cache) (Some 4096) \<lparr>dur_seconds = 100, dur_nanoseconds = 0\<rparr>
      \<lparr>dur_seconds = 247, dur_nanoseconds = 0\<rparr> ''10.0.0.1'' ''5683'' sample_msg = Some (Some c', 0)
    \<and> response_cache_get (Some c') \<lparr>dur_seconds = 346, dur_nanoseconds = 5\<rparr> ''10.0.0.1'' ''5683'' 0x1234
        \<lparr>cr_msg = zero_msg, cr_packet = [], cr_packet_size = 0\<rparr> = Some (Some c'', AVS_OK, response)
    \<and> cr_packet_size response = 11"
proof -
  from sample_add obtain c' where add: "response_cache_add (Some sample_cache) (Some 4096) \<lparr>dur_seconds = 100, dur_nanoseconds = 0\<rparr>
      \<lparr>dur_seconds = 247, dur_nanoseconds = 0\<rparr> ''10.0.0.1'' ''5683'' sample_msg = Some (Some c', 0)" by blast
  have id: "header_get_id sample_hdr = 0x1234" by (simp add: header_get_id_def sample_hdr_def)
  have alive: "\<not> monotonic_before \<lparr>dur_seconds = 347, dur_nanoseconds = 0\<rparr> \<lparr>dur_seconds = 346, dur_nanoseconds = 5\<rparr>"
    by (simp add: monotonic_before_def duration_less_def)
  have len: "length (msg_bytes sample_hdr [1, 2] [(11, [65])] [7, 8]) \<le> 65535" by (simp add: sample_bytes)
  have fresh: "\<And>p. Some 4096 = Some p \<Longrightarrow> p \<notin> fst ` set (rc_endpoints sample_cache) \<and> p < 2 ^ 64"
    by (simp add: sample_cache_def)
  have out: "length (token_bytes (msg_token (cr_msg \<lparr>cr_msg = zero_msg, cr_packet = [], cr_packet_size = 0\<rparr>))) = 8"
    by (simp add: zero_msg_def)
  from cache_add_then_get [OF sample_cache_represents sample_msg_holds sample_ok len sample_times(1,2) fresh add sample_times(3) alive out]
  obtain c'' response where "response_cache_get (Some c') \<lparr>dur_seconds = 346, dur_nanoseconds = 5\<rparr> ''10.0.0.1'' ''5683'' (header_get_id sample_hdr)
        \<lparr>cr_msg = zero_msg, cr_packet = [], cr_packet_size = 0\<rparr> = Some (Some c'', AVS_OK, response)"
    "cr_packet_size response = length (msg_bytes sample_hdr [1, 2] [(11, [65])] [7, 8])" by blast
  moreover from this(2) have "cr_packet_size response = 11" by (simp add: sample_bytes)
  ultimately show ?thesis using add unfolding id by blast
qed

text \<open>C34: The cache relies on all responses having the same lifetime: its header calls it a priority
  queue sorted by expiration time, but entries are appended, and only expired ones at the front are
  dropped. When a response that expires early is stored behind one that expires late, as happens
  when contexts with different transmission parameters share a cache, the lookup of the expired one
  fails the assertion that it is not expired.\<close>

theorem cache_get_expired_asserts:
  assumes "cache_represents c vs" and "dropWhile (cached_expired now) vs = vs1 @ v # vs2"
    and "\<forall>x \<in> set vs1. \<not> cached_matches addr port i x" and "cached_matches addr port i v" and "cached_expired now v"
  shows "response_cache_get (Some c) now addr port i out = None"
proof -
  from assms(1) obtain rs where rs: "cache_inv c rs" "map view rs = vs" by (auto simp: cache_represents_def)
  have "map view (dropWhile (re_expired now) rs) = vs1 @ v # vs2" using rs(2) assms(2) by (simp add: view_dropWhile)
  then obtain rs1 r rs2 where k: "dropWhile (re_expired now) rs = rs1 @ r # rs2" "map view rs1 = vs1" "view r = v"
    by (auto simp: map_eq_append_conv)
  have "\<forall>x \<in> set rs1. \<not> re_matches addr port i x" "re_matches addr port i r" "re_expired now r"
    using assms(3-5) k(2,3) by (auto simp: view_simps)
  with cache_get_found [OF rs(1) k(1)] show ?thesis by auto
qed

definition sample_msg_2 :: udp_msg where
  "sample_msg_2 = sample_msg\<lparr>msg_header := sample_hdr\<lparr>message_id := (0x12, 0x35)\<rparr>\<rparr>"

theorem cache_get_expired_witness:
  "\<exists>c1 c2. response_cache_add (Some sample_cache) (Some 4096) \<lparr>dur_seconds = 100, dur_nanoseconds = 0\<rparr>
      \<lparr>dur_seconds = 247, dur_nanoseconds = 0\<rparr> ''10.0.0.1'' ''5683'' sample_msg = Some (Some c1, 0)
    \<and> response_cache_add (Some c1) None \<lparr>dur_seconds = 100, dur_nanoseconds = 0\<rparr>
      \<lparr>dur_seconds = 10, dur_nanoseconds = 0\<rparr> ''10.0.0.1'' ''5683'' sample_msg_2 = Some (Some c2, 0)
    \<and> response_cache_get (Some c2) \<lparr>dur_seconds = 200, dur_nanoseconds = 0\<rparr> ''10.0.0.1'' ''5683'' 0x1235
        \<lparr>cr_msg = zero_msg, cr_packet = [], cr_packet_size = 0\<rparr> = None"
proof -
  let ?v1 = "(''10.0.0.1'', ''5683'', \<lparr>dur_seconds = 347, dur_nanoseconds = 0\<rparr>,
        [0x42, 2, 0x12, 0x34, 1, 2, 0xB1, 65, 0xFF, 7, 8])"
  let ?v2 = "(''10.0.0.1'', ''5683'', \<lparr>dur_seconds = 110, dur_nanoseconds = 0\<rparr>,
        [0x42, 2, 0x12, 0x35, 1, 2, 0xB1, 65, 0xFF, 7, 8])"
  let ?hdr = "sample_hdr\<lparr>message_id := (0x12, 0x35)\<rparr>"
  from sample_add obtain c1 rs where add: "response_cache_add (Some sample_cache) (Some 4096) \<lparr>dur_seconds = 100, dur_nanoseconds = 0\<rparr>
      \<lparr>dur_seconds = 247, dur_nanoseconds = 0\<rparr> ''10.0.0.1'' ''5683'' sample_msg = Some (Some c1, 0)"
    "cache_inv c1 rs" "map view rs = [?v1]" "buf_capacity (rc_buffer c1) = 96" by (elim exE conjE) (rule that; assumption)
  have "header_get_token_length ?hdr = header_get_token_length sample_hdr" by (simp add: header_get_token_length_def)
  then have holds: "msg_holds sample_msg_2 ?hdr [1, 2] [(11, [65])] [7, 8]"
    using sample_msg_holds by (simp add: msg_holds_def sample_msg_2_def)
  have bytes: "msg_bytes ?hdr [1, 2] [(11, [65])] [7, 8] = [0x42, 2, 0x12, 0x35, 1, 2, 0xB1, 65, 0xFF, 7, 8]"
    using sample_bytes by (simp add: msg_bytes_def header_bytes_def sample_hdr_def)
  have ok: "dur_ok \<lparr>dur_seconds = 10, dur_nanoseconds = 0\<rparr>" by (simp add: dur_ok_def duration_valid_def i64_def)
  have t: "monotonic_add \<lparr>dur_seconds = 100, dur_nanoseconds = 0\<rparr> \<lparr>dur_seconds = 10, dur_nanoseconds = 0\<rparr>
      = Some \<lparr>dur_seconds = 110, dur_nanoseconds = 0\<rparr>"
    using duration_add_exact [OF sample_times(1) ok] by (simp add: monotonic_add_def i64_def ns_of_def of_ns_def)
  have ids: "packet_id [0x42, 2, 0x12, 0x34, 1, 2, 0xB1, 65, 0xFF, 7, 8] = 0x1234"
    "packet_id [0x42, 2, 0x12, 0x35, 1, 2, 0xB1, 65, 0xFF, 7, 8] = 0x1235"
    by (simp_all add: packet_id_def header_get_id_def)
  have live: "\<not> cached_expired \<lparr>dur_seconds = 100, dur_nanoseconds = 0\<rparr> ?v1"
    "\<not> cached_expired \<lparr>dur_seconds = 200, dur_nanoseconds = 0\<rparr> ?v1" "cached_expired \<lparr>dur_seconds = 200, dur_nanoseconds = 0\<rparr> ?v2"
    by (simp_all add: cached_expired_def monotonic_before_def duration_less_def duration_valid_def)
  have spec: "cache_add_spec 96 (can_store None ''10.0.0.1'' ''5683'') \<lparr>dur_seconds = 100, dur_nanoseconds = 0\<rparr> \<lparr>dur_seconds = 110, dur_nanoseconds = 0\<rparr>
      ''10.0.0.1'' ''5683'' [0x42, 2, 0x12, 0x35, 1, 2, 0xB1, 65, 0xFF, 7, 8] [?v1] = ([?v1, ?v2], 0)"
    using live(1) ids by (simp add: cache_add_spec_def packet_space_def padding_bytes_after_msg_def cached_matches_def)
  from cache_add_ok [where new_ep = None and addr = "''10.0.0.1''" and port = "''5683''",
      OF add(2) holds refl _ t _ _ _ _ endpoint_pointers [OF add(2)]] add(3,4)
  obtain c2 rs2 where c2: "response_cache_add (Some c1) None \<lparr>dur_seconds = 100, dur_nanoseconds = 0\<rparr>
      \<lparr>dur_seconds = 10, dur_nanoseconds = 0\<rparr> ''10.0.0.1'' ''5683'' sample_msg_2 = Some (Some c2, 0)"
    "cache_inv c2 rs2" "map view rs2 = [?v1, ?v2]" by (auto simp: bytes spec i64_def)
  have "cache_represents c2 [?v1, ?v2]" using c2(2,3) by (auto simp: cache_represents_def)
  moreover have "dropWhile (cached_expired \<lparr>dur_seconds = 200, dur_nanoseconds = 0\<rparr>) [?v1, ?v2] = [?v1] @ ?v2 # []"
    using live(2) by simp
  moreover have "\<forall>x \<in> set [?v1]. \<not> cached_matches ''10.0.0.1'' ''5683'' 0x1235 x" "cached_matches ''10.0.0.1'' ''5683'' 0x1235 ?v2"
    using ids by (simp_all add: cached_matches_def)
  ultimately have "response_cache_get (Some c2) \<lparr>dur_seconds = 200, dur_nanoseconds = 0\<rparr> ''10.0.0.1'' ''5683'' 0x1235
        \<lparr>cr_msg = zero_msg, cr_packet = [], cr_packet_size = 0\<rparr> = None"
    using live(3) by (rule cache_get_expired_asserts)
  with add(1) c2(1) show ?thesis by blast
qed

end
