(* ===== verification/Avs_Sched.thy ===== *)
theory Avs_Sched
  imports Avs_Time "HOL-Library.Multiset"
begin

text \<open>
  The scheduler (\<open>avs_sched.c\<close>): a list of jobs ordered by the time they are due, the variables
  through which their owners manage them, and the loop that executes what is due. The model is that
  of a build without \<open>AVS_COMMONS_SCHED_THREAD_SAFE\<close> and with one scheduler. Creation of the object
  and log messages are left out.
\<close>

section \<open>State\<close>

text \<open>
  A callback with its data is a value of a type of its own; what it does is an argument of the
  operations that execute it. A job is known by its address.
\<close>

record 'c sched_job =
  job_handle_ptr :: "nat option"
  job_instant :: monotonic
  job_clb :: 'c

text \<open>
  Handles are variables of the owners of jobs. The last field is what they hold: the address of a
  job or \<open>NULL\<close>.
\<close>

record 'c sched =
  sched_jobs :: "(nat \<times> 'c sched_job) list"
  sched_shutting_down :: bool
  sched_handles :: "nat \<Rightarrow> nat option"

text \<open>Access through a pointer to a job: one that is not in the list is dangling.\<close>

definition sched_job_at :: "'c sched \<Rightarrow> nat \<Rightarrow> 'c sched_job option" where
  "sched_job_at s p = map_of (sched_jobs s) p"

definition set_handle :: "nat \<Rightarrow> nat option \<Rightarrow> 'c sched \<Rightarrow> 'c sched" where
  "set_handle h v s = s\<lparr>sched_handles := (sched_handles s)(h := v)\<rparr>"

text \<open>Taking the element with the given address off the list, as \<open>AVS_LIST_FIND_PTR\<close> and
  \<open>AVS_LIST_DETACH\<close> do.\<close>

fun list_detach :: "nat \<Rightarrow> (nat \<times> 'j) list \<Rightarrow> (nat \<times> 'j) list" where
  "list_detach p [] = []"
| "list_detach p ((q, j) # js) = (if q = p then js else (q, j) # list_detach p js)"

section \<open>Operations\<close>

definition sched_new :: "bool \<Rightarrow> (nat \<Rightarrow> nat option) \<Rightarrow> 'c sched option" where
  "sched_new calloc_ok handles =
     (if \<not> calloc_ok then None
      else Some \<lparr>sched_jobs = [], sched_shutting_down = False, sched_handles = handles\<rparr>)"

definition sched_time_of_next :: "'c sched \<Rightarrow> monotonic" where
  "sched_time_of_next s =
     (case sched_jobs s of (_, j) # _ \<Rightarrow> job_instant j | [] \<Rightarrow> AVS_TIME_DURATION_INVALID)"

definition sched_wait_until_next :: "'c sched \<Rightarrow> monotonic \<Rightarrow> int" where
  "sched_wait_until_next s deadline = - 1"

definition fetch_job :: "'c sched \<Rightarrow> monotonic \<Rightarrow> ('c sched \<times> (nat \<times> 'c sched_job) option) option" where
  "fetch_job s deadline =
     (case sched_jobs s of
        [] \<Rightarrow> Some (s, None)
      | (p, j) # js \<Rightarrow>
          if monotonic_before (job_instant j) deadline then
            (case job_handle_ptr j of
               None \<Rightarrow> Some (s\<lparr>sched_jobs := js\<rparr>, Some (p, j))
             | Some h \<Rightarrow> do {
                 c_assert (sched_handles s h = Some p);
                 Some (set_handle h None (s\<lparr>sched_jobs := js\<rparr>), Some (p, j\<lparr>job_handle_ptr := None\<rparr>)) })
          else Some (s, None))"

text \<open>
  Executing a callback may change the scheduler, for instance schedule further jobs, and the rest of
  the world. The time is read once, before the first job.
\<close>

partial_function (option) sched_run ::
  "('c \<Rightarrow> 'c sched \<times> 'w \<Rightarrow> ('c sched \<times> 'w) option) \<Rightarrow> monotonic \<Rightarrow> 'c sched \<times> 'w \<Rightarrow> ('c sched \<times> 'w) option" where
  "sched_run exec now sw = do {
     (s, job) \<leftarrow> fetch_job (fst sw) now;
     (case job of
        None \<Rightarrow> Some (s, snd sw)
      | Some (p, j) \<Rightarrow> do {
          sw \<leftarrow> exec (job_clb j) (s, snd sw);
          sched_run exec now sw }) }"

fun schedule_job :: "nat \<times> 'c sched_job \<Rightarrow> (nat \<times> 'c sched_job) list \<Rightarrow> (nat \<times> 'c sched_job) list" where
  "schedule_job job [] = [job]"
| "schedule_job job (k # js) =
     (if \<not> monotonic_before (job_instant (snd job)) (job_instant (snd k)) then k # schedule_job job js
      else job # k # js)"

text \<open>\<open>new_job\<close> is the address of the new job, \<open>None\<close> when memory is out.\<close>

definition sched_at_locked ::
  "'c sched \<Rightarrow> nat option \<Rightarrow> monotonic \<Rightarrow> 'c \<Rightarrow> nat option \<Rightarrow> ('c sched \<times> int) option" where
  "sched_at_locked s out_handle instant clb new_job = do {
     c_assert (monotonic_valid instant);
     if sched_shutting_down s then Some (s, - 1)
     else (case new_job of
         None \<Rightarrow> Some (s, - 1)
       | Some p \<Rightarrow> do {
           s \<leftarrow> (case out_handle of
               None \<Rightarrow> Some s
             | Some h \<Rightarrow> do {
                 s \<leftarrow> (case sched_handles s h of
                     None \<Rightarrow> Some s
                   | Some q \<Rightarrow> do {
                       _ \<leftarrow> sched_job_at s q;
                       Some (s\<lparr>sched_jobs := list_detach q (sched_jobs s)\<rparr>) });
                 Some (set_handle h (Some p) s) });
           Some (s\<lparr>sched_jobs := schedule_job
               (p, \<lparr>job_handle_ptr = out_handle, job_instant = instant, job_clb = clb\<rparr>) (sched_jobs s)\<rparr>, 0) }) }"

definition sched_at ::
  "'c sched \<Rightarrow> nat option \<Rightarrow> monotonic \<Rightarrow> 'c option \<Rightarrow> nat option \<Rightarrow> ('c sched \<times> int) option" where
  "sched_at s out_handle instant clb new_job =
     (case clb of
        None \<Rightarrow> Some (s, - 1)
      | Some clb \<Rightarrow>
          if \<not> monotonic_valid instant then Some (s, - 1)
          else sched_at_locked s out_handle instant clb new_job)"

definition sched_time :: "'c sched \<Rightarrow> nat option \<Rightarrow> monotonic option" where
  "sched_time s handle_ptr =
     (case Option.bind handle_ptr (sched_handles s) of
        None \<Rightarrow> Some AVS_TIME_DURATION_INVALID
      | Some p \<Rightarrow> do { j \<leftarrow> sched_job_at s p; Some (job_instant j) })"

text \<open>The job of a handle, which must be the handle that the job was scheduled with.\<close>

definition handle_job :: "'c sched \<Rightarrow> nat \<Rightarrow> (nat \<times> 'c sched_job) option option" where
  "handle_job s h =
     (case sched_handles s h of
        None \<Rightarrow> Some None
      | Some p \<Rightarrow> do {
          j \<leftarrow> sched_job_at s p;
          c_assert (job_handle_ptr j = Some h);
          Some (Some (p, j)) })"

definition sched_del :: "'c sched \<Rightarrow> nat option \<Rightarrow> 'c sched option" where
  "sched_del s handle_ptr =
     (case handle_ptr of
        None \<Rightarrow> Some s
      | Some h \<Rightarrow> do {
          job \<leftarrow> handle_job s h;
          (case job of
             None \<Rightarrow> Some s
           | Some (p, j) \<Rightarrow> do {
               hp \<leftarrow> job_handle_ptr j;
               c_assert (sched_handles s hp = Some p);
               let s = set_handle hp None s;
               Some (s\<lparr>sched_jobs := list_detach p (sched_jobs s)\<rparr>) }) })"

fun update_job :: "nat \<Rightarrow> ('j \<Rightarrow> 'j) \<Rightarrow> (nat \<times> 'j) list \<Rightarrow> (nat \<times> 'j) list" where
  "update_job p f [] = []"
| "update_job p f ((q, j) # js) = (if q = p then (q, f j) # js else (q, j) # update_job p f js)"

definition sched_detach :: "'c sched \<Rightarrow> nat option \<Rightarrow> 'c sched option" where
  "sched_detach s handle_ptr =
     (case handle_ptr of
        None \<Rightarrow> Some s
      | Some h \<Rightarrow> do {
          job \<leftarrow> handle_job s h;
          (case job of
             None \<Rightarrow> Some s
           | Some (p, j) \<Rightarrow> do {
               hp \<leftarrow> job_handle_ptr j;
               c_assert (sched_handles s hp = Some p);
               let s = set_handle hp None s;
               Some (s\<lparr>sched_jobs := update_job p (\<lambda>j. j\<lparr>job_handle_ptr := None\<rparr>) (sched_jobs s)\<rparr>) }) })"

fun leap_jobs :: "duration \<Rightarrow> (nat \<times> 'c sched_job) list \<Rightarrow> (nat \<times> 'c sched_job) list option" where
  "leap_jobs diff [] = Some []"
| "leap_jobs diff ((p, j) # js) = do {
     t \<leftarrow> monotonic_add (job_instant j) diff;
     js \<leftarrow> leap_jobs diff js;
     Some ((p, j\<lparr>job_instant := t\<rparr>) # js) }"

definition sched_leap_time :: "'c sched \<Rightarrow> duration \<Rightarrow> ('c sched \<times> int) option" where
  "sched_leap_time s diff =
     (if duration_valid diff then Some (s, - 1)
      else do {
        js \<leftarrow> leap_jobs diff (sched_jobs s);
        Some (s\<lparr>sched_jobs := js\<rparr>, 0) })"

definition resched_at :: "'c sched \<Rightarrow> nat option \<Rightarrow> monotonic \<Rightarrow> ('c sched \<times> int) option" where
  "resched_at s handle_ptr instant =
     (case handle_ptr of
        None \<Rightarrow> Some (s, - 1)
      | Some h \<Rightarrow>
          if \<not> monotonic_valid instant then Some (s, - 1)
          else do {
            job \<leftarrow> handle_job s h;
            (case job of
               None \<Rightarrow> Some (s, - 1)
             | Some (p, j) \<Rightarrow>
                 Some (s\<lparr>sched_jobs := schedule_job (p, j\<lparr>job_instant := instant\<rparr>) (list_detach p (sched_jobs s))\<rparr>, 0)) })"

fun clear_jobs :: "(nat \<times> 'c sched_job) list \<Rightarrow> (nat \<Rightarrow> nat option) \<Rightarrow> nat \<Rightarrow> nat option" where
  "clear_jobs [] handles = handles"
| "clear_jobs ((p, j) # js) handles =
     clear_jobs js (case job_handle_ptr j of None \<Rightarrow> handles | Some h \<Rightarrow> handles(h := None))"

text \<open>The scheduler is gone afterwards; what the handles hold remains.\<close>

definition sched_cleanup ::
  "('c \<Rightarrow> 'c sched \<times> 'w \<Rightarrow> ('c sched \<times> 'w) option) \<Rightarrow> monotonic \<Rightarrow> 'c sched \<times> 'w
   \<Rightarrow> ((nat \<Rightarrow> nat option) \<times> 'w) option" where
  "sched_cleanup exec now sw = do {
     (s, w) \<leftarrow> sched_run exec now ((fst sw)\<lparr>sched_shutting_down := True\<rparr>, snd sw);
     Some (clear_jobs (sched_jobs s) (sched_handles s), w) }"

section \<open>The agenda\<close>

text \<open>
  What the scheduler is for, without addresses: a list of times in nanoseconds, callbacks and the
  handles through which they are managed, in the order of execution. Jobs that are due at the same
  time are executed in the order in which they were scheduled.
\<close>

type_synonym 'c agenda = "(int \<times> 'c \<times> nat option) list"

abbreviation (input) due_time :: "int \<times> 'c \<times> nat option \<Rightarrow> int" where "due_time \<equiv> fst"
abbreviation (input) owner :: "int \<times> 'c \<times> nat option \<Rightarrow> nat option" where "owner x \<equiv> snd (snd x)"

definition agenda_put :: "int \<times> 'c \<times> nat option \<Rightarrow> 'c agenda \<Rightarrow> 'c agenda" where
  "agenda_put x xs = filter (\<lambda>y. due_time y \<le> due_time x) xs @ x # filter (\<lambda>y. due_time y > due_time x) xs"

definition agenda_drop :: "nat option \<Rightarrow> 'c agenda \<Rightarrow> 'c agenda" where
  "agenda_drop h xs = (if h = None then xs else filter (\<lambda>y. owner y \<noteq> h) xs)"

definition agenda_find :: "nat option \<Rightarrow> 'c agenda \<Rightarrow> (int \<times> 'c \<times> nat option) option" where
  "agenda_find h xs = (if h = None then None else find (\<lambda>y. owner y = h) xs)"

text \<open>The calls of the owners of jobs, with the address of the memory a new job gets.\<close>

datatype 'c sched_call = At "nat option" monotonic "'c option" "nat option" | Del "nat option"
  | Detach "nat option" | Resched "nat option" monotonic

primrec sched_do :: "'c sched_call \<Rightarrow> 'c sched \<Rightarrow> ('c sched \<times> int) option" where
  "sched_do (At h t clb new_job) s = sched_at s h t clb new_job"
| "sched_do (Del h) s = map_option (\<lambda>s. (s, 0)) (sched_del s h)"
| "sched_do (Detach h) s = map_option (\<lambda>s. (s, 0)) (sched_detach s h)"
| "sched_do (Resched h t) s = resched_at s h t"

primrec agenda_do :: "'c sched_call \<Rightarrow> bool \<Rightarrow> 'c agenda \<Rightarrow> 'c agenda \<times> int" where
  "agenda_do (At h t clb new_job) shutting_down xs =
     (if clb = None \<or> \<not> monotonic_valid t \<or> shutting_down \<or> new_job = None then (xs, - 1)
      else (agenda_put (ns_of t, the clb, h) (agenda_drop h xs), 0))"
| "agenda_do (Del h) shutting_down xs = (agenda_drop h xs, 0)"
| "agenda_do (Detach h) shutting_down xs =
     (map (\<lambda>y. if h \<noteq> None \<and> owner y = h then (fst y, fst (snd y), None) else y) xs, 0)"
| "agenda_do (Resched h t) shutting_down xs =
     (case agenda_find h xs of
        None \<Rightarrow> (xs, - 1)
      | Some y \<Rightarrow> if \<not> monotonic_valid t then (xs, - 1)
                  else (agenda_put (ns_of t, snd y) (agenda_drop h xs), 0))"

text \<open>New memory is not that of a job that is still scheduled.\<close>

primrec call_ok :: "'c sched_call \<Rightarrow> 'c sched \<Rightarrow> bool" where
  "call_ok (At h t clb new_job) s = (\<forall>p. new_job = Some p \<longrightarrow> p \<notin> fst ` set (sched_jobs s))"
| "call_ok (Del h) s = True"
| "call_ok (Detach h) s = True"
| "call_ok (Resched h t) s = True"

section \<open>Well-formed schedulers\<close>

definition job_entry :: "nat \<times> 'c sched_job \<Rightarrow> int \<times> 'c \<times> nat option" where
  "job_entry pj = (ns_of (job_instant (snd pj)), job_clb (snd pj), job_handle_ptr (snd pj))"

definition agenda :: "'c sched \<Rightarrow> 'c agenda" where
  "agenda s = map job_entry (sched_jobs s)"

definition jobs_ok :: "(nat \<times> 'c sched_job) list \<Rightarrow> bool" where
  "jobs_ok js \<longleftrightarrow> distinct (map fst js) \<and> (\<forall>x \<in> set js. duration_valid (job_instant (snd x)))
     \<and> sorted (map due_time (map job_entry js))"

text \<open>A handle points to a job exactly when the job knows the handle.\<close>

definition handles_ok :: "(nat \<Rightarrow> nat option) \<Rightarrow> (nat \<times> 'c sched_job) list \<Rightarrow> bool" where
  "handles_ok hs js \<longleftrightarrow> (\<forall>h p. hs h = Some p \<longleftrightarrow> (\<exists>j. (p, j) \<in> set js \<and> job_handle_ptr j = Some h))"

definition sched_ok :: "'c sched \<Rightarrow> bool" where
  "sched_ok s \<longleftrightarrow> jobs_ok (sched_jobs s) \<and> handles_ok (sched_handles s) (sched_jobs s)"

lemma job_entry_simps [simp]:
  "due_time (job_entry x) = ns_of (job_instant (snd x))" "owner (job_entry x) = job_handle_ptr (snd x)"
  "fst (snd (job_entry x)) = job_clb (snd x)"
  by (simp_all add: job_entry_def)

lemma before_iff: "duration_valid a \<Longrightarrow> duration_valid b \<Longrightarrow> monotonic_before a b \<longleftrightarrow> ns_of a < ns_of b"
  by (simp add: monotonic_before_def duration_less_iff)

lemma list_detach_filter: "distinct (map fst js) \<Longrightarrow> list_detach p js = filter (\<lambda>x. fst x \<noteq> p) js"
proof (induction p js rule: list_detach.induct)
  case (2 p q j js)
  then have "q \<notin> fst ` set js" by auto
  then have "filter (\<lambda>x. fst x \<noteq> q) js = js" by (auto simp: filter_id_conv)
  with 2 show ?case by auto
qed simp

lemma update_job_map: "distinct (map fst js) \<Longrightarrow> update_job p f js = map (\<lambda>x. if fst x = p then (p, f (snd x)) else x) js"
proof (induction p f js rule: update_job.induct)
  case (2 p f q j js)
  then have "map (\<lambda>x. if fst x = q then (q, f (snd x)) else x) js = js" by (intro map_idI) auto
  with 2 show ?case by auto
qed simp

lemma schedule_job_split:
  assumes "duration_valid (job_instant (snd x))" and "\<forall>y \<in> set js. duration_valid (job_instant (snd y))"
    and "sorted (map due_time (map job_entry js))"
  shows "schedule_job x js = filter (\<lambda>y. due_time (job_entry y) \<le> due_time (job_entry x)) js
    @ x # filter (\<lambda>y. due_time (job_entry y) > due_time (job_entry x)) js"
  using assms
proof (induction x js rule: schedule_job.induct)
  case (2 job k js)
  have b: "monotonic_before (job_instant (snd job)) (job_instant (snd k))
      \<longleftrightarrow> ns_of (job_instant (snd job)) < ns_of (job_instant (snd k))" using 2 by (simp add: before_iff)
  show ?case
  proof (cases "ns_of (job_instant (snd job)) < ns_of (job_instant (snd k))")
    case True
    have all: "\<forall>y \<in> set js. ns_of (job_instant (snd k)) \<le> ns_of (job_instant (snd y))" using 2 by auto
    then have "filter (\<lambda>y. ns_of (job_instant (snd y)) \<le> ns_of (job_instant (snd job))) js = []"
      "filter (\<lambda>y. ns_of (job_instant (snd job)) < ns_of (job_instant (snd y))) js = js"
      using True by (fastforce simp: filter_empty_conv filter_id_conv)+
    with True b show ?thesis by simp
  next
    case False
    with 2 b show ?thesis by simp
  qed
qed simp

lemma jobs_ok_schedule:
  assumes ok: "jobs_ok js" and fresh: "fst x \<notin> fst ` set js" and valid: "duration_valid (job_instant (snd x))"
  shows "jobs_ok (schedule_job x js)" "set (schedule_job x js) = insert x (set js)"
    "map job_entry (schedule_job x js) = agenda_put (job_entry x) (map job_entry js)"
proof -
  have eq: "schedule_job x js = filter (\<lambda>y. due_time (job_entry y) \<le> due_time (job_entry x)) js
    @ x # filter (\<lambda>y. due_time (job_entry y) > due_time (job_entry x)) js" (is "_ = ?l @ x # ?r")
    using assms by (intro schedule_job_split) (auto simp: jobs_ok_def)
  show set: "set (schedule_job x js) = insert x (set js)" unfolding eq by auto
  have mset: "mset (schedule_job x js) = mset (x # js)"
    unfolding eq using multiset_partition [of "mset js" "\<lambda>y. due_time (job_entry y) \<le> due_time (job_entry x)"]
    by (simp add: not_le)
  have "distinct (map fst (schedule_job x js)) = distinct (map fst (x # js))"
    using mset by (metis mset_map mset_eq_imp_distinct_iff)
  moreover have "sorted (map due_time (map job_entry (schedule_job x js)))"
    unfolding eq using ok by (auto simp: jobs_ok_def sorted_append sorted_map sorted_wrt_filter)
  moreover have "distinct (map fst (x # js))" "\<forall>y \<in> insert x (set js). duration_valid (job_instant (snd y))"
    using ok fresh valid by (auto simp: jobs_ok_def)
  ultimately show "jobs_ok (schedule_job x js)"
    unfolding jobs_ok_def set by blast
  show "map job_entry (schedule_job x js) = agenda_put (job_entry x) (map job_entry js)"
    unfolding eq by (simp add: agenda_put_def filter_map comp_def)
qed

lemma jobs_ok_filter: "jobs_ok js \<Longrightarrow> jobs_ok (filter P js)"
  by (auto simp: jobs_ok_def distinct_map_filter sorted_map sorted_wrt_filter)


lemma sched_job_at_iff: "sched_ok s \<Longrightarrow> sched_job_at s p = Some j \<longleftrightarrow> (p, j) \<in> set (sched_jobs s)"
  by (simp add: sched_job_at_def sched_ok_def jobs_ok_def)

lemma handle_jobE:
  assumes "sched_ok s"
  obtains "sched_handles s h = None" "handle_job s h = Some None"
      "\<forall>x \<in> set (sched_jobs s). job_handle_ptr (snd x) \<noteq> Some h"
  | p j where "sched_handles s h = Some p" "handle_job s h = Some (Some (p, j))" "(p, j) \<in> set (sched_jobs s)"
      "job_handle_ptr j = Some h" "\<forall>x \<in> set (sched_jobs s). job_handle_ptr (snd x) = Some h \<longleftrightarrow> fst x = p"
proof (cases "sched_handles s h")
  case None
  moreover have "\<forall>x \<in> set (sched_jobs s). job_handle_ptr (snd x) \<noteq> Some h"
  proof (intro ballI notI)
    fix x assume "x \<in> set (sched_jobs s)" "job_handle_ptr (snd x) = Some h"
    then have "sched_handles s h = Some (fst x)"
      using assms unfolding sched_ok_def handles_ok_def by (metis prod.collapse)
    with None show False by simp
  qed
  ultimately show ?thesis using that(1) by (simp add: handle_job_def)
next
  case (Some p)
  then obtain j where j: "(p, j) \<in> set (sched_jobs s)" "job_handle_ptr j = Some h"
    using assms unfolding sched_ok_def handles_ok_def by blast
  have d: "distinct (map fst (sched_jobs s))" using assms by (simp add: sched_ok_def jobs_ok_def)
  have "job_handle_ptr (snd x) = Some h \<longleftrightarrow> fst x = p" if x: "x \<in> set (sched_jobs s)" for x
  proof
    assume "job_handle_ptr (snd x) = Some h"
    with x assms have "sched_handles s h = Some (fst x)" unfolding sched_ok_def handles_ok_def by (metis prod.collapse)
    with Some show "fst x = p" by simp
  next
    assume "fst x = p"
    with x j(1) d have "x = (p, j)" by (metis eq_key_imp_eq_value prod.collapse)
    with j(2) show "job_handle_ptr (snd x) = Some h" by simp
  qed
  moreover have "handle_job s h = Some (Some (p, j))"
    using Some j sched_job_at_iff [OF assms, of p j] by (simp add: handle_job_def)
  ultimately show ?thesis using that(2) Some j by blast
qed

text \<open>Taking the job of a handle off the list.\<close>

definition forget_job :: "nat \<Rightarrow> nat \<Rightarrow> 'c sched \<Rightarrow> 'c sched" where
  "forget_job h p s = set_handle h None (s\<lparr>sched_jobs := list_detach p (sched_jobs s)\<rparr>)"

lemma forget_job_ok:
  assumes "sched_ok s" and "sched_handles s h = Some p"
  shows "sched_ok (forget_job h p s)" "agenda (forget_job h p s) = agenda_drop (Some h) (agenda s)"
    "set (sched_jobs (forget_job h p s)) = {x \<in> set (sched_jobs s). fst x \<noteq> p}"
proof -
  from assms have u: "\<forall>x \<in> set (sched_jobs s). job_handle_ptr (snd x) = Some h \<longleftrightarrow> fst x = p"
    by (elim handle_jobE [where h = h]) auto
  have d: "list_detach p (sched_jobs s) = filter (\<lambda>x. fst x \<noteq> p) (sched_jobs s)"
    using assms(1) by (simp add: list_detach_filter sched_ok_def jobs_ok_def)
  then show "set (sched_jobs (forget_job h p s)) = {x \<in> set (sched_jobs s). fst x \<noteq> p}"
    by (simp add: forget_job_def set_handle_def)
  have "filter (\<lambda>x. fst x \<noteq> p) (sched_jobs s) = filter (\<lambda>x. job_handle_ptr (snd x) \<noteq> Some h) (sched_jobs s)"
    using u by (intro filter_cong) auto
  then show "agenda (forget_job h p s) = agenda_drop (Some h) (agenda s)"
    by (simp add: agenda_def agenda_drop_def forget_job_def set_handle_def d filter_map comp_def)
  have h: "\<forall>h p. sched_handles s h = Some p \<longleftrightarrow> (\<exists>j. (p, j) \<in> set (sched_jobs s) \<and> job_handle_ptr j = Some h)"
    using assms(1) by (simp add: sched_ok_def handles_ok_def)
  have "handles_ok ((sched_handles s)(h := None)) (filter (\<lambda>x. fst x \<noteq> p) (sched_jobs s))"
    unfolding handles_ok_def
  proof (intro allI)
    fix h' p'
    show "((sched_handles s)(h := None)) h' = Some p'
      \<longleftrightarrow> (\<exists>j. (p', j) \<in> set (filter (\<lambda>x. fst x \<noteq> p) (sched_jobs s)) \<and> job_handle_ptr j = Some h')"
      using h u by (cases "h' = h") fastforce+
  qed
  with assms(1) show "sched_ok (forget_job h p s)"
    by (simp add: sched_ok_def forget_job_def set_handle_def d jobs_ok_filter)
qed

lemma agenda_drop_None [simp]: "agenda_drop None xs = xs" by (simp add: agenda_drop_def)

lemma agenda_drop_unowned:
  "\<forall>x \<in> set (sched_jobs s). job_handle_ptr (snd x) \<noteq> Some h \<Longrightarrow> agenda_drop (Some h) (agenda s) = agenda s"
  by (auto simp: agenda_drop_def agenda_def filter_id_conv)

text \<open>Putting a job on the list whose handle, if any, is not in use.\<close>

lemma put_job_ok:
  assumes "sched_ok s" and "p \<notin> fst ` set (sched_jobs s)" and "duration_valid (job_instant j)"
    and "\<And>h. job_handle_ptr j = Some h \<Longrightarrow> \<forall>x \<in> set (sched_jobs s). job_handle_ptr (snd x) \<noteq> Some h"
    and "hs = (case job_handle_ptr j of None \<Rightarrow> sched_handles s | Some h \<Rightarrow> (sched_handles s)(h := Some p))"
  shows "sched_ok (s\<lparr>sched_jobs := schedule_job (p, j) (sched_jobs s), sched_handles := hs\<rparr>)"
    "agenda (s\<lparr>sched_jobs := schedule_job (p, j) (sched_jobs s), sched_handles := hs\<rparr>)
      = agenda_put (ns_of (job_instant j), job_clb j, job_handle_ptr j) (agenda s)"
proof -
  have js: "jobs_ok (schedule_job (p, j) (sched_jobs s))" "set (schedule_job (p, j) (sched_jobs s)) = insert (p, j) (set (sched_jobs s))"
    "map job_entry (schedule_job (p, j) (sched_jobs s)) = agenda_put (job_entry (p, j)) (map job_entry (sched_jobs s))"
    using jobs_ok_schedule [of "sched_jobs s" "(p, j)"] assms(1-3) by (simp_all add: sched_ok_def)
  have h: "\<forall>h p. sched_handles s h = Some p \<longleftrightarrow> (\<exists>j. (p, j) \<in> set (sched_jobs s) \<and> job_handle_ptr j = Some h)"
    using assms(1) by (simp add: sched_ok_def handles_ok_def)
  have "handles_ok hs (schedule_job (p, j) (sched_jobs s))"
    unfolding handles_ok_def js(2)
  proof (intro allI)
    fix h' p'
    show "hs h' = Some p' \<longleftrightarrow> (\<exists>k. (p', k) \<in> insert (p, j) (set (sched_jobs s)) \<and> job_handle_ptr k = Some h')"
    proof (cases "job_handle_ptr j = Some h'")
      case True
      with assms(4) show ?thesis by (fastforce simp: assms(5))
    next
      case False
      then have "hs h' = sched_handles s h'" by (auto simp: assms(5) split: option.splits)
      with h False show ?thesis by auto
    qed
  qed
  with js(1) show "sched_ok (s\<lparr>sched_jobs := schedule_job (p, j) (sched_jobs s), sched_handles := hs\<rparr>)"
    by (simp add: sched_ok_def)
  show "agenda (s\<lparr>sched_jobs := schedule_job (p, j) (sched_jobs s), sched_handles := hs\<rparr>)
      = agenda_put (ns_of (job_instant j), job_clb j, job_handle_ptr j) (agenda s)"
    by (simp add: agenda_def js(3)) (simp add: job_entry_def)
qed

section \<open>The operations on well-formed schedulers\<close>

lemma agenda_find_agenda:
  assumes "sched_ok s"
  shows "sched_handles s h = None \<Longrightarrow> agenda_find (Some h) (agenda s) = None"
    "handle_job s h = Some (Some (p, j)) \<Longrightarrow> agenda_find (Some h) (agenda s) = Some (job_entry (p, j))"
proof -
  show "agenda_find (Some h) (agenda s) = None" if "sched_handles s h = None"
    using assms by (rule handle_jobE [where h = h]) (use that in \<open>auto simp: agenda_find_def agenda_def find_None_iff\<close>)
next
  assume a: "handle_job s h = Some (Some (p, j))"
  from assms show "agenda_find (Some h) (agenda s) = Some (job_entry (p, j))"
  proof (rule handle_jobE [where h = h])
    fix q k
    assume k: "handle_job s h = Some (Some (q, k))" "(q, k) \<in> set (sched_jobs s)" "job_handle_ptr k = Some h"
      "\<forall>x \<in> set (sched_jobs s). job_handle_ptr (snd x) = Some h \<longleftrightarrow> fst x = q"
    obtain y where y: "find (\<lambda>y. owner y = Some h) (agenda s) = Some y"
      using k(2,3) by (cases "find (\<lambda>y. owner y = Some h) (agenda s)") (auto simp: find_None_iff agenda_def)
    then obtain i where "i < length (agenda s)" "owner (agenda s ! i) = Some h" "y = agenda s ! i"
      by (auto simp: find_Some_iff)
    then obtain x where x: "x \<in> set (sched_jobs s)" "y = job_entry x" "owner y = Some h"
      by (intro that [of "sched_jobs s ! i"]) (simp_all add: agenda_def)
    then have "fst x = q" using k(4) by simp
    with x(1) k(2) assms have "x = (q, k)"
      unfolding sched_ok_def jobs_ok_def by (metis eq_key_imp_eq_value prod.collapse)
    with a k(1) x(2) y show ?thesis by (simp add: agenda_find_def)
  qed (use a in simp_all)
qed

lemma sched_update_commute [simp]:
  "s\<lparr>sched_handles := a, sched_jobs := b\<rparr> = s\<lparr>sched_jobs := b, sched_handles := a\<rparr>"
  by (cases s) simp

lemma at_ok:
  assumes "sched_ok s" and "call_ok (At h t clb new_job) s"
  shows "\<exists>s'. sched_at s h t clb new_job = Some (s', snd (agenda_do (At h t clb new_job) (sched_shutting_down s) (agenda s)))
    \<and> sched_ok s' \<and> agenda s' = fst (agenda_do (At h t clb new_job) (sched_shutting_down s) (agenda s))
    \<and> sched_shutting_down s' = sched_shutting_down s"
proof (cases "clb = None \<or> \<not> monotonic_valid t \<or> sched_shutting_down s \<or> new_job = None")
  case True
  with assms(1) show ?thesis
    by (auto simp: sched_at_def sched_at_locked_def split: option.splits)
next
  case False
  then obtain c p where c: "clb = Some c" "new_job = Some p" "duration_valid t" "monotonic_valid t" "\<not> sched_shutting_down s"
    by (auto simp: monotonic_valid_def)
  let ?j = "\<lparr>job_handle_ptr = h, job_instant = t, job_clb = c\<rparr>"
  have fresh: "p \<notin> fst ` set (sched_jobs s)" using assms(2) c(2) by simp
  show ?thesis
  proof (cases h)
    case None
    from put_job_ok [OF assms(1) fresh, of ?j "sched_handles s"] c None show ?thesis
      by (simp add: sched_at_def sched_at_locked_def)
  next
    case (Some a)
    show ?thesis
    proof (cases "sched_handles s a")
      case None
      from assms(1) have u: "\<forall>x \<in> set (sched_jobs s). job_handle_ptr (snd x) \<noteq> Some a"
        by (rule handle_jobE [where h = a]) (use None in simp_all)
      from put_job_ok [OF assms(1) fresh, of ?j "(sched_handles s)(a := Some p)"] c Some None u show ?thesis
        by (simp add: sched_at_def sched_at_locked_def set_handle_def agenda_drop_unowned)
    next
      case (Some q)
      from assms(1) obtain j where j: "sched_job_at s q = Some j"
        "\<forall>x \<in> set (sched_jobs s). job_handle_ptr (snd x) = Some a \<longleftrightarrow> fst x = q"
        by (rule handle_jobE [where h = a]) (use Some assms(1) in \<open>auto simp: sched_job_at_iff\<close>)
      note f = forget_job_ok [OF assms(1) Some]
      have "\<forall>x \<in> set (sched_jobs (forget_job a q s)). job_handle_ptr (snd x) \<noteq> Some a" using f(3) j(2) by auto
      moreover have "p \<notin> fst ` set (sched_jobs (forget_job a q s))" using f(3) fresh by auto
      ultimately show ?thesis
        using put_job_ok [OF f(1), of p ?j "(sched_handles s)(a := Some p)"] c \<open>h = Some a\<close> Some j(1) f(2)
        by (simp add: sched_at_def sched_at_locked_def set_handle_def forget_job_def)
    qed
  qed
qed

lemma del_ok:
  assumes "sched_ok s"
  shows "\<exists>s'. sched_del s h = Some s' \<and> sched_ok s' \<and> agenda s' = agenda_drop h (agenda s)
    \<and> sched_shutting_down s' = sched_shutting_down s"
proof (cases h)
  case None
  with assms show ?thesis by (simp add: sched_del_def)
next
  case (Some a)
  from assms show ?thesis
  proof (rule handle_jobE [where h = a])
    fix p j assume "sched_handles s a = Some p" "handle_job s a = Some (Some (p, j))" "job_handle_ptr j = Some a"
    with forget_job_ok [OF assms] Some show ?thesis
      by (simp add: sched_del_def forget_job_def set_handle_def)
  qed (use assms Some in \<open>simp add: sched_del_def agenda_drop_unowned\<close>)
qed

lemma detach_ok:
  assumes "sched_ok s"
  shows "\<exists>s'. sched_detach s h = Some s' \<and> sched_ok s' \<and> agenda s' = fst (agenda_do (Detach h) b (agenda s))
    \<and> sched_shutting_down s' = sched_shutting_down s"
proof (cases h)
  case None
  with assms show ?thesis by (simp add: sched_detach_def)
next
  case (Some a)
  from assms show ?thesis
  proof (rule handle_jobE [where h = a])
    assume "handle_job s a = Some None" "\<forall>x \<in> set (sched_jobs s). job_handle_ptr (snd x) \<noteq> Some a"
    moreover from this(2) have "map (\<lambda>y. if owner y = Some a then (fst y, fst (snd y), None) else y) (agenda s) = agenda s"
      by (auto simp: agenda_def intro!: map_idI)
    ultimately show ?thesis using assms Some by (simp add: sched_detach_def)
  next
    fix p j assume k: "sched_handles s a = Some p" "handle_job s a = Some (Some (p, j))" "job_handle_ptr j = Some a"
      "\<forall>x \<in> set (sched_jobs s). job_handle_ptr (snd x) = Some a \<longleftrightarrow> fst x = p"
    define js where "js = map (\<lambda>x. if fst x = p then (p, (snd x)\<lparr>job_handle_ptr := None\<rparr>) else x) (sched_jobs s)"
    have upd: "update_job p (\<lambda>j. j\<lparr>job_handle_ptr := None\<rparr>) (sched_jobs s) = js"
      unfolding js_def using assms by (subst update_job_map) (simp_all add: sched_ok_def jobs_ok_def)
    have entries: "map job_entry js = map (\<lambda>y. if owner y = Some a then (fst y, fst (snd y), None) else y) (agenda s)"
      using k(4) by (auto simp: js_def agenda_def job_entry_def)
    have "map fst js = map fst (sched_jobs s)" by (auto simp: js_def)
    moreover have "map due_time (map job_entry js) = map due_time (map job_entry (sched_jobs s))"
      by (auto simp: js_def job_entry_def)
    moreover have "\<forall>x \<in> set js. duration_valid (job_instant (snd x))"
      using assms by (auto simp: js_def sched_ok_def jobs_ok_def)
    ultimately have "jobs_ok js" using assms by (simp only: sched_ok_def jobs_ok_def)
    moreover have "handles_ok ((sched_handles s)(a := None)) js"
      unfolding handles_ok_def
    proof (intro allI)
      fix h' p'
      have "sched_handles s h' = Some p' \<longleftrightarrow> (\<exists>j. (p', j) \<in> set (sched_jobs s) \<and> job_handle_ptr j = Some h')"
        using assms by (simp add: sched_ok_def handles_ok_def)
      then show "((sched_handles s)(a := None)) h' = Some p' \<longleftrightarrow> (\<exists>j. (p', j) \<in> set js \<and> job_handle_ptr j = Some h')"
        using k(4) by (cases "h' = a") (fastforce simp: js_def)+
    qed
    ultimately show ?thesis using k Some entries
      by (simp add: sched_detach_def set_handle_def upd sched_ok_def agenda_def)
  qed
qed


lemma resched_ok:
  assumes "sched_ok s"
  shows "\<exists>s'. resched_at s h t = Some (s', snd (agenda_do (Resched h t) b (agenda s))) \<and> sched_ok s'
    \<and> agenda s' = fst (agenda_do (Resched h t) b (agenda s)) \<and> sched_shutting_down s' = sched_shutting_down s"
proof (cases h)
  case None
  with assms show ?thesis by (simp add: resched_at_def agenda_find_def)
next
  case (Some a)
  show ?thesis
  proof (cases "monotonic_valid t")
    case False
    with assms Some show ?thesis by (simp add: resched_at_def split: option.splits)
  next
    case True
    from assms show ?thesis
    proof (rule handle_jobE [where h = a])
      assume "sched_handles s a = None" "handle_job s a = Some None"
      with assms Some True show ?thesis by (simp add: resched_at_def agenda_find_agenda)
    next
      fix p j assume k: "sched_handles s a = Some p" "handle_job s a = Some (Some (p, j))" "job_handle_ptr j = Some a"
        "\<forall>x \<in> set (sched_jobs s). job_handle_ptr (snd x) = Some a \<longleftrightarrow> fst x = p"
      note f = forget_job_ok [OF assms k(1)]
      let ?s = "forget_job a p s" and ?j = "j\<lparr>job_instant := t\<rparr>"
      have "\<forall>x \<in> set (sched_jobs ?s). job_handle_ptr (snd x) \<noteq> Some a" using f(3) k(4) by auto
      moreover have "p \<notin> fst ` set (sched_jobs ?s)" using f(3) by auto
      moreover have "sched_handles s = (case job_handle_ptr ?j of None \<Rightarrow> sched_handles ?s | Some h \<Rightarrow> (sched_handles ?s)(h := Some p))"
        using k(1,3) by (auto simp: forget_job_def set_handle_def)
      moreover have "duration_valid (job_instant ?j)" using True by (simp add: monotonic_valid_def)
      ultimately have put: "sched_ok (?s\<lparr>sched_jobs := schedule_job (p, ?j) (sched_jobs ?s), sched_handles := sched_handles s\<rparr>)"
        "agenda (?s\<lparr>sched_jobs := schedule_job (p, ?j) (sched_jobs ?s), sched_handles := sched_handles s\<rparr>)
          = agenda_put (ns_of t, job_clb j, Some a) (agenda_drop (Some a) (agenda s))"
        using put_job_ok [OF f(1), of p ?j "sched_handles s"] k(3) f(2) by simp_all
      define s' where "s' = s\<lparr>sched_jobs := schedule_job (p, ?j) (list_detach p (sched_jobs s))\<rparr>"
      have "?s\<lparr>sched_jobs := schedule_job (p, ?j) (sched_jobs ?s), sched_handles := sched_handles s\<rparr> = s'"
        by (simp add: forget_job_def set_handle_def s'_def)
      with put have s': "sched_ok s'" "agenda s' = agenda_put (ns_of t, job_clb j, Some a) (agenda_drop (Some a) (agenda s))"
        by simp_all
      have "resched_at s h t = Some (s', 0)" using k(2) True Some by (simp add: resched_at_def s'_def)
      moreover have "agenda_do (Resched h t) b (agenda s) = (agenda s', 0)"
        using s'(2) True Some agenda_find_agenda(2) [OF assms k(2)] k(3) by (simp add: job_entry_def)
      moreover have "sched_shutting_down s' = sched_shutting_down s" by (simp add: s'_def)
      ultimately show ?thesis using s'(1) by simp
    qed
  qed
qed

lemma sched_do_ok:
  assumes "sched_ok s" and "call_ok call s"
  shows "\<exists>s'. sched_do call s = Some (s', snd (agenda_do call (sched_shutting_down s) (agenda s))) \<and> sched_ok s'
    \<and> agenda s' = fst (agenda_do call (sched_shutting_down s) (agenda s))
    \<and> sched_shutting_down s' = sched_shutting_down s"
proof (cases call)
  case (At h t clb new_job)
  with at_ok [OF assms(1)] assms(2) show ?thesis by (simp del: agenda_do.simps)
next
  case (Del h)
  with del_ok [OF assms(1), of h] show ?thesis by auto
next
  case (Detach h)
  with detach_ok [OF assms(1), of h] show ?thesis by auto
next
  case (Resched h t)
  with resched_ok [OF assms(1)] show ?thesis by (simp only: sched_do.simps)
qed

text \<open>C29: The scheduler implements the agenda: scheduling, replacing the job of a handle, cancelling,
  detaching and rescheduling never fail an assertion or follow a dangling pointer, return what the
  agenda returns, and keep the list ordered by time, with jobs of the same time in the order in which
  they were scheduled, and each handle in agreement with its job.\<close>

theorem scheduler_refines_agenda:
  assumes "sched_ok s" and "call_ok call s"
  shows "\<exists>s'. sched_do call s = Some (s', snd (agenda_do call (sched_shutting_down s) (agenda s))) \<and> sched_ok s'
    \<and> agenda s' = fst (agenda_do call (sched_shutting_down s) (agenda s))
    \<and> sched_shutting_down s' = sched_shutting_down s"
using sched_do_ok [OF assms] .

section \<open>Execution\<close>

definition due :: "monotonic \<Rightarrow> 'c agenda \<Rightarrow> 'c agenda" where
  "due now xs = takeWhile (\<lambda>y. due_time y < ns_of now) xs"

lemma fetch_job_ok:
  assumes "sched_ok s" and "duration_valid now"
  shows "\<exists>s' job. fetch_job s now = Some (s', job) \<and> sched_ok s'
    \<and> (case job of None \<Rightarrow> s' = s \<and> due now (agenda s) = []
       | Some (p, j) \<Rightarrow> \<exists>y. due now (agenda s) = y # due now (agenda s') \<and> fst (snd y) = job_clb j)"
proof (cases "sched_jobs s")
  case Nil
  with assms(1) show ?thesis by (simp add: fetch_job_def due_def agenda_def)
next
  case (Cons x js)
  obtain p j where x: "x = (p, j)" by force
  have v: "duration_valid (job_instant j)" using assms(1) Cons x by (simp add: sched_ok_def jobs_ok_def)
  have ag: "agenda s = job_entry (p, j) # map job_entry js" by (simp add: agenda_def Cons x)
  show ?thesis
  proof (cases "monotonic_before (job_instant j) now")
    case False
    with assms v ag Cons x show ?thesis by (simp add: fetch_job_def due_def before_iff)
  next
    case True
    then have lt: "ns_of (job_instant j) < ns_of now" using assms(2) v by (simp add: before_iff)
    show ?thesis
    proof (cases "job_handle_ptr j")
      case None
      let ?s = "s\<lparr>sched_jobs := js\<rparr>"
      have "sched_ok ?s"
        using assms(1) Cons x None by (auto simp: sched_ok_def jobs_ok_def handles_ok_def)
      with True lt None Cons x ag show ?thesis by (simp add: fetch_job_def due_def agenda_def)
    next
      case (Some h)
      from assms(1) have h: "sched_handles s h = Some p"
        using Cons x Some unfolding sched_ok_def handles_ok_def by auto
      have eq: "forget_job h p s = set_handle h None (s\<lparr>sched_jobs := js\<rparr>)"
        by (simp add: forget_job_def Cons x)
      have "agenda (set_handle h None (s\<lparr>sched_jobs := js\<rparr>)) = map job_entry js"
        by (simp add: agenda_def set_handle_def)
      with forget_job_ok(1) [OF assms(1) h] True lt Some h Cons x ag show ?thesis
        unfolding eq by (simp add: fetch_job_def due_def)
    qed
  qed
qed

lemma run_executes_due:
  assumes now_valid: "duration_valid now"
    and exec_returns: "\<And>s c w. sched_ok s \<Longrightarrow> \<exists>s' w'. exec c (s, w) = Some (s', w') \<and> sched_ok s'
      \<and> due now (agenda s') = due now (agenda s) \<and> executed w' = executed w @ [c]"
  shows "sched_ok s \<Longrightarrow> \<exists>s' w'. sched_run exec now (s, w) = Some (s', w') \<and> sched_ok s' \<and> due now (agenda s') = []
     \<and> executed w' = executed w @ map (\<lambda>y. fst (snd y)) (due now (agenda s))"
proof (induction "length (due now (agenda s))" arbitrary: s w)
  case 0
  from fetch_job_ok [OF 0(2) now_valid] obtain s' job where f: "fetch_job s now = Some (s', job)"
    "case job of None \<Rightarrow> s' = s \<and> due now (agenda s) = []
      | Some (p, j) \<Rightarrow> \<exists>y. due now (agenda s) = y # due now (agenda s') \<and> fst (snd y) = job_clb j" by blast
  with 0 have "fetch_job s now = Some (s, None)" by (cases job) auto
  with 0 show ?case by (subst sched_run.simps) simp
next
  case (Suc n)
  from fetch_job_ok [OF Suc(3) now_valid] Suc(2) obtain s1 p j y where
    s1: "fetch_job s now = Some (s1, Some (p, j))" "sched_ok s1" "due now (agenda s) = y # due now (agenda s1)"
      "fst (snd y) = job_clb j"
    by (fastforce split: option.splits)
  from exec_returns [OF s1(2), of "job_clb j" w] obtain s2 w2 where
    s2: "exec (job_clb j) (s1, w) = Some (s2, w2)" "sched_ok s2" "due now (agenda s2) = due now (agenda s1)"
      "executed w2 = executed w @ [job_clb j]" by blast
  have "n = length (due now (agenda s2))" using Suc(2) s1(3) s2(3) by simp
  from Suc(1) [OF this s2(2), of w2] s1 s2 show ?case
    by (subst sched_run.simps) auto
qed

text \<open>C30: A run of the scheduler ends and has executed exactly the jobs that were scheduled strictly before the
  time at which it began, the earliest first, and afterwards no such job is left and the scheduler is well-formed. The
  callbacks return, keep the scheduler well-formed and may schedule, cancel and reschedule anything that is not due in
  this run. A job for exactly that time stays, although \<open>avs_sched.h\<close> announces jobs for before or at the current time.\<close>

theorem sched_run_executes_due:
  assumes "sched_ok s" and "duration_valid now"
    and "\<And>s c w. sched_ok s \<Longrightarrow> \<exists>s' w'. exec c (s, w) = Some (s', w') \<and> sched_ok s'
      \<and> due now (agenda s') = due now (agenda s) \<and> executed w' = executed w @ [c]"
  shows "\<exists>s' w'. sched_run exec now (s, w) = Some (s', w') \<and> sched_ok s' \<and> due now (agenda s') = []
     \<and> executed w' = executed w @ map (\<lambda>y. fst (snd y)) (due now (agenda s))"
  using run_executes_due [OF assms(2,3,1)] .

text \<open>Jobs for later do not change what is due.\<close>

lemma due_filter: "sorted (map due_time xs) \<Longrightarrow> due now xs = filter (\<lambda>y. due_time y < ns_of now) xs"
proof (induction xs)
  case (Cons x xs)
  then have "due now xs = filter (\<lambda>y. due_time y < ns_of now) xs" by simp
  moreover have "filter (\<lambda>y. due_time y < ns_of now) xs = []" if "\<not> due_time x < ns_of now"
    using Cons.prems that by (auto simp: filter_empty_conv)
  ultimately show ?case by (simp add: due_def)
qed (simp add: due_def)

lemma agenda_sorted: "sched_ok s \<Longrightarrow> sorted (map due_time (agenda s))"
  by (simp add: sched_ok_def jobs_ok_def agenda_def)

lemma due_agenda_put:
  assumes "ns_of now \<le> due_time x"
  shows "filter (\<lambda>y. due_time y < ns_of now) (agenda_put x xs) = filter (\<lambda>y. due_time y < ns_of now) xs"
proof -
  have "filter (\<lambda>y. due_time y \<le> due_time x \<and> due_time y < ns_of now) xs = filter (\<lambda>y. due_time y < ns_of now) xs"
    "filter (\<lambda>y. due_time y > due_time x \<and> due_time y < ns_of now) xs = []"
    using assms by (auto intro: filter_cong simp: filter_empty_conv)
  with assms show ?thesis by (simp add: agenda_put_def)
qed

text \<open>A callback that schedules itself anew after a period.\<close>

definition free_address :: "'c sched \<Rightarrow> nat" where
  "free_address s = Suc (sum_list (map fst (sched_jobs s)))"

definition periodic_exec :: "duration \<Rightarrow> monotonic \<Rightarrow> 'c \<Rightarrow> 'c sched \<times> 'c list \<Rightarrow> ('c sched \<times> 'c list) option" where
  "periodic_exec period now c sw = do {
     t \<leftarrow> monotonic_add now period;
     (s, _) \<leftarrow> sched_at (fst sw) None t (Some c) (Some (free_address (fst sw)));
     Some (s, snd sw @ [c]) }"

lemma free_address_fresh: "free_address s \<notin> fst ` set (sched_jobs s)"
proof
  assume "free_address s \<in> fst ` set (sched_jobs s)"
  then have "free_address s \<in> set (map fst (sched_jobs s))" by simp
  then have "free_address s \<le> sum_list (map fst (sched_jobs s))" by (rule member_le_sum_list) simp
  then show False by (simp add: free_address_def)
qed

lemma periodic_exec_returns:
  assumes "sched_ok s" and "dur_ok now" and "dur_ok period" and "ns_of period \<ge> 0"
  shows "\<exists>s' w'. periodic_exec period now c (s, w) = Some (s', w') \<and> sched_ok s'
      \<and> due now (agenda s') = due now (agenda s) \<and> w' = w @ [c]"
proof -
  define t where "t = (if i64 (dur_seconds now + dur_seconds period) \<and> i64 ((ns_of now + ns_of period) div NS_IN_S)
    then of_ns (ns_of now + ns_of period) else AVS_TIME_DURATION_INVALID)"
  have t: "monotonic_add now period = Some t" "duration_valid t \<Longrightarrow> ns_of now \<le> ns_of t"
    using duration_add_exact [OF assms(2,3)] assms(4)
    by (auto simp: monotonic_add_def t_def duration_valid_def AVS_TIME_DURATION_INVALID_def split: if_splits)
  from at_ok [OF assms(1), of None t "Some c" "Some (free_address s)"] obtain s' r where
    s': "sched_at s None t (Some c) (Some (free_address s)) = Some (s', r)" "sched_ok s'"
      "agenda s' = fst (agenda_do (At None t (Some c) (Some (free_address s))) (sched_shutting_down s) (agenda s))"
    using free_address_fresh by auto
  have "due now (agenda s') = due now (agenda s)"
    unfolding due_filter [OF agenda_sorted [OF s'(2)]] due_filter [OF agenda_sorted [OF assms(1)]]
    using s'(3) t(2) due_agenda_put [of now "(ns_of t, c, None)" "agenda s"]
    by (auto simp: monotonic_valid_def split: if_splits)
  with t(1) s'(1,2) show ?thesis by (simp add: periodic_exec_def)
qed


section \<open>Examples\<close>

definition sample_sched :: "string sched" where
  "sample_sched = \<lparr>sched_jobs =
      [(100, \<lparr>job_handle_ptr = Some 7, job_instant = \<lparr>dur_seconds = 10, dur_nanoseconds = 0\<rparr>, job_clb = ''a''\<rparr>),
       (200, \<lparr>job_handle_ptr = None, job_instant = \<lparr>dur_seconds = 20, dur_nanoseconds = 5\<rparr>, job_clb = ''b''\<rparr>)],
     sched_shutting_down = False, sched_handles = (\<lambda>_. None)(7 := Some 100)\<rparr>"

lemma sample_sched_ok: "sched_ok sample_sched"
  by (auto simp: sched_ok_def jobs_ok_def handles_ok_def sample_sched_def duration_valid_def job_entry_def ns_of_def)

lemma sample_agenda: "agenda sample_sched = [(10000000000, ''a'', Some 7), (20000000005, ''b'', None)]"
  by (simp add: agenda_def sample_sched_def job_entry_def ns_of_def)

theorem scheduler_refines_agenda_witness:
  "\<exists>s'. sched_do (Resched (Some 7) \<lparr>dur_seconds = 30, dur_nanoseconds = 0\<rparr>) sample_sched = Some (s', 0)
    \<and> agenda s' = [(20000000005, ''b'', None), (30000000000, ''a'', Some 7)]"
  using scheduler_refines_agenda [OF sample_sched_ok, of "Resched (Some 7) \<lparr>dur_seconds = 30, dur_nanoseconds = 0\<rparr>"]
  by (simp add: sample_agenda agenda_find_def agenda_put_def agenda_drop_def monotonic_valid_def duration_valid_def ns_of_def) auto

theorem sched_run_witness:
  "\<exists>s'. sched_run (periodic_exec \<lparr>dur_seconds = 60, dur_nanoseconds = 0\<rparr> \<lparr>dur_seconds = 15, dur_nanoseconds = 0\<rparr>)
      \<lparr>dur_seconds = 15, dur_nanoseconds = 0\<rparr> (sample_sched, []) = Some (s', [''a''])"
proof -
  let ?now = "\<lparr>dur_seconds = 15, dur_nanoseconds = 0\<rparr>" and ?period = "\<lparr>dur_seconds = 60, dur_nanoseconds = 0\<rparr>"
  have ok: "dur_ok ?now" "dur_ok ?period" "ns_of ?period \<ge> 0" "duration_valid ?now"
    by (simp_all add: dur_ok_def duration_valid_def i64_def ns_of_def)
  have "due ?now (agenda sample_sched) = [(10000000000, ''a'', Some 7)]" by (simp add: due_def sample_agenda ns_of_def)
  with sched_run_executes_due [OF sample_sched_ok ok(4), of "periodic_exec ?period ?now" "\<lambda>w. w" "[]",
      OF periodic_exec_returns [OF _ ok(1-3)]]
  show ?thesis by auto
qed

section \<open>Moving all jobs in time\<close>

lemma monotonic_add_invalid: "\<not> duration_valid d \<Longrightarrow> monotonic_add t d = Some AVS_TIME_DURATION_INVALID"
  by (simp add: monotonic_add_def duration_add_def)

definition never_due :: "'c sched \<Rightarrow> 'c sched" where
  "never_due s = s\<lparr>sched_jobs := map (\<lambda>(p, j). (p, j\<lparr>job_instant := AVS_TIME_DURATION_INVALID\<rparr>)) (sched_jobs s)\<rparr>"

text \<open>C31: The check of the argument of \<open>avs_sched_leap_time\<close> is inverted: every valid amount of time is
  refused and nothing is moved, while an amount that is not valid is accepted, whereupon the times of
  all jobs become invalid and no run ever executes any of them.\<close>

theorem sched_leap_time_inverted:
  "sched_leap_time s d = Some (if duration_valid d then (s, - 1) else (never_due s, 0))
   \<and> (\<not> duration_valid d \<longrightarrow> sched_run exec now (never_due s, w) = Some (never_due s, w))"
proof -
  have "leap_jobs d js = Some (map (\<lambda>(p, j). (p, j\<lparr>job_instant := AVS_TIME_DURATION_INVALID\<rparr>)) js)"
    if "\<not> duration_valid d" for js :: "(nat \<times> 'a sched_job) list"
    using that by (induction d js rule: leap_jobs.induct) (auto simp: monotonic_add_invalid)
  moreover have "fetch_job (never_due s) now = Some (never_due s, None)"
    by (auto simp: fetch_job_def never_due_def monotonic_before_def duration_less_def duration_valid_def
        AVS_TIME_DURATION_INVALID_def split: list.splits)
  ultimately show ?thesis
    by (subst sched_run.simps) (simp add: sched_leap_time_def never_due_def)
qed

theorem sched_leap_time_witness:
  "sched_run (\<lambda>c (s, w). Some (s, w @ [c])) \<lparr>dur_seconds = 1000, dur_nanoseconds = 0\<rparr> (never_due sample_sched, [])
     = Some (never_due sample_sched, [])"
  using sched_leap_time_inverted [of sample_sched AVS_TIME_DURATION_INVALID "\<lambda>c (s, w). Some (s, w @ [c])"
      "\<lparr>dur_seconds = 1000, dur_nanoseconds = 0\<rparr>" "[]"]
  by (simp add: duration_valid_def AVS_TIME_DURATION_INVALID_def)

text \<open>The end of a scheduler leaves no handle that points to a job.\<close>

lemma clear_jobs_None: "(\<forall>x \<in> set js. job_handle_ptr (snd x) \<noteq> Some h) \<Longrightarrow> clear_jobs js hs h = hs h"
  by (induction js hs rule: clear_jobs.induct) (auto split: option.splits)

lemma clear_jobs_stays: "hs h = None \<Longrightarrow> clear_jobs js hs h = None"
  by (induction js hs rule: clear_jobs.induct) (auto split: option.splits)

lemma clear_jobs_clears: "x \<in> set js \<Longrightarrow> job_handle_ptr (snd x) = Some h \<Longrightarrow> clear_jobs js hs h = None"
  by (induction js hs rule: clear_jobs.induct) (auto simp: clear_jobs_stays)

lemma clear_jobs_all: "sched_ok s \<Longrightarrow> clear_jobs (sched_jobs s) (sched_handles s) h = None"
  by (rule handle_jobE [where h = h]) (auto simp: clear_jobs_None intro: clear_jobs_clears)

end
