(* ===== verification/Avs_Time_Float.thy ===== *)
theory Avs_Time_Float
  imports Avs_Time Complex_Main
begin

text \<open>
  The product of a duration and a floating point number (\<open>avs_time_duration_fmul\<close> in \<open>avs_time.c\<close>).
  A finite \<open>double\<close> is a real number. The result of an operation is the exact one after rounding,
  which is a parameter, as the C standard leaves it to the implementation: \<open>rnd x\<close> is \<open>None\<close> where the
  result is not finite. Integers of 32 bits, and the results of \<open>fmod\<close> and \<open>trunc\<close>, are exact.
\<close>

type_synonym rounding = "real \<Rightarrow> real option"

definition real_trunc :: "real \<Rightarrow> int" where
  "real_trunc x = (if x < 0 then - \<lfloor>- x\<rfloor> else \<lfloor>x\<rfloor>)"

definition real_fmod :: "real \<Rightarrow> real \<Rightarrow> real" where
  "real_fmod x y = x - of_int (real_trunc (x / y)) * y"

text \<open>\<open>round\<close> of C: halfway cases go away from zero.\<close>

definition real_round :: "real \<Rightarrow> int" where
  "real_round x = (if x < 0 then - \<lfloor>- x + 1 / 2\<rfloor> else \<lfloor>x + 1 / 2\<rfloor>)"

text \<open>The two loops at the end; \<open>None\<close> is the return of an invalid duration.\<close>

function borrow_loop :: "int \<Rightarrow> int \<Rightarrow> (int \<times> int) option" where
  "borrow_loop s ns =
     (if ns < 0 then if s = INT64_MIN then None else borrow_loop (s - 1) (ns + NS_IN_S) else Some (s, ns))"
  by pat_completeness auto
termination by (relation "measure (\<lambda>(s, ns). nat (- ns))") auto

function carry_loop :: "int \<Rightarrow> int \<Rightarrow> (int \<times> int) option" where
  "carry_loop s ns =
     (if ns \<ge> NS_IN_S then if s = INT64_MAX then None else carry_loop (s + 1) (ns - NS_IN_S) else Some (s, ns))"
  by pat_completeness auto
termination by (relation "measure (\<lambda>(s, ns). nat ns)") auto

declare borrow_loop.simps [simp del] carry_loop.simps [simp del]

definition fmul_result :: "int \<Rightarrow> int \<Rightarrow> duration option" where
  "fmul_result seconds nanoseconds =
     (case borrow_loop seconds nanoseconds of
        None \<Rightarrow> Some AVS_TIME_DURATION_INVALID
      | Some (s, ns) \<Rightarrow>
          (case carry_loop s ns of
             None \<Rightarrow> Some AVS_TIME_DURATION_INVALID
           | Some (s, ns) \<Rightarrow> do {
               let result = \<lparr>dur_seconds = s, dur_nanoseconds = ns\<rparr>;
               c_assert (duration_valid result);
               Some result }))"

text \<open>
  A multiplier that is not finite is \<open>None\<close>. The conversion of a number of nanoseconds outside of 32
  bits is undefined.
\<close>

definition duration_fmul :: "rounding \<Rightarrow> duration \<Rightarrow> real option \<Rightarrow> duration option" where
  "duration_fmul rnd input multiplier =
     (if \<not> duration_valid input \<or> multiplier = None then Some AVS_TIME_DURATION_INVALID
      else do {
        m \<leftarrow> multiplier;
        s \<leftarrow> rnd (of_int (dur_seconds input));
        case (rnd (s * m), rnd (of_int (dur_nanoseconds input) * m)) of
          (Some smul, Some nsmul) \<Rightarrow> do {
            smul_ns \<leftarrow> rnd (real_fmod smul 1 * of_int NS_IN_S);
            let smul = real_trunc smul;
            q \<leftarrow> rnd (nsmul / of_int NS_IN_S);
            let nsmul_s = real_trunc q;
            let nsmul = real_fmod nsmul (of_int NS_IN_S);
            (case rnd (of_int (smul + nsmul_s)) of
               None \<Rightarrow> Some AVS_TIME_DURATION_INVALID
             | Some seconds \<Rightarrow>
                 if \<not> (- (2 ^ 63) \<le> seconds \<and> seconds < 2 ^ 63) then Some AVS_TIME_DURATION_INVALID
                 else do {
                   total \<leftarrow> rnd (smul_ns + nsmul);
                   let nanoseconds = real_round total;
                   c_assert (- (2 ^ 31) \<le> nanoseconds \<and> nanoseconds < 2 ^ 31);
                   fmul_result (real_trunc seconds) nanoseconds }) }
        | _ \<Rightarrow> Some AVS_TIME_DURATION_INVALID })"

text \<open>Without rounding, moderate products are what one expects.\<close>

lemma real_trunc_nonneg: "0 \<le> x \<Longrightarrow> real_trunc x = \<lfloor>x\<rfloor>"
  by (simp add: real_trunc_def)

lemma real_fmod_bounds: "0 \<le> x \<Longrightarrow> 0 < y \<Longrightarrow> 0 \<le> real_fmod x y \<and> real_fmod x y < y"
  using floor_divide_lower [of y x] floor_divide_upper [of y x]
  by (simp add: real_fmod_def real_trunc_nonneg divide_nonneg_pos algebra_simps)

lemma fmul_result_ok:
  assumes "0 \<le> s" "s < 2 ^ 61 - 2" "0 \<le> ns" "ns \<le> 2 * NS_IN_S"
  shows "\<exists>t. fmul_result s ns = Some t \<and> duration_valid t \<and> 0 \<le> dur_seconds t \<and> dur_seconds t < 2 ^ 61"
proof -
  have b: "borrow_loop s ns = Some (s, ns)" using assms(3) by (simp add: borrow_loop.simps)
  obtain k where k: "carry_loop s ns = Some (s + k, ns - k * NS_IN_S)" "0 \<le> k" "k \<le> 2"
    "0 \<le> ns - k * NS_IN_S" "ns - k * NS_IN_S < NS_IN_S"
  proof -
    consider "ns < NS_IN_S" | "NS_IN_S \<le> ns" "ns < 2 * NS_IN_S" | "ns = 2 * NS_IN_S" using assms(4) by linarith
    then show thesis
    proof cases
      case 1 then show thesis using that [of 0] assms(3) by (simp add: carry_loop.simps)
    next
      case 2 then show thesis using that [of 1] assms(1,2) by (simp add: carry_loop.simps)
    next
      case 3 then show thesis using that [of 2] assms(1,2)
        by (simp add: carry_loop.simps [of s] carry_loop.simps [of "s + 1"] carry_loop.simps [of "2 + s"])
    qed
  qed
  then show ?thesis using b assms by (simp add: fmul_result_def duration_valid_def)
qed

lemma duration_fmul_exact_ok:
  assumes "duration_valid t" "0 \<le> dur_seconds t" "0 \<le> m" "of_int (dur_seconds t + 1) * m < 2 ^ 60"
  shows "\<exists>t'. duration_fmul Some t (Some m) = Some t' \<and> duration_valid t' \<and> 0 \<le> dur_seconds t' \<and> dur_seconds t' < 2 ^ 61"
proof -
  let ?s = "of_int (dur_seconds t) * m :: real" and ?n = "of_int (dur_nanoseconds t) * m :: real"
  have t: "0 \<le> dur_nanoseconds t" "dur_nanoseconds t < NS_IN_S" using assms(1) by (simp_all add: duration_valid_def)
  have s: "0 \<le> ?s" "0 \<le> ?n" using assms(2,3) t(1) by simp_all
  have q: "0 \<le> ?n / of_int NS_IN_S" using s(2) by simp
  have "?n / of_int NS_IN_S \<le> m"
    using t assms(3) mult_right_mono [of "of_int (dur_nanoseconds t)" "of_int NS_IN_S" m] by (simp add: divide_le_eq mult.commute)
  then have sum: "?s + ?n / of_int NS_IN_S < 2 ^ 60" using assms(4) by (simp add: algebra_simps)
  have fl: "0 \<le> \<lfloor>?s\<rfloor>" "0 \<le> \<lfloor>?n / of_int NS_IN_S\<rfloor>" using s q by simp_all
  have "of_int \<lfloor>?s\<rfloor> + of_int \<lfloor>?n / of_int NS_IN_S\<rfloor> \<le> ?s + ?n / of_int NS_IN_S" by (intro add_mono of_int_floor_le)
  then have up: "(of_int (\<lfloor>?s\<rfloor> + \<lfloor>?n / of_int NS_IN_S\<rfloor>) :: real) < of_int (2 ^ 60)" using sum by simp
  then have up: "\<lfloor>?s\<rfloor> + \<lfloor>?n / of_int NS_IN_S\<rfloor> < 2 ^ 60" unfolding of_int_less_iff .
  let ?sec = "\<lfloor>?s\<rfloor> + \<lfloor>?n / of_int NS_IN_S\<rfloor>"
  let ?tot = "real_fmod ?s 1 * of_int NS_IN_S + real_fmod ?n (of_int NS_IN_S)"
  have tot: "0 \<le> ?tot" "?tot < 2 * of_int NS_IN_S"
    using real_fmod_bounds [OF s(1), of 1] real_fmod_bounds [OF s(2), of "of_int NS_IN_S"] by auto
  have r: "0 \<le> real_round ?tot" "real_round ?tot \<le> 2 * NS_IN_S" using tot by (auto simp: real_round_def floor_le_iff)
  have low: "- 9223372036854775808 \<le> real_of_int \<lfloor>?s\<rfloor> + real_of_int \<lfloor>?n / of_int NS_IN_S\<rfloor>"
    using fl of_int_0_le_iff [of "\<lfloor>?s\<rfloor>", where ?'a = real] of_int_0_le_iff [of "\<lfloor>?n / of_int NS_IN_S\<rfloor>", where ?'a = real]
    by linarith
  have sec: "0 \<le> (of_int ?sec :: real)" "(of_int ?sec :: real) < 2 ^ 63" "real_trunc (of_int ?sec) = ?sec"
    using fl up of_int_less_iff [of ?sec "2 ^ 63", where ?'a = real] by (simp_all add: real_trunc_nonneg)
  obtain t' where t': "fmul_result ?sec (real_round ?tot) = Some t'" "duration_valid t'" "0 \<le> dur_seconds t'" "dur_seconds t' < 2 ^ 61"
    using fmul_result_ok [of ?sec "real_round ?tot"] fl up r by auto
  have "duration_fmul Some t (Some m) = fmul_result (real_trunc (of_int ?sec)) (real_round ?tot)"
    using assms(1) s q sec(1,2) r low by (simp add: duration_fmul_def real_trunc_nonneg Let_def)
  with t' sec(3) show ?thesis by simp
qed

text \<open>Whole seconds with a product that is whole, too.\<close>

lemma duration_fmul_whole:
  assumes "0 \<le> n" "0 \<le> k" "of_int n * m = of_int k" "k < 2 ^ 62" "0 \<le> m"
  shows "duration_fmul Some \<lparr>dur_seconds = n, dur_nanoseconds = 0\<rparr> (Some m) = Some \<lparr>dur_seconds = k, dur_nanoseconds = 0\<rparr>"
proof -
  have "(of_int k :: real) < 2 ^ 63" using assms(4) of_int_less_iff [of k "2 ^ 63", where ?'a = real] by simp
  then show ?thesis
    using assms by (simp add: duration_fmul_def duration_valid_def real_trunc_nonneg real_fmod_def real_round_def Let_def
      fmul_result_def borrow_loop.simps carry_loop.simps)
qed

end
