(* ===== verification/Coap_Udp_Ctx.thy ===== *)
theory Coap_Udp_Ctx
  imports Complex_Main Coap_Udp_Cache Avs_Sched Avs_Time_Float
begin

text \<open>
  The CoAP/UDP context (\<open>udp/avs_coap_udp_ctx.c\<close> with \<open>avs_coap_udp_tx_params.h\<close> and the
  rescheduling in \<open>avs_coap_ctx.c\<close>): sending and receiving of messages, retransmission of those
  that are not yet confirmed, the limit on simultaneous interactions, matching of responses, and
  the caches of responses and of sent notifications.

  The functions work on a context, which contains the scheduler of the retry job and the response
  cache. What lies outside of the C sources is a parameter: \<open>platform\<close> holds the clock, the random
  generator, the allocator, the socket and the rounding of floating point results, and works on
  a state \<open>'w\<close> of the outside world, which is a field of the context; \<open>upper_layer\<close> holds the
  callbacks, which receive the context and may change it. Log messages are left out.
\<close>

section \<open>Transmission parameters and retries\<close>

record udp_tx_params =
  tx_ack_timeout :: duration
  tx_ack_random_factor :: real
  tx_max_retransmit :: nat
  tx_nstart :: nat

definition AVS_COAP_DEFAULT_UDP_TX_PARAMS :: udp_tx_params where
  "AVS_COAP_DEFAULT_UDP_TX_PARAMS =
     \<lparr>tx_ack_timeout = \<lparr>dur_seconds = 2, dur_nanoseconds = 0\<rparr>, tx_ack_random_factor = 3 / 2,
      tx_max_retransmit = 4, tx_nstart = 1\<rparr>"

definition tx_params_valid :: "udp_tx_params \<Rightarrow> bool option" where
  "tx_params_valid tx = do {
     second \<leftarrow> duration_from_scalar 1 AVS_TIME_S;
     Some (\<not> duration_less (tx_ack_timeout tx) second \<and> \<not> tx_ack_random_factor tx < 1 \<and> tx_nstart tx \<noteq> 0) }"

record retry_state =
  retry_count :: nat
  recv_timeout :: duration

definition update_retry_state :: "retry_state \<Rightarrow> (retry_state \<times> int) option" where
  "update_retry_state rs = do {
     t \<leftarrow> duration_mul (recv_timeout rs) 2;
     let rs = rs\<lparr>recv_timeout := t, retry_count := (retry_count rs + 1) mod 2 ^ 32\<rparr>;
     Some (rs, if duration_valid (recv_timeout rs) then 0 else - 1) }"

definition all_retries_sent :: "retry_state \<Rightarrow> udp_tx_params \<Rightarrow> bool" where
  "all_retries_sent rs tx \<longleftrightarrow> retry_count rs \<ge> tx_max_retransmit tx"

section \<open>The outside world\<close>

text \<open>
  The clock, random bytes read as an integer, the outcome of allocations (the addresses that are in use
  are arguments), the socket, and the rounding of floating point numbers. \<open>pf_receive\<close> gets the buffer
  and returns its new contents and the size of the packet.
\<close>

record 'w platform =
  pf_now :: "'w \<Rightarrow> monotonic \<times> 'w"
  pf_random :: "'w \<Rightarrow> nat option \<times> 'w"
  pf_alloc :: "'w \<Rightarrow> bool \<times> 'w"
  pf_new_job :: "'w \<Rightarrow> nat list \<Rightarrow> nat option \<times> 'w"
  pf_new_endpoint :: "'w \<Rightarrow> nat list \<Rightarrow> nat option \<times> 'w"
  pf_send :: "'w \<Rightarrow> bytes \<Rightarrow> avs_error \<times> 'w"
  pf_receive :: "'w \<Rightarrow> bytes \<Rightarrow> (bytes \<times> nat \<times> avs_error) \<times> 'w"
  pf_inner_mtu :: "'w \<Rightarrow> int option"
  pf_remote_host :: "'w \<Rightarrow> string option"
  pf_remote_port :: "'w \<Rightarrow> string option"
  pf_double :: rounding

text \<open>
  The shift of \<open>1\<close>, an \<open>int\<close>, by 31 places or more is undefined, which \<open>avs_coap_udp_tx_params_valid\<close>
  does not rule out.
\<close>

definition max_transmit_span :: "rounding \<Rightarrow> udp_tx_params \<Rightarrow> duration option" where
  "max_transmit_span rnd tx = do {
     c_assert (tx_max_retransmit tx < 31);
     duration_fmul rnd (tx_ack_timeout tx) (rnd (of_int (2 ^ tx_max_retransmit tx - 1) * tx_ack_random_factor tx)) }"

definition random_multiplier :: "rounding \<Rightarrow> udp_tx_params \<Rightarrow> nat \<Rightarrow> real option" where
  "random_multiplier rnd tx random = do {
     r \<leftarrow> rnd (of_nat random / 4294967295);
     f \<leftarrow> rnd (tx_ack_random_factor tx - 1);
     random_factor \<leftarrow> rnd (r * f);
     rnd (1 + random_factor) }"

definition random_timeout :: "rounding \<Rightarrow> udp_tx_params \<Rightarrow> nat \<Rightarrow> duration option" where
  "random_timeout rnd tx random = duration_fmul rnd (tx_ack_timeout tx) (random_multiplier rnd tx random)"

definition are_tx_params_sane :: "rounding \<Rightarrow> udp_tx_params \<Rightarrow> bool option" where
  "are_tx_params_sane rnd tx = do {
     t \<leftarrow> duration_fmul rnd (tx_ack_timeout tx) (Some (tx_ack_random_factor tx));
     Some (duration_valid t) }"

definition exchange_lifetime :: "'w platform \<Rightarrow> udp_tx_params \<Rightarrow> duration option" where
  "exchange_lifetime pf tx = do {
     latencies \<leftarrow> duration_mul \<lparr>dur_seconds = 100, dur_nanoseconds = 0\<rparr> 2;
     span \<leftarrow> max_transmit_span (pf_double pf) tx;
     t \<leftarrow> duration_add span latencies;
     duration_add t (tx_ack_timeout tx) }"

section \<open>The context\<close>

record borrowed_msg =
  bm_code :: byte
  bm_token :: token
  bm_options :: coap_options
  bm_payload_offset :: nat
  bm_payload :: "bytes option"
  bm_payload_size :: nat
  bm_total_payload_size :: nat

datatype send_result = RESULT_PARTIAL_CONTENT | RESULT_OK | RESULT_FAIL | RESULT_CANCEL

datatype handler_result = RESPONSE_ACCEPTED | RESPONSE_NOT_ACCEPTED

text \<open>The function pointer and the argument of a send result handler are one value \<open>'h\<close>.\<close>

record 'h unconfirmed =
  unc_handler :: "'h option"
  unc_retry_state :: retry_state
  unc_hold :: bool
  unc_next_retransmit :: monotonic
  unc_msg :: udp_msg
  unc_packet_size :: nat
  unc_packet :: bytes

record current_request =
  cur_exists :: bool
  cur_msg_id :: nat
  cur_token :: token

record coap_stats =
  outgoing_retransmissions_count :: nat
  incoming_retransmissions_count :: nat

text \<open>
  The fields of \<open>avs_coap_udp_ctx_t\<close>, with those of its \<open>base\<close> that are used here: the shared
  output buffer and whether it is acquired, the capacity of the input buffer, the scheduler, and
  the handle of the retry job in it. Function pointers of scheduler jobs are numbers.
\<close>

record ('h, 'w) udp_ctx =
  uc_unconfirmed :: "'h unconfirmed list"
  uc_last_mtu :: nat
  uc_forced_incoming_mtu :: nat
  uc_tx_params :: udp_tx_params
  uc_stats :: coap_stats
  uc_last_msg_id :: nat
  uc_current_request :: current_request
  uc_response_cache :: "response_cache option"
  uc_notify_cache :: "(nat \<times> token) list"
  uc_out_buffer :: bytes
  uc_out_acquired :: bool
  uc_in_capacity :: nat
  uc_sched :: "nat sched"
  uc_retry_job :: nat
  uc_world :: 'w

text \<open>The callbacks; \<open>None\<close> is a callback that does not return.\<close>

record ('h, 'w) upper_layer =
  up_send_result :: "'h \<Rightarrow> ('h, 'w) udp_ctx \<Rightarrow> send_result \<Rightarrow> avs_error \<Rightarrow> borrowed_msg option
    \<Rightarrow> (handler_result \<times> ('h, 'w) udp_ctx) option"
  up_observe_cancel :: "token \<Rightarrow> ('h, 'w) udp_ctx \<Rightarrow> ('h, 'w) udp_ctx option"

abbreviation (input) retry_or_request_expired_job :: nat where "retry_or_request_expired_job \<equiv> 0"

section \<open>Access to the outside world\<close>

definition ctx_now :: "'w platform \<Rightarrow> ('h, 'w) udp_ctx \<Rightarrow> monotonic \<times> ('h, 'w) udp_ctx" where
  "ctx_now pf ctx = (case pf_now pf (uc_world ctx) of (t, w) \<Rightarrow> (t, ctx\<lparr>uc_world := w\<rparr>))"

definition ctx_random :: "'w platform \<Rightarrow> ('h, 'w) udp_ctx \<Rightarrow> nat option \<times> ('h, 'w) udp_ctx" where
  "ctx_random pf ctx = (case pf_random pf (uc_world ctx) of (r, w) \<Rightarrow> (r, ctx\<lparr>uc_world := w\<rparr>))"

definition ctx_alloc :: "'w platform \<Rightarrow> ('h, 'w) udp_ctx \<Rightarrow> bool \<times> ('h, 'w) udp_ctx" where
  "ctx_alloc pf ctx = (case pf_alloc pf (uc_world ctx) of (ok, w) \<Rightarrow> (ok, ctx\<lparr>uc_world := w\<rparr>))"

definition ctx_send :: "'w platform \<Rightarrow> ('h, 'w) udp_ctx \<Rightarrow> bytes \<Rightarrow> avs_error \<times> ('h, 'w) udp_ctx" where
  "ctx_send pf ctx packet = (case pf_send pf (uc_world ctx) packet of (err, w) \<Rightarrow> (err, ctx\<lparr>uc_world := w\<rparr>))"

definition ctx_receive :: "'w platform \<Rightarrow> ('h, 'w) udp_ctx \<Rightarrow> bytes \<Rightarrow> (bytes \<times> nat \<times> avs_error) \<times> ('h, 'w) udp_ctx" where
  "ctx_receive pf ctx buf = (case pf_receive pf (uc_world ctx) buf of (r, w) \<Rightarrow> (r, ctx\<lparr>uc_world := w\<rparr>))"

definition remote_endpoint :: "'w platform \<Rightarrow> ('h, 'w) udp_ctx \<Rightarrow> (string \<times> string) option" where
  "remote_endpoint pf ctx =
     (case pf_remote_host pf (uc_world ctx) of
        None \<Rightarrow> None
      | Some addr \<Rightarrow> (case pf_remote_port pf (uc_world ctx) of None \<Rightarrow> None | Some port \<Rightarrow> Some (addr, port)))"

section \<open>Sent notifications\<close>

text \<open>The array of entries, up to its size.\<close>

abbreviation (input) NOTIFY_CACHE_SIZE :: nat where "NOTIFY_CACHE_SIZE \<equiv> 4"

fun notify_cache_get :: "(nat \<times> token) list \<Rightarrow> nat \<Rightarrow> token option" where
  "notify_cache_get [] msg_id = None"
| "notify_cache_get ((i, t) # es) msg_id = (if i = msg_id then Some t else notify_cache_get es msg_id)"

definition notify_cache_drop_entry :: "(nat \<times> token) list \<Rightarrow> nat \<Rightarrow> (nat \<times> token) list option" where
  "notify_cache_drop_entry cache n = do {
     c_assert (n < length cache);
     Some (take n cache @ drop (Suc n) cache) }"

definition notify_cache_drop :: "(nat \<times> token) list \<Rightarrow> nat \<Rightarrow> (nat \<times> token) list option" where
  "notify_cache_drop cache msg_id =
     (case find_pos (\<lambda>e. fst e = msg_id) cache of
        None \<Rightarrow> Some cache
      | Some n \<Rightarrow> do {
          cache \<leftarrow> notify_cache_drop_entry cache n;
          c_assert (notify_cache_get cache msg_id = None);
          Some cache })"

definition notify_cache_put :: "(nat \<times> token) list \<Rightarrow> nat \<Rightarrow> token \<Rightarrow> (nat \<times> token) list option" where
  "notify_cache_put cache msg_id tok = do {
     cache \<leftarrow> (if length cache = NOTIFY_CACHE_SIZE then notify_cache_drop_entry cache 0 else Some cache);
     c_assert (length cache < NOTIFY_CACHE_SIZE);
     Some (cache @ [(msg_id, tok)]) }"

section \<open>Sizes, message identifiers and the limit on interactions\<close>

definition update_last_mtu_from_socket :: "'w platform \<Rightarrow> ('h, 'w) udp_ctx \<Rightarrow> ('h, 'w) udp_ctx" where
  "update_last_mtu_from_socket pf ctx =
     (case pf_inner_mtu pf (uc_world ctx) of
        None \<Rightarrow> ctx
      | Some mtu \<Rightarrow> if mtu \<le> 0 then ctx else ctx\<lparr>uc_last_mtu := nat mtu\<rparr>)"

definition udp_max_payload_size :: "nat \<Rightarrow> nat \<Rightarrow> nat \<Rightarrow> nat \<Rightarrow> nat" where
  "udp_max_payload_size buffer_capacity mtu tok_size options_size =
     (let msg_size = (4 + tok_size + options_size + 1) mod 2 ^ 64;
          max_msg_size = min mtu buffer_capacity
      in if msg_size > max_msg_size then 0 else max_msg_size - msg_size)"

definition max_outgoing_payload_size ::
  "'w platform \<Rightarrow> ('h, 'w) udp_ctx \<Rightarrow> nat \<Rightarrow> coap_options option \<Rightarrow> nat \<times> ('h, 'w) udp_ctx" where
  "max_outgoing_payload_size pf ctx tok_size options =
     (let ctx = update_last_mtu_from_socket pf ctx
      in (udp_max_payload_size (length (uc_out_buffer ctx)) (uc_last_mtu ctx) tok_size
            (case options of None \<Rightarrow> 0 | Some opts \<Rightarrow> opts_size opts), ctx))"

definition max_incoming_payload_size ::
  "'w platform \<Rightarrow> ('h, 'w) udp_ctx \<Rightarrow> nat \<Rightarrow> coap_options option \<Rightarrow> nat \<times> ('h, 'w) udp_ctx" where
  "max_incoming_payload_size pf ctx tok_size options =
     (let (mtu, ctx) =
          (if uc_forced_incoming_mtu ctx \<le> 0 then
             let ctx = update_last_mtu_from_socket pf ctx in (uc_last_mtu ctx, ctx)
           else (uc_forced_incoming_mtu ctx, ctx))
      in (udp_max_payload_size (uc_in_capacity ctx) mtu tok_size
            (case options of None \<Rightarrow> 0 | Some opts \<Rightarrow> opts_size opts), ctx))"

definition generate_id :: "('h, 'w) udp_ctx \<Rightarrow> nat \<times> ('h, 'w) udp_ctx" where
  "generate_id ctx = (uc_last_msg_id ctx, ctx\<lparr>uc_last_msg_id := (uc_last_msg_id ctx + 1) mod 2 ^ 16\<rparr>)"

fun started_messages :: "'h unconfirmed list \<Rightarrow> nat" where
  "started_messages [] = 0"
| "started_messages (u # us) = (if \<not> unc_hold u then Suc (started_messages us) else 0)"

definition current_nstart :: "('h, 'w) udp_ctx \<Rightarrow> nat" where
  "current_nstart ctx = started_messages (uc_unconfirmed ctx)"

fun effective_nstart_from :: "nat \<Rightarrow> 'h unconfirmed list \<Rightarrow> nat \<Rightarrow> nat" where
  "effective_nstart_from nstart [] result = result"
| "effective_nstart_from nstart (u # us) result =
     (if result + 1 \<ge> nstart then result + 1 else effective_nstart_from nstart us (result + 1))"

definition effective_nstart :: "('h, 'w) udp_ctx \<Rightarrow> nat" where
  "effective_nstart ctx = effective_nstart_from (tx_nstart (uc_tx_params ctx)) (uc_unconfirmed ctx) 0"

section \<open>Sending\<close>

definition try_cache_response :: "'w platform \<Rightarrow> ('h, 'w) udp_ctx \<Rightarrow> udp_msg \<Rightarrow> ('h, 'w) udp_ctx option" where
  "try_cache_response pf ctx res = do {
     let msg_id = header_get_id (msg_header res);
     notify_cache \<leftarrow> notify_cache_drop (uc_notify_cache ctx) msg_id;
     let ctx = ctx\<lparr>uc_notify_cache := notify_cache\<rparr>;
     if \<not> code_is_response (hdr_code (msg_header res)) then Some ctx
     else do {
       let type = header_get_type (msg_header res);
       observe \<leftarrow> (if type = CONFIRMABLE \<or> type = NON_CONFIRMABLE then option_exists (msg_options res) 6 else Some False);
       notify_cache \<leftarrow> (if observe then notify_cache_put (uc_notify_cache ctx) msg_id (msg_token res)
                      else Some (uc_notify_cache ctx));
       let ctx = ctx\<lparr>uc_notify_cache := notify_cache\<rparr>;
       (case uc_response_cache ctx of
          None \<Rightarrow> Some ctx
        | Some cache \<Rightarrow>
            (case remote_endpoint pf ctx of
               None \<Rightarrow> Some ctx
             | Some (addr, port) \<Rightarrow> do {
                 let (now, ctx) = ctx_now pf ctx;
                 let (new_ep, w) = pf_new_endpoint pf (uc_world ctx) (map fst (rc_endpoints cache));
                 let ctx = ctx\<lparr>uc_world := w\<rparr>;
                 lifetime \<leftarrow> exchange_lifetime pf (uc_tx_params ctx);
                 (response_cache, _) \<leftarrow> response_cache_add (Some cache) new_ep now lifetime addr port res;
                 Some (ctx\<lparr>uc_response_cache := response_cache\<rparr>) })) } }"

definition send_serialized_msg ::
  "'w platform \<Rightarrow> ('h, 'w) udp_ctx \<Rightarrow> udp_msg \<Rightarrow> bytes \<Rightarrow> nat \<Rightarrow> (avs_error \<times> ('h, 'w) udp_ctx) option" where
  "send_serialized_msg pf ctx msg msg_buf msg_size = do {
     ctx \<leftarrow> try_cache_response pf ctx msg;
     packet \<leftarrow> rd_bytes msg_buf 0 msg_size;
     Some (ctx_send pf ctx packet) }"

section \<open>Times of retransmissions\<close>

definition initial_retry_state ::
  "'w platform \<Rightarrow> ('h, 'w) udp_ctx \<Rightarrow> retry_state \<Rightarrow> (avs_error \<times> retry_state \<times> ('h, 'w) udp_ctx) option" where
  "initial_retry_state pf ctx out_retry_state =
     (case ctx_random pf ctx of
        (None, ctx) \<Rightarrow> Some (AVS_COAP_ERR_PRNG_FAIL, out_retry_state, ctx)
      | (Some random, ctx) \<Rightarrow> do {
          t \<leftarrow> random_timeout (pf_double pf) (uc_tx_params ctx) (random mod 2 ^ 32);
          Some (AVS_OK, \<lparr>retry_count = 0, recv_timeout = t\<rparr>, ctx) })"

definition get_first_retransmit_time ::
  "'w platform \<Rightarrow> ('h, 'w) udp_ctx \<Rightarrow> (monotonic \<times> ('h, 'w) udp_ctx) option" where
  "get_first_retransmit_time pf ctx = do {
     let initial_state = \<lparr>retry_count = 0, recv_timeout = \<lparr>dur_seconds = 0, dur_nanoseconds = 0\<rparr>\<rparr>;
     (err, initial_state, ctx) \<leftarrow> initial_retry_state pf ctx initial_state;
     if err \<noteq> AVS_OK then Some (AVS_TIME_DURATION_INVALID, ctx)
     else do {
       let (now, ctx) = ctx_now pf ctx;
       t \<leftarrow> monotonic_add now (recv_timeout initial_state);
       Some (t, ctx) } }"

text \<open>The order of the list: (hold, time of the next retransmission).\<close>

definition unc_before :: "'h unconfirmed \<Rightarrow> 'h unconfirmed \<Rightarrow> bool" where
  "unc_before new e \<longleftrightarrow> \<not> unc_hold new \<and> unc_hold e
     \<or> unc_hold new = unc_hold e \<and> monotonic_before (unc_next_retransmit new) (unc_next_retransmit e)"

text \<open>\<open>AVS_LIST_INSERT\<close> at the pointer that \<open>find_unconfirmed_insert_ptr\<close> finds.\<close>

fun insert_unconfirmed :: "'h unconfirmed \<Rightarrow> 'h unconfirmed list \<Rightarrow> 'h unconfirmed list" where
  "insert_unconfirmed new [] = [new]"
| "insert_unconfirmed new (e # es) = (if unc_before new e then new # e # es else e # insert_unconfirmed new es)"

definition ctx_insert :: "'h unconfirmed \<Rightarrow> ('h, 'w) udp_ctx \<Rightarrow> ('h, 'w) udp_ctx" where
  "ctx_insert u ctx = ctx\<lparr>uc_unconfirmed := insert_unconfirmed u (uc_unconfirmed ctx)\<rparr>"

definition find_first_held :: "'h unconfirmed list \<Rightarrow> nat option" where
  "find_first_held us = find_pos unc_hold us"

text \<open>\<open>AVS_LIST_DETACH\<close> at a position of the list.\<close>

definition ctx_detach :: "('h, 'w) udp_ctx \<Rightarrow> nat \<Rightarrow> ('h unconfirmed \<times> ('h, 'w) udp_ctx) option" where
  "ctx_detach ctx n = do {
     c_assert (n < length (uc_unconfirmed ctx));
     Some (uc_unconfirmed ctx ! n,
           ctx\<lparr>uc_unconfirmed := take n (uc_unconfirmed ctx) @ drop (Suc n) (uc_unconfirmed ctx)\<rparr>) }"

definition reschedule_retry_job :: "'w platform \<Rightarrow> ('h, 'w) udp_ctx \<Rightarrow> monotonic \<Rightarrow> ('h, 'w) udp_ctx option" where
  "reschedule_retry_job pf ctx target_time = do {
     t \<leftarrow> sched_time (uc_sched ctx) (Some (uc_retry_job ctx));
     if monotonic_before t target_time then Some ctx
     else do {
       let (new_job, w) = pf_new_job pf (uc_world ctx) (map fst (sched_jobs (uc_sched ctx)));
       let ctx = ctx\<lparr>uc_world := w\<rparr>;
       (sched, _) \<leftarrow> sched_at (uc_sched ctx) (Some (uc_retry_job ctx)) target_time
                      (Some retry_or_request_expired_job) new_job;
       Some (ctx\<lparr>uc_sched := sched\<rparr>) } }"

definition reschedule_retransmission_job :: "'w platform \<Rightarrow> ('h, 'w) udp_ctx \<Rightarrow> ('h, 'w) udp_ctx option" where
  "reschedule_retransmission_job pf ctx =
     (case uc_unconfirmed ctx of
        [] \<Rightarrow> Some ctx
      | u # us \<Rightarrow> do {
          let (target_time, ctx) =
            (if current_nstart ctx < effective_nstart ctx then ctx_now pf ctx else (unc_next_retransmit u, ctx));
          reschedule_retry_job pf ctx target_time })"

section \<open>The end of an exchange\<close>

definition borrowed_msg_from_udp_msg :: "udp_msg \<Rightarrow> borrowed_msg" where
  "borrowed_msg_from_udp_msg msg =
     \<lparr>bm_code = hdr_code (msg_header msg), bm_token = msg_token msg, bm_options = msg_options msg,
      bm_payload_offset = 0, bm_payload = msg_payload msg, bm_payload_size = msg_payload_size msg,
      bm_total_payload_size = msg_payload_size msg\<rparr>"

definition call_send_result_handler ::
  "('h, 'w) upper_layer \<Rightarrow> ('h, 'w) udp_ctx \<Rightarrow> 'h unconfirmed \<Rightarrow> udp_msg option \<Rightarrow> send_result \<Rightarrow> avs_error
   \<Rightarrow> (handler_result \<times> ('h, 'w) udp_ctx) option" where
  "call_send_result_handler up ctx u response_msg result fail_err = do {
     handler \<leftarrow> unc_handler u;
     c_assert (if result = RESULT_FAIL then fail_err \<noteq> AVS_OK else fail_err = AVS_OK);
     up_send_result up handler ctx result fail_err (map_option borrowed_msg_from_udp_msg response_msg) }"

fun fail_held_messages ::
  "('h, 'w) upper_layer \<Rightarrow> 'h unconfirmed list \<Rightarrow> ('h, 'w) udp_ctx \<Rightarrow> ('h, 'w) udp_ctx option" where
  "fail_held_messages up [] ctx = Some ctx"
| "fail_held_messages up (u # us) ctx = do {
     (_, ctx) \<leftarrow> call_send_result_handler up ctx u None RESULT_FAIL AVS_COAP_ERR_TIME_INVALID;
     fail_held_messages up us ctx }"

definition resume_next_unconfirmed ::
  "('h, 'w) upper_layer \<Rightarrow> 'w platform \<Rightarrow> ('h, 'w) udp_ctx \<Rightarrow> ('h, 'w) udp_ctx option" where
  "resume_next_unconfirmed up pf ctx =
     (case find_first_held (uc_unconfirmed ctx) of
        None \<Rightarrow> Some ctx
      | Some n \<Rightarrow> do {
          (next_retransmit, ctx) \<leftarrow> get_first_retransmit_time pf ctx;
          if \<not> monotonic_valid next_retransmit then do {
            let held_messages = drop n (uc_unconfirmed ctx);
            let ctx = ctx\<lparr>uc_unconfirmed := take n (uc_unconfirmed ctx)\<rparr>;
            fail_held_messages up held_messages ctx }
          else do {
            (u, ctx) \<leftarrow> ctx_detach ctx n;
            let u = u\<lparr>unc_hold := False, unc_next_retransmit := next_retransmit\<rparr>;
            (send_err, ctx) \<leftarrow> send_serialized_msg pf ctx (unc_msg u) (unc_packet u) (unc_packet_size u);
            if send_err \<noteq> AVS_OK then do {
              (_, ctx) \<leftarrow> call_send_result_handler up ctx u None RESULT_FAIL send_err;
              Some ctx }
            else Some (ctx_insert u ctx) } })"

text \<open>Resuming messages one by one. Handlers may add messages, so the loop need not end.\<close>

partial_function (option) resume_loop ::
  "('h, 'w) upper_layer \<Rightarrow> 'w platform \<Rightarrow> ('h, 'w) udp_ctx \<Rightarrow> ('h, 'w) udp_ctx option" where
  "resume_loop up pf ctx =
     (if current_nstart ctx < effective_nstart ctx then do {
        ctx \<leftarrow> resume_next_unconfirmed up pf ctx;
        resume_loop up pf ctx }
      else Some ctx)"

definition resume_unconfirmed_messages ::
  "('h, 'w) upper_layer \<Rightarrow> 'w platform \<Rightarrow> ('h, 'w) udp_ctx \<Rightarrow> ('h, 'w) udp_ctx option" where
  "resume_unconfirmed_messages up pf ctx = do {
     c_assert (current_nstart ctx \<le> tx_nstart (uc_tx_params ctx));
     ctx \<leftarrow> resume_loop up pf ctx;
     c_assert (current_nstart ctx = effective_nstart ctx);
     Some ctx }"

text \<open>The message has been detached by the caller.\<close>

definition try_cleanup_unconfirmed ::
  "('h, 'w) upper_layer \<Rightarrow> 'w platform \<Rightarrow> ('h, 'w) udp_ctx \<Rightarrow> 'h unconfirmed \<Rightarrow> udp_msg option \<Rightarrow> send_result
   \<Rightarrow> avs_error \<Rightarrow> ('h, 'w) udp_ctx option" where
  "try_cleanup_unconfirmed up pf ctx u response result fail_err = do {
     (handler_result, ctx) \<leftarrow> call_send_result_handler up ctx u response result fail_err;
     if response \<noteq> None \<and> result = RESULT_OK \<and> handler_result \<noteq> RESPONSE_ACCEPTED
     then Some (ctx_insert u ctx)
     else reschedule_retransmission_job pf ctx }"

section \<open>Finding unconfirmed messages\<close>

datatype exchange_direction = EXCHANGE_ANY | EXCHANGE_CLIENT_REQUEST | EXCHANGE_SERVER_NOTIFICATION

definition direction_from_code :: "byte \<Rightarrow> exchange_direction" where
  "direction_from_code code = (if code_is_request code then EXCHANGE_CLIENT_REQUEST else EXCHANGE_SERVER_NOTIFICATION)"

definition unconfirmed_matches ::
  "exchange_direction \<Rightarrow> token option \<Rightarrow> nat option \<Rightarrow> 'h unconfirmed \<Rightarrow> bool option" where
  "unconfirmed_matches direction tok i u =
     (if direction = EXCHANGE_ANY \<or> direction = direction_from_code (hdr_code (msg_header (unc_msg u))) then do {
        same_token \<leftarrow> (case tok of None \<Rightarrow> Some True | Some t \<Rightarrow> token_equal (msg_token (unc_msg u)) t);
        Some (same_token \<and> (case i of None \<Rightarrow> True | Some i \<Rightarrow> header_get_id (msg_header (unc_msg u)) = i)) }
      else Some False)"

fun find_unconfirmed ::
  "exchange_direction \<Rightarrow> token option \<Rightarrow> nat option \<Rightarrow> 'h unconfirmed list \<Rightarrow> nat option option" where
  "find_unconfirmed direction tok i [] = Some None"
| "find_unconfirmed direction tok i (u # us) = do {
     found \<leftarrow> unconfirmed_matches direction tok i u;
     if found then Some (Some 0)
     else do { r \<leftarrow> find_unconfirmed direction tok i us; Some (map_option Suc r) } }"

definition find_unconfirmed_by_token :: "('h, 'w) udp_ctx \<Rightarrow> exchange_direction \<Rightarrow> token \<Rightarrow> nat option option" where
  "find_unconfirmed_by_token ctx direction tok = find_unconfirmed direction (Some tok) None (uc_unconfirmed ctx)"

definition find_unconfirmed_by_msg_id :: "('h, 'w) udp_ctx \<Rightarrow> nat \<Rightarrow> nat option option" where
  "find_unconfirmed_by_msg_id ctx msg_id = find_unconfirmed EXCHANGE_ANY None (Some msg_id) (uc_unconfirmed ctx)"

definition find_unconfirmed_by_response :: "('h, 'w) udp_ctx \<Rightarrow> udp_msg \<Rightarrow> nat option option" where
  "find_unconfirmed_by_response ctx msg = do {
     c_assert (code_is_response (hdr_code (msg_header msg)));
     let i = header_get_id (msg_header msg);
     (case header_get_type (msg_header msg) of
        CONFIRMABLE \<Rightarrow> find_unconfirmed_by_token ctx EXCHANGE_CLIENT_REQUEST (msg_token msg)
      | NON_CONFIRMABLE \<Rightarrow> find_unconfirmed_by_token ctx EXCHANGE_CLIENT_REQUEST (msg_token msg)
      | ACKNOWLEDGEMENT \<Rightarrow> find_unconfirmed EXCHANGE_CLIENT_REQUEST (Some (msg_token msg)) (Some i) (uc_unconfirmed ctx)
      | RESET \<Rightarrow> None) }"

definition detach_unconfirmed_by_token ::
  "('h, 'w) udp_ctx \<Rightarrow> exchange_direction \<Rightarrow> token \<Rightarrow> ('h unconfirmed option \<times> ('h, 'w) udp_ctx) option" where
  "detach_unconfirmed_by_token ctx direction tok = do {
     msg_ptr \<leftarrow> find_unconfirmed_by_token ctx direction tok;
     (case msg_ptr of
        None \<Rightarrow> Some (None, ctx)
      | Some n \<Rightarrow> do { (u, ctx) \<leftarrow> ctx_detach ctx n; Some (Some u, ctx) }) }"

definition confirm_unconfirmed ::
  "('h, 'w) upper_layer \<Rightarrow> 'w platform \<Rightarrow> ('h, 'w) udp_ctx \<Rightarrow> nat \<Rightarrow> udp_msg option \<Rightarrow> ('h, 'w) udp_ctx option" where
  "confirm_unconfirmed up pf ctx n response = do {
     (u, ctx) \<leftarrow> ctx_detach ctx n;
     try_cleanup_unconfirmed up pf ctx u response RESULT_OK AVS_OK }"

definition fail_unconfirmed ::
  "('h, 'w) upper_layer \<Rightarrow> 'w platform \<Rightarrow> ('h, 'w) udp_ctx \<Rightarrow> nat \<Rightarrow> udp_msg option \<Rightarrow> avs_error
   \<Rightarrow> ('h, 'w) udp_ctx option" where
  "fail_unconfirmed up pf ctx n truncated_msg err = do {
     (u, ctx) \<leftarrow> ctx_detach ctx n;
     try_cleanup_unconfirmed up pf ctx u truncated_msg RESULT_FAIL err }"

datatype coap_exchange_direction = COAP_CLIENT_REQUEST | COAP_SERVER_NOTIFICATION

primrec udp_direction :: "coap_exchange_direction \<Rightarrow> exchange_direction" where
  "udp_direction COAP_CLIENT_REQUEST = EXCHANGE_CLIENT_REQUEST"
| "udp_direction COAP_SERVER_NOTIFICATION = EXCHANGE_SERVER_NOTIFICATION"

definition abort_delivery ::
  "('h, 'w) upper_layer \<Rightarrow> 'w platform \<Rightarrow> ('h, 'w) udp_ctx \<Rightarrow> coap_exchange_direction \<Rightarrow> token \<Rightarrow> send_result
   \<Rightarrow> avs_error \<Rightarrow> ('h, 'w) udp_ctx option" where
  "abort_delivery up pf ctx direction tok result fail_err = do {
     (msg, ctx) \<leftarrow> detach_unconfirmed_by_token ctx (udp_direction direction) tok;
     (case msg of
        None \<Rightarrow> Some ctx
      | Some u \<Rightarrow> try_cleanup_unconfirmed up pf ctx u None result fail_err) }"

definition ignore_current_request :: "('h, 'w) udp_ctx \<Rightarrow> token \<Rightarrow> ('h, 'w) udp_ctx option" where
  "ignore_current_request ctx tok =
     (if cur_exists (uc_current_request ctx) then do {
        same \<leftarrow> token_equal (cur_token (uc_current_request ctx)) tok;
        c_assert same;
        Some (ctx\<lparr>uc_current_request := (uc_current_request ctx)\<lparr>cur_exists := False\<rparr>\<rparr>) }
      else Some ctx)"

section \<open>Retransmission\<close>

definition set_head :: "'h unconfirmed \<Rightarrow> ('h, 'w) udp_ctx \<Rightarrow> ('h, 'w) udp_ctx" where
  "set_head u ctx = ctx\<lparr>uc_unconfirmed := (uc_unconfirmed ctx)[0 := u]\<rparr>"

definition count_outgoing_retransmission :: "('h, 'w) udp_ctx \<Rightarrow> ('h, 'w) udp_ctx" where
  "count_outgoing_retransmission ctx =
     ctx\<lparr>uc_stats := (uc_stats ctx)\<lparr>outgoing_retransmissions_count :=
       (outgoing_retransmissions_count (uc_stats ctx) + 1) mod 2 ^ 32\<rparr>\<rparr>"

definition retransmit_next_message ::
  "('h, 'w) upper_layer \<Rightarrow> 'w platform \<Rightarrow> ('h, 'w) udp_ctx \<Rightarrow> ('h, 'w) udp_ctx option" where
  "retransmit_next_message up pf ctx =
     (case uc_unconfirmed ctx of
        [] \<Rightarrow> Some ctx
      | u # _ \<Rightarrow> do {
          let (now, ctx) = ctx_now pf ctx;
          if monotonic_before now (unc_next_retransmit u) then Some ctx
          else if all_retries_sent (unc_retry_state u) (uc_tx_params ctx)
          then fail_unconfirmed up pf ctx 0 None AVS_COAP_ERR_TIMEOUT
          else do {
            (retry, result) \<leftarrow> update_retry_state (unc_retry_state u);
            let u = u\<lparr>unc_retry_state := retry\<rparr>;
            let ctx = set_head u ctx;
            if result \<noteq> 0 then fail_unconfirmed up pf ctx 0 None AVS_COAP_ERR_TIME_INVALID
            else do {
              (err, ctx) \<leftarrow> send_serialized_msg pf ctx (unc_msg u) (unc_packet u) (unc_packet_size u);
              if err \<noteq> AVS_OK then fail_unconfirmed up pf ctx 0 None err
              else do {
                let ctx = count_outgoing_retransmission ctx;
                next_retransmit \<leftarrow> monotonic_add (unc_next_retransmit u) (recv_timeout (unc_retry_state u));
                if \<not> monotonic_valid (unc_next_retransmit u)
                then fail_unconfirmed up pf ctx 0 None AVS_COAP_ERR_TIME_INVALID
                else do {
                  let ctx = set_head (u\<lparr>unc_next_retransmit := next_retransmit\<rparr>) ctx;
                  (u, ctx) \<leftarrow> ctx_detach ctx 0;
                  let ctx = ctx_insert u ctx;
                  c_assert (current_nstart ctx = min (length (uc_unconfirmed ctx)) (tx_nstart (uc_tx_params ctx)));
                  Some ctx } } } } })"

definition on_timeout ::
  "('h, 'w) upper_layer \<Rightarrow> 'w platform \<Rightarrow> ('h, 'w) udp_ctx \<Rightarrow> (monotonic \<times> ('h, 'w) udp_ctx) option" where
  "on_timeout up pf ctx = do {
     ctx \<leftarrow> resume_unconfirmed_messages up pf ctx;
     ctx \<leftarrow> retransmit_next_message up pf ctx;
     (case uc_unconfirmed ctx of
        u # _ \<Rightarrow> Some (unc_next_retransmit u, ctx)
      | [] \<Rightarrow> Some (AVS_TIME_DURATION_INVALID, ctx)) }"

section \<open>New messages\<close>

definition enqueue_unconfirmed ::
  "'w platform \<Rightarrow> ('h, 'w) udp_ctx \<Rightarrow> 'h unconfirmed \<Rightarrow> (avs_error \<times> ('h, 'w) udp_ctx) option" where
  "enqueue_unconfirmed pf ctx u = do {
     c_assert (tx_nstart (uc_tx_params ctx) > 0);
     let u = u\<lparr>unc_hold := tx_nstart (uc_tx_params ctx) - 1 < length (uc_unconfirmed ctx)\<rparr>;
     (next_retransmit, ctx) \<leftarrow> (if unc_hold u then Some (ctx_now pf ctx) else get_first_retransmit_time pf ctx);
     if \<not> monotonic_valid (unc_next_retransmit u) then Some (AVS_COAP_ERR_TIME_INVALID, ctx)
     else do {
       let u = u\<lparr>unc_next_retransmit := next_retransmit\<rparr>;
       (err, ctx) \<leftarrow> (if unc_hold u then Some (AVS_OK, ctx)
                   else send_serialized_msg pf ctx (unc_msg u) (unc_packet u) (unc_packet_size u));
       if err \<noteq> AVS_OK then Some (err, ctx)
       else do {
         ctx \<leftarrow> reschedule_retransmission_job pf (ctx_insert u ctx);
         Some (AVS_OK, ctx) } } }"

text \<open>The new element, or the error that prevents its creation.\<close>

definition create_unconfirmed ::
  "'w platform \<Rightarrow> ('h, 'w) udp_ctx \<Rightarrow> udp_msg \<Rightarrow> 'h option \<Rightarrow> (('h unconfirmed option \<times> avs_error) \<times> ('h, 'w) udp_ctx) option" where
  "create_unconfirmed pf ctx msg handler = do {
     let msg_size = udp_msg_size msg;
     let (ok, ctx) = ctx_alloc pf ctx;
     if \<not> ok then Some ((None, AVS_ENOMEM), ctx)
     else do {
       let zero = \<lparr>dur_seconds = 0, dur_nanoseconds = 0\<rparr>;
       let u = \<lparr>unc_handler = handler, unc_retry_state = \<lparr>retry_count = 0, recv_timeout = zero\<rparr>, unc_hold = False,
                unc_next_retransmit = zero, unc_msg = zero_msg, unc_packet_size = msg_size,
                unc_packet = replicate msg_size 0\<rparr>;
       (err, retry, ctx) \<leftarrow> initial_retry_state pf ctx (unc_retry_state u);
       if err \<noteq> AVS_OK then Some ((None, err), ctx)
       else do {
         (copy, packet, err) \<leftarrow> udp_msg_copy msg (unc_msg u) (unc_packet u) msg_size;
         if err \<noteq> AVS_OK then Some ((None, err), ctx)
         else Some ((Some (u\<lparr>unc_retry_state := retry, unc_msg := copy, unc_packet := packet\<rparr>), AVS_OK), ctx) } } }"

definition choose_msg_type :: "('h, 'w) udp_ctx \<Rightarrow> borrowed_msg \<Rightarrow> bool \<Rightarrow> udp_type option" where
  "choose_msg_type ctx msg has_send_result_handler =
     (if code_is_request (bm_code msg) then
        Some (if has_send_result_handler then CONFIRMABLE else NON_CONFIRMABLE)
      else if code_is_response (bm_code msg) then do {
        observe \<leftarrow> option_exists (bm_options msg) 6;
        if observe then
          if has_send_result_handler then Some CONFIRMABLE
          else Some (if cur_exists (uc_current_request ctx) then ACKNOWLEDGEMENT else NON_CONFIRMABLE)
        else Some (if has_send_result_handler then CONFIRMABLE else ACKNOWLEDGEMENT) }
      else do {
        c_assert (bm_code msg = CODE_EMPTY);
        Some ACKNOWLEDGEMENT })"

definition assign_id :: "('h, 'w) udp_ctx \<Rightarrow> borrowed_msg \<Rightarrow> udp_type \<Rightarrow> (nat \<times> ('h, 'w) udp_ctx) option" where
  "assign_id ctx msg type = do {
     answers \<leftarrow> (if cur_exists (uc_current_request ctx) \<and> code_is_response (bm_code msg)
               then token_equal (bm_token msg) (cur_token (uc_current_request ctx)) else Some False);
     let ctx = (if answers then ctx\<lparr>uc_current_request := (uc_current_request ctx)\<lparr>cur_exists := False\<rparr>\<rparr> else ctx);
     if answers \<and> (type = ACKNOWLEDGEMENT \<or> type = RESET) then Some (cur_msg_id (uc_current_request ctx), ctx)
     else Some (generate_id ctx) }"

definition send_message ::
  "'w platform \<Rightarrow> ('h, 'w) udp_ctx \<Rightarrow> borrowed_msg \<Rightarrow> 'h option \<Rightarrow> (avs_error \<times> ('h, 'w) udp_ctx) option" where
  "send_message pf ctx msg send_result_handler = do {
     c_assert (\<not> uc_out_acquired ctx);
     let ctx = ctx\<lparr>uc_out_acquired := True\<rparr>;
     type \<leftarrow> choose_msg_type ctx msg (send_result_handler \<noteq> None);
     (msg_id, ctx) \<leftarrow> assign_id ctx msg type;
     hdr \<leftarrow> header_init type (byte_of (token_size (bm_token msg))) (bm_code msg) msg_id;
     let shared_buffer_msg = \<lparr>msg_header = hdr, msg_token = bm_token msg, msg_options = bm_options msg,
                              msg_payload = bm_payload msg, msg_payload_size = bm_payload_size msg\<rparr>;
     (out_buffer, shared_buffer_msg_size, err) \<leftarrow>
       udp_msg_serialize shared_buffer_msg (uc_out_buffer ctx) (length (uc_out_buffer ctx));
     let ctx = ctx\<lparr>uc_out_buffer := out_buffer\<rparr>;
     (err, ctx) \<leftarrow>
       (if err \<noteq> AVS_OK then Some (err, ctx)
        else if type = CONFIRMABLE then do {
          ((u, err), ctx) \<leftarrow> create_unconfirmed pf ctx shared_buffer_msg send_result_handler;
          (case u of
             None \<Rightarrow> do { c_assert (err \<noteq> AVS_OK); Some (err, ctx) }
           | Some u \<Rightarrow> enqueue_unconfirmed pf ctx u) }
        else send_serialized_msg pf ctx shared_buffer_msg out_buffer shared_buffer_msg_size);
     Some (err, ctx\<lparr>uc_out_acquired := False\<rparr>) }"

section \<open>Receiving\<close>

text \<open>The message, the buffer and the error. The message is what the variable of the caller held before, as
  far as the parser does not assign it.\<close>

definition recv_msg ::
  "'w platform \<Rightarrow> ('h, 'w) udp_ctx \<Rightarrow> udp_msg \<Rightarrow> bytes \<Rightarrow> ((udp_msg \<times> bytes \<times> avs_error) \<times> ('h, 'w) udp_ctx) option" where
  "recv_msg pf ctx out_msg buf = do {
     let ((buf, packet_size, err), ctx) = ctx_receive pf ctx buf;
     if err \<noteq> AVS_OK then Some ((out_msg, buf, err), ctx)
     else do {
       (out_msg, err) \<leftarrow> udp_msg_parse out_msg buf packet_size;
       Some ((out_msg, buf, err), ctx) } }"

text \<open>The error, the flag \<open>*out_cache_hit\<close> and the context. The cached packet is sent as it was when it was
  found: the pointers into the cache are not invalidated by the attempt to add the response again, as
  long as it has not expired between the two calls.\<close>

definition try_send_cached_response ::
  "'w platform \<Rightarrow> ('h, 'w) udp_ctx \<Rightarrow> udp_msg \<Rightarrow> (avs_error \<times> bool \<times> ('h, 'w) udp_ctx) option" where
  "try_send_cached_response pf ctx msg = do {
     c_assert (code_is_request (hdr_code (msg_header msg)));
     c_assert (cur_exists (uc_current_request ctx));
     (case uc_response_cache ctx of
        None \<Rightarrow> Some (AVS_OK, False, ctx)
      | Some cache \<Rightarrow>
          (case remote_endpoint pf ctx of
             None \<Rightarrow> Some (AVS_OK, False, ctx)
           | Some (addr, port) \<Rightarrow> do {
               let msg_id = header_get_id (msg_header msg);
               let (now, ctx) = ctx_now pf ctx;
               (response_cache, err, cached) \<leftarrow> response_cache_get (Some cache) now addr port msg_id
                 \<lparr>cr_msg = zero_msg, cr_packet = [], cr_packet_size = 0\<rparr>;
               let ctx = ctx\<lparr>uc_response_cache := response_cache\<rparr>;
               if err = AVS_OK then do {
                 let ctx = ctx\<lparr>uc_current_request := (uc_current_request ctx)\<lparr>cur_exists := False\<rparr>\<rparr>;
                 (err, ctx) \<leftarrow> send_serialized_msg pf ctx (cr_msg cached) (cr_packet cached) (cr_packet_size cached);
                 Some (err, True, ctx) }
               else Some (AVS_OK, False, ctx) })) }"

definition count_incoming_retransmission :: "('h, 'w) udp_ctx \<Rightarrow> ('h, 'w) udp_ctx" where
  "count_incoming_retransmission ctx =
     ctx\<lparr>uc_stats := (uc_stats ctx)\<lparr>incoming_retransmissions_count :=
       (incoming_retransmissions_count (uc_stats ctx) + 1) mod 2 ^ 32\<rparr>\<rparr>"

text \<open>The error, the flag \<open>*out_should_handle\<close> and the context. The types that the parser refuses for
  a request are \<open>AVS_UNREACHABLE\<close>.\<close>

definition handle_request ::
  "'w platform \<Rightarrow> ('h, 'w) udp_ctx \<Rightarrow> udp_msg \<Rightarrow> (avs_error \<times> bool \<times> ('h, 'w) udp_ctx) option" where
  "handle_request pf ctx msg =
     (if header_get_type (msg_header msg) = CONFIRMABLE \<or> header_get_type (msg_header msg) = NON_CONFIRMABLE then do {
        (err, cache_hit, ctx) \<leftarrow> try_send_cached_response pf ctx msg;
        if cache_hit then Some (err, False, count_incoming_retransmission ctx)
        else Some (AVS_OK, True, ctx) }
      else None)"

definition send_empty :: "'w platform \<Rightarrow> ('h, 'w) udp_ctx \<Rightarrow> udp_type \<Rightarrow> nat \<Rightarrow> (avs_error \<times> ('h, 'w) udp_ctx) option" where
  "send_empty pf ctx type msg_id = do {
     hdr \<leftarrow> header_init type 0 CODE_EMPTY msg_id;
     send_serialized_msg pf ctx (zero_msg\<lparr>msg_header := hdr\<rparr>) (header_bytes hdr) 4 }"

definition send_separate_ack :: "'w platform \<Rightarrow> ('h, 'w) udp_ctx \<Rightarrow> nat \<Rightarrow> (avs_error \<times> ('h, 'w) udp_ctx) option" where
  "send_separate_ack pf ctx msg_id = send_empty pf ctx ACKNOWLEDGEMENT msg_id"

definition send_reset :: "'w platform \<Rightarrow> ('h, 'w) udp_ctx \<Rightarrow> nat \<Rightarrow> (avs_error \<times> ('h, 'w) udp_ctx) option" where
  "send_reset pf ctx msg_id = send_empty pf ctx RESET msg_id"

definition handle_response ::
  "('h, 'w) upper_layer \<Rightarrow> 'w platform \<Rightarrow> ('h, 'w) udp_ctx \<Rightarrow> udp_msg \<Rightarrow> (avs_error \<times> ('h, 'w) udp_ctx) option" where
  "handle_response up pf ctx msg = do {
     found \<leftarrow> find_unconfirmed_by_response ctx msg;
     (case found of
        None \<Rightarrow>
          if header_get_type (msg_header msg) = CONFIRMABLE
          then send_reset pf ctx (header_get_id (msg_header msg)) else Some (AVS_OK, ctx)
      | Some n \<Rightarrow> do {
          c_assert (header_get_type (msg_header msg) \<noteq> RESET);
          (err, ctx) \<leftarrow> (if header_get_type (msg_header msg) = CONFIRMABLE
                      then send_separate_ack pf ctx (header_get_id (msg_header msg)) else Some (AVS_OK, ctx));
          if err \<noteq> AVS_OK then do { ctx \<leftarrow> fail_unconfirmed up pf ctx n None err; Some (err, ctx) }
          else do { ctx \<leftarrow> confirm_unconfirmed up pf ctx n (Some msg); Some (AVS_OK, ctx) } }) }"

definition ack_request ::
  "('h, 'w) upper_layer \<Rightarrow> 'w platform \<Rightarrow> ('h, 'w) udp_ctx \<Rightarrow> nat \<Rightarrow> ('h, 'w) udp_ctx option" where
  "ack_request up pf ctx n = do {
     c_assert (n < length (uc_unconfirmed ctx));
     let (now, ctx) = ctx_now pf ctx;
     lifetime \<leftarrow> exchange_lifetime pf (uc_tx_params ctx);
     next_retransmit \<leftarrow> monotonic_add now lifetime;
     if \<not> monotonic_valid (unc_next_retransmit (uc_unconfirmed ctx ! n))
     then fail_unconfirmed up pf ctx n None AVS_COAP_ERR_TIME_INVALID
     else do {
       (u, ctx) \<leftarrow> ctx_detach ctx n;
       let u = u\<lparr>unc_retry_state := (unc_retry_state u)\<lparr>retry_count := tx_max_retransmit (uc_tx_params ctx)\<rparr>,
                 unc_next_retransmit := next_retransmit\<rparr>;
       ctx \<leftarrow> reschedule_retransmission_job pf (ctx_insert u ctx);
       c_assert (current_nstart ctx = min (length (uc_unconfirmed ctx)) (tx_nstart (uc_tx_params ctx)));
       Some ctx } }"

definition handle_empty ::
  "('h, 'w) upper_layer \<Rightarrow> 'w platform \<Rightarrow> ('h, 'w) udp_ctx \<Rightarrow> udp_msg \<Rightarrow> (avs_error \<times> ('h, 'w) udp_ctx) option" where
  "handle_empty up pf ctx msg = do {
     let msg_id = header_get_id (msg_header msg);
     found \<leftarrow> find_unconfirmed_by_msg_id ctx msg_id;
     (case header_get_type (msg_header msg) of
        CONFIRMABLE \<Rightarrow> send_reset pf ctx msg_id
      | NON_CONFIRMABLE \<Rightarrow> Some (AVS_OK, ctx)
      | ACKNOWLEDGEMENT \<Rightarrow>
          (case found of
             None \<Rightarrow> Some (AVS_OK, ctx)
           | Some n \<Rightarrow> do {
               ctx \<leftarrow> (if code_is_request (hdr_code (msg_header (unc_msg (uc_unconfirmed ctx ! n))))
                     then ack_request up pf ctx n else confirm_unconfirmed up pf ctx n None);
               Some (AVS_OK, ctx) })
      | RESET \<Rightarrow> do {
          ctx \<leftarrow> (case found of
                None \<Rightarrow> Some ctx
              | Some n \<Rightarrow> fail_unconfirmed up pf ctx n None AVS_COAP_ERR_UDP_RESET_RECEIVED);
          ctx \<leftarrow> (case notify_cache_get (uc_notify_cache ctx) msg_id of
                None \<Rightarrow> Some ctx
              | Some tok \<Rightarrow> up_observe_cancel up tok ctx);
          Some (AVS_OK, ctx) }) }"

definition store_request_id :: "('h, 'w) udp_ctx \<Rightarrow> udp_msg \<Rightarrow> ('h, 'w) udp_ctx option" where
  "store_request_id ctx msg = do {
     c_assert (\<not> cur_exists (uc_current_request ctx));
     Some (ctx\<lparr>uc_current_request :=
       \<lparr>cur_exists = True, cur_msg_id = header_get_id (msg_header msg), cur_token = msg_token msg\<rparr>\<rparr>) }"

definition handle_msg ::
  "('h, 'w) upper_layer \<Rightarrow> 'w platform \<Rightarrow> ('h, 'w) udp_ctx \<Rightarrow> udp_msg \<Rightarrow> (avs_error \<times> bool \<times> ('h, 'w) udp_ctx) option" where
  "handle_msg up pf ctx msg =
     (if code_is_request (hdr_code (msg_header msg)) then do {
        ctx \<leftarrow> store_request_id ctx msg;
        handle_request pf ctx msg }
      else if code_is_response (hdr_code (msg_header msg)) then do {
        (err, ctx) \<leftarrow> handle_response up pf ctx msg;
        Some (err, False, ctx) }
      else if hdr_code (msg_header msg) = CODE_EMPTY then do {
        (err, ctx) \<leftarrow> handle_empty up pf ctx msg;
        Some (err, False, ctx) }
      else Some (AVS_OK, False, ctx))"

definition send_empty_response ::
  "'w platform \<Rightarrow> ('h, 'w) udp_ctx \<Rightarrow> udp_msg \<Rightarrow> byte \<Rightarrow> (avs_error \<times> ('h, 'w) udp_ctx) option" where
  "send_empty_response pf ctx request response_code = do {
     hdr \<leftarrow> header_init ACKNOWLEDGEMENT (byte_of (token_size (msg_token request))) response_code
            (header_get_id (msg_header request));
     let msg = zero_msg\<lparr>msg_header := hdr, msg_token := msg_token request\<rparr>;
     (buf, msg_size, err) \<leftarrow> udp_msg_serialize msg (replicate 13 0) 13;
     c_assert (err = AVS_OK);
     send_serialized_msg pf ctx msg buf msg_size }"

definition CODE_BAD_OPTION :: byte where "CODE_BAD_OPTION = coap_code 4 2"
definition CODE_REQUEST_ENTITY_TOO_LARGE :: byte where "CODE_REQUEST_ENTITY_TOO_LARGE = coap_code 4 13"

definition handle_truncated_request ::
  "'w platform \<Rightarrow> ('h, 'w) udp_ctx \<Rightarrow> udp_msg \<Rightarrow> (avs_error \<times> ('h, 'w) udp_ctx) option" where
  "handle_truncated_request pf ctx truncated_msg = do {
     c_assert (code_is_request (hdr_code (msg_header truncated_msg)));
     send_empty_response pf ctx truncated_msg CODE_REQUEST_ENTITY_TOO_LARGE }"

definition handle_truncated_response ::
  "('h, 'w) upper_layer \<Rightarrow> 'w platform \<Rightarrow> ('h, 'w) udp_ctx \<Rightarrow> udp_msg \<Rightarrow> ('h, 'w) udp_ctx option" where
  "handle_truncated_response up pf ctx truncated_msg = do {
     c_assert (code_is_response (hdr_code (msg_header truncated_msg)));
     found \<leftarrow> find_unconfirmed_by_response ctx truncated_msg;
     (case found of
        None \<Rightarrow> Some ctx
      | Some n \<Rightarrow> fail_unconfirmed up pf ctx n (Some truncated_msg) AVS_COAP_ERR_TRUNCATED_MESSAGE_RECEIVED) }"

definition handle_truncated_msg ::
  "('h, 'w) upper_layer \<Rightarrow> 'w platform \<Rightarrow> ('h, 'w) udp_ctx \<Rightarrow> bytes \<Rightarrow> (avs_error \<times> ('h, 'w) udp_ctx) option" where
  "handle_truncated_msg up pf ctx message_buf = do {
     (truncated_msg, has_token, has_options) \<leftarrow> udp_msg_parse_truncated message_buf (length message_buf);
     if \<not> has_token then Some (AVS_OK, ctx)
     else if code_is_request (hdr_code (msg_header truncated_msg)) then handle_truncated_request pf ctx truncated_msg
     else if code_is_response (hdr_code (msg_header truncated_msg)) then
       if has_options then do {
         ctx \<leftarrow> handle_truncated_response up pf ctx truncated_msg;
         Some (AVS_OK, ctx) }
       else Some (AVS_COAP_ERR_TRUNCATED_MESSAGE_RECEIVED, ctx)
     else Some (AVS_OK, ctx) }"

text \<open>The answer to a message whose options are malformed.\<close>

definition handle_malformed_options ::
  "('h, 'w) upper_layer \<Rightarrow> 'w platform \<Rightarrow> ('h, 'w) udp_ctx \<Rightarrow> udp_msg \<Rightarrow> (avs_error \<times> ('h, 'w) udp_ctx) option" where
  "handle_malformed_options up pf ctx msg =
     (if code_is_request (hdr_code (msg_header msg)) then send_empty_response pf ctx msg CODE_BAD_OPTION
      else if code_is_response (hdr_code (msg_header msg)) then do {
        found \<leftarrow> find_unconfirmed_by_response ctx msg;
        ctx \<leftarrow> (case found of
              None \<Rightarrow> Some ctx
            | Some n \<Rightarrow> fail_unconfirmed up pf ctx n None AVS_COAP_ERR_MALFORMED_OPTIONS);
        if header_get_type (msg_header msg) = CONFIRMABLE \<or> header_get_type (msg_header msg) = NON_CONFIRMABLE
        then send_reset pf ctx (header_get_id (msg_header msg))
        else Some (AVS_OK, ctx) }
      else Some (AVS_OK, ctx))"

text \<open>The error, the input buffer and \<open>*out_request\<close>, which is all zeroes unless a request is to be handled.\<close>

definition zero_borrowed_msg :: borrowed_msg where
  "zero_borrowed_msg =
     \<lparr>bm_code = 0, bm_token = msg_token zero_msg, bm_options = msg_options zero_msg, bm_payload_offset = 0,
      bm_payload = None, bm_payload_size = 0, bm_total_payload_size = 0\<rparr>"

definition receive_message ::
  "('h, 'w) upper_layer \<Rightarrow> 'w platform \<Rightarrow> ('h, 'w) udp_ctx \<Rightarrow> bytes
   \<Rightarrow> (avs_error \<times> bytes \<times> borrowed_msg \<times> ('h, 'w) udp_ctx) option" where
  "receive_message up pf ctx in_buffer = do {
     ((msg, in_buffer, err), ctx) \<leftarrow> recv_msg pf ctx zero_msg in_buffer;
     if err = AVS_OK then do {
       (err, should_handle_request, ctx) \<leftarrow> handle_msg up pf ctx msg;
       Some (err, in_buffer,
             if should_handle_request then borrowed_msg_from_udp_msg msg else zero_borrowed_msg, ctx) }
     else do {
       (err, ctx) \<leftarrow>
         (if err = AVS_COAP_ERR_MALFORMED_MESSAGE then Some (AVS_OK, ctx)
          else if err = AVS_COAP_ERR_MALFORMED_OPTIONS then handle_malformed_options up pf ctx msg
          else if err = AVS_EMSGSIZE then handle_truncated_msg up pf ctx in_buffer
          else Some (err, ctx));
       Some (err, in_buffer, zero_borrowed_msg, ctx) } }"

section \<open>Creation and cleanup\<close>

partial_function (option) cleanup_loop ::
  "('h, 'w) upper_layer \<Rightarrow> 'w platform \<Rightarrow> ('h, 'w) udp_ctx \<Rightarrow> ('h, 'w) udp_ctx option" where
  "cleanup_loop up pf ctx =
     (case uc_unconfirmed ctx of
        [] \<Rightarrow> Some ctx
      | _ # _ \<Rightarrow> do {
          (u, ctx) \<leftarrow> ctx_detach ctx 0;
          ctx \<leftarrow> try_cleanup_unconfirmed up pf ctx u None RESULT_CANCEL AVS_OK;
          cleanup_loop up pf ctx })"

text \<open>The new context or \<open>NULL\<close>. The first message identifier is random, the handle of the retry job is empty.\<close>

definition udp_ctx_create ::
  "'w platform \<Rightarrow> 'w \<Rightarrow> nat sched \<Rightarrow> nat \<Rightarrow> udp_tx_params option \<Rightarrow> nat \<Rightarrow> bytes \<Rightarrow> response_cache option
   \<Rightarrow> (('h, 'w) udp_ctx option \<times> 'w) option" where
  "udp_ctx_create pf w sched retry_job udp_tx_params in_capacity out_buffer cache = do {
     ok \<leftarrow> (case udp_tx_params of
           None \<Rightarrow> Some True
         | Some tx \<Rightarrow> do {
             valid \<leftarrow> tx_params_valid tx;
             if \<not> valid then Some False else are_tx_params_sane (pf_double pf) tx });
     if \<not> ok then Some (None, w)
     else (case pf_random pf w of
         (None, w) \<Rightarrow> Some (None, w)
       | (Some random, w) \<Rightarrow>
           (case pf_alloc pf w of
              (False, w) \<Rightarrow> Some (None, w)
            | (True, w) \<Rightarrow>
                Some (Some \<lparr>uc_unconfirmed = [], uc_last_mtu = 2 ^ 64 - 1, uc_forced_incoming_mtu = 0,
                   uc_tx_params = (case udp_tx_params of None \<Rightarrow> AVS_COAP_DEFAULT_UDP_TX_PARAMS | Some tx \<Rightarrow> tx),
                   uc_stats = \<lparr>outgoing_retransmissions_count = 0, incoming_retransmissions_count = 0\<rparr>,
                   uc_last_msg_id = random mod 2 ^ 16,
                   uc_current_request = \<lparr>cur_exists = False, cur_msg_id = 0, cur_token = msg_token zero_msg\<rparr>,
                   uc_response_cache = cache, uc_notify_cache = [], uc_out_buffer = out_buffer, uc_out_acquired = False,
                   uc_in_capacity = in_capacity, uc_sched = set_handle retry_job None sched, uc_retry_job = retry_job,
                   uc_world = w\<rparr>, w))) }"

definition set_forced_incoming_mtu :: "('h, 'w) udp_ctx \<Rightarrow> nat \<Rightarrow> ('h, 'w) udp_ctx" where
  "set_forced_incoming_mtu ctx forced_incoming_mtu = ctx\<lparr>uc_forced_incoming_mtu := forced_incoming_mtu\<rparr>"

end
