(* ===== verification/Coap_Udp_Queue.thy ===== *)
theory Coap_Udp_Queue
  imports Coap_Udp_Ctx
begin

text \<open>
  The list of unconfirmed messages of a CoAP/UDP context: its order by (hold, time of the next
  retransmission), the limit NSTART on messages that are not held, and how insertion, removal and
  the change of a message affect both. The times of the model stay either valid or invalid as a
  whole, so that the arithmetic on them never fails.
\<close>

section \<open>Times\<close>

text \<open>A time that is in the range of its fields, or the invalid time.\<close>

definition time_ok :: "duration \<Rightarrow> bool" where
  "time_ok t \<longleftrightarrow> dur_ok t \<or> t = AVS_TIME_DURATION_INVALID"

lemma invalid_not_valid [simp]: "\<not> duration_valid AVS_TIME_DURATION_INVALID"
  by (simp add: AVS_TIME_DURATION_INVALID_def duration_valid_def)

lemma dur_ok_time_ok [simp, intro]: "dur_ok t \<Longrightarrow> time_ok t" by (simp add: time_ok_def)

lemma time_ok_invalid [simp]: "time_ok AVS_TIME_DURATION_INVALID" by (simp add: time_ok_def)

lemma time_ok_valid: "time_ok t \<Longrightarrow> duration_valid t \<longleftrightarrow> dur_ok t"
  by (auto simp: time_ok_def dur_ok_def)

lemma zero_time [simp]: "dur_ok \<lparr>dur_seconds = 0, dur_nanoseconds = 0\<rparr>" "duration_valid \<lparr>dur_seconds = 0, dur_nanoseconds = 0\<rparr>"
  by (simp_all add: dur_ok_def duration_valid_def i64_def)

lemma duration_add_closed:
  assumes "time_ok a" "time_ok b"
  shows "\<exists>t. duration_add a b = Some t \<and> time_ok t"
proof (cases "duration_valid a \<and> duration_valid b")
  case True
  with assms have "dur_ok a" "dur_ok b" by (simp_all add: time_ok_valid)
  from duration_add_exact [OF this] show ?thesis by (simp add: of_ns_ok)
next
  case False
  then show ?thesis by (simp add: duration_add_def)
qed

lemma duration_double_closed:
  assumes "time_ok a"
  shows "\<exists>t. duration_mul a 2 = Some t \<and> time_ok t"
proof (cases "duration_valid a")
  case True
  with assms have "dur_ok a" by (simp add: time_ok_valid)
  from duration_mul_exact [OF this, of 2] show ?thesis by (auto simp: of_ns_ok)
next
  case False
  then show ?thesis by (simp add: duration_mul_def)
qed

lemma monotonic_add_closed: "time_ok a \<Longrightarrow> time_ok b \<Longrightarrow> \<exists>t. monotonic_add a b = Some t \<and> time_ok t"
  by (simp add: monotonic_add_def duration_add_closed)

lemma before_char: "monotonic_before a b \<longleftrightarrow> duration_valid a \<and> duration_valid b \<and> ns_of a < ns_of b"
proof (cases "duration_valid a \<and> duration_valid b")
  case True
  then show ?thesis by (simp add: before_iff)
next
  case False
  then show ?thesis by (auto simp: monotonic_before_def duration_less_def)
qed

lemma before_trans: "monotonic_before a b \<Longrightarrow> monotonic_before b c \<Longrightarrow> monotonic_before a c"
  by (auto simp: before_char)

lemma before_irrefl [simp]: "\<not> monotonic_before a a"
  by (simp add: before_char)

section \<open>Order\<close>

text \<open>No message precedes one in front of it.\<close>

definition queue_sorted :: "'h unconfirmed list \<Rightarrow> bool" where
  "queue_sorted us \<longleftrightarrow> sorted_wrt (\<lambda>a b. \<not> unc_before b a) us"

definition started :: "'h unconfirmed list \<Rightarrow> 'h unconfirmed list" where
  "started us = filter (\<lambda>u. \<not> unc_hold u) us"

definition held :: "'h unconfirmed list \<Rightarrow> 'h unconfirmed list" where
  "held us = filter unc_hold us"

lemma unc_before_trans: "unc_before a b \<Longrightarrow> unc_before b c \<Longrightarrow> unc_before a c"
  by (auto simp: unc_before_def intro: before_trans)

lemma unc_before_cong:
  "unc_hold a = unc_hold a' \<Longrightarrow> unc_next_retransmit a = unc_next_retransmit a' \<Longrightarrow> unc_before a b = unc_before a' b"
  "unc_hold b = unc_hold b' \<Longrightarrow> unc_next_retransmit b = unc_next_retransmit b' \<Longrightarrow> unc_before a b = unc_before a b'"
  by (simp_all add: unc_before_def)

lemma queue_sorted_Nil [simp]: "queue_sorted []" by (simp add: queue_sorted_def)

lemma queue_sorted_Cons: "queue_sorted (u # us) \<longleftrightarrow> (\<forall>x \<in> set us. \<not> unc_before x u) \<and> queue_sorted us"
  by (auto simp: queue_sorted_def)

lemma queue_sorted_append:
  "queue_sorted (us @ vs) \<longleftrightarrow> queue_sorted us \<and> queue_sorted vs \<and> (\<forall>u \<in> set us. \<forall>v \<in> set vs. \<not> unc_before v u)"
  by (auto simp: queue_sorted_def sorted_wrt_append)

lemma set_insert_unconfirmed [simp]: "set (insert_unconfirmed u us) = insert u (set us)"
  by (induction us) auto

lemma length_insert_unconfirmed [simp]: "length (insert_unconfirmed u us) = Suc (length us)"
  by (induction us) auto

lemma insert_unconfirmed_ne [simp]: "insert_unconfirmed u us \<noteq> []"
  by (cases us) auto

lemma queue_sorted_insert: "queue_sorted us \<Longrightarrow> queue_sorted (insert_unconfirmed u us)"
proof (induction us)
  case (Cons e es)
  show ?case
  proof (cases "unc_before u e")
    case True
    have e: "unc_before e x \<or> \<not> unc_before x u" if "\<not> unc_before x e" for x
      using that True unc_before_trans by blast
    have "\<not> unc_before x u" if "x \<in> insert e (set es)" for x
    proof (cases "x = e")
      case True
      with \<open>unc_before u e\<close> show ?thesis
        by (auto simp: unc_before_def before_char)
    next
      case False
      with that Cons.prems have "\<not> unc_before x e" by (auto simp: queue_sorted_Cons)
      with True show ?thesis using unc_before_trans by blast
    qed
    with True Cons.prems show ?thesis by (auto simp: queue_sorted_Cons)
  next
    case False
    with Cons show ?thesis by (auto simp: queue_sorted_Cons)
  qed
qed (simp add: queue_sorted_Cons)

lemma queue_sorted_remove: "queue_sorted us \<Longrightarrow> queue_sorted (take n us @ drop (Suc n) us)"
proof (induction us arbitrary: n)
  case (Cons u us)
  then show ?case
    by (cases n) (auto simp: queue_sorted_Cons dest: in_set_takeD in_set_dropD)
qed simp

lemma queue_sorted_take: "queue_sorted us \<Longrightarrow> queue_sorted (take n us)"
  by (metis append_take_drop_id queue_sorted_append)

section \<open>Held and started messages\<close>

lemma started_simps [simp]:
  "started [] = []" "started (u # us) = (if unc_hold u then started us else u # started us)"
  "held [] = []" "held (u # us) = (if unc_hold u then u # held us else held us)"
  by (simp_all add: started_def held_def)

lemma started_held_length: "length (started us) + length (held us) = length us"
  by (induction us) auto

text \<open>The held messages are the end of the list.\<close>

lemma sorted_split: "queue_sorted us \<Longrightarrow> us = started us @ held us"
proof (induction us)
  case (Cons u us)
  then have IH: "us = started us @ held us" and u: "\<forall>x \<in> set us. \<not> unc_before x u" by (auto simp: queue_sorted_Cons)
  have "started us = []" if "unc_hold u"
    using u that by (auto simp: started_def filter_empty_conv unc_before_def)
  with IH show ?case by auto
qed simp

lemma started_messages_eq: "queue_sorted us \<Longrightarrow> started_messages us = length (started us)"
proof (induction us)
  case (Cons u us)
  then have "\<forall>x \<in> set us. \<not> unc_before x u" by (auto simp: queue_sorted_Cons)
  then have "unc_hold u \<Longrightarrow> started us = []" by (auto simp: started_def filter_empty_conv unc_before_def)
  with Cons show ?case by (auto simp: queue_sorted_Cons)
qed simp

lemma effective_nstart_from_eq:
  "0 < nstart \<Longrightarrow> r < nstart \<Longrightarrow> effective_nstart_from nstart us r = min nstart (r + length us)"
  by (induction us arbitrary: r) auto

lemma effective_nstart_eq:
  "0 < tx_nstart (uc_tx_params ctx)
   \<Longrightarrow> effective_nstart ctx = min (tx_nstart (uc_tx_params ctx)) (length (uc_unconfirmed ctx))"
  by (simp add: effective_nstart_def effective_nstart_from_eq)

lemma find_first_held_eq:
  assumes "queue_sorted us"
  shows "find_first_held us = (if held us = [] then None else Some (length (started us)))"
proof (cases "held us = []")
  case True
  then show ?thesis by (auto simp: find_first_held_def find_pos_None held_def filter_empty_conv)
next
  case False
  then obtain h hs where h: "held us = h # hs" by (cases "held us") auto
  have us: "us = started us @ h # hs" using sorted_split [OF assms] h by simp
  have "unc_hold h" using h by (metis filter_eq_Cons_iff held_def)
  have n: "us ! length (started us) = h" by (subst us) simp
  have t: "take (length (started us)) us = started us" by (subst us) simp
  have l: "length (started us) < length us" by (subst (2) us) simp
  have "\<forall>x \<in> set (started us). \<not> unc_hold x" by (simp add: started_def)
  then have "find_pos unc_hold us = Some (length (started us))"
    unfolding find_pos_Some n t using \<open>unc_hold h\<close> l by simp
  with False show ?thesis by (simp add: find_first_held_def)
qed

lemma held_insert: "length (held (insert_unconfirmed u us)) = length (held us) + (if unc_hold u then 1 else 0)"
  by (induction us) auto

lemma started_insert: "length (started (insert_unconfirmed u us)) = length (started us) + (if unc_hold u then 0 else 1)"
  by (induction us) auto

lemma remove_counts:
  assumes "n < length us"
  shows "length (started (take n us @ drop (Suc n) us)) + (if unc_hold (us ! n) then 0 else 1) = length (started us)"
    "length (held (take n us @ drop (Suc n) us)) + (if unc_hold (us ! n) then 1 else 0) = length (held us)"
proof -
  have us: "us = take n us @ us ! n # drop (Suc n) us" using assms by (rule id_take_nth_drop)
  have "started us = started (take n us @ us ! n # drop (Suc n) us)" using us by simp
  then show "length (started (take n us @ drop (Suc n) us)) + (if unc_hold (us ! n) then 0 else 1) = length (started us)"
    by (simp add: started_def)
  have "held us = held (take n us @ us ! n # drop (Suc n) us)" using us by simp
  then show "length (held (take n us @ drop (Suc n) us)) + (if unc_hold (us ! n) then 1 else 0) = length (held us)"
    by (simp add: held_def)
qed

end
