(* ===== verification/Coap_Udp_Ctx_Ok.thy ===== *)
theory Coap_Udp_Ctx_Ok
  imports Coap_Udp_Queue
begin

text \<open>
  Well-formed CoAP/UDP contexts, what is assumed of the outside world and of the callbacks, and the
  operations that send: each returns, whatever the outside world answers, and keeps the context
  well-formed.
\<close>

section \<open>Headers and tokens of packets that are not accepted\<close>

definition token_ok :: "token \<Rightarrow> bool" where
  "token_ok t \<longleftrightarrow> token_size t \<le> 8 \<and> length (token_bytes t) = 8"

lemma token_equal_total: "token_ok a \<Longrightarrow> token_ok b \<Longrightarrow> token_equal a b
    = Some (token_size a = token_size b \<and> take (token_size a) (token_bytes a) = take (token_size a) (token_bytes b))"
  by (auto simp: token_equal_def token_ok_def rd_bytes_def)

lemma zero_msg_token [simp]: "token_ok (msg_token zero_msg)" "length (token_bytes (msg_token zero_msg)) = 8"
  by (simp_all add: zero_msg_def token_ok_def)

lemma msg_is_token: "msg_is msg hdr tok xs payload \<Longrightarrow> length tok \<le> 8 \<Longrightarrow> token_ok (msg_token msg)"
  by (simp add: msg_is_def token_ok_def)

lemma msg_ok_token: "msg_ok hdr tok xs payload \<Longrightarrow> length tok \<le> 8"
  by (auto simp: msg_ok_def is_msg_header_valid_def)

text \<open>What a malformed message leaves in the variable of the caller.\<close>

definition head_ok :: "udp_msg \<Rightarrow> bool" where
  "head_ok msg \<longleftrightarrow> is_msg_header_valid (msg_header msg) \<and> token_ok (msg_token msg)
     \<and> token_size (msg_token msg) = header_get_token_length (msg_header msg)"

lemma parse_malformed_options:
  assumes n: "n \<le> length packet" and tb: "length (token_bytes (msg_token m0)) = 8"
    and p: "udp_msg_parse m0 packet n = Some (msg, AVS_COAP_ERR_MALFORMED_OPTIONS)"
  shows "head_ok msg"
proof -
  let ?hdr = "header_of_bytes (take 4 packet)" and ?k = "header_get_token_length (header_of_bytes (take 4 packet))"
  let ?d1 = "\<lparr>read_ptr = 4, bytes_left = n - 4\<rparr>"
  note ph = parse_header_at [OF n, of "msg_header m0"]
  have "\<not> (n < 4 \<or> \<not> is_msg_header_valid ?hdr \<or> hdr_code ?hdr = CODE_EMPTY \<and> n > 4)"
    using p by (auto simp: udp_msg_parse_def ph Let_def split: if_splits)
  then have n4: "4 \<le> n" and hv: "is_msg_header_valid ?hdr"
    and ph: "parse_header packet (msg_header m0) \<lparr>read_ptr = 0, bytes_left = n\<rparr> = Some (?hdr, ?d1, AVS_OK)"
    by (auto simp: ph Let_def)
  have k: "?k \<le> 8" using hv by (simp add: is_msg_header_valid_def)
  have pt: "parse_token packet (msg_token m0) ?k ?d1 =
      (if n - 4 < ?k then Some ((msg_token m0)\<lparr>token_size := ?k\<rparr>, ?d1, AVS_COAP_ERR_MALFORMED_MESSAGE)
       else Some (\<lparr>token_size = ?k, token_bytes = take ?k (drop 4 packet) @ drop ?k (token_bytes (msg_token m0))\<rparr>,
                  advance ?d1 ?k, AVS_OK))"
    using parse_token_at [of ?d1 packet ?k "msg_token m0"] n4 n k tb by simp
  have kn: "\<not> n - 4 < ?k" using p by (auto simp: udp_msg_parse_def ph pt Let_def)
  then have l: "length (take ?k (drop 4 packet) @ drop ?k (token_bytes (msg_token m0))) = 8" using n n4 k tb by simp
  from p kn have "msg_header msg = ?hdr"
    "msg_token msg = \<lparr>token_size = ?k, token_bytes = take ?k (drop 4 packet) @ drop ?k (token_bytes (msg_token m0))\<rparr>"
    by (auto simp: udp_msg_parse_def ph pt Let_def split: option.splits bind_splits prod.splits if_splits)
  with hv k l show ?thesis by (simp add: head_ok_def token_ok_def)
qed

lemma parse_truncated_total:
  assumes n: "n \<le> length packet"
  shows "\<exists>msg has_token has_options. udp_msg_parse_truncated packet n = Some (msg, has_token, has_options)
    \<and> (has_token \<longrightarrow> head_ok msg)"
proof -
  let ?hdr = "header_of_bytes (take 4 packet)" and ?k = "header_get_token_length (header_of_bytes (take 4 packet))"
  let ?d1 = "\<lparr>read_ptr = 4, bytes_left = n - 4\<rparr>"
  note ph = parse_header_at [OF n, of "msg_header zero_msg"]
  show ?thesis
  proof (cases "n < 4 \<or> \<not> is_msg_header_valid ?hdr \<or> hdr_code ?hdr = CODE_EMPTY \<and> n > 4")
    case True
    then show ?thesis by (auto simp: udp_msg_parse_truncated_def ph Let_def)
  next
    case False
    then have n4: "4 \<le> n" and hv: "is_msg_header_valid ?hdr"
      and ph: "parse_header packet (msg_header zero_msg) \<lparr>read_ptr = 0, bytes_left = n\<rparr> = Some (?hdr, ?d1, AVS_OK)"
      by (auto simp: ph Let_def)
    have k: "?k \<le> 8" using hv by (simp add: is_msg_header_valid_def)
    have pt: "parse_token packet (msg_token zero_msg) ?k ?d1 =
      (if n - 4 < ?k then Some ((msg_token zero_msg)\<lparr>token_size := ?k\<rparr>, ?d1, AVS_COAP_ERR_MALFORMED_MESSAGE)
       else Some (\<lparr>token_size = ?k, token_bytes = take ?k (drop 4 packet) @ drop ?k (token_bytes (msg_token zero_msg))\<rparr>,
                  advance ?d1 ?k, AVS_OK))"
      using parse_token_at [of ?d1 packet ?k "msg_token zero_msg"] n4 n k by simp
    show ?thesis
    proof (cases "n - 4 < ?k")
      case True
      then show ?thesis by (auto simp: udp_msg_parse_truncated_def ph pt Let_def)
    next
      case kn: False
      have l: "length (take ?k (drop 4 packet) @ drop ?k (token_bytes (msg_token zero_msg))) = 8" using kn n n4 k by simp
      have "read_ptr (advance ?d1 ?k) + bytes_left (advance ?d1 ?k) \<le> length packet" using kn n n4 by (simp add: advance_def)
      from options_parse_sound [OF this] obtain opts d' t mk err where
        "options_parse packet (advance ?d1 ?k) = Some (opts, d', t, mk, err)" by metis
      with kn hv k l show ?thesis
        by (auto simp: udp_msg_parse_truncated_def ph pt Let_def head_ok_def token_ok_def)
    qed
  qed
qed

section \<open>The outside world and the transmission parameters\<close>

text \<open>
  The clock of the outside world does not go back: \<open>clk\<close> is its reading in nanoseconds, of which
  \<open>pf_now\<close> gives a later or equal one. New memory is not in use, a received packet is in the buffer, and
  the errors of a socket are not those of the CoAP layer.
\<close>

definition platform_ok :: "'w platform \<Rightarrow> ('w \<Rightarrow> int) \<Rightarrow> bool" where
  "platform_ok pf clk \<longleftrightarrow>
     (\<forall>w. duration_valid (fst (pf_now pf w)) \<and> 0 \<le> dur_seconds (fst (pf_now pf w)) \<and> dur_seconds (fst (pf_now pf w)) < 2 ^ 61
        \<and> clk w \<le> ns_of (fst (pf_now pf w)) \<and> ns_of (fst (pf_now pf w)) \<le> clk (snd (pf_now pf w)))
     \<and> (\<forall>w. clk w \<le> clk (snd (pf_random pf w))) \<and> (\<forall>w. clk w \<le> clk (snd (pf_alloc pf w)))
     \<and> (\<forall>w ps. clk w \<le> clk (snd (pf_new_job pf w ps)) \<and> (\<forall>p. fst (pf_new_job pf w ps) = Some p \<longrightarrow> p \<notin> set ps))
     \<and> (\<forall>w ps. clk w \<le> clk (snd (pf_new_endpoint pf w ps))
        \<and> (\<forall>p. fst (pf_new_endpoint pf w ps) = Some p \<longrightarrow> p \<notin> set ps \<and> p < 2 ^ 64))
     \<and> (\<forall>w m. clk w \<le> clk (snd (pf_send pf w m)))
     \<and> (\<forall>w buf. clk w \<le> clk (snd (pf_receive pf w buf)) \<and> length (fst (fst (pf_receive pf w buf))) = length buf
        \<and> fst (snd (fst (pf_receive pf w buf))) \<le> length buf
        \<and> snd (snd (fst (pf_receive pf w buf))) \<noteq> AVS_COAP_ERR_MALFORMED_OPTIONS)"

text \<open>What the parameters are checked for when a context is created, and that the times that are
  computed from them are not absurdly long.\<close>

definition span_ok :: "duration \<Rightarrow> bool" where
  "span_ok t \<longleftrightarrow> duration_valid t \<and> 0 \<le> dur_seconds t \<and> dur_seconds t < 2 ^ 61"

definition tx_params_ok :: "'w platform \<Rightarrow> udp_tx_params \<Rightarrow> bool" where
  "tx_params_ok pf tx \<longleftrightarrow> 0 < tx_nstart tx
     \<and> (\<forall>r < 2 ^ 32. \<exists>t. random_timeout (pf_double pf) tx r = Some t \<and> span_ok t)
     \<and> span_ok (tx_ack_timeout tx) \<and> (\<exists>t. max_transmit_span (pf_double pf) tx = Some t \<and> span_ok t)"

definition lifetime_ns :: "'w platform \<Rightarrow> udp_tx_params \<Rightarrow> int" where
  "lifetime_ns pf tx = ns_of (the (max_transmit_span (pf_double pf) tx)) + 200 * NS_IN_S + ns_of (tx_ack_timeout tx)"

lemma random_timeout_ok:
  "tx_params_ok pf tx \<Longrightarrow> \<exists>t. random_timeout (pf_double pf) tx (random mod 2 ^ 32) = Some t \<and> span_ok t"
  by (simp add: tx_params_ok_def)

lemma span_ok_dur_ok: "span_ok t \<Longrightarrow> dur_ok t"
  by (simp add: span_ok_def dur_ok_def i64_def)

lemma span_ok_ns: "span_ok t \<Longrightarrow> 0 \<le> ns_of t \<and> ns_of t < 2 ^ 61 * NS_IN_S"
  by (simp add: span_ok_def duration_valid_def ns_of_def)

lemma duration_add_small:
  assumes "dur_ok a" "dur_ok b" "0 \<le> ns_of a" "0 \<le> ns_of b" "ns_of a + ns_of b < 2 ^ 63 * NS_IN_S"
  shows "\<exists>t. duration_add a b = Some t \<and> dur_ok t \<and> ns_of t = ns_of a + ns_of b"
proof -
  have n: "0 \<le> dur_nanoseconds a" "dur_nanoseconds a < NS_IN_S" "0 \<le> dur_nanoseconds b" "dur_nanoseconds b < NS_IN_S"
    using assms(1,2) by (simp_all add: dur_ok_def duration_valid_def)
  have "(ns_of a + ns_of b) div NS_IN_S \<le> (2 ^ 63 * NS_IN_S - 1) div NS_IN_S" by (rule zdiv_mono1) (use assms(5) in simp_all)
  moreover have "0 \<le> (ns_of a + ns_of b) div NS_IN_S" using assms(3,4) by (simp add: pos_imp_zdiv_nonneg_iff)
  ultimately have d: "i64 ((ns_of a + ns_of b) div NS_IN_S)" by (simp add: i64_def)
  have s: "i64 (dur_seconds a + dur_seconds b)" using assms(3-5) n by (simp add: i64_def ns_of_def)
  from duration_add_exact [OF assms(1,2)] d s have "duration_add a b = Some (of_ns (ns_of a + ns_of b))" by simp
  moreover have "ns_of (of_ns (ns_of a + ns_of b)) = ns_of a + ns_of b" by (simp add: ns_of_def of_ns_def)
  ultimately show ?thesis using of_ns_ok [OF d] by blast
qed

lemma exchange_lifetime_ok:
  assumes "tx_params_ok pf tx"
  shows "\<exists>t. exchange_lifetime pf tx = Some t \<and> dur_ok t \<and> ns_of t = lifetime_ns pf tx
    \<and> 0 \<le> lifetime_ns pf tx \<and> lifetime_ns pf tx < (2 ^ 62 + 200) * NS_IN_S"
proof -
  from assms obtain span where sp: "max_transmit_span (pf_double pf) tx = Some span"
    and s: "span_ok span" "span_ok (tx_ack_timeout tx)" by (auto simp: tx_params_ok_def)
  have "dur_ok \<lparr>dur_seconds = 100, dur_nanoseconds = 0\<rparr>" by (simp add: dur_ok_def duration_valid_def i64_def)
  from duration_mul_exact [OF this, of 2] obtain q :: int where "\<bar>q\<bar> \<le> 2 ^ 31"
    "duration_mul \<lparr>dur_seconds = 100, dur_nanoseconds = 0\<rparr> 2 =
      Some (if i64 (100 * 2 + q) then of_ns (200 * NS_IN_S) else AVS_TIME_DURATION_INVALID)"
    by (auto simp: ns_of_def i64_def)
  then have l: "duration_mul \<lparr>dur_seconds = 100, dur_nanoseconds = 0\<rparr> 2 = Some \<lparr>dur_seconds = 200, dur_nanoseconds = 0\<rparr>"
    by (auto simp: i64_def of_ns_def)
  have d: "dur_ok \<lparr>dur_seconds = 200, dur_nanoseconds = 0\<rparr>" "ns_of \<lparr>dur_seconds = 200, dur_nanoseconds = 0\<rparr> = 200 * NS_IN_S"
    by (simp_all add: dur_ok_def duration_valid_def i64_def ns_of_def)
  note b = span_ok_ns [OF s(1)] span_ok_ns [OF s(2)]
  from duration_add_small [OF span_ok_dur_ok [OF s(1)] d(1)] b d(2) obtain t where
    t: "duration_add span \<lparr>dur_seconds = 200, dur_nanoseconds = 0\<rparr> = Some t" "dur_ok t"
    "ns_of t = ns_of span + 200 * NS_IN_S" by auto
  from duration_add_small [OF t(2) span_ok_dur_ok [OF s(2)]] b t(3) obtain u where
    "duration_add t (tx_ack_timeout tx) = Some u" "dur_ok u" "ns_of u = ns_of t + ns_of (tx_ack_timeout tx)" by auto
  with t l b sp show ?thesis by (simp add: exchange_lifetime_def lifetime_ns_def)
qed

section \<open>Sent notifications\<close>

definition notify_ok :: "(nat \<times> token) list \<Rightarrow> bool" where
  "notify_ok nc \<longleftrightarrow> distinct (map fst nc) \<and> length nc \<le> NOTIFY_CACHE_SIZE"

lemma notify_cache_get_map_of: "notify_cache_get nc i = map_of nc i"
  by (induction nc i rule: notify_cache_get.induct) auto

lemma notify_cache_drop_spec:
  assumes "notify_ok nc"
  shows "notify_cache_drop nc i = Some (filter (\<lambda>e. fst e \<noteq> i) nc)"
proof (cases "find_pos (\<lambda>e. fst e = i) nc")
  case None
  then have "filter (\<lambda>e. fst e \<noteq> i) nc = nc" by (simp add: find_pos_None)
  with None show ?thesis by (simp add: notify_cache_drop_def)
next
  case (Some n)
  then have n: "n < length nc" "fst (nc ! n) = i" by (simp_all add: find_pos_Some)
  from n(1) have nc: "nc = take n nc @ nc ! n # drop (Suc n) nc" by (rule id_take_nth_drop)
  have "distinct (map fst (take n nc @ nc ! n # drop (Suc n) nc))" using assms nc by (simp add: notify_ok_def)
  then have d: "\<forall>e \<in> set (take n nc @ drop (Suc n) nc). fst e \<noteq> i" using n(2) by (auto simp: image_iff)
  then have f: "filter (\<lambda>e. fst e \<noteq> i) (take n nc @ drop (Suc n) nc) = take n nc @ drop (Suc n) nc" by simp
  have "filter (\<lambda>e. fst e \<noteq> i) (take n nc @ nc ! n # drop (Suc n) nc) = take n nc @ drop (Suc n) nc"
    using f n(2) by simp
  then have f: "filter (\<lambda>e. fst e \<noteq> i) nc = take n nc @ drop (Suc n) nc" using nc by simp
  have "map_of (take n nc @ drop (Suc n) nc) i = None" using d by (simp only: map_of_eq_None_iff) auto
  with Some n f show ?thesis by (simp add: notify_cache_drop_def notify_cache_drop_entry_def notify_cache_get_map_of)
qed

lemma notify_ok_filter: "notify_ok nc \<Longrightarrow> notify_ok (filter P nc)"
  by (simp add: notify_ok_def distinct_map_filter le_trans [OF length_filter_le])

lemma notify_cache_put_spec:
  assumes "notify_ok nc" and "i \<notin> fst ` set nc"
  shows "notify_cache_put nc i t = Some ((if length nc = NOTIFY_CACHE_SIZE then tl nc else nc) @ [(i, t)])"
    "notify_ok ((if length nc = NOTIFY_CACHE_SIZE then tl nc else nc) @ [(i, t)])"
proof -
  have "length nc = 4 \<Longrightarrow> drop (Suc 0) nc = tl nc" by (simp add: drop_Suc)
  with assms show "notify_cache_put nc i t = Some ((if length nc = 4 then tl nc else nc) @ [(i, t)])"
    by (auto simp: notify_cache_put_def notify_cache_drop_entry_def notify_ok_def)
  have "set (tl nc) \<subseteq> set nc" by (cases nc) auto
  with assms show "notify_ok ((if length nc = 4 then tl nc else nc) @ [(i, t)])"
    by (auto simp: notify_ok_def map_tl distinct_tl)
qed

section \<open>The response cache\<close>

text \<open>With one lifetime and a clock that does not go back, the responses expire in the order in which
  they were added, at the latest at the given time.\<close>

definition cached_ok :: "int \<Rightarrow> cached list \<Rightarrow> bool" where
  "cached_ok bound vs \<longleftrightarrow> sorted (map (\<lambda>(_, _, t, _). ns_of t) vs)
     \<and> (\<forall>(_, _, t, _) \<in> set vs. duration_valid t \<and> ns_of t \<le> bound)"

fun cache_ok :: "int \<Rightarrow> response_cache option \<Rightarrow> bool" where
  "cache_ok bound None = True"
| "cache_ok bound (Some c) = (\<exists>vs. cache_represents c vs \<and> cached_ok bound vs)"

lemma cached_ok_mono: "cached_ok b vs \<Longrightarrow> b \<le> b' \<Longrightarrow> cached_ok b' vs"
  by (fastforce simp: cached_ok_def)

lemma cache_ok_mono: "cache_ok b rc \<Longrightarrow> b \<le> b' \<Longrightarrow> cache_ok b' rc"
  by (cases rc) (auto intro: cached_ok_mono)

lemma cached_ok_suffix: "cached_ok b (us @ vs) \<Longrightarrow> cached_ok b vs"
  by (auto simp: cached_ok_def sorted_append)

lemma cached_ok_snoc:
  assumes "cached_ok b vs" "b \<le> ns_of t" "duration_valid t"
  shows "cached_ok (ns_of t) (vs @ [(addr, port, t, m)])"
  using assms by (fastforce simp: cached_ok_def sorted_append)

lemma forget_oldest_suffix: "\<exists>us. vs = us @ forget_oldest cap n vs"
proof (induction vs)
  case (Cons v vs)
  then obtain us where us: "vs = us @ forget_oldest cap n vs" by blast
  show ?case
  proof (cases "sum_list (map (\<lambda>(_, _, _, m). packet_space m) (v # vs)) + n \<le> cap")
    case True
    then show ?thesis by (intro exI [of _ "[]"]) simp
  next
    case False
    then have "forget_oldest cap n (v # vs) = forget_oldest cap n vs" by simp
    with us show ?thesis by (metis append_Cons)
  qed
qed simp

lemma cached_ok_add_spec:
  assumes vs: "cached_ok b vs" and t: "duration_valid t" "b \<le> ns_of t"
  shows "cached_ok (ns_of t) (fst (cache_add_spec cap can now t addr port m vs))"
proof -
  let ?vs = "dropWhile (cached_expired now) vs"
  have a: "cached_ok b ?vs"
    using cached_ok_suffix [of b "takeWhile (cached_expired now) vs" ?vs] vs by (simp add: takeWhile_dropWhile_id)
  from forget_oldest_suffix [of ?vs cap "packet_space m"] a have f: "cached_ok b (forget_oldest cap (packet_space m) ?vs)"
    using cached_ok_suffix by metis
  show ?thesis
    using cached_ok_mono [OF vs t(2)] cached_ok_mono [OF a t(2)] cached_ok_snoc [OF f t(2,1)]
    by (simp add: cache_add_spec_def Let_def)
qed

lemma response_cache_add_keeps:
  assumes c: "cache_ok b (Some c)" and h: "msg_holds msg hdr tok xs payload" and m: "length (msg_bytes hdr tok xs payload) \<le> 65535"
    and now: "dur_ok now" "dur_ok lifetime" "0 \<le> ns_of now" "0 \<le> ns_of lifetime" "ns_of now + ns_of lifetime < 2 ^ 63 * NS_IN_S"
    and b: "b \<le> ns_of now + ns_of lifetime"
    and new: "\<And>p. new_ep = Some p \<Longrightarrow> p \<notin> fst ` set (rc_endpoints c) \<and> p < 2 ^ 64"
  shows "\<exists>c' r. response_cache_add (Some c) new_ep now lifetime addr port msg = Some (c', r)
    \<and> cache_ok (ns_of now + ns_of lifetime) c'"
proof -
  from c obtain vs where vs: "cache_represents c vs" "cached_ok b vs" by auto
  from duration_add_small [OF now] obtain t where t: "monotonic_add now lifetime = Some t" "dur_ok t"
    "ns_of t = ns_of now + ns_of lifetime" by (auto simp: monotonic_add_def)
  from cache_add_represents [OF vs(1) h m now(1,2) new, of new_ep addr port] t(1) obtain c' where
    c': "response_cache_add (Some c) new_ep now lifetime addr port msg
      = Some (Some c', snd (cache_add_spec (buf_capacity (rc_buffer c)) (can_store new_ep addr port) now t addr port
                             (msg_bytes hdr tok xs payload) vs))"
    "cache_represents c' (fst (cache_add_spec (buf_capacity (rc_buffer c)) (can_store new_ep addr port) now t addr port
                             (msg_bytes hdr tok xs payload) vs))" by auto
  have "cached_ok (ns_of t) (fst (cache_add_spec (buf_capacity (rc_buffer c)) (can_store new_ep addr port) now t addr port
                             (msg_bytes hdr tok xs payload) vs))"
    by (rule cached_ok_add_spec [OF vs(2)]) (use t b in \<open>auto simp: dur_ok_def\<close>)
  with c' t(3) show ?thesis by auto
qed

section \<open>Well-formed contexts\<close>

text \<open>An unconfirmed message has a handler, its times are in range, and its packet is its encoding.\<close>

definition packet_ok :: "'h unconfirmed \<Rightarrow> udp_header \<Rightarrow> bytes \<Rightarrow> opt_list \<Rightarrow> bytes \<Rightarrow> bool" where
  "packet_ok u hdr tok xs payload \<longleftrightarrow> msg_ok hdr tok xs payload \<and> msg_is (unc_msg u) hdr tok xs payload
     \<and> unc_packet u = msg_bytes hdr tok xs payload \<and> unc_packet_size u = length (unc_packet u)
     \<and> length (unc_packet u) \<le> 65535"

definition unconfirmed_ok :: "'h unconfirmed \<Rightarrow> bool" where
  "unconfirmed_ok u \<longleftrightarrow> unc_handler u \<noteq> None \<and> time_ok (unc_next_retransmit u) \<and> time_ok (recv_timeout (unc_retry_state u))
     \<and> (\<exists>hdr tok xs payload. packet_ok u hdr tok xs payload)"

definition queue_ok :: "nat \<Rightarrow> 'h unconfirmed list \<Rightarrow> bool" where
  "queue_ok nstart us \<longleftrightarrow> queue_sorted us \<and> length (started us) \<le> nstart \<and> (\<forall>u \<in> set us. unconfirmed_ok u)"

definition ctx_inv :: "'w platform \<Rightarrow> ('w \<Rightarrow> int) \<Rightarrow> ('h, 'w) udp_ctx \<Rightarrow> bool" where
  "ctx_inv pf clk ctx \<longleftrightarrow> tx_params_ok pf (uc_tx_params ctx)
     \<and> queue_ok (tx_nstart (uc_tx_params ctx)) (uc_unconfirmed ctx)
     \<and> notify_ok (uc_notify_cache ctx)
     \<and> cache_ok (clk (uc_world ctx) + lifetime_ns pf (uc_tx_params ctx)) (uc_response_cache ctx)
     \<and> sched_ok (uc_sched ctx) \<and> token_ok (cur_token (uc_current_request ctx)) \<and> length (uc_out_buffer ctx) \<le> 65535
     \<and> uc_last_msg_id ctx < 2 ^ 16 \<and> cur_msg_id (uc_current_request ctx) < 2 ^ 16"

text \<open>Outside of \<open>send_message\<close> the output buffer is not acquired.\<close>

definition ctx_ok :: "'w platform \<Rightarrow> ('w \<Rightarrow> int) \<Rightarrow> ('h, 'w) udp_ctx \<Rightarrow> bool" where
  "ctx_ok pf clk ctx \<longleftrightarrow> ctx_inv pf clk ctx \<and> \<not> uc_out_acquired ctx"

text \<open>What sending and rescheduling leave as it is.\<close>

definition same_queue :: "('h, 'w) udp_ctx \<Rightarrow> ('h, 'w) udp_ctx \<Rightarrow> bool" where
  "same_queue ctx ctx' \<longleftrightarrow> uc_unconfirmed ctx' = uc_unconfirmed ctx \<and> uc_tx_params ctx' = uc_tx_params ctx
     \<and> uc_current_request ctx' = uc_current_request ctx \<and> uc_stats ctx' = uc_stats ctx
     \<and> uc_last_msg_id ctx' = uc_last_msg_id ctx \<and> uc_out_buffer ctx' = uc_out_buffer ctx
     \<and> uc_out_acquired ctx' = uc_out_acquired ctx"

lemma same_queue_refl [simp]: "same_queue ctx ctx" by (simp add: same_queue_def)

lemma same_queue_trans: "same_queue a b \<Longrightarrow> same_queue b c \<Longrightarrow> same_queue a c" by (simp add: same_queue_def)

lemma same_queue_ok: "same_queue ctx ctx' \<Longrightarrow> ctx_inv pf clk ctx' \<Longrightarrow> ctx_ok pf clk ctx \<Longrightarrow> ctx_ok pf clk ctx'"
  by (simp add: ctx_ok_def same_queue_def)

lemma ctx_ok_inv: "ctx_ok pf clk ctx \<Longrightarrow> ctx_inv pf clk ctx" by (simp add: ctx_ok_def)

lemma platform_okD:
  assumes "platform_ok pf clk"
  shows "pf_now pf w = (t, w') \<Longrightarrow> span_ok t \<and> clk w \<le> ns_of t \<and> ns_of t \<le> clk w'"
    "pf_random pf w = (r, w') \<Longrightarrow> clk w \<le> clk w'" "pf_alloc pf w = (b, w') \<Longrightarrow> clk w \<le> clk w'"
    "pf_new_job pf w ps = (p, w') \<Longrightarrow> clk w \<le> clk w' \<and> (\<forall>a. p = Some a \<longrightarrow> a \<notin> set ps)"
    "pf_new_endpoint pf w ps = (p, w') \<Longrightarrow> clk w \<le> clk w' \<and> (\<forall>a. p = Some a \<longrightarrow> a \<notin> set ps \<and> a < 2 ^ 64)"
    "pf_send pf w m = (err, w') \<Longrightarrow> clk w \<le> clk w'"
    "pf_receive pf w buf = ((buf', n, err), w') \<Longrightarrow> clk w \<le> clk w' \<and> length buf' = length buf \<and> n \<le> length buf
      \<and> err \<noteq> AVS_COAP_ERR_MALFORMED_OPTIONS"
proof -
  show "pf_now pf w = (t, w') \<Longrightarrow> span_ok t \<and> clk w \<le> ns_of t \<and> ns_of t \<le> clk w'"
    using assms unfolding platform_ok_def span_ok_def by (metis fst_conv snd_conv)
  show "pf_random pf w = (r, w') \<Longrightarrow> clk w \<le> clk w'" using assms unfolding platform_ok_def by (metis snd_conv)
  show "pf_alloc pf w = (b, w') \<Longrightarrow> clk w \<le> clk w'" using assms unfolding platform_ok_def by (metis snd_conv)
  show "pf_new_job pf w ps = (p, w') \<Longrightarrow> clk w \<le> clk w' \<and> (\<forall>a. p = Some a \<longrightarrow> a \<notin> set ps)"
    using assms unfolding platform_ok_def by (metis fst_conv snd_conv)
  show "pf_new_endpoint pf w ps = (p, w') \<Longrightarrow> clk w \<le> clk w' \<and> (\<forall>a. p = Some a \<longrightarrow> a \<notin> set ps \<and> a < 2 ^ 64)"
    using assms unfolding platform_ok_def by (metis fst_conv snd_conv)
  show "pf_send pf w m = (err, w') \<Longrightarrow> clk w \<le> clk w'" using assms unfolding platform_ok_def by (metis snd_conv)
  show "pf_receive pf w buf = ((buf', n, err), w') \<Longrightarrow> clk w \<le> clk w' \<and> length buf' = length buf \<and> n \<le> length buf
      \<and> err \<noteq> AVS_COAP_ERR_MALFORMED_OPTIONS"
    using assms unfolding platform_ok_def by (metis fst_conv snd_conv)
qed

text \<open>A change of the outside world that does not set the clock back keeps a context well-formed.\<close>

lemma ctx_inv_world: "ctx_inv pf clk ctx \<Longrightarrow> clk (uc_world ctx) \<le> clk w \<Longrightarrow> ctx_inv pf clk (ctx\<lparr>uc_world := w\<rparr>)"
  by (auto simp: ctx_inv_def intro: cache_ok_mono)

lemma ctx_now_ok:
  assumes "platform_ok pf clk" "ctx_inv pf clk ctx" "ctx_now pf ctx = (t, ctx')"
  shows "ctx_inv pf clk ctx'" "same_queue ctx ctx'" "span_ok t" "ns_of t \<le> clk (uc_world ctx')" "clk (uc_world ctx) \<le> ns_of t"
    "uc_notify_cache ctx' = uc_notify_cache ctx" "uc_response_cache ctx' = uc_response_cache ctx" "uc_sched ctx' = uc_sched ctx"
proof -
  obtain w where w: "pf_now pf (uc_world ctx) = (t, w)" "ctx' = ctx\<lparr>uc_world := w\<rparr>"
    using assms(3) by (auto simp: ctx_now_def split: prod.splits)
  from platform_okD(1) [OF assms(1) w(1)] w(2) ctx_inv_world [OF assms(2), of w]
  show "ctx_inv pf clk ctx'" "same_queue ctx ctx'" "span_ok t" "ns_of t \<le> clk (uc_world ctx')" "clk (uc_world ctx) \<le> ns_of t"
    "uc_notify_cache ctx' = uc_notify_cache ctx" "uc_response_cache ctx' = uc_response_cache ctx" "uc_sched ctx' = uc_sched ctx"
    by (auto simp: same_queue_def)
qed

lemma ctx_random_ok:
  assumes "platform_ok pf clk" "ctx_inv pf clk ctx" "ctx_random pf ctx = (r, ctx')"
  shows "ctx_inv pf clk ctx'" "same_queue ctx ctx'"
  using assms(3) platform_okD(2) [OF assms(1)] ctx_inv_world [OF assms(2)]
  by (auto simp: ctx_random_def same_queue_def split: prod.splits)

lemma ctx_alloc_ok:
  assumes "platform_ok pf clk" "ctx_inv pf clk ctx" "ctx_alloc pf ctx = (b, ctx')"
  shows "ctx_inv pf clk ctx'" "same_queue ctx ctx'"
  using assms(3) platform_okD(3) [OF assms(1)] ctx_inv_world [OF assms(2)]
  by (auto simp: ctx_alloc_def same_queue_def split: prod.splits)

lemma ctx_send_ok:
  assumes "platform_ok pf clk" "ctx_inv pf clk ctx" "ctx_send pf ctx m = (err, ctx')"
  shows "ctx_inv pf clk ctx'" "same_queue ctx ctx'"
  using assms(3) platform_okD(6) [OF assms(1)] ctx_inv_world [OF assms(2)]
  by (auto simp: ctx_send_def same_queue_def split: prod.splits)

section \<open>Sending keeps a context well-formed\<close>

lemma ctx_inv_notify: "ctx_inv pf clk ctx \<Longrightarrow> notify_ok nc \<Longrightarrow> ctx_inv pf clk (ctx\<lparr>uc_notify_cache := nc\<rparr>)"
  by (simp add: ctx_inv_def)

lemma ctx_inv_tx: "ctx_inv pf clk ctx \<Longrightarrow> tx_params_ok pf (uc_tx_params ctx)" by (simp add: ctx_inv_def)

lemma cache_response_ok:
  assumes pf: "platform_ok pf clk" and inv: "ctx_inv pf clk ctx" and rc: "uc_response_cache ctx = Some cache"
    and h: "msg_holds msg hdr tok xs payload" and len: "length (msg_bytes hdr tok xs payload) \<le> 65535"
  shows "\<exists>ctx'. do {
      let (now, ctx) = ctx_now pf ctx;
      let (new_ep, w) = pf_new_endpoint pf (uc_world ctx) (map fst (rc_endpoints cache));
      let ctx = ctx\<lparr>uc_world := w\<rparr>;
      lifetime \<leftarrow> exchange_lifetime pf (uc_tx_params ctx);
      (response_cache, _) \<leftarrow> response_cache_add (Some cache) new_ep now lifetime addr port msg;
      Some (ctx\<lparr>uc_response_cache := response_cache\<rparr>) } = Some ctx'
    \<and> ctx_inv pf clk ctx' \<and> same_queue ctx ctx'"
proof -
  obtain now ctx1 where now: "ctx_now pf ctx = (now, ctx1)" by (cases "ctx_now pf ctx")
  note n = ctx_now_ok [OF pf inv now]
  obtain new_ep w where ep: "pf_new_endpoint pf (uc_world ctx1) (map fst (rc_endpoints cache)) = (new_ep, w)"
    by (cases "pf_new_endpoint pf (uc_world ctx1) (map fst (rc_endpoints cache))")
  note e = platform_okD(5) [OF pf ep]
  have tx: "tx_params_ok pf (uc_tx_params ctx)" using inv by (rule ctx_inv_tx)
  from exchange_lifetime_ok [OF tx] obtain life where life: "exchange_lifetime pf (uc_tx_params ctx) = Some life" "dur_ok life"
    "ns_of life = lifetime_ns pf (uc_tx_params ctx)" "0 \<le> lifetime_ns pf (uc_tx_params ctx)"
    "lifetime_ns pf (uc_tx_params ctx) < (2 ^ 62 + 200) * NS_IN_S" by auto
  have c: "cache_ok (clk (uc_world ctx) + lifetime_ns pf (uc_tx_params ctx)) (Some cache)" using inv rc by (simp add: ctx_inv_def)
  note sn = span_ok_ns [OF n(3)]
  from response_cache_add_keeps [OF c h len span_ok_dur_ok [OF n(3)] life(2), of new_ep addr port] sn life(3-5) n(5) e
  obtain rc' r where r: "response_cache_add (Some cache) new_ep now life addr port msg = Some (rc', r)"
    "cache_ok (ns_of now + ns_of life) rc'" by auto
  have tx1: "uc_tx_params ctx1 = uc_tx_params ctx" using n(2) by (simp add: same_queue_def)
  have "cache_ok (clk w + lifetime_ns pf (uc_tx_params ctx)) rc'"
    by (rule cache_ok_mono [OF r(2)]) (use n(4) e life(3) in simp)
  then have "ctx_inv pf clk (ctx1\<lparr>uc_world := w, uc_response_cache := rc'\<rparr>)"
    using n(1) tx1 by (simp add: ctx_inv_def)
  moreover have "same_queue ctx (ctx1\<lparr>uc_world := w, uc_response_cache := rc'\<rparr>)" using n(2) by (simp add: same_queue_def)
  ultimately show ?thesis using now ep life(1) tx1 r(1) by simp
qed

lemma try_cache_response_ok:
  assumes pf: "platform_ok pf clk" and inv: "ctx_inv pf clk ctx"
    and h: "msg_holds msg hdr tok xs payload" and len: "length (msg_bytes hdr tok xs payload) \<le> 65535"
  shows "\<exists>ctx'. try_cache_response pf ctx msg = Some ctx' \<and> ctx_inv pf clk ctx' \<and> same_queue ctx ctx'"
proof -
  have nc: "notify_ok (uc_notify_cache ctx)" using inv by (simp add: ctx_inv_def)
  let ?i = "header_get_id (msg_header msg)" and ?type = "header_get_type (msg_header msg)"
  let ?nc = "filter (\<lambda>e. fst e \<noteq> ?i) (uc_notify_cache ctx)"
  let ?ctx1 = "ctx\<lparr>uc_notify_cache := ?nc\<rparr>"
  note drop = notify_cache_drop_spec [OF nc, of ?i]
  have nc1: "notify_ok ?nc" "?i \<notin> fst ` set ?nc" using nc by (auto intro: notify_ok_filter)
  have inv1: "ctx_inv pf clk ?ctx1" using inv nc1(1) by (rule ctx_inv_notify)
  have q1: "same_queue ctx ?ctx1" by (simp add: same_queue_def)
  show ?thesis
  proof (cases "code_is_response (hdr_code (msg_header msg))")
    case False
    with drop inv1 q1 show ?thesis by (simp add: try_cache_response_def Let_def)
  next
    case True
    have opts: "opts_rep (msg_options msg) xs" using h by (simp add: msg_holds_def)
    define observe where "observe \<longleftrightarrow> (?type = CONFIRMABLE \<or> ?type = NON_CONFIRMABLE) \<and> map_of xs 6 \<noteq> None"
    have o: "(if ?type = CONFIRMABLE \<or> ?type = NON_CONFIRMABLE then option_exists (msg_options msg) 6 else Some False) = Some observe"
      by (simp add: option_exists_correct [OF opts] observe_def)
    note put = notify_cache_put_spec [OF nc1, of "msg_token msg"]
    define nc2 where "nc2 = (if observe then (if length ?nc = 4 then tl ?nc else ?nc) @ [(?i, msg_token msg)] else ?nc)"
    have p: "(if observe then notify_cache_put (uc_notify_cache ?ctx1) ?i (msg_token msg)
        else Some (uc_notify_cache ?ctx1)) = Some nc2"
      using put(1) by (simp add: nc2_def)
    have "notify_ok nc2" using put(2) nc1(1) by (simp add: nc2_def)
    then have inv2: "ctx_inv pf clk (ctx\<lparr>uc_notify_cache := nc2\<rparr>)" by (rule ctx_inv_notify [OF inv])
    have q2: "same_queue ctx (ctx\<lparr>uc_notify_cache := nc2\<rparr>)" by (simp add: same_queue_def)
    show ?thesis
    proof (cases "uc_response_cache ctx")
      case None
      with True have "try_cache_response pf ctx msg = Some (ctx\<lparr>uc_notify_cache := nc2\<rparr>)"
        by (simp add: try_cache_response_def Let_def drop o p split del: if_split)
      with inv2 q2 show ?thesis by blast
    next
      case (Some cache)
      show ?thesis
      proof (cases "remote_endpoint pf (ctx\<lparr>uc_notify_cache := nc2\<rparr>)")
        case None
        with Some True have "try_cache_response pf ctx msg = Some (ctx\<lparr>uc_notify_cache := nc2\<rparr>)"
          by (simp add: try_cache_response_def Let_def drop o p split del: if_split)
        with inv2 q2 show ?thesis by blast
      next
        case (Some ep)
        obtain addr port where ep: "ep = (addr, port)" by (cases ep)
        from cache_response_ok [OF pf inv2 _ h len, of cache addr port] \<open>uc_response_cache ctx = Some cache\<close>
        obtain ctx' where ctx': "do {
          let (now, ctx) = ctx_now pf (ctx\<lparr>uc_notify_cache := nc2\<rparr>);
          let (new_ep, w) = pf_new_endpoint pf (uc_world ctx) (map fst (rc_endpoints cache));
          let ctx = ctx\<lparr>uc_world := w\<rparr>;
          lifetime \<leftarrow> exchange_lifetime pf (uc_tx_params ctx);
          (response_cache, _) \<leftarrow> response_cache_add (Some cache) new_ep now lifetime addr port msg;
          Some (ctx\<lparr>uc_response_cache := response_cache\<rparr>) } = Some ctx'"
          "ctx_inv pf clk ctx'" "same_queue (ctx\<lparr>uc_notify_cache := nc2\<rparr>) ctx'" by auto
        have "try_cache_response pf ctx msg = Some ctx'"
          using True Some ep \<open>uc_response_cache ctx = Some cache\<close> ctx'(1)
          by (simp add: try_cache_response_def Let_def drop o p split del: if_split)
        with ctx'(2) same_queue_trans [OF q2 ctx'(3)] show ?thesis by blast
      qed
    qed
  qed
qed

lemma send_serialized_ok:
  assumes pf: "platform_ok pf clk" and inv: "ctx_inv pf clk ctx"
    and h: "msg_holds msg hdr tok xs payload" and len: "length (msg_bytes hdr tok xs payload) \<le> 65535"
    and n: "n \<le> length buf"
  shows "\<exists>err ctx'. send_serialized_msg pf ctx msg buf n = Some (err, ctx') \<and> ctx_inv pf clk ctx' \<and> same_queue ctx ctx'"
proof -
  from try_cache_response_ok [OF pf inv h len] obtain ctx1 where c: "try_cache_response pf ctx msg = Some ctx1"
    "ctx_inv pf clk ctx1" "same_queue ctx ctx1" by blast
  obtain err ctx2 where s: "ctx_send pf ctx1 (take n buf) = (err, ctx2)" by (cases "ctx_send pf ctx1 (take n buf)")
  from ctx_send_ok [OF pf c(2) s] c n s show ?thesis
    by (auto simp: send_serialized_msg_def rd_bytes_def intro: same_queue_trans)
qed

lemma send_packet_ok:
  assumes pf: "platform_ok pf clk" and inv: "ctx_inv pf clk ctx" and u: "unconfirmed_ok u"
  shows "\<exists>err ctx'. send_serialized_msg pf ctx (unc_msg u) (unc_packet u) (unc_packet_size u) = Some (err, ctx')
    \<and> ctx_inv pf clk ctx' \<and> same_queue ctx ctx'"
proof -
  from u obtain hdr tok xs payload where p: "packet_ok u hdr tok xs payload" by (auto simp: unconfirmed_ok_def)
  then have "msg_holds (unc_msg u) hdr tok xs payload" by (auto simp: packet_ok_def msg_ok_def intro: msg_is_holds)
  from send_serialized_ok [OF pf inv this] p show ?thesis by (auto simp: packet_ok_def)
qed

section \<open>Times and the retry job\<close>

lemma first_retransmit_time_ok:
  assumes pf: "platform_ok pf clk" and inv: "ctx_inv pf clk ctx"
  shows "\<exists>t ctx'. get_first_retransmit_time pf ctx = Some (t, ctx') \<and> time_ok t \<and> ctx_inv pf clk ctx' \<and> same_queue ctx ctx'"
proof -
  obtain r ctx1 where r: "ctx_random pf ctx = (r, ctx1)" by (cases "ctx_random pf ctx")
  note c1 = ctx_random_ok [OF pf inv r]
  show ?thesis
  proof (cases r)
    case None
    with r c1 show ?thesis by (simp add: get_first_retransmit_time_def initial_retry_state_def)
  next
    case (Some random)
    obtain now ctx2 where now: "ctx_now pf ctx1 = (now, ctx2)" by (cases "ctx_now pf ctx1")
    note n = ctx_now_ok [OF pf c1(1) now]
    obtain rt where rt: "random_timeout (pf_double pf) (uc_tx_params ctx1) (random mod 2 ^ 32) = Some rt" "span_ok rt"
      using random_timeout_ok [OF ctx_inv_tx [OF c1(1)]] by blast
    have "time_ok rt" using rt(2) by (intro dur_ok_time_ok span_ok_dur_ok)
    moreover have "time_ok now" using n(3) by (intro dur_ok_time_ok span_ok_dur_ok)
    ultimately obtain t where "monotonic_add now rt = Some t" "time_ok t"
      using monotonic_add_closed by blast
    with r Some now n c1(2) rt(1) show ?thesis
      by (auto simp: get_first_retransmit_time_def initial_retry_state_def intro: same_queue_trans)
  qed
qed

lemma sched_time_total: "sched_ok s \<Longrightarrow> \<exists>t. sched_time s (Some h) = Some t"
proof (cases "sched_handles s h")
  case (Some p)
  assume s: "sched_ok s"
  then obtain j where "sched_job_at s p = Some j"
    by (rule handle_jobE [where h = h]) (use Some s in \<open>auto simp: sched_job_at_iff\<close>)
  with Some show ?thesis by (simp add: sched_time_def)
qed (simp add: sched_time_def)

lemma ctx_inv_sched: "ctx_inv pf clk ctx \<Longrightarrow> sched_ok s \<Longrightarrow> ctx_inv pf clk (ctx\<lparr>uc_sched := s\<rparr>)"
  by (simp add: ctx_inv_def)

lemma reschedule_retry_job_ok:
  assumes pf: "platform_ok pf clk" and inv: "ctx_inv pf clk ctx"
  shows "\<exists>ctx'. reschedule_retry_job pf ctx t = Some ctx' \<and> ctx_inv pf clk ctx' \<and> same_queue ctx ctx'"
proof -
  have s: "sched_ok (uc_sched ctx)" using inv by (simp add: ctx_inv_def)
  from sched_time_total [OF s] obtain t0 where t0: "sched_time (uc_sched ctx) (Some (uc_retry_job ctx)) = Some t0" by blast
  obtain p w where p: "pf_new_job pf (uc_world ctx) (map fst (sched_jobs (uc_sched ctx))) = (p, w)"
    by (cases "pf_new_job pf (uc_world ctx) (map fst (sched_jobs (uc_sched ctx)))")
  note fresh = platform_okD(4) [OF pf p]
  then have "call_ok (At (Some (uc_retry_job ctx)) t (Some 0) p) (uc_sched ctx)" by auto
  from at_ok [OF s this] obtain s' r where s': "sched_at (uc_sched ctx) (Some (uc_retry_job ctx)) t (Some 0) p = Some (s', r)"
    "sched_ok s'" by auto
  have "ctx_inv pf clk (ctx\<lparr>uc_world := w\<rparr>)" using ctx_inv_world [OF inv] fresh by simp
  then have "ctx_inv pf clk (ctx\<lparr>uc_world := w, uc_sched := s'\<rparr>)" using s'(2) by (rule ctx_inv_sched)
  with t0 p s' inv show ?thesis by (simp add: reschedule_retry_job_def Let_def same_queue_def)
qed

lemma reschedule_retransmission_job_ok:
  assumes pf: "platform_ok pf clk" and inv: "ctx_inv pf clk ctx"
  shows "\<exists>ctx'. reschedule_retransmission_job pf ctx = Some ctx' \<and> ctx_inv pf clk ctx' \<and> same_queue ctx ctx'"
proof (cases "uc_unconfirmed ctx")
  case Nil
  with inv show ?thesis by (simp add: reschedule_retransmission_job_def)
next
  case (Cons u us)
  obtain t ctx1 where t: "(if current_nstart ctx < effective_nstart ctx then ctx_now pf ctx else (unc_next_retransmit u, ctx)) = (t, ctx1)"
    by (metis surj_pair)
  then have c1: "ctx_inv pf clk ctx1 \<and> same_queue ctx ctx1"
    using ctx_now_ok(1,2) [OF pf inv] inv by (auto split: if_splits)
  from reschedule_retry_job_ok [OF pf conjunct1 [OF c1], of t] obtain ctx' where
    "reschedule_retry_job pf ctx1 t = Some ctx'" "ctx_inv pf clk ctx'" "same_queue ctx1 ctx'" by blast
  with Cons t c1 show ?thesis by (auto simp: reschedule_retransmission_job_def intro: same_queue_trans)
qed

end
