(* ===== verification/Coap_Udp_Ctx_Run.thy ===== *)
theory Coap_Udp_Ctx_Run
  imports Coap_Udp_Ctx_Ok
begin

text \<open>
  The operations of a CoAP/UDP context that call back into the upper layer. With callbacks that
  return and keep the context well-formed, receiving does so too for every datagram except the two
  kinds of message that the code does not expect (\<open>unexpected\<close>), on which an assertion fails.
\<close>

section \<open>Callbacks\<close>

text \<open>
  A callback may do to the context what it likes as long as it stays well-formed and keeps its
  parameters; one that does not accept a response leaves the unconfirmed messages alone.
\<close>

definition upper_ok :: "'w platform \<Rightarrow> ('w \<Rightarrow> int) \<Rightarrow> ('h, 'w) upper_layer \<Rightarrow> bool" where
  "upper_ok pf clk up \<longleftrightarrow>
     (\<forall>h ctx r e m. ctx_ok pf clk ctx \<longrightarrow> (\<exists>hr ctx'. up_send_result up h ctx r e m = Some (hr, ctx')
        \<and> ctx_ok pf clk ctx' \<and> uc_tx_params ctx' = uc_tx_params ctx
        \<and> (hr \<noteq> RESPONSE_ACCEPTED \<longrightarrow> uc_unconfirmed ctx' = uc_unconfirmed ctx)))
     \<and> (\<forall>tok ctx. ctx_ok pf clk ctx \<longrightarrow> (\<exists>ctx'. up_observe_cancel up tok ctx = Some ctx'
        \<and> ctx_ok pf clk ctx' \<and> uc_tx_params ctx' = uc_tx_params ctx))"

lemma unconfirmed_detach_ok:
  assumes "ctx_ok pf clk ctx" "n < length (uc_unconfirmed ctx)"
  obtains ctx' where "ctx_detach ctx n = Some (uc_unconfirmed ctx ! n, ctx')" "ctx_ok pf clk ctx'"
    "unconfirmed_ok (uc_unconfirmed ctx ! n)" "uc_tx_params ctx' = uc_tx_params ctx"
    "uc_unconfirmed ctx' = take n (uc_unconfirmed ctx) @ drop (Suc n) (uc_unconfirmed ctx)"
    "unc_hold (uc_unconfirmed ctx ! n) \<or> length (started (uc_unconfirmed ctx')) < tx_nstart (uc_tx_params ctx')"
proof -
  let ?us = "uc_unconfirmed ctx"
  let ?ctx' = "ctx\<lparr>uc_unconfirmed := take n ?us @ drop (Suc n) ?us\<rparr>"
  have q: "queue_ok (tx_nstart (uc_tx_params ctx)) ?us" using assms(1) by (simp add: ctx_ok_def ctx_inv_def)
  note c = remove_counts [OF assms(2)]
  have "queue_ok (tx_nstart (uc_tx_params ctx)) (take n ?us @ drop (Suc n) ?us)"
    using q c(1) by (auto simp: queue_ok_def queue_sorted_remove dest: in_set_takeD in_set_dropD)
  then have "ctx_ok pf clk ?ctx'" using assms(1) by (simp add: ctx_ok_def ctx_inv_def)
  moreover have "unconfirmed_ok (?us ! n)" using q assms(2) by (simp add: queue_ok_def)
  moreover have "unc_hold (?us ! n) \<or> length (started (take n ?us @ drop (Suc n) ?us)) < tx_nstart (uc_tx_params ctx)"
    using q c(1) by (auto simp: queue_ok_def split: if_splits)
  ultimately show thesis using assms(2) by (intro that [of ?ctx']) (simp_all add: ctx_detach_def)
qed

lemma insert_ok:
  assumes "ctx_inv pf clk ctx" "unconfirmed_ok u" "unc_hold u \<or> length (started (uc_unconfirmed ctx)) < tx_nstart (uc_tx_params ctx)"
  shows "ctx_inv pf clk (ctx_insert u ctx)"
  using assms by (auto simp: ctx_inv_def ctx_insert_def queue_ok_def queue_sorted_insert started_insert)

lemma insert_acquired [simp]: "uc_out_acquired (ctx_insert u ctx) = uc_out_acquired ctx"
  "uc_tx_params (ctx_insert u ctx) = uc_tx_params ctx"
  "uc_unconfirmed (ctx_insert u ctx) = insert_unconfirmed u (uc_unconfirmed ctx)"
  by (simp_all add: ctx_insert_def)

lemma call_handler_ok:
  assumes up: "upper_ok pf clk up" and ctx: "ctx_ok pf clk ctx" and u: "unconfirmed_ok u" and r: "r = RESULT_FAIL \<longleftrightarrow> e \<noteq> AVS_OK"
  shows "\<exists>hr ctx'. call_send_result_handler up ctx u m r e = Some (hr, ctx') \<and> ctx_ok pf clk ctx'
    \<and> uc_tx_params ctx' = uc_tx_params ctx \<and> (hr \<noteq> RESPONSE_ACCEPTED \<longrightarrow> uc_unconfirmed ctx' = uc_unconfirmed ctx)"
proof -
  from u obtain h where h: "unc_handler u = Some h" by (auto simp: unconfirmed_ok_def)
  have a: "if r = RESULT_FAIL then e \<noteq> AVS_OK else e = AVS_OK" using r by auto
  from up ctx have "\<exists>hr ctx'. up_send_result up h ctx r e (map_option borrowed_msg_from_udp_msg m) = Some (hr, ctx')
        \<and> ctx_ok pf clk ctx' \<and> uc_tx_params ctx' = uc_tx_params ctx
        \<and> (hr \<noteq> RESPONSE_ACCEPTED \<longrightarrow> uc_unconfirmed ctx' = uc_unconfirmed ctx)" by (simp add: upper_ok_def)
  then show ?thesis unfolding call_send_result_handler_def h using a by simp
qed

lemma observe_cancel_ok:
  assumes "upper_ok pf clk up" "ctx_ok pf clk ctx"
  shows "\<exists>ctx'. up_observe_cancel up tok ctx = Some ctx' \<and> ctx_ok pf clk ctx'"
  using assms by (simp add: upper_ok_def) blast

lemma ctx_ok_resched:
  assumes "platform_ok pf clk" "ctx_ok pf clk ctx"
  shows "\<exists>ctx'. reschedule_retransmission_job pf ctx = Some ctx' \<and> ctx_ok pf clk ctx' \<and> same_queue ctx ctx'"
  using reschedule_retransmission_job_ok [OF assms(1) ctx_ok_inv [OF assms(2)]] same_queue_ok [OF _ _ assms(2)] by blast

lemma try_cleanup_ok:
  assumes pf: "platform_ok pf clk" and up: "upper_ok pf clk up" and ctx: "ctx_ok pf clk ctx" and u: "unconfirmed_ok u"
    and r: "r = RESULT_FAIL \<longleftrightarrow> e \<noteq> AVS_OK"
    and room: "unc_hold u \<or> length (started (uc_unconfirmed ctx)) < tx_nstart (uc_tx_params ctx)"
  shows "\<exists>ctx'. try_cleanup_unconfirmed up pf ctx u m r e = Some ctx' \<and> ctx_ok pf clk ctx'
    \<and> uc_tx_params ctx' = uc_tx_params ctx"
proof -
  from call_handler_ok [OF up ctx u r, of m] obtain hr ctx1 where c: "call_send_result_handler up ctx u m r e = Some (hr, ctx1)"
    "ctx_ok pf clk ctx1" "uc_tx_params ctx1 = uc_tx_params ctx"
    "hr \<noteq> RESPONSE_ACCEPTED \<longrightarrow> uc_unconfirmed ctx1 = uc_unconfirmed ctx" by blast
  show ?thesis
  proof (cases "m \<noteq> None \<and> r = RESULT_OK \<and> hr \<noteq> RESPONSE_ACCEPTED")
    case True
    have "ctx_inv pf clk (ctx_insert u ctx1)"
      by (rule insert_ok [OF ctx_ok_inv [OF c(2)] u]) (use room True c(3,4) in simp)
    with True c show ?thesis by (simp add: try_cleanup_unconfirmed_def ctx_ok_def)
  next
    case False
    from ctx_ok_resched [OF pf c(2)] obtain ctx2 where "reschedule_retransmission_job pf ctx1 = Some ctx2"
      "ctx_ok pf clk ctx2" "same_queue ctx1 ctx2" by blast
    then show ?thesis using c(3) unfolding try_cleanup_unconfirmed_def c(1) Option.bind.bind_lunit prod.case if_not_P [OF False]
      by (simp add: same_queue_def)
  qed
qed

lemma confirm_ok:
  assumes pf: "platform_ok pf clk" and up: "upper_ok pf clk up" and ctx: "ctx_ok pf clk ctx" and n: "n < length (uc_unconfirmed ctx)"
  shows "\<exists>ctx'. confirm_unconfirmed up pf ctx n m = Some ctx' \<and> ctx_ok pf clk ctx' \<and> uc_tx_params ctx' = uc_tx_params ctx"
proof -
  obtain ctx1 where d: "ctx_detach ctx n = Some (uc_unconfirmed ctx ! n, ctx1)" "ctx_ok pf clk ctx1"
    "unconfirmed_ok (uc_unconfirmed ctx ! n)" "uc_tx_params ctx1 = uc_tx_params ctx"
    "unc_hold (uc_unconfirmed ctx ! n) \<or> length (started (uc_unconfirmed ctx1)) < tx_nstart (uc_tx_params ctx1)"
    by (rule unconfirmed_detach_ok [OF ctx n])
  from try_cleanup_ok [OF pf up d(2,3) _ d(5), of RESULT_OK AVS_OK m] d show ?thesis by (simp add: confirm_unconfirmed_def)
qed

lemma fail_ok:
  assumes pf: "platform_ok pf clk" and up: "upper_ok pf clk up" and ctx: "ctx_ok pf clk ctx" and n: "n < length (uc_unconfirmed ctx)"
    and e: "e \<noteq> AVS_OK"
  shows "\<exists>ctx'. fail_unconfirmed up pf ctx n m e = Some ctx' \<and> ctx_ok pf clk ctx' \<and> uc_tx_params ctx' = uc_tx_params ctx"
proof -
  obtain ctx1 where d: "ctx_detach ctx n = Some (uc_unconfirmed ctx ! n, ctx1)" "ctx_ok pf clk ctx1"
    "unconfirmed_ok (uc_unconfirmed ctx ! n)" "uc_tx_params ctx1 = uc_tx_params ctx"
    "unc_hold (uc_unconfirmed ctx ! n) \<or> length (started (uc_unconfirmed ctx1)) < tx_nstart (uc_tx_params ctx1)"
    by (rule unconfirmed_detach_ok [OF ctx n])
  from try_cleanup_ok [OF pf up d(2,3) _ d(5), of RESULT_FAIL e m] d e show ?thesis by (simp add: fail_unconfirmed_def)
qed

section \<open>Finding messages\<close>

text \<open>What a match means, as a predicate.\<close>

definition same_token :: "token \<Rightarrow> token \<Rightarrow> bool" where
  "same_token a b \<longleftrightarrow> token_size a = token_size b \<and> take (token_size a) (token_bytes a) = take (token_size a) (token_bytes b)"

definition matches :: "exchange_direction \<Rightarrow> token option \<Rightarrow> nat option \<Rightarrow> 'h unconfirmed \<Rightarrow> bool" where
  "matches direction tok i u \<longleftrightarrow>
     (direction = EXCHANGE_ANY \<or> direction = direction_from_code (hdr_code (msg_header (unc_msg u))))
     \<and> (\<forall>t. tok = Some t \<longrightarrow> same_token (msg_token (unc_msg u)) t)
     \<and> (\<forall>j. i = Some j \<longrightarrow> header_get_id (msg_header (unc_msg u)) = j)"

lemma unconfirmed_ok_token: "unconfirmed_ok u \<Longrightarrow> token_ok (msg_token (unc_msg u))"
  by (auto simp: unconfirmed_ok_def packet_ok_def intro: msg_is_token msg_ok_token)

lemma unconfirmed_matches_eq:
  assumes "unconfirmed_ok u" "\<forall>t. tok = Some t \<longrightarrow> token_ok t"
  shows "unconfirmed_matches direction tok i u = Some (matches direction tok i u)"
  using assms(2) token_equal_total [OF unconfirmed_ok_token [OF assms(1)]]
  by (cases tok; cases i) (auto simp: unconfirmed_matches_def matches_def same_token_def)

lemma find_unconfirmed_eq:
  assumes "\<forall>u \<in> set us. unconfirmed_ok u" "\<forall>t. tok = Some t \<longrightarrow> token_ok t"
  shows "find_unconfirmed direction tok i us = Some (find_pos (matches direction tok i) us)"
  using assms by (induction us) (auto simp: unconfirmed_matches_eq)

lemma ctx_ok_unconfirmed: "ctx_ok pf clk ctx \<Longrightarrow> u \<in> set (uc_unconfirmed ctx) \<Longrightarrow> unconfirmed_ok u"
  by (simp add: ctx_ok_def ctx_inv_def queue_ok_def)

text \<open>The message that a response belongs to.\<close>

definition answered_by :: "udp_msg \<Rightarrow> 'h unconfirmed \<Rightarrow> bool" where
  "answered_by msg u \<longleftrightarrow> matches EXCHANGE_CLIENT_REQUEST (Some (msg_token msg))
     (if header_get_type (msg_header msg) = ACKNOWLEDGEMENT then Some (header_get_id (msg_header msg)) else None) u"

lemma find_by_response_eq:
  fixes ctx :: "('h, 'w) udp_ctx"
  assumes "ctx_ok pf clk ctx" "head_ok msg" "code_is_response (hdr_code (msg_header msg))"
  shows "find_unconfirmed_by_response ctx msg = Some (find_pos (answered_by msg) (uc_unconfirmed ctx))"
proof -
  have t: "\<forall>t. Some (msg_token msg) = Some t \<longrightarrow> token_ok t" using assms(2) by (simp add: head_ok_def)
  have u: "\<forall>u \<in> set (uc_unconfirmed ctx). unconfirmed_ok u" using ctx_ok_unconfirmed [OF assms(1)] by blast
  have "header_get_type (msg_header msg) \<noteq> RESET"
  proof
    assume "header_get_type (msg_header msg) = RESET"
    then have "hdr_code (msg_header msg) = CODE_EMPTY" using assms(2) by (simp add: head_ok_def is_msg_header_valid_def)
    then have "\<not> code_is_response (hdr_code (msg_header msg))"
      by (simp add: code_is_response_def CODE_EMPTY_def coap_code_def code_is_success_def code_is_error_def
          code_is_client_error_def code_is_server_error_def code_get_class_def field_get_def)
    with assms(3) show False by simp
  qed
  moreover have "(answered_by msg :: 'h unconfirmed \<Rightarrow> bool) = matches EXCHANGE_CLIENT_REQUEST (Some (msg_token msg))
     (if header_get_type (msg_header msg) = ACKNOWLEDGEMENT then Some (header_get_id (msg_header msg)) else None)"
    by (rule ext) (simp add: answered_by_def)
  ultimately show ?thesis
    using find_unconfirmed_eq [OF u t] assms(3)
    by (cases "header_get_type (msg_header msg)")
      (simp_all add: find_unconfirmed_by_response_def find_unconfirmed_by_token_def Let_def)
qed

lemma find_by_msg_id_eq:
  assumes "ctx_ok pf clk ctx"
  shows "find_unconfirmed_by_msg_id ctx i = Some (find_pos (matches EXCHANGE_ANY None (Some i)) (uc_unconfirmed ctx))"
  using find_unconfirmed_eq [of "uc_unconfirmed ctx" None] ctx_ok_unconfirmed [OF assms]
  by (simp add: find_unconfirmed_by_msg_id_def)

lemma find_pos_less: "find_pos P xs = Some n \<Longrightarrow> n < length xs"
  by (simp add: find_pos_Some)

section \<open>Short messages\<close>

lemma header_get_id_less: "header_get_id hdr < 2 ^ 16"
proof -
  have "256 * unat (fst (message_id hdr)) + unat (snd (message_id hdr)) < 65536"
    using byte_lt_256 [of "fst (message_id hdr)"] byte_lt_256 [of "snd (message_id hdr)"] by linarith
  then show ?thesis by (simp add: header_get_id_def)
qed

lemma zero_options [simp]: "opts_rep (msg_options zero_msg) []"
  by (simp add: zero_msg_def opts_rep_def)

text \<open>A message that consists of a header and a token.\<close>

lemma short_msg_holds:
  assumes "token_ok t" "header_get_token_length hdr = token_size t"
  shows "msg_holds (zero_msg\<lparr>msg_header := hdr, msg_token := t\<rparr>) hdr (take (token_size t) (token_bytes t)) [] []"
  using assms by (simp add: msg_holds_def token_ok_def) (simp add: zero_msg_def)

lemma short_msg_bytes: "msg_bytes hdr tok [] [] = header_bytes hdr @ tok"
  by (simp add: msg_bytes_def payload_bytes_def)

lemma send_empty_ok:
  assumes pf: "platform_ok pf clk" and inv: "ctx_inv pf clk ctx" and i: "i < 2 ^ 16"
  shows "\<exists>err ctx'. send_empty pf ctx type i = Some (err, ctx') \<and> ctx_inv pf clk ctx' \<and> same_queue ctx ctx'"
proof -
  from header_init_getters [of 0 i type CODE_EMPTY] i obtain hdr where h: "header_init type 0 CODE_EMPTY i = Some hdr"
    "header_get_token_length hdr = 0" by auto
  have z: "zero_msg\<lparr>msg_header := hdr, msg_token := msg_token zero_msg\<rparr> = zero_msg\<lparr>msg_header := hdr\<rparr>" by (simp add: zero_msg_def)
  have "token_size (msg_token zero_msg) = 0" by (simp add: zero_msg_def)
  with short_msg_holds [of "msg_token zero_msg" hdr] h(2) have "msg_holds (zero_msg\<lparr>msg_header := hdr\<rparr>) hdr [] [] []"
    by (simp add: z)
  from send_serialized_ok [OF pf inv this, of 4 "header_bytes hdr"] h(1) show ?thesis
    by (simp add: send_empty_def short_msg_bytes)
qed

lemma send_empty_response_ok:
  assumes pf: "platform_ok pf clk" and inv: "ctx_inv pf clk ctx" and req: "head_ok request"
  shows "\<exists>err ctx'. send_empty_response pf ctx request code = Some (err, ctx') \<and> ctx_inv pf clk ctx' \<and> same_queue ctx ctx'"
proof -
  let ?t = "msg_token request" and ?i = "header_get_id (msg_header request)"
  have t: "token_ok ?t" "token_size ?t \<le> 8" using req by (simp_all add: head_ok_def token_ok_def)
  then have n: "unat (byte_of (token_size ?t)) = token_size ?t" by simp
  from header_init_getters [of "byte_of (token_size ?t)" ?i ACKNOWLEDGEMENT code] header_get_id_less [of "msg_header request"] t(2)
  obtain hdr where h: "header_init ACKNOWLEDGEMENT (byte_of (token_size ?t)) code ?i = Some hdr"
    "header_get_token_length hdr = token_size ?t" by (auto simp: n)
  let ?msg = "zero_msg\<lparr>msg_header := hdr, msg_token := ?t\<rparr>" and ?tok = "take (token_size ?t) (token_bytes ?t)"
  note m = short_msg_holds [OF t(1) h(2)]
  have len: "length (msg_bytes hdr ?tok [] []) = 4 + token_size ?t" using t by (simp add: short_msg_bytes token_ok_def)
  from udp_msg_serialize_spec [OF m, of 13 "replicate 13 0"] len t(2)
  have s: "udp_msg_serialize ?msg (replicate 13 0) 13 = Some (msg_bytes hdr ?tok [] [] @ drop (4 + token_size ?t) (replicate 13 0),
      4 + token_size ?t, AVS_OK)" by auto
  from send_serialized_ok [OF pf inv m, of "4 + token_size ?t"
      "msg_bytes hdr ?tok [] [] @ drop (4 + token_size ?t) (replicate 13 0)"] len t(2) h(1) s
  show ?thesis by (simp add: send_empty_response_def Let_def)
qed

lemma send_reset_ok:
  assumes "platform_ok pf clk" "ctx_inv pf clk ctx"
  shows "\<exists>err ctx'. send_reset pf ctx (header_get_id hdr) = Some (err, ctx') \<and> ctx_inv pf clk ctx' \<and> same_queue ctx ctx'"
  unfolding send_reset_def by (rule send_empty_ok [OF assms header_get_id_less])

lemma send_separate_ack_ok:
  assumes "platform_ok pf clk" "ctx_inv pf clk ctx"
  shows "\<exists>err ctx'. send_separate_ack pf ctx (header_get_id hdr) = Some (err, ctx') \<and> ctx_inv pf clk ctx' \<and> same_queue ctx ctx'"
  unfolding send_separate_ack_def by (rule send_empty_ok [OF assms header_get_id_less])

section \<open>Responses\<close>

lemma handle_response_ok:
  assumes pf: "platform_ok pf clk" and up: "upper_ok pf clk up" and ctx: "ctx_ok pf clk ctx" and msg: "head_ok msg"
    and resp: "code_is_response (hdr_code (msg_header msg))"
  shows "\<exists>err ctx'. handle_response up pf ctx msg = Some (err, ctx') \<and> ctx_ok pf clk ctx'"
proof -
  let ?type = "header_get_type (msg_header msg)" and ?id = "header_get_id (msg_header msg)"
  note inv = ctx_ok_inv [OF ctx]
  note f = find_by_response_eq [OF ctx msg resp]
  show ?thesis
  proof (cases "find_pos (answered_by msg) (uc_unconfirmed ctx)")
    case None
    from send_reset_ok [OF pf inv, of "msg_header msg"] ctx None f same_queue_ok show ?thesis
      by (simp add: handle_response_def) blast
  next
    case (Some n)
    have ty: "?type \<noteq> RESET" using f by (auto simp: find_unconfirmed_by_response_def Let_def)
    have "\<exists>err ctx1. (if ?type = CONFIRMABLE then send_separate_ack pf ctx ?id else Some (AVS_OK, ctx)) = Some (err, ctx1)
      \<and> ctx_ok pf clk ctx1 \<and> same_queue ctx ctx1"
      using send_separate_ack_ok [OF pf inv, of "msg_header msg"] ctx same_queue_ok by (cases "?type = CONFIRMABLE") auto
    then obtain err ctx1 where c1: "(if ?type = CONFIRMABLE then send_separate_ack pf ctx ?id else Some (AVS_OK, ctx)) = Some (err, ctx1)"
      "ctx_ok pf clk ctx1" "same_queue ctx ctx1" by blast
    have n: "n < length (uc_unconfirmed ctx1)" using find_pos_less [OF Some] c1(3) by (simp add: same_queue_def)
    from fail_ok [OF pf up c1(2) n, of err None] confirm_ok [OF pf up c1(2) n, of "Some msg"] Some f ty
    show ?thesis by (cases "err = AVS_OK") (auto simp: handle_response_def c1(1) split del: if_split)
  qed
qed

section \<open>Empty messages\<close>

text \<open>All slots are in use, as they are after the timer has run.\<close>

definition settled :: "('h, 'w) udp_ctx \<Rightarrow> bool" where
  "settled ctx \<longleftrightarrow> length (started (uc_unconfirmed ctx)) = min (length (uc_unconfirmed ctx)) (tx_nstart (uc_tx_params ctx))"

lemma current_nstart_eq: "ctx_inv pf clk ctx \<Longrightarrow> current_nstart ctx = length (started (uc_unconfirmed ctx))"
  by (simp add: ctx_inv_def queue_ok_def current_nstart_def started_messages_eq)

text \<open>Moving a message to where its new time belongs.\<close>

lemma reinsert_ok:
  assumes ctx: "ctx_ok pf clk ctx" and n: "n < length (uc_unconfirmed ctx)"
    and d: "ctx_detach ctx n = Some (uc_unconfirmed ctx ! n, ctx1)"
    and u: "unconfirmed_ok u" "unc_hold u = unc_hold (uc_unconfirmed ctx ! n)"
  shows "ctx_ok pf clk (ctx_insert u ctx1)" "settled (ctx_insert u ctx1) = settled ctx"
    "uc_tx_params ctx1 = uc_tx_params ctx"
proof -
  obtain ctx2 where c: "ctx_detach ctx n = Some (uc_unconfirmed ctx ! n, ctx2)" "ctx_ok pf clk ctx2"
    "uc_tx_params ctx2 = uc_tx_params ctx"
    "uc_unconfirmed ctx2 = take n (uc_unconfirmed ctx) @ drop (Suc n) (uc_unconfirmed ctx)"
    "unc_hold (uc_unconfirmed ctx ! n) \<or> length (started (uc_unconfirmed ctx2)) < tx_nstart (uc_tx_params ctx2)"
    by (rule unconfirmed_detach_ok [OF ctx n])
  then have e: "ctx2 = ctx1" using d by simp
  from insert_ok [OF ctx_ok_inv [OF c(2)] u(1)] c(5) u(2) c(2) show "ctx_ok pf clk (ctx_insert u ctx1)"
    by (simp add: e ctx_ok_def)
  have "length (take n (uc_unconfirmed ctx) @ drop (Suc n) (uc_unconfirmed ctx)) + 1 = length (uc_unconfirmed ctx)"
    using n by simp
  with remove_counts(1) [OF n] c(3,4) u(2) show "settled (ctx_insert u ctx1) = settled ctx"
    by (auto simp: settled_def started_insert e split: if_splits)
  show "uc_tx_params ctx1 = uc_tx_params ctx" using c(3) e by simp
qed

text \<open>The assertion at the end of \<open>ack_request\<close> holds exactly if the context is settled.\<close>

lemma ack_request_result:
  assumes pf: "platform_ok pf clk" and ctx: "ctx_ok pf clk ctx" and n: "n < length (uc_unconfirmed ctx)"
    and v: "monotonic_valid (unc_next_retransmit (uc_unconfirmed ctx ! n))"
  shows "\<exists>ctx'. ack_request up pf ctx n = (if settled ctx then Some ctx' else None) \<and> ctx_ok pf clk ctx'"
proof -
  obtain now ctx1 where now: "ctx_now pf ctx = (now, ctx1)" by (cases "ctx_now pf ctx")
  note t = ctx_now_ok [OF pf ctx_ok_inv [OF ctx] now]
  have ctx1: "ctx_ok pf clk ctx1" using t(1,2) same_queue_ok ctx by blast
  have us: "uc_unconfirmed ctx1 = uc_unconfirmed ctx" "uc_tx_params ctx1 = uc_tx_params ctx" using t(2) by (simp_all add: same_queue_def)
  from exchange_lifetime_ok [OF ctx_inv_tx [OF t(1)]] obtain life where
    life: "exchange_lifetime pf (uc_tx_params ctx1) = Some life" "dur_ok life" by blast
  from monotonic_add_closed [of now life] span_ok_dur_ok [OF t(3)] life(2) obtain later where
    nt: "monotonic_add now life = Some later" "time_ok later" by auto
  have n1: "n < length (uc_unconfirmed ctx1)" using n us by simp
  obtain ctx2 where d: "ctx_detach ctx1 n = Some (uc_unconfirmed ctx1 ! n, ctx2)" "unconfirmed_ok (uc_unconfirmed ctx1 ! n)"
    by (rule unconfirmed_detach_ok [OF ctx1 n1])
  define u where "u = (uc_unconfirmed ctx1 ! n)\<lparr>unc_retry_state := (unc_retry_state (uc_unconfirmed ctx1 ! n))\<lparr>retry_count := tx_max_retransmit (uc_tx_params ctx2)\<rparr>,
      unc_next_retransmit := later\<rparr>"
  have u: "unconfirmed_ok u" "unc_hold u = unc_hold (uc_unconfirmed ctx1 ! n)"
    using d(2) nt(2) by (simp_all add: u_def unconfirmed_ok_def packet_ok_def)
  note r = reinsert_ok [OF ctx1 n1 d(1) u]
  from ctx_ok_resched [OF pf r(1)] obtain ctx3 where c3: "reschedule_retransmission_job pf (ctx_insert u ctx2) = Some ctx3"
    "ctx_ok pf clk ctx3" "same_queue (ctx_insert u ctx2) ctx3" by blast
  have "settled ctx3 = settled ctx" using r(2) c3(3) us by (simp add: settled_def same_queue_def)
  then have "current_nstart ctx3 = min (length (uc_unconfirmed ctx3)) (tx_nstart (uc_tx_params ctx3)) \<longleftrightarrow> settled ctx"
    using current_nstart_eq [OF ctx_ok_inv [OF c3(2)]] by (simp add: settled_def)
  then show ?thesis using v n now life nt d(1) c3(1) [unfolded u_def] c3(2) us
    by (auto simp: ack_request_def Let_def c_assert_def)
qed

lemma ack_request_ok:
  assumes pf: "platform_ok pf clk" and up: "upper_ok pf clk up" and ctx: "ctx_ok pf clk ctx"
    and n: "n < length (uc_unconfirmed ctx)"
  shows "(\<exists>ctx'. ack_request up pf ctx n = Some ctx' \<and> ctx_ok pf clk ctx') \<or> ack_request up pf ctx n = None \<and> \<not> settled ctx"
proof (cases "monotonic_valid (unc_next_retransmit (uc_unconfirmed ctx ! n))")
  case True
  from ack_request_result [OF pf ctx n True, of up] show ?thesis by (cases "settled ctx") auto
next
  case False
  obtain now ctx1 where now: "ctx_now pf ctx = (now, ctx1)" by (cases "ctx_now pf ctx")
  note t = ctx_now_ok [OF pf ctx_ok_inv [OF ctx] now]
  have ctx1: "ctx_ok pf clk ctx1" using t(1,2) same_queue_ok ctx by blast
  have us: "uc_unconfirmed ctx1 = uc_unconfirmed ctx" using t(2) by (simp add: same_queue_def)
  from exchange_lifetime_ok [OF ctx_inv_tx [OF t(1)]] obtain life where
    life: "exchange_lifetime pf (uc_tx_params ctx1) = Some life" "dur_ok life" by blast
  from monotonic_add_closed [of now life] span_ok_dur_ok [OF t(3)] life(2) obtain later where
    nt: "monotonic_add now life = Some later" by auto
  have n1: "n < length (uc_unconfirmed ctx1)" using n us by simp
  from fail_ok [OF pf up ctx1 n1, of AVS_COAP_ERR_TIME_INVALID None] False n us now life nt show ?thesis
    by (auto simp: ack_request_def)
qed

lemma handle_empty_ok:
  assumes pf: "platform_ok pf clk" and up: "upper_ok pf clk up" and ctx: "ctx_ok pf clk ctx"
  shows "(\<exists>err ctx'. handle_empty up pf ctx msg = Some (err, ctx') \<and> ctx_ok pf clk ctx') \<or>
    handle_empty up pf ctx msg = None \<and> \<not> settled ctx \<and> header_get_type (msg_header msg) = ACKNOWLEDGEMENT"
proof -
  let ?id = "header_get_id (msg_header msg)"
  let ?found = "find_pos (matches EXCHANGE_ANY None (Some ?id)) (uc_unconfirmed ctx)"
  note f = find_by_msg_id_eq [OF ctx, of ?id]
  note inv = ctx_ok_inv [OF ctx]
  show ?thesis
  proof (cases "header_get_type (msg_header msg)")
    case CONFIRMABLE
    from send_reset_ok [OF pf inv, of "msg_header msg"] CONFIRMABLE f ctx same_queue_ok show ?thesis
      by (simp add: handle_empty_def Let_def) blast
  next
    case NON_CONFIRMABLE
    with f ctx show ?thesis by (simp add: handle_empty_def Let_def)
  next
    case ACKNOWLEDGEMENT
    show ?thesis
    proof (cases ?found)
      case None
      with f ctx ACKNOWLEDGEMENT show ?thesis by (simp add: handle_empty_def Let_def)
    next
      case (Some n)
      from ack_request_ok [OF pf up ctx find_pos_less [OF Some]] confirm_ok [OF pf up ctx find_pos_less [OF Some], of None]
        f Some ACKNOWLEDGEMENT show ?thesis
        by (cases "code_is_request (hdr_code (msg_header (unc_msg (uc_unconfirmed ctx ! n))))")
          (auto simp: handle_empty_def Let_def)
    qed
  next
    case RESET
    have "\<exists>ctx1. (case ?found of None \<Rightarrow> Some ctx | Some n \<Rightarrow> fail_unconfirmed up pf ctx n None AVS_COAP_ERR_UDP_RESET_RECEIVED)
      = Some ctx1 \<and> ctx_ok pf clk ctx1"
    proof (cases ?found)
      case (Some n)
      with fail_ok [OF pf up ctx find_pos_less [OF Some], of AVS_COAP_ERR_UDP_RESET_RECEIVED None] show ?thesis by auto
    qed (use ctx in simp)
    then obtain ctx1 where c1: "(case ?found of None \<Rightarrow> Some ctx | Some n \<Rightarrow> fail_unconfirmed up pf ctx n None AVS_COAP_ERR_UDP_RESET_RECEIVED)
      = Some ctx1" "ctx_ok pf clk ctx1" by blast
    have "\<exists>ctx2. (case notify_cache_get (uc_notify_cache ctx1) ?id of None \<Rightarrow> Some ctx1 | Some tok \<Rightarrow> up_observe_cancel up tok ctx1)
      = Some ctx2 \<and> ctx_ok pf clk ctx2"
      using observe_cancel_ok [OF up c1(2)] c1(2) by (cases "notify_cache_get (uc_notify_cache ctx1) ?id") auto
    then show ?thesis using f RESET c1(1) by (auto simp: handle_empty_def Let_def)
  qed
qed

section \<open>Requests\<close>

lemma cached_order:
  assumes "cached_ok b (map view rs)" and k: "dropWhile (re_expired now) rs = rs1 @ r # rs2"
  shows "\<not> re_expired now r"
proof
  assume e: "re_expired now r"
  let ?t = "\<lambda>x. ns_of (re_expiration x)"
  from k e obtain f fs where rs1: "rs1 = f # fs" by (cases rs1) (auto dest: dropWhile_eq_Cons_conv [THEN iffD1])
  then have f: "\<not> re_expired now f" using k by (auto dest: dropWhile_eq_Cons_conv [THEN iffD1])
  have rs: "rs = takeWhile (re_expired now) rs @ f # fs @ r # rs2"
    using takeWhile_dropWhile_id [of "re_expired now" rs] k rs1 by simp
  have "(\<lambda>(_, _, t, _). ns_of t) \<circ> view = ?t" by (rule ext) (simp add: view_def)
  then have "sorted (map ?t rs)" using assms(1) by (simp add: cached_ok_def)
  then have "sorted (map ?t (takeWhile (re_expired now) rs @ f # fs @ r # rs2))" using rs by simp
  then have le: "?t f \<le> ?t r" by (simp add: sorted_append)
  have "f \<in> set rs" using rs by (metis in_set_conv_decomp)
  then have "duration_valid (re_expiration f)" using assms(1) by (auto simp: cached_ok_def view_def)
  with e f le show False by (auto simp: re_expired_def before_char)
qed

lemma response_cache_get_keeps:
  assumes c: "cache_ok b (Some c)" and out: "length (token_bytes (msg_token (cr_msg out))) = 8"
  shows "\<exists>c' err r. response_cache_get (Some c) now addr port i out = Some (c', err, r) \<and> cache_ok b c'
    \<and> (err = AVS_OK \<longrightarrow> cr_packet_size r \<le> length (cr_packet r)
       \<and> (\<exists>hdr tok xs payload. msg_holds (cr_msg r) hdr tok xs payload \<and> length (msg_bytes hdr tok xs payload) \<le> 65535))"
proof -
  from c obtain vs rs where rs: "cache_inv c rs" "map view rs = vs" "cached_ok b (map view rs)"
    by (auto simp: cache_represents_def)
  let ?d = "dropWhile (re_expired now) rs"
  have dv: "map view ?d = dropWhile (cached_expired now) vs" using rs(2) by (simp add: view_dropWhile)
  have bd: "cached_ok b (map view ?d)"
    using cached_ok_suffix [of b "map view (takeWhile (re_expired now) rs)" "map view ?d"] rs(3)
    by (simp add: map_append [symmetric] takeWhile_dropWhile_id del: map_append)
  show ?thesis
  proof (cases "\<exists>x \<in> set ?d. re_matches addr port i x")
    case False
    then have "\<not> (\<exists>v \<in> set (map view ?d). cached_matches addr port i v)" by (auto simp: view_simps)
    from cache_get_none [OF rs(1) this, of out] obtain c' where
      "response_cache_get (Some c) now addr port i out = Some (Some c', AVS_ENOENT, out)" "cache_inv c' ?d" by blast
    moreover from this(2) bd have "cache_ok b (Some c')" by (auto simp: cache_represents_def)
    ultimately show ?thesis by auto
  next
    case True
    then obtain rs1 r rs2 where k: "?d = rs1 @ r # rs2" "re_matches addr port i r" "\<forall>x \<in> set rs1. \<not> re_matches addr port i x"
      by (metis split_list_first_prop)
    note alive = cached_order [OF rs(3) k(1)]
    from cache_get_found [OF rs(1) k(1,3,2), of out] alive obtain c' rest where
      g: "response_cache_get (Some c) now addr port i out =
        do { (msg, err) \<leftarrow> udp_msg_parse (cr_msg out) (re_packet r @ rest) (length (re_packet r));
             Some (Some c', err, \<lparr>cr_msg = msg, cr_packet = re_packet r @ rest, cr_packet_size = length (re_packet r)\<rparr>) }"
      "cache_inv c' (rs1 @ r # rs2)" by auto
    have "list_all response_ok rs" using rs(1) by (simp add: cache_inv_def buffer_holds_def)
    moreover have "r \<in> set rs" using k(1) by (metis in_set_conv_decomp set_dropWhileD)
    ultimately have r: "response_ok r" by (simp add: list_all_iff)
    from udp_msg_parse_sound [of "length (re_packet r)" "re_packet r @ rest" "cr_msg out"] out obtain msg err where
      p: "udp_msg_parse (cr_msg out) (re_packet r @ rest) (length (re_packet r)) = Some (msg, err)"
      "if err = AVS_OK
       then \<exists>hdr tok xs payload. take (length (re_packet r)) (re_packet r @ rest) = msg_bytes hdr tok xs payload
          \<and> msg_ok hdr tok xs payload \<and> msg_is msg hdr tok xs payload
       else err = AVS_COAP_ERR_MALFORMED_MESSAGE \<or> err = AVS_COAP_ERR_MALFORMED_OPTIONS" by auto
    have "err = AVS_OK \<Longrightarrow> \<exists>hdr tok xs payload. msg_holds msg hdr tok xs payload \<and> length (msg_bytes hdr tok xs payload) \<le> 65535"
    proof -
      assume "err = AVS_OK"
      with p(2) obtain hdr tok xs payload where m: "re_packet r = msg_bytes hdr tok xs payload"
        "msg_ok hdr tok xs payload" "msg_is msg hdr tok xs payload" by auto
      then have "msg_holds msg hdr tok xs payload" by (auto simp: msg_ok_def intro: msg_is_holds)
      moreover have "length (msg_bytes hdr tok xs payload) \<le> 65535" using r m(1) by (simp add: response_ok_def)
      ultimately show ?thesis by blast
    qed
    moreover have "cache_ok b (Some c')" using g(2) bd k(1) by (auto simp: cache_represents_def)
    ultimately show ?thesis using g(1) p(1) by auto
  qed
qed

lemma ctx_inv_request: "ctx_inv pf clk ctx \<Longrightarrow> ctx_inv pf clk (ctx\<lparr>uc_current_request := (uc_current_request ctx)\<lparr>cur_exists := b\<rparr>\<rparr>)"
  by (simp add: ctx_inv_def)

lemma try_send_cached_response_ok:
  assumes pf: "platform_ok pf clk" and ctx: "ctx_ok pf clk ctx" and req: "code_is_request (hdr_code (msg_header msg))"
    and cur: "cur_exists (uc_current_request ctx)"
  shows "\<exists>err hit ctx'. try_send_cached_response pf ctx msg = Some (err, hit, ctx') \<and> ctx_ok pf clk ctx'
    \<and> uc_tx_params ctx' = uc_tx_params ctx \<and> uc_unconfirmed ctx' = uc_unconfirmed ctx"
proof (cases "uc_response_cache ctx")
  case None
  with req cur ctx show ?thesis by (auto simp: try_send_cached_response_def)
next
  case (Some cache)
  show ?thesis
  proof (cases "remote_endpoint pf ctx")
    case None
    with Some req cur ctx show ?thesis by (auto simp: try_send_cached_response_def)
  next
    case (Some ep)
    obtain addr port where ep: "ep = (addr, port)" by (cases ep)
    obtain now ctx1 where now: "ctx_now pf ctx = (now, ctx1)" by (cases "ctx_now pf ctx")
    note n = ctx_now_ok [OF pf ctx_ok_inv [OF ctx] now]
    let ?b = "clk (uc_world ctx1) + lifetime_ns pf (uc_tx_params ctx1)"
    have "cache_ok ?b (Some cache)" using n(1,7) \<open>uc_response_cache ctx = Some cache\<close> by (simp add: ctx_inv_def)
    from response_cache_get_keeps [OF this, of "\<lparr>cr_msg = zero_msg, cr_packet = [], cr_packet_size = 0\<rparr>" now addr port
        "header_get_id (msg_header msg)", simplified]
    obtain c' err r where g: "response_cache_get (Some cache) now addr port (header_get_id (msg_header msg))
        \<lparr>cr_msg = zero_msg, cr_packet = [], cr_packet_size = 0\<rparr> = Some (c', err, r)" "cache_ok ?b c'"
      "err = AVS_OK \<longrightarrow> cr_packet_size r \<le> length (cr_packet r)
       \<and> (\<exists>hdr tok xs payload. msg_holds (cr_msg r) hdr tok xs payload \<and> length (msg_bytes hdr tok xs payload) \<le> 65535)" by blast
    have inv2: "ctx_inv pf clk (ctx1\<lparr>uc_response_cache := c'\<rparr>)" using n(1) g(2) by (simp add: ctx_inv_def)
    have q2: "same_queue ctx (ctx1\<lparr>uc_response_cache := c'\<rparr>)" using n(2) by (simp add: same_queue_def)
    note start = req cur \<open>uc_response_cache ctx = Some cache\<close> Some ep now g(1)
    show ?thesis
    proof (cases "err = AVS_OK")
      case False
      with start same_queue_ok [OF q2 inv2 ctx] q2 show ?thesis
        by (auto simp: try_send_cached_response_def Let_def same_queue_def)
    next
      case True
      let ?ctx3 = "ctx1\<lparr>uc_response_cache := c', uc_current_request := (uc_current_request ctx1)\<lparr>cur_exists := False\<rparr>\<rparr>"
      have inv3: "ctx_inv pf clk ?ctx3" using ctx_inv_request [OF inv2, of False] by simp
      from g(3) True obtain hdr tok xs payload where m: "msg_holds (cr_msg r) hdr tok xs payload"
        "length (msg_bytes hdr tok xs payload) \<le> 65535" "cr_packet_size r \<le> length (cr_packet r)" by blast
      from send_serialized_ok [OF pf inv3 m] obtain e ctx4 where
        s: "send_serialized_msg pf ?ctx3 (cr_msg r) (cr_packet r) (cr_packet_size r) = Some (e, ctx4)"
        "ctx_inv pf clk ctx4" "same_queue ?ctx3 ctx4" by blast
      have "ctx_ok pf clk ctx4" using s(2,3) ctx q2 by (simp add: ctx_ok_def same_queue_def)
      moreover have "uc_tx_params ctx4 = uc_tx_params ctx \<and> uc_unconfirmed ctx4 = uc_unconfirmed ctx"
        using s(3) q2 by (simp add: same_queue_def)
      ultimately show ?thesis using start True s(1) by (auto simp: try_send_cached_response_def Let_def)
    qed
  qed
qed

lemma count_incoming_ok: "ctx_ok pf clk ctx \<Longrightarrow> ctx_ok pf clk (count_incoming_retransmission ctx)"
  by (simp add: ctx_ok_def ctx_inv_def count_incoming_retransmission_def)

lemma store_request_ok:
  assumes ctx: "ctx_ok pf clk ctx" and cur: "\<not> cur_exists (uc_current_request ctx)" and msg: "token_ok (msg_token msg)"
  shows "\<exists>ctx'. store_request_id ctx msg = Some ctx' \<and> ctx_ok pf clk ctx' \<and> cur_exists (uc_current_request ctx')"
  using assms header_get_id_less [of "msg_header msg"] by (simp add: store_request_id_def ctx_ok_def ctx_inv_def)

lemma request_type: "is_msg_header_valid hdr \<Longrightarrow> code_is_request (hdr_code hdr)
    \<Longrightarrow> header_get_type hdr = CONFIRMABLE \<or> header_get_type hdr = NON_CONFIRMABLE"
  by (cases "header_get_type hdr")
    (auto simp: is_msg_header_valid_def code_is_request_def CODE_EMPTY_def coap_code_def code_get_detail_def field_get_def)

text \<open>The two messages that a context may not be ready for.\<close>

definition unexpected :: "('h, 'w) udp_ctx \<Rightarrow> udp_msg \<Rightarrow> bool" where
  "unexpected ctx msg \<longleftrightarrow>
     code_is_request (hdr_code (msg_header msg)) \<and> cur_exists (uc_current_request ctx)
     \<or> hdr_code (msg_header msg) = CODE_EMPTY \<and> header_get_type (msg_header msg) = ACKNOWLEDGEMENT \<and> \<not> settled ctx"

lemma handle_msg_ok:
  assumes pf: "platform_ok pf clk" and up: "upper_ok pf clk up" and ctx: "ctx_ok pf clk ctx" and msg: "head_ok msg"
  shows "(\<exists>err hit ctx'. handle_msg up pf ctx msg = Some (err, hit, ctx') \<and> ctx_ok pf clk ctx') \<or>
    handle_msg up pf ctx msg = None \<and> unexpected ctx msg"
proof (cases "code_is_request (hdr_code (msg_header msg)) \<and> cur_exists (uc_current_request ctx)")
  case True
  then show ?thesis by (simp add: handle_msg_def store_request_id_def c_assert_def unexpected_def)
next
  case ready: False
  show ?thesis
  proof (cases "code_is_request (hdr_code (msg_header msg))")
    case True
    with ready have cur: "\<not> cur_exists (uc_current_request ctx)" by simp
    from store_request_ok [OF ctx cur] msg obtain ctx1 where c1: "store_request_id ctx msg = Some ctx1" "ctx_ok pf clk ctx1"
      "cur_exists (uc_current_request ctx1)" by (auto simp: head_ok_def)
    from try_send_cached_response_ok [OF pf c1(2) True c1(3)] obtain err hit ctx2 where
      t: "try_send_cached_response pf ctx1 msg = Some (err, hit, ctx2)" "ctx_ok pf clk ctx2" by blast
    have ty: "header_get_type (msg_header msg) = CONFIRMABLE \<or> header_get_type (msg_header msg) = NON_CONFIRMABLE"
      using msg True by (intro request_type) (simp_all add: head_ok_def)
    from True c1 t ty count_incoming_ok [OF t(2)] show ?thesis by (cases hit) (auto simp: handle_msg_def handle_request_def)
  next
    case False
    show ?thesis
    proof (cases "code_is_response (hdr_code (msg_header msg))")
      case True
      from handle_response_ok [OF pf up ctx msg True] True False show ?thesis by (auto simp: handle_msg_def)
    next
      case no: False
      from handle_empty_ok [OF pf up ctx, of msg] no False ctx show ?thesis by (auto simp: handle_msg_def unexpected_def)
    qed
  qed
qed

section \<open>Receiving\<close>

lemma recv_msg_ok:
  assumes pf: "platform_ok pf clk" and ctx: "ctx_ok pf clk ctx"
  shows "\<exists>msg buf' err ctx'. recv_msg pf ctx zero_msg buf = Some ((msg, buf', err), ctx') \<and> ctx_ok pf clk ctx'
    \<and> same_queue ctx ctx' \<and> length buf' = length buf \<and> (err = AVS_OK \<longrightarrow> head_ok msg)
    \<and> (err = AVS_COAP_ERR_MALFORMED_OPTIONS \<longrightarrow> head_ok msg)"
proof -
  obtain buf' n err w where r: "pf_receive pf (uc_world ctx) buf = ((buf', n, err), w)"
    by (cases "pf_receive pf (uc_world ctx) buf") auto
  note p = platform_okD(7) [OF pf r]
  have inv: "ctx_inv pf clk (ctx\<lparr>uc_world := w\<rparr>)" using ctx_inv_world [OF ctx_ok_inv [OF ctx]] p by blast
  then have ok: "ctx_ok pf clk (ctx\<lparr>uc_world := w\<rparr>)" using ctx by (simp add: ctx_ok_def)
  show ?thesis
  proof (cases "err = AVS_OK")
    case False
    with r ok p show ?thesis by (simp add: recv_msg_def ctx_receive_def same_queue_def)
  next
    case True
    have n: "n \<le> length buf'" using p by simp
    from udp_msg_parse_sound [OF n zero_msg_token(2)] obtain msg e where
      m: "udp_msg_parse zero_msg buf' n = Some (msg, e)"
      "if e = AVS_OK then \<exists>hdr tok xs payload. take n buf' = msg_bytes hdr tok xs payload
          \<and> msg_ok hdr tok xs payload \<and> msg_is msg hdr tok xs payload
       else e = AVS_COAP_ERR_MALFORMED_MESSAGE \<or> e = AVS_COAP_ERR_MALFORMED_OPTIONS" by blast
    have "e = AVS_OK \<Longrightarrow> head_ok msg"
      using m(2) by (auto simp: head_ok_def msg_ok_def is_msg_header_valid_def msg_is_def token_ok_def)
    moreover have "e = AVS_COAP_ERR_MALFORMED_OPTIONS \<Longrightarrow> head_ok msg"
      using parse_malformed_options [OF n zero_msg_token(2)] m(1) by simp
    ultimately show ?thesis using True r ok p m(1) by (simp add: recv_msg_def ctx_receive_def same_queue_def)
  qed
qed

lemma same_queue_settled: "same_queue ctx ctx' \<Longrightarrow> settled ctx' = settled ctx"
  by (simp add: same_queue_def settled_def)

lemma handle_malformed_ok:
  assumes pf: "platform_ok pf clk" and up: "upper_ok pf clk up" and ctx: "ctx_ok pf clk ctx" and msg: "head_ok msg"
  shows "\<exists>err ctx'. handle_malformed_options up pf ctx msg = Some (err, ctx') \<and> ctx_ok pf clk ctx'"
proof (cases "code_is_request (hdr_code (msg_header msg))")
  case True
  from send_empty_response_ok [OF pf ctx_ok_inv [OF ctx] msg, of CODE_BAD_OPTION] same_queue_ok ctx True
  show ?thesis by (simp add: handle_malformed_options_def) blast
next
  case False
  show ?thesis
  proof (cases "code_is_response (hdr_code (msg_header msg))")
    case True
    let ?found = "find_pos (answered_by msg) (uc_unconfirmed ctx)"
    note f = find_by_response_eq [OF ctx msg True]
    have "\<exists>ctx1. (case ?found of None \<Rightarrow> Some ctx | Some n \<Rightarrow> fail_unconfirmed up pf ctx n None AVS_COAP_ERR_MALFORMED_OPTIONS)
      = Some ctx1 \<and> ctx_ok pf clk ctx1"
    proof (cases ?found)
      case (Some n)
      with fail_ok [OF pf up ctx find_pos_less [OF Some], of AVS_COAP_ERR_MALFORMED_OPTIONS None] show ?thesis by auto
    qed (use ctx in simp)
    then obtain ctx1 where c1: "(case ?found of None \<Rightarrow> Some ctx | Some n \<Rightarrow> fail_unconfirmed up pf ctx n None AVS_COAP_ERR_MALFORMED_OPTIONS)
      = Some ctx1" "ctx_ok pf clk ctx1" by blast
    from send_reset_ok [OF pf ctx_ok_inv [OF c1(2)], of "msg_header msg"] obtain err ctx2 where
      c2: "send_reset pf ctx1 (header_get_id (msg_header msg)) = Some (err, ctx2)" "ctx_inv pf clk ctx2" "same_queue ctx1 ctx2" by blast
    have "ctx_ok pf clk ctx2" using same_queue_ok [OF c2(3,2) c1(2)] .
    with f True False c1 c2(1) show ?thesis by (auto simp: handle_malformed_options_def)
  qed (use False ctx in \<open>simp add: handle_malformed_options_def\<close>)
qed

lemma handle_truncated_ok:
  assumes pf: "platform_ok pf clk" and up: "upper_ok pf clk up" and ctx: "ctx_ok pf clk ctx"
  shows "\<exists>err ctx'. handle_truncated_msg up pf ctx buf = Some (err, ctx') \<and> ctx_ok pf clk ctx'"
proof -
  from parse_truncated_total [of "length buf" buf] obtain msg has_token has_options where
    p: "udp_msg_parse_truncated buf (length buf) = Some (msg, has_token, has_options)" "has_token \<longrightarrow> head_ok msg" by auto
  show ?thesis
  proof (cases "has_token \<and> code_is_request (hdr_code (msg_header msg))")
    case True
    with p(2) have "head_ok msg" by simp
    from send_empty_response_ok [OF pf ctx_ok_inv [OF ctx] this, of CODE_REQUEST_ENTITY_TOO_LARGE] same_queue_ok ctx True p(1)
    show ?thesis by (simp add: handle_truncated_msg_def handle_truncated_request_def) blast
  next
    case noreq: False
    show ?thesis
    proof (cases "has_token \<and> code_is_response (hdr_code (msg_header msg)) \<and> has_options")
      case True
      with p(2) have h: "head_ok msg" by simp
      let ?found = "find_pos (answered_by msg) (uc_unconfirmed ctx)"
      have f: "find_unconfirmed_by_response ctx msg = Some ?found" using find_by_response_eq [OF ctx h] True by simp
      show ?thesis
      proof (cases ?found)
        case None
        with True noreq p(1) f ctx show ?thesis
          by (simp add: handle_truncated_msg_def handle_truncated_response_def)
      next
        case (Some n)
        from fail_ok [OF pf up ctx find_pos_less [OF Some], of AVS_COAP_ERR_TRUNCATED_MESSAGE_RECEIVED "Some msg"]
          Some True noreq p(1) f show ?thesis
          by (auto simp: handle_truncated_msg_def handle_truncated_response_def)
      qed
    qed (use noreq p(1) ctx in \<open>auto simp: handle_truncated_msg_def\<close>)
  qed
qed

lemma receive_ok:
  assumes pf: "platform_ok pf clk" and up: "upper_ok pf clk up" and ctx: "ctx_ok pf clk ctx"
  shows "(\<exists>err buf' request ctx'. receive_message up pf ctx buf = Some (err, buf', request, ctx') \<and> ctx_ok pf clk ctx') \<or>
    receive_message up pf ctx buf = None \<and>
    (\<exists>msg buf' ctx1. recv_msg pf ctx zero_msg buf = Some ((msg, buf', AVS_OK), ctx1) \<and> unexpected ctx msg)"
proof -
  from recv_msg_ok [OF pf ctx, of buf] obtain msg buf' err ctx1 where
    r: "recv_msg pf ctx zero_msg buf = Some ((msg, buf', err), ctx1)" "ctx_ok pf clk ctx1" "same_queue ctx ctx1"
    "err = AVS_OK \<longrightarrow> head_ok msg" "err = AVS_COAP_ERR_MALFORMED_OPTIONS \<longrightarrow> head_ok msg" by blast
  show ?thesis
  proof (cases "err = AVS_OK")
    case True
    have "unexpected ctx1 msg = unexpected ctx msg" using r(3) same_queue_settled [OF r(3)]
      by (simp add: unexpected_def same_queue_def)
    with handle_msg_ok [OF pf up r(2), of msg] r(4) True consider
      e should ctx2 where "handle_msg up pf ctx1 msg = Some (e, should, ctx2)" "ctx_ok pf clk ctx2"
    | "handle_msg up pf ctx1 msg = None" "unexpected ctx msg" by auto
    then show ?thesis using True r(1) by cases (simp_all add: receive_message_def)
  next
    case False
    have "\<exists>e ctx2. (if err = AVS_COAP_ERR_MALFORMED_MESSAGE then Some (AVS_OK, ctx1)
          else if err = AVS_COAP_ERR_MALFORMED_OPTIONS then handle_malformed_options up pf ctx1 msg
          else if err = AVS_EMSGSIZE then handle_truncated_msg up pf ctx1 buf'
          else Some (err, ctx1)) = Some (e, ctx2) \<and> ctx_ok pf clk ctx2"
      using handle_malformed_ok [OF pf up r(2)] handle_truncated_ok [OF pf up r(2), of buf'] r(2,5) by auto
    then obtain e ctx2 where e: "(if err = AVS_COAP_ERR_MALFORMED_MESSAGE then Some (AVS_OK, ctx1)
          else if err = AVS_COAP_ERR_MALFORMED_OPTIONS then handle_malformed_options up pf ctx1 msg
          else if err = AVS_EMSGSIZE then handle_truncated_msg up pf ctx1 buf'
          else Some (err, ctx1)) = Some (e, ctx2)" "ctx_ok pf clk ctx2" by blast
    have "receive_message up pf ctx buf = Some (e, buf', zero_borrowed_msg, ctx2)"
      unfolding receive_message_def r(1) Option.bind.bind_lunit prod.case if_not_P [OF False] e(1) ..
    with e(2) show ?thesis by blast
  qed
qed

end
