(* ===== verification/Coap_Udp_Ctx_Send.thy ===== *)
theory Coap_Udp_Ctx_Send
  imports Coap_Udp_Ctx_Run
begin

text \<open>
  Sending messages through a CoAP/UDP context, and the timer that resumes held messages and
  retransmits: both return and keep the context well-formed.
\<close>

section \<open>Sending\<close>

text \<open>A message of the upper layer: its options are encoded, and its payload is in memory.\<close>

definition borrowed_ok :: "borrowed_msg \<Rightarrow> bytes \<Rightarrow> opt_list \<Rightarrow> bytes \<Rightarrow> bool" where
  "borrowed_ok m tok xs payload \<longleftrightarrow> token_ok (bm_token m) \<and> token_size (bm_token m) = length tok
     \<and> take (length tok) (token_bytes (bm_token m)) = tok \<and> opts_rep (bm_options m) xs
     \<and> bm_payload_size m = length payload
     \<and> (case bm_payload m of None \<Rightarrow> payload = [] | Some mem \<Rightarrow> take (length payload) mem = payload \<and> length payload \<le> length mem)
     \<and> (code_is_request (bm_code m) \<or> code_is_response (bm_code m) \<or> bm_code m = CODE_EMPTY)"

lemma msg_holds_of_borrowed:
  assumes "borrowed_ok m tok xs payload" "header_get_token_length hdr = length tok"
  shows "msg_holds \<lparr>msg_header = hdr, msg_token = bm_token m, msg_options = bm_options m,
      msg_payload = bm_payload m, msg_payload_size = bm_payload_size m\<rparr> hdr tok xs payload"
  using assms by (simp add: borrowed_ok_def msg_holds_def token_ok_def)

lemma choose_msg_type_ok:
  assumes "borrowed_ok m tok xs payload"
  shows "\<exists>type. choose_msg_type ctx m has_handler = Some type \<and> (type = CONFIRMABLE \<longrightarrow> has_handler)"
proof -
  have "option_exists (bm_options m) 6 = Some (map_of xs 6 \<noteq> None)"
    using assms by (intro option_exists_correct) (simp add: borrowed_ok_def)
  then show ?thesis using assms by (auto simp: choose_msg_type_def borrowed_ok_def)
qed

lemma assign_id_ok:
  assumes m: "borrowed_ok m tok xs payload" and inv: "ctx_inv pf clk ctx"
  shows "\<exists>i ctx'. assign_id ctx m type = Some (i, ctx') \<and> i < 2 ^ 16 \<and> ctx_inv pf clk ctx'
    \<and> uc_unconfirmed ctx' = uc_unconfirmed ctx \<and> uc_tx_params ctx' = uc_tx_params ctx
    \<and> uc_out_buffer ctx' = uc_out_buffer ctx \<and> uc_out_acquired ctx' = uc_out_acquired ctx"
proof -
  have "token_ok (bm_token m)" "token_ok (cur_token (uc_current_request ctx))"
    using m inv by (simp_all add: borrowed_ok_def ctx_inv_def)
  note t = token_equal_total [OF this]
  define answers where "answers \<longleftrightarrow> cur_exists (uc_current_request ctx) \<and> code_is_response (bm_code m)
    \<and> same_token (bm_token m) (cur_token (uc_current_request ctx))"
  have a: "(if cur_exists (uc_current_request ctx) \<and> code_is_response (bm_code m)
      then token_equal (bm_token m) (cur_token (uc_current_request ctx)) else Some False) = Some answers"
    by (auto simp: t answers_def same_token_def)
  have i: "cur_msg_id (uc_current_request ctx) < 2 ^ 16" "uc_last_msg_id ctx < 2 ^ 16" using inv by (simp_all add: ctx_inv_def)
  define ctx1 where "ctx1 = (if answers then ctx\<lparr>uc_current_request := (uc_current_request ctx)\<lparr>cur_exists := False\<rparr>\<rparr> else ctx)"
  have c1: "ctx_inv pf clk ctx1" using inv by (simp add: ctx1_def ctx_inv_request)
  have g: "ctx_inv pf clk (ctx1\<lparr>uc_last_msg_id := (uc_last_msg_id ctx1 + 1) mod 2 ^ 16\<rparr>)" using c1 by (simp add: ctx_inv_def)
  have f: "uc_last_msg_id ctx1 = uc_last_msg_id ctx" "cur_msg_id (uc_current_request ctx1) = cur_msg_id (uc_current_request ctx)"
    "uc_unconfirmed ctx1 = uc_unconfirmed ctx" "uc_tx_params ctx1 = uc_tx_params ctx"
    "uc_out_buffer ctx1 = uc_out_buffer ctx" "uc_out_acquired ctx1 = uc_out_acquired ctx"
    by (simp_all add: ctx1_def)
  have "assign_id ctx m type = Some (if answers \<and> (type = ACKNOWLEDGEMENT \<or> type = RESET)
      then (cur_msg_id (uc_current_request ctx1), ctx1) else generate_id ctx1)"
    unfolding assign_id_def a Option.bind.bind_lunit Let_def ctx1_def [symmetric] by auto
  then show ?thesis using i c1 g f by (simp add: generate_id_def)
qed

lemma udp_msg_copy_total:
  assumes h: "msg_holds msg hdr tok xs payload"
  shows "\<exists>copy packet err. udp_msg_copy msg zero_msg (replicate (udp_msg_size msg) 0) (udp_msg_size msg) = Some (copy, packet, err)
    \<and> (err = AVS_OK \<longrightarrow> packet = msg_bytes hdr tok xs payload
       \<and> (\<exists>hdr' tok' xs' payload'. packet = msg_bytes hdr' tok' xs' payload' \<and> msg_ok hdr' tok' xs' payload'
            \<and> msg_is copy hdr' tok' xs' payload'))"
proof -
  let ?n = "udp_msg_size msg" and ?m = "msg_bytes hdr tok xs payload"
  have n: "?n = length ?m" by (rule msg_holds_size [OF h])
  from udp_msg_serialize_spec [OF h, of ?n "replicate ?n 0"] n
  have s: "udp_msg_serialize msg (replicate ?n 0) ?n = Some (?m, ?n, AVS_OK)" by auto
  from udp_msg_parse_sound [of ?n ?m zero_msg] n obtain copy err where
    "udp_msg_parse zero_msg ?m ?n = Some (copy, err)"
    "if err = AVS_OK then \<exists>hdr' tok' xs' payload'. take ?n ?m = msg_bytes hdr' tok' xs' payload'
          \<and> msg_ok hdr' tok' xs' payload' \<and> msg_is copy hdr' tok' xs' payload'
     else err = AVS_COAP_ERR_MALFORMED_MESSAGE \<or> err = AVS_COAP_ERR_MALFORMED_OPTIONS" by auto
  with s n show ?thesis by (auto simp: udp_msg_copy_def)
qed

lemma create_unconfirmed_ok:
  assumes pf: "platform_ok pf clk" and inv: "ctx_inv pf clk ctx" and h: "msg_holds msg hdr tok xs payload"
    and len: "length (msg_bytes hdr tok xs payload) \<le> 65535" and handler: "handler \<noteq> None"
  shows "\<exists>u err ctx'. create_unconfirmed pf ctx msg handler = Some ((u, err), ctx') \<and> ctx_inv pf clk ctx' \<and> same_queue ctx ctx'
    \<and> (case u of None \<Rightarrow> err \<noteq> AVS_OK | Some u \<Rightarrow> err = AVS_OK \<and> unconfirmed_ok u \<and> unc_handler u = handler
         \<and> unc_packet u = msg_bytes hdr tok xs payload \<and> duration_valid (unc_next_retransmit u) \<and> retry_count (unc_retry_state u) = 0)"
proof -
  obtain ok ctx1 where a: "ctx_alloc pf ctx = (ok, ctx1)" by (cases "ctx_alloc pf ctx")
  note c1 = ctx_alloc_ok [OF pf inv a]
  obtain r ctx2 where r: "ctx_random pf ctx1 = (r, ctx2)" by (cases "ctx_random pf ctx1")
  note c2 = ctx_random_ok [OF pf c1(1) r]
  have q2: "same_queue ctx ctx2" by (rule same_queue_trans [OF c1(2) c2(2)])
  show ?thesis
  proof (cases ok)
    case False
    with a c1 show ?thesis by (simp add: create_unconfirmed_def)
  next
    case ok: True
    show ?thesis
    proof (cases r)
      case None
      with ok a r c2(1) q2 show ?thesis by (simp add: create_unconfirmed_def initial_retry_state_def Let_def)
    next
      case (Some random)
      obtain rt where rt: "random_timeout (pf_double pf) (uc_tx_params ctx2) (random mod 2 ^ 32) = Some rt" "span_ok rt"
        using random_timeout_ok [OF ctx_inv_tx [OF c2(1)]] by blast
      from udp_msg_copy_total [OF h] obtain copy packet err where
        c: "udp_msg_copy msg zero_msg (replicate (udp_msg_size msg) 0) (udp_msg_size msg) = Some (copy, packet, err)"
        "err = AVS_OK \<longrightarrow> packet = msg_bytes hdr tok xs payload
          \<and> (\<exists>hdr' tok' xs' payload'. packet = msg_bytes hdr' tok' xs' payload' \<and> msg_ok hdr' tok' xs' payload'
            \<and> msg_is copy hdr' tok' xs' payload')" by blast
      show ?thesis
      proof (cases "err = AVS_OK")
        case False
        with ok a r Some c c2(1) q2 rt(1) show ?thesis by (simp add: create_unconfirmed_def initial_retry_state_def Let_def)
      next
        case True
        have t: "time_ok rt" using rt(2) by (intro dur_ok_time_ok span_ok_dur_ok)
        have n: "udp_msg_size msg = length (msg_bytes hdr tok xs payload)" by (rule msg_holds_size [OF h])
        let ?u = "\<lparr>unc_handler = handler, unc_retry_state = \<lparr>retry_count = 0, recv_timeout = rt\<rparr>,
          unc_hold = False, unc_next_retransmit = \<lparr>dur_seconds = 0, dur_nanoseconds = 0\<rparr>, unc_msg = copy,
          unc_packet_size = udp_msg_size msg, unc_packet = packet\<rparr>"
        have "create_unconfirmed pf ctx msg handler = Some ((Some ?u, AVS_OK), ctx2)"
          using ok a r Some c(1) True rt(1) by (simp add: create_unconfirmed_def initial_retry_state_def Let_def)
        moreover have "unconfirmed_ok ?u" using c(2) True t n len handler
          by (auto simp: unconfirmed_ok_def packet_ok_def)
        ultimately show ?thesis using c2(1) q2 c(2) True by simp
      qed
    qed
  qed
qed

lemma unconfirmed_ok_update:
  "unconfirmed_ok u \<Longrightarrow> time_ok t \<Longrightarrow> unconfirmed_ok (u\<lparr>unc_hold := b, unc_next_retransmit := t\<rparr>)"
  "unconfirmed_ok u \<Longrightarrow> time_ok t \<Longrightarrow> unconfirmed_ok (u\<lparr>unc_next_retransmit := t\<rparr>)"
  "unconfirmed_ok u \<Longrightarrow> unconfirmed_ok (u\<lparr>unc_hold := b\<rparr>)"
  "unconfirmed_ok u \<Longrightarrow> time_ok (recv_timeout rs) \<Longrightarrow> unconfirmed_ok (u\<lparr>unc_retry_state := rs\<rparr>)"
  by (simp_all add: unconfirmed_ok_def packet_ok_def)

lemma enqueue_ok:
  assumes pf: "platform_ok pf clk" and inv: "ctx_inv pf clk ctx" and u: "unconfirmed_ok u"
  shows "\<exists>err ctx'. enqueue_unconfirmed pf ctx u = Some (err, ctx') \<and> ctx_inv pf clk ctx'
    \<and> uc_tx_params ctx' = uc_tx_params ctx \<and> uc_out_acquired ctx' = uc_out_acquired ctx"
proof -
  let ?hold = "tx_nstart (uc_tx_params ctx) - 1 < length (uc_unconfirmed ctx)"
  let ?u1 = "u\<lparr>unc_hold := ?hold\<rparr>"
  have ns: "0 < tx_nstart (uc_tx_params ctx)" using ctx_inv_tx [OF inv] by (simp add: tx_params_ok_def)
  have u1: "unconfirmed_ok ?u1" by (rule unconfirmed_ok_update(3) [OF u])
  have "\<exists>t ctx1. (if ?hold then Some (ctx_now pf ctx) else get_first_retransmit_time pf ctx) = Some (t, ctx1)
    \<and> time_ok t \<and> ctx_inv pf clk ctx1 \<and> same_queue ctx ctx1"
  proof (cases ?hold)
    case True
    obtain now ctx1 where now: "ctx_now pf ctx = (now, ctx1)" by (cases "ctx_now pf ctx")
    from ctx_now_ok [OF pf inv now] True now show ?thesis by (auto intro: dur_ok_time_ok span_ok_dur_ok)
  qed (use first_retransmit_time_ok [OF pf inv] in simp)
  then obtain t ctx1 where t: "(if ?hold then Some (ctx_now pf ctx) else get_first_retransmit_time pf ctx) = Some (t, ctx1)"
    "time_ok t" "ctx_inv pf clk ctx1" "same_queue ctx ctx1" by blast
  let ?u2 = "?u1\<lparr>unc_next_retransmit := t\<rparr>"
  have u2: "unconfirmed_ok ?u2" by (rule unconfirmed_ok_update(2) [OF u1 t(2)])
  show ?thesis
  proof (cases "monotonic_valid (unc_next_retransmit u)")
    case False
    with ns t show ?thesis by (simp add: enqueue_unconfirmed_def same_queue_def split del: if_split)
  next
    case valid: True
    have "\<exists>err ctx2. (if ?hold then Some (AVS_OK, ctx1)
        else send_serialized_msg pf ctx1 (unc_msg ?u2) (unc_packet ?u2) (unc_packet_size ?u2)) = Some (err, ctx2)
      \<and> ctx_inv pf clk ctx2 \<and> same_queue ctx1 ctx2"
      using send_packet_ok [OF pf t(3) u2] t(3) by (cases ?hold) auto
    then obtain err ctx2 where s: "(if ?hold then Some (AVS_OK, ctx1)
        else send_serialized_msg pf ctx1 (unc_msg ?u2) (unc_packet ?u2) (unc_packet_size ?u2)) = Some (err, ctx2)"
      "ctx_inv pf clk ctx2" "same_queue ctx1 ctx2" by blast
    have q2: "same_queue ctx ctx2" by (rule same_queue_trans [OF t(4) s(3)])
    have "unc_hold ?u2 \<or> length (started (uc_unconfirmed ctx2)) < tx_nstart (uc_tx_params ctx2)"
      using started_held_length [of "uc_unconfirmed ctx"] q2 ns by (auto simp: same_queue_def)
    note i = insert_ok [OF s(2) u2 this]
    from reschedule_retransmission_job_ok [OF pf i] obtain ctx3 where
      r: "reschedule_retransmission_job pf (ctx_insert ?u2 ctx2) = Some ctx3" "ctx_inv pf clk ctx3" "same_queue (ctx_insert ?u2 ctx2) ctx3" by blast
    have "enqueue_unconfirmed pf ctx u = Some (if err \<noteq> AVS_OK then (err, ctx2) else (AVS_OK, ctx3))"
      using ns t(1) valid s(1) r(1) by (cases ?hold) (auto simp: enqueue_unconfirmed_def)
    with s(2) r(2,3) q2 show ?thesis by (cases "err = AVS_OK") (simp_all add: same_queue_def)
  qed
qed

lemma bytes_append_length: "bytes_append m a d = Some (m', a', ok) \<Longrightarrow> length m' = length m"
  by (auto simp: bytes_append_def wr_bytes_def split: if_splits bind_splits)

lemma serialize_payload_length:
  "serialize_payload buf a k payload n = Some (buf', w, err) \<Longrightarrow> length buf' = length buf"
  by (auto simp: serialize_payload_def split: option.splits if_splits bind_splits dest!: bytes_append_length)

lemma serialize_length:
  assumes "udp_msg_serialize msg buf k = Some (buf', w, err)"
  shows "length buf' = length buf"
proof -
  have step: "length b' = length b"
    if "do { (b, a, ok) \<leftarrow> bytes_append b ap dat;
             if \<not> ok then Some (b, 0, AVS_COAP_ERR_MESSAGE_TOO_BIG) else f b a } = Some (b', w', e)"
      and "\<And>b1 a1. f b1 a1 = Some (b', w', e) \<Longrightarrow> length b' = length b1" for b ap dat f b' w' e
  proof -
    from that(1) obtain b1 a1 ok where 1: "bytes_append b ap dat = Some (b1, a1, ok)"
      "(if \<not> ok then Some (b1, 0, AVS_COAP_ERR_MESSAGE_TOO_BIG) else f b1 a1) = Some (b', w', e)"
      by (auto simp: bind_eq_Some_conv)
    with that(2) bytes_append_length [OF 1(1)] show ?thesis by (cases ok) auto
  qed
  have guarded: "length b' = n" if "Option.bind x f = Some (b', w', e)" "\<And>v. f v = Some (b', w', e) \<Longrightarrow> length b' = n"
    for x :: "'x option" and f b' n w' e using that by (auto simp: bind_eq_Some_conv)
  show ?thesis
    using assms unfolding udp_msg_serialize_def Let_def
    by (elim guarded step serialize_payload_length)
qed

lemma ctx_inv_buffer: "ctx_inv pf clk ctx \<Longrightarrow> length buf = length (uc_out_buffer ctx) \<Longrightarrow> ctx_inv pf clk (ctx\<lparr>uc_out_buffer := buf\<rparr>)"
  by (simp add: ctx_inv_def)

lemma ctx_inv_acquired: "ctx_inv pf clk ctx \<Longrightarrow> ctx_inv pf clk (ctx\<lparr>uc_out_acquired := b\<rparr>)"
  by (simp add: ctx_inv_def)

lemma send_ok:
  assumes pf: "platform_ok pf clk" and ctx: "ctx_ok pf clk ctx" and m: "borrowed_ok m tok xs payload"
  shows "\<exists>err ctx'. send_message pf ctx m handler = Some (err, ctx') \<and> ctx_ok pf clk ctx'
    \<and> uc_tx_params ctx' = uc_tx_params ctx"
proof -
  let ?ctx1 = "ctx\<lparr>uc_out_acquired := True\<rparr>"
  have acq: "\<not> uc_out_acquired ctx" and inv1: "ctx_inv pf clk ?ctx1" using ctx by (simp_all add: ctx_ok_def ctx_inv_def)
  from choose_msg_type_ok [OF m, of ?ctx1 "handler \<noteq> None"] obtain type where
    type: "choose_msg_type ?ctx1 m (handler \<noteq> None) = Some type" "type = CONFIRMABLE \<longrightarrow> handler \<noteq> None" by blast
  from assign_id_ok [OF m inv1, of type] obtain i ctx2 where
    i: "assign_id ?ctx1 m type = Some (i, ctx2)" "i < 2 ^ 16" "ctx_inv pf clk ctx2" "uc_tx_params ctx2 = uc_tx_params ctx" by auto
  have tl: "token_size (bm_token m) = length tok" "length tok \<le> 8" using m by (auto simp: borrowed_ok_def token_ok_def)
  from header_init_getters [of "byte_of (token_size (bm_token m))" i type "bm_code m"] tl i(2) obtain hdr where
    hdr: "header_init type (byte_of (token_size (bm_token m))) (bm_code m) i = Some hdr"
      "header_get_token_length hdr = length tok" by auto
  define msg where "msg = \<lparr>msg_header = hdr, msg_token = bm_token m, msg_options = bm_options m,
      msg_payload = bm_payload m, msg_payload_size = bm_payload_size m\<rparr>"
  have h: "msg_holds msg hdr tok xs payload" unfolding msg_def by (rule msg_holds_of_borrowed [OF m hdr(2)])
  let ?m = "msg_bytes hdr tok xs payload" and ?cap = "length (uc_out_buffer ctx2)"
  from udp_msg_serialize_spec [OF h order_refl, of "uc_out_buffer ctx2"] obtain buf n err where
    s: "udp_msg_serialize msg (uc_out_buffer ctx2) ?cap = Some (buf, n, err)"
      "err = AVS_OK \<longrightarrow> length ?m \<le> ?cap \<and> n = length ?m"
    by (auto split: if_splits)
  have buf: "length buf = ?cap" by (rule serialize_length [OF s(1)])
  have cap: "?cap \<le> 65535" using i(3) by (simp add: ctx_inv_def)
  define ctx3 where "ctx3 = ctx2\<lparr>uc_out_buffer := buf\<rparr>"
  have inv3: "ctx_inv pf clk ctx3" unfolding ctx3_def by (rule ctx_inv_buffer [OF i(3) buf])
  define rest where "rest = (if err \<noteq> AVS_OK then Some (err, ctx3)
        else if type = CONFIRMABLE then do {
          ((u, err), ctx) \<leftarrow> create_unconfirmed pf ctx3 msg handler;
          (case u of
             None \<Rightarrow> do { c_assert (err \<noteq> AVS_OK); Some (err, ctx) }
           | Some u \<Rightarrow> enqueue_unconfirmed pf ctx u) }
        else send_serialized_msg pf ctx3 msg buf n)"
  have "\<exists>e ctx4. rest = Some (e, ctx4) \<and> ctx_inv pf clk ctx4 \<and> uc_tx_params ctx4 = uc_tx_params ctx3"
  proof (cases "err = AVS_OK")
    case False
    with inv3 show ?thesis by (simp add: rest_def)
  next
    case ok: True
    have len: "length ?m \<le> 65535" "n \<le> length buf" using s(2) ok cap buf by simp_all
    show ?thesis
    proof (cases "type = CONFIRMABLE")
      case True
      with type(2) create_unconfirmed_ok [OF pf inv3 h len(1), of handler] obtain u e ctx4 where
        c: "create_unconfirmed pf ctx3 msg handler = Some ((u, e), ctx4)" "ctx_inv pf clk ctx4" "same_queue ctx3 ctx4"
          "case u of None \<Rightarrow> e \<noteq> AVS_OK | Some u \<Rightarrow> e = AVS_OK \<and> unconfirmed_ok u \<and> unc_handler u = handler
           \<and> unc_packet u = ?m \<and> duration_valid (unc_next_retransmit u) \<and> retry_count (unc_retry_state u) = 0" by blast
      show ?thesis
      proof (cases u)
        case None
        with ok True c show ?thesis by (simp add: rest_def same_queue_def)
      next
        case (Some v)
        with c(4) have "unconfirmed_ok v" by simp
        from enqueue_ok [OF pf c(2) this] Some ok True c show ?thesis by (auto simp: rest_def same_queue_def)
      qed
    next
      case False
      from send_serialized_ok [OF pf inv3 h len] ok False show ?thesis by (auto simp: rest_def same_queue_def)
    qed
  qed
  then obtain e ctx4 where r: "rest = Some (e, ctx4)" "ctx_inv pf clk ctx4" "uc_tx_params ctx4 = uc_tx_params ctx3" by blast
  have "send_message pf ctx m handler = Some (e, ctx4\<lparr>uc_out_acquired := False\<rparr>)"
    using acq r(1) [unfolded rest_def ctx3_def msg_def] type(1)
    by (simp add: send_message_def Let_def i(1) hdr(1) s(1) [unfolded msg_def] split del: if_split)
  moreover have "ctx_ok pf clk (ctx4\<lparr>uc_out_acquired := False\<rparr>)" using ctx_inv_acquired [OF r(2)] by (simp add: ctx_ok_def)
  ultimately show ?thesis using r(3) i(4) by (simp add: ctx3_def)
qed

lemma abort_ok:
  assumes pf: "platform_ok pf clk" and up: "upper_ok pf clk up" and ctx: "ctx_ok pf clk ctx" and t: "token_ok tok"
    and r: "r = RESULT_FAIL \<longleftrightarrow> e \<noteq> AVS_OK"
  shows "\<exists>ctx'. abort_delivery up pf ctx d tok r e = Some ctx' \<and> ctx_ok pf clk ctx' \<and> uc_tx_params ctx' = uc_tx_params ctx"
proof -
  let ?found = "find_pos (matches (udp_direction d) (Some tok) None) (uc_unconfirmed ctx)"
  have f: "find_unconfirmed_by_token ctx (udp_direction d) tok = Some ?found"
    using find_unconfirmed_eq [of "uc_unconfirmed ctx" "Some tok"] ctx_ok_unconfirmed [OF ctx] t
    by (simp add: find_unconfirmed_by_token_def)
  show ?thesis
  proof (cases ?found)
    case None
    with f ctx show ?thesis by (simp add: abort_delivery_def detach_unconfirmed_by_token_def)
  next
    case (Some n)
    obtain ctx1 where c: "ctx_detach ctx n = Some (uc_unconfirmed ctx ! n, ctx1)" "ctx_ok pf clk ctx1"
      "unconfirmed_ok (uc_unconfirmed ctx ! n)" "uc_tx_params ctx1 = uc_tx_params ctx"
      "unc_hold (uc_unconfirmed ctx ! n) \<or> length (started (uc_unconfirmed ctx1)) < tx_nstart (uc_tx_params ctx1)"
      by (rule unconfirmed_detach_ok [OF ctx find_pos_less [OF Some]])
    from try_cleanup_ok [OF pf up c(2,3) r c(5), of None] f Some c show ?thesis
      by (simp add: abort_delivery_def detach_unconfirmed_by_token_def)
  qed
qed

section \<open>The timer\<close>

text \<open>Callbacks that do not send again when a message fails or is cancelled. Others can keep the
  loops below from ending, as a comment in \<open>resume_next_unconfirmed\<close> notes.\<close>

definition upper_quiet :: "('h, 'w) upper_layer \<Rightarrow> bool" where
  "upper_quiet up \<longleftrightarrow> (\<forall>h ctx r e m hr ctx'. up_send_result up h ctx r e m = Some (hr, ctx') \<longrightarrow> r = RESULT_FAIL \<or> r = RESULT_CANCEL
     \<longrightarrow> length (held (uc_unconfirmed ctx')) \<le> length (held (uc_unconfirmed ctx))
       \<and> length (uc_unconfirmed ctx') \<le> length (uc_unconfirmed ctx))"

lemma quiet_call:
  assumes "upper_quiet up" "call_send_result_handler up ctx u m r e = Some (hr, ctx')" "r = RESULT_FAIL \<or> r = RESULT_CANCEL"
  shows "length (held (uc_unconfirmed ctx')) \<le> length (held (uc_unconfirmed ctx))"
    "length (uc_unconfirmed ctx') \<le> length (uc_unconfirmed ctx)"
  using assms unfolding upper_quiet_def call_send_result_handler_def by (auto simp: bind_eq_Some_conv)

lemma fail_held_ok:
  assumes up: "upper_ok pf clk up" "upper_quiet up"
  shows "ctx_ok pf clk ctx \<Longrightarrow> \<forall>u \<in> set us. unconfirmed_ok u \<Longrightarrow> \<exists>ctx'. fail_held_messages up us ctx = Some ctx'
    \<and> ctx_ok pf clk ctx' \<and> uc_tx_params ctx' = uc_tx_params ctx
    \<and> length (held (uc_unconfirmed ctx')) \<le> length (held (uc_unconfirmed ctx))"
proof (induction us arbitrary: ctx)
  case (Cons u us)
  then have "unconfirmed_ok u" by simp
  from call_handler_ok [OF up(1) Cons.prems(1) this, of RESULT_FAIL AVS_COAP_ERR_TIME_INVALID None] obtain hr ctx1 where
    c: "call_send_result_handler up ctx u None RESULT_FAIL AVS_COAP_ERR_TIME_INVALID = Some (hr, ctx1)" "ctx_ok pf clk ctx1"
      "uc_tx_params ctx1 = uc_tx_params ctx" by auto
  from quiet_call(1) [OF up(2) c(1)] Cons.IH [OF c(2)] Cons.prems(2) c show ?case by fastforce
qed simp

lemma resume_next_ok:
  assumes pf: "platform_ok pf clk" and up: "upper_ok pf clk up" "upper_quiet up" and ctx: "ctx_ok pf clk ctx"
    and more: "held (uc_unconfirmed ctx) \<noteq> []" "length (started (uc_unconfirmed ctx)) < tx_nstart (uc_tx_params ctx)"
  shows "\<exists>ctx'. resume_next_unconfirmed up pf ctx = Some ctx' \<and> ctx_ok pf clk ctx' \<and> uc_tx_params ctx' = uc_tx_params ctx
    \<and> length (held (uc_unconfirmed ctx')) < length (held (uc_unconfirmed ctx))"
proof -
  let ?us = "uc_unconfirmed ctx" and ?n = "length (started (uc_unconfirmed ctx))"
  have sorted: "queue_sorted ?us" using ctx by (simp add: ctx_ok_def ctx_inv_def queue_ok_def)
  have f: "find_first_held ?us = Some ?n" using find_first_held_eq [OF sorted] more by simp
  have n: "?n < length ?us" "unc_hold (?us ! ?n)" using f by (simp_all add: find_first_held_def find_pos_Some)
  from first_retransmit_time_ok [OF pf ctx_ok_inv [OF ctx]] obtain t ctx1 where
    t: "get_first_retransmit_time pf ctx = Some (t, ctx1)" "time_ok t" "ctx_inv pf clk ctx1" "same_queue ctx ctx1" by blast
  have ctx1: "ctx_ok pf clk ctx1" by (rule same_queue_ok [OF t(4,3) ctx])
  have us1: "uc_unconfirmed ctx1 = ?us" "uc_tx_params ctx1 = uc_tx_params ctx" using t(4) by (simp_all add: same_queue_def)
  show ?thesis
  proof (cases "monotonic_valid t")
    case False
    let ?ctx2 = "ctx1\<lparr>uc_unconfirmed := take ?n ?us\<rparr>"
    have tk: "take ?n ?us = started ?us" "drop ?n ?us = held ?us"
      using sorted_split [OF sorted] by (metis append_eq_conv_conj)+
    have "queue_ok (tx_nstart (uc_tx_params ctx1)) (take ?n ?us)"
      using ctx us1 queue_sorted_take [OF sorted, of ?n] by (auto simp: ctx_ok_def ctx_inv_def queue_ok_def tk(1)) (auto simp: started_def)
    then have ok2: "ctx_ok pf clk ?ctx2" using ctx1 by (simp add: ctx_ok_def ctx_inv_def)
    have "\<forall>u \<in> set (drop ?n ?us). unconfirmed_ok u" using ctx_ok_unconfirmed [OF ctx] by (auto dest: in_set_dropD)
    from fail_held_ok [OF up ok2 this] obtain ctx3 where c3: "fail_held_messages up (drop ?n ?us) ?ctx2 = Some ctx3"
      "ctx_ok pf clk ctx3" "uc_tx_params ctx3 = uc_tx_params ctx1" "length (held (uc_unconfirmed ctx3)) \<le> length (held (take ?n ?us))" by auto
    have "held (take ?n ?us) = []" unfolding tk(1) by (simp add: held_def started_def)
    with c3 more(1) f t(1) False us1 show ?thesis by (simp add: resume_next_unconfirmed_def)
  next
    case True
    have n1: "?n < length (uc_unconfirmed ctx1)" using n us1 by simp
    obtain ctx2 where d: "ctx_detach ctx1 ?n = Some (uc_unconfirmed ctx1 ! ?n, ctx2)" "ctx_ok pf clk ctx2"
      "unconfirmed_ok (uc_unconfirmed ctx1 ! ?n)" "uc_tx_params ctx2 = uc_tx_params ctx1"
      "uc_unconfirmed ctx2 = take ?n (uc_unconfirmed ctx1) @ drop (Suc ?n) (uc_unconfirmed ctx1)"
      by (rule unconfirmed_detach_ok [OF ctx1 n1])
    let ?u = "(?us ! ?n)\<lparr>unc_hold := False, unc_next_retransmit := t\<rparr>"
    have u: "unconfirmed_ok ?u" using d(3) us1 t(2) by (simp add: unconfirmed_ok_update)
    from send_packet_ok [OF pf ctx_ok_inv [OF d(2)] u] obtain err ctx3 where
      s: "send_serialized_msg pf ctx2 (unc_msg ?u) (unc_packet ?u) (unc_packet_size ?u) = Some (err, ctx3)"
      "ctx_inv pf clk ctx3" "same_queue ctx2 ctx3" by blast
    have ctx3: "ctx_ok pf clk ctx3" by (rule same_queue_ok [OF s(3,2) d(2)])
    have counts: "length (started (uc_unconfirmed ctx3)) = ?n" "length (held (uc_unconfirmed ctx3)) < length (held ?us)"
      using remove_counts [OF n(1)] n(2) s(3) d(5) us1 by (simp_all add: same_queue_def)
    have start: "resume_next_unconfirmed up pf ctx = (if err \<noteq> AVS_OK then do {
              (_, ctx) \<leftarrow> call_send_result_handler up ctx3 ?u None RESULT_FAIL err;
              Some ctx }
            else Some (ctx_insert ?u ctx3))"
      using f t(1) True d(1) s(1) us1 by (simp add: resume_next_unconfirmed_def Let_def split del: if_split)
    show ?thesis
    proof (cases "err = AVS_OK")
      case True
      have "tx_nstart (uc_tx_params ctx3) = tx_nstart (uc_tx_params ctx)" using s(3) d(4) us1 by (simp add: same_queue_def)
      with insert_ok [OF s(2) u] counts(1) more(2) have "ctx_inv pf clk (ctx_insert ?u ctx3)" by simp
      then have "ctx_ok pf clk (ctx_insert ?u ctx3)" using ctx3 by (simp add: ctx_ok_def)
      with True start counts(2) s(3) d(4) us1 show ?thesis by (simp add: held_insert same_queue_def)
    next
      case False
      with call_handler_ok [OF up(1) ctx3 u, of RESULT_FAIL err None] obtain hr ctx4 where
        c: "call_send_result_handler up ctx3 ?u None RESULT_FAIL err = Some (hr, ctx4)" "ctx_ok pf clk ctx4"
          "uc_tx_params ctx4 = uc_tx_params ctx3" by auto
      from quiet_call(1) [OF up(2) c(1)] counts(2) False start c s(3) d(4) us1 show ?thesis by (simp add: same_queue_def)
    qed
  qed
qed

lemma slots_free:
  assumes "ctx_ok pf clk ctx" "current_nstart ctx < effective_nstart ctx"
  shows "held (uc_unconfirmed ctx) \<noteq> []" "length (started (uc_unconfirmed ctx)) < tx_nstart (uc_tx_params ctx)"
proof -
  have "0 < tx_nstart (uc_tx_params ctx)" using ctx_inv_tx [OF ctx_ok_inv [OF assms(1)]] by (simp add: tx_params_ok_def)
  then have lt: "length (started (uc_unconfirmed ctx)) < min (tx_nstart (uc_tx_params ctx)) (length (uc_unconfirmed ctx))"
    using assms(2) current_nstart_eq [OF ctx_ok_inv [OF assms(1)]] by (simp add: effective_nstart_eq)
  then show "length (started (uc_unconfirmed ctx)) < tx_nstart (uc_tx_params ctx)" by simp
  from lt started_held_length [of "uc_unconfirmed ctx"] show "held (uc_unconfirmed ctx) \<noteq> []" by auto
qed

lemma slots_used:
  assumes "ctx_ok pf clk ctx"
  shows "settled ctx \<longleftrightarrow> current_nstart ctx = effective_nstart ctx" "settled ctx \<longleftrightarrow> \<not> current_nstart ctx < effective_nstart ctx"
proof -
  have ns: "0 < tx_nstart (uc_tx_params ctx)" using ctx_inv_tx [OF ctx_ok_inv [OF assms]] by (simp add: tx_params_ok_def)
  then show e: "settled ctx \<longleftrightarrow> current_nstart ctx = effective_nstart ctx"
    using current_nstart_eq [OF ctx_ok_inv [OF assms]] by (simp add: effective_nstart_eq settled_def min.commute)
  have "length (started (uc_unconfirmed ctx)) \<le> tx_nstart (uc_tx_params ctx)" using assms by (simp add: ctx_ok_def ctx_inv_def queue_ok_def)
  moreover have "length (started (uc_unconfirmed ctx)) \<le> length (uc_unconfirmed ctx)" by (simp add: started_def)
  ultimately show "settled ctx \<longleftrightarrow> \<not> current_nstart ctx < effective_nstart ctx"
    using ns current_nstart_eq [OF ctx_ok_inv [OF assms]] e by (auto simp: effective_nstart_eq)
qed

lemma resume_loop_ok:
  assumes pf: "platform_ok pf clk" and up: "upper_ok pf clk up" "upper_quiet up"
  shows "ctx_ok pf clk ctx \<Longrightarrow> \<exists>ctx'. resume_loop up pf ctx = Some ctx' \<and> ctx_ok pf clk ctx' \<and> settled ctx'
    \<and> uc_tx_params ctx' = uc_tx_params ctx"
proof (induction "length (held (uc_unconfirmed ctx))" arbitrary: ctx rule: less_induct)
  case less
  show ?case
  proof (cases "current_nstart ctx < effective_nstart ctx")
    case True
    from resume_next_ok [OF pf up less.prems slots_free [OF less.prems True]] obtain ctx1 where
      n: "resume_next_unconfirmed up pf ctx = Some ctx1" "ctx_ok pf clk ctx1" "uc_tx_params ctx1 = uc_tx_params ctx"
        "length (held (uc_unconfirmed ctx1)) < length (held (uc_unconfirmed ctx))" by blast
    from less.hyps [OF n(4,2)] n(1,3) True show ?thesis by (subst resume_loop.simps) auto
  next
    case False
    with slots_used(2) [OF less.prems] less.prems show ?thesis by (subst resume_loop.simps) simp
  qed
qed

lemma resume_ok:
  assumes pf: "platform_ok pf clk" and up: "upper_ok pf clk up" "upper_quiet up" and ctx: "ctx_ok pf clk ctx"
  shows "\<exists>ctx'. resume_unconfirmed_messages up pf ctx = Some ctx' \<and> ctx_ok pf clk ctx' \<and> settled ctx'
    \<and> uc_tx_params ctx' = uc_tx_params ctx"
proof -
  from resume_loop_ok [OF pf up ctx] obtain ctx' where r: "resume_loop up pf ctx = Some ctx'" "ctx_ok pf clk ctx'" "settled ctx'"
    "uc_tx_params ctx' = uc_tx_params ctx" by blast
  have "current_nstart ctx \<le> tx_nstart (uc_tx_params ctx)"
    using current_nstart_eq [OF ctx_ok_inv [OF ctx]] ctx by (simp add: ctx_ok_def ctx_inv_def queue_ok_def)
  with r slots_used(1) [OF r(2)] show ?thesis by (simp add: resume_unconfirmed_messages_def)
qed

lemma set_head_ok:
  assumes ctx: "ctx_ok pf clk ctx" and us: "uc_unconfirmed ctx = u # us"
    and v: "unconfirmed_ok v" "unc_hold v = unc_hold u" "unc_next_retransmit v = unc_next_retransmit u"
  shows "ctx_ok pf clk (set_head v ctx)" "settled ctx \<Longrightarrow> settled (set_head v ctx)"
proof -
  have "queue_ok (tx_nstart (uc_tx_params ctx)) (u # us)" using ctx us by (simp add: ctx_ok_def ctx_inv_def)
  then have "queue_ok (tx_nstart (uc_tx_params ctx)) (v # us)"
    using v unc_before_cong(2) [OF v(2,3)] by (auto simp: queue_ok_def queue_sorted_Cons split: if_splits)
  then show "ctx_ok pf clk (set_head v ctx)" using ctx us by (simp add: set_head_def ctx_ok_def ctx_inv_def)
  show "settled ctx \<Longrightarrow> settled (set_head v ctx)" using us v(2) by (cases "unc_hold u") (simp_all add: settled_def set_head_def)
qed

lemma count_outgoing_ok [simp]:
  "ctx_ok pf clk ctx \<Longrightarrow> ctx_ok pf clk (count_outgoing_retransmission ctx)"
  "uc_unconfirmed (count_outgoing_retransmission ctx) = uc_unconfirmed ctx"
  "uc_tx_params (count_outgoing_retransmission ctx) = uc_tx_params ctx"
  "settled (count_outgoing_retransmission ctx) = settled ctx"
  by (simp_all add: ctx_ok_def ctx_inv_def count_outgoing_retransmission_def settled_def)

lemma retransmit_ok:
  assumes pf: "platform_ok pf clk" and up: "upper_ok pf clk up" and ctx: "ctx_ok pf clk ctx" and s: "settled ctx"
  shows "\<exists>ctx'. retransmit_next_message up pf ctx = Some ctx' \<and> ctx_ok pf clk ctx' \<and> uc_tx_params ctx' = uc_tx_params ctx"
proof (cases "uc_unconfirmed ctx")
  case Nil
  with ctx show ?thesis by (simp add: retransmit_next_message_def)
next
  case (Cons u us)
  obtain now ctx1 where now: "ctx_now pf ctx = (now, ctx1)" by (cases "ctx_now pf ctx")
  note t = ctx_now_ok [OF pf ctx_ok_inv [OF ctx] now]
  have c1: "ctx_ok pf clk ctx1" "settled ctx1" using same_queue_ok [OF t(2,1) ctx] same_queue_settled [OF t(2)] s by simp_all
  have us1: "uc_unconfirmed ctx1 = u # us" "uc_tx_params ctx1 = uc_tx_params ctx" using t(2) Cons by (simp_all add: same_queue_def)
  have u: "unconfirmed_ok u" using ctx_ok_unconfirmed [OF ctx] Cons by simp
  have fail: "\<exists>ctx'. fail_unconfirmed up pf c 0 None e = Some ctx' \<and> ctx_ok pf clk ctx' \<and> uc_tx_params ctx' = uc_tx_params c"
    if "ctx_ok pf clk c" "uc_unconfirmed c \<noteq> []" "e \<noteq> AVS_OK" for c e using fail_ok [OF pf up that(1) _ that(3)] that(2) by simp
  show ?thesis
  proof (cases "monotonic_before now (unc_next_retransmit u) \<or> all_retries_sent (unc_retry_state u) (uc_tx_params ctx1)")
    case True
    with fail [OF c1(1), of AVS_COAP_ERR_TIMEOUT] Cons now c1 us1 show ?thesis by (auto simp: retransmit_next_message_def)
  next
    case False
    have "time_ok (recv_timeout (unc_retry_state u))" using u by (simp add: unconfirmed_ok_def)
    from duration_double_closed [OF this] obtain d where d: "duration_mul (recv_timeout (unc_retry_state u)) 2 = Some d" "time_ok d" by blast
    define rs where "rs = \<lparr>retry_count = (retry_count (unc_retry_state u) + 1) mod 2 ^ 32, recv_timeout = d\<rparr>"
    have rs: "update_retry_state (unc_retry_state u) = Some (rs, if duration_valid d then 0 else - 1)"
      using d(1) by (cases "unc_retry_state u") (simp add: update_retry_state_def rs_def Let_def)
    define v where "v = u\<lparr>unc_retry_state := rs\<rparr>"
    have v: "unconfirmed_ok v" "unc_hold v = unc_hold u" "unc_next_retransmit v = unc_next_retransmit u" "unc_retry_state v = rs"
      using unconfirmed_ok_update(4) [OF u, of rs] d(2) by (simp_all add: v_def rs_def)
    define ctx2 where "ctx2 = set_head v ctx1"
    note h = set_head_ok [OF c1(1) us1(1) v(1-3)]
    have c2: "ctx_ok pf clk ctx2" "settled ctx2" "uc_unconfirmed ctx2 = v # us" "uc_tx_params ctx2 = uc_tx_params ctx"
      using h c1(2) us1 by (simp_all add: ctx2_def set_head_def)
    show ?thesis
    proof (cases "duration_valid d")
      case False
      with fail [OF c2(1), of AVS_COAP_ERR_TIME_INVALID] Cons now us1 rs
        \<open>\<not> (monotonic_before now (unc_next_retransmit u) \<or> all_retries_sent (unc_retry_state u) (uc_tx_params ctx1))\<close> c2
      show ?thesis by (simp add: retransmit_next_message_def v_def [symmetric] ctx2_def [symmetric] Let_def)
    next
      case True
      from send_packet_ok [OF pf ctx_ok_inv [OF c2(1)] v(1)] obtain err ctx3 where
        snd: "send_serialized_msg pf ctx2 (unc_msg v) (unc_packet v) (unc_packet_size v) = Some (err, ctx3)"
          "ctx_inv pf clk ctx3" "same_queue ctx2 ctx3" by blast
      have c3: "ctx_ok pf clk ctx3" "settled ctx3" "uc_unconfirmed ctx3 = v # us" "uc_tx_params ctx3 = uc_tx_params ctx"
        using same_queue_ok [OF snd(3,2) c2(1)] same_queue_settled [OF snd(3)] c2 snd(3) by (simp_all add: same_queue_def)
      define ctx4 where "ctx4 = count_outgoing_retransmission ctx3"
      have c4: "ctx_ok pf clk ctx4" "settled ctx4" "uc_unconfirmed ctx4 = v # us" "uc_tx_params ctx4 = uc_tx_params ctx"
        using c3 by (simp_all add: ctx4_def)
      have "time_ok (unc_next_retransmit v)" "time_ok (recv_timeout rs)" using u v(3) d(2) by (simp_all add: unconfirmed_ok_def rs_def)
      from monotonic_add_closed [OF this] obtain later where later:
        "monotonic_add (unc_next_retransmit v) (recv_timeout rs) = Some later" "time_ok later" by blast
      have start: "retransmit_next_message up pf ctx =
         (if err \<noteq> AVS_OK then fail_unconfirmed up pf ctx3 0 None err
          else if \<not> monotonic_valid (unc_next_retransmit v) then fail_unconfirmed up pf ctx4 0 None AVS_COAP_ERR_TIME_INVALID
          else do {
            (u, ctx) \<leftarrow> ctx_detach (set_head (v\<lparr>unc_next_retransmit := later\<rparr>) ctx4) 0;
            let ctx = ctx_insert u ctx;
            c_assert (current_nstart ctx = min (length (uc_unconfirmed ctx)) (tx_nstart (uc_tx_params ctx)));
            Some ctx })"
        using Cons now us1 rs True snd(1) later(1)
          \<open>\<not> (monotonic_before now (unc_next_retransmit u) \<or> all_retries_sent (unc_retry_state u) (uc_tx_params ctx1))\<close>
        by (cases "err = AVS_OK"; cases "monotonic_valid (unc_next_retransmit v)")
          (simp_all add: retransmit_next_message_def v_def [symmetric] v(4) ctx2_def [symmetric] ctx4_def [symmetric] Let_def)
      show ?thesis
      proof (cases "err = AVS_OK \<and> monotonic_valid (unc_next_retransmit v)")
        case False
        with start fail [OF c3(1), of err] fail [OF c4(1), of AVS_COAP_ERR_TIME_INVALID] c3 c4 show ?thesis by auto
      next
        case True
        let ?w = "v\<lparr>unc_next_retransmit := later\<rparr>"
        have w: "unconfirmed_ok ?w" "unc_hold ?w = unc_hold (uc_unconfirmed ctx4 ! 0)"
          using unconfirmed_ok_update(2) [OF v(1) later(2)] c4(3) by simp_all
        let ?ctx5 = "ctx4\<lparr>uc_unconfirmed := us\<rparr>"
        have d: "ctx_detach ctx4 0 = Some (uc_unconfirmed ctx4 ! 0, ?ctx5)" using c4(3) by (simp add: ctx_detach_def)
        have d': "ctx_detach (set_head ?w ctx4) 0 = Some (?w, ?ctx5)" using c4(3) by (simp add: ctx_detach_def set_head_def)
        have "0 < length (uc_unconfirmed ctx4)" using c4(3) by simp
        note r = reinsert_ok [OF c4(1) this d w]
        have "settled (ctx_insert ?w ?ctx5)" using r(2) c4(2) by simp
        then have "current_nstart (ctx_insert ?w ?ctx5) = min (length (uc_unconfirmed (ctx_insert ?w ?ctx5))) (tx_nstart (uc_tx_params (ctx_insert ?w ?ctx5)))"
          using current_nstart_eq [OF ctx_ok_inv [OF r(1)]] by (simp add: settled_def)
        with start True d' r(1) c4(4) show ?thesis by (simp add: Let_def)
      qed
    qed
  qed
qed

lemma on_timeout_ok:
  assumes pf: "platform_ok pf clk" and up: "upper_ok pf clk up" "upper_quiet up" and ctx: "ctx_ok pf clk ctx"
  shows "\<exists>t ctx'. on_timeout up pf ctx = Some (t, ctx') \<and> ctx_ok pf clk ctx' \<and> uc_tx_params ctx' = uc_tx_params ctx"
proof -
  from resume_ok [OF pf up ctx] obtain ctx1 where r: "resume_unconfirmed_messages up pf ctx = Some ctx1" "ctx_ok pf clk ctx1"
    "settled ctx1" "uc_tx_params ctx1 = uc_tx_params ctx" by blast
  from retransmit_ok [OF pf up(1) r(2,3)] obtain ctx2 where "retransmit_next_message up pf ctx1 = Some ctx2" "ctx_ok pf clk ctx2"
    "uc_tx_params ctx2 = uc_tx_params ctx1" by blast
  with r show ?thesis by (cases "uc_unconfirmed ctx2") (simp_all add: on_timeout_def)
qed

section \<open>Cleanup\<close>

lemma cleanup_ok:
  assumes pf: "platform_ok pf clk" and up: "upper_ok pf clk up" "upper_quiet up"
  shows "ctx_ok pf clk ctx \<Longrightarrow> \<exists>ctx'. cleanup_loop up pf ctx = Some ctx' \<and> ctx_ok pf clk ctx' \<and> uc_unconfirmed ctx' = []"
proof (induction "length (uc_unconfirmed ctx)" arbitrary: ctx rule: less_induct)
  case less
  show ?case
  proof (cases "uc_unconfirmed ctx")
    case Nil
    with less.prems show ?thesis by (subst cleanup_loop.simps) simp
  next
    case (Cons u us)
    then have n: "0 < length (uc_unconfirmed ctx)" by simp
    obtain ctx1 where d: "ctx_detach ctx 0 = Some (uc_unconfirmed ctx ! 0, ctx1)" "ctx_ok pf clk ctx1"
      "unconfirmed_ok (uc_unconfirmed ctx ! 0)" "uc_unconfirmed ctx1 = take 0 (uc_unconfirmed ctx) @ drop (Suc 0) (uc_unconfirmed ctx)"
      by (rule unconfirmed_detach_ok [OF less.prems n])
    from call_handler_ok [OF up(1) d(2,3), of RESULT_CANCEL AVS_OK None] obtain hr ctx2 where
      c: "call_send_result_handler up ctx1 (uc_unconfirmed ctx ! 0) None RESULT_CANCEL AVS_OK = Some (hr, ctx2)" "ctx_ok pf clk ctx2" by auto
    have "length (uc_unconfirmed ctx2) < length (uc_unconfirmed ctx)"
      using quiet_call(2) [OF up(2) c(1)] d(4) Cons by simp
    moreover from ctx_ok_resched [OF pf c(2)] obtain ctx3 where
      r: "reschedule_retransmission_job pf ctx2 = Some ctx3" "ctx_ok pf clk ctx3" "same_queue ctx2 ctx3" by blast
    ultimately obtain ctx' where "cleanup_loop up pf ctx3 = Some ctx'" "ctx_ok pf clk ctx'" "uc_unconfirmed ctx' = []"
      using less.hyps [OF _ r(2)] by (auto simp: same_queue_def)
    with Cons d(1) c(1) r(1) show ?thesis by (subst cleanup_loop.simps) (simp add: try_cleanup_unconfirmed_def)
  qed
qed

end
