(* ===== verification/Coap_Udp_Ctx_Props.thy ===== *)
theory Coap_Udp_Ctx_Props
  imports Coap_Udp_Ctx_Send
begin

text \<open>
  A simulated network for concrete runs of a CoAP/UDP context, and what the context does for the
  upper layer: every operation returns and keeps it well-formed, and responses reach the handler
  of the request that they answer.
\<close>

section \<open>A simulated network\<close>

text \<open>An outside world for concrete runs: the time in seconds, the packets that will be received, and those
  that have been sent. Random numbers are all zero, memory is unlimited, floating point numbers are exact.\<close>

record network =
  net_time :: u32
  net_in :: "bytes list"
  net_out :: "bytes list"

definition net_now :: "network \<Rightarrow> monotonic" where
  "net_now w = \<lparr>dur_seconds = uint (net_time w), dur_nanoseconds = 0\<rparr>"

definition net_receive :: "network \<Rightarrow> bytes \<Rightarrow> (bytes \<times> nat \<times> avs_error) \<times> network" where
  "net_receive w buf =
     (case net_in w of
        [] \<Rightarrow> ((buf, 0, AVS_ETIMEDOUT), w)
      | p # ps \<Rightarrow>
          (if length p \<le> length buf then (p @ drop (length p) buf, length p, AVS_OK)
           else (take (length buf) p, length buf, AVS_EMSGSIZE), w\<lparr>net_in := ps\<rparr>))"

definition next_address :: "nat list \<Rightarrow> nat" where
  "next_address ps = Suc (fold max ps 0)"

definition network_platform :: "network platform" where
  "network_platform =
     \<lparr>pf_now = \<lambda>w. (net_now w, w), pf_random = \<lambda>w. (Some 0, w), pf_alloc = \<lambda>w. (True, w),
      pf_new_job = \<lambda>w ps. (Some (next_address ps), w), pf_new_endpoint = \<lambda>w ps. (if next_address ps < 2 ^ 64 then Some (next_address ps) else None, w),
      pf_send = \<lambda>w m. (AVS_OK, w\<lparr>net_out := net_out w @ [m]\<rparr>), pf_receive = net_receive,
      pf_inner_mtu = \<lambda>w. Some 1252, pf_remote_host = \<lambda>w. Some ''10.0.0.1'', pf_remote_port = \<lambda>w. Some ''5683'',
      pf_double = Some\<rparr>"

definition net_clock :: "network \<Rightarrow> int" where
  "net_clock w = uint (net_time w) * NS_IN_S"

lemma next_address_fresh: "next_address ps \<notin> set ps"
proof -
  have "x \<le> fold max ps a" if "x \<in> set ps \<or> x \<le> a" for x a using that
  proof (induction ps arbitrary: a)
    case (Cons p ps)
    have "x \<in> set ps \<or> x \<le> max p a" using Cons.prems by auto
    from Cons.IH [OF this] show ?case by (simp add: max.commute)
  qed simp
  then have "x \<in> set ps \<Longrightarrow> x < next_address ps" for x by (auto simp: next_address_def less_Suc_eq_le)
  then show ?thesis by blast
qed

lemma net_now_span: "span_ok (net_now w)" "ns_of (net_now w) = net_clock w"
proof -
  have "uint (net_time w) < 2 ^ 32" using uint_lt2p [of "net_time w"] by simp
  then show "span_ok (net_now w)" by (simp add: span_ok_def net_now_def duration_valid_def)
  show "ns_of (net_now w) = net_clock w" by (simp add: net_now_def ns_of_def net_clock_def)
qed

lemma network_platform_ok: "platform_ok network_platform net_clock"
  using net_now_span next_address_fresh
  by (auto simp: platform_ok_def network_platform_def net_receive_def net_clock_def span_ok_def split: list.splits)

lemma network_double [simp]: "pf_double network_platform = Some"
  by (simp add: network_platform_def)

text \<open>The default parameters but for the limit on interactions.\<close>

lemma network_params_ok:
  assumes "0 < tx_nstart tx" and "tx_ack_timeout tx = \<lparr>dur_seconds = 2, dur_nanoseconds = 0\<rparr>"
    and "tx_ack_random_factor tx = 3 / 2" and "tx_max_retransmit tx = 4"
  shows "tx_params_ok network_platform tx"
    and "max_transmit_span Some tx = Some \<lparr>dur_seconds = 45, dur_nanoseconds = 0\<rparr>"
proof -
  show s: "max_transmit_span Some tx = Some \<lparr>dur_seconds = 45, dur_nanoseconds = 0\<rparr>"
    using duration_fmul_whole [of 2 45 "45 / 2"] by (simp add: max_transmit_span_def assms)
  have "\<exists>t. random_timeout Some tx r = Some t \<and> span_ok t" if "r < 2 ^ 32" for r
  proof -
    have "real r < 2 * 4294967295" using that by simp
    then have m: "1 + real r / 4294967295 * (1 / 2) < 2" by simp
    have "random_multiplier Some tx r = Some (1 + real r / 4294967295 * (1 / 2))"
      by (simp add: random_multiplier_def assms(3))
    then show ?thesis
      using duration_fmul_exact_ok [of "tx_ack_timeout tx" "1 + real r / 4294967295 * (1 / 2)"] assms(2) m
      by (simp add: random_timeout_def span_ok_def duration_valid_def)
  qed
  with s assms(1,2) show "tx_params_ok network_platform tx"
    by (simp add: tx_params_ok_def span_ok_def duration_valid_def)
qed

text \<open>The default parameters with a given limit, and a context with the given unconfirmed messages.\<close>

definition sample_params :: "nat \<Rightarrow> udp_tx_params" where
  "sample_params n = AVS_COAP_DEFAULT_UDP_TX_PARAMS\<lparr>tx_nstart := n\<rparr>"

definition sample_ctx :: "nat \<Rightarrow> 'h unconfirmed list \<Rightarrow> network \<Rightarrow> ('h, network) udp_ctx" where
  "sample_ctx n us w =
     \<lparr>uc_unconfirmed = us, uc_last_mtu = 1252, uc_forced_incoming_mtu = 0, uc_tx_params = sample_params n,
      uc_stats = \<lparr>outgoing_retransmissions_count = 0, incoming_retransmissions_count = 0\<rparr>, uc_last_msg_id = 7,
      uc_current_request = \<lparr>cur_exists = False, cur_msg_id = 0, cur_token = msg_token zero_msg\<rparr>,
      uc_response_cache = None, uc_notify_cache = [], uc_out_buffer = replicate 64 0, uc_out_acquired = False,
      uc_in_capacity = 64, uc_sched = \<lparr>sched_jobs = [], sched_shutting_down = False, sched_handles = \<lambda>h. None\<rparr>,
      uc_retry_job = 1, uc_world = w\<rparr>"

lemma sample_ctx_inv:
  assumes "0 < n" "queue_ok n us"
  shows "ctx_inv network_platform net_clock (sample_ctx n us w)"
proof -
  have "tx_params_ok network_platform (sample_params n)"
    by (rule network_params_ok(1)) (use assms(1) in \<open>simp_all add: sample_params_def AVS_COAP_DEFAULT_UDP_TX_PARAMS_def\<close>)
  with assms(2) show ?thesis
    by (simp add: ctx_inv_def sample_ctx_def sample_params_def notify_ok_def sched_ok_def jobs_ok_def handles_ok_def)
qed

lemma sample_ctx_ok: "0 < n \<Longrightarrow> queue_ok n us \<Longrightarrow> ctx_ok network_platform net_clock (sample_ctx n us w)"
  using sample_ctx_inv by (simp add: ctx_ok_def) (simp add: sample_ctx_def)

text \<open>A confirmable GET request with a token of one byte and no options, as an unconfirmed message.\<close>

definition get_header :: "byte \<Rightarrow> udp_header" where
  "get_header i = \<lparr>version_type_token_length = 0x41, hdr_code = 1, message_id = (0, i)\<rparr>"

definition get_msg :: "byte \<Rightarrow> byte \<Rightarrow> udp_msg" where
  "get_msg i t = zero_msg\<lparr>msg_header := get_header i,
     msg_token := \<lparr>token_size = 1, token_bytes = [t, 0, 0, 0, 0, 0, 0, 0]\<rparr>, msg_payload := Some []\<rparr>"

definition get_unconfirmed :: "'h \<Rightarrow> byte \<Rightarrow> byte \<Rightarrow> bool \<Rightarrow> monotonic \<Rightarrow> 'h unconfirmed" where
  "get_unconfirmed h i t hold tm =
     \<lparr>unc_handler = Some h, unc_retry_state = \<lparr>retry_count = 0, recv_timeout = \<lparr>dur_seconds = 2, dur_nanoseconds = 0\<rparr>\<rparr>,
      unc_hold = hold, unc_next_retransmit = tm, unc_msg = get_msg i t, unc_packet_size = 5,
      unc_packet = [0x41, 1, 0, i, t]\<rparr>"

lemma get_header_fields:
  "header_get_type (get_header i) = CONFIRMABLE" "header_get_token_length (get_header i) = 1"
  "header_get_id (get_header i) = unat i" "hdr_code (get_header i) = 1" "is_msg_header_valid (get_header i)"
  by (simp_all add: get_header_def header_get_type_def header_get_token_length_def header_get_id_def field_get_def Let_def
      is_msg_header_valid_def header_get_version_def)

lemma get_unconfirmed_ok:
  assumes "time_ok tm"
  shows "packet_ok (get_unconfirmed h i t hold tm) (get_header i) [t] [] []" "unconfirmed_ok (get_unconfirmed h i t hold tm)"
proof -
  have "block_in [] b = None" for b by (simp add: block_in_def)
  then have "msg_ok (get_header i) [t] [] []"
    using get_header_fields [of i]
    by (simp add: msg_ok_def opts_ok_def CODE_EMPTY_def coap_code_def non_repeatable_critical_options_def
        block1_more_with_block2_def payload_size_ok_def split: option.split)
  then show p: "packet_ok (get_unconfirmed h i t hold tm) (get_header i) [t] [] []"
    by (simp add: packet_ok_def get_unconfirmed_def msg_is_def get_msg_def msg_bytes_def payload_bytes_def header_bytes_def)
      (simp add: get_header_def zero_msg_def opts_rep_def)
  have "time_ok \<lparr>dur_seconds = 2, dur_nanoseconds = 0\<rparr>" by (intro dur_ok_time_ok) (simp add: dur_ok_def duration_valid_def i64_def)
  with p assms show "unconfirmed_ok (get_unconfirmed h i t hold tm)"
    by (simp add: unconfirmed_ok_def) (auto simp: get_unconfirmed_def)
qed

section \<open>Responses\<close>

text \<open>Receiving a datagram that the parser accepts.\<close>

lemma recv_msg_packet:
  assumes r: "pf_receive pf (uc_world ctx) buf = ((buf', n, AVS_OK), w)" and p: "take n buf' = msg_bytes hdr tok xs payload"
    and ok: "msg_ok hdr tok xs payload" and n: "n \<le> length buf'"
  shows "\<exists>msg. recv_msg pf ctx zero_msg buf = Some ((msg, buf', AVS_OK), ctx\<lparr>uc_world := w\<rparr>) \<and> msg_is msg hdr tok xs payload \<and> head_ok msg"
proof -
  have l: "n = length (msg_bytes hdr tok xs payload)" using p n by (metis length_take min.absorb2)
  have b: "buf' = msg_bytes hdr tok xs payload @ drop n buf'" using p by (metis append_take_drop_id)
  from udp_msg_parse_complete [OF ok l b zero_msg_token(2)] obtain msg where
    "udp_msg_parse zero_msg buf' n = Some (msg, AVS_OK)" "msg_is msg hdr tok xs payload" by blast
  moreover from this(2) ok have "head_ok msg" by (auto simp: head_ok_def msg_ok_def is_msg_header_valid_def msg_is_def token_ok_def)
  ultimately show ?thesis using r by (simp add: recv_msg_def ctx_receive_def)
qed

lemma find_pos_first:
  assumes "n < length xs" "P (xs ! n)" "\<forall>k < n. \<not> P (xs ! k)"
  shows "find_pos P xs = Some n"
  unfolding find_pos_Some using assms by (auto simp: in_set_conv_nth)

text \<open>A response with the given header and token answers an unconfirmed request with its token; a piggybacked
  one must also have its message identifier.\<close>

definition answers :: "udp_header \<Rightarrow> bytes \<Rightarrow> 'h unconfirmed \<Rightarrow> bool" where
  "answers hdr tok u \<longleftrightarrow> code_is_request (hdr_code (msg_header (unc_msg u)))
     \<and> take (token_size (msg_token (unc_msg u))) (token_bytes (msg_token (unc_msg u))) = tok
     \<and> (header_get_type hdr = ACKNOWLEDGEMENT \<longrightarrow> header_get_id (msg_header (unc_msg u)) = header_get_id hdr)"

lemma answered_by_answers:
  assumes "msg_is msg hdr tok xs payload" "unconfirmed_ok u"
  shows "answered_by msg u = answers hdr tok u"
proof -
  have m: "msg_header msg = hdr" "token_size (msg_token msg) = length tok" "take (length tok) (token_bytes (msg_token msg)) = tok"
    using assms(1) by (simp_all add: msg_is_def)
  have t: "token_size (msg_token (unc_msg u)) \<le> 8" "length (token_bytes (msg_token (unc_msg u))) = 8"
    using unconfirmed_ok_token [OF assms(2)] by (simp_all add: token_ok_def)
  have "same_token (msg_token (unc_msg u)) (msg_token msg)
      \<longleftrightarrow> take (token_size (msg_token (unc_msg u))) (token_bytes (msg_token (unc_msg u))) = tok"
    using m t by (auto simp: same_token_def)
  then show ?thesis by (auto simp: answered_by_def answers_def matches_def m(1) direction_from_code_def)
qed

lemma response_not_request: "code_is_response code \<Longrightarrow> \<not> code_is_request code"
  by (auto simp: code_is_response_def code_is_request_def code_is_success_def code_is_error_def
      code_is_client_error_def code_is_server_error_def)

lemma find_answered:
  assumes ctx: "ctx_ok pf clk ctx" and m: "msg_is msg hdr tok xs payload" "head_ok msg" "code_is_response (hdr_code hdr)"
    and n: "n < length (uc_unconfirmed ctx)" and first: "\<forall>k \<le> n. answers hdr tok (uc_unconfirmed ctx ! k) \<longleftrightarrow> k = n"
  shows "find_unconfirmed_by_response ctx msg = Some (Some n)"
proof -
  have "answered_by msg (uc_unconfirmed ctx ! k) \<longleftrightarrow> k = n" if k: "k \<le> n" for k
  proof -
    have "unconfirmed_ok (uc_unconfirmed ctx ! k)" using ctx_ok_unconfirmed [OF ctx nth_mem] n k by simp
    from answered_by_answers [OF m(1) this] first k show ?thesis by simp
  qed
  then have "find_pos (answered_by msg) (uc_unconfirmed ctx) = Some n" using n by (intro find_pos_first) auto
  with find_by_response_eq [OF ctx m(2)] m(1,3) show ?thesis by (simp add: msg_is_def)
qed

lemma ctx_ok_world:
  assumes "platform_ok pf clk" "ctx_ok pf clk ctx" "pf_receive pf (uc_world ctx) buf = ((buf', n, err), w)"
  shows "ctx_ok pf clk (ctx\<lparr>uc_world := w\<rparr>)" "n \<le> length buf'"
  using platform_okD(7) [OF assms(1,3)] ctx_inv_world [OF ctx_ok_inv [OF assms(2)], of w] assms(2) by (simp_all add: ctx_ok_def)

text \<open>The context \<open>c\<close> after the acknowledgement of a confirmable response, and the error of sending it.\<close>

definition acked :: "'w platform \<Rightarrow> ('h, 'w) udp_ctx \<Rightarrow> udp_header \<Rightarrow> avs_error \<Rightarrow> ('h, 'w) udp_ctx \<Rightarrow> bool" where
  "acked pf ctx hdr err c \<longleftrightarrow>
     (if header_get_type hdr = CONFIRMABLE then send_separate_ack pf ctx (header_get_id hdr) = Some (err, c)
      else err = AVS_OK \<and> c = ctx)"

lemma acked_exists:
  assumes "platform_ok pf clk" "ctx_ok pf clk ctx"
  shows "\<exists>err c. acked pf ctx hdr err c \<and> same_queue ctx c"
  using send_separate_ack_ok [OF assms(1) ctx_ok_inv [OF assms(2)], of hdr]
  by (cases "header_get_type hdr = CONFIRMABLE") (auto simp: acked_def)

lemma response_delivered:
  assumes pf: "platform_ok pf clk" and ctx: "ctx_ok pf clk ctx"
    and r: "pf_receive pf (uc_world ctx) buf = ((buf', l, AVS_OK), w)" and p: "take l buf' = msg_bytes hdr tok xs payload"
    and ok: "msg_ok hdr tok xs payload" and resp: "code_is_response (hdr_code hdr)"
    and n: "n < length (uc_unconfirmed ctx)" and h: "unc_handler (uc_unconfirmed ctx ! n) = Some h"
    and first: "\<forall>k \<le> n. answers hdr tok (uc_unconfirmed ctx ! k) \<longleftrightarrow> k = n"
  shows "\<exists>msg err c. msg_is msg hdr tok xs payload \<and> acked pf (ctx\<lparr>uc_world := w\<rparr>) hdr err c \<and>
    receive_message up pf ctx buf = do {
      let c = c\<lparr>uc_unconfirmed := take n (uc_unconfirmed ctx) @ drop (Suc n) (uc_unconfirmed ctx)\<rparr>;
      (hr, ctx') \<leftarrow> (if err = AVS_OK then up_send_result up h c RESULT_OK AVS_OK (Some (borrowed_msg_from_udp_msg msg))
                    else up_send_result up h c RESULT_FAIL err None);
      ctx' \<leftarrow> (if err = AVS_OK \<and> hr \<noteq> RESPONSE_ACCEPTED then Some (ctx_insert (uc_unconfirmed ctx ! n) ctx')
              else reschedule_retransmission_job pf ctx');
      Some (err, buf', zero_borrowed_msg, ctx') }"
proof -
  note w = ctx_ok_world [OF pf ctx r]
  from recv_msg_packet [OF r p ok w(2)] obtain msg where
    m: "recv_msg pf ctx zero_msg buf = Some ((msg, buf', AVS_OK), ctx\<lparr>uc_world := w\<rparr>)" "msg_is msg hdr tok xs payload" "head_ok msg" by blast
  have hdr: "msg_header msg = hdr" using m(2) by (simp add: msg_is_def)
  have f: "find_unconfirmed_by_response (ctx\<lparr>uc_world := w\<rparr>) msg = Some (Some n)"
    by (rule find_answered [OF w(1) m(2,3) resp]) (use n first in simp_all)
  have ty: "header_get_type hdr \<noteq> RESET" using f hdr by (auto simp: find_unconfirmed_by_response_def Let_def)
  obtain err c where a: "acked pf (ctx\<lparr>uc_world := w\<rparr>) hdr err c" "same_queue (ctx\<lparr>uc_world := w\<rparr>) c"
    using acked_exists [OF pf w(1)] by blast
  have q: "uc_unconfirmed c = uc_unconfirmed ctx" using a(2) by (simp add: same_queue_def)
  have first_step: "(if header_get_type hdr = CONFIRMABLE then send_separate_ack pf (ctx\<lparr>uc_world := w\<rparr>) (header_get_id hdr)
      else Some (AVS_OK, ctx\<lparr>uc_world := w\<rparr>)) = Some (err, c)"
    using a(1) by (simp add: acked_def split: if_splits)
  have e: "handle_response up pf (ctx\<lparr>uc_world := w\<rparr>) msg = do {
      let c = c\<lparr>uc_unconfirmed := take n (uc_unconfirmed ctx) @ drop (Suc n) (uc_unconfirmed ctx)\<rparr>;
      (hr, ctx') \<leftarrow> (if err = AVS_OK then up_send_result up h c RESULT_OK AVS_OK (Some (borrowed_msg_from_udp_msg msg))
                    else up_send_result up h c RESULT_FAIL err None);
      ctx' \<leftarrow> (if err = AVS_OK \<and> hr \<noteq> RESPONSE_ACCEPTED then Some (ctx_insert (uc_unconfirmed ctx ! n) ctx')
              else reschedule_retransmission_job pf ctx');
      Some (err, ctx') }"
    using f ty h n q unfolding handle_response_def hdr
    by (cases "err = AVS_OK") (simp_all add: first_step confirm_unconfirmed_def fail_unconfirmed_def ctx_detach_def
        try_cleanup_unconfirmed_def call_send_result_handler_def case_prod_unfold cong: if_cong)
  have "receive_message up pf ctx buf = do {
      let c = c\<lparr>uc_unconfirmed := take n (uc_unconfirmed ctx) @ drop (Suc n) (uc_unconfirmed ctx)\<rparr>;
      (hr, ctx') \<leftarrow> (if err = AVS_OK then up_send_result up h c RESULT_OK AVS_OK (Some (borrowed_msg_from_udp_msg msg))
                    else up_send_result up h c RESULT_FAIL err None);
      ctx' \<leftarrow> (if err = AVS_OK \<and> hr \<noteq> RESPONSE_ACCEPTED then Some (ctx_insert (uc_unconfirmed ctx ! n) ctx')
              else reschedule_retransmission_job pf ctx');
      Some (err, buf', zero_borrowed_msg, ctx') }"
    using resp response_not_request [OF resp]
    by (simp add: receive_message_def m(1) handle_msg_def hdr e case_prod_unfold Let_def cong: if_cong)
  with m(2) a(1) show ?thesis by blast
qed

text \<open>The responses that need no acknowledgement.\<close>

lemma response_delivered_at_once:
  assumes "platform_ok pf clk" and "ctx_ok pf clk ctx"
    and "pf_receive pf (uc_world ctx) buf = ((buf', l, AVS_OK), w)" and "take l buf' = msg_bytes hdr tok xs payload"
    and "msg_ok hdr tok xs payload" and "code_is_response (hdr_code hdr)" and "header_get_type hdr \<noteq> CONFIRMABLE"
    and "n < length (uc_unconfirmed ctx)" and "unc_handler (uc_unconfirmed ctx ! n) = Some h"
    and "\<forall>k \<le> n. answers hdr tok (uc_unconfirmed ctx ! k) \<longleftrightarrow> k = n"
  shows "\<exists>msg. msg_is msg hdr tok xs payload \<and>
    receive_message up pf ctx buf = do {
      (hr, ctx') \<leftarrow> up_send_result up h
        (ctx\<lparr>uc_world := w, uc_unconfirmed := take n (uc_unconfirmed ctx) @ drop (Suc n) (uc_unconfirmed ctx)\<rparr>)
        RESULT_OK AVS_OK (Some (borrowed_msg_from_udp_msg msg));
      ctx' \<leftarrow> (if hr \<noteq> RESPONSE_ACCEPTED then Some (ctx_insert (uc_unconfirmed ctx ! n) ctx')
              else reschedule_retransmission_job pf ctx');
      Some (AVS_OK, buf', zero_borrowed_msg, ctx') }"
  using response_delivered [OF assms(1-6,8-10), of up] assms(7) by (auto simp: acked_def)

section \<open>Callbacks for concrete runs\<close>

text \<open>One that only records the payload of a response, and one that also continues with a further request
  when it gets a response, as the block-wise transfer of a large payload does.\<close>

definition log_response :: "borrowed_msg option \<Rightarrow> ('h, network) udp_ctx \<Rightarrow> ('h, network) udp_ctx" where
  "log_response m ctx =
     (case Option.bind m bm_payload of
        None \<Rightarrow> ctx
      | Some mem \<Rightarrow> ctx\<lparr>uc_world := (uc_world ctx)\<lparr>net_out := net_out (uc_world ctx) @ [take (bm_payload_size (the m)) mem]\<rparr>\<rparr>)"

definition logging_upper :: "(nat, network) upper_layer" where
  "logging_upper =
     \<lparr>up_send_result = \<lambda>h ctx r e m. Some (RESPONSE_ACCEPTED, log_response m ctx), up_observe_cancel = \<lambda>tok ctx. Some ctx\<rparr>"

definition next_request :: borrowed_msg where
  "next_request = borrowed_msg_from_udp_msg (get_msg 0 0xCC)"

definition continuing_upper :: "(nat, network) upper_layer" where
  "continuing_upper =
     \<lparr>up_send_result = \<lambda>h ctx r e m.
        (if r = RESULT_OK then do {
           (err, ctx) \<leftarrow> send_message network_platform (log_response m ctx) next_request (Some h);
           Some (RESPONSE_ACCEPTED, ctx) }
         else Some (RESPONSE_ACCEPTED, log_response m ctx)),
      up_observe_cancel = \<lambda>tok ctx. Some ctx\<rparr>"

lemma log_response_frame:
  "uc_unconfirmed (log_response m ctx) = uc_unconfirmed ctx" "uc_tx_params (log_response m ctx) = uc_tx_params ctx"
  "ctx_ok network_platform net_clock ctx \<Longrightarrow> ctx_ok network_platform net_clock (log_response m ctx)"
proof -
  have c: "net_clock (w\<lparr>net_out := x\<rparr>) = net_clock w" for w x by (simp add: net_clock_def)
  show "uc_unconfirmed (log_response m ctx) = uc_unconfirmed ctx" "uc_tx_params (log_response m ctx) = uc_tx_params ctx"
    by (auto simp: log_response_def split: option.splits)
  show "ctx_ok network_platform net_clock ctx \<Longrightarrow> ctx_ok network_platform net_clock (log_response m ctx)"
    by (auto simp: log_response_def ctx_ok_def ctx_inv_def c split: option.splits)
qed

lemma logging_upper_ok: "upper_ok network_platform net_clock logging_upper" "upper_quiet logging_upper"
  by (auto simp: upper_ok_def upper_quiet_def logging_upper_def log_response_frame)

lemma next_request_ok: "borrowed_ok next_request [0xCC] [] []"
  by (simp add: borrowed_ok_def next_request_def borrowed_msg_from_udp_msg_def get_msg_def get_header_def token_ok_def
      code_is_request_def code_get_class_def code_get_detail_def field_get_def) (simp add: zero_msg_def opts_rep_def)

lemma continuing_upper_ok: "upper_ok network_platform net_clock continuing_upper" "upper_quiet continuing_upper"
proof -
  have "\<exists>hr ctx'. up_send_result continuing_upper h ctx r e m = Some (hr, ctx')
        \<and> ctx_ok network_platform net_clock ctx' \<and> uc_tx_params ctx' = uc_tx_params ctx
        \<and> (hr \<noteq> RESPONSE_ACCEPTED \<longrightarrow> uc_unconfirmed ctx' = uc_unconfirmed ctx)"
    if "ctx_ok network_platform net_clock ctx" for h ctx r e m
  proof (cases "r = RESULT_OK")
    case True
    from send_ok [OF network_platform_ok log_response_frame(3) [OF that] next_request_ok] obtain err ctx' where
      "send_message network_platform (log_response m ctx) next_request (Some h) = Some (err, ctx')"
      "ctx_ok network_platform net_clock ctx'" "uc_tx_params ctx' = uc_tx_params (log_response m ctx)" by blast
    with True show ?thesis by (simp add: continuing_upper_def log_response_frame)
  qed (use that in \<open>simp add: continuing_upper_def log_response_frame\<close>)
  then show "upper_ok network_platform net_clock continuing_upper"
    by (simp add: upper_ok_def) (simp add: continuing_upper_def)
  show "upper_quiet continuing_upper" by (auto simp: upper_quiet_def continuing_upper_def log_response_frame)
qed

section \<open>Every operation returns\<close>

text \<open>C1: Whatever datagram the socket delivers, or error it reports, to a well-formed context: receiving it terminates,
  reads and writes only inside its buffers and leaves the context well-formed, provided that the callbacks return
  and do so too. Only two messages fail an assertion: a request that comes before the previous one has been dealt
  with, and an empty acknowledgement that comes before the timer has filled the free slots.\<close>

theorem udp_receive_any_datagram:
  assumes "platform_ok pf clk" and "upper_ok pf clk up" and "ctx_ok pf clk ctx"
  shows "case receive_message up pf ctx buf of
      Some (err, buf', request, ctx') \<Rightarrow> ctx_ok pf clk ctx'
    | None \<Rightarrow> \<exists>msg buf' ctx1. recv_msg pf ctx zero_msg buf = Some ((msg, buf', AVS_OK), ctx1) \<and> unexpected ctx msg"
  using receive_ok [OF assms, of buf] by auto

text \<open>One started and one held request.\<close>

definition sample_queue :: "nat unconfirmed list" where
  "sample_queue = [get_unconfirmed 0 5 0xAA False \<lparr>dur_seconds = 10, dur_nanoseconds = 0\<rparr>,
     get_unconfirmed 0 6 0xBB True \<lparr>dur_seconds = 9, dur_nanoseconds = 0\<rparr>]"

lemma get_unconfirmed_simps [simp]:
  "unc_hold (get_unconfirmed h i t hold tm) = hold" "unc_next_retransmit (get_unconfirmed h i t hold tm) = tm"
  "unc_handler (get_unconfirmed h i t hold tm) = Some h" "unc_msg (get_unconfirmed h i t hold tm) = get_msg i t"
  by (simp_all add: get_unconfirmed_def)

lemma seconds_ok [simp]:
  "0 \<le> n \<Longrightarrow> n < 2 ^ 61 \<Longrightarrow> time_ok \<lparr>dur_seconds = n, dur_nanoseconds = 0\<rparr>"
  "duration_valid \<lparr>dur_seconds = n, dur_nanoseconds = 0\<rparr>"
  by (simp_all add: time_ok_def dur_ok_def duration_valid_def i64_def)

lemma sample_queue_ok: "queue_ok 1 sample_queue"
  by (simp add: queue_ok_def sample_queue_def queue_sorted_Cons get_unconfirmed_ok(2) unc_before_def)

theorem udp_receive_any_datagram_witness:
  "\<exists>err buf' request ctx'. receive_message continuing_upper network_platform
      (sample_ctx 1 sample_queue \<lparr>net_time = 11, net_in = [[0x61, 0x45, 0, 5, 0xAA, 0xFF, 7]], net_out = []\<rparr>) (replicate 16 0)
    = Some (err, buf', request, ctx')"
proof -
  let ?ctx = "sample_ctx 1 sample_queue \<lparr>net_time = 11, net_in = [[0x61, 0x45, 0, 5, 0xAA, 0xFF, 7]], net_out = []\<rparr>"
  have "settled ?ctx"
    by (simp add: settled_def sample_ctx_def sample_queue_def sample_params_def get_unconfirmed_def)
  moreover have "\<not> cur_exists (uc_current_request ?ctx)" by (simp add: sample_ctx_def)
  ultimately have "\<not> unexpected ?ctx msg" for msg by (simp add: unexpected_def)
  then show ?thesis
    using udp_receive_any_datagram [OF network_platform_ok continuing_upper_ok(1) sample_ctx_ok [OF zero_less_one sample_queue_ok],
        of "\<lparr>net_time = 11, net_in = [[0x61, 0x45, 0, 5, 0xAA, 0xFF, 7]], net_out = []\<rparr>" "replicate 16 0"]
    by (auto split: option.splits)
qed

text \<open>C4: Sending any message whose options are encoded, aborting any delivery, and cleaning up return and leave a
  well-formed context well-formed, whatever the allocator, the random generator and the socket answer, and no message
  is left after the cleanup. The callbacks may send from within a response, but not when a message fails or is
  cancelled, for the cleanup would not end if each cancelled message were replaced by a new one.\<close>

theorem udp_operations_keep_context:
  assumes "platform_ok pf clk" and "upper_ok pf clk up" and "upper_quiet up" and "ctx_ok pf clk ctx"
    and "borrowed_ok m tok xs payload" and "token_ok tok'" and "r = RESULT_FAIL \<longleftrightarrow> e \<noteq> AVS_OK"
  shows "(\<exists>err ctx'. send_message pf ctx m handler = Some (err, ctx') \<and> ctx_ok pf clk ctx')
    \<and> (\<exists>ctx'. abort_delivery up pf ctx d tok' r e = Some ctx' \<and> ctx_ok pf clk ctx')
    \<and> (\<exists>ctx'. cleanup_loop up pf ctx = Some ctx' \<and> ctx_ok pf clk ctx' \<and> uc_unconfirmed ctx' = [])"
  using send_ok [OF assms(1,4,5)] abort_ok [OF assms(1,2,4,6,7)] cleanup_ok [OF assms(1,2,3,4)] by blast

theorem udp_operations_keep_context_witness:
  "\<exists>ctx'. cleanup_loop continuing_upper network_platform
     (sample_ctx 1 sample_queue \<lparr>net_time = 11, net_in = [], net_out = []\<rparr>) = Some ctx' \<and> uc_unconfirmed ctx' = []"
  using udp_operations_keep_context [OF network_platform_ok continuing_upper_ok sample_ctx_ok [OF zero_less_one sample_queue_ok]
      next_request_ok zero_msg_token(1), of RESULT_CANCEL AVS_OK] by blast

section \<open>Delivery of responses\<close>

text \<open>C3: A response reaches the handler of the first unconfirmed request with its token (and with its message
  identifier, if it is an acknowledgement), held or not, with the code, token, options and payload that the datagram
  encodes. The request is off the list when its handler runs, and is put back if the handler does not accept the
  response. A confirmable response is acknowledged first; if that fails, the handler gets the error of the socket
  instead, and no response.\<close>

theorem response_reaches_handler:
  assumes "platform_ok pf clk" and "ctx_ok pf clk ctx"
    and "pf_receive pf (uc_world ctx) buf = ((buf', l, AVS_OK), w)" and "take l buf' = msg_bytes hdr tok xs payload"
    and "msg_ok hdr tok xs payload" and "code_is_response (hdr_code hdr)"
    and "n < length (uc_unconfirmed ctx)" and "unc_handler (uc_unconfirmed ctx ! n) = Some h"
    and "\<forall>k \<le> n. answers hdr tok (uc_unconfirmed ctx ! k) \<longleftrightarrow> k = n"
  shows "\<exists>msg err c. msg_is msg hdr tok xs payload \<and> acked pf (ctx\<lparr>uc_world := w\<rparr>) hdr err c \<and>
    receive_message up pf ctx buf = do {
      let c = c\<lparr>uc_unconfirmed := take n (uc_unconfirmed ctx) @ drop (Suc n) (uc_unconfirmed ctx)\<rparr>;
      (hr, ctx') \<leftarrow> (if err = AVS_OK then up_send_result up h c RESULT_OK AVS_OK (Some (borrowed_msg_from_udp_msg msg))
                    else up_send_result up h c RESULT_FAIL err None);
      ctx' \<leftarrow> (if err = AVS_OK \<and> hr \<noteq> RESPONSE_ACCEPTED then Some (ctx_insert (uc_unconfirmed ctx ! n) ctx')
              else reschedule_retransmission_job pf ctx');
      Some (err, buf', zero_borrowed_msg, ctx') }"
  using assms by (rule response_delivered)

text \<open>The response 2.05 with identifier 5, token AA and payload 07.\<close>

definition content_header :: udp_header where
  "content_header = \<lparr>version_type_token_length = 0x61, hdr_code = 0x45, message_id = (0, 5)\<rparr>"

lemma content_header_fields:
  "header_get_type content_header = ACKNOWLEDGEMENT" "header_get_token_length content_header = 1"
  "header_get_id content_header = 5" "code_is_response (hdr_code content_header)" "is_msg_header_valid content_header"
  "\<not> code_is_request (hdr_code content_header)"
  by (simp_all add: content_header_def header_get_type_def header_get_token_length_def header_get_id_def field_get_def Let_def
      is_msg_header_valid_def header_get_version_def code_is_response_def code_is_success_def code_get_class_def
      code_is_request_def code_get_detail_def)

lemma content_ok: "msg_ok content_header [0xAA] [] [7]"
proof -
  have "block_in [] b = None" for b by (simp add: block_in_def)
  with content_header_fields show ?thesis
    by (simp add: msg_ok_def content_header_def opts_ok_def CODE_EMPTY_def coap_code_def non_repeatable_critical_options_def
        block1_more_with_block2_def payload_size_ok_def split: option.split)
qed

lemma content_bytes: "msg_bytes content_header [0xAA] [] [7] = [0x61, 0x45, 0, 5, 0xAA, 0xFF, 7]"
  by (simp add: msg_bytes_def header_bytes_def content_header_def payload_bytes_def AVS_COAP_PAYLOAD_MARKER_def)

lemma answers_get: "answers content_header [0xAA] (get_unconfirmed h i t hold tm) \<longleftrightarrow> t = 0xAA \<and> i = 5"
proof -
  have "unat i = 5 \<longleftrightarrow> i = 5" using byte_eqI [of i 5] by auto
  moreover have "code_is_request 1" by (simp add: code_is_request_def code_get_class_def code_get_detail_def field_get_def)
  ultimately show ?thesis
    using get_header_fields [of i] content_header_fields
    by (auto simp: answers_def get_msg_def)
qed

lemma network_receive:
  "pf_receive network_platform \<lparr>net_time = t, net_in = p # ps, net_out = out\<rparr> buf
   = (if length p \<le> length buf then (p @ drop (length p) buf, length p, AVS_OK) else (take (length buf) p, length buf, AVS_EMSGSIZE),
      \<lparr>net_time = t, net_in = ps, net_out = out\<rparr>)"
  by (simp add: network_platform_def net_receive_def)

lemma two_seconds: "dur_ok \<lparr>dur_seconds = 2, dur_nanoseconds = 0\<rparr>"
  by (simp add: dur_ok_def duration_valid_def i64_def)

theorem response_reaches_handler_witness:
  "\<exists>ctx'. receive_message logging_upper network_platform
      (sample_ctx 1 [get_unconfirmed 0 5 0xAA False \<lparr>dur_seconds = 10, dur_nanoseconds = 0\<rparr>]
         \<lparr>net_time = 11, net_in = [[0x61, 0x45, 0, 5, 0xAA, 0xFF, 7]], net_out = []\<rparr>) (replicate 16 0)
    = Some (AVS_OK, [0x61, 0x45, 0, 5, 0xAA, 0xFF, 7] @ replicate 9 0, zero_borrowed_msg, ctx')
    \<and> uc_unconfirmed ctx' = [] \<and> net_out (uc_world ctx') = [[7]]"
proof -
  let ?u = "get_unconfirmed 0 5 0xAA False \<lparr>dur_seconds = 10, dur_nanoseconds = 0\<rparr> :: nat unconfirmed"
  let ?w = "\<lparr>net_time = 11, net_in = [[0x61, 0x45, 0, 5, 0xAA, 0xFF, 7]], net_out = []\<rparr>"
  let ?p = "[0x61, 0x45, 0, 5, 0xAA, 0xFF, 7] :: bytes"
  have q: "queue_ok 1 [?u]" by (simp add: queue_ok_def queue_sorted_Cons get_unconfirmed_ok(2))
  have r: "pf_receive network_platform (uc_world (sample_ctx 1 [?u] ?w)) (replicate 16 0)
      = ((?p @ replicate 9 0, 7, AVS_OK), \<lparr>net_time = 11, net_in = [], net_out = []\<rparr>)"
    by (simp add: sample_ctx_def network_receive drop_replicate)
  have t: "take 7 (?p @ replicate 9 0) = msg_bytes content_header [0xAA] [] [7]" by (simp add: content_bytes)
  have n: "(0::nat) < length (uc_unconfirmed (sample_ctx 1 [?u] ?w))" "unc_handler (uc_unconfirmed (sample_ctx 1 [?u] ?w) ! 0) = Some 0"
    "\<forall>k \<le> 0. answers content_header [0xAA] (uc_unconfirmed (sample_ctx 1 [?u] ?w) ! k) \<longleftrightarrow> k = 0"
    by (simp_all add: sample_ctx_def answers_get)
  let ?c = "sample_ctx 1 [?u] ?w"
  let ?w' = "\<lparr>net_time = 11, net_in = [], net_out = []\<rparr>"
  obtain msg err c where
    m: "msg_is msg content_header [0xAA] [] [7]" "acked network_platform (?c\<lparr>uc_world := ?w'\<rparr>) content_header err c"
      "receive_message logging_upper network_platform ?c (replicate 16 0) = do {
      let c = c\<lparr>uc_unconfirmed := take 0 (uc_unconfirmed ?c) @ drop (Suc 0) (uc_unconfirmed ?c)\<rparr>;
      (hr, ctx') \<leftarrow> (if err = AVS_OK then up_send_result logging_upper 0 c RESULT_OK AVS_OK (Some (borrowed_msg_from_udp_msg msg))
                    else up_send_result logging_upper 0 c RESULT_FAIL err None);
      ctx' \<leftarrow> (if err = AVS_OK \<and> hr \<noteq> RESPONSE_ACCEPTED then Some (ctx_insert (uc_unconfirmed ?c ! 0) ctx')
              else reschedule_retransmission_job network_platform ctx');
      Some (err, ?p @ replicate 9 0, zero_borrowed_msg, ctx') }"
    using response_reaches_handler [OF network_platform_ok sample_ctx_ok [OF zero_less_one q] r t content_ok
      content_header_fields(4) n, of logging_upper] by blast
  have c: "err = AVS_OK" "c = ?c\<lparr>uc_world := ?w'\<rparr>" using m(2) by (simp_all add: acked_def content_header_fields(1))
  from m(1) obtain mem where "msg_payload msg = Some mem" "msg_payload_size msg = 1" "take 1 mem = [7]" by (auto simp: msg_is_def)
  with m(3) c show ?thesis
    by (simp add: logging_upper_def log_response_def borrowed_msg_from_udp_msg_def reschedule_retransmission_job_def sample_ctx_def)
qed

end
