(* ===== verification/Coap_Udp_Ctx_Requests.thy ===== *)
theory Coap_Udp_Ctx_Requests
  imports Coap_Udp_Ctx_Props
begin

text \<open>
  Requests and notifications that come back: a retransmitted request is answered from the cache
  without reaching the upper layer, and a Reset that answers a notification cancels its
  observation. The size that is offered to the upper layer for a payload is exact.
\<close>

section \<open>Retransmitted requests\<close>

lemma send_serialized_sends:
  assumes "send_serialized_msg pf ctx msg buf n = Some (err, ctx')" "n \<le> length buf"
  shows "\<exists>w. pf_send pf w (take n buf) = (err, uc_world ctx')"
proof -
  from assms obtain ctx1 where "ctx_send pf ctx1 (take n buf) = (err, ctx')"
    by (auto simp: send_serialized_msg_def rd_bytes_def Option.bind_eq_Some_conv)
  then show ?thesis by (auto simp: ctx_send_def split: prod.splits)
qed

lemma cached_response_parsed:
  assumes c: "cache_represents c vs" and k: "dropWhile (cached_expired now) vs = us @ (addr, port, t, m) # vs'"
    and alive: "\<not> cached_expired now (addr, port, t, m)" and i: "packet_id m = i"
    and first: "\<forall>v \<in> set us. \<not> cached_matches addr port i v"
    and m: "m = msg_bytes hdr tok xs payload" "msg_ok hdr tok xs payload" and out: "length (token_bytes (msg_token (cr_msg out))) = 8"
  shows "\<exists>c' r. response_cache_get (Some c) now addr port i out = Some (Some c', AVS_OK, r)
    \<and> msg_is (cr_msg r) hdr tok xs payload \<and> take (cr_packet_size r) (cr_packet r) = m \<and> length m \<le> 65535"
proof -
  from c obtain rs where rs: "cache_inv c rs" "map view rs = vs" by (auto simp: cache_represents_def)
  have "map view (dropWhile (re_expired now) rs) = us @ (addr, port, t, m) # vs'"
    by (simp add: view_dropWhile rs(2) k)
  then obtain rs1 r rs2 where r: "dropWhile (re_expired now) rs = rs1 @ r # rs2" "map view rs1 = us" "view r = (addr, port, t, m)"
    by (auto simp: map_eq_append_conv map_eq_Cons_conv)
  have p: "re_packet r = m" using r(3) by (simp add: view_def)
  have f: "\<forall>x \<in> set rs1. \<not> re_matches addr port i x" using first r(2) by (auto simp: view_simps)
  have h: "re_matches addr port i r" using i r(3) by (simp add: view_simps cached_matches_def)
  have "\<not> re_expired now r" using alive r(3) by (simp add: view_simps)
  with cache_get_found [OF rs(1) r(1) f h, of out] p obtain c' rest where
    g: "response_cache_get (Some c) now addr port i out =
        do { (msg, err) \<leftarrow> udp_msg_parse (cr_msg out) (m @ rest) (length m);
             Some (Some c', err, \<lparr>cr_msg = msg, cr_packet = m @ rest, cr_packet_size = length m\<rparr>) }" by auto
  from udp_msg_parse_complete [OF m(2) _ _ out, of "length m" "m @ rest" rest] m(1) obtain msg' where
    "udp_msg_parse (cr_msg out) (m @ rest) (length m) = Some (msg', AVS_OK)" "msg_is msg' hdr tok xs payload" by blast
  moreover have "length m \<le> 65535"
  proof -
    have "list_all response_ok rs" using rs(1) by (simp add: cache_inv_def buffer_holds_def)
    moreover have "r \<in> set rs" using r(1) by (metis in_set_conv_decomp set_dropWhileD)
    ultimately show ?thesis using p by (auto simp: list_all_iff response_ok_def)
  qed
  ultimately show ?thesis using g by simp
qed

lemma cached_response_sent:
  assumes pf: "platform_ok pf clk" and ctx: "ctx_ok pf clk ctx" and req: "code_is_request (hdr_code (msg_header msg))"
    and cur: "cur_exists (uc_current_request ctx)" and rc: "uc_response_cache ctx = Some c" "cache_represents c vs"
    and ep: "remote_endpoint pf ctx = Some (addr, port)" and now: "fst (pf_now pf (uc_world ctx)) = now"
    and k: "dropWhile (cached_expired now) vs = us @ (addr, port, t, m) # vs'"
    and alive: "\<not> cached_expired now (addr, port, t, m)" and i: "packet_id m = header_get_id (msg_header msg)"
    and first: "\<forall>v \<in> set us. \<not> cached_matches addr port (header_get_id (msg_header msg)) v"
    and m: "m = msg_bytes rhdr rtok rxs rpayload" "msg_ok rhdr rtok rxs rpayload"
  shows "\<exists>w err ctx'. try_send_cached_response pf ctx msg = Some (err, True, ctx') \<and> pf_send pf w m = (err, uc_world ctx')
    \<and> uc_unconfirmed ctx' = uc_unconfirmed ctx \<and> uc_stats ctx' = uc_stats ctx \<and> \<not> cur_exists (uc_current_request ctx')"
proof -
  obtain ctx1 where n: "ctx_now pf ctx = (now, ctx1)" using now by (cases "ctx_now pf ctx") (auto simp: ctx_now_def split: prod.splits)
  note q = ctx_now_ok [OF pf ctx_ok_inv [OF ctx] n]
  let ?out = "\<lparr>cr_msg = zero_msg, cr_packet = [], cr_packet_size = 0\<rparr>" and ?i = "header_get_id (msg_header msg)"
  from cached_response_parsed [OF rc(2) k alive i first m, of ?out] obtain c' r where
    g: "response_cache_get (Some c) now addr port ?i ?out = Some (Some c', AVS_OK, r)"
    "msg_is (cr_msg r) rhdr rtok rxs rpayload" "take (cr_packet_size r) (cr_packet r) = m" "length m \<le> 65535" by auto
  have "cache_ok (clk (uc_world ctx1) + lifetime_ns pf (uc_tx_params ctx1)) (Some c)" using q(1,7) rc(1) by (simp add: ctx_inv_def)
  from response_cache_get_keeps [OF this, of ?out now addr port ?i] g(1) have
    inv: "ctx_inv pf clk (ctx1\<lparr>uc_response_cache := Some c'\<rparr>)" "cr_packet_size r \<le> length (cr_packet r)"
    using q(1) by (auto simp: ctx_inv_def)
  let ?ctx3 = "ctx1\<lparr>uc_response_cache := Some c', uc_current_request := (uc_current_request ctx1)\<lparr>cur_exists := False\<rparr>\<rparr>"
  have inv3: "ctx_inv pf clk ?ctx3" using ctx_inv_request [OF inv(1), of False] by simp
  have h: "msg_holds (cr_msg r) rhdr rtok rxs rpayload" using g(2) m(2) by (auto simp: msg_ok_def intro: msg_is_holds)
  from send_serialized_ok [OF pf inv3 h _ inv(2)] g(4) m(1) obtain err ctx4 where
    s: "send_serialized_msg pf ?ctx3 (cr_msg r) (cr_packet r) (cr_packet_size r) = Some (err, ctx4)" "same_queue ?ctx3 ctx4" by blast
  from send_serialized_sends [OF s(1) inv(2)] g(3) obtain w where "pf_send pf w m = (err, uc_world ctx4)" by auto
  moreover have "try_send_cached_response pf ctx msg = Some (err, True, ctx4)"
    using req cur rc(1) ep n g(1) s(1) by (simp add: try_send_cached_response_def Let_def)
  ultimately show ?thesis using s(2) q(2) by (auto simp: same_queue_def)
qed

text \<open>C15: A request that arrives again while the response to it is in the cache is answered with the packet that was sent
  before, byte for byte. It is not handed to the upper layer, no request is left pending, the messages in flight
  stay as they are, and the retransmission is counted.\<close>

theorem duplicate_request_answered_from_cache:
  assumes "platform_ok pf clk" and "ctx_ok pf clk ctx" and "\<not> cur_exists (uc_current_request ctx)"
    and "uc_response_cache ctx = Some c" and "cache_represents c vs"
    and "pf_receive pf (uc_world ctx) buf = ((buf', l, AVS_OK), w)" and "take l buf' = msg_bytes hdr tok xs payload"
    and "msg_ok hdr tok xs payload" and "code_is_request (hdr_code hdr)"
    and "pf_remote_host pf w = Some addr" and "pf_remote_port pf w = Some port" and "fst (pf_now pf w) = now"
    and "dropWhile (cached_expired now) vs = us @ (addr, port, t, m) # vs'" and "\<not> cached_expired now (addr, port, t, m)"
    and "packet_id m = header_get_id hdr" and "\<forall>v \<in> set us. \<not> cached_matches addr port (header_get_id hdr) v"
    and "m = msg_bytes rhdr rtok rxs rpayload" and "msg_ok rhdr rtok rxs rpayload"
  shows "\<exists>err w' ctx'. receive_message up pf ctx buf = Some (err, buf', zero_borrowed_msg, ctx')
    \<and> pf_send pf w' m = (err, uc_world ctx') \<and> uc_unconfirmed ctx' = uc_unconfirmed ctx
    \<and> \<not> cur_exists (uc_current_request ctx')
    \<and> incoming_retransmissions_count (uc_stats ctx') = (incoming_retransmissions_count (uc_stats ctx) + 1) mod 2 ^ 32"
proof -
  note w = ctx_ok_world [OF assms(1,2,6)]
  from recv_msg_packet [OF assms(6,7,8) w(2)] obtain msg where
    m: "recv_msg pf ctx zero_msg buf = Some ((msg, buf', AVS_OK), ctx\<lparr>uc_world := w\<rparr>)" "msg_is msg hdr tok xs payload" "head_ok msg" by blast
  have hdr: "msg_header msg = hdr" using m(2) by (simp add: msg_is_def)
  have t: "token_ok (msg_token msg)" using m(3) by (simp add: head_ok_def)
  from store_request_ok [OF w(1) _ t] assms(3) obtain ctx1 where
    s: "store_request_id (ctx\<lparr>uc_world := w\<rparr>) msg = Some ctx1" "ctx_ok pf clk ctx1" "cur_exists (uc_current_request ctx1)" by auto
  have f: "uc_response_cache ctx1 = Some c" "uc_world ctx1 = w" "uc_unconfirmed ctx1 = uc_unconfirmed ctx" "uc_stats ctx1 = uc_stats ctx"
    using s(1) assms(3,4) by (auto simp: store_request_id_def)
  have ep: "remote_endpoint pf ctx1 = Some (addr, port)" using assms(10,11) f(2) by (simp add: remote_endpoint_def)
  from cached_response_sent [OF assms(1) s(2) _ s(3) f(1) assms(5) ep _ assms(13,14) _ _ assms(17,18), of msg] assms(9,12,15,16) f(2) hdr
  obtain w' err ctx' where r: "try_send_cached_response pf ctx1 msg = Some (err, True, ctx')" "pf_send pf w' m = (err, uc_world ctx')"
    "uc_unconfirmed ctx' = uc_unconfirmed ctx1" "uc_stats ctx' = uc_stats ctx1" "\<not> cur_exists (uc_current_request ctx')" by auto
  have "header_get_type hdr = CONFIRMABLE \<or> header_get_type hdr = NON_CONFIRMABLE"
    using request_type assms(8,9) by (auto simp: msg_ok_def)
  then have "receive_message up pf ctx buf = Some (err, buf', zero_borrowed_msg, count_incoming_retransmission ctx')"
    using s(1) assms(9) hdr r(1) by (auto simp: receive_message_def m(1) handle_msg_def handle_request_def)
  with r f show ?thesis by (auto simp: count_incoming_retransmission_def)
qed

text \<open>A cache with the response of \<open>content_header\<close> in it.\<close>

definition content_msg :: udp_msg where
  "content_msg = zero_msg\<lparr>msg_header := content_header,
     msg_token := \<lparr>token_size = 1, token_bytes = [0xAA, 0, 0, 0, 0, 0, 0, 0]\<rparr>, msg_payload := Some [7], msg_payload_size := 1\<rparr>"

lemma content_msg_holds: "msg_holds content_msg content_header [0xAA] [] [7]"
  by (simp add: msg_holds_def content_msg_def content_header_fields)

lemma content_cached:
  "\<exists>c. cache_represents c [(''10.0.0.1'', ''5683'', \<lparr>dur_seconds = 347, dur_nanoseconds = 0\<rparr>, [0x61, 0x45, 0, 5, 0xAA, 0xFF, 7])]"
proof -
  have "length (msg_bytes content_header [0xAA] [] [7]) \<le> 65535" by (simp add: content_bytes)
  from cache_add_represents [OF sample_cache_represents content_msg_holds this sample_times(1,2), of "Some 4096" "''10.0.0.1''" "''5683''"]
  show ?thesis
    by (auto simp: content_bytes sample_times(3) cache_add_spec_def packet_space_def padding_bytes_after_msg_def can_store_def
        sample_cache_def)
qed

lemma get_bytes: "msg_bytes (get_header i) [t] [] [] = [0x41, 1, 0, i, t]"
  by (simp add: msg_bytes_def payload_bytes_def header_bytes_def get_header_def)

theorem duplicate_request_answered_from_cache_witness:
  "\<exists>c ctx' out. receive_message logging_upper network_platform
      ((sample_ctx 1 [] \<lparr>net_time = 101, net_in = [[0x41, 1, 0, 5, 0xAA]], net_out = []\<rparr>)\<lparr>uc_response_cache := Some c\<rparr>) (replicate 16 0)
    = Some (AVS_OK, [0x41, 1, 0, 5, 0xAA] @ replicate 11 0, zero_borrowed_msg, ctx')
    \<and> net_out (uc_world ctx') = out @ [[0x61, 0x45, 0, 5, 0xAA, 0xFF, 7]]"
proof -
  let ?m = "[0x61, 0x45, 0, 5, 0xAA, 0xFF, 7] :: bytes" and ?t = "\<lparr>dur_seconds = 347, dur_nanoseconds = 0\<rparr>"
  let ?w = "\<lparr>net_time = 101, net_in = [[0x41, 1, 0, 5, 0xAA]], net_out = []\<rparr>" and ?w' = "\<lparr>net_time = 101, net_in = [], net_out = []\<rparr>"
  from content_cached obtain c where c: "cache_represents c [(''10.0.0.1'', ''5683'', ?t, ?m)]" by blast
  let ?c = "(sample_ctx 1 [] ?w)\<lparr>uc_response_cache := Some c\<rparr> :: (nat, network) udp_ctx"
  have "ctx_ok network_platform net_clock (sample_ctx 1 [] ?w)" by (rule sample_ctx_ok) (simp_all add: queue_ok_def)
  moreover have "cache_ok (net_clock ?w + lifetime_ns network_platform (sample_params 1)) (Some c)"
    using c network_params_ok(2) [of "sample_params 1"]
    by (auto simp: cached_ok_def net_clock_def lifetime_ns_def sample_params_def
      AVS_COAP_DEFAULT_UDP_TX_PARAMS_def ns_of_def intro!: exI [of _ "[(''10.0.0.1'', ''5683'', ?t, ?m)]"])
  ultimately have ok: "ctx_ok network_platform net_clock ?c"
    by (simp add: ctx_ok_def ctx_inv_def) (simp add: sample_ctx_def)
  have r: "pf_receive network_platform (uc_world ?c) (replicate 16 0) = (([0x41, 1, 0, 5, 0xAA] @ replicate 11 0, 5, AVS_OK), ?w')"
    by (simp add: sample_ctx_def network_receive drop_replicate)
  have g: "msg_ok (get_header 5) [0xAA] [] []" "take 5 ([0x41, 1, 0, 5, 0xAA] @ replicate 11 0) = msg_bytes (get_header 5) [0xAA] [] []"
    using get_unconfirmed_ok(1) [of ?t "0 :: nat" 5 "0xAA" False] get_bytes by (simp_all add: packet_ok_def)
  have req: "code_is_request (hdr_code (get_header 5))"
    by (simp add: get_header_fields code_is_request_def code_get_class_def code_get_detail_def field_get_def)
  have i: "packet_id ?m = header_get_id (get_header 5)"
    by (simp add: packet_id_def header_get_id_def get_header_def)
  have alive: "\<not> cached_expired (net_now ?w') (''10.0.0.1'', ''5683'', ?t, ?m)"
    by (simp add: cached_expired_def before_char net_now_def ns_of_def)
  have "\<not> cur_exists (uc_current_request ?c)" "uc_response_cache ?c = Some c" by (simp_all add: sample_ctx_def)
  moreover have "pf_remote_host network_platform ?w' = Some ''10.0.0.1''" "pf_remote_port network_platform ?w' = Some ''5683''"
    "fst (pf_now network_platform ?w') = net_now ?w'" by (simp_all add: network_platform_def)
  moreover have "dropWhile (cached_expired (net_now ?w')) [(''10.0.0.1'', ''5683'', ?t, ?m)] = [] @ (''10.0.0.1'', ''5683'', ?t, ?m) # []"
    using alive by simp
  moreover have "\<forall>v \<in> set []. \<not> cached_matches ''10.0.0.1'' ''5683'' (header_get_id (get_header 5)) v" by simp
  ultimately obtain err w' ctx' where e: "receive_message logging_upper network_platform ?c (replicate 16 0)
      = Some (err, [0x41, 1, 0, 5, 0xAA] @ replicate 11 0, zero_borrowed_msg, ctx')"
    "pf_send network_platform w' ?m = (err, uc_world ctx')"
    using duplicate_request_answered_from_cache [where up = logging_upper, OF network_platform_ok ok _ _ c r g(2,1) req _ _ _ _ alive i _
      content_bytes [symmetric] content_ok] by blast
  have "err = AVS_OK" "uc_world ctx' = w'\<lparr>net_out := net_out w' @ [?m]\<rparr>" using e(2) by (auto simp: network_platform_def)
  then have "net_out (uc_world ctx') = net_out w' @ [?m]" by simp
  with e(1) \<open>err = AVS_OK\<close> show ?thesis by blast
qed

section \<open>Empty messages\<close>

lemma empty_msg_is: "msg_is msg hdr [] [] [] \<Longrightarrow> msg_header msg = hdr"
  by (simp add: msg_is_def)

lemma empty_code_class: "\<not> code_is_request CODE_EMPTY" "\<not> code_is_response CODE_EMPTY"
  by (simp_all add: code_is_request_def code_is_response_def CODE_EMPTY_def coap_code_def code_is_success_def code_is_error_def
      code_is_client_error_def code_is_server_error_def code_get_class_def code_get_detail_def field_get_def)

lemma receive_empty:
  assumes pf: "platform_ok pf clk" and ctx: "ctx_ok pf clk ctx"
    and r: "pf_receive pf (uc_world ctx) buf = ((buf', l, AVS_OK), w)" and p: "take l buf' = header_bytes hdr"
    and ok: "msg_ok hdr [] [] []" and empty: "hdr_code hdr = CODE_EMPTY"
  shows "\<exists>msg. msg_header msg = hdr \<and> receive_message up pf ctx buf = do {
      (err, ctx') \<leftarrow> handle_empty up pf (ctx\<lparr>uc_world := w\<rparr>) msg;
      Some (err, buf', zero_borrowed_msg, ctx') }"
proof -
  have "take l buf' = msg_bytes hdr [] [] []" using p by (simp add: msg_bytes_def payload_bytes_def)
  from recv_msg_packet [OF r this ok ctx_ok_world(2) [OF pf ctx r]] obtain msg where
    "recv_msg pf ctx zero_msg buf = Some ((msg, buf', AVS_OK), ctx\<lparr>uc_world := w\<rparr>)" "msg_header msg = hdr"
    using empty_msg_is by blast
  then show ?thesis using empty by (intro exI [of _ msg]) (simp add: receive_message_def handle_msg_def empty_code_class case_prod_unfold)
qed

lemma find_by_id_first:
  assumes "ctx_ok pf clk ctx" "n < length (uc_unconfirmed ctx)"
    "\<forall>k \<le> n. header_get_id (msg_header (unc_msg (uc_unconfirmed ctx ! k))) = i \<longleftrightarrow> k = n"
  shows "find_unconfirmed_by_msg_id ctx i = Some (Some n)"
  using assms(2,3) by (subst find_by_msg_id_eq [OF assms(1)]) (auto simp: matches_def intro!: find_pos_first)

lemma notified_token:
  assumes "i \<notin> fst ` set nc"
  shows "notify_cache_get ((if b then tl nc else nc) @ [(i, t)]) i = Some t"
proof -
  have "i \<notin> fst ` set (if b then tl nc else nc)" using assms by (cases nc) auto
  then have "map_of (if b then tl nc else nc) i = None" by (simp only: map_of_eq_None_iff not_False_eq_True)
  then show ?thesis by (simp add: notify_cache_get_map_of map_add_def del: map_of_eq_None_iff)
qed

lemma sent_notification_noted:
  assumes "platform_ok pf clk" and ctx: "ctx_ok pf clk ctx" and h: "msg_holds msg hdr tok xs payload"
    and resp: "code_is_response (hdr_code hdr)" and type: "header_get_type hdr = CONFIRMABLE \<or> header_get_type hdr = NON_CONFIRMABLE"
    and obs: "6 \<in> fst ` set xs" and s: "send_serialized_msg pf ctx msg packet n = Some (err, ctx1)"
  shows "notify_cache_get (uc_notify_cache ctx1) (header_get_id hdr) = Some (msg_token msg)"
proof -
  have nc: "notify_ok (uc_notify_cache ctx)" using ctx by (simp add: ctx_ok_def ctx_inv_def)
  let ?i = "header_get_id hdr"
  let ?nc = "filter (\<lambda>e. fst e \<noteq> ?i) (uc_notify_cache ctx)"
  have hdr: "msg_header msg = hdr" "opts_rep (msg_options msg) xs" using h by (simp_all add: msg_holds_def)
  have "map_of xs 6 \<noteq> None" using obs by (simp only: map_of_eq_None_iff not_not)
  then have o: "option_exists (msg_options msg) 6 = Some True" using option_exists_correct [OF hdr(2), of 6] by simp
  have i: "?i \<notin> fst ` set ?nc" by auto
  note put = notify_cache_put_spec(1) [OF notify_ok_filter [OF nc] i, of "msg_token msg"]
  define nc2 where "nc2 = (if length ?nc = NOTIFY_CACHE_SIZE then tl ?nc else ?nc) @ [(?i, msg_token msg)]"
  have "\<exists>ctx2. try_cache_response pf ctx msg = Some ctx2 \<and> uc_notify_cache ctx1 = uc_notify_cache ctx2"
    using s by (auto simp: send_serialized_msg_def ctx_send_def Option.bind_eq_Some_conv case_prod_unfold)
  then obtain ctx2 where c2: "try_cache_response pf ctx msg = Some ctx2" "uc_notify_cache ctx1 = uc_notify_cache ctx2" by blast
  have "uc_notify_cache ctx2 = nc2"
    using c2(1) resp type
    by (auto simp: try_cache_response_def Let_def hdr(1) notify_cache_drop_spec [OF nc] o put nc2_def [symmetric] ctx_now_def
        Option.bind_eq_Some_conv split: option.splits prod.splits)
  then show ?thesis using c2(2) notified_token [OF i] by (simp add: nc2_def)
qed

text \<open>C37: A Reset that is received right after a notification was sent, and carries its message identifier while no
  unconfirmed message has that identifier, cancels the observation of the token of the notification, and does nothing
  else. (Of the notifications sent before, only the last few are noted, so a later Reset need not cancel.)\<close>

theorem reset_cancels_observation:
  assumes "platform_ok pf clk" and "ctx_ok pf clk ctx" and "msg_holds msg hdr tok xs payload"
    and "length (msg_bytes hdr tok xs payload) \<le> 65535" and "n \<le> length packet" and "code_is_response (hdr_code hdr)"
    and "header_get_type hdr = CONFIRMABLE \<or> header_get_type hdr = NON_CONFIRMABLE" and "6 \<in> fst ` set xs"
    and "send_serialized_msg pf ctx msg packet n = Some (err, ctx1)"
    and "pf_receive pf (uc_world ctx1) buf = ((buf', l, AVS_OK), w)" and "take l buf' = header_bytes rst"
    and "msg_ok rst [] [] []" and "hdr_code rst = CODE_EMPTY" and "header_get_type rst = RESET"
    and "header_get_id rst = header_get_id hdr"
    and "\<forall>u \<in> set (uc_unconfirmed ctx). header_get_id (msg_header (unc_msg u)) \<noteq> header_get_id hdr"
  shows "receive_message up pf ctx1 buf = do {
      ctx' \<leftarrow> up_observe_cancel up (msg_token msg) (ctx1\<lparr>uc_world := w\<rparr>);
      Some (AVS_OK, buf', zero_borrowed_msg, ctx') }"
proof -
  from send_serialized_ok [OF assms(1) ctx_ok_inv [OF assms(2)] assms(3,4,5)] assms(9)
  have c1: "ctx_inv pf clk ctx1" "same_queue ctx ctx1" by auto
  have ok1: "ctx_ok pf clk ctx1" by (rule same_queue_ok [OF c1(2,1) assms(2)])
  note w = ctx_ok_world(1) [OF assms(1) ok1 assms(10)]
  have "find_pos (matches EXCHANGE_ANY None (Some (header_get_id hdr))) (uc_unconfirmed ctx) = None"
    using assms(16) by (auto simp: find_pos_None matches_def)
  then have "find_unconfirmed_by_msg_id (ctx1\<lparr>uc_world := w\<rparr>) (header_get_id rst) = Some None"
    using find_by_msg_id_eq [OF w, of "header_get_id hdr"] c1(2) assms(15) by (simp add: same_queue_def)
  moreover have "notify_cache_get (uc_notify_cache (ctx1\<lparr>uc_world := w\<rparr>)) (header_get_id rst) = Some (msg_token msg)"
    using sent_notification_noted [OF assms(1,2,3,6-9)] assms(15) by simp
  ultimately show ?thesis
    using receive_empty [OF assms(1) ok1 assms(10-13), of up] assms(14) by (auto simp: handle_empty_def Let_def)
qed

text \<open>A non-confirmable notification with identifier 9, and callbacks that record the token of a cancelled observation.\<close>

definition notification_header :: udp_header where
  "notification_header = \<lparr>version_type_token_length = 0x51, hdr_code = 0x45, message_id = (0, 9)\<rparr>"

definition notification :: udp_msg where
  "notification = zero_msg\<lparr>msg_header := notification_header,
     msg_token := \<lparr>token_size = 1, token_bytes = [0xAA, 0, 0, 0, 0, 0, 0, 0]\<rparr>,
     msg_options := \<lparr>opts_mem = [0x61, 1], opts_size = 2, opts_capacity = 2, opts_allocated = False\<rparr>\<rparr>"

definition cancelling_upper :: "(nat, network) upper_layer" where
  "cancelling_upper = logging_upper\<lparr>up_observe_cancel := \<lambda>tok ctx.
     Some (ctx\<lparr>uc_world := (uc_world ctx)\<lparr>net_out := net_out (uc_world ctx) @ [take (token_size tok) (token_bytes tok)]\<rparr>\<rparr>)\<rparr>"

definition reset_header :: udp_header where
  "reset_header = \<lparr>version_type_token_length = 0x70, hdr_code = 0, message_id = (0, 9)\<rparr>"

theorem reset_cancels_observation_witness:
  "\<exists>ctx1 ctx'. send_serialized_msg network_platform (sample_ctx 1 [] \<lparr>net_time = 11, net_in = [[0x70, 0, 0, 9]], net_out = []\<rparr>)
      notification [0x51, 0x45, 0, 9, 0xAA, 0x61, 1] 7 = Some (AVS_OK, ctx1)
    \<and> receive_message cancelling_upper network_platform ctx1 (replicate 4 0) = Some (AVS_OK, [0x70, 0, 0, 9], zero_borrowed_msg, ctx')
    \<and> net_out (uc_world ctx') = [[0x51, 0x45, 0, 9, 0xAA, 0x61, 1], [0xAA]]"
proof -
  let ?w = "\<lparr>net_time = 11, net_in = [[0x70, 0, 0, 9]], net_out = []\<rparr>"
  let ?c = "sample_ctx 1 [] ?w :: (nat, network) udp_ctx" and ?p = "[0x51, 0x45, 0, 9, 0xAA, 0x61, 1] :: bytes"
  have ok: "ctx_ok network_platform net_clock ?c" by (rule sample_ctx_ok) (simp_all add: queue_ok_def)
  have hdr: "header_get_type notification_header = NON_CONFIRMABLE" "header_get_token_length notification_header = 1"
    "header_get_id notification_header = 9" "code_is_response (hdr_code notification_header)"
    by (simp_all add: notification_header_def header_get_type_def header_get_token_length_def header_get_id_def field_get_def Let_def
      code_is_response_def code_is_success_def code_get_class_def)
  have rst: "header_get_type reset_header = RESET" "header_get_id reset_header = 9" "hdr_code reset_header = CODE_EMPTY"
    "header_bytes reset_header = [0x70, 0, 0, 9]" "header_get_token_length reset_header = 0" "is_msg_header_valid reset_header"
    by (simp_all add: reset_header_def header_get_type_def header_get_id_def field_get_def Let_def CODE_EMPTY_def coap_code_def
      header_bytes_def header_get_token_length_def is_msg_header_valid_def header_get_version_def)
  have h: "msg_holds notification notification_header [0xAA] [(6, [1])] []"
    using hdr(2) by (simp add: msg_holds_def notification_def opts_rep_def enc_opt_def enc_hdr_def nib_def enc_ext_def byte_of_def)
      (simp add: zero_msg_def)
  have len: "length (msg_bytes notification_header [0xAA] [(6, [1])] []) \<le> 65535"
    by (simp add: msg_bytes_def payload_bytes_def enc_opt_def enc_hdr_def nib_def enc_ext_def header_bytes_def)
  have ok_rst: "msg_ok reset_header [] [] []"
    using rst empty_code_class by (simp add: msg_ok_def opts_ok_def non_repeatable_critical_options_def block1_more_with_block2_def
      payload_size_ok_def block_in_def split: option.split)
  have f: "msg_header notification = notification_header" "header_get_id (msg_header notification) = 9" using hdr by (simp_all add: notification_def)
  have "option_exists (msg_options notification) 6 = Some True"
    using h option_exists_correct [of "msg_options notification" "[(6, [1])]" 6] by (simp add: msg_holds_def)
  then have s: "send_serialized_msg network_platform ?c notification ?p 7 = Some (AVS_OK,
      ?c\<lparr>uc_notify_cache := [(9, msg_token notification)], uc_world := \<lparr>net_time = 11, net_in = [[0x70, 0, 0, 9]], net_out = [?p]\<rparr>\<rparr>)"
    using hdr by (simp add: send_serialized_msg_def try_cache_response_def f Let_def notify_cache_drop_def notify_cache_put_def
      ctx_send_def network_platform_def rd_bytes_def sample_ctx_def)
  let ?c1 = "?c\<lparr>uc_notify_cache := [(9, msg_token notification)], uc_world := \<lparr>net_time = 11, net_in = [[0x70, 0, 0, 9]], net_out = [?p]\<rparr>\<rparr>"
  let ?w1 = "\<lparr>net_time = 11, net_in = [], net_out = [?p]\<rparr>"
  have r: "pf_receive network_platform (uc_world ?c1) (replicate 4 0) = (([0x70, 0, 0, 9], 4, AVS_OK), ?w1)"
    by (simp add: network_receive drop_replicate)
  have "receive_message cancelling_upper network_platform ?c1 (replicate 4 0) = do {
      ctx' \<leftarrow> up_observe_cancel cancelling_upper (msg_token notification) (?c1\<lparr>uc_world := ?w1\<rparr>);
      Some (AVS_OK, [0x70, 0, 0, 9], zero_borrowed_msg, ctx') }"
    by (rule reset_cancels_observation [OF network_platform_ok ok h len _ hdr(4) _ _ s r _ ok_rst rst(3,1)])
      (use hdr rst in \<open>simp_all add: sample_ctx_def\<close>)
  with s show ?thesis by (simp add: cancelling_upper_def notification_def)
qed

section \<open>The size of payloads\<close>

text \<open>C38: The largest payload that is offered for a message is exact: with options and a token of the given size, a
  non-empty payload is not longer than it if and only if the packet fits both the MTU of the socket and the
  output buffer, and then it is serialized into the buffer.\<close>

theorem max_outgoing_payload_exact:
  assumes "msg_holds msg hdr tok xs payload" and "payload \<noteq> []" and "opts_size (msg_options msg) < 2 ^ 32"
    and "max_outgoing_payload_size pf ctx (length tok) (Some (msg_options msg)) = (n, ctx')"
  shows "(length payload \<le> n \<longleftrightarrow> length (msg_bytes hdr tok xs payload) \<le> min (uc_last_mtu ctx') (length (uc_out_buffer ctx')))
    \<and> (length payload \<le> n \<longrightarrow> udp_msg_serialize msg (uc_out_buffer ctx') (length (uc_out_buffer ctx'))
         = Some (msg_bytes hdr tok xs payload @ drop (length (msg_bytes hdr tok xs payload)) (uc_out_buffer ctx'),
                 length (msg_bytes hdr tok xs payload), AVS_OK))"
proof -
  let ?o = "opts_size (msg_options msg)" and ?k = "length (uc_out_buffer ctx')" and ?mtu = "uc_last_mtu ctx'"
  have "length tok \<le> 8" "opts_rep (msg_options msg) xs" using assms(1) by (auto simp: msg_holds_def dest: arg_cong [of _ tok length])
  then have t: "length tok \<le> 8" "length (enc_opts 0 xs) = ?o" by (auto simp: opts_rep_def)
  have len: "length (msg_bytes hdr tok xs payload) = 4 + length tok + ?o + 1 + length payload"
    using assms(2) t(2) by (simp add: msg_bytes_def payload_bytes_def)
  have "(4 + length tok + ?o + 1) mod 2 ^ 64 = 4 + length tok + ?o + 1" using t(1) assms(3) by (intro mod_less) simp
  then have n: "n = (if 4 + length tok + ?o + 1 > min ?mtu ?k then 0 else min ?mtu ?k - (4 + length tok + ?o + 1))"
    using assms(4) by (auto simp: max_outgoing_payload_size_def udp_max_payload_size_def Let_def)
  have "0 < length payload" using assms(2) by simp
  then have fits: "length payload \<le> n \<longleftrightarrow> length (msg_bytes hdr tok xs payload) \<le> min ?mtu ?k"
    unfolding len n by (auto simp del: length_greater_0_conv)
  from udp_msg_serialize_spec [OF assms(1) order_refl, of "uc_out_buffer ctx'"] fits show ?thesis by auto
qed

theorem max_outgoing_payload_exact_witness:
  "fst (max_outgoing_payload_size network_platform
     (sample_ctx 1 [] \<lparr>net_time = 11, net_in = [], net_out = []\<rparr> :: (nat, network) udp_ctx) 2
     (Some (msg_options sample_msg))) = 55
   \<and> length (msg_bytes sample_hdr [1, 2] [(11, [65])] [7, 8]) \<le> 64"
proof -
  let ?c = "sample_ctx 1 [] \<lparr>net_time = 11, net_in = [], net_out = []\<rparr> :: (nat, network) udp_ctx"
  have m: "max_outgoing_payload_size network_platform ?c (length [1, 2 :: byte]) (Some (msg_options sample_msg)) = (55, ?c)"
    by (simp add: max_outgoing_payload_size_def update_last_mtu_from_socket_def network_platform_def sample_ctx_def
        udp_max_payload_size_def sample_msg_def Let_def)
  from max_outgoing_payload_exact [OF sample_msg_holds _ _ m]
  have "length (msg_bytes sample_hdr [1, 2] [(11, [65])] [7, 8]) \<le> length (uc_out_buffer ?c)"
    by (simp add: sample_msg_def)
  moreover have "length (uc_out_buffer ?c) = 64" by (simp add: sample_ctx_def)
  moreover have "fst (max_outgoing_payload_size network_platform ?c 2 (Some (msg_options sample_msg))) = 55" using m by (simp add: numeral_2_eq_2)
  ultimately show ?thesis by simp
qed

end
