(* ===== verification/Coap_Udp_Ctx_Faults.thy ===== *)
theory Coap_Udp_Ctx_Faults
  imports Coap_Udp_Ctx_Requests
begin

text \<open>
  Two faults of the CoAP/UDP context, each with a concrete run: an acknowledgement that is received
  before the timer has filled a free slot makes an assertion fail, and a message whose first
  retransmission cannot be scheduled is accepted as sent.
\<close>

section \<open>Acknowledgements before the timer\<close>

text \<open>C39: An empty acknowledgement of a request that is received while a slot is free and a message is held, as it
  is the case between the end of an exchange and the next run of the timer, fails an assertion: the server that
  acknowledges one request right after it has answered another one stops the program.\<close>

theorem ack_before_timer_aborts:
  assumes "platform_ok pf clk" and "ctx_ok pf clk ctx" and "\<not> settled ctx"
    and "pf_receive pf (uc_world ctx) buf = ((buf', l, AVS_OK), w)" and "take l buf' = header_bytes hdr"
    and "msg_ok hdr [] [] []" and "hdr_code hdr = CODE_EMPTY" and "header_get_type hdr = ACKNOWLEDGEMENT"
    and "n < length (uc_unconfirmed ctx)" and "code_is_request (hdr_code (msg_header (unc_msg (uc_unconfirmed ctx ! n))))"
    and "monotonic_valid (unc_next_retransmit (uc_unconfirmed ctx ! n))"
    and "\<forall>k \<le> n. header_get_id (msg_header (unc_msg (uc_unconfirmed ctx ! k))) = header_get_id hdr \<longleftrightarrow> k = n"
  shows "receive_message up pf ctx buf = None"
proof -
  note w = ctx_ok_world(1) [OF assms(1,2,4)]
  have "find_unconfirmed_by_msg_id (ctx\<lparr>uc_world := w\<rparr>) (header_get_id hdr) = Some (Some n)"
    by (rule find_by_id_first [OF w]) (use assms(9,12) in simp_all)
  moreover have "ack_request up pf (ctx\<lparr>uc_world := w\<rparr>) n = None"
    using ack_request_result [OF assms(1) w, of n up] assms(3,9,11) by (simp add: settled_def)
  ultimately show ?thesis
    using receive_empty [OF assms(1,2,4,5,6,7), of up] assms(8,10) by (auto simp: handle_empty_def Let_def)
qed

text \<open>Three requests when two may be in flight; the first is answered and the second acknowledged in two datagrams
  that arrive together.\<close>

definition three_requests :: "nat unconfirmed list" where
  "three_requests = [get_unconfirmed 0 5 0xAA False \<lparr>dur_seconds = 10, dur_nanoseconds = 0\<rparr>,
     get_unconfirmed 0 6 0xBB False \<lparr>dur_seconds = 10, dur_nanoseconds = 0\<rparr>,
     get_unconfirmed 0 7 0xCC True \<lparr>dur_seconds = 9, dur_nanoseconds = 0\<rparr>]"

definition ack_header :: udp_header where
  "ack_header = \<lparr>version_type_token_length = 0x60, hdr_code = 0, message_id = (0, 6)\<rparr>"

lemma ack_header_fields:
  "header_get_type ack_header = ACKNOWLEDGEMENT" "header_get_id ack_header = 6" "hdr_code ack_header = CODE_EMPTY"
  "header_bytes ack_header = [0x60, 0, 0, 6]" "msg_ok ack_header [] [] []"
proof -
  show h: "header_get_type ack_header = ACKNOWLEDGEMENT" "header_get_id ack_header = 6" "hdr_code ack_header = CODE_EMPTY"
    "header_bytes ack_header = [0x60, 0, 0, 6]"
    by (simp_all add: ack_header_def header_get_type_def header_get_id_def field_get_def Let_def CODE_EMPTY_def coap_code_def header_bytes_def)
  have "\<not> code_is_request 0" using empty_code_class(1) by (simp add: CODE_EMPTY_def coap_code_def)
  then have "header_get_token_length ack_header = 0" "is_msg_header_valid ack_header"
    by (simp_all add: ack_header_def header_get_token_length_def field_get_def Let_def header_get_type_def CODE_EMPTY_def coap_code_def
      is_msg_header_valid_def header_get_version_def)
  moreover have "block_in [] b = None" for b by (simp add: block_in_def)
  ultimately show "msg_ok ack_header [] [] []" using h
    by (simp add: msg_ok_def opts_ok_def non_repeatable_critical_options_def block1_more_with_block2_def payload_size_ok_def split: option.split)
qed

lemma three_requests_ok: "queue_ok 2 three_requests"
  by (simp add: queue_ok_def three_requests_def queue_sorted_Cons get_unconfirmed_ok(2) unc_before_def)

lemma network_reschedule_world:
  assumes "reschedule_retransmission_job network_platform ctx = Some ctx'"
  shows "uc_world ctx' = uc_world ctx"
proof -
  have j: "uc_world c' = uc_world c" if "reschedule_retry_job network_platform c t = Some c'" for c c' :: "('a, network) udp_ctx" and t
    using that by (auto simp: reschedule_retry_job_def network_platform_def Option.bind_eq_Some_conv split: if_splits)
  have n: "ctx_now network_platform ctx = (net_now (uc_world ctx), ctx)" by (simp add: ctx_now_def network_platform_def)
  show ?thesis using assms j by (fastforce simp: reschedule_retransmission_job_def n split: list.splits if_splits)
qed

theorem ack_before_timer_aborts_witness:
  "\<exists>ctx' :: (nat, network) udp_ctx. receive_message logging_upper network_platform
      (sample_ctx 2 three_requests
         \<lparr>net_time = 11, net_in = [[0x61, 0x45, 0, 5, 0xAA, 0xFF, 7], [0x60, 0, 0, 6]], net_out = []\<rparr>) (replicate 16 0)
    = Some (AVS_OK, [0x61, 0x45, 0, 5, 0xAA, 0xFF, 7] @ replicate 9 0, zero_borrowed_msg, ctx')
    \<and> receive_message logging_upper network_platform ctx' ([0x61, 0x45, 0, 5, 0xAA, 0xFF, 7] @ replicate 9 0) = None"
proof -
  let ?w = "\<lparr>net_time = 11, net_in = [[0x61, 0x45, 0, 5, 0xAA, 0xFF, 7], [0x60, 0, 0, 6]], net_out = []\<rparr>"
  let ?w' = "\<lparr>net_time = 11, net_in = [[0x60, 0, 0, 6]], net_out = []\<rparr>"
  let ?p = "[0x61, 0x45, 0, 5, 0xAA, 0xFF, 7] :: bytes"
  let ?c = "sample_ctx 2 three_requests ?w"
  have q: "queue_ok 2 three_requests" by (rule three_requests_ok)
  have r: "pf_receive network_platform (uc_world ?c) (replicate 16 0) = ((?p @ replicate 9 0, 7, AVS_OK), ?w')"
    by (simp add: sample_ctx_def network_receive drop_replicate)
  have t: "take 7 (?p @ replicate 9 0) = msg_bytes content_header [0xAA] [] [7]" by (simp add: content_bytes)
  have n: "(0::nat) < length (uc_unconfirmed ?c)" "unc_handler (uc_unconfirmed ?c ! 0) = Some 0"
    "\<forall>k \<le> 0. answers content_header [0xAA] (uc_unconfirmed ?c ! k) \<longleftrightarrow> k = 0"
    by (simp_all add: sample_ctx_def three_requests_def answers_get)
  have ne: "header_get_type content_header \<noteq> CONFIRMABLE" by (simp add: content_header_fields(1))
  have c: "ctx_ok network_platform net_clock ?c" using sample_ctx_ok [OF _ q] by simp
  obtain msg where
    m: "receive_message logging_upper network_platform ?c (replicate 16 0) = do {
      (hr, ctx') \<leftarrow> up_send_result logging_upper 0
        (?c\<lparr>uc_world := ?w', uc_unconfirmed := take 0 (uc_unconfirmed ?c) @ drop (Suc 0) (uc_unconfirmed ?c)\<rparr>)
        RESULT_OK AVS_OK (Some (borrowed_msg_from_udp_msg msg));
      ctx' \<leftarrow> (if hr \<noteq> RESPONSE_ACCEPTED then Some (ctx_insert (uc_unconfirmed ?c ! 0) ctx')
              else reschedule_retransmission_job network_platform ctx');
      Some (AVS_OK, ?p @ replicate 9 0, zero_borrowed_msg, ctx') }"
    using response_delivered_at_once [OF network_platform_ok c r t content_ok content_header_fields(4) ne n, of logging_upper] by blast
  define c1 where "c1 = log_response (Some (borrowed_msg_from_udp_msg msg)) (sample_ctx 2 (tl three_requests) ?w')"
  have "queue_ok 2 (tl three_requests)"
    by (simp add: queue_ok_def three_requests_def queue_sorted_Cons get_unconfirmed_ok(2) unc_before_def)
  then have c1: "ctx_ok network_platform net_clock c1" "uc_unconfirmed c1 = tl three_requests" "tx_nstart (uc_tx_params c1) = 2"
    unfolding c1_def by (simp_all add: log_response_frame sample_ctx_ok) (simp_all add: sample_ctx_def sample_params_def)
  have w1: "net_in (uc_world c1) = [[0x60, 0, 0, 6]]" by (simp add: c1_def log_response_def sample_ctx_def split: option.split)
  from ctx_ok_resched [OF network_platform_ok c1(1)] obtain c2 where
    c2: "reschedule_retransmission_job network_platform c1 = Some c2" "ctx_ok network_platform net_clock c2" "same_queue c1 c2" by blast
  have u2: "uc_unconfirmed c2 = tl three_requests" "tx_nstart (uc_tx_params c2) = 2" using c2(3) c1 by (simp_all add: same_queue_def)
  have w2: "net_in (uc_world c2) = [[0x60, 0, 0, 6]]" using network_reschedule_world [OF c2(1)] w1 by simp
  have first: "receive_message logging_upper network_platform ?c (replicate 16 0) = Some (AVS_OK, ?p @ replicate 9 0, zero_borrowed_msg, c2)"
    using m c2(1) by (simp add: logging_upper_def c1_def sample_ctx_def three_requests_def)
  have r2: "pf_receive network_platform (uc_world c2) (?p @ replicate 9 0)
      = (([0x60, 0, 0, 6, 0xAA, 0xFF, 7] @ replicate 9 0, 4, AVS_OK), (uc_world c2)\<lparr>net_in := []\<rparr>)"
    using w2 by (simp add: network_platform_def net_receive_def)
  have s: "\<not> settled c2" using u2 by (simp add: settled_def three_requests_def)
  have k: "0 < length (uc_unconfirmed c2)" "code_is_request (hdr_code (msg_header (unc_msg (uc_unconfirmed c2 ! 0))))"
    "monotonic_valid (unc_next_retransmit (uc_unconfirmed c2 ! 0))"
    "\<forall>k \<le> 0. header_get_id (msg_header (unc_msg (uc_unconfirmed c2 ! k))) = header_get_id ack_header \<longleftrightarrow> k = 0"
    using u2(1) by (simp_all add: three_requests_def get_msg_def get_header_fields ack_header_fields(2)
      code_is_request_def code_get_class_def code_get_detail_def field_get_def monotonic_valid_def)
  have "receive_message logging_upper network_platform c2 (?p @ replicate 9 0) = None"
    by (rule ack_before_timer_aborts [OF network_platform_ok c2(2) s r2 _ ack_header_fields(5,3,1) k]) (simp add: ack_header_fields(4))
  with first show ?thesis by blast
qed

section \<open>Messages that cannot be scheduled\<close>

text \<open>C40: A message whose first retransmission time cannot be computed is accepted: it is transmitted once, success is
  reported, and it stays in the list with an invalid time and without a job of the scheduler, so that neither
  a retransmission nor a timeout follows. The check of \<open>enqueue_unconfirmed\<close> is meant to refuse it, but it looks
  at the time that the message had before.\<close>

theorem enqueue_invalid_time_accepted:
  assumes "platform_ok pf clk" and "ctx_inv pf clk ctx" and "uc_unconfirmed ctx = []" and "unconfirmed_ok u"
    and "monotonic_valid (unc_next_retransmit u)"
    and "get_first_retransmit_time pf ctx = Some (t, ctx1)" and "\<not> monotonic_valid t"
    and "send_serialized_msg pf ctx1 (unc_msg u) (unc_packet u) (unc_packet_size u) = Some (AVS_OK, ctx2)"
  shows "\<exists>ctx'. enqueue_unconfirmed pf ctx u = Some (AVS_OK, ctx')
    \<and> uc_unconfirmed ctx' = [u\<lparr>unc_hold := False, unc_next_retransmit := t\<rparr>] \<and> uc_sched ctx' = uc_sched ctx2"
proof -
  have n: "0 < tx_nstart (uc_tx_params ctx)" using assms(2) by (simp add: ctx_inv_def tx_params_ok_def)
  from first_retransmit_time_ok [OF assms(1,2)] assms(6) have c1: "ctx_inv pf clk ctx1" "same_queue ctx ctx1" by auto
  from send_packet_ok [OF assms(1) c1(1) assms(4)] assms(8) have c2: "ctx_inv pf clk ctx2" "same_queue ctx1 ctx2" by auto
  let ?v = "u\<lparr>unc_hold := False, unc_next_retransmit := t\<rparr>"
  have us: "uc_unconfirmed ctx2 = []" "tx_nstart (uc_tx_params ctx2) = tx_nstart (uc_tx_params ctx)"
    using c1(2) c2(2) assms(3) by (simp_all add: same_queue_def)
  from sched_time_total [of "uc_sched ctx2"] c2(1) obtain t0 where
    t0: "sched_time (uc_sched ctx2) (Some (uc_retry_job ctx2)) = Some t0" by (auto simp: ctx_inv_def)
  have "\<not> monotonic_before t0 t" using assms(7) by (simp add: before_char monotonic_valid_def)
  then have "\<exists>c. reschedule_retry_job pf (ctx_insert ?v ctx2) t = Some c \<and> uc_unconfirmed c = [?v] \<and> uc_sched c = uc_sched ctx2"
    using t0 assms(7) us(1)
    by (simp add: reschedule_retry_job_def ctx_insert_def sched_at_def case_prod_unfold Let_def)
  moreover have "\<not> current_nstart (ctx_insert ?v ctx2) < effective_nstart (ctx_insert ?v ctx2)"
    using us by (simp add: current_nstart_def effective_nstart_def ctx_insert_def)
  ultimately have "\<exists>c. reschedule_retransmission_job pf (ctx_insert ?v ctx2) = Some c \<and> uc_unconfirmed c = [?v] \<and> uc_sched c = uc_sched ctx2"
    using us(1) by (simp add: reschedule_retransmission_job_def ctx_insert_def)
  then show ?thesis using n assms(3,5,6,8) by (auto simp: enqueue_unconfirmed_def Let_def)
qed

text \<open>A platform whose random generator fails.\<close>

definition unlucky_platform :: "network platform" where
  "unlucky_platform = network_platform\<lparr>pf_random := \<lambda>w. (None, w)\<rparr>"

lemma unlucky_platform_ok: "platform_ok unlucky_platform net_clock"
  using network_platform_ok by (simp add: platform_ok_def unlucky_platform_def)

theorem enqueue_invalid_time_accepted_witness:
  "\<exists>ctx' :: (nat, network) udp_ctx. enqueue_unconfirmed unlucky_platform (sample_ctx 1 [] \<lparr>net_time = 11, net_in = [], net_out = []\<rparr>)
      (get_unconfirmed 0 5 0xAA False \<lparr>dur_seconds = 0, dur_nanoseconds = 0\<rparr>) = Some (AVS_OK, ctx')
    \<and> \<not> monotonic_valid (unc_next_retransmit (hd (uc_unconfirmed ctx'))) \<and> sched_jobs (uc_sched ctx') = []"
proof -
  let ?c = "sample_ctx 1 [] \<lparr>net_time = 11, net_in = [], net_out = []\<rparr> :: (nat, network) udp_ctx"
  let ?u = "get_unconfirmed 0 5 0xAA False \<lparr>dur_seconds = 0, dur_nanoseconds = 0\<rparr> :: nat unconfirmed"
  have inv: "ctx_inv unlucky_platform net_clock ?c"
    using sample_ctx_inv [of 1 "[] :: nat unconfirmed list"]
    by (simp add: ctx_inv_def queue_ok_def tx_params_ok_def unlucky_platform_def lifetime_ns_def)
  have u: "unconfirmed_ok ?u" by (rule get_unconfirmed_ok(2)) simp
  have t: "get_first_retransmit_time unlucky_platform ?c = Some (AVS_TIME_DURATION_INVALID, ?c)"
    by (simp add: get_first_retransmit_time_def initial_retry_state_def ctx_random_def unlucky_platform_def sample_ctx_def)
  let ?c2 = "?c\<lparr>uc_world := \<lparr>net_time = 11, net_in = [], net_out = [[0x41, 1, 0, 5, 0xAA]]\<rparr>\<rparr>"
  have "\<not> code_is_response 1" by (simp add: code_is_response_def code_is_success_def code_is_error_def
      code_is_client_error_def code_is_server_error_def code_get_class_def field_get_def)
  then have "send_serialized_msg unlucky_platform ?c (unc_msg ?u) (unc_packet ?u) (unc_packet_size ?u) = Some (AVS_OK, ?c2)"
    by (simp add: send_serialized_msg_def try_cache_response_def get_msg_def get_header_fields sample_ctx_def notify_cache_drop_def
        get_unconfirmed_def ctx_send_def unlucky_platform_def network_platform_def rd_bytes_def find_pos_def)
  from enqueue_invalid_time_accepted [OF unlucky_platform_ok inv _ u _ t _ this] show ?thesis
    by (auto simp: monotonic_valid_def sample_ctx_def)
qed

end
