(* ===== verification/Coap_Udp_Ctx_Backoff.thy ===== *)
theory Coap_Udp_Ctx_Backoff
  imports Coap_Udp_Ctx_Requests
begin

text \<open>
  Retransmission with exponential backoff. A message that no one answers is sent again each time
  the timer finds it due, after a delay that doubles from one retransmission to the next; after the
  last one its handler learns of the timeout. An inductive relation describes the time in which
  nothing but the timer happens.
\<close>

section \<open>Arithmetic of delays\<close>






section \<open>One retransmission\<close>



section \<open>Runs of the timer\<close>























end
