(* ===== verification/Coap_Udp_Ctx_Reach.thy ===== *)
theory Coap_Udp_Ctx_Reach
  imports Coap_Udp_Ctx_Backoff
begin

text \<open>
  The contexts that a program can reach: those that come from creation by sending, aborting,
  receiving, running the timer, dropping a request, changing the incoming MTU, and the passing of time.
  Every one of them keeps the order of its messages and the limit on simultaneous interactions.
\<close>

section \<open>Creation\<close>

lemma created_ok:
  assumes c: "udp_ctx_create pf w sched job tx in_cap out_buf cache = Some (Some ctx, w')"
    and pf: "platform_ok pf clk" and tx: "tx_params_ok pf (uc_tx_params ctx)" and s: "sched_ok sched" "sched_handles sched job = None"
    and cache: "cache_ok (clk w + lifetime_ns pf (uc_tx_params ctx)) cache" and out: "length out_buf \<le> 65535"
  shows "ctx_ok pf clk ctx" "uc_unconfirmed ctx = []"
proof -
  obtain r w1 where r: "pf_random pf w = (r, w1)" by (cases "pf_random pf w")
  obtain ok w2 where a: "pf_alloc pf w1 = (ok, w2)" by (cases "pf_alloc pf w1")
  have mono: "clk w \<le> clk w2" using platform_okD(2) [OF pf r] platform_okD(3) [OF pf a] by linarith
  have h: "set_handle job None sched = sched" using s(2) by (simp add: set_handle_def fun_upd_idem)
  have t: "token_ok (msg_token zero_msg)" by simp
  have f: "uc_unconfirmed ctx = []" "uc_notify_cache ctx = []" "uc_response_cache ctx = cache" "uc_sched ctx = sched" "uc_world ctx = w2"
    "uc_out_buffer ctx = out_buf" "uc_last_msg_id ctx < 2 ^ 16" "cur_msg_id (uc_current_request ctx) = 0"
    "cur_token (uc_current_request ctx) = msg_token zero_msg" "\<not> uc_out_acquired ctx"
    using c r a h by (auto simp: udp_ctx_create_def Option.bind_eq_Some_conv split: if_splits option.splits bool.splits)
  have "cache_ok (clk w2 + lifetime_ns pf (uc_tx_params ctx)) cache" by (rule cache_ok_mono [OF cache]) (use mono in simp)
  with f tx s(1) out t show "ctx_ok pf clk ctx"
    by (simp add: ctx_ok_def ctx_inv_def queue_ok_def notify_ok_def)
  show "uc_unconfirmed ctx = []" by (rule f(1))
qed

section \<open>Reachable contexts\<close>

inductive reachable_ctx :: "('w \<Rightarrow> int) \<Rightarrow> ('h, 'w) upper_layer \<Rightarrow> 'w platform \<Rightarrow> ('h, 'w) udp_ctx \<Rightarrow> bool"
  for clk up pf where
    create: "udp_ctx_create pf w sched job tx in_cap out_buf cache = Some (Some ctx, w') \<Longrightarrow> tx_params_ok pf (uc_tx_params ctx)
      \<Longrightarrow> sched_ok sched \<Longrightarrow> sched_handles sched job = None \<Longrightarrow> cache_ok (clk w + lifetime_ns pf (uc_tx_params ctx)) cache
      \<Longrightarrow> length out_buf \<le> 65535 \<Longrightarrow> reachable_ctx clk up pf ctx"
  | send: "reachable_ctx clk up pf ctx \<Longrightarrow> borrowed_ok m tok xs payload
      \<Longrightarrow> send_message pf ctx m handler = Some (err, ctx') \<Longrightarrow> reachable_ctx clk up pf ctx'"
  | abort: "reachable_ctx clk up pf ctx \<Longrightarrow> token_ok tok \<Longrightarrow> (r = RESULT_FAIL \<longleftrightarrow> e \<noteq> AVS_OK)
      \<Longrightarrow> abort_delivery up pf ctx d tok r e = Some ctx' \<Longrightarrow> reachable_ctx clk up pf ctx'"
  | ignore: "reachable_ctx clk up pf ctx \<Longrightarrow> ignore_current_request ctx tok = Some ctx' \<Longrightarrow> reachable_ctx clk up pf ctx'"
  | timer: "reachable_ctx clk up pf ctx \<Longrightarrow> on_timeout up pf ctx = Some (t, ctx') \<Longrightarrow> reachable_ctx clk up pf ctx'"
  | receive: "reachable_ctx clk up pf ctx
      \<Longrightarrow> receive_message up pf ctx buf = Some (err, buf', request, ctx') \<Longrightarrow> reachable_ctx clk up pf ctx'"
  | mtu: "reachable_ctx clk up pf ctx \<Longrightarrow> reachable_ctx clk up pf (set_forced_incoming_mtu ctx n)"
  | wait: "reachable_ctx clk up pf ctx \<Longrightarrow> clk (uc_world ctx) \<le> clk w \<Longrightarrow> reachable_ctx clk up pf (ctx\<lparr>uc_world := w\<rparr>)"

lemma ignore_ok: "ctx_ok pf clk ctx \<Longrightarrow> ignore_current_request ctx tok = Some ctx' \<Longrightarrow> ctx_ok pf clk ctx'"
  by (auto simp: ignore_current_request_def Option.bind_eq_Some_conv c_assert_def ctx_ok_def ctx_inv_def split: if_splits)

lemma mtu_ok: "ctx_ok pf clk ctx \<Longrightarrow> ctx_ok pf clk (set_forced_incoming_mtu ctx n)"
  by (simp add: set_forced_incoming_mtu_def ctx_ok_def ctx_inv_def)

lemma reachable_ok:
  assumes "reachable_ctx clk up pf ctx" and pf: "platform_ok pf clk" and up: "upper_ok pf clk up" "upper_quiet up"
  shows "ctx_ok pf clk ctx"
  using assms(1)
proof induction
  case (create w sched job tx in_cap out_buf cache ctx w')
  show ?case by (rule created_ok(1) [OF create(1) pf create(2-6)])
next
  case (send ctx m tok xs payload handler err ctx')
  from send_ok [OF pf send.IH send.hyps(2), of handler] send.hyps(3) show ?case by auto
next
  case (abort ctx tok r e d ctx')
  from abort_ok [OF pf up(1) abort.IH abort.hyps(2,3), of d] abort.hyps(4) show ?case by auto
next
  case (ignore ctx tok ctx')
  from ignore_ok [OF ignore.IH ignore.hyps(2)] show ?case .
next
  case (timer ctx t ctx')
  from on_timeout_ok [OF pf up timer.IH] timer.hyps(2) show ?case by auto
next
  case (receive ctx buf err buf' request ctx')
  from receive_ok [OF pf up(1) receive.IH, of buf] receive.hyps(2) show ?case by auto
next
  case (mtu ctx n)
  from mtu_ok [OF mtu.IH] show ?case .
next
  case (wait ctx w)
  from ctx_inv_world [OF ctx_ok_inv [OF wait.IH] wait.hyps(2)] wait.IH show ?case by (simp add: ctx_ok_def)
qed

text \<open>C14: In every context that can be reached, by any operation, any datagram and any firing of the timer in any
  order, the messages in flight come first, sorted by the time of their next retransmission, at most NSTART of them,
  then the held ones; each has a handler, its packet is the encoding of its message; and the identifiers of the noted
  notifications are distinct. The callbacks return and leave contexts well-formed, and do not send again when a
  message fails or is cancelled.\<close>

theorem reachable_ctx_invariant:
  assumes "reachable_ctx clk up pf ctx" and "platform_ok pf clk" and "upper_ok pf clk up" and "upper_quiet up"
  shows "uc_unconfirmed ctx = started (uc_unconfirmed ctx) @ held (uc_unconfirmed ctx)
    \<and> sorted_wrt (\<lambda>a b. \<not> monotonic_before (unc_next_retransmit b) (unc_next_retransmit a)) (started (uc_unconfirmed ctx))
    \<and> length (started (uc_unconfirmed ctx)) \<le> tx_nstart (uc_tx_params ctx)
    \<and> (\<forall>u \<in> set (uc_unconfirmed ctx). unconfirmed_ok u) \<and> distinct (map fst (uc_notify_cache ctx))"
proof -
  from reachable_ok [OF assms] have q: "queue_ok (tx_nstart (uc_tx_params ctx)) (uc_unconfirmed ctx)" "notify_ok (uc_notify_cache ctx)"
    by (simp_all add: ctx_ok_def ctx_inv_def)
  then have s: "queue_sorted (uc_unconfirmed ctx)" by (simp add: queue_ok_def)
  have "sorted_wrt (\<lambda>a b. \<not> unc_before b a) (started (uc_unconfirmed ctx))"
    using s by (simp add: queue_sorted_def started_def sorted_wrt_filter)
  then have "sorted_wrt (\<lambda>a b. \<not> monotonic_before (unc_next_retransmit b) (unc_next_retransmit a)) (started (uc_unconfirmed ctx))"
    by (rule sorted_wrt_mono_rel [rotated]) (auto simp: unc_before_def started_def)
  with q sorted_split [OF s] show ?thesis by (simp add: queue_ok_def notify_ok_def)
qed

theorem reachable_ctx_invariant_witness:
  "\<exists>ctx err ctx'. udp_ctx_create network_platform \<lparr>net_time = 11, net_in = [], net_out = []\<rparr>
      \<lparr>sched_jobs = [], sched_shutting_down = False, sched_handles = \<lambda>h. None\<rparr> 1 None 64 (replicate 64 0) None
    = Some (Some ctx, \<lparr>net_time = 11, net_in = [], net_out = []\<rparr>)
    \<and> send_message network_platform ctx next_request (Some (0 :: nat)) = Some (err, ctx')
    \<and> length (started (uc_unconfirmed ctx')) \<le> tx_nstart (uc_tx_params ctx')"
proof -
  let ?w = "\<lparr>net_time = 11, net_in = [], net_out = []\<rparr>" and ?s = "\<lparr>sched_jobs = [], sched_shutting_down = False, sched_handles = \<lambda>h. None\<rparr>"
  obtain ctx :: "(nat, network) udp_ctx" where c: "udp_ctx_create network_platform ?w ?s 1 None 64 (replicate 64 0) None = Some (Some ctx, ?w)"
    "uc_tx_params ctx = AVS_COAP_DEFAULT_UDP_TX_PARAMS"
    by (simp add: udp_ctx_create_def network_platform_def)
  have tx: "tx_params_ok network_platform (uc_tx_params ctx)"
    unfolding c(2) by (rule network_params_ok(1)) (simp_all add: AVS_COAP_DEFAULT_UDP_TX_PARAMS_def)
  have "sched_ok ?s" by (simp add: sched_ok_def jobs_ok_def handles_ok_def)
  from reachable_ctx.create [OF c(1) tx this] have r: "reachable_ctx net_clock continuing_upper network_platform ctx" by simp
  from send_ok [OF network_platform_ok reachable_ok [OF r network_platform_ok continuing_upper_ok] next_request_ok, of "Some 0"]
  obtain err ctx' where s: "send_message network_platform ctx next_request (Some 0) = Some (err, ctx')" by blast
  from reachable_ctx_invariant [OF reachable_ctx.send [OF r next_request_ok s] network_platform_ok continuing_upper_ok]
  have "length (started (uc_unconfirmed ctx')) \<le> tx_nstart (uc_tx_params ctx')" by blast
  with c(1) s show ?thesis by blast
qed

end
