(* ===== verification/Dm_Execute.thy ===== *)
theory Dm_Execute
  imports Avs_Stream
begin

text \<open>
  The arguments of an Execute operation (\<open>anjay_dm_execute.c\<close>): a state machine that reads them from
  the payload one character at a time, as the handler of the Resource asks for them.
\<close>

section \<open>State\<close>

abbreviation (input) EOF :: int where "EOF \<equiv> - 1"
abbreviation (input) EXECUTE_GET_ARG_END :: int where "EXECUTE_GET_ARG_END \<equiv> 1"
abbreviation (input) BUFFER_TOO_SHORT :: int where "BUFFER_TOO_SHORT \<equiv> 1"
abbreviation (input) ERR_BAD_REQUEST :: int where "ERR_BAD_REQUEST \<equiv> - 128"

datatype execute_state = STATE_READ_ARGUMENT | STATE_READ_VALUE | STATE_FINISHED_READING_ARGUMENT
  | STATE_EOF | STATE_ERROR

record 's execute_ctx =
  ex_stream :: 's
  ex_state :: execute_state
  ex_arg :: int
  ex_has_value :: bool

definition execute_ctx_create :: "bool \<Rightarrow> 's \<Rightarrow> 's execute_ctx option" where
  "execute_ctx_create calloc_ok payload_stream =
     (if calloc_ok then Some \<lparr>ex_stream = payload_stream, ex_state = STATE_READ_ARGUMENT, ex_arg = - 1, ex_has_value = False\<rparr>
      else None)"

section \<open>Characters\<close>

text \<open>
  Whether \<open>char\<close> is signed depends on the platform. The operations take that as their first argument
  and the stream operations as the second.
\<close>

definition char_value :: "bool \<Rightarrow> byte \<Rightarrow> int" where
  "char_value sc b = (if sc then sint b else uint b)"

definition get_next_char :: "bool \<Rightarrow> 's stream_vtable \<Rightarrow> 's execute_ctx \<Rightarrow> ('s execute_ctx \<times> int) option" where
  "get_next_char sc vt ctx = do {
     (s, err, bs) \<leftarrow> stream_read_reliably vt (ex_stream ctx) 1;
     let ctx = ctx\<lparr>ex_stream := s\<rparr>;
     if err = AVS_OK then do { b \<leftarrow> rd8 bs 0; Some (ctx, char_value sc b) }
     else Some (ctx, EOF) }"

definition peek_next_char :: "bool \<Rightarrow> 's stream_vtable \<Rightarrow> 's execute_ctx \<Rightarrow> int option" where
  "peek_next_char sc vt ctx = do {
     (err, b) \<leftarrow> stream_peek vt (ex_stream ctx) 0;
     if err = AVS_OK then do { b \<leftarrow> b; Some (char_value sc b) }
     else Some EOF }"

definition is_arg_separator :: "int \<Rightarrow> bool" where "is_arg_separator ch \<longleftrightarrow> ch = 44"
definition is_value_delimiter :: "int \<Rightarrow> bool" where "is_value_delimiter ch \<longleftrightarrow> ch = 39"
definition is_value :: "int \<Rightarrow> bool" where
  "is_value ch \<longleftrightarrow> ch = 33 \<or> 0x23 \<le> ch \<and> ch \<le> 0x26 \<or> 0x28 \<le> ch \<and> ch \<le> 0x5B \<or> 0x5D \<le> ch \<and> ch \<le> 0x7E"
definition is_value_assignment :: "int \<Rightarrow> bool" where "is_value_assignment ch \<longleftrightarrow> ch = 61"

text \<open>\<open>isdigit\<close> of the C library.\<close>

definition is_digit :: "int \<Rightarrow> bool" where "is_digit ch \<longleftrightarrow> 48 \<le> ch \<and> ch \<le> 57"

section \<open>The state machine\<close>

definition expect_separator_or_eof :: "int \<Rightarrow> execute_state" where
  "expect_separator_or_eof ch =
     (if is_arg_separator ch then STATE_FINISHED_READING_ARGUMENT
      else if ch = EOF then STATE_EOF
      else STATE_ERROR)"

definition state_read_value ::
  "bool \<Rightarrow> 's stream_vtable \<Rightarrow> 's execute_ctx \<Rightarrow> int \<Rightarrow> ('s execute_ctx \<times> execute_state) option" where
  "state_read_value sc vt ctx ch =
     (if is_value ch then Some (ctx, STATE_READ_VALUE)
      else if is_value_delimiter ch then do {
        (ctx, ch) \<leftarrow> get_next_char sc vt ctx;
        Some (ctx, expect_separator_or_eof ch) }
      else Some (ctx, STATE_ERROR))"

definition expect_value :: "int \<Rightarrow> execute_state" where
  "expect_value ch = (if is_value_delimiter ch then STATE_READ_VALUE else STATE_ERROR)"

definition expect_separator_or_assignment_or_eof ::
  "bool \<Rightarrow> 's stream_vtable \<Rightarrow> 's execute_ctx \<Rightarrow> int \<Rightarrow> ('s execute_ctx \<times> execute_state) option" where
  "expect_separator_or_assignment_or_eof sc vt ctx ch =
     (if is_arg_separator ch then Some (ctx\<lparr>ex_has_value := False\<rparr>, STATE_FINISHED_READING_ARGUMENT)
      else if is_value_assignment ch then do {
        let ctx = ctx\<lparr>ex_has_value := True\<rparr>;
        (ctx, ch) \<leftarrow> get_next_char sc vt ctx;
        Some (ctx, expect_value ch) }
      else if ch = EOF then Some (ctx, STATE_EOF)
      else Some (ctx, STATE_ERROR))"

definition state_read_argument ::
  "bool \<Rightarrow> 's stream_vtable \<Rightarrow> 's execute_ctx \<Rightarrow> int \<Rightarrow> ('s execute_ctx \<times> execute_state) option" where
  "state_read_argument sc vt ctx ch = do {
     c_assert (ch = EOF \<or> 0 \<le> ch \<and> ch \<le> 255);
     if is_digit ch then do {
       let ctx = ctx\<lparr>ex_arg := ch - 48\<rparr>;
       (ctx, ch) \<leftarrow> get_next_char sc vt ctx;
       expect_separator_or_assignment_or_eof sc vt ctx ch }
     else if ch = EOF then Some (ctx, STATE_EOF)
     else Some (ctx, STATE_ERROR) }"

partial_function (option) read_argument_loop ::
  "bool \<Rightarrow> 's stream_vtable \<Rightarrow> 's execute_ctx \<Rightarrow> int \<Rightarrow> 's execute_ctx option" where
  "read_argument_loop sc vt ctx next_char = do {
     (ctx, st) \<leftarrow> state_read_argument sc vt ctx next_char;
     let ctx = ctx\<lparr>ex_state := st\<rparr>;
     if ex_state ctx \<noteq> STATE_READ_ARGUMENT then Some ctx
     else do {
       (ctx, next_char) \<leftarrow> get_next_char sc vt ctx;
       read_argument_loop sc vt ctx next_char } }"

definition try_reading_next_arg ::
  "bool \<Rightarrow> 's stream_vtable \<Rightarrow> 's execute_ctx \<Rightarrow> ('s execute_ctx \<times> int) option" where
  "try_reading_next_arg sc vt ctx =
     (if ex_state ctx = STATE_ERROR then Some (ctx, - 1)
      else do {
        let ctx = ctx\<lparr>ex_arg := - 1, ex_has_value := False\<rparr>;
        (ctx, next_char) \<leftarrow> get_next_char sc vt ctx;
        if ex_state ctx = STATE_FINISHED_READING_ARGUMENT \<and> next_char = EOF then Some (ctx, - 1)
        else do {
          ctx \<leftarrow> read_argument_loop sc vt ctx next_char;
          Some (ctx, if ex_arg ctx = - 1 \<and> ex_state ctx = STATE_EOF then EXECUTE_GET_ARG_END
                     else if ex_arg ctx = - 1 \<or> ex_state ctx = STATE_ERROR then - 1
                     else 0) } })"

section \<open>Operations\<close>

text \<open>The loop that fills the buffer: the characters so far and whether the value is finished.\<close>

partial_function (option) value_loop ::
  "bool \<Rightarrow> 's stream_vtable \<Rightarrow> 's execute_ctx \<Rightarrow> nat \<Rightarrow> bytes \<Rightarrow> bool \<Rightarrow> ('s execute_ctx \<times> bytes \<times> bool) option" where
  "value_loop sc vt ctx buf_size out value_finished =
     (if length out < buf_size - 1 then do {
        (ctx, ch) \<leftarrow> get_next_char sc vt ctx;
        (ctx, st) \<leftarrow> state_read_value sc vt ctx ch;
        let ctx = ctx\<lparr>ex_state := st\<rparr>;
        if ex_state ctx = STATE_READ_VALUE then do {
          next_char \<leftarrow> peek_next_char sc vt ctx;
          value_loop sc vt ctx buf_size (out @ [word_of_int ch]) (is_value_delimiter next_char) }
        else Some (ctx, out, True) }
      else Some (ctx, out, value_finished))"

text \<open>
  The result comes with the characters in the buffer before the terminating zero, which are those
  counted by \<open>out_bytes_read\<close>. A missing buffer is an argument of its own.
\<close>

definition execute_get_arg_value ::
  "bool \<Rightarrow> 's stream_vtable \<Rightarrow> 's execute_ctx \<Rightarrow> bool \<Rightarrow> nat \<Rightarrow> ('s execute_ctx \<times> int \<times> bytes) option" where
  "execute_get_arg_value sc vt ctx buf_null buf_size =
     (if ex_state ctx = STATE_READ_VALUE \<and> (buf_size < 2 \<or> buf_null) then Some (ctx, - 1, [])
      else do {
        (ctx, out, value_finished) \<leftarrow>
          (if ex_state ctx = STATE_READ_VALUE then value_loop sc vt ctx buf_size [] True
           else Some (ctx, [], True));
        c_assert (\<not> buf_null \<and> length out < buf_size);
        Some (ctx, if ex_state ctx = STATE_ERROR then ERR_BAD_REQUEST
                   else if value_finished then 0
                   else BUFFER_TOO_SHORT, out) })"

partial_function (option) skip_value_loop ::
  "bool \<Rightarrow> 's stream_vtable \<Rightarrow> 's execute_ctx \<Rightarrow> ('s execute_ctx \<times> int) option" where
  "skip_value_loop sc vt ctx = do {
     (ctx, ret, _) \<leftarrow> execute_get_arg_value sc vt ctx False 64;
     if ret = BUFFER_TOO_SHORT then skip_value_loop sc vt ctx else Some (ctx, ret) }"

definition skip_value :: "bool \<Rightarrow> 's stream_vtable \<Rightarrow> 's execute_ctx \<Rightarrow> ('s execute_ctx \<times> int) option" where
  "skip_value sc vt ctx =
     (if ex_state ctx = STATE_READ_VALUE then skip_value_loop sc vt ctx else Some (ctx, 0))"

text \<open>The last component is what is assigned to \<open>out_arg\<close> and \<open>out_has_value\<close>, if anything is.\<close>

definition execute_get_next_arg ::
  "bool \<Rightarrow> 's stream_vtable \<Rightarrow> 's execute_ctx \<Rightarrow> ('s execute_ctx \<times> int \<times> (int \<times> bool) option) option" where
  "execute_get_next_arg sc vt ctx = do {
     (ctx, ret) \<leftarrow> skip_value sc vt ctx;
     if ret \<noteq> 0 then Some (ctx, ERR_BAD_REQUEST, None)
     else if ex_state ctx = STATE_EOF then Some (ctx, EXECUTE_GET_ARG_END, Some (- 1, False))
     else do {
       (ctx, result) \<leftarrow> try_reading_next_arg sc vt ctx;
       if result < 0 then Some (ctx, ERR_BAD_REQUEST, None)
       else Some (ctx, result, Some (ex_arg ctx, ex_has_value ctx)) } }"

section \<open>The grammar\<close>

text \<open>An argument is a digit, with an optional value in quotes; arguments are separated by commas.\<close>

type_synonym exec_arg = "nat \<times> bytes option"

definition value_char :: "byte \<Rightarrow> bool" where
  "value_char b \<longleftrightarrow> is_value (uint b)"

fun arg_bytes :: "exec_arg \<Rightarrow> bytes" where
  "arg_bytes (d, None) = [byte_of (48 + d)]"
| "arg_bytes (d, Some v) = byte_of (48 + d) # 61 # 39 # v @ [39]"

fun args_bytes :: "exec_arg list \<Rightarrow> bytes" where
  "args_bytes [] = []"
| "args_bytes [a] = arg_bytes a"
| "args_bytes (a # b # as) = arg_bytes a @ 44 # args_bytes (b # as)"

definition arg_ok :: "exec_arg \<Rightarrow> bool" where
  "arg_ok a \<longleftrightarrow> fst a < 10 \<and> (\<forall>v. snd a = Some v \<longrightarrow> list_all value_char v)"

section \<open>A direct parser\<close>

text \<open>What follows the characters of a value: the state after them and what is left to read.\<close>

fun end_state :: "bytes \<Rightarrow> execute_state" where
  "end_state [] = STATE_ERROR"
| "end_state [x] = (if x = 39 then STATE_EOF else STATE_ERROR)"
| "end_state (x # y # w) = (if x = 39 \<and> y = 44 then STATE_FINISHED_READING_ARGUMENT else STATE_ERROR)"

definition end_rest :: "bytes \<Rightarrow> bytes" where
  "end_rest w = (if w \<noteq> [] \<and> hd w = 39 then drop 2 w else drop 1 w)"

definition value_of :: "bytes \<Rightarrow> bytes" where "value_of bs = takeWhile value_char bs"
definition value_end :: "bytes \<Rightarrow> bytes" where "value_end bs = dropWhile value_char bs"

lemma value_split: "value_of bs @ value_end bs = bs"
  by (simp add: value_of_def value_end_def)

lemma length_value_end: "length (value_end bs) \<le> length bs"
  by (simp add: value_end_def length_dropWhile_le)

lemma length_end_rest: "length (end_rest bs) \<le> length bs"
  by (simp add: end_rest_def)

definition digit_byte :: "byte \<Rightarrow> bool" where "digit_byte b \<longleftrightarrow> is_digit (uint b)"

function parse_args :: "bool \<Rightarrow> bytes \<Rightarrow> exec_arg list option" where
  "parse_args after_sep [] = (if after_sep then None else Some [])"
| "parse_args after_sep (d # r) =
     (if \<not> digit_byte d then None
      else (case r of
          [] \<Rightarrow> Some [(unat d - 48, None)]
        | x # r1 \<Rightarrow>
            if x = 44 then map_option (Cons (unat d - 48, None)) (parse_args True r1)
            else if x = 61 \<and> r1 \<noteq> [] \<and> hd r1 = 39 then
              (let v = value_of (tl r1); w = value_end (tl r1)
               in case end_state w of
                    STATE_EOF \<Rightarrow> Some [(unat d - 48, Some v)]
                  | STATE_FINISHED_READING_ARGUMENT \<Rightarrow>
                      map_option (Cons (unat d - 48, Some v)) (parse_args True (end_rest w))
                  | _ \<Rightarrow> None)
            else None))"
  by pat_completeness auto
termination
proof (relation "measure (\<lambda>(_, bs). length bs)", goal_cases)
  case 1 then show ?case by simp
next
  case (2 a d r x r1) then show ?case by simp
next
  case (3 a d r x r1 v w)
  have "length (end_rest w) \<le> length (tl r1)"
    using length_end_rest [of w] length_value_end [of "tl r1"] 3(6) by simp
  moreover have "r = x # r1" using 3 by simp
  ultimately show ?case by simp
qed

lemma end_state_iff:
  "end_state w = STATE_EOF \<longleftrightarrow> w = [39]"
  "end_state w = STATE_FINISHED_READING_ARGUMENT \<longleftrightarrow> w = 39 # 44 # end_rest w"
  "end_state w \<noteq> STATE_READ_VALUE" "end_state w \<noteq> STATE_READ_ARGUMENT"
  by (induction w rule: end_state.induct) (auto simp: end_rest_def)

lemma end_state_simps [simp]:
  "end_state (39 # 44 # r) = STATE_FINISHED_READING_ARGUMENT" "end_rest (39 # 44 # r) = r"
  by (simp_all add: end_rest_def)

lemma arg_ok_simps [simp]:
  "arg_ok (d, None) \<longleftrightarrow> d < 10" "arg_ok (d, Some v) \<longleftrightarrow> d < 10 \<and> list_all value_char v"
  by (simp_all add: arg_ok_def)

lemma digit_byte_iff: "digit_byte b \<longleftrightarrow> 48 \<le> unat b \<and> unat b \<le> 57"
proof -
  have "uint b = int (unat b)" by simp
  then show ?thesis unfolding digit_byte_def is_digit_def by linarith
qed

lemma digit_byte_of [simp]: "d < 10 \<Longrightarrow> digit_byte (byte_of (48 + d))" "d < 10 \<Longrightarrow> (48 + d) mod 256 = (48 + d :: nat)"
  by (simp_all add: digit_byte_iff)

lemma digit_byte_back: "digit_byte b \<Longrightarrow> byte_of (48 + (unat b - 48)) = b \<and> unat b - 48 < 10"
  by (auto simp: digit_byte_iff)

lemma delimiter_not_value [simp]: "\<not> value_char 39"
  by (simp add: value_char_def is_value_def)

lemma value_of_append [simp]:
  "list_all value_char v \<Longrightarrow> value_of (v @ 39 # r) = v" "list_all value_char v \<Longrightarrow> value_end (v @ 39 # r) = 39 # r"
  by (auto simp: value_of_def value_end_def list_all_iff takeWhile_append dropWhile_append)

lemma value_of_ok [simp]: "list_all value_char (value_of bs)"
  by (auto simp: value_of_def list_all_iff dest: set_takeWhileD)

lemma args_bytes_Cons: "as \<noteq> [] \<Longrightarrow> args_bytes (a # as) = arg_bytes a @ 44 # args_bytes as"
  by (cases as) simp_all

lemma parse_args_complete:
  "list_all arg_ok xs \<Longrightarrow> after_sep \<longrightarrow> xs \<noteq> [] \<Longrightarrow> parse_args after_sep (args_bytes xs) = Some xs"
proof (induction xs arbitrary: after_sep)
  case (Cons a as)
  obtain d v where a: "a = (d, v)" by force
  have d: "d < 10" "48 + d < 256" using Cons.prems(1) a by (cases v; simp)+
  show ?case
  proof (cases "as = []")
    case True
    with Cons.prems a d show ?thesis by (cases v) (simp_all add: value_of_append)
  next
    case False
    with Cons have ih: "parse_args True (args_bytes as) = Some as" by simp
    from False Cons.prems a d ih show ?thesis by (cases v) (simp_all add: args_bytes_Cons)
  qed
qed simp

lemma parse_args_sound:
  "parse_args after_sep bs = Some xs \<Longrightarrow> list_all arg_ok xs \<and> args_bytes xs = bs \<and> (after_sep \<longrightarrow> xs \<noteq> [])"
proof (induction after_sep bs arbitrary: xs rule: parse_args.induct)
  case (2 after_sep d r)
  from 2(3) have d: "digit_byte d" by (auto split: if_splits)
  note db = digit_byte_back [OF d]
  show ?case
  proof (cases r)
    case Nil
    with 2(3) d db show ?thesis by auto
  next
    case (Cons x r1)
    consider "x = 44" | "x = 61" "r1 \<noteq> []" "hd r1 = 39" using 2(3) d Cons by (auto split: if_splits)
    then show ?thesis
    proof cases
      case 1
      with 2(3) d Cons obtain ys where ys: "parse_args True r1 = Some ys" "xs = (unat d - 48, None) # ys" by auto
      from 2(1) [OF _ Cons 1 ys(1)] d have "list_all arg_ok ys" "args_bytes ys = r1" "ys \<noteq> []" by auto
      with ys(2) 1 Cons db show ?thesis by (simp add: args_bytes_Cons)
    next
      case c2: 2
      define v where "v = value_of (tl r1)"
      define w where "w = value_end (tl r1)"
      have r1: "r1 = 39 # v @ w" using c2(2,3) by (cases r1) (simp_all add: v_def w_def value_split)
      have v: "list_all value_char v" by (simp add: v_def)
      from 2(3) d Cons c2 have eq: "(case end_state w of
                    STATE_EOF \<Rightarrow> Some [(unat d - 48, Some v)]
                  | STATE_FINISHED_READING_ARGUMENT \<Rightarrow>
                      map_option (Cons (unat d - 48, Some v)) (parse_args True (end_rest w))
                  | _ \<Rightarrow> None) = Some xs" unfolding v_def w_def by (simp add: Let_def)
      then consider "end_state w = STATE_EOF" | "end_state w = STATE_FINISHED_READING_ARGUMENT"
        by (auto split: execute_state.splits)
      then show ?thesis
      proof cases
        case 1
        then have "w = [39]" by (simp add: end_state_iff)
        with 1 eq Cons c2(1) r1 db v show ?thesis by auto
      next
        case f: 2
        with eq obtain ys where ys: "parse_args True (end_rest w) = Some ys" "xs = (unat d - 48, Some v) # ys" by auto
        have "x \<noteq> 44" using c2(1) by simp
        from 2(2) [OF _ Cons this _ v_def w_def f ys(1)] d c2 have ih: "list_all arg_ok ys" "args_bytes ys = end_rest w" "ys \<noteq> []"
          by auto
        have w: "w = 39 # 44 # end_rest w" using f by (simp add: end_state_iff)
        have "args_bytes xs = d # 61 # 39 # v @ 39 # 44 # end_rest w"
          using ys(2) ih db by (simp add: args_bytes_Cons)
        also have "\<dots> = d # r" using w r1 Cons c2(1) by simp
        finally show ?thesis using ys(2) ih v db by simp
      qed
    qed
  qed
qed (simp split: if_splits)

lemma parse_args_iff:
  "parse_args False bs = Some xs \<longleftrightarrow> list_all arg_ok xs \<and> args_bytes xs = bs"
  using parse_args_complete [of xs False] parse_args_sound [of False bs xs] by auto

section \<open>The state machine on a stream\<close>

text \<open>Characters have the values of their bytes where \<open>char\<close> is unsigned, or below 128.\<close>

definition plain_chars :: "bool \<Rightarrow> bytes \<Rightarrow> bool" where
  "plain_chars sc bs \<longleftrightarrow> (sc \<longrightarrow> (\<forall>b \<in> set bs. b < 128))"

lemma sint_small: "b < 128 \<Longrightarrow> sint b = uint b" for b :: byte
proof -
  assume "b < 128"
  then have "uint b < 128" by (simp add: word_less_def)
  then show ?thesis by (simp add: sint_uint signed_take_bit_int_eq_self_iff order.trans [OF _ uint_nonnegative])
qed

lemma plain_chars_Cons [simp]:
  "plain_chars sc (b # bs) \<longleftrightarrow> char_value sc b = uint b \<and> (sc \<longrightarrow> b < 128) \<and> plain_chars sc bs"
  by (auto simp: plain_chars_def char_value_def sint_small)

lemma plain_chars_append [simp]: "plain_chars sc (as @ bs) \<longleftrightarrow> plain_chars sc as \<and> plain_chars sc bs"
  by (auto simp: plain_chars_def)

lemma plain_chars_Nil [simp]: "plain_chars sc []" by (simp add: plain_chars_def)

lemma plain_chars_drop [intro]: "plain_chars sc bs \<Longrightarrow> plain_chars sc (drop n bs)"
  by (auto simp: plain_chars_def dest: in_set_dropD)

definition next_char :: "bytes \<Rightarrow> int" where
  "next_char bs = (case bs of [] \<Rightarrow> EOF | b # _ \<Rightarrow> uint b)"

lemma next_char_simps [simp]: "next_char [] = EOF" "next_char (b # bs) = uint b"
  by (simp_all add: next_char_def)

lemma uint_byte_eq: "uint b = n \<longleftrightarrow> 0 \<le> n \<and> n < 256 \<and> b = word_of_int n" for b :: byte
  using unsigned_less [of b, where 'a = int] by (auto simp: unsigned_of_int take_bit_int_eq_self_iff)

lemma char_classes [simp]:
  "is_value_delimiter (uint b) \<longleftrightarrow> b = 39" "is_arg_separator (uint b) \<longleftrightarrow> b = 44"
  "is_value_assignment (uint b) \<longleftrightarrow> b = 61" "is_value (uint b) \<longleftrightarrow> value_char b" "is_digit (uint b) \<longleftrightarrow> digit_byte b"
  "uint b \<noteq> EOF" for b :: byte
  by (simp_all add: is_value_delimiter_def is_arg_separator_def is_value_assignment_def value_char_def digit_byte_def
      uint_byte_eq)

lemma eof_classes [simp]: "\<not> is_value_delimiter EOF" "\<not> is_arg_separator EOF" "\<not> is_value EOF" "\<not> is_digit EOF"
    "\<not> is_value_assignment EOF"
  by (simp_all add: is_value_delimiter_def is_arg_separator_def is_value_def is_digit_def is_value_assignment_def)

definition not_value :: "bytes \<Rightarrow> bool" where
  "not_value w \<longleftrightarrow> w = [] \<or> \<not> value_char (hd w)"

lemma not_value_simps [simp]: "not_value []" "not_value (b # w) \<longleftrightarrow> \<not> value_char b"
  by (simp_all add: not_value_def)

context peekable_source begin

text \<open>The context is in a state with the given bytes ahead.\<close>

definition at :: "'a execute_ctx \<Rightarrow> execute_state \<Rightarrow> bytes \<Rightarrow> bool" where
  "at ctx st bs \<longleftrightarrow> ok (ex_stream ctx) \<and> content (ex_stream ctx) = bs \<and> ex_state ctx = st"

lemma get_next_char_ok:
  assumes "at ctx st bs" and "plain_chars sc bs"
  obtains s' where "get_next_char sc vt ctx = Some (ctx\<lparr>ex_stream := s'\<rparr>, next_char bs)" "ok s'" "content s' = tl bs"
proof -
  from read_reliably_ok [of "ex_stream ctx" 1] assms(1) obtain s' where
    "stream_read_reliably vt (ex_stream ctx) 1 = Some (s', if 1 \<le> length bs then AVS_OK else AVS_EOF, take 1 bs)"
    "ok s'" "content s' = tl bs" by (auto simp: at_def drop_Suc)
  with assms(2) show thesis by (intro that) (cases bs; simp add: get_next_char_def rd8_def)+
qed

lemma peek_next_char_ok:
  assumes "at ctx st bs" and "plain_chars sc bs"
  shows "peek_next_char sc vt ctx = Some (next_char bs)"
  using peek_ok [of "ex_stream ctx"] assms by (cases bs) (auto simp: at_def peek_next_char_def)

lemma at_stream [simp]: "ok s' \<Longrightarrow> at (ctx\<lparr>ex_stream := s', ex_state := st\<rparr>) st' bs \<longleftrightarrow> content s' = bs \<and> st = st'"
  by (auto simp: at_def)

text \<open>The end of a value.\<close>

lemma value_end_ok:
  assumes "at ctx st w" and "not_value w" and "plain_chars sc w"
  obtains ctx' where "do { (ctx, ch) \<leftarrow> get_next_char sc vt ctx; state_read_value sc vt ctx ch } = Some (ctx', end_state w)"
    "ok (ex_stream ctx')" "content (ex_stream ctx') = end_rest w" "ex_arg ctx' = ex_arg ctx" "ex_has_value ctx' = ex_has_value ctx"
proof -
  from get_next_char_ok [OF assms(1,3)] obtain s' where
    s': "get_next_char sc vt ctx = Some (ctx\<lparr>ex_stream := s'\<rparr>, next_char w)" "ok s'" "content s' = tl w" .
  show thesis
  proof (cases "w \<noteq> [] \<and> hd w = 39")
    case True
    then obtain w' where w: "w = 39 # w'" by (cases w) auto
    have "at (ctx\<lparr>ex_stream := s'\<rparr>) st w'" "plain_chars sc w'" using s' assms w by (simp_all add: at_def)
    from get_next_char_ok [OF this] obtain s2 where
      s2: "get_next_char sc vt (ctx\<lparr>ex_stream := s'\<rparr>) = Some (ctx\<lparr>ex_stream := s'\<rparr>\<lparr>ex_stream := s2\<rparr>, next_char w')"
        "ok s2" "content s2 = tl w'" .
    have "expect_separator_or_eof (next_char w') = end_state w"
      by (cases w') (simp_all add: w expect_separator_or_eof_def)
    moreover have "state_read_value sc vt (ctx\<lparr>ex_stream := s'\<rparr>) (uint (39 :: byte))
        = Some (ctx\<lparr>ex_stream := s2\<rparr>, expect_separator_or_eof (next_char w'))"
      using s2(1) by (simp only: state_read_value_def char_classes delimiter_not_value) simp
    ultimately show thesis using s'(1) s2(2,3) w
      by (intro that [of "ctx\<lparr>ex_stream := s2\<rparr>"]) (simp_all add: end_rest_def drop_Suc)
  next
    case False
    then have "state_read_value sc vt (ctx\<lparr>ex_stream := s'\<rparr>) (next_char w) = Some (ctx\<lparr>ex_stream := s'\<rparr>, end_state w)"
      using assms(2) by (cases w rule: end_state.cases) (auto simp: state_read_value_def)
    with s' False show thesis by (intro that [of "ctx\<lparr>ex_stream := s'\<rparr>"]) (auto simp: end_rest_def drop_Suc)
  qed
qed

end

context peekable_source begin

text \<open>What a call leaves of the other fields.\<close>

definition same_arg :: "'a execute_ctx \<Rightarrow> 'a execute_ctx \<Rightarrow> bool" where
  "same_arg ctx ctx' \<longleftrightarrow> ex_arg ctx' = ex_arg ctx \<and> ex_has_value ctx' = ex_has_value ctx"

lemma value_loop_ok:
  "at ctx STATE_READ_VALUE (v @ w) \<Longrightarrow> list_all value_char v \<Longrightarrow> not_value w \<Longrightarrow> plain_chars sc (v @ w)
   \<Longrightarrow> length out + k = n - 1 \<Longrightarrow>
   \<exists>ctx'. value_loop sc vt ctx n out fin
      = Some (ctx', out @ take k v,
          if length v < k then True else if k = 0 then fin else length v = k \<and> w \<noteq> [] \<and> hd w = 39)
    \<and> at ctx' (if length v < k then end_state w else STATE_READ_VALUE) (if length v < k then end_rest w else drop k v @ w)
    \<and> same_arg ctx ctx'"
proof (induction v arbitrary: ctx out fin k)
  case Nil
  show ?case
  proof (cases "k = 0")
    case True
    with Nil show ?thesis by (subst value_loop.simps) (auto simp: same_arg_def)
  next
    case False
    from value_end_ok [of ctx STATE_READ_VALUE w sc] Nil obtain ctx1 where
      c: "do { (ctx, ch) \<leftarrow> get_next_char sc vt ctx; state_read_value sc vt ctx ch } = Some (ctx1, end_state w)"
      "ok (ex_stream ctx1)" "content (ex_stream ctx1) = end_rest w" "ex_arg ctx1 = ex_arg ctx" "ex_has_value ctx1 = ex_has_value ctx"
      by auto
    from c(1) obtain ctx0 ch where g: "get_next_char sc vt ctx = Some (ctx0, ch)"
      "state_read_value sc vt ctx0 ch = Some (ctx1, end_state w)" by (auto simp: bind_eq_Some_conv)
    from Nil False have "length out < n - 1" by simp
    with g False c(2-5) show ?thesis
      by (subst value_loop.simps) (simp add: end_state_iff at_def same_arg_def)
  qed
next
  case (Cons b v)
  show ?case
  proof (cases "k = 0")
    case True
    with Cons.prems show ?thesis by (subst value_loop.simps) (auto simp: same_arg_def)
  next
    case False
    from get_next_char_ok [OF Cons.prems(1)] Cons.prems(4) obtain s' where
      s': "get_next_char sc vt ctx = Some (ctx\<lparr>ex_stream := s'\<rparr>, uint b)" "ok s'" "content s' = v @ w" by auto
    define ctx1 where "ctx1 = ctx\<lparr>ex_stream := s', ex_state := STATE_READ_VALUE\<rparr>"
    have at1: "at ctx1 STATE_READ_VALUE (v @ w)" using s'(2,3) by (simp add: ctx1_def)
    have plain: "plain_chars sc (v @ w)" using Cons.prems(4) by simp
    have val: "state_read_value sc vt (ctx\<lparr>ex_stream := s'\<rparr>) (uint b) = Some (ctx\<lparr>ex_stream := s'\<rparr>, STATE_READ_VALUE)"
      using Cons.prems(2) by (simp add: state_read_value_def)
    have lt: "length out < n - 1" using Cons.prems(5) False by simp
    have step: "value_loop sc vt ctx n out fin = value_loop sc vt ctx1 n (out @ [b]) (is_value_delimiter (next_char (v @ w)))"
      using s'(1) val lt peek_next_char_ok [OF at1 plain]
      by (subst value_loop.simps) (simp add: ctx1_def)
    have len: "length (out @ [b]) + (k - 1) = n - 1" using Cons.prems(5) False by simp
    have vv: "list_all value_char v" using Cons.prems(2) by simp
    from Cons.IH [OF at1 vv Cons.prems(3) plain len, of "is_value_delimiter (next_char (v @ w))"] obtain ctx' where
      ih: "value_loop sc vt ctx1 n (out @ [b]) (is_value_delimiter (next_char (v @ w)))
        = Some (ctx', (out @ [b]) @ take (k - 1) v,
          if length v < k - 1 then True else if k - 1 = 0 then is_value_delimiter (next_char (v @ w))
          else length v = k - 1 \<and> w \<noteq> [] \<and> hd w = 39)"
      "at ctx' (if length v < k - 1 then end_state w else STATE_READ_VALUE) (if length v < k - 1 then end_rest w else drop (k - 1) v @ w)"
      "same_arg ctx1 ctx'" by blast
    have fin: "is_value_delimiter (next_char (v @ w)) \<longleftrightarrow> v = [] \<and> w \<noteq> [] \<and> hd w = 39"
      using vv by (cases v; cases w) auto
    have same: "same_arg ctx ctx'" using ih(3) by (simp add: same_arg_def ctx1_def)
    obtain k' where k': "k = Suc k'" using False by (cases k) auto
    show ?thesis
    proof (intro exI conjI)
      show "at ctx' (if length (b # v) < k then end_state w else STATE_READ_VALUE)
        (if length (b # v) < k then end_rest w else drop k (b # v) @ w)" using ih(2) by (cases "length v < k'") (simp_all add: k')
      show "value_loop sc vt ctx n out fin = Some (ctx', out @ take k (b # v),
          if length (b # v) < k then True else if k = 0 then fin else length (b # v) = k \<and> w \<noteq> [] \<and> hd w = 39)"
        unfolding step ih(1) by (auto simp: k' fin)
    qed (rule same)
  qed
qed

text \<open>One call for the value, with a buffer of at least two bytes.\<close>

lemma get_arg_value_ok:
  assumes "at ctx STATE_READ_VALUE (v @ w)" and "list_all value_char v" and "not_value w" and "plain_chars sc (v @ w)"
    and "n \<ge> 2"
  shows "\<exists>ctx'. execute_get_arg_value sc vt ctx False n
      = Some (ctx', if length v < n - 1 then (if end_state w = STATE_ERROR then ERR_BAD_REQUEST else 0)
                    else if length v = n - 1 \<and> w \<noteq> [] \<and> hd w = 39 then 0 else BUFFER_TOO_SHORT, take (n - 1) v)
    \<and> at ctx' (if length v < n - 1 then end_state w else STATE_READ_VALUE)
        (if length v < n - 1 then end_rest w else drop (n - 1) v @ w)
    \<and> same_arg ctx ctx'"
proof -
  from value_loop_ok [OF assms(1-4), of "[]" "n - 1" n True] obtain ctx' where
    v: "value_loop sc vt ctx n [] True = Some (ctx', take (n - 1) v,
          if length v < n - 1 then True else if n - 1 = 0 then True else length v = n - 1 \<and> w \<noteq> [] \<and> hd w = 39)"
      "at ctx' (if length v < n - 1 then end_state w else STATE_READ_VALUE) (if length v < n - 1 then end_rest w else drop (n - 1) v @ w)"
      "same_arg ctx ctx'" by auto
  have "ex_state ctx = STATE_READ_VALUE" "ex_state ctx' = (if length v < n - 1 then end_state w else STATE_READ_VALUE)"
    using assms(1) v(2) by (simp_all add: at_def)
  moreover have "length (take (n - 1) v) < n" using assms(5) by simp
  ultimately show ?thesis using v assms(5) by (simp add: execute_get_arg_value_def)
qed

end

section \<open>Reading everything\<close>

text \<open>
  A handler that reads all arguments, with the values in pieces that fit its buffer, as the
  documentation of the calls describes it.
\<close>

partial_function (option) collect_value ::
  "bool \<Rightarrow> 's stream_vtable \<Rightarrow> nat \<Rightarrow> 's execute_ctx \<Rightarrow> bytes \<Rightarrow> ('s execute_ctx \<times> int \<times> bytes) option" where
  "collect_value sc vt n ctx acc = do {
     (ctx, ret, out) \<leftarrow> execute_get_arg_value sc vt ctx False n;
     if ret = BUFFER_TOO_SHORT then collect_value sc vt n ctx (acc @ out) else Some (ctx, ret, acc @ out) }"

partial_function (option) read_args ::
  "bool \<Rightarrow> 's stream_vtable \<Rightarrow> nat \<Rightarrow> 's execute_ctx \<Rightarrow> exec_arg list \<Rightarrow> (int + exec_arg list) option" where
  "read_args sc vt n ctx acc = do {
     (ctx, result, out) \<leftarrow> execute_get_next_arg sc vt ctx;
     if result = EXECUTE_GET_ARG_END then Some (Inr acc)
     else if result \<noteq> 0 then Some (Inl result)
     else do {
       (arg, has_value) \<leftarrow> out;
       if has_value then do {
         (ctx, ret, v) \<leftarrow> collect_value sc vt n ctx [];
         if ret \<noteq> 0 then Some (Inl ret) else read_args sc vt n ctx (acc @ [(nat arg, Some v)]) }
       else read_args sc vt n ctx (acc @ [(nat arg, None)]) } }"

lemma collect_skips:
  assumes c: "collect_value sc vt n ctx acc = Some y"
  shows "n = 64 \<longrightarrow> skip_value_loop sc vt ctx = Some (fst y, fst (snd y))"
proof (rule collect_value.raw_induct [where P = "\<lambda>sc vt n ctx acc y. n = 64 \<longrightarrow> skip_value_loop sc vt ctx = Some (fst y, fst (snd y))", OF _ c])
  fix f :: "bool \<Rightarrow> 'a stream_vtable \<Rightarrow> nat \<Rightarrow> 'a execute_ctx \<Rightarrow> bytes \<Rightarrow> ('a execute_ctx \<times> int \<times> bytes) option"
    and sc vt n ctx acc y
  assume 1: "\<And>sc vt n ctx acc y. f sc vt n ctx acc = Some y \<Longrightarrow> n = 64 \<longrightarrow> skip_value_loop sc vt ctx = Some (fst y, fst (snd y))"
    "do { (ctx, ret, out) \<leftarrow> execute_get_arg_value sc vt ctx False n;
       if ret = BUFFER_TOO_SHORT then f sc vt n ctx (acc @ out) else Some (ctx, ret, acc @ out) } = Some y"
  show "n = 64 \<longrightarrow> skip_value_loop sc vt ctx = Some (fst y, fst (snd y))"
  proof
    assume n: "n = 64"
    from 1(2) n obtain ctx1 ret out where g: "execute_get_arg_value sc vt ctx False 64 = Some (ctx1, ret, out)"
      "(if ret = BUFFER_TOO_SHORT then f sc vt 64 ctx1 (acc @ out) else Some (ctx1, ret, acc @ out)) = Some y"
      by (auto simp: bind_eq_Some_conv)
    show "skip_value_loop sc vt ctx = Some (fst y, fst (snd y))"
    proof (cases "ret = BUFFER_TOO_SHORT")
      case True
      with g(2) 1(1) have "skip_value_loop sc vt ctx1 = Some (fst y, fst (snd y))" by simp
      with True g(1) show ?thesis by (subst skip_value_loop.simps) simp
    next
      case False
      with g show ?thesis by (subst skip_value_loop.simps) auto
    qed
  qed
qed

text \<open>Where a call for the whole value ends: the quote that follows a value of a positive multiple of
  the length that fits the buffer is not read.\<close>

definition value_pending :: "nat \<Rightarrow> bytes \<Rightarrow> bytes \<Rightarrow> bool" where
  "value_pending n v w \<longleftrightarrow> v \<noteq> [] \<and> n - 1 dvd length v \<and> w \<noteq> [] \<and> hd w = 39"

context peekable_source begin

lemma collect_value_ok:
  "at ctx STATE_READ_VALUE (v @ w) \<Longrightarrow> list_all value_char v \<Longrightarrow> not_value w \<Longrightarrow> plain_chars sc (v @ w) \<Longrightarrow> n \<ge> 2
   \<Longrightarrow> \<exists>ctx'. collect_value sc vt n ctx acc
      = Some (ctx', if value_pending n v w \<or> end_state w \<noteq> STATE_ERROR then 0 else ERR_BAD_REQUEST, acc @ v)
    \<and> at ctx' (if value_pending n v w then STATE_READ_VALUE else end_state w)
        (if value_pending n v w then w else end_rest w)
    \<and> same_arg ctx ctx'"
proof (induction "length v" arbitrary: v ctx acc rule: less_induct)
  case less
  from get_arg_value_ok [OF less.prems] obtain ctx1 where
    g: "execute_get_arg_value sc vt ctx False n
      = Some (ctx1, if length v < n - 1 then (if end_state w = STATE_ERROR then ERR_BAD_REQUEST else 0)
                    else if length v = n - 1 \<and> w \<noteq> [] \<and> hd w = 39 then 0 else BUFFER_TOO_SHORT, take (n - 1) v)"
      "at ctx1 (if length v < n - 1 then end_state w else STATE_READ_VALUE)
        (if length v < n - 1 then end_rest w else drop (n - 1) v @ w)" "same_arg ctx ctx1" by blast
  have m: "0 < n - 1" using less.prems(5) by simp
  consider "length v < n - 1" | "length v = n - 1" "w \<noteq> [] \<and> hd w = 39"
    | "n - 1 \<le> length v" "\<not> (length v = n - 1 \<and> w \<noteq> [] \<and> hd w = 39)" by linarith
  then show ?case
  proof cases
    case 1
    then have "\<not> value_pending n v w" by (auto simp: value_pending_def dest: dvd_imp_le)
    with 1 g show ?thesis by (subst collect_value.simps) simp
  next
    case 2
    then have "value_pending n v w" using m by (auto simp: value_pending_def)
    with 2 g show ?thesis by (subst collect_value.simps) simp
  next
    case 3
    let ?v = "drop (n - 1) v"
    have at1: "at ctx1 STATE_READ_VALUE (?v @ w)" using g(2) 3(1) by simp
    have "length ?v < length v" using m 3(1) by simp
    from less.hyps [OF this at1 _ less.prems(3) _ less.prems(5), of "acc @ take (n - 1) v"] less.prems(2,4)
    obtain ctx' where ih: "collect_value sc vt n ctx1 (acc @ take (n - 1) v)
        = Some (ctx', if value_pending n ?v w \<or> end_state w \<noteq> STATE_ERROR then 0 else ERR_BAD_REQUEST, (acc @ take (n - 1) v) @ ?v)"
      "at ctx' (if value_pending n ?v w then STATE_READ_VALUE else end_state w) (if value_pending n ?v w then w else end_rest w)"
      "same_arg ctx1 ctx'" by (auto simp: list_all_iff dest: in_set_dropD)
    have "value_pending n ?v w \<longleftrightarrow> value_pending n v w"
    proof (cases "length v = n - 1")
      case True
      with 3(2) show ?thesis by (auto simp: value_pending_def)
    next
      case False
      with 3(1) have "?v \<noteq> []" "v \<noteq> []" by auto
      with 3(1) show ?thesis by (simp add: value_pending_def dvd_minus_self)
    qed
    moreover have "collect_value sc vt n ctx acc = collect_value sc vt n ctx1 (acc @ take (n - 1) v)"
      using g(1) 3(1) unfolding if_not_P [OF 3(2)] by (subst collect_value.simps) simp
    ultimately show ?thesis using ih g(3) by (auto simp: same_arg_def)
  qed
qed

lemma skip_value_ok:
  assumes "at ctx STATE_READ_VALUE (v @ w)" and "list_all value_char v" and "not_value w" and "plain_chars sc (v @ w)"
  shows "\<exists>ctx'. skip_value sc vt ctx
      = Some (ctx', if value_pending 64 v w \<or> end_state w \<noteq> STATE_ERROR then 0 else ERR_BAD_REQUEST)
    \<and> at ctx' (if value_pending 64 v w then STATE_READ_VALUE else end_state w)
        (if value_pending 64 v w then w else end_rest w)"
proof -
  from collect_value_ok [OF assms, of 64 "[]"] obtain ctx' where
    c: "collect_value sc vt 64 ctx [] = Some (ctx', if value_pending 64 v w \<or> end_state w \<noteq> STATE_ERROR then 0 else ERR_BAD_REQUEST, [] @ v)"
      "at ctx' (if value_pending 64 v w then STATE_READ_VALUE else end_state w) (if value_pending 64 v w then w else end_rest w)"
    by auto
  from collect_skips [OF c(1)] have "skip_value sc vt ctx
      = Some (ctx', if value_pending 64 v w \<or> end_state w \<noteq> STATE_ERROR then 0 else ERR_BAD_REQUEST)"
    using assms(1) by (simp add: skip_value_def at_def)
  with c(2) show ?thesis by blast
qed

end

text \<open>What follows the digit of an argument: the state after it, what is left, and whether there is a value.\<close>

definition after_digit :: "bytes \<Rightarrow> execute_state \<times> bytes \<times> bool" where
  "after_digit r = (case r of
       [] \<Rightarrow> (STATE_EOF, [], False)
     | x # r1 \<Rightarrow>
         if x = 44 then (STATE_FINISHED_READING_ARGUMENT, r1, False)
         else if x = 61 then (if r1 \<noteq> [] \<and> hd r1 = 39 then STATE_READ_VALUE else STATE_ERROR, tl r1, True)
         else (STATE_ERROR, r1, False))"

context peekable_source begin

lemma read_argument_ok:
  assumes "at ctx st bs" and "plain_chars sc bs"
  shows "\<exists>ctx'. do { (ctx, ch) \<leftarrow> get_next_char sc vt ctx; read_argument_loop sc vt ctx ch } = Some ctx'
    \<and> (case bs of
         [] \<Rightarrow> at ctx' STATE_EOF [] \<and> same_arg ctx ctx'
       | d # r \<Rightarrow>
           if digit_byte d then
             (case after_digit r of (st', r', hv) \<Rightarrow>
                at ctx' st' r' \<and> ex_arg ctx' = int (unat d) - 48 \<and> ex_has_value ctx' = (hv \<or> ex_has_value ctx \<and> (r = [] \<or> hd r \<noteq> 44)))
           else at ctx' STATE_ERROR r \<and> same_arg ctx ctx')"
proof -
  from get_next_char_ok [OF assms] obtain s' where
    s': "get_next_char sc vt ctx = Some (ctx\<lparr>ex_stream := s'\<rparr>, next_char bs)" "ok s'" "content s' = tl bs" .
  let ?ctx = "ctx\<lparr>ex_stream := s'\<rparr>"
  show ?thesis
  proof (cases bs)
    case Nil
    then have "read_argument_loop sc vt ?ctx (next_char bs) = Some (?ctx\<lparr>ex_state := STATE_EOF\<rparr>)"
      by (subst read_argument_loop.simps) (simp add: state_read_argument_def)
    with s' Nil show ?thesis by (simp add: same_arg_def)
  next
    case (Cons d r)
    have rng: "0 \<le> uint d \<and> uint d \<le> 255" using unsigned_less [of d, where 'a = int] by simp
    show ?thesis
    proof (cases "digit_byte d")
      case False
      then have "read_argument_loop sc vt ?ctx (next_char bs) = Some (?ctx\<lparr>ex_state := STATE_ERROR\<rparr>)"
        using rng Cons by (subst read_argument_loop.simps) (simp add: state_read_argument_def)
      with s' Cons False show ?thesis by (simp add: same_arg_def)
    next
      case True
      define ctx1 where "ctx1 = ?ctx\<lparr>ex_arg := int (unat d) - 48\<rparr>"
      have at1: "at ctx1 st r" "plain_chars sc r" using s' assms Cons by (auto simp: at_def ctx1_def)
      from get_next_char_ok [OF this] obtain s2 where
        s2: "get_next_char sc vt ctx1 = Some (ctx1\<lparr>ex_stream := s2\<rparr>, next_char r)" "ok s2" "content s2 = tl r" .
      obtain ctx2 where ctx2: "expect_separator_or_assignment_or_eof sc vt (ctx1\<lparr>ex_stream := s2\<rparr>) (next_char r)
          = Some (ctx2, fst (after_digit r))" "ok (ex_stream ctx2)" "content (ex_stream ctx2) = fst (snd (after_digit r))"
        "ex_arg ctx2 = int (unat d) - 48"
        "ex_has_value ctx2 = (snd (snd (after_digit r)) \<or> ex_has_value ctx \<and> (r = [] \<or> hd r \<noteq> 44))"
      proof (cases r)
        case Nil
        with s2 show thesis
          by (intro that [of "ctx1\<lparr>ex_stream := s2\<rparr>"])
            (simp_all add: expect_separator_or_assignment_or_eof_def after_digit_def ctx1_def)
      next
        case r: (Cons x r1)
        show thesis
        proof (cases "x = 61")
          case False
          with s2 r show thesis
            by (intro that [of "ctx1\<lparr>ex_stream := s2, ex_has_value := (x \<noteq> 44 \<and> ex_has_value ctx1)\<rparr>"])
              (auto simp: expect_separator_or_assignment_or_eof_def after_digit_def ctx1_def)
        next
          case x: True
          define ctx3 where "ctx3 = ctx1\<lparr>ex_stream := s2, ex_has_value := True\<rparr>"
          have "at ctx3 st r1" "plain_chars sc r1"
            using s2 r at1 by (simp_all add: at_def ctx3_def)
          from get_next_char_ok [OF this] obtain s3 where
            s3: "get_next_char sc vt ctx3 = Some (ctx3\<lparr>ex_stream := s3\<rparr>, next_char r1)" "ok s3" "content s3 = tl r1" .
          have c: "is_value_assignment (uint x)" "\<not> is_arg_separator (uint x)"
            unfolding char_classes by (simp_all add: x)
          then have "expect_separator_or_assignment_or_eof sc vt (ctx1\<lparr>ex_stream := s2\<rparr>) (uint x)
              = Some (ctx3\<lparr>ex_stream := s3\<rparr>, expect_value (next_char r1))"
            using c s3(1) by (simp add: expect_separator_or_assignment_or_eof_def ctx3_def del: char_classes)
          moreover have "expect_value (next_char r1) = fst (after_digit r)"
            using x r by (cases r1) (simp_all add: after_digit_def expect_value_def)
          moreover have "snd (after_digit r) = (tl r1, True)" using x r by (simp add: after_digit_def)
          ultimately show thesis using r s3(2,3)
            by (intro that [of "ctx3\<lparr>ex_stream := s3\<rparr>"]) (simp_all add: ctx3_def ctx1_def)
        qed
      qed
      have "fst (after_digit r) \<noteq> STATE_READ_ARGUMENT" by (simp add: after_digit_def split: list.splits)
      then have "read_argument_loop sc vt ?ctx (next_char bs) = Some (ctx2\<lparr>ex_state := fst (after_digit r)\<rparr>)"
        using rng Cons True s2(1) ctx2(1)
        by (subst read_argument_loop.simps) (simp add: state_read_argument_def ctx1_def)
      with s' Cons True ctx2(2-5) show ?thesis by (simp add: at_def split: prod.splits)
    qed
  qed
qed

end

context peekable_source begin

lemma next_arg_ok:
  assumes "at ctx st bs" and "plain_chars sc bs" and "st = STATE_READ_ARGUMENT \<or> st = STATE_FINISHED_READING_ARGUMENT"
  shows "\<exists>ctx'. case bs of
      [] \<Rightarrow> execute_get_next_arg sc vt ctx = Some (ctx', if st = STATE_READ_ARGUMENT
               then (EXECUTE_GET_ARG_END, Some (- 1, False)) else (ERR_BAD_REQUEST, None))
    | d # r \<Rightarrow>
        if digit_byte d \<and> fst (after_digit r) \<noteq> STATE_ERROR
        then execute_get_next_arg sc vt ctx = Some (ctx', 0, Some (int (unat d) - 48, snd (snd (after_digit r))))
          \<and> at ctx' (fst (after_digit r)) (fst (snd (after_digit r)))
        else execute_get_next_arg sc vt ctx = Some (ctx', ERR_BAD_REQUEST, None)"
proof -
  let ?ctx = "ctx\<lparr>ex_arg := - 1, ex_has_value := False\<rparr>"
  have at1: "at ?ctx st bs" using assms(1) by (simp add: at_def)
  have st: "ex_state ctx = st" using assms(1) by (simp add: at_def)
  have skip: "skip_value sc vt ctx = Some (ctx, 0)" using st assms(3) by (auto simp: skip_value_def)
  from read_argument_ok [OF at1 assms(2)] obtain ctx' where
    r: "do { (ctx, ch) \<leftarrow> get_next_char sc vt ?ctx; read_argument_loop sc vt ctx ch } = Some ctx'"
      "case bs of
         [] \<Rightarrow> at ctx' STATE_EOF [] \<and> same_arg ?ctx ctx'
       | d # r \<Rightarrow>
           if digit_byte d then
             (case after_digit r of (st', r', hv) \<Rightarrow>
                at ctx' st' r' \<and> ex_arg ctx' = int (unat d) - 48 \<and> ex_has_value ctx' = (hv \<or> ex_has_value ?ctx \<and> (r = [] \<or> hd r \<noteq> 44)))
           else at ctx' STATE_ERROR r \<and> same_arg ?ctx ctx'" by blast
  from get_next_char_ok [OF at1 assms(2)] obtain s' where
    s': "get_next_char sc vt ?ctx = Some (?ctx\<lparr>ex_stream := s'\<rparr>, next_char bs)" .
  with r(1) have loop: "read_argument_loop sc vt (?ctx\<lparr>ex_stream := s'\<rparr>) (next_char bs) = Some ctx'" by simp
  have try_eq: "try_reading_next_arg sc vt ctx =
    (if st = STATE_FINISHED_READING_ARGUMENT \<and> bs = [] then Some (?ctx\<lparr>ex_stream := s'\<rparr>, - 1)
     else Some (ctx', if ex_arg ctx' = - 1 \<and> ex_state ctx' = STATE_EOF then EXECUTE_GET_ARG_END
                     else if ex_arg ctx' = - 1 \<or> ex_state ctx' = STATE_ERROR then - 1 else 0))"
    using s' loop st assms(3) by (cases bs) (auto simp: try_reading_next_arg_def)
  show ?thesis
  proof (cases bs)
    case Nil
    with r(2) try_eq skip st assms(3) show ?thesis
      by (auto simp: execute_get_next_arg_def at_def same_arg_def)
  next
    case (Cons d t)
    show ?thesis
    proof (cases "digit_byte d")
      case False
      with Cons r(2) try_eq skip st assms(3) show ?thesis
        by (auto simp: execute_get_next_arg_def at_def same_arg_def)
    next
      case True
      then have "int 48 \<le> int (unat d)" by (simp only: digit_byte_iff of_nat_le_iff)
      then have "int (unat d) - 48 \<noteq> - 1" by linarith
      with True Cons r(2) have c: "at ctx' (fst (after_digit t)) (fst (snd (after_digit t)))"
        "ex_arg ctx' = int (unat d) - 48" "ex_arg ctx' \<noteq> - 1" "ex_has_value ctx' = snd (snd (after_digit t))"
        by (auto split: prod.splits)
      then have "ex_state ctx' = fst (after_digit t)" by (simp add: at_def)
      with True Cons try_eq skip st assms(3) c show ?thesis by (auto simp: execute_get_next_arg_def)
    qed
  qed
qed

lemma next_arg_pending:
  assumes "at ctx STATE_READ_VALUE (v @ w)" and "list_all value_char v" and "not_value w" and "plain_chars sc (v @ w)"
    and "\<not> value_pending 64 v w"
  obtains ctx' where "at ctx' (end_state w) (end_rest w)"
    "execute_get_next_arg sc vt ctx =
      (if end_state w = STATE_ERROR then Some (ctx', ERR_BAD_REQUEST, None) else execute_get_next_arg sc vt ctx')"
proof -
  from skip_value_ok [OF assms(1-4)] assms(5) obtain ctx' where
    s: "skip_value sc vt ctx = Some (ctx', if end_state w \<noteq> STATE_ERROR then 0 else ERR_BAD_REQUEST)"
      "at ctx' (end_state w) (end_rest w)" by auto
  have "skip_value sc vt ctx' = Some (ctx', 0)" using s(2) end_state_iff(3) [of w] by (simp add: at_def skip_value_def)
  then have "execute_get_next_arg sc vt ctx =
      (if end_state w = STATE_ERROR then Some (ctx', ERR_BAD_REQUEST, None) else execute_get_next_arg sc vt ctx')"
    unfolding execute_get_next_arg_def s(1) by (cases "end_state w = STATE_ERROR") simp_all
  with s(2) show thesis by (rule that)
qed

lemma read_args_eof: "at ctx STATE_EOF bs \<Longrightarrow> read_args sc vt n ctx acc = Some (Inr acc)"
  by (subst read_args.simps) (simp add: execute_get_next_arg_def skip_value_def at_def)

lemma plain_chars_end_rest: "plain_chars sc w \<Longrightarrow> plain_chars sc (end_rest w)"
  by (auto simp: end_rest_def)

lemma value_end_not_value: "not_value (value_end bs)"
proof (cases "value_end bs")
  case (Cons b r)
  then have "\<not> value_char b" unfolding value_end_def by (metis dropWhile_eq_Cons_conv)
  with Cons show ?thesis by simp
qed simp

lemma read_args_ok:
  "at ctx (if after_sep then STATE_FINISHED_READING_ARGUMENT else STATE_READ_ARGUMENT) bs \<Longrightarrow> plain_chars sc bs \<Longrightarrow> n \<ge> 2 \<Longrightarrow>
   read_args sc vt n ctx acc = Some (case parse_args after_sep bs of None \<Rightarrow> Inl ERR_BAD_REQUEST | Some xs \<Rightarrow> Inr (acc @ xs))"
proof (induction after_sep bs arbitrary: ctx acc rule: parse_args.induct)
  case (1 after_sep)
  from next_arg_ok [OF 1(1,2)] show ?case by (subst read_args.simps) auto
next
  case (2 after_sep d r)
  have "(if after_sep then STATE_FINISHED_READING_ARGUMENT else STATE_READ_ARGUMENT) = STATE_READ_ARGUMENT
    \<or> (if after_sep then STATE_FINISHED_READING_ARGUMENT else STATE_READ_ARGUMENT) = STATE_FINISHED_READING_ARGUMENT" by simp
  from next_arg_ok [OF 2(3,4) this] obtain ctx1 where c1: "if digit_byte d \<and> fst (after_digit r) \<noteq> STATE_ERROR
        then execute_get_next_arg sc vt ctx = Some (ctx1, 0, Some (int (unat d) - 48, snd (snd (after_digit r))))
          \<and> at ctx1 (fst (after_digit r)) (fst (snd (after_digit r)))
        else execute_get_next_arg sc vt ctx = Some (ctx1, ERR_BAD_REQUEST, None)" unfolding list.case by blast
  show ?case
  proof (cases "digit_byte d \<and> fst (after_digit r) \<noteq> STATE_ERROR")
    case False
    then have "parse_args after_sep (d # r) = None"
      by (auto simp: after_digit_def split: list.splits if_splits)
    moreover have "execute_get_next_arg sc vt ctx = Some (ctx1, ERR_BAD_REQUEST, None)" using c1 unfolding if_not_P [OF False] .
    ultimately show ?thesis by (subst read_args.simps) simp
  next
    case True
    then have d: "digit_byte d" and c: "execute_get_next_arg sc vt ctx = Some (ctx1, 0, Some (int (unat d) - 48, snd (snd (after_digit r))))"
      "at ctx1 (fst (after_digit r)) (fst (snd (after_digit r)))" using c1 by auto
    have nat: "nat (int (unat d) - 48) = unat d - 48" by arith
    have plain: "plain_chars sc r" using 2(4) by simp
    consider "r = []" | r1 where "r = 44 # r1" | r2 where "r = 61 # 39 # r2"
      using True by (auto simp: after_digit_def split: list.splits if_splits) (metis hd_Cons_tl)
    then show ?thesis
    proof cases
      case 1
      with c d nat show ?thesis
        by (subst read_args.simps) (simp add: after_digit_def read_args_eof [where bs = "[]"])
    next
      case (2 r1)
      have "read_args sc vt n ctx1 (acc @ [(unat d - 48, None)])
          = Some (case parse_args True r1 of None \<Rightarrow> Inl ERR_BAD_REQUEST | Some xs \<Rightarrow> Inr ((acc @ [(unat d - 48, None)]) @ xs))"
        using 2 c(2) plain "2.IH"(1) [of 44 r1 ctx1 "acc @ [(unat d - 48, None)]"] d \<open>2 \<le> n\<close> by (simp add: after_digit_def)
      with 2 c d nat show ?thesis
        by (subst read_args.simps) (auto simp: after_digit_def split: option.splits)
    next
      case (3 r2)
      define v where "v = value_of r2"
      define w where "w = value_end r2"
      have r2: "r2 = v @ w" by (simp add: v_def w_def value_split)
      have vw: "list_all value_char v" "not_value w" by (simp_all add: v_def w_def value_end_not_value)
      have pl: "plain_chars sc (v @ w)" using plain 3 r2 by simp
      have at1: "at ctx1 STATE_READ_VALUE (v @ w)" using c(2) 3 r2 by (simp add: after_digit_def)
      from collect_value_ok [OF at1 vw pl \<open>2 \<le> n\<close>, of "[]"] obtain ctx2 where
        c2: "collect_value sc vt n ctx1 []
          = Some (ctx2, if value_pending n v w \<or> end_state w \<noteq> STATE_ERROR then 0 else ERR_BAD_REQUEST, v)"
          "at ctx2 (if value_pending n v w then STATE_READ_VALUE else end_state w)
            (if value_pending n v w then w else end_rest w)" by auto
      let ?acc = "acc @ [(unat d - 48, Some v)]"
      have step: "read_args sc vt n ctx acc = (if \<not> value_pending n v w \<and> end_state w = STATE_ERROR then Some (Inl ERR_BAD_REQUEST)
          else read_args sc vt n ctx2 ?acc)"
        using c(1) c2(1) 3 nat by (subst read_args.simps) (simp add: after_digit_def)
      have parse: "parse_args after_sep (d # r) = (case end_state w of
                    STATE_EOF \<Rightarrow> Some [(unat d - 48, Some v)]
                  | STATE_FINISHED_READING_ARGUMENT \<Rightarrow>
                      map_option (Cons (unat d - 48, Some v)) (parse_args True (end_rest w))
                  | _ \<Rightarrow> None)" using 3 d unfolding v_def w_def by (simp add: Let_def)
      have ended: "read_args sc vt n ctx' ?acc = Some (case parse_args after_sep (d # r) of None \<Rightarrow> Inl ERR_BAD_REQUEST | Some xs \<Rightarrow> Inr (acc @ xs))"
        if a: "at ctx' (end_state w) (end_rest w)" and e: "end_state w \<noteq> STATE_ERROR" for ctx'
      proof (cases "end_state w")
        case STATE_EOF
        with a show ?thesis unfolding parse by (simp add: read_args_eof)
      next
        case STATE_FINISHED_READING_ARGUMENT
        have "plain_chars sc (end_rest w)" using pl by (simp add: plain_chars_end_rest)
        with "2.IH"(2) [of 61 "39 # r2" v w ctx' ?acc] 3 d a STATE_FINISHED_READING_ARGUMENT \<open>2 \<le> n\<close>
        have "read_args sc vt n ctx' ?acc = Some (case parse_args True (end_rest w) of None \<Rightarrow> Inl ERR_BAD_REQUEST | Some xs \<Rightarrow> Inr (?acc @ xs))"
          by (simp add: v_def w_def)
        with STATE_FINISHED_READING_ARGUMENT show ?thesis unfolding parse by (auto split: option.splits)
      qed (use e end_state_iff(3,4) [of w] in auto)
      show ?thesis
      proof (cases "value_pending n v w")
        case False
        show ?thesis
        proof (cases "end_state w = STATE_ERROR")
          case True
          with False step parse show ?thesis by simp
        next
          case e: False
          with False c2(2) ended step show ?thesis by simp
        qed
      next
        case True
        with c2(2) have at2: "at ctx2 STATE_READ_VALUE ([] @ w)" by simp
        have "plain_chars sc ([] @ w)" "\<not> value_pending 64 [] w" using pl by (simp_all add: value_pending_def)
        from next_arg_pending [OF at2 _ vw(2) this] obtain ctx3 where c3: "at ctx3 (end_state w) (end_rest w)"
          "execute_get_next_arg sc vt ctx2 =
            (if end_state w = STATE_ERROR then Some (ctx3, ERR_BAD_REQUEST, None) else execute_get_next_arg sc vt ctx3)" by auto
        show ?thesis
        proof (cases "end_state w = STATE_ERROR")
          case e: True
          then have "read_args sc vt n ctx2 ?acc = Some (Inl ERR_BAD_REQUEST)"
            using c3(2) by (subst read_args.simps) simp
          with True e step parse show ?thesis by simp
        next
          case e: False
          then have "execute_get_next_arg sc vt ctx2 = execute_get_next_arg sc vt ctx3" using c3(2) by simp
          then have "read_args sc vt n ctx2 ?acc = read_args sc vt n ctx3 ?acc"
            by (subst (1 2) read_args.simps) simp
          with True e step ended [OF c3(1) e] show ?thesis by simp
        qed
      qed
    qed
  qed
qed

end

section \<open>Properties\<close>

text \<open>The payload in an input buffer, as the operation finds it.\<close>

definition execute_payload :: "bytes \<Rightarrow> inbuf execute_ctx" where
  "execute_payload payload = the (execute_ctx_create True (inbuf_set_buffer payload (length payload)))"

lemma execute_payload_at: "ibp.at (execute_payload payload) STATE_READ_ARGUMENT payload"
  by (simp add: execute_payload_def execute_ctx_create_def ibp.at_def)

text \<open>C32: Reading the arguments of an Execute operation one by one, with the values in pieces of any
  size from two bytes on, ends for every payload of characters that are not negative (any bytes where
  \<open>char\<close> is unsigned, bytes below 128 where it is signed). It delivers a list of arguments
  exactly when the payload is the text of that list: digits, each with an optional quoted value of
  permitted characters, separated by single commas. Every other such payload is answered with Bad Request.\<close>

theorem execute_args_exact:
  assumes "plain_chars sc payload" and "n \<ge> 2"
  shows "\<exists>r. read_args sc inbuf_vtable n (execute_payload payload) [] = Some r
    \<and> (\<forall>xs. r = Inr xs \<longleftrightarrow> list_all arg_ok xs \<and> args_bytes xs = payload) \<and> (\<forall>e. r = Inl e \<longrightarrow> e = ERR_BAD_REQUEST)"
proof -
  define r where "r = (case parse_args False payload of None \<Rightarrow> Inl ERR_BAD_REQUEST | Some xs \<Rightarrow> Inr xs)"
  have "read_args sc inbuf_vtable n (execute_payload payload) [] = Some r"
    using ibp.read_args_ok [of "execute_payload payload" False payload sc n "[]"] execute_payload_at assms
    by (cases "parse_args False payload") (simp_all add: r_def)
  moreover have "r = Inr xs \<longleftrightarrow> parse_args False payload = Some xs" for xs by (simp add: r_def split: option.splits)
  moreover have "r = Inl e \<longrightarrow> e = ERR_BAD_REQUEST" for e by (simp add: r_def split: option.splits)
  ultimately show ?thesis by (simp add: parse_args_iff)
qed

theorem execute_args_exact_witness:
  "read_args True inbuf_vtable 3 (execute_payload [48, 44, 55, 61, 39, 97, 98, 99, 39]) []
     = Some (Inr [(0, None), (7, Some [97, 98, 99])])"
proof -
  have "plain_chars True [48, 44, 55, 61, 39, 97, 98, 99, 39]"
    unfolding plain_chars_def by simp
  from execute_args_exact [OF this, of 3] obtain r where
    r: "read_args True inbuf_vtable 3 (execute_payload [48, 44, 55, 61, 39, 97, 98, 99, 39]) [] = Some r"
    "\<forall>xs. r = Inr xs \<longleftrightarrow> list_all arg_ok xs \<and> args_bytes xs = [48, 44, 55, 61, 39, 97, 98, 99, 39]" by auto
  have "list_all arg_ok [(0, None), (7, Some [97, 98, 99])]
      \<and> args_bytes [(0, None), (7, Some [97, 98, 99])] = [48, 44, 55, 61, 39, 97, 98, 99, 39]"
    by (simp add: value_char_def is_value_def byte_of_def)
  with r(2) have "r = Inr [(0, None), (7, Some [97, 98, 99])]" by (simp only:)
  with r(1) show ?thesis by (simp only:)
qed

lemma value_char_plain: "value_char b \<Longrightarrow> b < 128 \<and> char_value sc b = uint b"
proof -
  assume "value_char b"
  then have "uint b < 128" unfolding value_char_def is_value_def by linarith
  then have "b < 128" by (simp add: word_less_def)
  then show ?thesis by (simp add: char_value_def sint_small)
qed

lemma plain_values: "list_all value_char v \<Longrightarrow> plain_chars sc v"
  by (induction v) (simp_all add: value_char_plain)

lemma plain_digit [simp]: "d < 10 \<Longrightarrow> plain_chars sc [byte_of (48 + d)]"
proof -
  assume "d < 10"
  then have "unat (byte_of (48 + d)) < 128" by simp
  then have "byte_of (48 + d) < 128" by (simp add: word_less_nat_alt)
  then show ?thesis by (simp add: plain_chars_def)
qed

lemma plain_arg: "arg_ok a \<Longrightarrow> plain_chars sc (arg_bytes a)"
proof (cases a rule: arg_bytes.cases)
  case (2 d v)
  assume "arg_ok a"
  moreover have "plain_chars sc ([byte_of (48 + d)] @ [61, 39] @ v @ [39])" if "d < 10" "list_all value_char v"
    unfolding plain_chars_append using plain_digit [OF that(1)] plain_values [OF that(2)] by (simp add: plain_chars_def)
  ultimately show ?thesis using 2 by simp
next
  case (1 d)
  assume "arg_ok a"
  with 1 plain_digit [of d sc] show ?thesis by (simp del: plain_chars_Cons)
qed

lemma plain_args: "list_all arg_ok as \<Longrightarrow> plain_chars sc (args_bytes as)"
proof (induction as rule: args_bytes.induct)
  case (3 a b as)
  moreover have "plain_chars sc (arg_bytes a @ [44] @ args_bytes (b # as))"
    unfolding plain_chars_append using 3 plain_arg [of a] by (simp add: plain_chars_def)
  ultimately show ?case by simp
qed (simp_all add: plain_arg)


text \<open>C33: Asking for the next argument without having read the value of the current one is documented
  to skip that value. It does so for all lengths but the positive multiples of 63, one less than the
  size of the buffer into which the value is discarded: there the closing quote is left over and taken for
  the next argument, so that a correct payload is answered with Bad Request.\<close>

theorem execute_skips_value:
  assumes "d < 10" and "e < 10" and "list_all value_char v"
  shows "\<exists>ctx1 ctx2. execute_get_next_arg sc inbuf_vtable (execute_payload (args_bytes [(d, Some v), (e, None)]))
      = Some (ctx1, 0, Some (int d, True))
    \<and> execute_get_next_arg sc inbuf_vtable ctx1
      = Some (ctx2, if v \<noteq> [] \<and> 63 dvd length v then (ERR_BAD_REQUEST, None) else (0, Some (int e, False)))"
proof -
  let ?w = "[39, 44, byte_of (48 + e)]"
  let ?r = "61 # 39 # v @ ?w"
  have ok: "list_all arg_ok [(d, Some v), (e, None)]" using assms by simp
  have bytes: "args_bytes [(d, Some v), (e, None)] = byte_of (48 + d) # ?r" by simp
  have d: "int (unat (byte_of (48 + d))) - 48 = int d" using assms(1) by (simp only: unat_byte_of digit_byte_of)
  have e: "int (unat (byte_of (48 + e))) - 48 = int e" using assms(2) by (simp only: unat_byte_of digit_byte_of)
  have plain: "plain_chars sc (byte_of (48 + d) # ?r)" using plain_args [OF ok] unfolding bytes .
  have step: "after_digit ?r = (STATE_READ_VALUE, v @ ?w, True)" by (simp add: after_digit_def)
  from ibp.next_arg_ok [OF execute_payload_at plain disjI1 [OF refl]] obtain ctx1 where
    c1: "execute_get_next_arg sc inbuf_vtable (execute_payload (byte_of (48 + d) # ?r)) = Some (ctx1, 0, Some (int d, True))"
      "ibp.at ctx1 STATE_READ_VALUE (v @ ?w)"
    unfolding list.case step using assms(1) d by auto
  have vw: "not_value ?w" "plain_chars sc (v @ ?w)" using plain by simp_all
  have es: "end_state ?w = STATE_FINISHED_READING_ARGUMENT" "end_rest ?w = [byte_of (48 + e)]" by simp_all
  have pend: "value_pending 64 v ?w \<longleftrightarrow> v \<noteq> [] \<and> 63 dvd length v" by (simp add: value_pending_def)
  obtain ctx2 where "execute_get_next_arg sc inbuf_vtable ctx1
      = Some (ctx2, if v \<noteq> [] \<and> 63 dvd length v then (ERR_BAD_REQUEST, None) else (0, Some (int e, False)))"
  proof (cases "value_pending 64 v ?w")
    case True
    from ibp.skip_value_ok [OF c1(2) assms(3) vw] True obtain ctx' where
      s: "skip_value sc inbuf_vtable ctx1 = Some (ctx', 0)" "ibp.at ctx' STATE_READ_VALUE ?w" by auto
    let ?ctx = "ctx'\<lparr>ex_arg := - 1, ex_has_value := False\<rparr>"
    have at: "ibp.at ?ctx STATE_READ_VALUE ?w" "plain_chars sc ?w" using s(2) vw(2) by (simp_all add: ibp.at_def)
    from ibp.read_argument_ok [OF at] obtain ctx2 where
      r: "do { (ctx, ch) \<leftarrow> get_next_char sc inbuf_vtable ?ctx; read_argument_loop sc inbuf_vtable ctx ch } = Some ctx2"
        "ibp.at ctx2 STATE_ERROR [44, byte_of (48 + e)]" by (auto simp: digit_byte_iff)
    from ibp.get_next_char_ok [OF at] obtain s' where
      s': "get_next_char sc inbuf_vtable ?ctx = Some (?ctx\<lparr>ex_stream := s'\<rparr>, next_char ?w)" .
    have loop: "read_argument_loop sc inbuf_vtable (?ctx\<lparr>ex_stream := s'\<rparr>) (next_char ?w) = Some ctx2"
      using r(1) s' by simp
    have st: "ex_state ctx' = STATE_READ_VALUE" "ex_state ctx2 = STATE_ERROR" using s(2) r(2) by (simp_all add: ibp.at_def)
    have "try_reading_next_arg sc inbuf_vtable ctx' = Some (ctx2, - 1)"
      using s' loop st by (simp add: try_reading_next_arg_def)
    with s(1) st True pend show thesis by (intro that [of ctx2]) (auto simp: execute_get_next_arg_def)
  next
    case False
    from ibp.next_arg_pending [OF c1(2) assms(3) vw False] es obtain ctx' where
      p: "ibp.at ctx' STATE_FINISHED_READING_ARGUMENT [byte_of (48 + e)]"
        "execute_get_next_arg sc inbuf_vtable ctx1 = execute_get_next_arg sc inbuf_vtable ctx'" by auto
    from ibp.next_arg_ok [OF p(1) plain_digit [OF assms(2)] disjI2 [OF refl]] assms(2) e obtain ctx2 where
      "execute_get_next_arg sc inbuf_vtable ctx' = Some (ctx2, 0, Some (int e, False))"
      unfolding list.case by (auto simp: after_digit_def)
    with p(2) False pend show thesis by (intro that [of ctx2]) auto
  qed
  with c1(1) show ?thesis unfolding bytes by blast
qed

theorem execute_skips_value_witness:
  "\<exists>ctx1 ctx2. execute_get_next_arg True inbuf_vtable (execute_payload (args_bytes [(0, Some (replicate 126 65)), (1, None)]))
      = Some (ctx1, 0, Some (0, True))
    \<and> execute_get_next_arg True inbuf_vtable ctx1 = Some (ctx2, ERR_BAD_REQUEST, None)"
proof -
  have "list_all value_char (replicate 126 65)" by (simp add: list_all_iff value_char_def is_value_def)
  from execute_skips_value [OF _ _ this, of 0 1 True] show ?thesis by simp
qed

lemma sint_large: "128 \<le> b \<Longrightarrow> sint b < 0 \<and> (sint b = - 1 \<longleftrightarrow> b = 255)" for b :: byte
proof -
  assume b: "128 \<le> b"
  then have "\<not> uint b < 128" by (simp add: word_le_def)
  moreover have lt: "uint b < 256" using unsigned_less [of b, where 'a = int] by simp
  moreover have "sint b = (if uint b < 128 then uint b else uint b - 256)"
  proof -
    have "sint b = (uint b + 128) mod 256 - 128"
      by (simp add: sint_uint signed_take_bit_eq_take_bit_shift take_bit_eq_mod)
    moreover have "(u + 128) mod 256 - 128 = (if u < 128 then u else u - 256)" if "0 \<le> u" "u < 256" for u :: int
    proof (cases "u < 128")
      case False
      have "(u + 128) mod 256 = (u - 128 + 256) mod 256" by (rule arg_cong [where f = "\<lambda>x. x mod 256"]) simp
      also have "\<dots> = u - 128" using that False by (simp only: mod_add_self2) simp
      finally show ?thesis using False by simp
    qed (use that in simp)
    ultimately show ?thesis using lt by simp
  qed
  moreover have "b = 255 \<longleftrightarrow> uint b = 255" by (simp add: uint_byte_eq)
  ultimately show ?thesis by auto
qed

text \<open>C36: Where \<open>char\<close> is signed, a byte from 128 to 254 at the beginning of the payload fails the assertion on
  the range of the character, so that any client can abort a device built with assertions, and the byte
  255 is taken for the end of the payload. Where \<open>char\<close> is unsigned the answer is Bad Request.\<close>

theorem execute_negative_character:
  assumes "128 \<le> b"
  shows "(b \<noteq> 255 \<longrightarrow> execute_get_next_arg True inbuf_vtable (execute_payload (b # r)) = None)
    \<and> (b = 255 \<longrightarrow> (\<exists>ctx. execute_get_next_arg True inbuf_vtable (execute_payload (b # r))
         = Some (ctx, EXECUTE_GET_ARG_END, Some (- 1, False))))
    \<and> (\<exists>ctx. execute_get_next_arg False inbuf_vtable (execute_payload (b # r)) = Some (ctx, ERR_BAD_REQUEST, None))"
proof -
  let ?c = "execute_payload (b # r)"
  let ?ctx = "?c\<lparr>ex_arg := - 1, ex_has_value := False\<rparr>"
  have c: "ex_state ?c = STATE_READ_ARGUMENT" "inbuf_ok (ex_stream ?ctx)" "inbuf_content (ex_stream ?ctx) = b # r"
    using execute_payload_at [of "b # r"] by (simp_all add: ibp.at_def)
  from ibs.read_reliably_ok [OF c(2), of 1] c(3) obtain s' where
    "stream_read_reliably inbuf_vtable (ex_stream ?ctx) 1 = Some (s', AVS_OK, [b])" by auto
  then have g: "get_next_char True inbuf_vtable ?ctx = Some (?ctx\<lparr>ex_stream := s'\<rparr>, sint b)"
    by (simp add: get_next_char_def rd8_def char_value_def)
  have skip: "skip_value sc inbuf_vtable ?c = Some (?c, 0)" for sc using c(1) by (simp add: skip_value_def)
  have "execute_get_next_arg True inbuf_vtable ?c = None" if "b \<noteq> 255"
  proof -
    have "state_read_argument True inbuf_vtable (?ctx\<lparr>ex_stream := s'\<rparr>) (sint b) = None"
      using sint_large [OF assms] that by (simp add: state_read_argument_def c_assert_def)
    then have "read_argument_loop True inbuf_vtable (?ctx\<lparr>ex_stream := s'\<rparr>) (sint b) = None"
      by (subst read_argument_loop.simps) simp
    then have "try_reading_next_arg True inbuf_vtable ?c = None"
      using g c(1) by (simp add: try_reading_next_arg_def)
    with skip c(1) show ?thesis by (simp add: execute_get_next_arg_def)
  qed
  moreover have "\<exists>ctx. execute_get_next_arg True inbuf_vtable ?c = Some (ctx, EXECUTE_GET_ARG_END, Some (- 1, False))" if "b = 255"
  proof -
    have "sint b = - 1" using sint_large [OF assms] that by simp
    then have "read_argument_loop True inbuf_vtable (?ctx\<lparr>ex_stream := s'\<rparr>) (sint b)
        = Some (?ctx\<lparr>ex_stream := s', ex_state := STATE_EOF\<rparr>)"
      by (subst read_argument_loop.simps) (simp add: state_read_argument_def)
    with g c(1) have "\<exists>ctx. try_reading_next_arg True inbuf_vtable ?c = Some (ctx, EXECUTE_GET_ARG_END)
        \<and> ex_arg ctx = - 1 \<and> \<not> ex_has_value ctx"
      by (simp add: try_reading_next_arg_def)
    with skip c(1) show ?thesis by (auto simp: execute_get_next_arg_def)
  qed
  moreover have "\<exists>ctx. execute_get_next_arg False inbuf_vtable ?c = Some (ctx, ERR_BAD_REQUEST, None)"
  proof -
    have "plain_chars False (b # r)" by (simp add: plain_chars_def)
    moreover have "\<not> digit_byte b" using assms by (simp add: digit_byte_iff word_le_nat_alt)
    ultimately show ?thesis
      using ibp.next_arg_ok [OF execute_payload_at [of "b # r"] _ disjI1 [OF refl], of False] by (simp del: plain_chars_Cons)
  qed
  ultimately show ?thesis by blast
qed

theorem execute_negative_character_witness:
  "execute_get_next_arg True inbuf_vtable (execute_payload [0xC3, 0xA9]) = None"
  using execute_negative_character [of "0xC3" "[0xA9]"] by simp

end
