(* ===== verification/Uri_Path.thy ===== *)
theory Uri_Path
  imports Anjay_Prelude "HOL-Library.Sublist"
begin

text \<open>
  Data model paths (\<open>anjay_dm_utils.h\<close>): an array of four identifiers that ends at the first
  \<open>ANJAY_ID_INVALID\<close>, and the comparisons on it. The theory shows that they are the equality, the
  prefix relation and a lexicographic order of the identifiers before that mark, whatever the
  array holds behind it.
\<close>

section \<open>Identifiers and paths\<close>

datatype anjay_id_type = ANJAY_ID_OID | ANJAY_ID_IID | ANJAY_ID_RID | ANJAY_ID_RIID

text \<open>The numerical values of the enumeration, on which the code depends.\<close>

primrec id_index :: "anjay_id_type \<Rightarrow> nat" where
  "id_index ANJAY_ID_OID = 0"
| "id_index ANJAY_ID_IID = 1"
| "id_index ANJAY_ID_RID = 2"
| "id_index ANJAY_ID_RIID = 3"

lemma id_index_inject [simp]: "id_index a = id_index b \<longleftrightarrow> a = b"
  by (cases a; cases b) simp_all

lemma id_index_lt_4 [simp]: "id_index a < 4"
  by (cases a) simp_all

text \<open>The enumeration is ordered by its values.\<close>

instantiation anjay_id_type :: linorder
begin

definition less_eq_anjay_id_type :: "anjay_id_type \<Rightarrow> anjay_id_type \<Rightarrow> bool" where
  "less_eq_anjay_id_type a b \<longleftrightarrow> id_index a \<le> id_index b"

definition less_anjay_id_type :: "anjay_id_type \<Rightarrow> anjay_id_type \<Rightarrow> bool" where
  "less_anjay_id_type a b \<longleftrightarrow> id_index a < id_index b"

instance
  by standard (auto simp: less_eq_anjay_id_type_def less_anjay_id_type_def)

end

abbreviation (input) ANJAY_ID_INVALID :: nat where "ANJAY_ID_INVALID \<equiv> 65535"

record anjay_uri_path =
  path_ids :: "nat list"

definition path_ok :: "anjay_uri_path \<Rightarrow> bool" where
  "path_ok p \<longleftrightarrow> length (path_ids p) = 4 \<and> (\<forall>i \<in> set (path_ids p). i < 65536)"

definition path_id :: "anjay_uri_path \<Rightarrow> anjay_id_type \<Rightarrow> nat" where
  "path_id p t = path_ids p ! id_index t"

definition path_update :: "anjay_uri_path \<Rightarrow> anjay_id_type \<Rightarrow> nat \<Rightarrow> anjay_uri_path" where
  "path_update p t i = p\<lparr>path_ids := (path_ids p)[id_index t := i]\<rparr>"

definition make_uri_path :: "nat \<Rightarrow> nat \<Rightarrow> nat \<Rightarrow> nat \<Rightarrow> anjay_uri_path" where
  "make_uri_path oid iid rid riid = \<lparr>path_ids = [oid, iid, rid, riid]\<rparr>"

definition make_root_path :: anjay_uri_path where
  "make_root_path = make_uri_path ANJAY_ID_INVALID ANJAY_ID_INVALID ANJAY_ID_INVALID ANJAY_ID_INVALID"

section \<open>Operations\<close>

text \<open>The loop that counts up to the first invalid identifier.\<close>

primrec count_valid :: "nat list \<Rightarrow> nat" where
  "count_valid [] = 0"
| "count_valid (i # is') = (if i = ANJAY_ID_INVALID then 0 else Suc (count_valid is'))"

definition uri_path_length :: "anjay_uri_path \<Rightarrow> nat" where
  "uri_path_length p = count_valid (path_ids p)"

definition uri_path_has :: "anjay_uri_path \<Rightarrow> anjay_id_type \<Rightarrow> bool" where
  "uri_path_has p t \<longleftrightarrow> uri_path_length p > id_index t"

definition uri_path_leaf_is :: "anjay_uri_path \<Rightarrow> anjay_id_type \<Rightarrow> bool" where
  "uri_path_leaf_is p t \<longleftrightarrow> uri_path_length p = id_index t + 1"

fun compare_ids :: "nat list \<Rightarrow> nat list \<Rightarrow> int" where
  "compare_ids (l # ls) (r # rs) =
     (if l < r then - 1 else if l > r then 1 else if l = ANJAY_ID_INVALID then 0 else compare_ids ls rs)"
| "compare_ids _ _ = 0"

definition uri_path_compare :: "anjay_uri_path \<Rightarrow> anjay_uri_path \<Rightarrow> int" where
  "uri_path_compare left right = compare_ids (path_ids left) (path_ids right)"

definition uri_path_equal :: "anjay_uri_path \<Rightarrow> anjay_uri_path \<Rightarrow> bool" where
  "uri_path_equal left right \<longleftrightarrow> uri_path_compare left right = 0"

fun ids_outside_base :: "nat list \<Rightarrow> nat list \<Rightarrow> bool" where
  "ids_outside_base (p # ps) (b # bs) =
     (if b = ANJAY_ID_INVALID then False else if p \<noteq> b then True else ids_outside_base ps bs)"
| "ids_outside_base _ _ = False"

definition uri_path_outside_base :: "anjay_uri_path \<Rightarrow> anjay_uri_path \<Rightarrow> bool" where
  "uri_path_outside_base path base = ids_outside_base (path_ids path) (path_ids base)"

definition uri_path_normalized :: "anjay_uri_path \<Rightarrow> bool" where
  "uri_path_normalized p \<longleftrightarrow> (\<forall>i \<in> set (drop (uri_path_length p + 1) (path_ids p)). i = ANJAY_ID_INVALID)"

section \<open>What they compute\<close>

text \<open>The identifiers of a path.\<close>

definition path_seq :: "anjay_uri_path \<Rightarrow> nat list" where
  "path_seq p = takeWhile (\<lambda>i. i \<noteq> ANJAY_ID_INVALID) (path_ids p)"

lemma count_valid_eq: "count_valid is' = length (takeWhile (\<lambda>i. i \<noteq> ANJAY_ID_INVALID) is')"
  by (induction is') simp_all

lemma uri_path_length_eq: "uri_path_length p = length (path_seq p)"
  by (simp add: uri_path_length_def path_seq_def count_valid_eq)

lemma uri_path_length_le: "path_ok p \<Longrightarrow> uri_path_length p \<le> 4"
  using length_takeWhile_le [of _ "path_ids p"] by (simp add: uri_path_length_eq path_seq_def path_ok_def)

lemma path_seq_nth: "i < uri_path_length p \<Longrightarrow> path_ids p ! i = path_seq p ! i \<and> path_ids p ! i \<noteq> ANJAY_ID_INVALID"
  using takeWhile_nth [of i _ "path_ids p"] nth_mem [of i "path_seq p"] set_takeWhileD
  unfolding uri_path_length_eq path_seq_def by fastforce

text \<open>The order compares identifiers from the left, and a path is above its extensions.\<close>

fun ids_less :: "nat list \<Rightarrow> nat list \<Rightarrow> bool" where
  "ids_less _ [] = False"
| "ids_less [] (_ # _) = False"
| "ids_less (l # ls) (r # rs) = (l < r \<or> l = r \<and> ids_less ls rs)"

definition path_less :: "nat list \<Rightarrow> nat list \<Rightarrow> bool" where
  "path_less ls rs = ids_less (ls @ [ANJAY_ID_INVALID]) (rs @ [ANJAY_ID_INVALID])"

lemma compare_ids_correct:
  assumes "length ls = length rs" "\<forall>i \<in> set ls. i < 65536" "\<forall>i \<in> set rs. i < 65536"
  shows "compare_ids ls rs =
     (let l = takeWhile (\<lambda>i. i \<noteq> ANJAY_ID_INVALID) ls; r = takeWhile (\<lambda>i. i \<noteq> ANJAY_ID_INVALID) rs
      in if l = r then 0 else if path_less l r then - 1 else 1)"
  using assms
  by (induction ls rs rule: list_induct2) (auto simp: Let_def path_less_def)

lemma outside_base_prefix:
  assumes "length ps = length bs"
  shows "ids_outside_base ps bs \<longleftrightarrow>
    \<not> prefix (takeWhile (\<lambda>i. i \<noteq> ANJAY_ID_INVALID) bs) (takeWhile (\<lambda>i. i \<noteq> ANJAY_ID_INVALID) ps)"
  using assms by (induction ps bs rule: list_induct2) auto

lemma uri_path_outside_base_iff:
  "path_ok p \<Longrightarrow> path_ok b \<Longrightarrow> uri_path_outside_base p b \<longleftrightarrow> \<not> prefix (path_seq b) (path_seq p)"
  by (simp add: uri_path_outside_base_def path_seq_def outside_base_prefix path_ok_def)

lemma uri_path_equal_iff:
  "path_ok l \<Longrightarrow> path_ok r \<Longrightarrow> uri_path_equal l r \<longleftrightarrow> path_seq l = path_seq r"
  by (simp add: uri_path_equal_def uri_path_compare_def compare_ids_correct path_ok_def path_seq_def Let_def)

lemma path_update_ok: "path_ok p \<Longrightarrow> i < 65536 \<Longrightarrow> path_ok (path_update p t i)"
  by (auto simp: path_ok_def path_update_def dest: subsetD [OF set_update_subset_insert])

lemma make_uri_path_ok:
  "\<lbrakk>a < 65536; b < 65536; c < 65536; d < 65536\<rbrakk> \<Longrightarrow> path_ok (make_uri_path a b c d)"
  by (simp add: path_ok_def make_uri_path_def)

section \<open>Properties\<close>

text \<open>Comparing paths is a total order of the identifiers they consist of: the result is 0
  exactly for paths of the same identifiers, negative when the left one comes first
  lexicographically, where a path comes after all its extensions, and swapping the arguments
  negates it. What the arrays hold behind the end of the path has no influence.\<close>

theorem uri_path_compare_correct:
  assumes "path_ok l" and "path_ok r"
  shows "uri_path_compare l r =
      (if path_seq l = path_seq r then 0 else if path_less (path_seq l) (path_seq r) then - 1 else 1)
    \<and> uri_path_compare r l = - uri_path_compare l r"
proof -
  have "compare_ids rs ls = - compare_ids ls rs" for ls rs
    by (induction ls rs rule: compare_ids.induct) auto
  then have "uri_path_compare r l = - uri_path_compare l r" unfolding uri_path_compare_def by blast
  moreover have "uri_path_compare l r =
      (if path_seq l = path_seq r then 0 else if path_less (path_seq l) (path_seq r) then - 1 else 1)"
    using assms by (simp add: uri_path_compare_def compare_ids_correct path_ok_def path_seq_def Let_def)
  ultimately show ?thesis by blast
qed

theorem uri_path_compare_witness:
  "uri_path_compare (make_uri_path 3 0 65535 7) (make_uri_path 3 0 1 65535) = 1
   \<and> uri_path_compare (make_uri_path 3 0 65535 7) (make_uri_path 3 0 65535 9) = 0"
  using uri_path_compare_correct [of "make_uri_path 3 0 65535 7" "make_uri_path 3 0 1 65535"]
    uri_path_compare_correct [of "make_uri_path 3 0 65535 7" "make_uri_path 3 0 65535 9"]
  by (simp add: make_uri_path_def path_ok_def path_seq_def path_less_def)

end
