(* ===== verification/Tlv_Out.thy ===== *)
theory Tlv_Out
  imports Uri_Path Avs_Stream
begin

text \<open>
  The TLV serializer of LwM2M (\<open>anjay_tlv_out.c\<close>) together with the wrappers of
  \<open>anjay_io_core.c\<close> through which it is called. Entries of the root level go to the stream at once;
  entries of deeper levels are collected and written as the value of their parent entry when the
  level is finished. The theory shows what each operation does to the tree of entries under
  construction and what is in the stream when the context is closed.
\<close>

section \<open>Data\<close>

datatype tlv_id_type = TLV_ID_IID | TLV_ID_RIID | TLV_ID_RID_ARRAY | TLV_ID_RID

primrec tlv_id_type_value :: "tlv_id_type \<Rightarrow> nat" where
  "tlv_id_type_value TLV_ID_IID = 0"
| "tlv_id_type_value TLV_ID_RIID = 1"
| "tlv_id_type_value TLV_ID_RID_ARRAY = 2"
| "tlv_id_type_value TLV_ID_RID = 3"

record tlv_id =
  tid_type :: tlv_id_type
  tid_id :: nat

abbreviation (input) TLV_MAX_LENGTH :: nat where "TLV_MAX_LENGTH \<equiv> 16777215"

record tlv_entry =
  te_data_length :: nat
  te_id :: tlv_id
  te_data :: bytes

text \<open>
  The writer of the bytes of one value. Which of the two tables of functions it has also says which
  member of the union is valid: the stream, which is always the stream of the context, or a pointer
  into the data of the entry that was added last on the same level, given here as an offset.
\<close>

datatype bytes_vtable = NULL_VTABLE | STREAMED_BYTES_VTABLE | BUFFERED_BYTES_VTABLE

record tlv_bytes =
  tb_vtable :: bytes_vtable
  tb_buffer_ptr :: nat
  tb_bytes_left :: nat

text \<open>\<open>next_entry_ptr\<close> always is the end of the list, so adding an entry appends it.\<close>

record tlv_out_level =
  ol_entries :: "tlv_entry list"
  ol_next_id :: nat
  ol_bytes_ctx :: tlv_bytes

abbreviation (input) TLV_OUT_LEVEL_IID :: nat where "TLV_OUT_LEVEL_IID \<equiv> 0"
abbreviation (input) TLV_OUT_LEVEL_RID :: nat where "TLV_OUT_LEVEL_RID \<equiv> 1"
abbreviation (input) TLV_OUT_LEVEL_RIID :: nat where "TLV_OUT_LEVEL_RIID \<equiv> 2"

text \<open>The context; \<open>to_error\<close> is the error of the base structure, the first nonzero result.\<close>

record 's tlv_out =
  to_error :: int
  to_stream :: 's
  to_root_path :: anjay_uri_path
  to_levels :: "tlv_out_level list"
  to_level :: nat

section \<open>Entry headers\<close>

fun u32_length :: "nat \<Rightarrow> nat" where
  "u32_length value = (if value div 256 = 0 then 1 else Suc (u32_length (value div 256)))"

declare u32_length.simps [simp del]

definition typefield_length :: "nat \<Rightarrow> nat" where
  "typefield_length len = (if len \<le> 7 then len else u32_length len * 8)"

definition write_shortened_u32 :: "'s stream_vtable \<Rightarrow> 's \<Rightarrow> nat \<Rightarrow> ('s \<times> int) option" where
  "write_shortened_u32 vt s value = do {
     let len = u32_length value;
     c_assert (len \<le> 4);
     (s, err) \<leftarrow> stream_write vt s (drop (4 - len) (be_bytes 4 value));
     Some (s, if err = AVS_OK then 0 else - 1) }"

definition header_size :: "nat \<Rightarrow> nat \<Rightarrow> nat option" where
  "header_size eid len = do {
     c_assert (len < 2 ^ 32);
     Some (1 + u32_length eid + (if len > 7 then u32_length len else 0)) }"

definition tlv_typefield :: "tlv_id_type \<Rightarrow> nat \<Rightarrow> nat \<Rightarrow> nat" where
  "tlv_typefield type eid len =
     ((push_bit 6 (tlv_id_type_value type AND 3)) OR (if eid > 255 then 0x20 else 0)) OR typefield_length len"

definition write_header ::
  "'s stream_vtable \<Rightarrow> 's \<Rightarrow> tlv_id_type \<Rightarrow> nat \<Rightarrow> nat \<Rightarrow> ('s \<times> int) option" where
  "write_header vt s type eid len =
     (if eid = ANJAY_ID_INVALID \<or> len > TLV_MAX_LENGTH then Some (s, - 1)
      else do {
        (s, err) \<leftarrow> stream_write vt s [byte_of (tlv_typefield type eid len)];
        if err \<noteq> AVS_OK then Some (s, - 1)
        else do {
          (s, r) \<leftarrow> write_shortened_u32 vt s eid;
          if r \<noteq> 0 then Some (s, - 1)
          else if len > 7 then write_shortened_u32 vt s len
          else Some (s, 0) } })"

definition write_entry ::
  "'s stream_vtable \<Rightarrow> 's \<Rightarrow> tlv_id \<Rightarrow> bytes \<Rightarrow> nat \<Rightarrow> ('s \<times> int) option" where
  "write_entry vt s eid buf len = do {
     (s, r) \<leftarrow> write_header vt s (tid_type eid) (tid_id eid) len;
     if r \<noteq> 0 then Some (s, - 1)
     else do {
       bs \<leftarrow> rd_bytes buf 0 len;
       (s, err) \<leftarrow> stream_write vt s bs;
       Some (s, if err = AVS_OK then 0 else - 1) } }"

section \<open>Levels\<close>

definition level_at :: "'s tlv_out \<Rightarrow> nat \<Rightarrow> tlv_out_level option" where
  "level_at ctx i = (if i < length (to_levels ctx) then Some (to_levels ctx ! i) else None)"

definition set_level :: "'s tlv_out \<Rightarrow> nat \<Rightarrow> tlv_out_level \<Rightarrow> 's tlv_out" where
  "set_level ctx i l = ctx\<lparr>to_levels := (to_levels ctx)[i := l]\<rparr>"

definition current_level :: "'s tlv_out \<Rightarrow> tlv_out_level option" where
  "current_level ctx = level_at ctx (to_level ctx)"

definition root_level :: "anjay_uri_path \<Rightarrow> nat option" where
  "root_level p =
     (let n = uri_path_length p
      in if n = 1 then Some TLV_OUT_LEVEL_IID
         else if n = 2 \<or> n = 3 then Some TLV_OUT_LEVEL_RID
         else if n = 4 then Some TLV_OUT_LEVEL_RIID
         else None)"

definition current_level_value_type :: "'s tlv_out \<Rightarrow> tlv_id_type option" where
  "current_level_value_type ctx = do {
     l \<leftarrow> current_level ctx;
     c_assert (ol_next_id l \<noteq> ANJAY_ID_INVALID);
     if to_level ctx = TLV_OUT_LEVEL_RID then Some TLV_ID_RID
     else if to_level ctx = TLV_OUT_LEVEL_RIID then Some TLV_ID_RIID
     else None }"

text \<open>
  The allocator is asked for the data size of an entry; the constant size of its header is left out.
  The memory is zeroed. The result says whether the allocation succeeded.
\<close>

definition add_buffered_entry ::
  "allocator \<Rightarrow> 's tlv_out \<Rightarrow> tlv_id_type \<Rightarrow> nat \<Rightarrow> ('s tlv_out \<times> bool) option" where
  "add_buffered_entry alloc ctx type len =
     (if alloc len = None then Some (ctx, False)
      else do {
        l \<leftarrow> current_level ctx;
        let e = \<lparr>te_data_length = len, te_id = \<lparr>tid_type = type, tid_id = ol_next_id l\<rparr>,
                 te_data = replicate len 0\<rparr>;
        Some (set_level ctx (to_level ctx) (l\<lparr>ol_next_id := ANJAY_ID_INVALID, ol_entries := ol_entries l @ [e]\<rparr>),
              True) })"

section \<open>Writing the bytes of a value\<close>

text \<open>
  A pointer to the bytes context of a level is the number of the level.
\<close>

definition streamed_bytes_append ::
  "'s stream_vtable \<Rightarrow> 's tlv_out \<Rightarrow> nat \<Rightarrow> bytes \<Rightarrow> ('s tlv_out \<times> int) option" where
  "streamed_bytes_append vt ctx lvl data = do {
     l \<leftarrow> level_at ctx lvl;
     let b = ol_bytes_ctx l;
     c_assert (tb_vtable b = STREAMED_BYTES_VTABLE);
     if length data \<noteq> 0 then
       if length data > tb_bytes_left b then Some (ctx, - 1)
       else do {
         (s, err) \<leftarrow> stream_write vt (to_stream ctx) data;
         let ctx = ctx\<lparr>to_stream := s\<rparr>;
         if err \<noteq> AVS_OK then Some (ctx, - 1)
         else Some (set_level ctx lvl (l\<lparr>ol_bytes_ctx := b\<lparr>tb_bytes_left := tb_bytes_left b - length data\<rparr>\<rparr>), 0) }
     else Some (ctx, 0) }"

definition buffered_bytes_append ::
  "'s tlv_out \<Rightarrow> nat \<Rightarrow> bytes \<Rightarrow> ('s tlv_out \<times> int) option" where
  "buffered_bytes_append ctx lvl data = do {
     l \<leftarrow> level_at ctx lvl;
     let b = ol_bytes_ctx l;
     c_assert (tb_vtable b = BUFFERED_BYTES_VTABLE);
     if length data \<noteq> 0 \<and> length data > tb_bytes_left b then Some (ctx, - 1)
     else do {
       l \<leftarrow> (if length data \<noteq> 0 then do {
           c_assert (ol_entries l \<noteq> []);
           let e = last (ol_entries l);
           m \<leftarrow> wr_bytes (te_data e) (tb_buffer_ptr b) data;
           Some (l\<lparr>ol_entries := butlast (ol_entries l) @ [e\<lparr>te_data := m\<rparr>]\<rparr>) }
         else Some l);
       let b = b\<lparr>tb_buffer_ptr := tb_buffer_ptr b + length data, tb_bytes_left := tb_bytes_left b - length data\<rparr>;
       Some (set_level ctx lvl (l\<lparr>ol_bytes_ctx := b\<rparr>), 0) } }"

definition ret_bytes_append ::
  "'s stream_vtable \<Rightarrow> 's tlv_out \<Rightarrow> nat \<Rightarrow> bytes \<Rightarrow> ('s tlv_out \<times> int) option" where
  "ret_bytes_append vt ctx lvl data = do {
     l \<leftarrow> level_at ctx lvl;
     (case tb_vtable (ol_bytes_ctx l) of
        NULL_VTABLE \<Rightarrow> None
      | STREAMED_BYTES_VTABLE \<Rightarrow> streamed_bytes_append vt ctx lvl data
      | BUFFERED_BYTES_VTABLE \<Rightarrow> buffered_bytes_append ctx lvl data) }"

text \<open>The result is the level of the bytes context, or \<open>None\<close> for a null pointer.\<close>

definition add_entry ::
  "'s stream_vtable \<Rightarrow> allocator \<Rightarrow> 's tlv_out \<Rightarrow> tlv_id_type \<Rightarrow> nat
   \<Rightarrow> ('s tlv_out \<times> nat option) option" where
  "add_entry vt alloc ctx type len = do {
     l \<leftarrow> current_level ctx;
     if len > TLV_MAX_LENGTH \<or> tb_bytes_left (ol_bytes_ctx l) \<noteq> 0 then Some (ctx, None)
     else do {
       root \<leftarrow> root_level (to_root_path ctx);
       if to_level ctx > root then do {
         (ctx, ok) \<leftarrow> add_buffered_entry alloc ctx type len;
         if ok then do {
           l \<leftarrow> current_level ctx;
           Some (set_level ctx (to_level ctx)
                   (l\<lparr>ol_bytes_ctx := \<lparr>tb_vtable = BUFFERED_BYTES_VTABLE, tb_buffer_ptr = 0, tb_bytes_left = len\<rparr>\<rparr>),
                 Some (to_level ctx)) }
         else Some (ctx, None) }
       else do {
         (s, r) \<leftarrow> write_header vt (to_stream ctx) type (ol_next_id l) len;
         let ctx = set_level (ctx\<lparr>to_stream := s\<rparr>) (to_level ctx) (l\<lparr>ol_next_id := ANJAY_ID_INVALID\<rparr>);
         if r = 0 then
           Some (set_level ctx (to_level ctx)
                   (l\<lparr>ol_next_id := ANJAY_ID_INVALID,
                      ol_bytes_ctx := \<lparr>tb_vtable = STREAMED_BYTES_VTABLE, tb_buffer_ptr = 0, tb_bytes_left = len\<rparr>\<rparr>),
                 Some (to_level ctx))
         else Some (ctx, None) } } }"

definition tlv_ret_bytes ::
  "'s stream_vtable \<Rightarrow> allocator \<Rightarrow> 's tlv_out \<Rightarrow> nat \<Rightarrow> ('s tlv_out \<times> nat option \<times> int) option" where
  "tlv_ret_bytes vt alloc ctx len = do {
     type \<leftarrow> current_level_value_type ctx;
     (ctx, h) \<leftarrow> add_entry vt alloc ctx type len;
     Some (ctx, h, if h = None then - 1 else 0) }"

text \<open>\<open>_anjay_update_ret\<close>: the first error is kept.\<close>

definition update_ret :: "int \<Rightarrow> int \<Rightarrow> int" where
  "update_ret var new_retval = (if var = 0 then new_retval else var)"

definition output_bytes_begin ::
  "'s stream_vtable \<Rightarrow> allocator \<Rightarrow> 's tlv_out \<Rightarrow> nat \<Rightarrow> ('s tlv_out \<times> nat option \<times> int) option" where
  "output_bytes_begin vt alloc ctx len = do {
     (ctx, h, result) \<leftarrow> tlv_ret_bytes vt alloc ctx len;
     Some (ctx\<lparr>to_error := update_ret (to_error ctx) result\<rparr>, h, result) }"

definition ret_bytes_begin ::
  "'s stream_vtable \<Rightarrow> allocator \<Rightarrow> 's tlv_out \<Rightarrow> nat \<Rightarrow> ('s tlv_out \<times> nat option) option" where
  "ret_bytes_begin vt alloc ctx len = do {
     (ctx, h, result) \<leftarrow> output_bytes_begin vt alloc ctx len;
     c_assert (result = 0 \<longleftrightarrow> h \<noteq> None);
     Some (ctx, h) }"

definition ret_bytes ::
  "'s stream_vtable \<Rightarrow> allocator \<Rightarrow> 's tlv_out \<Rightarrow> bytes \<Rightarrow> ('s tlv_out \<times> int) option" where
  "ret_bytes vt alloc ctx data = do {
     (ctx, h) \<leftarrow> ret_bytes_begin vt alloc ctx (length data);
     (case h of None \<Rightarrow> Some (ctx, - 1) | Some lvl \<Rightarrow> ret_bytes_append vt ctx lvl data) }"

section \<open>Values\<close>

text \<open>
  Integers are returned in the shortest of 1, 2, 4 or 8 bytes that holds them. A conversion to a
  narrower signed type keeps the low bits, \<open>signed_take_bit\<close>.
\<close>

definition tlv_ret_i8 :: "'s stream_vtable \<Rightarrow> allocator \<Rightarrow> 's tlv_out \<Rightarrow> int \<Rightarrow> ('s tlv_out \<times> int) option" where
  "tlv_ret_i8 vt alloc ctx value = ret_bytes vt alloc ctx (be_bytes 1 (nat (value mod 2 ^ 8)))"

definition tlv_ret_i16 :: "'s stream_vtable \<Rightarrow> allocator \<Rightarrow> 's tlv_out \<Rightarrow> int \<Rightarrow> ('s tlv_out \<times> int) option" where
  "tlv_ret_i16 vt alloc ctx value =
     (if value = signed_take_bit 7 value then tlv_ret_i8 vt alloc ctx (signed_take_bit 7 value)
      else ret_bytes vt alloc ctx (be_bytes 2 (nat (value mod 2 ^ 16))))"

definition tlv_ret_i32 :: "'s stream_vtable \<Rightarrow> allocator \<Rightarrow> 's tlv_out \<Rightarrow> int \<Rightarrow> ('s tlv_out \<times> int) option" where
  "tlv_ret_i32 vt alloc ctx value =
     (if value = signed_take_bit 15 value then tlv_ret_i16 vt alloc ctx (signed_take_bit 15 value)
      else ret_bytes vt alloc ctx (be_bytes 4 (nat (value mod 2 ^ 32))))"

definition tlv_ret_i64 :: "'s stream_vtable \<Rightarrow> allocator \<Rightarrow> 's tlv_out \<Rightarrow> int \<Rightarrow> ('s tlv_out \<times> int) option" where
  "tlv_ret_i64 vt alloc ctx value =
     (if value = signed_take_bit 31 value then tlv_ret_i32 vt alloc ctx (signed_take_bit 31 value)
      else ret_bytes vt alloc ctx (be_bytes 8 (nat (value mod 2 ^ 64))))"

definition tlv_ret_bool :: "'s stream_vtable \<Rightarrow> allocator \<Rightarrow> 's tlv_out \<Rightarrow> bool \<Rightarrow> ('s tlv_out \<times> int) option" where
  "tlv_ret_bool vt alloc ctx value = tlv_ret_i8 vt alloc ctx (of_bool value)"

definition tlv_ret_objlnk ::
  "'s stream_vtable \<Rightarrow> allocator \<Rightarrow> 's tlv_out \<Rightarrow> nat \<Rightarrow> nat \<Rightarrow> ('s tlv_out \<times> int) option" where
  "tlv_ret_objlnk vt alloc ctx oid iid = ret_bytes vt alloc ctx (be_bytes 4 (push_bit 16 oid OR iid))"

text \<open>The string is given without its terminating zero, so \<open>strlen\<close> is its length.\<close>

definition tlv_ret_string ::
  "'s stream_vtable \<Rightarrow> allocator \<Rightarrow> 's tlv_out \<Rightarrow> bytes \<Rightarrow> ('s tlv_out \<times> int) option" where
  "tlv_ret_string vt alloc ctx value = ret_bytes vt alloc ctx value"

section \<open>Starting and finishing levels\<close>

text \<open>
  The assertion of \<open>tlv_slave_start\<close> lets the level grow by one beyond the array; the access
  behind it is what fails then.
\<close>

definition tlv_slave_start :: "'s tlv_out \<Rightarrow> 's tlv_out option" where
  "tlv_slave_start ctx = do {
     c_assert (to_level ctx + 1 \<le> length (to_levels ctx));
     let ctx = ctx\<lparr>to_level := to_level ctx + 1\<rparr>;
     l \<leftarrow> current_level ctx;
     c_assert (ol_entries l = []);
     Some (set_level ctx (to_level ctx) (l\<lparr>ol_next_id := ANJAY_ID_INVALID\<rparr>)) }"

text \<open>The sizes of all entries, and the loop that writes them until one fails.\<close>

primrec entries_size :: "tlv_entry list \<Rightarrow> nat option" where
  "entries_size [] = Some 0"
| "entries_size (e # es) = do {
     h \<leftarrow> header_size (tid_id (te_id e)) (te_data_length e);
     n \<leftarrow> entries_size es;
     Some (h + te_data_length e + n) }"

primrec write_entries :: "tlv_entry list \<Rightarrow> outbuf \<Rightarrow> int \<Rightarrow> (outbuf \<times> int) option" where
  "write_entries [] outbuf retval = Some (outbuf, retval)"
| "write_entries (e # es) outbuf retval = do {
     (outbuf, retval) \<leftarrow>
       (if retval = 0 then write_entry outbuf_vtable outbuf (te_id e) (te_data e) (te_data_length e)
        else Some (outbuf, retval));
     write_entries es outbuf retval }"

text \<open>The \<open>switch\<close> that picks the type of the entry a finished level becomes.\<close>

definition add_finished_entry ::
  "'s stream_vtable \<Rightarrow> allocator \<Rightarrow> 's tlv_out \<Rightarrow> nat \<Rightarrow> ('s tlv_out \<times> nat option) option" where
  "add_finished_entry vt alloc ctx len =
     (if to_level ctx = TLV_OUT_LEVEL_RID then add_entry vt alloc ctx TLV_ID_RID_ARRAY len
      else if to_level ctx = TLV_OUT_LEVEL_IID then add_entry vt alloc ctx TLV_ID_IID len
      else Some (ctx, None))"

definition tlv_slave_finish ::
  "'s stream_vtable \<Rightarrow> allocator \<Rightarrow> 's tlv_out \<Rightarrow> ('s tlv_out \<times> int) option" where
  "tlv_slave_finish vt alloc ctx = do {
     root \<leftarrow> root_level (to_root_path ctx);
     c_assert (to_level ctx > root);
     l \<leftarrow> current_level ctx;
     data_size \<leftarrow> entries_size (ol_entries l);
     let buffer = (if data_size = 0 then None else alloc data_size);
     let retval = (if data_size = 0 \<or> buffer \<noteq> None then 0 else - 1);
     let outbuf = outbuf_set_buffer AVS_STREAM_OUTBUF_STATIC_INITIALIZER (case buffer of None \<Rightarrow> [] | Some fill \<Rightarrow> map fill [0..<data_size]) data_size;
     (outbuf, retval) \<leftarrow> write_entries (ol_entries l) outbuf retval;
     let ctx = (set_level ctx (to_level ctx) (l\<lparr>ol_entries := []\<rparr>))\<lparr>to_level := to_level ctx - 1\<rparr>;
     if retval \<noteq> 0 then Some (ctx, retval)
     else do {
       let len = ob_offset outbuf;
       (ctx, h) \<leftarrow> add_finished_entry vt alloc ctx len;
       (case h of
          None \<Rightarrow> Some (ctx, - 1)
        | Some lvl \<Rightarrow> do { bs \<leftarrow> rd_bytes (ob_buffer outbuf) 0 len; ret_bytes_append vt ctx lvl bs }) } }"

definition tlv_start_aggregate :: "'s tlv_out \<Rightarrow> ('s tlv_out \<times> int) option" where
  "tlv_start_aggregate ctx = do {
     l \<leftarrow> current_level ctx;
     if to_level ctx = TLV_OUT_LEVEL_RID then
       if ol_next_id l \<noteq> ANJAY_ID_INVALID then do { ctx \<leftarrow> tlv_slave_start ctx; Some (ctx, 0) }
       else do { c_assert (uri_path_leaf_is (to_root_path ctx) ANJAY_ID_IID); Some (ctx, 0) }
     else do {
       c_assert (to_level ctx = TLV_OUT_LEVEL_IID);
       c_assert (ol_next_id l \<noteq> ANJAY_ID_INVALID);
       ctx \<leftarrow> tlv_slave_start ctx;
       Some (ctx, 0) } }"

section \<open>Paths\<close>

definition leaf_level :: "anjay_uri_path \<Rightarrow> nat option" where
  "leaf_level path = do {
     let path_length = uri_path_length path;
     c_assert (path_length \<ge> 2 \<and> path_length \<le> 4);
     Some (if path_length = 2 then TLV_OUT_LEVEL_IID
           else if path_length = 3 then TLV_OUT_LEVEL_RID else TLV_OUT_LEVEL_RIID) }"

definition id_from_path :: "anjay_uri_path \<Rightarrow> nat \<Rightarrow> nat option" where
  "id_from_path path level = do {
     c_assert (level = TLV_OUT_LEVEL_IID \<or> level = TLV_OUT_LEVEL_RID \<or> level = TLV_OUT_LEVEL_RIID);
     let id_type = (if level = TLV_OUT_LEVEL_IID then ANJAY_ID_IID
                    else if level = TLV_OUT_LEVEL_RID then ANJAY_ID_RID else ANJAY_ID_RIID);
     c_assert (uri_path_has path id_type);
     Some (path_id path id_type) }"

text \<open>The first of the given levels whose identifier is not the one of the path, or else \<open>limit\<close>.\<close>

primrec first_mismatch :: "'s tlv_out \<Rightarrow> anjay_uri_path \<Rightarrow> nat list \<Rightarrow> nat \<Rightarrow> nat option" where
  "first_mismatch ctx path [] limit = Some limit"
| "first_mismatch ctx path (i # is') limit = do {
     l \<leftarrow> level_at ctx i;
     pid \<leftarrow> id_from_path path i;
     if ol_next_id l \<noteq> pid then Some i else first_mismatch ctx path is' limit }"

partial_function (option) finish_levels ::
  "'s stream_vtable \<Rightarrow> allocator \<Rightarrow> 's tlv_out \<Rightarrow> nat \<Rightarrow> ('s tlv_out \<times> int) option" where
  "finish_levels vt alloc ctx finish_level =
     (if to_level ctx > finish_level then do {
        (ctx, result) \<leftarrow> tlv_slave_finish vt alloc ctx;
        if result \<noteq> 0 then Some (ctx, result) else finish_levels vt alloc ctx finish_level }
      else Some (ctx, 0))"

primrec open_levels :: "'s tlv_out \<Rightarrow> anjay_uri_path \<Rightarrow> nat list \<Rightarrow> 's tlv_out option" where
  "open_levels ctx path [] = Some ctx"
| "open_levels ctx path (i # is') = do {
     pid \<leftarrow> id_from_path path i;
     l \<leftarrow> level_at ctx i;
     ctx \<leftarrow> tlv_slave_start (set_level ctx i (l\<lparr>ol_next_id := pid\<rparr>));
     open_levels ctx path is' }"

definition tlv_set_path ::
  "'s stream_vtable \<Rightarrow> allocator \<Rightarrow> 's tlv_out \<Rightarrow> anjay_uri_path \<Rightarrow> ('s tlv_out \<times> int) option" where
  "tlv_set_path vt alloc ctx path = do {
     c_assert (\<not> uri_path_outside_base path (to_root_path ctx));
     lowest_level \<leftarrow> root_level (to_root_path ctx);
     new_level \<leftarrow> leaf_level path;
     l \<leftarrow> current_level ctx;
     if new_level \<ge> lowest_level \<and> ol_next_id l \<noteq> ANJAY_ID_INVALID then Some (ctx, - 1)
     else do {
       let finish_level = max new_level lowest_level;
       finish_level \<leftarrow> first_mismatch ctx path [lowest_level..<finish_level] finish_level;
       (ctx, result) \<leftarrow> finish_levels vt alloc ctx finish_level;
       if result \<noteq> 0 then Some (ctx, result)
       else do {
         ctx \<leftarrow> open_levels ctx path [to_level ctx..<new_level];
         c_assert (to_level ctx = max new_level lowest_level);
         pid \<leftarrow> (if new_level \<ge> lowest_level then id_from_path path (to_level ctx)
                else Some ANJAY_ID_INVALID);
         l \<leftarrow> current_level ctx;
         Some (set_level ctx (to_level ctx) (l\<lparr>ol_next_id := pid\<rparr>), 0) } } }"

definition tlv_clear_path :: "'s tlv_out \<Rightarrow> ('s tlv_out \<times> int) option" where
  "tlv_clear_path ctx = do {
     l \<leftarrow> current_level ctx;
     if ol_next_id l = ANJAY_ID_INVALID \<and> to_level ctx \<ge> TLV_OUT_LEVEL_RID then Some (ctx, - 1)
     else Some (set_level ctx (to_level ctx) (l\<lparr>ol_next_id := ANJAY_ID_INVALID\<rparr>), 0) }"

abbreviation (input) ANJAY_OUTCTXERR_ANJAY_RET_NOT_CALLED :: int where
  "ANJAY_OUTCTXERR_ANJAY_RET_NOT_CALLED \<equiv> - 3298"

partial_function (option) close_levels ::
  "'s stream_vtable \<Rightarrow> allocator \<Rightarrow> 's tlv_out \<Rightarrow> int \<Rightarrow> ('s tlv_out \<times> int) option" where
  "close_levels vt alloc ctx result = do {
     root \<leftarrow> root_level (to_root_path ctx);
     if to_level ctx > root then do {
       (ctx, r) \<leftarrow> tlv_slave_finish vt alloc ctx;
       close_levels vt alloc ctx (update_ret result r) }
     else Some (ctx, result) }"

definition tlv_output_close ::
  "'s stream_vtable \<Rightarrow> allocator \<Rightarrow> 's tlv_out \<Rightarrow> ('s tlv_out \<times> int) option" where
  "tlv_output_close vt alloc ctx = do {
     l \<leftarrow> current_level ctx;
     let result = (if ol_next_id l \<noteq> ANJAY_ID_INVALID then ANJAY_OUTCTXERR_ANJAY_RET_NOT_CALLED else 0);
     (ctx, result) \<leftarrow> close_levels vt alloc ctx result;
     Some (ctx\<lparr>to_levels := map (\<lambda>l. l\<lparr>ol_entries := []\<rparr>) (to_levels ctx)\<rparr>, result) }"

text \<open>\<open>avs_calloc\<close> zeroes the context; an identifier that is not set explicitly is 0, not invalid.\<close>

definition zero_level :: tlv_out_level where
  "zero_level = \<lparr>ol_entries = [], ol_next_id = 0,
     ol_bytes_ctx = \<lparr>tb_vtable = NULL_VTABLE, tb_buffer_ptr = 0, tb_bytes_left = 0\<rparr>\<rparr>"

definition output_tlv_create :: "'s \<Rightarrow> anjay_uri_path \<Rightarrow> 's tlv_out option" where
  "output_tlv_create stream uri = do {
     c_assert (uri_path_has uri ANJAY_ID_OID);
     level \<leftarrow> root_level uri;
     let ctx = \<lparr>to_error = 0, to_stream = stream, to_root_path = uri,
                to_levels = replicate 3 zero_level, to_level = level\<rparr>;
     l \<leftarrow> current_level ctx;
     Some (set_level ctx level (l\<lparr>ol_next_id := ANJAY_ID_INVALID\<rparr>)) }"

section \<open>The wrappers of the output context\<close>

text \<open>Every wrapper calls the function of the table and keeps the first error in the context.\<close>

definition with_error :: "('s tlv_out \<times> int) option \<Rightarrow> ('s tlv_out \<times> int) option" where
  "with_error call = do { (ctx, result) \<leftarrow> call;
     Some (ctx\<lparr>to_error := update_ret (to_error ctx) result\<rparr>, result) }"

definition anjay_ret_string :: "'s stream_vtable \<Rightarrow> allocator \<Rightarrow> 's tlv_out \<Rightarrow> bytes \<Rightarrow> ('s tlv_out \<times> int) option" where
  "anjay_ret_string vt alloc ctx value = with_error (tlv_ret_string vt alloc ctx value)"

definition anjay_ret_i64 :: "'s stream_vtable \<Rightarrow> allocator \<Rightarrow> 's tlv_out \<Rightarrow> int \<Rightarrow> ('s tlv_out \<times> int) option" where
  "anjay_ret_i64 vt alloc ctx value = with_error (tlv_ret_i64 vt alloc ctx value)"

definition anjay_ret_bool :: "'s stream_vtable \<Rightarrow> allocator \<Rightarrow> 's tlv_out \<Rightarrow> bool \<Rightarrow> ('s tlv_out \<times> int) option" where
  "anjay_ret_bool vt alloc ctx value = with_error (tlv_ret_bool vt alloc ctx value)"

definition anjay_ret_objlnk ::
  "'s stream_vtable \<Rightarrow> allocator \<Rightarrow> 's tlv_out \<Rightarrow> nat \<Rightarrow> nat \<Rightarrow> ('s tlv_out \<times> int) option" where
  "anjay_ret_objlnk vt alloc ctx oid iid = with_error (tlv_ret_objlnk vt alloc ctx oid iid)"

definition output_start_aggregate :: "'s tlv_out \<Rightarrow> ('s tlv_out \<times> int) option" where
  "output_start_aggregate ctx = with_error (tlv_start_aggregate ctx)"

definition output_set_path ::
  "'s stream_vtable \<Rightarrow> allocator \<Rightarrow> 's tlv_out \<Rightarrow> anjay_uri_path \<Rightarrow> ('s tlv_out \<times> int) option" where
  "output_set_path vt alloc ctx path = with_error (tlv_set_path vt alloc ctx path)"

definition output_clear_path :: "'s tlv_out \<Rightarrow> ('s tlv_out \<times> int) option" where
  "output_clear_path ctx = with_error (tlv_clear_path ctx)"

text \<open>The context is freed; what remains is the stream.\<close>

definition output_ctx_destroy :: "'s stream_vtable \<Rightarrow> allocator \<Rightarrow> 's tlv_out \<Rightarrow> ('s \<times> int) option" where
  "output_ctx_destroy vt alloc ctx = do {
     let result = to_error ctx;
     (ctx, r) \<leftarrow> tlv_output_close vt alloc ctx;
     Some (to_stream ctx, update_ret result r) }"

end
