(* ===== verification/Tlv_In.thy ===== *)
theory Tlv_In
  imports Tlv_Out
begin

text \<open>
  The TLV reader of LwM2M (\<open>anjay_tlv_in.c\<close>) and the wrappers of \<open>anjay_io_core.c\<close> for reading. The
  reader walks the nested entries of a stream without buffering them: it keeps a stack of the entries
  it is inside of, and the path it has put together from their identifiers.
\<close>

section \<open>Data\<close>

abbreviation (input) ANJAY_ERR_BAD_REQUEST :: int where "ANJAY_ERR_BAD_REQUEST \<equiv> - 128"
abbreviation (input) ANJAY_ERR_INTERNAL :: int where "ANJAY_ERR_INTERNAL \<equiv> - 160"
abbreviation (input) ANJAY_GET_PATH_END :: int where "ANJAY_GET_PATH_END \<equiv> 1"
abbreviation (input) ANJAY_BUFFER_TOO_SHORT :: int where "ANJAY_BUFFER_TOO_SHORT \<equiv> 1"

record tlv_in_entry =
  tie_type :: anjay_id_type
  tie_length :: nat
  tie_bytes_read :: nat

text \<open>The current entry is the first of the list.\<close>

record 's tlv_in =
  ti_stream :: 's
  ti_uri_path :: anjay_uri_path
  ti_has_path :: bool
  ti_is_array :: bool
  ti_current_path :: anjay_uri_path
  ti_current_path_len :: nat
  ti_entries :: "tlv_in_entry list"
  ti_finished :: bool

text \<open>New list elements are zeroed; the result says whether the allocation succeeded.\<close>

definition tlv_entry_push :: "allocator \<Rightarrow> 's tlv_in \<Rightarrow> 's tlv_in \<times> bool" where
  "tlv_entry_push alloc ctx =
     (if alloc 24 = None then (ctx, False)
      else (ctx\<lparr>ti_entries := \<lparr>tie_type = ANJAY_ID_OID, tie_length = 0, tie_bytes_read = 0\<rparr> # ti_entries ctx\<rparr>, True))"

definition tlv_entry_pop :: "'s tlv_in \<Rightarrow> 's tlv_in" where
  "tlv_entry_pop ctx = ctx\<lparr>ti_entries := tl (ti_entries ctx)\<rparr>"

definition input_tlv_create :: "'s \<Rightarrow> anjay_uri_path option \<Rightarrow> 's tlv_in" where
  "input_tlv_create stream request_uri =
     (let uri = (case request_uri of None \<Rightarrow> make_root_path | Some p \<Rightarrow> p)
      in \<lparr>ti_stream = stream, ti_uri_path = uri, ti_has_path = False, ti_is_array = False,
          ti_current_path = uri, ti_current_path_len = 0, ti_entries = [], ti_finished = False\<rparr>)"

section \<open>Entry headers\<close>

text \<open>
  \<open>DEF_READ_SHORTENED\<close>, for an unsigned type of \<open>w\<close> bits; the result is \<open>None\<close> where -1 is returned.
\<close>

definition read_shortened :: "nat \<Rightarrow> 's stream_vtable \<Rightarrow> 's \<Rightarrow> nat \<Rightarrow> ('s \<times> nat option) option" where
  "read_shortened w vt s len = do {
     c_assert (8 * len \<le> w);
     (s, err, bs) \<leftarrow> stream_read_reliably vt s len;
     Some (s, if err \<noteq> AVS_OK then None else Some (foldl (\<lambda>out b. (256 * out + unat b) mod 2 ^ w) 0 bs)) }"

definition tlv_type_from_typefield :: "byte \<Rightarrow> tlv_id_type" where
  "tlv_type_from_typefield typefield =
     (let v = unat (drop_bit 6 typefield AND 3)
      in if v = 0 then TLV_ID_IID else if v = 1 then TLV_ID_RIID
         else if v = 2 then TLV_ID_RID_ARRAY else TLV_ID_RID)"

definition convert_id_type :: "byte \<Rightarrow> anjay_id_type" where
  "convert_id_type typefield =
     (case tlv_type_from_typefield typefield of
        TLV_ID_IID \<Rightarrow> ANJAY_ID_IID | TLV_ID_RIID \<Rightarrow> ANJAY_ID_RIID
      | TLV_ID_RID_ARRAY \<Rightarrow> ANJAY_ID_RID | TLV_ID_RID \<Rightarrow> ANJAY_ID_RID)"

text \<open>
  \<open>get_id\<close> fills in the current entry. Its other outputs are the type, the identifier, whether the
  entry has a value and the length of the header; \<open>*out_is_array\<close> always is a member of the context.
\<close>

definition get_id ::
  "'s stream_vtable \<Rightarrow> 's tlv_in \<Rightarrow> ('s tlv_in \<times> int \<times> (anjay_id_type \<times> nat \<times> bool \<times> nat)) option" where
  "get_id vt ctx = do {
     let nothing = (ANJAY_ID_OID, 0, False, 0);
     (s, err, bs) \<leftarrow> stream_read_reliably vt (ti_stream ctx) 1;
     let ctx = ctx\<lparr>ti_stream := s\<rparr>;
     if err = AVS_EOF then Some (ctx, ANJAY_GET_PATH_END, nothing)
     else if err \<noteq> AVS_OK then Some (ctx, - 1, nothing)
     else do {
       typefield \<leftarrow> rd8 bs 0;
       let tlv_type = tlv_type_from_typefield typefield;
       let ctx = ctx\<lparr>ti_is_array := (tlv_type = TLV_ID_RID_ARRAY)\<rparr>;
       let out_type = convert_id_type typefield;
       let id_length = (if typefield AND 0x20 \<noteq> 0 then 2 else 1);
       (s, out_id) \<leftarrow> read_shortened 16 vt (ti_stream ctx) id_length;
       let ctx = ctx\<lparr>ti_stream := s\<rparr>;
       (case out_id of
          None \<Rightarrow> Some (ctx, - 1, nothing)
        | Some eid \<Rightarrow> do {
            let length_length = unat (drop_bit 3 typefield AND 3);
            (s, out_length) \<leftarrow> (if length_length = 0 then Some (ti_stream ctx, Some (unat (typefield AND 7)))
                               else read_shortened 64 vt (ti_stream ctx) length_length);
            let ctx = ctx\<lparr>ti_stream := s\<rparr>;
            (case out_length of
               None \<Rightarrow> Some (ctx, - 1, nothing)
             | Some len \<Rightarrow> do {
                 let has_value = (len = 0 \<or> tlv_type = TLV_ID_RIID \<or> tlv_type = TLV_ID_RID);
                 (case ti_entries ctx of
                    [] \<Rightarrow> None
                  | e # es \<Rightarrow>
                      let ctx = ctx\<lparr>ti_entries := \<lparr>tie_type = out_type, tie_length = len, tie_bytes_read = 0\<rparr> # es\<rparr>
                      in Some (ctx, 0, (out_type, eid, has_value, 1 + id_length + length_length))) }) }) } }"

section \<open>Paths\<close>

text \<open>
  The loop of \<open>tlv_get_path\<close>. The last result says whether the function returns out of the loop,
  without assigning its outputs.
\<close>

partial_function (option) get_path_loop ::
  "'s stream_vtable \<Rightarrow> allocator \<Rightarrow> 's tlv_in \<Rightarrow> ('s tlv_in \<times> int \<times> bool) option" where
  "get_path_loop vt alloc ctx =
     (case tlv_entry_push alloc ctx of (ctx, ok) \<Rightarrow>
      if \<not> ok then Some (ctx, ANJAY_ERR_INTERNAL, True)
      else do {
        (ctx, result, type, eid, has_value, header_len) \<leftarrow> get_id vt ctx;
        if result \<noteq> 0 then Some (ctx, result, False)
        else if eid = ANJAY_ID_INVALID then Some (ctx, ANJAY_ERR_BAD_REQUEST, True)
        else (case ti_entries ctx of
            [] \<Rightarrow> None
          | cur # parents \<Rightarrow> do {
              let ctx = (case parents of [] \<Rightarrow> ctx
                | parent # es \<Rightarrow>
                    ctx\<lparr>ti_entries := cur # parent\<lparr>tie_bytes_read := tie_bytes_read parent + (tie_length cur + header_len)\<rparr> # es\<rparr>);
              if (case tl (ti_entries ctx) of [] \<Rightarrow> False
                  | parent # _ \<Rightarrow> tie_bytes_read parent > tie_length parent)
              then Some (ctx, ANJAY_ERR_BAD_REQUEST, True)
              else do {
                let ctx = ctx\<lparr>ti_current_path := path_update (ti_current_path ctx) type eid,
                              ti_current_path_len := id_index type + 1\<rparr>;
                if uri_path_outside_base (ti_current_path ctx) (ti_uri_path ctx)
                then Some (ctx, ANJAY_ERR_BAD_REQUEST, True)
                else if has_value then Some (ctx, 0, False)
                else get_path_loop vt alloc ctx } }) })"

definition tlv_get_path ::
  "'s stream_vtable \<Rightarrow> allocator \<Rightarrow> 's tlv_in \<Rightarrow> ('s tlv_in \<times> int \<times> (anjay_uri_path \<times> bool) option) option" where
  "tlv_get_path vt alloc ctx =
     (if ti_finished ctx then Some (ctx, ANJAY_GET_PATH_END, None)
      else if ti_has_path ctx then Some (ctx, 0, Some (ti_current_path ctx, ti_is_array ctx))
      else do {
        (ctx, result, early) \<leftarrow> get_path_loop vt alloc ctx;
        if early then Some (ctx, result, None)
        else Some (ctx\<lparr>ti_has_path := True\<rparr>, result, Some (ti_current_path ctx, ti_is_array ctx)) })"

text \<open>The wrapper supplies variables for the outputs that the caller does not ask for.\<close>

definition input_get_path ::
  "'s stream_vtable \<Rightarrow> allocator \<Rightarrow> 's tlv_in \<Rightarrow> ('s tlv_in \<times> int \<times> (anjay_uri_path \<times> bool) option) option" where
  "input_get_path vt alloc ctx = tlv_get_path vt alloc ctx"

primrec update_root_loop ::
  "'s tlv_in \<Rightarrow> nat list \<Rightarrow> nat \<Rightarrow> 's tlv_in \<times> nat option" where
  "update_root_loop ctx [] i = (ctx, Some i)"
| "update_root_loop ctx (x # xs) i =
     (if x = ANJAY_ID_INVALID then (ctx, Some i)
      else if path_ids (ti_uri_path ctx) ! i = ANJAY_ID_INVALID \<and> i < ti_current_path_len ctx
              \<and> path_ids (ti_current_path ctx) ! i \<noteq> ANJAY_ID_INVALID
      then (ctx, None)
      else update_root_loop
        (ctx\<lparr>ti_uri_path := \<lparr>path_ids = (path_ids (ti_uri_path ctx))[i := x]\<rparr>,
             ti_current_path := \<lparr>path_ids = (path_ids (ti_current_path ctx))[i := x]\<rparr>\<rparr>) xs (i + 1))"

definition tlv_update_root_path :: "'s tlv_in \<Rightarrow> anjay_uri_path option \<Rightarrow> 's tlv_in \<times> int" where
  "tlv_update_root_path ctx root_path =
     (let new_path = (case root_path of None \<Rightarrow> make_root_path | Some p \<Rightarrow> p)
      in case update_root_loop ctx (path_ids new_path) 0 of
           (ctx, None) \<Rightarrow> (ctx, - 1)
         | (ctx, Some i) \<Rightarrow> (ctx\<lparr>ti_current_path_len := max (ti_current_path_len ctx) i\<rparr>, 0))"

section \<open>Values\<close>

text \<open>
  The results are the return value, the bytes stored in the buffer, whose number is
  \<open>*out_bytes_read\<close>, and \<open>*out_message_finished\<close>, \<open>None\<close> where it is not assigned. A successful
  read that leaves the local variable \<open>stream_finished\<close> unassigned makes the function copy an
  indeterminate value, which is undefined.
\<close>

definition tlv_get_some_bytes ::
  "'s stream_vtable \<Rightarrow> allocator \<Rightarrow> 's tlv_in \<Rightarrow> nat \<Rightarrow> ('s tlv_in \<times> int \<times> bytes \<times> bool option) option" where
  "tlv_get_some_bytes vt alloc ctx buf_size = do {
     (ctx, result) \<leftarrow> (if \<not> ti_has_path ctx
        then do { (ctx, result, _) \<leftarrow> input_get_path vt alloc ctx; Some (ctx, result) }
        else Some (ctx, 0));
     if result = ANJAY_GET_PATH_END then Some (ctx, 0, [], Some True)
     else if result \<noteq> 0 then Some (ctx, result, [], None)
     else (case ti_entries ctx of
         [] \<Rightarrow> Some (ctx, - 1, [], None)
       | e # es \<Rightarrow> do {
           left \<leftarrow> size_minus (tie_length e) (tie_bytes_read e);
           (s, err, out) \<leftarrow> stream_read vt (ti_stream ctx) (min buf_size left);
           let bs = (case out of None \<Rightarrow> [] | Some (bs, _) \<Rightarrow> bs);
           let e = e\<lparr>tie_bytes_read := tie_bytes_read e + length bs\<rparr>;
           let ctx = ctx\<lparr>ti_stream := s, ti_entries := e # es\<rparr>;
           if err \<noteq> AVS_OK then Some (ctx, - 1, bs, None)
           else do {
             (_, stream_finished) \<leftarrow> out;
             let ctx = ctx\<lparr>ti_finished := stream_finished\<rparr>;
             let message_finished = (tie_bytes_read e = tie_length e);
             Some (ctx, if \<not> message_finished \<and> stream_finished then ANJAY_ERR_BAD_REQUEST else 0,
                   bs, Some message_finished) } }) }"

text \<open>
  \<open>anjay_get_bytes\<close> of the wrappers: the results are the return value, the bytes and the flag.
\<close>

partial_function (option) get_bytes_loop ::
  "'s stream_vtable \<Rightarrow> allocator \<Rightarrow> 's tlv_in \<Rightarrow> nat \<Rightarrow> bytes
   \<Rightarrow> ('s tlv_in \<times> int \<times> bytes \<times> bool option) option" where
  "get_bytes_loop vt alloc ctx buf_left acc = do {
     (ctx, retval, bs, finished) \<leftarrow> tlv_get_some_bytes vt alloc ctx buf_left;
     let acc = acc @ bs;
     buf_left \<leftarrow> size_minus buf_left (length bs);
     if retval \<noteq> 0 then Some (ctx, retval, acc, finished)
     else do {
       fin \<leftarrow> finished;
       if fin \<or> buf_left = 0 then Some (ctx, retval, acc, finished)
       else get_bytes_loop vt alloc ctx buf_left acc } }"

definition get_bytes ::
  "'s stream_vtable \<Rightarrow> allocator \<Rightarrow> 's tlv_in \<Rightarrow> nat \<Rightarrow> ('s tlv_in \<times> int \<times> bytes \<times> bool option) option" where
  "get_bytes vt alloc ctx buf_size = get_bytes_loop vt alloc ctx buf_size []"

text \<open>
  \<open>tlv_read_to_end\<close>: the last result is \<open>None\<close> where \<open>*out_bytes_read\<close> is not assigned and
  otherwise the bytes that were read.
\<close>

partial_function (option) read_to_end_loop ::
  "'s stream_vtable \<Rightarrow> allocator \<Rightarrow> 's tlv_in \<Rightarrow> nat \<Rightarrow> bytes \<Rightarrow> ('s tlv_in \<times> int \<times> bytes option) option" where
  "read_to_end_loop vt alloc ctx buf_left acc = do {
     (ctx, retval, bs, finished) \<leftarrow> tlv_get_some_bytes vt alloc ctx buf_left;
     if retval \<noteq> 0 then Some (ctx, retval, None)
     else do {
       message_finished \<leftarrow> finished;
       buf_left \<leftarrow> size_minus buf_left (length bs);
       if \<not> message_finished \<and> 0 < buf_left then read_to_end_loop vt alloc ctx buf_left (acc @ bs)
       else Some (ctx, if message_finished then 0 else ANJAY_BUFFER_TOO_SHORT, Some (acc @ bs)) } }"

definition tlv_read_to_end ::
  "'s stream_vtable \<Rightarrow> allocator \<Rightarrow> 's tlv_in \<Rightarrow> nat \<Rightarrow> ('s tlv_in \<times> int \<times> bytes option) option" where
  "tlv_read_to_end vt alloc ctx buf_size = read_to_end_loop vt alloc ctx buf_size []"

definition tlv_read_whole_entry ::
  "'s stream_vtable \<Rightarrow> allocator \<Rightarrow> 's tlv_in \<Rightarrow> nat \<Rightarrow> ('s tlv_in \<times> int \<times> bytes option) option" where
  "tlv_read_whole_entry vt alloc ctx buf_size = do {
     (ctx, result) \<leftarrow> (if \<not> ti_has_path ctx
        then do { (ctx, result, _) \<leftarrow> input_get_path vt alloc ctx; Some (ctx, result) }
        else Some (ctx, 0));
     if result = ANJAY_GET_PATH_END then Some (ctx, 0, Some [])
     else if result \<noteq> 0 then Some (ctx, result, None)
     else if ti_entries ctx = [] \<or> tie_bytes_read (hd (ti_entries ctx)) \<noteq> 0 then Some (ctx, - 1, None)
     else tlv_read_to_end vt alloc ctx buf_size }"

text \<open>The string as it is in the buffer up to its terminating zero byte.\<close>

definition tlv_get_string ::
  "'s stream_vtable \<Rightarrow> allocator \<Rightarrow> 's tlv_in \<Rightarrow> nat \<Rightarrow> ('s tlv_in \<times> int \<times> bytes) option" where
  "tlv_get_string vt alloc ctx buf_size = do {
     c_assert (buf_size \<noteq> 0);
     (ctx, retval, out) \<leftarrow> tlv_read_to_end vt alloc ctx (buf_size - 1);
     Some (ctx, retval, case out of None \<Rightarrow> [] | Some bs \<Rightarrow> bs) }"

definition anjay_get_string ::
  "'s stream_vtable \<Rightarrow> allocator \<Rightarrow> 's tlv_in \<Rightarrow> nat \<Rightarrow> ('s tlv_in \<times> int \<times> bytes option) option" where
  "anjay_get_string vt alloc ctx buf_size =
     (if buf_size = 0 then Some (ctx, ANJAY_BUFFER_TOO_SHORT, None)
      else do { (ctx, r, bs) \<leftarrow> tlv_get_string vt alloc ctx buf_size; Some (ctx, r, Some bs) })"

text \<open>
  The loop of \<open>tlv_get_integer\<close>: the accumulator starts with the sign of the first byte; it is
  shifted as an unsigned number and read as a signed one again.
\<close>

definition integer_of_bytes :: "bytes \<Rightarrow> int" where
  "integer_of_bytes bs =
     foldl (\<lambda>v b. signed_take_bit 63 (256 * v) + int (unat b))
       (if bs \<noteq> [] \<and> 128 \<le> unat (hd bs) then - 1 else 0) bs"

definition tlv_get_integer ::
  "'s stream_vtable \<Rightarrow> allocator \<Rightarrow> 's tlv_in \<Rightarrow> ('s tlv_in \<times> int \<times> int option) option" where
  "tlv_get_integer vt alloc ctx = do {
     (ctx, retval, out) \<leftarrow> tlv_read_whole_entry vt alloc ctx 8;
     let bs = (case out of None \<Rightarrow> [] | Some bs \<Rightarrow> bs);
     if retval \<noteq> 0 \<or> \<not> is_power_of_2 (length bs)
     then Some (ctx, if retval \<noteq> 0 then retval else ANJAY_ERR_BAD_REQUEST, None)
     else Some (ctx, 0, Some (integer_of_bytes bs)) }"

definition tlv_get_bool ::
  "'s stream_vtable \<Rightarrow> allocator \<Rightarrow> 's tlv_in \<Rightarrow> ('s tlv_in \<times> int \<times> bool option) option" where
  "tlv_get_bool vt alloc ctx = do {
     (ctx, retval, out) \<leftarrow> tlv_read_whole_entry vt alloc ctx 1;
     let bs = (case out of None \<Rightarrow> [] | Some bs \<Rightarrow> bs);
     if retval = ANJAY_BUFFER_TOO_SHORT \<or> length bs \<noteq> 1 then Some (ctx, ANJAY_ERR_BAD_REQUEST, None)
     else if retval \<noteq> 0 then Some (ctx, retval, None)
     else do {
       raw \<leftarrow> rd8 bs 0;
       if raw = 0 then Some (ctx, 0, Some False)
       else if raw = 1 then Some (ctx, 0, Some True)
       else Some (ctx, ANJAY_ERR_BAD_REQUEST, None) } }"

definition tlv_get_objlnk ::
  "'s stream_vtable \<Rightarrow> allocator \<Rightarrow> 's tlv_in \<Rightarrow> ('s tlv_in \<times> int \<times> (nat \<times> nat) option) option" where
  "tlv_get_objlnk vt alloc ctx = do {
     (ctx, retval, out) \<leftarrow> tlv_read_whole_entry vt alloc ctx 4;
     let bs = (case out of None \<Rightarrow> [] | Some bs \<Rightarrow> bs);
     if retval = ANJAY_BUFFER_TOO_SHORT \<or> length bs \<noteq> 4 then Some (ctx, ANJAY_ERR_BAD_REQUEST, None)
     else if retval \<noteq> 0 then Some (ctx, retval, None)
     else do {
       oid \<leftarrow> extract_u16 bs 0;
       iid \<leftarrow> extract_u16 bs 2;
       Some (ctx, 0, Some (oid, iid)) } }"

text \<open>\<open>anjay_get_i64\<close> calls the function of the table; \<open>anjay_get_i32\<close> checks the range.\<close>

definition anjay_get_i32 ::
  "'s stream_vtable \<Rightarrow> allocator \<Rightarrow> 's tlv_in \<Rightarrow> ('s tlv_in \<times> int \<times> int option) option" where
  "anjay_get_i32 vt alloc ctx = do {
     (ctx, result, tmp) \<leftarrow> tlv_get_integer vt alloc ctx;
     if result \<noteq> 0 then Some (ctx, result, None)
     else do {
       v \<leftarrow> tmp;
       if v < - (2 ^ 31) \<or> v > 2 ^ 31 - 1 then Some (ctx, ANJAY_ERR_BAD_REQUEST, None)
       else Some (ctx, 0, Some v) } }"

section \<open>The next entry\<close>

text \<open>The rest of the current entry is skipped in portions of 64 bytes.\<close>

partial_function (option) skip_entry ::
  "'s stream_vtable \<Rightarrow> allocator \<Rightarrow> 's tlv_in \<Rightarrow> ('s tlv_in \<times> int) option" where
  "skip_entry vt alloc ctx = do {
     (ctx, retval, _, finished) \<leftarrow> tlv_get_some_bytes vt alloc ctx 64;
     if retval \<noteq> 0 then Some (ctx, retval)
     else do {
       fin \<leftarrow> finished;
       if fin then Some (ctx, 0) else skip_entry vt alloc ctx } }"

text \<open>Completed entries are left, and their identifiers taken off the path.\<close>

primrec pop_entries ::
  "tlv_in_entry list \<Rightarrow> anjay_uri_path \<Rightarrow> nat \<Rightarrow> tlv_in_entry list \<times> anjay_uri_path \<times> nat" where
  "pop_entries [] path len = ([], path, len)"
| "pop_entries (e # es) path len =
     (if tie_length e = tie_bytes_read e
      then pop_entries es (path_update path (tie_type e) ANJAY_ID_INVALID) (id_index (tie_type e))
      else (e # es, path, len))"

definition tlv_next_entry :: "'s stream_vtable \<Rightarrow> allocator \<Rightarrow> 's tlv_in \<Rightarrow> ('s tlv_in \<times> int) option" where
  "tlv_next_entry vt alloc ctx =
     (if \<not> ti_has_path ctx then Some (ctx, 0)
      else if ti_entries ctx = [] then Some (ctx, - 1)
      else do {
        (ctx, retval) \<leftarrow> skip_entry vt alloc ctx;
        if retval \<noteq> 0 then Some (ctx, retval)
        else (case pop_entries (ti_entries ctx) (ti_current_path ctx) (ti_current_path_len ctx) of
            (es, path, len) \<Rightarrow>
              Some (ctx\<lparr>ti_has_path := False, ti_is_array := False, ti_entries := es,
                        ti_current_path := path, ti_current_path_len := len\<rparr>, 0)) })"

definition tlv_in_close :: "'s tlv_in \<Rightarrow> 's tlv_in \<times> int" where
  "tlv_in_close ctx = (ctx\<lparr>ti_entries := []\<rparr>, 0)"

end
