(* ===== verification/Tlv_Out_Tree.thy ===== *)
theory Tlv_Out_Tree
  imports Tlv_Out
begin

text \<open>
  Correctness of the TLV serializer. The state of a context is abstracted to a stack of open levels,
  each with the identifier set on it and the encoded bytes of the entries that are finished there;
  every operation is shown to implement an operation on that stack, and a sequence of calls that
  follows the tree of a data model object is shown to produce the encoding of the tree.
\<close>

section \<open>The encoding of an entry\<close>

lemma u32_length_pos [simp]: "0 < u32_length v"
  by (subst u32_length.simps) simp

lemma u32_length_le_iff: "0 < k \<Longrightarrow> u32_length v \<le> k \<longleftrightarrow> v < 256 ^ k"
proof (induction v arbitrary: k rule: u32_length.induct)
  case (1 v)
  show ?case
  proof (cases "v div 256 = 0")
    case True
    then have "v < 256" by (simp add: div_eq_0_iff)
    moreover have "(256::nat) \<le> 256 ^ k" using 1(2) self_le_power [of "256::nat" k] by simp
    ultimately show ?thesis using True 1(2) by (subst u32_length.simps) simp
  next
    case False
    obtain j where j: "k = Suc j" using 1(2) by (cases k) auto
    have "Suc (u32_length (v div 256)) \<le> Suc j \<longleftrightarrow> v < 256 ^ Suc j"
    proof (cases "j = 0")
      case True
      have "\<not> u32_length (v div 256) \<le> 0" using u32_length_pos [of "v div 256"] by simp
      with True False show ?thesis by (simp add: div_eq_0_iff)
    next
      case False
      with 1(1) [OF \<open>v div 256 \<noteq> 0\<close>, of j] show ?thesis
        by (simp add: div_less_iff_less_mult mult.commute)
    qed
    with False j show ?thesis by (subst u32_length.simps) simp
  qed
qed

text \<open>The shortest representation of a number in network order, at least one byte long.\<close>

definition short_be :: "nat \<Rightarrow> bytes" where
  "short_be v = be_bytes (u32_length v) v"

definition enc_header :: "tlv_id_type \<Rightarrow> nat \<Rightarrow> nat \<Rightarrow> bytes" where
  "enc_header type eid len =
     byte_of (tlv_typefield type eid len) # short_be eid @ (if len > 7 then short_be len else [])"

definition enc_entry :: "tlv_id_type \<Rightarrow> nat \<Rightarrow> bytes \<Rightarrow> bytes" where
  "enc_entry type eid data = enc_header type eid (length data) @ data"

lemma length_short_be [simp]: "length (short_be v) = u32_length v"
  by (simp add: short_be_def)

lemma be_nat_short_be: "be_nat (short_be v) = v"
proof -
  have "v < 256 ^ u32_length v" using u32_length_le_iff [of "u32_length v" v] by simp
  then show ?thesis by (simp add: short_be_def)
qed

lemma short_be_drop: "u32_length v \<le> 4 \<Longrightarrow> drop (4 - u32_length v) (be_bytes 4 v) = short_be v"
  using drop_be_bytes [of "4 - u32_length v" "u32_length v" v] by (simp add: short_be_def)

lemma u32_length_le_4: "v < 2 ^ 32 \<Longrightarrow> u32_length v \<le> 4"
  by (subst u32_length_le_iff) simp_all

lemma header_size_eq:
  "len < 2 ^ 32 \<Longrightarrow> header_size eid len = Some (length (enc_header t eid len))"
  by (simp add: header_size_def enc_header_def)

section \<open>Writing an entry to a stream\<close>

context byte_sink begin

lemma write_shortened_ok:
  assumes "ok s" "v < 2 ^ 32" "accepts s (length (short_be v))"
  obtains s' where "write_shortened_u32 vt s v = Some (s', 0)" "wrote s s' (short_be v)"
proof -
  from write_wrote [OF assms(1,3)] obtain s' where
    s': "stream_write vt s (short_be v) = Some (s', AVS_OK)" "wrote s s' (short_be v)" by blast
  with u32_length_le_4 [OF assms(2)] have "write_shortened_u32 vt s v = Some (s', 0)"
    by (simp add: write_shortened_u32_def short_be_drop)
  with s'(2) show thesis by (rule that [rotated])
qed

lemma write_header_ok:
  assumes ok: "ok s" and i: "eid < ANJAY_ID_INVALID" and len: "len \<le> TLV_MAX_LENGTH"
    and acc: "accepts s (length (enc_header t eid len))"
  obtains s' where "write_header vt s t eid len = Some (s', 0)" "wrote s s' (enc_header t eid len)"
proof -
  define b where "b = byte_of (tlv_typefield t eid len)"
  define tail where "tail = (if len > 7 then short_be len else [])"
  have enc: "enc_header t eid len = ([b] @ short_be eid) @ tail"
    by (simp add: enc_header_def b_def tail_def)
  have acc': "accepts s (length [b] + (length (short_be eid) + length tail))"
    using acc unfolding enc by (simp add: add.assoc)
  from write_wrote [OF ok accepts_prefix [OF acc']] obtain s1 where
    s1: "stream_write vt s [b] = Some (s1, AVS_OK)" "wrote s s1 [b]" by blast
  have acc1: "accepts s1 (length (short_be eid) + length tail)"
    using acc' unfolding wrote_accepts [OF s1(2)] .
  have "eid < 2 ^ 32" using i by simp
  from write_shortened_ok [OF wrote_ok [OF s1(2)] this accepts_prefix [OF acc1]] obtain s2 where
    s2: "write_shortened_u32 vt s1 eid = Some (s2, 0)" "wrote s1 s2 (short_be eid)" by blast
  note w2 = wrote_trans [OF s1(2) s2(2)]
  have eq: "write_header vt s t eid len = (if len > 7 then write_shortened_u32 vt s2 len else Some (s2, 0))"
    using i len s1(1) s2(1) by (simp add: write_header_def b_def)
  show thesis
  proof (cases "len > 7")
    case False
    then have "wrote s s2 (enc_header t eid len)" using w2 unfolding enc by (simp add: tail_def)
    with eq False show thesis by (intro that) simp_all
  next
    case True
    then have tail: "tail = short_be len" by (simp add: tail_def)
    have acc2: "accepts s2 (length (short_be len))"
      using acc1 unfolding wrote_accepts [OF s2(2)] tail .
    have "len < 2 ^ 32" using len by simp
    from write_shortened_ok [OF wrote_ok [OF s2(2)] this acc2] obtain s3 where
      s3: "write_shortened_u32 vt s2 len = Some (s3, 0)" "wrote s2 s3 (short_be len)" by blast
    with eq True wrote_trans [OF w2 s3(2)] show thesis by (intro that) (simp_all add: enc tail)
  qed
qed

lemma write_entry_ok:
  assumes ok: "ok s" and i: "tid_id eid < ANJAY_ID_INVALID" and len: "length data \<le> TLV_MAX_LENGTH"
    and acc: "accepts s (length (enc_entry (tid_type eid) (tid_id eid) data))"
  obtains s' where "write_entry vt s eid data (length data) = Some (s', 0)"
    "wrote s s' (enc_entry (tid_type eid) (tid_id eid) data)"
proof -
  let ?h = "enc_header (tid_type eid) (tid_id eid) (length data)"
  have acc': "accepts s (length ?h + length data)" using acc by (simp add: enc_entry_def)
  from write_header_ok [OF ok i len accepts_prefix [OF acc']] obtain s1 where
    s1: "write_header vt s (tid_type eid) (tid_id eid) (length data) = Some (s1, 0)" "wrote s s1 ?h" by blast
  have "accepts s1 (length data)" using acc' unfolding wrote_accepts [OF s1(2)] .
  from write_wrote [OF wrote_ok [OF s1(2)] this] obtain s2 where
    s2: "stream_write vt s1 data = Some (s2, AVS_OK)" "wrote s1 s2 data" by blast
  have "write_entry vt s eid data (length data) = Some (s2, 0)"
    using s1(1) s2(1) by (simp add: write_entry_def rd_bytes_def)
  with wrote_trans [OF s1(2) s2(2)] show thesis by (intro that) (simp_all add: enc_entry_def)
qed

end

section \<open>The buffer of a finished level\<close>

definition entry_ok :: "tlv_entry \<Rightarrow> bool" where
  "entry_ok e \<longleftrightarrow> te_data_length e = length (te_data e) \<and> tid_id (te_id e) < ANJAY_ID_INVALID
     \<and> length (te_data e) \<le> TLV_MAX_LENGTH"

definition enc_te :: "tlv_entry \<Rightarrow> bytes" where
  "enc_te e = enc_entry (tid_type (te_id e)) (tid_id (te_id e)) (te_data e)"

definition enc_tes :: "tlv_entry list \<Rightarrow> bytes" where
  "enc_tes es = concat (map enc_te es)"

lemma enc_tes_simps [simp]:
  "enc_tes [] = []" "enc_tes (e # es) = enc_te e @ enc_tes es" "enc_tes (xs @ ys) = enc_tes xs @ enc_tes ys"
  by (simp_all add: enc_tes_def)

lemma entries_size_eq:
  "list_all entry_ok es \<Longrightarrow> entries_size es = Some (length (enc_tes es))"
proof (induction es)
  case (Cons e es)
  from Cons.prems have "entry_ok e" "list_all entry_ok es" by simp_all
  then have "te_data_length e < 2 ^ 32" "te_data_length e = length (te_data e)" by (simp_all add: entry_ok_def)
  with Cons header_size_eq [of "te_data_length e" "tid_id (te_id e)" "tid_type (te_id e)"]
  show ?case by (simp add: enc_te_def enc_entry_def)
qed simp

lemma write_entries_ok:
  "\<lbrakk>list_all entry_ok es; outbuf_ok ob; outbuf_accepts ob (length (enc_tes es))\<rbrakk> \<Longrightarrow>
   \<exists>ob'. write_entries es ob 0 = Some (ob', 0) \<and> obs.wrote ob ob' (enc_tes es)"
proof (induction es arbitrary: ob)
  case Nil
  then show ?case by (auto intro: obs.wrote_Nil)
next
  case (Cons e es)
  have e: "tid_id (te_id e) < ANJAY_ID_INVALID" "length (te_data e) \<le> TLV_MAX_LENGTH"
    "te_data_length e = length (te_data e)" "list_all entry_ok es"
    using Cons.prems(1) by (simp_all add: entry_ok_def [of e])
  have acc: "outbuf_accepts ob (length (enc_te e) + length (enc_tes es))" using Cons.prems(3) by simp
  have acc1: "outbuf_accepts ob (length (enc_entry (tid_type (te_id e)) (tid_id (te_id e)) (te_data e)))"
    using acc by (simp add: outbuf_accepts_def enc_te_def)
  from obs.write_entry_ok [OF Cons.prems(2) e(1,2) acc1] obtain ob1 where
    ob1: "write_entry outbuf_vtable ob (te_id e) (te_data e) (te_data_length e) = Some (ob1, 0)"
    "obs.wrote ob ob1 (enc_te e)" unfolding e(3) enc_te_def by blast
  have "outbuf_accepts ob1 (length (enc_tes es))"
    using acc unfolding obs.wrote_accepts [OF ob1(2)] .
  from Cons.IH [OF e(4) obs.wrote_ok [OF ob1(2)] this] obtain ob2 where
    "write_entries es ob1 0 = Some (ob2, 0)" "obs.wrote ob1 ob2 (enc_tes es)" by blast
  with ob1 show ?case by (auto intro: obs.wrote_trans)
qed

lemma finish_buffer_ok:
  assumes es: "list_all entry_ok es" and buf: "length buffer = length (enc_tes es)"
  obtains ob where "write_entries es (outbuf_set_buffer AVS_STREAM_OUTBUF_STATIC_INITIALIZER buffer (length (enc_tes es))) 0 = Some (ob, 0)"
    "ob_offset ob = length (enc_tes es)" "rd_bytes (ob_buffer ob) 0 (length (enc_tes es)) = Some (enc_tes es)"
proof -
  let ?s = "outbuf_set_buffer AVS_STREAM_OUTBUF_STATIC_INITIALIZER buffer (length (enc_tes es))"
  from write_entries_ok [OF es, of ?s] buf obtain ob where
    ob: "write_entries es ?s 0 = Some (ob, 0)" "obs.wrote ?s ob (enc_tes es)" by auto
  have c: "outbuf_ok ob" "outbuf_content ob = enc_tes es" using ob(2) buf by (simp_all add: obs.wrote_def)
  then have "ob_offset ob \<le> length (ob_buffer ob)" by (simp add: outbuf_ok_def)
  moreover from this c(2) have "ob_offset ob = length (enc_tes es)"
    by (auto simp: outbuf_content_def dest: arg_cong [of _ _ length])
  ultimately show thesis using ob(1) c(2) by (intro that) (auto simp: rd_bytes_def outbuf_content_def)
qed

section \<open>The stack of open levels\<close>

text \<open>
  A level of the stack is the identifier set on it and the encoding of what it contains. The
  first element is the current level; the last one is the root level, whose content is what
  was written to the stream since the context was created.
\<close>

type_synonym open_level = "nat \<times> bytes"

text \<open>The type of the value entries of a level, and of the entries a finished level becomes.\<close>

definition value_type :: "nat \<Rightarrow> tlv_id_type" where
  "value_type k = (if k = TLV_OUT_LEVEL_RID then TLV_ID_RID else TLV_ID_RIID)"

definition agg_type :: "nat \<Rightarrow> tlv_id_type" where
  "agg_type k = (if k = TLV_OUT_LEVEL_RID then TLV_ID_RID_ARRAY else TLV_ID_IID)"

text \<open>A level of the context, above the root, represents a level of the stack.\<close>

definition level_rep :: "tlv_out_level \<Rightarrow> open_level \<Rightarrow> bool" where
  "level_rep l x \<longleftrightarrow> ol_next_id l = fst x \<and> tb_bytes_left (ol_bytes_ctx l) = 0
     \<and> list_all entry_ok (ol_entries l) \<and> enc_tes (ol_entries l) = snd x"

text \<open>A level that is not in use.\<close>

definition level_idle :: "tlv_out_level \<Rightarrow> bool" where
  "level_idle l \<longleftrightarrow> ol_entries l = [] \<and> tb_bytes_left (ol_bytes_ctx l) = 0"

definition root_rep :: "tlv_out_level \<Rightarrow> open_level \<Rightarrow> bool" where
  "root_rep l x \<longleftrightarrow> ol_next_id l = fst x \<and> level_idle l"

context byte_sink begin

text \<open>
  \<open>out_rep s0 root r ctx st\<close>: the context, created on the stream \<open>s0\<close> with the path \<open>root\<close>, whose level
  is \<open>r\<close>, represents the stack \<open>st\<close>.
\<close>

definition out_rep :: "'s \<Rightarrow> anjay_uri_path \<Rightarrow> nat \<Rightarrow> 's tlv_out \<Rightarrow> open_level list \<Rightarrow> bool" where
  "out_rep s0 root r ctx st \<longleftrightarrow>
     st \<noteq> [] \<and> to_root_path ctx = root \<and> root_level root = Some r \<and> length (to_levels ctx) = 3
     \<and> to_level ctx + 1 = r + length st \<and> to_level ctx \<le> 2
     \<and> wrote s0 (to_stream ctx) (snd (last st))
     \<and> root_rep (to_levels ctx ! r) (last st)
     \<and> (\<forall>i. r < i \<and> i \<le> to_level ctx \<longrightarrow> level_rep (to_levels ctx ! i) (st ! (to_level ctx - i)))
     \<and> (\<forall>i. to_level ctx < i \<and> i < 3 \<longrightarrow> level_idle (to_levels ctx ! i))
     \<and> list_all (\<lambda>x. fst x < ANJAY_ID_INVALID) (tl st)"

lemma out_rep_Cons:
  "out_rep s0 root r ctx (x # st) \<longleftrightarrow>
     to_root_path ctx = root \<and> root_level root = Some r \<and> length (to_levels ctx) = 3
     \<and> to_level ctx = r + length st \<and> to_level ctx \<le> 2
     \<and> wrote s0 (to_stream ctx) (snd (last (x # st)))
     \<and> root_rep (to_levels ctx ! r) (last (x # st))
     \<and> (\<forall>i. r < i \<and> i \<le> to_level ctx \<longrightarrow> level_rep (to_levels ctx ! i) ((x # st) ! (to_level ctx - i)))
     \<and> (\<forall>i. to_level ctx < i \<and> i < 3 \<longrightarrow> level_idle (to_levels ctx ! i))
     \<and> list_all (\<lambda>x. fst x < ANJAY_ID_INVALID) st"
  by (auto simp: out_rep_def)

lemma out_rep_current:
  assumes "out_rep s0 root r ctx (x # st)"
  obtains l where "current_level ctx = Some l" "l = to_levels ctx ! to_level ctx" "ol_next_id l = fst x"
    "tb_bytes_left (ol_bytes_ctx l) = 0" "st = [] \<Longrightarrow> root_rep l x" "st \<noteq> [] \<Longrightarrow> level_rep l x"
proof -
  let ?l = "to_levels ctx ! to_level ctx"
  have "current_level ctx = Some ?l" using assms by (simp add: out_rep_Cons current_level_def level_at_def)
  moreover have "root_rep ?l x" if "st = []" using assms that by (simp add: out_rep_Cons)
  moreover have "level_rep ?l x" if "st \<noteq> []"
  proof -
    have "r < to_level ctx" using assms that by (simp add: out_rep_Cons)
    with assms have "level_rep ?l ((x # st) ! (to_level ctx - to_level ctx))"
      unfolding out_rep_Cons by blast
    then show ?thesis by simp
  qed
  ultimately show thesis
    by (cases "st = []") (auto intro!: that simp: root_rep_def level_rep_def level_idle_def)
qed

text \<open>Replacing the current level, and the stream where it is the root level.\<close>

lemma out_rep_set_current:
  assumes rep: "out_rep s0 root r ctx (x # st)"
    and root: "st = [] \<Longrightarrow> root_rep l y \<and> wrote s0 s (snd y)"
    and inner: "st \<noteq> [] \<Longrightarrow> level_rep l y \<and> s = to_stream ctx"
  shows "out_rep s0 root r ((set_level ctx (to_level ctx) l)\<lparr>to_stream := s, to_error := e\<rparr>) (y # st)"
proof -
  have lt: "to_level ctx < 3" "length (to_levels ctx) = 3" using rep by (simp_all add: out_rep_Cons)
  have 1: "level_rep ((to_levels ctx)[to_level ctx := l] ! i) ((y # st) ! (to_level ctx - i))"
    if i: "r < i" "i \<le> to_level ctx" for i
  proof (cases "i = to_level ctx")
    case True
    with i rep have "st \<noteq> []" by (auto simp: out_rep_Cons)
    with True lt inner show ?thesis by simp
  next
    case False
    then obtain d where d: "to_level ctx - i = Suc d" using i by (cases "to_level ctx - i") auto
    from rep i have "level_rep (to_levels ctx ! i) ((x # st) ! (to_level ctx - i))"
      unfolding out_rep_Cons by blast
    with False d show ?thesis by simp
  qed
  have 2: "root_rep ((to_levels ctx)[to_level ctx := l] ! r) (last (y # st)) \<and> wrote s0 s (snd (last (y # st)))"
  proof (cases "st = []")
    case True
    with rep root lt show ?thesis by (simp add: out_rep_Cons)
  next
    case False
    with rep inner show ?thesis by (simp add: out_rep_Cons)
  qed
  from rep 1 2 show ?thesis by (simp add: out_rep_Cons set_level_def)
qed

end

section \<open>Adding an entry\<close>

lemma level_at_set [simp]:
  "level_at (set_level ctx i l) j = (if i = j \<and> i < length (to_levels ctx) then Some l else level_at ctx j)"
  by (simp add: level_at_def set_level_def)

lemma set_level_fields [simp]:
  "to_stream (set_level ctx i l) = to_stream ctx" "to_root_path (set_level ctx i l) = to_root_path ctx"
  "to_error (set_level ctx i l) = to_error ctx" "to_level (set_level ctx i l) = to_level ctx"
  "length (to_levels (set_level ctx i l)) = length (to_levels ctx)"
  "set_level (set_level ctx i l) i l' = set_level ctx i l'"
  "set_level (ctx\<lparr>to_stream := s\<rparr>) i l = (set_level ctx i l)\<lparr>to_stream := s\<rparr>"
  by (simp_all add: set_level_def)

lemma level_at_stream [simp]: "level_at (ctx\<lparr>to_stream := s\<rparr>) i = level_at ctx i"
  by (simp add: level_at_def)

lemma same_stream [simp]: "(set_level ctx i l)\<lparr>to_stream := to_stream ctx\<rparr> = set_level ctx i l"
  by (simp add: set_level_def)

lemma same_error [simp]: "ctx\<lparr>to_stream := s, to_error := to_error ctx\<rparr> = ctx\<lparr>to_stream := s\<rparr>"
  by simp

lemma update_error_0 [simp]:
  "to_error ctx = e \<Longrightarrow> ctx\<lparr>to_error := update_ret e 0\<rparr> = ctx"
  by (simp add: update_ret_def)

context byte_sink begin

text \<open>
  A new entry whose bytes are all supplied in one call. At the root level it is written to the
  stream, which must have room for it; at other levels memory must be available.
\<close>

definition room_for :: "'s \<Rightarrow> nat \<Rightarrow> open_level list \<Rightarrow> nat \<Rightarrow> bool" where
  "room_for s0 len st n \<longleftrightarrow> (st = [] \<longrightarrow> accepts s0 (len + n))"

lemma add_append_root:
  assumes rep: "out_rep s0 root r ctx [(n, c)]" and n: "n < ANJAY_ID_INVALID" and d: "length d \<le> TLV_MAX_LENGTH"
    and acc: "accepts s0 (length c + length (enc_entry t n d))"
  shows "\<exists>ctx1 ctx2. add_entry vt alloc ctx t (length d) = Some (ctx1, Some (to_level ctx))
    \<and> ret_bytes_append vt ctx1 (to_level ctx) d = Some (ctx2, 0)
    \<and> out_rep s0 root r ctx2 [(ANJAY_ID_INVALID, c @ enc_entry t n d)]
    \<and> to_error ctx1 = to_error ctx \<and> to_error ctx2 = to_error ctx"
proof -
  let ?k = "to_level ctx" and ?h = "enc_header t n (length d)"
  from out_rep_current [OF rep] obtain l where l: "current_level ctx = Some l" "ol_next_id l = n"
    "tb_bytes_left (ol_bytes_ctx l) = 0" "root_rep l (n, c)" by auto
  have ctx: "root_level (to_root_path ctx) = Some r" "?k = r" "?k < length (to_levels ctx)"
    and w0: "wrote s0 (to_stream ctx) c" using rep by (simp_all add: out_rep_Cons)
  have "accepts (to_stream ctx) (length ?h + length d)"
    using acc unfolding wrote_accepts [OF w0] by (simp add: enc_entry_def)
  from write_header_ok [OF wrote_ok [OF w0] n d accepts_prefix [OF this]] obtain s1 where
    s1: "write_header vt (to_stream ctx) t n (length d) = Some (s1, 0)" "wrote (to_stream ctx) s1 ?h" by blast
  have acc1: "accepts s1 (length d)"
    using acc unfolding wrote_accepts [OF s1(2)] wrote_accepts [OF w0] by (simp add: enc_entry_def add.assoc)
  define l1 where "l1 = l\<lparr>ol_next_id := ANJAY_ID_INVALID,
    ol_bytes_ctx := \<lparr>tb_vtable = STREAMED_BYTES_VTABLE, tb_buffer_ptr = 0, tb_bytes_left = length d\<rparr>\<rparr>"
  define ctx1 where "ctx1 = (set_level ctx ?k l1)\<lparr>to_stream := s1\<rparr>"
  have add: "add_entry vt alloc ctx t (length d) = Some (ctx1, Some ?k)"
    using l ctx d s1(1) by (simp add: add_entry_def ctx1_def l1_def Let_def)
  from write_wrote [OF wrote_ok [OF s1(2)] acc1] obtain s2 where
    s2: "stream_write vt s1 d = Some (s2, AVS_OK)" "wrote s1 s2 d" by blast
  define s3 where "s3 = (if length d = 0 then s1 else s2)"
  have s3: "wrote s1 s3 d" using s2(2) wrote_Nil [OF wrote_ok [OF s1(2)]] by (auto simp: s3_def)
  define l2 where "l2 = l1\<lparr>ol_bytes_ctx := (ol_bytes_ctx l1)\<lparr>tb_bytes_left := 0\<rparr>\<rparr>"
  have app: "ret_bytes_append vt ctx1 ?k d = Some ((set_level ctx ?k l2)\<lparr>to_stream := s3\<rparr>, 0)"
  proof (cases "length d = 0")
    case True
    then have "l2 = l1" by (simp add: l1_def l2_def)
    with True ctx show ?thesis
      by (simp add: ret_bytes_append_def streamed_bytes_append_def ctx1_def s3_def)
        (simp add: l1_def streamed_bytes_append_def)
  next
    case False
    with ctx s2(1) show ?thesis
      by (simp add: ret_bytes_append_def streamed_bytes_append_def ctx1_def s3_def Let_def)
        (simp add: l1_def l2_def streamed_bytes_append_def)
  qed
  have w: "wrote s0 s3 (c @ enc_entry t n d)"
    using wrote_trans [OF wrote_trans [OF w0 s1(2)] s3] by (simp add: enc_entry_def)
  have "root_rep l2 (ANJAY_ID_INVALID, c @ enc_entry t n d)"
    using l(4) by (simp add: root_rep_def level_idle_def l2_def l1_def)
  with w out_rep_set_current [OF rep, of l2 "(ANJAY_ID_INVALID, c @ enc_entry t n d)" s3 "to_error ctx"]
  have "out_rep s0 root r ((set_level ctx ?k l2)\<lparr>to_stream := s3\<rparr>) [(ANJAY_ID_INVALID, c @ enc_entry t n d)]"
    by (simp add: set_level_def)
  with add app show ?thesis by (simp add: ctx1_def)
qed

lemma add_append_inner:
  assumes rep: "out_rep s0 root r ctx ((n, c) # st)" and st: "st \<noteq> []" and n: "n < ANJAY_ID_INVALID"
    and d: "length d \<le> TLV_MAX_LENGTH" and alloc: "alloc (length d) \<noteq> None"
  shows "\<exists>ctx1 ctx2. add_entry vt alloc ctx t (length d) = Some (ctx1, Some (to_level ctx))
    \<and> ret_bytes_append vt ctx1 (to_level ctx) d = Some (ctx2, 0)
    \<and> out_rep s0 root r ctx2 ((ANJAY_ID_INVALID, c @ enc_entry t n d) # st)
    \<and> to_error ctx1 = to_error ctx \<and> to_error ctx2 = to_error ctx"
proof -
  let ?k = "to_level ctx"
  from out_rep_current [OF rep] obtain l where l: "current_level ctx = Some l" "ol_next_id l = n"
    "tb_bytes_left (ol_bytes_ctx l) = 0" "st \<noteq> [] \<Longrightarrow> level_rep l (n, c)" by auto
  have ctx: "root_level (to_root_path ctx) = Some r" "r < ?k" "?k < length (to_levels ctx)"
    using rep st by (simp_all add: out_rep_Cons)
  define e where "e x = \<lparr>te_data_length = length d, te_id = \<lparr>tid_type = t, tid_id = n\<rparr>, te_data = x\<rparr>" for x
  define b where "b = \<lparr>tb_vtable = BUFFERED_BYTES_VTABLE, tb_buffer_ptr = 0, tb_bytes_left = length d\<rparr>"
  define l1 where "l1 = l\<lparr>ol_next_id := ANJAY_ID_INVALID, ol_entries := ol_entries l @ [e (replicate (length d) 0)],
    ol_bytes_ctx := b\<rparr>"
  have cur: "current_level (set_level ctx ?k x) = Some x" for x
    using ctx(3) by (simp add: current_level_def)
  have add: "add_entry vt alloc ctx t (length d) = Some (set_level ctx ?k l1, Some ?k)"
    using l(1-3) ctx d alloc cur
    by (simp add: add_entry_def add_buffered_entry_def l1_def b_def e_def Let_def)
  define l2 where "l2 = l\<lparr>ol_next_id := ANJAY_ID_INVALID, ol_entries := ol_entries l @ [e d],
    ol_bytes_ctx := b\<lparr>tb_buffer_ptr := length d, tb_bytes_left := 0\<rparr>\<rparr>"
  have "wr_bytes (replicate (length d) 0) 0 d = Some d" by (simp add: wr_bytes_def)
  then have app: "ret_bytes_append vt (set_level ctx ?k l1) ?k d = Some (set_level ctx ?k l2, 0)"
    using ctx by (cases "length d = 0")
      (simp_all add: ret_bytes_append_def buffered_bytes_append_def l1_def l2_def b_def e_def Let_def)
  have "level_rep l2 (ANJAY_ID_INVALID, c @ enc_entry t n d)"
    using l(4) [OF st] n d by (simp add: level_rep_def l2_def e_def b_def entry_ok_def enc_te_def)
  with out_rep_set_current [OF rep, of l2 "(ANJAY_ID_INVALID, c @ enc_entry t n d)" "to_stream ctx" "to_error ctx"] st
  have "out_rep s0 root r (set_level ctx ?k l2) ((ANJAY_ID_INVALID, c @ enc_entry t n d) # st)"
    by (simp add: set_level_def)
  with add app show ?thesis by simp
qed

lemma add_append_ok:
  assumes "out_rep s0 root r ctx ((n, c) # st)" "n < ANJAY_ID_INVALID"
    and "length d \<le> TLV_MAX_LENGTH" and "\<And>m. alloc m \<noteq> None"
    and "room_for s0 (length c) st (length (enc_entry t n d))"
  shows "\<exists>ctx1 ctx2. add_entry vt alloc ctx t (length d) = Some (ctx1, Some (to_level ctx))
    \<and> ret_bytes_append vt ctx1 (to_level ctx) d = Some (ctx2, 0)
    \<and> out_rep s0 root r ctx2 ((ANJAY_ID_INVALID, c @ enc_entry t n d) # st)
    \<and> to_error ctx1 = to_error ctx \<and> to_error ctx2 = to_error ctx"
proof (cases "st = []")
  case True
  with assms show ?thesis using add_append_root [of s0 root r ctx n c d t alloc] by (simp add: room_for_def)
next
  case False
  show ?thesis by (rule add_append_inner [OF assms(1) False assms(2-4)])
qed

text \<open>Returning a value at the current level.\<close>

lemma ret_bytes_ok:
  assumes "out_rep s0 root r ctx ((n, c) # st)" "n < ANJAY_ID_INVALID" "to_level ctx \<noteq> TLV_OUT_LEVEL_IID"
    and "length d \<le> TLV_MAX_LENGTH" and "\<And>m. alloc m \<noteq> None"
    and "room_for s0 (length c) st (length (enc_entry (value_type (to_level ctx)) n d))"
  shows "\<exists>ctx'. ret_bytes vt alloc ctx d = Some (ctx', 0)
    \<and> out_rep s0 root r ctx' ((ANJAY_ID_INVALID, c @ enc_entry (value_type (to_level ctx)) n d) # st)
    \<and> to_error ctx' = to_error ctx"
proof -
  let ?t = "value_type (to_level ctx)"
  from out_rep_current [OF assms(1)] obtain l where "current_level ctx = Some l" "ol_next_id l = n" by auto
  moreover have "to_level ctx \<le> 2" using assms(1) by (simp add: out_rep_Cons)
  ultimately have t: "current_level_value_type ctx = Some ?t"
    using assms(2,3) by (auto simp: current_level_value_type_def value_type_def)
  from add_append_ok [where alloc = alloc, OF assms(1,2,4,5,6)] obtain ctx1 ctx2 where
    "add_entry vt alloc ctx ?t (length d) = Some (ctx1, Some (to_level ctx))"
    "ret_bytes_append vt ctx1 (to_level ctx) d = Some (ctx2, 0)"
    "out_rep s0 root r ctx2 ((ANJAY_ID_INVALID, c @ enc_entry ?t n d) # st)"
    "to_error ctx1 = to_error ctx" "to_error ctx2 = to_error ctx" by blast
  with t show ?thesis
    by (simp add: ret_bytes_def ret_bytes_begin_def output_bytes_begin_def tlv_ret_bytes_def)
qed

end

section \<open>Opening and finishing a level\<close>

context byte_sink begin

lemma slave_start_ok:
  assumes rep: "out_rep s0 root r ctx ((n, c) # st)" and n: "n < ANJAY_ID_INVALID" and k: "to_level ctx < 2"
  shows "\<exists>ctx'. tlv_slave_start ctx = Some ctx' \<and> out_rep s0 root r ctx' ((ANJAY_ID_INVALID, []) # (n, c) # st)
    \<and> to_error ctx' = to_error ctx \<and> to_level ctx' = to_level ctx + 1"
proof -
  let ?k = "to_level ctx"
  let ?l = "to_levels ctx ! (?k + 1)"
  define l where "l = ?l\<lparr>ol_next_id := ANJAY_ID_INVALID\<rparr>"
  have ctx: "length (to_levels ctx) = 3" "r \<le> ?k" "?k = r + length st" using rep by (simp_all add: out_rep_Cons)
  have idle: "level_idle ?l" using rep k by (simp add: out_rep_Cons)
  define ctx' where "ctx' = set_level (ctx\<lparr>to_level := ?k + 1\<rparr>) (?k + 1) l"
  have step: "tlv_slave_start ctx = Some ctx'"
    using ctx(1) k idle
    by (simp add: tlv_slave_start_def current_level_def level_at_def level_idle_def l_def ctx'_def)
  have at: "to_levels ctx' ! i = (if i = ?k + 1 then l else to_levels ctx ! i)" if "i < 3" for i
    using ctx(1) k that by (simp add: ctx'_def set_level_def)
  have 1: "level_rep (to_levels ctx' ! i) (((ANJAY_ID_INVALID, []) # (n, c) # st) ! (?k + 1 - i))"
    if i: "r < i" "i \<le> ?k + 1" for i
  proof (cases "i = ?k + 1")
    case True
    with at [of i] k idle show ?thesis by (simp add: level_rep_def l_def level_idle_def)
  next
    case False
    then have i': "i \<le> ?k" "?k + 1 - i = Suc (?k - i)" using i by simp_all
    from rep i(1) i'(1) have "level_rep (to_levels ctx ! i) (((n, c) # st) ! (?k - i))"
      unfolding out_rep_Cons by blast
    with at [of i] i' k False show ?thesis by simp
  qed
  have 2: "level_idle (to_levels ctx' ! i)" if "?k + 1 < i" "i < 3" for i
    using rep that at [of i] by (simp add: out_rep_Cons)
  have "root_rep (to_levels ctx' ! r) (last ((n, c) # st))"
    using rep at [of r] ctx k by (simp add: out_rep_Cons)
  with 1 2 rep n k ctx have "out_rep s0 root r ctx' ((ANJAY_ID_INVALID, []) # (n, c) # st)"
    unfolding out_rep_Cons by (simp add: ctx'_def)
  with step show ?thesis by (simp add: ctx'_def)
qed

text \<open>Leaving a level: its entries are dropped and the level below becomes current.\<close>

lemma out_rep_pop:
  assumes rep: "out_rep s0 root r ctx (x # y # st)" and l: "current_level ctx = Some l"
  shows "out_rep s0 root r ((set_level ctx (to_level ctx) (l\<lparr>ol_entries := []\<rparr>))\<lparr>to_level := to_level ctx - 1\<rparr>) (y # st)"
    (is "out_rep s0 root r ?ctx (y # st)")
proof -
  let ?k = "to_level ctx"
  have ctx: "length (to_levels ctx) = 3" "?k = r + Suc (length st)" "?k \<le> 2"
    using rep by (simp_all add: out_rep_Cons)
  have at: "to_levels ?ctx ! i = (if i = ?k then l\<lparr>ol_entries := []\<rparr> else to_levels ctx ! i)" if "i < 3" for i
    using ctx that by (simp add: set_level_def)
  have 1: "level_rep (to_levels ?ctx ! i) ((y # st) ! (?k - 1 - i))" if i: "r < i" "i \<le> ?k - 1" for i
  proof -
    have i': "i \<le> ?k" "?k - i = Suc (?k - 1 - i)" "i < 3" "i \<noteq> ?k" using i ctx by simp_all
    from rep i(1) i'(1) have "level_rep (to_levels ctx ! i) ((x # y # st) ! (?k - i))"
      unfolding out_rep_Cons by blast
    with at [of i] i' show ?thesis by simp
  qed
  have 2: "level_idle (to_levels ?ctx ! i)" if "?k - 1 < i" "i < 3" for i
  proof (cases "i = ?k")
    case True
    from out_rep_current [OF rep] l have "tb_bytes_left (ol_bytes_ctx l) = 0" by auto
    with True at [of i] that show ?thesis by (simp add: level_idle_def)
  next
    case False
    with rep that at [of i] show ?thesis by (simp add: out_rep_Cons)
  qed
  have "root_rep (to_levels ?ctx ! r) (last (y # st))" using rep at [of r] ctx by (simp add: out_rep_Cons)
  with 1 2 rep ctx show ?thesis unfolding out_rep_Cons by simp
qed

lemma slave_finish_ok:
  assumes rep: "out_rep s0 root r ctx ((n, c) # (n', c') # st)" and c: "length c \<le> TLV_MAX_LENGTH"
    and alloc: "\<And>m. alloc m \<noteq> None"
    and room: "room_for s0 (length c') st (length (enc_entry (agg_type (to_level ctx - 1)) n' c))"
  shows "\<exists>ctx'. tlv_slave_finish vt alloc ctx = Some (ctx', 0)
    \<and> out_rep s0 root r ctx' ((ANJAY_ID_INVALID, c' @ enc_entry (agg_type (to_level ctx - 1)) n' c) # st)
    \<and> to_error ctx' = to_error ctx \<and> to_level ctx' = to_level ctx - 1"
proof -
  let ?k = "to_level ctx"
  have k: "?k = r + Suc (length st)" "?k \<le> 2" "root_level (to_root_path ctx) = Some r" "n' < ANJAY_ID_INVALID"
    using rep by (simp_all add: out_rep_Cons)
  from out_rep_current [OF rep] obtain l where l: "current_level ctx = Some l"
    "level_rep l (n, c)" by auto
  then have es: "list_all entry_ok (ol_entries l)" "enc_tes (ol_entries l) = c" by (simp_all add: level_rep_def)
  define buffer where "buffer = (if length c = 0 then None else alloc (length c))"
  define mem where "mem = (case buffer of None \<Rightarrow> [] | Some fill \<Rightarrow> map fill [0..<length c])"
  have buffer: "length c = 0 \<or> buffer \<noteq> None" "length mem = length c"
    using alloc [of "length c"] by (auto simp: buffer_def mem_def split: option.splits)
  from finish_buffer_ok [OF es(1), of mem] buffer(2) es(2) obtain ob where
    ob: "write_entries (ol_entries l) (outbuf_set_buffer AVS_STREAM_OUTBUF_STATIC_INITIALIZER mem (length c)) 0 = Some (ob, 0)"
    "ob_offset ob = length c" "rd_bytes (ob_buffer ob) 0 (length c) = Some c" by auto
  define ctx1 where "ctx1 = (set_level ctx ?k (l\<lparr>ol_entries := []\<rparr>))\<lparr>to_level := ?k - 1\<rparr>"
  have rep1: "out_rep s0 root r ctx1 ((n', c') # st)" unfolding ctx1_def by (rule out_rep_pop [OF rep l(1)])
  have k1: "to_level ctx1 = ?k - 1" "to_error ctx1 = to_error ctx" by (simp_all add: ctx1_def)
  from add_append_ok [where alloc = alloc, OF rep1 k(4) c alloc room] obtain ctx2 ctx3 where
    ctx3: "add_entry vt alloc ctx1 (agg_type (?k - 1)) (length c) = Some (ctx2, Some (?k - 1))"
    "ret_bytes_append vt ctx2 (?k - 1) c = Some (ctx3, 0)"
    "out_rep s0 root r ctx3 ((ANJAY_ID_INVALID, c' @ enc_entry (agg_type (?k - 1)) n' c) # st)"
    "to_error ctx3 = to_error ctx" unfolding k1 by blast
  have add: "add_finished_entry vt alloc ctx1 (length c) = Some (ctx2, Some (?k - 1))"
  proof -
    have "?k = 1 \<or> ?k = 2" using k(1,2) by linarith
    with ctx3(1) show ?thesis unfolding add_finished_entry_def k1 agg_type_def by auto
  qed
  have r: "r < ?k" using k(1) by simp
  note facts = r k(3) l(1) entries_size_eq [OF es(1)] es(2) add [unfolded ctx1_def] ctx3(2)
  have "tlv_slave_finish vt alloc ctx = Some (ctx3, 0)"
  proof (cases "length c = 0")
    case True
    with ob have "write_entries (ol_entries l) (outbuf_set_buffer AVS_STREAM_OUTBUF_STATIC_INITIALIZER [] 0) 0 = Some (ob, 0)"
      "ob_offset ob = 0" "rd_bytes (ob_buffer ob) 0 0 = Some []" by (simp_all add: mem_def buffer_def)
    with True facts show ?thesis by (simp add: tlv_slave_finish_def Let_def)
  next
    case False
    then obtain fill where fill: "alloc (length c) = Some fill" using alloc [of "length c"] by auto
    with False ob(1) have
      "write_entries (ol_entries l) (outbuf_set_buffer AVS_STREAM_OUTBUF_STATIC_INITIALIZER (map fill [0..<length c]) (length c)) 0 = Some (ob, 0)"
      by (simp add: mem_def buffer_def)
    with False fill facts ob(2,3) show ?thesis by (simp add: tlv_slave_finish_def Let_def)
  qed
  moreover have "to_level ctx3 = ?k - 1" using ctx3(3) k(1) by (simp add: out_rep_Cons)
  ultimately show ?thesis using ctx3(3,4) by blast
qed

end

section \<open>Collapsing the stack\<close>

text \<open>
  What finishing all levels above \<open>f\<close> makes of a stack whose last element is level \<open>r\<close>, and the
  condition under which every step of it succeeds: the contents are not too long for a header, and
  \<open>room\<close> says that so many bytes can be written to the stream.
\<close>

fun collapse :: "nat \<Rightarrow> nat \<Rightarrow> open_level list \<Rightarrow> open_level list" where
  "collapse r f ((n, c) # (n', c') # st) =
     (if r + Suc (length st) > f
      then collapse r f ((ANJAY_ID_INVALID, c' @ enc_entry (agg_type (r + length st)) n' c) # st)
      else (n, c) # (n', c') # st)"
| "collapse r f [] = []"
| "collapse r f [x] = [x]"

fun collapse_ok :: "(nat \<Rightarrow> bool) \<Rightarrow> nat \<Rightarrow> nat \<Rightarrow> open_level list \<Rightarrow> bool" where
  "collapse_ok room r f ((n, c) # (n', c') # st) =
     (r + Suc (length st) > f \<longrightarrow>
        length c \<le> TLV_MAX_LENGTH
        \<and> (st = [] \<longrightarrow> room (length c' + length (enc_entry (agg_type r) n' c)))
        \<and> collapse_ok room r f ((ANJAY_ID_INVALID, c' @ enc_entry (agg_type (r + length st)) n' c) # st))"
| "collapse_ok room r f st = True"

lemma collapse_collapse: "f \<le> g \<Longrightarrow> collapse r f (collapse r g st) = collapse r f st"
  by (induction r g st rule: collapse.induct) auto

lemma collapse_ok_collapse:
  "f \<le> g \<Longrightarrow> collapse_ok room r g st \<Longrightarrow> collapse_ok room r f (collapse r g st) \<Longrightarrow> collapse_ok room r f st"
  by (induction r g st rule: collapse.induct) (auto split: if_splits)

lemma collapse_id: "r + length st \<le> f \<Longrightarrow> collapse r f (x # st) = x # st"
  by (cases "(r, f, x # st)" rule: collapse.cases) auto

lemma collapse_ok_id: "r + length st \<le> f \<Longrightarrow> collapse_ok room r f (x # st)"
  by (cases "(r, f, x # st)" rule: collapse.cases) auto

text \<open>The levels below the one that becomes current do not change.\<close>

lemma collapse_suffix:
  "r \<le> f \<Longrightarrow> collapse r f st = y # base \<Longrightarrow> r + length base = f \<Longrightarrow> base = drop (length st - (f - r)) st"
proof (induction r f st rule: collapse.induct)
  case (1 r f n c n' c' st)
  show ?case
  proof (cases "r + Suc (length st) > f")
    case True
    with 1 have "base = drop (length ((ANJAY_ID_INVALID, c' @ enc_entry (agg_type (r + length st)) n' c) # st) - (f - r))
        ((ANJAY_ID_INVALID, c' @ enc_entry (agg_type (r + length st)) n' c) # st)" by simp
    moreover have "Suc (length st) - (f - r) = Suc (length st - (f - r))"
      "Suc (Suc (length st)) - (f - r) = Suc (Suc (length st - (f - r)))" using True 1(2) by linarith+
    ultimately show ?thesis by simp
  next
    case False
    with 1(3,4) have "f - r = Suc (length st)" "base = (n', c') # st" by auto
    then show ?thesis by simp
  qed
qed auto

context byte_sink begin

lemma finish_levels_ok:
  "\<lbrakk>out_rep s0 root r ctx st; collapse_ok (accepts s0) r f st; r \<le> f; \<And>m. alloc m \<noteq> None\<rbrakk> \<Longrightarrow>
   \<exists>ctx'. finish_levels vt alloc ctx f = Some (ctx', 0) \<and> out_rep s0 root r ctx' (collapse r f st)
     \<and> to_error ctx' = to_error ctx"
proof (induction r f st arbitrary: ctx rule: collapse.induct)
  case (1 r f n c n' c' st)
  have k: "to_level ctx = r + Suc (length st)" using 1(2) by (simp add: out_rep_Cons)
  show ?case
  proof (cases "r + Suc (length st) > f")
    case False
    with k 1(2) show ?thesis by (subst finish_levels.simps) simp
  next
    case True
    let ?x = "c' @ enc_entry (agg_type (r + length st)) n' c"
    from True 1(3) have ok: "length c \<le> TLV_MAX_LENGTH"
      "room_for s0 (length c') st (length (enc_entry (agg_type (to_level ctx - 1)) n' c))"
      "collapse_ok (accepts s0) r f ((ANJAY_ID_INVALID, ?x) # st)"
      using k by (auto simp: room_for_def)
    from slave_finish_ok [where alloc = alloc, OF 1(2) ok(1) 1(5) ok(2)] k obtain ctx1 where
      ctx1: "tlv_slave_finish vt alloc ctx = Some (ctx1, 0)" "out_rep s0 root r ctx1 ((ANJAY_ID_INVALID, ?x) # st)"
      "to_error ctx1 = to_error ctx" by auto
    from 1(1) [OF True ctx1(2) ok(3) 1(4,5)] obtain ctx' where
      "finish_levels vt alloc ctx1 f = Some (ctx', 0)"
      "out_rep s0 root r ctx' (collapse r f ((ANJAY_ID_INVALID, ?x) # st))" "to_error ctx' = to_error ctx1" by blast
    with ctx1 True k show ?thesis by (subst finish_levels.simps) simp
  qed
next
  case (2 r f)
  then show ?case by (simp add: out_rep_def)
next
  case (3 r f x)
  then have "to_level ctx = r" by (simp add: out_rep_Cons)
  with 3 show ?case by (subst finish_levels.simps) simp
qed

lemma close_levels_ok:
  "\<lbrakk>out_rep s0 root r ctx st; collapse_ok (accepts s0) r f st; f = r; \<And>m. alloc m \<noteq> None\<rbrakk> \<Longrightarrow>
   \<exists>ctx'. close_levels vt alloc ctx 0 = Some (ctx', 0) \<and> out_rep s0 root r ctx' (collapse r r st)
     \<and> to_error ctx' = to_error ctx"
proof (induction r f st arbitrary: ctx rule: collapse.induct)
  case (1 r f n c n' c' st)
  have k: "to_level ctx = r + Suc (length st)" "root_level (to_root_path ctx) = Some r"
    using 1(2) by (simp_all add: out_rep_Cons)
  let ?x = "c' @ enc_entry (agg_type (r + length st)) n' c"
  from 1(3,4) have ok: "length c \<le> TLV_MAX_LENGTH"
    "room_for s0 (length c') st (length (enc_entry (agg_type (to_level ctx - 1)) n' c))"
    "collapse_ok (accepts s0) r f ((ANJAY_ID_INVALID, ?x) # st)"
    using k by (auto simp: room_for_def)
  from slave_finish_ok [where alloc = alloc, OF 1(2) ok(1) 1(5) ok(2)] k obtain ctx1 where
    ctx1: "tlv_slave_finish vt alloc ctx = Some (ctx1, 0)" "out_rep s0 root r ctx1 ((ANJAY_ID_INVALID, ?x) # st)"
    "to_error ctx1 = to_error ctx" by auto
  have gt: "r + Suc (length st) > f" using 1(4) by simp
  from 1(1) [OF gt ctx1(2) ok(3) 1(4,5)] obtain ctx' where
    "close_levels vt alloc ctx1 0 = Some (ctx', 0)"
    "out_rep s0 root r ctx' (collapse r r ((ANJAY_ID_INVALID, ?x) # st))" "to_error ctx' = to_error ctx1" by blast
  with ctx1 k show ?case by (subst close_levels.simps) (simp add: update_ret_def)
next
  case (2 r f)
  then show ?case by (simp add: out_rep_def)
next
  case (3 r f x)
  then have "to_level ctx = r" "root_level (to_root_path ctx) = Some r" by (simp_all add: out_rep_Cons)
  with 3 show ?case by (subst close_levels.simps) simp
qed

text \<open>The identifier of every open level is the one on the stack.\<close>

lemma out_rep_next_id:
  assumes rep: "out_rep s0 root r ctx st" and i: "r \<le> i" "i \<le> to_level ctx"
  shows "\<exists>l. level_at ctx i = Some l \<and> ol_next_id l = fst (st ! (to_level ctx - i))"
proof -
  have len: "length (to_levels ctx) = 3" "to_level ctx \<le> 2" "st \<noteq> []" "to_level ctx + 1 = r + length st"
    using rep by (simp_all add: out_rep_def)
  have "ol_next_id (to_levels ctx ! i) = fst (st ! (to_level ctx - i))"
  proof (cases "r = i")
    case True
    have "to_level ctx - i = length st - 1" using len True by (cases st) simp_all
    then have "last st = st ! (to_level ctx - i)" using len(3) by (simp add: last_conv_nth)
    with rep True show ?thesis by (simp add: out_rep_def root_rep_def)
  next
    case False
    with i rep have "level_rep (to_levels ctx ! i) (st ! (to_level ctx - i))" unfolding out_rep_def by auto
    then show ?thesis by (simp add: level_rep_def)
  qed
  with len i show ?thesis by (simp add: level_at_def)
qed

end

section \<open>Setting a path\<close>

text \<open>The path with the given identifiers.\<close>

definition make_path :: "nat list \<Rightarrow> anjay_uri_path" where
  "make_path xs = \<lparr>path_ids = xs @ replicate (4 - length xs) ANJAY_ID_INVALID\<rparr>"

definition ids_ok :: "nat list \<Rightarrow> bool" where
  "ids_ok xs \<longleftrightarrow> length xs \<le> 4 \<and> list_all (\<lambda>i. i < ANJAY_ID_INVALID) xs"

lemma ids_ok_nth: "ids_ok xs \<Longrightarrow> i < length xs \<Longrightarrow> xs ! i < ANJAY_ID_INVALID"
  by (simp add: ids_ok_def list_all_length)

lemma path_seq_make_path [simp]: "ids_ok xs \<Longrightarrow> path_seq (make_path xs) = xs"
proof -
  assume "ids_ok xs"
  then have "\<And>i. i \<in> set xs \<Longrightarrow> i \<noteq> ANJAY_ID_INVALID" by (auto simp: ids_ok_def list_all_iff)
  then have "takeWhile (\<lambda>i. i \<noteq> ANJAY_ID_INVALID) (xs @ replicate n ANJAY_ID_INVALID)
      = xs @ takeWhile (\<lambda>i. i \<noteq> ANJAY_ID_INVALID) (replicate n ANJAY_ID_INVALID)" for n
    by (rule takeWhile_append2)
  moreover have "takeWhile (\<lambda>i. i \<noteq> ANJAY_ID_INVALID) (replicate n ANJAY_ID_INVALID) = []" for n
    by (cases n) simp_all
  ultimately show ?thesis by (simp add: path_seq_def make_path_def)
qed

lemma uri_path_length_make_path [simp]: "ids_ok xs \<Longrightarrow> uri_path_length (make_path xs) = length xs"
  by (simp add: uri_path_length_eq)

lemma path_ok_make_path [simp]: "ids_ok xs \<Longrightarrow> path_ok (make_path xs)"
  by (auto simp: path_ok_def make_path_def ids_ok_def list_all_iff)

lemma path_id_make_path: "id_index t < length xs \<Longrightarrow> path_id (make_path xs) t = xs ! id_index t"
  by (simp add: path_id_def make_path_def nth_append)

lemma id_from_path_make_path:
  assumes "ids_ok xs" and "k + 1 < length xs"
  shows "id_from_path (make_path xs) k = Some (xs ! (k + 1))"
proof -
  have "length xs \<le> 4" using assms(1) by (simp add: ids_ok_def)
  with assms(2) consider "k = 0" | "k = 1" | "k = 2" by linarith
  then show ?thesis using assms
    by cases (simp_all add: id_from_path_def uri_path_has_def path_id_make_path Let_def eval_nat_numeral)
qed

lemma collapse_length: "length (collapse r f st) \<le> length st"
  by (induction r f st rule: collapse.induct) auto

text \<open>The identifiers of the levels below the current one, from the root upwards, are those of the path.\<close>

definition base_matches :: "nat \<Rightarrow> nat list \<Rightarrow> open_level list \<Rightarrow> bool" where
  "base_matches r xs base \<longleftrightarrow> (\<forall>i < length base. fst (rev base ! i) = xs ! (r + i + 1))"

context byte_sink begin

lemma first_mismatch_none:
  assumes rep: "out_rep s0 root r ctx st" and L: "L \<le> to_level ctx" and xs: "ids_ok xs" "L + 1 \<le> length xs"
    and match: "\<And>i. r \<le> i \<Longrightarrow> i < L \<Longrightarrow> fst (st ! (to_level ctx - i)) = xs ! (i + 1)"
    and range: "set ks \<subseteq> {r..<L}"
  shows "first_mismatch ctx (make_path xs) ks L = Some L"
  using range
proof (induction ks)
  case (Cons i ks)
  then have i: "r \<le> i" "i < L" by auto
  from out_rep_next_id [OF rep i(1)] i L obtain l where
    l: "level_at ctx i = Some l" "ol_next_id l = fst (st ! (to_level ctx - i))" by auto
  have "id_from_path (make_path xs) i = Some (xs ! (i + 1))"
    using xs i by (intro id_from_path_make_path) auto
  with l match [OF i] Cons show ?case by simp
qed simp

lemma set_path_ok:
  assumes rep: "out_rep s0 (make_path rs) r ctx ((ANJAY_ID_INVALID, c) # st)"
    and ids: "ids_ok rs" "ids_ok xs" "prefix rs xs" and L: "length xs = L + 2" "r \<le> L"
    and col: "collapse r L ((ANJAY_ID_INVALID, c) # st) = (ANJAY_ID_INVALID, C) # base" "r + length base = L"
      "collapse_ok (accepts s0) r L ((ANJAY_ID_INVALID, c) # st)"
    and match: "base_matches r xs base" and alloc: "\<And>m. alloc m \<noteq> None"
  shows "\<exists>ctx'. output_set_path vt alloc ctx (make_path xs) = Some (ctx', 0)
    \<and> out_rep s0 (make_path rs) r ctx' ((xs ! (L + 1), C) # base) \<and> to_error ctx' = to_error ctx"
proof -
  let ?S = "(ANJAY_ID_INVALID, c) # st" and ?k = "to_level ctx"
  have k: "?k = r + length st" "to_root_path ctx = make_path rs" "root_level (make_path rs) = Some r"
    using rep by (simp_all add: out_rep_Cons)
  have "length base \<le> length st" using collapse_length [of r L ?S] col(1) by simp
  then have Lk: "L \<le> ?k" using k(1) col(2) by simp
  have base: "base = drop (length ?S - (L - r)) ?S" by (rule collapse_suffix [OF L(2) col(1,2)])
  have m: "fst (?S ! (?k - i)) = xs ! (i + 1)" if i: "r \<le> i" "i < L" for i
  proof -
    have j: "i - r < length base" using i col(2) by simp
    have "rev base ! (i - r) = base ! (length base - Suc (i - r))" by (rule rev_nth [OF j])
    also have "\<dots> = ?S ! (?k - i)"
    proof -
      have "length ?S - (L - r) + (length base - Suc (i - r)) = ?k - i"
        using i k(1) Lk col(2) by simp
      moreover have "base ! (length base - Suc (i - r)) = ?S ! (length ?S - (L - r) + (length base - Suc (i - r)))"
        by (subst (1) base, rule nth_drop) simp
      ultimately show ?thesis by simp
    qed
    finally have "fst (?S ! (?k - i)) = fst (rev base ! (i - r))" by simp
    also have "\<dots> = xs ! (r + (i - r) + 1)" using match j unfolding base_matches_def by blast
    finally show ?thesis using i(1) by simp
  qed
  have L1: "L + 1 \<le> length xs" using L by simp
  have fm: "first_mismatch ctx (make_path xs) [r..<L] L = Some L"
    by (rule first_mismatch_none [OF rep Lk ids(2) L1 m]) auto
  from finish_levels_ok [where alloc = alloc, OF rep col(3) L(2) alloc] col(1) obtain ctx1 where
    ctx1: "finish_levels vt alloc ctx L = Some (ctx1, 0)"
    "out_rep s0 (make_path rs) r ctx1 ((ANJAY_ID_INVALID, C) # base)" "to_error ctx1 = to_error ctx" by auto
  have k1: "to_level ctx1 = L" using ctx1(2) col(2) by (simp add: out_rep_Cons)
  from out_rep_current [OF ctx1(2)] obtain l1 where l1: "current_level ctx1 = Some l1"
    "base = [] \<Longrightarrow> root_rep l1 (ANJAY_ID_INVALID, C)" "base \<noteq> [] \<Longrightarrow> level_rep l1 (ANJAY_ID_INVALID, C)" by metis
  from out_rep_current [OF rep] obtain l where l: "current_level ctx = Some l" "ol_next_id l = ANJAY_ID_INVALID"
    by auto
  define ctx2 where "ctx2 = set_level ctx1 L (l1\<lparr>ol_next_id := xs ! (L + 1)\<rparr>)"
  have inside: "\<not> uri_path_outside_base (make_path xs) (make_path rs)"
    using ids by (simp add: uri_path_outside_base_iff)
  have "length xs \<le> 4" using ids(2) by (simp add: ids_ok_def)
  with L ids(2) have leaf: "leaf_level (make_path xs) = Some L"
    by (auto simp: leaf_level_def Let_def)
  have pid: "id_from_path (make_path xs) L = Some (xs ! (L + 1))"
    using L ids(2) by (intro id_from_path_make_path) auto
  have "tlv_set_path vt alloc ctx (make_path xs) = Some (ctx2, 0)"
    using inside k(2,3) leaf l fm ctx1(1) k1 L(2) pid l1(1)
    by (simp add: tlv_set_path_def max_absorb1 ctx2_def Let_def)
  moreover have "out_rep s0 (make_path rs) r ctx2 ((xs ! (L + 1), C) # base)"
  proof -
    have "out_rep s0 (make_path rs) r
        ((set_level ctx1 (to_level ctx1) (l1\<lparr>ol_next_id := xs ! (L + 1)\<rparr>))\<lparr>to_stream := to_stream ctx1, to_error := to_error ctx1\<rparr>)
        ((xs ! (L + 1), C) # base)"
      by (rule out_rep_set_current [OF ctx1(2)])
        (use l1(2,3) ctx1(2) in \<open>auto simp: root_rep_def level_rep_def level_idle_def out_rep_Cons\<close>)
    then show ?thesis by (simp add: ctx2_def k1 set_level_def)
  qed
  moreover have "to_error ctx2 = to_error ctx" using ctx1(3) by (simp add: ctx2_def)
  ultimately show ?thesis by (simp add: output_set_path_def with_error_def)
qed

lemma start_aggregate_ok:
  assumes rep: "out_rep s0 root r ctx ((n, c) # st)" and n: "n < ANJAY_ID_INVALID" and k: "to_level ctx < 2"
  shows "\<exists>ctx'. output_start_aggregate ctx = Some (ctx', 0)
    \<and> out_rep s0 root r ctx' ((ANJAY_ID_INVALID, []) # (n, c) # st) \<and> to_error ctx' = to_error ctx"
proof -
  from out_rep_current [OF rep] obtain l where l: "current_level ctx = Some l" "ol_next_id l = n" by auto
  from slave_start_ok [OF rep n k] obtain ctx' where
    "tlv_slave_start ctx = Some ctx'" "out_rep s0 root r ctx' ((ANJAY_ID_INVALID, []) # (n, c) # st)"
    "to_error ctx' = to_error ctx" by blast
  moreover have "to_level ctx = 0 \<or> to_level ctx = 1" using k by linarith
  ultimately show ?thesis using l n
    by (auto simp: output_start_aggregate_def with_error_def tlv_start_aggregate_def)
qed

text \<open>At the level of a single Object Instance there is nothing to start.\<close>

lemma start_aggregate_instance:
  assumes rep: "out_rep s0 (make_path [oid, iid]) 1 ctx [(ANJAY_ID_INVALID, c)]" and ids: "ids_ok [oid, iid]"
  shows "output_start_aggregate ctx = Some (ctx, 0)"
proof -
  from out_rep_current [OF rep] obtain l where "current_level ctx = Some l" "ol_next_id l = ANJAY_ID_INVALID" by auto
  moreover have "uri_path_leaf_is (to_root_path ctx) ANJAY_ID_IID" "to_level ctx = 1"
    using rep ids by (simp_all add: out_rep_Cons uri_path_leaf_is_def)
  ultimately show ?thesis
    by (simp add: output_start_aggregate_def with_error_def tlv_start_aggregate_def)
qed

text \<open>Setting the path of the root instance itself closes everything and sets no identifier.\<close>

lemma set_path_instance:
  assumes rep: "out_rep s0 (make_path [oid, iid]) 1 ctx [(ANJAY_ID_INVALID, c)]" and ids: "ids_ok [oid, iid]"
  shows "\<exists>ctx'. output_set_path vt alloc ctx (make_path [oid, iid]) = Some (ctx', 0)
    \<and> out_rep s0 (make_path [oid, iid]) 1 ctx' [(ANJAY_ID_INVALID, c)] \<and> to_error ctx' = to_error ctx"
proof -
  from out_rep_current [OF rep] obtain l where l: "current_level ctx = Some l" "ol_next_id l = ANJAY_ID_INVALID"
    by auto
  have k: "to_level ctx = 1" "to_root_path ctx = make_path [oid, iid]" "root_level (make_path [oid, iid]) = Some 1"
    using rep by (simp_all add: out_rep_Cons)
  have same: "set_level ctx 1 (l\<lparr>ol_next_id := ANJAY_ID_INVALID\<rparr>) = ctx"
  proof -
    have "l\<lparr>ol_next_id := ANJAY_ID_INVALID\<rparr> = l" using l(2) by (cases l) simp
    moreover have "l = to_levels ctx ! 1" using l(1) k(1) by (simp add: current_level_def level_at_def split: if_splits)
    ultimately show ?thesis by (simp add: set_level_def)
  qed
  have inside: "\<not> uri_path_outside_base (make_path [oid, iid]) (make_path [oid, iid])"
    using ids by (simp add: uri_path_outside_base_iff)
  have leaf: "leaf_level (make_path [oid, iid]) = Some 0" using ids by (simp add: leaf_level_def)
  have fin: "finish_levels vt alloc ctx 1 = Some (ctx, 0)" using k(1) by (subst finish_levels.simps) simp
  have "tlv_set_path vt alloc ctx (make_path [oid, iid]) = Some (ctx, 0)"
    using inside k leaf fin l same by (simp add: tlv_set_path_def Let_def)
  then show ?thesis using rep by (simp add: output_set_path_def with_error_def)
qed

end

section \<open>Serializing a data model tree\<close>

text \<open>
  The calls that reading a part of the data model makes on the output context: the path of each
  entity is set, an Object Instance or a multiple-instance Resource is opened with
  \<open>_anjay_output_start_aggregate\<close>, and values are returned with \<open>anjay_ret_bytes\<close>. A run stops
  at the first call that fails.
\<close>

datatype out_call = Set_Path "nat list" | Start_Aggregate | Ret_Bytes bytes

primrec out_call_step ::
  "'s stream_vtable \<Rightarrow> allocator \<Rightarrow> 's tlv_out \<Rightarrow> out_call \<Rightarrow> ('s tlv_out \<times> int) option" where
  "out_call_step vt alloc ctx (Set_Path xs) = output_set_path vt alloc ctx (make_path xs)"
| "out_call_step vt alloc ctx Start_Aggregate = output_start_aggregate ctx"
| "out_call_step vt alloc ctx (Ret_Bytes d) = ret_bytes vt alloc ctx d"

primrec run_calls ::
  "'s stream_vtable \<Rightarrow> allocator \<Rightarrow> 's tlv_out \<Rightarrow> out_call list \<Rightarrow> ('s tlv_out \<times> int) option" where
  "run_calls vt alloc ctx [] = Some (ctx, 0)"
| "run_calls vt alloc ctx (c # cs) = do {
     (ctx, result) \<leftarrow> out_call_step vt alloc ctx c;
     if result \<noteq> 0 then Some (ctx, result) else run_calls vt alloc ctx cs }"

lemma run_calls_append:
  "run_calls vt alloc ctx xs = Some (ctx', 0) \<Longrightarrow>
   run_calls vt alloc ctx (xs @ ys) = run_calls vt alloc ctx' ys"
  by (induction xs arbitrary: ctx) (auto simp: bind_eq_Some_conv split: if_splits)

datatype resource = Single nat bytes | Multiple nat "(nat \<times> bytes) list"

type_synonym instance_tree = "nat \<times> resource list"

primrec resource_calls :: "nat \<Rightarrow> nat \<Rightarrow> resource \<Rightarrow> out_call list" where
  "resource_calls oid iid (Single rid d) = [Set_Path [oid, iid, rid], Ret_Bytes d]"
| "resource_calls oid iid (Multiple rid vs) = [Set_Path [oid, iid, rid], Start_Aggregate]
     @ concat (map (\<lambda>(riid, d). [Set_Path [oid, iid, rid, riid], Ret_Bytes d]) vs)"

definition instance_calls :: "nat \<Rightarrow> instance_tree \<Rightarrow> out_call list" where
  "instance_calls oid inst = [Set_Path [oid, fst inst], Start_Aggregate]
     @ concat (map (resource_calls oid (fst inst)) (snd inst))"

definition object_calls :: "nat \<Rightarrow> instance_tree list \<Rightarrow> out_call list" where
  "object_calls oid insts = concat (map (instance_calls oid) insts)"

text \<open>The encoding of the tree.\<close>

definition enc_values :: "(nat \<times> bytes) list \<Rightarrow> bytes" where
  "enc_values vs = concat (map (\<lambda>(riid, d). enc_entry TLV_ID_RIID riid d) vs)"

primrec enc_resource :: "resource \<Rightarrow> bytes" where
  "enc_resource (Single rid d) = enc_entry TLV_ID_RID rid d"
| "enc_resource (Multiple rid vs) = enc_entry TLV_ID_RID_ARRAY rid (enc_values vs)"

definition enc_resources :: "resource list \<Rightarrow> bytes" where
  "enc_resources rs = concat (map enc_resource rs)"

definition enc_instance :: "instance_tree \<Rightarrow> bytes" where
  "enc_instance inst = enc_entry TLV_ID_IID (fst inst) (enc_resources (snd inst))"

definition enc_instances :: "instance_tree list \<Rightarrow> bytes" where
  "enc_instances insts = concat (map enc_instance insts)"

text \<open>Identifiers are valid and no value is too long for the length field of a header.\<close>

primrec resource_ok :: "resource \<Rightarrow> bool" where
  "resource_ok (Single rid d) \<longleftrightarrow> rid < ANJAY_ID_INVALID \<and> length d \<le> TLV_MAX_LENGTH"
| "resource_ok (Multiple rid vs) \<longleftrightarrow> rid < ANJAY_ID_INVALID
     \<and> (\<forall>(riid, d) \<in> set vs. riid < ANJAY_ID_INVALID \<and> length d \<le> TLV_MAX_LENGTH)
     \<and> length (enc_values vs) \<le> TLV_MAX_LENGTH"

definition instance_ok :: "instance_tree \<Rightarrow> bool" where
  "instance_ok inst \<longleftrightarrow> fst inst < ANJAY_ID_INVALID \<and> list_all resource_ok (snd inst)
     \<and> length (enc_resources (snd inst)) \<le> TLV_MAX_LENGTH"

text \<open>
  The current level has no identifier set, and finishing the levels above the one over \<open>base\<close> leaves
  the content \<open>C\<close> there.
\<close>

definition at_level :: "(nat \<Rightarrow> bool) \<Rightarrow> nat \<Rightarrow> open_level list \<Rightarrow> bytes \<Rightarrow> open_level list \<Rightarrow> bool" where
  "at_level room r st C base \<longleftrightarrow> st \<noteq> [] \<and> fst (hd st) = ANJAY_ID_INVALID
     \<and> collapse r (r + length base) st = (ANJAY_ID_INVALID, C) # base
     \<and> collapse_ok room r (r + length base) st"

lemma at_level_simple: "at_level room r ((ANJAY_ID_INVALID, C) # base) C base"
  by (simp add: at_level_def collapse_id collapse_ok_id)

lemma at_level_child:
  assumes "length c \<le> TLV_MAX_LENGTH"
    and "base = [] \<Longrightarrow> room (length C + length (enc_entry (agg_type r) n c))"
  shows "at_level room r ((ANJAY_ID_INVALID, c) # (n, C) # base)
    (C @ enc_entry (agg_type (r + length base)) n c) base"
  using assms by (auto simp: at_level_def collapse_id collapse_ok_id)

text \<open>One level further down.\<close>

lemma at_level_down:
  assumes st: "at_level room r st c ((n, C) # base)" and c: "length c \<le> TLV_MAX_LENGTH"
    and room: "base = [] \<Longrightarrow> room (length C + length (enc_entry (agg_type r) n c))"
  shows "at_level room r st (C @ enc_entry (agg_type (r + length base)) n c) base"
proof -
  have st': "st \<noteq> []" "fst (hd st) = ANJAY_ID_INVALID"
    "collapse r (r + Suc (length base)) st = (ANJAY_ID_INVALID, c) # (n, C) # base"
    "collapse_ok room r (r + Suc (length base)) st" using st by (simp_all add: at_level_def)
  have le: "r + length base \<le> r + Suc (length base)" by simp
  from at_level_child [of c base room C r n, OF c room] have
    "collapse r (r + length base) ((ANJAY_ID_INVALID, c) # (n, C) # base)
      = (ANJAY_ID_INVALID, C @ enc_entry (agg_type (r + length base)) n c) # base"
    "collapse_ok room r (r + length base) ((ANJAY_ID_INVALID, c) # (n, C) # base)"
    by (simp_all add: at_level_def)
  with collapse_collapse [OF le, of r st] collapse_ok_collapse [OF le, of room r st] st'
  show ?thesis by (simp add: at_level_def)
qed

context byte_sink begin

lemma set_path_at:
  assumes rep: "out_rep s0 (make_path rs) r ctx st" and at: "at_level (accepts s0) r st C base"
    and ids: "ids_ok rs" "ids_ok xs" "prefix rs xs" and L: "length xs = r + length base + 2"
    and match: "base_matches r xs base" and alloc: "\<And>m. alloc m \<noteq> None"
  shows "\<exists>ctx'. output_set_path vt alloc ctx (make_path xs) = Some (ctx', 0)
    \<and> out_rep s0 (make_path rs) r ctx' ((last xs, C) # base) \<and> to_error ctx' = to_error ctx"
proof -
  from at obtain c st' where st: "st = (ANJAY_ID_INVALID, c) # st'"
    by (cases st) (auto simp: at_level_def)
  have "last xs = xs ! (r + length base + 1)" using L by (subst last_conv_nth) auto
  then show ?thesis
    using set_path_ok [where alloc = alloc, OF rep [unfolded st] ids L _ _ refl _ match alloc] at st
    by (simp add: at_level_def)
qed

lemma set_path_ret:
  assumes rep: "out_rep s0 (make_path rs) r ctx st" and at: "at_level (accepts s0) r st C base"
    and ids: "ids_ok rs" "ids_ok xs" "prefix rs xs" and L: "length xs = r + length base + 2" "0 < r + length base"
    and match: "base_matches r xs base" and alloc: "\<And>m. alloc m \<noteq> None"
    and d: "length d \<le> TLV_MAX_LENGTH"
    and room: "base = [] \<Longrightarrow> accepts s0 (length C + length (enc_entry (value_type r) (last xs) d))"
  shows "\<exists>ctx'. run_calls vt alloc ctx [Set_Path xs, Ret_Bytes d] = Some (ctx', 0)
    \<and> out_rep s0 (make_path rs) r ctx' ((ANJAY_ID_INVALID, C @ enc_entry (value_type (r + length base)) (last xs) d) # base)
    \<and> to_error ctx' = to_error ctx"
proof -
  from set_path_at [where alloc = alloc, OF rep at ids L(1) match alloc] obtain ctx1 where
    ctx1: "output_set_path vt alloc ctx (make_path xs) = Some (ctx1, 0)"
    "out_rep s0 (make_path rs) r ctx1 ((last xs, C) # base)" "to_error ctx1 = to_error ctx" by blast
  have k: "to_level ctx1 = r + length base" using ctx1(2) by (simp add: out_rep_Cons)
  have "xs \<noteq> []" using L(1) by auto
  then have n: "last xs < ANJAY_ID_INVALID" using ids(2) by (simp add: ids_ok_def list_all_iff)
  have "room_for s0 (length C) base (length (enc_entry (value_type (to_level ctx1)) (last xs) d))"
    using room k by (auto simp: room_for_def)
  from ret_bytes_ok [where alloc = alloc, OF ctx1(2) n _ d alloc this] k L(2) obtain ctx2 where
    "ret_bytes vt alloc ctx1 d = Some (ctx2, 0)"
    "out_rep s0 (make_path rs) r ctx2 ((ANJAY_ID_INVALID, C @ enc_entry (value_type (r + length base)) (last xs) d) # base)"
    "to_error ctx2 = to_error ctx1" by auto
  with ctx1 show ?thesis by simp
qed

end

text \<open>Where the Resources of an Instance are written: at the root level or below an Instance entry.\<close>

definition resource_base :: "nat \<Rightarrow> nat \<Rightarrow> open_level list \<Rightarrow> bool" where
  "resource_base r iid base \<longleftrightarrow> r = 1 \<and> base = [] \<or> (\<exists>C. r = 0 \<and> base = [(iid, C)])"

lemma resource_base_simps:
  assumes "resource_base r iid base"
  shows "r + length base = 1" "base_matches r (oid # iid # xs) base"
    "base_matches r (oid # iid # rid # xs) ((rid, C) # base)"
  using assms by (auto simp: resource_base_def base_matches_def less_Suc_eq)

lemma enc_values_simps [simp]:
  "enc_values [] = []" "enc_values ((i, d) # vs) = enc_entry TLV_ID_RIID i d @ enc_values vs"
  by (simp_all add: enc_values_def)

lemma enc_resources_simps [simp]:
  "enc_resources [] = []" "enc_resources (x # xs) = enc_resource x @ enc_resources xs"
  by (simp_all add: enc_resources_def)

lemma enc_instances_simps [simp]:
  "enc_instances [] = []" "enc_instances (x # xs) = enc_instance x @ enc_instances xs"
  by (simp_all add: enc_instances_def)

context byte_sink begin

lemma values_ok:
  assumes base: "resource_base r iid base" and ids: "ids_ok rs" "prefix rs [oid, iid, rid]"
    "oid < ANJAY_ID_INVALID" "iid < ANJAY_ID_INVALID" "rid < ANJAY_ID_INVALID" and alloc: "\<And>m. alloc m \<noteq> None"
  shows "\<lbrakk>out_rep s0 (make_path rs) r ctx ((ANJAY_ID_INVALID, c) # (rid, C) # base);
      \<forall>(riid, d) \<in> set vs. riid < ANJAY_ID_INVALID \<and> length d \<le> TLV_MAX_LENGTH\<rbrakk> \<Longrightarrow>
    \<exists>ctx'. run_calls vt alloc ctx (concat (map (\<lambda>(riid, d). [Set_Path [oid, iid, rid, riid], Ret_Bytes d]) vs)) = Some (ctx', 0)
      \<and> out_rep s0 (make_path rs) r ctx' ((ANJAY_ID_INVALID, c @ enc_values vs) # (rid, C) # base)
      \<and> to_error ctx' = to_error ctx"
proof (induction vs arbitrary: ctx c)
  case (Cons v vs)
  obtain riid d where v: "v = (riid, d)" by (cases v)
  let ?xs = "[oid, iid, rid, riid]"
  have vok: "riid < ANJAY_ID_INVALID" "length d \<le> TLV_MAX_LENGTH" using Cons.prems(2) v by auto
  have xs: "ids_ok ?xs" "prefix rs ?xs"
    using ids vok by (auto simp: ids_ok_def intro: prefix_order.trans)
  have L: "length ?xs = r + length ((rid, C) # base) + 2" "0 < r + length ((rid, C) # base)"
    using resource_base_simps(1) [OF base] by simp_all
  from set_path_ret [where alloc = alloc, OF Cons.prems(1) at_level_simple ids(1) xs L
      resource_base_simps(3) [OF base] alloc vok(2)] obtain ctx1 where
    ctx1: "run_calls vt alloc ctx [Set_Path ?xs, Ret_Bytes d] = Some (ctx1, 0)"
    "out_rep s0 (make_path rs) r ctx1 ((ANJAY_ID_INVALID, c @ enc_entry (value_type (r + length ((rid, C) # base))) riid d) # (rid, C) # base)"
    "to_error ctx1 = to_error ctx" by auto
  have t: "value_type (r + length ((rid, C) # base)) = TLV_ID_RIID"
    using resource_base_simps(1) [OF base] by (simp add: value_type_def)
  from Cons.IH [OF ctx1(2) [unfolded t]] Cons.prems(2) obtain ctx2 where
    "run_calls vt alloc ctx1 (concat (map (\<lambda>(riid, d). [Set_Path [oid, iid, rid, riid], Ret_Bytes d]) vs)) = Some (ctx2, 0)"
    "out_rep s0 (make_path rs) r ctx2 ((ANJAY_ID_INVALID, (c @ enc_entry TLV_ID_RIID riid d) @ enc_values vs) # (rid, C) # base)"
    "to_error ctx2 = to_error ctx1" by auto
  with run_calls_append [OF ctx1(1)] ctx1(3) v show ?case by auto
qed simp

lemma resource_ok_step:
  assumes rep: "out_rep s0 (make_path rs) r ctx st" and at: "at_level (accepts s0) r st C base"
    and base: "resource_base r iid base" and res: "resource_ok res"
    and ids: "ids_ok rs" "\<And>rid. prefix rs [oid, iid, rid]" "oid < ANJAY_ID_INVALID" "iid < ANJAY_ID_INVALID"
    and room: "base = [] \<Longrightarrow> accepts s0 (length (C @ enc_resource res))" and alloc: "\<And>m. alloc m \<noteq> None"
  shows "\<exists>ctx' st'. run_calls vt alloc ctx (resource_calls oid iid res) = Some (ctx', 0)
    \<and> out_rep s0 (make_path rs) r ctx' st' \<and> at_level (accepts s0) r st' (C @ enc_resource res) base
    \<and> to_error ctx' = to_error ctx"
proof -
  have k: "r + length base = 1" by (rule resource_base_simps [OF base])
  have xs: "ids_ok [oid, iid, rid]" if "rid < ANJAY_ID_INVALID" for rid using ids that by (simp add: ids_ok_def)
  have L: "length [oid, iid, rid] = r + length base + 2" "0 < r + length base" for rid using k by simp_all
  note m = resource_base_simps(2) [OF base]
  show ?thesis
  proof (cases res)
    case (Single rid d)
    with res have d: "rid < ANJAY_ID_INVALID" "length d \<le> TLV_MAX_LENGTH" by simp_all
    have room': "accepts s0 (length C + length (enc_entry (value_type r) (last [oid, iid, rid]) d))" if "base = []"
      using room [OF that] k that Single by (simp add: value_type_def)
    from set_path_ret [where alloc = alloc, OF rep at ids(1) xs [OF d(1)] ids(2) L m alloc d(2) room'] k obtain ctx1 where
      "run_calls vt alloc ctx (resource_calls oid iid res) = Some (ctx1, 0)"
      "out_rep s0 (make_path rs) r ctx1 ((ANJAY_ID_INVALID, C @ enc_resource res) # base)"
      "to_error ctx1 = to_error ctx" using Single by (auto simp: value_type_def)
    with at_level_simple show ?thesis by blast
  next
    case (Multiple rid vs)
    with res have v: "rid < ANJAY_ID_INVALID" "length (enc_values vs) \<le> TLV_MAX_LENGTH"
      "\<forall>(riid, d) \<in> set vs. riid < ANJAY_ID_INVALID \<and> length d \<le> TLV_MAX_LENGTH" by simp_all
    from set_path_at [where alloc = alloc, OF rep at ids(1) xs [OF v(1)] ids(2) L(1) m alloc] obtain ctx1 where
      ctx1: "output_set_path vt alloc ctx (make_path [oid, iid, rid]) = Some (ctx1, 0)"
      "out_rep s0 (make_path rs) r ctx1 ((rid, C) # base)" "to_error ctx1 = to_error ctx" by auto
    have "to_level ctx1 < 2" using ctx1(2) k by (simp add: out_rep_Cons)
    from start_aggregate_ok [OF ctx1(2) v(1) this] obtain ctx2 where
      ctx2: "output_start_aggregate ctx1 = Some (ctx2, 0)"
      "out_rep s0 (make_path rs) r ctx2 ((ANJAY_ID_INVALID, []) # (rid, C) # base)" "to_error ctx2 = to_error ctx1"
      by blast
    from values_ok [where alloc = alloc, OF base ids(1,2) ids(3,4) v(1) alloc ctx2(2) v(3)] obtain ctx3 where
      ctx3: "run_calls vt alloc ctx2 (concat (map (\<lambda>(riid, d). [Set_Path [oid, iid, rid, riid], Ret_Bytes d]) vs)) = Some (ctx3, 0)"
      "out_rep s0 (make_path rs) r ctx3 ((ANJAY_ID_INVALID, enc_values vs) # (rid, C) # base)"
      "to_error ctx3 = to_error ctx2" by auto
    have t: "agg_type (r + length base) = TLV_ID_RID_ARRAY" using k by (simp add: agg_type_def)
    have room': "accepts s0 (length C + length (enc_entry (agg_type r) rid (enc_values vs)))" if "base = []"
      using room [OF that] t that Multiple by simp
    have "at_level (accepts s0) r ((ANJAY_ID_INVALID, enc_values vs) # (rid, C) # base)
        (C @ enc_entry (agg_type (r + length base)) rid (enc_values vs)) base"
      by (rule at_level_child [OF v(2)]) (rule room')
    then have "at_level (accepts s0) r ((ANJAY_ID_INVALID, enc_values vs) # (rid, C) # base) (C @ enc_resource res) base"
      unfolding t Multiple by simp
    with ctx3 ctx1 ctx2 Multiple show ?thesis by auto
  qed
qed

lemma resources_ok_step:
  assumes base: "resource_base r iid base" and alloc: "\<And>m. alloc m \<noteq> None"
    and ids: "ids_ok rs" "\<And>rid. prefix rs [oid, iid, rid]" "oid < ANJAY_ID_INVALID" "iid < ANJAY_ID_INVALID"
  shows "\<lbrakk>out_rep s0 (make_path rs) r ctx st; at_level (accepts s0) r st C base; list_all resource_ok ress;
      base = [] \<longrightarrow> accepts s0 (length (C @ enc_resources ress))\<rbrakk> \<Longrightarrow>
    \<exists>ctx' st'. run_calls vt alloc ctx (concat (map (resource_calls oid iid) ress)) = Some (ctx', 0)
      \<and> out_rep s0 (make_path rs) r ctx' st' \<and> at_level (accepts s0) r st' (C @ enc_resources ress) base
      \<and> to_error ctx' = to_error ctx"
proof (induction ress arbitrary: ctx st C)
  case Nil
  then show ?case by auto
next
  case (Cons res ress)
  have room: "accepts s0 (length (C @ enc_resource res))" if "base = []"
  proof -
    have "accepts s0 (length (C @ enc_resource res) + length (enc_resources ress))"
      using Cons.prems(4) that by (simp add: add.assoc)
    then show ?thesis by (rule accepts_prefix)
  qed
  have res: "resource_ok res" "list_all resource_ok ress" using Cons.prems(3) by simp_all
  from resource_ok_step [where alloc = alloc, OF Cons.prems(1,2) base res(1) ids room alloc] obtain ctx1 st1 where
    s1: "run_calls vt alloc ctx (resource_calls oid iid res) = Some (ctx1, 0)"
    "out_rep s0 (make_path rs) r ctx1 st1" "at_level (accepts s0) r st1 (C @ enc_resource res) base"
    "to_error ctx1 = to_error ctx" by blast
  from Cons.IH [OF s1(2,3) res(2)] Cons.prems(4) obtain ctx2 st2 where
    "run_calls vt alloc ctx1 (concat (map (resource_calls oid iid) ress)) = Some (ctx2, 0)"
    "out_rep s0 (make_path rs) r ctx2 st2"
    "at_level (accepts s0) r st2 ((C @ enc_resource res) @ enc_resources ress) base" "to_error ctx2 = to_error ctx1"
    by auto
  with run_calls_append [OF s1(1)] s1(4) show ?case by auto
qed

end

section \<open>From creation to destruction\<close>

text \<open>Creating a context for a path, making the calls and destroying it; both results are kept.\<close>

definition serialize_calls ::
  "'s stream_vtable \<Rightarrow> allocator \<Rightarrow> 's \<Rightarrow> nat list \<Rightarrow> out_call list \<Rightarrow> ('s \<times> int \<times> int) option" where
  "serialize_calls vt alloc s rs calls = do {
     ctx \<leftarrow> output_tlv_create s (make_path rs);
     (ctx, r) \<leftarrow> run_calls vt alloc ctx calls;
     (s, r') \<leftarrow> output_ctx_destroy vt alloc ctx;
     Some (s, r, r') }"

context byte_sink begin

lemma create_ok:
  assumes s: "ok s" and ids: "ids_ok rs" and rs: "rs \<noteq> []" and r: "root_level (make_path rs) = Some r"
  shows "\<exists>ctx. output_tlv_create s (make_path rs) = Some ctx
    \<and> out_rep s (make_path rs) r ctx [(ANJAY_ID_INVALID, [])] \<and> to_error ctx = 0"
proof -
  have r3: "r \<le> 2" using r by (auto simp: root_level_def Let_def split: if_splits)
  define ctx0 where "ctx0 = \<lparr>to_error = 0, to_stream = s, to_root_path = make_path rs,
    to_levels = replicate 3 zero_level, to_level = r\<rparr>"
  define ctx where "ctx = set_level ctx0 r (zero_level\<lparr>ol_next_id := ANJAY_ID_INVALID\<rparr>)"
  have "uri_path_has (make_path rs) ANJAY_ID_OID" using ids rs by (simp add: uri_path_has_def)
  then have create: "output_tlv_create s (make_path rs) = Some ctx"
    using r r3 by (simp add: output_tlv_create_def ctx0_def ctx_def current_level_def level_at_def)
  have lv: "to_levels ctx ! i = (if i = r then zero_level\<lparr>ol_next_id := ANJAY_ID_INVALID\<rparr> else zero_level)"
    if "i < 3" for i using r3 that by (simp add: ctx_def set_level_def ctx0_def nth_list_update)
  have fields: "to_root_path ctx = make_path rs" "length (to_levels ctx) = 3" "to_level ctx = r"
    "to_stream ctx = s" "to_error ctx = 0" by (simp_all add: ctx_def ctx0_def)
  have "root_rep (to_levels ctx ! r) (ANJAY_ID_INVALID, [])"
    using lv [of r] r3 by (simp add: root_rep_def level_idle_def zero_level_def)
  moreover have "level_idle (to_levels ctx ! i)" if "r < i" "i < 3" for i
    using lv [of i] that by (simp add: level_idle_def zero_level_def)
  ultimately have "out_rep s (make_path rs) r ctx [(ANJAY_ID_INVALID, [])]"
    using r r3 fields wrote_Nil [OF s] by (auto simp: out_rep_Cons)
  with create fields(5) show ?thesis by blast
qed

lemma destroy_ok:
  assumes rep: "out_rep s0 root r ctx st" and at: "at_level (accepts s0) r st C []"
    and err: "to_error ctx = 0" and alloc: "\<And>m. alloc m \<noteq> None"
  shows "\<exists>s'. output_ctx_destroy vt alloc ctx = Some (s', 0) \<and> wrote s0 s' C"
proof -
  have st: "collapse r r st = [(ANJAY_ID_INVALID, C)]" "collapse_ok (accepts s0) r r st"
    "fst (hd st) = ANJAY_ID_INVALID" "st \<noteq> []" using at by (simp_all add: at_level_def)
  then obtain c st' where st': "st = (ANJAY_ID_INVALID, c) # st'" by (cases st) auto
  from out_rep_current [OF rep [unfolded st']] obtain l where
    l: "current_level ctx = Some l" "ol_next_id l = ANJAY_ID_INVALID" by auto
  from close_levels_ok [where alloc = alloc, OF rep st(2) refl alloc] st(1) obtain ctx' where
    "close_levels vt alloc ctx 0 = Some (ctx', 0)" "out_rep s0 root r ctx' [(ANJAY_ID_INVALID, C)]" by auto
  moreover from this(2) have "wrote s0 (to_stream ctx') C" by (simp add: out_rep_Cons)
  ultimately show ?thesis
    using l err by (simp add: output_ctx_destroy_def tlv_output_close_def update_ret_def)
qed

lemma serialize_calls_ok:
  assumes s: "ok s" and ids: "ids_ok rs" "rs \<noteq> []" "root_level (make_path rs) = Some r"
    and alloc: "\<And>m. alloc m \<noteq> None"
    and run: "\<And>ctx. out_rep s (make_path rs) r ctx [(ANJAY_ID_INVALID, [])] \<Longrightarrow>
      \<exists>ctx' st. run_calls vt alloc ctx calls = Some (ctx', 0) \<and> out_rep s (make_path rs) r ctx' st
        \<and> at_level (accepts s) r st C [] \<and> to_error ctx' = to_error ctx"
  shows "\<exists>s'. serialize_calls vt alloc s rs calls = Some (s', 0, 0) \<and> wrote s s' C"
proof -
  from create_ok [OF s ids] obtain ctx where ctx: "output_tlv_create s (make_path rs) = Some ctx"
    "out_rep s (make_path rs) r ctx [(ANJAY_ID_INVALID, [])]" "to_error ctx = 0" by blast
  from run [OF ctx(2)] obtain ctx' st where ctx': "run_calls vt alloc ctx calls = Some (ctx', 0)"
    "out_rep s (make_path rs) r ctx' st" "at_level (accepts s) r st C []" "to_error ctx' = to_error ctx" by blast
  from destroy_ok [where alloc = alloc, OF ctx'(2,3) _ alloc] ctx' ctx show ?thesis
    by (auto simp: serialize_calls_def)
qed

lemma instance_ok_step:
  assumes rep: "out_rep s0 (make_path [oid]) 0 ctx st" and at: "at_level (accepts s0) 0 st C []"
    and inst: "instance_ok inst" and oid: "oid < ANJAY_ID_INVALID" and alloc: "\<And>m. alloc m \<noteq> None"
    and room: "accepts s0 (length (C @ enc_instance inst))"
  shows "\<exists>ctx' st'. run_calls vt alloc ctx (instance_calls oid inst) = Some (ctx', 0)
    \<and> out_rep s0 (make_path [oid]) 0 ctx' st' \<and> at_level (accepts s0) 0 st' (C @ enc_instance inst) []
    \<and> to_error ctx' = to_error ctx"
proof -
  obtain iid ress where inst_eq: "inst = (iid, ress)" by (cases inst)
  have i: "iid < ANJAY_ID_INVALID" "list_all resource_ok ress" "length (enc_resources ress) \<le> TLV_MAX_LENGTH"
    using inst by (simp_all add: instance_ok_def inst_eq)
  have ids: "ids_ok [oid]" "ids_ok [oid, iid]" "prefix [oid] [oid, iid]" using oid i by (simp_all add: ids_ok_def)
  have m: "base_matches 0 [oid, iid] []" by (simp add: base_matches_def)
  from set_path_at [where alloc = alloc, OF rep at ids _ m alloc] obtain ctx1 where
    c1: "output_set_path vt alloc ctx (make_path [oid, iid]) = Some (ctx1, 0)"
    "out_rep s0 (make_path [oid]) 0 ctx1 [(iid, C)]" "to_error ctx1 = to_error ctx" by auto
  have "to_level ctx1 < 2" using c1(2) by (simp add: out_rep_Cons)
  from start_aggregate_ok [OF c1(2) i(1) this] obtain ctx2 where
    c2: "output_start_aggregate ctx1 = Some (ctx2, 0)"
    "out_rep s0 (make_path [oid]) 0 ctx2 [(ANJAY_ID_INVALID, []), (iid, C)]" "to_error ctx2 = to_error ctx1" by blast
  have base: "resource_base 0 iid [(iid, C)]" by (simp add: resource_base_def)
  from resources_ok_step [where alloc = alloc, OF base alloc ids(1) _ oid i(1) c2(2) at_level_simple i(2)]
  obtain ctx3 st3 where
    c3: "run_calls vt alloc ctx2 (concat (map (resource_calls oid iid) ress)) = Some (ctx3, 0)"
    "out_rep s0 (make_path [oid]) 0 ctx3 st3" "at_level (accepts s0) 0 st3 (enc_resources ress) [(iid, C)]"
    "to_error ctx3 = to_error ctx2" by auto
  have room': "accepts s0 (length C + length (enc_entry (agg_type 0) iid (enc_resources ress)))"
    using room by (simp add: enc_instance_def inst_eq agg_type_def)
  have "at_level (accepts s0) 0 st3 (C @ enc_entry (agg_type (0 + length ([] :: open_level list))) iid (enc_resources ress)) []"
    by (rule at_level_down [OF c3(3) i(3)]) (rule room')
  then have "at_level (accepts s0) 0 st3 (C @ enc_instance inst) []"
    by (simp add: enc_instance_def inst_eq agg_type_def)
  with c1 c2 c3 show ?thesis by (auto simp: instance_calls_def inst_eq)
qed

lemma instances_ok_step:
  assumes oid: "oid < ANJAY_ID_INVALID" and alloc: "\<And>m. alloc m \<noteq> None"
  shows "\<lbrakk>out_rep s0 (make_path [oid]) 0 ctx st; at_level (accepts s0) 0 st C []; list_all instance_ok insts;
      accepts s0 (length (C @ enc_instances insts))\<rbrakk> \<Longrightarrow>
    \<exists>ctx' st'. run_calls vt alloc ctx (object_calls oid insts) = Some (ctx', 0)
      \<and> out_rep s0 (make_path [oid]) 0 ctx' st' \<and> at_level (accepts s0) 0 st' (C @ enc_instances insts) []
      \<and> to_error ctx' = to_error ctx"
proof (induction insts arbitrary: ctx st C)
  case Nil
  then show ?case by (auto simp: object_calls_def)
next
  case (Cons inst insts)
  have "accepts s0 (length (C @ enc_instance inst) + length (enc_instances insts))"
    using Cons.prems(4) by (simp add: add.assoc)
  then have room: "accepts s0 (length (C @ enc_instance inst))" by (rule accepts_prefix)
  have inst: "instance_ok inst" "list_all instance_ok insts" using Cons.prems(3) by simp_all
  from instance_ok_step [where alloc = alloc, OF Cons.prems(1,2) inst(1) oid alloc room] obtain ctx1 st1 where
    s1: "run_calls vt alloc ctx (instance_calls oid inst) = Some (ctx1, 0)"
    "out_rep s0 (make_path [oid]) 0 ctx1 st1" "at_level (accepts s0) 0 st1 (C @ enc_instance inst) []"
    "to_error ctx1 = to_error ctx" by blast
  from Cons.IH [OF s1(2,3) inst(2)] Cons.prems(4) obtain ctx2 st2 where
    "run_calls vt alloc ctx1 (object_calls oid insts) = Some (ctx2, 0)"
    "out_rep s0 (make_path [oid]) 0 ctx2 st2"
    "at_level (accepts s0) 0 st2 ((C @ enc_instance inst) @ enc_instances insts) []" "to_error ctx2 = to_error ctx1"
    by auto
  with run_calls_append [OF s1(1)] s1(4) show ?case by (auto simp: object_calls_def)
qed

lemma serialize_object_ok:
  assumes "ok s" and "oid < ANJAY_ID_INVALID" and "list_all instance_ok insts" and "\<And>m. alloc m \<noteq> None"
    and "accepts s (length (enc_instances insts))"
  shows "\<exists>s'. serialize_calls vt alloc s [oid] (object_calls oid insts) = Some (s', 0, 0)
    \<and> wrote s s' (enc_instances insts)"
proof (rule serialize_calls_ok [where r = 0])
  show "ok s" "\<And>m. alloc m \<noteq> None" by fact+
  show ids: "ids_ok [oid]" "[oid] \<noteq> []" using assms(2) by (simp_all add: ids_ok_def)
  then show "root_level (make_path [oid]) = Some 0" by (simp add: root_level_def)
next
  fix ctx
  assume rep: "out_rep s (make_path [oid]) 0 ctx [(ANJAY_ID_INVALID, [])]"
  show "\<exists>ctx' st. run_calls vt alloc ctx (object_calls oid insts) = Some (ctx', 0)
      \<and> out_rep s (make_path [oid]) 0 ctx' st \<and> at_level (accepts s) 0 st (enc_instances insts) []
      \<and> to_error ctx' = to_error ctx"
    using instances_ok_step [where alloc = alloc, OF assms(2,4) rep at_level_simple assms(3)] assms(5) by simp
qed

lemma serialize_instance_ok:
  assumes "ok s" and "oid < ANJAY_ID_INVALID" and "iid < ANJAY_ID_INVALID" and "list_all resource_ok ress"
    and "\<And>m. alloc m \<noteq> None" and "accepts s (length (enc_resources ress))"
  shows "\<exists>s'. serialize_calls vt alloc s [oid, iid] (instance_calls oid (iid, ress)) = Some (s', 0, 0)
    \<and> wrote s s' (enc_resources ress)"
proof (rule serialize_calls_ok [where r = 1])
  show "ok s" "\<And>m. alloc m \<noteq> None" by fact+
  show ids: "ids_ok [oid, iid]" "[oid, iid] \<noteq> []" using assms(2,3) by (simp_all add: ids_ok_def)
  then show "root_level (make_path [oid, iid]) = Some 1" by (simp add: root_level_def)
  fix ctx
  assume rep: "out_rep s (make_path [oid, iid]) 1 ctx [(ANJAY_ID_INVALID, [])]"
  from set_path_instance [where alloc = alloc, OF rep ids(1)] obtain ctx1 where
    c1: "output_set_path vt alloc ctx (make_path [oid, iid]) = Some (ctx1, 0)"
    "out_rep s (make_path [oid, iid]) 1 ctx1 [(ANJAY_ID_INVALID, [])]" "to_error ctx1 = to_error ctx" by blast
  have base: "resource_base 1 iid []" by (simp add: resource_base_def)
  from resources_ok_step [where alloc = alloc, OF base assms(5) ids(1) _ assms(2,3) c1(2) at_level_simple assms(4)]
    assms(6) obtain ctx3 st3 where
    "run_calls vt alloc ctx1 (concat (map (resource_calls oid iid) ress)) = Some (ctx3, 0)"
    "out_rep s (make_path [oid, iid]) 1 ctx3 st3" "at_level (accepts s) 1 st3 (enc_resources ress) []"
    "to_error ctx3 = to_error ctx1" by auto
  with c1(1,3) start_aggregate_instance [OF c1(2) ids(1)]
  show "\<exists>ctx' st. run_calls vt alloc ctx (instance_calls oid (iid, ress)) = Some (ctx', 0)
      \<and> out_rep s (make_path [oid, iid]) 1 ctx' st \<and> at_level (accepts s) 1 st (enc_resources ress) []
      \<and> to_error ctx' = to_error ctx" by (auto simp: instance_calls_def)
qed

end

section \<open>Properties\<close>

text \<open>C20: Reading an Object: the calls that walk a tree of Object Instances, Resources and Resource
  Instances all succeed, and the stream then holds the nested TLV encoding of the tree after what it
  held before, provided the stream has room for it, memory is available, identifiers are valid and
  no value exceeds the 24-bit length field. The serializer, which only learns of a nesting level's
  end from the next path, thus implements the encoding of the tree.\<close>

theorem tlv_object_serialized:
  assumes "outbuf_ok s" and "oid < ANJAY_ID_INVALID" and "list_all instance_ok insts"
    and "\<And>m. alloc m \<noteq> None" and "outbuf_accepts s (length (enc_instances insts))"
  shows "\<exists>s'. serialize_calls outbuf_vtable alloc s [oid] (object_calls oid insts) = Some (s', 0, 0)
    \<and> outbuf_content s' = outbuf_content s @ enc_instances insts"
  using obs.serialize_object_ok [where alloc = alloc, OF assms] by (auto simp: obs.wrote_def)

definition sample_instances :: "instance_tree list" where
  "sample_instances = [(0, [Single 15 [0x41, 0x42], Multiple 6 [(0, [1]), (2, [5])]]), (300, [Single 9 (replicate 8 7)])]"

lemma sample_instances_enc:
  "enc_instances sample_instances
     = [0x08, 0, 0x0C, 0xC2, 15, 0x41, 0x42, 0x86, 6, 0x41, 0, 1, 0x41, 2, 5,
        0x28, 1, 0x2C, 0x0B, 0xC8, 9, 8] @ replicate 8 7"
  by code_simp

lemma sample_instances_ok: "list_all instance_ok sample_instances"
proof -
  have enc: "enc_resources [Single 15 [0x41, 0x42], Multiple 6 [(0, [1]), (2, [5])]]
      = [0xC2, 15, 0x41, 0x42, 0x86, 6, 0x41, 0, 1, 0x41, 2, 5]"
    "enc_values [(0, [1]), (2, [5])] = [0x41, 0, 1, 0x41, 2, 5]"
    "enc_resources [Single 9 (replicate 8 7)] = [0xC8, 9, 8] @ replicate 8 7" by code_simp+
  show ?thesis
    by (simp add: sample_instances_def instance_ok_def enc del: enc_resources_simps enc_values_simps)
qed

theorem tlv_object_witness:
  "\<exists>s'. serialize_calls outbuf_vtable (\<lambda>_. Some (\<lambda>_. 0)) (outbuf_set_buffer AVS_STREAM_OUTBUF_STATIC_INITIALIZER (replicate 64 0) 64) [3]
      (object_calls 3 sample_instances) = Some (s', 0, 0)
    \<and> outbuf_content s' = [0x08, 0, 0x0C, 0xC2, 15, 0x41, 0x42, 0x86, 6, 0x41, 0, 1, 0x41, 2, 5,
        0x28, 1, 0x2C, 0x0B, 0xC8, 9, 8] @ replicate 8 7"
  using tlv_object_serialized [of "outbuf_set_buffer AVS_STREAM_OUTBUF_STATIC_INITIALIZER (replicate 64 0) 64" 3 sample_instances "\<lambda>_. Some (\<lambda>_. 0)"]
    sample_instances_ok unfolding sample_instances_enc by simp

text \<open>Reading an Object Instance: with the context rooted at the Instance, whose own path is set
  first but has no entry of its own, the stream receives the encoding of its Resources.\<close>

theorem tlv_instance_serialized:
  assumes "outbuf_ok s" and "oid < ANJAY_ID_INVALID" and "iid < ANJAY_ID_INVALID" and "list_all resource_ok ress"
    and "\<And>m. alloc m \<noteq> None" and "outbuf_accepts s (length (enc_resources ress))"
  shows "\<exists>s'. serialize_calls outbuf_vtable alloc s [oid, iid] (instance_calls oid (iid, ress)) = Some (s', 0, 0)
    \<and> outbuf_content s' = outbuf_content s @ enc_resources ress"
  using obs.serialize_instance_ok [where alloc = alloc, OF assms] by (auto simp: obs.wrote_def)

theorem tlv_instance_witness:
  "\<exists>s'. serialize_calls outbuf_vtable (\<lambda>_. Some (\<lambda>_. 0)) (outbuf_set_buffer AVS_STREAM_OUTBUF_STATIC_INITIALIZER (replicate 9 0) 9) [3, 7]
      (instance_calls 3 (7, [Single 300 [1], Multiple 2 [(9, [])]])) = Some (s', 0, 0)
    \<and> outbuf_content s' = [0xE1, 1, 0x2C, 1, 0x82, 2, 0x40, 9]"
proof -
  have enc: "enc_resources [Single 300 [1], Multiple 2 [(9, [])]] = [0xE1, 1, 0x2C, 1, 0x82, 2, 0x40, 9]"
    by code_simp
  have "enc_values [(9, [])] = [0x40, 9]" by code_simp
  then have "list_all resource_ok [Single 300 [1], Multiple 2 [(9, [])]]"
    by (simp del: enc_values_simps)
  from tlv_instance_serialized [of "outbuf_set_buffer AVS_STREAM_OUTBUF_STATIC_INITIALIZER (replicate 9 0) 9" 3 7 _ "\<lambda>_. Some (\<lambda>_. 0)", OF _ _ _ this]
  show ?thesis unfolding enc by simp
qed

text \<open>The shortest of 1, 2, 4 and 8 bytes whose two's complement range contains an integer.\<close>

definition int_width :: "int \<Rightarrow> nat" where
  "int_width v = (if - (2 ^ 7) \<le> v \<and> v < 2 ^ 7 then 1 else if - (2 ^ 15) \<le> v \<and> v < 2 ^ 15 then 2
     else if - (2 ^ 31) \<le> v \<and> v < 2 ^ 31 then 4 else 8)"

definition int_bytes :: "int \<Rightarrow> bytes" where
  "int_bytes v = be_bytes (int_width v) (nat (v mod 2 ^ (8 * int_width v)))"

lemma signed_fits: "v = signed_take_bit n v \<longleftrightarrow> - (2 ^ n) \<le> v \<and> v < 2 ^ n" for v :: int
  using signed_take_bit_int_eq_self_iff [of n v] by auto

lemma tlv_ret_i64_bytes: "tlv_ret_i64 vt alloc ctx v = ret_bytes vt alloc ctx (int_bytes v)"
proof -
  have i8: "tlv_ret_i16 vt alloc ctx v = ret_bytes vt alloc ctx (int_bytes v)" if "- (2 ^ 15) \<le> v" "v < 2 ^ 15"
    using that signed_fits [of v 7]
    by (auto simp: tlv_ret_i16_def tlv_ret_i8_def int_bytes_def int_width_def)
  have i16: "tlv_ret_i32 vt alloc ctx v = ret_bytes vt alloc ctx (int_bytes v)" if "- (2 ^ 31) \<le> v" "v < 2 ^ 31"
    using that signed_fits [of v 15] i8
    by (auto simp: tlv_ret_i32_def int_bytes_def int_width_def)
  show ?thesis
    using signed_fits [of v 31] i16 by (auto simp: tlv_ret_i64_def int_bytes_def int_width_def)
qed

end
