(* ===== verification/Tlv_In_Total.thy ===== *)
theory Tlv_In_Total
  imports Tlv_In Tlv_Out_Tree
begin

text \<open>
  The TLV reader on arbitrary input: what one header is decoded to, and that no sequence of calls
  leaves the defined behaviour of the code or loops.
\<close>

section \<open>Decoding a header\<close>

primrec id_type_of :: "tlv_id_type \<Rightarrow> anjay_id_type" where
  "id_type_of TLV_ID_IID = ANJAY_ID_IID"
| "id_type_of TLV_ID_RIID = ANJAY_ID_RIID"
| "id_type_of TLV_ID_RID_ARRAY = ANJAY_ID_RID"
| "id_type_of TLV_ID_RID = ANJAY_ID_RID"

text \<open>The fields of a type byte do not overlap.\<close>

lemma push_or_low:
  fixes l :: nat
  assumes "l < 2 ^ n"
  shows "push_bit n m OR l = 2 ^ n * m + l"
proof -
  have l: "l = take_bit n l" using assms by (simp add: take_bit_nat_eq_self)
  have "push_bit n m AND take_bit n l = 0" by (rule bit_eqI) (auto simp: bit_simps)
  then have "push_bit n m AND l = 0" using l by simp
  then have "push_bit n m OR l = push_bit n m + l" by (rule disjunctive_add_eq_or [symmetric])
  then show ?thesis by (simp add: push_bit_eq_mult mult.commute)
qed

lemma tlv_typefield_value:
  assumes "typefield_length len < 32"
  shows "tlv_typefield t i len
    = 64 * tlv_id_type_value t + 32 * (if i > 255 then 1 else 0) + typefield_length len"
proof -
  have "tlv_typefield t i len
      = push_bit 5 (2 * tlv_id_type_value t + (if i > 255 then 1 else 0)) OR typefield_length len"
    by (cases t) (simp_all add: tlv_typefield_def push_bit_eq_mult)
  with push_or_low [of "typefield_length len" 5] assms show ?thesis by simp
qed

lemma typefield_length_lt: "len \<le> TLV_MAX_LENGTH \<Longrightarrow> typefield_length len < 32"
  using u32_length_le_iff [of 3 len] by (simp add: typefield_length_def)

lemma tlv_typefield_fields:
  fixes t i len
  assumes "len \<le> TLV_MAX_LENGTH"
  defines "b \<equiv> byte_of (tlv_typefield t i len)"
  shows "tlv_type_from_typefield b = t" and "b AND 0x20 \<noteq> 0 \<longleftrightarrow> i > 255"
    and "unat (drop_bit 3 b AND 3) = (if len \<le> 7 then 0 else u32_length len)"
    and "len \<le> 7 \<Longrightarrow> unat (b AND 7) = len"
proof -
  let ?f = "if i > 255 then 1 else (0::nat)"
  have l: "typefield_length len < 32" by (rule typefield_length_lt [OF assms(1)])
  define l where "l = typefield_length len"
  define v where "v = tlv_id_type_value t"
  have v: "v < 4" by (cases t) (simp_all add: v_def)
  have n: "tlv_typefield t i len = 64 * v + 32 * ?f + l"
    using tlv_typefield_value [OF l] by (simp add: v_def l_def)
  have "64 * v + 32 * ?f + l < 256" using v l by (simp add: l_def)
  then have b: "unat b = 64 * v + 32 * ?f + l" by (simp add: b_def n)
  have "unat (drop_bit 6 b AND 3) = unat b div 64 mod 4"
    using unat_and_mask [of "drop_bit 6 b" 2] by (simp add: mask_numeral unat_drop_bit_div)
  also have "\<dots> = v"
  proof -
    have "(64 * v + 32 * ?f + l) div 64 = v" by (rule div_nat_eqI) (use l in \<open>simp_all add: l_def\<close>)
    with v show ?thesis by (simp only: b) simp
  qed
  finally show "tlv_type_from_typefield b = t"
    by (cases t) (simp_all add: tlv_type_from_typefield_def v_def)
  have "unat (drop_bit 3 b AND 3) = unat b div 8 mod 4"
    using unat_and_mask [of "drop_bit 3 b" 2] by (simp add: mask_numeral unat_drop_bit_div)
  also have "\<dots> = l div 8"
  proof -
    have "(64 * v + 32 * ?f + l) div 8 = l div 8 + 4 * (2 * v + ?f)" by simp
    moreover have "l div 8 < 4" using l by (simp add: l_def)
    ultimately show ?thesis by (simp only: b mod_mult_self2 mod_less)
  qed
  finally show "unat (drop_bit 3 b AND 3) = (if len \<le> 7 then 0 else u32_length len)"
    by (simp add: l_def typefield_length_def)
  have "unat (b AND 7) = unat b mod 8" using unat_and_mask [of b 3] by (simp add: mask_numeral)
  also have "\<dots> = l mod 8"
  proof -
    have "64 * v + 32 * ?f + l = l + 8 * (8 * v + 4 * ?f)" by simp
    then show ?thesis unfolding b by (simp only: mod_mult_self2)
  qed
  finally show "len \<le> 7 \<Longrightarrow> unat (b AND 7) = len" by (simp add: l_def typefield_length_def)
  have "(b AND 2 ^ 5 \<noteq> 0) \<longleftrightarrow> bit b 5" by (simp only: and_exp_eq_0_iff_not_bit not_not)
  also have "bit b 5 \<longleftrightarrow> bit (unat b) 5" by (simp add: bit_unsigned_iff bit_imp_le_length)
  also have "\<dots> \<longleftrightarrow> odd (unat b div 32)" by (simp add: bit_iff_odd)
  also have "unat b div 32 = 2 * v + ?f" using l by (simp add: b l_def)
  finally show "b AND 0x20 \<noteq> 0 \<longleftrightarrow> i > 255" by (simp split: if_splits)
qed

lemma fold_shortened:
  "8 * length bs \<le> w \<Longrightarrow> foldl (\<lambda>out b. (256 * out + unat b) mod 2 ^ w) 0 bs = be_nat bs"
proof (induction bs rule: rev_induct)
  case (snoc b bs)
  have "be_nat (bs @ [b]) < 256 ^ length (bs @ [b])" by (rule be_nat_less)
  also have "\<dots> = 2 ^ (8 * length (bs @ [b]))" by (simp only: power_mult) simp
  also have "\<dots> \<le> 2 ^ w" using snoc.prems by (intro power_increasing) auto
  finally have "256 * be_nat bs + unat b < 2 ^ w" by simp
  with snoc show ?case by simp
qed simp

lemma u32_length_id: "i < 65536 \<Longrightarrow> u32_length i = (if i > 255 then 2 else 1)"
  using u32_length_le_iff [of 1 i] u32_length_le_iff [of 2 i] u32_length_pos [of i]
  by (auto simp: not_less simp del: u32_length_pos)

lemma u32_length_not_0 [simp]: "u32_length v = 0 \<longleftrightarrow> False"
  using u32_length_pos [of v] by (simp del: u32_length_pos)

lemma u32_length_24: "len \<le> TLV_MAX_LENGTH \<Longrightarrow> u32_length len \<le> 3"
  using u32_length_le_iff [of 3 len] by simp

context byte_source begin

lemma read_shortened_ok:
  assumes s: "ok s" and c: "content s = short_be v @ rest" and w: "8 * u32_length v \<le> w"
  shows "\<exists>s'. read_shortened w vt s (u32_length v) = Some (s', Some v) \<and> ok s' \<and> content s' = rest"
  using read_reliably_ok [OF s, of "u32_length v"] c w fold_shortened [of "short_be v" w]
  by (auto simp: read_shortened_def be_nat_short_be)

lemma read_shortened_total:
  assumes s: "ok s" and w: "8 * n \<le> w"
  shows "\<exists>s' out. read_shortened w vt s n = Some (s', out) \<and> ok s' \<and> content s' = drop n (content s)
    \<and> (\<forall>v. out = Some v \<longrightarrow> v < 256 ^ n)"
proof -
  from read_reliably_ok [OF s, of n] obtain s' where s': "stream_read_reliably vt s n
      = Some (s', if n \<le> length (content s) then AVS_OK else AVS_EOF, take n (content s))" "ok s'"
    "content s' = drop n (content s)" by blast
  have "be_nat (take n (content s)) < 256 ^ n" if "n \<le> length (content s)"
    using be_nat_less [of "take n (content s)"] that by (simp add: min_absorb2)
  with s' w fold_shortened [of "take n (content s)" w] show ?thesis
    by (auto simp: read_shortened_def)
qed

text \<open>An encoded header is decoded to what was encoded.\<close>

lemma get_id_ok:
  assumes s: "ok (ti_stream ctx)" and c: "content (ti_stream ctx) = enc_header t i len @ rest"
    and i: "i < ANJAY_ID_INVALID" and len: "len \<le> TLV_MAX_LENGTH" and es: "ti_entries ctx = e # es"
  shows "\<exists>s'. get_id vt ctx = Some (ctx\<lparr>ti_is_array := (t = TLV_ID_RID_ARRAY), ti_stream := s',
        ti_entries := \<lparr>tie_type = id_type_of t, tie_length = len, tie_bytes_read = 0\<rparr> # es\<rparr>, 0,
        (id_type_of t, i, len = 0 \<or> t = TLV_ID_RIID \<or> t = TLV_ID_RID, length (enc_header t i len)))
    \<and> ok s' \<and> content s' = rest"
proof -
  define b where "b = byte_of (tlv_typefield t i len)"
  define tail where "tail = (if len > 7 then short_be len else [])"
  have enc: "enc_header t i len = b # short_be i @ tail" by (simp add: enc_header_def b_def tail_def)
  note f = tlv_typefield_fields [OF len, of t i, folded b_def]
  have "stream_read_reliably vt (ti_stream ctx) 1 = Some (s1, AVS_OK, [b]) \<and> ok s1 \<and> content s1 = short_be i @ tail @ rest
      \<Longrightarrow> ?thesis" for s1
  proof -
    assume s1: "stream_read_reliably vt (ti_stream ctx) 1 = Some (s1, AVS_OK, [b]) \<and> ok s1
      \<and> content s1 = short_be i @ tail @ rest"
    have i2: "u32_length i = (if i > 255 then 2 else 1)" using i by (intro u32_length_id) simp
    then have "8 * u32_length i \<le> 16" by simp
    from read_shortened_ok [of s1 i "tail @ rest", OF _ _ this] s1 obtain s2 where
      s2: "read_shortened 16 vt s1 (u32_length i) = Some (s2, Some i)" "ok s2" "content s2 = tail @ rest" by auto
    have id_len: "(if b AND 0x20 \<noteq> 0 then 2 else 1) = u32_length i" using f(2) i2 by simp
    have conv: "convert_id_type b = id_type_of t" using f(1) by (cases t) (simp_all add: convert_id_type_def)
    define n where "n = unat (drop_bit 3 b AND 3)"
    note f3 = f(3) [folded n_def]
    have "\<exists>s3. (if n = 0 then Some (s2, Some (unat (b AND 7)))
        else read_shortened 64 vt s2 (n)) = Some (s3, Some len)
      \<and> ok s3 \<and> content s3 = rest"
    proof (cases "len \<le> 7")
      case True
      with f3 f(4) s2 show ?thesis by (simp add: tail_def)
    next
      case False
      then have "content s2 = short_be len @ rest" using s2(3) by (simp add: tail_def)
      from read_shortened_ok [OF s2(2) this, of 64] u32_length_24 [OF len] obtain s3 where
        "read_shortened 64 vt s2 (u32_length len) = Some (s3, Some len)" "ok s3" "content s3 = rest" by auto
      then show ?thesis using False f3 by simp
    qed
    then obtain s3 where s3: "(if n = 0 then Some (s2, Some (unat (b AND 7)))
        else read_shortened 64 vt s2 (n)) = Some (s3, Some len)" "ok s3" "content s3 = rest"
      by blast
    have hl: "1 + u32_length i + n = length (enc_header t i len)"
      using f3 by (simp add: enc tail_def)
    have "rd8 [b] 0 = Some b" by (simp add: rd8_def)
    then have "get_id vt ctx = Some (ctx\<lparr>ti_is_array := (t = TLV_ID_RID_ARRAY), ti_stream := s3,
        ti_entries := \<lparr>tie_type = id_type_of t, tie_length = len, tie_bytes_read = 0\<rparr> # es\<rparr>, 0,
        (id_type_of t, i, len = 0 \<or> t = TLV_ID_RIID \<or> t = TLV_ID_RID, length (enc_header t i len)))"
      using s1 s2(1) s3(1) es unfolding get_id_def
      by (cases "n = 0") (simp_all add: id_len conv f(1) hl [symmetric] n_def [symmetric] Let_def)
    with s3(2,3) show ?thesis by blast
  qed
  moreover have "\<exists>s1. stream_read_reliably vt (ti_stream ctx) 1 = Some (s1, AVS_OK, [b]) \<and> ok s1
      \<and> content s1 = short_be i @ tail @ rest"
    using read_reliably_ok [OF s, of 1] c by (simp add: enc)
  ultimately show ?thesis by blast
qed

text \<open>On any input, decoding a header is defined, and a header that is decoded takes bytes off the stream.\<close>

lemma get_id_total:
  assumes s: "ok (ti_stream ctx)" and es: "ti_entries ctx = e # es"
  shows "\<exists>s' arr e' r x. get_id vt ctx = Some (ctx\<lparr>ti_is_array := arr, ti_stream := s', ti_entries := e' # es\<rparr>, r, x)
    \<and> ok s' \<and> (r = 0 \<longrightarrow> length (content s') < length (content (ti_stream ctx)) \<and> tie_bytes_read e' = 0
         \<and> fst (snd x) < 65536)
    \<and> (r \<noteq> 0 \<longrightarrow> e' = e) \<and> length (content s') \<le> length (content (ti_stream ctx))"
proof -
  from read_reliably_ok [OF s, of 1] obtain s1 where s1: "stream_read_reliably vt (ti_stream ctx) 1
      = Some (s1, if 1 \<le> length (content (ti_stream ctx)) then AVS_OK else AVS_EOF, take 1 (content (ti_stream ctx)))"
    "ok s1" "content s1 = drop 1 (content (ti_stream ctx))" by blast
  show ?thesis
  proof (cases "content (ti_stream ctx)")
    case Nil
    with s1 es show ?thesis
      by (intro exI [of _ s1] exI [of _ "ti_is_array ctx"] exI [of _ e] exI [of _ "1::int"]
          exI [of _ "(ANJAY_ID_OID, 0, False, 0)"]) (simp add: get_id_def)
  next
    case (Cons b bs)
    define w where "w = (if b AND 0x20 \<noteq> 0 then 2 else 1 :: nat)"
    have w: "(if b AND 0x20 \<noteq> 0 then 2 else 1) = w" "w \<le> 2" by (simp_all add: w_def)
    have idl: "8 * w \<le> (16::nat)" using w(2) by simp
    from read_shortened_total [OF s1(2) idl] obtain s2 out2 where
      s2: "read_shortened 16 vt s1 w = Some (s2, out2)" "ok s2"
      "content s2 = drop w (content s1)"
      "\<forall>v. out2 = Some v \<longrightarrow> v < 256 ^ w" by blast
    have rd: "stream_read_reliably vt (ti_stream ctx) 1 = Some (s1, AVS_OK, [b])" "rd8 [b] 0 = Some b"
      using s1(1) Cons by (simp_all add: rd8_def)
    show ?thesis
    proof (cases out2)
      case None
      with rd s1(3) s2 es show ?thesis
        by (intro exI [of _ s2] exI [of _ "tlv_type_from_typefield b = TLV_ID_RID_ARRAY"] exI [of _ e]
            exI [of _ "- 1 :: int"] exI [of _ "(ANJAY_ID_OID, 0, False, 0)"])
          (simp add: get_id_def Let_def w(1))
    next
      case (Some eid)
      define n where "n = unat (drop_bit 3 b AND 3)"
      have "n < 4" using unat_and_mask [of "drop_bit 3 b" 2] by (simp add: n_def mask_numeral)
      then have n: "8 * n \<le> 64" by simp
      have "\<exists>s3 out3. (if n = 0 then Some (s2, Some (unat (b AND 7))) else read_shortened 64 vt s2 n) = Some (s3, out3)
          \<and> ok s3 \<and> content s3 = drop n (content s2)"
        using read_shortened_total [OF s2(2) n] s2(2) by auto
      then obtain s3 out3 where
        s3: "(if n = 0 then Some (s2, Some (unat (b AND 7))) else read_shortened 64 vt s2 n) = Some (s3, out3)"
        "ok s3" "content s3 = drop n (content s2)" by blast
      have lt: "length (content s3) < length (content (ti_stream ctx))"
        using s3(3) s2(3) s1(3) Cons by simp
      have "(256::nat) ^ w \<le> 65536" using power_increasing [OF w(2), of "256::nat"] by simp
      moreover have "eid < 256 ^ w" using s2(4) Some by blast
      ultimately have eid: "eid < 65536" by (rule order_less_le_trans [rotated])
      show ?thesis
      proof (cases out3)
        case None
        with rd s2 s3 es Some lt show ?thesis
          by (intro exI [of _ s3] exI [of _ "tlv_type_from_typefield b = TLV_ID_RID_ARRAY"] exI [of _ e]
            exI [of _ "- 1 :: int"] exI [of _ "(ANJAY_ID_OID, 0, False, 0)"])
            (cases "n = 0"; simp add: get_id_def Let_def n_def [symmetric] w(1))
      next
        case (Some len)
        with rd s2 s3 es \<open>out2 = Some eid\<close> lt eid show ?thesis
          by (intro exI [of _ s3] exI [of _ "tlv_type_from_typefield b = TLV_ID_RID_ARRAY"]
              exI [of _ "\<lparr>tie_type = convert_id_type b, tie_length = len, tie_bytes_read = 0\<rparr>"] exI [of _ "0 :: int"]
              exI [of _ "(convert_id_type b, eid, len = 0 \<or> tlv_type_from_typefield b = TLV_ID_RIID
                \<or> tlv_type_from_typefield b = TLV_ID_RID, 1 + w + n)"])
            (cases "n = 0"; simp add: get_id_def Let_def n_def [symmetric] w(1))
      qed
    qed
  qed
qed

end

section \<open>Reading is defined on every input\<close>

text \<open>The calls a user of the reader can make, with the state they leave.\<close>

datatype in_call = Get_Path | Get_Bytes nat | Get_String nat | Get_I32 | Get_Bool | Get_Objlnk
  | Next_Entry | Update_Root "anjay_uri_path option"

primrec in_call_step ::
  "'s stream_vtable \<Rightarrow> allocator \<Rightarrow> 's tlv_in \<Rightarrow> in_call \<Rightarrow> 's tlv_in option" where
  "in_call_step vt alloc ctx Get_Path = map_option fst (input_get_path vt alloc ctx)"
| "in_call_step vt alloc ctx (Get_Bytes n) = map_option fst (get_bytes vt alloc ctx n)"
| "in_call_step vt alloc ctx (Get_String n) = map_option fst (anjay_get_string vt alloc ctx n)"
| "in_call_step vt alloc ctx Get_I32 = map_option fst (anjay_get_i32 vt alloc ctx)"
| "in_call_step vt alloc ctx Get_Bool = map_option fst (tlv_get_bool vt alloc ctx)"
| "in_call_step vt alloc ctx Get_Objlnk = map_option fst (tlv_get_objlnk vt alloc ctx)"
| "in_call_step vt alloc ctx Next_Entry = map_option fst (tlv_next_entry vt alloc ctx)"
| "in_call_step vt alloc ctx (Update_Root p) = Some (fst (tlv_update_root_path ctx p))"

primrec run_in_calls ::
  "'s stream_vtable \<Rightarrow> allocator \<Rightarrow> 's tlv_in \<Rightarrow> in_call list \<Rightarrow> 's tlv_in option" where
  "run_in_calls vt alloc ctx [] = Some ctx"
| "run_in_calls vt alloc ctx (c # cs) = do {
     ctx \<leftarrow> in_call_step vt alloc ctx c; run_in_calls vt alloc ctx cs }"

text \<open>Once there is a path, the current entry has not been read beyond its end.\<close>

definition path_inv :: "'s tlv_in \<Rightarrow> bool" where
  "path_inv ctx \<longleftrightarrow> (ti_has_path ctx \<longrightarrow>
     (case ti_entries ctx of [] \<Rightarrow> False | e # _ \<Rightarrow> tie_bytes_read e \<le> tie_length e))"

context byte_source begin

definition in_inv :: "'s tlv_in \<Rightarrow> bool" where
  "in_inv ctx \<longleftrightarrow> ok (ti_stream ctx) \<and> path_inv ctx"

definition unread :: "'s tlv_in \<Rightarrow> nat" where
  "unread ctx = length (content (ti_stream ctx))"

lemma get_path_loop_total:
  "ok (ti_stream ctx) \<Longrightarrow>
   \<exists>ctx' r early. get_path_loop vt alloc ctx = Some (ctx', r, early) \<and> ok (ti_stream ctx')
     \<and> unread ctx' \<le> unread ctx \<and> ti_has_path ctx' = ti_has_path ctx \<and> (early \<longrightarrow> r < 0)
     \<and> (\<not> early \<longrightarrow> (case ti_entries ctx' of [] \<Rightarrow> False | e # _ \<Rightarrow> tie_bytes_read e \<le> tie_length e))"
proof (induction "unread ctx" arbitrary: ctx rule: less_induct)
  case less
  show ?case
  proof (cases "alloc 24 = None")
    case True
    then have "get_path_loop vt alloc ctx = Some (ctx, ANJAY_ERR_INTERNAL, True)"
      by (subst get_path_loop.simps) (simp add: tlv_entry_push_def)
    with less.prems show ?thesis by auto
  next
    case False
    define e0 where "e0 = \<lparr>tie_type = ANJAY_ID_OID, tie_length = 0, tie_bytes_read = 0\<rparr>"
    define ctx0 where "ctx0 = ctx\<lparr>ti_entries := e0 # ti_entries ctx\<rparr>"
    have push: "tlv_entry_push alloc ctx = (ctx0, True)" using False by (simp add: tlv_entry_push_def ctx0_def e0_def)
    have c0: "ok (ti_stream ctx0)" "ti_entries ctx0 = e0 # ti_entries ctx" using less.prems by (simp_all add: ctx0_def)
    from get_id_total [OF c0] obtain s1 arr e1 r type eid hv hl where
      g: "get_id vt ctx0 = Some (ctx0\<lparr>ti_is_array := arr, ti_stream := s1, ti_entries := e1 # ti_entries ctx\<rparr>, r, type, eid, hv, hl)"
      "ok s1" "r = 0 \<longrightarrow> length (content s1) < unread ctx0 \<and> tie_bytes_read e1 = 0" "r \<noteq> 0 \<longrightarrow> e1 = e0"
      "length (content s1) \<le> unread ctx0"
      unfolding unread_def by fastforce
    define ctx1 where "ctx1 = ctx0\<lparr>ti_is_array := arr, ti_stream := s1, ti_entries := e1 # ti_entries ctx\<rparr>"
    note g1 = g(1) [folded ctx1_def]
    have c1: "ti_stream ctx1 = s1" "ti_entries ctx1 = e1 # ti_entries ctx" "ti_has_path ctx1 = ti_has_path ctx"
      by (simp_all add: ctx1_def ctx0_def)
    have u0: "unread ctx0 = unread ctx" by (simp add: unread_def ctx0_def)
    have u1: "unread ctx1 \<le> unread ctx \<or> r \<noteq> 0" "r = 0 \<Longrightarrow> unread ctx1 < unread ctx"
      using g(3) u0 by (auto simp: unread_def c1)
    have u1: "unread ctx1 \<le> unread ctx" "r = 0 \<Longrightarrow> unread ctx1 < unread ctx"
      using g(3,5) u0 by (auto simp: unread_def c1)
    show ?thesis
    proof (cases "r = 0")
      case False
      have "tie_bytes_read e1 \<le> tie_length e1" using g(4) False by (simp add: e0_def)
      moreover have "get_path_loop vt alloc ctx = Some (ctx1, r, False)"
        using False g1 push by (subst get_path_loop.simps) simp
      ultimately show ?thesis using c1 g(2) u1 by auto
    next
      case True
      have e1: "tie_bytes_read e1 \<le> tie_length e1" using g(3) True by simp
      define ctx2 where "ctx2 = (case ti_entries ctx of [] \<Rightarrow> ctx1
        | parent # es \<Rightarrow> ctx1\<lparr>ti_entries := e1 # parent\<lparr>tie_bytes_read := tie_bytes_read parent + (tie_length e1 + hl)\<rparr> # es\<rparr>)"
      have c2: "ti_stream ctx2 = s1" "ti_has_path ctx2 = ti_has_path ctx" "\<exists>es. ti_entries ctx2 = e1 # es"
        using c1 by (auto simp: ctx2_def split: list.splits)
      define ctx3 where "ctx3 = ctx2\<lparr>ti_current_path := path_update (ti_current_path ctx2) type eid,
        ti_current_path_len := Suc (id_index type)\<rparr>"
      have c3: "ti_stream ctx3 = s1" "ti_has_path ctx3 = ti_has_path ctx" "\<exists>es. ti_entries ctx3 = e1 # es"
        using c2 by (auto simp: ctx3_def)
      define bad where "bad \<longleftrightarrow> (case tl (ti_entries ctx2) of [] \<Rightarrow> False
        | parent # _ \<Rightarrow> tie_bytes_read parent > tie_length parent)"
      have step: "get_path_loop vt alloc ctx =
        (if eid = ANJAY_ID_INVALID then Some (ctx1, ANJAY_ERR_BAD_REQUEST, True)
         else if bad then Some (ctx2, ANJAY_ERR_BAD_REQUEST, True)
         else if uri_path_outside_base (ti_current_path ctx3) (ti_uri_path ctx3)
         then Some (ctx3, ANJAY_ERR_BAD_REQUEST, True)
         else if hv then Some (ctx3, 0, False) else get_path_loop vt alloc ctx3)"
        using True g1 push c1(2)
        by (subst get_path_loop.simps) (simp add: ctx2_def [symmetric] ctx3_def [symmetric] bad_def [symmetric] Let_def)
      have lt: "unread ctx2 < unread ctx" "unread ctx3 < unread ctx"
        using u1(2) [OF True] by (simp_all add: unread_def c1 c2 c3)
      from less.hyps [OF lt(2)] c3(1) g(2) obtain ctx4 r4 early4 where
        "get_path_loop vt alloc ctx3 = Some (ctx4, r4, early4)" "ok (ti_stream ctx4)"
        "unread ctx4 \<le> unread ctx3" "ti_has_path ctx4 = ti_has_path ctx" "early4 \<longrightarrow> r4 < 0"
        "\<not> early4 \<longrightarrow> (case ti_entries ctx4 of [] \<Rightarrow> False | e # _ \<Rightarrow> tie_bytes_read e \<le> tie_length e)"
        using c3(2) by auto
      with step c1 c2 c3 e1 g(2) u1 lt show ?thesis by (auto split: if_splits)
    qed
  qed
qed

end

context byte_source begin

lemma get_path_total:
  assumes "in_inv ctx"
  shows "\<exists>ctx' r out. input_get_path vt alloc ctx = Some (ctx', r, out) \<and> in_inv ctx' \<and> unread ctx' \<le> unread ctx
    \<and> (r = 0 \<longrightarrow> ti_has_path ctx') "
proof (cases "ti_finished ctx \<or> ti_has_path ctx")
  case True
  with assms show ?thesis by (auto simp: input_get_path_def tlv_get_path_def)
next
  case False
  from assms have ok: "ok (ti_stream ctx)" by (simp add: in_inv_def)
  from get_path_loop_total [OF ok, of alloc] obtain ctx1 r early where l: "get_path_loop vt alloc ctx = Some (ctx1, r, early)"
    "ok (ti_stream ctx1)" "unread ctx1 \<le> unread ctx" "ti_has_path ctx1 = ti_has_path ctx" "early \<longrightarrow> r < 0"
    "\<not> early \<longrightarrow> (case ti_entries ctx1 of [] \<Rightarrow> False | e # _ \<Rightarrow> tie_bytes_read e \<le> tie_length e)" by blast
  with False show ?thesis
    by (cases early) (auto simp: input_get_path_def tlv_get_path_def in_inv_def path_inv_def unread_def)
qed

end

context byte_source_zero begin

lemma some_bytes_total:
  assumes "in_inv ctx"
  shows "\<exists>ctx' r bs fin. tlv_get_some_bytes vt alloc ctx n = Some (ctx', r, bs, fin) \<and> in_inv ctx'
    \<and> unread ctx' \<le> unread ctx \<and> length bs \<le> n
    \<and> (r = 0 \<longrightarrow> fin = Some True \<or> fin = Some False \<and> ti_has_path ctx' \<and> (0 < n \<longrightarrow> unread ctx' < unread ctx))"
proof -
  have "\<exists>ctx1 r. (if \<not> ti_has_path ctx
        then do { (ctx, result, _) \<leftarrow> input_get_path vt alloc ctx; Some (ctx, result) }
        else Some (ctx, 0)) = Some (ctx1, r) \<and> in_inv ctx1 \<and> unread ctx1 \<le> unread ctx
      \<and> (r = 0 \<longrightarrow> ti_has_path ctx1)"
    using get_path_total [OF assms, of alloc] assms by auto
  then obtain ctx1 r where r: "(if \<not> ti_has_path ctx
        then do { (ctx, result, _) \<leftarrow> input_get_path vt alloc ctx; Some (ctx, result) }
        else Some (ctx, 0)) = Some (ctx1, r)" "in_inv ctx1" "unread ctx1 \<le> unread ctx"
      "r = 0 \<longrightarrow> ti_has_path ctx1" by blast
  show ?thesis
  proof (cases "r = 0")
    case False
    then have "tlv_get_some_bytes vt alloc ctx n
        = Some (if r = 1 then (ctx1, 0, [], Some True) else (ctx1, r, [], None))"
      unfolding tlv_get_some_bytes_def r(1) by simp
    with False r show ?thesis by (cases "r = 1") simp_all
  next
    case True
    with r have hp: "ti_has_path ctx1" by simp
    then obtain e es where es: "ti_entries ctx1 = e # es" "tie_bytes_read e \<le> tie_length e" "ok (ti_stream ctx1)"
      using r(2) by (auto simp: in_inv_def path_inv_def split: list.splits)
    define left where "left = tie_length e - tie_bytes_read e"
    from read_any [OF es(3), of "min n left"] obtain s' bs where
      s': "stream_read vt (ti_stream ctx1) (min n left) = Some (s', AVS_OK, Some (bs, content s' = []))"
      "content (ti_stream ctx1) = bs @ content s'" "length bs \<le> min n left"
      "bs \<noteq> [] \<or> content (ti_stream ctx1) = [] \<or> min n left = 0" "ok s'" by metis
    define e' where "e' = e\<lparr>tie_bytes_read := tie_bytes_read e + length bs\<rparr>"
    define ctx2 where "ctx2 = ctx1\<lparr>ti_stream := s', ti_entries := e' # es, ti_finished := (content s' = [])\<rparr>"
    define mf where "mf \<longleftrightarrow> tie_bytes_read e' = tie_length e'"
    have e': "tie_bytes_read e' = tie_bytes_read e + length bs" "tie_length e' = tie_length e"
      by (simp_all add: e'_def)
    have step: "tlv_get_some_bytes vt alloc ctx n
        = Some (ctx2, if \<not> mf \<and> content s' = [] then ANJAY_ERR_BAD_REQUEST else 0, bs, Some mf)"
      unfolding tlv_get_some_bytes_def r(1) True using es(1,2) s'(1)
      by (simp add: left_def [symmetric] e'_def [symmetric] ctx2_def mf_def e' Let_def)
    have "tie_bytes_read e' \<le> tie_length e'" using es(2) s'(3) by (auto simp: e'_def left_def)
    then have inv: "in_inv ctx2" using s'(5) by (simp add: in_inv_def path_inv_def ctx2_def)
    have len: "unread ctx1 = length bs + unread ctx2" using s'(2) by (simp add: unread_def ctx2_def)
    have "0 < left \<or> mf" using es(2) s'(3) by (auto simp: mf_def e'_def left_def)
    then have "unread ctx2 < unread ctx1" if "\<not> mf" "content s' \<noteq> []" "0 < n"
      using that s'(2,4) len by auto
    then have lt: "unread ctx2 < unread ctx" if "\<not> mf" "content s' \<noteq> []" "0 < n"
      using that r(3) by simp
    have hp2: "ti_has_path ctx2" using hp by (simp add: ctx2_def)
    have "unread ctx2 \<le> unread ctx" using len r(3) by simp
    with step inv s'(3) hp2 lt show ?thesis by auto
  qed
qed

lemma get_bytes_loop_total:
  "in_inv ctx \<Longrightarrow> \<exists>ctx' r bs fin. get_bytes_loop vt alloc ctx n acc = Some (ctx', r, bs, fin) \<and> in_inv ctx'"
proof (induction "unread ctx" arbitrary: ctx n acc rule: less_induct)
  case less
  from some_bytes_total [OF less.prems, of alloc n] obtain ctx1 r bs fin where
    s: "tlv_get_some_bytes vt alloc ctx n = Some (ctx1, r, bs, fin)" "in_inv ctx1" "length bs \<le> n"
    "r = 0 \<longrightarrow> fin = Some True \<or> fin = Some False \<and> (0 < n \<longrightarrow> unread ctx1 < unread ctx)" by blast
  show ?case
  proof (cases "r \<noteq> 0 \<or> fin = Some True \<or> n - length bs = 0")
    case True
    with s show ?thesis by (subst get_bytes_loop.simps) (auto simp: Let_def size_minus_def)
  next
    case False
    with s have lt: "fin = Some False" "unread ctx1 < unread ctx" by auto
    from False s lt less.hyps [OF lt(2) s(2), of "n - length bs" "acc @ bs"] show ?thesis
      by (subst get_bytes_loop.simps) (auto simp: Let_def size_minus_def)
  qed
qed

lemma read_to_end_loop_total:
  "in_inv ctx \<Longrightarrow> \<exists>ctx' r out. read_to_end_loop vt alloc ctx n acc = Some (ctx', r, out) \<and> in_inv ctx'
     \<and> (\<forall>bs. out = Some bs \<longrightarrow> length bs \<le> length acc + n) \<and> (r = 0 \<longrightarrow> out \<noteq> None)"
proof (induction "unread ctx" arbitrary: ctx n acc rule: less_induct)
  case less
  from some_bytes_total [OF less.prems, of alloc n] obtain ctx1 r bs fin where
    s: "tlv_get_some_bytes vt alloc ctx n = Some (ctx1, r, bs, fin)" "in_inv ctx1" "length bs \<le> n"
    "r = 0 \<longrightarrow> fin = Some True \<or> fin = Some False \<and> (0 < n \<longrightarrow> unread ctx1 < unread ctx)" by blast
  show ?case
  proof (cases "r \<noteq> 0 \<or> fin = Some True \<or> n - length bs = 0")
    case True
    with s show ?thesis by (subst read_to_end_loop.simps) (auto simp: Let_def size_minus_def)
  next
    case False
    with s have lt: "fin = Some False" "unread ctx1 < unread ctx" by auto
    from False s lt less.hyps [OF lt(2) s(2), of "n - length bs" "acc @ bs"] show ?thesis
      by (subst read_to_end_loop.simps) (auto simp: Let_def size_minus_def)
  qed
qed

lemma read_whole_entry_total:
  assumes "in_inv ctx"
  shows "\<exists>ctx' r out. tlv_read_whole_entry vt alloc ctx n = Some (ctx', r, out) \<and> in_inv ctx'
    \<and> (\<forall>bs. out = Some bs \<longrightarrow> length bs \<le> n)"
proof -
  have "\<exists>ctx1 r. (if \<not> ti_has_path ctx
        then do { (ctx, result, _) \<leftarrow> input_get_path vt alloc ctx; Some (ctx, result) }
        else Some (ctx, 0)) = Some (ctx1, r) \<and> in_inv ctx1"
    using get_path_total [OF assms, of alloc] assms by auto
  then obtain ctx1 r where r: "(if \<not> ti_has_path ctx
        then do { (ctx, result, _) \<leftarrow> input_get_path vt alloc ctx; Some (ctx, result) }
        else Some (ctx, 0)) = Some (ctx1, r)" "in_inv ctx1" by blast
  from read_to_end_loop_total [OF r(2), of alloc n "[]"] show ?thesis
    unfolding tlv_read_whole_entry_def r(1) using r(2) by (auto simp: tlv_read_to_end_def)
qed

lemma skip_entry_total:
  "in_inv ctx \<Longrightarrow> \<exists>ctx' r. skip_entry vt alloc ctx = Some (ctx', r) \<and> in_inv ctx'"
proof (induction "unread ctx" arbitrary: ctx rule: less_induct)
  case less
  from some_bytes_total [OF less.prems, of alloc 64] obtain ctx1 r bs fin where
    s: "tlv_get_some_bytes vt alloc ctx 64 = Some (ctx1, r, bs, fin)" "in_inv ctx1"
    "r = 0 \<longrightarrow> fin = Some True \<or> fin = Some False \<and> unread ctx1 < unread ctx" by auto
  show ?case
  proof (cases "r \<noteq> 0 \<or> fin = Some True")
    case True
    with s show ?thesis by (subst skip_entry.simps) auto
  next
    case False
    with s have lt: "fin = Some False" "unread ctx1 < unread ctx" by auto
    from False s lt less.hyps [OF lt(2) s(2)] show ?thesis by (subst skip_entry.simps) auto
  qed
qed

lemma next_entry_total:
  assumes "in_inv ctx"
  shows "\<exists>ctx' r. tlv_next_entry vt alloc ctx = Some (ctx', r) \<and> in_inv ctx'"
proof -
  from skip_entry_total [OF assms, of alloc] obtain ctx1 r where
    "skip_entry vt alloc ctx = Some (ctx1, r)" "in_inv ctx1" by blast
  with assms show ?thesis
    by (cases "pop_entries (ti_entries ctx1) (ti_current_path ctx1) (ti_current_path_len ctx1)")
      (auto simp: tlv_next_entry_def in_inv_def path_inv_def)
qed

lemma update_root_loop_fields:
  "ti_stream (fst (update_root_loop ctx xs i)) = ti_stream ctx"
  "ti_has_path (fst (update_root_loop ctx xs i)) = ti_has_path ctx"
  "ti_entries (fst (update_root_loop ctx xs i)) = ti_entries ctx"
  by (induction xs arbitrary: ctx i) simp_all

lemma update_root_path_inv: "in_inv ctx \<Longrightarrow> in_inv (fst (tlv_update_root_path ctx p))"
  using update_root_loop_fields [of ctx]
  by (auto simp: tlv_update_root_path_def Let_def in_inv_def path_inv_def split: prod.splits option.splits)
    (metis fst_conv)+

lemma in_call_total:
  assumes "in_inv ctx"
  shows "\<exists>ctx'. in_call_step vt alloc ctx c = Some ctx' \<and> in_inv ctx'"
proof (cases c)
  case (Get_String n)
  with read_to_end_loop_total [OF assms, of alloc "n - 1" "[]"] assms show ?thesis
    by (auto simp: anjay_get_string_def tlv_get_string_def tlv_read_to_end_def)
next
  case Get_I32
  with read_whole_entry_total [OF assms, of alloc 8] show ?thesis
    by (auto simp: anjay_get_i32_def tlv_get_integer_def Let_def split: option.splits)
next
  case Get_Bool
  with read_whole_entry_total [OF assms, of alloc 1] show ?thesis
    by (auto simp: tlv_get_bool_def Let_def rd8_def split: option.splits)
next
  case Get_Objlnk
  with read_whole_entry_total [OF assms, of alloc 4] show ?thesis
    by (auto simp: tlv_get_objlnk_def Let_def extract_u16_def rd8_def split: option.splits)
next
  case Get_Path
  with get_path_total [OF assms, of alloc] show ?thesis by auto
next
  case (Get_Bytes n)
  with get_bytes_loop_total [OF assms, of alloc n "[]"] show ?thesis by (auto simp: get_bytes_def)
next
  case Next_Entry
  with next_entry_total [OF assms, of alloc] show ?thesis by auto
next
  case (Update_Root p)
  with update_root_path_inv [OF assms, of p] show ?thesis by simp
qed

lemma run_in_calls_total:
  "in_inv ctx \<Longrightarrow> \<exists>ctx'. run_in_calls vt alloc ctx cs = Some ctx' \<and> in_inv ctx'"
proof (induction cs arbitrary: ctx)
  case (Cons c cs)
  from in_call_total [OF Cons.prems, of alloc c] Cons.IH show ?case by fastforce
qed simp

end

text \<open>C21: No payload in a memory buffer makes the TLV reader leave the defined behaviour of the code, or loop: after the
  creation of a context on an \<open>avs_stream_membuf\<close> with any content, any sequence of reads of paths, bytes,
  strings, integers, truth values and links, of steps to the next entry and of changes of the root
  path returns from every call, whatever sizes, identifiers and nesting the content claims and
  wherever memory allocation fails. On an input buffer, which does not answer reads of length 0, an empty value is
  undefined behaviour (\<open>inbuf_empty_value_undefined\<close>).\<close>

theorem tlv_reading_total:
  assumes "membuf_ok s"
  shows "\<exists>ctx. run_in_calls (membuf_vtable realloc) alloc (input_tlv_create s uri) calls = Some ctx"
  using mbr.run_in_calls_total [of "input_tlv_create s uri" realloc alloc calls] assms
  by (auto simp: mbr.in_inv_def path_inv_def input_tlv_create_def Let_def)

theorem tlv_reading_total_witness:
  "\<exists>ctx. run_in_calls (membuf_vtable (\<lambda>_. None)) (\<lambda>n. Some (\<lambda>_. 0))
     (input_tlv_create \<lparr>mb_buffer = [0x38, 255, 255, 255, 0xC0, 7, 0xE3], mb_size = 7, mb_write = 7, mb_read = 0\<rparr> None)
     [Get_Path, Get_Bytes 16, Next_Entry, Get_I32, Get_Bool, Get_Objlnk, Get_String 4, Next_Entry, Get_Path] = Some ctx"
  by (rule tlv_reading_total) (simp add: membuf_ok_def)

text \<open>
  A memory buffer stream of fixed size (\<open>avs_stream_inbuf\<close>) does not fulfil the contract: its read of
  0 bytes leaves the flag unassigned, which \<open>tlv_get_some_bytes\<close> then copies. The value of an empty
  entry cannot be read from it with defined behaviour.
\<close>

lemma inbuf_empty_value_undefined:
  assumes "ti_has_path ctx" and "ti_entries ctx = e # es" and "tie_bytes_read e = tie_length e"
  shows "tlv_get_some_bytes inbuf_vtable alloc ctx n = None"
  using assms by (simp add: tlv_get_some_bytes_def inbuf_read_zero)

end
