(* ===== verification/Tlv_Roundtrip.thy ===== *)
theory Tlv_Roundtrip
  imports Tlv_In_Total
begin

text \<open>
  Reading the encoding of a tree. The reader's position in a tree of entries is a zipper: the
  entries not yet read at the current level, and for each open entry its identifier and the entries
  that follow it at its level. Reading moves the zipper through the tree in order.
\<close>

section \<open>Trees of entries\<close>

text \<open>
  The depth of a node is the length of its path: 1 for an Object Instance, 2 for a Resource, 3 for a
  Resource Instance. The depth determines the types of the entries.
\<close>

datatype tlv_node = Leaf nat bytes | Node nat "tlv_node list"

definition leaf_type :: "nat \<Rightarrow> tlv_id_type" where
  "leaf_type d = (if d = 2 then TLV_ID_RID else TLV_ID_RIID)"

definition node_type :: "nat \<Rightarrow> tlv_id_type" where
  "node_type d = (if d = 1 then TLV_ID_IID else TLV_ID_RID_ARRAY)"

fun enc_node :: "nat \<Rightarrow> tlv_node \<Rightarrow> bytes" where
  "enc_node d (Leaf i v) = enc_entry (leaf_type d) i v"
| "enc_node d (Node i ns) = enc_entry (node_type d) i (concat (map (enc_node (Suc d)) ns))"

abbreviation enc_nodes :: "nat \<Rightarrow> tlv_node list \<Rightarrow> bytes" where
  "enc_nodes d ns \<equiv> concat (map (enc_node d) ns)"

fun node_ok :: "nat \<Rightarrow> tlv_node \<Rightarrow> bool" where
  "node_ok d (Leaf i v) \<longleftrightarrow> 2 \<le> d \<and> d \<le> 3 \<and> i < ANJAY_ID_INVALID \<and> length v \<le> TLV_MAX_LENGTH"
| "node_ok d (Node i ns) \<longleftrightarrow> 1 \<le> d \<and> d \<le> 2 \<and> i < ANJAY_ID_INVALID
     \<and> length (enc_nodes (Suc d) ns) \<le> TLV_MAX_LENGTH \<and> list_all (node_ok (Suc d)) ns"

text \<open>What reading delivers: the path, whether it is of a multiple-instance Resource, and the value.\<close>

type_synonym in_event = "anjay_uri_path \<times> bool \<times> bytes"

fun node_events :: "nat list \<Rightarrow> tlv_node \<Rightarrow> in_event list" where
  "node_events p (Leaf i v) = [(make_path (p @ [i]), False, v)]"
| "node_events p (Node i ns) =
     (if ns = [] then [(make_path (p @ [i]), length p = 2, [])] else concat (map (node_events (p @ [i])) ns))"

lemma enc_entry_length: "0 < length (enc_entry t i v)"
  by (simp add: enc_entry_def enc_header_def)

lemma enc_node_length: "0 < length (enc_node d n)"
  by (cases n) (simp_all add: enc_entry_length del: length_greater_0_conv)

lemma enc_nodes_Nil_iff: "enc_nodes d ns = [] \<longleftrightarrow> ns = []"
  using enc_node_length [of d] by (cases ns) auto

lemma id_types:
  assumes "1 \<le> d" and "d \<le> 3"
  shows "2 \<le> d \<Longrightarrow> id_index (id_type_of (leaf_type d)) = d" "d \<le> 2 \<Longrightarrow> id_index (id_type_of (node_type d)) = d"
  using assms by (auto simp: leaf_type_def node_type_def)

section \<open>Positions\<close>

type_synonym above = "(nat \<times> tlv_node list) list"

definition above_path :: "nat list \<Rightarrow> above \<Rightarrow> nat list" where
  "above_path rs up = rs @ rev (map fst up)"

lemma above_path_simps [simp]:
  "above_path rs [] = rs" "above_path rs ((i, sib) # up) = above_path rs up @ [i]"
  "length (above_path rs up) = length rs + length up"
  by (simp_all add: above_path_def)

text \<open>What remains of the stream, what remains to be delivered, and the entries of the reader.\<close>

fun rest_enc :: "nat \<Rightarrow> tlv_node list \<Rightarrow> above \<Rightarrow> bytes" where
  "rest_enc r ns [] = enc_nodes r ns"
| "rest_enc r ns ((i, sib) # up) = enc_nodes (Suc (r + length up)) ns @ rest_enc r sib up"

fun rest_events :: "nat list \<Rightarrow> tlv_node list \<Rightarrow> above \<Rightarrow> in_event list" where
  "rest_events rs ns [] = concat (map (node_events rs) ns)"
| "rest_events rs ns ((i, sib) # up) =
     concat (map (node_events (above_path rs up @ [i])) ns) @ rest_events rs sib up"

fun entries_rep :: "nat \<Rightarrow> tlv_in_entry list \<Rightarrow> tlv_node list \<Rightarrow> above \<Rightarrow> bool" where
  "entries_rep r es ns [] \<longleftrightarrow> es = []"
| "entries_rep r es ns ((i, sib) # up) \<longleftrightarrow> (case es of [] \<Rightarrow> False | e # es' \<Rightarrow>
     id_index (tie_type e) = r + length up
     \<and> tie_bytes_read e + length (enc_nodes (Suc (r + length up)) ns) = tie_length e
     \<and> entries_rep r es' sib up)"

fun rest_ok :: "nat \<Rightarrow> tlv_node list \<Rightarrow> above \<Rightarrow> bool" where
  "rest_ok r ns [] \<longleftrightarrow> list_all (node_ok r) ns"
| "rest_ok r ns ((i, sib) # up) \<longleftrightarrow> i < ANJAY_ID_INVALID \<and> list_all (node_ok (Suc (r + length up))) ns
     \<and> rest_ok r sib up"

lemma rest_enc_Cons: "rest_enc r (n # ns) up = enc_node (r + length up) n @ rest_enc r ns up"
  by (cases up) auto

lemma rest_events_Cons: "rest_events rs (n # ns) up = node_events (above_path rs up) n @ rest_events rs ns up"
  by (cases up) auto

lemma rest_ok_Cons: "rest_ok r (n # ns) up \<longleftrightarrow> node_ok (r + length up) n \<and> rest_ok r ns up"
  by (cases up) auto

lemma rest_ok_path: "rest_ok (length rs) ns up \<Longrightarrow> list_all (\<lambda>i. i < ANJAY_ID_INVALID) rs \<Longrightarrow>
  list_all (\<lambda>i. i < ANJAY_ID_INVALID) (above_path rs up)"
  by (induction rs ns up rule: rest_events.induct) auto

lemma node_ok_depth: "node_ok d n \<Longrightarrow> 1 \<le> d \<and> d \<le> 3"
  by (cases n) auto

section \<open>Paths\<close>

lemma path_update_extend:
  assumes "id_index t = length xs" "length xs < 4"
  shows "path_update (make_path xs) t i = make_path (xs @ [i])"
proof -
  obtain k where k: "4 - length xs = Suc k" using assms(2) by (cases "4 - length xs") auto
  then have "4 - length (xs @ [i]) = k" by simp
  then show ?thesis unfolding path_update_def make_path_def using assms(1) k by (simp add: list_update_append)
qed

lemma path_update_cut:
  assumes "id_index t = length xs" "length xs < 4"
  shows "path_update (make_path (xs @ [i])) t ANJAY_ID_INVALID = make_path xs"
proof -
  obtain k where k: "4 - length xs = Suc k" using assms(2) by (cases "4 - length xs") auto
  then have "4 - length (xs @ [i]) = k" by simp
  then show ?thesis unfolding path_update_def make_path_def using assms(1) k by (simp add: list_update_append)
qed

lemma inside_root:
  assumes "ids_ok (rs @ xs)"
  shows "\<not> uri_path_outside_base (make_path (rs @ xs)) (make_path rs)"
  using assms by (simp add: uri_path_outside_base_iff ids_ok_def [of rs] ids_ok_def)

section \<open>Reading a position\<close>

definition reader_at :: "nat list \<Rightarrow> 's tlv_in \<Rightarrow> tlv_node list \<Rightarrow> above \<Rightarrow> bool" where
  "reader_at rs ctx ns up \<longleftrightarrow>
     ti_uri_path ctx = make_path rs \<and> ti_current_path ctx = make_path (above_path rs up)
     \<and> entries_rep (length rs) (ti_entries ctx) ns up \<and> rest_ok (length rs) ns up \<and> ids_ok rs"

text \<open>The reader has taken the header of an entry with the value \<open>v\<close>, of which \<open>v\<close> is still to be read.\<close>

definition value_at :: "nat list \<Rightarrow> 's tlv_in \<Rightarrow> nat \<Rightarrow> nat \<Rightarrow> tlv_node list \<Rightarrow> above \<Rightarrow> bool" where
  "value_at rs ctx i left ns up \<longleftrightarrow>
     ti_uri_path ctx = make_path rs \<and> ti_current_path ctx = make_path (above_path rs up @ [i])
     \<and> rest_ok (length rs) ns up \<and> ids_ok rs \<and> length rs + length up < 4 \<and> ti_has_path ctx
     \<and> (\<exists>e es. ti_entries ctx = e # es \<and> entries_rep (length rs) es ns up
          \<and> id_index (tie_type e) = length rs + length up \<and> tie_bytes_read e + left = tie_length e)"

text \<open>Taking a header counts the entry as read in the entry it is in.\<close>

lemma entries_rep_count:
  assumes "entries_rep r es (n # ns) up"
  obtains "es = []" "up = []" | parent es' i sib up' where "es = parent # es'" "up = (i, sib) # up'"
    "tie_bytes_read parent + length (enc_node (r + length up) n) \<le> tie_length parent"
    "entries_rep r (parent\<lparr>tie_bytes_read := tie_bytes_read parent + length (enc_node (r + length up) n)\<rparr> # es') ns up"
proof (cases up)
  case Nil
  with assms that(1) show ?thesis by simp
next
  case (Cons x up')
  obtain i sib where x: "x = (i, sib)" by (cases x)
  with Cons assms obtain parent es' where es: "es = parent # es'" by (auto split: list.splits)
  show ?thesis
    by (rule that(2) [OF es, of i sib up']) (use assms Cons x es in auto)
qed

lemma entries_rep_Nil: "entries_rep r es [] up \<Longrightarrow> es = [] \<longleftrightarrow> up = []"
  by (cases up) (auto split: list.splits)

context byte_source begin

text \<open>One round of the loop: the header of a node is taken.\<close>

lemma get_path_round:
  assumes at: "reader_at rs ctx (n # ns) up" and s: "ok (ti_stream ctx)" and alloc: "alloc 24 \<noteq> None"
    and enc: "enc_node (length rs + length up) n = enc_header t i len @ body" "len = length body"
    and i: "i < ANJAY_ID_INVALID" and len: "len \<le> TLV_MAX_LENGTH"
    and t: "id_index (id_type_of t) = length rs + length up"
    and c: "content (ti_stream ctx) = enc_node (length rs + length up) n @ rest"
  shows "\<exists>ctx' es. get_path_loop vt alloc ctx = (if len = 0 \<or> t = TLV_ID_RIID \<or> t = TLV_ID_RID
        then Some (ctx', 0, False) else get_path_loop vt alloc ctx')
    \<and> ok (ti_stream ctx') \<and> content (ti_stream ctx') = body @ rest
    \<and> ti_uri_path ctx' = make_path rs \<and> ti_current_path ctx' = make_path (above_path rs up @ [i])
    \<and> ti_is_array ctx' = (t = TLV_ID_RID_ARRAY) \<and> ti_has_path ctx' = ti_has_path ctx \<and> ti_finished ctx' = ti_finished ctx
    \<and> ti_entries ctx' = \<lparr>tie_type = id_type_of t, tie_length = len, tie_bytes_read = 0\<rparr> # es
    \<and> entries_rep (length rs) es ns up"
proof -
  let ?d = "length rs + length up"
  define e0 where "e0 = \<lparr>tie_type = ANJAY_ID_OID, tie_length = 0, tie_bytes_read = 0\<rparr>"
  define e1 where "e1 = \<lparr>tie_type = id_type_of t, tie_length = len, tie_bytes_read = 0\<rparr>"
  define ctx0 where "ctx0 = ctx\<lparr>ti_entries := e0 # ti_entries ctx\<rparr>"
  define hl where "hl = length (enc_header t i len)"
  define hv where "hv \<longleftrightarrow> len = 0 \<or> t = TLV_ID_RIID \<or> t = TLV_ID_RID"
  have push: "tlv_entry_push alloc ctx = (ctx0, True)" using alloc by (auto simp: tlv_entry_push_def ctx0_def e0_def)
  have c0: "ok (ti_stream ctx0)" "content (ti_stream ctx0) = enc_header t i len @ body @ rest"
    "ti_entries ctx0 = e0 # ti_entries ctx" using s c enc by (simp_all add: ctx0_def)
  from get_id_ok [OF c0(1,2) i len c0(3)] obtain s1 where
    g: "get_id vt ctx0 = Some (ctx0\<lparr>ti_is_array := (t = TLV_ID_RID_ARRAY), ti_stream := s1,
        ti_entries := e1 # ti_entries ctx\<rparr>, 0, (id_type_of t, i, hv, hl))"
    "ok s1" "content s1 = body @ rest"
    unfolding e1_def hl_def hv_def by blast
  define ctx1 where "ctx1 = ctx0\<lparr>ti_is_array := (t = TLV_ID_RID_ARRAY), ti_stream := s1,
        ti_entries := e1 # ti_entries ctx\<rparr>"
  have c1: "ti_entries ctx1 = e1 # ti_entries ctx" "ti_current_path ctx1 = ti_current_path ctx"
    "ti_uri_path ctx1 = ti_uri_path ctx" by (simp_all add: ctx1_def ctx0_def)
  have rep: "entries_rep (length rs) (ti_entries ctx) (n # ns) up" using at by (simp add: reader_at_def)
  have size: "length (enc_node ?d n) = tie_length e1 + hl" by (simp add: enc e1_def hl_def)
  obtain es where es: "(case ti_entries ctx of [] \<Rightarrow> ctx1 | parent # es \<Rightarrow>
        ctx1\<lparr>ti_entries := e1 # parent\<lparr>tie_bytes_read := tie_bytes_read parent + (tie_length e1 + hl)\<rparr> # es\<rparr>)
      = ctx1\<lparr>ti_entries := e1 # es\<rparr>"
    "entries_rep (length rs) es ns up"
    "(case es of [] \<Rightarrow> False | parent # _ \<Rightarrow> tie_bytes_read parent > tie_length parent) = False"
    using rep
  proof (cases rule: entries_rep_count)
    case 1
    with c1 show ?thesis by (intro that [of "[]"]) auto
  next
    case (2 parent es' j sib up')
    show ?thesis
      by (rule that [of "parent\<lparr>tie_bytes_read := tie_bytes_read parent + (tie_length e1 + hl)\<rparr> # es'"])
        (use 2 size in simp_all)
  qed
  have ids: "ids_ok (above_path rs up @ [i])"
    using at rest_ok_path [of rs "n # ns" up] i node_ok_depth [of ?d n]
    by (auto simp: reader_at_def ids_ok_def rest_ok_Cons)
  have path: "path_update (ti_current_path ctx) (id_type_of t) i = make_path (above_path rs up @ [i])"
    using at t ids by (simp add: reader_at_def path_update_extend ids_ok_def)
  have inside: "\<not> uri_path_outside_base (make_path (above_path rs up @ [i])) (make_path rs)"
    using inside_root [of rs "rev (map fst up) @ [i]"] ids by (simp add: above_path_def)
  define ctx2 where "ctx2 = ctx1\<lparr>ti_current_path := make_path (above_path rs up @ [i]),
    ti_current_path_len := Suc (id_index (id_type_of t)), ti_entries := e1 # es\<rparr>"
  have ctx2: "ctx1\<lparr>ti_entries := e1 # es, ti_current_path := make_path (above_path rs up @ [i]),
      ti_current_path_len := Suc (id_index (id_type_of t))\<rparr> = ctx2" by (simp add: ctx2_def)
  have uri: "ti_uri_path ctx2 = make_path rs" "ti_current_path ctx2 = make_path (above_path rs up @ [i])"
    using at c1 by (simp_all add: ctx2_def reader_at_def)
  have "get_path_loop vt alloc ctx = (if hv then Some (ctx2, 0, False) else get_path_loop vt alloc ctx2)"
    using push g(1) [folded ctx1_def] c1 es(1,3) path i inside uri
    by (subst get_path_loop.simps) (simp add: Let_def ctx2)
  with g(2,3) es(2) uri show ?thesis
    by (intro exI [of _ ctx2] exI [of _ es]) (simp add: ctx2_def ctx1_def ctx0_def hv_def e1_def)
qed

end

context byte_source begin

text \<open>A value that is next is found at once.\<close>

lemma get_path_loop_leaf:
  assumes at: "reader_at rs ctx (Leaf i v # ns) up" and s: "ok (ti_stream ctx)" and alloc: "alloc 24 \<noteq> None"
    and con: "content (ti_stream ctx) = rest_enc (length rs) (Leaf i v # ns) up"
  shows "\<exists>ctx'. get_path_loop vt alloc ctx = Some (ctx', 0, False)
     \<and> value_at rs (ctx'\<lparr>ti_has_path := True\<rparr>) i (length v) ns up
     \<and> ok (ti_stream ctx') \<and> content (ti_stream ctx') = v @ rest_enc (length rs) ns up
     \<and> rest_events rs (Leaf i v # ns) up = (ti_current_path ctx', ti_is_array ctx', v) # rest_events rs ns up
     \<and> tie_bytes_read (hd (ti_entries ctx')) = 0"
proof -
  let ?d = "length rs + length up"
  from at have n: "2 \<le> ?d" "?d \<le> 3" "i < ANJAY_ID_INVALID" "length v \<le> TLV_MAX_LENGTH"
    "rest_ok (length rs) ns up" "ids_ok rs" by (auto simp: reader_at_def rest_ok_Cons)
  have enc: "enc_node ?d (Leaf i v) = enc_header (leaf_type ?d) i (length v) @ v" by (simp add: enc_entry_def)
  have c: "content (ti_stream ctx) = enc_node ?d (Leaf i v) @ rest_enc (length rs) ns up"
    using con by (simp add: rest_enc_Cons)
  have t: "id_index (id_type_of (leaf_type ?d)) = ?d" using n by (intro id_types) auto
  have v: "leaf_type ?d = TLV_ID_RIID \<or> leaf_type ?d = TLV_ID_RID" "leaf_type ?d \<noteq> TLV_ID_RID_ARRAY"
    by (auto simp: leaf_type_def)
  from get_path_round [where alloc = alloc, OF at s alloc enc refl n(3,4) t c] v obtain ctx' es where
    "get_path_loop vt alloc ctx = Some (ctx', 0, False)"
    "ok (ti_stream ctx')" "content (ti_stream ctx') = v @ rest_enc (length rs) ns up"
    "ti_uri_path ctx' = make_path rs" "ti_current_path ctx' = make_path (above_path rs up @ [i])"
    "\<not> ti_is_array ctx'"
    "ti_entries ctx' = \<lparr>tie_type = id_type_of (leaf_type ?d), tie_length = length v, tie_bytes_read = 0\<rparr> # es"
    "entries_rep (length rs) es ns up" by auto
  with n t show ?thesis
    by (intro exI [of _ ctx'])
      (simp add: value_at_def rest_events_Cons)
qed

text \<open>The loop goes down to the first value of the node.\<close>

lemma get_path_loop_descends:
  "\<lbrakk>reader_at rs ctx (n # ns) up; ok (ti_stream ctx); alloc 24 \<noteq> None;
    content (ti_stream ctx) = rest_enc (length rs) (n # ns) up\<rbrakk> \<Longrightarrow>
   \<exists>ctx' i v ns' up'. get_path_loop vt alloc ctx = Some (ctx', 0, False)
     \<and> value_at rs (ctx'\<lparr>ti_has_path := True\<rparr>) i (length v) ns' up'
     \<and> ok (ti_stream ctx') \<and> content (ti_stream ctx') = v @ rest_enc (length rs) ns' up'
     \<and> rest_events rs (n # ns) up = (ti_current_path ctx', ti_is_array ctx', v) # rest_events rs ns' up'"
proof (induction n arbitrary: ctx ns up)
  case (Leaf i v)
  from get_path_loop_leaf [where alloc = alloc, OF Leaf.prems] show ?case by blast
next
  case (Node i cs)
  let ?d = "length rs + length up"
  let ?t = "node_type ?d" and ?body = "enc_nodes (Suc ?d) cs"
  from Node.prems(1) have n: "1 \<le> ?d" "?d \<le> 2" "i < ANJAY_ID_INVALID" "length ?body \<le> TLV_MAX_LENGTH"
    "list_all (node_ok (Suc ?d)) cs" "rest_ok (length rs) ns up" "ids_ok rs"
    unfolding reader_at_def rest_ok_Cons by simp_all
  have enc: "enc_node ?d (Node i cs) = enc_header ?t i (length ?body) @ ?body" by (simp add: enc_entry_def)
  have c: "content (ti_stream ctx) = enc_node ?d (Node i cs) @ rest_enc (length rs) ns up"
    using Node.prems(4) by (simp only: rest_enc_Cons)
  have t: "id_index (id_type_of ?t) = ?d" using n by (intro id_types) auto
  have tt: "?t \<noteq> TLV_ID_RIID" "?t \<noteq> TLV_ID_RID" "?t = TLV_ID_RID_ARRAY \<longleftrightarrow> ?d = 2"
    using n by (auto simp: node_type_def)
  from get_path_round [where alloc = alloc, OF Node.prems(1,2,3) enc refl n(3,4) t c] obtain ctx' es where
    r: "get_path_loop vt alloc ctx = (if length ?body = 0 \<or> ?t = TLV_ID_RIID \<or> ?t = TLV_ID_RID
      then Some (ctx', 0, False) else get_path_loop vt alloc ctx')"
    "ok (ti_stream ctx')" "content (ti_stream ctx') = ?body @ rest_enc (length rs) ns up"
    "ti_uri_path ctx' = make_path rs" "ti_current_path ctx' = make_path (above_path rs up @ [i])"
    "ti_is_array ctx' = (?t = TLV_ID_RID_ARRAY)"
    "ti_entries ctx' = \<lparr>tie_type = id_type_of ?t, tie_length = length ?body, tie_bytes_read = 0\<rparr> # es"
    "entries_rep (length rs) es ns up" by blast
  show ?case
  proof (cases cs)
    case Nil
    with r n t tt show ?thesis
      by (intro exI [of _ ctx'] exI [of _ i] exI [of _ "[]"] exI [of _ ns] exI [of _ up])
        (simp add: value_at_def rest_events_Cons)
  next
    case (Cons c cs')
    have "?body \<noteq> []" using Cons enc_nodes_Nil_iff [of "Suc ?d" cs] by blast
    then have step: "get_path_loop vt alloc ctx = get_path_loop vt alloc ctx'"
      using r(1) tt(1,2) by (simp only: length_0_conv simp_thms if_False)
    have at: "reader_at rs ctx' (c # cs') ((i, ns) # up)"
      unfolding reader_at_def using r n t Cons by simp
    have "content (ti_stream ctx') = rest_enc (length rs) (c # cs') ((i, ns) # up)" using r(3) Cons by simp
    from Node.IH [of c, OF _ at r(2) Node.prems(3) this] Cons step show ?thesis
      by (simp add: rest_events_Cons [of rs "Node i (c # cs')"])
  qed
qed

end

section \<open>Values and the next entry\<close>

text \<open>Completed entries are left: the position moves up to the next level with something left.\<close>

fun leave :: "tlv_node list \<Rightarrow> above \<Rightarrow> tlv_node list \<times> above" where
  "leave [] ((i, sib) # up) = leave sib up"
| "leave (n # ns) up = (n # ns, up)"
| "leave [] [] = ([], [])"

lemma leave_same:
  "leave ns up = (ns', up') \<Longrightarrow> rest_enc r ns' up' = rest_enc r ns up \<and> rest_events rs ns' up' = rest_events rs ns up
     \<and> (rest_ok r ns up \<longrightarrow> rest_ok r ns' up') \<and> (ns' = [] \<longrightarrow> up' = [])"
  by (induction ns up rule: leave.induct) auto

lemma pop_entries_leave:
  assumes "entries_rep (length rs) es ns up" "rest_ok (length rs) ns up" "length rs + length up \<le> 4"
    "leave ns up = (ns', up')"
  shows "\<exists>es' len'. pop_entries es (make_path (above_path rs up)) len = (es', make_path (above_path rs up'), len')
    \<and> entries_rep (length rs) es' ns' up'"
  using assms
proof (induction ns up arbitrary: es len rule: leave.induct)
  case (1 i sib up)
  from "1.prems"(1) obtain e es1 where e: "es = e # es1" "id_index (tie_type e) = length rs + length up"
    "tie_bytes_read e = tie_length e" "entries_rep (length rs) es1 sib up" by (auto split: list.splits)
  have cut: "path_update (make_path (above_path rs up @ [i])) (tie_type e) ANJAY_ID_INVALID = make_path (above_path rs up)"
    using "1.prems"(3) e(2) by (intro path_update_cut) simp_all
  from "1.IH" [OF e(4), of "id_index (tie_type e)"] "1.prems" e(1,3) cut show ?case by auto
next
  case (2 n ns up)
  show ?case
  proof (cases up)
    case Nil
    with 2 show ?thesis by auto
  next
    case (Cons x up1)
    obtain i sib where x: "x = (i, sib)" by (cases x)
    from 2 Cons x obtain e es1 where e: "es = e # es1"
      "tie_bytes_read e + length (enc_nodes (Suc (length rs + length up1)) (n # ns)) = tie_length e"
      by (auto split: list.splits)
    have "tie_length e \<noteq> tie_bytes_read e"
      using e(2) enc_node_length [of "Suc (length rs + length up1)" n] by (simp del: length_greater_0_conv)
    then have "pop_entries es (make_path (above_path rs up)) len = (es, make_path (above_path rs up), len)"
      using e(1) by simp
    with 2 show ?thesis by auto
  qed
next
  case 3
  then show ?case by auto
qed

context byte_source_zero begin

text \<open>Reading some bytes of a value.\<close>

lemma some_bytes_value:
  assumes at: "value_at rs ctx i (length v) ns up" and s: "ok (ti_stream ctx)" "content (ti_stream ctx) = v @ rest"
  shows "\<exists>ctx' bs v'. tlv_get_some_bytes vt alloc ctx n = Some (ctx', 0, bs, Some (v' = [])) \<and> v = bs @ v'
    \<and> length bs \<le> n \<and> (bs \<noteq> [] \<or> v = [] \<or> n = 0) \<and> value_at rs ctx' i (length v') ns up
    \<and> ok (ti_stream ctx') \<and> content (ti_stream ctx') = v' @ rest \<and> ti_finished ctx' = (content (ti_stream ctx') = [])"
proof -
  from at obtain e es where e: "ti_has_path ctx" "ti_entries ctx = e # es" "tie_bytes_read e + length v = tie_length e"
    by (auto simp: value_at_def)
  define left where "left = tie_length e - tie_bytes_read e"
  have left: "left = length v" "tie_bytes_read e \<le> tie_length e" using e(3) by (simp_all add: left_def)
  from read_any [OF s(1), of "min n left"] obtain s' bs where
    s': "stream_read vt (ti_stream ctx) (min n left) = Some (s', AVS_OK, Some (bs, content s' = []))"
    "content (ti_stream ctx) = bs @ content s'" "length bs \<le> min n left"
    "bs \<noteq> [] \<or> content (ti_stream ctx) = [] \<or> min n left = 0" "ok s'" by metis
  have len: "length bs \<le> length v" "length bs \<le> n" using s'(3) left(1) by simp_all
  define v' where "v' = drop (length bs) v"
  have "bs = take (length bs) (bs @ content s')" by simp
  also have "\<dots> = take (length bs) (v @ rest)" using s'(2) s(2) by simp
  also have "\<dots> = take (length bs) v" using len(1) by simp
  finally have v: "v = bs @ v'" by (metis v'_def append_take_drop_id)
  then have c: "content s' = v' @ rest" using s'(2) s(2) by simp
  define e' where "e' = e\<lparr>tie_bytes_read := tie_bytes_read e + length bs\<rparr>"
  have e': "tie_bytes_read e' = tie_bytes_read e + length bs" "tie_length e' = tie_length e" "tie_type e' = tie_type e"
    by (simp_all add: e'_def)
  have fin: "tie_bytes_read e' = tie_length e' \<longleftrightarrow> v' = []" using e' e(3) v by (cases v') auto
  have fin': "tie_bytes_read e + length bs = tie_length e \<longleftrightarrow> v' = []" using fin e' by simp
  define ctx' where "ctx' = ctx\<lparr>ti_stream := s', ti_entries := e' # es, ti_finished := (content s' = [])\<rparr>"
  have "tlv_get_some_bytes vt alloc ctx n = Some (ctx', 0, bs, Some (v' = []))"
    unfolding tlv_get_some_bytes_def using e(1,2) left(2) s'(1) fin c
    by (simp add: left_def [symmetric] e'_def [symmetric] ctx'_def fin' Let_def)
  moreover have "value_at rs ctx' i (length v') ns up"
    using at e(2,3) v e' by (auto simp: value_at_def ctx'_def)
  moreover have "bs \<noteq> [] \<or> v = [] \<or> n = 0" using s'(4) s(2) left(1) by (cases v) auto
  ultimately show ?thesis using v len(2) s'(5) c by (intro exI [of _ ctx'] exI [of _ bs] exI [of _ v']) (simp add: ctx'_def)
qed

lemma get_bytes_loop_value:
  assumes "value_at rs ctx i (length v) ns up" "ok (ti_stream ctx)" "content (ti_stream ctx) = v @ rest" "length v \<le> n"
  shows "\<exists>ctx'. get_bytes_loop vt alloc ctx n acc = Some (ctx', 0, acc @ v, Some True)
    \<and> value_at rs ctx' i 0 ns up \<and> ok (ti_stream ctx') \<and> content (ti_stream ctx') = rest
    \<and> ti_finished ctx' = (rest = [])"
  using assms
proof (induction "length v" arbitrary: ctx v n acc rule: less_induct)
  case less
  from some_bytes_value [OF less.prems(1,2,3), of alloc n] obtain ctx1 bs v1 where
    s: "tlv_get_some_bytes vt alloc ctx n = Some (ctx1, 0, bs, Some (v1 = []))" "v = bs @ v1" "length bs \<le> n"
    "bs \<noteq> [] \<or> v = [] \<or> n = 0" "value_at rs ctx1 i (length v1) ns up" "ok (ti_stream ctx1)"
    "content (ti_stream ctx1) = v1 @ rest" "ti_finished ctx1 = (content (ti_stream ctx1) = [])" by blast
  show ?case
  proof (cases "v1 = []")
    case True
    with s show ?thesis by (subst get_bytes_loop.simps) (auto simp: Let_def)
  next
    case False
    have lt: "length v1 < length v" using False s(2,4) less.prems(4) by auto
    have le: "length v1 \<le> n - length bs" using less.prems(4) s(2) by simp
    have "n - length bs \<noteq> 0" using le False by (cases v1) auto
    with False s(1,3) have "get_bytes_loop vt alloc ctx n acc = get_bytes_loop vt alloc ctx1 (n - length bs) (acc @ bs)"
      by (subst get_bytes_loop.simps) (simp add: Let_def)
    with less.hyps [OF lt s(5,6,7) le, of "acc @ bs"] s(2) show ?thesis by simp
  qed
qed

lemma next_entry_leaves:
  assumes at: "value_at rs ctx i 0 ns up" and s: "ok (ti_stream ctx)" "content (ti_stream ctx) = rest_enc (length rs) ns up"
    and leave: "leave ns up = (ns', up')"
  shows "\<exists>ctx'. tlv_next_entry vt alloc ctx = Some (ctx', 0) \<and> reader_at rs ctx' ns' up' \<and> ok (ti_stream ctx')
    \<and> content (ti_stream ctx') = rest_enc (length rs) ns' up' \<and> \<not> ti_has_path ctx'
    \<and> ti_finished ctx' = (content (ti_stream ctx') = [])"
proof -
  have "value_at rs ctx i (length ([]::bytes)) ns up" using at by simp
  from some_bytes_value [OF this s(1), of _ alloc 64] s(2) obtain ctx1 where
    r: "tlv_get_some_bytes vt alloc ctx 64 = Some (ctx1, 0, [], Some True)" "value_at rs ctx1 i 0 ns up"
    "ok (ti_stream ctx1)" "content (ti_stream ctx1) = rest_enc (length rs) ns up"
    "ti_finished ctx1 = (content (ti_stream ctx1) = [])" by auto
  have skip: "skip_entry vt alloc ctx = Some (ctx1, 0)" using r(1) by (subst skip_entry.simps) simp
  from r(2) obtain e es where e: "ti_entries ctx1 = e # es" "tie_length e = tie_bytes_read e"
    "id_index (tie_type e) = length rs + length up" "entries_rep (length rs) es ns up" "rest_ok (length rs) ns up"
    "length rs + length up < 4" "ti_current_path ctx1 = make_path (above_path rs up @ [i])"
    "ti_uri_path ctx1 = make_path rs" "ids_ok rs" by (auto simp: value_at_def)
  have cut: "path_update (make_path (above_path rs up @ [i])) (tie_type e) ANJAY_ID_INVALID = make_path (above_path rs up)"
    using e(3,6) by (intro path_update_cut) simp_all
  from pop_entries_leave [OF e(4,5) _ leave, of "id_index (tie_type e)"] e(6) obtain es' len' where
    p: "pop_entries es (make_path (above_path rs up)) (id_index (tie_type e)) = (es', make_path (above_path rs up'), len')"
    "entries_rep (length rs) es' ns' up'" by auto
  have "ti_has_path ctx" "ti_entries ctx \<noteq> []" using at by (auto simp: value_at_def)
  then have "tlv_next_entry vt alloc ctx = Some (ctx1\<lparr>ti_has_path := False, ti_is_array := False, ti_entries := es',
      ti_current_path := make_path (above_path rs up'), ti_current_path_len := len'\<rparr>, 0)"
    using skip e(1,2,7) cut p(1) by (simp add: tlv_next_entry_def)
  with p(2) leave_same [OF leave, of "length rs" rs] e(5,8,9) r(3,4,5) show ?thesis by (simp add: reader_at_def)
qed

end

section \<open>Reading everything\<close>

text \<open>
  How the users of the reader go through its input: until the end, the path and the value of an
  entry are read, the value into a buffer of \<open>n\<close> bytes, and then the next entry is asked for.
\<close>

partial_function (option) read_events ::
  "'s stream_vtable \<Rightarrow> allocator \<Rightarrow> 's tlv_in \<Rightarrow> nat \<Rightarrow> in_event list \<Rightarrow> (int \<times> in_event list) option" where
  "read_events vt alloc ctx n acc = do {
     (ctx, r, out) \<leftarrow> input_get_path vt alloc ctx;
     if r \<noteq> 0 then Some (r, acc)
     else do {
       (path, is_array) \<leftarrow> out;
       (ctx, r, bs, fin) \<leftarrow> get_bytes vt alloc ctx n;
       if r \<noteq> 0 then Some (r, acc)
       else do {
         (ctx, r) \<leftarrow> tlv_next_entry vt alloc ctx;
         if r \<noteq> 0 then Some (r, acc)
         else read_events vt alloc ctx n (acc @ [(path, is_array, bs)]) } } }"

context byte_source_zero begin

lemma get_path_end:
  assumes "\<not> ti_has_path ctx" "ti_finished ctx \<or> alloc 24 \<noteq> None" "ok (ti_stream ctx)" "content (ti_stream ctx) = []"
  shows "\<exists>ctx' out. input_get_path vt alloc ctx = Some (ctx', ANJAY_GET_PATH_END, out)"
proof (cases "ti_finished ctx")
  case True
  then show ?thesis by (simp add: input_get_path_def tlv_get_path_def)
next
  case False
  define ctx0 where "ctx0 = ctx\<lparr>ti_entries := \<lparr>tie_type = ANJAY_ID_OID, tie_length = 0, tie_bytes_read = 0\<rparr> # ti_entries ctx\<rparr>"
  have push: "tlv_entry_push alloc ctx = (ctx0, True)" using False assms(2) by (auto simp: tlv_entry_push_def ctx0_def)
  from read_reliably_ok [OF assms(3), of 1] assms(4) obtain s1 where
    "stream_read_reliably vt (ti_stream ctx0) 1 = Some (s1, AVS_EOF, [])" by (auto simp: ctx0_def)
  then have "get_id vt ctx0 = Some (ctx0\<lparr>ti_stream := s1\<rparr>, 1, ANJAY_ID_OID, 0, False, 0)"
    by (simp add: get_id_def)
  then have "get_path_loop vt alloc ctx = Some (ctx0\<lparr>ti_stream := s1\<rparr>, 1, False)"
    using push by (subst get_path_loop.simps) simp
  with assms(1) False show ?thesis by (simp add: input_get_path_def tlv_get_path_def)
qed

lemma read_events_from:
  "\<lbrakk>reader_at rs ctx ns up; ns = [] \<longrightarrow> up = []; ok (ti_stream ctx); alloc 24 \<noteq> None;
    content (ti_stream ctx) = rest_enc (length rs) ns up; \<not> ti_has_path ctx;
    ti_finished ctx \<longrightarrow> content (ti_stream ctx) = [];
    list_all (\<lambda>(_, _, v). length v \<le> n) (rest_events rs ns up)\<rbrakk> \<Longrightarrow>
   read_events vt alloc ctx n acc = Some (ANJAY_GET_PATH_END, acc @ rest_events rs ns up)"
proof (induction "rest_events rs ns up" arbitrary: ctx ns up acc rule: length_induct)
  case 1
  show ?case
  proof (cases ns)
    case Nil
    with 1 have "content (ti_stream ctx) = []" "rest_events rs ns up = []" by auto
    with get_path_end [where alloc = alloc, of ctx] 1 show ?thesis by (subst read_events.simps) auto
  next
    case (Cons m ns1)
    have ne: "content (ti_stream ctx) \<noteq> []"
      using 1 Cons enc_node_length [of "length rs + length up" m] by (auto simp: rest_enc_Cons)
    from get_path_loop_descends [where alloc = alloc, of rs ctx m ns1 up] 1 Cons obtain ctx1 i v ns2 up2 where
      g: "get_path_loop vt alloc ctx = Some (ctx1, 0, False)"
      "value_at rs (ctx1\<lparr>ti_has_path := True\<rparr>) i (length v) ns2 up2" "ok (ti_stream ctx1)"
      "content (ti_stream ctx1) = v @ rest_enc (length rs) ns2 up2"
      "rest_events rs ns up = (ti_current_path ctx1, ti_is_array ctx1, v) # rest_events rs ns2 up2" by auto
    let ?ctx1 = "ctx1\<lparr>ti_has_path := True\<rparr>"
    have path: "input_get_path vt alloc ctx = Some (?ctx1, 0, Some (ti_current_path ctx1, ti_is_array ctx1))"
      using g(1) 1 ne by (simp add: input_get_path_def tlv_get_path_def)
    have "length v \<le> n" using 1 g(5) by simp
    from get_bytes_loop_value [OF g(2) _ _ this, of "rest_enc (length rs) ns2 up2" alloc "[]"] g(3,4) obtain ctx2 where
      b: "get_bytes vt alloc ?ctx1 n = Some (ctx2, 0, v, Some True)" "value_at rs ctx2 i 0 ns2 up2" "ok (ti_stream ctx2)"
      "content (ti_stream ctx2) = rest_enc (length rs) ns2 up2" by (auto simp: get_bytes_def)
    obtain ns3 up3 where leave: "leave ns2 up2 = (ns3, up3)" by (cases "leave ns2 up2")
    note same = leave_same [OF leave, of "length rs" rs]
    from next_entry_leaves [OF b(2,3,4) leave, of alloc] obtain ctx3 where
      e: "tlv_next_entry vt alloc ctx2 = Some (ctx3, 0)" "reader_at rs ctx3 ns3 up3" "ok (ti_stream ctx3)"
      "content (ti_stream ctx3) = rest_enc (length rs) ns3 up3" "\<not> ti_has_path ctx3"
      "ti_finished ctx3 = (content (ti_stream ctx3) = [])" by blast
    have "length (rest_events rs ns3 up3) < length (rest_events rs ns up)" using same g(5) by simp
    moreover have "list_all (\<lambda>(_, _, v). length v \<le> n) (rest_events rs ns3 up3)" using 1 same g(5) by simp
    ultimately have "read_events vt alloc ctx3 n (acc @ [(ti_current_path ctx1, ti_is_array ctx1, v)])
        = Some (ANJAY_GET_PATH_END, (acc @ [(ti_current_path ctx1, ti_is_array ctx1, v)]) @ rest_events rs ns3 up3)"
      using 1 e same by blast
    with path b(1) e(1) same g(5) show ?thesis by (subst read_events.simps) simp
  qed
qed

lemma read_tree:
  assumes "ok s" "content s = enc_nodes (length rs) ns" "ids_ok rs" "list_all (node_ok (length rs)) ns"
    "alloc 24 \<noteq> None" "list_all (\<lambda>(_, _, v). length v \<le> n) (concat (map (node_events rs) ns))"
  shows "read_events vt alloc (input_tlv_create s (Some (make_path rs))) n []
    = Some (ANJAY_GET_PATH_END, concat (map (node_events rs) ns))"
  using read_events_from [of rs "input_tlv_create s (Some (make_path rs))" ns "[]" alloc n "[]"] assms
  by (simp add: reader_at_def input_tlv_create_def Let_def)

end

section \<open>The round trip\<close>

text \<open>What is read back of a data model tree.\<close>

primrec resource_events :: "nat \<Rightarrow> nat \<Rightarrow> resource \<Rightarrow> in_event list" where
  "resource_events oid iid (Single rid d) = [(make_path [oid, iid, rid], False, d)]"
| "resource_events oid iid (Multiple rid vs) = (if vs = [] then [(make_path [oid, iid, rid], True, [])]
     else map (\<lambda>(riid, d). (make_path [oid, iid, rid, riid], False, d)) vs)"

definition instance_events :: "nat \<Rightarrow> instance_tree \<Rightarrow> in_event list" where
  "instance_events oid inst = (if snd inst = [] then [(make_path [oid, fst inst], False, [])]
     else concat (map (resource_events oid (fst inst)) (snd inst)))"

definition object_events :: "nat \<Rightarrow> instance_tree list \<Rightarrow> in_event list" where
  "object_events oid insts = concat (map (instance_events oid) insts)"

primrec resource_node :: "resource \<Rightarrow> tlv_node" where
  "resource_node (Single rid d) = Leaf rid d"
| "resource_node (Multiple rid vs) = Node rid (map (\<lambda>(riid, d). Leaf riid d) vs)"

definition instance_node :: "instance_tree \<Rightarrow> tlv_node" where
  "instance_node inst = Node (fst inst) (map resource_node (snd inst))"

lemma enc_values_node: "enc_values vs = enc_nodes 3 (map (\<lambda>(riid, d). Leaf riid d) vs)"
  by (induction vs) (auto simp: leaf_type_def)

lemma enc_resource_node: "enc_node 2 (resource_node x) = enc_resource x"
  using enc_values_node by (cases x) (simp_all add: leaf_type_def node_type_def numeral_3_eq_3 numeral_2_eq_2)

lemma enc_resources_node: "enc_nodes 2 (map resource_node rs) = enc_resources rs"
  by (induction rs) (simp_all add: enc_resource_node)

lemma enc_instance_node: "enc_node (Suc 0) (instance_node x) = enc_instance x"
  using enc_resources_node [of "snd x"]
  by (simp add: instance_node_def enc_instance_def node_type_def numeral_2_eq_2)

lemma enc_instances_node: "enc_nodes (Suc 0) (map instance_node insts) = enc_instances insts"
  by (induction insts) (simp_all add: enc_instance_node)

lemma resource_node_ok: "resource_ok x \<Longrightarrow> node_ok 2 (resource_node x)"
proof (cases x)
  case (Multiple rid vs)
  assume "resource_ok x"
  with Multiple enc_values_node [of vs] show ?thesis
    by (auto simp: list_all_iff numeral_3_eq_3 numeral_2_eq_2 simp del: enc_node.simps)
qed simp

lemma instance_node_ok: "instance_ok x \<Longrightarrow> node_ok (Suc 0) (instance_node x)"
  using enc_resources_node [of "snd x"] resource_node_ok
  by (auto simp: instance_node_def instance_ok_def list_all_iff numeral_2_eq_2 simp del: enc_node.simps)

lemma resource_node_events: "node_events [oid, iid] (resource_node x) = resource_events oid iid x"
proof (cases x)
  case (Multiple rid vs)
  have "concat (map (node_events [oid, iid, rid]) (map (\<lambda>(riid, d). Leaf riid d) vs))
      = map (\<lambda>(riid, d). (make_path [oid, iid, rid, riid], False, d)) vs"
    by (induction vs) auto
  with Multiple show ?thesis by simp
qed simp

lemma instance_node_events: "node_events [oid] (instance_node x) = instance_events oid x"
proof -
  have "concat (map (node_events [oid, fst x]) (map resource_node (snd x)))
      = concat (map (resource_events oid (fst x)) (snd x))"
    by (simp add: resource_node_events comp_def)
  then show ?thesis by (simp add: instance_node_def instance_events_def)
qed

lemma object_node_events: "concat (map (node_events [oid]) (map instance_node insts)) = object_events oid insts"
  by (simp add: object_events_def instance_node_events comp_def)

lemma membuf_create_content [simp]: "membuf_ok membuf_create" "membuf_content membuf_create = []"
  by (simp_all add: membuf_ok_def membuf_content_def membuf_create_def)

lemma roundtrip_object:
  assumes "oid < ANJAY_ID_INVALID" and "list_all instance_ok insts"
    and "\<And>m. alloc m \<noteq> None" and "list_all (\<lambda>(_, _, v). length v \<le> n) (object_events oid insts)"
  shows "\<exists>s. serialize_calls (membuf_vtable (\<lambda>_. Some fill)) alloc membuf_create [oid] (object_calls oid insts) = Some (s, 0, 0)
    \<and> read_events (membuf_vtable (\<lambda>_. Some fill)) alloc (input_tlv_create s (Some (make_path [oid]))) n []
        = Some (ANJAY_GET_PATH_END, object_events oid insts)"
proof -
  from mbs.serialize_object_ok [where alloc = alloc and fill = fill, OF membuf_create_content(1) assms(1,2,3) TrueI]
  obtain s where s:
    "serialize_calls (membuf_vtable (\<lambda>_. Some fill)) alloc membuf_create [oid] (object_calls oid insts) = Some (s, 0, 0)"
    "membuf_ok s" "membuf_content s = enc_nodes (length [oid]) (map instance_node insts)"
    using enc_instances_node [of insts] by (auto simp: mbs.wrote_def)
  have "list_all (node_ok (length [oid])) (map instance_node insts)"
    using assms(2) instance_node_ok by (auto simp: list_all_iff)
  with mbr.read_tree [of s "[oid]" "map instance_node insts" alloc n "\<lambda>_. Some fill", unfolded object_node_events] s assms
  show ?thesis by (simp add: ids_ok_def)
qed

text \<open>The value of bytes in two's complement.\<close>

definition twos_value :: "bytes \<Rightarrow> int" where
  "twos_value bs = int (be_nat bs) - (if bs \<noteq> [] \<and> 128 \<le> unat (hd bs) then 256 ^ length bs else 0)"

lemma twos_value_range:
  "- (128 * 256 ^ length bs) \<le> twos_value (b # bs) \<and> twos_value (b # bs) < 128 * 256 ^ length bs"
proof -
  define P where "P = (256::int) ^ length bs"
  define B where "B = int (unat b)"
  have "be_nat bs < 256 ^ length bs" by (rule be_nat_less)
  then have 1: "int (be_nat bs) < P" unfolding P_def by (metis of_nat_less_iff of_nat_numeral of_nat_power)
  have B: "0 \<le> B" "B < 256" by (simp_all add: B_def del: of_nat_unat)
  have P: "0 < P" by (simp add: P_def)
  have v: "twos_value (b # bs) = B * P + int (be_nat bs) - (if 128 \<le> B then 256 * P else 0)"
    by (simp add: twos_value_def be_nat_Cons B_def P_def del: of_nat_unat)
  show ?thesis
  proof (cases "128 \<le> B")
    case True
    then have "128 * P \<le> B * P" "B * P \<le> 255 * P" using B P by simp_all
    moreover have "twos_value (b # bs) = B * P + int (be_nat bs) - 256 * P" using v True by simp
    ultimately show ?thesis using 1 unfolding P_def [symmetric] by linarith
  next
    case False
    then have "B * P \<le> 127 * P" "0 \<le> B * P" using B P by simp_all
    moreover have "twos_value (b # bs) = B * P + int (be_nat bs)" using v False by simp
    ultimately show ?thesis using 1 P unfolding P_def [symmetric] by linarith
  qed
qed

lemma integer_fold:
  "length bs \<le> 8 \<Longrightarrow> integer_of_bytes bs = twos_value bs"
proof (induction bs rule: rev_induct)
  case Nil
  show ?case by (simp add: integer_of_bytes_def twos_value_def)
next
  case (snoc b bs)
  show ?case
  proof (cases bs)
    case Nil
    then show ?thesis by (auto simp: integer_of_bytes_def twos_value_def be_nat_Cons)
  next
    case (Cons a as)
    define P where "P = (256::int) ^ length as"
    have "(256::int) ^ length as \<le> 256 ^ 6" using snoc.prems Cons by (intro power_increasing) auto
    then have P: "P \<le> 256 ^ 6" by (simp add: P_def)
    define v where "v = twos_value bs"
    have range: "- (128 * P) \<le> v" "v < 128 * P" using twos_value_range [of as a] Cons by (simp_all add: v_def P_def)
    have fit: "- (2 ^ 63) \<le> 256 * v" "256 * v < 2 ^ 63" using range P by simp_all
    have "integer_of_bytes (bs @ [b]) = signed_take_bit 63 (256 * integer_of_bytes bs) + int (unat b)"
      using Cons by (simp add: integer_of_bytes_def)
    also have "\<dots> = 256 * v + int (unat b)"
      using snoc signed_fits [of "256 * v" 63] fit by (simp add: v_def)
    also have "\<dots> = twos_value (bs @ [b])" using Cons by (simp add: v_def twos_value_def be_nat_snoc [of "a # as" b, unfolded append_Cons] algebra_simps del: be_nat_snoc)
    finally show ?thesis .
  qed
qed

lemma twos_unique:
  fixes x y Q :: int
  assumes "x mod (256 * Q) = y mod (256 * Q)" "- (128 * Q) \<le> x" "x < 128 * Q" "- (128 * Q) \<le> y" "y < 128 * Q"
  shows "x = y"
proof -
  have "(x + 128 * Q) mod (256 * Q) = (y + 128 * Q) mod (256 * Q)" using assms(1) by (rule mod_add_cong) simp
  then show ?thesis using assms by simp
qed

lemma integer_of_int_bytes:
  assumes "- (2 ^ 63) \<le> v" "v < 2 ^ 63"
  shows "integer_of_bytes (int_bytes v) = v"
proof -
  define w where "w = int_width v"
  obtain k where k: "w = Suc k" by (cases w) (auto simp: w_def int_width_def split: if_splits)
  have w8: "w \<le> 8" by (simp add: w_def int_width_def)
  have P: "(256::int) ^ w = 2 ^ (8 * w)" by (simp add: power_mult)
  have range: "- (128 * 256 ^ k) \<le> v" "v < 128 * 256 ^ k"
    using assms k by (auto simp: w_def int_width_def split: if_splits)
  have len: "length (int_bytes v) = w" by (simp add: int_bytes_def w_def)
  then obtain b bs where bs: "int_bytes v = b # bs" "length bs = k" using k by (cases "int_bytes v") auto
  have "0 \<le> v mod 256 ^ w" "v mod 256 ^ w < 256 ^ w" by simp_all
  then have "nat (v mod 256 ^ w) < 256 ^ w" by (simp add: nat_less_iff)
  then have "be_nat (int_bytes v) = nat (v mod 256 ^ w)"
    by (simp add: int_bytes_def w_def [symmetric] P [symmetric])
  then have "twos_value (int_bytes v) mod 256 ^ w = v mod 256 ^ w"
    using len by (auto simp: twos_value_def)
  moreover have "- (128 * 256 ^ k) \<le> twos_value (int_bytes v)" "twos_value (int_bytes v) < 128 * 256 ^ k"
    using twos_value_range [of bs b] bs by simp_all
  ultimately have "twos_value (int_bytes v) = v"
    using range twos_unique [of "twos_value (int_bytes v)" "256 ^ k" v] k by simp
  then show ?thesis using integer_fold [of "int_bytes v"] len w8 by simp
qed

context byte_source_zero begin

lemma read_to_end_value:
  assumes "value_at rs ctx i (length v) ns up" "ok (ti_stream ctx)" "content (ti_stream ctx) = v @ rest" "length v \<le> n"
  shows "\<exists>ctx'. read_to_end_loop vt alloc ctx n acc = Some (ctx', 0, Some (acc @ v)) \<and> value_at rs ctx' i 0 ns up
    \<and> ok (ti_stream ctx') \<and> content (ti_stream ctx') = rest"
  using assms
proof (induction "length v" arbitrary: ctx v n acc rule: less_induct)
  case less
  from some_bytes_value [OF less.prems(1,2,3), of alloc n] obtain ctx1 bs v1 where
    s: "tlv_get_some_bytes vt alloc ctx n = Some (ctx1, 0, bs, Some (v1 = []))" "v = bs @ v1" "length bs \<le> n"
    "bs \<noteq> [] \<or> v = [] \<or> n = 0" "value_at rs ctx1 i (length v1) ns up" "ok (ti_stream ctx1)"
    "content (ti_stream ctx1) = v1 @ rest" by blast
  show ?case
  proof (cases "v1 = []")
    case True
    with s show ?thesis by (subst read_to_end_loop.simps) auto
  next
    case False
    have lt: "length v1 < length v" using False s(2,4) less.prems(4) by auto
    have le: "length v1 \<le> n - length bs" using less.prems(4) s(2) by simp
    have "0 < n - length bs" using le False by (cases v1) auto
    with False s(1,3) have "read_to_end_loop vt alloc ctx n acc = read_to_end_loop vt alloc ctx1 (n - length bs) (acc @ bs)"
      by (subst read_to_end_loop.simps) simp
    with less.hyps [OF lt s(5,6,7) le, of "acc @ bs"] s(2) show ?thesis by simp
  qed
qed

text \<open>Reading an entry as a whole, without asking for its path first.\<close>

lemma read_whole_value:
  assumes "ok s" "content s = enc_entry (leaf_type (length rs)) i v @ enc_nodes (length rs) ns" "ids_ok rs"
    "list_all (node_ok (length rs)) (Leaf i v # ns)" "alloc 24 \<noteq> None" "length v \<le> n"
  shows "\<exists>ctx. tlv_read_whole_entry vt alloc (input_tlv_create s (Some (make_path rs))) n = Some (ctx, 0, Some v)
    \<and> value_at rs ctx i 0 ns []"
proof -
  let ?ctx = "input_tlv_create s (Some (make_path rs))"
  have "reader_at rs ?ctx (Leaf i v # ns) []" using assms(3,4) by (simp add: reader_at_def input_tlv_create_def Let_def)
  moreover have s: "ok (ti_stream ?ctx)" "content (ti_stream ?ctx) = rest_enc (length rs) (Leaf i v # ns) []"
    using assms(1,2) by (simp_all add: input_tlv_create_def Let_def)
  ultimately obtain ctx1 where
    g: "get_path_loop vt alloc ?ctx = Some (ctx1, 0, False)"
      "value_at rs (ctx1\<lparr>ti_has_path := True\<rparr>) i (length v) ns []" "ok (ti_stream ctx1)"
      "content (ti_stream ctx1) = v @ rest_enc (length rs) ns []"
      "tie_bytes_read (hd (ti_entries ctx1)) = 0"
    using get_path_loop_leaf [where alloc = alloc, of rs ?ctx i v ns "[]"] assms(5) by blast
  let ?ctx1 = "ctx1\<lparr>ti_has_path := True\<rparr>"
  have path: "input_get_path vt alloc ?ctx = Some (?ctx1, 0, Some (ti_current_path ctx1, ti_is_array ctx1))"
    "\<not> ti_has_path ?ctx"
    using g(1) by (simp_all add: input_get_path_def tlv_get_path_def input_tlv_create_def Let_def)
  from g(2) obtain e es where e: "ti_entries ctx1 = e # es" "entries_rep (length rs) es ns []"
    "tie_bytes_read e + length v = tie_length e" by (auto simp: value_at_def)
  have "tie_bytes_read e = 0" using g(5) e(1) by simp
  from read_to_end_value [OF g(2) _ _ assms(6), of "rest_enc (length rs) ns []" alloc "[]"] g(3,4) obtain ctx2 where
    "read_to_end_loop vt alloc ?ctx1 n [] = Some (ctx2, 0, Some v)" "value_at rs ctx2 i 0 ns []" by auto
  then show ?thesis using path e(1) \<open>tie_bytes_read e = 0\<close>
    by (simp add: tlv_read_whole_entry_def tlv_read_to_end_def)
qed

end

section \<open>Properties\<close>

text \<open>C18: What the TLV serializer writes for an Object, the TLV reader reads back: after the calls that
  walk a tree of Object Instances, Resources and Resource Instances have written to a fresh memory
  stream, reading that stream until its end delivers the path and the value of every Resource and
  Resource Instance in the order they were written, an empty Object Instance or multiple-instance
  Resource as one entry with an empty value, and nothing else.\<close>

theorem tlv_tree_roundtrip:
  assumes "oid < ANJAY_ID_INVALID" and "list_all instance_ok insts"
    and "\<And>m. alloc m \<noteq> None" and "list_all (\<lambda>(_, _, v). length v \<le> n) (object_events oid insts)"
  shows "\<exists>s. serialize_calls (membuf_vtable (\<lambda>_. Some fill)) alloc membuf_create [oid] (object_calls oid insts) = Some (s, 0, 0)
    \<and> read_events (membuf_vtable (\<lambda>_. Some fill)) alloc (input_tlv_create s (Some (make_path [oid]))) n []
        = Some (ANJAY_GET_PATH_END, object_events oid insts)"
  using assms by (rule roundtrip_object)

theorem tlv_tree_roundtrip_witness:
  "\<exists>s. serialize_calls (membuf_vtable (\<lambda>_. Some (\<lambda>_. 0))) (\<lambda>_. Some (\<lambda>_. 0)) membuf_create [3]
        (object_calls 3 sample_instances) = Some (s, 0, 0)
    \<and> read_events (membuf_vtable (\<lambda>_. Some (\<lambda>_. 0))) (\<lambda>_. Some (\<lambda>_. 0)) (input_tlv_create s (Some (make_path [3]))) 8 []
        = Some (1, [(make_path [3, 0, 15], False, [0x41, 0x42]), (make_path [3, 0, 6, 0], False, [1]),
                    (make_path [3, 0, 6, 2], False, [5]), (make_path [3, 300, 9], False, replicate 8 7)])"
proof -
  have events: "object_events 3 sample_instances = [(make_path [3, 0, 15], False, [0x41, 0x42]),
      (make_path [3, 0, 6, 0], False, [1]), (make_path [3, 0, 6, 2], False, [5]), (make_path [3, 300, 9], False, replicate 8 7)]"
    by (simp add: object_events_def sample_instances_def instance_events_def)
  show ?thesis
    using tlv_tree_roundtrip [of 3 sample_instances "\<lambda>_. Some (\<lambda>_. 0)" 8 "\<lambda>_. 0"] sample_instances_ok
    unfolding events by simp
qed

text \<open>Integers survive the serializer and the reader: an integer of 64 bits is returned as its
  shortest two's complement representation of 1, 2, 4 or 8 bytes, and reading a Resource that holds
  these bytes sign-extends them to the same integer.\<close>

theorem tlv_integer_roundtrip:
  assumes "- (2 ^ 63) \<le> v" and "v < 2 ^ 63" and "membuf_ok s"
    and "membuf_content s = enc_entry TLV_ID_RID rid (int_bytes v)" and "ids_ok [oid, iid, rid]" and "alloc 24 \<noteq> None"
  shows "tlv_ret_i64 vt alloc' ctx v = ret_bytes vt alloc' ctx (int_bytes v)
    \<and> (\<exists>ctx'. tlv_get_integer (membuf_vtable realloc) alloc (input_tlv_create s (Some (make_path [oid, iid])))
         = Some (ctx', 0, Some v))"
proof -
  have len: "length (int_bytes v) \<le> 8" "is_power_of_2 (length (int_bytes v))"
    by (simp_all add: int_bytes_def int_width_def) code_simp+
  have "\<exists>ctx. tlv_read_whole_entry (membuf_vtable realloc) alloc (input_tlv_create s (Some (make_path [oid, iid]))) 8
      = Some (ctx, 0, Some (int_bytes v)) \<and> value_at [oid, iid] ctx rid 0 [] []"
    by (rule mbr.read_whole_value) (use assms len in \<open>auto simp: leaf_type_def ids_ok_def\<close>)
  with len integer_of_int_bytes [OF assms(1,2)] show ?thesis
    by (auto simp: tlv_get_integer_def tlv_ret_i64_bytes)
qed

theorem tlv_integer_roundtrip_witness:
  "\<exists>ctx'. tlv_get_integer (membuf_vtable (\<lambda>_. None)) (\<lambda>_. Some (\<lambda>_. 0))
     (input_tlv_create \<lparr>mb_buffer = [0xC2, 5, 0xFE, 0xD4], mb_size = 4, mb_write = 4, mb_read = 0\<rparr>
        (Some (make_path [3, 0]))) = Some (ctx', 0, Some (- 300))"
proof -
  have 1: "int_bytes (- 300) = [0xFE, 0xD4]"
    using be_bytes_Suc [of 1 65236] be_bytes_Suc [of 0 65236]
    by (simp add: int_bytes_def int_width_def byte_of_def numeral_2_eq_2 [symmetric])
  have 2: "enc_entry TLV_ID_RID 5 [0xFE, 0xD4] = [0xC2, 5, 0xFE, 0xD4]" by code_simp
  show ?thesis
    using tlv_integer_roundtrip [of "- 300" "\<lparr>mb_buffer = [0xC2, 5, 0xFE, 0xD4], mb_size = 4, mb_write = 4, mb_read = 0\<rparr>"
        5 3 0 "\<lambda>_. Some (\<lambda>_. 0)" outbuf_vtable "\<lambda>_. None" undefined "\<lambda>_. None"] 1 2
    by (simp add: membuf_ok_def membuf_content_def ids_ok_def)
qed

end
