(* ===== verification/Spec2Isabelle.thy ===== *)
theory Spec2Isabelle
  imports Ac_Props Coap_Udp_Ctx_Faults Coap_Udp_Ctx_Reach Dm_Execute Tlv_Roundtrip
begin

text \<open>
  A verification of the protocol core of Anjay, a client library for Lightweight M2M, as it is in
  \<open>src/Anjay_2021/Anjay\<close>, with its libraries \<open>avs_coap\<close> and \<open>avs_commons\<close> under \<open>deps\<close>.

  The program. A device that runs Anjay holds a data model of Objects, Instances and Resources. Servers
  operate on it with CoAP messages over UDP. \<open>avs_coap\<close> encodes and decodes the messages, recognises
  retransmitted requests through a cache of responses, and assembles block-wise transfers. The core of
  Anjay maps a request to an operation on the data model, whose values travel in the TLV format or as
  text. Streams, byte queues, times and a scheduler come from \<open>avs_commons\<close>.

  Conventions. A C function that accesses memory, asserts, or contains a loop is a function into
  \<open>option\<close>; \<open>None\<close> is undefined behaviour, a failed assertion, or a run that does not end. An equation
  \<open>f x = Some r\<close> hence contains memory safety and termination. Loops are \<open>partial_function (option)\<close>,
  so no fuel is needed anywhere. Error codes are ordinary values. Memory regions are lists of bytes
  with checked accesses, pointers into them are offsets; addresses of shared objects (jobs, endpoints)
  are numbers. Allocation results are arguments. Machine integers are \<open>8 word\<close> where bits matter, and
  otherwise numbers with the wrap-around written out. Log messages are left out.

  The theories.
  \<^item> \<open>Anjay_Prelude\<close>: bytes, memory, assertions, big-endian integers, errors, and their automation.
  \<^item> \<open>Coap_Option\<close> (\<open>options/avs_coap_option.c\<close>): the encoding of one option; \<open>Coap_Optit\<close>
    (\<open>avs_coap_iterator.c\<close>): iteration and in-place erasure; \<open>Coap_Options\<close>, \<open>Coap_Option_Value\<close>,
    \<open>Coap_Options_Typed\<close>, \<open>Coap_Options_Valid\<close>, \<open>Coap_Options_Match\<close> (\<open>avs_coap_options.c\<close>): sets of
    options as sorted lists, typed values, validity of received options, request keys and the
    continuation of block-wise transfers. The abstraction \<open>opts_rep\<close> relates a buffer to the list of its
    options, and the locale \<open>option_store\<close> is the contract of insertion and removal.
  \<^item> \<open>Coap_Code\<close> (\<open>avs_coap_code_utils.c\<close>, \<open>code.h\<close>) and \<open>Coap_Udp_Msg\<close> (\<open>udp/avs_coap_udp_msg.c\<close>,
    \<open>avs_coap_udp_header.h\<close>): codes, and messages with header, token, options and payload.
  \<^item> \<open>Avs_Buffer\<close> (\<open>avs_buffer.c\<close>): the byte queue, with the locale \<open>byte_queue\<close>; \<open>Coap_Udp_Cache\<close>
    (\<open>udp/avs_coap_udp_msg_cache.c\<close>): responses packed into such a queue, refining an abstract list.
  \<^item> \<open>Avs_Time\<close> (\<open>avs_time.c\<close>): durations and checked arithmetic; \<open>Avs_Sched\<close> (\<open>avs_sched.c\<close>): the
    scheduler, refining an ordered agenda.
  \<^item> \<open>Avs_Stream\<close> (\<open>avs_stream.c\<close> and its memory, input and output buffers): streams behind a table of
    operations; the locales \<open>byte_sink\<close>, \<open>byte_source\<close>, \<open>byte_source_zero\<close> and \<open>peekable_source\<close> are
    the contracts on which all readers and writers rest, each interpreted on the code's own streams.
  \<^item> \<open>Uri_Path\<close> (\<open>anjay_dm_utils.h\<close>): paths of the data model; \<open>Tlv_Out\<close>, \<open>Tlv_Out_Tree\<close>
    (\<open>io/anjay_tlv_out.c\<close>): the serializer and its refinement of an encoding of trees; \<open>Tlv_In\<close>,
    \<open>Tlv_In_Total\<close> (\<open>io/anjay_tlv_in.c\<close>): the reader and its totality on every input;
    \<open>Tlv_Roundtrip\<close>: reading what was written.
  \<^item> \<open>Dm_Execute\<close> (\<open>dm/anjay_dm_execute.c\<close>): the arguments of the Execute operation.
  \<^item> \<open>Coap_Udp_Ctx\<close> (\<open>udp/avs_coap_udp_ctx.c\<close>): the context of CoAP over UDP, with the queue of messages that
    wait for a reply, retransmission, the NSTART limit, observations and the use of the cache. The
    system around it is the parameter \<open>platform\<close> (clock, random numbers, socket, allocator, rounding of
    floating point results) with the law \<open>platform_ok\<close>; handlers above it are the parameter
    \<open>upper_layer\<close> with the laws \<open>upper_ok\<close> and \<open>upper_quiet\<close>. \<open>Coap_Udp_Queue\<close> holds the lemmas on the queue,
    \<open>Coap_Udp_Ctx_Ok\<close> the invariant, \<open>Coap_Udp_Ctx_Run\<close> and \<open>Coap_Udp_Ctx_Send\<close> the results of the operations,
    \<open>Coap_Udp_Ctx_Reach\<close> the step relation of a context between its creation and its cleanup, and
    \<open>Coap_Udp_Ctx_Props\<close>, \<open>_Requests\<close>, \<open>_Backoff\<close> and \<open>_Faults\<close> the properties. A response from the cache is
    passed by value.
  \<^item> \<open>Avs_Time_Float\<close>: the product of a duration and a floating point number, with the rounding as a parameter.
  \<^item> \<open>Anjay_Notify\<close> (\<open>anjay_notify.c\<close>): queues of changes of the data model; \<open>Dm_Objects\<close> (\<open>anjay_dm_core.c\<close>,
    \<open>dm/anjay_dm_handlers.c\<close>, \<open>dm/anjay_query.c\<close>): Objects as tables of handlers and the enumeration of their
    Instances and Resources; \<open>Acl_Ref\<close> (\<open>anjay_access_utils.c\<close>): the check of references to Instances.
  \<^item> \<open>Ac_Object\<close> (\<open>modules/access_control\<close>): the Access Control object with all its handlers; \<open>Ac_Object_Ok\<close>
    its invariant and the result of each handler; \<open>Ac_Validate\<close> the validation; \<open>Avs_Persistence\<close>
    (\<open>avs_persistence.c\<close>) and \<open>Ac_Persist\<close> (\<open>anjay_access_control_persistence.c\<close>) storing to and restoring
    from streams; \<open>Ac_Reach\<close> the states the object reaches; \<open>Ac_Decision\<close> (\<open>anjay_access_utils.c\<close>) the
    decision on a request, derived from the contract \<open>acl_store\<close> and interpreted on the object; \<open>Ac_Props\<close> the
    properties.

  What the lemmas show. For each operation there is a lemma that gives its result on every branch over
  the abstraction of its component; the properties follow from these. Encoders and decoders are related
  to a common reference encoding in both directions (\<open>enc_opts\<close>, \<open>msg_bytes\<close>, the encoding of TLV
  trees, \<open>args_bytes\<close>), which gives round trips, and exactness of the parsers on arbitrary input.
  Components with state (byte queue, cache, scheduler, serializer) refine abstract ones. Some lemmas and properties
  state faults of the code: \<open>optit_erase_before_65535_asserts\<close>, \<open>cache_get_expired_asserts\<close>,
  \<open>sched_leap_time_inverted\<close>, \<open>execute_skips_value\<close>, \<open>execute_negative_character\<close>,
  \<open>ack_before_timer_aborts\<close>, \<open>enqueue_invalid_time_accepted\<close>, \<open>ac_owner_zero_accepted\<close>.

  Not modelled. Sockets, TLS, cryptography, HTTP and logging only wrap the operating system or other
  libraries. Of \<open>avs_coap\<close>, the layers above the UDP context are left out: exchanges of the asynchronous
  client and server, block-wise transfers, the table of observations and the streaming interface. The
  core of Anjay is modelled as far as it is listed above; its registration, bootstrap, downloads and
  notifications are driven by callbacks over sockets. Left out of modelled files: formatted output
  through \<open>vsnprintf\<close>, most operations on floating point numbers, debug printers. The demo client, tests and
  the servers written in other languages are not part of the library.
\<close>

end
